(* ===== verification/Prelude.thy ===== *)
theory Prelude
  imports Main "HOL-Library.Word" "HOL-Library.Monad_Syntax"
begin

text \<open>
  Shared vocabulary of the development: names for the Rust integer types, checked indexing and
  slicing (a Rust panic is the value \<^const>\<open>None\<close> of an \<open>option\<close>), checked machine arithmetic, and the
  generic lemmas on lists and words that the component theories use.
\<close>

unbundle bit_operations_syntax

section \<open>Rust types\<close>

type_synonym u8 = "8 word"
type_synonym u16 = "16 word"
type_synonym u32 = "32 word"
type_synonym u64 = "64 word"
type_synonym u128 = "128 word"

text \<open>
  A computation that can panic returns \<open>'a may_panic\<close>: \<^const>\<open>None\<close> is the panic. A Rust \<^verbatim>\<open>Option\<close>
  result of such a computation is an \<open>option\<close> inside. Lengths and buffer positions (\<^verbatim>\<open>usize\<close>) are
  \<^typ>\<open>nat\<close>: they count bytes of allocated buffers, which Rust bounds by \<^verbatim>\<open>isize::MAX\<close>.
\<close>

type_synonym 'a may_panic = "'a option"

named_theorems rust_simps \<open>unfoldings of the Rust primitives\<close>

section \<open>Indexing and slicing\<close>

definition idx :: "'a list \<Rightarrow> nat \<Rightarrow> 'a may_panic" where
  "idx xs i = (if i < length xs then Some (xs ! i) else None)"

definition store :: "'a list \<Rightarrow> nat \<Rightarrow> 'a \<Rightarrow> 'a list may_panic" where
  "store xs i v = (if i < length xs then Some (xs[i := v]) else None)"

text \<open>\<open>slice xs a b\<close> is \<^verbatim>\<open>&xs[a..b]\<close>; \<open>overwrite\<close> is \<^verbatim>\<open>xs[i..][..ys.len()].copy_from_slice(ys)\<close>.\<close>

definition slice :: "'a list \<Rightarrow> nat \<Rightarrow> nat \<Rightarrow> 'a list may_panic" where
  "slice xs a b = (if a \<le> b \<and> b \<le> length xs then Some (take (b - a) (drop a xs)) else None)"

definition overwrite :: "'a list \<Rightarrow> nat \<Rightarrow> 'a list \<Rightarrow> 'a list" where
  "overwrite xs i ys = take i xs @ ys @ drop (i + length ys) xs"

definition checked_mul_u8 :: "u8 \<Rightarrow> u8 \<Rightarrow> u8 option" where
  "checked_mul_u8 a b = (if unat a * unat b < 256 then Some (a * b) else None)"

definition rust_assert :: "bool \<Rightarrow> unit may_panic" where
  "rust_assert b = (if b then Some () else None)"

declare idx_def [rust_simps] store_def [rust_simps] slice_def [rust_simps]
  rust_assert_def [rust_simps]

lemma rust_assert_simps [simp]: "rust_assert True = Some ()" "rust_assert False = None"
  by (simp_all add: rust_assert_def)

lemma idx_Some_iff: "idx xs i = Some x \<longleftrightarrow> i < length xs \<and> xs ! i = x"
  by (auto simp: idx_def)

lemma store_Some_iff: "store xs i v = Some ys \<longleftrightarrow> i < length xs \<and> ys = xs[i := v]"
  by (auto simp: store_def)

lemma slice_Some_length: "slice xs a b = Some ys \<Longrightarrow> length ys = b - a"
  by (auto simp: slice_def split: if_splits)

lemma length_overwrite [simp]: "i + length ys \<le> length xs \<Longrightarrow> length (overwrite xs i ys) = length xs"
  by (simp add: overwrite_def)

lemma take_overwrite: "i + length ys \<le> length xs \<Longrightarrow> take (i + length ys) (overwrite xs i ys) = take i xs @ ys"
  by (simp add: overwrite_def)

section \<open>Lists\<close>

lemma take_Suc_update: "n < length xs \<Longrightarrow> take (Suc n) (xs[n := v]) = take n xs @ [v]"
  by (simp add: take_Suc_conv_app_nth)

lemma overwrite_Nil [simp]: "overwrite xs i [] = xs"
  by (simp add: overwrite_def)

lemma overwrite_Cons: "i < length xs \<Longrightarrow> overwrite (xs[i := b]) (Suc i) ys = overwrite xs i (b # ys)"
  by (simp add: overwrite_def take_Suc_update)

lemma overwrite_overwrite:
  "i + length as \<le> length xs \<Longrightarrow> overwrite (overwrite xs i as) (i + length as) bs = overwrite xs i (as @ bs)"
  by (simp add: overwrite_def ac_simps)

lemma overwrite_single: "i < length xs \<Longrightarrow> xs[i := v] = overwrite xs i [v]"
  by (simp add: overwrite_def upd_conv_take_nth_drop)

lemma drop_nth_Cons: "n < length xs \<Longrightarrow> drop n xs = xs ! n # drop (Suc n) xs"
  by (simp add: Cons_nth_drop_Suc)

lemma drop_ConsD:
  assumes "drop n xs = c # cs"
  shows "n < length xs" and "xs ! n = c" and "drop (Suc n) xs = cs"
proof -
  show n: "n < length xs" using assms by (metis drop_all leI list.distinct(1))
  show "xs ! n = c" "drop (Suc n) xs = cs"
    using assms Cons_nth_drop_Suc [OF n] by simp_all
qed

text \<open>
  Writing a table entry by entry: when writes to the same slot always agree, each written slot
  holds the value written for it, whatever the order of the writes.
\<close>

fun write_all :: "('k \<Rightarrow> nat) \<Rightarrow> ('k \<Rightarrow> 'v) \<Rightarrow> 'k list \<Rightarrow> 'v list \<Rightarrow> 'v list" where
  "write_all key val [] t = t"
| "write_all key val (k # ks) t = write_all key val ks (t[key k := val k])"

lemma length_write_all [simp]: "length (write_all key val ks t) = length t"
  by (induction ks arbitrary: t) auto

lemma write_all_append: "write_all key val (xs @ ys) t = write_all key val ys (write_all key val xs t)"
  by (induction xs arbitrary: t) auto

lemma write_all_other: "i \<notin> key ` set ks \<Longrightarrow> write_all key val ks t ! i = t ! i"
  by (induction ks arbitrary: t) auto

lemma write_all_source:
  assumes "k \<in> set ks" and "key k < length t"
  shows "\<exists>j \<in> set ks. key j = key k \<and> write_all key val ks t ! key k = val j"
  using assms
proof (induction ks arbitrary: t k)
  case Nil
  then show ?case by simp
next
  case (Cons i ks)
  show ?case
  proof (cases "key k \<in> key ` set ks")
    case True
    then obtain l where "l \<in> set ks" "key l = key k" by auto
    then show ?thesis
      using Cons.IH [of l "t[key i := val i]"] Cons.prems(2) by auto
  next
    case False
    then have "k = i" using Cons.prems(1) by auto
    then show ?thesis using False Cons.prems(2) by (auto simp: write_all_other)
  qed
qed

lemma write_all_lookup:
  assumes "\<And>j. j \<in> set ks \<Longrightarrow> key j = key k \<Longrightarrow> val j = val k"
    and "k \<in> set ks" and "key k < length t"
  shows "write_all key val ks t ! key k = val k"
proof -
  obtain j where "j \<in> set ks" "key j = key k" "write_all key val ks t ! key k = val j"
    using write_all_source [of k ks key t val] assms(2,3) by blast
  then show ?thesis using assms(1) [of j] by simp
qed

section \<open>Bytes\<close>

definition all_bytes :: "u8 list" where
  "all_bytes = map word_of_nat [0..<256]"

lemma unat_u8_less [simp]: "unat (b :: u8) < 256"
  using unsigned_less [of b] by simp

lemma set_all_bytes [simp]: "b \<in> set all_bytes"
  unfolding all_bytes_def by (auto intro!: image_eqI [where x = "unat b"])

lemma unat_add_of_nat: "unat (x :: u64) + k < 2 ^ 64 \<Longrightarrow> unat (x + word_of_nat k) = unat x + k"
  by (simp add: unat_word_ariths unat_of_nat)

end
