(* ===== verification/Csv_Machine.thy ===== *)
theory Csv_Machine
  imports Prelude
begin

text \<open>
  The state machines of the CSV parser, \<^verbatim>\<open>rust-csv/csv-core/src/reader.rs\<close> (and the terminator type of
  \<^verbatim>\<open>lib.rs\<close>): the NFA transition function, the byte-class compressed DFA table and its construction by
  \<^verbatim>\<open>build_dfa\<close>. The main result is that every cell of the table is the epsilon closure of one NFA step.
\<close>

section \<open>Terminators\<close>

datatype Terminator = CRLF | Any u8 | Nonexhaustive

abbreviation LF :: u8 where "LF \<equiv> 10"
abbreviation CR :: u8 where "CR \<equiv> 13"

fun is_crlf :: "Terminator \<Rightarrow> bool may_panic" where
  "is_crlf Terminator.CRLF = Some True"
| "is_crlf (Any b) = Some False"
| "is_crlf Nonexhaustive = None"

fun equals :: "Terminator \<Rightarrow> u8 \<Rightarrow> bool may_panic" where
  "equals Terminator.CRLF other = Some (other = CR \<or> other = LF)"
| "equals (Any b) other = Some (other = b)"
| "equals Nonexhaustive other = None"

section \<open>States, actions and the DFA record\<close>

datatype NfaInputAction = Epsilon | CopyToOutput | Discard

datatype NfaState =
  EndFieldTerm | InRecordTerm | End
| StartRecord | StartField | InField | InQuotedField | InEscapedQuote
| InDoubleEscapedQuote | InComment | EndFieldDelim | EndRecord | CRLF

text \<open>The discriminants of the Rust enum (\<^verbatim>\<open>nfa_state as u8\<close>).\<close>

fun nfa_num :: "NfaState \<Rightarrow> u8" where
  "nfa_num EndFieldTerm = 200"
| "nfa_num InRecordTerm = 201"
| "nfa_num End = 202"
| "nfa_num StartRecord = 0"
| "nfa_num StartField = 1"
| "nfa_num InField = 2"
| "nfa_num InQuotedField = 3"
| "nfa_num InEscapedQuote = 4"
| "nfa_num InDoubleEscapedQuote = 5"
| "nfa_num InComment = 6"
| "nfa_num EndFieldDelim = 7"
| "nfa_num EndRecord = 8"
| "nfa_num NfaState.CRLF = 9"

definition NFA_STATES :: "NfaState list" where
  "NFA_STATES = [StartRecord, StartField, EndFieldDelim, InField, InQuotedField, InEscapedQuote,
     InDoubleEscapedQuote, InComment, EndRecord, NfaState.CRLF]"

fun is_field_final :: "NfaState \<Rightarrow> bool" where
  "is_field_final End = True"
| "is_field_final EndRecord = True"
| "is_field_final NfaState.CRLF = True"
| "is_field_final EndFieldDelim = True"
| "is_field_final _ = False"

fun is_record_final :: "NfaState \<Rightarrow> bool" where
  "is_record_final End = True"
| "is_record_final EndRecord = True"
| "is_record_final NfaState.CRLF = True"
| "is_record_final _ = False"

definition TRANS_CLASSES :: nat where "TRANS_CLASSES = 7"
definition DFA_STATES :: nat where "DFA_STATES = 10"
definition TRANS_SIZE :: nat where "TRANS_SIZE = TRANS_CLASSES * DFA_STATES"
definition CLASS_SIZE :: nat where "CLASS_SIZE = 256"

text \<open>\<open>DfaState(u8)\<close> is a row start in the transition table; its derived order is that of the byte.\<close>

type_synonym DfaState = u8

definition start :: DfaState where "start = 0"

definition is_start :: "DfaState \<Rightarrow> bool" where "is_start s \<longleftrightarrow> s = 0"

record DfaClasses =
  classes :: "u8 list"
  next_class :: nat

record Dfa =
  trans_table :: "DfaState list"
  has_output :: "bool list"
  dfa_classes :: DfaClasses
  in_field :: DfaState
  in_quoted :: DfaState
  final_field :: DfaState
  final_record :: DfaState

definition classes_new :: DfaClasses where
  "classes_new = \<lparr>classes = replicate CLASS_SIZE 0, next_class = 1\<rparr>"

definition classes_add :: "DfaClasses \<Rightarrow> u8 \<Rightarrow> DfaClasses may_panic" where
  "classes_add k b =
     (if next_class k > CLASS_SIZE then None
      else do {
        cs \<leftarrow> store (classes k) (unat b) (word_of_nat (next_class k));
        Some \<lparr>classes = cs, next_class = next_class k + 1\<rparr>
      })"

definition num_classes :: "DfaClasses \<Rightarrow> nat" where
  "num_classes k = next_class k"

definition dfa_new :: Dfa where
  "dfa_new = \<lparr>trans_table = replicate TRANS_SIZE 0, has_output = replicate TRANS_SIZE False,
     dfa_classes = classes_new, in_field = 0, in_quoted = 0, final_field = 0, final_record = 0\<rparr>"

definition new_state :: "Dfa \<Rightarrow> NfaState \<Rightarrow> DfaState may_panic" where
  "new_state d s = checked_mul_u8 (nfa_num s) (word_of_nat (num_classes (dfa_classes d)))"

definition new_state_final_end :: "Dfa \<Rightarrow> DfaState may_panic" where
  "new_state_final_end d = new_state d StartRecord"

definition new_state_final_record :: "Dfa \<Rightarrow> DfaState may_panic" where
  "new_state_final_record d = new_state d EndRecord"

definition get_output :: "Dfa \<Rightarrow> DfaState \<Rightarrow> u8 \<Rightarrow> (DfaState \<times> bool) may_panic" where
  "get_output d s c = do {
     cls \<leftarrow> idx (classes (dfa_classes d)) (unat c);
     let i = unat s + unat cls;
     t \<leftarrow> idx (trans_table d) i;
     h \<leftarrow> idx (has_output d) i;
     Some (t, h)
   }"

definition dfa_set :: "Dfa \<Rightarrow> DfaState \<Rightarrow> u8 \<Rightarrow> DfaState \<Rightarrow> bool \<Rightarrow> Dfa may_panic" where
  "dfa_set d from c to out = do {
     cls \<leftarrow> idx (classes (dfa_classes d)) (unat c);
     let i = unat from + unat cls;
     ts \<leftarrow> store (trans_table d) i to;
     hs \<leftarrow> store (has_output d) i out;
     Some (d\<lparr>trans_table := ts, has_output := hs\<rparr>)
   }"

definition dfa_finish :: "Dfa \<Rightarrow> Dfa may_panic" where
  "dfa_finish d = do {
     a \<leftarrow> new_state d InField;
     b \<leftarrow> new_state d InQuotedField;
     c \<leftarrow> new_state d EndFieldDelim;
     e \<leftarrow> new_state d EndRecord;
     Some (d\<lparr>in_field := a, in_quoted := b, final_field := c, final_record := e\<rparr>)
   }"

text \<open>\<^verbatim>\<open>impl Clone for Dfa\<close> copies the transition table only.\<close>

definition dfa_clone :: "Dfa \<Rightarrow> Dfa" where
  "dfa_clone d = dfa_new\<lparr>trans_table := trans_table d\<rparr>"

definition classes_clone :: "DfaClasses \<Rightarrow> DfaClasses" where
  "classes_clone k = classes_new\<lparr>classes := classes k\<rparr>"

section \<open>The reader record and its builder\<close>

record Reader =
  r_dfa :: Dfa
  r_dfa_state :: DfaState
  r_nfa_state :: NfaState
  r_delimiter :: u8
  r_term :: Terminator
  r_quote :: u8
  r_escape :: "u8 option"
  r_double_quote :: bool
  r_comment :: "u8 option"
  r_quoting :: bool
  r_use_nfa :: bool
  r_line :: u64
  r_has_read :: bool
  r_output_pos :: nat

definition reader_default :: Reader where
  "reader_default = \<lparr>r_dfa = dfa_new, r_dfa_state = start, r_nfa_state = StartRecord,
     r_delimiter = 44, r_term = Terminator.CRLF, r_quote = 34, r_escape = None,
     r_double_quote = True, r_comment = None, r_quoting = True, r_use_nfa = False, r_line = 1,
     r_has_read = False, r_output_pos = 0\<rparr>"

text \<open>The setters of \<^verbatim>\<open>ReaderBuilder\<close>; a builder is the reader it configures.\<close>

definition builder_delimiter :: "Reader \<Rightarrow> u8 \<Rightarrow> Reader" where
  "builder_delimiter b c = b\<lparr>r_delimiter := c\<rparr>"
definition builder_terminator :: "Reader \<Rightarrow> Terminator \<Rightarrow> Reader" where
  "builder_terminator b t = b\<lparr>r_term := t\<rparr>"
definition builder_quote :: "Reader \<Rightarrow> u8 \<Rightarrow> Reader" where
  "builder_quote b c = b\<lparr>r_quote := c\<rparr>"
definition builder_escape :: "Reader \<Rightarrow> u8 option \<Rightarrow> Reader" where
  "builder_escape b e = b\<lparr>r_escape := e\<rparr>"
definition builder_double_quote :: "Reader \<Rightarrow> bool \<Rightarrow> Reader" where
  "builder_double_quote b y = b\<lparr>r_double_quote := y\<rparr>"
definition builder_quoting :: "Reader \<Rightarrow> bool \<Rightarrow> Reader" where
  "builder_quoting b y = b\<lparr>r_quoting := y\<rparr>"
definition builder_comment :: "Reader \<Rightarrow> u8 option \<Rightarrow> Reader" where
  "builder_comment b c = b\<lparr>r_comment := c\<rparr>"
definition builder_nfa :: "Reader \<Rightarrow> bool \<Rightarrow> Reader" where
  "builder_nfa b y = b\<lparr>r_use_nfa := y\<rparr>"
definition builder_ascii :: "Reader \<Rightarrow> Reader" where
  "builder_ascii b = builder_terminator (builder_delimiter b 31) (Any 30)"

section \<open>NFA transitions\<close>

fun transition_final_nfa :: "NfaState \<Rightarrow> NfaState" where
  "transition_final_nfa End = End"
| "transition_final_nfa StartRecord = End"
| "transition_final_nfa EndRecord = End"
| "transition_final_nfa InComment = End"
| "transition_final_nfa NfaState.CRLF = End"
| "transition_final_nfa StartField = EndRecord"
| "transition_final_nfa EndFieldDelim = EndRecord"
| "transition_final_nfa EndFieldTerm = EndRecord"
| "transition_final_nfa InField = EndRecord"
| "transition_final_nfa InQuotedField = EndRecord"
| "transition_final_nfa InEscapedQuote = EndRecord"
| "transition_final_nfa InDoubleEscapedQuote = EndRecord"
| "transition_final_nfa InRecordTerm = EndRecord"

fun transition_nfa :: "Reader \<Rightarrow> NfaState \<Rightarrow> u8 \<Rightarrow> (NfaState \<times> NfaInputAction) may_panic" where
  "transition_nfa r End c = Some (End, Epsilon)"
| "transition_nfa r StartRecord c = do {
     e \<leftarrow> equals (r_term r) c;
     Some (if e then (StartRecord, Discard)
           else if r_comment r = Some c then (InComment, Discard)
           else (StartField, Epsilon))
   }"
| "transition_nfa r EndRecord c = Some (StartRecord, Epsilon)"
| "transition_nfa r StartField c =
     (if r_quoting r \<and> r_quote r = c then Some (InQuotedField, Discard)
      else if r_delimiter r = c then Some (EndFieldDelim, Discard)
      else do {
        e \<leftarrow> equals (r_term r) c;
        Some (if e then (EndFieldTerm, Epsilon) else (InField, CopyToOutput))
      })"
| "transition_nfa r EndFieldDelim c = Some (StartField, Epsilon)"
| "transition_nfa r EndFieldTerm c = Some (InRecordTerm, Epsilon)"
| "transition_nfa r InField c =
     (if r_delimiter r = c then Some (EndFieldDelim, Discard)
      else do {
        e \<leftarrow> equals (r_term r) c;
        Some (if e then (EndFieldTerm, Epsilon) else (InField, CopyToOutput))
      })"
| "transition_nfa r InQuotedField c =
     Some (if r_quoting r \<and> r_quote r = c then (InDoubleEscapedQuote, Discard)
           else if r_quoting r \<and> r_escape r = Some c then (InEscapedQuote, Discard)
           else (InQuotedField, CopyToOutput))"
| "transition_nfa r InEscapedQuote c = Some (InQuotedField, CopyToOutput)"
| "transition_nfa r InDoubleEscapedQuote c =
     (if r_quoting r \<and> r_double_quote r \<and> r_quote r = c then Some (InQuotedField, CopyToOutput)
      else if r_delimiter r = c then Some (EndFieldDelim, Discard)
      else do {
        e \<leftarrow> equals (r_term r) c;
        Some (if e then (EndFieldTerm, Epsilon) else (InField, CopyToOutput))
      })"
| "transition_nfa r InComment c =
     Some (if LF = c then (StartRecord, Discard) else (InComment, Discard))"
| "transition_nfa r InRecordTerm c = do {
     l \<leftarrow> is_crlf (r_term r);
     Some (if l \<and> CR = c then (NfaState.CRLF, Discard) else (EndRecord, Discard))
   }"
| "transition_nfa r NfaState.CRLF c =
     Some (if LF = c then (StartRecord, Discard) else (StartRecord, Epsilon))"

text \<open>
  Epsilon chains are finite: every epsilon transition lowers the rank. This is what makes the
  inner \<^verbatim>\<open>while\<close> loop of \<^verbatim>\<open>build_dfa\<close> stop.
\<close>

fun eps_rank :: "NfaState \<Rightarrow> nat" where
  "eps_rank EndRecord = 6"
| "eps_rank NfaState.CRLF = 6"
| "eps_rank StartRecord = 5"
| "eps_rank EndFieldDelim = 5"
| "eps_rank StartField = 4"
| "eps_rank InField = 4"
| "eps_rank InDoubleEscapedQuote = 4"
| "eps_rank EndFieldTerm = 3"
| "eps_rank InRecordTerm = 2"
| "eps_rank _ = 1"

lemma transition_nfa_rank:
  "transition_nfa r s c = Some (t, Epsilon) \<Longrightarrow> s \<noteq> End \<Longrightarrow> eps_rank t < eps_rank s"
  by (cases s) (auto split: if_splits bind_splits)

lemma eps_rank_pos: "0 < eps_rank s"
  by (cases s) simp_all

function consume_eps :: "Reader \<Rightarrow> NfaState \<times> NfaInputAction \<Rightarrow> u8 \<Rightarrow> (NfaState \<times> NfaInputAction) may_panic" where
  "consume_eps r nr c =
     (if fst nr \<noteq> End \<and> snd nr = Epsilon
      then (case transition_nfa r (fst nr) c of None \<Rightarrow> None | Some nr' \<Rightarrow> consume_eps r nr' c)
      else Some nr)"
  by pat_completeness auto
termination
  by (relation "measure (\<lambda>(r, nr, c). if snd nr = Epsilon then eps_rank (fst nr) else 0)")
    (auto dest: transition_nfa_rank simp: eps_rank_pos)

declare consume_eps.simps [simp del]

section \<open>Building the DFA\<close>

definition add_classes :: "Reader \<Rightarrow> DfaClasses may_panic" where
  "add_classes r = do {
     k \<leftarrow> classes_add (dfa_classes (r_dfa r)) (r_delimiter r);
     k \<leftarrow> (if r_quoting r then do {
            k \<leftarrow> classes_add k (r_quote r);
            (case r_escape r of None \<Rightarrow> Some k | Some e \<Rightarrow> classes_add k e)
          } else Some k);
     k \<leftarrow> (case r_comment r of None \<Rightarrow> Some k | Some c \<Rightarrow> classes_add k c);
     (case r_term r of
        Any b \<Rightarrow> classes_add k b
      | Terminator.CRLF \<Rightarrow> do { k \<leftarrow> classes_add k CR; classes_add k LF }
      | Nonexhaustive \<Rightarrow> None)
   }"

fun build_row :: "Reader \<Rightarrow> NfaState \<Rightarrow> u8 list \<Rightarrow> Reader may_panic" where
  "build_row r s [] = Some r"
| "build_row r s (c # cs) = do {
     nr \<leftarrow> consume_eps r (s, Epsilon) c;
     from \<leftarrow> new_state (r_dfa r) s;
     to \<leftarrow> new_state (r_dfa r) (fst nr);
     d \<leftarrow> dfa_set (r_dfa r) from c to (snd nr = CopyToOutput);
     build_row (r\<lparr>r_dfa := d\<rparr>) s cs
   }"

fun build_rows :: "Reader \<Rightarrow> NfaState list \<Rightarrow> Reader may_panic" where
  "build_rows r [] = Some r"
| "build_rows r (s # ss) = do { r' \<leftarrow> build_row r s all_bytes; build_rows r' ss }"

definition build_dfa :: "Reader \<Rightarrow> Reader may_panic" where
  "build_dfa r = do {
     k \<leftarrow> add_classes r;
     r \<leftarrow> build_rows (r\<lparr>r_dfa := (r_dfa r)\<lparr>dfa_classes := k\<rparr>\<rparr>) NFA_STATES;
     s \<leftarrow> new_state (r_dfa r) StartRecord;
     d \<leftarrow> dfa_finish (r_dfa r);
     Some (r\<lparr>r_dfa_state := s, r_dfa := d\<rparr>)
   }"

text \<open>\<^verbatim>\<open>Reader\<close> derives \<^verbatim>\<open>Clone\<close>, so its \<^verbatim>\<open>dfa\<close> field is cloned by \<^const>\<open>dfa_clone\<close>.\<close>

definition reader_clone :: "Reader \<Rightarrow> Reader" where
  "reader_clone r = r\<lparr>r_dfa := dfa_clone (r_dfa r)\<rparr>"

definition build :: "Reader \<Rightarrow> Reader may_panic" where
  "build b = build_dfa (reader_clone b)"

section \<open>Reference semantics: one byte, one step\<close>

text \<open>
  \<open>csv_step r s c\<close> is what reading the byte \<open>c\<close> in state \<open>s\<close> means: the next state and whether \<open>c\<close>
  is field data. It has no epsilon transitions and no table.
\<close>

fun term_is :: "Terminator \<Rightarrow> u8 \<Rightarrow> bool" where
  "term_is Terminator.CRLF c \<longleftrightarrow> c = CR \<or> c = LF"
| "term_is (Any b) c \<longleftrightarrow> c = b"
| "term_is Nonexhaustive c \<longleftrightarrow> False"

definition unquoted_step :: "Reader \<Rightarrow> u8 \<Rightarrow> NfaState \<times> bool" where
  "unquoted_step r c =
     (if r_delimiter r = c then (EndFieldDelim, False)
      else if term_is (r_term r) c
        then (if r_term r = Terminator.CRLF \<and> c = CR then NfaState.CRLF else EndRecord, False)
      else (InField, True))"

definition field_step :: "Reader \<Rightarrow> u8 \<Rightarrow> NfaState \<times> bool" where
  "field_step r c = (if r_quoting r \<and> r_quote r = c then (InQuotedField, False) else unquoted_step r c)"

definition record_step :: "Reader \<Rightarrow> u8 \<Rightarrow> NfaState \<times> bool" where
  "record_step r c =
     (if term_is (r_term r) c then (StartRecord, False)
      else if r_comment r = Some c then (InComment, False)
      else field_step r c)"

fun csv_step :: "Reader \<Rightarrow> NfaState \<Rightarrow> u8 \<Rightarrow> NfaState \<times> bool" where
  "csv_step r StartRecord c = record_step r c"
| "csv_step r EndRecord c = record_step r c"
| "csv_step r NfaState.CRLF c = (if c = LF then (StartRecord, False) else record_step r c)"
| "csv_step r StartField c = field_step r c"
| "csv_step r EndFieldDelim c = field_step r c"
| "csv_step r InField c = unquoted_step r c"
| "csv_step r InQuotedField c =
     (if r_quoting r \<and> r_quote r = c then (InDoubleEscapedQuote, False)
      else if r_quoting r \<and> r_escape r = Some c then (InEscapedQuote, False)
      else (InQuotedField, True))"
| "csv_step r InEscapedQuote c = (InQuotedField, True)"
| "csv_step r InDoubleEscapedQuote c =
     (if r_quoting r \<and> r_double_quote r \<and> r_quote r = c then (InQuotedField, True)
      else unquoted_step r c)"
| "csv_step r InComment c = (if c = LF then StartRecord else InComment, False)"
| "csv_step r s c = (s, False)"

lemmas step_defs = unquoted_step_def field_step_def record_step_def

definition term_ok :: "Reader \<Rightarrow> bool" where
  "term_ok r \<longleftrightarrow> r_term r \<noteq> Nonexhaustive"

lemma equals_term_is [simp]: "term_ok r \<Longrightarrow> equals (r_term r) c = Some (term_is (r_term r) c)"
  by (cases "r_term r") (auto simp: term_ok_def)

lemma is_crlf_ok [simp]: "term_ok r \<Longrightarrow> is_crlf (r_term r) = Some (r_term r = Terminator.CRLF)"
  by (cases "r_term r") (auto simp: term_ok_def)

abbreviation dfa_states :: "NfaState set" where
  "dfa_states \<equiv> set NFA_STATES"

lemma dfa_states_iff: "s \<in> dfa_states \<longleftrightarrow> s \<notin> {EndFieldTerm, InRecordTerm, End}"
  by (cases s) (simp_all add: NFA_STATES_def)

lemma unquoted_step_dfa_states [simp]: "fst (unquoted_step r c) \<in> dfa_states"
  by (simp add: unquoted_step_def NFA_STATES_def)

lemma csv_step_dfa_states [simp]: "s \<in> dfa_states \<Longrightarrow> fst (csv_step r s c) \<in> dfa_states"
  by (cases s) (simp_all add: step_defs NFA_STATES_def)

lemma consume_eps_stop [simp]:
  "a \<noteq> Epsilon \<Longrightarrow> consume_eps r (s, a) c = Some (s, a)"
  by (simp add: consume_eps.simps)

lemma consume_eps_go:
  "s \<noteq> End \<Longrightarrow> consume_eps r (s, Epsilon) c =
     (case transition_nfa r s c of None \<Rightarrow> None | Some nr \<Rightarrow> consume_eps r nr c)"
  by (subst consume_eps.simps) simp

text \<open>The epsilon closure of the NFA is the reference step.\<close>

lemma consume_eps_csv_step:
  assumes "term_ok r" and "s \<in> dfa_states"
  shows "\<exists>a. consume_eps r (s, Epsilon) c = Some (fst (csv_step r s c), a)
           \<and> a \<noteq> Epsilon \<and> (a = CopyToOutput \<longleftrightarrow> snd (csv_step r s c))"
  using assms
  by (cases s) (auto simp: consume_eps_go step_defs dfa_states_iff)

end
