(* ===== verification/Csv_Table.thy ===== *)
theory Csv_Table
  imports Csv_Machine
begin

text \<open>
  Correctness of \<^verbatim>\<open>Reader::build_dfa\<close> (\<^verbatim>\<open>csv-core/src/reader.rs\<close>): the byte classes separate exactly the
  configured special bytes, no table write is out of range, and the finished table computes
  \<^const>\<open>csv_step\<close>.
\<close>

section \<open>Byte classes\<close>

definition class_of :: "DfaClasses \<Rightarrow> u8 \<Rightarrow> u8" where
  "class_of k c = classes k ! unat c"

definition classes_inv :: "DfaClasses \<Rightarrow> bool" where
  "classes_inv k \<longleftrightarrow> length (classes k) = 256 \<and> 1 \<le> next_class k
     \<and> (\<forall>c. unat (class_of k c) < next_class k)
     \<and> (\<forall>c c'. class_of k c = class_of k c' \<and> class_of k c \<noteq> 0 \<longrightarrow> c = c')"

definition separated :: "DfaClasses \<Rightarrow> u8 set" where
  "separated k = {c. class_of k c \<noteq> 0}"

fun classes_add_all :: "DfaClasses \<Rightarrow> u8 list \<Rightarrow> DfaClasses may_panic" where
  "classes_add_all k [] = Some k"
| "classes_add_all k (b # bs) = do { k' \<leftarrow> classes_add k b; classes_add_all k' bs }"

lemma classes_add_all_append:
  "classes_add_all k (as @ bs) = do { k' \<leftarrow> classes_add_all k as; classes_add_all k' bs }"
  by (induction as arbitrary: k) (auto split: bind_splits)

definition special_bytes :: "Reader \<Rightarrow> u8 list" where
  "special_bytes r = r_delimiter r
     # (if r_quoting r then r_quote r # (case r_escape r of None \<Rightarrow> [] | Some e \<Rightarrow> [e]) else [])
     @ (case r_comment r of None \<Rightarrow> [] | Some c \<Rightarrow> [c])
     @ (case r_term r of Terminator.CRLF \<Rightarrow> [CR, LF] | Any b \<Rightarrow> [b] | Nonexhaustive \<Rightarrow> [])"

lemma length_special_bytes: "length (special_bytes r) \<le> 6"
  by (simp add: special_bytes_def split: option.split Terminator.split)

lemma add_classes_special:
  "term_ok r \<Longrightarrow> add_classes r = classes_add_all (dfa_classes (r_dfa r)) (special_bytes r)"
  by (auto simp: add_classes_def special_bytes_def term_ok_def classes_add_all_append
      split: option.splits Terminator.splits bind_splits)

lemma classes_new_inv: "classes_inv classes_new" "separated classes_new = {}" "next_class classes_new = 1"
  by (auto simp: classes_inv_def classes_new_def separated_def class_of_def CLASS_SIZE_def)

lemma class_of_add:
  assumes "length (classes k) = 256"
  shows "class_of \<lparr>classes = (classes k)[unat b := v], next_class = n\<rparr> c = (if c = b then v else class_of k c)"
  using assms by (auto simp: class_of_def nth_list_update word_unat_eq_iff)

lemma classes_invD:
  assumes "classes_inv k"
  shows "length (classes k) = 256" and "1 \<le> next_class k" and "unat (class_of k c) < next_class k"
    and "class_of k c = class_of k c' \<Longrightarrow> class_of k c \<noteq> 0 \<Longrightarrow> c = c'"
  using assms unfolding classes_inv_def by blast+

lemma classes_add_ok:
  assumes inv: "classes_inv k" and n: "next_class k < 256"
  shows "\<exists>k'. classes_add k b = Some k' \<and> classes_inv k'
           \<and> separated k' = insert b (separated k) \<and> next_class k' = Suc (next_class k)"
proof -
  let ?v = "word_of_nat (next_class k) :: u8"
  let ?k' = "\<lparr>classes = (classes k)[unat b := ?v], next_class = Suc (next_class k)\<rparr>"
  have v: "unat ?v = next_class k" using n by (simp add: unat_of_nat)
  have fresh: "class_of k c \<noteq> ?v" for c
    using classes_invD(3) [OF inv, of c] v by auto
  have len: "length (classes k) = 256" using inv by (rule classes_invD)
  have nz: "?v \<noteq> 0" using classes_invD(2) [OF inv] v by (metis not_one_le_zero unat_0)
  have "classes_add k b = Some ?k'"
    using n len by (simp add: classes_add_def store_def CLASS_SIZE_def)
  moreover have "classes_inv ?k'"
    unfolding classes_inv_def class_of_add [OF len]
  proof (intro conjI allI impI)
    fix c c'
    show "unat (if c = b then ?v else class_of k c) < next_class ?k'"
      using classes_invD(3) [OF inv, of c] v by simp
    assume "(if c = b then ?v else class_of k c) = (if c' = b then ?v else class_of k c')
      \<and> (if c = b then ?v else class_of k c) \<noteq> 0"
    then show "c = c'"
      using fresh [of c] fresh [of c'] classes_invD(4) [OF inv, of c c'] by (auto split: if_splits)
  qed (use len in simp_all)
  moreover have "separated ?k' = insert b (separated k)"
    using nz by (auto simp: separated_def class_of_add [OF len])
  ultimately show ?thesis by simp
qed

lemma classes_add_all_ok:
  "classes_inv k \<Longrightarrow> next_class k + length bs \<le> 256 \<Longrightarrow>
   \<exists>k'. classes_add_all k bs = Some k' \<and> classes_inv k'
     \<and> separated k' = set bs \<union> separated k \<and> next_class k' = next_class k + length bs"
proof (induction bs arbitrary: k)
  case Nil
  then show ?case by simp
next
  case (Cons b bs)
  then obtain k1 where k1: "classes_add k b = Some k1" "classes_inv k1"
      "separated k1 = insert b (separated k)" "next_class k1 = Suc (next_class k)"
    using classes_add_ok [of k b] by auto
  with Cons.IH [of k1] Cons.prems show ?case by auto
qed

lemma add_classes_ok:
  assumes "term_ok r" and "dfa_classes (r_dfa r) = classes_new"
  obtains k where "add_classes r = Some k" "classes_inv k" "separated k = set (special_bytes r)"
    "next_class k \<le> 7"
  using classes_add_all_ok [of classes_new "special_bytes r"] assms length_special_bytes [of r]
  by (auto simp: add_classes_special classes_new_inv)

section \<open>The reference step respects the classes\<close>

text \<open>
  \<open>lf_visible r s\<close>: the step from \<open>s\<close> does not look at a line feed that the classes hide. Only the
  states \<open>InComment\<close> and \<open>CRLF\<close> test for a line feed that need not be the configured terminator.
\<close>

definition lf_visible :: "Reader \<Rightarrow> NfaState \<Rightarrow> bool" where
  "lf_visible r s \<longleftrightarrow> LF \<in> set (special_bytes r) \<or> s \<notin> {InComment, NfaState.CRLF}"

lemma special_bytes_iff:
  "c \<in> set (special_bytes r) \<longleftrightarrow> c = r_delimiter r \<or> r_quoting r \<and> (c = r_quote r \<or> r_escape r = Some c)
     \<or> r_comment r = Some c \<or> term_is (r_term r) c"
  by (auto simp: special_bytes_def split: option.splits Terminator.splits)

lemma csv_step_ordinary:
  assumes "c \<notin> set (special_bytes r)" and "c' \<notin> set (special_bytes r)" and "lf_visible r s"
  shows "csv_step r s c = csv_step r s c'"
  using assms unfolding lf_visible_def special_bytes_iff
  by (cases s) (auto simp: step_defs)

lemma csv_step_class:
  assumes "classes_inv k" "separated k = set (special_bytes r)" "lf_visible r s"
    and "class_of k c = class_of k c'"
  shows "csv_step r s c = csv_step r s c'"
proof (cases "class_of k c = 0")
  case True
  then show ?thesis
    using assms by (intro csv_step_ordinary) (auto simp: separated_def)
next
  case False
  then show ?thesis using classes_invD(4) [OF assms(1,4)] by simp
qed

section \<open>Rows of the table\<close>

definition row :: "Dfa \<Rightarrow> NfaState \<Rightarrow> DfaState" where
  "row d s = nfa_num s * word_of_nat (next_class (dfa_classes d))"

lemma nfa_num_le: "s \<in> dfa_states \<Longrightarrow> unat (nfa_num s) \<le> 9"
  by (cases s) (simp_all add: NFA_STATES_def)

lemma nfa_num_inj: "unat (nfa_num s) = unat (nfa_num t) \<Longrightarrow> s = t"
  by (cases s; cases t) simp_all

lemma new_state_row:
  assumes "next_class (dfa_classes d) \<le> 7" and "s \<in> dfa_states"
  shows "new_state d s = Some (row d s)"
    and "unat (row d s) = unat (nfa_num s) * next_class (dfa_classes d)"
proof -
  have n: "unat (word_of_nat (next_class (dfa_classes d)) :: u8) = next_class (dfa_classes d)"
    using assms(1) by (simp add: unat_of_nat)
  have "unat (nfa_num s) * next_class (dfa_classes d) \<le> 9 * 7"
    using assms(1) nfa_num_le [OF assms(2)] by (intro mult_le_mono) auto
  then have b: "unat (nfa_num s) * next_class (dfa_classes d) < 256" by simp
  show "new_state d s = Some (row d s)"
    using b n by (simp add: new_state_def checked_mul_u8_def row_def num_classes_def)
  show "unat (row d s) = unat (nfa_num s) * next_class (dfa_classes d)"
    using b n by (simp add: row_def unat_word_ariths)
qed

definition cell :: "Dfa \<Rightarrow> NfaState \<times> u8 \<Rightarrow> nat" where
  "cell d sc = unat (row d (fst sc)) + unat (class_of (dfa_classes d) (snd sc))"

lemma row_cell_tables [simp]:
  "row (d\<lparr>trans_table := ts\<rparr>) = row d" "row (d\<lparr>has_output := hs\<rparr>) = row d"
  "cell (d\<lparr>trans_table := ts\<rparr>) = cell d" "cell (d\<lparr>has_output := hs\<rparr>) = cell d"
  by (simp_all add: row_def cell_def fun_eq_iff)

text \<open>The tables are allocated and the classes are those of the configuration.\<close>

definition table_inv :: "Reader \<Rightarrow> Dfa \<Rightarrow> bool" where
  "table_inv r d \<longleftrightarrow> classes_inv (dfa_classes d) \<and> next_class (dfa_classes d) \<le> 7
     \<and> separated (dfa_classes d) = set (special_bytes r)
     \<and> length (trans_table d) = 70 \<and> length (has_output d) = 70"

lemma cell_bound:
  assumes "table_inv r d" and "s \<in> dfa_states"
  shows "cell d (s, c) < 70"
proof -
  let ?n = "next_class (dfa_classes d)"
  have n: "?n \<le> 7" and c: "unat (class_of (dfa_classes d) c) < ?n"
    using assms(1) by (auto simp: table_inv_def dest: classes_invD(3))
  have "unat (row d s) \<le> 9 * ?n"
    using new_state_row(2) [OF n assms(2)] nfa_num_le [OF assms(2)] by simp
  then show ?thesis using n c by (simp add: cell_def)
qed

lemma cell_inj:
  assumes inv: "table_inv r d" and "s \<in> dfa_states" "t \<in> dfa_states"
    and eq: "cell d (s, c) = cell d (t, c')"
  shows "s = t \<and> class_of (dfa_classes d) c = class_of (dfa_classes d) c'"
proof -
  let ?n = "next_class (dfa_classes d)" and ?k = "class_of (dfa_classes d)"
  have n: "?n \<le> 7" and b: "unat (?k c) < ?n" "unat (?k c') < ?n"
    using inv by (auto simp: table_inv_def dest: classes_invD(3))
  have e: "unat (nfa_num s) * ?n + unat (?k c) = unat (nfa_num t) * ?n + unat (?k c')"
    using eq new_state_row(2) [OF n] assms(2,3) by (simp add: cell_def)
  have "(unat (nfa_num s) * ?n + unat (?k c)) div ?n = unat (nfa_num s)"
    "(unat (nfa_num t) * ?n + unat (?k c')) div ?n = unat (nfa_num t)"
    using b by simp_all
  then have "unat (nfa_num s) = unat (nfa_num t)" using e by simp
  then show ?thesis using e by (auto dest: nfa_num_inj simp: word_unat_eq_iff)
qed

text \<open>The part of a reader that determines its transitions; reading changes none of it.\<close>

definition cfg :: "Reader \<Rightarrow> u8 \<times> Terminator \<times> u8 \<times> u8 option \<times> bool \<times> u8 option \<times> bool" where
  "cfg r = (r_delimiter r, r_term r, r_quote r, r_escape r, r_double_quote r, r_comment r, r_quoting r)"

lemma cfg_simps [simp]:
  "cfg (r\<lparr>r_dfa := d\<rparr>) = cfg r" "cfg (r\<lparr>r_dfa_state := s\<rparr>) = cfg r"
  "cfg (r\<lparr>r_nfa_state := t\<rparr>) = cfg r" "cfg (r\<lparr>r_line := l\<rparr>) = cfg r"
  "cfg (r\<lparr>r_has_read := h\<rparr>) = cfg r" "cfg (r\<lparr>r_output_pos := p\<rparr>) = cfg r"
  by (simp_all add: cfg_def)

lemma cfg_cong:
  assumes "cfg r = cfg q"
  shows "csv_step r s c = csv_step q s c" and "term_ok r = term_ok q"
    and "special_bytes r = special_bytes q" and "lf_visible r s = lf_visible q s"
    and "table_inv r e = table_inv q e"
proof -
  show "csv_step r s c = csv_step q s c"
    using assms by (cases s) (simp_all add: cfg_def step_defs)
  show sp: "special_bytes r = special_bytes q"
    using assms by (simp add: cfg_def special_bytes_def)
  show "term_ok r = term_ok q" using assms by (simp add: cfg_def term_ok_def)
  show "lf_visible r s = lf_visible q s" "table_inv r e = table_inv q e"
    by (simp_all add: sp lf_visible_def table_inv_def)
qed

lemma step_dfa_irrelevant [simp]:
  "csv_step (r\<lparr>r_dfa := d\<rparr>) s c = csv_step r s c"
  "term_ok (r\<lparr>r_dfa := d\<rparr>) = term_ok r"
  "table_inv (r\<lparr>r_dfa := d\<rparr>) e = table_inv r e"
  "lf_visible (r\<lparr>r_dfa := d\<rparr>) s = lf_visible r s"
  using cfg_cong [of "r\<lparr>r_dfa := d\<rparr>" r] by simp_all

text \<open>The writes of one row, and of all rows, as table writes of the reference step.\<close>

definition written :: "Reader \<Rightarrow> (NfaState \<times> u8) list \<Rightarrow> Dfa \<Rightarrow> Dfa" where
  "written r ks d = d\<lparr>
     trans_table := write_all (cell d) (\<lambda>k. row d (fst (csv_step r (fst k) (snd k)))) ks (trans_table d),
     has_output := write_all (cell d) (\<lambda>k. snd (csv_step r (fst k) (snd k))) ks (has_output d)\<rparr>"

lemma written_simps [simp]:
  "dfa_classes (written r ks d) = dfa_classes d" "row (written r ks d) = row d"
  "cell (written r ks d) = cell d" "written r [] d = d"
  "table_inv r (written r ks d) = table_inv r d"
  "written (r\<lparr>r_dfa := e\<rparr>) = written r"
  by (auto simp: written_def row_def cell_def fun_eq_iff table_inv_def)

lemma written_append: "written r ks (written r js d) = written r (js @ ks) d"
  by (simp add: written_def write_all_append)

lemma dfa_set_written:
  assumes inv: "table_inv r d" and s: "s \<in> dfa_states"
  shows "dfa_set d (row d s) c (row d (fst (csv_step r s c))) (snd (csv_step r s c)) = Some (written r [(s, c)] d)"
proof -
  have "length (classes (dfa_classes d)) = 256"
    using inv by (simp add: table_inv_def classes_invD(1))
  then show ?thesis
    using inv cell_bound [OF inv s, of c]
    by (simp add: dfa_set_def idx_def store_def cell_def class_of_def written_def table_inv_def Let_def)
qed

lemma build_row_written:
  assumes "term_ok r" "table_inv r (r_dfa r)" "s \<in> dfa_states"
  shows "build_row r s cs = Some (r\<lparr>r_dfa := written r (map (Pair s) cs) (r_dfa r)\<rparr>)"
  using assms
proof (induction cs arbitrary: r)
  case Nil
  then show ?case by simp
next
  case (Cons c cs)
  let ?d = "r_dfa r"
  obtain a where a: "consume_eps r (s, Epsilon) c = Some (fst (csv_step r s c), a)"
      "(a = CopyToOutput) = snd (csv_step r s c)"
    using consume_eps_csv_step [OF Cons.prems(1,3)] by blast
  have n: "next_class (dfa_classes ?d) \<le> 7" using Cons.prems(2) by (simp add: table_inv_def)
  have "build_row r s (c # cs) = build_row (r\<lparr>r_dfa := written r [(s, c)] ?d\<rparr>) s cs"
    using a Cons.prems by (simp add: new_state_row(1) [OF n] dfa_set_written)
  also have "\<dots> = Some (r\<lparr>r_dfa := written r (map (Pair s) (c # cs)) ?d\<rparr>)"
    using Cons.IH [of "r\<lparr>r_dfa := written r [(s, c)] ?d\<rparr>"] Cons.prems by (simp add: written_append)
  finally show ?case .
qed

lemma build_rows_written:
  assumes "term_ok r" "table_inv r (r_dfa r)" "set ss \<subseteq> dfa_states"
  shows "build_rows r ss = Some (r\<lparr>r_dfa := written r (List.product ss all_bytes) (r_dfa r)\<rparr>)"
  using assms
proof (induction ss arbitrary: r)
  case Nil
  then show ?case by simp
next
  case (Cons s ss)
  then show ?case
    using Cons.IH [of "r\<lparr>r_dfa := written r (map (Pair s) all_bytes) (r_dfa r)\<rparr>"]
    by (simp add: build_row_written written_append)
qed

text \<open>
  The finished table: reading \<open>c\<close> in the row of \<open>s\<close> gives the reference step for some byte of the
  class of \<open>c\<close>, and for \<open>c\<close> itself where the step respects the classes.
\<close>

lemma get_output_cell:
  assumes "table_inv r d" and "s \<in> dfa_states"
  shows "get_output d (row d s) c = Some (trans_table d ! cell d (s, c), has_output d ! cell d (s, c))"
  using assms cell_bound [OF assms, of c]
  by (simp add: get_output_def idx_def cell_def class_of_def table_inv_def classes_invD(1) Let_def)

lemma product_mem: "s \<in> dfa_states \<Longrightarrow> (s, c) \<in> set (List.product NFA_STATES all_bytes)"
  by simp

lemma get_output_written:
  assumes inv: "table_inv r d" and s: "s \<in> dfa_states" and vis: "lf_visible r s"
  shows "get_output (written r (List.product NFA_STATES all_bytes) d) (row d s) c
           = Some (row d (fst (csv_step r s c)), snd (csv_step r s c))"
proof -
  let ?ks = "List.product NFA_STATES all_bytes"
  have agree: "csv_step r (fst j) (snd j) = csv_step r s c"
    if "j \<in> set ?ks" "cell d j = cell d (s, c)" for j
  proof -
    have "fst j = s \<and> class_of (dfa_classes d) (snd j) = class_of (dfa_classes d) c"
      using that cell_inj [OF inv _ s, of "fst j" "snd j" c] by (simp add: mem_Times_iff)
    then show ?thesis
      using csv_step_class [of "dfa_classes d" r s "snd j" c] inv vis by (simp add: table_inv_def)
  qed
  have "cell d (s, c) < length (trans_table d)" "cell d (s, c) < length (has_output d)"
    using cell_bound [OF inv s] inv by (simp_all add: table_inv_def)
  then have "trans_table (written r ?ks d) ! cell d (s, c) = row d (fst (csv_step r s c))"
    "has_output (written r ?ks d) ! cell d (s, c) = snd (csv_step r s c)"
    using agree product_mem [OF s, of c]
      write_all_lookup [of ?ks "cell d" "(s, c)" "\<lambda>k. row d (fst (csv_step r (fst k) (snd k)))" "trans_table d"]
      write_all_lookup [of ?ks "cell d" "(s, c)" "\<lambda>k. snd (csv_step r (fst k) (snd k))" "has_output d"]
    by (simp_all add: written_def)
  then show ?thesis
    using get_output_cell [of r "written r ?ks d" s c] inv s by simp
qed

lemma get_output_written_safe:
  assumes inv: "table_inv r d" and s: "s \<in> dfa_states"
  shows "\<exists>t h. t \<in> dfa_states \<and> get_output (written r (List.product NFA_STATES all_bytes) d) (row d s) c = Some (row d t, h)"
proof -
  let ?ks = "List.product NFA_STATES all_bytes"
  have "cell d (s, c) < length (trans_table d)"
    using cell_bound [OF inv s] inv by (simp add: table_inv_def)
  then obtain j where j: "j \<in> set ?ks"
      "trans_table (written r ?ks d) ! cell d (s, c) = row d (fst (csv_step r (fst j) (snd j)))"
    using write_all_source [OF product_mem [OF s, of c], of "cell d" "trans_table d"
        "\<lambda>k. row d (fst (csv_step r (fst k) (snd k)))"]
    unfolding written_def by auto
  from j(1) have "fst (csv_step r (fst j) (snd j)) \<in> dfa_states"
    by (simp add: mem_Times_iff)
  then show ?thesis
    using get_output_cell [of r "written r ?ks d" s c] inv s j(2) by auto
qed

section \<open>Built readers\<close>

text \<open>
  \<open>built r\<close> is what \<^verbatim>\<open>ReaderBuilder::build\<close> establishes and no reading operation changes: the tables of
  \<open>r\<close> are complete for its configuration.
\<close>

definition built :: "Reader \<Rightarrow> bool" where
  "built r \<longleftrightarrow> term_ok r \<and> table_inv r (r_dfa r)
     \<and> (\<forall>s \<in> dfa_states. \<forall>c. lf_visible r s \<longrightarrow>
          get_output (r_dfa r) (row (r_dfa r) s) c
            = Some (row (r_dfa r) (fst (csv_step r s c)), snd (csv_step r s c)))
     \<and> (\<forall>s \<in> dfa_states. \<forall>c. \<exists>t \<in> dfa_states. \<exists>h.
          get_output (r_dfa r) (row (r_dfa r) s) c = Some (row (r_dfa r) t, h))
     \<and> in_field (r_dfa r) = row (r_dfa r) InField \<and> in_quoted (r_dfa r) = row (r_dfa r) InQuotedField
     \<and> final_field (r_dfa r) = row (r_dfa r) EndFieldDelim
     \<and> final_record (r_dfa r) = row (r_dfa r) EndRecord"

lemma dfa_finish_row:
  assumes "next_class (dfa_classes d) \<le> 7"
  shows "dfa_finish d = Some (d\<lparr>in_field := row d InField, in_quoted := row d InQuotedField,
           final_field := row d EndFieldDelim, final_record := row d EndRecord\<rparr>)"
  using assms by (simp add: dfa_finish_def new_state_row dfa_states_iff)

lemma row_cell_marks [simp]:
  "row (d\<lparr>in_field := a, in_quoted := b, final_field := e, final_record := f\<rparr>) = row d"
  "get_output (d\<lparr>in_field := a, in_quoted := b, final_field := e, final_record := f\<rparr>) = get_output d"
  "table_inv r (d\<lparr>in_field := a, in_quoted := b, final_field := e, final_record := f\<rparr>) = table_inv r d"
  by (simp_all add: row_def get_output_def table_inv_def fun_eq_iff)

lemma built_cong:
  assumes "cfg r = cfg q" and "r_dfa r = r_dfa q"
  shows "built r = built q"
  using assms cfg_cong [OF assms(1)] by (simp add: built_def)

lemma built_simps [simp]:
  "built (r\<lparr>r_dfa_state := s\<rparr>) = built r" "built (r\<lparr>r_nfa_state := t\<rparr>) = built r"
  "built (r\<lparr>r_line := l\<rparr>) = built r" "built (r\<lparr>r_has_read := h\<rparr>) = built r"
  "built (r\<lparr>r_output_pos := p\<rparr>) = built r"
  by (rule built_cong; simp)+

lemma row_StartRecord [simp]: "row d StartRecord = 0"
  by (simp add: row_def)

text \<open>A reader whose DFA is still the empty one, as every builder's is.\<close>

lemma build_dfa_ok:
  assumes tok: "term_ok r" and new: "r_dfa r = dfa_new"
  shows "\<exists>q d. build_dfa r = Some q \<and> built q \<and> cfg q = cfg r
    \<and> q = r\<lparr>r_dfa := r_dfa q, r_dfa_state := 0\<rparr> \<and> table_inv r d \<and> row (r_dfa q) = row d
    \<and> get_output (r_dfa q) = get_output (written r (List.product NFA_STATES all_bytes) d)"
proof -
  obtain k where k: "add_classes r = Some k" "classes_inv k" "separated k = set (special_bytes r)"
      "next_class k \<le> 7"
    using add_classes_ok [OF tok] new by (auto simp: dfa_new_def)
  define d where "d = (r_dfa r)\<lparr>dfa_classes := k\<rparr>"
  have inv: "table_inv r d"
    using k new by (simp add: d_def table_inv_def dfa_new_def TRANS_SIZE_def TRANS_CLASSES_def DFA_STATES_def)
  define e where "e = written r (List.product NFA_STATES all_bytes) d"
  have e: "table_inv r e" "row e = row d" "next_class (dfa_classes e) \<le> 7"
    using inv k by (simp_all add: e_def d_def)
  define f where "f = e\<lparr>in_field := row e InField, in_quoted := row e InQuotedField,
           final_field := row e EndFieldDelim, final_record := row e EndRecord\<rparr>"
  let ?q = "r\<lparr>r_dfa := f, r_dfa_state := 0\<rparr>"
  have rows: "build_rows (r\<lparr>r_dfa := d\<rparr>) NFA_STATES = Some (r\<lparr>r_dfa := e\<rparr>)"
    using build_rows_written [of "r\<lparr>r_dfa := d\<rparr>" NFA_STATES] tok inv by (simp add: e_def)
  have "build_dfa r = Some ?q"
    using k(1) rows e(3) dfa_finish_row [OF e(3)]
    by (simp add: build_dfa_def d_def [symmetric] f_def new_state_row dfa_states_iff)
  moreover have "built (r\<lparr>r_dfa := f\<rparr>)"
    using tok e get_output_written [OF inv] get_output_written_safe [OF inv]
    by (simp add: built_def f_def e_def [symmetric] Bex_def)
  moreover have "row f = row d" "get_output f = get_output e" using e(2) by (simp_all add: f_def)
  ultimately show ?thesis using inv by (intro exI [of _ ?q] exI [of _ d]) (simp add: e_def)
qed

section \<open>The comment row when a line feed is an ordinary byte\<close>

lemma ordinary_byte_above_LF:
  assumes "length ss \<le> 6"
  shows "\<exists>z \<in> {14, 15, 16, 17, 18, 19, 20 :: u8}. z \<notin> set ss"
proof (rule ccontr)
  assume "\<not> ?thesis"
  then have "{14, 15, 16, 17, 18, 19, 20 :: u8} \<subseteq> set ss" by blast
  then have "card {14, 15, 16, 17, 18, 19, 20 :: u8} \<le> card (set ss)" by (rule card_mono [rotated]) simp
  also have "\<dots> \<le> 6" using card_length [of ss] assms by simp
  finally show False by simp
qed

definition bytes_above_LF :: "u8 list" where
  "bytes_above_LF = map word_of_nat [11..<256]"

lemma all_bytes_split: "all_bytes = map word_of_nat [0..<11] @ bytes_above_LF"
proof -
  have "[0..<11 + 245] = [0..<11] @ [11..<11 + (245::nat)]" by (rule upt_add_eq_append) simp
  then have "[0..<256] = [0..<11] @ [11..<(256::nat)]" by (simp del: upt_rec_numeral)
  then show ?thesis by (simp only: all_bytes_def bytes_above_LF_def map_append)
qed

lemma bytes_above_LF_iff: "c \<in> set bytes_above_LF \<longleftrightarrow> 11 \<le> unat c"
proof -
  have img: "set bytes_above_LF = word_of_nat ` {11..<256}"
    by (simp only: bytes_above_LF_def set_map set_upt)
  have "11 \<le> unat c" if "c = word_of_nat n" "11 \<le> n" "n < 256" for n
    using that by (simp add: unat_of_nat)
  then show ?thesis unfolding img by (auto intro!: image_eqI [where x = "unat c"])
qed

lemma product_at_comment:
  obtains pre suf where "List.product NFA_STATES all_bytes = pre @ map (Pair InComment) bytes_above_LF @ suf"
    and "\<forall>j \<in> set suf. fst j \<in> dfa_states \<and> fst j \<noteq> InComment"
proof -
  have "List.product NFA_STATES all_bytes = (List.product [StartRecord, StartField, EndFieldDelim, InField,
      InQuotedField, InEscapedQuote, InDoubleEscapedQuote] all_bytes @ map (Pair InComment) (map word_of_nat [0..<11]))
    @ map (Pair InComment) bytes_above_LF @ List.product [EndRecord, NfaState.CRLF] all_bytes"
    unfolding NFA_STATES_def by (simp add: all_bytes_split del: upt_rec_numeral)
  then show ?thesis by (rule that) (auto simp: NFA_STATES_def)
qed

lemma comment_row_ordinary:
  assumes inv: "table_inv r d" and c: "c \<notin> set (special_bytes r)"
  shows "get_output (written r (List.product NFA_STATES all_bytes) d) (row d InComment) c = Some (row d InComment, False)"
proof -
  let ?ks = "List.product NFA_STATES all_bytes"
  have st: "InComment \<in> dfa_states" by (simp add: dfa_states_iff)
  obtain z where z: "z \<in> {14, 15, 16, 17, 18, 19, 20}" "z \<notin> set (special_bytes r)"
    using ordinary_byte_above_LF [OF length_special_bytes [of r]] by blast
  have zero: "class_of (dfa_classes d) x = 0 \<longleftrightarrow> x \<notin> set (special_bytes r)" for x
    using inv by (auto simp: table_inv_def separated_def)
  have cells: "cell d (InComment, c) = cell d (InComment, z)"
    using zero [of c] zero [of z] c z(2) by (simp add: cell_def)
  obtain pre suf where split: "?ks = pre @ map (Pair InComment) bytes_above_LF @ suf"
    and suf: "\<forall>j \<in> set suf. fst j \<in> dfa_states \<and> fst j \<noteq> InComment"
    by (rule product_at_comment)
  let ?js = "map (Pair InComment) bytes_above_LF @ suf"
  have mem: "(InComment, z) \<in> set ?js" using z(1) by (auto simp: bytes_above_LF_iff)
  have agree: "csv_step r (fst j) (snd j) = (InComment, False)" if "j \<in> set ?js" "cell d j = cell d (InComment, z)" for j
  proof -
    have "fst j \<in> dfa_states" using that(1) suf st by auto
    then have "fst j = InComment" using cell_inj [OF inv _ st, of "fst j" "snd j" z] that(2) by simp
    then have "snd j \<in> set bytes_above_LF" using that(1) suf by auto
    then have "snd j \<noteq> LF" by (auto simp: bytes_above_LF_iff)
    then show ?thesis using \<open>fst j = InComment\<close> by simp
  qed
  have len: "cell d (InComment, z) < 70" "length (trans_table d) = 70" "length (has_output d) = 70"
    using cell_bound [OF inv st] inv by (simp_all add: table_inv_def)
  have "trans_table (written r ?ks d) ! cell d (InComment, z) = row d InComment"
    "has_output (written r ?ks d) ! cell d (InComment, z) = False"
    using write_all_lookup [of ?js "cell d" "(InComment, z)" "\<lambda>k. row d (fst (csv_step r (fst k) (snd k)))"
        "write_all (cell d) (\<lambda>k. row d (fst (csv_step r (fst k) (snd k)))) pre (trans_table d)"]
      write_all_lookup [of ?js "cell d" "(InComment, z)" "\<lambda>k. snd (csv_step r (fst k) (snd k))"
        "write_all (cell d) (\<lambda>k. snd (csv_step r (fst k) (snd k))) pre (has_output d)"]
      agree agree [OF mem] mem len
    by (simp_all add: written_def split write_all_append [of _ _ pre])
  then show ?thesis
    using get_output_cell [of r "written r ?ks d" InComment c] inv st cells by simp
qed

lemma comment_row_special:
  assumes inv: "table_inv r d" and c: "c \<in> set (special_bytes r)" "c \<noteq> LF"
  shows "get_output (written r (List.product NFA_STATES all_bytes) d) (row d InComment) c = Some (row d InComment, False)"
proof -
  let ?ks = "List.product NFA_STATES all_bytes"
  have st: "InComment \<in> dfa_states" by (simp add: dfa_states_iff)
  have nonzero: "class_of (dfa_classes d) c \<noteq> 0" using inv c(1) by (auto simp: table_inv_def separated_def)
  have agree: "csv_step r (fst j) (snd j) = (InComment, False)" if "j \<in> set ?ks" "cell d j = cell d (InComment, c)" for j
  proof -
    have j: "fst j = InComment \<and> class_of (dfa_classes d) (snd j) = class_of (dfa_classes d) c"
      using that cell_inj [OF inv _ st, of "fst j" "snd j" c] by (simp add: mem_Times_iff)
    then have "snd j = c" using classes_invD(4) [of "dfa_classes d" "snd j" c] inv nonzero by (simp add: table_inv_def)
    then show ?thesis using j c(2) by simp
  qed
  have "cell d (InComment, c) < length (trans_table d)" "cell d (InComment, c) < length (has_output d)"
    using cell_bound [OF inv st] inv by (simp_all add: table_inv_def)
  then have "trans_table (written r ?ks d) ! cell d (InComment, c) = row d InComment" "has_output (written r ?ks d) ! cell d (InComment, c) = False"
    using agree product_mem [OF st, of c] c(2)
      write_all_lookup [of ?ks "cell d" "(InComment, c)" "\<lambda>k. row d (fst (csv_step r (fst k) (snd k)))" "trans_table d"]
      write_all_lookup [of ?ks "cell d" "(InComment, c)" "\<lambda>k. snd (csv_step r (fst k) (snd k))" "has_output d"]
    by (simp_all add: written_def)
  then show ?thesis using get_output_cell [of r "written r ?ks d" InComment c] inv st by simp
qed

text \<open>So the row leads back to itself on every byte.\<close>

lemma comment_row_closed:
  assumes "table_inv r d" and "LF \<notin> set (special_bytes r)"
  shows "get_output (written r (List.product NFA_STATES all_bytes) d) (row d InComment) c = Some (row d InComment, False)"
  using comment_row_ordinary [OF assms(1)] comment_row_special [OF assms(1)] assms(2) by blast

end
