(* ===== verification/Csv_Reader.thy ===== *)
theory Csv_Reader
  imports Csv_Table
begin

text \<open>
  The incremental reading operations of \<^verbatim>\<open>csv-core/src/reader.rs\<close>: \<^verbatim>\<open>read_field\<close> and \<^verbatim>\<open>read_record\<close> in
  their NFA and DFA versions, written over the caller's buffers with explicit positions. Every
  operation returns the updated reader, the updated output buffers and the Rust result tuple.
\<close>

section \<open>Results\<close>

datatype ReadFieldResult = InputEmpty | OutputFull | Field (record_end: bool) | End

datatype ReadRecordResult = InputEmpty | OutputFull | OutputEndsFull | Record | End

definition field_result_from_nfa :: "NfaState \<Rightarrow> bool \<Rightarrow> bool \<Rightarrow> ReadFieldResult may_panic" where
  "field_result_from_nfa s inpdone outdone =
     (case s of
        NfaState.End \<Rightarrow> Some ReadFieldResult.End
      | NfaState.EndRecord \<Rightarrow> Some (Field True)
      | NfaState.CRLF \<Rightarrow> Some (Field True)
      | NfaState.EndFieldDelim \<Rightarrow> Some (Field False)
      | _ \<Rightarrow> do {
          _ \<leftarrow> rust_assert (\<not> is_field_final s);
          Some (if \<not> inpdone \<and> outdone then ReadFieldResult.OutputFull else ReadFieldResult.InputEmpty)
        })"

definition record_result_from_nfa :: "NfaState \<Rightarrow> bool \<Rightarrow> bool \<Rightarrow> bool \<Rightarrow> ReadRecordResult may_panic" where
  "record_result_from_nfa s inpdone outdone endsdone =
     (case s of
        NfaState.End \<Rightarrow> Some ReadRecordResult.End
      | NfaState.EndRecord \<Rightarrow> Some Record
      | NfaState.CRLF \<Rightarrow> Some Record
      | _ \<Rightarrow> do {
          _ \<leftarrow> rust_assert (\<not> is_record_final s);
          Some (if \<not> inpdone \<and> outdone then ReadRecordResult.OutputFull
                else if \<not> inpdone \<and> endsdone then OutputEndsFull
                else ReadRecordResult.InputEmpty)
        })"

definition is_record :: "ReadRecordResult \<Rightarrow> bool" where
  "is_record res \<longleftrightarrow> res = Record"

definition new_read_field_result :: "Dfa \<Rightarrow> DfaState \<Rightarrow> bool \<Rightarrow> bool \<Rightarrow> bool \<Rightarrow> ReadFieldResult may_panic" where
  "new_read_field_result d s is_final_trans inpdone outdone =
     (if final_record d \<le> s then Some (Field True)
      else if s = final_field d then Some (Field False)
      else if is_final_trans \<and> is_start s then Some ReadFieldResult.End
      else do {
        _ \<leftarrow> rust_assert (s < final_field d);
        Some (if \<not> inpdone \<and> outdone then ReadFieldResult.OutputFull else ReadFieldResult.InputEmpty)
      })"

definition new_read_record_result :: "Dfa \<Rightarrow> DfaState \<Rightarrow> bool \<Rightarrow> bool \<Rightarrow> bool \<Rightarrow> bool \<Rightarrow> ReadRecordResult may_panic" where
  "new_read_record_result d s is_final_trans inpdone outdone endsdone =
     (if final_record d \<le> s then Some Record
      else if is_final_trans \<and> is_start s then Some ReadRecordResult.End
      else do {
        _ \<leftarrow> rust_assert (s < final_record d);
        Some (if \<not> inpdone \<and> outdone then ReadRecordResult.OutputFull
              else if \<not> inpdone \<and> endsdone then OutputEndsFull
              else ReadRecordResult.InputEmpty)
      })"

section \<open>Reading a field\<close>

definition transition_final_dfa :: "Reader \<Rightarrow> DfaState \<Rightarrow> DfaState may_panic" where
  "transition_final_dfa r s =
     (if final_record (r_dfa r) \<le> s \<or> is_start s then new_state_final_end (r_dfa r)
      else new_state_final_record (r_dfa r))"

function dfa_field_loop :: "Dfa \<Rightarrow> u8 list \<Rightarrow> u8 list \<Rightarrow> nat \<Rightarrow> nat \<Rightarrow> DfaState \<Rightarrow> u64
    \<Rightarrow> (u8 list \<times> nat \<times> nat \<times> DfaState \<times> u64) may_panic" where
  "dfa_field_loop d input output nin nout state line =
     (if nin < length input \<and> nout < length output then
        (let b = input ! nin; line = line + (if b = LF then 1 else 0) in
         case get_output d state b of
           None \<Rightarrow> None
         | Some (s, has_out) \<Rightarrow>
             (let output = (if has_out then output[nout := b] else output);
                  nout = (if has_out then nout + 1 else nout);
                  nin = nin + 1
              in if final_field d \<le> s then Some (output, nin, nout, s, line)
                 else dfa_field_loop d input output nin nout s line))
      else Some (output, nin, nout, state, line))"
  by pat_completeness auto
termination
  by (relation "measure (\<lambda>(d, input, output, nin, nout, state, line). length input - nin)") auto

definition read_field_dfa :: "Reader \<Rightarrow> u8 list \<Rightarrow> u8 list
    \<Rightarrow> (Reader \<times> u8 list \<times> ReadFieldResult \<times> nat \<times> nat) may_panic" where
  "read_field_dfa r input output =
     (if input = [] then do {
        s \<leftarrow> transition_final_dfa r (r_dfa_state r);
        let r = r\<lparr>r_dfa_state := s\<rparr>;
        res \<leftarrow> new_read_field_result (r_dfa r) (r_dfa_state r) True False False;
        Some (r, output, res, 0, 0)
      }
      else if output = [] then Some (r, output, ReadFieldResult.OutputFull, 0, 0)
      else do {
        (output', nin, nout, state, line) \<leftarrow>
          dfa_field_loop (r_dfa r) input output 0 0 (r_dfa_state r) (r_line r);
        res \<leftarrow> new_read_field_result (r_dfa r) state False (length input \<le> nin) (length output \<le> nout);
        Some (r\<lparr>r_dfa_state := state, r_line := line\<rparr>, output', res, nin, nout)
      })"

text \<open>What both NFA loops do with the input byte of a transition: \<open>(output, nout, nin)\<close> afterwards.\<close>

definition apply_io :: "NfaInputAction \<Rightarrow> u8 \<Rightarrow> u8 list \<Rightarrow> nat \<Rightarrow> nat \<Rightarrow> u8 list \<times> nat \<times> nat" where
  "apply_io io b output nout nin =
     (case io of
        CopyToOutput \<Rightarrow> (output[nout := b], nout + 1, nin + 1)
      | Discard \<Rightarrow> (output, nout, nin + 1)
      | Epsilon \<Rightarrow> (output, nout, nin))"

lemma transition_nfa_eps_final:
  "transition_nfa r s c = Some (t, Epsilon) \<Longrightarrow> is_field_final t \<Longrightarrow> t = NfaState.End"
  by (cases s) (auto split: if_splits bind_splits)

lemma nfa_loop_measure:
  assumes "nin < length input" and "transition_nfa r state (input ! nin) = Some (s, io)"
    and "(out', nout', nin') = apply_io io b out nout nin" and "s \<noteq> NfaState.End"
  shows "length input - nin' < length input - nin
           \<or> length input - nin' = length input - nin \<and> eps_rank s < eps_rank state"
proof (cases io)
  case Epsilon
  then have "state \<noteq> NfaState.End" using assms(2,4) by auto
  then show ?thesis using assms Epsilon transition_nfa_rank [of r state "input ! nin" s]
    by (simp add: apply_io_def)
qed (use assms in \<open>auto simp: apply_io_def\<close>)

function nfa_field_loop :: "Reader \<Rightarrow> u8 list \<Rightarrow> u8 list \<Rightarrow> nat \<Rightarrow> nat \<Rightarrow> NfaState
    \<Rightarrow> (u8 list \<times> nat \<times> nat \<times> NfaState) may_panic" where
  "nfa_field_loop r input output nin nout state =
     (if nin < length input \<and> nout < length output then
        (case transition_nfa r state (input ! nin) of
           None \<Rightarrow> None
         | Some (s, io) \<Rightarrow>
             (case apply_io io (input ! nin) output nout nin of (output, nout, nin) \<Rightarrow>
                if is_field_final s then Some (output, nin, nout, s)
                else nfa_field_loop r input output nin nout s))
      else Some (output, nin, nout, state))"
  by pat_completeness auto
termination
  by (relation "measures [\<lambda>(r, input, out, nin, nout, state). length input - nin,
      \<lambda>(r, input, out, nin, nout, state). eps_rank state]", simp)
    (clarify, drule (2) nfa_loop_measure, auto)

definition read_field_nfa :: "Reader \<Rightarrow> u8 list \<Rightarrow> u8 list
    \<Rightarrow> (Reader \<times> u8 list \<times> ReadFieldResult \<times> nat \<times> nat) may_panic" where
  "read_field_nfa r input output =
     (if input = [] then do {
        let r = r\<lparr>r_nfa_state := transition_final_nfa (r_nfa_state r)\<rparr>;
        res \<leftarrow> field_result_from_nfa (r_nfa_state r) False False;
        Some (r, output, res, 0, 0)
      }
      else if output = [] then Some (r, output, ReadFieldResult.OutputFull, 0, 0)
      else do {
        (output', nin, nout, state) \<leftarrow> nfa_field_loop r input output 0 0 (r_nfa_state r);
        res \<leftarrow> field_result_from_nfa state (length input \<le> nin) (length output \<le> nout);
        Some (r\<lparr>r_nfa_state := state\<rparr>, output', res, nin, nout)
      })"

definition strip_utf8_bom :: "Reader \<Rightarrow> u8 list \<Rightarrow> u8 list \<times> nat" where
  "strip_utf8_bom r input =
     (if \<not> r_has_read r \<and> 3 \<le> length input \<and> take 3 input = [239, 187, 191]
      then (drop 3 input, 3) else (input, 0))"

definition read_field :: "Reader \<Rightarrow> u8 list \<Rightarrow> u8 list
    \<Rightarrow> (Reader \<times> u8 list \<times> ReadFieldResult \<times> nat \<times> nat) may_panic" where
  "read_field r input output = do {
     let (input, bom_nin) = strip_utf8_bom r input;
     (r, output, res, nin, nout) \<leftarrow>
       (if r_use_nfa r then read_field_nfa r input output else read_field_dfa r input output);
     Some (r\<lparr>r_has_read := True\<rparr>, output, res, nin + bom_nin, nout)
   }"

section \<open>Reading a record\<close>

function scan_and_copy :: "DfaClasses \<Rightarrow> u8 list \<Rightarrow> nat \<Rightarrow> u8 list \<Rightarrow> nat
    \<Rightarrow> (nat \<times> u8 list \<times> nat) may_panic" where
  "scan_and_copy k input nin output nout =
     (if nin < length input \<and> nout < length output then
        (case idx (classes k) (unat (input ! nin)) of
           None \<Rightarrow> None
         | Some cls \<Rightarrow>
             if cls = 0 then scan_and_copy k input (nin + 1) (output[nout := input ! nin]) (nout + 1)
             else Some (nin, output, nout))
      else Some (nin, output, nout))"
  by pat_completeness auto
termination
  by (relation "measure (\<lambda>(k, input, nin, output, nout). length input - nin)") auto

declare scan_and_copy.simps [simp del]

lemma scan_and_copy_advances:
  "scan_and_copy k input nin output nout = Some (nin', output', nout') \<Longrightarrow> nin \<le> nin'"
proof (induction k input nin "output" nout rule: scan_and_copy.induct)
  case (1 k input nin out nout)
  then show ?case
    by (subst (asm) (2) scan_and_copy.simps) (fastforce split: if_splits option.splits)
qed

text \<open>One iteration of the record loop; \<open>Inl\<close> leaves the loop, \<open>Inr\<close> continues it.\<close>

type_synonym record_vars = "u8 list \<times> nat list \<times> nat \<times> nat \<times> nat \<times> DfaState \<times> u64"

definition dfa_record_body :: "Dfa \<Rightarrow> nat \<Rightarrow> u8 list \<Rightarrow> record_vars \<Rightarrow> (record_vars + record_vars) may_panic" where
  "dfa_record_body d output_pos input v = (case v of (output, ends, nin, nout, nend, state, line) \<Rightarrow> do {
     (s, has_out) \<leftarrow> get_output d state (input ! nin);
     let line = line + (if input ! nin = LF then 1 else 0);
     let (output, nout) = (if has_out then (output[nout := input ! nin], nout + 1) else (output, nout));
     let nin = nin + 1;
     let fin = (final_field d \<le> s);
     let (ends, nend) = (if fin then (ends[nend := output_pos + nout], nend + 1) else (ends, nend));
     if fin \<and> final_field d < s then Some (Inl (output, ends, nin, nout, nend, s, line))
     else if s = in_field d \<or> s = in_quoted d then do {
       (nin, output, nout) \<leftarrow> scan_and_copy (dfa_classes d) input nin output nout;
       Some (Inr (output, ends, nin, nout, nend, s, line))
     }
     else Some (Inr (output, ends, nin, nout, nend, s, line))
   })"

lemma dfa_record_body_advances:
  assumes "dfa_record_body d pos input (output, ends, nin, nout, nend, state, line)
             = Some (Inr (output', ends', nin', nout', nend', state', line'))"
  shows "nin < nin'"
  using assms scan_and_copy_advances
  by (fastforce simp: dfa_record_body_def Let_def split: bind_splits if_splits prod.splits)

function dfa_record_loop :: "Dfa \<Rightarrow> nat \<Rightarrow> u8 list \<Rightarrow> record_vars \<Rightarrow> record_vars may_panic" where
  "dfa_record_loop d output_pos input (output, ends, nin, nout, nend, state, line) =
     (if nin < length input \<and> nout < length output \<and> nend < length ends then
        (case dfa_record_body d output_pos input (output, ends, nin, nout, nend, state, line) of
           None \<Rightarrow> None
         | Some (Inl v) \<Rightarrow> Some v
         | Some (Inr v) \<Rightarrow> dfa_record_loop d output_pos input v)
      else Some (output, ends, nin, nout, nend, state, line))"
  by pat_completeness auto
termination
  by (relation "measure (\<lambda>(d, pos, input, output, ends, nin, nout, nend, state, line). length input - nin)")
    (auto dest!: dfa_record_body_advances)

definition read_record_dfa :: "Reader \<Rightarrow> u8 list \<Rightarrow> u8 list \<Rightarrow> nat list
    \<Rightarrow> (Reader \<times> u8 list \<times> nat list \<times> ReadRecordResult \<times> nat \<times> nat \<times> nat) may_panic" where
  "read_record_dfa r input output ends =
     (if input = [] then do {
        s \<leftarrow> transition_final_dfa r (r_dfa_state r);
        res \<leftarrow> new_read_record_result (r_dfa r) s True False False False;
        (case res of
           Record \<Rightarrow>
             if ends = [] then Some (r, output, ends, OutputEndsFull, 0, 0, 0)
             else Some (r\<lparr>r_dfa_state := s, r_output_pos := 0\<rparr>, output, ends[0 := r_output_pos r], res, 0, 0, 1)
         | _ \<Rightarrow> Some (r\<lparr>r_dfa_state := s\<rparr>, output, ends, res, 0, 0, 0))
      }
      else if output = [] then Some (r, output, ends, ReadRecordResult.OutputFull, 0, 0, 0)
      else if ends = [] then Some (r, output, ends, OutputEndsFull, 0, 0, 0)
      else do {
        (output', ends', nin, nout, nend, state, line) \<leftarrow>
          dfa_record_loop (r_dfa r) (r_output_pos r) input (output, ends, 0, 0, 0, r_dfa_state r, r_line r);
        res \<leftarrow> new_read_record_result (r_dfa r) state False
                 (length input \<le> nin) (length output \<le> nout) (length ends \<le> nend);
        Some (r\<lparr>r_dfa_state := state, r_line := line,
                r_output_pos := (if is_record res then 0 else r_output_pos r + nout)\<rparr>,
              output', ends', res, nin, nout, nend)
      })"

function nfa_record_loop :: "Reader \<Rightarrow> u8 list \<Rightarrow> u8 list \<Rightarrow> nat list \<Rightarrow> nat \<Rightarrow> nat \<Rightarrow> nat \<Rightarrow> NfaState
    \<Rightarrow> (u8 list \<times> nat list \<times> nat \<times> nat \<times> nat \<times> NfaState) may_panic" where
  "nfa_record_loop r input output ends nin nout nend state =
     (if nin < length input \<and> nout < length output \<and> nend < length ends then
        (case transition_nfa r state (input ! nin) of
           None \<Rightarrow> None
         | Some (s, io) \<Rightarrow>
             (case apply_io io (input ! nin) output nout nin of (output, nout, nin) \<Rightarrow>
                if is_field_final s
                then (if s \<noteq> NfaState.EndFieldDelim
                      then Some (output, ends[nend := nout], nin, nout, nend + 1, s)
                      else nfa_record_loop r input output (ends[nend := nout]) nin nout (nend + 1) s)
                else nfa_record_loop r input output ends nin nout nend s))
      else Some (output, ends, nin, nout, nend, state))"
  by pat_completeness auto
termination
  by (relation "measures [\<lambda>(r, input, out, ends, nin, nout, nend, state). length input - nin,
      \<lambda>(r, input, out, ends, nin, nout, nend, state). eps_rank state]", simp)
    ((clarify, drule (2) nfa_loop_measure, auto)[1])+

declare dfa_field_loop.simps [simp del] nfa_field_loop.simps [simp del]
  dfa_record_loop.simps [simp del] nfa_record_loop.simps [simp del]

definition read_record_nfa :: "Reader \<Rightarrow> u8 list \<Rightarrow> u8 list \<Rightarrow> nat list
    \<Rightarrow> (Reader \<times> u8 list \<times> nat list \<times> ReadRecordResult \<times> nat \<times> nat \<times> nat) may_panic" where
  "read_record_nfa r input output ends =
     (if input = [] then do {
        let s = transition_final_nfa (r_nfa_state r);
        res \<leftarrow> record_result_from_nfa s False False False;
        (case res of
           Record \<Rightarrow>
             if ends = [] then Some (r, output, ends, OutputEndsFull, 0, 0, 0)
             else Some (r\<lparr>r_nfa_state := s, r_output_pos := 0\<rparr>, output, ends[0 := r_output_pos r], res, 0, 0, 1)
         | _ \<Rightarrow> Some (r\<lparr>r_nfa_state := s\<rparr>, output, ends, res, 0, 0, 0))
      }
      else if output = [] then Some (r, output, ends, ReadRecordResult.OutputFull, 0, 0, 0)
      else if ends = [] then Some (r, output, ends, OutputEndsFull, 0, 0, 0)
      else do {
        (output', ends', nin, nout, nend, state) \<leftarrow>
          nfa_record_loop r input output ends 0 (r_output_pos r) 0 (r_nfa_state r);
        res \<leftarrow> record_result_from_nfa state
                 (length input \<le> nin) (length output \<le> nout) (length ends \<le> nend);
        Some (r\<lparr>r_nfa_state := state, r_output_pos := (if is_record res then 0 else nout)\<rparr>,
              output', ends', res, nin, nout, nend)
      })"

definition read_record :: "Reader \<Rightarrow> u8 list \<Rightarrow> u8 list \<Rightarrow> nat list
    \<Rightarrow> (Reader \<times> u8 list \<times> nat list \<times> ReadRecordResult \<times> nat \<times> nat \<times> nat) may_panic" where
  "read_record r input output ends = do {
     let (input, bom_nin) = strip_utf8_bom r input;
     (r, output, ends, res, nin, nout, nend) \<leftarrow>
       (if r_use_nfa r then read_record_nfa r input output ends else read_record_dfa r input output ends);
     Some (r\<lparr>r_has_read := True\<rparr>, output, ends, res, nin + bom_nin, nout, nend)
   }"

definition reset :: "Reader \<Rightarrow> Reader may_panic" where
  "reset r = do {
     s \<leftarrow> new_state (r_dfa r) StartRecord;
     Some (r\<lparr>r_dfa_state := s, r_nfa_state := StartRecord, r_line := 1, r_has_read := False\<rparr>)
   }"

definition set_line :: "Reader \<Rightarrow> u64 \<Rightarrow> Reader" where
  "set_line r l = r\<lparr>r_line := l\<rparr>"

end
