(* ===== verification/Csv_Correct.thy ===== *)
theory Csv_Correct
  imports Csv_Reader
begin

text \<open>
  Functional correctness of the CSV reading operations. Both the NFA and the DFA loops are shown to
  compute \<open>field_run\<close> and \<open>record_run\<close>, runs of the reference step over the remaining input with the
  capacities of the caller's buffers; the equivalence of the two parsers, the streaming property and
  the absence of panics follow.
\<close>

section \<open>Reference runs\<close>

fun field_run :: "Reader \<Rightarrow> NfaState \<Rightarrow> u8 list \<Rightarrow> nat \<Rightarrow> NfaState \<times> nat \<times> u8 list" where
  "field_run r s [] cap = (s, 0, [])"
| "field_run r s (c # cs) 0 = (s, 0, [])"
| "field_run r s (c # cs) (Suc k) =
     (case csv_step r s c of (t, copy) \<Rightarrow>
        if is_field_final t then (t, 1, if copy then [c] else [])
        else case field_run r t cs (if copy then k else Suc k) of
          (u, n, w) \<Rightarrow> (u, Suc n, (if copy then [c] else []) @ w))"

fun record_run :: "Reader \<Rightarrow> nat \<Rightarrow> NfaState \<Rightarrow> u8 list \<Rightarrow> nat \<Rightarrow> nat \<Rightarrow> NfaState \<times> nat \<times> u8 list \<times> nat list" where
  "record_run r pos s [] cap ecap = (s, 0, [], [])"
| "record_run r pos s (c # cs) 0 ecap = (s, 0, [], [])"
| "record_run r pos s (c # cs) (Suc k) 0 = (s, 0, [], [])"
| "record_run r pos s (c # cs) (Suc k) (Suc m) =
     (case csv_step r s c of (t, copy) \<Rightarrow>
        let w = (if copy then [c] else []); pos = pos + length w in
        if is_record_final t then (t, 1, w, [pos])
        else case record_run r pos t cs (if copy then k else Suc k) (if is_field_final t then m else Suc m) of
          (u, n, v, es) \<Rightarrow> (u, Suc n, w @ v, (if is_field_final t then [pos] else []) @ es))"

text \<open>
  The states the two machines can share: DFA rows whose step the byte classes do not distort. They
  are closed under steps as soon as comments are off or a line feed has a class of its own.
\<close>

definition lf_ok :: "Reader \<Rightarrow> bool" where
  "lf_ok r \<longleftrightarrow> LF \<in> set (special_bytes r) \<or> r_comment r = None"

definition live :: "Reader \<Rightarrow> NfaState \<Rightarrow> bool" where
  "live r s \<longleftrightarrow> s \<in> dfa_states \<and> lf_visible r s"

lemma live_StartRecord [simp]: "live r StartRecord"
  by (simp add: live_def lf_visible_def dfa_states_iff)

lemma live_dfa_states: "live r s \<Longrightarrow> s \<in> dfa_states"
  by (simp add: live_def)

lemma csv_step_live:
  assumes "lf_ok r" and "live r s"
  shows "live r (fst (csv_step r s c))"
  using assms unfolding live_def lf_visible_def lf_ok_def special_bytes_iff dfa_states_iff
  by (cases s) (auto simp: step_defs)

lemma field_run_bounds:
  assumes "field_run r s cs cap = (t, n, w)"
  shows "n \<le> length cs" and "length w \<le> cap" and "length w \<le> n"
  using assms
  by (induction r s cs cap arbitrary: t n w rule: field_run.induct)
    (fastforce split: prod.splits if_splits)+

lemma field_run_live:
  assumes "field_run r s cs cap = (t, n, w)" and "lf_ok r" and "live r s"
  shows "live r t"
  using assms
proof (induction r s cs cap arbitrary: t n w rule: field_run.induct)
  case (3 r s c cs k)
  then show ?case using csv_step_live [OF 3(3,4), of c]
    by (auto split: prod.splits if_splits)
qed auto

lemma record_run_bounds:
  assumes "record_run r pos s cs cap ecap = (t, n, w, es)"
  shows "n \<le> length cs" and "length w \<le> cap" and "length es \<le> ecap"
  using assms
  by (induction r pos s cs cap ecap arbitrary: t n w es rule: record_run.induct)
    (fastforce simp: Let_def split: prod.splits if_splits)+

lemma record_run_live:
  assumes "record_run r pos s cs cap ecap = (t, n, w, es)" and "lf_ok r" and "live r s"
  shows "live r t"
  using assms
proof (induction r pos s cs cap ecap arbitrary: t n w es rule: record_run.induct)
  case (4 r pos s c cs k m)
  then show ?case using csv_step_live [OF 4(3,4), of c]
    by (auto simp: Let_def split: prod.splits if_splits)
qed auto

text \<open>Runs depend on the configuration only.\<close>

lemma run_cong:
  assumes "cfg r = cfg q"
  shows "lf_ok r = lf_ok q" and "live r s = live q s" and "field_run r s cs cap = field_run q s cs cap"
    and "record_run r pos s cs cap ecap = record_run q pos s cs cap ecap"
proof -
  have "r_comment r = r_comment q" using assms by (simp add: cfg_def)
  then show "lf_ok r = lf_ok q" "live r s = live q s"
    using cfg_cong [OF assms] by (simp_all add: lf_ok_def live_def)
  show "field_run r s cs cap = field_run q s cs cap"
  proof (induction cs arbitrary: s cap)
    case (Cons c cs)
    then show ?case by (cases cap; cases "csv_step q s c") (simp_all add: cfg_cong(1) [OF assms])
  qed simp
  show "record_run r pos s cs cap ecap = record_run q pos s cs cap ecap"
  proof (induction cs arbitrary: pos s cap ecap)
    case (Cons c cs)
    then show ?case by (cases cap; cases ecap; cases "csv_step q s c") (simp_all add: cfg_cong(1) [OF assms] Let_def)
  qed simp
qed

section \<open>Rows and final states\<close>

lemma builtD:
  assumes "built r" and "s \<in> dfa_states"
  shows "new_state (r_dfa r) s = Some (row (r_dfa r) s)"
    and "unat (row (r_dfa r) s) = unat (nfa_num s) * next_class (dfa_classes (r_dfa r))"
    and "0 < next_class (dfa_classes (r_dfa r))"
proof -
  have n: "next_class (dfa_classes (r_dfa r)) \<le> 7"
    using assms(1) by (simp add: built_def table_inv_def)
  show "new_state (r_dfa r) s = Some (row (r_dfa r) s)"
    "unat (row (r_dfa r) s) = unat (nfa_num s) * next_class (dfa_classes (r_dfa r))"
    using new_state_row [OF n assms(2)] by auto
  show "0 < next_class (dfa_classes (r_dfa r))"
    using assms(1) classes_invD(2) by (fastforce simp: built_def table_inv_def)
qed

lemma row_le_iff:
  assumes "built r" "s \<in> dfa_states" "t \<in> dfa_states"
  shows "row (r_dfa r) s \<le> row (r_dfa r) t \<longleftrightarrow> unat (nfa_num s) \<le> unat (nfa_num t)"
    and "row (r_dfa r) s < row (r_dfa r) t \<longleftrightarrow> unat (nfa_num s) < unat (nfa_num t)"
    and "row (r_dfa r) s = row (r_dfa r) t \<longleftrightarrow> s = t"
proof -
  let ?n = "next_class (dfa_classes (r_dfa r))"
  have n: "0 < ?n" using builtD(3) assms by blast
  show "row (r_dfa r) s \<le> row (r_dfa r) t \<longleftrightarrow> unat (nfa_num s) \<le> unat (nfa_num t)"
    "row (r_dfa r) s < row (r_dfa r) t \<longleftrightarrow> unat (nfa_num s) < unat (nfa_num t)"
    using n assms by (simp_all add: word_le_nat_alt word_less_nat_alt builtD(2))
  show "row (r_dfa r) s = row (r_dfa r) t \<longleftrightarrow> s = t"
    using n assms builtD(2) by (metis mult_cancel2 nfa_num_inj not_gr_zero)
qed

lemma final_nums:
  assumes "s \<in> dfa_states"
  shows "is_field_final s \<longleftrightarrow> 7 \<le> unat (nfa_num s)"
    and "is_record_final s \<longleftrightarrow> 8 \<le> unat (nfa_num s)"
    and "is_record_final s \<longleftrightarrow> 7 < unat (nfa_num s)"
  using assms unfolding dfa_states_iff by (cases s, simp_all)+

lemma final_rows:
  assumes b: "built r" and s: "s \<in> dfa_states"
  shows "final_field (r_dfa r) \<le> row (r_dfa r) s \<longleftrightarrow> is_field_final s"
    and "final_field (r_dfa r) < row (r_dfa r) s \<longleftrightarrow> is_record_final s"
    and "final_record (r_dfa r) \<le> row (r_dfa r) s \<longleftrightarrow> is_record_final s"
    and "row (r_dfa r) s = final_field (r_dfa r) \<longleftrightarrow> s = EndFieldDelim"
    and "is_start (row (r_dfa r) s) \<longleftrightarrow> s = StartRecord"
    and "row (r_dfa r) s = in_field (r_dfa r) \<longleftrightarrow> s = InField"
    and "row (r_dfa r) s = in_quoted (r_dfa r) \<longleftrightarrow> s = InQuotedField"
proof -
  have marks: "in_field (r_dfa r) = row (r_dfa r) InField" "in_quoted (r_dfa r) = row (r_dfa r) InQuotedField"
    "final_field (r_dfa r) = row (r_dfa r) EndFieldDelim" "final_record (r_dfa r) = row (r_dfa r) EndRecord"
    using b by (simp_all add: built_def)
  note nums = final_nums [OF s]
  have st: "EndFieldDelim \<in> dfa_states" "EndRecord \<in> dfa_states" "InField \<in> dfa_states"
    "InQuotedField \<in> dfa_states" "StartRecord \<in> dfa_states"
    by (simp_all add: dfa_states_iff)
  show "final_field (r_dfa r) \<le> row (r_dfa r) s \<longleftrightarrow> is_field_final s"
    "final_field (r_dfa r) < row (r_dfa r) s \<longleftrightarrow> is_record_final s"
    "final_record (r_dfa r) \<le> row (r_dfa r) s \<longleftrightarrow> is_record_final s"
    using row_le_iff [OF b _ s] st unfolding marks nums(1) by (simp_all add: nums(2)) presburger
  show "row (r_dfa r) s = final_field (r_dfa r) \<longleftrightarrow> s = EndFieldDelim"
    "row (r_dfa r) s = in_field (r_dfa r) \<longleftrightarrow> s = InField"
    "row (r_dfa r) s = in_quoted (r_dfa r) \<longleftrightarrow> s = InQuotedField"
    "is_start (row (r_dfa r) s) \<longleftrightarrow> s = StartRecord"
    using row_le_iff(3) [OF b s] st row_le_iff(3) [OF b s st(5)] unfolding marks
    by (simp_all add: is_start_def)
qed

section \<open>The field loops compute the reference run\<close>

lemma built_get_output:
  assumes "built r" and "live r s"
  shows "get_output (r_dfa r) (row (r_dfa r) s) c = Some (row (r_dfa r) (fst (csv_step r s c)), snd (csv_step r s c))"
  using assms by (simp add: built_def live_def)

definition lines_in :: "u8 list \<Rightarrow> u64" where
  "lines_in cs = word_of_nat (count_list cs LF)"

lemma lines_in_simps [simp]: "lines_in [] = 0" "lines_in (c # cs) = (if c = LF then 1 else 0) + lines_in cs"
  by (simp_all add: lines_in_def)

lemma lines_in_append [simp]: "lines_in (as @ bs) = lines_in as + lines_in bs"
  by (induction as) simp_all

lemma dfa_field_loop_run:
  assumes "built r" and "lf_ok r" and "live r s" and "drop nin input = cs"
    and "field_run r s cs (length out - nout) = (t, n, w)"
  shows "dfa_field_loop (r_dfa r) input out nin nout (row (r_dfa r) s) line =
    Some (overwrite out nout w, nin + n, nout + length w, row (r_dfa r) t, line + lines_in (take n cs))"
  using assms
proof (induction cs arbitrary: nin nout out s line t n w)
  case Nil
  then show ?case by (simp add: dfa_field_loop.simps)
next
  case (Cons c cs)
  have nin: "nin < length input" "input ! nin = c" "drop (Suc nin) input = cs"
    using drop_ConsD [OF Cons.prems(4)] by simp_all
  obtain u copy where u: "csv_step r s c = (u, copy)" by fastforce
  have live: "live r u" using csv_step_live [OF Cons.prems(2,3), of c] u by simp
  show ?case
  proof (cases "nout < length out")
    case False
    then show ?thesis using Cons.prems(5) by (simp add: dfa_field_loop.simps)
  next
    case True
    then obtain k where k: "length out - nout = Suc k" by (metis Suc_diff_Suc)
    have fin: "final_field (r_dfa r) \<le> row (r_dfa r) u \<longleftrightarrow> is_field_final u"
      using final_rows(1) Cons.prems(1) live by (simp add: live_def)
    show ?thesis
    proof (cases "is_field_final u")
      case True
      then show ?thesis
        using Cons.prems nin u fin k \<open>nout < length out\<close>
        by (subst dfa_field_loop.simps) (auto simp: built_get_output overwrite_def upd_conv_take_nth_drop)
    next
      case False
      obtain v m x where run: "field_run r u cs (if copy then k else Suc k) = (v, m, x)"
        using prod_cases3 by blast
      have res: "t = v" "n = Suc m" "w = (if copy then [c] else []) @ x"
        using Cons.prems(5) u k False run by simp_all
      let ?out = "if copy then out[nout := c] else out" and ?nout = "if copy then nout + 1 else nout"
      have "field_run r u cs (length ?out - ?nout) = (v, m, x)"
        using run k Suc_diff_Suc [of nout "length out"] by (auto simp: diff_Suc)
      from Cons.IH [OF Cons.prems(1,2) live nin(3) this, of "line + (if c = LF then 1 else 0)"]
      show ?thesis
        using Cons.prems(1,3) nin u fin False \<open>nout < length out\<close> res
        by (subst dfa_field_loop.simps) (simp add: built_get_output overwrite_Cons add.assoc)
    qed
  qed
qed

text \<open>
  One byte of an NFA loop: the epsilon transitions leave the loop variables alone, then one
  consuming transition is the reference step.
\<close>

lemma consume_eps_End: "consume_eps r (NfaState.End, a) c = Some (NfaState.End, a)"
  by (simp add: consume_eps.simps)

lemma eps_chain_cases:
  assumes "consume_eps r (s, Epsilon) c = Some (t, a)" and "a \<noteq> Epsilon"
  shows "transition_nfa r s c = Some (t, a)
    \<or> (\<exists>u. transition_nfa r s c = Some (u, Epsilon) \<and> \<not> is_field_final u
          \<and> eps_rank u < eps_rank s \<and> consume_eps r (u, Epsilon) c = Some (t, a))"
proof -
  have s: "s \<noteq> NfaState.End" using assms by (auto simp: consume_eps_End)
  then obtain u b where u: "transition_nfa r s c = Some (u, b)" "consume_eps r (u, b) c = Some (t, a)"
    using assms(1) by (auto simp: consume_eps_go split: option.splits)
  show ?thesis
  proof (cases "b = Epsilon")
    case True
    have "u \<noteq> NfaState.End" using u True assms(2) by (auto simp: consume_eps_End)
    then show ?thesis
      using u True s transition_nfa_rank transition_nfa_eps_final by blast
  qed (use u in auto)
qed

lemma nfa_field_loop_byte:
  assumes "consume_eps r (s, Epsilon) (input ! nin) = Some (t, a)" and "a \<noteq> Epsilon"
    and "nin < length input" and "nout < length out"
  shows "nfa_field_loop r input out nin nout s =
    (case apply_io a (input ! nin) out nout nin of (out', nout', nin') \<Rightarrow>
       if is_field_final t then Some (out', nin', nout', t)
       else nfa_field_loop r input out' nin' nout' t)"
  using assms(1)
proof (induction s rule: measure_induct_rule [of eps_rank])
  case (less s)
  from eps_chain_cases [OF less.prems assms(2)] show ?case
  proof (elim disjE exE conjE)
    assume "transition_nfa r s (input ! nin) = Some (t, a)"
    then show ?thesis using assms(3,4) by (subst nfa_field_loop.simps) simp
  next
    fix u
    assume u: "transition_nfa r s (input ! nin) = Some (u, Epsilon)" "\<not> is_field_final u"
      "eps_rank u < eps_rank s" "consume_eps r (u, Epsilon) (input ! nin) = Some (t, a)"
    have "nfa_field_loop r input out nin nout s = nfa_field_loop r input out nin nout u"
      using u assms(3,4) by (subst nfa_field_loop.simps) (simp add: apply_io_def)
    then show ?thesis using less.IH [OF u(3,4)] by simp
  qed
qed

text \<open>The outcome of one consumed byte.\<close>

lemma apply_io_step:
  assumes "a \<noteq> Epsilon" and "(a = CopyToOutput) = copy"
  shows "apply_io a b out nout nin =
    (if copy then out[nout := b] else out, if copy then nout + 1 else nout, nin + 1)"
  using assms by (cases a) (auto simp: apply_io_def)

lemma nfa_field_loop_run:
  assumes "term_ok r" and "s \<in> dfa_states" and "drop nin input = cs"
    and "field_run r s cs (length out - nout) = (t, n, w)"
  shows "nfa_field_loop r input out nin nout s = Some (overwrite out nout w, nin + n, nout + length w, t)"
  using assms
proof (induction cs arbitrary: nin nout out s t n w)
  case Nil
  then show ?case by (simp add: nfa_field_loop.simps)
next
  case (Cons c cs)
  have nin: "nin < length input" "input ! nin = c" "drop (Suc nin) input = cs"
    using drop_ConsD [OF Cons.prems(3)] by simp_all
  obtain u copy where u: "csv_step r s c = (u, copy)" by fastforce
  have us: "u \<in> dfa_states" using csv_step_dfa_states [OF Cons.prems(2), of r c] u by simp
  obtain a where a: "consume_eps r (s, Epsilon) (input ! nin) = Some (u, a)" "a \<noteq> Epsilon"
      "(a = CopyToOutput) = copy"
    using consume_eps_csv_step [OF Cons.prems(1,2), of c] u nin by auto
  note io = apply_io_step [OF a(2,3)]
  show ?case
  proof (cases "nout < length out")
    case False
    then show ?thesis using Cons.prems(4) by (simp add: nfa_field_loop.simps)
  next
    case True
    then obtain k where k: "length out - nout = Suc k" by (metis Suc_diff_Suc)
    note loop = nfa_field_loop_byte [OF a(1,2) nin(1) True]
    show ?thesis
    proof (cases "is_field_final u")
      case True
      then show ?thesis
        using Cons.prems nin u k loop io \<open>nout < length out\<close>
        by (auto simp: overwrite_def upd_conv_take_nth_drop)
    next
      case False
      obtain v m x where run: "field_run r u cs (if copy then k else Suc k) = (v, m, x)"
        using prod_cases3 by blast
      have res: "t = v" "n = Suc m" "w = (if copy then [c] else []) @ x"
        using Cons.prems(4) u k False run by simp_all
      let ?out = "if copy then out[nout := c] else out" and ?nout = "if copy then nout + 1 else nout"
      have "field_run r u cs (length ?out - ?nout) = (v, m, x)"
        using run k Suc_diff_Suc [of nout "length out"] by (auto simp: diff_Suc)
      from Cons.IH [OF Cons.prems(1) us nin(3) this]
      show ?thesis
        using loop io nin False res \<open>nout < length out\<close> by (simp add: overwrite_Cons)
    qed
  qed
qed

section \<open>Reading a field: results\<close>

definition field_outcome :: "NfaState \<Rightarrow> bool \<Rightarrow> bool \<Rightarrow> ReadFieldResult" where
  "field_outcome t inpdone outdone =
     (if is_record_final t then Field True
      else if t = EndFieldDelim then Field False
      else if \<not> inpdone \<and> outdone then ReadFieldResult.OutputFull else ReadFieldResult.InputEmpty)"

lemma field_result_from_nfa_eq:
  "t \<in> dfa_states \<Longrightarrow> field_result_from_nfa t i out = Some (field_outcome t i out)"
  by (cases t) (simp_all add: field_result_from_nfa_def field_outcome_def dfa_states_iff)

lemma new_read_field_result_eq:
  assumes "built r" and "t \<in> dfa_states"
  shows "new_read_field_result (r_dfa r) (row (r_dfa r) t) False i out = Some (field_outcome t i out)"
proof -
  have "row (r_dfa r) t < final_field (r_dfa r)" if "\<not> is_field_final t"
    using that final_rows(1) [OF assms] by simp
  moreover have "is_field_final t \<longleftrightarrow> is_record_final t \<or> t = EndFieldDelim"
    by (cases t) simp_all
  ultimately show ?thesis
    using final_rows(3,4) [OF assms] by (auto simp: new_read_field_result_def field_outcome_def)
qed

text \<open>A reader whose two machines are in corresponding states.\<close>

definition in_sync :: "Reader \<Rightarrow> bool" where
  "in_sync r \<longleftrightarrow> live r (r_nfa_state r) \<and> r_dfa_state r = row (r_dfa r) (r_nfa_state r)"

lemma read_field_dfa_run:
  assumes "built r" "lf_ok r" "live r s" "r_dfa_state r = row (r_dfa r) s"
    and "input \<noteq> []" "out \<noteq> []" and "field_run r s input (length out) = (t, n, w)"
  shows "read_field_dfa r input out =
    Some (r\<lparr>r_dfa_state := row (r_dfa r) t, r_line := r_line r + lines_in (take n input)\<rparr>,
      overwrite out 0 w, field_outcome t (length input \<le> n) (length out \<le> length w), n, length w)"
proof -
  have "t \<in> dfa_states" using field_run_live [OF assms(7,2,3)] by (rule live_dfa_states)
  then show ?thesis
    using assms dfa_field_loop_run [OF assms(1,2,3), of 0 input input out 0 t n w "r_line r"]
    by (simp add: read_field_dfa_def new_read_field_result_eq)
qed

lemma read_field_nfa_run:
  assumes "term_ok r" "lf_ok r" "live r (r_nfa_state r)"
    and "input \<noteq> []" "out \<noteq> []" and "field_run r (r_nfa_state r) input (length out) = (t, n, w)"
  shows "read_field_nfa r input out =
    Some (r\<lparr>r_nfa_state := t\<rparr>,
      overwrite out 0 w, field_outcome t (length input \<le> n) (length out \<le> length w), n, length w)"
proof -
  have "t \<in> dfa_states" using field_run_live [OF assms(6,2,3)] by (rule live_dfa_states)
  then show ?thesis
    using assms nfa_field_loop_run [OF assms(1) live_dfa_states [OF assms(3)], of 0 input input out 0 t n w]
    by (simp add: read_field_nfa_def field_result_from_nfa_eq)
qed

section \<open>The record loops compute the reference run\<close>

lemma scan_and_copy_ordinary:
  assumes "length (classes k) = 256" and "nout \<le> length out"
  shows "\<exists>ps rest. drop nin input = ps @ rest \<and> set ps \<inter> separated k = {} \<and> nout + length ps \<le> length out
    \<and> scan_and_copy k input nin out nout = Some (nin + length ps, overwrite out nout ps, nout + length ps)"
  using assms(2)
proof (induction "drop nin input" arbitrary: nin nout out)
  case Nil
  then show ?case by (auto simp: scan_and_copy.simps intro!: exI [of _ "[]"])
next
  case (Cons c cs)
  have nin: "nin < length input" "input ! nin = c" "cs = drop (Suc nin) input"
    using drop_ConsD [OF Cons.hyps(2) [symmetric]] by simp_all
  show ?case
  proof (cases "nout < length out \<and> class_of k c = 0")
    case True
    obtain ps rest where IH: "drop (Suc nin) input = ps @ rest" "set ps \<inter> separated k = {}"
        "Suc nout + length ps \<le> length (out[nout := c])"
        "scan_and_copy k input (Suc nin) (out[nout := c]) (Suc nout)
          = Some (Suc nin + length ps, overwrite (out[nout := c]) (Suc nout) ps, Suc nout + length ps)"
      using Cons.hyps(1) [OF nin(3), of "Suc nout" "out[nout := c]"] True by auto
    have "scan_and_copy k input nin out nout = scan_and_copy k input (Suc nin) (out[nout := c]) (Suc nout)"
      using True nin assms(1) by (subst scan_and_copy.simps) (simp add: idx_def class_of_def)
    then show ?thesis
      using IH True Cons.hyps(2) nin
      by (intro exI [of _ "c # ps"] exI [of _ rest]) (simp add: overwrite_Cons separated_def)
  next
    case False
    then have "scan_and_copy k input nin out nout = Some (nin, out, nout)"
      using nin assms(1) by (subst scan_and_copy.simps) (auto simp: idx_def class_of_def)
    then show ?thesis using Cons.prems by (auto intro!: exI [of _ "[]"])
  qed
qed

lemma csv_step_inside:
  assumes "c \<notin> set (special_bytes r)" and "s = InField \<or> s = InQuotedField"
  shows "csv_step r s c = (s, True)"
  using assms by (auto simp: special_bytes_iff step_defs)

lemma record_run_inside:
  assumes "set ps \<inter> set (special_bytes r) = {}" and "s = InField \<or> s = InQuotedField"
    and "length ps \<le> cap" and "0 < ecap"
    and "record_run r (pos + length ps) s rest (cap - length ps) ecap = (u, n, v, es)"
  shows "record_run r pos s (ps @ rest) cap ecap = (u, length ps + n, ps @ v, es)"
  using assms
proof (induction ps arbitrary: pos cap)
  case (Cons c ps)
  obtain k m where km: "cap = Suc k" "ecap = Suc m"
    using Cons.prems(3,4) by (cases cap; cases ecap) auto
  have fin: "\<not> is_record_final s" "\<not> is_field_final s" using Cons.prems(2) by auto
  have "record_run r (Suc pos) s (ps @ rest) k ecap = (u, length ps + n, ps @ v, es)"
    using Cons.prems km by (intro Cons.IH) auto
  then show ?case
    using Cons.prems km fin csv_step_inside [of c r s] by (simp add: Let_def)
qed simp

lemma lines_in_ordinary: "LF \<notin> set ps \<Longrightarrow> lines_in ps = 0"
  by (simp add: lines_in_def count_notin)

text \<open>One iteration of the DFA loop over the byte \<open>c\<close>, in terms of the reference step.\<close>

lemma dfa_record_body_step:
  fixes pos :: nat and line :: u64
  assumes b: "built r" and s: "live r s" and nin: "nin < length input" "input ! nin = c"
    and cap: "nout < length out" "nend < length ends"
    and step: "csv_step r s c = (u, copy)" and u: "u \<in> dfa_states"
  defines "out1 \<equiv> (if copy then out[nout := c] else out)" and "nout1 \<equiv> (if copy then nout + 1 else nout)"
    and "ends1 \<equiv> (if is_field_final u then ends[nend := pos + (if copy then nout + 1 else nout)] else ends)"
    and "nend1 \<equiv> (if is_field_final u then nend + 1 else nend)"
    and "line1 \<equiv> line + (if c = LF then 1 else 0)"
  shows "\<exists>ps rest. drop (Suc nin) input = ps @ rest \<and> set ps \<inter> set (special_bytes r) = {}
    \<and> nout1 + length ps \<le> length out \<and> (ps \<noteq> [] \<longrightarrow> u = InField \<or> u = InQuotedField)
    \<and> dfa_record_body (r_dfa r) pos input (out, ends, nin, nout, nend, row (r_dfa r) s, line)
      = Some ((if is_record_final u then Inl else Inr)
          (overwrite out1 nout1 ps, ends1, Suc nin + length ps, nout1 + length ps, nend1, row (r_dfa r) u, line1))"
proof -
  let ?d = "r_dfa r"
  have sep: "separated (dfa_classes ?d) = set (special_bytes r)" "length (classes (dfa_classes ?d)) = 256"
    using b by (simp_all add: built_def table_inv_def classes_invD(1))
  have n1: "nout1 \<le> length out1" "length out1 = length out" using cap by (simp_all add: out1_def nout1_def)
  obtain ps rest where ps: "drop (Suc nin) input = ps @ rest" "set ps \<inter> set (special_bytes r) = {}"
      "nout1 + length ps \<le> length out"
      "scan_and_copy (dfa_classes ?d) input (Suc nin) out1 nout1
        = Some (Suc nin + length ps, overwrite out1 nout1 ps, nout1 + length ps)"
    using scan_and_copy_ordinary [OF sep(2) n1(1), of "Suc nin" input] n1 sep(1) by auto
  note get = built_get_output [OF b s, of c] and fin = final_rows [OF b u]
  show ?thesis
  proof (cases "u = InField \<or> u = InQuotedField")
    case True
    then have "\<not> is_field_final u" "\<not> is_record_final u" by auto
    then show ?thesis
      using ps get step nin fin True unfolding out1_def nout1_def ends1_def nend1_def line1_def
      by (intro exI [of _ ps] exI [of _ rest]) (auto simp: dfa_record_body_def Let_def)
  next
    case False
    have "is_record_final u \<Longrightarrow> is_field_final u" by (cases u) auto
    then show ?thesis
      using n1 get step nin fin False unfolding out1_def nout1_def ends1_def nend1_def line1_def
      by (intro exI [of _ "[]"] exI [of _ "drop (Suc nin) input"]) (auto simp: dfa_record_body_def Let_def)
  qed
qed

lemma record_run_step:
  assumes "csv_step r s c = (u, copy)" and "0 < cap" and "0 < ecap"
  shows "record_run r pos s (c # cs) cap ecap =
     (let w = (if copy then [c] else []); pos = pos + length w in
        if is_record_final u then (u, 1, w, [pos])
        else case record_run r pos u cs (cap - length w) (if is_field_final u then ecap - 1 else ecap) of
          (t, n, v, es) \<Rightarrow> (t, Suc n, w @ v, (if is_field_final u then [pos] else []) @ es))"
  using assms by (cases cap; cases ecap) (simp_all add: Let_def)

lemma record_run_skip:
  assumes "set ps \<inter> set (special_bytes r) = {}" and "ps \<noteq> [] \<longrightarrow> (u = InField \<or> u = InQuotedField) \<and> 0 < ecap"
    and "length ps \<le> cap" and "record_run r pos u (ps @ rest) cap ecap = (v, m, x, fs)"
  obtains m' x' where "m = length ps + m'" "x = ps @ x'"
    "record_run r (pos + length ps) u rest (cap - length ps) ecap = (v, m', x', fs)"
proof (cases "ps = []")
  case True
  then show ?thesis using that [of m x] assms(4) by simp
next
  case False
  obtain v' m' x' fs' where rest: "record_run r (pos + length ps) u rest (cap - length ps) ecap = (v', m', x', fs')"
    using prod_cases4 by blast
  from record_run_inside [OF assms(1) _ assms(3) _ rest] assms(2,4) False
  have "v = v'" "m = length ps + m'" "x = ps @ x'" "fs = fs'" by auto
  then show ?thesis using that rest by simp
qed

lemma dfa_record_loop_run:
  assumes "built r" and "lf_ok r" and "live r s" and "drop nin input = cs"
    and "nout \<le> length out" and "nend \<le> length ends"
    and "record_run r (pos + nout) s cs (length out - nout) (length ends - nend) = (t, n, w, es)"
  shows "\<exists>line'. (LF \<in> set (special_bytes r) \<longrightarrow> line' = line + lines_in (take n cs))
    \<and> dfa_record_loop (r_dfa r) pos input (out, ends, nin, nout, nend, row (r_dfa r) s, line)
      = Some (overwrite out nout w, overwrite ends nend es, nin + n, nout + length w, nend + length es,
          row (r_dfa r) t, line')"
  using assms
proof (induction "length cs" arbitrary: cs nin nout nend out ends s line t n w es rule: less_induct)
  case less
  show ?case
  proof (cases "cs = [] \<or> nout = length out \<or> nend = length ends")
    case True
    then have "(t, n, w, es) = (s, 0, [], [])"
      using less.prems(7) by (cases cs; cases "length out - nout"; auto)
    moreover have "nin \<ge> length input" if "cs = []" using less.prems(4) that by simp
    ultimately show ?thesis using True by (auto simp: dfa_record_loop.simps)
  next
    case False
    then obtain c cs' where cs: "cs = c # cs'" by (cases cs) auto
    have nin: "nin < length input" "input ! nin = c" "drop (Suc nin) input = cs'"
      using drop_ConsD less.prems(4) cs by auto
    have cap: "nout < length out" "nend < length ends" using False less.prems(5,6) by auto
    obtain u copy where u: "csv_step r s c = (u, copy)" by fastforce
    have live: "live r u" using csv_step_live [OF less.prems(2,3), of c] u by simp
    note body = dfa_record_body_step [OF less.prems(1,3) nin(1,2) cap u live_dfa_states [OF live], of pos line]
    let ?w = "if copy then [c] else []"
    let ?out = "if copy then out[nout := c] else out" and ?nout = "nout + length ?w"
    let ?ends = "if is_field_final u then ends[nend := pos + ?nout] else ends"
    let ?nend = "if is_field_final u then nend + 1 else nend"
    have nn: "(if copy then nout + 1 else nout) = ?nout" by simp
    obtain ps rest where ps: "cs' = ps @ rest" "set ps \<inter> set (special_bytes r) = {}"
        "?nout + length ps \<le> length out" "ps \<noteq> [] \<longrightarrow> u = InField \<or> u = InQuotedField"
        "dfa_record_body (r_dfa r) pos input (out, ends, nin, nout, nend, row (r_dfa r) s, line)
          = Some ((if is_record_final u then Inl else Inr) (overwrite ?out ?nout ps, ?ends,
              Suc nin + length ps, ?nout + length ps, ?nend, row (r_dfa r) u, line + (if c = LF then 1 else 0)))"
      using body nin(3) unfolding nn by auto
    have ow: "overwrite ?out ?nout v = overwrite out nout (?w @ v)" for v
      using cap by (simp add: overwrite_Cons)
    show ?thesis
    proof (cases "is_record_final u")
      case True
      then have "ps = []" "is_field_final u" using ps(4) by (cases u; auto)+
      then show ?thesis
        using less.prems(7) cs u True cap ps(5) nin ow [of "[]"]
        by (auto simp: record_run_step dfa_record_loop.simps Let_def overwrite_single)
    next
      case False
      obtain v m x fs where run: "record_run r (pos + ?nout) u cs' (length out - ?nout) (length ends - ?nend) = (v, m, x, fs)"
        using prod_cases4 by blast
      have res: "t = v" "n = Suc m" "w = ?w @ x" "es = (if is_field_final u then [pos + ?nout] else []) @ fs"
        using less.prems(7) cs u cap False run
        by (auto simp: record_run_step Let_def diff_Suc split: prod.splits if_splits nat.splits)
      have ecap: "ps \<noteq> [] \<longrightarrow> (u = InField \<or> u = InQuotedField) \<and> 0 < length ends - ?nend"
        using ps(4) cap by auto
      have "length ps \<le> length out - ?nout" using ps(3) by simp
      then obtain m' x' where m': "m = length ps + m'" "x = ps @ x'"
          "record_run r (pos + ?nout + length ps) u rest (length out - ?nout - length ps) (length ends - ?nend) = (v, m', x', fs)"
        using record_run_skip [OF ps(2) ecap] run ps(1) by metis
      let ?out' = "overwrite ?out ?nout ps" and ?nout' = "?nout + length ps"
      let ?line = "line + (if c = LF then 1 else 0)"
      have len: "length ?out' = length out" "length ?ends = length ends"
        using ps(3) length_overwrite [of ?nout ps ?out] by auto
      have IH: "\<exists>line'. (LF \<in> set (special_bytes r) \<longrightarrow> line' = ?line + lines_in (take m' rest))
        \<and> dfa_record_loop (r_dfa r) pos input (?out', ?ends, Suc nin + length ps, ?nout', ?nend, row (r_dfa r) u, ?line)
          = Some (overwrite ?out' ?nout' x', overwrite ?ends ?nend fs, Suc nin + length ps + m', ?nout' + length x',
              ?nend + length fs, row (r_dfa r) v, line')"
      proof (rule less.hyps)
        show "length rest < length cs" using cs ps(1) by simp
        show "drop (Suc nin + length ps) input = rest"
          using nin(3) ps(1) by (metis add.commute append_eq_conv_conj drop_drop)
        show "record_run r (pos + ?nout') u rest (length ?out' - ?nout') (length ?ends - ?nend) = (v, m', x', fs)"
          using m'(3) len by (simp add: add.assoc)
      qed (use less.prems live ps(3) cap len in auto)
      have step: "dfa_record_loop (r_dfa r) pos input (out, ends, nin, nout, nend, row (r_dfa r) s, line)
          = dfa_record_loop (r_dfa r) pos input (?out', ?ends, Suc nin + length ps, ?nout', ?nend, row (r_dfa r) u, ?line)"
        using ps(5) False nin(1) cap by (simp add: dfa_record_loop.simps)
      have eqs: "overwrite ?out' ?nout' x' = overwrite out nout w" "overwrite ?ends ?nend fs = overwrite ends nend es"
        using ow [of ps] ow [of "ps @ x'"] overwrite_overwrite [of ?nout ps ?out x'] ps(3) cap res m'(2)
        by (auto simp: overwrite_Cons)
      have lines: "lines_in (take n cs) = (if c = LF then 1 else 0) + lines_in (take m' rest)"
        if "LF \<in> set (special_bytes r)"
        using that ps(1,2) res(2) m'(1) cs lines_in_ordinary [of ps] by auto
      show ?thesis using IH step eqs lines res m' by (auto simp: add.assoc)
    qed
  qed
qed

lemma nfa_record_loop_byte:
  assumes "consume_eps r (s, Epsilon) (input ! nin) = Some (t, a)" and "a \<noteq> Epsilon"
    and "nin < length input" and "nout < length out" and "nend < length ends"
  shows "nfa_record_loop r input out ends nin nout nend s =
    (case apply_io a (input ! nin) out nout nin of (out', nout', nin') \<Rightarrow>
       if is_field_final t
       then (if t \<noteq> EndFieldDelim then Some (out', ends[nend := nout'], nin', nout', nend + 1, t)
             else nfa_record_loop r input out' (ends[nend := nout']) nin' nout' (nend + 1) t)
       else nfa_record_loop r input out' ends nin' nout' nend t)"
  using assms(1)
proof (induction s rule: measure_induct_rule [of eps_rank])
  case (less s)
  from eps_chain_cases [OF less.prems assms(2)] show ?case
  proof (elim disjE exE conjE)
    assume "transition_nfa r s (input ! nin) = Some (t, a)"
    then show ?thesis using assms(3-5) by (subst nfa_record_loop.simps) simp
  next
    fix u
    assume u: "transition_nfa r s (input ! nin) = Some (u, Epsilon)" "\<not> is_field_final u"
      "eps_rank u < eps_rank s" "consume_eps r (u, Epsilon) (input ! nin) = Some (t, a)"
    have "nfa_record_loop r input out ends nin nout nend s = nfa_record_loop r input out ends nin nout nend u"
      using u assms(3-5) by (subst nfa_record_loop.simps) (simp add: apply_io_def)
    then show ?thesis using less.IH [OF u(3,4)] by simp
  qed
qed

lemma nfa_record_loop_run:
  assumes "term_ok r" and "s \<in> dfa_states" and "drop nin input = cs"
    and "nout \<le> length out" and "nend \<le> length ends"
    and "record_run r nout s cs (length out - nout) (length ends - nend) = (t, n, w, es)"
  shows "nfa_record_loop r input out ends nin nout nend s
    = Some (overwrite out nout w, overwrite ends nend es, nin + n, nout + length w, nend + length es, t)"
  using assms
proof (induction cs arbitrary: nin nout nend out ends s t n w es)
  case Nil
  then show ?case by (simp add: nfa_record_loop.simps)
next
  case (Cons c cs)
  have nin: "nin < length input" "input ! nin = c" "drop (Suc nin) input = cs"
    using drop_ConsD [OF Cons.prems(3)] by simp_all
  show ?case
  proof (cases "nout = length out \<or> nend = length ends")
    case True
    then have "(t, n, w, es) = (s, 0, [], [])"
      using Cons.prems(6) by (cases "length out - nout"; auto)
    then show ?thesis using True by (auto simp: nfa_record_loop.simps)
  next
    case False
    then have cap: "nout < length out" "nend < length ends" using Cons.prems(4,5) by auto
    obtain u copy where u: "csv_step r s c = (u, copy)" by fastforce
    have us: "u \<in> dfa_states" using csv_step_dfa_states [OF Cons.prems(2), of r c] u by simp
    obtain a where a: "consume_eps r (s, Epsilon) (input ! nin) = Some (u, a)" "a \<noteq> Epsilon"
        "(a = CopyToOutput) = copy"
      using consume_eps_csv_step [OF Cons.prems(1,2), of c] u nin by auto
    note loop = nfa_record_loop_byte [OF a(1,2) nin(1) cap] and io = apply_io_step [OF a(2,3)]
    have rec: "is_record_final u \<longleftrightarrow> is_field_final u \<and> u \<noteq> EndFieldDelim" by (cases u) auto
    let ?w = "if copy then [c] else []"
    let ?out = "if copy then out[nout := c] else out" and ?nout = "nout + length ?w"
    let ?ends = "if is_field_final u then ends[nend := ?nout] else ends"
    let ?nend = "if is_field_final u then nend + 1 else nend"
    have ow: "overwrite ?out ?nout v = overwrite out nout (?w @ v)" for v
      using cap by (simp add: overwrite_Cons)
    show ?thesis
    proof (cases "is_record_final u")
      case True
      then show ?thesis
        using Cons.prems(6) u cap loop io rec nin ow [of "[]"]
        by (auto simp: record_run_step Let_def overwrite_single)
    next
      case False
      obtain v m x fs where run: "record_run r ?nout u cs (length ?out - ?nout) (length ?ends - ?nend) = (v, m, x, fs)"
        using prod_cases4 by blast
      have res: "t = v" "n = Suc m" "w = ?w @ x" "es = (if is_field_final u then [?nout] else []) @ fs"
        using Cons.prems(6) u cap False run
        by (auto simp: record_run_step Let_def diff_Suc split: prod.splits if_splits nat.splits)
      have "?nout \<le> length ?out" "?nend \<le> length ?ends" using cap by auto
      from Cons.IH [OF Cons.prems(1) us nin(3) this run] show ?thesis
        using loop io nin False rec res ow [of x] cap by (auto simp: overwrite_Cons)
    qed
  qed
qed

section \<open>Reading a record: results\<close>

definition record_outcome :: "NfaState \<Rightarrow> bool \<Rightarrow> bool \<Rightarrow> bool \<Rightarrow> ReadRecordResult" where
  "record_outcome t inpdone outdone endsdone =
     (if is_record_final t then Record
      else if \<not> inpdone \<and> outdone then ReadRecordResult.OutputFull
      else if \<not> inpdone \<and> endsdone then OutputEndsFull else ReadRecordResult.InputEmpty)"

lemma record_result_from_nfa_eq:
  "t \<in> dfa_states \<Longrightarrow> record_result_from_nfa t i out e = Some (record_outcome t i out e)"
  by (cases t) (simp_all add: record_result_from_nfa_def record_outcome_def dfa_states_iff)

lemma new_read_record_result_eq:
  assumes "built r" and "t \<in> dfa_states"
  shows "new_read_record_result (r_dfa r) (row (r_dfa r) t) False i out e = Some (record_outcome t i out e)"
  using final_rows(3) [OF assms] by (auto simp: new_read_record_result_def record_outcome_def not_le)

lemma record_outcome_Record: "is_record (record_outcome t i out e) \<longleftrightarrow> is_record_final t"
  by (simp add: record_outcome_def is_record_def)

lemma read_record_dfa_run:
  assumes "built r" "lf_ok r" "live r s" "r_dfa_state r = row (r_dfa r) s"
    and "input \<noteq> []" "out \<noteq> []" "ends \<noteq> []"
    and run: "record_run r (r_output_pos r) s input (length out) (length ends) = (t, n, w, es)"
  shows "\<exists>line'. (LF \<in> set (special_bytes r) \<longrightarrow> line' = r_line r + lines_in (take n input))
    \<and> read_record_dfa r input out ends =
    Some (r\<lparr>r_dfa_state := row (r_dfa r) t, r_line := line',
        r_output_pos := (if is_record_final t then 0 else r_output_pos r + length w)\<rparr>,
      overwrite out 0 w, overwrite ends 0 es,
      record_outcome t (length input \<le> n) (length out \<le> length w) (length ends \<le> length es),
      n, length w, length es)"
proof -
  have t: "t \<in> dfa_states" using record_run_live [OF run assms(2,3)] by (rule live_dfa_states)
  show ?thesis
    using dfa_record_loop_run [OF assms(1-3), of 0 input input 0 out 0 ends "r_output_pos r" t n w es "r_line r"]
      run assms(4-7) new_read_record_result_eq [OF assms(1) t]
    by (auto simp: read_record_dfa_def record_outcome_Record)
qed

lemma read_record_nfa_run:
  assumes "term_ok r" "lf_ok r" "live r (r_nfa_state r)" "r_output_pos r \<le> length out"
    and "input \<noteq> []" "out \<noteq> []" "ends \<noteq> []"
    and run: "record_run r (r_output_pos r) (r_nfa_state r) input (length out - r_output_pos r) (length ends) = (t, n, w, es)"
  shows "read_record_nfa r input out ends =
    Some (r\<lparr>r_nfa_state := t,
        r_output_pos := (if is_record_final t then 0 else r_output_pos r + length w)\<rparr>,
      overwrite out (r_output_pos r) w, overwrite ends 0 es,
      record_outcome t (length input \<le> n) (length out \<le> r_output_pos r + length w) (length ends \<le> length es),
      n, r_output_pos r + length w, length es)"
proof -
  have t: "t \<in> dfa_states" using record_run_live [OF run assms(2,3)] by (rule live_dfa_states)
  show ?thesis
    using nfa_record_loop_run [OF assms(1) live_dfa_states [OF assms(3)], of 0 input input "r_output_pos r" out 0 ends t n w es]
      run assms(4-7) record_result_from_nfa_eq [OF t]
    by (simp add: read_record_nfa_def record_outcome_Record)
qed

end
