(* ===== verification/Csv_Props.thy ===== *)
theory Csv_Props
  imports Csv_Correct
begin

text \<open>
  The properties of the CSV parser: building never panics, the DFA is equivalent to the NFA, reads
  are safe and incremental, line numbers count line feeds; and the places where the two parsers and
  the documentation part.
\<close>

section \<open>Builders and configurations\<close>

text \<open>The readers a \<^verbatim>\<open>ReaderBuilder\<close> can hold: the default one changed by the setters.\<close>

inductive is_builder :: "Reader \<Rightarrow> bool" where
  new: "is_builder reader_default"
| delimiter: "is_builder b \<Longrightarrow> is_builder (builder_delimiter b c)"
| terminator: "is_builder b \<Longrightarrow> is_builder (builder_terminator b t)"
| quote: "is_builder b \<Longrightarrow> is_builder (builder_quote b c)"
| escape: "is_builder b \<Longrightarrow> is_builder (builder_escape b e)"
| double_quote: "is_builder b \<Longrightarrow> is_builder (builder_double_quote b y)"
| quoting: "is_builder b \<Longrightarrow> is_builder (builder_quoting b y)"
| comment: "is_builder b \<Longrightarrow> is_builder (builder_comment b c')"
| ascii: "is_builder b \<Longrightarrow> is_builder (builder_ascii b)"
| nfa: "is_builder b \<Longrightarrow> is_builder (builder_nfa b y)"

lemmas builder_defs = builder_delimiter_def builder_terminator_def builder_quote_def
  builder_escape_def builder_double_quote_def builder_quoting_def builder_comment_def
  builder_ascii_def builder_nfa_def

lemma is_builder_fresh:
  "is_builder b \<Longrightarrow> r_dfa b = dfa_new \<and> r_nfa_state b = StartRecord \<and> r_dfa_state b = 0
     \<and> r_line b = 1 \<and> \<not> r_has_read b \<and> r_output_pos b = 0"
  by (induction rule: is_builder.induct) (simp_all add: builder_defs reader_default_def start_def)

lemma reader_clone_fresh: "r_dfa b = dfa_new \<Longrightarrow> reader_clone b = b"
  by (simp add: reader_clone_def dfa_clone_def dfa_new_def)

lemma build_ok:
  assumes "is_builder b" and "r_term b \<noteq> Nonexhaustive"
  obtains q where "build b = Some q" "built q" "cfg q = cfg b" "q = b\<lparr>r_dfa := r_dfa q, r_dfa_state := 0\<rparr>"
  using build_dfa_ok [of b] is_builder_fresh [OF assms(1)] assms(2)
  by (auto simp: build_def reader_clone_fresh term_ok_def)

lemma add_classes_nonexhaustive: "r_term r = Nonexhaustive \<Longrightarrow> add_classes r = None"
  by (simp add: add_classes_def split: option.splits bind_splits)

lemma built_in_sync:
  assumes "q = b\<lparr>r_dfa := d, r_dfa_state := 0\<rparr>" and "is_builder b"
  shows "in_sync q"
  using is_builder_fresh [OF assms(2)] by (simp add: assms(1) in_sync_def)

section \<open>Building\<close>

text \<open>C35: Building a reader panics exactly for the hidden non-exhaustive terminator variant; for every
  other configuration, set by any sequence of builder calls, no class, state or table access fails.\<close>

theorem csv_build_total:
  assumes "is_builder b"
  shows "build b = None \<longleftrightarrow> r_term b = Nonexhaustive"
proof (cases "r_term b = Nonexhaustive")
  case True
  then show ?thesis
    using is_builder_fresh [OF assms]
    by (simp add: build_def build_dfa_def reader_clone_fresh add_classes_nonexhaustive)
next
  case False
  then show ?thesis using build_ok [OF assms] by (metis option.distinct(1))
qed

lemma ascii_builder: "is_builder (builder_ascii reader_default)"
  by (intro is_builder.intros)

lemma builder_ascii_term: "r_term (builder_ascii reader_default) = Any 30"
  by (simp add: builder_ascii_def builder_defs)

theorem csv_build_total_witness:
  "build (builder_ascii reader_default) \<noteq> None"
  using csv_build_total [OF ascii_builder] by (simp add: builder_ascii_term)

lemma build_SomeD:
  assumes "is_builder b" and "build b = Some q"
  shows "built q" and "cfg q = cfg b" and "in_sync q" and "q = b\<lparr>r_dfa := r_dfa q, r_dfa_state := 0\<rparr>"
proof -
  have "r_term b \<noteq> Nonexhaustive"
    using assms is_builder_fresh [OF assms(1)]
    by (auto simp: build_def build_dfa_def reader_clone_fresh add_classes_nonexhaustive)
  then obtain q' where q': "build b = Some q'" "built q'" "cfg q' = cfg b" "q' = b\<lparr>r_dfa := r_dfa q', r_dfa_state := 0\<rparr>"
    using build_ok [OF assms(1)] by metis
  then show "built q" "cfg q = cfg b" "q = b\<lparr>r_dfa := r_dfa q, r_dfa_state := 0\<rparr>" using assms(2) by simp_all
  then show "in_sync q" using built_in_sync [OF _ assms(1)] by metis
qed

text \<open>C14: The transition table refines the NFA: from the row of any DFA state, one table lookup gives the
  row of the state that the NFA reaches by its epsilon transitions and one consuming transition on
  the same byte, with the output flag set exactly when the NFA copies the byte. The states
  \<^const>\<open>InComment\<close> and \<^const>\<open>NfaState.CRLF\<close> additionally need the line feed to be one of the configured bytes.\<close>

theorem csv_table_refines_nfa:
  assumes "is_builder b" and "build b = Some q" and "s \<in> set NFA_STATES"
    and "LF \<in> set (special_bytes b) \<or> s \<notin> {InComment, NfaState.CRLF}"
  shows "\<exists>t a i j. consume_eps q (s, Epsilon) c = Some (t, a) \<and> a \<noteq> Epsilon
    \<and> new_state (r_dfa q) s = Some i \<and> new_state (r_dfa q) t = Some j
    \<and> get_output (r_dfa q) i c = Some (j, a = CopyToOutput)"
proof -
  note q = build_SomeD(1,2) [OF assms(1,2)]
  have live: "live q s"
    using assms(3,4) cfg_cong(3) [OF q(2)] by (simp add: live_def lf_visible_def)
  have tok: "term_ok q" using q(1) by (simp add: built_def)
  obtain a where "consume_eps q (s, Epsilon) c = Some (fst (csv_step q s c), a)" "a \<noteq> Epsilon"
      "(a = CopyToOutput) = snd (csv_step q s c)"
    using consume_eps_csv_step [OF tok assms(3), of c] by blast
  then show ?thesis
    using built_get_output [OF q(1) live, of c] builtD(1) [OF q(1) assms(3)]
      builtD(1) [OF q(1) csv_step_dfa_states [OF assms(3), of q c]] by auto
qed

lemma default_build:
  obtains q where "build reader_default = Some q" "is_builder reader_default"
  using build_ok [OF is_builder.new] is_builder.new
  by (metis Terminator.distinct(3) reader_default_def Reader.select_convs(5))

lemma default_special: "special_bytes reader_default = [44, 34, CR, LF]"
  by (simp add: special_bytes_def reader_default_def)

theorem csv_table_refines_nfa_witness:
  "\<exists>q t a i j. build reader_default = Some q \<and> consume_eps q (NfaState.CRLF, Epsilon) 44 = Some (t, a)
     \<and> new_state (r_dfa q) NfaState.CRLF = Some i \<and> new_state (r_dfa q) t = Some j
     \<and> get_output (r_dfa q) i 44 = Some (j, a = CopyToOutput)"
proof -
  obtain q where q: "build reader_default = Some q" "is_builder reader_default" by (rule default_build)
  have "NfaState.CRLF \<in> set NFA_STATES" by (simp add: dfa_states_iff)
  then show ?thesis
    using csv_table_refines_nfa [OF q(2,1), of NfaState.CRLF 44] q(1) by (auto simp: default_special)
qed

section \<open>Equivalence of the two parsers\<close>

text \<open>With a line feed among the configured bytes or comments off, and starting from corresponding
  states, the NFA and the DFA version of \<^verbatim>\<open>read_field\<close> return the same result, consume the same number
  of bytes, write the same bytes to the output buffer, and end in corresponding states. They differ
  only in the line counter, which the NFA version does not maintain.\<close>

theorem csv_read_field_equiv:
  assumes "built r" and "lf_ok r" and "in_sync r" and "input \<noteq> []"
  shows "\<exists>rd rn out' res nin nout.
    read_field_dfa r input out = Some (rd, out', res, nin, nout)
    \<and> read_field_nfa r input out = Some (rn, out', res, nin, nout)
    \<and> in_sync (rd\<lparr>r_nfa_state := r_nfa_state rn\<rparr>)
    \<and> rn = rd\<lparr>r_nfa_state := r_nfa_state rn, r_dfa_state := r_dfa_state r, r_line := r_line r\<rparr>"
proof (cases "out = []")
  case True
  then show ?thesis using assms by (simp add: read_field_dfa_def read_field_nfa_def)
next
  case False
  obtain t n w where run: "field_run r (r_nfa_state r) input (length out) = (t, n, w)"
    using prod_cases3 by blast
  have st: "live r (r_nfa_state r)" "r_dfa_state r = row (r_dfa r) (r_nfa_state r)"
    using assms(3) by (simp_all add: in_sync_def)
  have "live r t" by (rule field_run_live [OF run assms(2) st(1)])
  then have "in_sync (r\<lparr>r_dfa_state := row (r_dfa r) t, r_line := l, r_nfa_state := t\<rparr>)" for l
    using cfg_cong(4) [of "r\<lparr>r_dfa_state := row (r_dfa r) t, r_line := l, r_nfa_state := t\<rparr>" r]
    by (simp add: in_sync_def live_def)
  moreover have "term_ok r" using assms(1) by (simp add: built_def)
  ultimately show ?thesis
    using read_field_dfa_run [OF assms(1,2) st assms(4) False run]
      read_field_nfa_run [OF _ assms(2) st(1) assms(4) False run] by auto
qed

text \<open>C12: At the start of a record (no bytes of it delivered yet) the NFA and the DFA version of
  \<^verbatim>\<open>read_record\<close> agree in the same sense: same result, counts, field data and field end positions.\<close>

theorem csv_read_record_equiv:
  assumes "built r" and "lf_ok r" and "in_sync r" and "input \<noteq> []" and "r_output_pos r = 0"
  shows "\<exists>rd rn out' ends' res nin nout nend.
    read_record_dfa r input out ends = Some (rd, out', ends', res, nin, nout, nend)
    \<and> read_record_nfa r input out ends = Some (rn, out', ends', res, nin, nout, nend)
    \<and> in_sync (rd\<lparr>r_nfa_state := r_nfa_state rn\<rparr>) \<and> r_output_pos rd = r_output_pos rn"
proof (cases "out = [] \<or> ends = []")
  case True
  then show ?thesis using assms by (auto simp: read_record_dfa_def read_record_nfa_def)
next
  case False
  obtain t n w es where run: "record_run r 0 (r_nfa_state r) input (length out) (length ends) = (t, n, w, es)"
    using prod_cases4 by blast
  have st: "live r (r_nfa_state r)" "r_dfa_state r = row (r_dfa r) (r_nfa_state r)"
    using assms(3) by (simp_all add: in_sync_def)
  have "live r t" by (rule record_run_live [OF run assms(2) st(1)])
  then have sync: "in_sync (r\<lparr>r_dfa_state := row (r_dfa r) t, r_line := l, r_output_pos := p, r_nfa_state := t\<rparr>)" for l p
    using cfg_cong(4) [of "r\<lparr>r_dfa_state := row (r_dfa r) t, r_line := l, r_output_pos := p, r_nfa_state := t\<rparr>" r]
    by (simp add: in_sync_def live_def)
  have "term_ok r" using assms(1) by (simp add: built_def)
  then show ?thesis
    using read_record_dfa_run [OF assms(1,2) st assms(4), of out ends t n w es] sync
      read_record_nfa_run [OF _ assms(2) st(1) _ assms(4), of out ends t n w es] run assms(5) False
    by auto
qed

section \<open>Witnesses for the equivalence\<close>

lemma default_ready:
  obtains q where "build reader_default = Some q" "built q" "lf_ok q" "in_sync q" "r_output_pos q = 0"
    "cfg q = cfg reader_default" "LF \<in> set (special_bytes q)" "r_line q = 1" "r_nfa_state q = StartRecord"
    "r_use_nfa q = False" "r_has_read q = False"
proof -
  obtain q where q: "build reader_default = Some q" "is_builder reader_default" by (rule default_build)
  note b = build_SomeD [OF q(2,1)]
  have "LF \<in> set (special_bytes q)" using cfg_cong(3) [OF b(2)] by (simp add: default_special)
  moreover from b(4) have "r_output_pos q = 0 \<and> r_line q = 1 \<and> r_nfa_state q = StartRecord \<and> r_use_nfa q = False \<and> r_has_read q = False"
    by (metis (no_types) Reader.select_convs Reader.ext_inject Reader.surjective Reader.update_convs(1,2) reader_default_def)
  ultimately show ?thesis using that q(1) b by (simp add: lf_ok_def)
qed

theorem csv_read_field_equiv_witness:
  "\<exists>q rd rn out' res nin nout. build reader_default = Some q
    \<and> read_field_dfa q [97, 44] [0, 0] = Some (rd, out', res, nin, nout)
    \<and> read_field_nfa q [97, 44] [0, 0] = Some (rn, out', res, nin, nout)"
proof -
  obtain q where q: "build reader_default = Some q" "built q" "lf_ok q" "in_sync q" by (rule default_ready)
  show ?thesis using csv_read_field_equiv [OF q(2-4), of "[97, 44]" "[0, 0]"] q(1) by auto
qed

theorem csv_read_record_equiv_witness:
  "\<exists>q rd rn out' ends' res nin nout nend. build reader_default = Some q
    \<and> read_record_dfa q [97, 44, 98, 10] [0, 0] [0, 0] = Some (rd, out', ends', res, nin, nout, nend)
    \<and> read_record_nfa q [97, 44, 98, 10] [0, 0] [0, 0] = Some (rn, out', ends', res, nin, nout, nend)"
proof -
  obtain q where q: "build reader_default = Some q" "built q" "lf_ok q" "in_sync q" "r_output_pos q = 0"
    by (rule default_ready)
  show ?thesis
    using csv_read_record_equiv [OF q(2-4) _ q(5), of "[97, 44, 98, 10]" "[0, 0]" "[0, 0]"] q(1) by auto
qed

section \<open>End of input\<close>

lemma transition_final_dfa_eq:
  assumes "built r" and "s \<in> dfa_states"
  shows "transition_final_dfa r (row (r_dfa r) s)
    = Some (row (r_dfa r) (if is_record_final s \<or> s = StartRecord then StartRecord else EndRecord))"
  using assms final_rows [OF assms] builtD(1) [OF assms(1)]
  by (auto simp: transition_final_dfa_def new_state_final_end_def new_state_final_record_def dfa_states_iff)

lemma read_field_dfa_eof:
  assumes b: "built r" and s: "s \<in> dfa_states" and st: "r_dfa_state r = row (r_dfa r) s"
  shows "read_field_dfa r [] out =
    (if is_record_final s \<or> s = StartRecord then Some (r\<lparr>r_dfa_state := 0\<rparr>, out, ReadFieldResult.End, 0, 0)
     else Some (r\<lparr>r_dfa_state := row (r_dfa r) EndRecord\<rparr>, out, Field True, 0, 0))"
proof -
  have sr: "StartRecord \<in> dfa_states" "EndRecord \<in> dfa_states" by (simp_all add: dfa_states_iff)
  show ?thesis
    using transition_final_dfa_eq [OF b s] final_rows [OF b sr(1)] final_rows [OF b sr(2)] st
    by (auto simp: read_field_dfa_def new_read_field_result_def)
qed

text \<open>At the end of the input both versions of \<^verbatim>\<open>read_field\<close> return and agree on the result (the last
  field, or the end), except inside a comment: there the NFA reports the end of the data, and the
  DFA a last record with an empty field.\<close>

theorem csv_eof_agreement:
  assumes "built r" and "in_sync r"
  shows "\<exists>rd rn res_d res_n. read_field_dfa r [] out = Some (rd, out, res_d, 0, 0)
    \<and> read_field_nfa r [] out = Some (rn, out, res_n, 0, 0)
    \<and> (res_d = res_n \<longleftrightarrow> r_nfa_state r \<noteq> InComment)
    \<and> (r_nfa_state r = InComment \<longrightarrow> res_d = Field True \<and> res_n = ReadFieldResult.End)"
proof -
  have "r_nfa_state r \<in> dfa_states" "r_dfa_state r = row (r_dfa r) (r_nfa_state r)"
    using assms(2) by (simp_all add: in_sync_def live_def)
  with read_field_dfa_eof [OF assms(1) this, of out] show ?thesis
    by (cases "r_nfa_state r")
      (simp_all add: read_field_nfa_def field_result_from_nfa_def dfa_states_iff)
qed

theorem csv_eof_agreement_witness:
  "\<exists>q rd rn. build reader_default = Some q \<and> read_field_dfa q [] [] = Some (rd, [], ReadFieldResult.End, 0, 0)
    \<and> read_field_nfa q [] [] = Some (rn, [], ReadFieldResult.End, 0, 0)"
proof -
  obtain q where q: "build reader_default = Some q" "built q" "in_sync q" "r_nfa_state q = StartRecord"
    by (rule default_ready)
  show ?thesis
    using csv_eof_agreement [OF q(2,3), of "[]"] q
    by (auto simp: read_field_nfa_def field_result_from_nfa_def)
qed

section \<open>Incremental reading\<close>

lemma field_run_progress:
  "field_run r s cs cap = (t, n, w) \<Longrightarrow> \<not> is_field_final t \<Longrightarrow> n = length cs \<or> length w = cap"
  by (induction r s cs cap arbitrary: t n w rule: field_run.induct)
    (fastforce split: prod.splits if_splits)+

lemma field_run_append:
  assumes "field_run r s xs cap = (t, length xs, w)" and "xs \<noteq> [] \<longrightarrow> \<not> is_field_final t"
  shows "field_run r s (xs @ ys) cap =
    (case field_run r t ys (cap - length w) of (u, m, v) \<Rightarrow> (u, length xs + m, w @ v))"
  using assms
proof (induction r s xs cap arbitrary: t w rule: field_run.induct)
  case (3 r s c cs k)
  obtain u copy where u: "csv_step r s c = (u, copy)" by fastforce
  have nf: "\<not> is_field_final u"
    using 3(2,3) u by (auto split: if_splits prod.splits)
  obtain t' n' w' where rec: "field_run r u cs (if copy then k else Suc k) = (t', n', w')"
    using prod_cases3 by blast
  have eqs: "t' = t" "n' = length cs" "w = (if copy then [c] else []) @ w'"
    using 3(2) u nf rec by auto
  have "cs \<noteq> [] \<longrightarrow> \<not> is_field_final t" using 3(3) by simp
  from 3(1) [OF u [symmetric] nf _ this, of w'] rec eqs show ?case
    using u nf by (auto split: prod.splits)
qed (auto split: prod.splits)

text \<open>Parsing is incremental: when a call of \<^verbatim>\<open>read_field\<close> asks for more input, giving it the rest of
  the data with the rest of the output buffer leads to the same result, output, counts and parser
  state as one call on all the data would have.\<close>

theorem csv_field_streaming:
  assumes "built r" "lf_ok r" "live r s" "r_dfa_state r = row (r_dfa r) s"
    and "xs \<noteq> []" "ys \<noteq> []" "out \<noteq> []"
    and "read_field_dfa r xs out = Some (r1, out1, ReadFieldResult.InputEmpty, n1, m1)"
    and "read_field_dfa r1 ys (drop m1 out1) = Some (r2, out2, res, n2, m2)"
  shows "read_field_dfa r (xs @ ys) out = Some (r2, take m1 out1 @ out2, res, n1 + n2, m1 + m2)"
proof -
  obtain t n w where run: "field_run r s xs (length out) = (t, n, w)" using prod_cases3 by blast
  note b = field_run_bounds [OF run] and live = field_run_live [OF run assms(2,3)]
  from read_field_dfa_run [OF assms(1-5,7) run] assms(8)
  have r1: "r1 = r\<lparr>r_dfa_state := row (r_dfa r) t, r_line := r_line r + lines_in (take n xs)\<rparr>"
    and o1: "out1 = overwrite out 0 w" "n1 = n" "m1 = length w"
    and ie: "field_outcome t (length xs \<le> n) (length out \<le> length w) = ReadFieldResult.InputEmpty"
    by auto
  have fin: "\<not> is_field_final t" using ie by (cases t) (auto simp: field_outcome_def)
  have n: "n = length xs"
    using field_run_progress [OF run fin] b ie by (auto simp: field_outcome_def split: if_splits)
  obtain u m v where run2: "field_run r t ys (length out - length w) = (u, m, v)" using prod_cases3 by blast
  have run12: "field_run r s (xs @ ys) (length out) = (u, n + m, w @ v)"
    using field_run_append [of r s xs "length out" t w ys] run run2 n fin by simp
  have c1: "cfg r1 = cfg r" and d1: "r_dfa r1 = r_dfa r" "r_dfa_state r1 = row (r_dfa r) t"
    using r1 by simp_all
  have r1': "built r1" "lf_ok r1" "live r1 t"
    using assms(1,2) live run_cong [OF c1] built_cong [OF c1 d1(1)] by simp_all
  have rest: "length (drop m1 out1) = length out - length w" "take m1 out1 = w"
    using o1 b by (simp_all add: overwrite_def)
  have whole: "read_field_dfa r (xs @ ys) out =
      Some (r\<lparr>r_dfa_state := row (r_dfa r) u, r_line := r_line r + lines_in (take (n + m) (xs @ ys))\<rparr>,
        overwrite out 0 (w @ v), field_outcome u (length (xs @ ys) \<le> n + m) (length out \<le> length (w @ v)),
        n + m, length (w @ v))"
    using read_field_dfa_run [OF assms(1-4) _ assms(7) run12] assms(5) by simp
  show ?thesis
  proof (cases "drop m1 out1 = []")
    case True
    then have full: "length out - length w = 0" using rest(1) by simp
    then have "(u, m, v) = (t, 0, [])" using run2 assms(6) by (cases ys) auto
    moreover have "r2 = r1" "out2 = []" "res = ReadFieldResult.OutputFull" "n2 = 0" "m2 = 0"
      using assms(6,9) True by (simp_all add: read_field_dfa_def)
    moreover have "out1 = w" using rest True by (metis append_Nil2 append_take_drop_id)
    ultimately show ?thesis
      using whole o1 n full fin assms(6) r1 b(2)
      by (cases t) (auto simp: field_outcome_def)
  next
    case False
    have "field_run r1 t ys (length (drop m1 out1)) = (u, m, v)"
      using run2 rest(1) run_cong(3) [OF c1] by simp
    from read_field_dfa_run [OF r1' _ assms(6) False this] assms(9) d1
    have "r2 = r1\<lparr>r_dfa_state := row (r_dfa r) u, r_line := r_line r1 + lines_in (take m ys)\<rparr>"
      "out2 = overwrite (drop m1 out1) 0 v" "n2 = m" "m2 = length v"
      "res = field_outcome u (length ys \<le> m) (length out - length w \<le> length v)"
      using rest(1) by auto
    moreover have "w @ overwrite (drop m1 out1) 0 v = overwrite out 0 (w @ v)"
      using o1 by (simp add: overwrite_def add.commute)
    moreover have "(length out \<le> length w + length v) = (length out - length w \<le> length v)" by auto
    ultimately show ?thesis using whole o1 n r1 rest(2) by (simp add: add.assoc)
  qed
qed

theorem csv_field_streaming_witness:
  "\<exists>q r1 out1 n1 m1 r2 out2 res n2 m2. build reader_default = Some q
    \<and> read_field_dfa q [97] [0, 0] = Some (r1, out1, ReadFieldResult.InputEmpty, n1, m1)
    \<and> read_field_dfa r1 [98, 44] (drop m1 out1) = Some (r2, out2, res, n2, m2)
    \<and> read_field_dfa q [97, 98, 44] [0, 0] = Some (r2, take m1 out1 @ out2, res, n1 + n2, m1 + m2)"
proof -
  obtain q where q: "build reader_default = Some q" "built q" "lf_ok q" "in_sync q"
      "cfg q = cfg reader_default" "r_nfa_state q = StartRecord"
    by (rule default_ready)
  have st: "live q StartRecord" "r_dfa_state q = row (r_dfa q) StartRecord"
    using q(4,6) by (simp_all add: in_sync_def)
  have run1: "field_run q StartRecord [97] (length [0, 0 :: u8]) = (InField, 1, [97])"
    unfolding run_cong(3) [OF q(5)] by (simp add: step_defs reader_default_def)
  note call1 = read_field_dfa_run [OF q(2,3) st _ _ run1]
  define r1 where "r1 = q\<lparr>r_dfa_state := row (r_dfa q) InField, r_line := r_line q + lines_in (take 1 [97])\<rparr>"
  have c1: "cfg r1 = cfg q" "r_dfa r1 = r_dfa q" by (simp_all add: r1_def)
  have live: "live r1 InField" by (simp add: live_def lf_visible_def dfa_states_iff)
  obtain t n w where run2: "field_run r1 InField [98, 44] (length [0 :: u8]) = (t, n, w)"
    using prod_cases3 by blast
  have call2: "read_field_dfa r1 [98, 44] [0] = Some (r1\<lparr>r_dfa_state := row (r_dfa r1) t,
      r_line := r_line r1 + lines_in (take n [98, 44])\<rparr>, overwrite [0] 0 w,
      field_outcome t (length [98, 44 :: u8] \<le> n) (length [0 :: u8] \<le> length w), n, length w)"
  proof (rule read_field_dfa_run [OF _ _ live _ _ _ run2])
    show "built r1" "lf_ok r1" using q(2,3) run_cong(1) [OF c1(1)] built_cong [OF c1] by simp_all
  qed (simp_all add: r1_def)
  have "read_field_dfa q [97] [0, 0] = Some (r1, [97, 0], ReadFieldResult.InputEmpty, 1, 1)"
    using call1 by (simp add: r1_def overwrite_def field_outcome_def)
  from csv_field_streaming [OF q(2,3) st _ _ _ this, of "[98, 44]"] call2 this q(1)
  show ?thesis by auto
qed

end
