(* ===== verification/Csv_Safety.thy ===== *)
theory Csv_Safety
  imports Csv_Props
begin

text \<open>
  Safety of the CSV reader in every configuration, its line counter, and the operations that do not
  do what their documentation says: \<^verbatim>\<open>reset\<close>, \<^verbatim>\<open>Clone\<close> and comments under a custom terminator.
\<close>

section \<open>No read panics or leaves its buffers\<close>

definition dfa_ready :: "Reader \<Rightarrow> bool" where
  "dfa_ready r \<longleftrightarrow> built r \<and> (\<exists>s \<in> dfa_states. r_dfa_state r = row (r_dfa r) s)"

lemma built_get_output_safe:
  assumes "built r" and "s \<in> dfa_states"
  obtains t h where "t \<in> dfa_states" "get_output (r_dfa r) (row (r_dfa r) s) c = Some (row (r_dfa r) t, h)"
  using assms by (fastforce simp: built_def)

lemma dfa_field_loop_safe:
  assumes "built r" and "s \<in> dfa_states" and "nin \<le> length input" and "nout \<le> length out"
  shows "\<exists>out' nin' nout' t line'.
    dfa_field_loop (r_dfa r) input out nin nout (row (r_dfa r) s) line = Some (out', nin', nout', row (r_dfa r) t, line')
    \<and> t \<in> dfa_states \<and> nin' \<le> length input \<and> nout' \<le> length out \<and> length out' = length out
    \<and> nout \<le> nout' \<and> drop nout' out' = drop nout' out"
  using assms
proof (induction "length input - nin" arbitrary: nin nout out s line rule: less_induct)
  case less
  show ?case
  proof (cases "nin < length input \<and> nout < length out")
    case False
    then show ?thesis using less.prems by (auto simp: dfa_field_loop.simps)
  next
    case True
    obtain t h where t: "t \<in> dfa_states"
        "get_output (r_dfa r) (row (r_dfa r) s) (input ! nin) = Some (row (r_dfa r) t, h)"
      using built_get_output_safe less.prems(1,2) by blast
    let ?out = "if h then out[nout := input ! nin] else out" and ?nout = "if h then nout + 1 else nout"
    have frame: "drop k ?out = drop k out" if "?nout \<le> k" for k
      using that by (auto split: if_splits)
    show ?thesis
    proof (cases "final_field (r_dfa r) \<le> row (r_dfa r) t")
      case True
      then show ?thesis using t frame [of ?nout] \<open>nin < length input \<and> nout < length out\<close>
        by (subst dfa_field_loop.simps) (auto simp: Let_def)
    next
      case False
      have "length input - (nin + 1) < length input - nin" "nin + 1 \<le> length input" "?nout \<le> length ?out"
        using True by auto
      from less.hyps [OF this(1) less.prems(1) t(1) this(2,3), of "line + (if input ! nin = LF then 1 else 0)"]
      obtain out' nin' nout' u line' where IH:
        "dfa_field_loop (r_dfa r) input ?out (nin + 1) ?nout (row (r_dfa r) t)
           (line + (if input ! nin = LF then 1 else 0)) = Some (out', nin', nout', row (r_dfa r) u, line')"
        "u \<in> dfa_states" "nin' \<le> length input" "nout' \<le> length ?out" "length out' = length ?out"
        "?nout \<le> nout'" "drop nout' out' = drop nout' ?out" by blast
      have "dfa_field_loop (r_dfa r) input out nin nout (row (r_dfa r) s) line
          = Some (out', nin', nout', row (r_dfa r) u, line')"
        using IH(1) t True False by (subst dfa_field_loop.simps) (simp add: Let_def)
      moreover have "drop nout' out' = drop nout' out" using frame [OF IH(6)] IH(7) by simp
      ultimately show ?thesis using IH by (auto split: if_splits)
    qed
  qed
qed

lemma new_read_field_result_Some:
  assumes "built r" and "t \<in> dfa_states"
  shows "\<exists>res. new_read_field_result (r_dfa r) (row (r_dfa r) t) b i out = Some res"
  using new_read_field_result_eq [OF assms, of i out]
  by (auto simp: new_read_field_result_def split: if_splits bind_splits)

lemma read_field_dfa_safe:
  assumes "dfa_ready r"
  shows "\<exists>r' out' res nin nout. read_field_dfa r input out = Some (r', out', res, nin, nout)
    \<and> dfa_ready r' \<and> cfg r' = cfg r \<and> r_use_nfa r' = r_use_nfa r
    \<and> nin \<le> length input \<and> nout \<le> length out \<and> length out' = length out
    \<and> drop nout out' = drop nout out"
proof -
  obtain s where b: "built r" and s: "s \<in> dfa_states" "r_dfa_state r = row (r_dfa r) s"
    using assms by (auto simp: dfa_ready_def)
  show ?thesis
  proof (cases "input = []")
    case True
    have "StartRecord \<in> dfa_states" "EndRecord \<in> dfa_states" by (simp_all add: dfa_states_iff)
    moreover have "\<exists>s \<in> dfa_states. row (r_dfa r) s = 0"
      by (intro bexI [of _ StartRecord]) (simp_all add: dfa_states_iff)
    ultimately show ?thesis
      using read_field_dfa_eof [OF b s, of out] True b by (auto simp: dfa_ready_def)
  next
    case False
    show ?thesis
    proof (cases "out = []")
      case True
      then show ?thesis using False assms by (simp add: read_field_dfa_def)
    next
      case nonempty: False
      obtain out' nin' nout' t line' where
        "dfa_field_loop (r_dfa r) input out 0 0 (row (r_dfa r) s) (r_line r) = Some (out', nin', nout', row (r_dfa r) t, line')"
        "t \<in> dfa_states" "nin' \<le> length input" "nout' \<le> length out" "length out' = length out"
        "drop nout' out' = drop nout' out"
        using dfa_field_loop_safe [OF b s(1), of 0 input 0 out "r_line r"] by auto
      moreover obtain res where
        "new_read_field_result (r_dfa r) (row (r_dfa r) t) False (length input \<le> nin') (length out \<le> nout') = Some res"
        using new_read_field_result_Some [OF b \<open>t \<in> dfa_states\<close>] by blast
      ultimately show ?thesis
        using False nonempty s(2) b by (auto simp: read_field_dfa_def dfa_ready_def)
    qed
  qed
qed

text \<open>C27: In every configuration the DFA version of \<^verbatim>\<open>read_field\<close>, the default, never panics on a reader made by
  the builder: it returns, reads no more than the input, writes no more than the output buffer and
  only its first \<open>nout\<close> bytes, and leaves a reader with the same settings on which the same holds.\<close>

theorem csv_read_field_safe:
  assumes "dfa_ready r" and "\<not> r_use_nfa r"
  shows "\<exists>r' out' res nin nout. read_field r input out = Some (r', out', res, nin, nout)
    \<and> dfa_ready r' \<and> cfg r' = cfg r \<and> \<not> r_use_nfa r'
    \<and> nin \<le> length input \<and> nout \<le> length out \<and> length out' = length out
    \<and> drop nout out' = drop nout out"
proof -
  obtain inp k where bom: "strip_utf8_bom r input = (inp, k)" by fastforce
  then have len: "length inp + k \<le> length input" by (auto simp: strip_utf8_bom_def split: if_splits)
  have "dfa_ready (q\<lparr>r_has_read := True\<rparr>) = dfa_ready q" for q by (simp add: dfa_ready_def)
  then show ?thesis
    using read_field_dfa_safe [OF assms(1), of inp out] bom len assms(2)
    by (auto simp: read_field_def)
qed

lemma build_dfa_ready: "is_builder b \<Longrightarrow> build b = Some q \<Longrightarrow> dfa_ready q"
  using build_SomeD(1,3) [of b q] by (auto simp: dfa_ready_def in_sync_def live_def)

theorem csv_read_field_safe_witness:
  "\<exists>q r' out' res nin nout. build reader_default = Some q
     \<and> read_field q [239, 187, 191, 97] [0] = Some (r', out', res, nin, nout) \<and> nin \<le> 4"
proof -
  obtain q where q: "build reader_default = Some q" "r_use_nfa q = False" by (rule default_ready)
  show ?thesis
    using csv_read_field_safe [OF build_dfa_ready [OF is_builder.new q(1)], of "[239, 187, 191, 97]" "[0]"] q
    by auto
qed

section \<open>Line numbers\<close>

text \<open>When a line feed is one of the configured bytes, as with the default terminator, the line number
  after a call of \<^verbatim>\<open>read_record\<close> has grown by exactly the number of line feeds in the bytes the call
  consumed, modulo the width of the counter.\<close>

theorem csv_line_count:
  assumes "built r" and "LF \<in> set (special_bytes r)" and "live r s" and "r_dfa_state r = row (r_dfa r) s"
    and "read_record_dfa r input out ends = Some (r', out', ends', res, nin, nout, nend)"
  shows "r_line r' = r_line r + word_of_nat (count_list (take nin input) LF)"
proof (cases "input = [] \<or> out = [] \<or> ends = []")
  case True
  then show ?thesis using assms(5)
    by (auto simp: read_record_dfa_def split: bind_splits if_splits ReadRecordResult.splits)
next
  case False
  obtain t n w es where run: "record_run r (r_output_pos r) s input (length out) (length ends) = (t, n, w, es)"
    using prod_cases4 by blast
  have "lf_ok r" using assms(2) by (simp add: lf_ok_def)
  from read_record_dfa_run [OF assms(1) this assms(3,4) _ _ _ run] False assms(2,5)
  show ?thesis by (auto simp: lines_in_def)
qed

theorem csv_line_count_witness:
  "\<exists>q r' out' ends' res nin nout nend. build reader_default = Some q
     \<and> read_record_dfa q [34, 10, 34, 10] [0, 0] [0] = Some (r', out', ends', res, nin, nout, nend)
     \<and> r_line r' = r_line q + word_of_nat (count_list (take nin [34, 10, 34, 10]) LF)"
proof -
  obtain q where q: "build reader_default = Some q" "built q" "lf_ok q" "in_sync q"
      "LF \<in> set (special_bytes q)" "r_nfa_state q = StartRecord"
    by (rule default_ready)
  have st: "live q StartRecord" "r_dfa_state q = row (r_dfa q) StartRecord"
    using q(4,6) by (simp_all add: in_sync_def)
  obtain t n w es where "record_run q (r_output_pos q) StartRecord [34, 10, 34, 10] (length [0, 0 :: u8]) (length [0 :: nat]) = (t, n, w, es)"
    using prod_cases4 by blast
  from read_record_dfa_run [OF q(2,3) st _ _ _ this]
  obtain r' out' ends' res nin nout nend where
    "read_record_dfa q [34, 10, 34, 10] [0, 0] [0] = Some (r', out', ends', res, nin, nout, nend)" by auto
  with csv_line_count [OF q(2,5) st this] q(1) show ?thesis by blast
qed

section \<open>Divergences\<close>

text \<open>A state that every byte keeps, and that is neither final nor one in which bytes are copied, swallows the input.\<close>

lemma closed_state_loop:
  assumes "\<And>c. get_output d i c = Some (i, False)" and "i < final_field d" and "i \<noteq> in_field d" and "i \<noteq> in_quoted d"
    and "out \<noteq> []" and "ends \<noteq> []" and "nin \<le> length input"
  shows "\<exists>line'. dfa_record_loop d pos input (out, ends, nin, 0, 0, i, line) = Some (out, ends, length input, 0, 0, i, line')"
  using assms(7)
proof (induction "length input - nin" arbitrary: nin line)
  case 0
  then show ?case by (simp add: dfa_record_loop.simps)
next
  case (Suc n)
  then have "nin < length input" by simp
  then have "dfa_record_loop d pos input (out, ends, nin, 0, 0, i, line)
      = dfa_record_loop d pos input (out, ends, Suc nin, 0, 0, i, line + (if input ! nin = LF then 1 else 0))"
    using assms(2-6) by (subst dfa_record_loop.simps) (simp add: dfa_record_body_def assms(1) not_le [symmetric])
  then show ?case using Suc.hyps(1) [of "Suc nin"] Suc.hyps(2) Suc.prems by simp
qed

lemma closed_state_enters:
  assumes "get_output d s (input ! 0) = Some (i, False)" and "input \<noteq> []"
    and "\<And>c. get_output d i c = Some (i, False)" and "i < final_field d" and "i \<noteq> in_field d" and "i \<noteq> in_quoted d" and "out \<noteq> []" and "ends \<noteq> []"
  shows "\<exists>line'. dfa_record_loop d pos input (out, ends, 0, 0, 0, s, line) = Some (out, ends, length input, 0, 0, i, line')"
proof -
  have "dfa_record_loop d pos input (out, ends, 0, 0, 0, s, line)
      = dfa_record_loop d pos input (out, ends, 1, 0, 0, i, line + (if input ! 0 = LF then 1 else 0))"
    using assms by (subst dfa_record_loop.simps) (simp add: dfa_record_body_def not_le [symmetric])
  then show ?thesis using closed_state_loop [OF assms(3-8), of 1 input pos] assms(2) by (simp add: Suc_le_eq)
qed

text \<open>C39: With a comment byte configured and a record terminator under which a line feed is not one of the configured bytes, the
  DFA built by \<^verbatim>\<open>build_dfa\<close> never leaves a comment, while the NFA it is built from leaves it at a line feed: the comment byte at the
  start of a record leads to the state of comments, that state leads back to itself on every byte, and so reading a record from
  there, or from the start of data that begins with the comment byte, consumes all it is given and never delivers a field or a record.\<close>

theorem csv_comment_never_ends:
  assumes "is_builder b" and "build b = Some q" and "LF \<notin> set (special_bytes b)" and "r_comment b = Some k" and "\<not> term_is (r_term b) k"
  shows "\<exists>i. new_state (r_dfa q) InComment = Some i \<and> get_output (r_dfa q) (r_dfa_state q) k = Some (i, False)
    \<and> (\<forall>c. get_output (r_dfa q) i c = Some (i, False))
    \<and> (\<forall>r input out ends. r_dfa r = r_dfa q \<and> (r_dfa_state r = i \<or> r_dfa_state r = r_dfa_state q \<and> input ! 0 = k) \<and> input \<noteq> [] \<and> out \<noteq> [] \<and> ends \<noteq> [] \<longrightarrow>
         (\<exists>r'. read_record_dfa r input out ends = Some (r', out, ends, ReadRecordResult.InputEmpty, length input, 0, 0)
           \<and> r_dfa r' = r_dfa q \<and> r_dfa_state r' = i))
    \<and> transition_nfa q InComment LF = Some (StartRecord, Discard)"
proof -
  note q = build_SomeD(1,2) [OF assms(1,2)]
  let ?i = "row (r_dfa q) InComment"
  have st: "InComment \<in> dfa_states" "StartRecord \<in> dfa_states" by (simp_all add: dfa_states_iff)
  have "term_ok b" using q cfg_cong(2) [OF q(2)] by (simp add: built_def)
  then obtain d where d: "table_inv b d" "row (r_dfa q) = row d"
      "get_output (r_dfa q) = get_output (written b (List.product NFA_STATES all_bytes) d)"
    using build_dfa_ok [of b] is_builder_fresh [OF assms(1)] assms(2)
    by (auto simp: build_def reader_clone_fresh)
  have zero: "r_dfa_state q = 0" using arg_cong [OF build_SomeD(4) [OF assms(1,2)], of r_dfa_state] by simp
  have closed: "get_output (r_dfa q) ?i c = Some (?i, False)" for c using comment_row_closed [OF d(1) assms(3), of c] d by simp
  have enters: "get_output (r_dfa q) (r_dfa_state q) k = Some (?i, False)"
    using get_output_written [OF d(1) st(2), of k] d zero assms(4,5) by (simp add: lf_visible_def record_step_def)
  have marks: "?i < final_field (r_dfa q)" "?i \<noteq> in_field (r_dfa q)" "?i \<noteq> in_quoted (r_dfa q)" "\<not> final_record (r_dfa q) \<le> ?i"
    using final_rows [OF q(1) st(1)] by (simp_all add: not_le [symmetric])
  have reads: "\<exists>r'. read_record_dfa r input out ends = Some (r', out, ends, ReadRecordResult.InputEmpty, length input, 0, 0)
      \<and> r_dfa r' = r_dfa q \<and> r_dfa_state r' = ?i"
    if "r_dfa r = r_dfa q" "r_dfa_state r = ?i \<or> r_dfa_state r = r_dfa_state q \<and> input ! 0 = k" "input \<noteq> []" "out \<noteq> []" "ends \<noteq> []" for r input out ends
  proof -
    note same = that(1)
    have "get_output (r_dfa q) (r_dfa_state r) (input ! 0) = Some (?i, False)" using that(2) closed enters by auto
    from closed_state_enters [OF this that(3) closed marks(1-3) that(4,5), of "r_output_pos r" "r_line r"] obtain line'
      where "dfa_record_loop (r_dfa r) (r_output_pos r) input (out, ends, 0, 0, 0, r_dfa_state r, r_line r) = Some (out, ends, length input, 0, 0, ?i, line')"
      using same by auto
    then show ?thesis using that marks(4) by (simp add: read_record_dfa_def new_read_record_result_def not_le is_record_def)
  qed
  show ?thesis using builtD(1) [OF q(1) st(1)] enters closed reads by (intro exI [of _ ?i]) (simp add: dfa_states_iff)
qed

theorem csv_comment_never_ends_witness:
  "\<exists>q r'. build (builder_comment (builder_terminator reader_default (Any 59)) (Some 35)) = Some q
     \<and> read_record_dfa q [35, 97, 10, 98, 59] [0, 0] [0] = Some (r', [0, 0], [0], ReadRecordResult.InputEmpty, 5, 0, 0)"
proof -
  let ?b = "builder_comment (builder_terminator reader_default (Any 59)) (Some 35)"
  have b: "is_builder ?b" by (intro is_builder.intros)
  have sp: "LF \<notin> set (special_bytes ?b)" "r_comment ?b = Some 35" "\<not> term_is (r_term ?b) 35" and "r_term ?b \<noteq> Nonexhaustive"
    by (simp_all add: special_bytes_def builder_defs reader_default_def)
  then obtain q where q: "build ?b = Some q" using build_ok [OF b] by metis
  from csv_comment_never_ends [OF b q sp] obtain r' where
      "read_record_dfa q [35, 97, 10, 98, 59] [0, 0] [0] = Some (r', [0, 0], [0], ReadRecordResult.InputEmpty, length [35, 97, 10, 98, 59 :: u8], 0, 0)"
    by (elim exE conjE allE [of _ q] allE [of _ "[35, 97, 10, 98, 59]"] allE [of _ "[0, 0]"] allE [of _ "[0]"]) auto
  then show ?thesis using q by auto
qed

text \<open>\<^verbatim>\<open>reset\<close> returns a used reader to the state the builder gave it, except for the position in the
  output of a record that was being read: that is kept, and shifts the field ends of the next record.\<close>

theorem csv_reset_partial:
  assumes "is_builder b" and "build b = Some q"
    and "r = q\<lparr>r_dfa_state := s, r_nfa_state := t, r_line := l, r_has_read := h, r_output_pos := p\<rparr>"
  shows "reset r = Some (q\<lparr>r_output_pos := p\<rparr>)"
proof -
  note q = build_SomeD [OF assms(1,2)]
  have "r_nfa_state q = StartRecord" "r_line q = 1" "\<not> r_has_read q" "r_dfa_state q = 0"
    using q(4) is_builder_fresh [OF assms(1)]
    by (metis (no_types) Reader.ext_inject Reader.surjective Reader.update_convs(1,2))+
  then show ?thesis
    using assms(3) builtD(1) [OF q(1), of StartRecord] by (simp add: reset_def dfa_states_iff)
qed

theorem csv_reset_partial_witness:
  "\<exists>q. build reader_default = Some q
     \<and> reset (q\<lparr>r_dfa_state := 14, r_nfa_state := InField, r_line := 3, r_has_read := True, r_output_pos := 5\<rparr>)
       = Some (q\<lparr>r_output_pos := 5\<rparr>)"
proof -
  obtain q where q: "build reader_default = Some q" "is_builder reader_default" by (rule default_build)
  show ?thesis using csv_reset_partial [OF q(2,1) refl] q(1) by blast
qed

lemma clone_get_output:
  "get_output (dfa_clone d) s c = Some (t, h) \<Longrightarrow> \<not> h"
  by (auto simp: get_output_def dfa_clone_def dfa_new_def idx_def Let_def split: bind_splits if_splits)

lemma clone_field_loop:
  "dfa_field_loop (dfa_clone d) input out nin nout s line = Some (out', nin', nout', t, line') \<Longrightarrow> nout' = nout \<and> out' = out"
proof (induction "length input - nin" arbitrary: nin nout out s line rule: less_induct)
  case less
  show ?case
  proof (cases "nin < length input \<and> nout < length out")
    case False
    then show ?thesis using less.prems by (auto simp: dfa_field_loop.simps)
  next
    case True
    then obtain u h where u: "get_output (dfa_clone d) s (input ! nin) = Some (u, h)" "\<not> h"
      using less.prems clone_get_output by (subst (asm) dfa_field_loop.simps) (fastforce simp: Let_def split: option.splits)
    let ?line = "line + (if input ! nin = LF then 1 else 0)"
    have "final_field (dfa_clone d) \<le> u \<and> out' = out \<and> nout' = nout
      \<or> dfa_field_loop (dfa_clone d) input out (nin + 1) nout u ?line = Some (out', nin', nout', t, line')"
      using less.prems u True by (subst (asm) dfa_field_loop.simps) (auto simp: Let_def split: if_splits)
    moreover have "length input - (nin + 1) < length input - nin" using True by auto
    ultimately show ?thesis using less.hyps by blast
  qed
qed

text \<open>A clone of a reader loses its output table: whatever the original was built for, reading a
  field with the clone never copies a byte to the output.\<close>

theorem csv_clone_loses_output:
  assumes "read_field_dfa (reader_clone r) input out = Some (r', out', res, nin, nout)"
  shows "nout = 0 \<and> out' = out"
  using assms clone_field_loop
  by (fastforce simp: read_field_dfa_def reader_clone_def split: bind_splits if_splits)

lemma clone_get_output_eq:
  "length (trans_table d) = 70 \<Longrightarrow> unat s < 70 \<Longrightarrow> get_output (dfa_clone d) s c = Some (trans_table d ! unat s, False)"
  by (simp add: get_output_def dfa_clone_def dfa_new_def classes_new_def idx_def Let_def
      CLASS_SIZE_def TRANS_SIZE_def TRANS_CLASSES_def DFA_STATES_def)

lemma clone_marks: "final_field (dfa_clone d) = 0" "final_record (dfa_clone d) = 0"
  by (simp_all add: dfa_clone_def dfa_new_def)

theorem csv_clone_loses_output_witness:
  "\<exists>q r'. build reader_default = Some q
     \<and> read_field_dfa (reader_clone q) [97] [7, 7] = Some (r', [7, 7], Field True, 1, 0)"
proof -
  obtain q where q: "build reader_default = Some q" "built q" "in_sync q" "r_nfa_state q = StartRecord"
    by (rule default_ready)
  have len: "length (trans_table (r_dfa q)) = 70" "r_dfa_state q = 0"
    using q(2-4) by (simp_all add: built_def table_inv_def in_sync_def)
  have "dfa_field_loop (dfa_clone (r_dfa q)) [97] [7, 7] 0 0 0 l = Some ([7, 7], 1, 0, trans_table (r_dfa q) ! 0, l)" for l
    using len by (subst dfa_field_loop.simps) (simp add: clone_get_output_eq clone_marks Let_def)
  then obtain r' out' res nin nout where
    r': "read_field_dfa (reader_clone q) [97] [7, 7] = Some (r', out', Field True, 1, nout)"
    using len by (auto simp: read_field_dfa_def reader_clone_def new_read_field_result_def clone_marks)
  with csv_clone_loses_output [OF r'] q(1) show ?thesis by auto
qed

end
