(* ===== verification/Utf8.thy ===== *)
theory Utf8
  imports Prelude
begin

text \<open>
  UTF-8 validation as the standard library's \<^verbatim>\<open>str::from_utf8\<close> performs it: well-formed sequences of
  one to four bytes, shortest form only, no surrogates, at most U+10FFFF. \<open>utf8_error\<close> gives the
  \<^verbatim>\<open>valid_up_to\<close> of the error.
\<close>

definition cont :: "u8 \<Rightarrow> bool" where "cont b \<longleftrightarrow> 128 \<le> b \<and> b \<le> 191"

definition second_ok :: "u8 \<Rightarrow> u8 \<Rightarrow> bool" where
  "second_ok a b \<longleftrightarrow>
     (if a = 224 then 160 \<le> b \<and> b \<le> 191
      else if a = 237 then 128 \<le> b \<and> b \<le> 159
      else if a = 240 then 144 \<le> b \<and> b \<le> 191
      else if a = 244 then 128 \<le> b \<and> b \<le> 143
      else cont b)"

definition utf8_char :: "u8 list \<Rightarrow> nat option" where
  "utf8_char bs =
     (case bs of
        [] \<Rightarrow> None
      | a # r \<Rightarrow>
          if a < 128 then Some 1
          else if 194 \<le> a \<and> a \<le> 223 then (case r of b # _ \<Rightarrow> if cont b then Some 2 else None | _ \<Rightarrow> None)
          else if 224 \<le> a \<and> a \<le> 239 then
            (case r of b # c # _ \<Rightarrow> if second_ok a b \<and> cont c then Some 3 else None | _ \<Rightarrow> None)
          else if 240 \<le> a \<and> a \<le> 244 then
            (case r of b # c # d # _ \<Rightarrow> if second_ok a b \<and> cont c \<and> cont d then Some 4 else None | _ \<Rightarrow> None)
          else None)"

lemma utf8_char_bounds: "utf8_char bs = Some n \<Longrightarrow> 0 < n \<and> n \<le> length bs"
  by (auto simp: utf8_char_def split: list.splits if_splits)

function utf8_error :: "u8 list \<Rightarrow> nat option" where
  "utf8_error bs =
     (if bs = [] then None
      else case utf8_char bs of
        None \<Rightarrow> Some 0
      | Some n \<Rightarrow> map_option ((+) n) (utf8_error (drop n bs)))"
  by pat_completeness auto
termination
  by (relation "measure length") (use utf8_char_bounds in \<open>fastforce+\<close>)

declare utf8_error.simps [simp del]

definition utf8_valid :: "u8 list \<Rightarrow> bool" where
  "utf8_valid bs \<longleftrightarrow> utf8_error bs = None"

definition is_ascii :: "u8 list \<Rightarrow> bool" where
  "is_ascii bs = list_all (\<lambda>b. b < 128) bs"

lemma utf8_error_ascii_Cons: "b < 128 \<Longrightarrow> utf8_error (b # bs) = map_option Suc (utf8_error bs)"
  by (subst utf8_error.simps) (cases "utf8_error bs", simp_all add: utf8_char_def)

lemma is_ascii_valid: "is_ascii bs \<Longrightarrow> utf8_error bs = None"
  by (induction bs) (auto simp: is_ascii_def utf8_error_ascii_Cons utf8_error.simps [of "[]"])

lemma is_ascii_append [simp]: "is_ascii (xs @ ys) \<longleftrightarrow> is_ascii xs \<and> is_ascii ys"
  by (simp add: is_ascii_def)

lemma is_ascii_concat: "is_ascii (concat xss) \<longleftrightarrow> list_all is_ascii xss"
  by (induction xss) (auto, simp add: is_ascii_def)

end
