(* ===== verification/Csv_Writer.thy ===== *)
theory Csv_Writer
  imports Csv_Machine Utf8
begin

text \<open>
  The CSV writer of \<^verbatim>\<open>rust-csv/csv-core/src/writer.rs\<close>: builder, quoting decisions and the state
  machine of \<^verbatim>\<open>field\<close>, \<^verbatim>\<open>delimiter\<close>, \<^verbatim>\<open>terminator\<close> and \<^verbatim>\<open>finish\<close>. An output slice \<^verbatim>\<open>&mut output[pos..]\<close> is
  the whole buffer together with \<open>pos\<close>. The search routine \<^verbatim>\<open>memchr\<close> is a third-party crate and a
  parameter here; its contract is the locale \<open>memchr_contract\<close>.
\<close>

section \<open>Data\<close>

datatype QuoteStyle = Always | Necessary | NonNumeric | Never | QuoteStyleNonexhaustive

datatype WriteResult = InputEmpty | OutputFull

record WriterState =
  ws_in_field :: bool
  ws_quoting :: bool
  ws_record_bytes :: u64

record Writer =
  w_state :: WriterState
  w_requires_quotes :: "bool list"
  w_delimiter :: u8
  w_term :: Terminator
  w_style :: QuoteStyle
  w_quote :: u8
  w_escape :: u8
  w_double_quote :: bool

definition wstate_default :: WriterState where
  "wstate_default = \<lparr>ws_in_field = False, ws_quoting = False, ws_record_bytes = 0\<rparr>"

definition wbuilder_new :: Writer where
  "wbuilder_new = \<lparr>w_state = wstate_default, w_requires_quotes = replicate 256 False, w_delimiter = 44,
     w_term = Any LF, w_style = Necessary, w_quote = 34, w_escape = 92, w_double_quote = True\<rparr>"

definition wbuilder_delimiter :: "Writer \<Rightarrow> u8 \<Rightarrow> Writer" where
  "wbuilder_delimiter b c = b\<lparr>w_delimiter := c\<rparr>"
definition wbuilder_terminator :: "Writer \<Rightarrow> Terminator \<Rightarrow> Writer" where
  "wbuilder_terminator b t = b\<lparr>w_term := t\<rparr>"
definition wbuilder_quote_style :: "Writer \<Rightarrow> QuoteStyle \<Rightarrow> Writer" where
  "wbuilder_quote_style b s = b\<lparr>w_style := s\<rparr>"
definition wbuilder_quote :: "Writer \<Rightarrow> u8 \<Rightarrow> Writer" where
  "wbuilder_quote b c = b\<lparr>w_quote := c\<rparr>"
definition wbuilder_escape :: "Writer \<Rightarrow> u8 \<Rightarrow> Writer" where
  "wbuilder_escape b c = b\<lparr>w_escape := c\<rparr>"
definition wbuilder_double_quote :: "Writer \<Rightarrow> bool \<Rightarrow> Writer" where
  "wbuilder_double_quote b y = b\<lparr>w_double_quote := y\<rparr>"

text \<open>Indexing \<^verbatim>\<open>[bool; 256]\<close> by a \<^verbatim>\<open>u8\<close> cannot panic.\<close>

definition require :: "u8 \<Rightarrow> bool list \<Rightarrow> bool list" where
  "require b t = t[unat b := True]"

definition wbuild :: "Writer \<Rightarrow> Writer may_panic" where
  "wbuild b = do {
     let t = require (w_delimiter b) (w_requires_quotes b);
     let t = require (w_quote b) t;
     let t = (if \<not> w_double_quote b then require (w_escape b) t else t);
     (case w_term b of
        Terminator.CRLF \<Rightarrow> Some (b\<lparr>w_requires_quotes := require LF (require CR t)\<rparr>)
      | Any c \<Rightarrow>
          if c = LF \<or> c = CR then Some (b\<lparr>w_requires_quotes := require LF (require CR t)\<rparr>)
          else Some (b\<lparr>w_requires_quotes := require c t\<rparr>)
      | Nonexhaustive \<Rightarrow> None)
   }"

section \<open>Writing bytes\<close>

definition write_buf :: "u8 list \<Rightarrow> u8 list \<Rightarrow> nat \<Rightarrow> WriteResult \<times> nat \<times> u8 list" where
  "write_buf data output pos =
     (if length data > length output - pos then (OutputFull, 0, output)
      else (InputEmpty, length data, overwrite output pos data))"

definition write_optimistic :: "u8 list \<Rightarrow> u8 list \<Rightarrow> nat \<Rightarrow> WriteResult \<times> nat \<times> nat \<times> u8 list" where
  "write_optimistic input output pos =
     (let room = length output - pos in
      if length input > room then (OutputFull, room, room, overwrite output pos (take room input))
      else (InputEmpty, length input, length input, overwrite output pos input))"

definition write_pessimistic :: "u8 list \<Rightarrow> u8 list \<Rightarrow> nat \<Rightarrow> WriteResult \<times> nat \<times> u8 list" where
  "write_pessimistic input output pos =
     (if length input > length output - pos then (OutputFull, 0, output)
      else (InputEmpty, length input, overwrite output pos input))"

type_synonym memchr = "u8 \<Rightarrow> u8 list \<Rightarrow> nat option"

text \<open>The loop of \<^verbatim>\<open>quote\<close>; \<open>input\<close> is the input not yet consumed, \<open>base\<close> where the output slice starts.\<close>

function quote_loop :: "memchr \<Rightarrow> u8 \<Rightarrow> u8 \<Rightarrow> bool \<Rightarrow> nat \<Rightarrow> u8 list \<Rightarrow> u8 list \<Rightarrow> nat \<Rightarrow> nat
    \<Rightarrow> (WriteResult \<times> nat \<times> nat \<times> u8 list) may_panic" where
  "quote_loop memchr quote escape double_quote base input output nin nout =
     (case memchr quote input of
        None \<Rightarrow>
          (case write_optimistic input output (base + nout) of
             (res, i, out, output) \<Rightarrow> Some (res, nin + i, nout + out, output))
      | Some next_quote \<Rightarrow>
          if next_quote > length input then None
          else (case write_optimistic (take next_quote input) output (base + nout) of
            (res, i, out, output) \<Rightarrow>
              (let input = drop i input; nin = nin + i; nout = nout + out in
               if res = OutputFull then Some (res, nin, nout, output)
               else (case write_pessimistic (if double_quote then [quote, quote] else [escape, quote]) output (base + nout) of
                 (res, out, output) \<Rightarrow>
                   if res = OutputFull then Some (res, nin, nout, output)
                   else if input = [] then None
                   else quote_loop memchr quote escape double_quote base (drop 1 input) output (nin + 1) (nout + out)))))"
  by pat_completeness auto
termination
  by (relation "measure (\<lambda>(memchr, quote, escape, dq, base, input, out, nin, nout). length input)") auto

declare quote_loop.simps [simp del]

definition quote :: "memchr \<Rightarrow> u8 list \<Rightarrow> u8 list \<Rightarrow> nat \<Rightarrow> u8 \<Rightarrow> u8 \<Rightarrow> bool
    \<Rightarrow> (WriteResult \<times> nat \<times> nat \<times> u8 list) may_panic" where
  "quote memchr input output pos q escape double_quote =
     quote_loop memchr q escape double_quote pos input output 0 0"

section \<open>Deciding to quote\<close>

definition is_special_byte :: "Writer \<Rightarrow> u8 \<Rightarrow> bool" where
  "is_special_byte w b = w_requires_quotes w ! unat b"

fun needs_quotes_loop :: "Writer \<Rightarrow> bool \<Rightarrow> u8 list \<Rightarrow> bool \<times> u8 list" where
  "needs_quotes_loop w needs input =
     (if \<not> needs \<and> 8 \<le> length input
      then needs_quotes_loop w
             (w_requires_quotes w ! unat (input ! 0) \<or> w_requires_quotes w ! unat (input ! 1)
              \<or> w_requires_quotes w ! unat (input ! 2) \<or> w_requires_quotes w ! unat (input ! 3)
              \<or> w_requires_quotes w ! unat (input ! 4) \<or> w_requires_quotes w ! unat (input ! 5)
              \<or> w_requires_quotes w ! unat (input ! 6) \<or> w_requires_quotes w ! unat (input ! 7))
             (drop 8 input)
      else (needs, input))"

declare needs_quotes_loop.simps [simp del]

definition needs_quotes :: "Writer \<Rightarrow> u8 list \<Rightarrow> bool" where
  "needs_quotes w input =
     (case needs_quotes_loop w False input of (needs, rest) \<Rightarrow> needs \<or> list_ex (is_special_byte w) rest)"

text \<open>What \<^verbatim>\<open>is_non_numeric\<close> uses of the standard library: the grammars that
  \<^verbatim>\<open>str::parse\<close> accepts for \<^verbatim>\<open>f64\<close> and \<^verbatim>\<open>i128\<close>.\<close>

definition digit :: "u8 \<Rightarrow> bool" where "digit b \<longleftrightarrow> 48 \<le> b \<and> b \<le> 57"

definition strip_sign :: "u8 list \<Rightarrow> u8 list" where
  "strip_sign s = (case s of b # bs \<Rightarrow> if b = 43 \<or> b = 45 then bs else s | [] \<Rightarrow> [])"

definition ascii_lower :: "u8 \<Rightarrow> u8" where
  "ascii_lower b = (if 65 \<le> b \<and> b \<le> 90 then b + 32 else b)"

definition parses_number :: "u8 list \<Rightarrow> bool" where
  "parses_number s =
     (let whole = takeWhile digit s; r = dropWhile digit s;
          point = (r \<noteq> [] \<and> hd r = 46);
          frac = (if point then takeWhile digit (tl r) else []);
          r = (if point then dropWhile digit (tl r) else r)
      in (whole \<noteq> [] \<or> frac \<noteq> [])
         \<and> (r = [] \<or> (hd r = 101 \<or> hd r = 69) \<and> strip_sign (tl r) \<noteq> [] \<and> list_all digit (strip_sign (tl r))))"

definition parses_f64 :: "u8 list \<Rightarrow> bool" where
  "parses_f64 s =
     (let t = strip_sign s; l = map ascii_lower t in
      l = [105, 110, 102] \<or> l = [105, 110, 102, 105, 110, 105, 116, 121] \<or> l = [110, 97, 110]
      \<or> parses_number t)"

fun digits_value :: "nat \<Rightarrow> u8 list \<Rightarrow> nat" where
  "digits_value acc [] = acc"
| "digits_value acc (b # bs) = digits_value (10 * acc + (unat b - 48)) bs"

definition parses_i128 :: "u8 list \<Rightarrow> bool" where
  "parses_i128 s =
     (let t = strip_sign s in t \<noteq> [] \<and> list_all digit t
        \<and> (if hd s = 45 then digits_value 0 t \<le> 2 ^ 127 else digits_value 0 t < 2 ^ 127))"

definition is_non_numeric :: "u8 list \<Rightarrow> bool" where
  "is_non_numeric input =
     (if \<not> utf8_valid input then True else \<not> parses_f64 input \<and> \<not> parses_i128 input)"

definition should_quote :: "Writer \<Rightarrow> u8 list \<Rightarrow> bool may_panic" where
  "should_quote w input =
     (case w_style w of
        Always \<Rightarrow> Some True
      | Never \<Rightarrow> Some False
      | NonNumeric \<Rightarrow> Some (is_non_numeric input)
      | Necessary \<Rightarrow> Some (needs_quotes w input)
      | QuoteStyleNonexhaustive \<Rightarrow> None)"

section \<open>Writing fields and records\<close>

definition set_in_field :: "Writer \<Rightarrow> bool \<Rightarrow> Writer" where
  "set_in_field w b = w\<lparr>w_state := (w_state w)\<lparr>ws_in_field := b\<rparr>\<rparr>"
definition set_quoting :: "Writer \<Rightarrow> bool \<Rightarrow> Writer" where
  "set_quoting w b = w\<lparr>w_state := (w_state w)\<lparr>ws_quoting := b\<rparr>\<rparr>"
definition set_record_bytes :: "Writer \<Rightarrow> u64 \<Rightarrow> Writer" where
  "set_record_bytes w n = w\<lparr>w_state := (w_state w)\<lparr>ws_record_bytes := n\<rparr>\<rparr>"
definition add_record_bytes :: "Writer \<Rightarrow> nat \<Rightarrow> Writer" where
  "add_record_bytes w n = set_record_bytes w (ws_record_bytes (w_state w) + word_of_nat n)"

definition field_body :: "memchr \<Rightarrow> Writer \<Rightarrow> u8 list \<Rightarrow> u8 list \<Rightarrow> nat
    \<Rightarrow> (Writer \<times> u8 list \<times> WriteResult \<times> nat \<times> nat) may_panic" where
  "field_body memchr w input output nout = do {
     (res, i, out, output) \<leftarrow>
       (if ws_quoting (w_state w)
        then quote memchr input output nout (w_quote w) (w_escape w) (w_double_quote w)
        else Some (write_optimistic input output nout));
     Some (add_record_bytes w out, output, res, i, nout + out)
   }"

definition field :: "memchr \<Rightarrow> Writer \<Rightarrow> u8 list \<Rightarrow> u8 list
    \<Rightarrow> (Writer \<times> u8 list \<times> WriteResult \<times> nat \<times> nat) may_panic" where
  "field memchr w input output =
     (if \<not> ws_in_field (w_state w) then do {
        sq \<leftarrow> should_quote w input;
        let w = set_quoting w sq;
        if sq then
          (case write_buf [w_quote w] output 0 of (res, out, output) \<Rightarrow>
             if out = 0 then Some (w, output, res, 0, 0)
             else field_body memchr (set_in_field (add_record_bytes w out) True) input output out)
        else field_body memchr (set_in_field w True) input output 0
      }
      else field_body memchr w input output 0)"

definition delimiter_tail :: "Writer \<Rightarrow> u8 list \<Rightarrow> nat \<Rightarrow> Writer \<times> u8 list \<times> WriteResult \<times> nat" where
  "delimiter_tail w output nout =
     (case write_buf [w_delimiter w] output nout of (res, out, output) \<Rightarrow>
        if out = 0 then (w, output, res, nout)
        else (set_in_field (add_record_bytes w out) False, output, res, nout + out))"

definition delimiter :: "Writer \<Rightarrow> u8 list \<Rightarrow> Writer \<times> u8 list \<times> WriteResult \<times> nat" where
  "delimiter w output =
     (if ws_quoting (w_state w) then
        (case write_buf [w_quote w] output 0 of (res, out, output) \<Rightarrow>
           if out = 0 then (w, output, res, out)
           else delimiter_tail (set_quoting (add_record_bytes w out) False) output out)
      else delimiter_tail w output 0)"

definition terminator_tail :: "Writer \<Rightarrow> u8 list \<Rightarrow> nat \<Rightarrow> (Writer \<times> u8 list \<times> WriteResult \<times> nat) may_panic" where
  "terminator_tail w output nout = do {
     data \<leftarrow> (case w_term w of Terminator.CRLF \<Rightarrow> Some [CR, LF] | Any b \<Rightarrow> Some [b] | Nonexhaustive \<Rightarrow> None);
     (case write_pessimistic data output nout of (res, out, output) \<Rightarrow>
        if out = 0 then Some (w, output, res, nout)
        else Some (set_in_field (set_record_bytes w 0) False, output, res, nout + out))
   }"

definition terminator_close :: "Writer \<Rightarrow> u8 list \<Rightarrow> nat \<Rightarrow> (Writer \<times> u8 list \<times> WriteResult \<times> nat) may_panic" where
  "terminator_close w output nout =
     (if ws_quoting (w_state w) then
        (case write_buf [w_quote w] output nout of (res, out, output) \<Rightarrow>
           if out = 0 then Some (w, output, res, out)
           else terminator_tail (set_quoting (add_record_bytes w out) False) output (nout + out))
      else terminator_tail w output nout)"

definition terminator :: "Writer \<Rightarrow> u8 list \<Rightarrow> (Writer \<times> u8 list \<times> WriteResult \<times> nat) may_panic" where
  "terminator w output =
     (if ws_record_bytes (w_state w) = 0 then do {
        _ \<leftarrow> rust_assert (\<not> ws_quoting (w_state w));
        (case write_buf [w_quote w, w_quote w] output 0 of (res, out, output) \<Rightarrow>
           if out = 0 then Some (w, output, res, 0)
           else terminator_close (add_record_bytes w out) output out)
      }
      else terminator_close w output 0)"

definition finish_close :: "Writer \<Rightarrow> u8 list \<Rightarrow> nat \<Rightarrow> Writer \<times> u8 list \<times> WriteResult \<times> nat" where
  "finish_close w output nout =
     (if \<not> ws_quoting (w_state w) then (w, output, InputEmpty, nout)
      else case write_buf [w_quote w] output nout of (res, out, output) \<Rightarrow>
        if out = 0 then (w, output, res, nout)
        else (set_quoting (set_in_field (set_record_bytes w 0) False) False, output, res, nout + out))"

definition finish :: "Writer \<Rightarrow> u8 list \<Rightarrow> (Writer \<times> u8 list \<times> WriteResult \<times> nat) may_panic" where
  "finish w output =
     (if ws_record_bytes (w_state w) = 0 \<and> ws_in_field (w_state w) then do {
        _ \<leftarrow> rust_assert (\<not> ws_quoting (w_state w));
        (case write_buf [w_quote w, w_quote w] output 0 of (res, out, output) \<Rightarrow>
           if out = 0 then Some (w, output, res, 0)
           else Some (finish_close (add_record_bytes w out) output out))
      }
      else Some (finish_close w output 0))"

end
