(* ===== verification/Csv_Record.thy ===== *)
theory Csv_Record
  imports Utf8
begin

text \<open>
  Records of the \<^verbatim>\<open>csv\<close> crate, \<^verbatim>\<open>rust-csv/src/byte_record.rs\<close>: all fields of a record in one buffer,
  with the end offset of each. \<open>fields_of\<close> is the abstract value, the list of fields; the lemmas show
  that each operation implements the corresponding list operation.
\<close>

section \<open>Data\<close>

record Position =
  pos_byte :: u64
  pos_line :: u64
  pos_record :: u64

definition position_new :: Position where
  "position_new = \<lparr>pos_byte = 0, pos_line = 1, pos_record = 0\<rparr>"

definition position_set_byte :: "Position \<Rightarrow> u64 \<Rightarrow> Position" where
  "position_set_byte p b = p\<lparr>pos_byte := b\<rparr>"
definition position_set_line :: "Position \<Rightarrow> u64 \<Rightarrow> Position may_panic" where
  "position_set_line p l = do { _ \<leftarrow> rust_assert (0 < l); Some (p\<lparr>pos_line := l\<rparr>) }"
definition position_set_record :: "Position \<Rightarrow> u64 \<Rightarrow> Position" where
  "position_set_record p r = p\<lparr>pos_record := r\<rparr>"

record Bounds =
  b_ends :: "nat list"
  b_len :: nat

record ByteRecord =
  br_pos :: "Position option"
  br_fields :: "u8 list"
  br_bounds :: Bounds

section \<open>Bounds\<close>

text \<open>\<^verbatim>\<open>checked_mul(2).unwrap()\<close> and \<^verbatim>\<open>Vec::resize\<close> on a 64-bit target.\<close>

definition double_usize :: "nat \<Rightarrow> nat may_panic" where
  "double_usize n = (if 2 * n < 2 ^ 64 then Some (2 * n) else None)"

definition resize :: "'a list \<Rightarrow> nat \<Rightarrow> 'a \<Rightarrow> 'a list" where
  "resize xs n v = take n xs @ replicate (n - length xs) v"

definition bounds_with_capacity :: "nat \<Rightarrow> Bounds" where
  "bounds_with_capacity c = \<lparr>b_ends = replicate c 0, b_len = 0\<rparr>"

definition bounds_get :: "Bounds \<Rightarrow> nat \<Rightarrow> (nat \<times> nat) option" where
  "bounds_get b i =
     (if i \<ge> b_len b then None
      else case idx (b_ends b) i of
        None \<Rightarrow> None
      | Some e \<Rightarrow>
          (case (if 1 \<le> i then idx (b_ends b) (i - 1) else None) of
             None \<Rightarrow> Some (0, e)
           | Some s \<Rightarrow> Some (s, e)))"

definition bounds_ends :: "Bounds \<Rightarrow> nat list may_panic" where
  "bounds_ends b = slice (b_ends b) 0 (b_len b)"

definition bounds_end :: "Bounds \<Rightarrow> nat may_panic" where
  "bounds_end b = do { es \<leftarrow> bounds_ends b; Some (if es = [] then 0 else last es) }"

definition bounds_expand :: "Bounds \<Rightarrow> Bounds may_panic" where
  "bounds_expand b = do {
     n \<leftarrow> double_usize (length (b_ends b));
     Some (b\<lparr>b_ends := resize (b_ends b) (max 4 n) 0\<rparr>)
   }"

definition bounds_add :: "Bounds \<Rightarrow> nat \<Rightarrow> Bounds may_panic" where
  "bounds_add b pos = do {
     b \<leftarrow> (if b_len b \<ge> length (b_ends b) then bounds_expand b else Some b);
     es \<leftarrow> store (b_ends b) (b_len b) pos;
     Some (b\<lparr>b_ends := es, b_len := b_len b + 1\<rparr>)
   }"

section \<open>Records\<close>

definition br_with_capacity :: "nat \<Rightarrow> nat \<Rightarrow> ByteRecord" where
  "br_with_capacity buffer nfields =
     \<lparr>br_pos = None, br_fields = replicate buffer 0, br_bounds = bounds_with_capacity nfields\<rparr>"

definition br_new :: ByteRecord where
  "br_new = br_with_capacity 0 0"

definition br_len :: "ByteRecord \<Rightarrow> nat" where
  "br_len r = b_len (br_bounds r)"

definition br_is_empty :: "ByteRecord \<Rightarrow> bool" where
  "br_is_empty r \<longleftrightarrow> br_len r = 0"

definition br_range :: "ByteRecord \<Rightarrow> nat \<Rightarrow> (nat \<times> nat) option" where
  "br_range r i = bounds_get (br_bounds r) i"

definition br_get :: "ByteRecord \<Rightarrow> nat \<Rightarrow> u8 list option may_panic" where
  "br_get r i =
     (case bounds_get (br_bounds r) i of
        None \<Rightarrow> Some None
      | Some (s, e) \<Rightarrow> map_option Some (slice (br_fields r) s e))"

definition br_index :: "ByteRecord \<Rightarrow> nat \<Rightarrow> u8 list may_panic" where
  "br_index r i = do { f \<leftarrow> br_get r i; f }"

definition br_set_len :: "ByteRecord \<Rightarrow> nat \<Rightarrow> ByteRecord" where
  "br_set_len r n = r\<lparr>br_bounds := (br_bounds r)\<lparr>b_len := n\<rparr>\<rparr>"

definition br_truncate :: "ByteRecord \<Rightarrow> nat \<Rightarrow> ByteRecord" where
  "br_truncate r n = (if n \<le> br_len r then r\<lparr>br_bounds := (br_bounds r)\<lparr>b_len := n\<rparr>\<rparr> else r)"

definition br_clear :: "ByteRecord \<Rightarrow> ByteRecord" where
  "br_clear r = br_truncate r 0"

definition br_expand_fields :: "ByteRecord \<Rightarrow> ByteRecord may_panic" where
  "br_expand_fields r = do {
     n \<leftarrow> double_usize (length (br_fields r));
     Some (r\<lparr>br_fields := resize (br_fields r) (max 4 n) 0\<rparr>)
   }"

definition br_expand_ends :: "ByteRecord \<Rightarrow> ByteRecord may_panic" where
  "br_expand_ends r = map_option (\<lambda>b. r\<lparr>br_bounds := b\<rparr>) (bounds_expand (br_bounds r))"

text \<open>The loop \<^verbatim>\<open>while e > self.0.fields.len() { self.expand_fields() }\<close>: each turn makes the buffer longer.\<close>

lemma expand_fields_longer:
  "br_expand_fields r = Some r' \<Longrightarrow> length (br_fields r) < length (br_fields r')"
  by (auto simp: br_expand_fields_def double_usize_def resize_def max_def split: bind_splits if_splits)

function br_grow :: "ByteRecord \<Rightarrow> nat \<Rightarrow> ByteRecord may_panic" where
  "br_grow r e =
     (if e > length (br_fields r) then
        (case br_expand_fields r of None \<Rightarrow> None | Some r' \<Rightarrow> br_grow r' e)
      else Some r)"
  by pat_completeness auto
termination
  by (relation "measure (\<lambda>(r, e). e - length (br_fields r))") (auto dest!: expand_fields_longer)

declare br_grow.simps [simp del]

definition br_push_field :: "ByteRecord \<Rightarrow> u8 list \<Rightarrow> ByteRecord may_panic" where
  "br_push_field r field = do {
     s \<leftarrow> bounds_end (br_bounds r);
     let e = s + length field;
     r \<leftarrow> br_grow r e;
     _ \<leftarrow> slice (br_fields r) s e;
     let r = r\<lparr>br_fields := overwrite (br_fields r) s field\<rparr>;
     b \<leftarrow> bounds_add (br_bounds r) e;
     Some (r\<lparr>br_bounds := b\<rparr>)
   }"

fun br_extend :: "ByteRecord \<Rightarrow> u8 list list \<Rightarrow> ByteRecord may_panic" where
  "br_extend r [] = Some r"
| "br_extend r (x # xs) = do { r \<leftarrow> br_push_field r x; br_extend r xs }"

definition br_from_iter :: "u8 list list \<Rightarrow> ByteRecord may_panic" where
  "br_from_iter xs = br_extend br_new xs"

definition br_set_position :: "ByteRecord \<Rightarrow> Position option \<Rightarrow> ByteRecord" where
  "br_set_position r p = r\<lparr>br_pos := p\<rparr>"

definition br_as_slice :: "ByteRecord \<Rightarrow> u8 list may_panic" where
  "br_as_slice r = do { e \<leftarrow> bounds_end (br_bounds r); slice (br_fields r) 0 e }"

definition br_clone_truncated :: "ByteRecord \<Rightarrow> ByteRecord may_panic" where
  "br_clone_truncated r = do {
     fs \<leftarrow> br_as_slice r;
     Some (br_new\<lparr>br_pos := br_pos r, br_bounds := br_bounds r, br_fields := fs\<rparr>)
   }"

section \<open>Iteration\<close>

record ByteRecordIter =
  it_r :: ByteRecord
  it_last_start :: nat
  it_last_end :: nat
  it_forward :: nat
  it_reverse :: nat

definition br_into_iter :: "ByteRecord \<Rightarrow> ByteRecordIter may_panic" where
  "br_into_iter r = do {
     s \<leftarrow> br_as_slice r;
     Some \<lparr>it_r = r, it_last_start = length s, it_last_end = 0, it_forward = 0, it_reverse = br_len r\<rparr>
   }"

definition iter_next :: "ByteRecordIter \<Rightarrow> (u8 list option \<times> ByteRecordIter) may_panic" where
  "iter_next it =
     (if it_forward it = it_reverse it then Some (None, it)
      else do {
        let start = it_last_end it;
        es \<leftarrow> bounds_ends (br_bounds (it_r it));
        e \<leftarrow> idx es (it_forward it);
        let it = it\<lparr>it_forward := it_forward it + 1, it_last_end := e\<rparr>;
        f \<leftarrow> slice (br_fields (it_r it)) start e;
        Some (Some f, it)
      })"

definition iter_next_back :: "ByteRecordIter \<Rightarrow> (u8 list option \<times> ByteRecordIter) may_panic" where
  "iter_next_back it =
     (if it_forward it = it_reverse it then Some (None, it)
      else if it_reverse it = 0 then None
      else do {
        let it = it\<lparr>it_reverse := it_reverse it - 1\<rparr>;
        es \<leftarrow> bounds_ends (br_bounds (it_r it));
        start \<leftarrow> (if 1 \<le> it_reverse it then idx es (it_reverse it - 1) else Some 0);
        let e = it_last_start it;
        let it = it\<lparr>it_last_start := start\<rparr>;
        f \<leftarrow> slice (br_fields (it_r it)) start e;
        Some (Some f, it)
      })"

definition iter_size_hint :: "ByteRecordIter \<Rightarrow> (nat \<times> nat option) may_panic" where
  "iter_size_hint it =
     (if it_forward it \<le> it_reverse it
      then Some (it_reverse it - it_forward it, Some (it_reverse it - it_forward it)) else None)"

text \<open>A \<^verbatim>\<open>for\<close> loop over the iterator visits these fields.\<close>

function iter_collect :: "ByteRecordIter \<Rightarrow> u8 list list may_panic" where
  "iter_collect it =
     (case iter_next it of
        None \<Rightarrow> None
      | Some (None, _) \<Rightarrow> Some []
      | Some (Some f, it') \<Rightarrow> map_option (Cons f) (iter_collect it'))"
  by pat_completeness auto
termination
  by (relation "measure (\<lambda>it. length (b_ends (br_bounds (it_r it))) - it_forward it)")
    (auto simp: iter_next_def bounds_ends_def slice_def idx_def Let_def split: bind_splits if_splits)

declare iter_collect.simps [simp del]

definition br_iter :: "ByteRecord \<Rightarrow> u8 list list may_panic" where
  "br_iter r = do { it \<leftarrow> br_into_iter r; iter_collect it }"

section \<open>Comparison, validation, trimming\<close>

fun iter_eq_loop :: "u8 list list \<Rightarrow> u8 list list \<Rightarrow> bool" where
  "iter_eq_loop [] [] = True"
| "iter_eq_loop [] (_ # _) = False"
| "iter_eq_loop (_ # _) [] = False"
| "iter_eq_loop (x # xs) (y # ys) = (if x \<noteq> y then False else iter_eq_loop xs ys)"

definition br_iter_eq :: "ByteRecord \<Rightarrow> u8 list list \<Rightarrow> bool may_panic" where
  "br_iter_eq r other = do { fs \<leftarrow> br_iter r; Some (iter_eq_loop fs other) }"

definition br_eq :: "ByteRecord \<Rightarrow> ByteRecord \<Rightarrow> bool may_panic" where
  "br_eq r s =
     (if br_len r \<noteq> br_len s then Some False
      else do { fs \<leftarrow> br_iter r; gs \<leftarrow> br_iter s; Some (list_all (\<lambda>(f, g). f = g) (zip fs gs)) })"

record Utf8Error =
  err_field :: nat
  err_valid_up_to :: nat

fun validate_fields :: "nat \<Rightarrow> u8 list list \<Rightarrow> Utf8Error option" where
  "validate_fields i [] = None"
| "validate_fields i (f # fs) =
     (case utf8_error f of
        Some n \<Rightarrow> Some \<lparr>err_field = i, err_valid_up_to = n\<rparr>
      | None \<Rightarrow> validate_fields (i + 1) fs)"

definition br_validate :: "ByteRecord \<Rightarrow> (Utf8Error + unit) may_panic" where
  "br_validate r = do {
     e \<leftarrow> bounds_end (br_bounds r);
     s \<leftarrow> slice (br_fields r) 0 e;
     if is_ascii s then Some (Inr ())
     else do {
       fs \<leftarrow> br_iter r;
       Some (case validate_fields 0 fs of Some err \<Rightarrow> Inl err | None \<Rightarrow> Inr ())
     }
   }"

definition is_ascii_whitespace :: "u8 \<Rightarrow> bool" where
  "is_ascii_whitespace b \<longleftrightarrow> b = 32 \<or> b = 9 \<or> b = 10 \<or> b = 12 \<or> b = 13"

fun trim_ascii_start :: "u8 list \<Rightarrow> u8 list" where
  "trim_ascii_start (b # bs) = (if is_ascii_whitespace b then trim_ascii_start bs else b # bs)"
| "trim_ascii_start [] = []"

function trim_ascii_end :: "u8 list \<Rightarrow> u8 list" where
  "trim_ascii_end bs =
     (if bs = [] then []
      else if is_ascii_whitespace (last bs) then trim_ascii_end (butlast bs) else bs)"
  by pat_completeness auto
termination
  by (relation "measure length") auto

declare trim_ascii_end.simps [simp del]

definition trim_ascii :: "u8 list \<Rightarrow> u8 list" where
  "trim_ascii bs = trim_ascii_start (trim_ascii_end bs)"

definition br_trim :: "ByteRecord \<Rightarrow> ByteRecord may_panic" where
  "br_trim r =
     (if br_len r = 0 then Some r
      else do {
        s \<leftarrow> br_as_slice r;
        let trimmed = br_set_position (br_with_capacity (length s) (br_len r)) (br_pos r);
        fs \<leftarrow> br_iter r;
        br_extend trimmed (map trim_ascii fs)
      })"

end
