(* ===== verification/Csv_Out.thy ===== *)
theory Csv_Out
  imports Csv_Writer Csv_Record
begin

text \<open>
  The buffered writer of the \<^verbatim>\<open>csv\<close> crate, \<^verbatim>\<open>rust-csv/src/writer.rs\<close>: it drives the core writer with the
  free part of an internal buffer and empties the buffer into the inner \<^verbatim>\<open>io::Write\<close> when it is full. The
  inner writer is a parameter: a state \<open>'w\<close> with \<^verbatim>\<open>write_all\<close> and \<^verbatim>\<open>flush\<close>. A loop that may not end returns
  \<open>_ may_panic option\<close>: \<^const>\<open>None\<close> for never returning, \<open>Some None\<close> for a panic.
\<close>

section \<open>Data\<close>

text \<open>The kinds of errors of \<^verbatim>\<open>error.rs\<close> that reading and writing records raise.\<close>

datatype 'e ErrorKind = Io 'e | EK_Utf8 "Position option" Utf8Error | UnequalLengths "Position option" u64 u64

datatype HeaderState = HeaderWrite | HeaderDidWrite | HeaderDidNotWrite | HeaderNone

record Buffer =
  bf_buf :: "u8 list"
  bf_len :: nat

record CsvWriterState =
  cs_header :: HeaderState
  cs_flexible :: bool
  cs_first_field_count :: "u64 option"
  cs_fields_written :: u64
  cs_panicked :: bool

record 'w CsvWriter =
  cw_core :: Writer
  cw_wtr :: "'w option"
  cw_buf :: Buffer
  cw_state :: CsvWriterState

record CsvWriterBuilder =
  cb_builder :: Writer
  cb_capacity :: nat
  cb_flexible :: bool
  cb_has_headers :: bool

type_synonym ('w, 'e) write_all = "'w \<Rightarrow> u8 list \<Rightarrow> 'w \<times> ('e + unit)"
type_synonym ('w, 'e) flush = "'w \<Rightarrow> 'w \<times> ('e + unit)"
type_synonym ('w, 'e) outcome = "('w CsvWriter \<times> ('e ErrorKind + unit)) may_panic option"

definition csv_builder_default :: CsvWriterBuilder where
  "csv_builder_default = \<lparr>cb_builder = wbuilder_new, cb_capacity = 8 * 2 ^ 10, cb_flexible = False, cb_has_headers = True\<rparr>"

definition csv_flexible :: "CsvWriterBuilder \<Rightarrow> bool \<Rightarrow> CsvWriterBuilder" where
  "csv_flexible b y = b\<lparr>cb_flexible := y\<rparr>"

definition csv_has_headers :: "CsvWriterBuilder \<Rightarrow> bool \<Rightarrow> CsvWriterBuilder" where
  "csv_has_headers b y = b\<lparr>cb_has_headers := y\<rparr>"

definition buffer_capacity :: "CsvWriterBuilder \<Rightarrow> nat \<Rightarrow> CsvWriterBuilder" where
  "buffer_capacity b n = b\<lparr>cb_capacity := n\<rparr>"

definition csv_writer_new :: "CsvWriterBuilder \<Rightarrow> 'w \<Rightarrow> 'w CsvWriter may_panic" where
  "csv_writer_new b wtr = do {
     let header_state = (if cb_has_headers b then HeaderWrite else HeaderNone);
     core \<leftarrow> wbuild (cb_builder b);
     Some \<lparr>cw_core = core, cw_wtr = Some wtr, cw_buf = \<lparr>bf_buf = replicate (cb_capacity b) 0, bf_len = 0\<rparr>,
       cw_state = \<lparr>cs_header = header_state, cs_flexible = cb_flexible b, cs_first_field_count = None,
         cs_fields_written = 0, cs_panicked = False\<rparr>\<rparr>
   }"

section \<open>The buffer\<close>

definition readable :: "Buffer \<Rightarrow> u8 list may_panic" where
  "readable b = slice (bf_buf b) 0 (bf_len b)"

definition writable :: "Buffer \<Rightarrow> u8 list may_panic" where
  "writable b = slice (bf_buf b) (bf_len b) (length (bf_buf b))"

text \<open>The buffer after the borrowed slice \<^verbatim>\<open>writable()\<close> has been changed to \<open>out\<close>.\<close>

definition put_back :: "Buffer \<Rightarrow> u8 list \<Rightarrow> Buffer" where
  "put_back b out = b\<lparr>bf_buf := take (bf_len b) (bf_buf b) @ out\<rparr>"

definition bytes_written :: "Buffer \<Rightarrow> nat \<Rightarrow> Buffer" where
  "bytes_written b n = b\<lparr>bf_len := bf_len b + n\<rparr>"

definition buffer_clear :: "Buffer \<Rightarrow> Buffer" where
  "buffer_clear b = b\<lparr>bf_len := 0\<rparr>"

definition put_byte :: "Buffer \<Rightarrow> u8 \<Rightarrow> Buffer may_panic" where
  "put_byte b c = do { out \<leftarrow> writable b; out \<leftarrow> store out 0 c; Some (bytes_written (put_back b out) 1) }"

definition put_bytes :: "Buffer \<Rightarrow> u8 list \<Rightarrow> Buffer may_panic" where
  "put_bytes b xs = do {
     out \<leftarrow> writable b;
     _ \<leftarrow> slice out 0 (length xs);
     Some (bytes_written (put_back b (overwrite out 0 xs)) (length xs))
   }"

section \<open>Flushing and the loops over the core writer\<close>

definition set_panicked :: "'w CsvWriter \<Rightarrow> bool \<Rightarrow> 'w CsvWriter" where
  "set_panicked W y = W\<lparr>cw_state := (cw_state W)\<lparr>cs_panicked := y\<rparr>\<rparr>"

definition flush_buf :: "('w, 'e) write_all \<Rightarrow> 'w CsvWriter \<Rightarrow> ('w CsvWriter \<times> ('e + unit)) may_panic" where
  "flush_buf wa W = do {
     let W = set_panicked W True;
     wtr \<leftarrow> cw_wtr W;
     data \<leftarrow> readable (cw_buf W);
     let (wtr, result) = wa wtr data;
     let W = set_panicked (W\<lparr>cw_wtr := Some wtr\<rparr>) False;
     (case result of
        Inl e \<Rightarrow> Some (W, Inl e)
      | Inr _ \<Rightarrow> Some (W\<lparr>cw_buf := buffer_clear (cw_buf W)\<rparr>, Inr ()))
   }"

definition csv_flush :: "('w, 'e) write_all \<Rightarrow> ('w, 'e) flush \<Rightarrow> 'w CsvWriter \<Rightarrow> ('w CsvWriter \<times> ('e + unit)) may_panic" where
  "csv_flush wa fl W = do {
     (W, r) \<leftarrow> flush_buf wa W;
     (case r of
        Inl e \<Rightarrow> Some (W, Inl e)
      | Inr _ \<Rightarrow> do { wtr \<leftarrow> cw_wtr W; let (wtr, r) = fl wtr; Some (W\<lparr>cw_wtr := Some wtr\<rparr>, r) })
   }"

definition into_inner :: "('w, 'e) write_all \<Rightarrow> ('w, 'e) flush \<Rightarrow> 'w CsvWriter \<Rightarrow> ('w CsvWriter \<times> 'e + 'w) may_panic" where
  "into_inner wa fl W = do {
     (W, r) \<leftarrow> csv_flush wa fl W;
     (case r of Inr _ \<Rightarrow> do { wtr \<leftarrow> cw_wtr W; Some (Inr wtr) } | Inl e \<Rightarrow> Some (Inl (W, e)))
   }"

definition csv_drop :: "('w, 'e) write_all \<Rightarrow> ('w, 'e) flush \<Rightarrow> 'w CsvWriter \<Rightarrow> 'w CsvWriter may_panic" where
  "csv_drop wa fl W =
     (if cw_wtr W \<noteq> None \<and> \<not> cs_panicked (cw_state W) then map_option fst (csv_flush wa fl W) else Some W)"

text \<open>
  The loop that \<^verbatim>\<open>write_field_impl\<close>, \<^verbatim>\<open>write_delimiter\<close> and \<^verbatim>\<open>write_terminator\<close> share: call the core writer on
  the free part of the buffer, return when it reports \<open>InputEmpty\<close>, flush and try again when it reports
  \<open>OutputFull\<close>. \<open>call\<close> is the core operation on the rest of the input.
\<close>

type_synonym core_op = "Writer \<Rightarrow> u8 list \<Rightarrow> u8 list \<Rightarrow> (Writer \<times> u8 list \<times> WriteResult \<times> nat \<times> nat) may_panic"

definition core_turn :: "core_op \<Rightarrow> 'w CsvWriter \<Rightarrow> u8 list \<Rightarrow> (WriteResult \<times> 'w CsvWriter \<times> u8 list) may_panic" where
  "core_turn call W rest = do {
     out \<leftarrow> writable (cw_buf W);
     (core, out, res, nin, nout) \<leftarrow> call (cw_core W) rest out;
     Some (res, W\<lparr>cw_core := core, cw_buf := bytes_written (put_back (cw_buf W) out) nout\<rparr>, drop nin rest)
   }"

partial_function (option) flush_loop :: "('w, 'e) write_all \<Rightarrow> core_op \<Rightarrow> 'w CsvWriter \<Rightarrow> u8 list \<Rightarrow> ('w, 'e) outcome" where
  "flush_loop wa call W rest =
     (case core_turn call W rest of
        None \<Rightarrow> Some None
      | Some (res, W, rest) \<Rightarrow>
          (if res = InputEmpty then Some (Some (W, Inr ()))
           else case flush_buf wa W of
             None \<Rightarrow> Some None
           | Some (W, Inl e) \<Rightarrow> Some (Some (W, Inl (Io e)))
           | Some (W, Inr _) \<Rightarrow> flush_loop wa call W rest))"

declare flush_loop.simps [code]

text \<open>The operator \<^verbatim>\<open>?\<close> between two fallible steps.\<close>

definition and_then :: "('w, 'e) outcome \<Rightarrow> ('w CsvWriter \<Rightarrow> ('w, 'e) outcome) \<Rightarrow> ('w, 'e) outcome" where
  "and_then m k =
     (case m of
        None \<Rightarrow> None
      | Some None \<Rightarrow> Some None
      | Some (Some (W, Inl e)) \<Rightarrow> Some (Some (W, Inl e))
      | Some (Some (W, Inr _)) \<Rightarrow> k W)"

definition delimiter_op :: core_op where
  "delimiter_op core rest out = (case delimiter core out of (core, out, res, n) \<Rightarrow> Some (core, out, res, 0, n))"

definition terminator_op :: core_op where
  "terminator_op core rest out = do { (core, out, res, n) \<leftarrow> terminator core out; Some (core, out, res, 0, n) }"

definition set_fields_written :: "'w CsvWriter \<Rightarrow> u64 \<Rightarrow> 'w CsvWriter" where
  "set_fields_written W n = W\<lparr>cw_state := (cw_state W)\<lparr>cs_fields_written := n\<rparr>\<rparr>"

definition write_delimiter :: "('w, 'e) write_all \<Rightarrow> 'w CsvWriter \<Rightarrow> ('w, 'e) outcome" where
  "write_delimiter wa W = flush_loop wa delimiter_op W []"

definition write_field_impl :: "memchr \<Rightarrow> ('w, 'e) write_all \<Rightarrow> 'w CsvWriter \<Rightarrow> u8 list \<Rightarrow> ('w, 'e) outcome" where
  "write_field_impl memchr wa W fld =
     and_then (if 0 < cs_fields_written (cw_state W) then write_delimiter wa W else Some (Some (W, Inr ())))
       (\<lambda>W. and_then (flush_loop wa (field memchr) W fld)
         (\<lambda>W. Some (Some (set_fields_written W (cs_fields_written (cw_state W) + 1), Inr ()))))"

definition check_field_count :: "'w CsvWriter \<Rightarrow> 'w CsvWriter \<times> ('e ErrorKind + unit)" where
  "check_field_count W =
     (let s = cw_state W in
      if \<not> cs_flexible s then
        (case cs_first_field_count s of
           None \<Rightarrow> (W\<lparr>cw_state := s\<lparr>cs_first_field_count := Some (cs_fields_written s)\<rparr>\<rparr>, Inr ())
         | Some expected \<Rightarrow>
             if expected \<noteq> cs_fields_written s
             then (W, Inl (UnequalLengths None expected (cs_fields_written s)))
             else (W, Inr ()))
      else (W, Inr ()))"

definition write_terminator :: "('w, 'e) write_all \<Rightarrow> 'w CsvWriter \<Rightarrow> ('w, 'e) outcome" where
  "write_terminator wa W =
     and_then (Some (Some (check_field_count W)))
       (\<lambda>W. and_then (flush_loop wa terminator_op W [])
         (\<lambda>W. Some (Some (set_fields_written W 0, Inr ()))))"

fun write_fields :: "memchr \<Rightarrow> ('w, 'e) write_all \<Rightarrow> 'w CsvWriter \<Rightarrow> u8 list list \<Rightarrow> ('w, 'e) outcome" where
  "write_fields memchr wa W [] = Some (Some (W, Inr ()))"
| "write_fields memchr wa W (f # fs) = and_then (write_field_impl memchr wa W f) (\<lambda>W. write_fields memchr wa W fs)"

definition write_record :: "memchr \<Rightarrow> ('w, 'e) write_all \<Rightarrow> 'w CsvWriter \<Rightarrow> u8 list list \<Rightarrow> ('w, 'e) outcome" where
  "write_record memchr wa W record = and_then (write_fields memchr wa W record) (write_terminator wa)"

section \<open>The fast path for byte records\<close>

definition put_quoted :: "memchr \<Rightarrow> Writer \<Rightarrow> Buffer \<Rightarrow> u8 list \<Rightarrow> Buffer may_panic" where
  "put_quoted memchr core b f = do {
     b \<leftarrow> put_byte b (w_quote core);
     out \<leftarrow> writable b;
     (res, nin, nout, out) \<leftarrow> quote memchr f out 0 (w_quote core) (w_escape core) (w_double_quote core);
     _ \<leftarrow> rust_assert (res = InputEmpty);
     _ \<leftarrow> rust_assert (nin = length f);
     put_byte (bytes_written (put_back b out) nout) (w_quote core)
   }"

fun put_fields :: "memchr \<Rightarrow> Writer \<Rightarrow> bool \<Rightarrow> Buffer \<Rightarrow> u8 list list \<Rightarrow> Buffer may_panic" where
  "put_fields memchr core first b [] = Some b"
| "put_fields memchr core first b (f # fs) = do {
     b \<leftarrow> (if \<not> first then put_byte b (w_delimiter core) else Some b);
     q \<leftarrow> should_quote core f;
     b \<leftarrow> (if \<not> q then put_bytes b f else put_quoted memchr core b f);
     put_fields memchr core False b fs
   }"

definition write_terminator_into_buffer :: "'w CsvWriter \<Rightarrow> ('w CsvWriter \<times> ('e ErrorKind + unit)) may_panic" where
  "write_terminator_into_buffer W =
     (case check_field_count W of
        (W, Inl e) \<Rightarrow> Some (W, Inl e)
      | (W, Inr _) \<Rightarrow> do {
          b \<leftarrow> (case w_term (cw_core W) of
                 Terminator.CRLF \<Rightarrow> do {
                   out \<leftarrow> writable (cw_buf W);
                   out \<leftarrow> store out 0 CR;
                   out \<leftarrow> store out 1 LF;
                   Some (bytes_written (put_back (cw_buf W) out) 2) }
               | Any b \<Rightarrow> put_byte (cw_buf W) b
               | Nonexhaustive \<Rightarrow> None);
          Some (set_fields_written (W\<lparr>cw_buf := b\<rparr>) 0, Inr ()) })"

definition upper_bound :: "nat \<Rightarrow> nat \<Rightarrow> nat" where
  "upper_bound nbytes nfields = 2 * nbytes + (nfields - 1) + 2 * nfields + 2"

definition write_byte_record :: "memchr \<Rightarrow> ('w, 'e) write_all \<Rightarrow> 'w CsvWriter \<Rightarrow> ByteRecord \<Rightarrow> ('w, 'e) outcome" where
  "write_byte_record memchr wa W record =
     (case (br_as_slice record, br_iter record, writable (cw_buf W)) of
        (Some data, Some fs, Some out) \<Rightarrow>
          if data = [] then write_record memchr wa W fs
          else if length out < upper_bound (length data) (br_len record) then write_record memchr wa W fs
          else Some (do {
            b \<leftarrow> put_fields memchr (cw_core W) True (cw_buf W) fs;
            write_terminator_into_buffer (set_fields_written (W\<lparr>cw_buf := b\<rparr>) (word_of_nat (br_len record)))
          })
      | _ \<Rightarrow> Some None)"

end
