(* ===== verification/Csv_In.thy ===== *)
theory Csv_In
  imports Csv_Reader Csv_Out
begin

text \<open>
  The buffered reader of the \<^verbatim>\<open>csv\<close> crate, \<^verbatim>\<open>rust-csv/src/reader.rs\<close>, and the string records it fills,
  \<^verbatim>\<open>string_record.rs\<close>: it drives the core reader with the contents of an \<^verbatim>\<open>io::BufReader\<close>, grows the record when the core
  reader runs out of room, and keeps the headers, the position and the end of the data. The inner \<^verbatim>\<open>io::Read\<close> and
  \<^verbatim>\<open>io::Seek\<close> are parameters. As for the writer, \<^const>\<open>None\<close> is a call that never returns and \<open>Some None\<close> a panic.
\<close>

section \<open>The buffered source\<close>

type_synonym i64 = "64 word"

datatype SeekFrom = SeekStart u64 | SeekEnd i64 | SeekCurrent i64

type_synonym ('r, 'e) io_read = "'r \<Rightarrow> nat \<Rightarrow> 'r \<times> ('e + u8 list)"
type_synonym ('r, 'e) io_seek = "'r \<Rightarrow> SeekFrom \<Rightarrow> 'r \<times> ('e + u64)"

text \<open>The \<^verbatim>\<open>BufReader\<close> of the standard library: the bytes read and not yet consumed, and the capacity.\<close>

record 'r BufReader =
  bu_inner :: 'r
  bu_unread :: "u8 list"
  bu_capacity :: nat

definition fill_buf :: "('r, 'e) io_read \<Rightarrow> 'r BufReader \<Rightarrow> ('r BufReader \<times> ('e + u8 list)) may_panic" where
  "fill_buf rd b =
     (if bu_unread b \<noteq> [] then Some (b, Inr (bu_unread b))
      else case rd (bu_inner b) (bu_capacity b) of
        (inner, Inl e) \<Rightarrow> Some (b\<lparr>bu_inner := inner\<rparr>, Inl e)
      | (inner, Inr bs) \<Rightarrow> do {
          _ \<leftarrow> rust_assert (length bs \<le> bu_capacity b);
          Some (b\<lparr>bu_inner := inner, bu_unread := bs\<rparr>, Inr bs) })"

definition consume :: "'r BufReader \<Rightarrow> nat \<Rightarrow> 'r BufReader" where
  "consume b n = b\<lparr>bu_unread := drop n (bu_unread b)\<rparr>"

text \<open>\<^verbatim>\<open>i64::checked_sub\<close>. A relative seek accounts for the unread bytes, in two steps when the difference overflows.\<close>

definition checked_sub_i64 :: "i64 \<Rightarrow> i64 \<Rightarrow> i64 option" where
  "checked_sub_i64 a b = (if sint (a - b) = sint a - sint b then Some (a - b) else None)"

definition bu_seek :: "('r, 'e) io_seek \<Rightarrow> 'r BufReader \<Rightarrow> SeekFrom \<Rightarrow> 'r BufReader \<times> ('e + u64)" where
  "bu_seek sk b pos =
     (let finish = (\<lambda>b (inner, r). case r of
            Inl e \<Rightarrow> (b\<lparr>bu_inner := inner\<rparr>, Inl e)
          | Inr p \<Rightarrow> (b\<lparr>bu_inner := inner, bu_unread := []\<rparr>, Inr p)) in
      case pos of
        SeekCurrent n \<Rightarrow>
          (let remainder = word_of_nat (length (bu_unread b)) in
           case checked_sub_i64 n remainder of
             Some offset \<Rightarrow> finish b (sk (bu_inner b) (SeekCurrent offset))
           | None \<Rightarrow>
               (case sk (bu_inner b) (SeekCurrent (- remainder)) of
                  (inner, Inl e) \<Rightarrow> (b\<lparr>bu_inner := inner\<rparr>, Inl e)
                | (inner, Inr _) \<Rightarrow> finish (b\<lparr>bu_unread := []\<rparr>) (sk inner (SeekCurrent n))))
      | _ \<Rightarrow> finish b (sk (bu_inner b) pos))"

section \<open>Data\<close>

datatype Trim = TrimNone | TrimHeaders | TrimFields | TrimAll | TrimNonexhaustive

definition should_trim_fields :: "Trim \<Rightarrow> bool" where
  "should_trim_fields t \<longleftrightarrow> t = TrimFields \<or> t = TrimAll"

definition should_trim_headers :: "Trim \<Rightarrow> bool" where
  "should_trim_headers t \<longleftrightarrow> t = TrimHeaders \<or> t = TrimAll"

datatype ReaderEofState = NotEof | Eof | IOError

text \<open>A \<^verbatim>\<open>StringRecord\<close> is a byte record whose fields are valid UTF-8.\<close>

type_synonym StringRecord = ByteRecord

record Headers =
  hd_byte_record :: ByteRecord
  hd_string_record :: "Utf8Error + StringRecord"

record ReaderState =
  rs_headers :: "Headers option"
  rs_has_headers :: bool
  rs_flexible :: bool
  rs_trim :: Trim
  rs_first_field_count :: "u64 option"
  rs_cur_pos :: Position
  rs_first :: bool
  rs_seeked :: bool
  rs_eof :: ReaderEofState

record 'r CsvReader =
  cr_core :: Reader
  cr_rdr :: "'r BufReader"
  cr_state :: ReaderState

record ReaderBuilder =
  rb_capacity :: nat
  rb_flexible :: bool
  rb_has_headers :: bool
  rb_trim :: Trim
  rb_builder :: Reader

definition reader_builder_default :: ReaderBuilder where
  "reader_builder_default =
     \<lparr>rb_capacity = 8 * 2 ^ 10, rb_flexible = False, rb_has_headers = True, rb_trim = TrimNone, rb_builder = reader_default\<rparr>"

text \<open>The setters of the builder. The hidden variant of the terminator panics when it is converted for the core.\<close>

definition terminator_to_core :: "Terminator \<Rightarrow> Terminator may_panic" where
  "terminator_to_core t = (case t of Terminator.CRLF \<Rightarrow> Some Terminator.CRLF | Any b \<Rightarrow> Some (Any b) | Nonexhaustive \<Rightarrow> None)"

definition rb_set_delimiter :: "ReaderBuilder \<Rightarrow> u8 \<Rightarrow> ReaderBuilder" where
  "rb_set_delimiter b c = b\<lparr>rb_builder := builder_delimiter (rb_builder b) c\<rparr>"

definition rb_set_has_headers :: "ReaderBuilder \<Rightarrow> bool \<Rightarrow> ReaderBuilder" where
  "rb_set_has_headers b yes = b\<lparr>rb_has_headers := yes\<rparr>"

definition rb_set_flexible :: "ReaderBuilder \<Rightarrow> bool \<Rightarrow> ReaderBuilder" where
  "rb_set_flexible b yes = b\<lparr>rb_flexible := yes\<rparr>"

definition rb_set_trim :: "ReaderBuilder \<Rightarrow> Trim \<Rightarrow> ReaderBuilder" where
  "rb_set_trim b t = b\<lparr>rb_trim := t\<rparr>"

definition rb_set_terminator :: "ReaderBuilder \<Rightarrow> Terminator \<Rightarrow> ReaderBuilder may_panic" where
  "rb_set_terminator b t = do { t \<leftarrow> terminator_to_core t; Some (b\<lparr>rb_builder := builder_terminator (rb_builder b) t\<rparr>) }"

definition rb_set_quote :: "ReaderBuilder \<Rightarrow> u8 \<Rightarrow> ReaderBuilder" where
  "rb_set_quote b c = b\<lparr>rb_builder := builder_quote (rb_builder b) c\<rparr>"

definition rb_set_escape :: "ReaderBuilder \<Rightarrow> u8 option \<Rightarrow> ReaderBuilder" where
  "rb_set_escape b e = b\<lparr>rb_builder := builder_escape (rb_builder b) e\<rparr>"

definition rb_set_double_quote :: "ReaderBuilder \<Rightarrow> bool \<Rightarrow> ReaderBuilder" where
  "rb_set_double_quote b yes = b\<lparr>rb_builder := builder_double_quote (rb_builder b) yes\<rparr>"

definition rb_set_quoting :: "ReaderBuilder \<Rightarrow> bool \<Rightarrow> ReaderBuilder" where
  "rb_set_quoting b yes = b\<lparr>rb_builder := builder_quoting (rb_builder b) yes\<rparr>"

definition rb_set_comment :: "ReaderBuilder \<Rightarrow> u8 option \<Rightarrow> ReaderBuilder" where
  "rb_set_comment b c = b\<lparr>rb_builder := builder_comment (rb_builder b) c\<rparr>"

definition rb_set_ascii :: "ReaderBuilder \<Rightarrow> ReaderBuilder" where
  "rb_set_ascii b = b\<lparr>rb_builder := builder_ascii (rb_builder b)\<rparr>"

definition rb_set_buffer_capacity :: "ReaderBuilder \<Rightarrow> nat \<Rightarrow> ReaderBuilder" where
  "rb_set_buffer_capacity b n = b\<lparr>rb_capacity := n\<rparr>"

definition rb_set_nfa :: "ReaderBuilder \<Rightarrow> bool \<Rightarrow> ReaderBuilder" where
  "rb_set_nfa b yes = b\<lparr>rb_builder := builder_nfa (rb_builder b) yes\<rparr>"

definition csv_reader_new :: "ReaderBuilder \<Rightarrow> 'r \<Rightarrow> 'r CsvReader may_panic" where
  "csv_reader_new b rdr = do {
     core \<leftarrow> build (rb_builder b);
     Some \<lparr>cr_core = core, cr_rdr = \<lparr>bu_inner = rdr, bu_unread = [], bu_capacity = rb_capacity b\<rparr>,
       cr_state = \<lparr>rs_headers = None, rs_has_headers = rb_has_headers b, rs_flexible = rb_flexible b, rs_trim = rb_trim b,
         rs_first_field_count = None, rs_cur_pos = position_new, rs_first = False, rs_seeked = False, rs_eof = NotEof\<rparr>\<rparr>
   }"

type_synonym ('r, 'e) reading = "('r CsvReader \<times> ByteRecord \<times> ('e ErrorKind + bool)) may_panic option"

section \<open>Reading a record\<close>

definition add_record :: "ReaderState \<Rightarrow> ByteRecord \<Rightarrow> (ReaderState \<times> ('e ErrorKind + unit)) may_panic" where
  "add_record st rec = do {
     let i = pos_record (rs_cur_pos st);
     next \<leftarrow> (if i = - 1 then None else Some (i + 1));
     let st = st\<lparr>rs_cur_pos := position_set_record (rs_cur_pos st) next\<rparr>;
     let len = (word_of_nat (br_len rec) :: u64);
     Some (if \<not> rs_flexible st then
         (case rs_first_field_count st of
            None \<Rightarrow> (st\<lparr>rs_first_field_count := Some len\<rparr>, Inr ())
          | Some expected \<Rightarrow> if len \<noteq> expected then (st, Inl (UnequalLengths (br_pos rec) expected len)) else (st, Inr ()))
       else (st, Inr ()))
   }"

text \<open>One turn of the loop of \<^verbatim>\<open>read_byte_record_impl\<close>: \<open>Inl\<close> returns, \<open>Inr\<close> goes on. The core reader sees the free parts
  of the buffers of the record.\<close>

type_synonym 'r read_vars = "'r CsvReader \<times> ByteRecord \<times> nat \<times> nat"

definition put_parts :: "ByteRecord \<Rightarrow> nat \<Rightarrow> u8 list \<Rightarrow> nat \<Rightarrow> nat list \<Rightarrow> ByteRecord" where
  "put_parts rec outlen out endlen ends =
     rec\<lparr>br_fields := take outlen (br_fields rec) @ out,
         br_bounds := (br_bounds rec)\<lparr>b_ends := take endlen (b_ends (br_bounds rec)) @ ends\<rparr>\<rparr>"

definition read_step :: "'r CsvReader \<Rightarrow> ByteRecord \<Rightarrow> nat \<Rightarrow> nat \<Rightarrow> u8 list
    \<Rightarrow> (ReadRecordResult \<times> 'r CsvReader \<times> ByteRecord \<times> nat \<times> nat) may_panic" where
  "read_step R rec outlen endlen input = do {
     out \<leftarrow> slice (br_fields rec) outlen (length (br_fields rec));
     ends \<leftarrow> slice (b_ends (br_bounds rec)) endlen (length (b_ends (br_bounds rec)));
     (core, out, ends, res, nin, nout, nend) \<leftarrow> read_record (cr_core R) input out ends;
     let byte = pos_byte (rs_cur_pos (cr_state R));
     pos \<leftarrow> position_set_line (position_set_byte (rs_cur_pos (cr_state R)) (byte + word_of_nat nin)) (r_line core);
     Some (res, R\<lparr>cr_core := core, cr_rdr := consume (cr_rdr R) nin, cr_state := (cr_state R)\<lparr>rs_cur_pos := pos\<rparr>\<rparr>,
       put_parts rec outlen out endlen ends, outlen + nout, endlen + nend)
   }"

definition read_turn :: "('r, 'e) io_read \<Rightarrow> 'r read_vars \<Rightarrow> (('r CsvReader \<times> ByteRecord \<times> ('e ErrorKind + bool)) + 'r read_vars) may_panic" where
  "read_turn rd = (\<lambda>(R, rec, outlen, endlen). do {
     (b, input_res) \<leftarrow> fill_buf rd (cr_rdr R);
     let R = R\<lparr>cr_rdr := b\<rparr>;
     (case input_res of
        Inl e \<Rightarrow> Some (Inl (R\<lparr>cr_state := (cr_state R)\<lparr>rs_eof := IOError\<rparr>\<rparr>, rec, Inl (Io e)))
      | Inr input \<Rightarrow> do {
          (res, R, rec, outlen, endlen) \<leftarrow> read_step R rec outlen endlen input;
          (case res of
             ReadRecordResult.InputEmpty \<Rightarrow> Some (Inr (R, rec, outlen, endlen))
           | ReadRecordResult.OutputFull \<Rightarrow> do { rec \<leftarrow> br_expand_fields rec; Some (Inr (R, rec, outlen, endlen)) }
           | OutputEndsFull \<Rightarrow> do { rec \<leftarrow> br_expand_ends rec; Some (Inr (R, rec, outlen, endlen)) }
           | Record \<Rightarrow> do {
               let rec = br_set_len rec endlen;
               (st, r) \<leftarrow> add_record (cr_state R) rec;
               Some (Inl (R\<lparr>cr_state := st\<rparr>, rec, case r of Inl e \<Rightarrow> Inl e | Inr _ \<Rightarrow> Inr True)) }
           | ReadRecordResult.End \<Rightarrow> Some (Inl (R\<lparr>cr_state := (cr_state R)\<lparr>rs_eof := Eof\<rparr>\<rparr>, rec, Inr False))) })
   })"

partial_function (option) read_loop :: "('r, 'e) io_read \<Rightarrow> 'r read_vars \<Rightarrow> ('r, 'e) reading" where
  "read_loop rd v =
     (case read_turn rd v of
        None \<Rightarrow> Some None
      | Some (Inl result) \<Rightarrow> Some (Some result)
      | Some (Inr v) \<Rightarrow> read_loop rd v)"

declare read_loop.simps [code]

definition read_byte_record_impl :: "('r, 'e) io_read \<Rightarrow> 'r CsvReader \<Rightarrow> ByteRecord \<Rightarrow> ('r, 'e) reading" where
  "read_byte_record_impl rd R rec =
     (let rec = br_set_position (br_clear rec) (Some (rs_cur_pos (cr_state R))) in
      if rs_eof (cr_state R) \<noteq> NotEof then Some (Some (R, rec, Inr False))
      else read_loop rd (R, rec, 0, 0))"

section \<open>String records\<close>

text \<open>\<^verbatim>\<open>str::trim\<close> removes the characters of Unicode with the property \<^verbatim>\<open>White_Space\<close>; these are their encodings.\<close>

definition white_space :: "u8 list list" where
  "white_space = [[9], [10], [11], [12], [13], [32], [0xC2, 0x85], [0xC2, 0xA0], [0xE1, 0x9A, 0x80],
     [0xE2, 0x80, 0x80], [0xE2, 0x80, 0x81], [0xE2, 0x80, 0x82], [0xE2, 0x80, 0x83], [0xE2, 0x80, 0x84], [0xE2, 0x80, 0x85],
     [0xE2, 0x80, 0x86], [0xE2, 0x80, 0x87], [0xE2, 0x80, 0x88], [0xE2, 0x80, 0x89], [0xE2, 0x80, 0x8A], [0xE2, 0x80, 0xA8],
     [0xE2, 0x80, 0xA9], [0xE2, 0x80, 0xAF], [0xE2, 0x81, 0x9F], [0xE3, 0x80, 0x80]]"

lemma find_white_space:
  assumes "find P white_space = Some w"
  shows "w \<noteq> [] \<and> w \<in> set white_space \<and> P w"
proof -
  have "w \<in> set white_space" "P w" using assms by (auto simp: find_Some_iff)
  moreover have "[] \<notin> set white_space" by (simp add: white_space_def)
  ultimately show ?thesis by metis
qed

function str_trim_start :: "u8 list \<Rightarrow> u8 list" where
  "str_trim_start bs =
     (case find (\<lambda>w. take (length w) bs = w) white_space of
        None \<Rightarrow> bs
      | Some w \<Rightarrow> str_trim_start (drop (length w) bs))"
  by pat_completeness auto
termination
proof (relation "measure length")
  fix bs w assume "find (\<lambda>w. take (length w) bs = w) white_space = Some w"
  then have "w \<noteq> []" "take (length w) bs = w" using find_white_space by blast+
  then show "(drop (length w) bs, bs) \<in> measure length" by (cases bs) auto
qed simp

function str_trim_end :: "u8 list \<Rightarrow> u8 list" where
  "str_trim_end bs =
     (case find (\<lambda>w. length w \<le> length bs \<and> drop (length bs - length w) bs = w) white_space of
        None \<Rightarrow> bs
      | Some w \<Rightarrow> str_trim_end (take (length bs - length w) bs))"
  by pat_completeness auto
termination
proof (relation "measure length")
  fix bs w assume "find (\<lambda>w. length w \<le> length bs \<and> drop (length bs - length w) bs = w) white_space = Some w"
  then have "w \<noteq> []" "length w \<le> length bs" using find_white_space by blast+
  then show "(take (length bs - length w) bs, bs) \<in> measure length" by (cases w) auto
qed simp

declare str_trim_start.simps [simp del] str_trim_end.simps [simp del]

definition str_trim :: "u8 list \<Rightarrow> u8 list" where
  "str_trim bs = str_trim_start (str_trim_end bs)"

definition sr_trim :: "StringRecord \<Rightarrow> StringRecord may_panic" where
  "sr_trim r =
     (if br_len r = 0 then Some r
      else do {
        s \<leftarrow> br_as_slice r;
        let trimmed = br_set_position (br_with_capacity (length s) (br_len r)) (br_pos r);
        fs \<leftarrow> br_iter r;
        br_extend trimmed (map str_trim fs)
      })"

definition from_byte_record :: "ByteRecord \<Rightarrow> (Utf8Error + StringRecord) may_panic" where
  "from_byte_record r = do { v \<leftarrow> br_validate r; Some (case v of Inr _ \<Rightarrow> Inr r | Inl err \<Rightarrow> Inl err) }"

section \<open>Headers\<close>

text \<open>The argument is a string record (\<open>Inr\<close>) or a byte record (\<open>Inl\<close>).\<close>

definition set_headers_impl :: "ReaderState \<Rightarrow> ByteRecord + StringRecord \<Rightarrow> ReaderState may_panic" where
  "set_headers_impl st headers = do {
     (str_headers, byte_headers) \<leftarrow>
       (case headers of
          Inr str \<Rightarrow> Some (Inr str, str)
        | Inl bytes \<Rightarrow> do { s \<leftarrow> from_byte_record bytes; Some (s, bytes) });
     (str_headers, byte_headers) \<leftarrow>
       (if should_trim_headers (rs_trim st) then do {
          str_headers \<leftarrow> (case str_headers of Inr s \<Rightarrow> map_option Inr (sr_trim s) | Inl err \<Rightarrow> Some (Inl err));
          byte_headers \<leftarrow> br_trim byte_headers;
          Some (str_headers, byte_headers) }
        else Some (str_headers, byte_headers));
     Some (st\<lparr>rs_headers := Some \<lparr>hd_byte_record = byte_headers, hd_string_record = str_headers\<rparr>\<rparr>)
   }"

definition set_headers :: "'r CsvReader \<Rightarrow> StringRecord \<Rightarrow> 'r CsvReader may_panic" where
  "set_headers R headers = do { st \<leftarrow> set_headers_impl (cr_state R) (Inr headers); Some (R\<lparr>cr_state := st\<rparr>) }"

definition set_byte_headers :: "'r CsvReader \<Rightarrow> ByteRecord \<Rightarrow> 'r CsvReader may_panic" where
  "set_byte_headers R headers = do { st \<leftarrow> set_headers_impl (cr_state R) (Inl headers); Some (R\<lparr>cr_state := st\<rparr>) }"

text \<open>\<^verbatim>\<open>if self.state.headers.is_none()\<close> of \<^verbatim>\<open>byte_headers\<close>, \<^verbatim>\<open>headers\<close>.\<close>

definition force_headers :: "('r, 'e) io_read \<Rightarrow> 'r CsvReader \<Rightarrow> ('r CsvReader \<times> ('e ErrorKind + Headers)) may_panic option" where
  "force_headers rd R =
     (case rs_headers (cr_state R) of
        Some h \<Rightarrow> Some (Some (R, Inr h))
      | None \<Rightarrow>
          (case read_byte_record_impl rd R br_new of
             None \<Rightarrow> None
           | Some None \<Rightarrow> Some None
           | Some (Some (R, rec, Inl e)) \<Rightarrow> Some (Some (R, Inl e))
           | Some (Some (R, rec, Inr _)) \<Rightarrow> Some (do {
               R \<leftarrow> set_byte_headers R rec;
               h \<leftarrow> rs_headers (cr_state R);
               Some (R, Inr h) })))"

definition byte_headers :: "('r, 'e) io_read \<Rightarrow> 'r CsvReader \<Rightarrow> ('r CsvReader \<times> ('e ErrorKind + ByteRecord)) may_panic option" where
  "byte_headers rd R = map_option (map_option (\<lambda>(R, h). (R, map_sum id hd_byte_record h))) (force_headers rd R)"

definition headers :: "('r, 'e) io_read \<Rightarrow> 'r CsvReader \<Rightarrow> ('r CsvReader \<times> ('e ErrorKind + StringRecord)) may_panic option" where
  "headers rd R = map_option (map_option (\<lambda>(R, h).
     (R, case h of
           Inl e \<Rightarrow> Inl e
         | Inr h \<Rightarrow> (case hd_string_record h of Inr s \<Rightarrow> Inr s | Inl err \<Rightarrow> Inl (EK_Utf8 (br_pos (hd_byte_record h)) err))))) (force_headers rd R)"

section \<open>Reading with headers\<close>

definition trim_fields :: "'r CsvReader \<Rightarrow> ByteRecord \<Rightarrow> ByteRecord may_panic" where
  "trim_fields R rec = (if should_trim_fields (rs_trim (cr_state R)) then br_trim rec else Some rec)"

definition read_byte_record :: "('r, 'e) io_read \<Rightarrow> 'r CsvReader \<Rightarrow> ByteRecord \<Rightarrow> ('r, 'e) reading" where
  "read_byte_record rd R rec =
     (let st = cr_state R in
      case (if \<not> rs_seeked st \<and> \<not> rs_has_headers st \<and> \<not> rs_first st then rs_headers st else None) of
        Some h \<Rightarrow> Some (do {
          let R = R\<lparr>cr_state := st\<lparr>rs_first := True\<rparr>\<rparr>;
          rec \<leftarrow> trim_fields R (hd_byte_record h);
          Some (R, rec, Inr (\<not> br_is_empty rec)) })
      | None \<Rightarrow>
          (case read_byte_record_impl rd R rec of
             None \<Rightarrow> None
           | Some None \<Rightarrow> Some None
           | Some (Some (R, rec, Inl e)) \<Rightarrow> Some (Some (R, rec, Inl e))
           | Some (Some (R, rec, Inr ok)) \<Rightarrow>
               (let R = R\<lparr>cr_state := (cr_state R)\<lparr>rs_first := True\<rparr>\<rparr> in
                if \<not> rs_seeked (cr_state R) \<and> rs_headers (cr_state R) = None then
                  (case set_byte_headers R rec of
                     None \<Rightarrow> Some None
                   | Some R \<Rightarrow>
                       if rs_has_headers (cr_state R) then
                         (case read_byte_record_impl rd R rec of
                            None \<Rightarrow> None
                          | Some None \<Rightarrow> Some None
                          | Some (Some (R, rec, result)) \<Rightarrow> Some (do { rec \<leftarrow> trim_fields R rec; Some (R, rec, result) }))
                       else Some (Some (R, rec, Inr ok)))
                else Some (do { rec \<leftarrow> trim_fields R rec; Some (R, rec, Inr ok) }))))"

definition sr_read :: "('r, 'e) io_read \<Rightarrow> 'r CsvReader \<Rightarrow> StringRecord \<Rightarrow> ('r, 'e) reading" where
  "sr_read rd R rec =
     (let pos = rs_cur_pos (cr_state R) in
      case read_byte_record rd R rec of
        None \<Rightarrow> None
      | Some None \<Rightarrow> Some None
      | Some (Some (R, rec, read_res)) \<Rightarrow> Some (do {
          v \<leftarrow> br_validate rec;
          let (rec, utf8_res) = (case v of Inr _ \<Rightarrow> (rec, Inr ()) | Inl err \<Rightarrow> (br_clear rec, Inl err));
          Some (R, rec, case read_res of
              Inl err \<Rightarrow> Inl err
            | Inr eof \<Rightarrow> (case utf8_res of Inl err \<Rightarrow> Inl (EK_Utf8 (Some pos) err) | Inr _ \<Rightarrow> Inr eof)) }))"

definition reader_read_record :: "('r, 'e) io_read \<Rightarrow> 'r CsvReader \<Rightarrow> StringRecord \<Rightarrow> ('r, 'e) reading" where
  "reader_read_record rd R rec =
     (case sr_read rd R rec of
        None \<Rightarrow> None
      | Some None \<Rightarrow> Some None
      | Some (Some (R, rec, result)) \<Rightarrow> Some (do {
          rec \<leftarrow> (if should_trim_fields (rs_trim (cr_state R)) then sr_trim rec else Some rec);
          Some (R, rec, result) }))"

text \<open>\<^verbatim>\<open>next\<close> of the iterators; \<open>rec\<close> is the record the iterator reuses.\<close>

definition records_next :: "('r CsvReader \<Rightarrow> ByteRecord \<Rightarrow> ('r, 'e) reading) \<Rightarrow> 'r CsvReader \<times> ByteRecord
    \<Rightarrow> (('r CsvReader \<times> ByteRecord) \<times> ('e ErrorKind + ByteRecord) option) may_panic option" where
  "records_next read = (\<lambda>(R, rec).
     (case read R rec of
        None \<Rightarrow> None
      | Some None \<Rightarrow> Some None
      | Some (Some (R, rec, Inl err)) \<Rightarrow> Some (Some ((R, rec), Some (Inl err)))
      | Some (Some (R, rec, Inr ok)) \<Rightarrow>
          Some (if ok then do { r \<leftarrow> br_clone_truncated rec; Some ((R, rec), Some (Inr r)) } else Some ((R, rec), None))))"

definition byte_records_next :: "('r, 'e) io_read \<Rightarrow> 'r CsvReader \<times> ByteRecord
    \<Rightarrow> (('r CsvReader \<times> ByteRecord) \<times> ('e ErrorKind + ByteRecord) option) may_panic option" where
  "byte_records_next rd = records_next (read_byte_record rd)"

definition string_records_next :: "('r, 'e) io_read \<Rightarrow> 'r CsvReader \<times> StringRecord
    \<Rightarrow> (('r CsvReader \<times> StringRecord) \<times> ('e ErrorKind + StringRecord) option) may_panic option" where
  "string_records_next rd = records_next (reader_read_record rd)"

section \<open>Position and seeking\<close>

definition is_done :: "'r CsvReader \<Rightarrow> bool" where
  "is_done R \<longleftrightarrow> rs_eof (cr_state R) \<noteq> NotEof"

definition seek_to :: "('r, 'e) io_seek \<Rightarrow> 'r CsvReader \<Rightarrow> SeekFrom \<Rightarrow> Position \<Rightarrow> ('r CsvReader \<times> ('e ErrorKind + unit)) may_panic" where
  "seek_to sk R from pos =
     (case bu_seek sk (cr_rdr R) from of
        (b, Inl e) \<Rightarrow> Some (R\<lparr>cr_rdr := b\<rparr>, Inl (Io e))
      | (b, Inr _) \<Rightarrow> do {
          core \<leftarrow> reset (cr_core R);
          Some (R\<lparr>cr_core := set_line core (pos_line pos), cr_rdr := b,
            cr_state := (cr_state R)\<lparr>rs_cur_pos := pos, rs_eof := NotEof\<rparr>\<rparr>, Inr ()) })"

definition seek :: "('r, 'e) io_read \<Rightarrow> ('r, 'e) io_seek \<Rightarrow> 'r CsvReader \<Rightarrow> Position \<Rightarrow> ('r CsvReader \<times> ('e ErrorKind + unit)) may_panic option" where
  "seek rd sk R pos =
     (case byte_headers rd R of
        None \<Rightarrow> None
      | Some None \<Rightarrow> Some None
      | Some (Some (R, Inl e)) \<Rightarrow> Some (Some (R, Inl e))
      | Some (Some (R, Inr _)) \<Rightarrow>
          (let R = R\<lparr>cr_state := (cr_state R)\<lparr>rs_seeked := True\<rparr>\<rparr> in
           Some (if pos_byte pos = pos_byte (rs_cur_pos (cr_state R)) then Some (R, Inr ())
                 else seek_to sk R (SeekStart (pos_byte pos)) pos)))"

definition seek_raw :: "('r, 'e) io_read \<Rightarrow> ('r, 'e) io_seek \<Rightarrow> 'r CsvReader \<Rightarrow> SeekFrom \<Rightarrow> Position
    \<Rightarrow> ('r CsvReader \<times> ('e ErrorKind + unit)) may_panic option" where
  "seek_raw rd sk R from pos =
     (case byte_headers rd R of
        None \<Rightarrow> None
      | Some None \<Rightarrow> Some None
      | Some (Some (R, Inl e)) \<Rightarrow> Some (Some (R, Inl e))
      | Some (Some (R, Inr _)) \<Rightarrow> Some (seek_to sk (R\<lparr>cr_state := (cr_state R)\<lparr>rs_seeked := True\<rparr>\<rparr>) from pos))"

end
