(* ===== verification/Csv_Writer_Correct.thy ===== *)
theory Csv_Writer_Correct
  imports Csv_Writer
begin

text \<open>
  Correctness of the CSV writer: quoting escapes exactly the quote bytes and never overruns its
  buffer, the unrolled scan for special bytes is the plain one, and a record written field by field
  is the concatenation of its encoded fields.
\<close>

section \<open>The contract of memchr\<close>

locale memchr_contract =
  fixes memchr :: memchr
  assumes memchr_None: "memchr b xs = None \<longleftrightarrow> b \<notin> set xs"
    and memchr_Some: "memchr b xs = Some i \<Longrightarrow> i < length xs \<and> xs ! i = b \<and> b \<notin> set (take i xs)"

fun memchr_ref :: memchr where
  "memchr_ref b [] = None"
| "memchr_ref b (x # xs) = (if x = b then Some 0 else map_option Suc (memchr_ref b xs))"

lemma memchr_ref_None: "memchr_ref b xs = None \<longleftrightarrow> b \<notin> set xs"
  by (induction b xs rule: memchr_ref.induct) auto

lemma memchr_ref_Some: "memchr_ref b xs = Some i \<Longrightarrow> i < length xs \<and> xs ! i = b \<and> b \<notin> set (take i xs)"
  by (induction b xs arbitrary: i rule: memchr_ref.induct) (auto split: if_splits)

interpretation mref: memchr_contract memchr_ref
  by unfold_locales (auto simp: memchr_ref_None dest: memchr_ref_Some)

section \<open>Quoting\<close>

fun escaped :: "u8 \<Rightarrow> u8 \<Rightarrow> bool \<Rightarrow> u8 list \<Rightarrow> u8 list" where
  "escaped q e dq [] = []"
| "escaped q e dq (b # bs) = (if b = q then [if dq then q else e, q] else [b]) @ escaped q e dq bs"

lemma escaped_append: "escaped q e dq (as @ bs) = escaped q e dq as @ escaped q e dq bs"
  by (induction as) auto

lemma escaped_plain: "q \<notin> set bs \<Longrightarrow> escaped q e dq bs = bs"
  by (induction bs) auto

lemma length_escaped: "length (escaped q e dq bs) \<le> 2 * length bs"
  by (induction bs) auto

text \<open>What a call of \<^verbatim>\<open>quote\<close> returns after consuming the first \<open>k\<close> bytes of its input.\<close>

definition quote_outcome :: "u8 \<Rightarrow> u8 \<Rightarrow> bool \<Rightarrow> u8 list \<Rightarrow> nat \<Rightarrow> nat \<Rightarrow> nat \<Rightarrow> bool" where
  "quote_outcome q e dq input cap pos k \<longleftrightarrow>
     k \<le> length input \<and> pos + length (escaped q e dq (take k input)) \<le> cap
     \<and> (k < length input \<longrightarrow> cap < pos + length (escaped q e dq (take (Suc k) input)))"

lemma quote_outcome_plain:
  assumes "q \<notin> set p" and "cap - pos < length p" and "pos \<le> cap"
  shows "quote_outcome q e dq (p @ rest) cap pos (cap - pos)"
proof -
  have "q \<notin> set (take (Suc (cap - pos)) p)" "q \<notin> set (take (cap - pos) p)"
    using assms(1) by (auto dest: in_set_takeD)
  then show ?thesis using assms(2,3) by (simp add: quote_outcome_def escaped_plain)
qed

lemma quote_outcome_shift:
  assumes "q \<notin> set p" and "quote_outcome q e dq rest cap (pos + length p + 2) k"
  shows "quote_outcome q e dq (p @ q # rest) cap pos (length p + 1 + k)"
  using assms by (auto simp: quote_outcome_def escaped_append escaped_plain)

context memchr_contract
begin

lemma memchr_split:
  assumes "memchr q input = Some i"
  obtains p rest where "input = p @ q # rest" "length p = i" "q \<notin> set p"
  using memchr_Some [OF assms] id_take_nth_drop [of i input] by (metis length_take min.absorb4)

lemma quote_loop_spec:
  assumes "base + nout \<le> length output"
  shows "\<exists>k. quote_outcome q e dq input (length output) (base + nout) k
    \<and> quote_loop memchr q e dq base input output nin nout
      = Some (if k = length input then InputEmpty else OutputFull, nin + k,
          nout + length (escaped q e dq (take k input)),
          overwrite output (base + nout) (escaped q e dq (take k input)))"
  using assms
proof (induction "length input" arbitrary: input "output" nin nout rule: less_induct)
  case less
  let ?room = "length output - (base + nout)"
  show ?case
  proof (cases "memchr q input")
    case None
    then have plain: "q \<notin> set input" "\<And>k. q \<notin> set (take k input)"
      using memchr_None by (auto dest: in_set_takeD)
    show ?thesis
    proof (cases "?room < length input")
      case True
      then show ?thesis
        using None plain less.prems quote_outcome_plain [OF plain(1) True less.prems, of e dq "[]"]
        by (intro exI [of _ ?room])
          (subst quote_loop.simps, auto simp: write_optimistic_def Let_def escaped_plain)
    next
      case False
      then show ?thesis
        using None plain less.prems
        by (intro exI [of _ "length input"])
          (subst quote_loop.simps, auto simp: write_optimistic_def quote_outcome_def escaped_plain)
    qed
  next
    case (Some i)
    then obtain p rest where split: "input = p @ q # rest" "length p = i" "q \<notin> set p"
      by (rule memchr_split)
    have plain: "q \<notin> set (take k p)" for k using split(3) by (auto dest: in_set_takeD)
    show ?thesis
    proof (cases "?room < length p")
      case True
      then show ?thesis
        using Some split plain less.prems quote_outcome_plain [OF split(3) True less.prems, of e dq "q # rest"]
        by (intro exI [of _ ?room])
          (subst quote_loop.simps, auto simp: write_optimistic_def Let_def escaped_plain)
    next
      case fits: False
      show ?thesis
      proof (cases "?room < length p + 2")
        case True
        then show ?thesis
          using Some split fits less.prems
          by (intro exI [of _ i])
            (subst quote_loop.simps, auto simp: write_optimistic_def write_pessimistic_def Let_def
              quote_outcome_def escaped_plain escaped_append)
      next
        case False
        let ?out1 = "overwrite output (base + nout) p"
        let ?esc = "if dq then [q, q] else [e, q]"
        let ?out2 = "overwrite ?out1 (base + (nout + length p)) ?esc"
        have len: "length ?out1 = length output" "length ?out2 = length output"
          using False less.prems by simp_all
        have shorter: "length rest < length input" using split by simp
        have room2: "base + (nout + length p + 2) \<le> length ?out2" using False less.prems len by simp
        obtain k where k: "quote_outcome q e dq rest (length ?out2) (base + (nout + length p + 2)) k"
            "quote_loop memchr q e dq base rest ?out2 (nin + length p + 1) (nout + length p + 2)
              = Some (if k = length rest then InputEmpty else OutputFull, nin + length p + 1 + k,
                  nout + length p + 2 + length (escaped q e dq (take k rest)),
                  overwrite ?out2 (base + (nout + length p + 2)) (escaped q e dq (take k rest)))"
          using less.hyps [OF shorter room2] by blast
        have loop: "quote_loop memchr q e dq base input output nin nout
            = quote_loop memchr q e dq base rest ?out2 (nin + length p + 1) (nout + length p + 2)"
          using Some split fits False less.prems len
          by (subst quote_loop.simps) (auto simp: write_optimistic_def write_pessimistic_def Let_def add.assoc)
        have out: "overwrite ?out2 (base + (nout + length p + 2)) ys = overwrite output (base + nout) (p @ ?esc @ ys)" for ys
          using False less.prems by (simp add: overwrite_def ac_simps)
        have "quote_outcome q e dq input (length output) (base + nout) (length p + 1 + k)"
          unfolding split(1) using k(1) unfolding len by (intro quote_outcome_shift [OF split(3)]) (simp add: add.assoc)
        then show ?thesis
          using loop k(2) out split by (intro exI [of _ "length p + 1 + k"])
            (auto simp: escaped_append escaped_plain add.assoc)
      qed
    qed
  qed
qed

lemma quote_spec:
  assumes "pos \<le> length output"
  shows "\<exists>k. quote_outcome q e dq input (length output) pos k
    \<and> quote memchr input output pos q e dq
      = Some (if k = length input then InputEmpty else OutputFull, k, length (escaped q e dq (take k input)),
          overwrite output pos (escaped q e dq (take k input)))"
  using quote_loop_spec [of pos 0 "output" q e dq input 0] assms by (simp add: quote_def)

end

section \<open>The writer as a byte producer\<close>

text \<open>
  \<open>body w st f\<close> is what the writer in state \<open>st\<close> still has to emit for the rest \<open>f\<close> of a field it has
  begun, \<open>field_rest\<close> the same before or after the opening quote.
\<close>

definition body :: "Writer \<Rightarrow> bool \<Rightarrow> u8 list \<Rightarrow> u8 list" where
  "body w quoting f = (if quoting then escaped (w_quote w) (w_escape w) (w_double_quote w) f else f)"

definition quotes :: "Writer \<Rightarrow> u8 list \<Rightarrow> bool" where
  "quotes w f \<longleftrightarrow> should_quote w f = Some True"

definition field_rest :: "Writer \<Rightarrow> u8 list \<Rightarrow> u8 list" where
  "field_rest w f =
     (if ws_in_field (w_state w) then body w (ws_quoting (w_state w)) f
      else if quotes w f then w_quote w # body w True f else body w False f)"

definition style_ok :: "Writer \<Rightarrow> bool" where
  "style_ok w \<longleftrightarrow> w_style w \<noteq> QuoteStyleNonexhaustive"

lemmas wstate_defs = set_in_field_def set_quoting_def set_record_bytes_def add_record_bytes_def

lemma should_quote_quotes: "style_ok w \<Longrightarrow> should_quote w f = Some (quotes w f)"
  by (auto simp: quotes_def style_ok_def should_quote_def split: QuoteStyle.splits)

lemma body_append: "body w y (as @ bs) = body w y as @ body w y bs"
  by (simp add: body_def escaped_append)

lemma body_Nil [simp]: "body w y [] = []"
  by (simp add: body_def)

lemma body_take_drop: "body w y f = body w y (take n f) @ body w y (drop n f)"
  by (metis append_take_drop_id body_append)

lemma state_upd_config [simp]:
  "body (w\<lparr>w_state := st\<rparr>) y f = body w y f" "quotes (w\<lparr>w_state := st\<rparr>) f = quotes w f"
  "style_ok (w\<lparr>w_state := st\<rparr>) = style_ok w"
proof -
  have nq: "needs_quotes_loop (w\<lparr>w_state := st\<rparr>) n f = needs_quotes_loop w n f" for n
    by (induction w n f rule: needs_quotes_loop.induct)
      (subst (1 2) needs_quotes_loop.simps, simp)
  have sp: "is_special_byte (w\<lparr>w_state := st\<rparr>) = is_special_byte w"
    by (simp add: is_special_byte_def fun_eq_iff)
  show "quotes (w\<lparr>w_state := st\<rparr>) f = quotes w f"
    by (auto simp: quotes_def should_quote_def needs_quotes_def nq sp split: QuoteStyle.splits)
qed (simp_all add: body_def style_ok_def)

context memchr_contract
begin

lemma field_body_step:
  assumes "nout \<le> length output"
  shows "\<exists>n res. let y = ws_quoting (w_state w); e = body w y (take n f) in
    field_body memchr w f output nout
      = Some (add_record_bytes w (length e), overwrite output nout e, res, n, nout + length e)
    \<and> n \<le> length f \<and> nout + length e \<le> length output \<and> (res = InputEmpty \<longleftrightarrow> n = length f)
    \<and> (nout + 2 \<le> length output \<longrightarrow> res = OutputFull \<longrightarrow> 0 < n)"
proof (cases "ws_quoting (w_state w)")
  case True
  let ?esc = "escaped (w_quote w) (w_escape w) (w_double_quote w)"
  obtain k where k: "quote_outcome (w_quote w) (w_escape w) (w_double_quote w) f (length output) nout k"
      "quote memchr f output nout (w_quote w) (w_escape w) (w_double_quote w)
        = Some (if k = length f then InputEmpty else OutputFull, k, length (?esc (take k f)),
            overwrite output nout (?esc (take k f)))"
    using quote_spec [OF assms] by blast
  have "0 < k" if "nout + 2 \<le> length output" "k < length f"
  proof (rule ccontr)
    assume "\<not> 0 < k"
    then have "length output < nout + length (?esc (take 1 f))" using k(1) that(2) by (simp add: quote_outcome_def)
    moreover have "length (?esc (take 1 f)) \<le> 2"
      using length_escaped [of "w_quote w" "w_escape w" "w_double_quote w" "take 1 f"] by (simp add: min_def split: if_splits)
    ultimately show False using that(1) by simp
  qed
  then show ?thesis
    using True k
    by (intro exI [of _ k] exI [of _ "if k = length f then InputEmpty else OutputFull"])
      (auto simp: Let_def field_body_def body_def quote_outcome_def)
next
  case False
  show ?thesis
  proof (cases "length f > length output - nout")
    case True
    then show ?thesis
      using False assms by (intro exI [of _ "length output - nout"] exI [of _ OutputFull])
        (auto simp: Let_def field_body_def body_def write_optimistic_def)
  next
    case fits: False
    then show ?thesis
      using False assms by (intro exI [of _ "length f"] exI [of _ InputEmpty])
        (auto simp: Let_def field_body_def body_def write_optimistic_def)
  qed
qed

lemma core_field_step:
  assumes "style_ok w"
  shows "\<exists>st n e res. field memchr w f output = Some (w\<lparr>w_state := st\<rparr>, overwrite output 0 e, res, n, length e)
    \<and> n \<le> length f \<and> length e \<le> length output
    \<and> field_rest w f = e @ field_rest (w\<lparr>w_state := st\<rparr>) (drop n f)
    \<and> ws_record_bytes st = ws_record_bytes (w_state w) + word_of_nat (length e)
    \<and> (ws_in_field (w_state w) \<longrightarrow> ws_in_field st \<and> ws_quoting st = ws_quoting (w_state w))
    \<and> (\<not> ws_in_field (w_state w) \<longrightarrow> ws_quoting st = quotes w f \<and> (\<not> ws_in_field st \<longrightarrow> n = 0 \<and> e = []))
    \<and> (res = InputEmpty \<longrightarrow> n = length f \<and> ws_in_field st)
    \<and> (res = OutputFull \<longrightarrow> 2 \<le> length output \<longrightarrow> 0 < n \<or> \<not> ws_in_field (w_state w) \<and> ws_in_field st)"
proof (cases "ws_in_field (w_state w) \<or> \<not> quotes w f")
  case True
  let ?w = "if ws_in_field (w_state w) then w else set_in_field (set_quoting w False) True"
  let ?y = "ws_quoting (w_state ?w)"
  obtain n res where b: "field_body memchr ?w f output 0
      = Some (add_record_bytes ?w (length (body ?w ?y (take n f))), overwrite output 0 (body ?w ?y (take n f)), res, n,
          length (body ?w ?y (take n f)))"
      "n \<le> length f" "length (body ?w ?y (take n f)) \<le> length output" "res = InputEmpty \<longleftrightarrow> n = length f"
      "2 \<le> length output \<longrightarrow> res = OutputFull \<longrightarrow> 0 < n"
    using field_body_step [of 0 "output" ?w f] unfolding Let_def by auto
  have run: "field memchr w f output = field_body memchr ?w f output 0"
    using True should_quote_quotes [OF assms] by (auto simp: field_def wstate_defs)
  have y: "body ?w ?y = body w ?y" by (auto simp: fun_eq_iff wstate_defs)
  have rest: "field_rest w f = body w ?y f" using True by (auto simp: field_rest_def wstate_defs)
  show ?thesis
    using b rest unfolding run y
    by (intro exI [of _ "(w_state ?w)\<lparr>ws_record_bytes := ws_record_bytes (w_state ?w) + word_of_nat (length (body w ?y (take n f)))\<rparr>"]
          exI [of _ n] exI [of _ "body w ?y (take n f)"] exI [of _ res])
      (use True in \<open>auto simp: wstate_defs field_rest_def body_append [symmetric]\<close>)
next
  case False
  note q = should_quote_quotes [OF assms, of f]
  show ?thesis
  proof (cases "output")
    case Nil
    then show ?thesis
      using False q
      by (intro exI [of _ "(w_state w)\<lparr>ws_quoting := True\<rparr>"] exI [of _ 0] exI [of _ "[]"] exI [of _ OutputFull])
        (auto simp: field_def write_buf_def wstate_defs field_rest_def)
  next
    case (Cons o1 os)
    let ?w = "set_in_field (add_record_bytes (set_quoting w True) 1) True"
    let ?out = "overwrite output 0 [w_quote w]"
    obtain n res where b: "field_body memchr ?w f ?out 1
        = Some (add_record_bytes ?w (length (body ?w True (take n f))), overwrite ?out 1 (body ?w True (take n f)), res, n,
            1 + length (body ?w True (take n f)))"
        "n \<le> length f" "1 + length (body ?w True (take n f)) \<le> length output" "res = InputEmpty \<longleftrightarrow> n = length f"
      using field_body_step [of 1 ?out ?w f] Cons unfolding Let_def by (auto simp: wstate_defs)
    have run: "field memchr w f output = field_body memchr ?w f ?out 1"
      using False q Cons by (auto simp: field_def write_buf_def wstate_defs)
    have y: "body ?w True = body w True" by (auto simp: fun_eq_iff wstate_defs)
    have ov: "overwrite ?out 1 ys = overwrite output 0 (w_quote w # ys)" for ys
      using Cons overwrite_overwrite [of 0 "[w_quote w]" "output" ys] by simp
    have len: "word_of_nat (1 + k) = (1 + word_of_nat k :: u64)" for k by simp
    show ?thesis
      using b False unfolding run y ov
      by (intro exI [of _ "\<lparr>ws_in_field = True, ws_quoting = True,
              ws_record_bytes = ws_record_bytes (w_state w) + word_of_nat (length (w_quote w # body w True (take n f)))\<rparr>"]
            exI [of _ n] exI [of _ "w_quote w # body w True (take n f)"] exI [of _ res])
        (auto simp: wstate_defs field_rest_def body_append [symmetric] ac_simps)
  qed
qed

end

definition closing :: "Writer \<Rightarrow> u8 list" where
  "closing w = (if ws_quoting (w_state w) then [w_quote w] else [])"

definition delim_rest :: "Writer \<Rightarrow> u8 list" where
  "delim_rest w = closing w @ [w_delimiter w]"

definition term_bytes :: "Writer \<Rightarrow> u8 list" where
  "term_bytes w = (case w_term w of Terminator.CRLF \<Rightarrow> [CR, LF] | Any b \<Rightarrow> [b] | Nonexhaustive \<Rightarrow> [])"

definition term_rest :: "Writer \<Rightarrow> u8 list" where
  "term_rest w = (if ws_record_bytes (w_state w) = 0 then [w_quote w, w_quote w] else []) @ closing w @ term_bytes w"

lemma overwrite_quote_first: "output \<noteq> [] \<Longrightarrow> overwrite (overwrite output 0 [q]) (Suc 0) ys = overwrite output 0 (q # ys)"
  using overwrite_overwrite [of 0 "[q]" "output" ys] by (cases "output") auto

lemma delimiter_step:
  assumes "delimiter w output = (w', out, res, n)"
  shows "\<exists>e. w' = w\<lparr>w_state := w_state w'\<rparr> \<and> out = overwrite output 0 e \<and> n = length e \<and> n \<le> length output
    \<and> ws_record_bytes (w_state w') = ws_record_bytes (w_state w) + word_of_nat n
    \<and> (res = InputEmpty \<longrightarrow> e = delim_rest w \<and> \<not> ws_in_field (w_state w') \<and> \<not> ws_quoting (w_state w'))
    \<and> (res = OutputFull \<longrightarrow> delim_rest w = e @ delim_rest w' \<and> ws_in_field (w_state w') = ws_in_field (w_state w)
         \<and> (2 \<le> length output \<longrightarrow> e \<noteq> []))"
proof -
  let ?q = "ws_quoting (w_state w)"
  let ?e = "if ?q \<and> output \<noteq> [] \<and> length output < 2 then [w_quote w] else if output = [] then [] else delim_rest w"
  show ?thesis
    using assms
    by (intro exI [of _ ?e], cases "output")
      (auto simp: delimiter_def delimiter_tail_def write_buf_def delim_rest_def closing_def wstate_defs
        overwrite_quote_first Suc_le_eq split: if_splits)
qed

lemma terminator_tail_step:
  assumes "w_term w \<noteq> Nonexhaustive" and "nout \<le> length output"
  shows "\<exists>w' e res. terminator_tail w output nout = Some (w', overwrite output nout e, res, nout + length e)
    \<and> nout + length e \<le> length output \<and> w' = w\<lparr>w_state := w_state w'\<rparr>
    \<and> (res = InputEmpty \<longrightarrow> e = term_bytes w \<and> w_state w' = (w_state w)\<lparr>ws_record_bytes := 0, ws_in_field := False\<rparr>)
    \<and> (res = OutputFull \<longrightarrow> e = [] \<and> w' = w \<and> length output < nout + 2)"
  using assms
  by (cases "w_term w"; cases "length (term_bytes w) > length output - nout")
    (auto simp: terminator_tail_def write_pessimistic_def term_bytes_def wstate_defs)

text \<open>The closing quote is counted in \<^verbatim>\<open>record_bytes\<close>, so that an interrupted terminator is not mistaken
  for one of an empty record.\<close>

lemma wstate_default_eq: "st = wstate_default \<longleftrightarrow> \<not> ws_in_field st \<and> \<not> ws_quoting st \<and> ws_record_bytes st = 0"
  by (cases st) (auto simp: wstate_default_def)

lemma record_bytes_Suc:
  assumes "unat (n :: u64) + 1 < 2 ^ 64"
  shows "n + 1 \<noteq> 0" and "unat (n + 1) = unat n + 1"
  using unat_add_of_nat [OF assms] by (auto simp: unat_eq_0)

lemma terminator_close_step:
  assumes "w_term w \<noteq> Nonexhaustive" and "nout \<le> length output" and "unat (ws_record_bytes (w_state w)) + 1 < 2 ^ 64"
    and "ws_record_bytes (w_state w) \<noteq> 0" and "ws_quoting (w_state w) \<longrightarrow> nout = 0"
  shows "\<exists>w' e res. terminator_close w output nout = Some (w', overwrite output nout e, res, nout + length e)
    \<and> nout + length e \<le> length output \<and> w' = w\<lparr>w_state := w_state w'\<rparr>
    \<and> (res = InputEmpty \<longrightarrow> e = closing w @ term_bytes w \<and> w_state w' = wstate_default)
    \<and> (res = OutputFull \<longrightarrow> closing w @ term_bytes w = e @ closing w' @ term_bytes w' \<and> ws_record_bytes (w_state w') \<noteq> 0
          \<and> (2 \<le> length output \<longrightarrow> nout = 0 \<longrightarrow> e \<noteq> [])
          \<and> unat (ws_record_bytes (w_state w')) \<le> unat (ws_record_bytes (w_state w)) + length e)"
proof (cases "ws_quoting (w_state w)")
  case False
  obtain w' e res where s: "terminator_tail w output nout = Some (w', overwrite output nout e, res, nout + length e)"
      "nout + length e \<le> length output" "w' = w\<lparr>w_state := w_state w'\<rparr>"
      "res = InputEmpty \<longrightarrow> e = term_bytes w \<and> w_state w' = (w_state w)\<lparr>ws_record_bytes := 0, ws_in_field := False\<rparr>"
      "res = OutputFull \<longrightarrow> e = [] \<and> w' = w \<and> length output < nout + 2"
    using terminator_tail_step [OF assms(1,2)] by blast
  then show ?thesis
    using False assms(4)
    by (intro exI [of _ w'] exI [of _ e] exI [of _ res], cases res)
      (simp_all add: terminator_close_def closing_def wstate_default_eq)
next
  case quoting: True
  show ?thesis
  proof (cases "output = []")
    case True
    then show ?thesis
      using quoting assms by (intro exI [of _ w] exI [of _ "[]"] exI [of _ OutputFull])
        (auto simp: terminator_close_def write_buf_def closing_def)
  next
    case False
    let ?w = "set_quoting (add_record_bytes w 1) False"
    have len: "1 \<le> length (overwrite output 0 [w_quote w])" using False by (cases "output") auto
    have t: "w_term ?w \<noteq> Nonexhaustive" using assms(1) by (simp add: wstate_defs)
    obtain w' e res where s: "terminator_tail ?w (overwrite output 0 [w_quote w]) 1
          = Some (w', overwrite (overwrite output 0 [w_quote w]) 1 e, res, 1 + length e)"
        "1 + length e \<le> length output" "w' = ?w\<lparr>w_state := w_state w'\<rparr>"
        "res = InputEmpty \<longrightarrow> e = term_bytes ?w \<and> w_state w' = (w_state ?w)\<lparr>ws_record_bytes := 0, ws_in_field := False\<rparr>"
        "res = OutputFull \<longrightarrow> e = [] \<and> w' = ?w"
      using terminator_tail_step [OF t len] False by (auto simp: Suc_le_eq)
    have "terminator_close w output nout = terminator_tail ?w (overwrite output 0 [w_quote w]) 1"
      using quoting assms(5) False by (cases "output") (auto simp: terminator_close_def write_buf_def)
    then show ?thesis
      using s quoting assms(3,5) False record_bytes_Suc [OF assms(3)]
      by (intro exI [of _ w'] exI [of _ "w_quote w # e"] exI [of _ res])
        (auto simp: closing_def term_bytes_def wstate_defs wstate_default_eq overwrite_quote_first)
  qed
qed

lemma terminator_step:
  assumes "w_term w \<noteq> Nonexhaustive" and "unat (ws_record_bytes (w_state w)) + 3 < 2 ^ 64"
    and "ws_record_bytes (w_state w) = 0 \<longrightarrow> \<not> ws_quoting (w_state w)"
  shows "\<exists>w' e res. terminator w output = Some (w', overwrite output 0 e, res, length e)
    \<and> length e \<le> length output \<and> w' = w\<lparr>w_state := w_state w'\<rparr>
    \<and> (res = InputEmpty \<longrightarrow> e = term_rest w \<and> w_state w' = wstate_default)
    \<and> (res = OutputFull \<longrightarrow> term_rest w = e @ term_rest w' \<and> (2 \<le> length output \<longrightarrow> e \<noteq> [])
          \<and> unat (ws_record_bytes (w_state w')) \<le> unat (ws_record_bytes (w_state w)) + length e
          \<and> (ws_record_bytes (w_state w') = 0 \<longrightarrow> \<not> ws_quoting (w_state w')))"
proof (cases "ws_record_bytes (w_state w) = 0")
  case False
  obtain w' e res where s: "terminator_close w output 0 = Some (w', overwrite output 0 e, res, 0 + length e)"
      "0 + length e \<le> length output" "w' = w\<lparr>w_state := w_state w'\<rparr>"
      "res = InputEmpty \<longrightarrow> e = closing w @ term_bytes w \<and> w_state w' = wstate_default"
      "res = OutputFull \<longrightarrow> closing w @ term_bytes w = e @ closing w' @ term_bytes w' \<and> ws_record_bytes (w_state w') \<noteq> 0
          \<and> (2 \<le> length output \<longrightarrow> (0::nat) = 0 \<longrightarrow> e \<noteq> [])
          \<and> unat (ws_record_bytes (w_state w')) \<le> unat (ws_record_bytes (w_state w)) + length e"
    using terminator_close_step [of w 0 "output"] False assms by force
  then show ?thesis
    using False by (intro exI [of _ w'] exI [of _ e] exI [of _ res]) (auto simp: terminator_def term_rest_def)
next
  case empty: True
  then have quoting: "\<not> ws_quoting (w_state w)" using assms(3) by simp
  show ?thesis
  proof (cases "length output < 2")
    case True
    then show ?thesis
      using empty quoting by (intro exI [of _ w] exI [of _ "[]"] exI [of _ OutputFull])
        (auto simp: terminator_def write_buf_def term_rest_def)
  next
    case False
    let ?w = "add_record_bytes w 2"
    let ?out = "overwrite output 0 [w_quote w, w_quote w]"
    have len: "2 \<le> length ?out" "length ?out = length output" using False by simp_all
    have w: "w_term ?w \<noteq> Nonexhaustive" "ws_record_bytes (w_state ?w) = 2" "\<not> ws_quoting (w_state ?w)"
      using assms(1) empty quoting by (simp_all add: wstate_defs)
    obtain w' e res where s: "terminator_close ?w ?out 2 = Some (w', overwrite ?out 2 e, res, 2 + length e)"
      "2 + length e \<le> length ?out" "w' = ?w\<lparr>w_state := w_state w'\<rparr>"
      "res = InputEmpty \<longrightarrow> e = closing ?w @ term_bytes ?w \<and> w_state w' = wstate_default"
      "res = OutputFull \<longrightarrow> closing ?w @ term_bytes ?w = e @ closing w' @ term_bytes w' \<and> ws_record_bytes (w_state w') \<noteq> 0
          \<and> unat (ws_record_bytes (w_state w')) \<le> unat (ws_record_bytes (w_state ?w)) + length e"
      using terminator_close_step [of ?w 2 ?out] w len by auto
    have run: "terminator w output = terminator_close ?w ?out 2"
      using empty quoting False by (simp add: terminator_def write_buf_def numeral_2_eq_2)
    have ov: "overwrite ?out 2 ys = overwrite output 0 (w_quote w # w_quote w # ys)" for ys
      using False overwrite_overwrite [of 0 "[w_quote w, w_quote w]" "output" ys] by (simp add: numeral_2_eq_2)
    show ?thesis
      using s empty w unfolding run ov len
      by (intro exI [of _ w'] exI [of _ "w_quote w # w_quote w # e"] exI [of _ res])
        (auto simp: term_rest_def closing_def term_bytes_def wstate_defs)
  qed
qed

end
