(* ===== verification/Csv_Record_Correct.thy ===== *)
theory Csv_Record_Correct
  imports Csv_Record
begin

text \<open>
  Correctness of \<^verbatim>\<open>ByteRecord\<close>: the invariant on its offsets, and that pushing, truncating, iterating from
  both ends, comparing, validating and trimming implement the list operations on \<open>fields_of\<close>.
\<close>

section \<open>Invariant and abstraction\<close>

definition bstart :: "Bounds \<Rightarrow> nat \<Rightarrow> nat" where
  "bstart b i = (if i = 0 then 0 else b_ends b ! (i - 1))"

definition field_at :: "ByteRecord \<Rightarrow> nat \<Rightarrow> u8 list" where
  "field_at r i = (let s = bstart (br_bounds r) i in take (bstart (br_bounds r) (Suc i) - s) (drop s (br_fields r)))"

definition fields_of :: "ByteRecord \<Rightarrow> u8 list list" where
  "fields_of r = map (field_at r) [0..<br_len r]"

definition br_ok :: "ByteRecord \<Rightarrow> bool" where
  "br_ok r \<longleftrightarrow> br_len r \<le> length (b_ends (br_bounds r))
     \<and> (\<forall>i < br_len r. bstart (br_bounds r) i \<le> bstart (br_bounds r) (Suc i))
     \<and> bstart (br_bounds r) (br_len r) \<le> length (br_fields r)"

lemma length_fields_of [simp]: "length (fields_of r) = br_len r"
  by (simp add: fields_of_def)

lemma bstart_mono:
  assumes "br_ok r" and "j \<le> br_len r" and "i \<le> j"
  shows "bstart (br_bounds r) i \<le> bstart (br_bounds r) j"
  using assms(3,2)
proof (induction rule: dec_induct)
  case (step n)
  then show ?case using assms(1) by (auto simp: br_ok_def Suc_le_eq intro: order_trans)
qed simp

lemma bounds_end_ok: "br_ok r \<Longrightarrow> bounds_end (br_bounds r) = Some (bstart (br_bounds r) (br_len r))"
  by (auto simp: br_ok_def bounds_end_def bounds_ends_def slice_def bstart_def br_len_def last_conv_nth)

lemma slice_field:
  assumes "br_ok r" and "i < br_len r"
  shows "slice (br_fields r) (bstart (br_bounds r) i) (bstart (br_bounds r) (Suc i)) = Some (field_at r i)"
  using assms bstart_mono [OF assms(1), of "br_len r" "Suc i"] by (auto simp: slice_def field_at_def br_ok_def Let_def)

lemma concat_fields_prefix:
  assumes "br_ok r" and "n \<le> br_len r"
  shows "concat (map (field_at r) [0..<n]) = take (bstart (br_bounds r) n) (br_fields r)"
  using assms(2)
proof (induction n)
  case 0
  then show ?case by (simp add: bstart_def)
next
  case (Suc n)
  have "bstart (br_bounds r) n \<le> bstart (br_bounds r) (Suc n)" using assms(1) Suc.prems by (auto simp: br_ok_def)
  then have "take (bstart (br_bounds r) n) (br_fields r) @ field_at r n = take (bstart (br_bounds r) (Suc n)) (br_fields r)"
    by (simp add: field_at_def Let_def take_add [symmetric])
  then show ?case using Suc by simp
qed

lemma as_slice_ok: "br_ok r \<Longrightarrow> br_as_slice r = Some (concat (fields_of r))"
  using concat_fields_prefix [of r "br_len r"]
  by (auto simp: br_as_slice_def bounds_end_ok slice_def fields_of_def br_ok_def)

lemma get_ok: "br_ok r \<Longrightarrow> br_get r i = Some (if i < br_len r then Some (fields_of r ! i) else None)"
  using slice_field [of r i]
  by (auto simp: br_get_def bounds_get_def br_len_def idx_def bstart_def br_ok_def fields_of_def)

lemma bstart_set_len [simp]: "bstart (b\<lparr>b_len := n\<rparr>) = bstart b"
  by (simp add: bstart_def fun_eq_iff)

lemma field_at_set_len [simp]: "field_at (r\<lparr>br_bounds := (br_bounds r)\<lparr>b_len := n\<rparr>\<rparr>) = field_at r"
  by (simp add: field_at_def fun_eq_iff)

lemma truncate_ok:
  assumes "br_ok r"
  shows "br_ok (br_truncate r n)" and "fields_of (br_truncate r n) = take n (fields_of r)"
  using assms bstart_mono [OF assms, of "br_len r" n]
  by (auto simp: br_truncate_def br_ok_def br_len_def fields_of_def take_map)

section \<open>Pushing\<close>

lemma take_resize: "n \<le> length xs \<Longrightarrow> n \<le> m \<Longrightarrow> take n (resize xs m v) = take n xs"
  by (simp add: resize_def)

lemma length_resize [simp]: "length (resize xs n v) = n"
  by (simp add: resize_def)

lemma br_grow_ok:
  assumes "e < 2 ^ 63"
  shows "\<exists>fs. br_grow r e = Some (r\<lparr>br_fields := fs\<rparr>) \<and> e \<le> length fs \<and> length (br_fields r) \<le> length fs
    \<and> take (length (br_fields r)) fs = br_fields r"
  using assms
proof (induction r e rule: br_grow.induct)
  case (1 r e)
  show ?case
  proof (cases "e > length (br_fields r)")
    case True
    let ?n = "max 4 (2 * length (br_fields r))"
    let ?r = "r\<lparr>br_fields := resize (br_fields r) ?n 0\<rparr>"
    have grow: "br_expand_fields r = Some ?r"
      using True 1(2) by (simp add: br_expand_fields_def double_usize_def)
    obtain fs where fs: "br_grow ?r e = Some (?r\<lparr>br_fields := fs\<rparr>)" "e \<le> length fs" "?n \<le> length fs"
        "take ?n fs = resize (br_fields r) ?n 0"
      using "1.IH" [OF True grow 1(2)] by auto
    have "take (length (br_fields r)) fs = take (length (br_fields r)) (take ?n fs)" by (simp add: min_def)
    also have "\<dots> = br_fields r" using fs(4) by (simp add: take_resize)
    finally show ?thesis using True grow fs by (subst br_grow.simps) (auto intro!: exI [of _ fs])
  next
    case False
    then show ?thesis by (subst br_grow.simps) (auto intro: exI [of _ "br_fields r"])
  qed
qed

lemma bounds_add_ok:
  assumes "b_len b \<le> length (b_ends b)" and "length (b_ends b) < 2 ^ 63"
  shows "\<exists>es. bounds_add b e = Some \<lparr>b_ends = es, b_len = Suc (b_len b)\<rparr> \<and> Suc (b_len b) \<le> length es
    \<and> take (Suc (b_len b)) es = take (b_len b) (b_ends b) @ [e]
    \<and> length es \<le> max (length (b_ends b)) (max 4 (2 * b_len b))"
  using assms
  by (cases b) (auto simp: bounds_add_def bounds_expand_def double_usize_def store_def take_resize take_Suc_update)

text \<open>Equal prefixes of the end offsets and of the buffer give equal fields.\<close>

lemma bstart_cong: "take n (b_ends b) = take n (b_ends c) \<Longrightarrow> i \<le> n \<Longrightarrow> n \<le> length (b_ends b) \<Longrightarrow> n \<le> length (b_ends c)
    \<Longrightarrow> bstart b i = bstart c i"
  by (auto simp: bstart_def) (metis Suc_le_lessD Suc_pred nth_take)

lemma take_drop_cong: "take n xs = take n ys \<Longrightarrow> i + k \<le> n \<Longrightarrow> take k (drop i xs) = take k (drop i ys)"
  by (metis add.commute add_leD1 drop_take le_add_diff_inverse min.absorb1 take_drop take_take)

lemma push_field_ok:
  assumes r: "br_ok r" and small: "length (concat (fields_of r)) + length f < 2 ^ 63" "length (b_ends (br_bounds r)) < 2 ^ 63"
  shows "\<exists>r'. br_push_field r f = Some r' \<and> br_ok r' \<and> fields_of r' = fields_of r @ [f] \<and> br_pos r' = br_pos r
    \<and> length (b_ends (br_bounds r')) \<le> max (length (b_ends (br_bounds r))) (max 4 (2 * br_len r))"
proof -
  let ?b = "br_bounds r"
  let ?s = "bstart ?b (br_len r)"
  let ?e = "?s + length f"
  have s: "?s \<le> length (br_fields r)" "length (concat (fields_of r)) = ?s"
    using r concat_fields_prefix [OF r order_refl] by (auto simp: br_ok_def fields_of_def)
  obtain fs where fs: "br_grow r ?e = Some (r\<lparr>br_fields := fs\<rparr>)" "?e \<le> length fs" "length (br_fields r) \<le> length fs"
      "take (length (br_fields r)) fs = br_fields r"
    using br_grow_ok [of ?e r] small s by auto
  obtain es where es: "bounds_add ?b ?e = Some \<lparr>b_ends = es, b_len = Suc (b_len ?b)\<rparr>" "Suc (b_len ?b) \<le> length es"
      "take (Suc (b_len ?b)) es = take (b_len ?b) (b_ends ?b) @ [?e]"
      "length es \<le> max (length (b_ends ?b)) (max 4 (2 * b_len ?b))"
    using bounds_add_ok [of ?b ?e] r small by (auto simp: br_ok_def br_len_def)
  let ?r = "r\<lparr>br_fields := overwrite fs ?s f, br_bounds := \<lparr>b_ends = es, b_len = Suc (b_len ?b)\<rparr>\<rparr>"
  have run: "br_push_field r f = Some ?r"
    using fs(1,2) es(1) by (simp add: br_push_field_def bounds_end_ok [OF r] slice_def)
  have buf: "take ?s (overwrite fs ?s f) = take ?s (br_fields r)" "take ?e (overwrite fs ?s f) = take ?s (br_fields r) @ f"
    using fs(2,4) s(1) by (simp_all add: overwrite_def) (metis min.absorb1 take_take)+
  have len: "br_len ?r = Suc (br_len r)" by (simp add: br_len_def)
  have old: "bstart (br_bounds ?r) i = bstart ?b i" if "i \<le> br_len r" for i
  proof (rule bstart_cong [OF _ that])
    show "take (br_len r) (b_ends (br_bounds ?r)) = take (br_len r) (b_ends ?b)"
      using arg_cong [OF es(3), of "take (b_len ?b)"] r by (simp add: br_len_def br_ok_def)
  qed (use r es(2) in \<open>auto simp: br_ok_def br_len_def\<close>)
  have new: "bstart (br_bounds ?r) (Suc (br_len r)) = ?e"
    using arg_cong [OF es(3), of "\<lambda>xs. xs ! b_len ?b"] r by (simp add: bstart_def br_len_def br_ok_def nth_append)
  have "br_ok ?r"
    using r old new es(2) fs(2) len by (auto simp: br_ok_def less_Suc_eq overwrite_def br_len_def)
  moreover have "field_at ?r i = field_at r i" if "i < br_len r" for i
    using that old [of i] old [of "Suc i"] bstart_mono [OF r order_refl, of "Suc i"] bstart_mono [OF r _, of "Suc i" i]
    by (auto simp: field_at_def Let_def intro!: take_drop_cong [OF buf(1)])
  moreover have "field_at ?r (br_len r) = f"
    using old [of "br_len r"] new fs(2) s(1) by (simp add: field_at_def overwrite_def)
  ultimately show ?thesis using run es(4) len by (auto simp: fields_of_def br_len_def)
qed

lemma extend_ok:
  assumes "br_ok r" and "length (concat (fields_of r @ xs)) < 2 ^ 63" and "br_len r + length xs < 2 ^ 62"
    and "length (b_ends (br_bounds r)) \<le> max c (2 * br_len r)" and "4 \<le> c" and "c < 2 ^ 63"
  shows "\<exists>r'. br_extend r xs = Some r' \<and> br_ok r' \<and> fields_of r' = fields_of r @ xs \<and> br_pos r' = br_pos r"
  using assms(1-4)
proof (induction xs arbitrary: r)
  case Nil
  then show ?case by simp
next
  case (Cons x xs)
  have "length (b_ends (br_bounds r)) < 2 ^ 63" using Cons.prems(3,4) assms(6) by auto
  then obtain r' where r': "br_push_field r x = Some r'" "br_ok r'" "fields_of r' = fields_of r @ [x]" "br_pos r' = br_pos r"
      "length (b_ends (br_bounds r')) \<le> max (length (b_ends (br_bounds r))) (max 4 (2 * br_len r))"
    using push_field_ok [of r x] Cons.prems(1,2) by auto
  have len: "br_len r' = Suc (br_len r)" using arg_cong [OF r'(3), of length] by simp
  have "length (b_ends (br_bounds r')) \<le> max c (2 * br_len r')"
    using r'(5) Cons.prems(4) assms(5) len by (simp split: if_splits)
  then obtain r'' where "br_extend r' xs = Some r''" "br_ok r''" "fields_of r'' = fields_of r' @ xs" "br_pos r'' = br_pos r'"
    using Cons.IH [of r'] r' Cons.prems(2,3) len by auto
  then show ?case using r' by simp
qed

lemma with_capacity_ok: "br_ok (br_with_capacity m n)" "fields_of (br_with_capacity m n) = []"
  by (auto simp: br_ok_def br_with_capacity_def bounds_with_capacity_def br_len_def bstart_def fields_of_def)

lemma from_iter_ok:
  assumes "length (concat xs) < 2 ^ 63" and "length xs < 2 ^ 62"
  shows "\<exists>r. br_from_iter xs = Some r \<and> br_ok r \<and> fields_of r = xs \<and> br_pos r = None"
  using extend_ok [of br_new xs 4] assms with_capacity_ok [of 0 0]
  by (auto simp: br_from_iter_def br_new_def br_len_def br_with_capacity_def bounds_with_capacity_def)

section \<open>Iterating from both ends\<close>

definition iter_ok :: "ByteRecordIter \<Rightarrow> bool" where
  "iter_ok it \<longleftrightarrow> br_ok (it_r it) \<and> it_forward it \<le> it_reverse it \<and> it_reverse it \<le> br_len (it_r it)
     \<and> it_last_end it = bstart (br_bounds (it_r it)) (it_forward it)
     \<and> it_last_start it = bstart (br_bounds (it_r it)) (it_reverse it)"

definition iter_view :: "ByteRecordIter \<Rightarrow> u8 list list" where
  "iter_view it = drop (it_forward it) (take (it_reverse it) (fields_of (it_r it)))"

lemma into_iter_ok:
  assumes "br_ok r"
  shows "\<exists>it. br_into_iter r = Some it \<and> iter_ok it \<and> iter_view it = fields_of r"
  using assms as_slice_ok [OF assms] concat_fields_prefix [OF assms order_refl]
  by (auto simp: br_into_iter_def iter_ok_def iter_view_def fields_of_def [symmetric] br_ok_def bstart_def [of _ 0])

lemma iter_next_ok:
  assumes "iter_ok it"
  shows "\<exists>it'. iter_next it = Some (case iter_view it of [] \<Rightarrow> None | f # _ \<Rightarrow> Some f, it')
    \<and> iter_ok it' \<and> iter_view it' = tl (iter_view it)"
proof (cases "it_forward it = it_reverse it")
  case True
  then show ?thesis using assms by (simp add: iter_next_def iter_view_def iter_ok_def)
next
  case False
  let ?r = "it_r it"
  let ?i = "it_forward it"
  have i: "?i < it_reverse it" "?i < br_len ?r" "br_ok ?r" using assms False by (auto simp: iter_ok_def)
  have view: "iter_view it = field_at ?r ?i # drop (Suc ?i) (take (it_reverse it) (fields_of ?r))"
    using i assms by (auto simp: iter_view_def iter_ok_def fields_of_def drop_nth_Cons)
  have e: "bounds_ends (br_bounds ?r) = Some (take (br_len ?r) (b_ends (br_bounds ?r)))"
    using i by (simp add: bounds_ends_def slice_def br_ok_def br_len_def)
  show ?thesis
    using False i e view slice_field [OF i(3,2)] assms
    by (auto simp: iter_next_def idx_def br_ok_def iter_ok_def bstart_def [of _ "Suc _"] iter_view_def Let_def)
qed

lemma iter_next_back_ok:
  assumes "iter_ok it"
  shows "\<exists>it'. iter_next_back it = Some (if iter_view it = [] then None else Some (last (iter_view it)), it')
    \<and> iter_ok it' \<and> iter_view it' = butlast (iter_view it)"
proof (cases "it_forward it = it_reverse it")
  case True
  then show ?thesis using assms by (simp add: iter_next_back_def iter_view_def iter_ok_def)
next
  case False
  let ?r = "it_r it"
  obtain j where rev: "it_reverse it = Suc j" using assms False by (cases "it_reverse it") (auto simp: iter_ok_def)
  have j: "it_forward it \<le> j" "j < br_len ?r" "br_ok ?r" using assms False rev by (auto simp: iter_ok_def)
  have view: "iter_view it = drop (it_forward it) (take j (fields_of ?r)) @ [field_at ?r j]"
    using j rev by (simp add: iter_view_def take_Suc_conv_app_nth) (simp add: fields_of_def)
  have e: "bounds_ends (br_bounds ?r) = Some (take (br_len ?r) (b_ends (br_bounds ?r)))"
    using j by (simp add: bounds_ends_def slice_def br_ok_def br_len_def)
  show ?thesis
    using False j e view slice_field [OF j(3,2)] assms rev
    by (auto simp: iter_next_back_def idx_def br_ok_def iter_ok_def bstart_def [of _ j] iter_view_def Let_def)
qed

lemma iter_collect_ok: "iter_ok it \<Longrightarrow> iter_collect it = Some (iter_view it)"
proof (induction "iter_view it" arbitrary: it)
  case Nil
  then show ?case using iter_next_ok [OF Nil.prems] by (subst iter_collect.simps) auto
next
  case (Cons f fs)
  obtain it' where "iter_next it = Some (Some f, it')" "iter_ok it'" "iter_view it' = fs"
    using iter_next_ok [OF Cons.prems] Cons.hyps(2) by (auto split: list.splits)
  then show ?case using Cons.hyps by (subst iter_collect.simps) auto
qed

lemma br_iter_ok: "br_ok r \<Longrightarrow> br_iter r = Some (fields_of r)"
  using into_iter_ok [of r] iter_collect_ok by (auto simp: br_iter_def)

text \<open>Any interleaving of \<^verbatim>\<open>next\<close> (\<^const>\<open>True\<close>) and \<^verbatim>\<open>next_back\<close> (\<^const>\<open>False\<close>), on the iterator and on a list.\<close>

fun iter_run :: "ByteRecordIter \<Rightarrow> bool list \<Rightarrow> u8 list option list may_panic" where
  "iter_run it [] = Some []"
| "iter_run it (fwd # ops) = do {
     (x, it) \<leftarrow> (if fwd then iter_next it else iter_next_back it);
     xs \<leftarrow> iter_run it ops;
     Some (x # xs)
   }"

fun deque_run :: "'a list \<Rightarrow> bool list \<Rightarrow> 'a option list" where
  "deque_run xs [] = []"
| "deque_run xs (fwd # ops) =
     (if xs = [] then None # deque_run [] ops
      else if fwd then Some (hd xs) # deque_run (tl xs) ops
      else Some (last xs) # deque_run (butlast xs) ops)"

lemma iter_run_ok: "iter_ok it \<Longrightarrow> iter_run it ops = Some (deque_run (iter_view it) ops)"
proof (induction ops arbitrary: it)
  case Nil
  then show ?case by simp
next
  case (Cons fwd ops)
  show ?case
  proof (cases fwd)
    case True
    then show ?thesis using iter_next_ok [OF Cons.prems] Cons.IH by (auto split: list.splits)
  next
    case False
    then show ?thesis using iter_next_back_ok [OF Cons.prems] Cons.IH by (auto split: if_splits)
  qed
qed

section \<open>Validation, comparison, trimming\<close>

lemma validate_fields_None: "validate_fields i fs = None \<longleftrightarrow> list_all utf8_valid fs"
  by (induction i fs rule: validate_fields.induct) (auto simp: utf8_valid_def split: option.splits)

lemma validate_fields_Some:
  "validate_fields i fs = Some err \<Longrightarrow>
    i \<le> err_field err \<and> err_field err < i + length fs \<and> utf8_error (fs ! (err_field err - i)) = Some (err_valid_up_to err)
    \<and> list_all utf8_valid (take (err_field err - i) fs)"
proof (induction i fs rule: validate_fields.induct)
  case (2 i f fs)
  then show ?case
    by (cases "utf8_error f") (auto simp: utf8_valid_def Suc_diff_le Suc_le_eq nth_Cons' take_Cons' Suc_diff_Suc)
qed simp

lemma br_validate_ok:
  assumes "br_ok r"
  shows "br_validate r = Some (case validate_fields 0 (fields_of r) of Some err \<Rightarrow> Inl err | None \<Rightarrow> Inr ())"
proof -
  have s: "slice (br_fields r) 0 (bstart (br_bounds r) (br_len r)) = Some (concat (fields_of r))"
    using as_slice_ok [OF assms] by (simp add: br_as_slice_def bounds_end_ok [OF assms])
  have "validate_fields 0 (fields_of r) = None" if "is_ascii (concat (fields_of r))"
    using that by (auto simp: validate_fields_None is_ascii_concat utf8_valid_def list_all_iff intro: is_ascii_valid)
  then show ?thesis using s by (auto simp: br_validate_def bounds_end_ok [OF assms] br_iter_ok [OF assms])
qed

lemma iter_eq_loop_eq: "iter_eq_loop xs ys \<longleftrightarrow> xs = ys"
  by (induction xs ys rule: iter_eq_loop.induct) auto

lemma zip_all_eq: "length xs = length ys \<Longrightarrow> list_all (\<lambda>(f, g). f = g) (zip xs ys) \<longleftrightarrow> xs = ys"
  by (induction xs ys rule: list_induct2) auto

lemma trim_ascii_start_dropWhile: "trim_ascii_start bs = dropWhile is_ascii_whitespace bs"
  by (induction bs) auto

lemma trim_ascii_end_dropWhile: "trim_ascii_end bs = rev (dropWhile is_ascii_whitespace (rev bs))"
proof (induction bs rule: rev_induct)
  case Nil
  then show ?case by (simp add: trim_ascii_end.simps)
next
  case (snoc b bs)
  then show ?case by (subst trim_ascii_end.simps) simp
qed

lemma length_trim_ascii: "length (trim_ascii bs) \<le> length bs"
  unfolding trim_ascii_def trim_ascii_start_dropWhile trim_ascii_end_dropWhile
  by (metis length_dropWhile_le length_rev order_trans)

section \<open>The properties\<close>

text \<open>Pushing a field onto a well-formed record never panics while the sizes are below the maximum of
  \<^verbatim>\<open>Vec\<close>: whatever growth of the two buffers it needs, the record stays well-formed and its fields are the
  old ones followed by the new one.\<close>

theorem csv_record_push:
  assumes "br_ok r" and "length (concat (fields_of r)) + length f < 2 ^ 63" and "length (b_ends (br_bounds r)) < 2 ^ 63"
  shows "\<exists>r'. br_push_field r f = Some r' \<and> br_ok r' \<and> fields_of r' = fields_of r @ [f] \<and> br_pos r' = br_pos r"
  using push_field_ok [OF assms] by blast

theorem csv_record_push_witness:
  "br_ok (br_with_capacity 1 0) \<and>
    (\<exists>r'. br_push_field (br_with_capacity 1 0) [97, 98] = Some r' \<and> fields_of r' = [[97, 98]])"
  using csv_record_push [of "br_with_capacity 1 0" "[97, 98]"] with_capacity_ok [of 1 0]
  by (auto simp: br_with_capacity_def bounds_with_capacity_def)

text \<open>The double-ended iterator over a record yields, for every interleaving of \<^verbatim>\<open>next\<close> and
  \<^verbatim>\<open>next_back\<close>, what taking from the two ends of the list of fields yields; it never panics and meets in the
  middle exactly once.\<close>

theorem csv_record_iter_deque:
  assumes "br_ok r"
  shows "\<exists>it. br_into_iter r = Some it \<and> iter_run it ops = Some (deque_run (fields_of r) ops)"
  using into_iter_ok [OF assms] iter_run_ok by metis

theorem csv_record_iter_deque_witness:
  "\<exists>it. br_into_iter \<lparr>br_pos = None, br_fields = [97, 98, 99], br_bounds = \<lparr>b_ends = [1, 3, 0], b_len = 2\<rparr>\<rparr> = Some it
    \<and> iter_run it [False, True, True] = Some [Some [98, 99], Some [97], None]"
  using csv_record_iter_deque [of "\<lparr>br_pos = None, br_fields = [97, 98, 99], br_bounds = \<lparr>b_ends = [1, 3, 0], b_len = 2\<rparr>\<rparr>" "[False, True, True]"]
  by (simp add: br_ok_def br_len_def bstart_def fields_of_def field_at_def upt_rec less_Suc_eq All_less_Suc numeral_2_eq_2)

text \<open>UTF-8 validation of a record, with its shortcut for a buffer that is entirely ASCII, succeeds exactly
  when every field is valid on its own, and otherwise reports the first invalid field and how far it is valid.\<close>

theorem csv_record_validate:
  assumes "br_ok r"
  shows "(br_validate r = Some (Inr ()) \<longleftrightarrow> list_all utf8_valid (fields_of r))
    \<and> (\<forall>err. br_validate r = Some (Inl err) \<longrightarrow>
      err_field err < br_len r \<and> utf8_error (fields_of r ! err_field err) = Some (err_valid_up_to err)
      \<and> list_all utf8_valid (take (err_field err) (fields_of r)))
    \<and> br_validate r \<noteq> None"
  using br_validate_ok [OF assms] validate_fields_None [of 0 "fields_of r"] validate_fields_Some [of 0 "fields_of r"]
  by (auto split: option.splits)

theorem csv_record_validate_witness:
  "br_validate \<lparr>br_pos = None, br_fields = [195, 169], br_bounds = \<lparr>b_ends = [1, 2], b_len = 2\<rparr>\<rparr> \<noteq> Some (Inr ())
   \<and> br_validate \<lparr>br_pos = None, br_fields = [195, 169], br_bounds = \<lparr>b_ends = [2], b_len = 1\<rparr>\<rparr> = Some (Inr ())"
proof -
  let ?r = "\<lparr>br_pos = None, br_fields = [195, 169], br_bounds = \<lparr>b_ends = [1, 2], b_len = 2\<rparr>\<rparr>"
  let ?s = "\<lparr>br_pos = None, br_fields = [195, 169], br_bounds = \<lparr>b_ends = [2], b_len = 1\<rparr>\<rparr>"
  have "br_ok ?r" "br_ok ?s" by code_simp+
  moreover have "\<not> list_all utf8_valid (fields_of ?r)" "list_all utf8_valid (fields_of ?s)" by code_simp+
  ultimately show ?thesis using csv_record_validate [of ?r] csv_record_validate [of ?s] by blast
qed

lemma length_concat_map: "(\<And>f. length (g f) \<le> length f) \<Longrightarrow> length (concat (map g fs)) \<le> length (concat fs)"
  by (induction fs) (auto intro: add_mono)

lemma refill_ok:
  assumes "br_ok r" and "length (concat (fields_of r)) < 2 ^ 63" and "br_len r < 2 ^ 62" and "\<And>f. length (g f) \<le> length f"
  shows "\<exists>r'. br_extend (br_set_position (br_with_capacity (length (concat (fields_of r))) (br_len r)) (br_pos r)) (map g (fields_of r)) = Some r'
    \<and> br_ok r' \<and> fields_of r' = map g (fields_of r) \<and> br_pos r' = br_pos r"
proof -
  let ?t = "br_set_position (br_with_capacity (length (concat (fields_of r))) (br_len r)) (br_pos r)"
  have t: "br_ok ?t" "fields_of ?t = []" "br_len ?t = 0" "br_pos ?t = br_pos r" "length (b_ends (br_bounds ?t)) = br_len r"
    using with_capacity_ok
    by (auto simp: br_set_position_def br_ok_def br_len_def fields_of_def br_with_capacity_def bounds_with_capacity_def bstart_def)
  show ?thesis
    using extend_ok [of ?t "map g (fields_of r)" "br_len r + 4"] t assms(2,3)
      le_less_trans [OF length_concat_map [OF assms(4)] assms(2)] by (auto simp del: length_concat)
qed

lemma br_trim_ok:
  assumes "br_ok r" and "length (concat (fields_of r)) < 2 ^ 63" and "br_len r < 2 ^ 62"
  shows "\<exists>r'. br_trim r = Some r' \<and> br_ok r' \<and> fields_of r' = map trim_ascii (fields_of r) \<and> br_pos r' = br_pos r"
proof (cases "br_len r = 0")
  case True
  then show ?thesis using assms(1) by (auto simp: br_trim_def fields_of_def)
next
  case False
  then show ?thesis using refill_ok [OF assms length_trim_ascii]
    by (auto simp: br_trim_def as_slice_ok [OF assms(1)] br_iter_ok [OF assms(1)] simp del: length_concat)
qed

text \<open>Trimming a record trims ASCII whitespace from both ends of every field, keeps the number of fields and
  the position, and two records compare equal exactly when their fields are equal.\<close>

theorem csv_record_trim_eq:
  assumes "br_ok r" and "length (concat (fields_of r)) < 2 ^ 63" and "br_len r < 2 ^ 62"
  shows "\<exists>r'. br_trim r = Some r' \<and> br_ok r' \<and> br_pos r' = br_pos r
      \<and> fields_of r' = map (\<lambda>f. dropWhile is_ascii_whitespace (rev (dropWhile is_ascii_whitespace (rev f)))) (fields_of r)
      \<and> br_eq r r' = Some (fields_of r = fields_of r')"
proof -
  have eq: "br_eq r r' = Some (fields_of r = fields_of r')" if "br_ok r'" for r'
    using that assms(1) br_iter_ok zip_all_eq [of "fields_of r" "fields_of r'"]
    by (auto simp: br_eq_def dest: arg_cong [of _ _ length])
  have "trim_ascii f = dropWhile is_ascii_whitespace (rev (dropWhile is_ascii_whitespace (rev f)))" for f
    by (simp add: trim_ascii_def trim_ascii_start_dropWhile trim_ascii_end_dropWhile)
  then show ?thesis using br_trim_ok [OF assms] eq by auto
qed

theorem csv_record_trim_eq_witness:
  "\<exists>r'. br_trim \<lparr>br_pos = None, br_fields = [32, 98, 9], br_bounds = \<lparr>b_ends = [3], b_len = 1\<rparr>\<rparr> = Some r' \<and> fields_of r' = [[98]]"
  using csv_record_trim_eq [of "\<lparr>br_pos = None, br_fields = [32, 98, 9], br_bounds = \<lparr>b_ends = [3], b_len = 1\<rparr>\<rparr>"]
  by (auto simp: br_ok_def br_len_def bstart_def fields_of_def field_at_def is_ascii_whitespace_def)

end
