(* ===== verification/Csv_Out_Correct.thy ===== *)
theory Csv_Out_Correct
  imports Csv_Out Csv_Writer_Correct Csv_Record_Correct
begin

text \<open>
  Correctness of the buffered CSV writer. The interface between it and the core writer is the locale
  \<open>core_call\<close>, the one to the inner \<^verbatim>\<open>io::Write\<close> the locale \<open>sink_contract\<close>: the shared flush loop is proved
  once to end and to emit exactly what the core writer owes, whatever the buffer size.
\<close>

section \<open>Interfaces\<close>

locale core_call =
  fixes call :: core_op
    and owed :: "Writer \<Rightarrow> u8 list \<Rightarrow> u8 list"
    and ok :: "Writer \<Rightarrow> u8 list \<Rightarrow> bool"
    and rank :: "Writer \<Rightarrow> u8 list \<Rightarrow> nat"
    and fin :: "Writer \<Rightarrow> u8 list \<Rightarrow> Writer \<Rightarrow> bool"
  assumes turn: "ok w rest \<Longrightarrow> \<exists>w' e res n.
      call w rest out = Some (w', overwrite out 0 e, res, n, length e) \<and> length e \<le> length out
      \<and> (res = InputEmpty \<longrightarrow> e = owed w rest \<and> fin w rest w')
      \<and> (res = OutputFull \<longrightarrow> ok w' (drop n rest) \<and> owed w rest = e @ owed w' (drop n rest)
          \<and> rank w' (drop n rest) \<le> rank w rest \<and> (2 \<le> length out \<longrightarrow> rank w' (drop n rest) < rank w rest)
          \<and> (\<forall>w''. fin w' (drop n rest) w'' \<longrightarrow> fin w rest w''))"

locale sink_contract =
  fixes write_all :: "('w, 'e) write_all"
    and contents :: "'w \<Rightarrow> u8 list"
  assumes write_all_Ok: "write_all s data = (s', Inr ()) \<Longrightarrow> contents s' = contents s @ data"

locale flush_driver = core_call call owed ok rank fin + sink_contract write_all contents
  for call owed ok rank fin and write_all :: "('w, 'e) write_all" and contents

definition emitted :: "('w \<Rightarrow> u8 list) \<Rightarrow> 'w CsvWriter \<Rightarrow> u8 list" where
  "emitted contents W = contents (the (cw_wtr W)) @ take (bf_len (cw_buf W)) (bf_buf (cw_buf W))"

definition buf_ok :: "'w CsvWriter \<Rightarrow> bool" where
  "buf_ok W \<longleftrightarrow> cw_wtr W \<noteq> None \<and> \<not> cs_panicked (cw_state W)
     \<and> bf_len (cw_buf W) \<le> length (bf_buf (cw_buf W)) \<and> 2 \<le> length (bf_buf (cw_buf W))"

definition reliable :: "('w, 'e) write_all \<Rightarrow> bool" where
  "reliable wa \<longleftrightarrow> (\<forall>s data. snd (wa s data) = Inr ())"

text \<open>\<^verbatim>\<open>Vec<u8>\<close> as the inner writer.\<close>

definition vec_write_all :: "(u8 list, unit) write_all" where
  "vec_write_all s data = (s @ data, Inr ())"

interpretation vec: sink_contract vec_write_all "\<lambda>s. s"
  by unfold_locales (simp add: vec_write_all_def)

lemma writable_ok: "buf_ok W \<Longrightarrow> writable (cw_buf W) = Some (drop (bf_len (cw_buf W)) (bf_buf (cw_buf W)))"
  by (simp add: buf_ok_def writable_def slice_def)

text \<open>Writing \<open>e\<close> at the start of the free part and accounting for it appends \<open>e\<close>.\<close>

lemma put_back_emitted:
  fixes W :: "'w CsvWriter"
  assumes "buf_ok W" and "length e \<le> length (bf_buf (cw_buf W)) - bf_len (cw_buf W)"
  defines "b \<equiv> bytes_written (put_back (cw_buf W) (overwrite (drop (bf_len (cw_buf W)) (bf_buf (cw_buf W))) 0 e)) (length e)"
  shows "emitted contents (W\<lparr>cw_core := c, cw_buf := b\<rparr>) = emitted contents W @ e"
    and "buf_ok (W\<lparr>cw_core := c, cw_buf := b\<rparr>)" and "length (bf_buf b) = length (bf_buf (cw_buf W))"
    and "bf_len b = bf_len (cw_buf W) + length e"
  using assms(1,2)
  by (auto simp: b_def emitted_def buf_ok_def bytes_written_def put_back_def overwrite_def)

context sink_contract
begin

lemma flush_buf_ok:
  assumes "buf_ok W"
  shows "\<exists>W' r. flush_buf write_all W = Some (W', r) \<and> buf_ok W' \<and> cw_core W' = cw_core W \<and> cw_state W' = cw_state W
    \<and> length (bf_buf (cw_buf W')) = length (bf_buf (cw_buf W))
    \<and> (r = Inr () \<longrightarrow> emitted contents W' = emitted contents W \<and> bf_len (cw_buf W') = 0)
    \<and> (reliable write_all \<longrightarrow> r = Inr ())"
proof -
  obtain s where s: "cw_wtr W = Some s" using assms by (auto simp: buf_ok_def)
  let ?d = "take (bf_len (cw_buf W)) (bf_buf (cw_buf W))"
  obtain s' r where wa: "write_all s ?d = (s', r)" by force
  have st: "cs_panicked_update (\<lambda>_. False) (cs_panicked_update (\<lambda>_. True) (cw_state W)) = cw_state W"
    using assms by (cases "cw_state W") (simp add: buf_ok_def)
  show ?thesis
  proof (cases r)
    case (Inl e)
    then have "\<not> reliable write_all" using wa unfolding reliable_def by (metis snd_conv sum.distinct(1))
    then show ?thesis
      using s wa assms st Inl
      by (auto simp: flush_buf_def set_panicked_def readable_def slice_def buf_ok_def)
  next
    case (Inr u)
    then show ?thesis
      using s wa assms st write_all_Ok [of s ?d s']
      by (auto simp: flush_buf_def set_panicked_def readable_def slice_def buf_ok_def buffer_clear_def emitted_def)
  qed
qed

end

context flush_driver
begin

lemma flush_loop_ok:
  assumes "buf_ok W" and "ok (cw_core W) rest"
  shows "\<exists>W' r. flush_loop write_all call W rest = Some (Some (W', r)) \<and> buf_ok W' \<and> cw_state W' = cw_state W
    \<and> length (bf_buf (cw_buf W')) = length (bf_buf (cw_buf W))
    \<and> (r = Inr () \<longrightarrow> emitted contents W' = emitted contents W @ owed (cw_core W) rest \<and> fin (cw_core W) rest (cw_core W'))
    \<and> (\<forall>er. r = Inl er \<longrightarrow> (\<exists>x. er = Io x)) \<and> (reliable write_all \<longrightarrow> r = Inr ())"
  using assms
proof (induction "2 * rank (cw_core W) rest + (if length (bf_buf (cw_buf W)) - bf_len (cw_buf W) < 2 then 1 else 0)"
    arbitrary: W rest rule: less_induct)
  case less
  let ?out = "drop (bf_len (cw_buf W)) (bf_buf (cw_buf W))"
  obtain w' e res n where t: "call (cw_core W) rest ?out = Some (w', overwrite ?out 0 e, res, n, length e)" "length e \<le> length ?out"
      "res = InputEmpty \<longrightarrow> e = owed (cw_core W) rest \<and> fin (cw_core W) rest w'"
      "res = OutputFull \<longrightarrow> ok w' (drop n rest) \<and> owed (cw_core W) rest = e @ owed w' (drop n rest)
        \<and> rank w' (drop n rest) \<le> rank (cw_core W) rest
        \<and> (2 \<le> length ?out \<longrightarrow> rank w' (drop n rest) < rank (cw_core W) rest)
        \<and> (\<forall>w''. fin w' (drop n rest) w'' \<longrightarrow> fin (cw_core W) rest w'')"
    using turn [OF less.prems(2), of ?out] by blast
  let ?b = "bytes_written (put_back (cw_buf W) (overwrite ?out 0 e)) (length e)"
  let ?W = "W\<lparr>cw_core := w', cw_buf := ?b\<rparr>"
  have len: "length e \<le> length (bf_buf (cw_buf W)) - bf_len (cw_buf W)" using t(2) by simp
  note put = put_back_emitted [OF less.prems(1) len]
  have turn: "core_turn call W rest = Some (res, ?W, drop n rest)"
    using t(1) less.prems(1) by (simp add: core_turn_def writable_ok)
  show ?case
  proof (cases res)
    case InputEmpty
    then show ?thesis using turn t(3) put len by (subst flush_loop.simps) auto
  next
    case OutputFull
    obtain W2 r where fl: "flush_buf write_all ?W = Some (W2, r)" "buf_ok W2" "cw_core W2 = w'" "cw_state W2 = cw_state W"
        "length (bf_buf (cw_buf W2)) = length (bf_buf (cw_buf W))"
        "r = Inr () \<longrightarrow> emitted contents W2 = emitted contents W @ e \<and> bf_len (cw_buf W2) = 0" "reliable write_all \<longrightarrow> r = Inr ()"
      using flush_buf_ok [of ?W] put len by auto
    show ?thesis
    proof (cases r)
      case (Inl x)
      then show ?thesis using turn OutputFull fl by (subst flush_loop.simps) auto
    next
      case (Inr u)
      have ok2: "ok (cw_core W2) (drop n rest)" using t(4) OutputFull fl(3) by simp
      have dec: "2 * rank (cw_core W2) (drop n rest) + (if length (bf_buf (cw_buf W2)) - bf_len (cw_buf W2) < 2 then 1 else 0)
          < 2 * rank (cw_core W) rest + (if length (bf_buf (cw_buf W)) - bf_len (cw_buf W) < 2 then 1 else 0)"
        using t(4) OutputFull Inr fl(2,3,5,6) by (auto simp: buf_ok_def)
      from less.hyps [OF dec fl(2) ok2] show ?thesis
        using turn OutputFull Inr fl t(4) by (subst flush_loop.simps) auto
    qed
  qed
qed

end

section \<open>The three calls of the core writer\<close>

definition field_fin :: "Writer \<Rightarrow> u8 list \<Rightarrow> Writer \<Rightarrow> bool" where
  "field_fin w f w' \<longleftrightarrow> w' = w\<lparr>w_state := w_state w'\<rparr> \<and> ws_in_field (w_state w')
     \<and> ws_quoting (w_state w') = (if ws_in_field (w_state w) then ws_quoting (w_state w) else quotes w f)
     \<and> ws_record_bytes (w_state w') = ws_record_bytes (w_state w) + word_of_nat (length (field_rest w f))"

definition field_rank :: "Writer \<Rightarrow> u8 list \<Rightarrow> nat" where
  "field_rank w f = length f + (if ws_in_field (w_state w) then 0 else 1)"

definition delim_fin :: "Writer \<Rightarrow> u8 list \<Rightarrow> Writer \<Rightarrow> bool" where
  "delim_fin w f w' \<longleftrightarrow> w' = w\<lparr>w_state := w_state w'\<rparr> \<and> \<not> ws_in_field (w_state w') \<and> \<not> ws_quoting (w_state w')
     \<and> ws_record_bytes (w_state w') = ws_record_bytes (w_state w) + word_of_nat (length (delim_rest w))"

definition term_call_ok :: "Writer \<Rightarrow> u8 list \<Rightarrow> bool" where
  "term_call_ok w f \<longleftrightarrow> w_term w \<noteq> Nonexhaustive \<and> unat (ws_record_bytes (w_state w)) + 3 + length (term_rest w) < 2 ^ 64
     \<and> (ws_record_bytes (w_state w) = 0 \<longrightarrow> \<not> ws_quoting (w_state w))"

lemma field_rest_state: "ws_in_field st \<Longrightarrow> field_rest (w\<lparr>w_state := st\<rparr>) f = body w (ws_quoting st) f"
  by (simp add: field_rest_def)

sublocale memchr_contract \<subseteq> fc: core_call "field memchr" field_rest "\<lambda>w f. style_ok w" field_rank field_fin
proof
  fix w f out assume "style_ok w"
  then obtain st n e res where s: "field memchr w f out = Some (w\<lparr>w_state := st\<rparr>, overwrite out 0 e, res, n, length e)"
      "n \<le> length f" "length e \<le> length out" "field_rest w f = e @ field_rest (w\<lparr>w_state := st\<rparr>) (drop n f)"
      "ws_record_bytes st = ws_record_bytes (w_state w) + word_of_nat (length e)"
      "ws_in_field (w_state w) \<longrightarrow> ws_in_field st \<and> ws_quoting st = ws_quoting (w_state w)"
      "\<not> ws_in_field (w_state w) \<longrightarrow> ws_quoting st = quotes w f \<and> (\<not> ws_in_field st \<longrightarrow> n = 0 \<and> e = [])"
      "res = InputEmpty \<longrightarrow> n = length f \<and> ws_in_field st"
      "res = OutputFull \<longrightarrow> 2 \<le> length out \<longrightarrow> 0 < n \<or> \<not> ws_in_field (w_state w) \<and> ws_in_field st"
    using core_field_step [of w f out] by blast
  have "fin \<longrightarrow> field_fin w f w''" if "fin \<longleftrightarrow> field_fin (w\<lparr>w_state := st\<rparr>) (drop n f) w''" for fin w''
    using that s(4-7) by (auto simp: field_fin_def ac_simps)
  then show "\<exists>w' e res n. field memchr w f out = Some (w', overwrite out 0 e, res, n, length e) \<and> length e \<le> length out
      \<and> (res = InputEmpty \<longrightarrow> e = field_rest w f \<and> field_fin w f w')
      \<and> (res = OutputFull \<longrightarrow> style_ok w' \<and> field_rest w f = e @ field_rest w' (drop n f)
          \<and> field_rank w' (drop n f) \<le> field_rank w f \<and> (2 \<le> length out \<longrightarrow> field_rank w' (drop n f) < field_rank w f)
          \<and> (\<forall>w''. field_fin w' (drop n f) w'' \<longrightarrow> field_fin w f w''))"
    using s \<open>style_ok w\<close>
    by (intro exI [of _ "w\<lparr>w_state := st\<rparr>"] exI [of _ e] exI [of _ res] exI [of _ n])
      (auto simp: field_rest_state field_rank_def field_fin_def)
qed

interpretation dc: core_call delimiter_op "\<lambda>w f. delim_rest w" "\<lambda>w f. True" "\<lambda>w f. length (delim_rest w)" delim_fin
proof
  fix w f out
  obtain w' o' res n where d: "delimiter w out = (w', o', res, n)" by (cases "delimiter w out") auto
  obtain e where e: "w' = w\<lparr>w_state := w_state w'\<rparr>" "o' = overwrite out 0 e" "n = length e" "n \<le> length out"
      "ws_record_bytes (w_state w') = ws_record_bytes (w_state w) + word_of_nat n"
      "res = InputEmpty \<longrightarrow> e = delim_rest w \<and> \<not> ws_in_field (w_state w') \<and> \<not> ws_quoting (w_state w')"
      "res = OutputFull \<longrightarrow> delim_rest w = e @ delim_rest w' \<and> (2 \<le> length out \<longrightarrow> e \<noteq> [])"
    using delimiter_step [OF d] by blast
  have "w\<lparr>w_state := st\<rparr> = w'\<lparr>w_state := st\<rparr>" for st using e(1) by (metis Writer.surjective Writer.update_convs(1))
  then have fin: "delim_fin w f' w''" if "delim_fin w' f' w''" "res = OutputFull" for f' w''
    using that e(3,5,7) by (auto simp: delim_fin_def)
  show "\<exists>w' e res n. delimiter_op w f out = Some (w', overwrite out 0 e, res, n, length e) \<and> length e \<le> length out
      \<and> (res = InputEmpty \<longrightarrow> e = delim_rest w \<and> delim_fin w f w')
      \<and> (res = OutputFull \<longrightarrow> True \<and> delim_rest w = e @ delim_rest w'
          \<and> length (delim_rest w') \<le> length (delim_rest w) \<and> (2 \<le> length out \<longrightarrow> length (delim_rest w') < length (delim_rest w))
          \<and> (\<forall>w''. delim_fin w' (drop n f) w'' \<longrightarrow> delim_fin w f w''))"
    using d e fin
    by (intro exI [of _ w'] exI [of _ e] exI [of _ res] exI [of _ 0]) (auto simp: delimiter_op_def delim_fin_def)
qed

interpretation tc: core_call terminator_op "\<lambda>w f. term_rest w" term_call_ok "\<lambda>w f. length (term_rest w)"
  "\<lambda>w f w'. w' = w\<lparr>w_state := wstate_default\<rparr>"
proof
  fix w f out assume ok: "term_call_ok w f"
  then obtain w' e res where e: "terminator w out = Some (w', overwrite out 0 e, res, length e)" "length e \<le> length out"
      "w' = w\<lparr>w_state := w_state w'\<rparr>" "res = InputEmpty \<longrightarrow> e = term_rest w \<and> w_state w' = wstate_default"
      "res = OutputFull \<longrightarrow> term_rest w = e @ term_rest w' \<and> (2 \<le> length out \<longrightarrow> e \<noteq> [])
          \<and> unat (ws_record_bytes (w_state w')) \<le> unat (ws_record_bytes (w_state w)) + length e
          \<and> (ws_record_bytes (w_state w') = 0 \<longrightarrow> \<not> ws_quoting (w_state w'))"
    using terminator_step [of w out] by (auto simp: term_call_ok_def)
  have w': "w'\<lparr>w_state := st\<rparr> = w\<lparr>w_state := st\<rparr>" "w_term w' = w_term w" for st
    using e(3) by (metis Writer.surjective Writer.update_convs(1), metis Writer.select_convs(4) Writer.surjective Writer.update_convs(1))
  show "\<exists>w' e res n. terminator_op w f out = Some (w', overwrite out 0 e, res, n, length e) \<and> length e \<le> length out
      \<and> (res = InputEmpty \<longrightarrow> e = term_rest w \<and> w' = w\<lparr>w_state := wstate_default\<rparr>)
      \<and> (res = OutputFull \<longrightarrow> term_call_ok w' (drop n f) \<and> term_rest w = e @ term_rest w'
          \<and> length (term_rest w') \<le> length (term_rest w) \<and> (2 \<le> length out \<longrightarrow> length (term_rest w') < length (term_rest w))
          \<and> (\<forall>w''. w'' = w'\<lparr>w_state := wstate_default\<rparr> \<longrightarrow> w'' = w\<lparr>w_state := wstate_default\<rparr>))"
    using e ok w'
    by (intro exI [of _ w'] exI [of _ e] exI [of _ res] exI [of _ 0]) (auto simp: terminator_op_def term_call_ok_def)
qed

end
