(* ===== verification/Csv_Out_Props.thy ===== *)
theory Csv_Out_Props
  imports Csv_Out_Correct
begin

text \<open>
  What the buffered CSV writer puts out: a record is its encoded fields, separated and terminated,
  whatever the buffer size and however the inner writer's errors fall; the fast path for byte records
  writes the same bytes.
\<close>

section \<open>The encoding of a record\<close>

definition enc_field :: "Writer \<Rightarrow> u8 list \<Rightarrow> u8 list" where
  "enc_field w f = (if quotes w f then w_quote w # body w True f @ [w_quote w] else f)"

fun rec_body :: "Writer \<Rightarrow> u8 list list \<Rightarrow> u8 list" where
  "rec_body w [] = []"
| "rec_body w [f] = enc_field w f"
| "rec_body w (f # g # fs) = enc_field w f @ w_delimiter w # rec_body w (g # fs)"

definition rec_bytes :: "Writer \<Rightarrow> u8 list list \<Rightarrow> u8 list" where
  "rec_bytes w fs = (if rec_body w fs = [] then [w_quote w, w_quote w] else rec_body w fs) @ term_bytes w"

lemma rec_body_snoc: "fs \<noteq> [] \<Longrightarrow> rec_body w (fs @ [f]) = rec_body w fs @ w_delimiter w # enc_field w f"
  by (induction w fs rule: rec_body.induct) auto

lemma body_False [simp]: "body w False f = f"
  by (simp add: body_def)

lemma enc_field_state [simp]: "enc_field (w\<lparr>w_state := st\<rparr>) f = enc_field w f"
  by (simp add: enc_field_def)

lemma rec_body_state [simp]: "rec_body (w\<lparr>w_state := st\<rparr>) fs = rec_body w fs"
  by (induction w fs rule: rec_body.induct) simp_all

section \<open>Between the fields of a record\<close>

text \<open>
  \<open>mid contents W0 fs W\<close>: from \<open>W0\<close>, at the start of a record, the fields \<open>fs\<close> have been written; the closing
  quote of the last one is still owed.
\<close>

definition mid :: "('w \<Rightarrow> u8 list) \<Rightarrow> 'w CsvWriter \<Rightarrow> u8 list list \<Rightarrow> 'w CsvWriter \<Rightarrow> bool" where
  "mid contents W0 fs W \<longleftrightarrow> buf_ok W
     \<and> cw_core W = (cw_core W0)\<lparr>w_state := w_state (cw_core W)\<rparr>
     \<and> cw_state W = (cw_state W0)\<lparr>cs_fields_written := word_of_nat (length fs)\<rparr>
     \<and> (if fs = [] then w_state (cw_core W) = wstate_default
        else ws_in_field (w_state (cw_core W)) \<and> ws_quoting (w_state (cw_core W)) = quotes (cw_core W0) (last fs))
     \<and> (\<exists>xs. emitted contents W = emitted contents W0 @ xs \<and> xs @ closing (cw_core W) = rec_body (cw_core W0) fs
          \<and> ws_record_bytes (w_state (cw_core W)) = word_of_nat (length xs))"

text \<open>\<open>before_field\<close>: the same when the delimiter that precedes the next field \<open>f\<close>, if any, is out.\<close>

definition before_field :: "('w \<Rightarrow> u8 list) \<Rightarrow> 'w CsvWriter \<Rightarrow> u8 list list \<Rightarrow> u8 list \<Rightarrow> 'w CsvWriter \<Rightarrow> bool" where
  "before_field contents W0 fs f W \<longleftrightarrow> buf_ok W
     \<and> cw_core W = (cw_core W0)\<lparr>w_state := w_state (cw_core W)\<rparr>
     \<and> cw_state W = (cw_state W0)\<lparr>cs_fields_written := word_of_nat (length fs)\<rparr>
     \<and> \<not> ws_in_field (w_state (cw_core W)) \<and> \<not> ws_quoting (w_state (cw_core W))
     \<and> (\<exists>xs. emitted contents W = emitted contents W0 @ xs \<and> rec_body (cw_core W0) (fs @ [f]) = xs @ enc_field (cw_core W0) f
          \<and> ws_record_bytes (w_state (cw_core W)) = word_of_nat (length xs))"

lemma fields_written_pos: "length fs < 2 ^ 64 \<Longrightarrow> 0 < (word_of_nat (length fs) :: u64) \<longleftrightarrow> fs \<noteq> []"
  by (auto simp: word_less_nat_alt unat_of_nat)

text \<open>Reaching a state only through its fields: the configuration of the core writer never changes.\<close>

lemma core_configD:
  assumes "w = c\<lparr>w_state := w_state w\<rparr>"
  shows "quotes w f = quotes c f" "body w y f = body c y f" "w_quote w = w_quote c" "w_delimiter w = w_delimiter c"
    "style_ok w = style_ok c" "w_term w = w_term c" "term_bytes w = term_bytes c" "w\<lparr>w_state := st\<rparr> = c\<lparr>w_state := st\<rparr>"
  by (subst assms, simp add: term_bytes_def; fail)+

lemma rec_body_quoted: "fs \<noteq> [] \<Longrightarrow> quotes w (last fs) \<Longrightarrow> 2 \<le> length (rec_body w fs)"
  by (induction w fs rule: rec_body.induct) (auto simp: enc_field_def)

definition at_record_start :: "'w CsvWriter \<Rightarrow> bool" where
  "at_record_start W \<longleftrightarrow> buf_ok W \<and> w_state (cw_core W) = wstate_default \<and> cs_fields_written (cw_state W) = 0
     \<and> style_ok (cw_core W) \<and> w_term (cw_core W) \<noteq> Nonexhaustive"

definition count_ok :: "'w CsvWriter \<Rightarrow> nat \<Rightarrow> bool" where
  "count_ok W n \<longleftrightarrow> cs_flexible (cw_state W) \<or> cs_first_field_count (cw_state W) \<in> {None, Some (word_of_nat n)}"

definition count_state :: "'w CsvWriter \<Rightarrow> nat \<Rightarrow> CsvWriterState" where
  "count_state W n = (if cs_flexible (cw_state W) then cw_state W
     else (cw_state W)\<lparr>cs_first_field_count := Some (word_of_nat n)\<rparr>)"

lemma mid_start: "at_record_start W \<Longrightarrow> mid contents W [] W"
  by (auto simp: at_record_start_def mid_def wstate_default_def closing_def)

lemma check_field_count_ok:
  assumes "cw_state W = (cw_state W0)\<lparr>cs_fields_written := word_of_nat n\<rparr>"
  shows "\<exists>W' r. (check_field_count W :: 'w CsvWriter \<times> ('e ErrorKind + unit)) = (W', r)
    \<and> (count_ok W0 n \<longrightarrow> r = Inr () \<and> W' = W\<lparr>cw_state := (count_state W0 n)\<lparr>cs_fields_written := word_of_nat n\<rparr>\<rparr>)
    \<and> (\<not> count_ok W0 n \<longrightarrow> W' = W \<and> (\<exists>k. cs_first_field_count (cw_state W0) = Some k \<and> r = Inl (UnequalLengths None k (word_of_nat n))))"
  using assms
  by (cases "cw_state W0") (auto simp: check_field_count_def count_ok_def count_state_def Let_def split: option.splits)

locale csv_env = memchr_contract memchr + sink_contract write_all contents
  for memchr and write_all :: "('w, 'e) write_all" and contents
begin

sublocale fd: flush_driver "field memchr" field_rest "\<lambda>w f. style_ok w" field_rank field_fin write_all contents ..

sublocale dd: flush_driver delimiter_op "\<lambda>w f. delim_rest w" "\<lambda>w f. True" "\<lambda>w f. length (delim_rest w)" delim_fin write_all contents ..

sublocale td: flush_driver terminator_op "\<lambda>w f. term_rest w" term_call_ok "\<lambda>w f. length (term_rest w)"
  "\<lambda>w f w'. w' = w\<lparr>w_state := wstate_default\<rparr>" write_all contents ..

lemma delimiter_part:
  assumes "mid contents W0 fs W" and "length fs < 2 ^ 64"
  shows "\<exists>W' r. (if 0 < cs_fields_written (cw_state W) then write_delimiter write_all W else Some (Some (W, Inr ()))) = Some (Some (W', r))
    \<and> buf_ok W' \<and> (r = Inr () \<longrightarrow> before_field contents W0 fs f W') \<and> (\<forall>er. r = Inl er \<longrightarrow> (\<exists>x. er = Io x))
    \<and> (reliable write_all \<longrightarrow> r = Inr ())"
proof (cases "fs = []")
  case True
  then show ?thesis
    using assms by (auto simp: mid_def before_field_def wstate_default_def closing_def)
next
  case False
  obtain xs where m: "buf_ok W" "cw_core W = (cw_core W0)\<lparr>w_state := w_state (cw_core W)\<rparr>"
      "cw_state W = (cw_state W0)\<lparr>cs_fields_written := word_of_nat (length fs)\<rparr>"
      "emitted contents W = emitted contents W0 @ xs" "xs @ closing (cw_core W) = rec_body (cw_core W0) fs"
      "ws_record_bytes (w_state (cw_core W)) = word_of_nat (length xs)"
    using assms(1) by (auto simp: mid_def)
  obtain W' r where d: "flush_loop write_all delimiter_op W [] = Some (Some (W', r))" "buf_ok W'" "cw_state W' = cw_state W"
      "r = Inr () \<longrightarrow> emitted contents W' = emitted contents W @ delim_rest (cw_core W) \<and> delim_fin (cw_core W) [] (cw_core W')"
      "\<forall>er. r = Inl er \<longrightarrow> (\<exists>x. er = Io x)" "reliable write_all \<longrightarrow> r = Inr ()"
    using dd.flush_loop_ok [OF m(1), of "[]"] by blast
  have pos: "0 < cs_fields_written (cw_state W)" using m(3) fields_written_pos [OF assms(2)] False by simp
  have "before_field contents W0 fs f W'" if r: "r = Inr ()"
  proof -
    have fin: "cw_core W' = (cw_core W)\<lparr>w_state := w_state (cw_core W')\<rparr>" "\<not> ws_in_field (w_state (cw_core W'))"
        "\<not> ws_quoting (w_state (cw_core W'))"
        "ws_record_bytes (w_state (cw_core W')) = ws_record_bytes (w_state (cw_core W)) + word_of_nat (length (delim_rest (cw_core W)))"
      using d(4) r unfolding delim_fin_def by blast+
    have core: "cw_core W' = (cw_core W0)\<lparr>w_state := w_state (cw_core W')\<rparr>"
      using fin(1) core_configD(8) [OF m(2)] by metis
    have em: "emitted contents W' = emitted contents W0 @ (xs @ delim_rest (cw_core W))" using d(4) r m(4) by simp
    have body: "rec_body (cw_core W0) (fs @ [f]) = (xs @ delim_rest (cw_core W)) @ enc_field (cw_core W0) f"
      using rec_body_snoc [OF False] m(5) core_configD(4) [OF m(2)] by (simp add: delim_rest_def)
    show ?thesis
      unfolding before_field_def
      using d(2,3) m(3,6) core fin(2-4) em body by (intro conjI exI [of _ "xs @ delim_rest (cw_core W)"]) simp_all
  qed
  then show ?thesis using d pos by (auto simp: write_delimiter_def)
qed

lemma write_field_impl_ok:
  assumes "mid contents W0 fs W" and "length fs < 2 ^ 64" and "style_ok (cw_core W0)"
  shows "\<exists>W' r. write_field_impl memchr write_all W f = Some (Some (W', r)) \<and> buf_ok W'
    \<and> (r = Inr () \<longrightarrow> mid contents W0 (fs @ [f]) W') \<and> (\<forall>er. r = Inl er \<longrightarrow> (\<exists>x. er = Io x))
    \<and> (reliable write_all \<longrightarrow> r = Inr ())"
proof -
  obtain W1 r1 where d: "(if 0 < cs_fields_written (cw_state W) then write_delimiter write_all W else Some (Some (W, Inr ()))) = Some (Some (W1, r1))"
      "buf_ok W1" "r1 = Inr () \<longrightarrow> before_field contents W0 fs f W1" "\<forall>er. r1 = Inl er \<longrightarrow> (\<exists>x. er = Io x)"
      "reliable write_all \<longrightarrow> r1 = Inr ()"
    using delimiter_part [OF assms(1,2)] by blast
  show ?thesis
  proof (cases r1)
    case (Inl e)
    then show ?thesis using d by (simp add: write_field_impl_def and_then_def)
  next
    case (Inr u)
    then obtain xs where b: "cw_core W1 = (cw_core W0)\<lparr>w_state := w_state (cw_core W1)\<rparr>"
        "cw_state W1 = (cw_state W0)\<lparr>cs_fields_written := word_of_nat (length fs)\<rparr>"
        "\<not> ws_in_field (w_state (cw_core W1))" "emitted contents W1 = emitted contents W0 @ xs"
        "rec_body (cw_core W0) (fs @ [f]) = xs @ enc_field (cw_core W0) f"
        "ws_record_bytes (w_state (cw_core W1)) = word_of_nat (length xs)"
      using d(3) unfolding before_field_def by auto
    note cfg = core_configD [OF b(1)]
    obtain W2 r2 where l: "flush_loop write_all (field memchr) W1 f = Some (Some (W2, r2))" "buf_ok W2" "cw_state W2 = cw_state W1"
        "r2 = Inr () \<longrightarrow> emitted contents W2 = emitted contents W1 @ field_rest (cw_core W1) f \<and> field_fin (cw_core W1) f (cw_core W2)"
        "\<forall>er. r2 = Inl er \<longrightarrow> (\<exists>x. er = Io x)" "reliable write_all \<longrightarrow> r2 = Inr ()"
      using fd.flush_loop_ok [OF d(2), of f] cfg(5) assms(3) by blast
    let ?W = "set_fields_written W2 (cs_fields_written (cw_state W2) + 1)"
    have "mid contents W0 (fs @ [f]) ?W" if r: "r2 = Inr ()"
    proof -
      have fin: "cw_core W2 = (cw_core W1)\<lparr>w_state := w_state (cw_core W2)\<rparr>" "ws_in_field (w_state (cw_core W2))"
          "ws_quoting (w_state (cw_core W2)) = quotes (cw_core W0) f"
          "ws_record_bytes (w_state (cw_core W2)) = word_of_nat (length xs + length (field_rest (cw_core W1) f))"
        using l(4) r b(3,6) cfg(1) unfolding field_fin_def by auto
      have core: "cw_core W2 = (cw_core W0)\<lparr>w_state := w_state (cw_core W2)\<rparr>" using fin(1) cfg(8) by metis
      have "field_rest (cw_core W1) f @ closing (cw_core W2) = enc_field (cw_core W0) f"
        using b(3) cfg core_configD(3) [OF core] fin(3) by (auto simp: field_rest_def closing_def enc_field_def)
      then show ?thesis
        unfolding mid_def
        using core fin(2-4) l(2-4) r b(2,4,5)
        by (intro conjI) (auto simp: set_fields_written_def buf_ok_def emitted_def intro!: exI [of _ "xs @ field_rest (cw_core W1) f"])
    qed
    moreover have "buf_ok ?W" using l(2) by (simp add: buf_ok_def set_fields_written_def)
    ultimately show ?thesis
      using d l Inr by (cases r2) (auto simp: write_field_impl_def and_then_def)
  qed
qed

lemma write_fields_ok:
  assumes "mid contents W0 done W" and "length (done @ fs) < 2 ^ 64" and "style_ok (cw_core W0)"
  shows "\<exists>W' r. write_fields memchr write_all W fs = Some (Some (W', r)) \<and> buf_ok W'
    \<and> (r = Inr () \<longrightarrow> mid contents W0 (done @ fs) W') \<and> (\<forall>er. r = Inl er \<longrightarrow> (\<exists>x. er = Io x))
    \<and> (reliable write_all \<longrightarrow> r = Inr ())"
  using assms(1,2)
proof (induction fs arbitrary: "done" W)
  case Nil
  then show ?case by (simp add: mid_def)
next
  case (Cons f fs)
  have "length done < 2 ^ 64" using Cons.prems(2) by simp
  then obtain W1 r1 where f: "write_field_impl memchr write_all W f = Some (Some (W1, r1))" "buf_ok W1"
      "r1 = Inr () \<longrightarrow> mid contents W0 (done @ [f]) W1" "\<forall>er. r1 = Inl er \<longrightarrow> (\<exists>x. er = Io x)" "reliable write_all \<longrightarrow> r1 = Inr ()"
    using write_field_impl_ok [OF Cons.prems(1) _ assms(3)] by blast
  show ?case
  proof (cases r1)
    case (Inl e)
    then show ?thesis using f by (simp add: and_then_def)
  next
    case (Inr u)
    then show ?thesis using f Cons.IH [of "done @ [f]" W1] Cons.prems(2) by (simp add: and_then_def)
  qed
qed

lemma term_rest_mid:
  assumes "mid contents W0 fs W" and "w_term (cw_core W0) \<noteq> Nonexhaustive" and "length (rec_body (cw_core W0) fs) + 8 < 2 ^ 64"
  shows "term_call_ok (cw_core W) []"
    and "emitted contents W @ term_rest (cw_core W) = emitted contents W0 @ rec_bytes (cw_core W0) fs"
proof -
  obtain xs where m: "cw_core W = (cw_core W0)\<lparr>w_state := w_state (cw_core W)\<rparr>"
      "emitted contents W = emitted contents W0 @ xs" "xs @ closing (cw_core W) = rec_body (cw_core W0) fs"
      "ws_record_bytes (w_state (cw_core W)) = word_of_nat (length xs)"
      "if fs = [] then w_state (cw_core W) = wstate_default
       else ws_in_field (w_state (cw_core W)) \<and> ws_quoting (w_state (cw_core W)) = quotes (cw_core W0) (last fs)"
    using assms(1) by (auto simp: mid_def)
  note cfg = core_configD [OF m(1)]
  have len: "length xs + 8 < 2 ^ 64" using assms(3) arg_cong [OF m(3), of length] by simp
  then have rb: "unat (ws_record_bytes (w_state (cw_core W))) = length xs" using m(4) by (simp add: unat_of_nat)
  have empty: "xs \<noteq> [] \<or> \<not> ws_quoting (w_state (cw_core W))"
    using m(5) rec_body_quoted [of fs "cw_core W0"] arg_cong [OF m(3), of length]
    by (auto simp: closing_def wstate_default_def split: if_splits)
  have zero: "ws_record_bytes (w_state (cw_core W)) = 0 \<longleftrightarrow> xs = []"
    using rb by (metis length_0_conv unat_eq_0)
  have "length (term_bytes (cw_core W)) \<le> 2" by (simp add: term_bytes_def split: Terminator.splits)
  then have "length (term_rest (cw_core W)) \<le> 5" by (simp add: term_rest_def closing_def)
  then show "term_call_ok (cw_core W) []"
    using len rb empty zero cfg(6) assms(2) by (auto simp: term_call_ok_def)
  show "emitted contents W @ term_rest (cw_core W) = emitted contents W0 @ rec_bytes (cw_core W0) fs"
    using m(2,3) zero empty cfg by (auto simp: term_rest_def rec_bytes_def closing_def)
qed

lemma write_terminator_ok:
  assumes "mid contents W0 fs W" and "w_term (cw_core W0) \<noteq> Nonexhaustive" and "length (rec_body (cw_core W0) fs) + 8 < 2 ^ 64"
  shows "\<exists>W' r. write_terminator write_all W = Some (Some (W', r)) \<and> buf_ok W'
    \<and> (r = Inr () \<longrightarrow> count_ok W0 (length fs) \<and> emitted contents W' = emitted contents W0 @ rec_bytes (cw_core W0) fs
        \<and> cw_core W' = (cw_core W0)\<lparr>w_state := wstate_default\<rparr> \<and> cw_state W' = (count_state W0 (length fs))\<lparr>cs_fields_written := 0\<rparr>)
    \<and> (\<not> count_ok W0 (length fs) \<longrightarrow> (\<exists>k. r = Inl (UnequalLengths None k (word_of_nat (length fs)))))
    \<and> (count_ok W0 (length fs) \<longrightarrow> (\<forall>er. r = Inl er \<longrightarrow> (\<exists>x. er = Io x)) \<and> (reliable write_all \<longrightarrow> r = Inr ()))"
proof -
  have m: "buf_ok W" "cw_state W = (cw_state W0)\<lparr>cs_fields_written := word_of_nat (length fs)\<rparr>"
      "cw_core W = (cw_core W0)\<lparr>w_state := w_state (cw_core W)\<rparr>"
    using assms(1) unfolding mid_def by blast+
  obtain W1 and r1 :: "'e ErrorKind + unit" where c: "check_field_count W = (W1, r1)"
      "count_ok W0 (length fs) \<longrightarrow> r1 = Inr () \<and> W1 = W\<lparr>cw_state := (count_state W0 (length fs))\<lparr>cs_fields_written := word_of_nat (length fs)\<rparr>\<rparr>"
      "\<not> count_ok W0 (length fs) \<longrightarrow> W1 = W \<and> (\<exists>k. cs_first_field_count (cw_state W0) = Some k \<and> r1 = Inl (UnequalLengths None k (word_of_nat (length fs))))"
    using check_field_count_ok [OF m(2)] by blast
  show ?thesis
  proof (cases "count_ok W0 (length fs)")
    case False
    then show ?thesis using c m(1) by (auto simp: write_terminator_def and_then_def)
  next
    case True
    then have W1: "r1 = Inr ()" "cw_core W1 = cw_core W" "emitted contents W1 = emitted contents W" "buf_ok W1"
        "cw_state W1 = (count_state W0 (length fs))\<lparr>cs_fields_written := word_of_nat (length fs)\<rparr>"
      using c(2) m by (auto simp: emitted_def buf_ok_def count_state_def)
    note t = term_rest_mid [OF assms]
    obtain W2 r2 where l: "flush_loop write_all terminator_op W1 [] = Some (Some (W2, r2))" "buf_ok W2" "cw_state W2 = cw_state W1"
        "r2 = Inr () \<longrightarrow> emitted contents W2 = emitted contents W1 @ term_rest (cw_core W1) \<and> cw_core W2 = (cw_core W1)\<lparr>w_state := wstate_default\<rparr>"
        "\<forall>er. r2 = Inl er \<longrightarrow> (\<exists>x. er = Io x)" "reliable write_all \<longrightarrow> r2 = Inr ()"
      using td.flush_loop_ok [OF W1(4), of "[]"] t(1) W1(2) by auto
    have core: "cw_core W2 = (cw_core W0)\<lparr>w_state := wstate_default\<rparr>" "emitted contents W2 = emitted contents W0 @ rec_bytes (cw_core W0) fs" if "r2 = Inr ()"
      using l(4) that W1(2,3) core_configD(8) [OF m(3)] t(2) by auto
    show ?thesis
      using True c(1) W1 l core by (cases r2) (auto simp: write_terminator_def and_then_def set_fields_written_def buf_ok_def emitted_def)
  qed
qed

lemma write_record_ok:
  assumes "at_record_start W" and "length fs < 2 ^ 64" and "length (rec_body (cw_core W) fs) + 8 < 2 ^ 64"
  shows "\<exists>W' r. write_record memchr write_all W fs = Some (Some (W', r)) \<and> buf_ok W'
    \<and> (r = Inr () \<longrightarrow> count_ok W (length fs) \<and> emitted contents W' = emitted contents W @ rec_bytes (cw_core W) fs
        \<and> at_record_start W' \<and> cw_core W' = cw_core W \<and> cw_state W' = count_state W (length fs))
    \<and> (\<forall>er. r = Inl er \<longrightarrow> (\<exists>x. er = Io x) \<or> \<not> count_ok W (length fs) \<and> (\<exists>k. er = UnequalLengths None k (word_of_nat (length fs))))
    \<and> (reliable write_all \<longrightarrow> count_ok W (length fs) \<longrightarrow> r = Inr ())"
proof -
  have start: "style_ok (cw_core W)" "w_term (cw_core W) \<noteq> Nonexhaustive" "w_state (cw_core W) = wstate_default"
      "cs_fields_written (cw_state W) = 0"
    using assms(1) by (auto simp: at_record_start_def)
  have same: "(cw_core W)\<lparr>w_state := wstate_default\<rparr> = cw_core W" "(count_state W n)\<lparr>cs_fields_written := 0\<rparr> = count_state W n" for n
    using start(3,4) by (metis Writer.surjective Writer.update_convs(1), cases "cw_state W") (auto simp: count_state_def)
  obtain W1 r1 where f: "write_fields memchr write_all W fs = Some (Some (W1, r1))" "buf_ok W1"
      "r1 = Inr () \<longrightarrow> mid contents W fs W1" "\<forall>er. r1 = Inl er \<longrightarrow> (\<exists>x. er = Io x)" "reliable write_all \<longrightarrow> r1 = Inr ()"
    using write_fields_ok [OF mid_start [OF assms(1)], of fs] assms(2) start(1) by auto
  show ?thesis
  proof (cases r1)
    case (Inl e)
    then show ?thesis using f by (simp add: write_record_def and_then_def)
  next
    case (Inr u)
    then have "mid contents W fs W1" using f(3) by simp
    from write_terminator_ok [OF this start(2) assms(3)] obtain W2 r where t: "write_terminator write_all W1 = Some (Some (W2, r))" "buf_ok W2"
        "r = Inr () \<longrightarrow> count_ok W (length fs) \<and> emitted contents W2 = emitted contents W @ rec_bytes (cw_core W) fs
          \<and> cw_core W2 = cw_core W \<and> cw_state W2 = count_state W (length fs)"
        "\<not> count_ok W (length fs) \<longrightarrow> (\<exists>k. r = Inl (UnequalLengths None k (word_of_nat (length fs))))"
        "count_ok W (length fs) \<longrightarrow> (\<forall>er. r = Inl er \<longrightarrow> (\<exists>x. er = Io x)) \<and> (reliable write_all \<longrightarrow> r = Inr ())"
      unfolding same by blast
    have "at_record_start W2" if "r = Inr ()"
      using t(2,3) that assms(1) by (auto simp: at_record_start_def count_state_def)
    then show ?thesis
      using f(1) Inr t by (cases "count_ok W (length fs)") (auto simp: write_record_def and_then_def)
  qed
qed

end

end
