(* ===== verification/Csv_Fast.thy ===== *)
theory Csv_Fast
  imports Csv_Out_Props
begin

text \<open>
  The fast path of \<^verbatim>\<open>write_byte_record\<close>: when the worst-case size fits, the record is laid out directly in the
  buffer. It never indexes out of range and puts out the bytes of \<^verbatim>\<open>write_record\<close>. Then the properties of
  the buffered writer.
\<close>

section \<open>Filling the buffer\<close>

definition used :: "Buffer \<Rightarrow> u8 list" where
  "used b = take (bf_len b) (bf_buf b)"

definition free :: "Buffer \<Rightarrow> nat" where
  "free b = length (bf_buf b) - bf_len b"

text \<open>\<open>appended b xs b'\<close>: \<open>b'\<close> is \<open>b\<close> with \<open>xs\<close> added to the bytes written.\<close>

definition appended :: "Buffer \<Rightarrow> u8 list \<Rightarrow> Buffer \<Rightarrow> bool" where
  "appended b xs b' \<longleftrightarrow> bf_len b' = bf_len b + length xs \<and> length (bf_buf b') = length (bf_buf b) \<and> bf_len b' \<le> length (bf_buf b')
     \<and> used b' = used b @ xs"

lemma appended_trans: "appended b xs c \<Longrightarrow> appended c ys d \<Longrightarrow> appended b (xs @ ys) d"
  by (simp add: appended_def)

lemma appended_free: "appended b xs c \<Longrightarrow> free c = free b - length xs"
  by (simp add: appended_def free_def)

lemma appended_put_back:
  assumes "bf_len b \<le> length (bf_buf b)" and "length xs \<le> free b"
  shows "appended b xs (bytes_written (put_back b (overwrite (drop (bf_len b) (bf_buf b)) 0 xs)) (length xs))"
  using assms by (auto simp: appended_def bytes_written_def put_back_def overwrite_def used_def free_def)

lemma writable_drop: "bf_len b \<le> length (bf_buf b) \<Longrightarrow> writable b = Some (drop (bf_len b) (bf_buf b))"
  by (simp add: writable_def slice_def)

lemma put_byte_ok:
  assumes "bf_len b \<le> length (bf_buf b)" and "1 \<le> free b"
  shows "\<exists>b'. put_byte b c = Some b' \<and> appended b [c] b'"
  using assms appended_put_back [OF assms(1), of "[c]"]
  by (auto simp: put_byte_def writable_drop store_def free_def overwrite_single)

lemma put_bytes_ok:
  assumes "bf_len b \<le> length (bf_buf b)" and "length xs \<le> free b"
  shows "\<exists>b'. put_bytes b xs = Some b' \<and> appended b xs b'"
  using assms appended_put_back [OF assms] by (auto simp: put_bytes_def writable_drop slice_def free_def)

context memchr_contract
begin

lemma put_quoted_ok:
  assumes "bf_len b \<le> length (bf_buf b)" and "length (body w True f) + 2 \<le> free b"
  shows "\<exists>b'. put_quoted memchr w b f = Some b' \<and> appended b (w_quote w # body w True f @ [w_quote w]) b'"
proof -
  obtain b1 where b1: "put_byte b (w_quote w) = Some b1" "appended b [w_quote w] b1"
    using put_byte_ok [OF assms(1)] assms(2) by fastforce
  have room: "bf_len b1 \<le> length (bf_buf b1)" "length (body w True f) + 1 \<le> free b1"
    using b1(2) assms(2) appended_free [OF b1(2)] by (auto simp: appended_def)
  let ?out = "drop (bf_len b1) (bf_buf b1)"
  obtain k where k: "quote_outcome (w_quote w) (w_escape w) (w_double_quote w) f (length ?out) 0 k"
      "quote memchr f ?out 0 (w_quote w) (w_escape w) (w_double_quote w)
        = Some (if k = length f then InputEmpty else OutputFull, k, length (body w True (take k f)), overwrite ?out 0 (body w True (take k f)))"
    using quote_spec [of 0 ?out "w_quote w" "w_escape w" "w_double_quote w" f] by (auto simp: body_def)
  have "k = length f"
  proof (rule ccontr)
    assume "k \<noteq> length f"
    then have "length ?out < length (body w True (take (Suc k) f))" using k(1) by (auto simp: quote_outcome_def body_def)
    also have "\<dots> \<le> length (body w True f)" by (subst (2) body_take_drop [of _ _ _ "Suc k"]) simp
    finally show False using room by (simp add: free_def)
  qed
  define b2 where "b2 = bytes_written (put_back b1 (overwrite ?out 0 (body w True f))) (length (body w True f))"
  have b2: "appended b1 (body w True f) b2" unfolding b2_def using room by (intro appended_put_back) auto
  then have "bf_len b2 \<le> length (bf_buf b2)" "1 \<le> free b2"
    using room appended_free [OF b2] by (auto simp: appended_def)
  from put_byte_ok [OF this, of "w_quote w"] obtain b3 where b3: "put_byte b2 (w_quote w) = Some b3" "appended b2 [w_quote w] b3" by blast
  have "put_quoted memchr w b f = Some b3"
    using b1(1) k(2) \<open>k = length f\<close> b3(1) by (simp add: put_quoted_def writable_drop [OF room(1)] b2_def)
  then show ?thesis using appended_trans [OF b1(2) appended_trans [OF b2 b3(2)]] by simp
qed

lemma put_field_ok:
  assumes "bf_len b \<le> length (bf_buf b)" and "length (enc_field w f) \<le> free b"
  shows "\<exists>b'. (if \<not> quotes w f then put_bytes b f else put_quoted memchr w b f) = Some b' \<and> appended b (enc_field w f) b'"
  using put_bytes_ok [OF assms(1), of f] put_quoted_ok [OF assms(1), of w f] assms(2) by (auto simp: enc_field_def)

lemma put_fields_ok:
  assumes "style_ok w" and "bf_len b \<le> length (bf_buf b)"
    and "length (concat (map (\<lambda>f. w_delimiter w # enc_field w f) fs)) \<le> free b"
  shows "\<exists>b'. put_fields memchr w False b fs = Some b' \<and> appended b (concat (map (\<lambda>f. w_delimiter w # enc_field w f) fs)) b'"
  using assms(2,3)
proof (induction fs arbitrary: b)
  case Nil
  then show ?case by (simp add: appended_def)
next
  case (Cons f fs)
  let ?rest = "concat (map (\<lambda>f. w_delimiter w # enc_field w f) fs)"
  obtain b1 where b1: "put_byte b (w_delimiter w) = Some b1" "appended b [w_delimiter w] b1"
    using put_byte_ok [OF Cons.prems(1)] Cons.prems(2) by fastforce
  then have "bf_len b1 \<le> length (bf_buf b1)" "length (enc_field w f @ ?rest) \<le> free b1"
    using Cons.prems(2) appended_free [OF b1(2)] by (auto simp: appended_def)
  moreover from this obtain b2 where b2: "(if \<not> quotes w f then put_bytes b1 f else put_quoted memchr w b1 f) = Some b2"
      "appended b1 (enc_field w f) b2"
    using put_field_ok [of b1 w f] by auto
  ultimately have "bf_len b2 \<le> length (bf_buf b2)" "length ?rest \<le> free b2"
    using appended_free [OF b2(2)] b2(2) by (auto simp: appended_def)
  from Cons.IH [OF this] obtain b3 where b3: "put_fields memchr w False b2 fs = Some b3" "appended b2 ?rest b3" by blast
  have "put_fields memchr w False b (f # fs) = Some b3"
    using b1(1) b2(1) b3(1) by (simp add: should_quote_quotes [OF assms(1)] split: if_splits)
  then show ?case using appended_trans [OF b1(2) appended_trans [OF b2(2) b3(2)]] by simp
qed

end

lemma rec_body_Cons: "rec_body w (f # fs) = enc_field w f @ concat (map (\<lambda>f. w_delimiter w # enc_field w f) fs)"
  by (induction fs arbitrary: f) auto

lemma length_enc_field: "length (enc_field w f) \<le> 2 * length f + 2"
  using length_escaped [of "w_quote w" "w_escape w" "w_double_quote w" f] by (simp add: enc_field_def body_def)

lemma rec_body_upper_bound: "length (rec_body w fs) + 2 \<le> upper_bound (length (concat fs)) (length fs)"
proof (induction w fs rule: rec_body.induct)
  case (3 w f g fs)
  then show ?case using length_enc_field [of w f] by (simp add: upper_bound_def)
qed (use length_enc_field in \<open>auto simp: upper_bound_def\<close>)

context memchr_contract
begin

lemma put_record_ok:
  assumes "style_ok w" and "bf_len b \<le> length (bf_buf b)" and "length (rec_body w fs) \<le> free b"
  shows "\<exists>b'. put_fields memchr w True b fs = Some b' \<and> appended b (rec_body w fs) b'"
proof (cases fs)
  case Nil
  then show ?thesis using assms(2) by (simp add: appended_def)
next
  case (Cons f gs)
  let ?rest = "concat (map (\<lambda>f. w_delimiter w # enc_field w f) gs)"
  have body: "rec_body w fs = enc_field w f @ ?rest" using Cons by (simp add: rec_body_Cons)
  obtain b1 where b1: "(if \<not> quotes w f then put_bytes b f else put_quoted memchr w b f) = Some b1" "appended b (enc_field w f) b1"
    using put_field_ok [OF assms(2), of w f] assms(3) body by auto
  then have "bf_len b1 \<le> length (bf_buf b1)" "length ?rest \<le> free b1"
    using appended_free [OF b1(2)] assms(3) body by (auto simp: appended_def)
  from put_fields_ok [OF assms(1) this] obtain b2 where b2: "put_fields memchr w False b1 gs = Some b2" "appended b1 ?rest b2" by blast
  have "put_fields memchr w True b fs = Some b2"
    using Cons b1(1) b2(1) by (simp add: should_quote_quotes [OF assms(1)] split: if_splits)
  then show ?thesis using appended_trans [OF b1(2) b2(2)] body by auto
qed

end

section \<open>The terminator in the buffer\<close>

lemma put_term_ok:
  assumes "bf_len (cw_buf W) \<le> length (bf_buf (cw_buf W))" and "2 \<le> free (cw_buf W)" and "w_term (cw_core W) \<noteq> Nonexhaustive"
    and "check_field_count W = (W1, Inr () :: 'e ErrorKind + unit)" and "cw_buf W1 = cw_buf W" and "cw_core W1 = cw_core W"
  shows "\<exists>b. write_terminator_into_buffer W = Some (set_fields_written (W1\<lparr>cw_buf := b\<rparr>) 0, Inr () :: 'e ErrorKind + unit)
    \<and> appended (cw_buf W) (term_bytes (cw_core W)) b"
proof (cases "w_term (cw_core W)")
  case CRLF
  have "overwrite out 0 [CR, LF] = (out[0 := CR])[Suc 0 := LF]" if "2 \<le> length out" for out
    using that by (cases out; cases "tl out") (auto simp: overwrite_def)
  then show ?thesis
    using CRLF assms appended_put_back [OF assms(1), of "[CR, LF]"]
    by (auto simp: write_terminator_into_buffer_def writable_drop store_def free_def term_bytes_def numeral_2_eq_2)
next
  case (Any c)
  obtain b where "put_byte (cw_buf W) c = Some b" "appended (cw_buf W) [c] b" using put_byte_ok [OF assms(1)] assms(2) by fastforce
  then show ?thesis using Any assms by (auto simp: write_terminator_into_buffer_def term_bytes_def)
next
  case Nonexhaustive
  then show ?thesis using assms(3) by simp
qed

lemma appended_emitted: "appended (cw_buf W) xs b \<Longrightarrow> emitted contents (W\<lparr>cw_buf := b\<rparr>) = emitted contents W @ xs"
  by (auto simp: emitted_def appended_def used_def)

context csv_env
begin

lemma write_byte_record_ok:
  assumes "at_record_start W" and "br_ok r" and "br_len r < 2 ^ 64" and "length (rec_body (cw_core W) (fields_of r)) + 8 < 2 ^ 64"
  shows "\<exists>W' res. write_byte_record memchr write_all W r = Some (Some (W', res)) \<and> buf_ok W'
    \<and> (res = Inr () \<longrightarrow> count_ok W (br_len r) \<and> emitted contents W' = emitted contents W @ rec_bytes (cw_core W) (fields_of r)
        \<and> at_record_start W' \<and> cw_core W' = cw_core W \<and> cw_state W' = count_state W (br_len r))
    \<and> (\<forall>er. res = Inl er \<longrightarrow> (\<exists>x. er = Io x) \<or> \<not> count_ok W (br_len r) \<and> (\<exists>k. er = UnequalLengths None k (word_of_nat (br_len r))))
    \<and> (reliable write_all \<longrightarrow> count_ok W (br_len r) \<longrightarrow> res = Inr ())"
proof (cases "concat (fields_of r) = [] \<or> free (cw_buf W) < upper_bound (length (concat (fields_of r))) (br_len r)")
  case True
  have "buf_ok W" using assms(1) by (simp add: at_record_start_def)
  then have "write_byte_record memchr write_all W r = write_record memchr write_all W (fields_of r)"
    using True by (auto simp: write_byte_record_def as_slice_ok [OF assms(2)] br_iter_ok [OF assms(2)] writable_ok free_def)
  then show ?thesis using write_record_ok [OF assms(1), of "fields_of r"] assms(3,4) by simp
next
  case fast: False
  let ?w = "cw_core W" and ?fs = "fields_of r"
  have start: "buf_ok W" "style_ok ?w" "w_term ?w \<noteq> Nonexhaustive" "w_state ?w = wstate_default" "cs_fields_written (cw_state W) = 0"
    using assms(1) by (auto simp: at_record_start_def)
  have len: "bf_len (cw_buf W) \<le> length (bf_buf (cw_buf W))" using start(1) by (simp add: buf_ok_def)
  have room: "length (rec_body ?w ?fs) + 2 \<le> free (cw_buf W)" using rec_body_upper_bound [of ?w ?fs] fast by simp
  then obtain b where b: "put_fields memchr ?w True (cw_buf W) ?fs = Some b" "appended (cw_buf W) (rec_body ?w ?fs) b"
    using put_record_ok [OF start(2) len, of ?fs] by auto
  let ?W = "set_fields_written (W\<lparr>cw_buf := b\<rparr>) (word_of_nat (br_len r))"
  have run: "write_byte_record memchr write_all W r = Some (write_terminator_into_buffer ?W)"
    using fast b(1) start(1) by (auto simp: write_byte_record_def as_slice_ok [OF assms(2)] br_iter_ok [OF assms(2)] writable_ok free_def)
  have ok: "buf_ok ?W" using b(2) start(1) by (simp add: buf_ok_def appended_def set_fields_written_def)
  have fw: "cw_state ?W = (cw_state W)\<lparr>cs_fields_written := word_of_nat (br_len r)\<rparr>" by (simp add: set_fields_written_def)
  obtain W1 and res :: "'e ErrorKind + unit" where c: "check_field_count ?W = (W1, res)"
      "count_ok W (br_len r) \<longrightarrow> res = Inr () \<and> W1 = ?W\<lparr>cw_state := (count_state W (br_len r))\<lparr>cs_fields_written := word_of_nat (br_len r)\<rparr>\<rparr>"
      "\<not> count_ok W (br_len r) \<longrightarrow> W1 = ?W \<and> (\<exists>k. cs_first_field_count (cw_state W) = Some k \<and> res = Inl (UnequalLengths None k (word_of_nat (br_len r))))"
    using check_field_count_ok [OF fw] by blast
  show ?thesis
  proof (cases "count_ok W (br_len r)")
    case False
    then show ?thesis using run c ok by (auto simp: write_terminator_into_buffer_def)
  next
    case True
    have "rec_body ?w ?fs \<noteq> []"
    proof
      assume empty: "rec_body ?w ?fs = []"
      obtain f where "?fs = [f]" "enc_field ?w f = []" using empty fast by (cases "(?w, ?fs)" rule: rec_body.cases) auto
      then show False using fast by (simp add: enc_field_def split: if_splits)
    qed
    then have bytes: "rec_bytes ?w ?fs = rec_body ?w ?fs @ term_bytes ?w" by (simp add: rec_bytes_def)
    have W1: "res = Inr ()" "cw_buf W1 = b" "cw_core W1 = ?w" "cw_wtr W1 = cw_wtr W"
        "cw_state W1 = (count_state W (br_len r))\<lparr>cs_fields_written := word_of_nat (br_len r)\<rparr>"
      using c(2) True by (auto simp: set_fields_written_def)
    have chk: "check_field_count ?W = (W1, Inr () :: 'e ErrorKind + unit)" using c(1) W1(1) by simp
    have view: "cw_buf ?W = b" "cw_core ?W = ?w" by (simp_all add: set_fields_written_def)
    have pre: "bf_len (cw_buf ?W) \<le> length (bf_buf (cw_buf ?W))" "2 \<le> free (cw_buf ?W)" "w_term (cw_core ?W) \<noteq> Nonexhaustive"
      using view start(3) b(2) room appended_free [OF b(2)] by (auto simp: appended_def)
    obtain b2 where t: "write_terminator_into_buffer ?W = Some (set_fields_written (W1\<lparr>cw_buf := b2\<rparr>) 0, Inr () :: 'e ErrorKind + unit)"
        "appended b (term_bytes ?w) b2"
      using put_term_ok [OF pre chk] W1(2,3) view by auto
    let ?W2 = "set_fields_written (W1\<lparr>cw_buf := b2\<rparr>) 0"
    have app: "appended (cw_buf W) (rec_bytes ?w ?fs) b2" using appended_trans [OF b(2) t(2)] bytes by simp
    have "emitted contents ?W2 = emitted contents (W\<lparr>cw_buf := b2\<rparr>)" using W1(4) by (simp add: emitted_def set_fields_written_def)
    then have em: "emitted contents ?W2 = emitted contents W @ rec_bytes ?w ?fs" using appended_emitted [OF app] by simp
    have st: "cw_state ?W2 = count_state W (br_len r)"
      using W1(5) start(5) by (cases "cw_state W") (simp add: set_fields_written_def count_state_def)
    have "buf_ok ?W2" using start(1) app st W1(4) by (auto simp: buf_ok_def appended_def set_fields_written_def count_state_def)
    moreover have "at_record_start ?W2"
      using calculation start st W1(3) by (auto simp: at_record_start_def set_fields_written_def count_state_def)
    ultimately show ?thesis using run t(1) True em st W1(3) by (auto simp: set_fields_written_def)
  qed
qed

end

end
