(* ===== verification/Csv_Writer_Props.thy ===== *)
theory Csv_Writer_Props
  imports Csv_Fast
begin

text \<open>The properties of the CSV writers, core and buffered, with witnesses on concrete writers.\<close>

section \<open>Quoting\<close>

text \<open>Given a \<^verbatim>\<open>memchr\<close> that finds the first occurrence, \<^verbatim>\<open>quote\<close> never panics: it consumes the longest
  prefix of its input whose escaped form fits, writes exactly that form, reports \<open>InputEmpty\<close> exactly when
  everything was consumed, and touches nothing else of the output.\<close>

theorem csv_quote_correct:
  assumes "memchr_contract m" and "pos \<le> length output"
  shows "\<exists>k. quote_outcome q e dq input (length output) pos k
    \<and> quote m input output pos q e dq
      = Some (if k = length input then InputEmpty else OutputFull, k, length (escaped q e dq (take k input)),
          overwrite output pos (escaped q e dq (take k input)))"
  using memchr_contract.quote_spec [OF assms] .

theorem csv_quote_correct_witness:
  "\<exists>k. quote_outcome 34 92 True [97, 34, 98] (length [0, 0, 0 :: u8]) 0 k
    \<and> quote memchr_ref [97, 34, 98] [0, 0, 0] 0 34 92 True
      = Some (if k = length [97, 34, 98 :: u8] then InputEmpty else OutputFull, k, length (escaped 34 92 True (take k [97, 34, 98])),
          overwrite [0, 0, 0] 0 (escaped 34 92 True (take k [97, 34, 98])))"
  by (rule csv_quote_correct [OF mref.memchr_contract_axioms]) simp

definition special_for :: "Writer \<Rightarrow> u8 \<Rightarrow> bool" where
  "special_for b c \<longleftrightarrow> c = w_delimiter b \<or> c = w_quote b \<or> \<not> w_double_quote b \<and> c = w_escape b
     \<or> (case w_term b of
          Terminator.CRLF \<Rightarrow> c = CR \<or> c = LF
        | Any t \<Rightarrow> if t = CR \<or> t = LF then c = CR \<or> c = LF else c = t
        | Nonexhaustive \<Rightarrow> False)"

lemma needs_quotes_loop_ex:
  "case needs_quotes_loop w n xs of (n', rest) \<Rightarrow> (n' \<or> list_ex (is_special_byte w) rest) = (n \<or> list_ex (is_special_byte w) xs)"
proof (induction w n xs rule: needs_quotes_loop.induct)
  case (1 w n xs)
  have sp: "is_special_byte w = (\<lambda>b. w_requires_quotes w ! unat b)" by (simp add: is_special_byte_def fun_eq_iff)
  show ?case
  proof (cases "\<not> n \<and> 8 \<le> length xs")
    case True
    then obtain a b c d e f g h ys where "xs = a # b # c # d # e # f # g # h # ys"
      by (auto simp: numeral_eq_Suc Suc_le_length_iff)
    then show ?thesis
      using 1 [OF True] True by (subst needs_quotes_loop.simps) (simp add: sp disj_assoc)
  next
    case False
    then show ?thesis by (subst needs_quotes_loop.simps) auto
  qed
qed

lemma needs_quotes_ex: "needs_quotes w xs \<longleftrightarrow> list_ex (is_special_byte w) xs"
  using needs_quotes_loop_ex [of w False xs] by (auto simp: needs_quotes_def split: prod.splits)

definition marked :: "bool list \<Rightarrow> u8 \<Rightarrow> bool" where
  "marked t c \<longleftrightarrow> t ! unat c"

lemma marked_require: "length t = 256 \<Longrightarrow> marked (require b t) c \<longleftrightarrow> c = b \<or> marked t c"
  by (auto simp: marked_def require_def nth_list_update simp flip: word_unat_eq_iff)

lemma length_require [simp]: "length (require b t) = length t"
  by (simp add: require_def)

lemma marked_none: "\<not> marked (replicate 256 False) c"
  by (simp add: marked_def)

lemma wbuild_special:
  assumes "wbuild b = Some w" and "w_requires_quotes b = replicate 256 False"
  shows "is_special_byte w c \<longleftrightarrow> special_for b c"
proof -
  have "is_special_byte w c \<longleftrightarrow> marked (w_requires_quotes w) c" by (simp add: is_special_byte_def marked_def)
  then show ?thesis
    using assms
    by (cases "w_term b") (auto simp: wbuild_def special_for_def Let_def marked_require marked_none split: if_splits)
qed

text \<open>On a writer built from a fresh builder, the scan unrolled eight bytes at a time finds a field in need
  of quotes exactly when one of its bytes is the delimiter, the quote, the escape (when quotes are not
  doubled) or a byte of the terminator, where a terminator CR or LF makes both special.\<close>

theorem csv_needs_quotes_correct:
  assumes "wbuild b = Some w" and "w_requires_quotes b = replicate 256 False"
  shows "needs_quotes w f \<longleftrightarrow> list_ex (special_for b) f"
  using wbuild_special [OF assms] by (simp add: needs_quotes_ex list_ex_iff)

definition default_writer :: Writer where
  "default_writer = the (wbuild wbuilder_new)"

lemma default_writer_build: "wbuild wbuilder_new = Some default_writer"
  by (simp add: default_writer_def wbuild_def wbuilder_new_def)

theorem csv_needs_quotes_correct_witness:
  "needs_quotes default_writer [97, 98, 99, 100, 101, 102, 103, 104, 10] \<longleftrightarrow>
     list_ex (special_for wbuilder_new) [97, 98, 99, 100, 101, 102, 103, 104, 10]"
  using csv_needs_quotes_correct [OF default_writer_build, of "[97, 98, 99, 100, 101, 102, 103, 104, 10]"]
  by (simp add: wbuilder_new_def)

section \<open>The buffered writer\<close>

text \<open>C25: Writing a record through the buffered writer always returns, for every buffer of at least two bytes and
  every inner writer that appends what it accepts. When it succeeds, exactly the encoding of the record has
  been added to what the inner writer and the buffer hold together, and the writer is ready for the next
  record; it fails only with the inner writer's error or because the number of fields differs from the
  first record's; and with a reliable inner writer and an agreeing number of fields it succeeds.\<close>

theorem csv_write_record_total:
  assumes "memchr_contract m" and "sink_contract wa contents" and "at_record_start W"
    and "length fs < 2 ^ 64" and "length (rec_body (cw_core W) fs) + 8 < 2 ^ 64"
  shows "\<exists>W' r. write_record m wa W fs = Some (Some (W', r)) \<and> buf_ok W'
    \<and> (r = Inr () \<longrightarrow> count_ok W (length fs) \<and> emitted contents W' = emitted contents W @ rec_bytes (cw_core W) fs
        \<and> at_record_start W' \<and> cw_core W' = cw_core W \<and> cw_state W' = count_state W (length fs))
    \<and> (\<forall>er. r = Inl er \<longrightarrow> (\<exists>x. er = Io x) \<or> \<not> count_ok W (length fs) \<and> (\<exists>k. er = UnequalLengths None k (word_of_nat (length fs))))
    \<and> (reliable wa \<longrightarrow> count_ok W (length fs) \<longrightarrow> r = Inr ())"
  using csv_env.write_record_ok [OF csv_env.intro [OF assms(1,2)] assms(3-5)] .

definition vec_writer :: "nat \<Rightarrow> u8 list CsvWriter" where
  "vec_writer n = the (csv_writer_new (buffer_capacity csv_builder_default n) [])"

lemma vec_writer_eq: "vec_writer n = \<lparr>cw_core = default_writer, cw_wtr = Some [], cw_buf = \<lparr>bf_buf = replicate n 0, bf_len = 0\<rparr>,
    cw_state = \<lparr>cs_header = HeaderWrite, cs_flexible = False, cs_first_field_count = None, cs_fields_written = 0, cs_panicked = False\<rparr>\<rparr>"
  by (simp add: vec_writer_def csv_writer_new_def buffer_capacity_def csv_builder_default_def default_writer_build)

lemma vec_writer_start: "2 \<le> n \<Longrightarrow> at_record_start (vec_writer n)"
  by (simp add: vec_writer_eq at_record_start_def buf_ok_def style_ok_def default_writer_def wbuild_def wbuilder_new_def wstate_default_def)

lemma reliable_vec: "reliable vec_write_all"
  by (simp add: reliable_def vec_write_all_def)

lemma count_ok_vec: "count_ok (vec_writer n) k"
  by (simp add: count_ok_def vec_writer_eq)

theorem csv_write_record_total_witness:
  "\<exists>W'. write_record memchr_ref vec_write_all (vec_writer 2) [[97, 44], [98]] = Some (Some (W', Inr ()))
    \<and> emitted (\<lambda>s. s) W' = [34, 97, 44, 34, 44, 98, 10]"
proof -
  have bytes: "rec_body default_writer [[97, 44], [98]] = [34, 97, 44, 34, 44, 98]" "rec_bytes default_writer [[97, 44], [98]] = [34, 97, 44, 34, 44, 98, 10]"
    by code_simp+
  have small: "length (rec_body (cw_core (vec_writer 2)) [[97, 44], [98]]) + 8 < 2 ^ 64"
    by (simp add: vec_writer_eq bytes del: rec_body.simps)
  obtain W' r where w: "write_record memchr_ref vec_write_all (vec_writer 2) [[97, 44], [98]] = Some (Some (W', r))"
      "r = Inr () \<longrightarrow> emitted (\<lambda>s. s) W' = emitted (\<lambda>s. s) (vec_writer 2) @ rec_bytes (cw_core (vec_writer 2)) [[97, 44], [98]]"
      "reliable vec_write_all \<longrightarrow> count_ok (vec_writer 2) (length [[97, 44], [98 :: u8]]) \<longrightarrow> r = Inr ()"
    using csv_write_record_total [OF mref.memchr_contract_axioms vec.sink_contract_axioms vec_writer_start [OF order_refl] _ small] by auto
  then show ?thesis using bytes reliable_vec count_ok_vec [of 2] by (auto simp: vec_writer_eq emitted_def)
qed

text \<open>C18: The fast path: for a writer at the start of a record, \<^verbatim>\<open>write_byte_record\<close> has the outcome of
  \<^verbatim>\<open>write_record\<close> on the record's fields: the same bytes, the same state and the same errors; its worst-case
  bound is enough for every index it takes into the buffer.\<close>

theorem csv_write_byte_record_fast_path:
  assumes "memchr_contract m" and "sink_contract wa contents" and "at_record_start W"
    and "br_ok r" and "br_len r < 2 ^ 64" and "length (rec_body (cw_core W) (fields_of r)) + 8 < 2 ^ 64"
  shows "\<exists>W' res. write_byte_record m wa W r = Some (Some (W', res)) \<and> buf_ok W'
    \<and> (res = Inr () \<longrightarrow> count_ok W (br_len r) \<and> emitted contents W' = emitted contents W @ rec_bytes (cw_core W) (fields_of r)
        \<and> at_record_start W' \<and> cw_core W' = cw_core W \<and> cw_state W' = count_state W (br_len r))
    \<and> (\<forall>er. res = Inl er \<longrightarrow> (\<exists>x. er = Io x) \<or> \<not> count_ok W (br_len r) \<and> (\<exists>k. er = UnequalLengths None k (word_of_nat (br_len r))))
    \<and> (reliable wa \<longrightarrow> count_ok W (br_len r) \<longrightarrow> res = Inr ())"
  using csv_env.write_byte_record_ok [OF csv_env.intro [OF assms(1,2)] assms(3-6)] .

definition sample_record :: ByteRecord where
  "sample_record = \<lparr>br_pos = None, br_fields = [97, 34], br_bounds = \<lparr>b_ends = [1, 2], b_len = 2\<rparr>\<rparr>"

lemma sample_record: "br_ok sample_record" "fields_of sample_record = [[97], [34]]" "br_len sample_record = 2"
  by code_simp+

theorem csv_write_byte_record_fast_path_witness:
  "\<exists>W'. write_byte_record memchr_ref vec_write_all (vec_writer 16) sample_record = Some (Some (W', Inr ()))
    \<and> emitted (\<lambda>s. s) W' = [97, 44, 34, 34, 34, 34, 10]"
proof -
  have bytes: "rec_body default_writer [[97], [34]] = [97, 44, 34, 34, 34, 34]" "rec_bytes default_writer [[97], [34]] = [97, 44, 34, 34, 34, 34, 10]"
    by code_simp+
  have small: "length (rec_body (cw_core (vec_writer 16)) (fields_of sample_record)) + 8 < 2 ^ 64"
    by (simp add: vec_writer_eq bytes sample_record del: rec_body.simps)
  obtain W' r where w: "write_byte_record memchr_ref vec_write_all (vec_writer 16) sample_record = Some (Some (W', r))"
      "r = Inr () \<longrightarrow> emitted (\<lambda>s. s) W' = emitted (\<lambda>s. s) (vec_writer 16) @ rec_bytes (cw_core (vec_writer 16)) [[97], [34]]"
      "reliable vec_write_all \<longrightarrow> count_ok (vec_writer 16) 2 \<longrightarrow> r = Inr ()"
    using csv_write_byte_record_fast_path [OF mref.memchr_contract_axioms vec.sink_contract_axioms vec_writer_start sample_record(1) _ small]
    by (auto simp: sample_record)
  then show ?thesis using bytes reliable_vec count_ok_vec [of 16 2] by (auto simp: vec_writer_eq emitted_def)
qed

section \<open>Limits of the buffered writer\<close>

definition zero_buffer :: "'w CsvWriter \<Rightarrow> bool" where
  "zero_buffer W \<longleftrightarrow> cw_buf W = \<lparr>bf_buf = [], bf_len = 0\<rparr> \<and> cw_wtr W \<noteq> None"

lemma flush_zero_buffer:
  assumes "zero_buffer W" and "reliable wa"
  shows "\<exists>W'. flush_buf wa W = Some (W', Inr ()) \<and> zero_buffer W' \<and> cw_core W' = cw_core W"
proof -
  obtain s where s: "cw_wtr W = Some s" using assms(1) by (auto simp: zero_buffer_def)
  have "wa s [] = (fst (wa s []), Inr ())" using assms(2) by (metis prod.collapse reliable_def)
  then show ?thesis
    using assms(1) s
    by (auto simp: zero_buffer_def flush_buf_def set_panicked_def readable_def slice_def buffer_clear_def split: prod.splits)
qed

context core_call
begin

text \<open>With no room at all a call that owes output neither finishes nor makes progress.\<close>

lemma zero_buffer_turn:
  assumes "zero_buffer W" and "ok (cw_core W) rest" and "owed (cw_core W) rest \<noteq> []"
  shows "\<exists>W' n. core_turn call W rest = Some (OutputFull, W', drop n rest) \<and> zero_buffer W'
    \<and> ok (cw_core W') (drop n rest) \<and> owed (cw_core W') (drop n rest) \<noteq> []"
proof -
  obtain w' e res n where t: "call (cw_core W) rest [] = Some (w', overwrite [] 0 e, res, n, length e)" "length e \<le> length ([] :: u8 list)"
      "res = InputEmpty \<longrightarrow> e = owed (cw_core W) rest"
      "res = OutputFull \<longrightarrow> ok w' (drop n rest) \<and> owed (cw_core W) rest = e @ owed w' (drop n rest)"
    using turn [OF assms(2), of "[]"] by blast
  then have e: "e = []" by simp
  then have res: "res = OutputFull" using t(3) assms(3) by (cases res) auto
  let ?W = "W\<lparr>cw_core := w', cw_buf := bytes_written (put_back (cw_buf W) []) 0\<rparr>"
  have "core_turn call W rest = Some (OutputFull, ?W, drop n rest)"
    using t(1) assms(1) e res by (simp add: core_turn_def writable_def slice_def zero_buffer_def)
  moreover have "zero_buffer ?W" using assms(1) by (simp add: zero_buffer_def bytes_written_def put_back_def)
  ultimately show ?thesis using t(4) res e assms(3) by (intro exI [of _ ?W] exI [of _ n]) simp
qed

lemma flush_loop_hangs:
  "flush_loop wa call' W rest = Some y \<Longrightarrow>
    call' = call \<longrightarrow> reliable wa \<longrightarrow> zero_buffer W \<longrightarrow> ok (cw_core W) rest \<longrightarrow> owed (cw_core W) rest = []"
proof (induction wa call' W rest y rule: flush_loop.raw_induct [rotated, consumes 1, case_names step])
  case (step loop wa call' W rest y)
  show ?case
  proof (intro impI, rule ccontr)
    assume a: "call' = call" "reliable wa" "zero_buffer W" "ok (cw_core W) rest" "owed (cw_core W) rest \<noteq> []"
    obtain W1 n where t: "core_turn call W rest = Some (OutputFull, W1, drop n rest)" "zero_buffer W1"
        "ok (cw_core W1) (drop n rest)" "owed (cw_core W1) (drop n rest) \<noteq> []"
      using zero_buffer_turn [OF a(3-5)] by blast
    obtain W2 where f: "flush_buf wa W1 = Some (W2, Inr ())" "zero_buffer W2" "cw_core W2 = cw_core W1"
      using flush_zero_buffer [OF t(2) a(2)] by blast
    have "loop wa call W2 (drop n rest) = Some y" using step(2) a(1) t(1) f(1) by simp
    from step(1) [OF this] show False using a(2) f t(3,4) by simp
  qed
qed

end

context memchr_contract
begin

lemma field_core_call: "core_call (field memchr) field_rest (\<lambda>w f. style_ok w) field_rank field_fin"
  by (rule fc.core_call_axioms)

end

text \<open>C40: A writer built with \<^verbatim>\<open>buffer_capacity(0)\<close> never returns from writing a non-empty field, although the inner
  writer accepts everything: each turn of the loop flushes an empty buffer and calls the core writer with no
  room again.\<close>

theorem csv_zero_capacity_hangs:
  assumes "memchr_contract m" and "cb_capacity b = 0" and "csv_writer_new b s = Some W" and "reliable wa" and "f \<noteq> []"
    and "style_ok (cw_core W)" and "w_state (cb_builder b) = wstate_default"
  shows "write_field_impl m wa W f = None"
proof -
  have W: "zero_buffer W" "cs_fields_written (cw_state W) = 0" "w_state (cw_core W) = wstate_default"
    using assms(2,3,7)
    by (auto simp: csv_writer_new_def zero_buffer_def wbuild_def Let_def split: bind_splits Terminator.splits if_splits)
  have len: "escaped q e dq f \<noteq> []" for q e dq using assms(5) by (cases f) auto
  have "field_rest (cw_core W) f \<noteq> []"
    using assms(5) len W(3) by (simp add: field_rest_def body_def wstate_default_def)
  moreover have call: "core_call (field m) field_rest (\<lambda>w f. style_ok w) field_rank field_fin"
    using memchr_contract.field_core_call [OF assms(1)] .
  ultimately have "flush_loop wa (field m) W f = None"
    using core_call.flush_loop_hangs [OF call, of wa "field m" W f] assms(4,6) W(1)
    by (cases "flush_loop wa (field m) W f") auto
  then show ?thesis using W(2) by (simp add: write_field_impl_def and_then_def)
qed

theorem csv_zero_capacity_hangs_witness:
  "write_field_impl memchr_ref vec_write_all (vec_writer 0) [97] = None"
proof (rule csv_zero_capacity_hangs [OF mref.memchr_contract_axioms])
  show "csv_writer_new (buffer_capacity csv_builder_default 0) [] = Some (vec_writer 0)"
    by (simp add: vec_writer_def csv_writer_new_def buffer_capacity_def csv_builder_default_def default_writer_build)
qed (simp_all add: buffer_capacity_def csv_builder_default_def reliable_vec vec_writer_eq style_ok_def default_writer_def
  wbuild_def wbuilder_new_def wstate_default_def)

text \<open>
  In the middle of a record the fast path differs from \<^verbatim>\<open>write_record\<close>: after \<^verbatim>\<open>write_field("a")\<close> the record
  \<^verbatim>\<open>["b"]\<close> is written without the delimiter.
\<close>

definition after_field_a :: "u8 list CsvWriter" where
  "after_field_a = fst (the (the (write_field_impl memchr_ref vec_write_all (vec_writer 64) [97])))"

definition record_b :: ByteRecord where
  "record_b = \<lparr>br_pos = None, br_fields = [98], br_bounds = \<lparr>b_ends = [1], b_len = 1\<rparr>\<rparr>"

definition output_of :: "(u8 list, unit) outcome \<Rightarrow> u8 list option" where
  "output_of r = (case r of Some (Some (W, Inr _)) \<Rightarrow> Some (emitted (\<lambda>s. s) W) | _ \<Rightarrow> None)"

lemma fast_path_mid_record:
  "output_of (write_byte_record memchr_ref vec_write_all after_field_a record_b) = Some [97, 98, 10]"
  "output_of (write_record memchr_ref vec_write_all after_field_a [[98]]) = Some [97, 44, 98, 10]"
  by code_simp+

end
