(* ===== verification/Csv_Roundtrip.thy ===== *)
theory Csv_Roundtrip
  imports Csv_Props Csv_Writer_Props
begin

text \<open>
  Reading back what was written: a reader configured like the writer recovers the fields of every record
  from its encoding, across record boundaries.
\<close>

section \<open>Agreeing configurations\<close>

definition terms_agree :: "Terminator \<Rightarrow> Terminator \<Rightarrow> bool" where
  "terms_agree wt rt \<longleftrightarrow> (\<exists>t. wt = Any t \<and> rt = Any t) \<or> rt = Terminator.CRLF \<and> wt \<in> {Terminator.CRLF, Any LF}"

definition agrees :: "Reader \<Rightarrow> Writer \<Rightarrow> bool" where
  "agrees r w \<longleftrightarrow> r_quoting r \<and> r_double_quote r \<and> w_double_quote w \<and> r_quote r = w_quote w
     \<and> r_delimiter r = w_delimiter w \<and> r_escape r = None \<and> r_comment r = None
     \<and> w_delimiter w \<noteq> w_quote w \<and> terms_agree (w_term w) (r_term r)
     \<and> \<not> term_is (r_term r) (w_delimiter w) \<and> \<not> term_is (r_term r) (w_quote w)"

text \<open>What an unquoted field may contain: nothing the reader treats specially.\<close>

definition plain_ok :: "Reader \<Rightarrow> Writer \<Rightarrow> u8 list \<Rightarrow> bool" where
  "plain_ok r w f \<longleftrightarrow> quotes w f \<or> (\<forall>c \<in> set f. c \<noteq> r_delimiter r \<and> c \<noteq> r_quote r \<and> \<not> term_is (r_term r) c)"

definition prepend :: "nat \<Rightarrow> u8 list \<Rightarrow> NfaState \<times> nat \<times> u8 list \<times> nat list \<Rightarrow> NfaState \<times> nat \<times> u8 list \<times> nat list" where
  "prepend n v run = (case run of (u, m, x, es) \<Rightarrow> (u, n + m, v @ x, es))"

lemma prepend_prepend [simp]: "prepend n v (prepend m x run) = prepend (n + m) (v @ x) run"
  by (simp add: prepend_def split: prod.splits)

lemma prepend_0 [simp]: "prepend 0 [] run = run"
  by (simp add: prepend_def split: prod.splits)

definition starts_field :: "NfaState \<Rightarrow> bool" where
  "starts_field s \<longleftrightarrow> s \<in> {StartRecord, EndRecord, EndFieldDelim}"

lemma record_run_inner:
  assumes "csv_step r s c = (u, copy)" and "\<not> is_field_final u" and "0 < cap" and "0 < ecap"
  shows "record_run r pos s (c # cs) cap ecap
    = prepend 1 (if copy then [c] else []) (record_run r (pos + (if copy then 1 else 0)) u cs (cap - (if copy then 1 else 0)) ecap)"
proof -
  have "\<not> is_record_final u" using assms(2) by (cases u) auto
  then show ?thesis using assms by (auto simp: record_run_step Let_def prepend_def split: prod.splits)
qed

section \<open>Reading one field\<close>

lemma run_plain_tail:
  assumes "\<forall>c \<in> set f. c \<noteq> r_delimiter r \<and> c \<noteq> r_quote r \<and> \<not> term_is (r_term r) c" and "length f < cap" and "0 < ecap"
  shows "record_run r pos InField (f @ rest) cap ecap
    = prepend (length f) f (record_run r (pos + length f) InField rest (cap - length f) ecap)"
  using assms
proof (induction f arbitrary: pos cap)
  case (Cons c f)
  have "csv_step r InField c = (InField, True)" using Cons.prems(1) by (auto simp: unquoted_step_def)
  then show ?case using record_run_inner [of r InField c InField True cap ecap] Cons by simp
qed simp

lemma run_plain:
  assumes "agrees r w" and "starts_field s" and "f \<noteq> []"
    and "\<forall>c \<in> set f. c \<noteq> r_delimiter r \<and> c \<noteq> r_quote r \<and> \<not> term_is (r_term r) c" and "length f < cap" and "0 < ecap"
  shows "record_run r pos s (f @ rest) cap ecap
    = prepend (length f) f (record_run r (pos + length f) InField rest (cap - length f) ecap)"
proof -
  obtain c g where f: "f = c # g" using assms(3) by (cases f) auto
  have "csv_step r s c = (InField, True)"
    using assms(1,2,4) f by (auto simp: starts_field_def step_defs agrees_def)
  then show ?thesis
    using record_run_inner [of r s c InField True cap ecap pos "g @ rest"] run_plain_tail [of g r "cap - 1" ecap "pos + 1"] assms(4-6) f
    by simp
qed

lemma run_quoted_inner:
  assumes "agrees r w" and "length f < cap" and "0 < ecap"
  shows "record_run r pos InQuotedField (body w True f @ rest) cap ecap
    = prepend (length (body w True f)) f (record_run r (pos + length f) InQuotedField rest (cap - length f) ecap)"
  using assms(2)
proof (induction f arbitrary: pos cap)
  case Nil
  then show ?case by simp
next
  case (Cons c f)
  note IH = Cons.IH [of "cap - 1" "pos + 1"]
  show ?case
  proof (cases "c = w_quote w")
    case True
    have "csv_step r InQuotedField c = (InDoubleEscapedQuote, False)" "csv_step r InDoubleEscapedQuote c = (InQuotedField, True)"
      using assms(1) True by (auto simp: agrees_def)
    then show ?thesis
      using record_run_inner [of r InQuotedField c InDoubleEscapedQuote False cap ecap pos]
        record_run_inner [of r InDoubleEscapedQuote c InQuotedField True cap ecap pos] assms Cons.prems IH True
      by (simp add: body_def agrees_def)
  next
    case False
    then have "csv_step r InQuotedField c = (InQuotedField, True)" using assms(1) by (auto simp: agrees_def)
    then show ?thesis
      using record_run_inner [of r InQuotedField c InQuotedField True cap ecap pos] assms(3) Cons.prems IH False by (simp add: body_def)
  qed
qed

text \<open>After a field read from state \<open>s\<close>: the state in which only a delimiter or a terminator may follow.\<close>

definition after_field :: "Writer \<Rightarrow> NfaState \<Rightarrow> u8 list \<Rightarrow> NfaState" where
  "after_field w s f = (if quotes w f then InDoubleEscapedQuote else if f = [] then s else InField)"

definition ends_field :: "NfaState \<Rightarrow> bool" where
  "ends_field s \<longleftrightarrow> s = InField \<or> s = InDoubleEscapedQuote"

lemma after_field_cases: "ends_field (after_field w s f) \<or> after_field w s f = s \<and> enc_field w f = []"
  by (auto simp: after_field_def ends_field_def enc_field_def)

lemma run_enc_field:
  assumes "agrees r w" and "starts_field s" and "plain_ok r w f" and "length f < cap" and "0 < ecap"
  shows "record_run r pos s (enc_field w f @ rest) cap ecap
    = prepend (length (enc_field w f)) f (record_run r (pos + length f) (after_field w s f) rest (cap - length f) ecap)"
proof (cases "quotes w f")
  case True
  have q: "w_quote w = r_quote r" using assms(1) by (simp add: agrees_def)
  have open_q: "csv_step r s (r_quote r) = (InQuotedField, False)"
    using assms(1,2) by (auto simp: starts_field_def step_defs agrees_def)
  have close_q: "csv_step r InQuotedField (r_quote r) = (InDoubleEscapedQuote, False)"
    using assms(1) by (auto simp: agrees_def)
  show ?thesis
    using True q record_run_inner [OF open_q, of cap ecap pos "body w True f @ r_quote r # rest"]
      run_quoted_inner [OF assms(1,4,5), of pos "r_quote r # rest"]
      record_run_inner [OF close_q, of "cap - length f" ecap "pos + length f" rest] assms(4,5)
    by (simp add: enc_field_def after_field_def)
next
  case False
  then show ?thesis
    using assms run_plain [OF assms(1,2) _ _ assms(4,5), of pos rest]
    by (cases "f = []") (auto simp: enc_field_def plain_ok_def after_field_def)
qed

section \<open>Reading one record\<close>

fun ends_from :: "nat \<Rightarrow> u8 list list \<Rightarrow> nat list" where
  "ends_from p [] = []"
| "ends_from p (f # fs) = (p + length f) # ends_from (p + length f) fs"

definition prepend_fields :: "nat \<Rightarrow> u8 list \<Rightarrow> nat list \<Rightarrow> NfaState \<times> nat \<times> u8 list \<times> nat list \<Rightarrow> NfaState \<times> nat \<times> u8 list \<times> nat list" where
  "prepend_fields n v es run = (case run of (u, m, x, fs) \<Rightarrow> (u, n + m, v @ x, es @ fs))"

lemma prepend_fields_simps:
  "prepend n v (prepend_fields m x es run) = prepend_fields (n + m) (v @ x) es run"
  "prepend_fields n v ds (prepend_fields m x es run) = prepend_fields (n + m) (v @ x) (ds @ es) run"
  "prepend n v run = prepend_fields n v [] run"
  by (simp_all add: prepend_def prepend_fields_def split: prod.splits)

lemma run_delimiter:
  assumes "agrees r w" and "ends_field t \<or> starts_field t" and "0 < cap" and "0 < ecap"
  shows "record_run r pos t (w_delimiter w # rest) cap ecap
    = prepend_fields 1 [] [pos] (record_run r pos EndFieldDelim rest cap (ecap - 1))"
proof -
  have "csv_step r t (w_delimiter w) = (EndFieldDelim, False)"
    using assms(1,2) by (auto simp: starts_field_def ends_field_def step_defs agrees_def)
  from record_run_step [OF this assms(3,4)] show ?thesis by (simp add: Let_def prepend_fields_def)
qed

lemma run_terminator:
  assumes "agrees r w" and "ends_field t \<or> t = EndFieldDelim" and "0 < cap" and "0 < ecap"
  shows "\<exists>u c cs. term_bytes w = c # cs \<and> (\<forall>rest. record_run r pos t (c # rest) cap ecap = (u, 1, [], [pos]))
    \<and> is_record_final u \<and> (cs = [] \<and> u = EndRecord \<or> cs = [LF] \<and> u = NfaState.CRLF \<and> r_term r = Terminator.CRLF)"
proof -
  obtain c cs where c: "term_bytes w = c # cs" using assms(1) by (auto simp: agrees_def terms_agree_def term_bytes_def)
  let ?u = "if r_term r = Terminator.CRLF \<and> c = CR then NfaState.CRLF else EndRecord"
  have "c \<noteq> w_delimiter w" "c \<noteq> w_quote w" "term_is (r_term r) c" "cs = [] \<and> ?u = EndRecord \<or> cs = [LF] \<and> ?u = NfaState.CRLF \<and> r_term r = Terminator.CRLF"
    using assms(1) c by (auto simp: agrees_def terms_agree_def term_bytes_def)
  moreover from this have "csv_step r t c = (?u, False)"
    using assms(1,2) by (auto simp: ends_field_def step_defs agrees_def)
  ultimately show ?thesis using c assms(3,4) by (intro exI [of _ ?u] exI [of _ c] exI [of _ cs]) (simp add: record_run_step)
qed

definition after_body :: "Writer \<Rightarrow> NfaState \<Rightarrow> u8 list list \<Rightarrow> NfaState" where
  "after_body w s fs = after_field w (if length fs = 1 then s else EndFieldDelim) (last fs)"

lemma run_body:
  assumes "agrees r w" and "starts_field s" and "fs \<noteq> []" and "\<forall>f \<in> set fs. plain_ok r w f"
    and "length (concat fs) < cap" and "length fs \<le> ecap"
  shows "record_run r pos s (rec_body w fs @ rest) cap ecap
      = prepend_fields (length (rec_body w fs)) (concat fs) (butlast (ends_from pos fs))
          (record_run r (pos + length (concat fs)) (after_body w s fs) rest (cap - length (concat fs)) (ecap - (length fs - 1)))"
  using assms(2-)
proof (induction fs arbitrary: pos s cap ecap)
  case Nil
  then show ?case by simp
next
  case (Cons f fs)
  have len: "length f < cap" "0 < ecap" "plain_ok r w f" using Cons.prems(3-5) by auto
  note enc = run_enc_field [OF assms(1) Cons.prems(1) len(3,1,2), of pos]
  show ?case
  proof (cases "fs = []")
    case True
    then show ?thesis using enc [of rest] by (simp add: prepend_fields_simps after_body_def)
  next
    case False
    let ?tail = "rec_body w fs @ rest"
    have dl: "record_run r (pos + length f) (after_field w s f) (w_delimiter w # ?tail) (cap - length f) ecap
        = prepend_fields 1 [] [pos + length f] (record_run r (pos + length f) EndFieldDelim ?tail (cap - length f) (ecap - 1))"
      using after_field_cases [of w s f] Cons.prems(1) len by (intro run_delimiter [OF assms(1)]) auto
    have pre: "\<forall>f \<in> set fs. plain_ok r w f" "length (concat fs) < cap - length f" "length fs \<le> ecap - 1" "starts_field EndFieldDelim"
      using Cons.prems(3-5) by (auto simp: starts_field_def)
    note rec = Cons.IH [OF pre(4) False pre(1-3), of "pos + length f"]
    have body: "rec_body w (f # fs) @ rest = enc_field w f @ w_delimiter w # ?tail"
        "length (rec_body w (f # fs)) = length (enc_field w f) + 1 + length (rec_body w fs)"
      using False by (cases fs; simp)+
    have sum: "pos + length (concat (f # fs)) = pos + length f + length (concat fs)"
        "cap - length (concat (f # fs)) = cap - length f - length (concat fs)"
        "ecap - (length (f # fs) - 1) = ecap - 1 - (length fs - 1)" "after_body w s (f # fs) = after_body w EndFieldDelim fs"
        "butlast (ends_from pos (f # fs)) = [pos + length f] @ butlast (ends_from (pos + length f) fs)"
      using False by (cases fs; simp add: after_body_def)+
    show ?thesis unfolding body sum enc dl rec by (simp add: prepend_fields_simps del: length_concat)
  qed
qed

lemma after_body_ends:
  assumes "fs \<noteq> []" and "rec_body w fs \<noteq> []"
  shows "ends_field (after_body w s fs) \<or> after_body w s fs = EndFieldDelim"
proof (cases "length fs = 1")
  case True
  then obtain f where "fs = [f]" by (cases fs) auto
  then show ?thesis using assms(2) after_field_cases [of w s f] by (simp add: after_body_def)
next
  case False
  then show ?thesis using after_field_cases [of w EndFieldDelim "last fs"] by (auto simp: after_body_def)
qed

text \<open>Between records: \<open>lead\<close> is the line feed of a CRLF that the reader has not consumed yet.\<close>

definition boundary :: "Reader \<Rightarrow> NfaState \<Rightarrow> u8 list \<Rightarrow> bool" where
  "boundary r s lead \<longleftrightarrow> (s = StartRecord \<or> s = EndRecord) \<and> lead = [] \<or> s = NfaState.CRLF \<and> lead = [LF] \<and> r_term r = Terminator.CRLF"

lemma ends_from_snoc: "fs \<noteq> [] \<Longrightarrow> butlast (ends_from p fs) @ [p + length (concat fs)] = ends_from p fs"
proof (induction fs arbitrary: p)
  case (Cons f fs)
  then show ?case using Cons.IH [of "p + length f"] by (cases fs) (auto simp: add.assoc)
qed simp

lemma run_record:
  assumes "agrees r w" and "boundary r s lead" and "fs \<noteq> []" and "\<forall>f \<in> set fs. plain_ok r w f"
    and "length (concat fs) < cap" and "length fs \<le> ecap"
  shows "\<exists>u lead' n. record_run r pos s (lead @ rec_bytes w fs @ tail) cap ecap = (u, n, concat fs, ends_from pos fs)
    \<and> is_record_final u \<and> boundary r u lead' \<and> drop n (lead @ rec_bytes w fs @ tail) = lead' @ tail
    \<and> n + length lead' = length lead + length (rec_bytes w fs)"
proof -
  let ?bytes = "if rec_body w fs = [] then [w_quote w, w_quote w] else rec_body w fs"
  let ?cap = "cap - length (concat fs)" and ?ecap = "ecap - (length fs - 1)" and ?pos = "pos + length (concat fs)"
  have cap: "0 < ?cap" "0 < ?ecap" "0 < cap" "0 < ecap" using assms(3,5,6) by (cases fs; simp)+
  obtain s' where s': "starts_field s'"
      "record_run r pos s (lead @ xs) cap ecap = prepend (length lead) [] (record_run r pos s' xs cap ecap)" for xs
  proof -
    consider "starts_field s" "lead = []" | "s = NfaState.CRLF" "lead = [LF]"
      using assms(2) by (auto simp: boundary_def starts_field_def)
    then show ?thesis
    proof cases
      case 1
      then show ?thesis using that [of s] by simp
    next
      case 2
      then show ?thesis
        using that [of StartRecord] record_run_inner [of r NfaState.CRLF LF StartRecord False cap ecap pos] cap
        by (simp add: starts_field_def)
    qed
  qed
  obtain t where t: "record_run r pos s' (?bytes @ rest) cap ecap
      = prepend_fields (length ?bytes) (concat fs) (butlast (ends_from pos fs)) (record_run r ?pos t rest ?cap ?ecap)"
      "ends_field t \<or> t = EndFieldDelim" for rest
  proof (cases "rec_body w fs = []")
    case False
    then show ?thesis
      using run_body [OF assms(1) s'(1) assms(3-6), of pos] after_body_ends [OF assms(3) False, of s'] that [of "after_body w s' fs"] by simp
  next
    case True
    then have fs: "fs = [[]]" using assms(3) by (cases "(w, fs)" rule: rec_body.cases) (auto simp: enc_field_def split: if_splits)
    have "csv_step r s' (w_quote w) = (InQuotedField, False)" "csv_step r InQuotedField (w_quote w) = (InDoubleEscapedQuote, False)"
      using assms(1) s'(1) by (auto simp: agrees_def starts_field_def step_defs)
    then show ?thesis
      using that [of InDoubleEscapedQuote] fs True cap
        record_run_inner [of r s' "w_quote w" InQuotedField False cap ecap pos]
        record_run_inner [of r InQuotedField "w_quote w" InDoubleEscapedQuote False cap ecap pos]
      by (simp add: ends_field_def prepend_fields_simps)
  qed
  obtain u c cs where u: "term_bytes w = c # cs" "is_record_final u" "cs = [] \<and> u = EndRecord \<or> cs = [LF] \<and> u = NfaState.CRLF \<and> r_term r = Terminator.CRLF"
      and run: "\<And>rest. record_run r ?pos t (c # rest) ?cap ?ecap = (u, 1, [], [?pos])"
    using run_terminator [OF assms(1) t(2) cap(1,2), of ?pos] by blast
  let ?n = "length lead + (length ?bytes + 1)"
  have bytes: "rec_bytes w fs @ tail = ?bytes @ c # cs @ tail" using u(1) by (simp add: rec_bytes_def)
  have "record_run r pos s (lead @ rec_bytes w fs @ tail) cap ecap = (u, ?n, concat fs, ends_from pos fs)"
    unfolding bytes s'(2) t(1) run using ends_from_snoc [OF assms(3), of pos] by (simp add: prepend_fields_simps prepend_fields_def del: length_concat)
  moreover have "drop ?n (lead @ rec_bytes w fs @ tail) = cs @ tail" unfolding bytes by simp
  moreover have "boundary r u cs" using u(3) by (auto simp: boundary_def)
  moreover have "?n + length cs = length lead + length (rec_bytes w fs)" using u(1) by (simp add: rec_bytes_def)
  ultimately show ?thesis using u(2) by blast
qed

section \<open>The round trip\<close>

lemma built_writer_plain_ok:
  assumes "wbuild b = Some w" and "w_requires_quotes b = replicate 256 False" and "w_style w \<in> {Necessary, Always}" and "agrees r w"
  shows "plain_ok r w f"
proof (cases "quotes w f")
  case True
  then show ?thesis by (simp add: plain_ok_def)
next
  case False
  then have "w_style w = Necessary" "\<not> needs_quotes w f" using assms(3) by (auto simp: quotes_def should_quote_def)
  then have plain: "\<forall>c \<in> set f. \<not> special_for b c"
    using wbuild_special [OF assms(1,2)] by (auto simp: needs_quotes_ex list_ex_iff)
  have same: "w_delimiter b = w_delimiter w" "w_quote b = w_quote w" "w_term b = w_term w"
    using assms(1) by (auto simp: wbuild_def Let_def split: Terminator.splits if_splits)
  show ?thesis
    using plain assms(4) same unfolding plain_ok_def agrees_def terms_agree_def special_for_def by (fastforce split: if_splits)
qed

text \<open>Round trip. A record written by a core writer that quotes where necessary (or always) is read back
  unchanged by a reader of the same configuration, from any record boundary and whatever follows in the
  input: the field data and the end positions are those of the record, exactly the record's bytes are
  consumed, up to the line feed of a CRLF, and the reader is again at a record boundary.\<close>

theorem csv_roundtrip:
  assumes "wbuild b = Some w" and "w_requires_quotes b = replicate 256 False" and "w_style w \<in> {Necessary, Always}"
    and "built r" and "agrees r w" and "boundary r s lead" and "r_dfa_state r = row (r_dfa r) s" and "r_output_pos r = 0"
    and "fs \<noteq> []" and "length (concat fs) < length out" and "length fs \<le> length ends"
  shows "\<exists>r' n u lead'. read_record_dfa r (lead @ rec_bytes w fs @ tail) out ends
      = Some (r', overwrite out 0 (concat fs), overwrite ends 0 (ends_from 0 fs), Record, n, length (concat fs), length fs)
    \<and> drop n (lead @ rec_bytes w fs @ tail) = lead' @ tail \<and> boundary r' u lead' \<and> r_dfa_state r' = row (r_dfa r') u
    \<and> built r' \<and> agrees r' w \<and> r_output_pos r' = 0"
proof -
  have plain: "\<forall>f \<in> set fs. plain_ok r w f" using built_writer_plain_ok [OF assms(1-3,5)] by blast
  have r: "lf_ok r" "live r s"
    using assms(5,6) by (auto simp: agrees_def lf_ok_def boundary_def live_def lf_visible_def dfa_states_iff special_bytes_def)
  have nonempty: "lead @ rec_bytes w fs @ tail \<noteq> []" "out \<noteq> []" "ends \<noteq> []"
    using assms(9-11) run_terminator [OF assms(5), of InField 1 1] by (auto simp: rec_bytes_def ends_field_def)
  have len: "length (ends_from p fs) = length fs" for p by (induction fs arbitrary: p) auto
  obtain u lead' n where run: "record_run r (r_output_pos r) s (lead @ rec_bytes w fs @ tail) (length out) (length ends) = (u, n, concat fs, ends_from 0 fs)"
      "is_record_final u" "boundary r u lead'" "drop n (lead @ rec_bytes w fs @ tail) = lead' @ tail"
    using run_record [OF assms(5,6,9) plain assms(10,11), of 0 tail] assms(8) by auto
  obtain l where rd: "read_record_dfa r (lead @ rec_bytes w fs @ tail) out ends
      = Some (r\<lparr>r_dfa_state := row (r_dfa r) u, r_line := l, r_output_pos := 0\<rparr>, overwrite out 0 (concat fs),
          overwrite ends 0 (ends_from 0 fs), Record, n, length (concat fs), length fs)"
    using read_record_dfa_run [OF assms(4) r assms(7) nonempty run(1)] run(2) len by (auto simp: record_outcome_def)
  let ?r = "r\<lparr>r_dfa_state := row (r_dfa r) u, r_line := l, r_output_pos := 0\<rparr>"
  have "built ?r" using built_cong [of ?r r] assms(4) by simp
  moreover have "agrees ?r w" using assms(5) by (simp add: agrees_def)
  ultimately show ?thesis using rd run(3,4) by (auto simp: boundary_def)
qed

lemma default_agrees: "cfg q = cfg reader_default \<Longrightarrow> agrees q default_writer"
  by (auto simp: cfg_def agrees_def terms_agree_def reader_default_def default_writer_def wbuild_def wbuilder_new_def)

theorem csv_roundtrip_witness:
  "\<exists>q r' n lead'. build reader_default = Some q \<and>
    read_record_dfa q (rec_bytes default_writer [[97, 44], []] @ [98]) [0, 0, 0] [0, 0]
      = Some (r', [97, 44, 0], [2, 2], Record, n, 2, 2) \<and> drop n (rec_bytes default_writer [[97, 44], []] @ [98]) = lead' @ [98]"
proof -
  obtain q where q: "build reader_default = Some q" "built q" "in_sync q" "r_output_pos q = 0" "cfg q = cfg reader_default"
      "r_nfa_state q = StartRecord"
    by (rule default_ready)
  have st: "r_dfa_state q = row (r_dfa q) StartRecord" using q(3,6) by (simp add: in_sync_def)
  have w: "w_requires_quotes wbuilder_new = replicate 256 False" "w_style default_writer \<in> {Necessary, Always}"
    by (simp_all add: wbuilder_new_def default_writer_def wbuild_def)
  show ?thesis
    using csv_roundtrip [OF default_writer_build w q(2) default_agrees [OF q(5)] _ st q(4), of "[]" "[[97, 44], []]" "[0, 0, 0]" "[0, 0]" "[98]"] q(1)
    by (auto simp: boundary_def overwrite_def)
qed

text \<open>
  Without doubled quotes the writer escapes quotes but not the escape byte itself: the field \<^verbatim>\<open>a\\\<close> is written
  as \<^verbatim>\<open>"a\"\<close>, which a reader of that configuration takes for an unfinished quoted field.
\<close>

definition escaping_writer :: Writer where
  "escaping_writer = the (wbuild (wbuilder_double_quote wbuilder_new False))"

definition escaping_reader :: Reader where
  "escaping_reader = builder_escape (builder_double_quote reader_default False) (Some 92)"

lemma escape_byte_not_escaped:
  "rec_bytes escaping_writer [[97, 92]] = [34, 97, 92, 34, 10]"
  "fst (record_run escaping_reader 0 StartRecord [34, 97, 92, 34, 10] 10 10) = InQuotedField"
  by code_simp+

end
