(* ===== verification/Csv_In_Correct.thy ===== *)
theory Csv_In_Correct
  imports Csv_In Csv_Roundtrip Csv_Props Csv_Record_Correct
begin

text \<open>
  Correctness of the buffered CSV reader. The interface to the inner \<^verbatim>\<open>io::Read\<close> is the locale \<open>byte_source\<close>: a source of bytes
  that hands out its bytes in pieces of its choice, or fails. \<open>free_run\<close> is the run of the automaton over the whole data, with no
  buffers at all; the loop over the core reader is shown to compute it whatever the sizes of the reads, of the
  buffer and of the record.
\<close>

section \<open>Runs without buffers\<close>

fun free_run :: "Reader \<Rightarrow> nat \<Rightarrow> NfaState \<Rightarrow> u8 list \<Rightarrow> NfaState \<times> nat \<times> u8 list \<times> nat list" where
  "free_run r pos s [] = (s, 0, [], [])"
| "free_run r pos s (c # cs) =
     (case csv_step r s c of (t, copy) \<Rightarrow>
        let w = (if copy then [c] else []); pos = pos + length w in
        if is_record_final t then (t, 1, w, [pos])
        else prepend_fields 1 w (if is_field_final t then [pos] else []) (free_run r pos t cs))"

lemma prepend_fields_apply [simp]: "prepend_fields n v es (u, m, x, fs) = (u, n + m, v @ x, es @ fs)"
  by (simp add: prepend_fields_def)

lemma prepend_fields_nothing [simp]: "prepend_fields 0 [] [] run = run"
  by (cases run) simp

lemma prepend_fields_compose [simp]: "prepend_fields n v es (prepend_fields m x fs run) = prepend_fields (n + m) (v @ x) (es @ fs) run"
  by (cases run) simp

text \<open>A run with buffers is a prefix of the run without, and all of it if a record ended.\<close>

lemma record_run_prefix:
  assumes "record_run r pos s xs cap ecap = (t, n, w, es)"
  shows "if is_record_final t \<and> 0 < n then free_run r pos s (xs @ ys) = (t, n, w, es)
    else free_run r pos s (xs @ ys) = prepend_fields n w es (free_run r (pos + length w) t (drop n xs @ ys))"
  using assms
proof (induction r pos s xs cap ecap arbitrary: t n w es rule: record_run.induct)
  case (4 r pos s c cs k m)
  obtain u copy where u: "csv_step r s c = (u, copy)" by force
  let ?w = "if copy then [c] else []"
  let ?pos = "pos + length ?w"
  show ?case
  proof (cases "is_record_final u")
    case True
    then show ?thesis using "4.prems" u by (auto simp: Let_def)
  next
    case False
    obtain t' n' w' es' where run: "record_run r ?pos u cs (if copy then k else Suc k) (if is_field_final u then m else Suc m) = (t', n', w', es')"
      using prod_cases4 by blast
    then have res: "t = t'" "n = Suc n'" "w = ?w @ w'" "es = (if is_field_final u then [?pos] else []) @ es'"
      using "4.prems" u False by (auto simp: Let_def)
    have "if is_record_final t' \<and> 0 < n' then free_run r ?pos u (cs @ ys) = (t', n', w', es')
      else free_run r ?pos u (cs @ ys) = prepend_fields n' w' es' (free_run r (?pos + length w') t' (drop n' cs @ ys))"
      by (rule "4.IH" [OF u [symmetric] refl refl False run])
    moreover have "is_record_final t' \<and> 0 < n' \<or> \<not> is_record_final t'"
    proof (cases "n' = 0")
      case True
      then have "t' = u" using run by (cases cs; cases "(if copy then k else Suc k)"; cases "(if is_field_final u then m else Suc m)")
          (auto simp: Let_def split: prod.splits if_splits)
      then show ?thesis using False by simp
    qed auto
    ultimately show ?thesis unfolding res using u False by (auto simp: Let_def add.assoc)
  qed
qed auto

text \<open>What reading one record from a stream gives: the state after it, the bytes consumed, and its data and field ends unless the data is at
  its end.\<close>

definition record_at :: "Reader \<Rightarrow> nat \<Rightarrow> NfaState \<Rightarrow> u8 list \<Rightarrow> NfaState \<times> nat \<times> (u8 list \<times> nat list) option" where
  "record_at r pos s bs =
     (case free_run r pos s bs of (t, n, w, es) \<Rightarrow>
        if bs \<noteq> [] \<and> is_record_final t then (t, n, Some (w, es))
        else if is_record_final t \<or> t = StartRecord then (StartRecord, n, None)
        else (EndRecord, n, Some (w, es @ [pos + length w])))"

lemma free_run_all: "free_run r pos s bs = (t, n, w, es) \<Longrightarrow> \<not> is_record_final t \<Longrightarrow> n = length bs"
  by (induction r pos s bs arbitrary: t n w es rule: free_run.induct)
    (auto simp: Let_def prepend_fields_def split: prod.splits if_splits)

lemma record_at_skip:
  assumes "free_run r pos s (xs @ ys) = prepend_fields (length xs) w es (free_run r (pos + length w) t ys)" and "xs \<noteq> [] \<longrightarrow> \<not> is_record_final t"
    and "xs = [] \<longrightarrow> t = s \<and> w = [] \<and> es = []"
  shows "record_at r pos s (xs @ ys) = (case record_at r (pos + length w) t ys of
    (u, m, None) \<Rightarrow> (u, length xs + m, None) | (u, m, Some (v, fs)) \<Rightarrow> (u, length xs + m, Some (w @ v, es @ fs)))"
proof (cases "xs = []")
  case True
  then show ?thesis using assms(3) by (auto simp: record_at_def split: prod.splits option.splits)
next
  case False
  obtain u m v fs where run: "free_run r (pos + length w) t ys = (u, m, v, fs)" using prod_cases4 by blast
  then show ?thesis using assms(1,2) False by (cases "ys = []") (auto simp: record_at_def add.assoc)
qed

text \<open>Ends increase and stay within the data.\<close>

lemma free_run_ends:
  "free_run r pos s bs = (t, n, w, es) \<Longrightarrow> sorted es \<and> (\<forall>e \<in> set es. pos \<le> e \<and> e \<le> pos + length w) \<and> n \<le> length bs \<and> length w \<le> n \<and> length es \<le> n"
proof (induction r pos s bs arbitrary: t n w es rule: free_run.induct)
  case (2 r pos s c cs)
  obtain u copy where u: "csv_step r s c = (u, copy)" by force
  let ?w = "if copy then [c] else []"
  let ?pos = "pos + length ?w"
  show ?case
  proof (cases "is_record_final u")
    case False
    obtain t' n' w' es' where run: "free_run r ?pos u cs = (t', n', w', es')" using prod_cases4 by blast
    show ?thesis using "2.IH" [OF u [symmetric] refl refl False run] "2.prems" u run False
      by (force simp: Let_def split: if_splits)
  qed (use "2.prems" u in \<open>auto simp: Let_def split: if_splits\<close>)
qed auto

section \<open>One call of the core reader\<close>

definition core_at :: "Reader \<Rightarrow> NfaState \<Rightarrow> nat \<Rightarrow> bool" where
  "core_at r s pos \<longleftrightarrow> built r \<and> lf_ok r \<and> live r s \<and> r_dfa_state r = row (r_dfa r) s \<and> r_output_pos r = pos \<and> \<not> r_use_nfa r"

text \<open>The data does not start with a byte order mark, or the core reader has looked past its start.\<close>

definition no_bom :: "Reader \<Rightarrow> u8 list \<Rightarrow> bool" where
  "no_bom r bs \<longleftrightarrow> r_has_read r \<or> take 3 bs \<noteq> [239, 187, 191]"

lemma no_bom_strip: "no_bom r (input @ ys) \<Longrightarrow> strip_utf8_bom r input = (input, 0)"
  by (auto simp: no_bom_def strip_utf8_bom_def)

lemma core_at_update:
  assumes "core_at r s pos" and "live r t"
  shows "core_at (r\<lparr>r_dfa_state := row (r_dfa r) t, r_line := l, r_output_pos := p, r_has_read := b\<rparr>) t p"
proof -
  let ?r = "r\<lparr>r_dfa_state := row (r_dfa r) t, r_line := l, r_output_pos := p, r_has_read := b\<rparr>"
  have c: "cfg ?r = cfg r" by simp
  have "built ?r" using built_cong [of ?r r] assms(1) by (simp add: core_at_def)
  then show ?thesis using assms run_cong(1,2) [OF c] by (simp add: core_at_def)
qed

lemma core_at_same: "core_at r s pos \<Longrightarrow> core_at (r\<lparr>r_has_read := b\<rparr>) s pos"
  using built_cong [of "r\<lparr>r_has_read := b\<rparr>" r] run_cong(1,2) [of "r\<lparr>r_has_read := b\<rparr>" r] by (simp add: core_at_def)

text \<open>The line counter only grows, by at most the bytes read.\<close>

lemma unat_add_one: "unat (l :: u64) + 1 < 2 ^ 64 \<Longrightarrow> unat (l + 1) = Suc (unat l)"
  by (simp add: unat_word_ariths)

lemma dfa_record_body_line:
  assumes "dfa_record_body d pos input (out, ends, nin, nout, nend, s, line) = Some v" and "unat line + 1 < 2 ^ 64"
  shows "case v of Inl (_, _, nin', _, _, _, line') \<Rightarrow> unat line \<le> unat line' \<and> unat line' \<le> unat line + 1 \<and> nin < nin'
    | Inr (_, _, nin', _, _, _, line') \<Rightarrow> unat line \<le> unat line' \<and> unat line' \<le> unat line + 1 \<and> nin < nin'"
  using assms(1) unat_add_one [OF assms(2)]
  by (auto simp: dfa_record_body_def Let_def dest!: scan_and_copy_advances split: bind_splits if_splits prod.splits)

lemma dfa_record_loop_line:
  assumes "dfa_record_loop d pos input (out, ends, nin, nout, nend, s, line) = Some (out', ends', nin', nout', nend', s', line')"
    and "unat line + (length input - nin) < 2 ^ 64"
  shows "unat line \<le> unat line' \<and> nin \<le> nin' \<and> unat line' \<le> unat line + (nin' - nin)"
  using assms
proof (induction d pos input "(out, ends, nin, nout, nend, s, line)" arbitrary: out ends nin nout nend s line rule: dfa_record_loop.induct)
  case (1 d pos input out ends nin nout nend s line)
  show ?case
  proof (cases "nin < length input \<and> nout < length out \<and> nend < length ends")
    case False
    then show ?thesis using "1.prems"(1) by (auto simp: dfa_record_loop.simps)
  next
    case True
    then obtain v where v: "dfa_record_body d pos input (out, ends, nin, nout, nend, s, line) = Some v"
      using "1.prems"(1) by (auto simp: dfa_record_loop.simps split: option.splits)
    have l: "unat line + 1 < 2 ^ 64" using "1.prems"(2) True by linarith
    note step = dfa_record_body_line [OF v l]
    show ?thesis
    proof (cases v)
      case (Inl a)
      then show ?thesis using step "1.prems"(1) True v by (cases a) (auto simp: dfa_record_loop.simps)
    next
      case (Inr a)
      obtain o1 e1 n1 m1 k1 s1 l1 where a: "a = (o1, e1, n1, m1, k1, s1, l1)" by (cases a) auto
      have "unat l1 + (length input - n1) < 2 ^ 64" using step Inr a "1.prems"(2) True by auto
      moreover have "dfa_record_loop d pos input (o1, e1, n1, m1, k1, s1, l1) = Some (out', ends', nin', nout', nend', s', line')"
        using "1.prems"(1) True v Inr a by (simp add: dfa_record_loop.simps [of d pos input out])
      ultimately have "unat l1 \<le> unat line' \<and> n1 \<le> nin' \<and> unat line' \<le> unat l1 + (nin' - n1)"
        by (intro "1.hyps" [OF True v Inr [unfolded a]])
      then show ?thesis using step Inr a by auto
    qed
  qed
qed

lemma read_record_full:
  assumes "core_at r s pos" and "input \<noteq> []" and "no_bom r (input @ ys)" and "out = [] \<or> ends = []"
  shows "read_record r input out ends = Some (r\<lparr>r_has_read := True\<rparr>, out, ends, if out = [] then ReadRecordResult.OutputFull else OutputEndsFull, 0, 0, 0)"
  using assms by (auto simp: read_record_def no_bom_strip core_at_def read_record_dfa_def)

lemma read_record_some:
  assumes "core_at r s pos" and "input \<noteq> []" and "no_bom r (input @ ys)" and "out \<noteq> []" "ends \<noteq> []"
    and "unat (r_line r) + length input < 2 ^ 64" and run: "record_run r pos s input (length out) (length ends) = (t, n, w, es)"
  shows "\<exists>r'. read_record r input out ends = Some (r', overwrite out 0 w, overwrite ends 0 es,
      record_outcome t (length input \<le> n) (length out \<le> length w) (length ends \<le> length es), n, length w, length es)
    \<and> core_at r' t (if is_record_final t then 0 else pos + length w) \<and> cfg r' = cfg r \<and> r_has_read r'
    \<and> unat (r_line r) \<le> unat (r_line r') \<and> unat (r_line r') \<le> unat (r_line r) + n"
proof -
  note c = assms(1) [unfolded core_at_def]
  have live: "live r t" using record_run_live [OF run] c by simp
  obtain l where rd: "read_record_dfa r input out ends =
      Some (r\<lparr>r_dfa_state := row (r_dfa r) t, r_line := l, r_output_pos := (if is_record_final t then 0 else pos + length w)\<rparr>,
        overwrite out 0 w, overwrite ends 0 es,
        record_outcome t (length input \<le> n) (length out \<le> length w) (length ends \<le> length es), n, length w, length es)"
    using read_record_dfa_run [of r s input out ends t n w es] c assms(2,4,5) run by auto
  then obtain o1 e1 n1 k1 s1 where "dfa_record_loop (r_dfa r) (r_output_pos r) input (out, ends, 0, 0, 0, r_dfa_state r, r_line r) = Some (o1, e1, n, n1, k1, s1, l)"
    using assms(2,4,5) by (auto simp: read_record_dfa_def split: bind_splits if_splits dest!: arg_cong [of _ _ r_line])
  then have "unat (r_line r) \<le> unat l \<and> unat l \<le> unat (r_line r) + n"
    using dfa_record_loop_line assms(6) by fastforce
  then show ?thesis
    using rd core_at_update [OF assms(1) live] c no_bom_strip [OF assms(3)] by (auto simp: read_record_def)
qed

lemma read_record_eof:
  assumes "core_at r s pos"
  shows "\<exists>r'. cfg r' = cfg r \<and> r_line r' = r_line r \<and> r_has_read r'
    \<and> (if is_record_final s \<or> s = StartRecord
       then read_record r [] out ends = Some (r', out, ends, ReadRecordResult.End, 0, 0, 0) \<and> core_at r' StartRecord pos
       else if ends = [] then read_record r [] out ends = Some (r', out, ends, OutputEndsFull, 0, 0, 0) \<and> core_at r' s pos
       else read_record r [] out ends = Some (r', out, ends[0 := pos], Record, 0, 0, 1) \<and> core_at r' EndRecord 0)"
proof -
  note c = assms [unfolded core_at_def]
  have st: "StartRecord \<in> dfa_states" "EndRecord \<in> dfa_states" "live r StartRecord" "live r EndRecord"
    by (simp_all add: live_def lf_visible_def dfa_states_iff)
  have s: "s \<in> dfa_states" using c live_dfa_states by blast
  note ups = core_at_update [OF assms st(3), where l = "r_line r" and p = pos and b = True]
    core_at_update [OF assms st(4), where l = "r_line r" and p = 0 and b = True]
  have strip: "strip_utf8_bom r [] = ([], 0)" by (simp add: strip_utf8_bom_def)
  have tr: "transition_final_dfa r (r_dfa_state r) = Some (row (r_dfa r) (if is_record_final s \<or> s = StartRecord then StartRecord else EndRecord))"
    using transition_final_dfa_eq [of r s] c s by simp
  have res: "new_read_record_result (r_dfa r) (row (r_dfa r) StartRecord) True False False False = Some ReadRecordResult.End"
      "new_read_record_result (r_dfa r) (row (r_dfa r) EndRecord) True False False False = Some Record"
    using final_rows [of r StartRecord] final_rows [of r EndRecord] st(1,2) c by (auto simp: new_read_record_result_def)
  show ?thesis
  proof (cases "is_record_final s \<or> s = StartRecord")
    case True
    then show ?thesis using ups(1) tr res c by (auto simp: read_record_def strip read_record_dfa_def)
  next
    case False
    then show ?thesis using ups(2) tr res c core_at_same [OF assms, of True] by (cases "ends = []") (auto simp: read_record_def strip read_record_dfa_def)
  qed
qed

section \<open>The source and the state of the reader\<close>

definition stream_of :: "('r \<Rightarrow> u8 list) \<Rightarrow> 'r CsvReader \<Rightarrow> u8 list" where
  "stream_of rest R = bu_unread (cr_rdr R) @ rest (bu_inner (cr_rdr R))"

definition reader_at :: "('r \<Rightarrow> u8 list) \<Rightarrow> 'r CsvReader \<Rightarrow> NfaState \<Rightarrow> nat \<Rightarrow> bool" where
  "reader_at rest R s pos \<longleftrightarrow> core_at (cr_core R) s pos \<and> 0 < bu_capacity (cr_rdr R) \<and> no_bom (cr_core R) (stream_of rest R)
     \<and> 0 < unat (r_line (cr_core R)) \<and> unat (r_line (cr_core R)) + length (stream_of rest R) < 2 ^ 64"

text \<open>\<open>R'\<close> is \<open>R\<close> after \<open>n\<close> bytes have been consumed.\<close>

definition moved :: "Position \<Rightarrow> nat \<Rightarrow> u64 \<Rightarrow> Position" where
  "moved p n l = p\<lparr>pos_byte := pos_byte p + word_of_nat n, pos_line := l\<rparr>"

definition moves :: "('r \<Rightarrow> u8 list) \<Rightarrow> 'r CsvReader \<Rightarrow> 'r CsvReader \<Rightarrow> nat \<Rightarrow> bool" where
  "moves rest R R' n \<longleftrightarrow> stream_of rest R' = drop n (stream_of rest R) \<and> n \<le> length (stream_of rest R) \<and> cfg (cr_core R') = cfg (cr_core R)
     \<and> r_has_read (cr_core R') \<and> cr_state R' = (cr_state R)\<lparr>rs_cur_pos := moved (rs_cur_pos (cr_state R)) n (r_line (cr_core R'))\<rparr>"

lemma moves_trans: "moves rest R R1 n \<Longrightarrow> moves rest R1 R2 m \<Longrightarrow> moves rest R R2 (n + m)"
  by (auto simp: moves_def moved_def add.commute add.left_commute)

text \<open>The record holds the bytes \<open>w\<close> and the ends \<open>es\<close> read so far.\<close>

definition holds :: "ByteRecord \<Rightarrow> u8 list \<Rightarrow> nat list \<Rightarrow> bool" where
  "holds rec w es \<longleftrightarrow> take (length w) (br_fields rec) = w \<and> take (length es) (b_ends (br_bounds rec)) = es"

lemma holds_length: "holds rec w es \<Longrightarrow> length w \<le> length (br_fields rec) \<and> length es \<le> length (b_ends (br_bounds rec))"
  by (auto simp: holds_def dest: arg_cong [of _ _ length])

definition same_frame :: "ByteRecord \<Rightarrow> ByteRecord \<Rightarrow> bool" where
  "same_frame rec rec' \<longleftrightarrow> br_pos rec' = br_pos rec \<and> b_len (br_bounds rec') = b_len (br_bounds rec)"

lemma holds_put_parts:
  assumes "holds rec w es" and "length out = length (br_fields rec) - length w" and "length ends = length (b_ends (br_bounds rec)) - length es"
    and "length v \<le> length out" and "length fs \<le> length ends"
  shows "holds (put_parts rec (length w) (overwrite out 0 v) (length es) (overwrite ends 0 fs)) (w @ v) (es @ fs)
    \<and> same_frame rec (put_parts rec (length w) (overwrite out 0 v) (length es) (overwrite ends 0 fs))
    \<and> length (br_fields (put_parts rec (length w) (overwrite out 0 v) (length es) (overwrite ends 0 fs))) = length (br_fields rec)
    \<and> length (b_ends (br_bounds (put_parts rec (length w) (overwrite out 0 v) (length es) (overwrite ends 0 fs)))) = length (b_ends (br_bounds rec))"
  using assms holds_length [OF assms(1)] by (auto simp: holds_def put_parts_def same_frame_def overwrite_def)

lemma expand_fields_holds:
  assumes "holds rec w es" and "length (br_fields rec) < 2 ^ 63"
  shows "\<exists>rec'. br_expand_fields rec = Some rec' \<and> holds rec' w es \<and> same_frame rec rec' \<and> length (br_fields rec) < length (br_fields rec')
    \<and> b_ends (br_bounds rec') = b_ends (br_bounds rec)"
  using assms holds_length [OF assms(1)] by (auto simp: br_expand_fields_def double_usize_def holds_def same_frame_def take_resize max_def)

lemma expand_ends_holds:
  assumes "holds rec w es" and "length (b_ends (br_bounds rec)) < 2 ^ 63"
  shows "\<exists>rec'. br_expand_ends rec = Some rec' \<and> holds rec' w es \<and> same_frame rec rec' \<and> length (b_ends (br_bounds rec)) < length (b_ends (br_bounds rec'))
    \<and> br_fields rec' = br_fields rec"
  using assms holds_length [OF assms(1)] by (auto simp: br_expand_ends_def bounds_expand_def double_usize_def holds_def same_frame_def take_resize max_def)

text \<open>One step over input that is not empty, with room in both buffers; and a step that finds no room.\<close>

lemma slice_tail: "n \<le> length xs \<Longrightarrow> slice xs n (length xs) = Some (drop n xs)"
  by (simp add: slice_def)

lemma set_line_ok: "0 < unat l \<Longrightarrow> position_set_line (position_set_byte p b) l = Some (p\<lparr>pos_byte := b, pos_line := l\<rparr>)"
  by (simp add: position_set_line_def position_set_byte_def unat_gt_0 word_gt_0)

lemma read_step_some:
  assumes "reader_at rest R s (length w)" and "holds rec w es" and "bu_unread (cr_rdr R) = input" "input \<noteq> []"
    and "length w < length (br_fields rec)" and "length es < length (b_ends (br_bounds rec))"
    and run: "record_run (cr_core R) (length w) s input (length (br_fields rec) - length w) (length (b_ends (br_bounds rec)) - length es) = (t, n, v, fs)"
  shows "\<exists>R' rec'. read_step R rec (length w) (length es) input =
      Some (record_outcome t (length input \<le> n) (length (br_fields rec) \<le> length (w @ v)) (length (b_ends (br_bounds rec)) \<le> length (es @ fs)),
        R', rec', length (w @ v), length (es @ fs))
    \<and> reader_at rest R' t (if is_record_final t then 0 else length (w @ v)) \<and> moves rest R R' n \<and> holds rec' (w @ v) (es @ fs) \<and> same_frame rec rec'
    \<and> length (br_fields rec') = length (br_fields rec) \<and> length (b_ends (br_bounds rec')) = length (b_ends (br_bounds rec))"
proof -
  let ?out = "drop (length w) (br_fields rec)" and ?fins = "drop (length es) (b_ends (br_bounds rec))"
  note R = assms(1) [unfolded reader_at_def]
  have stream: "stream_of rest R = input @ rest (bu_inner (cr_rdr R))" using assms(3) by (simp add: stream_of_def)
  have bom: "no_bom (cr_core R) (input @ rest (bu_inner (cr_rdr R)))" using R stream by simp
  have run': "record_run (cr_core R) (length w) s input (length ?out) (length ?fins) = (t, n, v, fs)" using run by simp
  note b = record_run_bounds [OF run']
  obtain r' where r: "read_record (cr_core R) input ?out ?fins = Some (r', overwrite ?out 0 v, overwrite ?fins 0 fs,
        record_outcome t (length input \<le> n) (length ?out \<le> length v) (length ?fins \<le> length fs), n, length v, length fs)"
      "core_at r' t (if is_record_final t then 0 else length w + length v)" "cfg r' = cfg (cr_core R)" "r_has_read r'"
      "unat (r_line (cr_core R)) \<le> unat (r_line r')" "unat (r_line r') \<le> unat (r_line (cr_core R)) + n"
    using read_record_some [OF _ assms(4) bom _ _ _ run'] R stream assms(5,6) by auto
  let ?R = "R\<lparr>cr_core := r', cr_rdr := consume (cr_rdr R) n,
      cr_state := (cr_state R)\<lparr>rs_cur_pos := (rs_cur_pos (cr_state R))\<lparr>pos_byte := pos_byte (rs_cur_pos (cr_state R)) + word_of_nat n, pos_line := r_line r'\<rparr>\<rparr>\<rparr>"
  have s: "stream_of rest ?R = drop n (stream_of rest R)" using b(1) assms(3) by (simp add: stream_of_def consume_def)
  have mv: "moves rest R ?R n" unfolding moves_def s using b(1) stream r(3,4) by (simp add: moved_def)
  have ra: "reader_at rest ?R t (if is_record_final t then 0 else length (w @ v))"
    unfolding reader_at_def s using r R b(1) stream by (auto simp: no_bom_def consume_def)
  have cond: "length ?out \<le> length v \<longleftrightarrow> length (br_fields rec) \<le> length (w @ v)"
      "length ?fins \<le> length fs \<longleftrightarrow> length (b_ends (br_bounds rec)) \<le> length (es @ fs)" using assms(5,6) by auto
  have st: "read_step R rec (length w) (length es) input = Some (record_outcome t (length input \<le> n) (length (br_fields rec) \<le> length (w @ v))
        (length (b_ends (br_bounds rec)) \<le> length (es @ fs)), ?R, put_parts rec (length w) (overwrite ?out 0 v) (length es) (overwrite ?fins 0 fs), length (w @ v), length (es @ fs))"
    using r(1,5) R assms(5,6) set_line_ok [of "r_line r'"] unfolding cond [symmetric]
    by (simp add: read_step_def slice_tail Let_def)
  show ?thesis using st ra mv holds_put_parts [OF assms(2), of ?out ?fins v fs] b(2,3) by auto
qed

lemma read_step_full:
  assumes "reader_at rest R s (length w)" and "holds rec w es" and "bu_unread (cr_rdr R) = input" "input \<noteq> []"
    and "length w = length (br_fields rec) \<or> length es = length (b_ends (br_bounds rec))"
  shows "\<exists>R' rec'. read_step R rec (length w) (length es) input =
      Some (if length w = length (br_fields rec) then ReadRecordResult.OutputFull else OutputEndsFull, R', rec', length w, length es)
    \<and> reader_at rest R' s (length w) \<and> moves rest R R' 0 \<and> holds rec' w es \<and> same_frame rec rec'
    \<and> length (br_fields rec') = length (br_fields rec) \<and> length (b_ends (br_bounds rec')) = length (b_ends (br_bounds rec))"
proof -
  let ?out = "drop (length w) (br_fields rec)" and ?fins = "drop (length es) (b_ends (br_bounds rec))"
  note R = assms(1) [unfolded reader_at_def]
  have stream: "stream_of rest R = input @ rest (bu_inner (cr_rdr R))" using assms(3) by (simp add: stream_of_def)
  have bom: "no_bom (cr_core R) (input @ rest (bu_inner (cr_rdr R)))" using R stream by simp
  have e: "?out = [] \<or> ?fins = []" "?out = [] \<longleftrightarrow> length w = length (br_fields rec)" using assms(5) holds_length [OF assms(2)] by auto
  have rr: "read_record (cr_core R) input ?out ?fins = Some ((cr_core R)\<lparr>r_has_read := True\<rparr>, ?out, ?fins,
      if length w = length (br_fields rec) then ReadRecordResult.OutputFull else OutputEndsFull, 0, 0, 0)"
    using read_record_full [OF _ assms(4) bom e(1)] R e(2) by auto
  let ?R = "R\<lparr>cr_core := (cr_core R)\<lparr>r_has_read := True\<rparr>, cr_rdr := consume (cr_rdr R) 0,
      cr_state := (cr_state R)\<lparr>rs_cur_pos := (rs_cur_pos (cr_state R))\<lparr>pos_byte := pos_byte (rs_cur_pos (cr_state R)), pos_line := r_line (cr_core R)\<rparr>\<rparr>\<rparr>"
  have s: "stream_of rest ?R = stream_of rest R" by (simp add: stream_of_def consume_def)
  have mv: "moves rest R ?R 0" unfolding moves_def s by (simp add: moved_def)
  have ra: "reader_at rest ?R s (length w)"
    unfolding reader_at_def s using R core_at_same [of "cr_core R" s "length w" True] by (simp add: no_bom_def consume_def)
  have st: "read_step R rec (length w) (length es) input = Some (if length w = length (br_fields rec) then ReadRecordResult.OutputFull else OutputEndsFull,
      ?R, put_parts rec (length w) ?out (length es) ?fins, length w, length es)"
    using rr R holds_length [OF assms(2)] set_line_ok [of "r_line (cr_core R)"] by (simp add: read_step_def slice_tail Let_def)
  show ?thesis using st ra mv holds_put_parts [OF assms(2), of ?out ?fins "[]" "[]"] by (simp add: overwrite_Nil)
qed

lemma read_step_eof:
  assumes "reader_at rest R s (length w)" and "holds rec w es" and "bu_unread (cr_rdr R) = []" "stream_of rest R = []"
  shows "\<exists>R' rec'. moves rest R R' 0 \<and> same_frame rec rec'
    \<and> (if is_record_final s \<or> s = StartRecord
       then read_step R rec (length w) (length es) [] = Some (ReadRecordResult.End, R', rec', length w, length es) \<and> reader_at rest R' StartRecord (length w)
       else if length es = length (b_ends (br_bounds rec))
       then read_step R rec (length w) (length es) [] = Some (OutputEndsFull, R', rec', length w, length es)
         \<and> reader_at rest R' s (length w) \<and> holds rec' w es
         \<and> length (br_fields rec') = length (br_fields rec) \<and> length (b_ends (br_bounds rec')) = length (b_ends (br_bounds rec))
       else read_step R rec (length w) (length es) [] = Some (Record, R', rec', length w, length es + 1)
         \<and> reader_at rest R' EndRecord 0 \<and> holds rec' w (es @ [length w]))"
proof -
  let ?out = "drop (length w) (br_fields rec)" and ?fins = "drop (length es) (b_ends (br_bounds rec))"
  note R = assms(1) [unfolded reader_at_def]
  have e: "?fins = [] \<longleftrightarrow> length es = length (b_ends (br_bounds rec))" using holds_length [OF assms(2)] by auto
  obtain r' where r: "cfg r' = cfg (cr_core R)" "r_line r' = r_line (cr_core R)" "r_has_read r'"
      "if is_record_final s \<or> s = StartRecord
       then read_record (cr_core R) [] ?out ?fins = Some (r', ?out, ?fins, ReadRecordResult.End, 0, 0, 0) \<and> core_at r' StartRecord (length w)
       else if ?fins = [] then read_record (cr_core R) [] ?out ?fins = Some (r', ?out, ?fins, OutputEndsFull, 0, 0, 0) \<and> core_at r' s (length w)
       else read_record (cr_core R) [] ?out ?fins = Some (r', ?out, ?fins[0 := length w], Record, 0, 0, 1) \<and> core_at r' EndRecord 0"
    using read_record_eof [of "cr_core R" s "length w" ?out ?fins] R by blast
  let ?R = "R\<lparr>cr_core := r', cr_rdr := consume (cr_rdr R) 0,
      cr_state := (cr_state R)\<lparr>rs_cur_pos := (rs_cur_pos (cr_state R))\<lparr>pos_byte := pos_byte (rs_cur_pos (cr_state R)), pos_line := r_line r'\<rparr>\<rparr>\<rparr>"
  have s: "stream_of rest ?R = []" using assms(3,4) by (simp add: stream_of_def consume_def)
  have mv: "moves rest R ?R 0" unfolding moves_def s using assms(4) r(1,3) by (simp add: moved_def)
  have ra: "core_at r' t p \<Longrightarrow> reader_at rest ?R t p" for t p unfolding reader_at_def s using R r(2,3) by (simp add: no_bom_def consume_def assms(4))
  have st: "read_step R rec (length w) (length es) [] = Some (res, ?R, put_parts rec (length w) out (length es) ends, length w + m, length es + k)"
    if "read_record (cr_core R) [] ?out ?fins = Some (r', out, ends, res, 0, m, k)" for out ends res m k
    using that R r(2) holds_length [OF assms(2)] set_line_ok [of "r_line r'"] by (simp add: read_step_def slice_tail Let_def)
  have hp: "holds (put_parts rec (length w) ?out (length es) ?fins) w es \<and> same_frame rec (put_parts rec (length w) ?out (length es) ?fins)
      \<and> length (br_fields (put_parts rec (length w) ?out (length es) ?fins)) = length (br_fields rec)
      \<and> length (b_ends (br_bounds (put_parts rec (length w) ?out (length es) ?fins))) = length (b_ends (br_bounds rec))"
    using holds_put_parts [OF assms(2), of ?out ?fins "[]" "[]"] by (simp add: overwrite_Nil)
  have hp1: "holds (put_parts rec (length w) ?out (length es) (?fins[0 := length w])) w (es @ [length w])
      \<and> same_frame rec (put_parts rec (length w) ?out (length es) (?fins[0 := length w]))" if "?fins \<noteq> []"
  proof -
    have "?fins[0 := length w] = overwrite ?fins 0 [length w]" "Suc 0 \<le> length ?fins" using that by (cases ?fins; simp add: overwrite_def)+
    then show ?thesis using holds_put_parts [OF assms(2), of ?out ?fins "[]" "[length w]"] by (simp add: overwrite_Nil)
  qed
  consider "is_record_final s \<or> s = StartRecord" | "\<not> (is_record_final s \<or> s = StartRecord)" "?fins = []"
    | "\<not> (is_record_final s \<or> s = StartRecord)" "?fins \<noteq> []" by blast
  then show ?thesis
  proof cases
    case 1
    then show ?thesis using r(4) st [of ?out ?fins ReadRecordResult.End 0 0] mv hp ra [of StartRecord "length w"] by auto
  next
    case 2
    then show ?thesis using r(4) st [of ?out ?fins OutputEndsFull 0 0] mv hp ra [of s "length w"] e by auto
  next
    case 3
    then show ?thesis using r(4) st [of ?out "?fins[0 := length w]" Record 0 1] mv hp1 ra [of EndRecord 0] e by auto
  qed
qed

section \<open>The loop\<close>

lemma record_at_cong: "cfg r = cfg q \<Longrightarrow> record_at r pos s bs = record_at q pos s bs"
proof -
  assume c: "cfg r = cfg q"
  have "free_run r pos s bs = free_run q pos s bs" for pos s
    by (induction bs arbitrary: pos s) (simp_all add: cfg_cong(1) [OF c] Let_def split: prod.splits)
  then show ?thesis by (simp add: record_at_def)
qed

definition read_done :: "('r \<Rightarrow> u8 list) \<Rightarrow> 'r CsvReader \<Rightarrow> ByteRecord \<Rightarrow> u8 list \<Rightarrow> nat list
    \<Rightarrow> NfaState \<times> nat \<times> (u8 list \<times> nat list) option \<Rightarrow> 'r CsvReader \<times> ByteRecord \<times> ('e ErrorKind + bool) \<Rightarrow> bool" where
  "read_done rest R rec w es found result \<longleftrightarrow> (case (found, result) of ((t, n, data), (R', rec', res)) \<Rightarrow>
     \<exists>R1. moves rest R R1 n \<and> br_pos rec' = br_pos rec
       \<and> (case data of
            None \<Rightarrow> reader_at rest R1 StartRecord 0 \<and> res = Inr False \<and> R' = R1\<lparr>cr_state := (cr_state R1)\<lparr>rs_eof := Eof\<rparr>\<rparr> \<and> b_len (br_bounds rec') = b_len (br_bounds rec)
          | Some (v, fs) \<Rightarrow> reader_at rest R1 t 0 \<and> holds rec' (w @ v) (es @ fs) \<and> b_len (br_bounds rec') = length (es @ fs)
              \<and> (\<exists>st r. add_record (cr_state R1) rec' = Some (st, r) \<and> R' = R1\<lparr>cr_state := st\<rparr> \<and> res = (case r of Inl e \<Rightarrow> Inl e | Inr _ \<Rightarrow> Inr True))))"

definition shifted :: "nat \<Rightarrow> u8 list \<Rightarrow> nat list \<Rightarrow> NfaState \<times> nat \<times> (u8 list \<times> nat list) option \<Rightarrow> NfaState \<times> nat \<times> (u8 list \<times> nat list) option" where
  "shifted n v fs = (\<lambda>(t, m, data). (t, n + m, map_option (\<lambda>(x, gs). (v @ x, fs @ gs)) data))"

lemma read_done_later:
  assumes "moves rest R R1 n" and "same_frame rec rec1" and "read_done rest R1 rec1 (w @ v) (es @ fs) found X"
  shows "read_done rest R rec w es (shifted n v fs found) X"
  using assms moves_trans [OF assms(1)] unfolding read_done_def same_frame_def shifted_def
  by (cases X; cases found) (fastforce split: option.splits)

lemma shifted_nothing [simp]: "shifted 0 [] [] = id"
  by (auto simp: shifted_def fun_eq_iff option.map_id split: prod.splits option.splits)

lemma record_run_short: "record_run r pos s cs cap ecap = (t, n, w, es) \<Longrightarrow> length w \<le> n \<and> length es \<le> n"
proof (induction r pos s cs cap ecap arbitrary: t n w es rule: record_run.induct)
  case (4 r pos s c cs k m)
  then show ?case by (fastforce simp: Let_def split: prod.splits if_splits)
qed auto

lemma record_run_progress: "record_run r pos s cs cap ecap = (t, n, w, es) \<Longrightarrow> cs \<noteq> [] \<Longrightarrow> 0 < cap \<Longrightarrow> 0 < ecap \<Longrightarrow> 0 < n"
  by (cases "(r, pos, s, cs, cap, ecap)" rule: record_run.cases) (auto simp: Let_def split: prod.splits if_splits)

lemma record_at_final:
  assumes "record_run r pos s xs cap ecap = (t, n, v, fs)" and "is_record_final t" and "0 < n" and "xs \<noteq> []"
  shows "record_at r pos s (xs @ ys) = (t, n, Some (v, fs))"
  using record_run_prefix [OF assms(1), of ys] assms(2-4) by (simp add: record_at_def)

lemma record_at_shifted:
  assumes "record_run r pos s xs cap ecap = (t, n, v, fs)" and "\<not> is_record_final t" and "0 < n"
  shows "record_at r pos s (xs @ ys) = shifted n v fs (record_at r (pos + length v) t (drop n xs @ ys))"
proof -
  have n: "n \<le> length xs" using record_run_bounds [OF assms(1)] by simp
  have "free_run r pos s (take n xs @ drop n xs @ ys) = prepend_fields (length (take n xs)) v fs (free_run r (pos + length v) t (drop n xs @ ys))"
    using record_run_prefix [OF assms(1), of ys] assms(2) n by (simp flip: append_assoc)
  then have "record_at r pos s (take n xs @ drop n xs @ ys) = (case record_at r (pos + length v) t (drop n xs @ ys) of
      (u, m, None) \<Rightarrow> (u, length (take n xs) + m, None) | (u, m, Some (x, gs)) \<Rightarrow> (u, length (take n xs) + m, Some (v @ x, fs @ gs)))"
    by (rule record_at_skip) (use assms(2,3) n in auto)
  then show ?thesis using n by (simp add: shifted_def flip: append_assoc split: prod.splits option.splits)
qed

definition work :: "('r \<Rightarrow> u8 list) \<Rightarrow> 'r CsvReader \<Rightarrow> ByteRecord \<Rightarrow> u8 list \<Rightarrow> nat list \<Rightarrow> nat" where
  "work rest R rec w es = 3 * length (stream_of rest R) + (if length w = length (br_fields rec) then 1 else 0)
     + (if length es = length (b_ends (br_bounds rec)) then 1 else 0)"

text \<open>The states in which no field has begun: nothing has been copied yet.\<close>

definition idle :: "NfaState \<Rightarrow> bool" where
  "idle s \<longleftrightarrow> is_record_final s \<or> s = StartRecord \<or> s = InComment"

lemma csv_step_idle: "csv_step r s c = (t, copy) \<Longrightarrow> \<not> is_record_final t \<Longrightarrow> idle t \<Longrightarrow> idle s \<and> \<not> copy"
  by (cases s) (auto simp: idle_def step_defs split: if_splits)

lemma record_run_idle: "record_run r pos s xs cap ecap = (t, n, v, fs) \<Longrightarrow> \<not> is_record_final t \<Longrightarrow> idle t \<Longrightarrow> idle s \<and> v = []"
proof (induction r pos s xs cap ecap arbitrary: t n v fs rule: record_run.induct)
  case (4 r pos s c cs k m)
  then show ?case using csv_step_idle [of r s c] by (fastforce simp: Let_def split: prod.splits if_splits)
qed auto

text \<open>What is needed of the state between two turns; the sizes keep the doubling of the buffers within 64 bits.\<close>

definition looping :: "('r \<Rightarrow> u8 list) \<Rightarrow> 'r CsvReader \<Rightarrow> ByteRecord \<Rightarrow> NfaState \<Rightarrow> u8 list \<Rightarrow> nat list \<Rightarrow> bool" where
  "looping rest R rec s w es \<longleftrightarrow> reader_at rest R s (length w) \<and> holds rec w es \<and> pos_record (rs_cur_pos (cr_state R)) \<noteq> - 1
     \<and> length w + length (stream_of rest R) < 2 ^ 62 \<and> length es + length (stream_of rest R) < 2 ^ 62 \<and> (idle s \<longrightarrow> w = [])"

definition goes_on :: "('r \<Rightarrow> u8 list) \<Rightarrow> 'r CsvReader \<Rightarrow> ByteRecord \<Rightarrow> NfaState \<Rightarrow> u8 list \<Rightarrow> nat list
    \<Rightarrow> 'r CsvReader \<times> ByteRecord \<times> nat \<times> nat \<Rightarrow> bool" where
  "goes_on rest R rec s w es v' \<longleftrightarrow> (case v' of (R1, rec1, m, k) \<Rightarrow> \<exists>t n v fs. m = length (w @ v) \<and> k = length (es @ fs)
     \<and> looping rest R1 rec1 t (w @ v) (es @ fs) \<and> moves rest R R1 n \<and> same_frame rec rec1
     \<and> record_at (cr_core R) (length w) s (stream_of rest R) = shifted n v fs (record_at (cr_core R1) (length (w @ v)) t (stream_of rest R1))
     \<and> work rest R1 rec1 (w @ v) (es @ fs) < work rest R rec w es)"

lemma looping_move:
  assumes "looping rest R rec s w es" and "moves rest R R1 n" and "reader_at rest R1 t (length (w @ v))" and "holds rec1 (w @ v) (es @ fs)"
    and "length v \<le> n" and "length fs \<le> n" and "idle t \<longrightarrow> w @ v = []"
  shows "looping rest R1 rec1 t (w @ v) (es @ fs)"
  using assms by (auto simp: looping_def moves_def moved_def)

lemma same_frame_trans: "same_frame a b \<Longrightarrow> same_frame b c \<Longrightarrow> same_frame a c"
  by (simp add: same_frame_def)

text \<open>A step that found no room is followed by growing the record.\<close>

lemma expand_goes_on:
  assumes "looping rest R rec s w es" and "moves rest R R1 0" and "reader_at rest R1 s (length w)" and "holds rec1 w es" and "same_frame rec rec1"
    and "length (br_fields rec1) = length (br_fields rec)" and "length (b_ends (br_bounds rec1)) = length (b_ends (br_bounds rec))"
  shows "length w = length (br_fields rec) \<Longrightarrow> \<exists>rec2. br_expand_fields rec1 = Some rec2 \<and> goes_on rest R rec s w es (R1, rec2, length w, length es)"
    and "length es = length (b_ends (br_bounds rec)) \<Longrightarrow> \<exists>rec2. br_expand_ends rec1 = Some rec2 \<and> goes_on rest R rec s w es (R1, rec2, length w, length es)"
proof -
  have st: "stream_of rest R1 = stream_of rest R" "cfg (cr_core R1) = cfg (cr_core R)" using assms(2) by (auto simp: moves_def)
  have on: "goes_on rest R rec s w es (R1, rec2, length w, length es)"
    if "holds rec2 w es" "same_frame rec1 rec2" "work rest R1 rec2 w es < work rest R rec w es" for rec2
    using that looping_move [OF assms(1,2), of s "[]" rec2 "[]"] assms(1) [unfolded looping_def] assms(2,3,5) st record_at_cong [OF st(2)] same_frame_trans
    unfolding goes_on_def by (fastforce intro!: exI [of _ s] exI [of _ "[]"] exI [of _ 0])
  have small: "length w < 2 ^ 63" "length es < 2 ^ 63" using assms(1) by (auto simp: looping_def)
  show "length w = length (br_fields rec) \<Longrightarrow> \<exists>rec2. br_expand_fields rec1 = Some rec2 \<and> goes_on rest R rec s w es (R1, rec2, length w, length es)"
    using expand_fields_holds [OF assms(4)] small(1) assms(6,7) st(1) on by (force simp: work_def)
  show "length es = length (b_ends (br_bounds rec)) \<Longrightarrow> \<exists>rec2. br_expand_ends rec1 = Some rec2 \<and> goes_on rest R rec s w es (R1, rec2, length w, length es)"
    using expand_ends_holds [OF assms(4)] small(2) assms(6,7) st(1) on by (force simp: work_def)
qed

lemma add_record_ok: "pos_record (rs_cur_pos st) \<noteq> - 1 \<Longrightarrow> \<exists>st' r. add_record st rec = Some (st', r)"
  by (auto simp: add_record_def Let_def)

section \<open>Reading from a source\<close>

definition dependable :: "('r, 'e) io_read \<Rightarrow> bool" where
  "dependable rd \<longleftrightarrow> (\<forall>r n. \<exists>bs. snd (rd r n) = Inr bs)"

text \<open>An error of the source ends the reading, with the record still empty.\<close>

definition io_failed :: "('r, 'e) io_read \<Rightarrow> 'r CsvReader \<Rightarrow> ByteRecord \<Rightarrow> 'r CsvReader \<times> ByteRecord \<times> ('e ErrorKind + bool) \<Rightarrow> bool" where
  "io_failed rd R rec X \<longleftrightarrow> (case X of (R', rec', res) \<Rightarrow> (\<exists>e. res = Inl (Io e)) \<and> \<not> dependable rd \<and> same_frame rec rec'
     \<and> (\<exists>p. cr_state R' = (cr_state R)\<lparr>rs_cur_pos := p, rs_eof := IOError\<rparr>))"

lemma io_failed_later: "moves rest R R1 n \<Longrightarrow> same_frame rec rec1 \<Longrightarrow> io_failed rd R1 rec1 X \<Longrightarrow> io_failed rd R rec X"
  by (cases X) (auto simp: io_failed_def moves_def same_frame_def)

text \<open>A source hands out the bytes it still has, in pieces of its choice, or fails; it reports the end only when nothing is left.\<close>

locale byte_source =
  fixes rd :: "('r, 'e) io_read" and rest :: "'r \<Rightarrow> u8 list"
  assumes read_some: "rd r n = (r', Inr bs) \<Longrightarrow> length bs \<le> n \<and> rest r = bs @ rest r' \<and> (0 < n \<longrightarrow> bs = [] \<longrightarrow> rest r = [])"
begin

lemma fill_buf_ok:
  assumes "0 < bu_capacity (cr_rdr R)"
  shows "(\<exists>b e. fill_buf rd (cr_rdr R) = Some (b, Inl e) \<and> \<not> dependable rd)
    \<or> (\<exists>b input. fill_buf rd (cr_rdr R) = Some (b, Inr input) \<and> bu_unread b = input \<and> bu_capacity b = bu_capacity (cr_rdr R)
        \<and> stream_of rest (R\<lparr>cr_rdr := b\<rparr>) = stream_of rest R \<and> (input = [] \<longrightarrow> stream_of rest R = []))"
proof (cases "bu_unread (cr_rdr R) = []")
  case True
  obtain r' res where r: "rd (bu_inner (cr_rdr R)) (bu_capacity (cr_rdr R)) = (r', res)" by force
  show ?thesis
  proof (cases res)
    case (Inl e)
    then show ?thesis using True r by (auto simp: fill_buf_def dependable_def) (metis snd_conv sum.distinct(1))
  next
    case (Inr bs)
    then show ?thesis using True r read_some [of "bu_inner (cr_rdr R)" "bu_capacity (cr_rdr R)" r' bs] assms by (auto simp: fill_buf_def stream_of_def)
  qed
qed (auto simp: fill_buf_def stream_of_def)

lemma refilled:
  assumes "stream_of rest (R\<lparr>cr_rdr := b\<rparr>) = stream_of rest R" and "bu_capacity b = bu_capacity (cr_rdr R)"
  shows "looping rest (R\<lparr>cr_rdr := b\<rparr>) rec s w es = looping rest R rec s w es" and "goes_on rest (R\<lparr>cr_rdr := b\<rparr>) = goes_on rest R"
    and "read_done rest (R\<lparr>cr_rdr := b\<rparr>) = read_done rest R"
proof -
  have m: "moves rest (R\<lparr>cr_rdr := b\<rparr>) = moves rest R" using assms by (simp add: moves_def fun_eq_iff)
  show "looping rest (R\<lparr>cr_rdr := b\<rparr>) rec s w es = looping rest R rec s w es" using assms by (simp add: looping_def reader_at_def)
  show "goes_on rest (R\<lparr>cr_rdr := b\<rparr>) = goes_on rest R" "read_done rest (R\<lparr>cr_rdr := b\<rparr>) = read_done rest R"
    using assms m by (simp_all add: goes_on_def read_done_def fun_eq_iff work_def)
qed

text \<open>The turn after the buffer has been filled.\<close>

definition turn_ok :: "'r CsvReader \<Rightarrow> ByteRecord \<Rightarrow> NfaState \<Rightarrow> u8 list \<Rightarrow> nat list
    \<Rightarrow> (('r CsvReader \<times> ByteRecord \<times> ('e ErrorKind + bool)) + 'r read_vars) may_panic \<Rightarrow> bool" where
  "turn_ok R rec s w es res \<longleftrightarrow> (case res of
     None \<Rightarrow> False
   | Some (Inl X) \<Rightarrow> io_failed rd R rec X \<or> read_done rest R rec w es (record_at (cr_core R) (length w) s (stream_of rest R)) X
   | Some (Inr v) \<Rightarrow> goes_on rest R rec s w es v)"

definition after_step :: "(ReadRecordResult \<times> 'r CsvReader \<times> ByteRecord \<times> nat \<times> nat)
    \<Rightarrow> (('r CsvReader \<times> ByteRecord \<times> ('e ErrorKind + bool)) + 'r read_vars) may_panic" where
  "after_step = (\<lambda>(res, R, rec, outlen, endlen). case res of
             ReadRecordResult.InputEmpty \<Rightarrow> Some (Inr (R, rec, outlen, endlen))
           | ReadRecordResult.OutputFull \<Rightarrow> do { rec \<leftarrow> br_expand_fields rec; Some (Inr (R, rec, outlen, endlen)) }
           | OutputEndsFull \<Rightarrow> do { rec \<leftarrow> br_expand_ends rec; Some (Inr (R, rec, outlen, endlen)) }
           | Record \<Rightarrow> do {
               let rec = br_set_len rec endlen;
               (st, r) \<leftarrow> add_record (cr_state R) rec;
               Some (Inl (R\<lparr>cr_state := st\<rparr>, rec, case r of Inl e \<Rightarrow> Inl e | Inr _ \<Rightarrow> Inr True)) }
           | ReadRecordResult.End \<Rightarrow> Some (Inl (R\<lparr>cr_state := (cr_state R)\<lparr>rs_eof := Eof\<rparr>\<rparr>, rec, Inr False)))"

lemma read_turn_step:
  assumes "fill_buf rd (cr_rdr R) = Some (b, Inr input)" and "read_step (R\<lparr>cr_rdr := b\<rparr>) rec m k input = Some x"
  shows "read_turn rd (R, rec, m, k) = after_step x"
  using assms by (cases x) (simp add: read_turn_def after_step_def Let_def)

lemma record_found:
  assumes "looping rest R rec s w es" and "moves rest R R1 n" and "reader_at rest R1 t 0" and "holds rec1 (w @ v) (es @ fs)" and "same_frame rec rec1"
    and "record_at (cr_core R) (length w) s (stream_of rest R) = (t, n, Some (v, fs))"
  shows "turn_ok R rec s w es (after_step (Record, R1, rec1, m, length (es @ fs)))"
proof -
  have "pos_record (rs_cur_pos (cr_state R1)) \<noteq> - 1" using assms(1,2) by (auto simp: looping_def moves_def moved_def)
  then obtain st r where "add_record (cr_state R1) (br_set_len rec1 (length (es @ fs))) = Some (st, r :: 'e ErrorKind + unit)"
    using add_record_ok by blast
  moreover have "holds (br_set_len rec1 (length (es @ fs))) (w @ v) (es @ fs)" using assms(4) by (simp add: holds_def br_set_len_def)
  ultimately show ?thesis using assms(2,3,5) unfolding turn_ok_def assms(6)
    by (auto simp: after_step_def read_done_def Let_def same_frame_def br_set_len_def intro!: exI [of _ R1])
qed

lemma turn_eof:
  assumes "looping rest R rec s w es" and "bu_unread (cr_rdr R) = []" and "stream_of rest R = []"
  shows "\<exists>x. read_step R rec (length w) (length es) [] = Some x \<and> turn_ok R rec s w es (after_step x)"
proof -
  note L = assms(1) [unfolded looping_def]
  let ?fin = "is_record_final s \<or> s = StartRecord" and ?full = "length es = length (b_ends (br_bounds rec))"
  obtain R1 rec1 where st: "moves rest R R1 0" "same_frame rec rec1"
      "?fin \<Longrightarrow> read_step R rec (length w) (length es) [] = Some (ReadRecordResult.End, R1, rec1, length w, length es) \<and> reader_at rest R1 StartRecord (length w)"
      "\<not> ?fin \<Longrightarrow> ?full \<Longrightarrow> read_step R rec (length w) (length es) [] = Some (OutputEndsFull, R1, rec1, length w, length es)
         \<and> reader_at rest R1 s (length w) \<and> holds rec1 w es
         \<and> length (br_fields rec1) = length (br_fields rec) \<and> length (b_ends (br_bounds rec1)) = length (b_ends (br_bounds rec))"
      "\<not> ?fin \<Longrightarrow> \<not> ?full \<Longrightarrow> read_step R rec (length w) (length es) [] = Some (Record, R1, rec1, length w, length es + 1)
         \<and> reader_at rest R1 EndRecord 0 \<and> holds rec1 w (es @ [length w])"
    using read_step_eof [of rest R s w rec es] L assms(2,3) by (auto split: if_splits)
  have at: "record_at (cr_core R) (length w) s (stream_of rest R) = (if ?fin then (StartRecord, 0, None) else (EndRecord, 0, Some ([], [length w])))"
    by (simp add: record_at_def assms(3))
  consider "?fin" | "\<not> ?fin" "?full" | "\<not> ?fin" "\<not> ?full" by blast
  then show ?thesis
  proof cases
    case 1
    then have "w = []" using L by (auto simp: idle_def)
    then show ?thesis using st(1-3) at 1 by (auto simp: turn_ok_def after_step_def read_done_def same_frame_def)
  next
    case 2
    then show ?thesis using st(4) expand_goes_on(2) [OF assms(1) st(1) _ _ st(2)] by (force simp: turn_ok_def after_step_def)
  next
    case 3
    then show ?thesis using st(5) record_found [OF assms(1) st(1) _ _ st(2), of EndRecord "[]" "[length w]"] at by auto
  qed
qed

lemma turn_full:
  assumes "looping rest R rec s w es" and "bu_unread (cr_rdr R) = input" "input \<noteq> []"
    and "length w = length (br_fields rec) \<or> length es = length (b_ends (br_bounds rec))"
  shows "\<exists>x. read_step R rec (length w) (length es) input = Some x \<and> turn_ok R rec s w es (after_step x)"
proof -
  note L = assms(1) [unfolded looping_def]
  obtain R1 rec1 where st: "read_step R rec (length w) (length es) input =
      Some (if length w = length (br_fields rec) then ReadRecordResult.OutputFull else OutputEndsFull, R1, rec1, length w, length es)"
      "reader_at rest R1 s (length w)" "moves rest R R1 0" "holds rec1 w es" "same_frame rec rec1"
      "length (br_fields rec1) = length (br_fields rec)" "length (b_ends (br_bounds rec1)) = length (b_ends (br_bounds rec))"
    using read_step_full [of rest R s w rec es input] L assms(2-4) by blast
  note on = expand_goes_on [OF assms(1) st(3,2,4-7)]
  show ?thesis using st(1) on assms(4) by (cases "length w = length (br_fields rec)") (fastforce simp: turn_ok_def after_step_def)+
qed

lemma turn_some:
  assumes "looping rest R rec s w es" and "bu_unread (cr_rdr R) = input" "input \<noteq> []"
    and "length w \<noteq> length (br_fields rec)" and "length es \<noteq> length (b_ends (br_bounds rec))"
  shows "\<exists>x. read_step R rec (length w) (length es) input = Some x \<and> turn_ok R rec s w es (after_step x)"
proof -
  note L = assms(1) [unfolded looping_def]
  have room: "length w < length (br_fields rec)" "length es < length (b_ends (br_bounds rec))" using L holds_length [of rec w es] assms(4,5) by auto
  obtain t n v fs where run: "record_run (cr_core R) (length w) s input (length (br_fields rec) - length w) (length (b_ends (br_bounds rec)) - length es) = (t, n, v, fs)"
    using prod_cases4 by blast
  have n: "0 < n" "n \<le> length input" "length v \<le> n" "length fs \<le> n"
    using record_run_progress [OF run assms(3)] record_run_bounds [OF run] record_run_short [OF run] room by auto
  let ?res = "record_outcome t (length input \<le> n) (length (br_fields rec) \<le> length (w @ v)) (length (b_ends (br_bounds rec)) \<le> length (es @ fs))"
  obtain R1 rec1 where st: "read_step R rec (length w) (length es) input = Some (?res, R1, rec1, length (w @ v), length (es @ fs))"
      "reader_at rest R1 t (if is_record_final t then 0 else length (w @ v))" "moves rest R R1 n" "holds rec1 (w @ v) (es @ fs)" "same_frame rec rec1"
      "length (br_fields rec1) = length (br_fields rec)" "length (b_ends (br_bounds rec1)) = length (b_ends (br_bounds rec))"
    using read_step_some [of rest R s w rec es input t n v fs] L assms(2,3) room run by blast
  have stream: "stream_of rest R = input @ rest (bu_inner (cr_rdr R))" using assms(2) by (simp add: stream_of_def)
  show ?thesis
  proof (cases "is_record_final t")
    case True
    have "record_at (cr_core R) (length w) s (stream_of rest R) = (t, n, Some (v, fs))"
      unfolding stream by (rule record_at_final [OF run True n(1) assms(3)])
    then show ?thesis using True st record_found [OF assms(1) st(3) _ st(4,5)] by (auto simp: record_outcome_def)
  next
    case False
    have str1: "stream_of rest R1 = drop n input @ rest (bu_inner (cr_rdr R))" "cfg (cr_core R1) = cfg (cr_core R)"
      using st(3) stream n(2) by (auto simp: moves_def)
    have at: "record_at (cr_core R) (length w) s (stream_of rest R) = shifted n v fs (record_at (cr_core R1) (length (w @ v)) t (stream_of rest R1))"
      unfolding stream str1(1) using record_at_shifted [OF run False n(1)] record_at_cong [OF str1(2)] by simp
    have idle: "idle t \<longrightarrow> w @ v = []" using record_run_idle [OF run False] L by auto
    have on: "goes_on rest R rec s w es (R1, rec2, length (w @ v), length (es @ fs))" if "holds rec2 (w @ v) (es @ fs)" "same_frame rec rec2" for rec2
      using looping_move [OF assms(1) st(3) _ that(1) n(3,4), of t] idle st(2,3) that(2) False at n stream str1 assms(4,5)
      unfolding goes_on_def by (fastforce simp: work_def)
    have small: "length (w @ v) < 2 ^ 63" "length (es @ fs) < 2 ^ 63" using L n stream by auto
    have f: "\<exists>rec2. br_expand_fields rec1 = Some rec2 \<and> holds rec2 (w @ v) (es @ fs) \<and> same_frame rec rec2" if "length (br_fields rec) \<le> length (w @ v)"
      using expand_fields_holds [OF st(4)] small(1) that st(5,6) same_frame_trans by fastforce
    have e: "\<exists>rec2. br_expand_ends rec1 = Some rec2 \<and> holds rec2 (w @ v) (es @ fs) \<and> same_frame rec rec2" if "length (b_ends (br_bounds rec)) \<le> length (es @ fs)"
      using expand_ends_holds [OF st(4)] small(2) that st(5,7) same_frame_trans by fastforce
    show ?thesis using st(1) False on [OF st(4,5)] on f e unfolding record_outcome_def
      by (cases "length (br_fields rec) \<le> length (w @ v)"; cases "length (b_ends (br_bounds rec)) \<le> length (es @ fs)")
        (fastforce simp: turn_ok_def after_step_def)+
  qed
qed

lemma read_turn_ok:
  assumes "looping rest R rec s w es"
  shows "turn_ok R rec s w es (read_turn rd (R, rec, length w, length es))"
proof -
  have "0 < bu_capacity (cr_rdr R)" using assms by (simp add: looping_def reader_at_def)
  then consider b e where "fill_buf rd (cr_rdr R) = Some (b, Inl e)" "\<not> dependable rd"
    | b input where "fill_buf rd (cr_rdr R) = Some (b, Inr input)" "bu_unread b = input" "bu_capacity b = bu_capacity (cr_rdr R)"
      "stream_of rest (R\<lparr>cr_rdr := b\<rparr>) = stream_of rest R" "input = [] \<longrightarrow> stream_of rest R = []"
    using fill_buf_ok [of R] by blast
  then show ?thesis
  proof cases
    case 1
    have "cr_state R = (cr_state R)\<lparr>rs_cur_pos := rs_cur_pos (cr_state R)\<rparr>" by simp
    then show ?thesis using 1 by (auto simp: turn_ok_def read_turn_def io_failed_def same_frame_def intro!: exI [of _ "rs_cur_pos (cr_state R)"])
  next
    case b: 2
    let ?R = "R\<lparr>cr_rdr := b\<rparr>"
    note same = refilled [OF b(4,3)]
    have lp: "looping rest ?R rec s w es" using assms same(1) by simp
    have "\<exists>x. read_step ?R rec (length w) (length es) input = Some x \<and> turn_ok ?R rec s w es (after_step x)"
      using turn_eof [OF lp] turn_full [OF lp] turn_some [OF lp] b(2,4,5) by (cases "input = []") auto
    then obtain x where x: "read_step ?R rec (length w) (length es) input = Some x" "turn_ok ?R rec s w es (after_step x)" by blast
    have "turn_ok ?R rec s w es = turn_ok R rec s w es"
      by (intro ext) (simp add: turn_ok_def io_failed_def same(2,3) b(4) split: option.split sum.split)
    then show ?thesis using read_turn_step [OF b(1) x(1)] x(2) by simp
  qed
qed

lemma read_loop_ok:
  "looping rest R rec s w es \<Longrightarrow> \<exists>X. read_loop rd (R, rec, length w, length es) = Some (Some X)
     \<and> (io_failed rd R rec X \<or> read_done rest R rec w es (record_at (cr_core R) (length w) s (stream_of rest R)) X)"
proof (induction "work rest R rec w es" arbitrary: R rec s w es rule: less_induct)
  case less
  note turn = read_turn_ok [OF less.prems, unfolded turn_ok_def]
  then consider X where "read_turn rd (R, rec, length w, length es) = Some (Inl X)"
      "io_failed rd R rec X \<or> read_done rest R rec w es (record_at (cr_core R) (length w) s (stream_of rest R)) X"
    | v' where "read_turn rd (R, rec, length w, length es) = Some (Inr v')" "goes_on rest R rec s w es v'"
    by (auto split: option.splits sum.splits)
  then show ?case
  proof cases
    case 1
    then show ?thesis by (simp add: read_loop.simps)
  next
    case 2
    obtain R1 rec1 t n v fs where on: "v' = (R1, rec1, length (w @ v), length (es @ fs))" "looping rest R1 rec1 t (w @ v) (es @ fs)"
        "moves rest R R1 n" "same_frame rec rec1" "work rest R1 rec1 (w @ v) (es @ fs) < work rest R rec w es"
        "record_at (cr_core R) (length w) s (stream_of rest R) = shifted n v fs (record_at (cr_core R1) (length (w @ v)) t (stream_of rest R1))"
      using 2(2) by (cases v') (auto simp: goes_on_def)
    obtain X where X: "read_loop rd (R1, rec1, length (w @ v), length (es @ fs)) = Some (Some X)"
        "io_failed rd R1 rec1 X \<or> read_done rest R1 rec1 (w @ v) (es @ fs) (record_at (cr_core R1) (length (w @ v)) t (stream_of rest R1)) X"
      using less.hyps [OF on(5,2)] by blast
    have "io_failed rd R rec X \<or> read_done rest R rec w es (record_at (cr_core R) (length w) s (stream_of rest R)) X"
      using X(2) read_done_later [OF on(3,4)] io_failed_later [OF on(3,4)] unfolding on(6) by blast
    then show ?thesis using X(1) 2(1) on(1) by (simp add: read_loop.simps [of rd "(R, rec, _, _)"])
  qed
qed

end

end
