(* ===== verification/Csv_String.thy ===== *)
theory Csv_String
  imports Csv_In Csv_Record_Correct
begin

text \<open>
  String records: trimming a record trims each of its fields, and removing Unicode white space from valid UTF-8 leaves valid UTF-8,
  which the unchecked conversions of \<^verbatim>\<open>string_record.rs\<close> rely on.
\<close>

section \<open>Trimming\<close>

lemma length_str_trim: "length (str_trim bs) \<le> length bs"
proof -
  have "length (str_trim_start bs) \<le> length bs" for bs
  proof (induction bs rule: str_trim_start.induct)
    case (1 bs)
    then show ?case by (subst str_trim_start.simps) (fastforce split: option.split)
  qed
  moreover have "length (str_trim_end bs) \<le> length bs" for bs
  proof (induction bs rule: str_trim_end.induct)
    case (1 bs)
    then show ?case by (subst str_trim_end.simps) (fastforce split: option.split)
  qed
  ultimately show ?thesis unfolding str_trim_def by (meson order_trans)
qed

lemma sr_trim_ok:
  assumes "br_ok r" and "length (concat (fields_of r)) < 2 ^ 63" and "br_len r < 2 ^ 62"
  shows "\<exists>r'. sr_trim r = Some r' \<and> br_ok r' \<and> fields_of r' = map str_trim (fields_of r) \<and> br_pos r' = br_pos r"
proof (cases "br_len r = 0")
  case True
  then show ?thesis using assms(1) by (auto simp: sr_trim_def fields_of_def)
next
  case False
  then show ?thesis using refill_ok [OF assms length_str_trim]
    by (auto simp: sr_trim_def as_slice_ok [OF assms(1)] br_iter_ok [OF assms(1)] simp del: length_concat)
qed

text \<open>Removing white space from valid UTF-8 leaves valid UTF-8: the first byte of a character is not a continuation byte.\<close>

lemma white_space_char: "w \<in> set white_space \<Longrightarrow> utf8_char (w @ bs) = Some (length w) \<and> \<not> cont (hd w) \<and> w \<noteq> []"
proof -
  have "\<forall>w \<in> set white_space. utf8_char (w @ bs) = Some (length w) \<and> \<not> cont (hd w) \<and> w \<noteq> []"
    by (simp add: white_space_def utf8_char_def cont_def second_ok_def)
  then show "w \<in> set white_space \<Longrightarrow> utf8_char (w @ bs) = Some (length w) \<and> \<not> cont (hd w) \<and> w \<noteq> []" by blast
qed

lemma second_ok_cont: "second_ok a b \<Longrightarrow> cont b"
  by (auto simp: second_ok_def cont_def word_le_nat_alt split: if_splits)

lemma utf8_valid_drop: "utf8_char bs = Some n \<Longrightarrow> utf8_valid bs \<Longrightarrow> utf8_valid (drop n bs)"
  using utf8_char_bounds [of bs n] by (auto simp: utf8_valid_def utf8_error.simps [of bs] split: if_splits)

lemma utf8_char_prefix:
  assumes "utf8_char (xs @ c # ys) = Some n" and "\<not> cont c" and "xs \<noteq> []"
  shows "utf8_char xs = Some n"
proof -
  obtain a r where xs: "xs = a # r" using assms(3) by (cases xs) auto
  consider "r = []" | b where "r = [b]" | b d where "r = [b, d]" | b d e r' where "r = b # d # e # r'"
    by (cases r; cases "tl r"; cases "tl (tl r)") auto
  then show ?thesis
    using assms(1,2) second_ok_cont [of a c] unfolding xs by cases (auto simp: utf8_char_def split: if_splits list.splits)
qed

lemma utf8_valid_prefix:
  assumes "utf8_valid (xs @ c # ys)" and "\<not> cont c"
  shows "utf8_valid xs"
  using assms
proof (induction "length xs" arbitrary: xs rule: less_induct)
  case less
  show ?case
  proof (cases "xs = []")
    case False
    obtain n where n: "utf8_char (xs @ c # ys) = Some n" using less.prems(1) by (auto simp: utf8_valid_def utf8_error.simps [of "xs @ c # ys"] split: option.splits)
    note pre = utf8_char_prefix [OF n less.prems(2) False]
    have len: "0 < n" "n \<le> length xs" using utf8_char_bounds [OF pre] by auto
    have "utf8_valid (drop n xs @ c # ys)" using utf8_valid_drop [OF n less.prems(1)] len by simp
    then have "utf8_valid (drop n xs)" using less.hyps [of "drop n xs"] less.prems(2) len False by auto
    then show ?thesis using False pre by (simp add: utf8_valid_def utf8_error.simps [of xs])
  qed (simp add: utf8_valid_def utf8_error.simps)
qed

lemma str_trim_start_valid: "utf8_valid bs \<Longrightarrow> utf8_valid (str_trim_start bs)"
proof (induction bs rule: str_trim_start.induct)
  case (1 bs)
  show ?case
  proof (cases "find (\<lambda>w. take (length w) bs = w) white_space")
    case (Some w)
    have w: "w \<in> set white_space" "bs = w @ drop (length w) bs" using find_white_space [OF Some] by (auto, metis append_take_drop_id)
    have "utf8_valid (drop (length w) bs)" using utf8_valid_drop [of bs "length w"] white_space_char [OF w(1), of "drop (length w) bs"] w(2) "1.prems" by simp
    then show ?thesis using "1.IH" [OF Some] Some by (simp add: str_trim_start.simps [of bs])
  qed (use "1.prems" in \<open>simp add: str_trim_start.simps [of bs]\<close>)
qed

lemma str_trim_end_valid: "utf8_valid bs \<Longrightarrow> utf8_valid (str_trim_end bs)"
proof (induction bs rule: str_trim_end.induct)
  case (1 bs)
  let ?f = "find (\<lambda>w. length w \<le> length bs \<and> drop (length bs - length w) bs = w) white_space"
  show ?case
  proof (cases ?f)
    case (Some w)
    let ?xs = "take (length bs - length w) bs"
    have w: "w \<in> set white_space" "bs = ?xs @ w" using find_white_space [OF Some] by (auto, metis append_take_drop_id)
    have "bs = ?xs @ hd w # tl w" "\<not> cont (hd w)" using w white_space_char [OF w(1)] by auto
    then have "utf8_valid ?xs" using utf8_valid_prefix "1.prems" by metis
    then show ?thesis using "1.IH" [OF Some] Some by (simp add: str_trim_end.simps [of bs])
  qed (use "1.prems" in \<open>simp add: str_trim_end.simps [of bs]\<close>)
qed

lemma str_trim_valid: "utf8_valid bs \<Longrightarrow> utf8_valid (str_trim bs)"
  by (simp add: str_trim_def str_trim_start_valid str_trim_end_valid)

section \<open>Headers\<close>

definition valid_fields :: "ByteRecord \<Rightarrow> bool" where
  "valid_fields r \<longleftrightarrow> br_ok r \<and> list_all utf8_valid (fields_of r)"

lemma from_byte_record_ok:
  assumes "br_ok r"
  shows "\<exists>v. from_byte_record r = Some v \<and> (case v of Inr s \<Rightarrow> s = r \<and> valid_fields r | Inl err \<Rightarrow> \<not> valid_fields r)"
  using assms validate_fields_None [of 0 "fields_of r"]
  by (auto simp: from_byte_record_def br_validate_ok [OF assms] valid_fields_def split: option.split)

definition headers_of :: "Trim \<Rightarrow> ByteRecord \<Rightarrow> Headers \<Rightarrow> bool" where
  "headers_of t r h \<longleftrightarrow> br_ok (hd_byte_record h) \<and> br_pos (hd_byte_record h) = br_pos r
     \<and> fields_of (hd_byte_record h) = (if should_trim_headers t then map trim_ascii (fields_of r) else fields_of r)
     \<and> (case hd_string_record h of
          Inr s \<Rightarrow> valid_fields s \<and> fields_of s = (if should_trim_headers t then map str_trim (fields_of r) else fields_of r)
        | Inl err \<Rightarrow> \<not> valid_fields r)"

lemma set_headers_impl_ok:
  assumes "br_ok r" and "length (concat (fields_of r)) < 2 ^ 63" and "br_len r < 2 ^ 62"
  shows "\<exists>h. set_headers_impl st (Inl r) = Some (st\<lparr>rs_headers := Some h\<rparr>) \<and> headers_of (rs_trim st) r h"
proof -
  obtain v where v: "from_byte_record r = Some v" "case v of Inr s \<Rightarrow> s = r \<and> valid_fields r | Inl err \<Rightarrow> \<not> valid_fields r"
    using from_byte_record_ok [OF assms(1)] by blast
  obtain b where b: "br_trim r = Some b" "br_ok b" "fields_of b = map trim_ascii (fields_of r)" "br_pos b = br_pos r" using br_trim_ok [OF assms] by blast
  obtain s where s: "sr_trim r = Some s" "br_ok s" "fields_of s = map str_trim (fields_of r)" using sr_trim_ok [OF assms] by blast
  have "valid_fields r \<Longrightarrow> valid_fields s" using s(2,3) by (auto simp: valid_fields_def list_all_iff str_trim_valid)
  then show ?thesis using v b s assms(1)
    by (cases v; cases "should_trim_headers (rs_trim st)") (auto simp: set_headers_impl_def headers_of_def)
qed

end
