(* ===== verification/Csv_In_Props.thy ===== *)
theory Csv_In_Props
  imports Csv_In_Correct Csv_String
begin

text \<open>
  From one record to all of them: the records of a piece of data (\<open>all_records\<close>), what one call of the buffered reader
  returns and leaves behind, the headers, and the results of a sequence of calls of the iterator.
\<close>

section \<open>The records of the data\<close>

definition fields_at :: "u8 list \<Rightarrow> nat list \<Rightarrow> u8 list list" where
  "fields_at w es = map (\<lambda>i. let s = (if i = 0 then 0 else es ! (i - 1)) in take (es ! i - s) (drop s w)) [0..<length es]"

lemma record_at_Some:
  assumes "record_at r pos s bs = (t, n, Some (w, es))"
  shows "is_record_final t" and "n \<le> length bs" and "length w \<le> n" and "length es \<le> n + 1" and "sorted es" and "\<forall>e \<in> set es. e \<le> pos + length w"
    and "n = 0 \<Longrightarrow> bs = [] \<and> \<not> is_record_final s" and "es \<noteq> [] \<or> bs \<noteq> []"
proof -
  obtain t' n' w' es' where run: "free_run r pos s bs = (t', n', w', es')" using prod_cases4 by blast
  note e = free_run_ends [OF run]
  show "is_record_final t" "n \<le> length bs" "length w \<le> n" "length es \<le> n + 1" "sorted es" "\<forall>e \<in> set es. e \<le> pos + length w"
    using assms run e by (auto simp: record_at_def sorted_append split: if_splits)
  show "es \<noteq> [] \<or> bs \<noteq> []" using assms run by (auto simp: record_at_def split: if_splits)
  assume "n = 0"
  moreover have "0 < n'" if "bs \<noteq> []" using run that
    by (cases bs) (auto simp: Let_def prepend_fields_def split: prod.splits if_splits)
  ultimately show "bs = [] \<and> \<not> is_record_final s" using assms run by (cases bs) (auto simp: record_at_def split: if_splits)
qed

lemma record_at_None: "record_at r pos s bs = (t, n, None) \<Longrightarrow> n = length bs"
  using free_run_all [of r pos s bs] by (cases bs) (auto simp: record_at_def split: prod.splits if_splits)

function all_records :: "Reader \<Rightarrow> NfaState \<Rightarrow> u8 list \<Rightarrow> u8 list list list" where
  "all_records r s bs =
     (case record_at r 0 s bs of
        (t, n, None) \<Rightarrow> []
      | (t, n, Some (w, es)) \<Rightarrow> fields_at w es # all_records r t (drop n bs))"
  by pat_completeness auto
termination
proof (relation "measures [\<lambda>(r, s, bs). length bs, \<lambda>(r, s, bs). if is_record_final s then 0 else 1]", simp)
  fix r s bs t y n z p w es
  assume "(t, y) = record_at r 0 s bs" "(n, z) = y" "z = Some p" "(w, es) = p"
  then have "record_at r 0 s bs = (t, n, Some (w, es))" by auto
  note at = record_at_Some [OF this]
  show "((r, t, drop n bs), (r, s, bs)) \<in> measures [\<lambda>(r, s, bs). length bs, \<lambda>(r, s, bs). if is_record_final s then 0 else 1]"
    using at(1,2,7) by (cases "n = 0") auto
qed

declare all_records.simps [simp del]

lemma all_records_cong: "cfg r = cfg q \<Longrightarrow> all_records r s bs = all_records q s bs"
proof (induction r s bs rule: all_records.induct)
  case (1 r s bs)
  then show ?case
    by (simp add: all_records.simps [of r s bs] all_records.simps [of q s bs] record_at_cong [of r q] split: prod.splits option.splits)
qed

lemma all_records_ConsE:
  assumes "all_records r s bs = d # ds"
  obtains t n w es where "record_at r 0 s bs = (t, n, Some (w, es))" and "fields_at w es = d" and "all_records r t (drop n bs) = ds"
proof -
  obtain t n data where at: "record_at r 0 s bs = (t, n, data)" using prod_cases3 by blast
  have "(case data of None \<Rightarrow> [] | Some (w, es) \<Rightarrow> fields_at w es # all_records r t (drop n bs)) = d # ds"
    using assms at by (subst (asm) all_records.simps) simp
  then show ?thesis using that at by (cases data) auto
qed

section \<open>A record that holds data and ends\<close>

lemma holds_fields:
  assumes "holds rec w es" and "b_len (br_bounds rec) = length es" and "sorted es" and "\<forall>e \<in> set es. e \<le> length w"
  shows "br_ok rec" and "fields_of rec = fields_at w es" and "br_len rec = length es"
proof -
  note len = holds_length [OF assms(1)]
  show n: "br_len rec = length es" using assms(2) by (simp add: br_len_def)
  have nth: "b_ends (br_bounds rec) ! i = es ! i" if "i < length es" for i
    using assms(1) that by (metis holds_def nth_take)
  then have st: "bstart (br_bounds rec) i = (if i = 0 then 0 else es ! (i - 1))" if "i \<le> length es" for i
    using that by (auto simp: bstart_def)
  have mono: "es ! (i - 1) \<le> es ! i" if "i < length es" for i using assms(3) that by (simp add: sorted_nth_mono)
  have last: "es ! i \<le> length w" if "i < length es" for i using assms(4) that by auto
  have "bstart (br_bounds rec) (length es) \<le> length (br_fields rec)"
    using st [of "length es"] last [of "length es - 1"] len by (cases "length es = 0") auto
  moreover have "bstart (br_bounds rec) i \<le> bstart (br_bounds rec) (Suc i)" if "i < length es" for i
    using st [of i] st [of "Suc i"] mono [OF that] that by simp
  ultimately show "br_ok rec" unfolding br_ok_def n using len by simp
  have "field_at rec i = (let s = (if i = 0 then 0 else es ! (i - 1)) in take (es ! i - s) (drop s w))" if "i < length es" for i
  proof -
    let ?s = "if i = 0 then 0 else es ! (i - 1)"
    have b: "?s \<le> es ! i" "es ! i \<le> length w" using mono [OF that] last [OF that] by auto
    have "take (es ! i - ?s) (drop ?s (br_fields rec)) = take (es ! i - ?s) (drop ?s (take (length w) (br_fields rec)))"
      using b by (simp add: take_drop min_def)
    then show ?thesis using assms(1) that st [of i] st [of "Suc i"] by (simp add: field_at_def holds_def Let_def)
  qed
  then show "fields_of rec = fields_at w es" by (simp add: fields_of_def fields_at_def n)
qed

section \<open>One record\<close>

text \<open>Between records. Every record but an unterminated last one takes at least a byte, so that the bytes left bound the record numbers to come.\<close>

definition ready :: "('r \<Rightarrow> u8 list) \<Rightarrow> 'r CsvReader \<Rightarrow> NfaState \<Rightarrow> bool" where
  "ready rest R s \<longleftrightarrow> reader_at rest R s 0 \<and> rs_eof (cr_state R) = NotEof \<and> length (stream_of rest R) < 2 ^ 61
     \<and> unat (pos_record (rs_cur_pos (cr_state R))) + length (stream_of rest R) + (if is_record_final s then 0 else 1) < 2 ^ 64 - 1"

text \<open>The check of the number of fields.\<close>

definition counted :: "ReaderState \<Rightarrow> nat \<Rightarrow> u64 option" where
  "counted st k = (if \<not> rs_flexible st \<and> rs_first_field_count st = None then Some (word_of_nat k) else rs_first_field_count st)"

definition count_error :: "ReaderState \<Rightarrow> Position option \<Rightarrow> nat \<Rightarrow> 'e ErrorKind option" where
  "count_error st p k = (case rs_first_field_count st of
     Some c \<Rightarrow> if \<not> rs_flexible st \<and> c \<noteq> word_of_nat k then Some (UnequalLengths p c (word_of_nat k)) else None
   | None \<Rightarrow> None)"

lemma count_error_pos [simp]: "count_error (st\<lparr>rs_cur_pos := p\<rparr>) q k = count_error st q k"
  by (simp add: count_error_def split: option.split)

lemma add_record_count:
  assumes "add_record st rec = Some (st', r :: 'e ErrorKind + unit)"
  shows "st' = st\<lparr>rs_first_field_count := counted st (br_len rec), rs_cur_pos := (rs_cur_pos st)\<lparr>pos_record := pos_record (rs_cur_pos st) + 1\<rparr>\<rparr>"
    and "(case r of Inl e \<Rightarrow> Inl e | Inr _ \<Rightarrow> Inr True) = (case count_error st (br_pos rec) (br_len rec) of Some e \<Rightarrow> Inl e | None \<Rightarrow> Inr True)"
  using assms by (auto simp: add_record_def Let_def counted_def count_error_def position_set_record_def split: if_splits option.splits)

text \<open>The data has come to its end.\<close>

definition ended :: "('r \<Rightarrow> u8 list) \<Rightarrow> 'r CsvReader \<Rightarrow> 'r CsvReader \<Rightarrow> bool" where
  "ended rest R R' \<longleftrightarrow> reader_at rest R' StartRecord 0 \<and> stream_of rest R' = [] \<and> rs_eof (cr_state R') = Eof \<and> cfg (cr_core R') = cfg (cr_core R)
     \<and> rs_first_field_count (cr_state R') = rs_first_field_count (cr_state R)
     \<and> pos_byte (rs_cur_pos (cr_state R')) = pos_byte (rs_cur_pos (cr_state R)) + word_of_nat (length (stream_of rest R))"

definition read_one :: "('r \<Rightarrow> u8 list) \<Rightarrow> 'r CsvReader \<Rightarrow> NfaState \<Rightarrow> 'r CsvReader \<times> ByteRecord \<times> ('e ErrorKind + bool) \<Rightarrow> bool" where
  "read_one rest R s X \<longleftrightarrow> (case X of (R', rec, res) \<Rightarrow> br_pos rec = Some (rs_cur_pos (cr_state R))
     \<and> (case record_at (cr_core R) 0 s (stream_of rest R) of
          (t, n, None) \<Rightarrow> res = Inr False \<and> fields_of rec = [] \<and> ended rest R R' \<and> (\<exists>p. cr_state R' = (cr_state R)\<lparr>rs_cur_pos := p, rs_eof := Eof\<rparr>)
        | (t, n, Some (w, es)) \<Rightarrow> fields_of rec = fields_at w es \<and> length (concat (fields_of rec)) < 2 ^ 61 \<and> br_len rec < 2 ^ 62
            \<and> ready rest R' t \<and> stream_of rest R' = drop n (stream_of rest R) \<and> cfg (cr_core R') = cfg (cr_core R)
            \<and> pos_byte (rs_cur_pos (cr_state R')) = pos_byte (rs_cur_pos (cr_state R)) + word_of_nat n
            \<and> (\<exists>p. cr_state R' = (cr_state R)\<lparr>rs_first_field_count := counted (cr_state R) (br_len rec), rs_cur_pos := p\<rparr>)
            \<and> res = (case count_error (cr_state R) (br_pos rec) (br_len rec) of Some e \<Rightarrow> Inl e | None \<Rightarrow> Inr True)))"

lemma concat_fields_short:
  assumes "holds rec w es" and "br_ok rec" and "br_len rec = length es" and "\<forall>e \<in> set es. e \<le> length w"
  shows "length (concat (fields_of rec)) \<le> length w"
proof -
  have c: "concat (fields_of rec) = take (bstart (br_bounds rec) (br_len rec)) (br_fields rec)"
    using concat_fields_prefix [OF assms(2) order_refl] by (simp add: fields_of_def)
  have "bstart (br_bounds rec) (br_len rec) \<le> length w"
  proof (cases "es = []")
    case False
    then have "b_ends (br_bounds rec) ! (length es - 1) = es ! (length es - 1)" using assms(1) by (metis diff_less holds_def length_greater_0_conv nth_take zero_less_one)
    then show ?thesis using assms(3,4) False by (simp add: bstart_def)
  qed (use assms(3) in \<open>simp add: bstart_def\<close>)
  then show ?thesis unfolding c by simp
qed

context byte_source
begin

lemma read_done_one:
  assumes "ready rest R s" and "b_len (br_bounds rec) = 0" and "br_pos rec = Some (rs_cur_pos (cr_state R))"
    and "read_done rest R rec [] [] (record_at (cr_core R) 0 s (stream_of rest R)) (R', rec', res)"
  shows "read_one rest R s (R', rec', res) \<and> br_ok rec'"
proof -
  obtain t n data where at: "record_at (cr_core R) 0 s (stream_of rest R) = (t, n, data)" using prod_cases3 by blast
  show ?thesis
  proof (cases data)
    case None
    obtain R1 where R1: "moves rest R R1 n" "reader_at rest R1 StartRecord 0" "R' = R1\<lparr>cr_state := (cr_state R1)\<lparr>rs_eof := Eof\<rparr>\<rparr>"
        "br_pos rec' = br_pos rec" "res = Inr False" "b_len (br_bounds rec') = 0"
      using assms(2,4) None unfolding read_done_def at by auto
    then have "br_ok rec'" "fields_of rec' = []" by (simp_all add: br_ok_def fields_of_def br_len_def bstart_def)
    moreover have "ended rest R R'"
      using R1(1-3) record_at_None [OF at [unfolded None]] by (simp add: ended_def moves_def moved_def reader_at_def stream_of_def)
    ultimately show ?thesis using R1 assms(3) at None by (auto simp: read_one_def moves_def)
  next
    case (Some d)
    obtain w es where d: "d = (w, es)" by force
    note Some = Some [unfolded d]
    obtain R1 st r where R1: "moves rest R R1 n" "br_pos rec' = br_pos rec" "reader_at rest R1 t 0" "holds rec' w es" "b_len (br_bounds rec') = length es"
        "add_record (cr_state R1) rec' = Some (st, r)" "R' = R1\<lparr>cr_state := st\<rparr>" "res = (case r of Inl e \<Rightarrow> Inl e | Inr _ \<Rightarrow> Inr True)"
      using assms(4) Some unfolding read_done_def at by auto
    note a = record_at_Some [OF at [unfolded Some]]
    have a6: "\<forall>e \<in> set es. e \<le> length w" using a(6) by simp
    note f = holds_fields [OF R1(4,5) a(5) a6]
    note cnt = add_record_count [OF R1(6)]
    have st1: "cr_state R1 = (cr_state R)\<lparr>rs_cur_pos := moved (rs_cur_pos (cr_state R)) n (r_line (cr_core R1))\<rparr>"
        "stream_of rest R1 = drop n (stream_of rest R)" "cfg (cr_core R1) = cfg (cr_core R)" "n \<le> length (stream_of rest R)" using R1(1) by (simp_all add: moves_def)
    have small: "length (concat (fields_of rec')) < 2 ^ 61" "br_len rec' < 2 ^ 62"
      using concat_fields_short [OF R1(4) f(1,3) a6] a(2,3,4) assms(1) f(3) by (auto simp: ready_def)
    have str: "stream_of rest R' = drop n (stream_of rest R)" using R1(7) st1(2) by (simp add: stream_of_def)
    have ok: "ready rest R' t" unfolding ready_def str
    proof (intro conjI)
      have same: "stream_of rest R' = stream_of rest R1" using str st1(2) by simp
      show "reader_at rest R' t 0" using R1(3) unfolding reader_at_def same by (simp add: R1(7))
      show "rs_eof (cr_state R') = NotEof" "length (drop n (stream_of rest R)) < 2 ^ 61" using assms(1) R1(7) cnt(1) st1(1) by (auto simp: ready_def)
      have p: "pos_record (rs_cur_pos (cr_state R')) = pos_record (rs_cur_pos (cr_state R)) + 1" using R1(7) cnt(1) st1(1) by (simp add: moved_def)
      have u: "unat (pos_record (rs_cur_pos (cr_state R)) + 1) = Suc (unat (pos_record (rs_cur_pos (cr_state R))))"
        by (rule unat_add_one) (use assms(1) in \<open>simp add: ready_def\<close>)
      show "unat (pos_record (rs_cur_pos (cr_state R'))) + length (drop n (stream_of rest R)) + (if is_record_final t then 0 else 1) < 2 ^ 64 - 1"
        unfolding p u using assms(1) a(1,2,7) by (cases "n = 0") (auto simp: ready_def)
    qed
    have e: "res = (case count_error (cr_state R) (br_pos rec') (br_len rec') of Some e \<Rightarrow> Inl e | None \<Rightarrow> Inr True)"
      using R1(8) cnt(2) st1(1) by simp
    have s: "cr_state R' = (cr_state R)\<lparr>rs_first_field_count := counted (cr_state R) (br_len rec'), rs_cur_pos := rs_cur_pos (cr_state R')\<rparr>"
        "pos_byte (rs_cur_pos (cr_state R')) = pos_byte (rs_cur_pos (cr_state R)) + word_of_nat n"
      using R1(7) cnt(1) st1(1) by (simp_all add: counted_def moved_def)
    then show ?thesis unfolding read_one_def at Some using f(1,2) small ok str R1(2,7) st1(3) e assms(3) by auto
  qed
qed

lemma impl_ok:
  assumes "ready rest R s"
  shows "\<exists>R' rec' res. read_byte_record_impl rd R rec = Some (Some (R', rec', res)) \<and> br_ok rec'
    \<and> (read_one rest R s (R', rec', res)
       \<or> \<not> dependable rd \<and> (\<exists>e. res = Inl (Io e)) \<and> fields_of rec' = [] \<and> (\<exists>p. cr_state R' = (cr_state R)\<lparr>rs_cur_pos := p, rs_eof := IOError\<rparr>))"
proof -
  let ?rec = "br_set_position (br_clear rec) (Some (rs_cur_pos (cr_state R)))"
  have rec: "b_len (br_bounds ?rec) = 0" "br_pos ?rec = Some (rs_cur_pos (cr_state R))"
    by (auto simp: br_set_position_def br_clear_def br_truncate_def br_len_def)
  have "pos_record (rs_cur_pos (cr_state R)) \<noteq> - 1"
  proof
    assume "pos_record (rs_cur_pos (cr_state R)) = - 1"
    then have "unat (pos_record (rs_cur_pos (cr_state R))) = 2 ^ 64 - 1" by (simp add: unsigned_minus_1_eq_mask mask_eq_exp_minus_1)
    then show False using assms unfolding ready_def by linarith
  qed
  then have "looping rest R ?rec s [] []" using assms by (simp add: looping_def ready_def holds_def)
  from read_loop_ok [OF this] obtain R' rec' res where X: "read_loop rd (R, ?rec, 0, 0) = Some (Some (R', rec', res))"
      "io_failed rd R ?rec (R', rec', res) \<or> read_done rest R ?rec [] [] (record_at (cr_core R) 0 s (stream_of rest R)) (R', rec', res)"
    by auto
  have empty: "br_ok rec' \<and> fields_of rec' = []" if "same_frame ?rec rec'"
    using that rec(1) by (simp add: same_frame_def br_ok_def fields_of_def br_len_def bstart_def)
  show ?thesis using X(1) X(2) read_done_one [OF assms rec] empty assms by (auto simp: read_byte_record_impl_def Let_def ready_def io_failed_def)
qed

lemma impl_at_end: "rs_eof (cr_state R) \<noteq> NotEof \<Longrightarrow> \<exists>rec'. read_byte_record_impl rd R rec = Some (Some (R, rec', Inr False)) \<and> br_ok rec' \<and> fields_of rec' = []"
  by (auto simp: read_byte_record_impl_def br_set_position_def br_clear_def br_truncate_def br_ok_def fields_of_def br_len_def bstart_def)

end

end
