(* ===== verification/Csv_In_Rows.thy ===== *)
theory Csv_In_Rows
  imports Csv_In_Props
begin

text \<open>
  From one record to the rows an iterator delivers. The contract that \<^verbatim>\<open>read_byte_record\<close> and \<^verbatim>\<open>read_record\<close> share is the
  locale \<open>row_reader\<close>: the first call takes the headers, every call delivers the next row, and nothing comes after the end.
\<close>

section \<open>Small records\<close>

definition small :: "ByteRecord \<Rightarrow> bool" where
  "small rec \<longleftrightarrow> br_ok rec \<and> length (concat (fields_of rec)) < 2 ^ 63 \<and> length (fields_of rec) < 2 ^ 62"

lemma small_shorter:
  assumes "small rec" and "br_ok rec'" and "fields_of rec' = map g (fields_of rec)" and "\<And>f. length (g f) \<le> length f"
  shows "small rec'"
proof -
  have "br_len rec' = br_len rec" using assms(3) by (metis length_fields_of length_map)
  then show ?thesis using assms length_concat_map [of g "fields_of rec"] by (simp add: small_def del: length_concat)
qed

lemma small_empty: "br_ok rec \<Longrightarrow> fields_of rec = [] \<Longrightarrow> small rec"
  using length_fields_of [of rec] by (simp add: small_def)

lemma clear_ok [simp]: "br_ok (br_clear rec)" "fields_of (br_clear rec) = []"
  by (simp_all add: br_clear_def br_truncate_def br_ok_def bstart_def fields_of_def br_len_def)

lemma small_clear: "small (br_clear rec)"
  by (rule small_empty) simp_all

definition trim_cell :: "Trim \<Rightarrow> u8 list \<Rightarrow> u8 list" where
  "trim_cell t f = (if should_trim_fields t then trim_ascii f else f)"

definition str_cell :: "Trim \<Rightarrow> u8 list \<Rightarrow> u8 list" where
  "str_cell t f = (if should_trim_fields t then str_trim f else f)"

lemma length_cell: "length (trim_cell t f) \<le> length f" "length (str_cell t f) \<le> length f"
  by (simp_all add: trim_cell_def str_cell_def length_trim_ascii length_str_trim)

lemma trim_fields_small:
  assumes "small rec"
  shows "\<exists>rec'. trim_fields R rec = Some rec' \<and> small rec' \<and> fields_of rec' = map (trim_cell (rs_trim (cr_state R))) (fields_of rec) \<and> br_pos rec' = br_pos rec"
proof (cases "should_trim_fields (rs_trim (cr_state R))")
  case True
  obtain rec' where r: "br_trim rec = Some rec'" "br_ok rec'" "fields_of rec' = map trim_ascii (fields_of rec)" "br_pos rec' = br_pos rec"
    using br_trim_ok [of rec] assms by (auto simp: small_def)
  moreover have "small rec'" by (rule small_shorter [OF assms r(2,3) length_trim_ascii])
  ultimately show ?thesis using True by (simp add: trim_fields_def trim_cell_def [abs_def])
qed (use assms in \<open>simp add: trim_fields_def trim_cell_def [abs_def]\<close>)

lemma sr_trim_small:
  assumes "small rec"
  shows "\<exists>rec'. (if should_trim_fields t then sr_trim rec else Some rec) = Some rec' \<and> small rec'
    \<and> fields_of rec' = map (str_cell t) (fields_of rec) \<and> br_pos rec' = br_pos rec"
proof (cases "should_trim_fields t")
  case True
  obtain rec' where r: "sr_trim rec = Some rec'" "br_ok rec'" "fields_of rec' = map str_trim (fields_of rec)" "br_pos rec' = br_pos rec"
    using sr_trim_ok [of rec] assms by (auto simp: small_def)
  moreover have "small rec'" by (rule small_shorter [OF assms r(2,3) length_str_trim])
  ultimately show ?thesis using True by (simp add: str_cell_def [abs_def])
qed (use assms in \<open>simp add: str_cell_def [abs_def]\<close>)

lemma clone_truncated_ok:
  assumes "br_ok rec"
  shows "\<exists>r. br_clone_truncated rec = Some r \<and> br_ok r \<and> fields_of r = fields_of rec \<and> br_pos r = br_pos rec"
proof -
  let ?r = "br_new\<lparr>br_pos := br_pos rec, br_bounds := br_bounds rec, br_fields := concat (fields_of rec)\<rparr>"
  have c: "concat (fields_of rec) = take (bstart (br_bounds rec) (br_len rec)) (br_fields rec)"
    using concat_fields_prefix [OF assms order_refl] by (simp add: fields_of_def)
  have "br_ok ?r" using assms c by (simp add: br_ok_def br_len_def min_def)
  moreover have "field_at ?r i = field_at rec i" if "i < br_len rec" for i
  proof -
    have "bstart (br_bounds rec) i \<le> bstart (br_bounds rec) (Suc i)" "bstart (br_bounds rec) (Suc i) \<le> bstart (br_bounds rec) (br_len rec)"
      using bstart_mono [OF assms] that by simp_all
    then show ?thesis unfolding field_at_def c by (simp add: Let_def take_drop min_def)
  qed
  ultimately show ?thesis using as_slice_ok [OF assms] by (simp add: br_clone_truncated_def fields_of_def br_len_def)
qed

section \<open>A row\<close>

text \<open>The headers are there and the first row is not to be delivered again.\<close>

definition going :: "'r CsvReader \<Rightarrow> bool" where
  "going R \<longleftrightarrow> rs_headers (cr_state R) \<noteq> None \<and> (rs_first (cr_state R) \<or> rs_has_headers (cr_state R) \<or> rs_seeked (cr_state R))"

definition same_config :: "'r CsvReader \<Rightarrow> 'r CsvReader \<Rightarrow> bool" where
  "same_config R R' \<longleftrightarrow> rs_flexible (cr_state R') = rs_flexible (cr_state R) \<and> rs_trim (cr_state R') = rs_trim (cr_state R)
     \<and> rs_has_headers (cr_state R') = rs_has_headers (cr_state R)"

lemma same_config_refl [simp]: "same_config R R"
  by (simp add: same_config_def)

lemma same_config_trans: "same_config R R1 \<Longrightarrow> same_config R1 R2 \<Longrightarrow> same_config R R2"
  by (simp add: same_config_def)

text \<open>The data has moved past a row of \<open>k\<close> fields.\<close>

definition past_row :: "('r \<Rightarrow> u8 list) \<Rightarrow> 'r CsvReader \<Rightarrow> 'r CsvReader \<Rightarrow> NfaState \<Rightarrow> nat \<Rightarrow> nat \<Rightarrow> bool" where
  "past_row rest R R' t n k \<longleftrightarrow> ready rest R' t \<and> stream_of rest R' = drop n (stream_of rest R) \<and> cfg (cr_core R') = cfg (cr_core R)
     \<and> rs_first_field_count (cr_state R') = counted (cr_state R) k
     \<and> pos_byte (rs_cur_pos (cr_state R')) = pos_byte (rs_cur_pos (cr_state R)) + word_of_nat n"

lemma ready_marked: "ready rest (R\<lparr>cr_state := (cr_state R)\<lparr>rs_first := b, rs_headers := h\<rparr>\<rparr>) s = ready rest R s"
  by (simp add: ready_def reader_at_def stream_of_def)

lemma past_marked: "past_row rest R (R'\<lparr>cr_state := (cr_state R')\<lparr>rs_first := b, rs_headers := h\<rparr>\<rparr>) t n k = past_row rest R R' t n k"
  unfolding past_row_def ready_marked by (simp add: stream_of_def)

lemma ended_marked: "ended rest R (R'\<lparr>cr_state := (cr_state R')\<lparr>rs_first := b, rs_headers := h\<rparr>\<rparr>) = ended rest R R'"
  by (simp add: ended_def reader_at_def stream_of_def)

lemma first_marked:
  "past_row rest R (R'\<lparr>cr_state := (cr_state R')\<lparr>rs_first := b\<rparr>\<rparr>) t n k = past_row rest R R' t n k"
  "ended rest R (R'\<lparr>cr_state := (cr_state R')\<lparr>rs_first := b\<rparr>\<rparr>) = ended rest R R'"
  by (simp_all add: past_row_def ended_def ready_def reader_at_def stream_of_def)

lemma ended_done: "ended rest R R' \<Longrightarrow> is_done R'"
  by (simp add: ended_def is_done_def)

text \<open>What a call returns: \<open>out\<close> is the row as delivered, or the error of an invalid string.\<close>

definition row_read :: "('r \<Rightarrow> u8 list) \<Rightarrow> (u8 list list \<Rightarrow> Utf8Error + u8 list list) \<Rightarrow> 'r CsvReader \<Rightarrow> NfaState
    \<Rightarrow> 'r CsvReader \<times> ByteRecord \<times> ('e ErrorKind + bool) \<Rightarrow> bool" where
  "row_read rest out R s X \<longleftrightarrow> (case X of (R', rec, res) \<Rightarrow> going R' \<and> same_config R R' \<and> small rec
     \<and> (case record_at (cr_core R) 0 s (stream_of rest R) of
          (t, n, None) \<Rightarrow> res = Inr False \<and> ended rest R R' \<and> fields_of rec = []
        | (t, n, Some (w, es)) \<Rightarrow> past_row rest R R' t n (length es) \<and> length es < 2 ^ 62
            \<and> (case count_error (cr_state R) (Some (rs_cur_pos (cr_state R))) (length es) of
                 Some e \<Rightarrow> res = Inl e
               | None \<Rightarrow> (case out (fields_at w es) of
                    Inl err \<Rightarrow> \<exists>p. res = Inl (EK_Utf8 p err)
                  | Inr fs \<Rightarrow> res = Inr True \<and> fields_of rec = fs))))"

abbreviation byte_row :: "Trim \<Rightarrow> u8 list list \<Rightarrow> Utf8Error + u8 list list" where
  "byte_row t fs \<equiv> Inr (map (trim_cell t) fs)"

definition str_row :: "Trim \<Rightarrow> u8 list list \<Rightarrow> Utf8Error + u8 list list" where
  "str_row t fs = (case validate_fields 0 fs of Some err \<Rightarrow> Inl err | None \<Rightarrow> Inr (map (str_cell t) fs))"

lemma length_fields_at [simp]: "length (fields_at w es) = length es"
  by (simp add: fields_at_def)

locale dependable_source = byte_source rd rest for rd :: "('r, 'e) io_read" and rest +
  assumes dependable: "dependable rd"
begin

text \<open>The plain read, and what trimming and marking make of it.\<close>

definition plain_read :: "'r CsvReader \<Rightarrow> NfaState \<Rightarrow> 'r CsvReader \<times> ByteRecord \<times> ('e ErrorKind + bool) \<Rightarrow> bool" where
  "plain_read R s X \<longleftrightarrow> (case X of (R', rec, res) \<Rightarrow> same_config R R' \<and> small rec \<and> br_pos rec = Some (rs_cur_pos (cr_state R))
     \<and> (rs_first (cr_state R) \<longrightarrow> rs_first (cr_state R')) \<and> rs_headers (cr_state R') = rs_headers (cr_state R) \<and> rs_seeked (cr_state R') = rs_seeked (cr_state R)
     \<and> (case record_at (cr_core R) 0 s (stream_of rest R) of
          (t, n, None) \<Rightarrow> res = Inr False \<and> ended rest R R' \<and> fields_of rec = []
        | (t, n, Some (w, es)) \<Rightarrow> past_row rest R R' t n (length es) \<and> length es < 2 ^ 62 \<and> fields_of rec = fields_at w es
            \<and> res = (case count_error (cr_state R) (Some (rs_cur_pos (cr_state R))) (length es) of Some e \<Rightarrow> Inl e | None \<Rightarrow> Inr True)))"

lemma impl_row:
  assumes "ready rest R s"
  shows "\<exists>R' rec' res. read_byte_record_impl rd R rec = Some (Some (R', rec', res)) \<and> plain_read R s (R', rec', res)
    \<and> rs_first (cr_state R') = rs_first (cr_state R)"
proof -
  obtain R' rec' res where X: "read_byte_record_impl rd R rec = Some (Some (R', rec', res))" "br_ok rec'" "read_one rest R s (R', rec', res)"
    using impl_ok [OF assms, of rec] dependable by blast
  obtain t n data where at: "record_at (cr_core R) 0 s (stream_of rest R) = (t, n, data)" using prod_cases3 by blast
  have "plain_read R s (R', rec', res)"
  proof (cases data)
    case None
    then show ?thesis using X(2,3) small_empty [of rec'] by (auto simp: plain_read_def read_one_def at same_config_def is_done_def)
  next
    case (Some d)
    obtain w es where d: "data = Some (w, es)" using Some by (cases d) auto
    have "br_len rec' = length es" using X(3) length_fields_of [of rec'] by (simp add: read_one_def at d)
    then show ?thesis using X(2,3) by (auto simp: plain_read_def read_one_def at d same_config_def small_def past_row_def split: option.split)
  qed
  moreover have "rs_first (cr_state R') = rs_first (cr_state R)" using X(3) by (auto simp: read_one_def split: prod.splits option.splits)
  ultimately show ?thesis using X(1) by blast
qed

lemma plain_read_first: "plain_read R s (R', rec, res) \<Longrightarrow> plain_read R s (R'\<lparr>cr_state := (cr_state R')\<lparr>rs_first := True\<rparr>\<rparr>, rec, res)"
  by (cases "record_at (cr_core R) 0 s (stream_of rest R)") (auto simp: plain_read_def same_config_def first_marked split: option.splits)

lemma row_read_trim:
  assumes "plain_read R s (R', rec, res)" and "going R'"
  shows "\<exists>rec'. trim_fields R' rec = Some rec' \<and> row_read rest (byte_row (rs_trim (cr_state R))) R s (R', rec', res)"
proof -
  have small: "small rec" and t: "rs_trim (cr_state R') = rs_trim (cr_state R)" using assms(1) by (auto simp: plain_read_def same_config_def)
  obtain rec' where r: "trim_fields R' rec = Some rec'" "small rec'" "fields_of rec' = map (trim_cell (rs_trim (cr_state R))) (fields_of rec)"
    using trim_fields_small [OF small, of R'] t by auto
  obtain u n data where at: "record_at (cr_core R) 0 s (stream_of rest R) = (u, n, data)" using prod_cases3 by blast
  show ?thesis using assms r by (cases data) (auto simp: plain_read_def row_read_def at split: option.splits)
qed

lemma next_byte_row:
  assumes "going R" and "ready rest R s"
  shows "\<exists>X. read_byte_record rd R rec = Some (Some X) \<and> row_read rest (byte_row (rs_trim (cr_state R))) R s X"
proof -
  obtain R' rec' res where X: "read_byte_record_impl rd R rec = Some (Some (R', rec', res))" "plain_read R s (R', rec', res)"
    using impl_row [OF assms(2), of rec] by blast
  let ?R = "R'\<lparr>cr_state := (cr_state R')\<lparr>rs_first := True\<rparr>\<rparr>"
  have g: "going R'" "going ?R" using X(2) assms(1) by (auto simp: plain_read_def going_def same_config_def)
  show ?thesis
  proof (cases res)
    case (Inl e)
    then have "row_read rest (byte_row (rs_trim (cr_state R))) R s (R', rec', res)"
      using X(2) g(1) by (auto simp: plain_read_def row_read_def split: option.splits prod.splits)
    then show ?thesis using Inl X(1) assms(1) by (auto simp: read_byte_record_def Let_def going_def)
  next
    case (Inr ok)
    then have "read_byte_record rd R rec = Some (do { rec \<leftarrow> trim_fields ?R rec'; Some (?R, rec, Inr ok) })"
      using X(1) assms(1) g(1) by (auto simp: read_byte_record_def Let_def going_def)
    then show ?thesis using row_read_trim [OF plain_read_first [OF X(2)] g(2)] Inr by auto
  qed
qed

lemma byte_row_after_end:
  assumes "going R" and "is_done R"
  shows "\<exists>R' rec'. read_byte_record rd R rec = Some (Some (R', rec', Inr False)) \<and> R' = R\<lparr>cr_state := (cr_state R)\<lparr>rs_first := True\<rparr>\<rparr>
    \<and> going R' \<and> is_done R' \<and> same_config R R' \<and> small rec' \<and> fields_of rec' = []"
proof -
  obtain rec' where X: "read_byte_record_impl rd R rec = Some (Some (R, rec', Inr False))" "small rec'" "fields_of rec' = []"
    using impl_at_end [of R rec] assms(2) small_empty by (auto simp: is_done_def)
  let ?R = "R\<lparr>cr_state := (cr_state R)\<lparr>rs_first := True\<rparr>\<rparr>"
  have "read_byte_record rd R rec = Some (do { rec \<leftarrow> trim_fields ?R rec'; Some (?R, rec, Inr False) })"
    using X(1) assms(1) by (auto simp: read_byte_record_def Let_def going_def)
  moreover have "going ?R" "is_done ?R" "same_config R ?R" using assms by (auto simp: going_def is_done_def same_config_def)
  ultimately show ?thesis using trim_fields_small [OF X(2), of ?R] X(3) by auto
qed

end

section \<open>The first call\<close>

definition fresh :: "'r CsvReader \<Rightarrow> bool" where
  "fresh R \<longleftrightarrow> \<not> rs_first (cr_state R) \<and> rs_headers (cr_state R) = None \<and> \<not> rs_seeked (cr_state R) \<and> rs_first_field_count (cr_state R) = None"

definition headers_read :: "('r \<Rightarrow> u8 list) \<Rightarrow> (u8 list list \<Rightarrow> Utf8Error + u8 list list) \<Rightarrow> 'r CsvReader \<Rightarrow> NfaState
    \<Rightarrow> 'r CsvReader \<times> ByteRecord \<times> ('e ErrorKind + bool) \<Rightarrow> bool" where
  "headers_read rest out R s X \<longleftrightarrow> (case record_at (cr_core R) 0 s (stream_of rest R) of
     (t, n, None) \<Rightarrow> (case X of (R', rec, res) \<Rightarrow> going R' \<and> same_config R R' \<and> small rec \<and> res = Inr False \<and> ended rest R R' \<and> fields_of rec = [])
   | (t, n, Some (w, es)) \<Rightarrow> \<exists>R1. past_row rest R R1 t n (length es) \<and> length es < 2 ^ 62 \<and> same_config R R1 \<and> row_read rest out R1 t X)"

context dependable_source
begin

lemma set_headers_row:
  assumes "small rec"
  shows "\<exists>h. set_byte_headers R rec = Some (R\<lparr>cr_state := (cr_state R)\<lparr>rs_headers := Some h\<rparr>\<rparr>) \<and> headers_of (rs_trim (cr_state R)) rec h"
  using set_headers_impl_ok [of rec "cr_state R"] assms by (auto simp: set_byte_headers_def small_def)

text \<open>The first call reads a record, marks the reader and stores the headers.\<close>

lemma first_record:
  assumes "fresh R" and "ready rest R s"
  shows "\<exists>R1 rec1 ok h. read_byte_record_impl rd R rec = Some (Some (R1, rec1, Inr ok)) \<and> plain_read R s (R1, rec1, Inr ok) \<and> rs_first (cr_state R1) = rs_first (cr_state R)
    \<and> set_byte_headers (R1\<lparr>cr_state := (cr_state R1)\<lparr>rs_first := True\<rparr>\<rparr>) rec1
        = Some (R1\<lparr>cr_state := (cr_state R1)\<lparr>rs_first := True, rs_headers := Some h\<rparr>\<rparr>) \<and> headers_of (rs_trim (cr_state R)) rec1 h"
proof -
  obtain R1 rec1 res where X: "read_byte_record_impl rd R rec = Some (Some (R1, rec1, res))" "plain_read R s (R1, rec1, res)"
      "rs_first (cr_state R1) = rs_first (cr_state R)"
    using impl_row [OF assms(2), of rec] by blast
  then obtain ok where ok: "res = Inr ok" using assms(1) by (auto simp: plain_read_def fresh_def count_error_def split: prod.splits option.splits)
  have "small rec1" "rs_trim (cr_state R1) = rs_trim (cr_state R)" using X(2) by (auto simp: plain_read_def same_config_def)
  then show ?thesis using X ok set_headers_row [of rec1 "R1\<lparr>cr_state := (cr_state R1)\<lparr>rs_first := True\<rparr>\<rparr>"] by auto
qed

lemma first_byte_row:
  assumes "fresh R" and "ready rest R s" and "\<not> rs_has_headers (cr_state R)"
  shows "\<exists>X. read_byte_record rd R rec = Some (Some X) \<and> row_read rest Inr R s X"
proof -
  obtain R1 rec1 ok h where X: "read_byte_record_impl rd R rec = Some (Some (R1, rec1, Inr ok))" "plain_read R s (R1, rec1, Inr ok)"
      "set_byte_headers (R1\<lparr>cr_state := (cr_state R1)\<lparr>rs_first := True\<rparr>\<rparr>) rec1 = Some (R1\<lparr>cr_state := (cr_state R1)\<lparr>rs_first := True, rs_headers := Some h\<rparr>\<rparr>)"
    using first_record [OF assms(1,2), of rec] by blast
  let ?R = "R1\<lparr>cr_state := (cr_state R1)\<lparr>rs_first := True, rs_headers := Some h\<rparr>\<rparr>"
  obtain t n data where at: "record_at (cr_core R) 0 s (stream_of rest R) = (t, n, data)" using prod_cases3 by blast
  have "row_read rest Inr R s (?R, rec1, Inr ok :: 'e ErrorKind + bool)"
    using X(2) by (cases data) (auto simp: plain_read_def row_read_def at going_def same_config_def ended_marked past_marked split: option.splits)
  moreover have "read_byte_record rd R rec = Some (Some (?R, rec1, Inr ok))"
    using X assms(1,3) by (simp add: read_byte_record_def Let_def fresh_def plain_read_def same_config_def)
  ultimately show ?thesis by blast
qed

lemma headers_byte_row:
  assumes "fresh R" and "ready rest R s" and "rs_has_headers (cr_state R)"
  shows "\<exists>X. read_byte_record rd R rec = Some (Some X) \<and> headers_read rest (byte_row (rs_trim (cr_state R))) R s X"
proof -
  obtain R1 rec1 ok h where X: "read_byte_record_impl rd R rec = Some (Some (R1, rec1, Inr ok))" "plain_read R s (R1, rec1, Inr ok)"
      "set_byte_headers (R1\<lparr>cr_state := (cr_state R1)\<lparr>rs_first := True\<rparr>\<rparr>) rec1 = Some (R1\<lparr>cr_state := (cr_state R1)\<lparr>rs_first := True, rs_headers := Some h\<rparr>\<rparr>)"
    using first_record [OF assms(1,2), of rec] by blast
  let ?R = "R1\<lparr>cr_state := (cr_state R1)\<lparr>rs_first := True, rs_headers := Some h\<rparr>\<rparr>"
  have R: "going ?R" "same_config R ?R" "rs_trim (cr_state ?R) = rs_trim (cr_state R)" using X(2) by (auto simp: going_def plain_read_def same_config_def)
  have call: "read_byte_record rd R rec = (case read_byte_record_impl rd ?R rec1 of None \<Rightarrow> None | Some None \<Rightarrow> Some None
      | Some (Some (R, rec, result)) \<Rightarrow> Some (do { rec \<leftarrow> trim_fields R rec; Some (R, rec, result) }))"
    using X assms(1,3) by (simp add: read_byte_record_def Let_def fresh_def plain_read_def same_config_def)
  obtain t n data where at: "record_at (cr_core R) 0 s (stream_of rest R) = (t, n, data)" using prod_cases3 by blast
  show ?thesis
  proof (cases data)
    case None
    then have fin: "ended rest R ?R" using X(2) at by (simp add: plain_read_def ended_marked)
    then have "is_done ?R" by (rule ended_done)
    then obtain rec2 where 2: "read_byte_record_impl rd ?R rec1 = Some (Some (?R, rec2, Inr False))" "small rec2" "fields_of rec2 = []"
      using impl_at_end [of ?R rec1] small_empty by (auto simp: is_done_def)
    show ?thesis using 2 trim_fields_small [OF 2(2), of ?R] call R at None fin by (auto simp: headers_read_def)
  next
    case (Some d)
    obtain w es where d: "data = Some (w, es)" using Some by (cases d) auto
    have past: "past_row rest R ?R t n (length es)" "length es < 2 ^ 62" using X(2) at d by (auto simp: plain_read_def past_marked)
    obtain R2 rec2 res where 2: "read_byte_record_impl rd ?R rec1 = Some (Some (R2, rec2, res))" "plain_read ?R t (R2, rec2, res)"
      using impl_row [of ?R t rec1] past(1) by (auto simp: past_row_def)
    have "going R2" using 2(2) R(1) by (simp add: plain_read_def going_def)
    from row_read_trim [OF 2(2) this] obtain rec3 where "trim_fields R2 rec2 = Some rec3" "row_read rest (byte_row (rs_trim (cr_state R))) ?R t (R2, rec3, res)"
      unfolding R(3) by blast
    then show ?thesis using 2(1) call past R(2) at d by (auto simp: headers_read_def)
  qed
qed

end

section \<open>Reading strings\<close>

text \<open>Validation and trimming on top of the byte record.\<close>

lemma row_read_string:
  assumes "read_byte_record rd R rec = Some (Some X)" and "row_read rest (\<lambda>fs. Inr (map g fs)) R1 s X" and "rs_trim (cr_state R1) = t"
  shows "\<exists>Y. reader_read_record rd R rec = Some (Some Y) \<and> row_read rest (\<lambda>fs. str_row t (map g fs)) R1 s Y"
proof -
  obtain R' rec' res where X: "X = (R', rec', res)" using prod_cases3 by blast
  have rec': "small rec'" "br_ok rec'" and t: "rs_trim (cr_state R') = t" using assms(2,3) X by (auto simp: row_read_def small_def same_config_def)
  obtain u n data where at: "record_at (cr_core R1) 0 s (stream_of rest R1) = (u, n, data)" using prod_cases3 by blast
  show ?thesis
  proof (cases "validate_fields 0 (fields_of rec')")
    case None
    obtain rec2 where 2: "(if should_trim_fields t then sr_trim rec' else Some rec') = Some rec2" "small rec2" "fields_of rec2 = map (str_cell t) (fields_of rec')"
      using sr_trim_small [OF rec'(1)] by blast
    have "reader_read_record rd R rec = Some (Some (R', rec2, res))"
      using assms(1) X None 2(1) t br_validate_ok [OF rec'(2)] by (auto simp: reader_read_record_def sr_read_def Let_def split: sum.split)
    moreover have "row_read rest (\<lambda>fs. str_row t (map g fs)) R1 s (R', rec2, res)"
      using assms(2) None 2(2,3) X by (cases data) (auto simp: row_read_def at str_row_def split: option.splits)
    ultimately show ?thesis by blast
  next
    case (Some err)
    obtain rec2 where 2: "(if should_trim_fields t then sr_trim (br_clear rec') else Some (br_clear rec')) = Some rec2" "small rec2"
        "fields_of rec2 = map (str_cell t) (fields_of (br_clear rec'))"
      using sr_trim_small [OF small_clear] by blast
    let ?res = "case res of Inl e \<Rightarrow> Inl e | Inr ok \<Rightarrow> Inl (EK_Utf8 (Some (rs_cur_pos (cr_state R))) err)"
    have "reader_read_record rd R rec = Some (Some (R', rec2, ?res))"
      using assms(1) X Some 2(1) t br_validate_ok [OF rec'(2)] by (auto simp: reader_read_record_def sr_read_def Let_def split: sum.split)
    moreover have "row_read rest (\<lambda>fs. str_row t (map g fs)) R1 s (R', rec2, ?res)"
      using assms(2) Some 2(2) X by (cases data) (auto simp: row_read_def at str_row_def split: option.splits)
    ultimately show ?thesis by blast
  qed
qed

section \<open>The contract\<close>

locale row_reader = dependable_source rd rest for rd :: "('r, 'e) io_read" and rest +
  fixes read :: "'r CsvReader \<Rightarrow> ByteRecord \<Rightarrow> ('r, 'e) reading"
    and out0 out :: "Trim \<Rightarrow> u8 list list \<Rightarrow> Utf8Error + u8 list list"
  assumes next_row: "going R \<Longrightarrow> ready rest R s \<Longrightarrow> \<exists>X. read R rec = Some (Some X) \<and> row_read rest (out (rs_trim (cr_state R))) R s X"
    and after_end: "going R \<Longrightarrow> is_done R \<Longrightarrow> \<exists>R' rec'. read R rec = Some (Some (R', rec', Inr False)) \<and> going R' \<and> is_done R'"
    and first_row: "fresh R \<Longrightarrow> ready rest R s \<Longrightarrow> \<not> rs_has_headers (cr_state R)
      \<Longrightarrow> \<exists>X. read R rec = Some (Some X) \<and> row_read rest (out0 (rs_trim (cr_state R))) R s X"
    and first_headers: "fresh R \<Longrightarrow> ready rest R s \<Longrightarrow> rs_has_headers (cr_state R)
      \<Longrightarrow> \<exists>X. read R rec = Some (Some X) \<and> headers_read rest (out (rs_trim (cr_state R))) R s X"

sublocale dependable_source \<subseteq> bytes: row_reader rd rest "read_byte_record rd" "\<lambda>_. Inr" "byte_row"
  using next_byte_row byte_row_after_end first_byte_row headers_byte_row by unfold_locales blast+

context dependable_source
begin

lemma headers_string_row:
  assumes "fresh R" and "ready rest R s" and "rs_has_headers (cr_state R)"
  shows "\<exists>Y. reader_read_record rd R rec = Some (Some Y)
    \<and> headers_read rest (\<lambda>fs. str_row (rs_trim (cr_state R)) (map (trim_cell (rs_trim (cr_state R))) fs)) R s Y"
proof -
  obtain R' rec' res where X: "read_byte_record rd R rec = Some (Some (R', rec', res))" "headers_read rest (byte_row (rs_trim (cr_state R))) R s (R', rec', res)"
    using headers_byte_row [OF assms, of rec] by auto
  obtain t n data where at: "record_at (cr_core R) 0 s (stream_of rest R) = (t, n, data)" using prod_cases3 by blast
  show ?thesis
  proof (cases data)
    case None
    then have e: "going R'" "same_config R R'" "small rec'" "res = Inr False" "ended rest R R'" "fields_of rec' = []" using X(2) at by (auto simp: headers_read_def)
    obtain rec2 where 2: "(if should_trim_fields (rs_trim (cr_state R')) then sr_trim rec' else Some rec') = Some rec2" "small rec2" "fields_of rec2 = []"
      using sr_trim_small [OF e(3), of "rs_trim (cr_state R')"] e(6) by auto
    have "br_validate rec' = Some (Inr ())" using br_validate_ok [of rec'] e(3,6) by (simp add: small_def)
    then have "reader_read_record rd R rec = Some (Some (R', rec2, Inr False))"
      using X(1) 2(1) e(4) by (simp add: reader_read_record_def sr_read_def Let_def)
    then show ?thesis using e 2 at None by (auto simp: headers_read_def)
  next
    case (Some d)
    obtain w es where d: "data = Some (w, es)" using Some by (cases d) auto
    obtain R1 where R1: "past_row rest R R1 t n (length es)" "length es < 2 ^ 62" "same_config R R1" "row_read rest (byte_row (rs_trim (cr_state R))) R1 t (R', rec', res)"
      using X(2) at d by (auto simp: headers_read_def)
    then show ?thesis using row_read_string [OF X(1) R1(4)] at d by (auto simp: headers_read_def same_config_def)
  qed
qed

lemma string_row_after_end:
  assumes "going R" and "is_done R"
  shows "\<exists>R' rec'. reader_read_record rd R rec = Some (Some (R', rec', Inr False)) \<and> going R' \<and> is_done R'"
proof -
  obtain R' rec' where r: "read_byte_record rd R rec = Some (Some (R', rec', Inr False))" "going R'" "is_done R'" "small rec'" "fields_of rec' = []"
    using byte_row_after_end [OF assms, of rec] by blast
  have "br_validate rec' = Some (Inr ())" using br_validate_ok [of rec'] r(4,5) by (simp add: small_def)
  then show ?thesis using r(1-3) sr_trim_small [OF r(4), of "rs_trim (cr_state R')"] by (auto simp: reader_read_record_def sr_read_def Let_def)
qed

end

sublocale dependable_source \<subseteq> strings: row_reader rd rest "reader_read_record rd" str_row "\<lambda>t fs. str_row t (map (trim_cell t) fs)"
proof unfold_locales
  fix R s rec
  show "going R \<Longrightarrow> ready rest R s \<Longrightarrow> \<exists>X. reader_read_record rd R rec = Some (Some X)
      \<and> row_read rest (\<lambda>fs. str_row (rs_trim (cr_state R)) (map (trim_cell (rs_trim (cr_state R))) fs)) R s X"
    using next_byte_row row_read_string by blast
  show "going R \<Longrightarrow> is_done R \<Longrightarrow> \<exists>R' rec'. reader_read_record rd R rec = Some (Some (R', rec', Inr False)) \<and> going R' \<and> is_done R'"
    by (rule string_row_after_end)
  show "fresh R \<Longrightarrow> ready rest R s \<Longrightarrow> \<not> rs_has_headers (cr_state R) \<Longrightarrow> \<exists>X. reader_read_record rd R rec = Some (Some X)
      \<and> row_read rest (str_row (rs_trim (cr_state R))) R s X"
    using first_byte_row [of R s rec] row_read_string [where g = id and rd = rd and R = R and rec = rec] by (auto simp: id_def)
  show "fresh R \<Longrightarrow> ready rest R s \<Longrightarrow> rs_has_headers (cr_state R) \<Longrightarrow> \<exists>X. reader_read_record rd R rec = Some (Some X)
      \<and> headers_read rest (\<lambda>fs. str_row (rs_trim (cr_state R)) (map (trim_cell (rs_trim (cr_state R))) fs)) R s X"
    by (rule headers_string_row)
qed

end
