(* ===== verification/Csv_In_Calls.thy ===== *)
theory Csv_In_Calls
  imports Csv_In_Rows
begin

text \<open>
  Sequences of calls of \<^verbatim>\<open>next\<close>: a new reader delivers the rows of the data one by one, then nothing. The proofs are in the locale
  \<open>row_reader\<close> and hold for byte records and for string records alike.
\<close>

section \<open>Calls of an iterator\<close>

fun next_calls :: "('v \<Rightarrow> ('v \<times> 'x) may_panic option) \<Rightarrow> nat \<Rightarrow> 'v \<Rightarrow> 'x list may_panic option" where
  "next_calls nx 0 v = Some (Some [])"
| "next_calls nx (Suc k) v =
     (case nx v of
        None \<Rightarrow> None
      | Some None \<Rightarrow> Some None
      | Some (Some (v', x)) \<Rightarrow> map_option (map_option ((#) x)) (next_calls nx k v'))"

definition delivers :: "bool \<Rightarrow> nat \<Rightarrow> nat \<times> (Utf8Error + u8 list list) \<Rightarrow> ('e ErrorKind + ByteRecord) option \<Rightarrow> bool" where
  "delivers flexible k v x \<longleftrightarrow>
     (if \<not> flexible \<and> fst v \<noteq> k then \<exists>p. x = Some (Inl (UnequalLengths p (word_of_nat k) (word_of_nat (fst v))))
      else case snd v of
        Inl err \<Rightarrow> \<exists>p. x = Some (Inl (EK_Utf8 p err))
      | Inr fs \<Rightarrow> \<exists>r. x = Some (Inr r) \<and> br_ok r \<and> fields_of r = fs)"

text \<open>The rows an iterator delivers, given the records of the data.\<close>

definition rows_out :: "bool \<Rightarrow> (u8 list list \<Rightarrow> 'x) \<Rightarrow> (u8 list list \<Rightarrow> 'x) \<Rightarrow> u8 list list list \<Rightarrow> (nat \<times> 'x) list" where
  "rows_out has_headers out0 out rows =
     (case rows of
        [] \<Rightarrow> []
      | h # ds \<Rightarrow> (if has_headers then [] else [(length h, out0 h)]) @ map (\<lambda>d. (length d, out d)) ds)"

definition counting :: "'r CsvReader \<Rightarrow> nat \<Rightarrow> bool" where
  "counting R k \<longleftrightarrow> \<not> rs_flexible (cr_state R) \<longrightarrow> rs_first_field_count (cr_state R) = Some (word_of_nat k) \<and> k < 2 ^ 62"

lemma word_eq_62: "k < 2 ^ 62 \<Longrightarrow> n < 2 ^ 62 \<Longrightarrow> (word_of_nat k :: u64) = word_of_nat n \<longleftrightarrow> k = n"
  by (simp add: word_of_nat_eq_iff take_bit_nat_eq_self)

lemma counting_past:
  assumes "past_row rest R R' t n m" and "same_config R R'" and "counting R k"
  shows "counting R' k"
  using assms by (auto simp: past_row_def counting_def same_config_def counted_def)

lemma counting_first:
  assumes "past_row rest R R' t n m" and "same_config R R'" and "fresh R" and "m < 2 ^ 62"
  shows "counting R' m"
  using assms by (auto simp: past_row_def counting_def same_config_def counted_def fresh_def)

lemma count_error_counting:
  assumes "counting R k \<or> fresh R \<and> k = n" and "n < 2 ^ 62"
  shows "if \<not> rs_flexible (cr_state R) \<and> n \<noteq> k then \<exists>q. count_error (cr_state R) p n = Some (UnequalLengths q (word_of_nat k) (word_of_nat n) :: 'e ErrorKind)
    else count_error (cr_state R) p n = (None :: 'e ErrorKind option)"
  using assms word_eq_62 [of k n] by (auto simp: counting_def fresh_def count_error_def split: option.splits)

lemma records_next_row:
  assumes "read R rec = Some (Some (R', rec', res))" and "br_ok rec'"
  shows "\<exists>x. records_next read (R, rec) = Some (Some ((R', rec'), x))
    \<and> (case res of Inl e \<Rightarrow> x = Some (Inl e) | Inr False \<Rightarrow> x = None | Inr True \<Rightarrow> \<exists>r. x = Some (Inr r) \<and> br_ok r \<and> fields_of r = fields_of rec')"
  using assms clone_truncated_ok [OF assms(2)] by (cases res) (auto simp: records_next_def split: bool.split)

context row_reader
begin

lemma row_delivered:
  assumes "read R rec = Some (Some X)" and "row_read rest g R1 s X" and "record_at (cr_core R1) 0 s (stream_of rest R1) = (t, n, Some (w, es))"
    and "counting R1 k \<or> fresh R1 \<and> k = length es"
  shows "\<exists>R' rec' x. records_next read (R, rec) = Some (Some ((R', rec'), x)) \<and> delivers (rs_flexible (cr_state R1)) k (length es, g (fields_at w es)) x
    \<and> going R' \<and> past_row rest R1 R' t n (length es) \<and> same_config R1 R'"
proof -
  obtain R' rec' res where X: "X = (R', rec', res)" using prod_cases3 by blast
  note rr = assms(2) [unfolded row_read_def X assms(3), simplified]
  obtain x where x: "records_next read (R, rec) = Some (Some ((R', rec'), x))"
      "case res of Inl e \<Rightarrow> x = Some (Inl e) | Inr False \<Rightarrow> x = None | Inr True \<Rightarrow> \<exists>r. x = Some (Inr r) \<and> br_ok r \<and> fields_of r = fields_of rec'"
    using records_next_row [of read R rec R' rec' res] assms(1) X rr by (auto simp: small_def)
  have "delivers (rs_flexible (cr_state R1)) k (length es, g (fields_at w es)) x"
    using rr x(2) count_error_counting [OF assms(4), where 'e = 'e and p = "Some (rs_cur_pos (cr_state R1))"]
    by (auto simp: delivers_def split: option.splits sum.splits if_splits)
  then show ?thesis using x(1) rr by blast
qed

lemma nothing_delivered:
  assumes "read R rec = Some (Some X)" and "row_read rest g R1 s X" and "record_at (cr_core R1) 0 s (stream_of rest R1) = (t, n, None)"
  shows "\<exists>R' rec'. records_next read (R, rec) = Some (Some ((R', rec'), None)) \<and> going R' \<and> is_done R'"
  using assms by (cases X) (auto simp: row_read_def records_next_def dest: ended_done)

lemma done_calls: "going R \<Longrightarrow> is_done R \<Longrightarrow> next_calls (records_next read) m (R, rec) = Some (Some (replicate m None))"
proof (induction m arbitrary: R rec)
  case (Suc m)
  obtain R' rec' where "read R rec = Some (Some (R', rec', Inr False))" "going R'" "is_done R'" using after_end [OF Suc.prems] by blast
  then show ?case using Suc.IH by (simp add: records_next_def)
qed simp

lemma all_records_split:
  assumes "record_at (cr_core R) 0 s (stream_of rest R) = (t, n, Some (w, es))" and "past_row rest R R' t n k"
  shows "all_records (cr_core R) s (stream_of rest R) = fields_at w es # all_records (cr_core R') t (stream_of rest R')"
proof -
  have "cfg (cr_core R') = cfg (cr_core R)" "stream_of rest R' = drop n (stream_of rest R)" using assms(2) by (auto simp: past_row_def)
  then have "all_records (cr_core R') t (stream_of rest R') = all_records (cr_core R) t (drop n (stream_of rest R))" using all_records_cong by metis
  then show ?thesis using assms(1) by (subst all_records.simps) simp
qed

lemma later_calls:
  assumes "all_records (cr_core R) s (stream_of rest R) = rows" and "going R" and "ready rest R s" and "counting R k"
  shows "\<exists>xs. next_calls (records_next read) (length rows + m) (R, rec) = Some (Some (xs @ replicate m None))
    \<and> list_all2 (delivers (rs_flexible (cr_state R)) k) (map (\<lambda>d. (length d, out (rs_trim (cr_state R)) d)) rows) xs"
  using assms
proof (induction rows arbitrary: R s rec)
  case (Nil R s)
  obtain t n data where at: "record_at (cr_core R) 0 s (stream_of rest R) = (t, n, data)" using prod_cases3 by blast
  then have None: "data = None" using Nil(1) by (subst (asm) all_records.simps) (auto split: option.splits)
  obtain X where X: "read R rec = Some (Some X)" "row_read rest (out (rs_trim (cr_state R))) R s X" using next_row [OF Nil(2,3)] by blast
  from nothing_delivered [OF X at [unfolded None]] obtain R' rec' where n: "records_next read (R, rec) = Some (Some ((R', rec'), None))" "going R'" "is_done R'" by blast
  then show ?case using done_calls [OF n(2,3)] by (cases m) simp_all
next
  case (Cons d rows R s)
  obtain t n data where at: "record_at (cr_core R) 0 s (stream_of rest R) = (t, n, data)" using prod_cases3 by blast
  then obtain w es where data: "data = Some (w, es)" using Cons.prems(1) by (subst (asm) all_records.simps) (auto split: option.splits)
  obtain X where X: "read R rec = Some (Some X)" "row_read rest (out (rs_trim (cr_state R))) R s X" using next_row [OF Cons.prems(2,3)] by blast
  from row_delivered [OF X at [unfolded data] disjI1 [OF Cons.prems(4)]] obtain R' rec' x where n: "records_next read (R, rec) = Some (Some ((R', rec'), x))"
      "delivers (rs_flexible (cr_state R)) k (length es, out (rs_trim (cr_state R)) (fields_at w es)) x"
      "going R'" "past_row rest R R' t n (length es)" "same_config R R'" by blast
  have eq: "d = fields_at w es" "all_records (cr_core R') t (stream_of rest R') = rows"
    using all_records_split [OF at [unfolded data] n(4)] Cons.prems(1) by simp_all
  have "ready rest R' t" using n(4) by (simp add: past_row_def)
  from Cons.IH [OF eq(2) n(3) this counting_past [OF n(4,5) Cons.prems(4)], of rec'] obtain xs where
      "next_calls (records_next read) (length rows + m) (R', rec') = Some (Some (xs @ replicate m None))"
      "list_all2 (delivers (rs_flexible (cr_state R')) k) (map (\<lambda>d. (length d, out (rs_trim (cr_state R')) d)) rows) xs" by blast
  then have "next_calls (records_next read) (length (d # rows) + m) (R, rec) = Some (Some ((x # xs) @ replicate m None))
    \<and> list_all2 (delivers (rs_flexible (cr_state R)) k) (map (\<lambda>d. (length d, out (rs_trim (cr_state R)) d)) (d # rows)) (x # xs)"
    using n(1,2,5) eq(1) by (simp add: same_config_def)
  then show ?case by blast
qed

lemma fresh_calls_no_headers:
  assumes "fresh R" and "ready rest R s" and "\<not> rs_has_headers (cr_state R)" and "all_records (cr_core R) s (stream_of rest R) = rows"
  shows "\<exists>xs. next_calls (records_next read) (length rows + m) (R, rec) = Some (Some (xs @ replicate m None))
    \<and> list_all2 (delivers (rs_flexible (cr_state R)) (length (hd rows))) (rows_out False (out0 (rs_trim (cr_state R))) (out (rs_trim (cr_state R))) rows) xs"
proof -
  obtain t n data where at: "record_at (cr_core R) 0 s (stream_of rest R) = (t, n, data)" using prod_cases3 by blast
  obtain X where X: "read R rec = Some (Some X)" "row_read rest (out0 (rs_trim (cr_state R))) R s X" using first_row [OF assms(1-3)] by blast
  show ?thesis
  proof (cases data)
    case None
    have rows: "rows = []" using at None assms(4) by (subst (asm) all_records.simps) simp
    from nothing_delivered [OF X at [unfolded None]] obtain R' rec' where n: "records_next read (R, rec) = Some (Some ((R', rec'), None))" "going R'" "is_done R'" by blast
    then show ?thesis using done_calls [OF n(2,3)] rows by (cases m) (simp_all add: rows_out_def)
  next
    case (Some d)
    obtain w es where d: "data = Some (w, es)" using Some by (cases d) auto
    have len: "length es < 2 ^ 62" using X(2) at d by (cases X) (auto simp: row_read_def)
    from row_delivered [OF X at [unfolded d], of "length es"] assms(1) obtain R' rec' x where n: "records_next read (R, rec) = Some (Some ((R', rec'), x))"
        "delivers (rs_flexible (cr_state R)) (length es) (length es, out0 (rs_trim (cr_state R)) (fields_at w es)) x"
        "going R'" "past_row rest R R' t n (length es)" "same_config R R'" by blast
    have rows: "rows = fields_at w es # all_records (cr_core R') t (stream_of rest R')" using all_records_split [OF at [unfolded d] n(4)] assms(4) by simp
    have "ready rest R' t" "counting R' (length es)" using n(4) counting_first [OF n(4,5) assms(1) len] by (auto simp: past_row_def)
    from later_calls [OF refl n(3) this, of m rec'] n(1,2,5) show ?thesis
      unfolding rows by (force simp: rows_out_def same_config_def)
  qed
qed

lemma fresh_calls_headers:
  assumes "fresh R" and "ready rest R s" and "rs_has_headers (cr_state R)" and "all_records (cr_core R) s (stream_of rest R) = rows"
  shows "\<exists>xs. next_calls (records_next read) (length (tl rows) + m) (R, rec) = Some (Some (xs @ replicate m None))
    \<and> list_all2 (delivers (rs_flexible (cr_state R)) (length (hd rows))) (rows_out True (out0 (rs_trim (cr_state R))) (out (rs_trim (cr_state R))) rows) xs"
proof -
  obtain t n data where at: "record_at (cr_core R) 0 s (stream_of rest R) = (t, n, data)" using prod_cases3 by blast
  obtain X where X: "read R rec = Some (Some X)" "headers_read rest (out (rs_trim (cr_state R))) R s X" using first_headers [OF assms(1-3)] by blast
  show ?thesis
  proof (cases data)
    case None
    have rows: "rows = []" using at None assms(4) by (subst (asm) all_records.simps) simp
    obtain R' rec' where n: "records_next read (R, rec) = Some (Some ((R', rec'), None))" "going R'" "is_done R'"
      using X at None by (cases X) (auto simp: headers_read_def records_next_def dest: ended_done)
    then show ?thesis using done_calls [OF n(2,3)] rows by (cases m) (simp_all add: rows_out_def)
  next
    case (Some d)
    obtain w es where d: "data = Some (w, es)" using Some by (cases d) auto
    obtain R1 where R1: "past_row rest R R1 t n (length es)" "length es < 2 ^ 62" "same_config R R1" "row_read rest (out (rs_trim (cr_state R))) R1 t X"
      using X(2) at d by (auto simp: headers_read_def)
    note cnt = counting_first [OF R1(1,3) assms(1) R1(2)]
    have rows: "rows = fields_at w es # all_records (cr_core R1) t (stream_of rest R1)" using all_records_split [OF at [unfolded d] R1(1)] assms(4) by simp
    obtain u n2 data2 where at2: "record_at (cr_core R1) 0 t (stream_of rest R1) = (u, n2, data2)" using prod_cases3 by blast
    show ?thesis
    proof (cases data2)
      case None
      from nothing_delivered [OF X(1) R1(4) at2 [unfolded None]] obtain R' rec' where n: "records_next read (R, rec) = Some (Some ((R', rec'), None))" "going R'" "is_done R'" by blast
      have "all_records (cr_core R1) t (stream_of rest R1) = []" using at2 None by (subst all_records.simps) simp
      then show ?thesis using n done_calls [OF n(2,3)] rows by (cases m) (simp_all add: rows_out_def)
    next
      case (Some d2)
      obtain w2 es2 where d2: "data2 = Some (w2, es2)" using Some by (cases d2) auto
      from row_delivered [OF X(1) R1(4) at2 [unfolded d2] disjI1 [OF cnt]] obtain R' rec' x where n: "records_next read (R, rec) = Some (Some ((R', rec'), x))"
          "delivers (rs_flexible (cr_state R1)) (length es) (length es2, out (rs_trim (cr_state R)) (fields_at w2 es2)) x"
          "going R'" "past_row rest R1 R' u n2 (length es2)" "same_config R1 R'" by blast
      have rows2: "rows = fields_at w es # fields_at w2 es2 # all_records (cr_core R') u (stream_of rest R')"
        using all_records_split [OF at2 [unfolded d2] n(4)] rows by simp
      have "ready rest R' u" "counting R' (length es)" using n(4) counting_past [OF n(4,5) cnt] by (auto simp: past_row_def)
      from later_calls [OF refl n(3) this, of m rec'] n(1,2,5) R1(3) show ?thesis
        unfolding rows2 by (force simp: rows_out_def same_config_def)
    qed
  qed
qed

lemma fresh_calls:
  assumes "fresh R" and "ready rest R s" and "all_records (cr_core R) s (stream_of rest R) = rows"
    and "vals = rows_out (rs_has_headers (cr_state R)) (out0 (rs_trim (cr_state R))) (out (rs_trim (cr_state R))) rows"
  shows "\<exists>xs. next_calls (records_next read) (length vals + m) (R, rec) = Some (Some (xs @ replicate m None))
    \<and> list_all2 (delivers (rs_flexible (cr_state R)) (length (hd rows))) vals xs"
proof (cases "rs_has_headers (cr_state R)")
  case True
  have "length vals = length (tl rows)" using True assms(4) by (simp add: rows_out_def split: list.split)
  then show ?thesis using fresh_calls_headers [OF assms(1,2) True assms(3), of m rec] assms(4) True by simp
next
  case False
  have "length vals = length rows" using False assms(4) by (simp add: rows_out_def split: list.split)
  then show ?thesis using fresh_calls_no_headers [OF assms(1,2) False assms(3), of m rec] assms(4) False by simp
qed

end

context dependable_source
begin

lemmas byte_calls = bytes.fresh_calls

lemmas string_calls = strings.fresh_calls

end

section \<open>A new reader\<close>

text \<open>The configurations the properties are about: the parser runs the DFA, and a line feed ends a comment. The data is short of \<open>2 ^ 61\<close> bytes,
  so that no counter and no buffer size overflows, and does not start with a byte order mark.\<close>

definition reader_config :: "ReaderBuilder \<Rightarrow> bool" where
  "reader_config b \<longleftrightarrow> is_builder (rb_builder b) \<and> \<not> r_use_nfa (rb_builder b) \<and> lf_ok (rb_builder b) \<and> 0 < rb_capacity b"

definition data_ok :: "u8 list \<Rightarrow> bool" where
  "data_ok bs \<longleftrightarrow> length bs < 2 ^ 61 \<and> take 3 bs \<noteq> [239, 187, 191]"

text \<open>Any sequence of calls of the setters keeps the first condition.\<close>

inductive set_up :: "ReaderBuilder \<Rightarrow> bool" where
  default: "set_up reader_builder_default"
| delimiter: "set_up b \<Longrightarrow> set_up (rb_set_delimiter b c)"
| has_headers: "set_up b \<Longrightarrow> set_up (rb_set_has_headers b yes)"
| flexible: "set_up b \<Longrightarrow> set_up (rb_set_flexible b yes)"
| trim: "set_up b \<Longrightarrow> set_up (rb_set_trim b t)"
| terminator: "set_up b \<Longrightarrow> rb_set_terminator b tm = Some b' \<Longrightarrow> set_up b'"
| quote: "set_up b \<Longrightarrow> set_up (rb_set_quote b c)"
| escape: "set_up b \<Longrightarrow> set_up (rb_set_escape b e)"
| double_quote: "set_up b \<Longrightarrow> set_up (rb_set_double_quote b yes)"
| quoting: "set_up b \<Longrightarrow> set_up (rb_set_quoting b yes)"
| comment: "set_up b \<Longrightarrow> set_up (rb_set_comment b e)"
| ascii: "set_up b \<Longrightarrow> set_up (rb_set_ascii b)"
| buffer_capacity: "set_up b \<Longrightarrow> set_up (rb_set_buffer_capacity b n)"
| nfa: "set_up b \<Longrightarrow> set_up (rb_set_nfa b yes)"

lemmas rb_set_defs = rb_set_delimiter_def rb_set_has_headers_def rb_set_flexible_def rb_set_trim_def rb_set_terminator_def rb_set_quote_def rb_set_escape_def
  rb_set_double_quote_def rb_set_quoting_def rb_set_comment_def rb_set_ascii_def rb_set_buffer_capacity_def rb_set_nfa_def

lemma set_up_builder: "set_up b \<Longrightarrow> is_builder (rb_builder b)"
  by (induction rule: set_up.induct)
    (auto simp: rb_set_defs reader_builder_default_def terminator_to_core_def intro: is_builder.intros split: Terminator.splits)

lemma set_up_terminator: "set_up b \<Longrightarrow> r_term (rb_builder b) \<noteq> Nonexhaustive"
  by (induction rule: set_up.induct)
    (auto simp: rb_set_defs reader_builder_default_def reader_default_def builder_defs terminator_to_core_def split: Terminator.splits)

text \<open>So a reader can always be made.\<close>

lemma set_up_new: "set_up b \<Longrightarrow> \<exists>R. csv_reader_new b src = Some R"
proof -
  assume b: "set_up b"
  show ?thesis by (rule build_ok [OF set_up_builder [OF b] set_up_terminator [OF b]]) (simp add: csv_reader_new_def)
qed

definition new_state_of :: "ReaderBuilder \<Rightarrow> ReaderState" where
  "new_state_of b = \<lparr>rs_headers = None, rs_has_headers = rb_has_headers b, rs_flexible = rb_flexible b, rs_trim = rb_trim b,
     rs_first_field_count = None, rs_cur_pos = position_new, rs_first = False, rs_seeked = False, rs_eof = NotEof\<rparr>"

lemma new_readerE:
  assumes "csv_reader_new b src = Some R"
  obtains q where "build (rb_builder b) = Some q"
    and "R = \<lparr>cr_core = q, cr_rdr = \<lparr>bu_inner = src, bu_unread = [], bu_capacity = rb_capacity b\<rparr>, cr_state = new_state_of b\<rparr>"
  using assms that by (auto simp: csv_reader_new_def new_state_of_def bind_eq_Some_conv)

lemma new_core_at:
  assumes "build (rb_builder b) = Some q" and "reader_config b"
  shows "core_at q StartRecord 0" and "r_line q = 1" and "\<not> r_has_read q" and "cfg q = cfg (rb_builder b)"
proof -
  have cb: "is_builder (rb_builder b)" "\<not> r_use_nfa (rb_builder b)" "lf_ok (rb_builder b)" using assms(2) by (auto simp: reader_config_def)
  note b = build_SomeD [OF cb(1) assms(1)]
  have eq: "r_nfa_state q = StartRecord" "r_output_pos q = 0" "r_line q = 1" "r_use_nfa q = r_use_nfa (rb_builder b)" "r_has_read q = False"
    using is_builder_fresh [OF cb(1)] arg_cong [OF b(4), of r_nfa_state] arg_cong [OF b(4), of r_output_pos] arg_cong [OF b(4), of r_line]
      arg_cong [OF b(4), of r_use_nfa] arg_cong [OF b(4), of r_has_read] by simp_all
  have "lf_ok q" using cb(3) b(2) cfg_cong(3) [OF b(2)] by (auto simp: lf_ok_def cfg_def)
  then show "core_at q StartRecord 0" "r_line q = 1" "\<not> r_has_read q" "cfg q = cfg (rb_builder b)"
    using b eq cb(2) by (simp_all add: core_at_def in_sync_def)
qed

lemma new_reader_ready:
  assumes "csv_reader_new b src = Some R" and "reader_config b" and "data_ok (rest src)"
  shows "ready rest R StartRecord" and "fresh R" and "stream_of rest R = rest src"
    and "all_records (cr_core R) s (stream_of rest R) = all_records (rb_builder b) s (rest src)"
    and "rs_has_headers (cr_state R) = rb_has_headers b" and "rs_flexible (cr_state R) = rb_flexible b" and "rs_trim (cr_state R) = rb_trim b"
proof -
  obtain q where q: "build (rb_builder b) = Some q"
      and R: "R = \<lparr>cr_core = q, cr_rdr = \<lparr>bu_inner = src, bu_unread = [], bu_capacity = rb_capacity b\<rparr>, cr_state = new_state_of b\<rparr>"
    using assms(1) by (rule new_readerE)
  note c = new_core_at [OF q assms(2)]
  show "ready rest R StartRecord"
    using assms(2,3) c by (simp add: R new_state_of_def data_ok_def reader_config_def ready_def reader_at_def stream_of_def no_bom_def position_new_def)
  show "fresh R" "stream_of rest R = rest src" "all_records (cr_core R) s (stream_of rest R) = all_records (rb_builder b) s (rest src)"
    "rs_has_headers (cr_state R) = rb_has_headers b" "rs_flexible (cr_state R) = rb_flexible b" "rs_trim (cr_state R) = rb_trim b"
    using all_records_cong [OF c(4)] by (simp_all add: R new_state_of_def fresh_def stream_of_def)
qed

end
