(* ===== verification/Csv_In_Safe.thy ===== *)
theory Csv_In_Safe
  imports Csv_In_Calls
begin

text \<open>
  What holds for every source, failing or not: calls return and do not panic, records are well formed, strings are valid UTF-8, and
  an error of the source ends the reading.
\<close>

section \<open>One call\<close>

definition reading_ok :: "('r \<Rightarrow> u8 list) \<Rightarrow> 'r CsvReader \<Rightarrow> bool" where
  "reading_ok rest R \<longleftrightarrow> (is_done R \<or> (\<exists>s. ready rest R s)) \<and> (rs_headers (cr_state R) \<noteq> None \<longrightarrow> rs_first (cr_state R))"

text \<open>A call on \<open>R\<close> returned \<open>X\<close>.\<close>

definition safe_read :: "('r \<Rightarrow> u8 list) \<Rightarrow> 'r CsvReader \<Rightarrow> 'r CsvReader \<times> ByteRecord \<times> ('e ErrorKind + bool) \<Rightarrow> bool" where
  "safe_read rest R X \<longleftrightarrow> (case X of (R', rec, res) \<Rightarrow> reading_ok rest R' \<and> small rec
     \<and> (is_done R \<longrightarrow> is_done R' \<and> res = Inr False \<and> fields_of rec = []) \<and> ((\<exists>e. res = Inl (Io e)) \<longrightarrow> is_done R'))"

lemma reading_ok_marked: "reading_ok rest R \<Longrightarrow> reading_ok rest (R\<lparr>cr_state := (cr_state R)\<lparr>rs_first := True, rs_headers := h\<rparr>\<rparr>)"
  using ready_marked [where R = R and b = True and h = h and rest = rest] by (simp add: reading_ok_def is_done_def)

lemma reading_ok_first: "reading_ok rest R \<Longrightarrow> reading_ok rest (R\<lparr>cr_state := (cr_state R)\<lparr>rs_first := True\<rparr>\<rparr>)"
  using reading_ok_marked [of rest R "rs_headers (cr_state R)"] by simp

context byte_source
begin

lemma impl_safe:
  assumes "reading_ok rest R"
  shows "\<exists>R' rec' res. read_byte_record_impl rd R rec = Some (Some (R', rec', res)) \<and> safe_read rest R (R', rec', res)
    \<and> rs_headers (cr_state R') = rs_headers (cr_state R) \<and> rs_first (cr_state R') = rs_first (cr_state R) \<and> rs_has_headers (cr_state R') = rs_has_headers (cr_state R)"
proof (cases "is_done R")
  case True
  then show ?thesis using impl_at_end [of R rec] small_empty assms by (auto simp: safe_read_def is_done_def)
next
  case False
  then obtain s where s: "ready rest R s" using assms by (auto simp: reading_ok_def)
  from impl_ok [OF s, of rec] obtain R' rec' res where X: "read_byte_record_impl rd R rec = Some (Some (R', rec', res))" "br_ok rec'"
      "read_one rest R s (R', rec', res) \<or> (\<exists>e. res = Inl (Io e)) \<and> fields_of rec' = [] \<and> (\<exists>p. cr_state R' = (cr_state R)\<lparr>rs_cur_pos := p, rs_eof := IOError\<rparr>)"
    by blast
  obtain t n data where at: "record_at (cr_core R) 0 s (stream_of rest R) = (t, n, data)" using prod_cases3 by blast
  from X(3) show ?thesis
  proof
    assume one: "read_one rest R s (R', rec', res)"
    show ?thesis
    proof (cases data)
      case None
      then show ?thesis using X(1,2) one at False assms small_empty [of rec'] by (auto simp: read_one_def safe_read_def reading_ok_def is_done_def)
    next
      case (Some d)
      obtain w es where d: "data = Some (w, es)" using Some by (cases d) auto
      have "res \<noteq> Inl (Io e)" for e using one by (auto simp: read_one_def at d count_error_def split: option.splits if_splits)
      moreover have "small rec'" "ready rest R' t" using one X(2) length_fields_of [of rec'] by (auto simp: read_one_def at d small_def simp del: length_fields_of)
      ultimately show ?thesis using X(1) one False assms by (auto simp: read_one_def at d safe_read_def reading_ok_def is_done_def)
    qed
  next
    assume "(\<exists>e. res = Inl (Io e)) \<and> fields_of rec' = [] \<and> (\<exists>p. cr_state R' = (cr_state R)\<lparr>rs_cur_pos := p, rs_eof := IOError\<rparr>)"
    then show ?thesis using X(1,2) False assms small_empty [of rec'] by (auto simp: safe_read_def reading_ok_def is_done_def)
  qed
qed

lemma safe_read_trim:
  assumes "safe_read rest R (R', rec, res)"
  shows "\<exists>rec'. trim_fields R1 rec = Some rec' \<and> safe_read rest R (R', rec', res)"
  using trim_fields_small [of rec R1] assms by (fastforce simp: safe_read_def)

lemma read_byte_record_safe:
  assumes "reading_ok rest R"
  shows "\<exists>R' rec' res. read_byte_record rd R rec = Some (Some (R', rec', res)) \<and> safe_read rest R (R', rec', res)"
proof -
  obtain R1 rec1 res where X: "read_byte_record_impl rd R rec = Some (Some (R1, rec1, res))" "safe_read rest R (R1, rec1, res)"
      "rs_headers (cr_state R1) = rs_headers (cr_state R)" "rs_first (cr_state R1) = rs_first (cr_state R)" "rs_has_headers (cr_state R1) = rs_has_headers (cr_state R)"
    using impl_safe [OF assms, of rec] by blast
  have old: "(if \<not> rs_seeked (cr_state R) \<and> \<not> rs_has_headers (cr_state R) \<and> \<not> rs_first (cr_state R) then rs_headers (cr_state R) else None) = None"
    using assms by (auto simp: reading_ok_def)
  show ?thesis
  proof (cases res)
    case (Inl e)
    then show ?thesis using X(1,2) old by (simp add: read_byte_record_def Let_def)
  next
    case (Inr ok)
    let ?R = "R1\<lparr>cr_state := (cr_state R1)\<lparr>rs_first := True\<rparr>\<rparr>"
    have R1: "reading_ok rest ?R" "safe_read rest R (?R, rec1, res)" using X(2) reading_ok_first [of rest R1] by (auto simp: safe_read_def is_done_def)
    show ?thesis
    proof (cases "\<not> rs_seeked (cr_state R1) \<and> rs_headers (cr_state R1) = None")
      case False
      then have "read_byte_record rd R rec = Some (do { rec \<leftarrow> trim_fields ?R rec1; Some (?R, rec, Inr ok) })"
        using X(1) Inr old by (auto simp: read_byte_record_def Let_def)
      then show ?thesis using safe_read_trim [OF R1(2), of ?R] Inr by auto
    next
      case True
      obtain h where h: "set_byte_headers ?R rec1 = Some (?R\<lparr>cr_state := (cr_state ?R)\<lparr>rs_headers := Some h\<rparr>\<rparr>)"
        using set_headers_impl_ok [of rec1 "cr_state ?R"] X(2) by (auto simp: set_byte_headers_def safe_read_def small_def)
      let ?H = "R1\<lparr>cr_state := (cr_state R1)\<lparr>rs_first := True, rs_headers := Some h\<rparr>\<rparr>"
      have H: "reading_ok rest ?H" "safe_read rest R (?H, rec1, res)" "is_done R \<Longrightarrow> is_done ?H"
        using X(2) reading_ok_marked [of rest R1 "Some h"] by (auto simp: safe_read_def is_done_def)
      show ?thesis
      proof (cases "rs_has_headers (cr_state R1)")
        case False
        then show ?thesis using X(1) Inr old True h H(2) by (auto simp: read_byte_record_def Let_def)
      next
        case hh: True
        obtain R2 rec2 res2 where 2: "read_byte_record_impl rd ?H rec1 = Some (Some (R2, rec2, res2))" "safe_read rest ?H (R2, rec2, res2)"
          using impl_safe [OF H(1), of rec1] by blast
        have "safe_read rest R (R2, rec2, res2)" using 2(2) H(3) by (auto simp: safe_read_def)
        moreover have "read_byte_record rd R rec = Some (do { rec \<leftarrow> trim_fields R2 rec2; Some (R2, rec, res2) })"
          using X(1) Inr old True h hh 2(1) by (auto simp: read_byte_record_def Let_def)
        ultimately show ?thesis using safe_read_trim [of R R2 rec2 res2 R2] by auto
      qed
    qed
  qed
qed

lemma reader_read_record_safe:
  assumes "reading_ok rest R"
  shows "\<exists>R' rec' res. reader_read_record rd R rec = Some (Some (R', rec', res)) \<and> safe_read rest R (R', rec', res) \<and> valid_fields rec'"
proof -
  obtain R1 rec1 res where X: "read_byte_record rd R rec = Some (Some (R1, rec1, res))" "safe_read rest R (R1, rec1, res)"
    using read_byte_record_safe [OF assms, of rec] by blast
  let ?rec = "if validate_fields 0 (fields_of rec1) = None then rec1 else br_clear rec1"
  let ?res = "case res of Inl e \<Rightarrow> Inl e | Inr ok \<Rightarrow> (case validate_fields 0 (fields_of rec1) of Some err \<Rightarrow> Inl (EK_Utf8 (Some (rs_cur_pos (cr_state R))) err) | None \<Rightarrow> Inr ok)"
  have v: "br_validate rec1 = Some (case validate_fields 0 (fields_of rec1) of Some err \<Rightarrow> Inl err | None \<Rightarrow> Inr ())"
    using X(2) by (intro br_validate_ok) (simp add: safe_read_def small_def)
  have rec: "small ?rec" "list_all utf8_valid (fields_of ?rec)" using X(2) small_clear validate_fields_None by (auto simp: safe_read_def)
  obtain rec2 where 2: "(if should_trim_fields (rs_trim (cr_state R1)) then sr_trim ?rec else Some ?rec) = Some rec2" "small rec2"
      "fields_of rec2 = map (str_cell (rs_trim (cr_state R1))) (fields_of ?rec)"
    using sr_trim_small [OF rec(1), of "rs_trim (cr_state R1)"] by blast
  have call: "reader_read_record rd R rec = Some (Some (R1, rec2, ?res))"
    using X(1) v 2(1) by (cases "validate_fields 0 (fields_of rec1)") (auto simp: reader_read_record_def sr_read_def Let_def split: sum.split)
  have "valid_fields rec2" using 2(2,3) rec(2) by (auto simp: valid_fields_def small_def list_all_iff str_cell_def str_trim_valid)
  moreover have "safe_read rest R (R1, rec2, ?res)"
    using X(2) 2(2,3) by (auto simp: safe_read_def split: sum.splits option.splits)
  ultimately show ?thesis using call by blast
qed

end

section \<open>Sequences of calls\<close>

lemma next_calls_inv:
  assumes "\<And>v. I v \<Longrightarrow> \<exists>v' x. nx v = Some (Some (v', x)) \<and> I v' \<and> P x" and "I v"
  shows "\<exists>xs. next_calls nx k v = Some (Some xs) \<and> length xs = k \<and> list_all P xs"
  using assms(2)
proof (induction k arbitrary: v)
  case (Suc k)
  obtain v' x where n: "nx v = Some (Some (v', x))" "I v'" "P x" using assms(1) [OF Suc.prems] by blast
  then obtain xs where "next_calls nx k v' = Some (Some xs)" "length xs = k" "list_all P xs" using Suc.IH by blast
  then show ?case using n by simp
qed simp

text \<open>Once the state satisfies \<open>D\<close>, every call returns \<open>y\<close>; a bad result leads there.\<close>

lemma next_calls_stop:
  assumes "\<And>v. I v \<Longrightarrow> \<exists>v' x. nx v = Some (Some (v', x)) \<and> I v' \<and> (D v \<longrightarrow> D v' \<and> x = y) \<and> (bad x \<longrightarrow> D v')" and "I v"
  shows "\<exists>xs. next_calls nx k v = Some (Some xs) \<and> length xs = k \<and> (D v \<longrightarrow> xs = replicate k y)
    \<and> (\<forall>i j. i < j \<longrightarrow> j < k \<longrightarrow> bad (xs ! i) \<longrightarrow> xs ! j = y)"
  using assms(2)
proof (induction k arbitrary: v)
  case (Suc k)
  obtain v' x where n: "nx v = Some (Some (v', x))" "I v'" "D v \<longrightarrow> D v' \<and> x = y" "bad x \<longrightarrow> D v'" using assms(1) [OF Suc.prems] by blast
  then obtain xs where xs: "next_calls nx k v' = Some (Some xs)" "length xs = k" "D v' \<longrightarrow> xs = replicate k y"
      "\<forall>i j. i < j \<longrightarrow> j < k \<longrightarrow> bad (xs ! i) \<longrightarrow> xs ! j = y" using Suc.IH by blast
  have "(x # xs) ! j = y" if "i < j" "j < Suc k" "bad ((x # xs) ! i)" for i j
    using that n(4) xs(3,4) by (cases i; cases j) auto
  then show ?case using n xs by simp
qed simp

end
