(* ===== verification/Csv_In_Headers.thy ===== *)
theory Csv_In_Headers
  imports Csv_In_Calls
begin

text \<open>
  Asking for the headers before the first record: they are the first row of the data, and the calls that follow deliver the same rows as
  without asking.
\<close>

section \<open>Headers first\<close>

lemma free_run_final_ends: "free_run r pos s bs = (t, n, w, es) \<Longrightarrow> bs \<noteq> [] \<Longrightarrow> is_record_final t \<Longrightarrow> es \<noteq> []"
proof (induction r pos s bs arbitrary: t n w es rule: free_run.induct)
  case (2 r pos s c cs)
  then show ?case by (cases cs) (force simp: Let_def prepend_fields_def split: prod.splits if_splits)+
qed simp

lemma record_at_ends: "record_at r pos s bs = (t, n, Some (w, es)) \<Longrightarrow> es \<noteq> []"
  using free_run_final_ends [of r pos s bs] by (auto simp: record_at_def split: prod.splits if_splits)

definition head_cell :: "Trim \<Rightarrow> u8 list \<Rightarrow> u8 list" where
  "head_cell t f = (if should_trim_headers t then trim_ascii f else f)"

definition headed :: "'r CsvReader \<Rightarrow> ByteRecord \<Rightarrow> Headers \<Rightarrow> bool" where
  "headed R rec h \<longleftrightarrow> \<not> rs_first (cr_state R) \<and> \<not> rs_seeked (cr_state R) \<and> rs_headers (cr_state R) = Some h \<and> small rec \<and> headers_of (rs_trim (cr_state R)) rec h"

lemma headed_fields:
  assumes "headed R rec h"
  shows "fields_of (hd_byte_record h) = map (head_cell (rs_trim (cr_state R))) (fields_of rec)" and "small (hd_byte_record h)"
proof -
  show f: "fields_of (hd_byte_record h) = map (head_cell (rs_trim (cr_state R))) (fields_of rec)"
    using assms by (simp add: headed_def headers_of_def head_cell_def [abs_def])
  have "small rec" "br_ok (hd_byte_record h)" using assms by (auto simp: headed_def headers_of_def)
  then show "small (hd_byte_record h)" using small_shorter [OF _ _ f] by (simp add: head_cell_def length_trim_ascii)
qed


definition headers_past :: "('r \<Rightarrow> u8 list) \<Rightarrow> 'r CsvReader \<Rightarrow> NfaState \<Rightarrow> 'r CsvReader \<Rightarrow> ByteRecord \<Rightarrow> bool" where
  "headers_past rest R s R1 rec \<longleftrightarrow> (case record_at (cr_core R) 0 s (stream_of rest R) of
     (t, n, None) \<Rightarrow> ended rest R R1 \<and> fields_of rec = []
   | (t, n, Some (w, es)) \<Rightarrow> past_row rest R R1 t n (length es) \<and> length es < 2 ^ 62 \<and> fields_of rec = fields_at w es)"

context dependable_source
begin

lemma force_headers_fresh:
  assumes "fresh R" and "ready rest R s"
  shows "\<exists>R1 h rec1. force_headers rd R = Some (Some (R1, Inr h)) \<and> headed R1 rec1 h \<and> same_config R R1 \<and> headers_past rest R s R1 rec1"
proof -
  obtain R1 rec1 ok where X: "read_byte_record_impl rd R br_new = Some (Some (R1, rec1, Inr ok))" "plain_read R s (R1, rec1, Inr ok)"
      "rs_first (cr_state R1) = rs_first (cr_state R)"
    using first_record [OF assms, of br_new] by blast
  obtain h where h: "set_byte_headers R1 rec1 = Some (R1\<lparr>cr_state := (cr_state R1)\<lparr>rs_headers := Some h\<rparr>\<rparr>)" "headers_of (rs_trim (cr_state R1)) rec1 h"
    using set_headers_row [of rec1 R1] X(2) by (auto simp: plain_read_def)
  let ?R = "R1\<lparr>cr_state := (cr_state R1)\<lparr>rs_headers := Some h\<rparr>\<rparr>"
  have "force_headers rd R = Some (Some (?R, Inr h))" using X(1) h(1) assms(1) by (simp add: force_headers_def fresh_def)
  moreover have "headed ?R rec1 h" using h(2) X(2,3) assms(1) by (simp add: headed_def plain_read_def fresh_def)
  moreover have "same_config R ?R" using X(2) by (simp add: plain_read_def same_config_def)
  moreover obtain t n data where at: "record_at (cr_core R) 0 s (stream_of rest R) = (t, n, data)" using prod_cases3 by blast
  have "past_row rest R ?R t n k = past_row rest R R1 t n k" "ended rest R ?R = ended rest R R1" for k
    by (simp_all add: past_row_def ended_def ready_def reader_at_def stream_of_def)
  then have "headers_past rest R s ?R rec1"
    using X(2) unfolding plain_read_def headers_past_def at by (cases data) auto
  ultimately show ?thesis by blast
qed

text \<open>Without a header row the first call hands the stored headers out as a record.\<close>

lemma headed_first_row:
  assumes "headed R rec0 h" and "\<not> rs_has_headers (cr_state R)"
  shows "\<exists>rec'. read_byte_record rd R rec = Some (Some (R\<lparr>cr_state := (cr_state R)\<lparr>rs_first := True\<rparr>\<rparr>, rec', Inr (fields_of rec0 \<noteq> [])))
    \<and> br_ok rec' \<and> fields_of rec' = map (trim_cell (rs_trim (cr_state R)) \<circ> head_cell (rs_trim (cr_state R))) (fields_of rec0)"
proof -
  note f = headed_fields [OF assms(1)]
  let ?R = "R\<lparr>cr_state := (cr_state R)\<lparr>rs_first := True\<rparr>\<rparr>"
  obtain rec' where r: "trim_fields ?R (hd_byte_record h) = Some rec'" "small rec'"
      "fields_of rec' = map (trim_cell (rs_trim (cr_state R))) (fields_of (hd_byte_record h))"
    using trim_fields_small [OF f(2), of ?R] by auto
  have "br_len rec' = length (fields_of rec0)" using r(3) f(1) by (metis length_fields_of length_map)
  then have "br_is_empty rec' \<longleftrightarrow> fields_of rec0 = []" unfolding br_is_empty_def by (metis length_0_conv)
  then show ?thesis using r f(1) assms by (auto simp: read_byte_record_def headed_def small_def)
qed

lemma headers_calls:
  assumes "fresh R" and "ready rest R s" and "all_records (cr_core R) s (stream_of rest R) = rows"
    and "vals = rows_out (rs_has_headers (cr_state R)) (\<lambda>fs. byte_row (rs_trim (cr_state R)) (map (head_cell (rs_trim (cr_state R))) fs)) (byte_row (rs_trim (cr_state R))) rows"
  shows "\<exists>R1 hs xs. byte_headers rd R = Some (Some (R1, Inr hs)) \<and> br_ok hs
    \<and> fields_of hs = (case rows of [] \<Rightarrow> [] | d # ds \<Rightarrow> map (head_cell (rs_trim (cr_state R))) d)
    \<and> next_calls (byte_records_next rd) (length vals + m) (R1, rec) = Some (Some (xs @ replicate m None))
    \<and> list_all2 (delivers (rs_flexible (cr_state R)) (length (hd rows))) vals xs"
proof -
  obtain R1 h rec1 where R1: "force_headers rd R = Some (Some (R1, Inr h))" "headed R1 rec1 h" "same_config R R1" "headers_past rest R s R1 rec1"
    using force_headers_fresh [OF assms(1,2)] by blast
  have t: "rs_trim (cr_state R1) = rs_trim (cr_state R)" "rs_flexible (cr_state R1) = rs_flexible (cr_state R)" "rs_has_headers (cr_state R1) = rs_has_headers (cr_state R)"
    using R1(3) by (auto simp: same_config_def)
  note f = headed_fields [OF R1(2), unfolded t]
  have bh: "byte_headers rd R = Some (Some (R1, Inr (hd_byte_record h)))" "br_ok (hd_byte_record h)" using R1(1) f(2) by (simp_all add: byte_headers_def small_def)
  let ?R = "R1\<lparr>cr_state := (cr_state R1)\<lparr>rs_first := True\<rparr>\<rparr>"
  have going: "going ?R" "going R1 \<or> \<not> rs_has_headers (cr_state R1)" using R1(2) by (auto simp: going_def headed_def)
  obtain t n data where at: "record_at (cr_core R) 0 s (stream_of rest R) = (t, n, data)" using prod_cases3 by blast
  show ?thesis
  proof (cases data)
    case None
    then have e: "is_done R1" "fields_of rec1 = []" "is_done ?R" "rows = []" using R1(4) at assms(3) by (auto simp: is_done_def ended_def headers_past_def all_records.simps [of "cr_core R" s])
    have "next_calls (byte_records_next rd) m (R1, rec) = Some (Some (replicate m None))"
    proof (cases "rs_has_headers (cr_state R1)")
      case True
      then show ?thesis using bytes.done_calls e(1) going(2) by (simp add: byte_records_next_def)
    next
      case False
      obtain rec' where "read_byte_record rd R1 rec = Some (Some (?R, rec', Inr False))" using headed_first_row [OF R1(2) False, of rec] e(2) by auto
      then show ?thesis using bytes.done_calls [OF going(1) e(3)] by (cases m) (simp_all add: byte_records_next_def records_next_def)
    qed
    then show ?thesis using bh f(1) e assms(4) by (simp add: rows_out_def)
  next
    case (Some d)
    obtain w es where d: "data = Some (w, es)" using Some by (cases d) auto
    have p: "past_row rest R R1 t n (length es)" "length es < 2 ^ 62" "fields_of rec1 = fields_at w es" using R1(4) at d by (auto simp: headers_past_def)
    have "past_row rest R ?R t n (length es) = past_row rest R R1 t n (length es)" by (simp add: past_row_def ready_def reader_at_def stream_of_def)
    then have p': "past_row rest R ?R t n (length es)" "same_config R ?R" using p(1) R1(3) by (auto simp: same_config_def)
    have rows: "rows = fields_at w es # all_records (cr_core R1) t (stream_of rest R1)" using bytes.all_records_split [OF at [unfolded d] p(1)] assms(3) by simp
    note cnt = counting_first [OF p(1) R1(3) assms(1) p(2)] counting_first [OF p' assms(1) p(2)]
    show ?thesis
    proof (cases "rs_has_headers (cr_state R1)")
      case True
      then show ?thesis using bytes.later_calls [OF refl _ _ cnt(1), of t m rec] going(2) p(1) bh f(1) p(3) t assms(4)
        unfolding rows by (force simp: rows_out_def byte_records_next_def past_row_def)
    next
      case False
      have "fields_at w es \<noteq> []" using record_at_ends [OF at [unfolded d]] by (simp add: fields_at_def)
      then obtain rec' where r: "read_byte_record rd R1 rec = Some (Some (?R, rec', Inr True))" "br_ok rec'"
          "fields_of rec' = map (trim_cell (rs_trim (cr_state R)) \<circ> head_cell (rs_trim (cr_state R))) (fields_at w es)"
        using headed_first_row [OF R1(2) False, of rec] p(3) t by auto
      from records_next_row [of "read_byte_record rd", OF r(1,2)] obtain y where y: "byte_records_next rd (R1, rec) = Some (Some ((?R, rec'), Some (Inr y)))" "br_ok y" "fields_of y = fields_of rec'"
        by (auto simp: byte_records_next_def)
      have "stream_of rest ?R = stream_of rest R1" "ready rest ?R t" using p'(1) by (auto simp: past_row_def stream_of_def)
      then show ?thesis using bytes.later_calls [OF refl going(1) _ cnt(2), of t m rec'] y r(3) False bh f(1) p(3) t assms(4)
        unfolding rows by (force simp: rows_out_def byte_records_next_def delivers_def)
    qed
  qed
qed

end

end
