(* ===== verification/Csv_In_Seek.thy ===== *)
theory Csv_In_Seek
  imports Csv_In_Headers
begin

text \<open>
  Seeking: a reader that is put back to the start of a record delivers the records from there on, whatever it read before. The locale
  \<open>seekable_source\<close> adds what \<^verbatim>\<open>io::Seek\<close> promises for an offset from the start.
\<close>

section \<open>Between records\<close>

text \<open>The states between two records behave like the start; they differ in how much of a line ending they have seen.\<close>

definition seam :: "Reader \<Rightarrow> NfaState \<Rightarrow> bool" where
  "seam r s \<longleftrightarrow> s = StartRecord \<or> s = EndRecord \<or> s = NfaState.CRLF \<and> r_term r = Terminator.CRLF"

lemma csv_step_seam: "seam r s \<Longrightarrow> csv_step r s c = csv_step r StartRecord c"
  by (auto simp: seam_def record_step_def)

lemma all_records_seam:
  assumes "seam r s"
  shows "all_records r s bs = all_records r StartRecord bs"
proof -
  have "record_at r 0 s bs = record_at r 0 StartRecord bs"
    using assms by (cases bs) (auto simp: record_at_def csv_step_seam [OF assms] seam_def)
  then show ?thesis by (simp add: all_records.simps [of r s] all_records.simps [of r StartRecord])
qed

lemma csv_step_CRLF: "csv_step r s c = (NfaState.CRLF, copy) \<Longrightarrow> r_term r = Terminator.CRLF"
  by (cases s) (auto simp: step_defs split: if_splits)

lemma free_run_CRLF: "free_run r pos s bs = (NfaState.CRLF, n, w, es) \<Longrightarrow> bs \<noteq> [] \<Longrightarrow> r_term r = Terminator.CRLF"
proof (induction r pos s bs arbitrary: n w es rule: free_run.induct)
  case (2 r pos s c cs)
  obtain t copy where t: "csv_step r s c = (t, copy)" by force
  show ?case
  proof (cases "is_record_final t")
    case True
    then show ?thesis using "2.prems"(1) t csv_step_CRLF by (auto simp: Let_def)
  next
    case False
    then have "cs \<noteq> []" using "2.prems"(1) t by (auto simp: Let_def)
    moreover obtain m x fs where "free_run r (pos + length (if copy then [c] else [])) t cs = (NfaState.CRLF, m, x, fs)"
      using "2.prems"(1) t False by (auto simp: Let_def prepend_fields_def split: prod.splits)
    ultimately show ?thesis using "2.IH" [OF t [symmetric] refl refl False] by blast
  qed
qed simp

lemma record_at_seam:
  assumes "record_at r pos s bs = (t, n, Some d)" and "t \<in> dfa_states"
  shows "seam r t"
proof -
  obtain u m w es where run: "free_run r pos s bs = (u, m, w, es)" using prod_cases4 by blast
  show ?thesis
  proof (cases "bs \<noteq> [] \<and> is_record_final u")
    case True
    then have "t = u" using assms(1) run by (simp add: record_at_def)
    then show ?thesis using assms(2) True free_run_CRLF [of r pos s bs] run by (cases u) (auto simp: seam_def dfa_states_iff)
  next
    case False
    then show ?thesis using assms(1) run by (auto simp: record_at_def seam_def split: if_splits)
  qed
qed

section \<open>Where a reader stands\<close>

definition located :: "('r \<Rightarrow> u8 list) \<Rightarrow> u8 list \<Rightarrow> 'r CsvReader \<Rightarrow> NfaState \<Rightarrow> bool" where
  "located rest whole R s \<longleftrightarrow> (\<exists>n \<le> length whole. stream_of rest R = drop n whole \<and> pos_byte (rs_cur_pos (cr_state R)) = word_of_nat n)
     \<and> reader_at rest R s 0 \<and> seam (cr_core R) s
     \<and> (rs_eof (cr_state R) = NotEof \<and> ready rest R s \<or> rs_eof (cr_state R) = Eof \<and> stream_of rest R = [])"

lemma located_past:
  assumes "located rest whole R s" and "record_at (cr_core R) 0 s (stream_of rest R) = (t, n, Some d)" and "past_row rest R R' t n k"
  shows "located rest whole R' t"
proof -
  obtain i where i: "i \<le> length whole" "stream_of rest R = drop i whole" "pos_byte (rs_cur_pos (cr_state R)) = word_of_nat i"
    using assms(1) by (auto simp: located_def)
  note p = assms(3) [unfolded past_row_def]
  have r: "reader_at rest R' t 0" "rs_eof (cr_state R') = NotEof" using p by (auto simp: ready_def)
  obtain w es where d: "d = (w, es)" by force
  have "n \<le> length (stream_of rest R)" using record_at_Some(2) [OF assms(2) [unfolded d]] .
  then have "i + n \<le> length whole \<and> stream_of rest R' = drop (i + n) whole \<and> pos_byte (rs_cur_pos (cr_state R')) = word_of_nat (i + n)"
    using i p by (simp add: add.commute)
  moreover have "seam (cr_core R') t"
  proof -
    have "t \<in> dfa_states" using r(1) by (auto simp: reader_at_def core_at_def dest: live_dfa_states)
    then have "seam (cr_core R) t" by (rule record_at_seam [OF assms(2)])
    then show ?thesis using p by (auto simp: seam_def cfg_def)
  qed
  ultimately show ?thesis using r p unfolding located_def by blast
qed

lemma located_ended:
  assumes "located rest whole R s" and "ended rest R R'"
  shows "located rest whole R' StartRecord"
proof -
  obtain i where i: "i \<le> length whole" "stream_of rest R = drop i whole" "pos_byte (rs_cur_pos (cr_state R)) = word_of_nat i"
    using assms(1) by (auto simp: located_def)
  have "stream_of rest R' = drop (length whole) whole \<and> pos_byte (rs_cur_pos (cr_state R')) = word_of_nat (length whole)"
    using assms(2) i by (simp add: ended_def flip: of_nat_add)
  then show ?thesis using assms(2) unfolding located_def ended_def seam_def by blast
qed

section \<open>Calls from anywhere\<close>

text \<open>What the calls keep: the place in the data, the configuration, and the number of fields to expect, \<open>k\<close>.\<close>

definition roaming :: "('r \<Rightarrow> u8 list) \<Rightarrow> u8 list \<Rightarrow> 'r CsvReader \<Rightarrow> nat \<Rightarrow> 'r CsvReader \<Rightarrow> bool" where
  "roaming rest whole R0 k R \<longleftrightarrow> (\<exists>s. located rest whole R s) \<and> cfg (cr_core R) = cfg (cr_core R0) \<and> same_config R0 R
     \<and> (fresh R \<and> ready rest R StartRecord \<and> stream_of rest R = whole \<and> located rest whole R StartRecord \<or> going R \<and> counting R k)"

lemma located_first: "located rest whole (R\<lparr>cr_state := (cr_state R)\<lparr>rs_first := b\<rparr>\<rparr>) s = located rest whole R s"
  by (simp add: located_def ready_def reader_at_def stream_of_def)

lemma counting_ended: "ended rest R R' \<Longrightarrow> same_config R R' \<Longrightarrow> counting R k \<Longrightarrow> counting R' k"
  by (auto simp: counting_def ended_def same_config_def)

text \<open>A row leads to a place further on.\<close>

lemma row_read_roams:
  assumes "row_read rest out R s (R', rec, res)" and "located rest whole R s" and "counting R k"
  shows "(\<exists>t. located rest whole R' t) \<and> cfg (cr_core R') = cfg (cr_core R) \<and> counting R' k"
proof -
  obtain t n data where at: "record_at (cr_core R) 0 s (stream_of rest R) = (t, n, data)" using prod_cases3 by blast
  note rr = assms(1) [unfolded row_read_def at]
  show ?thesis
  proof (cases data)
    case None
    then have e: "ended rest R R'" "same_config R R'" using rr by auto
    show ?thesis using located_ended [OF assms(2) e(1)] counting_ended [OF e assms(3)] e(1) by (auto simp: ended_def)
  next
    case (Some d)
    obtain w es where d: "d = (w, es)" by force
    then have e: "past_row rest R R' t n (length es)" "same_config R R'" using rr Some by auto
    show ?thesis using located_past [OF assms(2) at [unfolded Some] e(1)] counting_past [OF e assms(3)] e(1) by (auto simp: past_row_def)
  qed
qed

lemma row_read_config: "row_read rest out R s (R', rec, res) \<Longrightarrow> going R' \<and> same_config R R' \<and> br_ok rec"
  by (simp add: row_read_def small_def)

context dependable_source
begin

lemma roaming_read:
  assumes "roaming rest whole R0 (length h) R" and "all_records (cr_core R0) StartRecord whole = h # ds"
  shows "\<exists>R' rec' res. read_byte_record rd R rec = Some (Some (R', rec', res)) \<and> br_ok rec' \<and> roaming rest whole R0 (length h) R'"
proof -
  note ro = assms(1) [unfolded roaming_def]
  consider (first) "fresh R" "ready rest R StartRecord" "stream_of rest R = whole" "located rest whole R StartRecord"
    | (later) s where "going R" "counting R (length h)" "located rest whole R s" using ro by blast
  then show ?thesis
  proof cases
    case later
    show ?thesis
    proof (cases "is_done R")
      case True
      then obtain rec' where "read_byte_record rd R rec = Some (Some (R\<lparr>cr_state := (cr_state R)\<lparr>rs_first := True\<rparr>\<rparr>, rec', Inr False))" "small rec'"
          "going (R\<lparr>cr_state := (cr_state R)\<lparr>rs_first := True\<rparr>\<rparr>)" "same_config R (R\<lparr>cr_state := (cr_state R)\<lparr>rs_first := True\<rparr>\<rparr>)"
        using byte_row_after_end [OF later(1) True, of rec] by blast
      then show ?thesis using later ro by (auto simp: roaming_def located_first counting_def small_def dest: same_config_trans)
    next
      case False
      then have "ready rest R s" using later(3) by (auto simp: located_def is_done_def)
      then obtain R' rec' res where r: "read_byte_record rd R rec = Some (Some (R', rec', res))" "row_read rest (byte_row (rs_trim (cr_state R))) R s (R', rec', res)"
        using next_byte_row [OF later(1), of s rec] by auto
      show ?thesis using r(1) row_read_roams [OF r(2) later(3,2)] row_read_config [OF r(2)] ro by (auto simp: roaming_def dest: same_config_trans)
    qed
  next
    case first
    have "all_records (cr_core R) StartRecord (stream_of rest R) = h # ds" using assms(2) first(3) all_records_cong [of "cr_core R" "cr_core R0"] ro by simp
    then obtain t n w es where at: "record_at (cr_core R) 0 StartRecord (stream_of rest R) = (t, n, Some (w, es))" "fields_at w es = h"
      by (rule all_records_ConsE)
    have h: "length h = length es" using at(2) by auto
    show ?thesis
    proof (cases "rs_has_headers (cr_state R)")
      case False
      obtain R' rec' res where r: "read_byte_record rd R rec = Some (Some (R', rec', res))" "row_read rest Inr R StartRecord (R', rec', res)"
        using first_byte_row [OF first(1,2) False, of rec] by auto
      have e: "past_row rest R R' t n (length es)" "same_config R R'" "length es < 2 ^ 62" using r(2) at(1) by (auto simp: row_read_def)
      show ?thesis using r(1) row_read_config [OF r(2)] located_past [OF first(4) at(1) e(1)] counting_first [OF e(1,2) first(1) e(3)] e(1) h ro
        by (auto simp: roaming_def past_row_def dest: same_config_trans)
    next
      case True
      obtain R' rec' res where r: "read_byte_record rd R rec = Some (Some (R', rec', res))" "headers_read rest (byte_row (rs_trim (cr_state R))) R StartRecord (R', rec', res)"
        using headers_byte_row [OF first(1,2) True, of rec] by auto
      obtain R1 where R1: "past_row rest R R1 t n (length es)" "length es < 2 ^ 62" "same_config R R1" "row_read rest (byte_row (rs_trim (cr_state R))) R1 t (R', rec', res)"
        using r(2) at(1) by (auto simp: headers_read_def)
      note more = row_read_roams [OF R1(4) located_past [OF first(4) at(1) R1(1)] counting_first [OF R1(1,3) first(1) R1(2)]]
      show ?thesis using r(1) row_read_config [OF R1(4)] R1(1,3) more h ro by (auto simp: roaming_def past_row_def dest: same_config_trans)
    qed
  qed
qed

end

section \<open>Seeking\<close>

definition position_ok :: "Position \<Rightarrow> bool" where
  "position_ok p \<longleftrightarrow> 0 < unat (pos_line p) \<and> unat (pos_line p) < 2 ^ 62 \<and> unat (pos_record p) < 2 ^ 62"

lemma core_at_reset:
  assumes "core_at r s 0"
  shows "core_at (r\<lparr>r_dfa_state := row (r_dfa r) StartRecord, r_nfa_state := StartRecord, r_line := 1, r_has_read := False\<rparr>\<lparr>r_line := l\<rparr>) StartRecord 0"
    (is "core_at ?r _ _")
proof -
  have c: "cfg ?r = cfg r" by simp
  have "built ?r = built r" by (rule built_cong [OF c]) simp
  moreover have "lf_ok ?r = lf_ok r" using cfg_cong(3) [OF c] by (simp add: lf_ok_def)
  ultimately show ?thesis using assms by (simp add: core_at_def)
qed

locale seekable_source = dependable_source rd rest for rd :: "('r, 'e) io_read" and rest +
  fixes sk :: "('r, 'e) io_seek" and whole :: "u8 list"
  assumes seek_start: "\<exists>r' q. sk r (SeekStart p) = (r', Inr q) \<and> rest r' = drop (unat p) whole"
begin

text \<open>The headers are there, or are read now.\<close>

lemma roaming_headers:
  assumes "roaming rest whole R0 (length h) R" and "all_records (cr_core R0) StartRecord whole = h # ds"
  shows "\<exists>R1 hs s. byte_headers rd R = Some (Some (R1, Inr hs)) \<and> rs_headers (cr_state R1) \<noteq> None \<and> located rest whole R1 s
    \<and> counting R1 (length h) \<and> cfg (cr_core R1) = cfg (cr_core R0) \<and> same_config R0 R1"
proof -
  note ro = assms(1) [unfolded roaming_def]
  consider (first) "fresh R" "ready rest R StartRecord" "stream_of rest R = whole" "located rest whole R StartRecord"
    | (later) s where "going R" "counting R (length h)" "located rest whole R s" using ro by blast
  then show ?thesis
  proof cases
    case later
    then show ?thesis using ro by (fastforce simp: byte_headers_def force_headers_def going_def)
  next
    case first
    have "all_records (cr_core R) StartRecord (stream_of rest R) = h # ds" using assms(2) first(3) all_records_cong [of "cr_core R" "cr_core R0"] ro by simp
    then obtain t n w es where at: "record_at (cr_core R) 0 StartRecord (stream_of rest R) = (t, n, Some (w, es))" "fields_at w es = h"
      by (rule all_records_ConsE)
    obtain R1 hd rec1 where R1: "force_headers rd R = Some (Some (R1, Inr hd))" "headed R1 rec1 hd" "same_config R R1" "headers_past rest R StartRecord R1 rec1"
      using force_headers_fresh [OF first(1,2)] by blast
    have p: "past_row rest R R1 t n (length es)" "length es < 2 ^ 62" using R1(4) at(1) by (auto simp: headers_past_def)
    have "length h = length es" using at(2) by auto
    then show ?thesis using R1(1-3) located_past [OF first(4) at(1) p(1)] counting_first [OF p(1) R1(3) first(1) p(2)] p(1) ro
      by (auto simp: byte_headers_def headed_def past_row_def dest: same_config_trans)
  qed
qed

text \<open>The parser starts afresh at the new place.\<close>

lemma seek_to_ready:
  assumes "located rest whole R s" and "position_ok pos" and "data_ok (drop (unat (pos_byte pos)) whole)"
  shows "\<exists>R'. seek_to sk R (SeekStart (pos_byte pos)) pos = Some (R', Inr ()) \<and> ready rest R' StartRecord \<and> stream_of rest R' = drop (unat (pos_byte pos)) whole
    \<and> cfg (cr_core R') = cfg (cr_core R) \<and> cr_state R' = (cr_state R)\<lparr>rs_cur_pos := pos, rs_eof := NotEof\<rparr>"
proof -
  let ?target = "drop (unat (pos_byte pos)) whole"
  obtain r' q where sk: "sk (bu_inner (cr_rdr R)) (SeekStart (pos_byte pos)) = (r', Inr q)" "rest r' = ?target" using seek_start by blast
  have core: "core_at (cr_core R) s 0" "0 < bu_capacity (cr_rdr R)" using assms(1) by (auto simp: located_def reader_at_def)
  have st: "new_state (r_dfa (cr_core R)) StartRecord = Some (row (r_dfa (cr_core R)) StartRecord)"
    using core(1) by (intro builtD(1)) (auto simp: core_at_def dfa_states_iff)
  let ?core = "set_line ((cr_core R)\<lparr>r_dfa_state := row (r_dfa (cr_core R)) StartRecord, r_nfa_state := StartRecord, r_line := 1, r_has_read := False\<rparr>) (pos_line pos)"
  let ?R = "R\<lparr>cr_core := ?core, cr_rdr := (cr_rdr R)\<lparr>bu_inner := r', bu_unread := []\<rparr>, cr_state := (cr_state R)\<lparr>rs_cur_pos := pos, rs_eof := NotEof\<rparr>\<rparr>"
  have "seek_to sk R (SeekStart (pos_byte pos)) pos = Some (?R, Inr ())"
    using sk(1) st by (simp add: seek_to_def bu_seek_def reset_def)
  moreover have "core_at ?core StartRecord 0" unfolding set_line_def by (rule core_at_reset [OF core(1)])
  then have "ready rest ?R StartRecord"
    using core(2) assms(2,3) sk(2) by (simp add: ready_def reader_at_def stream_of_def no_bom_def data_ok_def position_ok_def set_line_def)
  moreover have "stream_of rest ?R = ?target" "cfg (cr_core ?R) = cfg (cr_core R)" using sk(2) by (simp_all add: stream_of_def set_line_def)
  ultimately show ?thesis by auto
qed

lemma seek_calls:
  assumes "roaming rest whole R0 (length h) R" and "all_records (cr_core R0) StartRecord whole = h # ds" and "length whole < 2 ^ 61"
    and "position_ok pos" and "data_ok (drop (unat (pos_byte pos)) whole)" and "all_records (cr_core R0) StartRecord (drop (unat (pos_byte pos)) whole) = rows"
  shows "\<exists>R2 xs. seek rd sk R pos = Some (Some (R2, Inr ())) \<and> next_calls (byte_records_next rd) (length rows + m) (R2, rec) = Some (Some (xs @ replicate m None))
    \<and> list_all2 (delivers (rs_flexible (cr_state R0)) (length h)) (map (\<lambda>d. (length d, byte_row (rs_trim (cr_state R0)) d)) rows) xs"
proof -
  obtain R1 hs s where R1: "byte_headers rd R = Some (Some (R1, Inr hs))" "rs_headers (cr_state R1) \<noteq> None" "located rest whole R1 s"
      "counting R1 (length h)" "cfg (cr_core R1) = cfg (cr_core R0)" "same_config R0 R1"
    using roaming_headers [OF assms(1,2)] by blast
  let ?R = "R1\<lparr>cr_state := (cr_state R1)\<lparr>rs_seeked := True\<rparr>\<rparr>"
  have R: "going ?R" "located rest whole ?R s" "counting ?R (length h)" "cfg (cr_core ?R) = cfg (cr_core R0)" "same_config R0 ?R"
    using R1(2-6) by (auto simp: going_def located_def ready_def reader_at_def stream_of_def counting_def same_config_def)
  have calls: "\<exists>xs. next_calls (byte_records_next rd) (length rows + m) (R2, rec) = Some (Some (xs @ replicate m None))
      \<and> list_all2 (delivers (rs_flexible (cr_state R0)) (length h)) (map (\<lambda>d. (length d, byte_row (rs_trim (cr_state R0)) d)) rows) xs"
    if "going R2" "counting R2 (length h)" "same_config R0 R2" "ready rest R2 u" "all_records (cr_core R2) u (stream_of rest R2) = rows" for R2 u
    using bytes.later_calls [OF that(5,1,4,2), of m rec] that(3) by (simp add: byte_records_next_def same_config_def)
  show ?thesis
  proof (cases "pos_byte pos = pos_byte (rs_cur_pos (cr_state R1))")
    case True
    then have sk: "seek rd sk R pos = Some (Some (?R, Inr ()))" using R1(1) by (simp add: seek_def Let_def)
    obtain n where n: "n \<le> length whole" "stream_of rest ?R = drop n whole" "pos_byte pos = word_of_nat n" using R(2) True by (auto simp: located_def)
    have "unat (pos_byte pos) = n" unfolding n(3) using n(1) assms(3) by (simp add: unsigned_of_nat take_bit_nat_eq_self)
    then have rows: "all_records (cr_core ?R) s (stream_of rest ?R) = rows"
      using all_records_seam [of "cr_core ?R" s] all_records_cong [OF R(4)] R(2) n(2) assms(6) by (simp add: located_def)
    from R(2) consider "ready rest ?R s" | "is_done ?R" "stream_of rest ?R = []" by (auto simp: located_def is_done_def)
    then show ?thesis
    proof cases
      case 1
      then show ?thesis using sk calls [OF R(1,3,5) 1 rows] by blast
    next
      case 2
      have "all_records (cr_core ?R) StartRecord [] = []" by (subst all_records.simps) (simp add: record_at_def)
      then have "rows = []" using rows 2(2) R(2) all_records_seam [of "cr_core ?R" s "[]"] by (simp add: located_def)
      then show ?thesis using sk bytes.done_calls [OF R(1) 2(1), of m rec] by (auto simp: byte_records_next_def)
    qed
  next
    case False
    obtain R2 where R2: "seek_to sk ?R (SeekStart (pos_byte pos)) pos = Some (R2, Inr ())" "ready rest R2 StartRecord"
        "stream_of rest R2 = drop (unat (pos_byte pos)) whole" "cfg (cr_core R2) = cfg (cr_core ?R)" "cr_state R2 = (cr_state ?R)\<lparr>rs_cur_pos := pos, rs_eof := NotEof\<rparr>"
      using seek_to_ready [OF R(2) assms(4,5)] by blast
    have sk: "seek rd sk R pos = Some (Some (R2, Inr ()))" using R1(1) False R2(1) by (simp add: seek_def Let_def)
    have "going R2" "counting R2 (length h)" "same_config R0 R2" using R2(5) R(1,3,5) by (auto simp: going_def counting_def same_config_def)
    moreover have "all_records (cr_core R2) StartRecord (stream_of rest R2) = rows"
      using all_records_cong [of "cr_core R2" "cr_core R0"] R2(3,4) R(4) assms(6) by simp
    ultimately show ?thesis using sk calls [OF _ _ _ R2(2)] by blast
  qed
qed

end

end
