(* ===== verification/Csv_In_Thms.thy ===== *)
theory Csv_In_Thms
  imports Csv_In_Safe Csv_In_Seek
begin

text \<open>
  The properties of the buffered CSV reader: what its iterators deliver, for bytes and for strings; that what the writer wrote is
  read back; that string records stay valid UTF-8 and nothing panics, whatever the source does; and where the reader departs from its
  documentation.
\<close>

section \<open>Sources\<close>

text \<open>\<^verbatim>\<open>impl Read for &[u8]\<close>, and a source that hands out its bytes in given pieces, some of which fail.\<close>

definition slice_read :: "(u8 list, 'e) io_read" where
  "slice_read bs n = (drop n bs, Inr (take n bs))"

fun pieces_read :: "('e + u8 list) list \<Rightarrow> nat \<Rightarrow> ('e + u8 list) list \<times> ('e + u8 list)" where
  "pieces_read [] n = ([], Inr [])"
| "pieces_read (Inl e # ps) n = (ps, Inl e)"
| "pieces_read (Inr bs # ps) n = (if bs = [] then pieces_read ps n else (Inr (drop n bs) # ps, Inr (take n bs)))"

fun pieces_rest :: "('e + u8 list) list \<Rightarrow> u8 list" where
  "pieces_rest [] = []"
| "pieces_rest (Inl e # ps) = pieces_rest ps"
| "pieces_rest (Inr bs # ps) = bs @ pieces_rest ps"

interpretation slice: dependable_source slice_read id
proof unfold_locales
  fix r r' :: "u8 list" and n and bs :: "u8 list"
  assume "slice_read r n = (r', Inr bs)"
  then show "length bs \<le> n \<and> id r = bs @ id r' \<and> (0 < n \<longrightarrow> bs = [] \<longrightarrow> id r = [])" by (auto simp: slice_read_def)
qed (simp add: dependable_def slice_read_def)

lemma pieces_read_some:
  "pieces_read ps n = (ps', Inr bs) \<Longrightarrow> length bs \<le> n \<and> pieces_rest ps = bs @ pieces_rest ps' \<and> (0 < n \<longrightarrow> bs = [] \<longrightarrow> pieces_rest ps = [])"
  by (induction ps n rule: pieces_read.induct) (auto split: if_splits)

interpretation pieces: byte_source pieces_read pieces_rest
  by unfold_locales (rule pieces_read_some)

text \<open>An \<^verbatim>\<open>io::Cursor\<close> on the bytes \<open>data\<close>; its state is the position.\<close>

definition cursor_read :: "u8 list \<Rightarrow> (nat, unit) io_read" where
  "cursor_read data p n = (p + length (take n (drop p data)), Inr (take n (drop p data)))"

definition cursor_seek :: "u8 list \<Rightarrow> (nat, unit) io_seek" where
  "cursor_seek data p from =
     (let move = (\<lambda>base (k :: i64). let q = int base + sint k in if 0 \<le> q \<and> q < 2 ^ 64 then (nat q, Inr (word_of_int q)) else (p, Inl ())) in
      case from of SeekStart q \<Rightarrow> (unat q, Inr q) | SeekEnd k \<Rightarrow> move (length data) k | SeekCurrent k \<Rightarrow> move p k)"

interpretation cursor: seekable_source "cursor_read data" "\<lambda>p. drop p data" "cursor_seek data" data for data
proof unfold_locales
  fix r r' :: nat and n and bs :: "u8 list"
  assume "cursor_read data r n = (r', Inr bs)"
  then show "length bs \<le> n \<and> drop r data = bs @ drop r' data \<and> (0 < n \<longrightarrow> bs = [] \<longrightarrow> drop r data = [])"
    by (auto simp: cursor_read_def) (metis append_take_drop_id drop_drop add.commute length_drop length_take min.commute take_all_iff nle_le min_def)
qed (auto simp: dependable_def cursor_read_def cursor_seek_def)

section \<open>What the iterators deliver\<close>

lemma default_config: "reader_config reader_builder_default"
  using is_builder.new by (simp add: reader_config_def reader_builder_default_def lf_ok_def) (simp add: reader_default_def)

lemma default_new: obtains R where "csv_reader_new reader_builder_default src = Some R"
proof -
  obtain q where "build reader_default = Some q" by (rule default_build)
  then have "csv_reader_new reader_builder_default src \<noteq> None" by (simp add: csv_reader_new_def reader_builder_default_def)
  then show ?thesis using that by blast
qed

text \<open>The data of the examples: \<^verbatim>\<open>a,b\<close>, \<^verbatim>\<open>1,2\<close>, \<^verbatim>\<open>3\<close>.\<close>

definition example_data :: "u8 list" where
  "example_data = [97, 44, 98, 10, 49, 44, 50, 10, 51]"

lemma record_at_default:
  "record_at reader_default 0 StartRecord example_data = (EndRecord, 4, Some ([97, 98], [1, 2]))"
  "record_at reader_default 0 StartRecord [49, 44, 50, 10, 51] = (EndRecord, 4, Some ([49, 50], [1, 2]))"
  "record_at reader_default 0 EndRecord [51] = (EndRecord, 1, Some ([51], [1]))"
  "record_at reader_default 0 EndRecord [] = (StartRecord, 0, None)"
  by (simp_all add: example_data_def record_at_def step_defs reader_default_def Let_def prepend_fields_def)

lemma example_tail: "all_records (rb_builder reader_builder_default) StartRecord [49, 44, 50, 10, 51] = [[[49], [50]], [[51]]]"
proof -
  have "all_records reader_default EndRecord [] = []" by (subst all_records.simps) (simp add: record_at_default)
  then have "all_records reader_default EndRecord [51] = [[[51]]]" by (subst all_records.simps) (simp add: record_at_default fields_at_def)
  then show ?thesis by (subst all_records.simps) (simp add: record_at_default fields_at_def reader_builder_default_def)
qed

lemma example_rows: "all_records (rb_builder reader_builder_default) StartRecord (id example_data) = [[[97], [98]], [[49], [50]], [[51]]]"
proof -
  have "all_records reader_default EndRecord [49, 44, 50, 10, 51] = [[[49], [50]], [[51]]]"
    using example_tail all_records_seam [of reader_default EndRecord] by (simp add: seam_def reader_builder_default_def)
  then show ?thesis by (subst all_records.simps) (simp add: record_at_default fields_at_def reader_builder_default_def, simp add: example_data_def)
qed

lemma default_builder [simp]: "rb_has_headers reader_builder_default" "rb_trim reader_builder_default = TrimNone" "\<not> rb_flexible reader_builder_default"
  by (simp_all add: reader_builder_default_def)

lemma replicate_few: "replicate 1 x = [x]" "replicate 2 x = [x, x]"
  by (simp_all add: numeral_2_eq_2)

lemma example_data_ok: "data_ok (id example_data)"
  by (simp add: data_ok_def example_data_def)

text \<open>C1: The byte record iterator. For every source that does not fail, whatever the sizes of its reads, of the buffer and of the record, the
  first calls of \<^verbatim>\<open>next\<close> return the records of the data as the parser's automaton cuts them, in order, without the header row if there is one, and
  every further call returns \<open>None\<close>; no call panics or runs forever. The fields are trimmed if so configured, except those of a first record that is not a
  header. Unless the reader is flexible, a record whose number of fields differs from that of the first record is an error in its place.\<close>

theorem csv_byte_records:
  assumes "dependable_source rd rest" and "reader_config b" and "data_ok (rest src)" and "csv_reader_new b src = Some R"
    and "rows = all_records (rb_builder b) StartRecord (rest src)"
    and "vals = rows_out (rb_has_headers b) Inr (byte_row (rb_trim b)) rows"
  shows "\<exists>xs. next_calls (byte_records_next rd) (length vals + m) (R, rec) = Some (Some (xs @ replicate m None))
    \<and> list_all2 (delivers (rb_flexible b) (length (hd rows))) vals xs"
proof -
  note new = new_reader_ready [where rest = rest, OF assms(4,2,3)]
  from dependable_source.byte_calls [OF assms(1) new(2,1,4) refl, of m rec] show ?thesis
    using new(5-7) assms(5,6) by (simp add: byte_records_next_def)
qed

theorem csv_byte_records_witness:
  "\<exists>R r p. csv_reader_new reader_builder_default example_data = Some R
    \<and> next_calls (byte_records_next (slice_read :: (u8 list, unit) io_read)) 4 (R, br_new)
        = Some (Some [Some (Inr r), Some (Inl (UnequalLengths p 2 1)), None, None]) \<and> fields_of r = [[49], [50]]"
proof -
  obtain R where R: "csv_reader_new reader_builder_default example_data = Some R" by (rule default_new)
  let ?vals = "[(2, Inr [[49], [50]]), (1, Inr [[51]])] :: (nat \<times> (Utf8Error + u8 list list)) list"
  have vals: "?vals = rows_out True Inr (byte_row TrimNone) [[[97], [98]], [[49], [50]], [[51]]]"
    by (simp add: rows_out_def trim_cell_def [abs_def] should_trim_fields_def)
  have n: "length ?vals + 2 = 4" "length (hd [[[97], [98]], [[49], [50 :: u8]], [[51]]]) = 2" by simp_all
  from csv_byte_records [OF slice.dependable_source_axioms [where 'a = unit] default_config example_data_ok R example_rows [symmetric], of ?vals 2 br_new]
  obtain xs where xs: "next_calls (byte_records_next (slice_read :: (u8 list, unit) io_read)) 4 (R, br_new) = Some (Some (xs @ [None, None]))"
      "list_all2 (delivers False 2) ?vals xs"
    unfolding n replicate_few using vals by (simp only: default_builder) blast
  then show ?thesis using R by (auto simp: list_all2_Cons1 delivers_def simp del: next_calls.simps)
qed

text \<open>C4: The string record iterator: the same rows, each checked to be valid UTF-8 and then trimmed of Unicode white space if so configured; a row
  that is not valid is an error in its place that says which field and where, and reading goes on with the next row.\<close>

theorem csv_string_records:
  assumes "dependable_source rd rest" and "reader_config b" and "data_ok (rest src)" and "csv_reader_new b src = Some R"
    and "rows = all_records (rb_builder b) StartRecord (rest src)"
    and "vals = rows_out (rb_has_headers b) (str_row (rb_trim b)) (\<lambda>fs. str_row (rb_trim b) (map (trim_cell (rb_trim b)) fs)) rows"
  shows "\<exists>xs. next_calls (string_records_next rd) (length vals + m) (R, rec) = Some (Some (xs @ replicate m None))
    \<and> list_all2 (delivers (rb_flexible b) (length (hd rows))) vals xs"
proof -
  note new = new_reader_ready [where rest = rest, OF assms(4,2,3)]
  from dependable_source.string_calls [OF assms(1) new(2,1,4) refl, of m rec] show ?thesis
    using new(5-7) assms(5,6) by (simp add: string_records_next_def)
qed

theorem csv_string_records_witness:
  "\<exists>R r p. csv_reader_new reader_builder_default example_data = Some R
    \<and> next_calls (string_records_next (slice_read :: (u8 list, unit) io_read)) 3 (R, br_new)
        = Some (Some [Some (Inr r), Some (Inl (UnequalLengths p 2 1)), None]) \<and> fields_of r = [[49], [50]]"
proof -
  obtain R where R: "csv_reader_new reader_builder_default example_data = Some R" by (rule default_new)
  let ?vals = "[(2, Inr [[49], [50]]), (1, Inr [[51]])] :: (nat \<times> (Utf8Error + u8 list list)) list"
  have vals: "?vals = rows_out True (str_row TrimNone) (\<lambda>fs. str_row TrimNone (map (trim_cell TrimNone) fs)) [[[97], [98]], [[49], [50]], [[51]]]"
    by code_simp
  have n: "length ?vals + 1 = 3" "length (hd [[[97], [98]], [[49], [50 :: u8]], [[51]]]) = 2" by simp_all
  from csv_string_records [OF slice.dependable_source_axioms [where 'a = unit] default_config example_data_ok R example_rows [symmetric], of ?vals 1 br_new]
  obtain xs where xs: "next_calls (string_records_next (slice_read :: (u8 list, unit) io_read)) 3 (R, br_new) = Some (Some (xs @ [None]))"
      "list_all2 (delivers False 2) ?vals xs"
    unfolding n replicate_few using vals by (simp only: default_builder) blast
  then show ?thesis using R by (auto simp: list_all2_Cons1 delivers_def simp del: next_calls.simps)
qed

text \<open>C16: Asking for the headers first. \<^verbatim>\<open>byte_headers\<close> returns the first row of the data, trimmed if headers are to be trimmed, or no field if the data has no
  record. The calls that follow deliver what they deliver without asking, but that a first row which is not a header is delivered from the stored
  headers, and so with the trimming of headers as well as that of fields.\<close>

theorem csv_headers_first:
  assumes "dependable_source rd rest" and "reader_config b" and "data_ok (rest src)" and "csv_reader_new b src = Some R"
    and "rows = all_records (rb_builder b) StartRecord (rest src)"
    and "vals = rows_out (rb_has_headers b) (\<lambda>fs. byte_row (rb_trim b) (map (head_cell (rb_trim b)) fs)) (byte_row (rb_trim b)) rows"
  shows "\<exists>R1 hs xs. byte_headers rd R = Some (Some (R1, Inr hs)) \<and> br_ok hs
    \<and> fields_of hs = (case rows of [] \<Rightarrow> [] | d # ds \<Rightarrow> map (head_cell (rb_trim b)) d)
    \<and> next_calls (byte_records_next rd) (length vals + m) (R1, rec) = Some (Some (xs @ replicate m None))
    \<and> list_all2 (delivers (rb_flexible b) (length (hd rows))) vals xs"
proof -
  note new = new_reader_ready [where rest = rest, OF assms(4,2,3)]
  show ?thesis using dependable_source.headers_calls [OF assms(1) new(2,1,4) refl, of m rec] unfolding new(5-7) assms(5,6) .
qed

theorem csv_headers_first_witness:
  "\<exists>R R1 hs r p. csv_reader_new reader_builder_default example_data = Some R
    \<and> byte_headers (slice_read :: (u8 list, unit) io_read) R = Some (Some (R1, Inr hs)) \<and> fields_of hs = [[97], [98]]
    \<and> next_calls (byte_records_next (slice_read :: (u8 list, unit) io_read)) 3 (R1, br_new)
        = Some (Some [Some (Inr r), Some (Inl (UnequalLengths p 2 1)), None]) \<and> fields_of r = [[49], [50]]"
proof -
  obtain R where R: "csv_reader_new reader_builder_default example_data = Some R" by (rule default_new)
  let ?vals = "[(2, Inr [[49], [50]]), (1, Inr [[51]])] :: (nat \<times> (Utf8Error + u8 list list)) list"
  have vals: "?vals = rows_out True (\<lambda>fs. byte_row TrimNone (map (head_cell TrimNone) fs)) (byte_row TrimNone) [[[97], [98]], [[49], [50]], [[51]]]"
    by (simp add: rows_out_def trim_cell_def [abs_def] should_trim_fields_def)
  have n: "length ?vals + 1 = 3" "length (hd [[[97], [98]], [[49], [50 :: u8]], [[51]]]) = 2"
      "(case [[[97], [98]], [[49], [50]], [[51]]] of [] \<Rightarrow> [] | d # ds \<Rightarrow> map (head_cell TrimNone) d) = [[97], [98]]"
    by (simp_all add: head_cell_def should_trim_headers_def)
  from csv_headers_first [OF slice.dependable_source_axioms [where 'a = unit] default_config example_data_ok R example_rows [symmetric], of ?vals 1 br_new]
  obtain R1 hs xs where xs: "byte_headers (slice_read :: (u8 list, unit) io_read) R = Some (Some (R1, Inr hs))" "fields_of hs = [[97], [98]]"
      "next_calls (byte_records_next (slice_read :: (u8 list, unit) io_read)) 3 (R1, br_new) = Some (Some (xs @ [None]))" "list_all2 (delivers False 2) ?vals xs"
    unfolding n(1,2) replicate_few using vals n(3) by (simp only: default_builder) blast
  then show ?thesis using R by (auto simp: list_all2_Cons1 delivers_def simp del: next_calls.simps)
qed


section \<open>Seeking\<close>

fun after_calls :: "('v \<Rightarrow> ('v \<times> 'x) may_panic option) \<Rightarrow> nat \<Rightarrow> 'v \<Rightarrow> 'v may_panic option" where
  "after_calls nx 0 v = Some (Some v)"
| "after_calls nx (Suc k) v =
     (case nx v of
        None \<Rightarrow> None
      | Some None \<Rightarrow> Some None
      | Some (Some (v', x)) \<Rightarrow> after_calls nx k v')"

lemma after_calls_inv:
  assumes "\<And>v. I v \<Longrightarrow> \<exists>v' x. nx v = Some (Some (v', x)) \<and> I v'" and "I v"
  shows "\<exists>v'. after_calls nx k v = Some (Some v') \<and> I v'"
  using assms(2)
proof (induction k arbitrary: v)
  case (Suc k)
  obtain v' x where "nx v = Some (Some (v', x))" "I v'" using assms(1) [OF Suc.prems] by blast
  then show ?case using Suc.IH by simp
qed simp

text \<open>C6: Seeking. After any number of calls of the iterator, also past the end of the data, a reader that is sought to a byte offset delivers the records of the data from that offset
  on, as a fresh parse of that part would cut them, then nothing; no row is taken for a header any more, and the number of fields is still compared with that of the first
  record of the data. This holds as well when the reader is already there and nothing is sought.\<close>

theorem csv_seek:
  assumes "seekable_source rd rest sk (rest src)" and "reader_config b" and "data_ok (rest src)" and "csv_reader_new b src = Some R"
    and "all_records (rb_builder b) StartRecord (rest src) = h # ds"
    and "position_ok pos" and "data_ok (drop (unat (pos_byte pos)) (rest src))"
    and "rows = all_records (rb_builder b) StartRecord (drop (unat (pos_byte pos)) (rest src))"
  shows "\<exists>R1 rec1 R2 xs. after_calls (byte_records_next rd) k (R, rec) = Some (Some (R1, rec1)) \<and> seek rd sk R1 pos = Some (Some (R2, Inr ()))
    \<and> next_calls (byte_records_next rd) (length rows + m) (R2, rec1) = Some (Some (xs @ replicate m None))
    \<and> list_all2 (delivers (rb_flexible b) (length h)) (map (\<lambda>d. (length d, byte_row (rb_trim b) d)) rows) xs"
proof -
  note new = new_reader_ready [where rest = rest, OF assms(4,2,3)]
  have cfg: "cfg (cr_core R) = cfg (rb_builder b)" using new_core_at(4) [OF _ assms(2)] assms(4) by (auto elim: new_readerE)
  have pos: "rs_cur_pos (cr_state R) = position_new" using assms(4) by (auto simp: csv_reader_new_def bind_eq_Some_conv)
  have rows: "all_records (cr_core R) StartRecord bs = all_records (rb_builder b) StartRecord bs" for bs by (rule all_records_cong [OF cfg])
  have h: "all_records (cr_core R) StartRecord (rest src) = h # ds" using rows assms(5) by simp
  have "located rest (rest src) R StartRecord"
    using new(1,3) pos by (auto simp: located_def ready_def seam_def position_new_def intro!: exI [of _ 0])
  then have ro: "roaming rest (rest src) R (length h) R" using new(1-3) by (auto simp: roaming_def)
  have dep: "dependable_source rd rest" using assms(1) by (simp add: seekable_source_def)
  have step: "\<exists>v' x. byte_records_next rd v = Some (Some (v', x)) \<and> roaming rest (rest src) R (length h) (fst v')" if "roaming rest (rest src) R (length h) (fst v)" for v
  proof -
    note I = that
    obtain R' rec' res where r: "read_byte_record rd (fst v) (snd v) = Some (Some (R', rec', res))" "br_ok rec'" "roaming rest (rest src) R (length h) R'"
      using dependable_source.roaming_read [OF dep I h, of "snd v"] by blast
    show ?thesis using records_next_row [where read = "read_byte_record rd", OF r(1,2)] r(3) by (auto simp: byte_records_next_def)
  qed
  from after_calls_inv [where I = "\<lambda>v. roaming rest (rest src) R (length h) (fst v)" and nx = "byte_records_next rd" and v = "(R, rec)" and k = k, OF step] ro
  obtain R1 rec1 where a: "after_calls (byte_records_next rd) k (R, rec) = Some (Some (R1, rec1))" "roaming rest (rest src) R (length h) R1" by auto
  have "length (rest src) < 2 ^ 61" using assms(3) by (simp add: data_ok_def)
  from seekable_source.seek_calls [OF assms(1) a(2) h this assms(6,7), of rows m rec1] a(1) rows assms(8) new(6,7) show ?thesis by auto
qed

theorem csv_seek_witness:
  "\<exists>R R1 rec1 R2 r p. csv_reader_new reader_builder_default 0 = Some R
    \<and> after_calls (byte_records_next (cursor_read example_data)) 5 (R, br_new) = Some (Some (R1, rec1))
    \<and> seek (cursor_read example_data) (cursor_seek example_data) R1 \<lparr>pos_byte = 4, pos_line = 2, pos_record = 1\<rparr> = Some (Some (R2, Inr ()))
    \<and> next_calls (byte_records_next (cursor_read example_data)) 3 (R2, rec1) = Some (Some [Some (Inr r), Some (Inl (UnequalLengths p 2 1)), None])
    \<and> fields_of r = [[49], [50]]"
proof -
  let ?pos = "\<lparr>pos_byte = 4, pos_line = 2, pos_record = 1\<rparr> :: Position"
  obtain R where R: "csv_reader_new reader_builder_default (0 :: nat) = Some R" by (rule default_new)
  have d: "drop (unat (pos_byte ?pos)) (drop 0 example_data) = [49, 44, 50, 10, 51]" by (simp add: example_data_def)
  have ok: "data_ok (drop 0 example_data)" "position_ok ?pos" "data_ok (drop (unat (pos_byte ?pos)) (drop 0 example_data))"
    unfolding d using example_data_ok by (simp_all add: position_ok_def data_ok_def)
  have src: "seekable_source (cursor_read example_data) (\<lambda>p. drop p example_data) (cursor_seek example_data) (drop 0 example_data)"
    using cursor.seekable_source_axioms by simp
  have rows: "all_records (rb_builder reader_builder_default) StartRecord (drop 0 example_data) = [[97], [98]] # [[[49], [50]], [[51]]]"
      "[[[49], [50]], [[51]]] = all_records (rb_builder reader_builder_default) StartRecord (drop (unat (pos_byte ?pos)) (drop 0 example_data))"
    unfolding d using example_rows example_tail by simp_all
  have n: "length [[[49], [50]], [[51 :: u8]]] + 1 = 3" "length [[97], [98 :: u8]] = 2" by simp_all
  from csv_seek [OF src default_config ok(1) R rows(1) ok(2,3) rows(2), of 5 br_new 1, unfolded n replicate_few] R show ?thesis
    by (auto simp: list_all2_Cons1 delivers_def trim_cell_def should_trim_fields_def simp del: next_calls.simps after_calls.simps)
qed

section \<open>What the writer wrote is read back\<close>

lemma ends_from_nth: "i < length fs \<Longrightarrow> ends_from p fs ! i = p + length (concat (take (Suc i) fs))"
  by (induction fs arbitrary: p i) (auto simp: nth_Cons' take_Cons' gr0_conv_Suc)

lemma length_ends_from [simp]: "length (ends_from p fs) = length fs"
  by (induction fs arbitrary: p) auto

lemma fields_at_ends: "fields_at (concat fs) (ends_from 0 fs) = fs"
proof (rule nth_equalityI)
  fix i assume "i < length (fields_at (concat fs) (ends_from 0 fs))"
  then have i: "i < length fs" by simp
  have c: "concat fs = concat (take i fs) @ fs ! i @ concat (drop (Suc i) fs)"
    by (metis Cons_nth_drop_Suc append_take_drop_id concat.simps(2) concat_append i)
  have e: "ends_from 0 fs ! i = length (concat (take i fs)) + length (fs ! i)" using ends_from_nth [OF i, of 0] i by (simp add: take_Suc_conv_app_nth)
  have s: "(if i = 0 then 0 else ends_from 0 fs ! (i - 1)) = length (concat (take i fs))" using ends_from_nth [of "i - 1" fs 0] i by auto
  have "fields_at (concat fs) (ends_from 0 fs) ! i
      = (let s = (if i = 0 then 0 else ends_from 0 fs ! (i - 1)) in take (ends_from 0 fs ! i - s) (drop s (concat fs)))"
    using i by (simp only: fields_at_def length_ends_from nth_map_upt diff_zero add_0)
  then show "fields_at (concat fs) (ends_from 0 fs) ! i = fs ! i" unfolding s e by (simp add: c del: length_concat)
qed simp

lemma record_at_written:
  assumes "agrees r w" and "boundary r s lead" and "fs \<noteq> []" and "\<forall>f \<in> set fs. plain_ok r w f"
  shows "\<exists>u n lead'. record_at r 0 s (lead @ rec_bytes w fs @ more_data) = (u, n, Some (concat fs, ends_from 0 fs)) \<and> boundary r u lead'
    \<and> drop n (lead @ rec_bytes w fs @ more_data) = lead' @ more_data"
proof -
  obtain u lead' n where run: "record_run r 0 s (lead @ rec_bytes w fs @ more_data) (Suc (length (concat fs))) (length fs) = (u, n, concat fs, ends_from 0 fs)"
      "is_record_final u" "boundary r u lead'" "drop n (lead @ rec_bytes w fs @ more_data) = lead' @ more_data"
    using run_record [OF assms, of "Suc (length (concat fs))" "length fs" 0 more_data] by auto
  have ne: "lead @ rec_bytes w fs @ more_data \<noteq> []"
    using assms(1) by (auto simp: rec_bytes_def agrees_def terms_agree_def term_bytes_def)
  then have "0 < n" using record_run_progress [OF run(1)] assms(3) by simp
  then show ?thesis using record_at_final [OF run(1,2) _ ne, of "[]"] run(3,4) by auto
qed

lemma all_records_written:
  assumes "agrees r w" and "boundary r s lead" and "\<forall>fs \<in> set rs. fs \<noteq> [] \<and> (\<forall>f \<in> set fs. plain_ok r w f)"
  shows "all_records r s (lead @ concat (map (rec_bytes w) rs)) = rs"
  using assms(2,3)
proof (induction rs arbitrary: s lead)
  case Nil
  then consider "s = StartRecord \<or> s = EndRecord" "lead = []" | "s = NfaState.CRLF" "lead = [LF]" by (auto simp: boundary_def)
  then have "record_at r 0 s lead = (StartRecord, length lead, None)" by cases (auto simp: record_at_def)
  then show ?case by (subst all_records.simps) simp
next
  case (Cons fs rs)
  obtain u n lead' where r: "record_at r 0 s (lead @ rec_bytes w fs @ concat (map (rec_bytes w) rs)) = (u, n, Some (concat fs, ends_from 0 fs))" "boundary r u lead'"
      "drop n (lead @ rec_bytes w fs @ concat (map (rec_bytes w) rs)) = lead' @ concat (map (rec_bytes w) rs)"
    using record_at_written [OF assms(1) Cons.prems(1), of fs "concat (map (rec_bytes w) rs)"] Cons.prems(2) by (meson list.set_intros(1))
  show ?case unfolding list.map concat.simps
    by (subst all_records.simps) (use r Cons.IH [OF r(2)] Cons.prems(2) in \<open>simp add: fields_at_ends\<close>)
qed

lemma delivers_row: "delivers fl k (length fs, Inr fs) x \<Longrightarrow> fl \<or> length fs = k \<Longrightarrow> \<exists>y. x = Some (Inr y) \<and> fields_of y = fs"
  by (auto simp: delivers_def)

lemma delivers_all:
  assumes "list_all2 (delivers fl k) (map (\<lambda>fs. (length fs, Inr fs)) rs) xs" and "fl \<or> (\<forall>fs \<in> set rs. length fs = k)"
  shows "\<exists>ys. xs = map (Some \<circ> Inr) ys \<and> map fields_of ys = rs"
  using assms
proof (induction rs arbitrary: xs)
  case (Cons fs rs)
  obtain x xs' where x: "xs = x # xs'" "delivers fl k (length fs, Inr fs) x" "list_all2 (delivers fl k) (map (\<lambda>fs. (length fs, Inr fs)) rs) xs'"
    using Cons.prems(1) unfolding list.map list_all2_Cons1 by blast
  obtain y where y: "x = Some (Inr y)" "fields_of y = fs" using delivers_row [OF x(2)] Cons.prems(2) by auto
  have "fl \<or> (\<forall>fs \<in> set rs. length fs = k)" using Cons.prems(2) by auto
  from Cons.IH [OF x(3) this] obtain ys where ys: "xs' = map (Some \<circ> Inr) ys" "map fields_of ys = rs" by blast
  show ?case by (rule exI [of _ "y # ys"]) (simp add: x(1) y ys)
qed simp

lemma trim_cell_none [simp]: "map (trim_cell TrimNone) fs = fs"
  by (simp add: trim_cell_def [abs_def] should_trim_fields_def)

text \<open>C3: What the writer wrote, the reader reads back. Take any records of at least one field, all of the same length or read by a flexible reader, and a writer
  that quotes where necessary or always; from the bytes of the records, in whatever pieces the source hands them out, a reader with the same
  delimiter, quote and terminator returns exactly the records (all but the header row, if it has one), then nothing.\<close>

theorem csv_file_roundtrip:
  assumes "dependable_source rd rest" and "reader_config b" and "csv_reader_new b src = Some R"
    and "wbuild wb = Some w" and "w_requires_quotes wb = replicate 256 False" and "w_style w \<in> {Necessary, Always}" and "agrees (rb_builder b) w"
    and "rest src = concat (map (rec_bytes w) rs)" and "data_ok (rest src)" and "[] \<notin> set rs"
    and "rb_trim b = TrimNone" and "rb_flexible b \<or> (\<forall>fs \<in> set rs. length fs = length (hd rs))"
    and "out = (if rb_has_headers b then tl rs else rs)"
  shows "\<exists>ys. next_calls (byte_records_next rd) (length out + m) (R, rec) = Some (Some (map (Some \<circ> Inr) ys @ replicate m None))
    \<and> map fields_of ys = out"
proof -
  have "all_records (rb_builder b) StartRecord ([] @ concat (map (rec_bytes w) rs)) = rs"
    using assms(10) built_writer_plain_ok [OF assms(4-7)] by (intro all_records_written [OF assms(7)]) (auto simp: boundary_def)
  then have rows: "all_records (rb_builder b) StartRecord (rest src) = rs" using assms(8) by simp
  note new = new_reader_ready [where rest = rest, OF assms(3,2,9)]
  have vals: "rows_out (rb_has_headers b) Inr (byte_row (rb_trim b)) rs = map (\<lambda>fs. (length fs, Inr fs)) out"
    using assms(11,13) by (simp add: rows_out_def split: list.split)
  from dependable_source.byte_calls [OF assms(1) new(2,1,4) refl, of m rec] obtain xs where
      xs: "next_calls (byte_records_next rd) (length out + m) (R, rec) = Some (Some (xs @ replicate m None))"
        "list_all2 (delivers (rb_flexible b) (length (hd rs))) (map (\<lambda>fs. (length fs, Inr fs)) out) xs"
    unfolding rows new(5-7) vals by (auto simp: byte_records_next_def)
  have "rb_flexible b \<or> (\<forall>fs \<in> set out. length fs = length (hd rs))" using assms(12,13) by (cases rs) (auto split: if_splits)
  from delivers_all [OF xs(2) this] xs(1) show ?thesis by auto
qed

theorem csv_file_roundtrip_witness:
  "\<exists>R y. csv_reader_new reader_builder_default (concat (map (rec_bytes default_writer) [[[97], [98]], [[44, 10], []]])) = Some R
    \<and> next_calls (byte_records_next (slice_read :: (u8 list, unit) io_read)) 2 (R, br_new) = Some (Some [Some (Inr y), None])
    \<and> fields_of y = [[44, 10], []]"
proof -
  let ?rs = "[[[97], [98]], [[44, 10], []]] :: u8 list list list"
  obtain R where R: "csv_reader_new reader_builder_default (concat (map (rec_bytes default_writer) ?rs)) = Some R" by (rule default_new)
  have w: "w_requires_quotes wbuilder_new = replicate 256 False" "w_style default_writer \<in> {Necessary, Always}"
    by (simp_all add: wbuilder_new_def default_writer_def wbuild_def)
  have a: "agrees (rb_builder reader_builder_default) default_writer" using default_agrees by (simp add: reader_builder_default_def)
  have d: "concat (map (rec_bytes default_writer) ?rs) = [97, 44, 98, 10, 34, 44, 10, 34, 44, 10]" by code_simp
  have ok: "data_ok (id (concat (map (rec_bytes default_writer) ?rs)))" unfolding d by (simp add: data_ok_def)
  from csv_file_roundtrip [OF slice.dependable_source_axioms [where 'a = unit] default_config R default_writer_build w a _ ok, of ?rs "[[[44, 10], []]]" 1 br_new]
  show ?thesis using R by (auto simp: replicate_few numeral_2_eq_2 simp del: next_calls.simps)
qed


section \<open>Every source\<close>

text \<open>A call of \<^verbatim>\<open>read_record\<close> on a record that is used again: the record afterwards and the result.\<close>

definition read_call :: "('r, 'e) io_read \<Rightarrow> 'r CsvReader \<times> StringRecord \<Rightarrow> (('r CsvReader \<times> StringRecord) \<times> StringRecord \<times> ('e ErrorKind + bool)) may_panic option" where
  "read_call rd = (\<lambda>(R, rec). map_option (map_option (\<lambda>(R', rec', res). ((R', rec'), (rec', res)))) (reader_read_record rd R rec))"

text \<open>C5: String records are valid UTF-8. Whatever the source does, errors included, and whatever record is passed in, every call of \<^verbatim>\<open>read_record\<close> returns
  without a panic and leaves a well-formed record whose fields are valid UTF-8, as the unchecked conversions of \<^verbatim>\<open>StringRecord\<close> need it,
  also when it returns an error.\<close>

theorem csv_strings_valid:
  assumes "byte_source rd rest" and "reader_config b" and "data_ok (rest src)" and "csv_reader_new b src = Some R"
  shows "\<exists>xs. next_calls (read_call rd) k (R, rec) = Some (Some xs) \<and> length xs = k \<and> list_all (\<lambda>(r, res). valid_fields r) xs"
proof -
  note new = new_reader_ready [where rest = rest, OF assms(4,2,3)]
  have "\<exists>v' x. read_call rd v = Some (Some (v', x)) \<and> reading_ok rest (fst v') \<and> (case x of (r, res) \<Rightarrow> valid_fields r)" if "reading_ok rest (fst v)" for v
    using byte_source.reader_read_record_safe [OF assms(1), of "fst v" "snd v"] that
    by (cases v) (auto simp: read_call_def safe_read_def)
  from next_calls_inv [where I = "\<lambda>v. reading_ok rest (fst v)" and nx = "read_call rd" and P = "\<lambda>(r, res). valid_fields r" and v = "(R, rec)" and k = k, OF this] new(1,2) show ?thesis
    by (auto simp: reading_ok_def fresh_def)
qed

theorem csv_strings_valid_witness:
  "\<exists>R xs. csv_reader_new reader_builder_default [Inr [97, 10, 255], Inl (), Inr [10]] = Some R
    \<and> next_calls (read_call (pieces_read :: ((unit + u8 list) list, unit) io_read)) 3 (R, br_new) = Some (Some xs) \<and> list_all (\<lambda>(r, res). valid_fields r) xs"
proof -
  obtain R where R: "csv_reader_new reader_builder_default [Inr [97, 10, 255], Inl (), Inr [10 :: u8]] = Some R" by (rule default_new)
  have "data_ok (pieces_rest [Inr [97, 10, 255], Inl (), Inr [10]])" by (simp add: data_ok_def)
  from csv_strings_valid [OF pieces.byte_source_axioms default_config this R, of 3 br_new] R show ?thesis by blast
qed


text \<open>C17: An error of the source is reported once. Whatever the source does, the calls of the iterator return without a panic, and after a
  call that reported an I/O error every later call returns \<open>None\<close>.\<close>

theorem csv_io_error_ends:
  assumes "byte_source rd rest" and "reader_config b" and "data_ok (rest src)" and "csv_reader_new b src = Some R"
  shows "\<exists>xs. next_calls (byte_records_next rd) k (R, rec) = Some (Some xs) \<and> length xs = k
    \<and> (\<forall>i j e. i < j \<longrightarrow> j < k \<longrightarrow> xs ! i = Some (Inl (Io e)) \<longrightarrow> xs ! j = None)"
proof -
  note new = new_reader_ready [where rest = rest, OF assms(4,2,3)]
  have "\<exists>v' x. byte_records_next rd v = Some (Some (v', x)) \<and> reading_ok rest (fst v') \<and> (is_done (fst v) \<longrightarrow> is_done (fst v') \<and> x = None)
      \<and> ((\<exists>e. x = Some (Inl (Io e))) \<longrightarrow> is_done (fst v'))" if "reading_ok rest (fst v)" for v
  proof -
    note I = that
    obtain R rec where v: "v = (R, rec)" by force
    obtain R' rec' res where r: "read_byte_record rd R rec = Some (Some (R', rec', res))" "safe_read rest R (R', rec', res)"
      using byte_source.read_byte_record_safe [OF assms(1), of R rec] I v by auto
    then have "br_ok rec'" by (simp add: safe_read_def small_def)
    from records_next_row [where read = "read_byte_record rd", OF r(1) this] r(2) show ?thesis
      by (cases res) (auto simp: v byte_records_next_def safe_read_def split: bool.splits)
  qed
  from next_calls_stop [of "\<lambda>v. reading_ok rest (fst v)", OF this, of "(R, rec)" k] new(1,2) show ?thesis
    by (fastforce simp: reading_ok_def fresh_def)
qed

theorem csv_io_error_ends_witness:
  "\<exists>R xs. csv_reader_new reader_builder_default [Inl (), Inr example_data] = Some R
    \<and> next_calls (byte_records_next (pieces_read :: ((unit + u8 list) list, unit) io_read)) 2 (R, br_new) = Some (Some xs)
    \<and> xs ! 0 = Some (Inl (Io ())) \<and> xs ! 1 = None"
proof -
  obtain R where R: "csv_reader_new reader_builder_default [Inl (), Inr example_data] = Some R" by (rule default_new)
  have "data_ok (pieces_rest [Inl (), Inr example_data])" using example_data_ok by simp
  from csv_io_error_ends [OF pieces.byte_source_axioms default_config this R, of 2 br_new] obtain xs where
      xs: "next_calls (byte_records_next (pieces_read :: ((unit + u8 list) list, unit) io_read)) 2 (R, br_new) = Some (Some xs)"
        "\<forall>i j e. i < j \<longrightarrow> j < 2 \<longrightarrow> xs ! i = Some (Inl (Io e)) \<longrightarrow> xs ! j = None" by blast
  have "\<exists>v. byte_records_next (pieces_read :: ((unit + u8 list) list, unit) io_read) (R, br_new) = Some (Some (v, Some (Inl (Io ()))))"
    using R by (auto simp: csv_reader_new_def bind_eq_Some_conv byte_records_next_def records_next_def read_byte_record_def read_byte_record_impl_def
        read_loop.simps read_turn_def fill_buf_def)
  then have "xs ! 0 = Some (Inl (Io ()))" using xs(1) by (auto simp: numeral_2_eq_2)
  then show ?thesis using R xs by auto
qed


section \<open>Departures\<close>

text \<open>
  A byte order mark that fills the first buffer loses all the data. The core reader strips the mark, finds the input empty and takes that for
  the end of the data; the buffered reader believes it and never reads again, whatever the source still has.
\<close>

lemma bom_chunk_ends_reading:
  assumes "csv_reader_new b src = Some R" and "reader_config b" and "3 \<le> rb_capacity b" and "rd src (rb_capacity b) = (src', Inr [239, 187, 191])"
  shows "\<exists>R' rec'. read_byte_record_impl rd R rec = Some (Some (R', rec', Inr False)) \<and> is_done R' \<and> bu_inner (cr_rdr R') = src'"
proof -
  obtain q where q: "build (rb_builder b) = Some q"
      and R: "R = \<lparr>cr_core = q, cr_rdr = \<lparr>bu_inner = src, bu_unread = [], bu_capacity = rb_capacity b\<rparr>, cr_state = new_state_of b\<rparr>"
    using assms(1) by (rule new_readerE)
  note c = new_core_at [OF q assms(2)]
  have bom: "\<exists>r'. read_record q [239, 187, 191] out ends = Some (r', out, ends, ReadRecordResult.End, 3, 0, 0) \<and> r_line r' = r_line q" for out ends
  proof -
    obtain r' where r': "read_record q [] out ends = Some (r', out, ends, ReadRecordResult.End, 0, 0, 0)" "r_line r' = r_line q"
      using read_record_eof [OF c(1), of out ends] by auto
    then show ?thesis using c(3) by (auto simp: read_record_def strip_utf8_bom_def Let_def bind_eq_Some_conv split: if_splits)
  qed
  let ?rec = "br_set_position (br_clear rec) (Some position_new)"
  obtain r' where r': "read_record q [239, 187, 191] (br_fields ?rec) (b_ends (br_bounds ?rec)) = Some (r', br_fields ?rec, b_ends (br_bounds ?rec), ReadRecordResult.End, 3, 0, 0)"
      "r_line r' = r_line q" using bom by blast
  have fill: "fill_buf rd (cr_rdr R) = Some ((cr_rdr R)\<lparr>bu_inner := src', bu_unread := [239, 187, 191]\<rparr>, Inr [239, 187, 191])"
    using assms(3,4) by (simp add: R fill_buf_def rust_assert_def)
  have "\<exists>R' rec'. read_turn rd (R, ?rec, 0, 0) = Some (Inl (R', rec', Inr False)) \<and> is_done R' \<and> bu_inner (cr_rdr R') = src'"
    using r' c(2) fill set_line_ok [of "r_line r'"] by (simp add: read_turn_def read_step_def slice_def Let_def R is_done_def consume_def)
  then show ?thesis by (auto simp: read_byte_record_impl_def Let_def R new_state_of_def read_loop.simps)
qed

text \<open>
  The position of a UTF-8 error is taken before the record is read. With a header row that has not been read yet, the error of the first data record carries the position of the
  header row.
\<close>

lemma utf8_error_at_header:
  fixes rd :: "('r, 'e) io_read"
  assumes "dependable_source rd rest" and "reader_config b" and "data_ok (rest src)" and "csv_reader_new b src = Some R" and "rb_has_headers b"
    and "all_records (rb_builder b) StartRecord (rest src) = h # d # ds" and "length d = length h" and "validate_fields 0 (map (trim_cell (rb_trim b)) d) = Some err"
  shows "\<exists>R' rec'. reader_read_record rd R rec = Some (Some (R', rec', Inl (EK_Utf8 (Some position_new) err)))"
proof -
  note new = new_reader_ready [where rest = rest, OF assms(4,2,3)]
  have hh: "rs_has_headers (cr_state R)" using new(5) assms(5) by simp
  have pos: "rs_cur_pos (cr_state R) = position_new" using assms(4) by (auto simp: csv_reader_new_def bind_eq_Some_conv)
  obtain R' rec' res where X: "read_byte_record rd R rec = Some (Some (R', rec', res))" "headers_read rest (byte_row (rb_trim b)) R StartRecord (R', rec', res)"
    using dependable_source.headers_byte_row [OF assms(1) new(2,1) hh, of rec] new(7) by auto
  obtain t n w es where at: "record_at (cr_core R) 0 StartRecord (stream_of rest R) = (t, n, Some (w, es))" "fields_at w es = h"
      "all_records (cr_core R) t (drop n (stream_of rest R)) = d # ds"
    using new(4) [of StartRecord] assms(6) by (auto elim: all_records_ConsE)
  obtain R1 where R1: "past_row rest R R1 t n (length es)" "length es < 2 ^ 62" "same_config R R1" "row_read rest (byte_row (rb_trim b)) R1 t (R', rec', res)"
    using X(2) at(1) by (auto simp: headers_read_def)
  have "all_records (cr_core R1) t (stream_of rest R1) = d # ds" using R1(1) at(3) all_records_cong [of "cr_core R1" "cr_core R"] by (simp add: past_row_def)
  then obtain u n2 w2 es2 where at2: "record_at (cr_core R1) 0 t (stream_of rest R1) = (u, n2, Some (w2, es2))" "fields_at w2 es2 = d"
    by (auto elim: all_records_ConsE)
  have l: "length es2 = length es" using at(2) at2(2) assms(7) by auto
  have res: "res = Inr True" "fields_of rec' = map (trim_cell (rb_trim b)) d" "small rec'"
    using R1(4) at2 l count_error_counting [OF disjI1 [OF counting_first [OF R1(1,3) new(2) R1(2)]] R1(2), where 'e = 'e] by (auto simp: row_read_def)
  then have "br_validate rec' = Some (Inl err)" using br_validate_ok [of rec'] assms(8) by (simp add: small_def)
  moreover obtain rec2 where "(if should_trim_fields (rs_trim (cr_state R')) then sr_trim (br_clear rec') else Some (br_clear rec')) = Some rec2"
    using sr_trim_small [OF small_clear] by blast
  ultimately show ?thesis using X(1) res(1) pos by (simp add: reader_read_record_def sr_read_def Let_def)
qed

end
