(* ===== verification/Tls_Codec.thy ===== *)
theory Tls_Codec
  imports Prelude
begin

text \<open>
  The wire codec of \<^verbatim>\<open>rustls-0.21.2/rustls/src/msgs/codec.rs\<close> and the payload types of \<^verbatim>\<open>base.rs\<close>: a cursor over
  a byte slice, big-endian integers and length-prefixed vectors. An encoder appends to a byte vector;
  a decoder advances the cursor and returns a value or an error. The locale \<open>codec\<close> states what the
  trait \<^verbatim>\<open>Codec\<close> promises, and every implementation is an interpretation of it.
\<close>

section \<open>Errors\<close>

datatype KeyExchangeAlgorithm = BulkOnly | DH | DHE | RSA | ECDH | ECDHE

datatype InvalidMessage =
    HandshakePayloadTooLarge | InvalidCcs | InvalidContentType | InvalidCertificateStatusType | InvalidCertRequest
  | InvalidDhParams | InvalidEmptyPayload | InvalidKeyUpdate | InvalidServerName | MessageTooLarge | MessageTooShort
  | MissingData string | MissingKeyExchange | NoSignatureSchemes | TrailingData string | UnexpectedMessage string
  | UnknownProtocolVersion | UnsupportedCompression | UnsupportedCurveType | UnsupportedKeyExchangeAlgorithm KeyExchangeAlgorithm

section \<open>Big-endian bytes\<close>

fun be_digits :: "nat \<Rightarrow> nat \<Rightarrow> u8 list" where
  "be_digits 0 n = []"
| "be_digits (Suc k) n = be_digits k (n div 256) @ [word_of_nat (n mod 256)]"

definition be_nat :: "u8 list \<Rightarrow> nat" where
  "be_nat bs = foldl (\<lambda>acc b. 256 * acc + unat b) 0 bs"

lemma length_be_digits [simp]: "length (be_digits k n) = k"
  by (induction k arbitrary: n) auto

lemma be_nat_snoc: "be_nat (bs @ [b]) = 256 * be_nat bs + unat b"
  by (simp add: be_nat_def)

lemma unat_byte_mod: "unat (word_of_nat (n mod 256) :: u8) = n mod 256"
  by (simp add: unat_of_nat)

lemma be_nat_digits: "be_nat (be_digits k n) = n mod 256 ^ k"
proof (induction k arbitrary: n)
  case 0
  then show ?case by (simp add: be_nat_def)
next
  case (Suc k)
  have "256 * (n div 256 mod 256 ^ k) + n mod 256 = n mod 256 ^ Suc k"
    using mod_mult2_eq [of n 256 "256 ^ k"] by simp
  then show ?case using Suc [of "n div 256"] by (simp only: be_digits.simps be_nat_snoc unat_byte_mod)
qed

lemma be_nat_less: "be_nat bs < 256 ^ length bs"
proof (induction bs rule: rev_induct)
  case Nil
  then show ?case by (simp add: be_nat_def)
next
  case (snoc b bs)
  then have "256 * be_nat bs + 256 \<le> 256 * 256 ^ length bs" by simp
  with unat_u8_less [of b] show ?case unfolding be_nat_snoc by (simp only: length_append_singleton power_Suc)
qed

lemma be_digits_nat: "be_digits (length bs) (be_nat bs) = bs"
proof (induction bs rule: rev_induct)
  case Nil
  then show ?case by simp
next
  case (snoc b bs)
  have "(256 * be_nat bs + unat b) div 256 = be_nat bs" "(256 * be_nat bs + unat b) mod 256 = unat b"
    using unat_u8_less [of b] by simp_all
  then show ?case using snoc by (simp add: be_nat_snoc)
qed

section \<open>The reader\<close>

text \<open>\<^verbatim>\<open>cursor\<close> is private and every operation keeps it within the buffer (\<open>rd_ok\<close>), so \<^verbatim>\<open>left\<close> never underflows.\<close>

record TlsReader =
  rd_buffer :: "u8 list"
  rd_cursor :: nat

type_synonym 'a reads = "TlsReader \<Rightarrow> (InvalidMessage + 'a) \<times> TlsReader"

definition rd_init :: "u8 list \<Rightarrow> TlsReader" where
  "rd_init bytes = \<lparr>rd_buffer = bytes, rd_cursor = 0\<rparr>"

definition rd_left :: "TlsReader \<Rightarrow> nat" where
  "rd_left r = length (rd_buffer r) - rd_cursor r"

definition rd_used :: "TlsReader \<Rightarrow> nat" where
  "rd_used r = rd_cursor r"

definition any_left :: "TlsReader \<Rightarrow> bool" where
  "any_left r \<longleftrightarrow> rd_cursor r < length (rd_buffer r)"

definition rd_take :: "TlsReader \<Rightarrow> nat \<Rightarrow> u8 list option \<times> TlsReader" where
  "rd_take r n =
     (if rd_left r < n then (None, r)
      else (Some (take n (drop (rd_cursor r) (rd_buffer r))), r\<lparr>rd_cursor := rd_cursor r + n\<rparr>))"

definition rd_rest :: "TlsReader \<Rightarrow> u8 list \<times> TlsReader" where
  "rd_rest r = (drop (rd_cursor r) (rd_buffer r), r\<lparr>rd_cursor := length (rd_buffer r)\<rparr>)"

definition rd_sub :: "nat \<Rightarrow> TlsReader reads" where
  "rd_sub n r = (case rd_take r n of (Some bs, r) \<Rightarrow> (Inr (rd_init bs), r) | (None, r) \<Rightarrow> (Inl MessageTooShort, r))"

definition expect_empty :: "string \<Rightarrow> TlsReader \<Rightarrow> InvalidMessage + unit" where
  "expect_empty name r = (if any_left r then Inl (TrailingData name) else Inr ())"

text \<open>The operator \<^verbatim>\<open>?\<close> on decoders.\<close>

definition rd_bind :: "'a reads \<Rightarrow> ('a \<Rightarrow> 'b reads) \<Rightarrow> 'b reads" where
  "rd_bind m k r = (case m r of (Inl e, r) \<Rightarrow> (Inl e, r) | (Inr x, r) \<Rightarrow> k x r)"

definition rd_ok :: "TlsReader \<Rightarrow> bool" where
  "rd_ok r \<longleftrightarrow> rd_cursor r \<le> length (rd_buffer r)"

definition rd_todo :: "TlsReader \<Rightarrow> u8 list" where
  "rd_todo r = drop (rd_cursor r) (rd_buffer r)"

definition rd_advance :: "TlsReader \<Rightarrow> nat \<Rightarrow> TlsReader" where
  "rd_advance r n = r\<lparr>rd_cursor := rd_cursor r + n\<rparr>"

lemma rd_take_eq: "rd_ok r \<Longrightarrow> rd_take r n = (if n \<le> length (rd_todo r) then (Some (take n (rd_todo r)), rd_advance r n) else (None, r))"
  by (auto simp: rd_take_def rd_left_def rd_todo_def rd_advance_def)

lemma rd_todo_init [simp]: "rd_todo (rd_init bs) = bs" "rd_ok (rd_init bs)"
  by (simp_all add: rd_todo_def rd_init_def rd_ok_def)

lemma rd_todo_advance [simp]: "rd_todo (rd_advance r n) = drop n (rd_todo r)"
  by (simp add: rd_todo_def rd_advance_def add.commute)

lemma rd_ok_advance: "rd_ok r \<Longrightarrow> n \<le> length (rd_todo r) \<Longrightarrow> rd_ok (rd_advance r n)"
  by (simp add: rd_ok_def rd_advance_def rd_todo_def)

lemma rd_advance_advance [simp]: "rd_advance (rd_advance r m) n = rd_advance r (m + n)" "rd_advance r 0 = r"
  by (simp_all add: rd_advance_def add.assoc)

lemma any_left_todo: "rd_ok r \<Longrightarrow> any_left r \<longleftrightarrow> rd_todo r \<noteq> []"
  by (auto simp: any_left_def rd_todo_def rd_ok_def)

section \<open>Integers\<close>

definition enc_u8 :: "u8 \<Rightarrow> u8 list \<Rightarrow> u8 list" where
  "enc_u8 v bytes = bytes @ [v]"

definition read_u8 :: "u8 reads" where
  "read_u8 r = (case rd_take r 1 of (Some [b], r) \<Rightarrow> (Inr b, r) | (_, r) \<Rightarrow> (Inl (MissingData ''u8''), r))"

definition to_be_bytes :: "nat \<Rightarrow> 'a::len word \<Rightarrow> u8 list" where
  "to_be_bytes k v = be_digits k (unat v)"

definition from_be_bytes :: "u8 list \<Rightarrow> 'a::len word" where
  "from_be_bytes bs = word_of_nat (be_nat bs)"

text \<open>\<^verbatim>\<open>put_u16\<close> and \<^verbatim>\<open>put_u64\<close> fill the start of a slice, which must be long enough.\<close>

definition put_u16 :: "u16 \<Rightarrow> u8 list \<Rightarrow> u8 list may_panic" where
  "put_u16 v out = do { _ \<leftarrow> slice out 0 2; Some (overwrite out 0 (to_be_bytes 2 v)) }"

definition put_u64 :: "u64 \<Rightarrow> u8 list \<Rightarrow> u8 list may_panic" where
  "put_u64 v out = do { _ \<leftarrow> slice out 0 8; Some (overwrite out 0 (to_be_bytes 8 v)) }"

definition enc_u16 :: "u16 \<Rightarrow> u8 list \<Rightarrow> u8 list" where
  "enc_u16 v bytes = (case put_u16 v [0, 0] of Some b16 \<Rightarrow> bytes @ b16 | None \<Rightarrow> bytes)"

definition read_u16 :: "u16 reads" where
  "read_u16 r = (case rd_take r 2 of (Some [b1, b2], r) \<Rightarrow> (Inr (from_be_bytes [b1, b2]), r) | (_, r) \<Rightarrow> (Inl (MissingData ''u8''), r))"

datatype u24 = U24 (u24_val: u32)

definition u24_usize :: "u24 \<Rightarrow> nat" where
  "u24_usize v = unat (u24_val v)"

definition enc_u24 :: "u24 \<Rightarrow> u8 list \<Rightarrow> u8 list" where
  "enc_u24 v bytes = bytes @ drop 1 (to_be_bytes 4 (u24_val v))"

definition read_u24 :: "u24 reads" where
  "read_u24 r = (case rd_take r 3 of (Some [a, b, c], r) \<Rightarrow> (Inr (U24 (from_be_bytes [0, a, b, c])), r) | (_, r) \<Rightarrow> (Inl (MissingData ''u24''), r))"

definition enc_u32 :: "u32 \<Rightarrow> u8 list \<Rightarrow> u8 list" where
  "enc_u32 v bytes = bytes @ to_be_bytes 4 v"

definition read_u32 :: "u32 reads" where
  "read_u32 r = (case rd_take r 4 of (Some [a, b, c, d], r) \<Rightarrow> (Inr (from_be_bytes [a, b, c, d]), r) | (_, r) \<Rightarrow> (Inl (MissingData ''u32''), r))"

definition enc_u64 :: "u64 \<Rightarrow> u8 list \<Rightarrow> u8 list" where
  "enc_u64 v bytes = (case put_u64 v [0, 0, 0, 0, 0, 0, 0, 0] of Some b64 \<Rightarrow> bytes @ b64 | None \<Rightarrow> bytes)"

definition read_u64 :: "u64 reads" where
  "read_u64 r = (case rd_take r 8 of
      (Some [a, b, c, d, e, f, g, h], r) \<Rightarrow> (Inr (from_be_bytes [a, b, c, d, e, f, g, h]), r)
    | (_, r) \<Rightarrow> (Inl (MissingData ''u64''), r))"

section \<open>Payloads\<close>

definition enc_payload :: "u8 list \<Rightarrow> u8 list \<Rightarrow> u8 list" where
  "enc_payload p bytes = bytes @ p"

definition read_payload :: "u8 list reads" where
  "read_payload r = (case rd_rest r of (bs, r) \<Rightarrow> (Inr bs, r))"

definition read_body :: "nat \<Rightarrow> u8 list reads" where
  "read_body n = rd_bind (rd_sub n) (\<lambda>sub r. (Inr (fst (rd_rest sub)), r))"

definition enc_payload_u8 :: "u8 list \<Rightarrow> u8 list \<Rightarrow> u8 list" where
  "enc_payload_u8 p bytes = enc_u8 (word_of_nat (length p)) bytes @ p"

definition read_payload_u8 :: "u8 list reads" where
  "read_payload_u8 = rd_bind read_u8 (\<lambda>len. read_body (unat len))"

definition enc_payload_u16 :: "u8 list \<Rightarrow> u8 list \<Rightarrow> u8 list" where
  "enc_payload_u16 p bytes = enc_u16 (word_of_nat (length p)) bytes @ p"

definition read_payload_u16 :: "u8 list reads" where
  "read_payload_u16 = rd_bind read_u16 (\<lambda>len. read_body (unat len))"

definition enc_payload_u24 :: "u8 list \<Rightarrow> u8 list \<Rightarrow> u8 list" where
  "enc_payload_u24 p bytes = enc_u24 (U24 (word_of_nat (length p))) bytes @ p"

definition read_payload_u24 :: "u8 list reads" where
  "read_payload_u24 = rd_bind read_u24 (\<lambda>len. read_body (u24_usize len))"

section \<open>Vectors\<close>

datatype ListLength = LenU8 | LenU16 | LenU24 nat

definition prefix_bytes :: "ListLength \<Rightarrow> nat" where
  "prefix_bytes sz = (case sz of LenU8 \<Rightarrow> 1 | LenU16 \<Rightarrow> 2 | LenU24 _ \<Rightarrow> 3)"

fun enc_elems :: "('a \<Rightarrow> u8 list \<Rightarrow> u8 list) \<Rightarrow> 'a list \<Rightarrow> u8 list \<Rightarrow> u8 list" where
  "enc_elems enc [] bytes = bytes"
| "enc_elems enc (x # xs) bytes = enc_elems enc xs (enc x bytes)"

text \<open>The length is patched in after the elements are written; its cast truncates (the \<^verbatim>\<open>debug_assert\<close> that it
  fits is absent from release builds).\<close>

definition enc_vec :: "ListLength \<Rightarrow> ('a \<Rightarrow> u8 list \<Rightarrow> u8 list) \<Rightarrow> 'a list \<Rightarrow> u8 list \<Rightarrow> u8 list" where
  "enc_vec sz enc xs bytes =
     (let len_offset = length bytes;
          bytes = enc_elems enc xs (bytes @ (case sz of LenU8 \<Rightarrow> [0] | LenU16 \<Rightarrow> [0, 0] | LenU24 _ \<Rightarrow> [0, 0, 0]))
      in case sz of
           LenU8 \<Rightarrow> bytes[len_offset := word_of_nat (length bytes - len_offset - 1)]
         | LenU16 \<Rightarrow> overwrite bytes len_offset (to_be_bytes 2 (word_of_nat (length bytes - len_offset - 2) :: u16))
         | LenU24 _ \<Rightarrow> overwrite bytes len_offset (drop 1 (to_be_bytes 4 (word_of_nat (length bytes - len_offset - 3) :: u32))))"

text \<open>The loop reads elements until the sub-reader is empty; an element decoder that consumes nothing would
  make it run forever, which is the value \<^const>\<open>None\<close>.\<close>

partial_function (option) read_elems :: "'a reads \<Rightarrow> TlsReader \<Rightarrow> 'a list \<Rightarrow> (InvalidMessage + 'a list) option" where
  "read_elems rd sub ret =
     (if any_left sub then
        (case rd sub of
           (Inl e, sub) \<Rightarrow> Some (Inl e)
         | (Inr x, sub) \<Rightarrow> read_elems rd sub (ret @ [x]))
      else Some (Inr ret))"

declare read_elems.simps [code]

definition read_len :: "ListLength \<Rightarrow> nat reads" where
  "read_len sz =
     (case sz of
        LenU8 \<Rightarrow> rd_bind read_u8 (\<lambda>n r. (Inr (unat n), r))
      | LenU16 \<Rightarrow> rd_bind read_u16 (\<lambda>n r. (Inr (unat n), r))
      | LenU24 mx \<Rightarrow> rd_bind read_u24 (\<lambda>n r. (Inr (min (u24_usize n) mx), r)))"

definition read_vec :: "ListLength \<Rightarrow> 'a reads \<Rightarrow> TlsReader \<Rightarrow> ((InvalidMessage + 'a list) \<times> TlsReader) option" where
  "read_vec sz rd r =
     (case rd_bind (read_len sz) rd_sub r of
        (Inl e, r) \<Rightarrow> Some (Inl e, r)
      | (Inr sub, r) \<Rightarrow> (case read_elems rd sub [] of None \<Rightarrow> None | Some res \<Rightarrow> Some (res, r)))"

end
