(* ===== verification/Tls_Codec_Correct.thy ===== *)
theory Tls_Codec_Correct
  imports Tls_Codec
begin

text \<open>
  What the codecs promise: encoding appends, decoding an encoding gives the value back and stops right
  behind it, and a list element always consumes input, so that decoding a vector ends.
\<close>

section \<open>The contract of the trait\<close>

locale codec =
  fixes enc :: "'a \<Rightarrow> u8 list \<Rightarrow> u8 list"
    and rd :: "'a reads"
    and ok :: "'a \<Rightarrow> bool"
  assumes enc_append: "enc x bytes = bytes @ enc x []"
    and read_enc: "rd_ok r \<Longrightarrow> ok x \<Longrightarrow> rd_todo r = enc x [] @ rest \<Longrightarrow> rd r = (Inr x, rd_advance r (length (enc x [])))"

locale list_codec = codec +
  assumes progress: "rd_ok r \<Longrightarrow> rd r = (Inr x, r') \<Longrightarrow> \<exists>n > 0. n \<le> length (rd_todo r) \<and> r' = rd_advance r n"
begin

lemma enc_nonempty:
  assumes "ok x"
  shows "enc x [] \<noteq> []"
proof
  assume empty: "enc x [] = []"
  have "rd (rd_init []) = (Inr x, rd_advance (rd_init []) 0)" using read_enc [of "rd_init []" x "[]"] assms empty by simp
  then show False using progress [of "rd_init []"] by fastforce
qed

lemma enc_elems_append: "enc_elems enc xs bytes = bytes @ concat (map (\<lambda>x. enc x []) xs)"
proof (induction xs arbitrary: bytes)
  case (Cons x xs)
  then show ?case by (simp add: enc_append [of x bytes])
qed simp

lemma read_elems_returns:
  assumes "rd_ok sub"
  shows "\<exists>res. read_elems rd sub acc = Some res"
  using assms
proof (induction "length (rd_todo sub)" arbitrary: sub acc rule: less_induct)
  case less
  show ?case
  proof (cases "any_left sub")
    case False
    then show ?thesis by (simp add: read_elems.simps)
  next
    case True
    obtain res sub' where step: "rd sub = (res, sub')" by force
    show ?thesis
    proof (cases res)
      case (Inl e)
      then show ?thesis using True step by (subst read_elems.simps) simp
    next
      case (Inr x)
      then obtain n where n: "0 < n" "n \<le> length (rd_todo sub)" "sub' = rd_advance sub n"
        using progress [OF less.prems] step by blast
      then have "length (rd_todo sub') < length (rd_todo sub)" "rd_ok sub'" using rd_ok_advance [OF less.prems] by simp_all
      then show ?thesis using less.hyps [of sub'] True step Inr by (subst read_elems.simps) simp
    qed
  qed
qed

lemma read_elems_enc:
  assumes "rd_ok sub" and "list_all ok xs" and "rd_todo sub = concat (map (\<lambda>x. enc x []) xs)"
  shows "read_elems rd sub acc = Some (Inr (acc @ xs))"
  using assms
proof (induction xs arbitrary: sub acc)
  case Nil
  then show ?case by (simp add: read_elems.simps any_left_todo)
next
  case (Cons x xs)
  have "enc x [] \<noteq> []" using enc_nonempty Cons.prems(2) by simp
  then have left: "any_left sub" using Cons.prems(1,3) by (simp add: any_left_todo)
  have step: "rd sub = (Inr x, rd_advance sub (length (enc x [])))"
    using read_enc [OF Cons.prems(1), of x] Cons.prems(2,3) by simp
  have ok: "rd_ok (rd_advance sub (length (enc x [])))" using Cons.prems(1,3) by (intro rd_ok_advance) simp_all
  have "read_elems rd (rd_advance sub (length (enc x []))) (acc @ [x]) = Some (Inr ((acc @ [x]) @ xs))"
    using Cons.prems(2,3) by (intro Cons.IH ok) simp_all
  then show ?case using left step by (subst read_elems.simps) simp
qed

end

section \<open>Fixed-width integers\<close>

lemma from_to_be_bytes:
  fixes v :: "'a::len word"
  assumes "LENGTH('a) = 8 * k"
  shows "from_be_bytes (to_be_bytes k v) = v"
proof -
  have "(256 :: nat) ^ k = 2 ^ LENGTH('a)" using assms by (simp add: power_mult)
  then have "unat v mod 256 ^ k = unat v" using unsigned_less [of v] by simp
  then show ?thesis by (simp add: from_be_bytes_def to_be_bytes_def be_nat_digits)
qed

lemma length_to_be_bytes [simp]: "length (to_be_bytes k v) = k"
  by (simp add: to_be_bytes_def)

lemma list_2: "length xs = 2 \<Longrightarrow> \<exists>a b. xs = [a, b]"
  by (auto simp: numeral_eq_Suc length_Suc_conv)

lemma list_3: "length xs = 3 \<Longrightarrow> \<exists>a b c. xs = [a, b, c]"
  by (auto simp: numeral_eq_Suc length_Suc_conv)

lemma list_4: "length xs = 4 \<Longrightarrow> \<exists>a b c d. xs = [a, b, c, d]"
  by (auto simp: numeral_eq_Suc length_Suc_conv)

lemma list_8: "length xs = 8 \<Longrightarrow> \<exists>a b c d e f g h. xs = [a, b, c, d, e, f, g, h]"
  by (auto simp: numeral_eq_Suc length_Suc_conv)

lemmas to_be_bytes_2 = list_2 [OF length_to_be_bytes]
lemmas to_be_bytes_4 = list_4 [OF length_to_be_bytes]
lemmas to_be_bytes_8 = list_8 [OF length_to_be_bytes]

lemma enc_u16_eq: "enc_u16 v bytes = bytes @ to_be_bytes 2 v"
  using to_be_bytes_2 [of v] by (auto simp: enc_u16_def put_u16_def slice_def overwrite_def)

lemma enc_u64_eq: "enc_u64 v bytes = bytes @ to_be_bytes 8 v"
  using to_be_bytes_8 [of v] by (auto simp: enc_u64_def put_u64_def slice_def overwrite_def)

lemma read_int_progress:
  assumes "rd_ok r"
  shows "read_u8 r = (Inr x8, r') \<Longrightarrow> 1 \<le> length (rd_todo r) \<and> r' = rd_advance r 1"
    and "read_u16 r = (Inr x16, r') \<Longrightarrow> 2 \<le> length (rd_todo r) \<and> r' = rd_advance r 2"
    and "read_u24 r = (Inr x24, r') \<Longrightarrow> 3 \<le> length (rd_todo r) \<and> r' = rd_advance r 3"
    and "read_u32 r = (Inr x32, r') \<Longrightarrow> 4 \<le> length (rd_todo r) \<and> r' = rd_advance r 4"
    and "read_u64 r = (Inr x64, r') \<Longrightarrow> 8 \<le> length (rd_todo r) \<and> r' = rd_advance r 8"
  using assms
  by (auto simp: read_u8_def read_u16_def read_u24_def read_u32_def read_u64_def rd_take_eq split: if_splits list.splits)

lemma progressI: "0 < n \<Longrightarrow> n \<le> length (rd_todo r) \<and> r' = rd_advance r n \<Longrightarrow> \<exists>n > 0. n \<le> length (rd_todo r) \<and> r' = rd_advance r n"
  by blast

interpretation c8: list_codec enc_u8 read_u8 "\<lambda>_. True"
proof
  show "rd_ok r \<Longrightarrow> rd_todo r = enc_u8 x [] @ rest \<Longrightarrow> read_u8 r = (Inr x, rd_advance r (length (enc_u8 x [])))" for r x rest
    by (simp add: enc_u8_def read_u8_def rd_take_eq)
qed (simp add: enc_u8_def, rule progressI [OF _ read_int_progress(1)], simp_all)

interpretation c16: list_codec enc_u16 read_u16 "\<lambda>_. True"
proof
  show "rd_ok r \<Longrightarrow> rd_todo r = enc_u16 x [] @ rest \<Longrightarrow> read_u16 r = (Inr x, rd_advance r (length (enc_u16 x [])))" for r x rest
    using to_be_bytes_2 [of x] from_to_be_bytes [of 2 x] by (auto simp: enc_u16_eq read_u16_def rd_take_eq)
qed (simp add: enc_u16_eq, rule progressI [OF _ read_int_progress(2)], simp_all)

interpretation c32: list_codec enc_u32 read_u32 "\<lambda>_. True"
proof
  show "rd_ok r \<Longrightarrow> rd_todo r = enc_u32 x [] @ rest \<Longrightarrow> read_u32 r = (Inr x, rd_advance r (length (enc_u32 x [])))" for r x rest
    using to_be_bytes_4 [of x] from_to_be_bytes [of 4 x] by (auto simp: enc_u32_def read_u32_def rd_take_eq)
qed (simp add: enc_u32_def, rule progressI [OF _ read_int_progress(4)], simp_all)

interpretation c64: list_codec enc_u64 read_u64 "\<lambda>_. True"
proof
  show "rd_ok r \<Longrightarrow> rd_todo r = enc_u64 x [] @ rest \<Longrightarrow> read_u64 r = (Inr x, rd_advance r (length (enc_u64 x [])))" for r x rest
    using to_be_bytes_8 [of x] from_to_be_bytes [of 8 x] by (auto simp: enc_u64_eq read_u64_def rd_take_eq)
qed (simp add: enc_u64_eq, rule progressI [OF _ read_int_progress(5)], simp_all)

text \<open>A \<^verbatim>\<open>u24\<close> holds 32 bits, of which only the low 24 are encoded.\<close>

definition u24_ok :: "u24 \<Rightarrow> bool" where
  "u24_ok v \<longleftrightarrow> u24_usize v < 2 ^ 24"

lemma be_digits_lead: "n < 256 ^ k \<Longrightarrow> be_digits (Suc k) n = 0 # be_digits k n"
proof (induction k arbitrary: n)
  case (Suc k)
  have "n div 256 < 256 ^ k" using Suc.prems by (simp add: less_mult_imp_div_less mult.commute)
  from Suc.IH [OF this] show ?case by simp
qed simp

lemma to_be_bytes_u24:
  assumes "u24_ok v"
  shows "\<exists>a b c. to_be_bytes 4 (u24_val v) = [0, a, b, c]"
proof -
  have "to_be_bytes 4 (u24_val v) = 0 # be_digits 3 (u24_usize v)"
    using assms be_digits_lead [of "u24_usize v" 3] by (simp add: to_be_bytes_def u24_ok_def u24_usize_def)
  then show ?thesis using list_3 [OF length_be_digits] by simp
qed

interpretation c24: list_codec enc_u24 read_u24 u24_ok
proof
  show "rd_ok r \<Longrightarrow> u24_ok x \<Longrightarrow> rd_todo r = enc_u24 x [] @ rest \<Longrightarrow> read_u24 r = (Inr x, rd_advance r (length (enc_u24 x [])))" for r x rest
    using to_be_bytes_u24 [of x] from_to_be_bytes [of 4 "u24_val x"]
    by (auto simp: enc_u24_def read_u24_def rd_take_eq)
qed (simp add: enc_u24_def, rule progressI [OF _ read_int_progress(3)], simp_all)

section \<open>Length-prefixed payloads\<close>

lemma rd_sub_eq: "rd_ok r \<Longrightarrow> rd_sub n r =
    (if n \<le> length (rd_todo r) then (Inr (rd_init (take n (rd_todo r))), rd_advance r n) else (Inl MessageTooShort, r))"
  by (simp add: rd_sub_def rd_take_eq)

lemma read_body_eq: "rd_ok r \<Longrightarrow> read_body n r =
    (if n \<le> length (rd_todo r) then (Inr (take n (rd_todo r)), rd_advance r n) else (Inl MessageTooShort, r))"
  by (simp add: read_body_def rd_bind_def rd_sub_eq rd_rest_def rd_init_def)

text \<open>A length decoder followed by that many bytes is a list codec for the payloads whose length fits.\<close>

lemma prefixed_read:
  assumes "rd_ok r" and "rd_todo r = pre @ p @ rest" and "len r = (Inr v, rd_advance r (length pre))" and "f v = length p"
  shows "rd_bind len (\<lambda>v. read_body (f v)) r = (Inr p, rd_advance r (length (pre @ p)))"
proof -
  have "rd_ok (rd_advance r (length pre))" using assms(1,2) by (intro rd_ok_advance) simp_all
  then show ?thesis using assms by (simp add: rd_bind_def read_body_eq)
qed

lemma prefixed_progress:
  assumes "rd_ok r" and "\<And>v r'. len r = (Inr v, r') \<Longrightarrow> k \<le> length (rd_todo r) \<and> r' = rd_advance r k" and "0 < k"
    and "rd_bind len (\<lambda>v. read_body (f v)) r = (Inr p, r')"
  shows "\<exists>n > 0. n \<le> length (rd_todo r) \<and> r' = rd_advance r n"
proof -
  obtain res r1 where len: "len r = (res, r1)" by force
  then obtain v where v: "res = Inr v" using assms(4) by (cases res) (auto simp: rd_bind_def)
  have k: "k \<le> length (rd_todo r)" "r1 = rd_advance r k" using assms(2) len v by auto
  then have "rd_ok r1" using rd_ok_advance [OF assms(1)] by simp
  then show ?thesis
    using assms(3,4) k len v by (auto simp: rd_bind_def read_body_eq split: if_splits intro!: exI [of _ "k + f v"])
qed

interpretation p8: list_codec enc_payload_u8 read_payload_u8 "\<lambda>p. length p < 2 ^ 8"
proof
  show "rd_ok r \<Longrightarrow> length x < 2 ^ 8 \<Longrightarrow> rd_todo r = enc_payload_u8 x [] @ rest
      \<Longrightarrow> read_payload_u8 r = (Inr x, rd_advance r (length (enc_payload_u8 x [])))" for r x rest
    using prefixed_read [of r "enc_u8 (word_of_nat (length x)) []" x rest read_u8 "word_of_nat (length x)" unat]
      c8.read_enc [of r "word_of_nat (length x)" "x @ rest"]
    by (simp add: enc_payload_u8_def read_payload_u8_def unat_of_nat)
  show "rd_ok r \<Longrightarrow> read_payload_u8 r = (Inr x, r') \<Longrightarrow> \<exists>n > 0. n \<le> length (rd_todo r) \<and> r' = rd_advance r n" for r x r'
    unfolding read_payload_u8_def
    by (rule prefixed_progress [OF _ read_int_progress(1)]) simp_all
qed (simp add: enc_payload_u8_def enc_u8_def)

interpretation p16: list_codec enc_payload_u16 read_payload_u16 "\<lambda>p. length p < 2 ^ 16"
proof
  show "rd_ok r \<Longrightarrow> length x < 2 ^ 16 \<Longrightarrow> rd_todo r = enc_payload_u16 x [] @ rest
      \<Longrightarrow> read_payload_u16 r = (Inr x, rd_advance r (length (enc_payload_u16 x [])))" for r x rest
    using prefixed_read [of r "enc_u16 (word_of_nat (length x)) []" x rest read_u16 "word_of_nat (length x)" unat]
      c16.read_enc [of r "word_of_nat (length x)" "x @ rest"]
    by (simp add: enc_payload_u16_def read_payload_u16_def unat_of_nat)
  show "rd_ok r \<Longrightarrow> read_payload_u16 r = (Inr x, r') \<Longrightarrow> \<exists>n > 0. n \<le> length (rd_todo r) \<and> r' = rd_advance r n" for r x r'
    unfolding read_payload_u16_def
    by (rule prefixed_progress [OF _ read_int_progress(2)]) simp_all
qed (simp add: enc_payload_u16_def enc_u16_eq)

lemma u24_of_length: "n < 2 ^ 24 \<Longrightarrow> u24_ok (U24 (word_of_nat n)) \<and> u24_usize (U24 (word_of_nat n)) = n"
  by (simp add: u24_ok_def u24_usize_def unat_of_nat)

interpretation p24: list_codec enc_payload_u24 read_payload_u24 "\<lambda>p. length p < 2 ^ 24"
proof
  show "rd_ok r \<Longrightarrow> length x < 2 ^ 24 \<Longrightarrow> rd_todo r = enc_payload_u24 x [] @ rest
      \<Longrightarrow> read_payload_u24 r = (Inr x, rd_advance r (length (enc_payload_u24 x [])))" for r x rest
    using prefixed_read [of r "enc_u24 (U24 (word_of_nat (length x))) []" x rest read_u24 "U24 (word_of_nat (length x))" u24_usize]
      c24.read_enc [of r "U24 (word_of_nat (length x))" "x @ rest"] u24_of_length [of "length x"]
    by (simp add: enc_payload_u24_def read_payload_u24_def)
  show "rd_ok r \<Longrightarrow> read_payload_u24 r = (Inr x, r') \<Longrightarrow> \<exists>n > 0. n \<le> length (rd_todo r) \<and> r' = rd_advance r n" for r x r'
    unfolding read_payload_u24_def
    by (rule prefixed_progress [OF _ read_int_progress(3)]) simp_all
qed (simp add: enc_payload_u24_def enc_u24_def)

section \<open>Vectors\<close>

definition len_prefix :: "ListLength \<Rightarrow> nat \<Rightarrow> u8 list" where
  "len_prefix sz n =
     (case sz of
        LenU8 \<Rightarrow> enc_u8 (word_of_nat n) []
      | LenU16 \<Rightarrow> enc_u16 (word_of_nat n) []
      | LenU24 _ \<Rightarrow> enc_u24 (U24 (word_of_nat n)) [])"

definition len_fits :: "ListLength \<Rightarrow> nat \<Rightarrow> bool" where
  "len_fits sz n \<longleftrightarrow> n < 256 ^ prefix_bytes sz \<and> (case sz of LenU24 mx \<Rightarrow> n \<le> mx | _ \<Rightarrow> True)"

lemma read_len_prefix:
  assumes "rd_ok r" and "len_fits sz n" and "rd_todo r = len_prefix sz n @ rest"
  shows "read_len sz r = (Inr n, rd_advance r (length (len_prefix sz n)))"
  using assms c8.read_enc [of r "word_of_nat n" rest] c16.read_enc [of r "word_of_nat n" rest]
    c24.read_enc [of r "U24 (word_of_nat n)" rest] u24_of_length [of n]
  by (cases sz) (auto simp: read_len_def len_prefix_def len_fits_def prefix_bytes_def rd_bind_def unat_of_nat min_def)

lemma read_len_progress:
  assumes "rd_ok r" and "read_len sz r = (Inr n, r')"
  shows "rd_ok r'"
proof -
  have int: "rd_ok r'" if "read_u8 r = (Inr a, r') \<or> read_u16 r = (Inr b, r') \<or> read_u24 r = (Inr c, r')" for a b c
    using that rd_ok_advance [OF assms(1)] read_int_progress(1-3) [OF assms(1)] by blast
  show ?thesis
    using assms(2) int by (cases sz) (auto simp: read_len_def rd_bind_def split: prod.splits sum.splits)
qed

context list_codec
begin

lemma enc_vec_eq: "enc_vec sz enc xs bytes = bytes @ len_prefix sz (length (concat (map (\<lambda>x. enc x []) xs))) @ concat (map (\<lambda>x. enc x []) xs)"
  by (cases sz) (auto simp: enc_vec_def Let_def enc_elems_append len_prefix_def enc_u8_def enc_u16_eq enc_u24_def overwrite_def)

lemma read_vec_returns:
  assumes "rd_ok r"
  shows "\<exists>y. read_vec sz rd r = Some y"
proof -
  obtain res r1 where len: "read_len sz r = (res, r1)" by force
  show ?thesis
  proof (cases res)
    case (Inl e)
    then show ?thesis using len by (simp add: read_vec_def rd_bind_def)
  next
    case (Inr n)
    then have "rd_ok r1" using read_len_progress [OF assms] len by simp
    then show ?thesis
      using len Inr read_elems_returns [of "rd_init (take n (rd_todo r1))" "[]"]
      by (auto simp: read_vec_def rd_bind_def rd_sub_eq split: option.splits)
  qed
qed

lemma read_vec_enc:
  assumes "rd_ok r" and "list_all ok xs" and "len_fits sz (length (concat (map (\<lambda>x. enc x []) xs)))"
    and "rd_todo r = enc_vec sz enc xs [] @ rest"
  shows "read_vec sz rd r = Some (Inr xs, rd_advance r (length (enc_vec sz enc xs [])))"
proof -
  let ?data = "concat (map (\<lambda>x. enc x []) xs)"
  let ?pre = "len_prefix sz (length ?data)"
  have todo: "rd_todo r = ?pre @ ?data @ rest" using assms(4) by (simp add: enc_vec_eq)
  have len: "read_len sz r = (Inr (length ?data), rd_advance r (length ?pre))" using read_len_prefix [OF assms(1,3) todo] .
  have "rd_ok (rd_advance r (length ?pre))" using assms(1) todo by (intro rd_ok_advance) simp_all
  then have "rd_sub (length ?data) (rd_advance r (length ?pre)) = (Inr (rd_init ?data), rd_advance r (length ?pre + length ?data))"
    using todo by (simp add: rd_sub_eq)
  then show ?thesis
    using len read_elems_enc [of "rd_init ?data" xs "[]"] assms(2) by (simp add: read_vec_def rd_bind_def enc_vec_eq)
qed

end

section \<open>Properties\<close>

text \<open>Vectors on the wire: for every element type whose codec keeps the contract, decoding a length-prefixed
  vector always ends, and decoding an encoded vector whose encoding fits the prefix gives back its elements
  and stops right behind them.\<close>

theorem tls_vec_roundtrip:
  assumes "list_codec enc rd ok" and "rd_ok r"
  shows "(\<exists>y. read_vec sz rd r = Some y)
    \<and> (list_all ok xs \<and> len_fits sz (length (concat (map (\<lambda>x. enc x []) xs))) \<and> rd_todo r = enc_vec sz enc xs [] @ rest
        \<longrightarrow> read_vec sz rd r = Some (Inr xs, rd_advance r (length (enc_vec sz enc xs []))))"
  using list_codec.read_vec_returns [OF assms] list_codec.read_vec_enc [OF assms] by blast

theorem tls_vec_roundtrip_witness:
  "read_vec LenU16 read_payload_u8 (rd_init [0, 3, 2, 7, 8, 9]) = Some (Inr [[7, 8]], rd_advance (rd_init [0, 3, 2, 7, 8, 9]) (length [0, 3, 2, 7, 8 :: u8]))"
proof -
  have "to_be_bytes 2 (3 :: u16) = be_digits 2 3" by (simp add: to_be_bytes_def)
  also have "\<dots> = [0, 3]" by (simp add: Suc_1 [symmetric] One_nat_def del: Suc_1)
  finally have be: "to_be_bytes 2 (3 :: u16) = [0, 3]" .
  have enc: "enc_vec LenU16 enc_payload_u8 [[7, 8]] [] = [0, 3, 2, 7, 8]"
    by (simp add: enc_vec_def enc_payload_u8_def enc_u8_def overwrite_def be)
  have "len_fits LenU16 (length (concat (map (\<lambda>x. enc_payload_u8 x []) [[7, 8]])))"
    by (simp add: len_fits_def prefix_bytes_def enc_payload_u8_def enc_u8_def)
  then show ?thesis
    using tls_vec_roundtrip [OF p8.list_codec_axioms, of "rd_init [0, 3, 2, 7, 8, 9]" LenU16 "[[7, 8]]" "[9]"] enc by simp
qed

end
