(* ===== verification/Tls_Message.thy ===== *)
theory Tls_Message
  imports Tls_Codec_Correct
begin

text \<open>
  TLS records, from \<^verbatim>\<open>rustls-0.21.2/rustls/src\<close>: the enumerations of \<^verbatim>\<open>enums.rs\<close> and \<^verbatim>\<open>msgs/enums.rs\<close> with the codec that
  the macro \<^verbatim>\<open>enum_builder!\<close> gives them, the record header of \<^verbatim>\<open>msgs/message.rs\<close>, the alert and change-cipher-spec
  payloads, and the fragmenter of \<^verbatim>\<open>msgs/fragmenter.rs\<close>.
\<close>

section \<open>Enumerations\<close>

datatype ContentType =
  CT_ChangeCipherSpec | CT_Alert | CT_Handshake | CT_ApplicationData | CT_Heartbeat | CT_Unknown u8

fun get_content_type :: "ContentType \<Rightarrow> u8" where
  "get_content_type CT_ChangeCipherSpec = 20"
| "get_content_type CT_Alert = 21"
| "get_content_type CT_Handshake = 22"
| "get_content_type CT_ApplicationData = 23"
| "get_content_type CT_Heartbeat = 24"
| "get_content_type (CT_Unknown x) = x"

definition from_content_type :: "u8 \<Rightarrow> ContentType" where
  "from_content_type x =
     (if x = 20 then CT_ChangeCipherSpec
      else if x = 21 then CT_Alert
      else if x = 22 then CT_Handshake
      else if x = 23 then CT_ApplicationData
      else if x = 24 then CT_Heartbeat
      else CT_Unknown x)"

datatype ProtocolVersion =
  PV_SSLv2 | PV_SSLv3 | PV_TLSv1_0 | PV_TLSv1_1 | PV_TLSv1_2 | PV_TLSv1_3 | PV_DTLSv1_0 | PV_DTLSv1_2 | PV_DTLSv1_3 | PV_Unknown u16

fun get_protocol_version :: "ProtocolVersion \<Rightarrow> u16" where
  "get_protocol_version PV_SSLv2 = 512"
| "get_protocol_version PV_SSLv3 = 768"
| "get_protocol_version PV_TLSv1_0 = 769"
| "get_protocol_version PV_TLSv1_1 = 770"
| "get_protocol_version PV_TLSv1_2 = 771"
| "get_protocol_version PV_TLSv1_3 = 772"
| "get_protocol_version PV_DTLSv1_0 = 65279"
| "get_protocol_version PV_DTLSv1_2 = 65277"
| "get_protocol_version PV_DTLSv1_3 = 65276"
| "get_protocol_version (PV_Unknown x) = x"

definition from_protocol_version :: "u16 \<Rightarrow> ProtocolVersion" where
  "from_protocol_version x =
     (if x = 512 then PV_SSLv2
      else if x = 768 then PV_SSLv3
      else if x = 769 then PV_TLSv1_0
      else if x = 770 then PV_TLSv1_1
      else if x = 771 then PV_TLSv1_2
      else if x = 772 then PV_TLSv1_3
      else if x = 65279 then PV_DTLSv1_0
      else if x = 65277 then PV_DTLSv1_2
      else if x = 65276 then PV_DTLSv1_3
      else PV_Unknown x)"

datatype HandshakeType =
  HT_HelloRequest | HT_ClientHello | HT_ServerHello | HT_HelloVerifyRequest | HT_NewSessionTicket | HT_EndOfEarlyData
  | HT_HelloRetryRequest | HT_EncryptedExtensions | HT_Certificate | HT_ServerKeyExchange | HT_CertificateRequest
  | HT_ServerHelloDone | HT_CertificateVerify | HT_ClientKeyExchange | HT_Finished | HT_CertificateURL
  | HT_CertificateStatus | HT_KeyUpdate | HT_MessageHash | HT_Unknown u8

fun get_handshake_type :: "HandshakeType \<Rightarrow> u8" where
  "get_handshake_type HT_HelloRequest = 0"
| "get_handshake_type HT_ClientHello = 1"
| "get_handshake_type HT_ServerHello = 2"
| "get_handshake_type HT_HelloVerifyRequest = 3"
| "get_handshake_type HT_NewSessionTicket = 4"
| "get_handshake_type HT_EndOfEarlyData = 5"
| "get_handshake_type HT_HelloRetryRequest = 6"
| "get_handshake_type HT_EncryptedExtensions = 8"
| "get_handshake_type HT_Certificate = 11"
| "get_handshake_type HT_ServerKeyExchange = 12"
| "get_handshake_type HT_CertificateRequest = 13"
| "get_handshake_type HT_ServerHelloDone = 14"
| "get_handshake_type HT_CertificateVerify = 15"
| "get_handshake_type HT_ClientKeyExchange = 16"
| "get_handshake_type HT_Finished = 20"
| "get_handshake_type HT_CertificateURL = 21"
| "get_handshake_type HT_CertificateStatus = 22"
| "get_handshake_type HT_KeyUpdate = 24"
| "get_handshake_type HT_MessageHash = 254"
| "get_handshake_type (HT_Unknown x) = x"

definition from_handshake_type :: "u8 \<Rightarrow> HandshakeType" where
  "from_handshake_type x =
     (if x = 0 then HT_HelloRequest
      else if x = 1 then HT_ClientHello
      else if x = 2 then HT_ServerHello
      else if x = 3 then HT_HelloVerifyRequest
      else if x = 4 then HT_NewSessionTicket
      else if x = 5 then HT_EndOfEarlyData
      else if x = 6 then HT_HelloRetryRequest
      else if x = 8 then HT_EncryptedExtensions
      else if x = 11 then HT_Certificate
      else if x = 12 then HT_ServerKeyExchange
      else if x = 13 then HT_CertificateRequest
      else if x = 14 then HT_ServerHelloDone
      else if x = 15 then HT_CertificateVerify
      else if x = 16 then HT_ClientKeyExchange
      else if x = 20 then HT_Finished
      else if x = 21 then HT_CertificateURL
      else if x = 22 then HT_CertificateStatus
      else if x = 24 then HT_KeyUpdate
      else if x = 254 then HT_MessageHash
      else HT_Unknown x)"

datatype AlertLevel =
  AL_Warning | AL_Fatal | AL_Unknown u8

fun get_alert_level :: "AlertLevel \<Rightarrow> u8" where
  "get_alert_level AL_Warning = 1"
| "get_alert_level AL_Fatal = 2"
| "get_alert_level (AL_Unknown x) = x"

definition from_alert_level :: "u8 \<Rightarrow> AlertLevel" where
  "from_alert_level x =
     (if x = 1 then AL_Warning
      else if x = 2 then AL_Fatal
      else AL_Unknown x)"

datatype AlertDescription =
  AD_CloseNotify | AD_UnexpectedMessage | AD_BadRecordMac | AD_DecryptionFailed | AD_RecordOverflow
  | AD_DecompressionFailure | AD_HandshakeFailure | AD_NoCertificate | AD_BadCertificate | AD_UnsupportedCertificate
  | AD_CertificateRevoked | AD_CertificateExpired | AD_CertificateUnknown | AD_IllegalParameter | AD_UnknownCA
  | AD_AccessDenied | AD_DecodeError | AD_DecryptError | AD_ExportRestriction | AD_ProtocolVersion
  | AD_InsufficientSecurity | AD_InternalError | AD_InappropriateFallback | AD_UserCanceled | AD_NoRenegotiation
  | AD_MissingExtension | AD_UnsupportedExtension | AD_CertificateUnobtainable | AD_UnrecognisedName
  | AD_BadCertificateStatusResponse | AD_BadCertificateHashValue | AD_UnknownPSKIdentity | AD_CertificateRequired
  | AD_NoApplicationProtocol | AD_Unknown u8

fun get_alert_description :: "AlertDescription \<Rightarrow> u8" where
  "get_alert_description AD_CloseNotify = 0"
| "get_alert_description AD_UnexpectedMessage = 10"
| "get_alert_description AD_BadRecordMac = 20"
| "get_alert_description AD_DecryptionFailed = 21"
| "get_alert_description AD_RecordOverflow = 22"
| "get_alert_description AD_DecompressionFailure = 30"
| "get_alert_description AD_HandshakeFailure = 40"
| "get_alert_description AD_NoCertificate = 41"
| "get_alert_description AD_BadCertificate = 42"
| "get_alert_description AD_UnsupportedCertificate = 43"
| "get_alert_description AD_CertificateRevoked = 44"
| "get_alert_description AD_CertificateExpired = 45"
| "get_alert_description AD_CertificateUnknown = 46"
| "get_alert_description AD_IllegalParameter = 47"
| "get_alert_description AD_UnknownCA = 48"
| "get_alert_description AD_AccessDenied = 49"
| "get_alert_description AD_DecodeError = 50"
| "get_alert_description AD_DecryptError = 51"
| "get_alert_description AD_ExportRestriction = 60"
| "get_alert_description AD_ProtocolVersion = 70"
| "get_alert_description AD_InsufficientSecurity = 71"
| "get_alert_description AD_InternalError = 80"
| "get_alert_description AD_InappropriateFallback = 86"
| "get_alert_description AD_UserCanceled = 90"
| "get_alert_description AD_NoRenegotiation = 100"
| "get_alert_description AD_MissingExtension = 109"
| "get_alert_description AD_UnsupportedExtension = 110"
| "get_alert_description AD_CertificateUnobtainable = 111"
| "get_alert_description AD_UnrecognisedName = 112"
| "get_alert_description AD_BadCertificateStatusResponse = 113"
| "get_alert_description AD_BadCertificateHashValue = 114"
| "get_alert_description AD_UnknownPSKIdentity = 115"
| "get_alert_description AD_CertificateRequired = 116"
| "get_alert_description AD_NoApplicationProtocol = 120"
| "get_alert_description (AD_Unknown x) = x"

definition from_alert_description :: "u8 \<Rightarrow> AlertDescription" where
  "from_alert_description x =
     (if x = 0 then AD_CloseNotify
      else if x = 10 then AD_UnexpectedMessage
      else if x = 20 then AD_BadRecordMac
      else if x = 21 then AD_DecryptionFailed
      else if x = 22 then AD_RecordOverflow
      else if x = 30 then AD_DecompressionFailure
      else if x = 40 then AD_HandshakeFailure
      else if x = 41 then AD_NoCertificate
      else if x = 42 then AD_BadCertificate
      else if x = 43 then AD_UnsupportedCertificate
      else if x = 44 then AD_CertificateRevoked
      else if x = 45 then AD_CertificateExpired
      else if x = 46 then AD_CertificateUnknown
      else if x = 47 then AD_IllegalParameter
      else if x = 48 then AD_UnknownCA
      else if x = 49 then AD_AccessDenied
      else if x = 50 then AD_DecodeError
      else if x = 51 then AD_DecryptError
      else if x = 60 then AD_ExportRestriction
      else if x = 70 then AD_ProtocolVersion
      else if x = 71 then AD_InsufficientSecurity
      else if x = 80 then AD_InternalError
      else if x = 86 then AD_InappropriateFallback
      else if x = 90 then AD_UserCanceled
      else if x = 100 then AD_NoRenegotiation
      else if x = 109 then AD_MissingExtension
      else if x = 110 then AD_UnsupportedExtension
      else if x = 111 then AD_CertificateUnobtainable
      else if x = 112 then AD_UnrecognisedName
      else if x = 113 then AD_BadCertificateStatusResponse
      else if x = 114 then AD_BadCertificateHashValue
      else if x = 115 then AD_UnknownPSKIdentity
      else if x = 116 then AD_CertificateRequired
      else if x = 120 then AD_NoApplicationProtocol
      else AD_Unknown x)"

section \<open>The codec of an enumeration\<close>

definition enc_enum8 :: "('a \<Rightarrow> u8) \<Rightarrow> 'a \<Rightarrow> u8 list \<Rightarrow> u8 list" where
  "enc_enum8 get x bytes = enc_u8 (get x) bytes"

definition read_enum8 :: "string \<Rightarrow> (u8 \<Rightarrow> 'a) \<Rightarrow> 'a reads" where
  "read_enum8 name from r = (case read_u8 r of (Inr x, r) \<Rightarrow> (Inr (from x), r) | (Inl _, r) \<Rightarrow> (Inl (MissingData name), r))"

definition enc_enum16 :: "('a \<Rightarrow> u16) \<Rightarrow> 'a \<Rightarrow> u8 list \<Rightarrow> u8 list" where
  "enc_enum16 get x bytes = enc_u16 (get x) bytes"

definition read_enum16 :: "string \<Rightarrow> (u16 \<Rightarrow> 'a) \<Rightarrow> 'a reads" where
  "read_enum16 name from r = (case read_u16 r of (Inr x, r) \<Rightarrow> (Inr (from x), r) | (Inl _, r) \<Rightarrow> (Inl (MissingData name), r))"

abbreviation "read_content_type \<equiv> read_enum8 ''ContentType'' from_content_type"
abbreviation "read_protocol_version \<equiv> read_enum16 ''ProtocolVersion'' from_protocol_version"
abbreviation "read_alert_level \<equiv> read_enum8 ''AlertLevel'' from_alert_level"
abbreviation "read_alert_description \<equiv> read_enum8 ''AlertDescription'' from_alert_description"

section \<open>Records\<close>

record OpaqueMessage =
  om_typ :: ContentType
  om_version :: ProtocolVersion
  om_payload :: "u8 list"

record PlainMessage =
  pm_typ :: ContentType
  pm_version :: ProtocolVersion
  pm_payload :: "u8 list"

datatype MessageError =
  ME_TooShortForHeader | ME_TooShortForLength | ME_InvalidEmptyPayload | ME_MessageTooLarge | ME_InvalidContentType
  | ME_UnknownProtocolVersion

definition into_plain_message :: "OpaqueMessage \<Rightarrow> PlainMessage" where
  "into_plain_message m = \<lparr>pm_typ = om_typ m, pm_version = om_version m, pm_payload = om_payload m\<rparr>"

definition into_unencrypted_opaque :: "PlainMessage \<Rightarrow> OpaqueMessage" where
  "into_unencrypted_opaque m = \<lparr>om_typ = pm_typ m, om_version = pm_version m, om_payload = pm_payload m\<rparr>"

definition MAX_PAYLOAD :: u16 where "MAX_PAYLOAD = 16384 + 2048"
definition OM_HEADER_SIZE :: u16 where "OM_HEADER_SIZE = 1 + 2 + 2"
definition MAX_WIRE_SIZE :: nat where "MAX_WIRE_SIZE = unat (MAX_PAYLOAD + OM_HEADER_SIZE)"

definition opaque_read :: "TlsReader \<Rightarrow> (MessageError + OpaqueMessage) \<times> TlsReader" where
  "opaque_read r =
     (case read_content_type r of
        (Inl _, r) \<Rightarrow> (Inl ME_TooShortForHeader, r)
      | (Inr typ, r) \<Rightarrow>
          if (case typ of CT_Unknown _ \<Rightarrow> True | _ \<Rightarrow> False) then (Inl ME_InvalidContentType, r)
          else (case read_protocol_version r of
            (Inl _, r) \<Rightarrow> (Inl ME_TooShortForHeader, r)
          | (Inr version, r) \<Rightarrow>
              if (case version of PV_Unknown v \<Rightarrow> v AND 0xff00 \<noteq> 0x0300 | _ \<Rightarrow> False) then (Inl ME_UnknownProtocolVersion, r)
              else (case read_u16 r of
                (Inl _, r) \<Rightarrow> (Inl ME_TooShortForHeader, r)
              | (Inr len, r) \<Rightarrow>
                  if typ \<noteq> CT_ApplicationData \<and> len = 0 then (Inl ME_InvalidEmptyPayload, r)
                  else if len \<ge> MAX_PAYLOAD then (Inl ME_MessageTooLarge, r)
                  else (case rd_sub (unat len) r of
                    (Inl _, r) \<Rightarrow> (Inl ME_TooShortForLength, r)
                  | (Inr sub, r) \<Rightarrow>
                      (Inr \<lparr>om_typ = typ, om_version = version, om_payload = fst (rd_rest sub)\<rparr>, r)))))"

definition opaque_encode :: "OpaqueMessage \<Rightarrow> u8 list" where
  "opaque_encode m =
     enc_payload (om_payload m)
       (enc_u16 (word_of_nat (length (om_payload m)))
         (enc_enum16 get_protocol_version (om_version m)
           (enc_enum8 get_content_type (om_typ m) [])))"

section \<open>Change cipher spec and alerts\<close>

definition enc_ccs :: "unit \<Rightarrow> u8 list \<Rightarrow> u8 list" where
  "enc_ccs x bytes = enc_u8 1 bytes"

definition read_ccs :: "unit reads" where
  "read_ccs = rd_bind read_u8 (\<lambda>typ r. if typ \<noteq> 1 then (Inl InvalidCcs, r) else (expect_empty ''ChangeCipherSpecPayload'' r, r))"

record AlertMessagePayload =
  alert_level :: AlertLevel
  alert_description :: AlertDescription

definition enc_alert :: "AlertMessagePayload \<Rightarrow> u8 list \<Rightarrow> u8 list" where
  "enc_alert a bytes = enc_enum8 get_alert_description (alert_description a) (enc_enum8 get_alert_level (alert_level a) bytes)"

definition read_alert :: "AlertMessagePayload reads" where
  "read_alert = rd_bind read_alert_level (\<lambda>level. rd_bind read_alert_description (\<lambda>description r.
     (case expect_empty ''AlertMessagePayload'' r of
        Inl e \<Rightarrow> (Inl e, r)
      | Inr _ \<Rightarrow> (Inr \<lparr>alert_level = level, alert_description = description\<rparr>, r))))"

section \<open>Fragmenting\<close>

definition MAX_FRAGMENT_LEN :: nat where "MAX_FRAGMENT_LEN = 16384"
definition PACKET_OVERHEAD :: nat where "PACKET_OVERHEAD = 1 + 2 + 2"
definition MAX_FRAGMENT_SIZE :: nat where "MAX_FRAGMENT_SIZE = MAX_FRAGMENT_LEN + PACKET_OVERHEAD"

record MessageFragmenter =
  max_frag :: nat

definition fragmenter_default :: MessageFragmenter where
  "fragmenter_default = \<lparr>max_frag = MAX_FRAGMENT_LEN\<rparr>"

text \<open>\<^verbatim>\<open>slice::chunks\<close>, which panics on a chunk size of zero.\<close>

function chunks :: "nat \<Rightarrow> 'a list \<Rightarrow> 'a list list may_panic" where
  "chunks n xs =
     (if n = 0 then None
      else if xs = [] then Some []
      else map_option (Cons (take n xs)) (chunks n (drop n xs)))"
  by pat_completeness auto
termination
  by (relation "measure (\<lambda>(n, xs). length xs)") auto

declare chunks.simps [simp del]

definition fragment_slice :: "MessageFragmenter \<Rightarrow> ContentType \<Rightarrow> ProtocolVersion \<Rightarrow> u8 list \<Rightarrow> PlainMessage list may_panic" where
  "fragment_slice f typ version payload =
     map_option (map (\<lambda>c. \<lparr>pm_typ = typ, pm_version = version, pm_payload = c\<rparr>)) (chunks (max_frag f) payload)"

definition fragment_message :: "MessageFragmenter \<Rightarrow> PlainMessage \<Rightarrow> PlainMessage list may_panic" where
  "fragment_message f m = fragment_slice f (pm_typ m) (pm_version m) (pm_payload m)"

definition set_max_fragment_size :: "MessageFragmenter \<Rightarrow> nat option \<Rightarrow> MessageFragmenter \<times> bool" where
  "set_max_fragment_size f sz =
     (case sz of
        Some n \<Rightarrow> if 32 \<le> n \<and> n \<le> MAX_FRAGMENT_SIZE then (f\<lparr>max_frag := n - PACKET_OVERHEAD\<rparr>, True) else (f, False)
      | None \<Rightarrow> (f\<lparr>max_frag := MAX_FRAGMENT_LEN\<rparr>, True))"

end
