(* ===== verification/Tls_Message_Correct.thy ===== *)
theory Tls_Message_Correct
  imports Tls_Message
begin

text \<open>
  Correctness of the record level: the codecs of the enumerations are interpretations of \<open>list_codec\<close>, a record
  round-trips and its strict prefixes are reported as too short, and fragmenting splits a payload into pieces
  that fit and concatenate to it.
\<close>

section \<open>Enumerations\<close>

text \<open>Every wire value has exactly one name: reading gives a value whose encoding is what was read.\<close>

lemma get_from_content_type [simp]: "get_content_type (from_content_type b) = b"
  by (simp add: from_content_type_def)

lemma get_from_protocol_version [simp]: "get_protocol_version (from_protocol_version v) = v"
  by (simp add: from_protocol_version_def)

lemma get_from_handshake_type [simp]: "get_handshake_type (from_handshake_type b) = b"
  by (simp add: from_handshake_type_def)

lemma get_from_alert_level [simp]: "get_alert_level (from_alert_level b) = b"
  by (simp add: from_alert_level_def)

lemma get_from_alert_description [simp]: "get_alert_description (from_alert_description b) = b"
  by (simp add: from_alert_description_def)

lemma read_u16_eq: "rd_ok r \<Longrightarrow> read_u16 r =
    (if 2 \<le> length (rd_todo r) then (Inr (from_be_bytes (take 2 (rd_todo r))), rd_advance r 2) else (Inl (MissingData ''u8''), r))"
  using list_2 [of "take 2 (rd_todo r)"] by (auto simp: read_u16_def rd_take_eq)

lemma read_u8_eq: "rd_ok r \<Longrightarrow> read_u8 r =
    (if rd_todo r = [] then (Inl (MissingData ''u8''), r) else (Inr (hd (rd_todo r)), rd_advance r 1))"
  by (cases "rd_todo r") (auto simp: read_u8_def rd_take_eq)

lemma enum8_list_codec: "list_codec (enc_enum8 get) (read_enum8 name from) (\<lambda>x. from (get x) = x)"
proof
  show "enc_enum8 get x bytes = bytes @ enc_enum8 get x []" for x bytes by (simp add: enc_enum8_def enc_u8_def)
  show "rd_ok r \<Longrightarrow> from (get x) = x \<Longrightarrow> rd_todo r = enc_enum8 get x [] @ rest
      \<Longrightarrow> read_enum8 name from r = (Inr x, rd_advance r (length (enc_enum8 get x [])))" for r x rest
    by (simp add: enc_enum8_def read_enum8_def enc_u8_def read_u8_eq)
  show "rd_ok r \<Longrightarrow> read_enum8 name from r = (Inr x, r') \<Longrightarrow> \<exists>n > 0. n \<le> length (rd_todo r) \<and> r' = rd_advance r n" for r x r'
    by (cases "rd_todo r") (auto simp: read_enum8_def read_u8_eq)
qed

lemma enum16_list_codec: "list_codec (enc_enum16 get) (read_enum16 name from) (\<lambda>x. from (get x) = x)"
proof
  show "enc_enum16 get x bytes = bytes @ enc_enum16 get x []" for x bytes by (simp add: enc_enum16_def enc_u16_eq)
  show "rd_ok r \<Longrightarrow> from (get x) = x \<Longrightarrow> rd_todo r = enc_enum16 get x [] @ rest
      \<Longrightarrow> read_enum16 name from r = (Inr x, rd_advance r (length (enc_enum16 get x [])))" for r x rest
    by (simp add: enc_enum16_def read_enum16_def enc_u16_eq read_u16_eq from_to_be_bytes)
  show "rd_ok r \<Longrightarrow> read_enum16 name from r = (Inr x, r') \<Longrightarrow> \<exists>n > 0. n \<le> length (rd_todo r) \<and> r' = rd_advance r n" for r x r'
    by (auto simp: read_enum16_def read_u16_eq intro!: exI [of _ 2] split: if_splits)
qed

interpretation ct: list_codec "enc_enum8 get_content_type" read_content_type "\<lambda>x. from_content_type (get_content_type x) = x"
  by (rule enum8_list_codec)

interpretation pv: list_codec "enc_enum16 get_protocol_version" read_protocol_version "\<lambda>x. from_protocol_version (get_protocol_version x) = x"
  by (rule enum16_list_codec)

interpretation al: list_codec "enc_enum8 get_alert_level" read_alert_level "\<lambda>x. from_alert_level (get_alert_level x) = x"
  by (rule enum8_list_codec)

interpretation ad: list_codec "enc_enum8 get_alert_description" read_alert_description "\<lambda>x. from_alert_description (get_alert_description x) = x"
  by (rule enum8_list_codec)

section \<open>Records\<close>

definition typ_ok :: "ContentType \<Rightarrow> bool" where
  "typ_ok t \<longleftrightarrow> (case t of CT_Unknown _ \<Rightarrow> False | _ \<Rightarrow> True)"

definition bad_version :: "ProtocolVersion \<Rightarrow> bool" where
  "bad_version v \<longleftrightarrow> (case v of PV_Unknown x \<Rightarrow> x AND 0xff00 \<noteq> 0x0300 | _ \<Rightarrow> False)"

definition version_ok :: "ProtocolVersion \<Rightarrow> bool" where
  "version_ok v \<longleftrightarrow> from_protocol_version (get_protocol_version v) = v \<and> \<not> bad_version v"

text \<open>The messages the wire format can carry.\<close>

definition opaque_ok :: "OpaqueMessage \<Rightarrow> bool" where
  "opaque_ok m \<longleftrightarrow> typ_ok (om_typ m) \<and> version_ok (om_version m) \<and> length (om_payload m) < unat MAX_PAYLOAD
     \<and> (om_payload m = [] \<longrightarrow> om_typ m = CT_ApplicationData)"

lemma unat_MAX_PAYLOAD: "unat MAX_PAYLOAD = 18432"
  by (simp add: MAX_PAYLOAD_def)

lemma opaque_encode_eq: "opaque_encode m =
    get_content_type (om_typ m) # to_be_bytes 2 (get_protocol_version (om_version m))
      @ to_be_bytes 2 (word_of_nat (length (om_payload m)) :: u16) @ om_payload m"
  by (simp add: opaque_encode_def enc_payload_def enc_enum16_def enc_enum8_def enc_u16_eq enc_u8_def)

lemma length_opaque_encode [simp]: "length (opaque_encode m) = 5 + length (om_payload m)"
  by (simp add: opaque_encode_eq)

text \<open>The record reader in terms of the bytes ahead.\<close>

definition read_record_spec :: "u8 list \<Rightarrow> (MessageError + OpaqueMessage \<times> nat)" where
  "read_record_spec bs =
     (if bs = [] then Inl ME_TooShortForHeader
      else if \<not> typ_ok (from_content_type (bs ! 0)) then Inl ME_InvalidContentType
      else if length bs < 3 then Inl ME_TooShortForHeader
      else let v = from_protocol_version (from_be_bytes (take 2 (drop 1 bs))) in
        if bad_version v then Inl ME_UnknownProtocolVersion
        else if length bs < 5 then Inl ME_TooShortForHeader
        else let n = unat (from_be_bytes (take 2 (drop 3 bs)) :: u16) in
          if from_content_type (bs ! 0) \<noteq> CT_ApplicationData \<and> n = 0 then Inl ME_InvalidEmptyPayload
          else if 18432 \<le> n then Inl ME_MessageTooLarge
          else if length bs < 5 + n then Inl ME_TooShortForLength
          else Inr (\<lparr>om_typ = from_content_type (bs ! 0), om_version = v, om_payload = take n (drop 5 bs)\<rparr>, 5 + n))"

lemma MAX_PAYLOAD_le: "MAX_PAYLOAD \<le> len \<longleftrightarrow> 18432 \<le> unat len"
  by (simp add: word_le_nat_alt unat_MAX_PAYLOAD)

lemma read_header:
  assumes "rd_ok r"
  shows "read_content_type r =
      (if rd_todo r = [] then (Inl (MissingData ''ContentType''), r) else (Inr (from_content_type (rd_todo r ! 0)), rd_advance r 1))"
    and "rd_todo r \<noteq> [] \<Longrightarrow> read_protocol_version (rd_advance r 1) =
      (if length (rd_todo r) < 3 then (Inl (MissingData ''ProtocolVersion''), rd_advance r 1)
       else (Inr (from_protocol_version (from_be_bytes (take 2 (drop 1 (rd_todo r))))), rd_advance r 3))"
    and "3 \<le> length (rd_todo r) \<Longrightarrow> read_u16 (rd_advance r 3) =
      (if length (rd_todo r) < 5 then (Inl (MissingData ''u8''), rd_advance r 3)
       else (Inr (from_be_bytes (take 2 (drop 3 (rd_todo r)))), rd_advance r 5))"
    and "5 \<le> length (rd_todo r) \<Longrightarrow> rd_sub n (rd_advance r 5) =
      (if length (rd_todo r) < 5 + n then (Inl MessageTooShort, rd_advance r 5)
       else (Inr (rd_init (take n (drop 5 (rd_todo r)))), rd_advance r (5 + n)))"
proof -
  have ok: "k \<le> length (rd_todo r) \<Longrightarrow> rd_ok (rd_advance r k)" for k using rd_ok_advance [OF assms] .
  show "read_content_type r =
      (if rd_todo r = [] then (Inl (MissingData ''ContentType''), r) else (Inr (from_content_type (rd_todo r ! 0)), rd_advance r 1))"
    by (simp add: read_enum8_def read_u8_eq [OF assms] hd_conv_nth)
  show "rd_todo r \<noteq> [] \<Longrightarrow> read_protocol_version (rd_advance r 1) =
      (if length (rd_todo r) < 3 then (Inl (MissingData ''ProtocolVersion''), rd_advance r 1)
       else (Inr (from_protocol_version (from_be_bytes (take 2 (drop 1 (rd_todo r))))), rd_advance r 3))"
    using read_u16_eq [OF ok [of 1]] by (cases "rd_todo r") (auto simp: read_enum16_def numeral_3_eq_3)
  show "3 \<le> length (rd_todo r) \<Longrightarrow> read_u16 (rd_advance r 3) =
      (if length (rd_todo r) < 5 then (Inl (MissingData ''u8''), rd_advance r 3)
       else (Inr (from_be_bytes (take 2 (drop 3 (rd_todo r)))), rd_advance r 5))"
    using read_u16_eq [OF ok [of 3]] by auto
  show "5 \<le> length (rd_todo r) \<Longrightarrow> rd_sub n (rd_advance r 5) =
      (if length (rd_todo r) < 5 + n then (Inl MessageTooShort, rd_advance r 5)
       else (Inr (rd_init (take n (drop 5 (rd_todo r)))), rd_advance r (5 + n)))"
    using rd_sub_eq [OF ok [of 5], of n] by auto
qed

lemma opaque_read_spec:
  assumes "rd_ok r"
  shows "fst (opaque_read r) = (case read_record_spec (rd_todo r) of Inl e \<Rightarrow> Inl e | Inr (m, n) \<Rightarrow> Inr m)"
    and "read_record_spec (rd_todo r) = Inr (m, n) \<Longrightarrow> snd (opaque_read r) = rd_advance r n"
proof -
  have known: "(case t of CT_Unknown _ \<Rightarrow> True | _ \<Rightarrow> False) = (\<not> typ_ok t)" for t by (simp add: typ_ok_def split: ContentType.split)
  note defs = opaque_read_def read_record_spec_def known bad_version_def [symmetric] Let_def read_header [OF assms]
    MAX_PAYLOAD_le rd_rest_def rd_init_def unat_eq_0
  show "fst (opaque_read r) = (case read_record_spec (rd_todo r) of Inl e \<Rightarrow> Inl e | Inr (m, n) \<Rightarrow> Inr m)"
    by (simp add: defs del: One_nat_def)
  show "read_record_spec (rd_todo r) = Inr (m, n) \<Longrightarrow> snd (opaque_read r) = rd_advance r n"
    by (auto simp: defs simp del: One_nat_def split: if_splits)
qed

lemma to_be_bytes_from: "length bs = k \<Longrightarrow> LENGTH('a) = 8 * k \<Longrightarrow> to_be_bytes k (from_be_bytes bs :: 'a::len word) = bs"
proof -
  assume len: "length bs = k" and bits: "LENGTH('a) = 8 * k"
  have "(256 :: nat) ^ k = 2 ^ LENGTH('a)" using bits by (simp add: power_mult)
  then have "be_nat bs < 2 ^ LENGTH('a)" using be_nat_less [of bs] len by simp
  then have "unat (from_be_bytes bs :: 'a word) = be_nat bs" by (simp add: from_be_bytes_def unat_of_nat)
  then show ?thesis using be_digits_nat [of bs] len by (simp add: to_be_bytes_def)
qed

text \<open>Reading is the inverse of encoding on the messages the format can carry, and reads nothing else.\<close>

lemma encode_parts:
  assumes "opaque_ok m"
  shows "opaque_encode m ! 0 = get_content_type (om_typ m)"
    and "take 2 (drop 1 (opaque_encode m)) = to_be_bytes 2 (get_protocol_version (om_version m))"
    and "unat (from_be_bytes (take 2 (drop 3 (opaque_encode m))) :: u16) = length (om_payload m)"
    and "drop 5 (opaque_encode m) = om_payload m"
proof -
  obtain a b where v: "to_be_bytes 2 (get_protocol_version (om_version m)) = [a, b]" using to_be_bytes_2 by blast
  obtain c d where n: "to_be_bytes 2 (word_of_nat (length (om_payload m)) :: u16) = [c, d]" using to_be_bytes_2 by blast
  have "unat (word_of_nat (length (om_payload m)) :: u16) = length (om_payload m)"
    using assms by (simp add: opaque_ok_def unat_MAX_PAYLOAD unat_of_nat)
  then have "unat (from_be_bytes [c, d] :: u16) = length (om_payload m)"
    using from_to_be_bytes [of 2 "word_of_nat (length (om_payload m)) :: u16"] n by simp
  then show "opaque_encode m ! 0 = get_content_type (om_typ m)"
    "take 2 (drop 1 (opaque_encode m)) = to_be_bytes 2 (get_protocol_version (om_version m))"
    "unat (from_be_bytes (take 2 (drop 3 (opaque_encode m))) :: u16) = length (om_payload m)"
    "drop 5 (opaque_encode m) = om_payload m"
    by (simp_all add: opaque_encode_eq v n)
qed

lemma typ_ok_from_get: "typ_ok t \<Longrightarrow> from_content_type (get_content_type t) = t"
  by (cases t) (simp_all add: typ_ok_def from_content_type_def)

lemma take_drop_prefix:
  assumes "bs = take k (xs @ rest)" and "i + j \<le> length bs" and "i + j \<le> length xs"
  shows "take j (drop i bs) = take j (drop i xs)"
proof -
  have "j \<le> k - i" using assms(1,2) by simp
  then have "take j (drop i bs) = take j (drop i (xs @ rest))" using assms(1) by (simp only: drop_take take_take min_def if_True)
  also have "\<dots> = take j (drop i xs)" using assms(3) by simp
  finally show ?thesis .
qed

lemma read_record_spec_prefix:
  assumes ok: "opaque_ok m" and pre: "bs = take k (opaque_encode m @ rest)"
  shows "read_record_spec bs =
     (if 5 + length (om_payload m) \<le> length bs then Inr (m, 5 + length (om_payload m))
      else if 5 \<le> length bs then Inl ME_TooShortForLength else Inl ME_TooShortForHeader)"
proof -
  have t: "typ_ok (om_typ m)" "from_content_type (get_content_type (om_typ m)) = om_typ m"
    using ok typ_ok_from_get by (simp_all add: opaque_ok_def)
  have v: "from_protocol_version (get_protocol_version (om_version m)) = om_version m" "\<not> bad_version (om_version m)"
    using ok by (simp_all add: opaque_ok_def version_ok_def)
  have typ0: "bs \<noteq> [] \<Longrightarrow> bs ! 0 = get_content_type (om_typ m)" using encode_parts(1) [OF ok] pre by (cases k) (simp_all add: nth_append)
  have "3 \<le> length bs \<Longrightarrow> take 2 (drop 1 bs) = take 2 (drop 1 (opaque_encode m))"
    using take_drop_prefix [OF pre, of 1 2] by simp
  then have ver: "3 \<le> length bs \<Longrightarrow> from_be_bytes (take 2 (drop 1 bs)) = get_protocol_version (om_version m)"
    using encode_parts(2) [OF ok] by (simp add: from_to_be_bytes)
  have lenf: "5 \<le> length bs \<Longrightarrow> take 2 (drop 3 bs) = take 2 (drop 3 (opaque_encode m))"
    using take_drop_prefix [OF pre, of 3 2] by simp
  have body: "5 + length (om_payload m) \<le> length bs \<Longrightarrow> take (length (om_payload m)) (drop 5 bs) = om_payload m"
    using encode_parts(4) [OF ok] take_drop_prefix [OF pre, of 5 "length (om_payload m)"] by simp
  have "length (om_payload m) < 18432" "om_typ m = CT_ApplicationData \<or> om_payload m \<noteq> []"
    using ok by (auto simp: opaque_ok_def unat_MAX_PAYLOAD)
  then show ?thesis
    by (auto simp: read_record_spec_def Let_def typ0 t v ver lenf body encode_parts(3) [OF ok] simp del: One_nat_def)
qed

lemma read_record_spec_sound:
  assumes "read_record_spec bs = Inr (m, n)"
  shows "opaque_ok m" and "n \<le> length bs" and "take n bs = opaque_encode m"
proof -
  let ?n = "unat (from_be_bytes (take 2 (drop 3 bs)) :: u16)"
  have m: "m = \<lparr>om_typ = from_content_type (bs ! 0), om_version = from_protocol_version (from_be_bytes (take 2 (drop 1 bs))),
      om_payload = take ?n (drop 5 bs)\<rparr>" and n: "n = 5 + ?n"
    and len: "5 + ?n \<le> length bs" "?n < 18432" and typ0: "typ_ok (from_content_type (bs ! 0))"
    and ver: "\<not> bad_version (from_protocol_version (from_be_bytes (take 2 (drop 1 bs))))"
    and nz: "from_content_type (bs ! 0) = CT_ApplicationData \<or> ?n \<noteq> 0"
    using assms by (auto simp: read_record_spec_def Let_def simp del: One_nat_def split: if_splits)
  show "n \<le> length bs" using n len(1) by simp
  show "opaque_ok m" using typ0 ver nz len by (auto simp: m opaque_ok_def version_ok_def unat_MAX_PAYLOAD)
  have "opaque_encode m = bs ! 0 # take 2 (drop 1 bs) @ take 2 (drop 3 bs) @ take ?n (drop 5 bs)"
    using len by (simp add: opaque_encode_eq m to_be_bytes_from)
  also have "\<dots> = take 1 bs @ take 2 (drop 1 bs) @ take 2 (drop 3 bs) @ take ?n (drop 5 bs)"
    using len(1) by (cases bs) simp_all
  also have "\<dots> = take (5 + ?n) bs"
    using take_add [of 1 2 bs] take_add [of 3 2 bs] take_add [of 5 ?n bs] by (simp del: One_nat_def)
  finally show "take n bs = opaque_encode m" by (simp add: n)
qed

text \<open>More input never changes a verdict other than \<^verbatim>\<open>TooShort\<close>.\<close>

lemma read_record_spec_append:
  assumes "read_record_spec bs \<notin> {Inl ME_TooShortForHeader, Inl ME_TooShortForLength}"
  shows "read_record_spec (bs @ later) = read_record_spec bs"
proof -
  have ne: "bs \<noteq> []" using assms by (auto simp: read_record_spec_def)
  then have hd: "(bs @ later) ! 0 = bs ! 0" by (simp add: nth_append)
  have v: "3 \<le> length bs \<Longrightarrow> take 2 (drop 1 (bs @ later)) = take 2 (drop 1 bs)" by simp
  have l: "5 \<le> length bs \<Longrightarrow> take 2 (drop 3 (bs @ later)) = take 2 (drop 3 bs)" by simp
  have b: "5 + n \<le> length bs \<Longrightarrow> take n (drop 5 (bs @ later)) = take n (drop 5 bs)" for n by simp
  show ?thesis
    using assms ne unfolding read_record_spec_def Let_def hd
    by (cases "3 \<le> length bs"; cases "5 \<le> length bs") (auto simp: v l b not_le simp del: One_nat_def drop_append take_append split: if_splits)
qed

section \<open>Change cipher spec and alerts\<close>

lemma read_alert_enc:
  assumes "from_alert_level (get_alert_level (alert_level a)) = alert_level a"
    and "from_alert_description (get_alert_description (alert_description a)) = alert_description a"
  shows "read_alert (rd_init (enc_alert a [])) = (Inr a, rd_advance (rd_init (enc_alert a [])) 2)"
proof -
  let ?r = "rd_init (enc_alert a [])"
  have bytes: "enc_alert a [] = [get_alert_level (alert_level a), get_alert_description (alert_description a)]"
    by (simp add: enc_alert_def enc_enum8_def enc_u8_def)
  have ok: "rd_ok (rd_advance ?r 1)" "rd_ok (rd_advance ?r 2)" by (rule rd_ok_advance; simp add: bytes)+
  show ?thesis
    using assms ok unfolding read_alert_def rd_bind_def expect_empty_def
    by (simp add: read_enum8_def read_u8_eq bytes any_left_todo numeral_2_eq_2)
qed

section \<open>Fragments\<close>

lemma chunks_spec:
  assumes "0 < n"
  shows "\<exists>cs. chunks n xs = Some cs \<and> concat cs = xs \<and> (\<forall>c \<in> set cs. c \<noteq> [] \<and> length c \<le> n)
    \<and> length cs = (length xs + n - 1) div n"
  using assms
proof (induction n xs rule: chunks.induct)
  case (1 n xs)
  show ?case
  proof (cases "xs = []")
    case True
    then show ?thesis using 1(2) by (subst chunks.simps) simp
  next
    case False
    then obtain cs where cs: "chunks n (drop n xs) = Some cs" "concat cs = drop n xs" "\<forall>c \<in> set cs. c \<noteq> [] \<and> length c \<le> n"
        "length cs = (length xs - n + n - 1) div n"
      using 1(1) [OF _ False] 1(2) by auto
    have "Suc (length cs) = (length xs + n - 1) div n"
    proof (cases "n \<le> length xs")
      case True
      then obtain k where k: "length xs = k + n" using le_Suc_ex [of n "length xs"] by (auto simp: add.commute)
      have "(k + n + n - 1) div n = (k + n - 1 + n) div n" using 1(2) by simp
      also have "\<dots> = Suc ((k + n - 1) div n)" using 1(2) by (subst div_add_self2) simp_all
      finally show ?thesis unfolding k using cs(4) k by simp
    next
      case less: False
      then have eq: "length xs + n - 1 = n + (length xs - 1)" and small: "length xs - 1 < n" using False by (cases xs; simp)+
      have "(n + (length xs - 1)) div n = 1" using small 1(2) by (subst div_add_self1) simp_all
      then show ?thesis unfolding eq using cs(4) less 1(2) by simp
    qed
    moreover have "chunks n xs = Some (take n xs # cs)" using cs(1) False 1(2) by (subst chunks.simps) simp
    moreover have "take n xs \<noteq> []" using False 1(2) by simp
    ultimately show ?thesis using cs(2,3) by (intro exI [of _ "take n xs # cs"]) simp
  qed
qed

section \<open>Properties\<close>

text \<open>The record codec: a message the format can carry is read back from its encoding, with the cursor right behind
  it; a reader that holds only a strict prefix of it reports that it is too short and nothing else; and whatever the
  reader accepts is such a message, whose encoding is exactly the bytes it consumed.\<close>

theorem tls_record_roundtrip:
  assumes "opaque_ok m" and "rd_ok r" and "rd_todo r = opaque_encode m @ rest"
    and "rd_ok q" and "rd_todo q = take k (opaque_encode m)" and "k < length (opaque_encode m)"
    and "rd_ok s"
  shows "opaque_read r = (Inr m, rd_advance r (length (opaque_encode m)))
    \<and> fst (opaque_read q) = Inl (if 5 \<le> k then ME_TooShortForLength else ME_TooShortForHeader)
    \<and> (fst (opaque_read s) = Inr m' \<longrightarrow> opaque_ok m' \<and> (\<exists>n. snd (opaque_read s) = rd_advance s n \<and> take n (rd_todo s) = opaque_encode m'))"
proof (intro conjI)
  have "read_record_spec (rd_todo r) = Inr (m, length (opaque_encode m))"
    using read_record_spec_prefix [OF assms(1), of "rd_todo r" "length (rd_todo r)" rest] assms(3) by simp
  then show "opaque_read r = (Inr m, rd_advance r (length (opaque_encode m)))"
    using opaque_read_spec [OF assms(2)] by (simp add: prod_eq_iff)
  show "fst (opaque_read q) = Inl (if 5 \<le> k then ME_TooShortForLength else ME_TooShortForHeader)"
    using read_record_spec_prefix [OF assms(1), of "rd_todo q" k "[]"] opaque_read_spec(1) [OF assms(4)] assms(5,6) by simp
  show "fst (opaque_read s) = Inr m' \<longrightarrow> opaque_ok m' \<and> (\<exists>n. snd (opaque_read s) = rd_advance s n \<and> take n (rd_todo s) = opaque_encode m')"
    using opaque_read_spec [OF assms(7)] read_record_spec_sound [of "rd_todo s"] by (auto split: sum.splits)
qed

lemma be_digits_2: "be_digits 2 n = [word_of_nat (n div 256 mod 256), word_of_nat (n mod 256)]"
  by (simp add: numeral_2_eq_2)

lemma be_3: "to_be_bytes 2 (3 :: u16) = [0, 3]" "to_be_bytes 2 (771 :: u16) = [3, 3]"
  by (simp_all add: to_be_bytes_def be_digits_2)

lemma example_record: "opaque_ok \<lparr>om_typ = CT_Alert, om_version = PV_TLSv1_2, om_payload = [1, 2, 3]\<rparr>"
    "opaque_encode \<lparr>om_typ = CT_Alert, om_version = PV_TLSv1_2, om_payload = [1, 2, 3]\<rparr> = [21, 3, 3, 0, 3, 1, 2, 3]"
  by (simp_all add: opaque_ok_def typ_ok_def version_ok_def bad_version_def from_protocol_version_def unat_MAX_PAYLOAD opaque_encode_eq be_3)

theorem tls_record_roundtrip_witness:
  "fst (opaque_read (rd_init [21, 3, 3, 0, 3, 1, 2, 3, 22])) = Inr \<lparr>om_typ = CT_Alert, om_version = PV_TLSv1_2, om_payload = [1, 2, 3]\<rparr>
   \<and> fst (opaque_read (rd_init [21, 3, 3, 0, 3, 1])) = Inl ME_TooShortForLength"
  using tls_record_roundtrip [OF example_record(1), of "rd_init [21, 3, 3, 0, 3, 1, 2, 3, 22]" "[22]" "rd_init [21, 3, 3, 0, 3, 1]" 6 "rd_init []"]
  by (simp add: example_record(2))

text \<open>Every wire value of the enumerations has exactly one name, and the codec of each enumeration gives back the
  value read; alerts round-trip through their two bytes.\<close>

theorem tls_enum_roundtrip:
  "get_content_type (from_content_type b) = b \<and> get_protocol_version (from_protocol_version v) = v
   \<and> get_handshake_type (from_handshake_type b) = b \<and> get_alert_level (from_alert_level b) = b
   \<and> get_alert_description (from_alert_description b) = b
   \<and> read_alert (rd_init [b, c]) = (Inr \<lparr>alert_level = from_alert_level b, alert_description = from_alert_description c\<rparr>, rd_advance (rd_init [b, c]) 2)
   \<and> enc_alert \<lparr>alert_level = from_alert_level b, alert_description = from_alert_description c\<rparr> [] = [b, c]"
proof -
  let ?a = "\<lparr>alert_level = from_alert_level b, alert_description = from_alert_description c\<rparr>"
  have "enc_alert ?a [] = [b, c]" by (simp add: enc_alert_def enc_enum8_def enc_u8_def)
  then show ?thesis using read_alert_enc [of ?a] by simp
qed

text \<open>Fragmenting: with any fragment size the setter accepts, a payload is split without panic into the least number
  of pieces that fit, all of the same type and version, none of them empty, whose concatenation is the payload.\<close>

theorem tls_fragment_correct:
  assumes "set_max_fragment_size f sz = (f', True)"
  shows "\<exists>ms. fragment_message f' m = Some ms
      \<and> concat (map pm_payload ms) = pm_payload m
      \<and> length ms = (length (pm_payload m) + max_frag f' - 1) div max_frag f'
      \<and> (\<forall>x \<in> set ms. pm_typ x = pm_typ m \<and> pm_version x = pm_version m \<and> 0 < length (pm_payload x)
            \<and> length (pm_payload x) + PACKET_OVERHEAD \<le> (case sz of Some n \<Rightarrow> n | None \<Rightarrow> MAX_FRAGMENT_SIZE)
            \<and> (typ_ok (pm_typ m) \<and> version_ok (pm_version m) \<longrightarrow> opaque_ok (into_unencrypted_opaque x)))"
proof -
  have frag: "27 \<le> max_frag f'" "max_frag f' + PACKET_OVERHEAD \<le> (case sz of Some n \<Rightarrow> n | None \<Rightarrow> MAX_FRAGMENT_SIZE)" "max_frag f' \<le> 16384"
    using assms by (auto simp: set_max_fragment_size_def PACKET_OVERHEAD_def MAX_FRAGMENT_SIZE_def MAX_FRAGMENT_LEN_def split: option.splits if_splits)
  obtain cs where cs: "chunks (max_frag f') (pm_payload m) = Some cs" "concat cs = pm_payload m"
      "\<forall>c \<in> set cs. c \<noteq> [] \<and> length c \<le> max_frag f'" "length cs = (length (pm_payload m) + max_frag f' - 1) div max_frag f'"
    using chunks_spec [of "max_frag f'" "pm_payload m"] frag(1) by auto
  let ?ms = "map (\<lambda>c. \<lparr>pm_typ = pm_typ m, pm_version = pm_version m, pm_payload = c\<rparr>) cs"
  have fits: "length c + PACKET_OVERHEAD \<le> (case sz of Some n \<Rightarrow> n | None \<Rightarrow> MAX_FRAGMENT_SIZE)" "length c < unat MAX_PAYLOAD" if "c \<in> set cs" for c
    using cs(3) frag(2,3) that by (fastforce simp: unat_MAX_PAYLOAD)+
  have "\<forall>x \<in> set ?ms. pm_typ x = pm_typ m \<and> pm_version x = pm_version m \<and> 0 < length (pm_payload x)
      \<and> length (pm_payload x) + PACKET_OVERHEAD \<le> (case sz of Some n \<Rightarrow> n | None \<Rightarrow> MAX_FRAGMENT_SIZE)
      \<and> (typ_ok (pm_typ m) \<and> version_ok (pm_version m) \<longrightarrow> opaque_ok (into_unencrypted_opaque x))"
    using cs(3) fits by (simp add: opaque_ok_def into_unencrypted_opaque_def)
  then show "\<exists>ms. fragment_message f' m = Some ms
      \<and> concat (map pm_payload ms) = pm_payload m
      \<and> length ms = (length (pm_payload m) + max_frag f' - 1) div max_frag f'
      \<and> (\<forall>x \<in> set ms. pm_typ x = pm_typ m \<and> pm_version x = pm_version m \<and> 0 < length (pm_payload x)
            \<and> length (pm_payload x) + PACKET_OVERHEAD \<le> (case sz of Some n \<Rightarrow> n | None \<Rightarrow> MAX_FRAGMENT_SIZE)
            \<and> (typ_ok (pm_typ m) \<and> version_ok (pm_version m) \<longrightarrow> opaque_ok (into_unencrypted_opaque x)))"
    using cs(1,2,4) by (intro exI [of _ ?ms]) (simp add: fragment_message_def fragment_slice_def comp_def)
qed

theorem tls_fragment_correct_witness:
  "\<exists>ms. fragment_message \<lparr>max_frag = 27\<rparr> \<lparr>pm_typ = CT_Handshake, pm_version = PV_TLSv1_2, pm_payload = replicate 60 0\<rparr> = Some ms \<and> length ms = 3"
proof -
  have "set_max_fragment_size fragmenter_default (Some 32) = (\<lparr>max_frag = 27\<rparr>, True)"
    by (simp add: set_max_fragment_size_def fragmenter_default_def MAX_FRAGMENT_SIZE_def MAX_FRAGMENT_LEN_def PACKET_OVERHEAD_def)
  from tls_fragment_correct [OF this, of "\<lparr>pm_typ = CT_Handshake, pm_version = PV_TLSv1_2, pm_payload = replicate 60 0\<rparr>"]
  show ?thesis by auto
qed

end
