(* ===== verification/Tls_Record_Layer.thy ===== *)
theory Tls_Record_Layer
  imports Tls_Message_Correct
begin

text \<open>
  The record layer of \<^verbatim>\<open>rustls-0.21.2/rustls/src/record_layer.rs\<close> with the nonce construction of \<^verbatim>\<open>cipher.rs\<close> and the
  error type of \<^verbatim>\<open>error.rs\<close>. The ciphers themselves (trait objects over \<^verbatim>\<open>ring\<close>) are the function-valued fields
  of the state. Sequence numbers are 64-bit words.
\<close>

section \<open>Errors\<close>

text \<open>Errors of other crates and of user callbacks are opaque: a number tells them apart.\<close>

datatype std_error = StdError nat
datatype sct_error = SctError nat

datatype (plugins only: code) PeerMisbehaved =
    PM_AttemptedDowngradeToTls12WhenTls13IsSupported | PM_BadCertChainExtensions
    | PM_DisallowedEncryptedExtension | PM_DuplicateClientHelloExtensions | PM_DuplicateEncryptedExtensions
    | PM_DuplicateHelloRetryRequestExtensions | PM_DuplicateNewSessionTicketExtensions
    | PM_DuplicateServerHelloExtensions | PM_DuplicateServerNameTypes
    | PM_EarlyDataAttemptedInSecondClientHello | PM_EarlyDataExtensionWithoutResumption
    | PM_EarlyDataOfferedWithVariedCipherSuite | PM_HandshakeHashVariedAfterRetry
    | PM_IllegalHelloRetryRequestWithEmptyCookie | PM_IllegalHelloRetryRequestWithNoChanges
    | PM_IllegalHelloRetryRequestWithOfferedGroup | PM_IllegalHelloRetryRequestWithUnofferedCipherSuite
    | PM_IllegalHelloRetryRequestWithUnofferedNamedGroup | PM_IllegalHelloRetryRequestWithUnsupportedVersion
    | PM_IllegalMiddleboxChangeCipherSpec | PM_IllegalTlsInnerPlaintext | PM_IncorrectBinder
    | PM_InvalidMaxEarlyDataSize | PM_InvalidKeyShare | PM_InvalidSctList | PM_KeyEpochWithPendingFragment
    | PM_KeyUpdateReceivedInQuicConnection | PM_MessageInterleavedWithHandshakeMessage
    | PM_MissingBinderInPskExtension | PM_MissingKeyShare | PM_MissingPskModesExtension
    | PM_MissingQuicTransportParameters | PM_OfferedDuplicateKeyShares
    | PM_OfferedEarlyDataWithOldProtocolVersion | PM_OfferedEmptyApplicationProtocol
    | PM_OfferedIncorrectCompressions | PM_PskExtensionMustBeLast | PM_PskExtensionWithMismatchedIdsAndBinders
    | PM_RefusedToFollowHelloRetryRequest | PM_RejectedEarlyDataInterleavedWithHandshakeMessage
    | PM_ResumptionAttemptedWithVariedEms | PM_ResumptionOfferedWithVariedCipherSuite
    | PM_ResumptionOfferedWithVariedEms | PM_ResumptionOfferedWithIncompatibleCipherSuite
    | PM_SelectedDifferentCipherSuiteAfterRetry | PM_SelectedInvalidPsk
    | PM_SelectedTls12UsingTls13VersionExtension | PM_SelectedUnofferedApplicationProtocol
    | PM_SelectedUnofferedCipherSuite | PM_SelectedUnofferedCompression | PM_SelectedUnofferedKxGroup
    | PM_SelectedUnofferedPsk | PM_SelectedUnusableCipherSuiteForVersion
    | PM_ServerHelloMustOfferUncompressedEcPoints | PM_ServerNameDifferedOnRetry
    | PM_ServerNameMustContainOneHostName | PM_SignedKxWithWrongAlgorithm
    | PM_SignedHandshakeWithUnadvertisedSigScheme | PM_TooMuchEarlyDataReceived
    | PM_UnexpectedCleartextExtension | PM_UnsolicitedCertExtension | PM_UnsolicitedEncryptedExtension
    | PM_UnsolicitedSctList | PM_UnsolicitedServerHelloExtension | PM_WrongGroupForKeyShare

datatype PeerIncompatible =
    PI_EcPointsExtensionRequired | PI_KeyShareExtensionRequired | PI_NamedGroupsExtensionRequired
    | PI_NoCertificateRequestSignatureSchemesInCommon | PI_NoCipherSuitesInCommon
    | PI_NoEcPointFormatsInCommon | PI_NoKxGroupsInCommon | PI_NoSignatureSchemesInCommon
    | PI_NullCompressionRequired | PI_ServerDoesNotSupportTls12Or13
    | PI_ServerSentHelloRetryRequestWithUnknownExtension | PI_ServerTlsVersionIsDisabledByOurConfig
    | PI_SignatureAlgorithmsExtensionRequired | PI_SupportedVersionsExtensionRequired | PI_Tls12NotOffered
    | PI_Tls12NotOfferedOrEnabled | PI_Tls13RequiredForQuic | PI_UncompressedEcPointsRequired

datatype CertificateError =
    CE_BadEncoding | CE_Expired | CE_NotValidYet | CE_Revoked | CE_UnhandledCriticalExtension
    | CE_UnknownIssuer | CE_BadSignature | CE_NotValidForName | CE_InvalidPurpose
    | CE_ApplicationVerificationFailure | CE_Other std_error

datatype TlsError =
    E_InappropriateMessage "ContentType list" ContentType
  | E_InappropriateHandshakeMessage "HandshakeType list" HandshakeType
  | E_InvalidMessage InvalidMessage
  | E_NoCertificatesPresented
  | E_UnsupportedNameType
  | E_DecryptError
  | E_EncryptError
  | E_PeerIncompatible PeerIncompatible
  | E_PeerMisbehaved PeerMisbehaved
  | E_AlertReceived AlertDescription
  | E_InvalidCertificate CertificateError
  | E_InvalidSct sct_error
  | E_General string
  | E_FailedToGetCurrentTime
  | E_FailedToGetRandomBytes
  | E_HandshakeNotComplete
  | E_PeerSentOversizedRecord
  | E_NoApplicationProtocol
  | E_BadMaxFragmentSize

section \<open>Ciphers and nonces\<close>

type_synonym MessageDecrypter = "OpaqueMessage \<Rightarrow> u64 \<Rightarrow> TlsError + PlainMessage"
type_synonym MessageEncrypter = "PlainMessage \<Rightarrow> u64 \<Rightarrow> TlsError + OpaqueMessage"

definition invalid_encrypter :: MessageEncrypter where
  "invalid_encrypter m seq = Inl E_EncryptError"

definition invalid_decrypter :: MessageDecrypter where
  "invalid_decrypter m seq = Inl E_DecryptError"

text \<open>An IV has \<^verbatim>\<open>NONCE_LEN\<close>, that is twelve, bytes.\<close>

definition make_nonce :: "u8 list \<Rightarrow> u64 \<Rightarrow> u8 list may_panic" where
  "make_nonce iv seq =
     (let nonce = replicate 12 0 in
      do { tl4 \<leftarrow> slice nonce 4 12;
           tl4 \<leftarrow> put_u64 seq tl4;
           Some (map2 (\<lambda>n i. n XOR i) (overwrite nonce 4 tl4) iv) })"

section \<open>The record layer\<close>

definition SEQ_SOFT_LIMIT :: u64 where "SEQ_SOFT_LIMIT = 0xffffffffffff0000"
definition SEQ_HARD_LIMIT :: u64 where "SEQ_HARD_LIMIT = 0xfffffffffffffffe"

datatype DirectionState = DS_Invalid | DS_Prepared | DS_Active

record RecordLayer =
  message_encrypter :: MessageEncrypter
  message_decrypter :: MessageDecrypter
  write_seq :: u64
  read_seq :: u64
  encrypt_state :: DirectionState
  decrypt_state :: DirectionState
  trial_decryption_len :: "nat option"

record Decrypted =
  want_close_before_decrypt :: bool
  plaintext :: PlainMessage

definition rl_new :: RecordLayer where
  "rl_new = \<lparr>message_encrypter = invalid_encrypter, message_decrypter = invalid_decrypter, write_seq = 0, read_seq = 0,
     encrypt_state = DS_Invalid, decrypt_state = DS_Invalid, trial_decryption_len = None\<rparr>"

definition is_encrypting :: "RecordLayer \<Rightarrow> bool" where
  "is_encrypting rl \<longleftrightarrow> encrypt_state rl = DS_Active"

definition doing_trial_decryption :: "RecordLayer \<Rightarrow> nat \<Rightarrow> bool \<times> RecordLayer" where
  "doing_trial_decryption rl requested =
     (case trial_decryption_len rl of
        Some val \<Rightarrow> if requested \<le> val then (True, rl\<lparr>trial_decryption_len := Some (val - requested)\<rparr>) else (False, rl)
      | None \<Rightarrow> (False, rl))"

definition prepare_message_encrypter :: "RecordLayer \<Rightarrow> MessageEncrypter \<Rightarrow> RecordLayer" where
  "prepare_message_encrypter rl cipher = rl\<lparr>message_encrypter := cipher, write_seq := 0, encrypt_state := DS_Prepared\<rparr>"

definition prepare_message_decrypter :: "RecordLayer \<Rightarrow> MessageDecrypter \<Rightarrow> RecordLayer" where
  "prepare_message_decrypter rl cipher = rl\<lparr>message_decrypter := cipher, read_seq := 0, decrypt_state := DS_Prepared\<rparr>"

definition start_encrypting :: "RecordLayer \<Rightarrow> RecordLayer" where
  "start_encrypting rl = rl\<lparr>encrypt_state := DS_Active\<rparr>"

definition start_decrypting :: "RecordLayer \<Rightarrow> RecordLayer" where
  "start_decrypting rl = rl\<lparr>decrypt_state := DS_Active\<rparr>"

definition set_message_encrypter :: "RecordLayer \<Rightarrow> MessageEncrypter \<Rightarrow> RecordLayer" where
  "set_message_encrypter rl cipher = start_encrypting (prepare_message_encrypter rl cipher)"

definition set_message_decrypter :: "RecordLayer \<Rightarrow> MessageDecrypter \<Rightarrow> RecordLayer" where
  "set_message_decrypter rl cipher = (start_decrypting (prepare_message_decrypter rl cipher))\<lparr>trial_decryption_len := None\<rparr>"

definition set_message_decrypter_with_trial_decryption :: "RecordLayer \<Rightarrow> MessageDecrypter \<Rightarrow> nat \<Rightarrow> RecordLayer" where
  "set_message_decrypter_with_trial_decryption rl cipher max_length =
     (start_decrypting (prepare_message_decrypter rl cipher))\<lparr>trial_decryption_len := Some max_length\<rparr>"

definition finish_trial_decryption :: "RecordLayer \<Rightarrow> RecordLayer" where
  "finish_trial_decryption rl = rl\<lparr>trial_decryption_len := None\<rparr>"

definition wants_close_before_encrypt :: "RecordLayer \<Rightarrow> bool" where
  "wants_close_before_encrypt rl \<longleftrightarrow> write_seq rl = SEQ_SOFT_LIMIT"

definition encrypt_exhausted :: "RecordLayer \<Rightarrow> bool" where
  "encrypt_exhausted rl \<longleftrightarrow> SEQ_HARD_LIMIT \<le> write_seq rl"

definition decrypt_incoming :: "RecordLayer \<Rightarrow> OpaqueMessage \<Rightarrow> (TlsError + Decrypted option) \<times> RecordLayer" where
  "decrypt_incoming rl encr =
     (if decrypt_state rl \<noteq> DS_Active
      then (Inr (Some \<lparr>want_close_before_decrypt = False, plaintext = into_plain_message encr\<rparr>), rl)
      else
        let close = (read_seq rl = SEQ_SOFT_LIMIT); encrypted_len = length (om_payload encr)
        in (case message_decrypter rl encr (read_seq rl) of
              Inr plain \<Rightarrow> (Inr (Some \<lparr>want_close_before_decrypt = close, plaintext = plain\<rparr>), rl\<lparr>read_seq := read_seq rl + 1\<rparr>)
            | Inl err \<Rightarrow>
                if err = E_DecryptError
                then (case doing_trial_decryption rl encrypted_len of
                        (True, rl) \<Rightarrow> (Inr None, rl)
                      | (False, rl) \<Rightarrow> (Inl err, rl))
                else (Inl err, rl)))"

definition encrypt_outgoing :: "RecordLayer \<Rightarrow> PlainMessage \<Rightarrow> (OpaqueMessage \<times> RecordLayer) may_panic" where
  "encrypt_outgoing rl plain =
     do { rust_assert (\<not> encrypt_exhausted rl);
          case message_encrypter rl plain (write_seq rl) of
            Inl _ \<Rightarrow> None
          | Inr em \<Rightarrow> Some (em, rl\<lparr>write_seq := write_seq rl + 1\<rparr>) }"

end
