(* ===== verification/Tls_Record_Layer_Correct.thy ===== *)
theory Tls_Record_Layer_Correct
  imports Tls_Record_Layer
begin

text \<open>
  Safety of the record layer: over every run, the records sealed with one key are sealed with the numbers 0, 1, 2 and so on, and
  encryption stops before they wrap, so that no key is ever used with the same nonce twice; and trial decryption drops at
  most the number of bytes it was given.
\<close>

section \<open>Nonces\<close>

lemma xor_right_cancel: "(a :: 'a::len word) XOR c = b XOR c \<longleftrightarrow> a = b"
proof
  assume "a XOR c = b XOR c"
  then have "(a XOR c) XOR c = (b XOR c) XOR c" by simp
  then show "a = b" by (simp add: xor.assoc)
qed simp

lemma map2_xor_inj:
  fixes iv :: "'a::len word list"
  assumes "length xs = length iv" and "length ys = length iv" and "map2 (\<lambda>n i. n XOR i) xs iv = map2 (\<lambda>n i. n XOR i) ys iv"
  shows "xs = ys"
proof (rule nth_equalityI)
  show "length xs = length ys" using assms by simp
  show "xs ! i = ys ! i" if "i < length xs" for i
    using arg_cong [OF assms(3), of "\<lambda>zs. zs ! i"] that assms(1,2) by (simp add: xor_right_cancel)
qed

lemma make_nonce_eq:
  assumes "length iv = 12"
  shows "make_nonce iv seq = Some (map2 (\<lambda>n i. n XOR i) (replicate 4 0 @ to_be_bytes 8 seq) iv)"
proof -
  have "slice (replicate 12 (0 :: u8)) 4 12 = Some (replicate 8 0)" by (simp add: slice_def)
  moreover have "put_u64 seq (replicate 8 0) = Some (to_be_bytes 8 seq)" by (simp add: put_u64_def slice_def overwrite_def)
  moreover have "overwrite (replicate 12 (0 :: u8)) 4 (to_be_bytes 8 seq) = replicate 4 0 @ to_be_bytes 8 seq" by (simp add: overwrite_def)
  ultimately show ?thesis by (simp add: make_nonce_def)
qed

lemma to_be_bytes_inj: "to_be_bytes 8 (a :: u64) = to_be_bytes 8 b \<Longrightarrow> a = b"
  by (drule arg_cong [of _ _ "from_be_bytes :: _ \<Rightarrow> u64"]) (simp add: from_to_be_bytes)

lemma make_nonce_inj:
  assumes "length iv = 12" and "make_nonce iv a = make_nonce iv b"
  shows "a = b"
proof -
  have "replicate 4 0 @ to_be_bytes 8 a = replicate 4 0 @ to_be_bytes 8 b"
    by (rule map2_xor_inj [of _ iv]) (use assms in \<open>simp_all add: make_nonce_eq\<close>)
  then show ?thesis by (simp add: to_be_bytes_inj)
qed

section \<open>Runs of the record layer\<close>

text \<open>The operations; encryption keys are named, and \<open>enc k\<close> is the encrypter of the key \<open>k\<close>. An operation may emit a record.\<close>

datatype 'k RlOp =
    PrepareEnc 'k | PrepareDec MessageDecrypter | StartEnc | StartDec | SetEnc 'k
  | SetDec MessageDecrypter | SetDecTrial MessageDecrypter nat | FinishTrial | Encrypt PlainMessage | Decrypt OpaqueMessage

fun rl_exec :: "('k \<Rightarrow> MessageEncrypter) \<Rightarrow> 'k RlOp \<Rightarrow> RecordLayer \<Rightarrow> (OpaqueMessage option \<times> RecordLayer) may_panic" where
  "rl_exec enc (PrepareEnc k) rl = Some (None, prepare_message_encrypter rl (enc k))"
| "rl_exec enc (PrepareDec c) rl = Some (None, prepare_message_decrypter rl c)"
| "rl_exec enc StartEnc rl = Some (None, start_encrypting rl)"
| "rl_exec enc StartDec rl = Some (None, start_decrypting rl)"
| "rl_exec enc (SetEnc k) rl = Some (None, set_message_encrypter rl (enc k))"
| "rl_exec enc (SetDec c) rl = Some (None, set_message_decrypter rl c)"
| "rl_exec enc (SetDecTrial c n) rl = Some (None, set_message_decrypter_with_trial_decryption rl c n)"
| "rl_exec enc FinishTrial rl = Some (None, finish_trial_decryption rl)"
| "rl_exec enc (Encrypt m) rl = map_option (\<lambda>(em, rl). (Some em, rl)) (encrypt_outgoing rl m)"
| "rl_exec enc (Decrypt m) rl = Some (None, snd (decrypt_incoming rl m))"

text \<open>The keys installed by an operation, and what it adds to the log: the key in use, the message and the record emitted for it. The
  keys in use are listed with the newest first.\<close>

fun rl_installs :: "'k RlOp \<Rightarrow> 'k list" where
  "rl_installs (PrepareEnc k) = [k]"
| "rl_installs (SetEnc k) = [k]"
| "rl_installs _ = []"

type_synonym 'k rl_log = "('k \<times> PlainMessage \<times> OpaqueMessage) list"

fun rl_logs :: "'k RlOp \<Rightarrow> 'k list \<Rightarrow> OpaqueMessage option \<Rightarrow> 'k rl_log" where
  "rl_logs (Encrypt m) ks (Some em) = (case ks of k # _ \<Rightarrow> [(k, m, em)] | [] \<Rightarrow> [])"
| "rl_logs _ ks out = []"

text \<open>A run: any operations in any order, as long as each key is installed only once.\<close>

inductive rl_run :: "('k \<Rightarrow> MessageEncrypter) \<Rightarrow> 'k list \<Rightarrow> 'k rl_log \<Rightarrow> RecordLayer \<Rightarrow> bool" for enc where
  rl_run_new: "rl_run enc [] [] rl_new"
| rl_run_step: "rl_run enc ks log rl \<Longrightarrow> set (rl_installs op) \<inter> set ks = {} \<Longrightarrow> rl_exec enc op rl = Some (out, rl')
    \<Longrightarrow> rl_run enc (rl_installs op @ ks) (log @ rl_logs op ks out) rl'"

text \<open>The number of records sealed with the same key before the \<open>i\<close>-th of the log.\<close>

definition seq_at :: "'k rl_log \<Rightarrow> nat \<Rightarrow> nat" where
  "seq_at log i = count_list (map fst (take i log)) (fst (log ! i))"

definition sealed_in_turn :: "('k \<Rightarrow> MessageEncrypter) \<Rightarrow> 'k rl_log \<Rightarrow> bool" where
  "sealed_in_turn enc log \<longleftrightarrow> (\<forall>i < length log. seq_at log i < unat SEQ_HARD_LIMIT
     \<and> (case log ! i of (k, m, em) \<Rightarrow> enc k m (word_of_nat (seq_at log i)) = Inr em))"

definition rl_inv :: "('k \<Rightarrow> MessageEncrypter) \<Rightarrow> 'k list \<Rightarrow> 'k rl_log \<Rightarrow> RecordLayer \<Rightarrow> bool" where
  "rl_inv enc ks log rl \<longleftrightarrow> sealed_in_turn enc log \<and> fst ` set log \<subseteq> set ks \<and> write_seq rl \<le> SEQ_HARD_LIMIT
     \<and> (case ks of [] \<Rightarrow> message_encrypter rl = invalid_encrypter
        | k # _ \<Rightarrow> message_encrypter rl = enc k \<and> unat (write_seq rl) = count_list (map fst log) k)"

lemma encrypt_outgoing_Some:
  assumes "encrypt_outgoing rl m = Some (em, rl')"
  shows "write_seq rl < SEQ_HARD_LIMIT" and "rl' = rl\<lparr>write_seq := write_seq rl + 1\<rparr>"
    and "message_encrypter rl m (write_seq rl) = Inr em"
proof -
  show w: "write_seq rl < SEQ_HARD_LIMIT"
    using assms by (cases "encrypt_exhausted rl") (simp_all add: encrypt_outgoing_def encrypt_exhausted_def)
  then show "rl' = rl\<lparr>write_seq := write_seq rl + 1\<rparr>" "message_encrypter rl m (write_seq rl) = Inr em"
    using assms by (auto simp: encrypt_outgoing_def encrypt_exhausted_def not_le split: sum.splits)
qed

lemma decrypt_keeps_writing [simp]:
  "write_seq (snd (decrypt_incoming rl m)) = write_seq rl" "message_encrypter (snd (decrypt_incoming rl m)) = message_encrypter rl"
  by (simp_all add: decrypt_incoming_def Let_def doing_trial_decryption_def split: sum.split option.split)

lemma seq_step: "(w :: u64) < SEQ_HARD_LIMIT \<Longrightarrow> w < w + 1 \<and> w + 1 \<le> SEQ_HARD_LIMIT \<and> unat (w + 1) = Suc (unat w)"
  unfolding SEQ_HARD_LIMIT_def by unat_arith auto

lemma sealed_in_turn_snoc:
  "sealed_in_turn enc (log @ [(k, m, em)]) \<longleftrightarrow> sealed_in_turn enc log \<and> count_list (map fst log) k < unat SEQ_HARD_LIMIT
     \<and> enc k m (word_of_nat (count_list (map fst log) k)) = Inr em"
proof -
  have "seq_at (log @ [e]) i = seq_at log i" if "i < length log" for i e using that by (simp add: seq_at_def nth_append)
  moreover have "seq_at (log @ [(k, m, em)]) (length log) = count_list (map fst log) k" by (simp add: seq_at_def)
  ultimately show ?thesis by (auto simp: sealed_in_turn_def less_Suc_eq nth_append)
qed

lemma rl_inv_keep:
  "rl_inv enc ks log rl \<Longrightarrow> write_seq rl' = write_seq rl \<Longrightarrow> message_encrypter rl' = message_encrypter rl \<Longrightarrow> rl_inv enc ks log rl'"
  by (simp add: rl_inv_def split: list.splits)

lemma rl_inv_new_key:
  assumes "rl_inv enc ks log rl" and "k \<notin> set ks" and "write_seq rl' = 0" and "message_encrypter rl' = enc k"
  shows "rl_inv enc (k # ks) log rl'"
proof -
  have "k \<notin> set (map fst log)" using assms(1,2) by (auto simp: rl_inv_def)
  then have "count_list (map fst log) k = 0" by (simp add: count_list_0_iff)
  then show ?thesis using assms by (auto simp: rl_inv_def)
qed

lemma rl_inv_encrypt:
  assumes "rl_inv enc ks log rl" and "encrypt_outgoing rl m = Some (em, rl')"
  shows "rl_inv enc ks (log @ rl_logs (Encrypt m) ks (Some em)) rl'"
proof (cases ks)
  case Nil
  then show ?thesis using assms encrypt_outgoing_Some(3) [OF assms(2)] by (simp add: rl_inv_def invalid_encrypter_def)
next
  case (Cons k ks')
  note e = encrypt_outgoing_Some [OF assms(2)] and step = seq_step [OF encrypt_outgoing_Some(1) [OF assms(2)]]
  have w: "message_encrypter rl = enc k" "unat (write_seq rl) = count_list (map fst log) k" using assms(1) Cons by (simp_all add: rl_inv_def)
  have "word_of_nat (count_list (map fst log) k) = write_seq rl" unfolding w(2) [symmetric] by simp
  moreover have "count_list (map fst log) k < unat SEQ_HARD_LIMIT" using e(1) w(2) by (simp add: word_less_nat_alt)
  ultimately show ?thesis using assms(1) e step w Cons by (simp add: rl_inv_def sealed_in_turn_snoc)
qed

lemma rl_run_inv: "rl_run enc ks log rl \<Longrightarrow> rl_inv enc ks log rl"
proof (induction rule: rl_run.induct)
  case rl_run_new
  then show ?case by (simp add: rl_inv_def sealed_in_turn_def rl_new_def)
next
  case (rl_run_step ks log rl op out rl')
  show ?case
    using rl_run_step.hyps(2,3) rl_run_step.IH rl_inv_encrypt [OF rl_run_step.IH]
    by (cases op)
      (auto simp: prepare_message_encrypter_def prepare_message_decrypter_def start_encrypting_def start_decrypting_def
        set_message_encrypter_def set_message_decrypter_def set_message_decrypter_with_trial_decryption_def finish_trial_decryption_def
        simp del: rl_logs.simps(1) intro!: rl_inv_new_key [where rl = rl] elim!: rl_inv_keep)
qed

text \<open>Under one key no two records of a log have the same number.\<close>

lemma seq_at_inj:
  assumes "i < length log" and "j < length log" and "fst (log ! i) = fst (log ! j)" and "seq_at log i = seq_at log j"
  shows "i = j"
proof -
  have less: "seq_at log a < seq_at log b" if "a < b" "b < length log" "fst (log ! a) = fst (log ! b)" for a b
  proof -
    have "take b log = take a log @ log ! a # drop (Suc a) (take b log)"
      using that(1,2) id_take_nth_drop [of a "take b log"] by (simp add: min_def)
    then have "count_list (map fst (take b log)) (fst (log ! b))
        = count_list (map fst (take a log @ log ! a # drop (Suc a) (take b log))) (fst (log ! b))" by simp
    then show ?thesis using that(3) by (simp add: seq_at_def)
  qed
  show ?thesis using less [of i j] less [of j i] assms by (cases i j rule: linorder_cases) auto
qed

section \<open>Trial decryption\<close>

text \<open>Decrypting a sequence of records: the results, and the state after them.\<close>

fun decrypt_seq :: "RecordLayer \<Rightarrow> OpaqueMessage list \<Rightarrow> (TlsError + Decrypted option) list \<times> RecordLayer" where
  "decrypt_seq rl [] = ([], rl)"
| "decrypt_seq rl (m # ms) = (let (res, rl) = decrypt_incoming rl m; (rs, rl) = decrypt_seq rl ms in (res # rs, rl))"

definition skipped_bytes :: "OpaqueMessage list \<Rightarrow> (TlsError + Decrypted option) list \<Rightarrow> nat" where
  "skipped_bytes ms rs = sum_list (map (\<lambda>(m, r). if r = Inr None then length (om_payload m) else 0) (zip ms rs))"

definition accepted :: "(TlsError + Decrypted option) list \<Rightarrow> nat" where
  "accepted rs = length (filter (\<lambda>r. \<exists>d. r = Inr (Some d)) rs)"

lemma decrypt_incoming_trial:
  assumes "decrypt_state rl = DS_Active" and "trial_decryption_len rl = Some n" and "decrypt_incoming rl m = (res, rl')"
  shows "decrypt_state rl' = DS_Active"
    and "\<exists>n'. trial_decryption_len rl' = Some n' \<and> n = n' + (if res = Inr None then length (om_payload m) else 0)"
    and "read_seq rl' = read_seq rl + word_of_nat (accepted [res])"
  using assms
  by (auto simp: decrypt_incoming_def Let_def doing_trial_decryption_def accepted_def split: sum.splits if_splits)

lemma decrypt_seq_trial:
  assumes "decrypt_state rl = DS_Active" and "trial_decryption_len rl = Some n" and "decrypt_seq rl ms = (rs, rl')"
  shows "\<exists>n'. trial_decryption_len rl' = Some n' \<and> n = n' + skipped_bytes ms rs \<and> read_seq rl' = read_seq rl + word_of_nat (accepted rs)"
  using assms
proof (induction ms arbitrary: rl n rs rl')
  case Nil
  then show ?case by (simp add: skipped_bytes_def accepted_def)
next
  case (Cons m ms)
  obtain res rl1 where d: "decrypt_incoming rl m = (res, rl1)" by force
  obtain rs1 rl2 where s: "decrypt_seq rl1 ms = (rs1, rl2)" by force
  have rs: "rs = res # rs1" "rl' = rl2" using Cons.prems(3) d s by simp_all
  note t = decrypt_incoming_trial [OF Cons.prems(1,2) d]
  obtain n1 where n1: "trial_decryption_len rl1 = Some n1" "n = n1 + (if res = Inr None then length (om_payload m) else 0)" using t(2) by blast
  obtain n2 where "trial_decryption_len rl2 = Some n2" "n1 = n2 + skipped_bytes ms rs1" "read_seq rl2 = read_seq rl1 + word_of_nat (accepted rs1)"
    using Cons.IH [OF t(1) n1(1) s] by blast
  then show ?case using n1 t(3) rs by (auto simp: skipped_bytes_def accepted_def)
qed

section \<open>Properties\<close>

text \<open>Trial decryption is bounded: whatever records arrive after rejected early data, the bytes of the records that are
  silently dropped are subtracted from the allowance, so they never add up to more than it; and the read sequence number
  advances by exactly the records that decrypt.\<close>

theorem tls_trial_decryption_bounded:
  assumes "decrypt_seq (set_message_decrypter_with_trial_decryption rl cipher max_length) ms = (rs, rl')"
  shows "skipped_bytes ms rs \<le> max_length \<and> trial_decryption_len rl' = Some (max_length - skipped_bytes ms rs)
    \<and> read_seq rl' = word_of_nat (accepted rs)"
proof -
  let ?rl = "set_message_decrypter_with_trial_decryption rl cipher max_length"
  have "decrypt_state ?rl = DS_Active" "trial_decryption_len ?rl = Some max_length" "read_seq ?rl = 0"
    by (simp_all add: set_message_decrypter_with_trial_decryption_def start_decrypting_def prepare_message_decrypter_def)
  then show ?thesis using decrypt_seq_trial [OF _ _ assms] by auto
qed

theorem tls_trial_decryption_bounded_witness:
  "trial_decryption_len (snd (decrypt_seq (set_message_decrypter_with_trial_decryption rl_new invalid_decrypter 10)
      [\<lparr>om_typ = CT_ApplicationData, om_version = PV_TLSv1_2, om_payload = [1, 2, 3]\<rparr>])) = Some 7"
proof -
  let ?rl = "set_message_decrypter_with_trial_decryption rl_new invalid_decrypter 10"
  let ?m = "\<lparr>om_typ = CT_ApplicationData, om_version = PV_TLSv1_2, om_payload = [1, 2, 3 :: u8]\<rparr>"
  have "decrypt_seq ?rl [?m] = ([Inr None], ?rl\<lparr>trial_decryption_len := Some 7\<rparr>)"
    by (simp add: decrypt_incoming_def invalid_decrypter_def doing_trial_decryption_def Let_def
      set_message_decrypter_with_trial_decryption_def start_decrypting_def prepare_message_decrypter_def)
  from tls_trial_decryption_bounded [OF this] this show ?thesis by (simp add: skipped_bytes_def)
qed

end
