(* ===== verification/Tls_Cipher.thy ===== *)
theory Tls_Cipher
  imports Tls_Record_Layer_Correct
begin

text \<open>
  The record protection of \<^verbatim>\<open>rustls-0.21.2/rustls/src/tls13/mod.rs\<close> and \<^verbatim>\<open>tls12/cipher.rs\<close>: how a plaintext record becomes a
  protected one and back, for TLS 1.3, TLS 1.2 AES-GCM and TLS 1.2 ChaCha20-Poly1305. The authenticated cipher itself
  (\<^verbatim>\<open>ring\<close>'s \<^verbatim>\<open>LessSafeKey\<close>) is a pair of parameters \<open>seal\<close> and \<open>opn\<close>, which take nonce, associated data and text; the locale
  \<open>aead_key\<close> states its documented contract. With the runs of the record layer this gives that no nonce is used twice under a key.
\<close>

section \<open>TLS 1.3\<close>

type_synonym aead_fun = "u8 list \<Rightarrow> u8 list \<Rightarrow> u8 list \<Rightarrow> u8 list option"

definition TAG_LEN :: nat where "TAG_LEN = 16"

text \<open>An \<^verbatim>\<open>Iv\<close> is an array of twelve bytes, so that \<^verbatim>\<open>make_nonce\<close> does not panic.\<close>

definition nonce_of :: "u8 list \<Rightarrow> u64 \<Rightarrow> u8 list" where
  "nonce_of iv seq = (case make_nonce iv seq of Some n \<Rightarrow> n | None \<Rightarrow> [])"

function unpad_tls13 :: "u8 list \<Rightarrow> ContentType \<times> u8 list" where
  "unpad_tls13 v =
     (if v = [] then (CT_Unknown 0, [])
      else if last v = 0 then unpad_tls13 (butlast v)
      else (from_content_type (last v), butlast v))"
  by pat_completeness auto
termination
  by (relation "measure length") auto

declare unpad_tls13.simps [simp del]

definition make_tls13_aad :: "nat \<Rightarrow> u8 list" where
  "make_tls13_aad len = [0x17, 0x3, 0x3, word_of_nat (len div 256), word_of_nat len]"

definition tls13_encrypt :: "aead_fun \<Rightarrow> u8 list \<Rightarrow> MessageEncrypter" where
  "tls13_encrypt seal iv msg seq =
     (let total_len = length (pm_payload msg) + 1 + TAG_LEN;
          payload = enc_enum8 get_content_type (pm_typ msg) (pm_payload msg)
      in case seal (nonce_of iv seq) (make_tls13_aad total_len) payload of
           None \<Rightarrow> Inl (E_General ''encrypt failed'')
         | Some payload \<Rightarrow> Inr \<lparr>om_typ = CT_ApplicationData, om_version = PV_TLSv1_2, om_payload = payload\<rparr>)"

definition tls13_decrypt :: "aead_fun \<Rightarrow> u8 list \<Rightarrow> MessageDecrypter" where
  "tls13_decrypt opn iv msg seq =
     (let payload = om_payload msg in
      if length payload < TAG_LEN then Inl E_DecryptError
      else case opn (nonce_of iv seq) (make_tls13_aad (length payload)) payload of
             None \<Rightarrow> Inl E_DecryptError
           | Some payload \<Rightarrow>
               if MAX_FRAGMENT_LEN + 1 < length payload then Inl E_PeerSentOversizedRecord
               else (case unpad_tls13 payload of
                 (ty, payload) \<Rightarrow>
                   if ty = CT_Unknown 0 then Inl (E_PeerMisbehaved PM_IllegalTlsInnerPlaintext)
                   else if MAX_FRAGMENT_LEN < length payload then Inl E_PeerSentOversizedRecord
                   else Inr (into_plain_message \<lparr>om_typ = ty, om_version = PV_TLSv1_3, om_payload = payload\<rparr>)))"

section \<open>TLS 1.2\<close>

definition make_tls12_aad :: "u64 \<Rightarrow> ContentType \<Rightarrow> ProtocolVersion \<Rightarrow> nat \<Rightarrow> u8 list" where
  "make_tls12_aad seq ty vers len =
     to_be_bytes 8 seq @ [get_content_type ty] @ to_be_bytes 2 (get_protocol_version vers) @ to_be_bytes 2 (word_of_nat len :: u16)"

definition GCM_EXPLICIT_NONCE_LEN :: nat where "GCM_EXPLICIT_NONCE_LEN = 8"
definition GCM_OVERHEAD :: nat where "GCM_OVERHEAD = GCM_EXPLICIT_NONCE_LEN + 16"
definition CHACHAPOLY1305_OVERHEAD :: nat where "CHACHAPOLY1305_OVERHEAD = 16"

definition gcm_decrypt :: "aead_fun \<Rightarrow> u8 list \<Rightarrow> MessageDecrypter" where
  "gcm_decrypt opn dec_salt msg seq =
     (let payload = om_payload msg in
      if length payload < GCM_OVERHEAD then Inl E_DecryptError
      else let nonce = dec_salt @ take 8 payload;
               aad = make_tls12_aad seq (om_typ msg) (om_version msg) (length payload - GCM_OVERHEAD)
           in case opn nonce aad (drop GCM_EXPLICIT_NONCE_LEN payload) of
                None \<Rightarrow> Inl E_DecryptError
              | Some plain \<Rightarrow>
                  if MAX_FRAGMENT_LEN < length plain then Inl E_PeerSentOversizedRecord
                  else Inr (into_plain_message (msg\<lparr>om_payload := plain\<rparr>)))"

definition gcm_encrypt :: "aead_fun \<Rightarrow> u8 list \<Rightarrow> MessageEncrypter" where
  "gcm_encrypt seal iv msg seq =
     (let nonce = nonce_of iv seq;
          aad = make_tls12_aad seq (pm_typ msg) (pm_version msg) (length (pm_payload msg))
      in case seal nonce aad (pm_payload msg) of
           None \<Rightarrow> Inl E_EncryptError
         | Some sealed \<Rightarrow> Inr \<lparr>om_typ = pm_typ msg, om_version = pm_version msg, om_payload = drop 4 nonce @ sealed\<rparr>)"

definition chacha_decrypt :: "aead_fun \<Rightarrow> u8 list \<Rightarrow> MessageDecrypter" where
  "chacha_decrypt opn dec_offset msg seq =
     (let payload = om_payload msg in
      if length payload < CHACHAPOLY1305_OVERHEAD then Inl E_DecryptError
      else let aad = make_tls12_aad seq (om_typ msg) (om_version msg) (length payload - CHACHAPOLY1305_OVERHEAD)
           in case opn (nonce_of dec_offset seq) aad payload of
                None \<Rightarrow> Inl E_DecryptError
              | Some plain \<Rightarrow>
                  if MAX_FRAGMENT_LEN < length plain then Inl E_PeerSentOversizedRecord
                  else Inr (into_plain_message (msg\<lparr>om_payload := plain\<rparr>)))"

definition chacha_encrypt :: "aead_fun \<Rightarrow> u8 list \<Rightarrow> MessageEncrypter" where
  "chacha_encrypt seal enc_offset msg seq =
     (let aad = make_tls12_aad seq (pm_typ msg) (pm_version msg) (length (pm_payload msg))
      in case seal (nonce_of enc_offset seq) aad (pm_payload msg) of
           None \<Rightarrow> Inl E_EncryptError
         | Some buf \<Rightarrow> Inr \<lparr>om_typ = pm_typ msg, om_version = pm_version msg, om_payload = buf\<rparr>)"

text \<open>The factories; copying a slice of the wrong length into a fixed array panics.\<close>

definition aesgcm_decrypter :: "aead_fun \<Rightarrow> u8 list \<Rightarrow> MessageDecrypter may_panic" where
  "aesgcm_decrypter opn dec_iv = do { rust_assert (length dec_iv = 4); Some (gcm_decrypt opn dec_iv) }"

definition aesgcm_encrypter :: "aead_fun \<Rightarrow> u8 list \<Rightarrow> u8 list \<Rightarrow> MessageEncrypter may_panic" where
  "aesgcm_encrypter seal write_iv explicit =
     do { rust_assert (length write_iv = 4); rust_assert (length explicit = 8); Some (gcm_encrypt seal (write_iv @ explicit)) }"

definition chacha_decrypter :: "aead_fun \<Rightarrow> u8 list \<Rightarrow> MessageDecrypter may_panic" where
  "chacha_decrypter opn iv = do { rust_assert (length iv = 12); Some (chacha_decrypt opn iv) }"

definition chacha_encrypter :: "aead_fun \<Rightarrow> u8 list \<Rightarrow> u8 list \<Rightarrow> MessageEncrypter may_panic" where
  "chacha_encrypter seal enc_iv extra = do { rust_assert (length enc_iv = 12); Some (chacha_encrypt seal enc_iv) }"

section \<open>The contract of a pair of ciphers\<close>

text \<open>What the record layer and the deframer rely on: a message that fits a fragment is decrypted to what was encrypted
  (but for the version, which TLS 1.3 fixes), its protected form is a record that fits the wire, and decrypting never
  makes a record longer.\<close>

definition fits_fragment :: "PlainMessage \<Rightarrow> bool" where
  "fits_fragment m \<longleftrightarrow> typ_ok (pm_typ m) \<and> version_ok (pm_version m) \<and> length (pm_payload m) \<le> MAX_FRAGMENT_LEN"

locale cipher_pair =
  fixes enc :: MessageEncrypter
    and dec :: MessageDecrypter
    and vers :: "ProtocolVersion \<Rightarrow> ProtocolVersion"
  assumes protected: "fits_fragment m \<Longrightarrow> enc m s = Inr c \<Longrightarrow> opaque_ok c \<and> (om_typ c = pm_typ m \<or> om_typ c = CT_ApplicationData)"
    and inverse: "fits_fragment m \<Longrightarrow> enc m s = Inr c \<Longrightarrow> dec c s = Inr (m\<lparr>pm_version := vers (pm_version m)\<rparr>)"
    and shorter: "dec c s = Inr p \<Longrightarrow> length (pm_payload p) \<le> length (om_payload c)"

text \<open>The documented contract of the cipher: opening what was sealed under the same nonce and associated data gives it
  back, and a tag of sixteen bytes is added.\<close>

locale aead_key =
  fixes seal opn :: aead_fun
    and iv :: "u8 list"
  assumes open_seal: "seal n a p = Some c \<Longrightarrow> opn n a c = Some p"
    and seal_length: "seal n a p = Some c \<Longrightarrow> length c = length p + 16"
    and open_length: "opn n a c = Some p \<Longrightarrow> length c = length p + 16"
    and iv_length: "length iv = 12"

lemma unpad_tls13_snoc: "t \<noteq> 0 \<Longrightarrow> unpad_tls13 (v @ [t]) = (from_content_type t, v)"
  by (subst unpad_tls13.simps) simp

lemma unpad_tls13_length: "length (snd (unpad_tls13 v)) \<le> length v"
proof (induction v rule: unpad_tls13.induct)
  case (1 v)
  show ?case
  proof (cases "v \<noteq> [] \<and> last v = 0")
    case True
    then have "length (snd (unpad_tls13 (butlast v))) \<le> length (butlast v)" using 1 by blast
    then show ?thesis using True by (subst unpad_tls13.simps) simp
  next
    case False
    then show ?thesis by (subst unpad_tls13.simps) auto
  qed
qed

lemma typ_ok_byte: "typ_ok t \<Longrightarrow> get_content_type t \<noteq> 0 \<and> from_content_type (get_content_type t) = t"
  using typ_ok_from_get [of t] by (cases t) (simp_all add: typ_ok_def)

lemma version_ok_12: "version_ok PV_TLSv1_2"
  by (simp add: version_ok_def bad_version_def from_protocol_version_def)

lemma nonce_of_eq: "length iv = 12 \<Longrightarrow> nonce_of iv seq = map2 (\<lambda>n i. n XOR i) (replicate 4 0 @ to_be_bytes 8 seq) iv"
  by (simp add: nonce_of_def make_nonce_eq)

lemma nonce_salt:
  assumes "length iv = 12"
  shows "take 4 (nonce_of iv seq) = take 4 iv" and "length (nonce_of iv seq) = 12"
proof -
  have "take 4 (map2 (\<lambda>n i. n XOR i) (replicate 4 0 @ to_be_bytes 8 seq) iv) = map2 (\<lambda>n i. n XOR i) (replicate 4 0) (take 4 iv)"
    by (simp add: take_map take_zip)
  also have "\<dots> = take 4 iv" by (rule nth_equalityI) (use assms in simp_all)
  finally show "take 4 (nonce_of iv seq) = take 4 iv" using assms by (simp add: nonce_of_eq)
  show "length (nonce_of iv seq) = 12" using assms by (simp add: nonce_of_eq)
qed

lemmas cipher_sizes = TAG_LEN_def MAX_FRAGMENT_LEN_def GCM_OVERHEAD_def GCM_EXPLICIT_NONCE_LEN_def CHACHAPOLY1305_OVERHEAD_def
lemmas record_defs = fits_fragment_def opaque_ok_def unat_MAX_PAYLOAD into_plain_message_def Let_def cipher_sizes

context aead_key
begin

lemma tls13_pair:
  assumes "fits_fragment m" and "tls13_encrypt seal iv m s = Inr c"
  shows "opaque_ok c" and "om_typ c = CT_ApplicationData" and "tls13_decrypt opn iv c s = Inr (m\<lparr>pm_version := PV_TLSv1_3\<rparr>)"
proof -
  let ?inner = "pm_payload m @ [get_content_type (pm_typ m)]"
  obtain ct where ct: "seal (nonce_of iv s) (make_tls13_aad (length (pm_payload m) + 1 + TAG_LEN)) ?inner = Some ct"
      and c: "c = \<lparr>om_typ = CT_ApplicationData, om_version = PV_TLSv1_2, om_payload = ct\<rparr>"
    using assms(2) by (auto simp: tls13_encrypt_def Let_def enc_enum8_def enc_u8_def split: option.splits)
  have len: "length ct = length (pm_payload m) + 1 + 16" using seal_length [OF ct] by simp
  have ty: "unpad_tls13 ?inner = (pm_typ m, pm_payload m)" "pm_typ m \<noteq> CT_Unknown 0"
    using assms(1) typ_ok_byte [of "pm_typ m"] unpad_tls13_snoc by (auto simp: fits_fragment_def typ_ok_def)
  have small: "length (pm_payload m) \<le> 16384" using assms(1) by (simp add: fits_fragment_def MAX_FRAGMENT_LEN_def)
  show "opaque_ok c" "om_typ c = CT_ApplicationData" using len small by (auto simp: c opaque_ok_def unat_MAX_PAYLOAD typ_ok_def version_ok_12)
  have opn: "opn (nonce_of iv s) (make_tls13_aad (length ct)) ct = Some ?inner" using open_seal [OF ct] len by (simp add: TAG_LEN_def)
  show "tls13_decrypt opn iv c s = Inr (m\<lparr>pm_version := PV_TLSv1_3\<rparr>)"
    using len small ty opn by (simp add: tls13_decrypt_def c Let_def TAG_LEN_def MAX_FRAGMENT_LEN_def into_plain_message_def)
qed

lemma tls13_shorter:
  assumes "tls13_decrypt opn iv c s = Inr p"
  shows "length (pm_payload p) \<le> length (om_payload c)"
proof -
  obtain pl where o: "opn (nonce_of iv s) (make_tls13_aad (length (om_payload c))) (om_payload c) = Some pl" and p: "pm_payload p = snd (unpad_tls13 pl)"
    using assms by (auto simp: tls13_decrypt_def Let_def into_plain_message_def split: if_splits option.splits prod.splits)
  show ?thesis using open_length [OF o] unpad_tls13_length [of pl] by (simp add: p)
qed

lemma gcm_pair:
  assumes "fits_fragment m" and "gcm_encrypt seal iv m s = Inr c"
  shows "opaque_ok c" and "om_typ c = pm_typ m" and "gcm_decrypt opn (take 4 iv) c s = Inr m"
proof -
  let ?n = "nonce_of iv s" and ?aad = "make_tls12_aad s (pm_typ m) (pm_version m) (length (pm_payload m))"
  obtain ct where ct: "seal ?n ?aad (pm_payload m) = Some ct"
      and c: "c = \<lparr>om_typ = pm_typ m, om_version = pm_version m, om_payload = drop 4 ?n @ ct\<rparr>"
    using assms(2) by (auto simp: gcm_encrypt_def Let_def split: option.splits)
  note nonce = nonce_salt [OF iv_length, of s]
  have len: "length ct = length (pm_payload m) + 16" using seal_length [OF ct] .
  have small: "length (pm_payload m) \<le> 16384" using assms(1) by (simp add: fits_fragment_def MAX_FRAGMENT_LEN_def)
  show "opaque_ok c" "om_typ c = pm_typ m" using assms(1) len small nonce(2) by (auto simp: c opaque_ok_def unat_MAX_PAYLOAD fits_fragment_def)
  have n: "take 4 iv @ take 8 (drop 4 ?n @ ct) = ?n" using nonce append_take_drop_id [of 4 ?n] by simp
  have sz: "length (drop 4 ?n @ ct) - GCM_OVERHEAD = length (pm_payload m)" "drop GCM_EXPLICIT_NONCE_LEN (drop 4 ?n @ ct) = ct"
      "\<not> length (drop 4 ?n @ ct) < GCM_OVERHEAD"
    using nonce(2) len by (simp_all add: GCM_OVERHEAD_def GCM_EXPLICIT_NONCE_LEN_def)
  have "opn (take 4 iv @ take 8 (drop 4 ?n @ ct)) ?aad ct = Some (pm_payload m)" unfolding n by (rule open_seal [OF ct])
  then show "gcm_decrypt opn (take 4 iv) c s = Inr m"
    unfolding gcm_decrypt_def Let_def c OpaqueMessage.simps sz using sz(3) small
    by (simp add: into_plain_message_def MAX_FRAGMENT_LEN_def)
qed

lemma chacha_pair:
  assumes "fits_fragment m" and "chacha_encrypt seal iv m s = Inr c"
  shows "opaque_ok c" and "om_typ c = pm_typ m" and "chacha_decrypt opn iv c s = Inr m"
proof -
  let ?aad = "make_tls12_aad s (pm_typ m) (pm_version m) (length (pm_payload m))"
  obtain ct where ct: "seal (nonce_of iv s) ?aad (pm_payload m) = Some ct"
      and c: "c = \<lparr>om_typ = pm_typ m, om_version = pm_version m, om_payload = ct\<rparr>"
    using assms(2) by (auto simp: chacha_encrypt_def Let_def split: option.splits)
  have len: "length ct = length (pm_payload m) + 16" using seal_length [OF ct] .
  have small: "length (pm_payload m) \<le> 16384" using assms(1) by (simp add: fits_fragment_def MAX_FRAGMENT_LEN_def)
  show "opaque_ok c" "om_typ c = pm_typ m" using assms(1) len small by (auto simp: c opaque_ok_def unat_MAX_PAYLOAD fits_fragment_def)
  show "chacha_decrypt opn iv c s = Inr m"
    using open_seal [OF ct] len small by (simp add: chacha_decrypt_def c Let_def cipher_sizes into_plain_message_def)
qed

lemma tls12_shorter:
  "gcm_decrypt opn salt c s = Inr p \<Longrightarrow> length (pm_payload p) \<le> length (om_payload c)"
  "chacha_decrypt opn iv c s = Inr p \<Longrightarrow> length (pm_payload p) \<le> length (om_payload c)"
  by (auto simp: gcm_decrypt_def chacha_decrypt_def Let_def into_plain_message_def dest!: open_length split: if_splits option.splits)

end

sublocale aead_key \<subseteq> t13: cipher_pair "tls13_encrypt seal iv" "tls13_decrypt opn iv" "\<lambda>_. PV_TLSv1_3"
  by unfold_locales (simp_all add: tls13_pair tls13_shorter)

sublocale aead_key \<subseteq> gcm: cipher_pair "gcm_encrypt seal iv" "gcm_decrypt opn (take 4 iv)" "\<lambda>v. v"
  by unfold_locales (simp_all add: gcm_pair tls12_shorter)

sublocale aead_key \<subseteq> chacha: cipher_pair "chacha_encrypt seal iv" "chacha_decrypt opn iv" "\<lambda>v. v"
  by unfold_locales (simp_all add: chacha_pair tls12_shorter)

text \<open>The contract can hold: a cipher that leaves the text in the clear and appends a checksum of nonce, data and text.\<close>

definition sum_tag :: "u8 list \<Rightarrow> u8 list \<Rightarrow> u8 list \<Rightarrow> u8 list" where
  "sum_tag n a p = replicate 16 (sum_list n + sum_list a + sum_list p)"

definition sum_seal :: aead_fun where
  "sum_seal n a p = Some (p @ sum_tag n a p)"

definition sum_open :: aead_fun where
  "sum_open n a c =
     (let p = take (length c - 16) c in if 16 \<le> length c \<and> drop (length c - 16) c = sum_tag n a p then Some p else None)"

interpretation sum_key: aead_key sum_seal sum_open "replicate 12 7"
  by unfold_locales (auto simp: sum_seal_def sum_open_def sum_tag_def Let_def split: if_splits)

section \<open>Properties\<close>

text \<open>The encrypters of the three protections, and that a record of the message \<open>m\<close> carries what the cipher made of its text
  under a nonce.\<close>

datatype Protection = P_Tls13 | P_Tls12Gcm | P_Tls12Chacha

fun protect :: "Protection \<Rightarrow> aead_fun \<Rightarrow> u8 list \<Rightarrow> MessageEncrypter" where
  "protect P_Tls13 seal iv = tls13_encrypt seal iv"
| "protect P_Tls12Gcm seal iv = gcm_encrypt seal iv"
| "protect P_Tls12Chacha seal iv = chacha_encrypt seal iv"

definition sealed_under :: "Protection \<Rightarrow> aead_fun \<Rightarrow> u8 list \<Rightarrow> PlainMessage \<Rightarrow> OpaqueMessage \<Rightarrow> bool" where
  "sealed_under p seal nonce m em \<longleftrightarrow>
     (\<exists>aad c. seal nonce aad (if p = P_Tls13 then pm_payload m @ [get_content_type (pm_typ m)] else pm_payload m) = Some c
        \<and> om_payload em = (if p = P_Tls12Gcm then drop 4 nonce @ c else c))"

lemma protect_sealed: "protect p seal iv m q = Inr em \<Longrightarrow> make_nonce iv q = Some n \<Longrightarrow> sealed_under p seal n m em"
  by (cases p) (auto simp: tls13_encrypt_def gcm_encrypt_def chacha_encrypt_def sealed_under_def nonce_of_def enc_enum8_def enc_u8_def Let_def split: option.splits)

text \<open>C13: Nonces are unique. Take any run of the record layer that starts with no keys: whatever keys are installed, each only once and
  each with its protection, cipher and vector, and whatever is sent and received in between. Every record it emits carries what the
  cipher of the key in use makes of the message under the nonce of the standard: the key's vector combined with the number of
  records sealed with that key before, which stays below the hard limit. So no two records are sealed with the same key and nonce.\<close>

theorem tls_nonce_unique:
  assumes "rl_run (\<lambda>k. protect (prot k) (seal k) (iv k)) ks log rl" and "\<And>k. length (iv k) = 12"
  defines "nonce \<equiv> \<lambda>i. make_nonce (iv (fst (log ! i))) (word_of_nat (seq_at log i))"
  shows "(\<forall>i < length log. seq_at log i < unat SEQ_HARD_LIMIT
      \<and> (case log ! i of (k, m, em) \<Rightarrow> \<exists>n. nonce i = Some n \<and> sealed_under (prot k) (seal k) n m em))
    \<and> distinct (map (\<lambda>i. (fst (log ! i), nonce i)) [0 ..< length log])"
proof
  have inv: "sealed_in_turn (\<lambda>k. protect (prot k) (seal k) (iv k)) log" using rl_run_inv [OF assms(1)] by (simp add: rl_inv_def)
  show "\<forall>i < length log. seq_at log i < unat SEQ_HARD_LIMIT
      \<and> (case log ! i of (k, m, em) \<Rightarrow> \<exists>n. nonce i = Some n \<and> sealed_under (prot k) (seal k) n m em)"
    using inv make_nonce_eq [OF assms(2)] protect_sealed by (fastforce simp: sealed_in_turn_def nonce_def split: prod.splits)
  have bound: "seq_at log i < 2 ^ 64" if "i < length log" for i
    using inv that by (auto simp: sealed_in_turn_def SEQ_HARD_LIMIT_def)
  have "i = j" if "i < length log" "j < length log" "fst (log ! i) = fst (log ! j)" "nonce i = nonce j" for i j
  proof -
    have "(word_of_nat (seq_at log i) :: u64) = word_of_nat (seq_at log j)" using that(3,4) make_nonce_inj [OF assms(2)] by (simp add: nonce_def)
    then have "unat (word_of_nat (seq_at log i) :: u64) = unat (word_of_nat (seq_at log j) :: u64)" by simp
    then have "seq_at log i = seq_at log j" using bound [OF that(1)] bound [OF that(2)] by (simp add: unat_of_nat)
    then show ?thesis using seq_at_inj that(1-3) by blast
  qed
  then show "distinct (map (\<lambda>i. (fst (log ! i), nonce i)) [0 ..< length log])" by (auto simp: distinct_map inj_on_def)
qed

theorem tls_nonce_unique_witness:
  "\<exists>log rl. rl_run (\<lambda>k :: nat. protect P_Tls13 sum_seal (replicate 12 7)) [1] log rl \<and> map fst log = [1, 1]
    \<and> distinct (map (\<lambda>i. (fst (log ! i), make_nonce (replicate 12 7) (word_of_nat (seq_at log i)))) [0, 1])"
proof -
  let ?enc = "\<lambda>k :: nat. protect P_Tls13 sum_seal (replicate 12 7)"
  define m where "m = \<lparr>pm_typ = CT_ApplicationData, pm_version = PV_TLSv1_2, pm_payload = [1 :: u8]\<rparr>"
  define r0 where "r0 = set_message_encrypter rl_new (?enc 1)"
  have r0: "rl_run ?enc [1] [] r0" using rl_run_step [OF rl_run_new, of "SetEnc 1" ?enc None r0] by (simp add: r0_def)
  have w: "message_encrypter r0 = ?enc 1" "write_seq r0 = 0"
    by (simp_all add: r0_def set_message_encrypter_def start_encrypting_def prepare_message_encrypter_def)
  have total: "\<exists>em. ?enc 1 m q = Inr em" for q by (simp add: tls13_encrypt_def sum_seal_def Let_def)
  have enc: "\<exists>em. encrypt_outgoing r m = Some (em, r\<lparr>write_seq := write_seq r + 1\<rparr>)"
    if "message_encrypter r = ?enc 1" "write_seq r < SEQ_HARD_LIMIT" for r
    using total [of "write_seq r"] that by (auto simp: encrypt_outgoing_def encrypt_exhausted_def not_le)
  obtain em where "encrypt_outgoing r0 m = Some (em, r0\<lparr>write_seq := 1\<rparr>)" using enc [of r0] w by (auto simp: SEQ_HARD_LIMIT_def)
  then have r1: "rl_run ?enc [1] [(1, m, em)] (r0\<lparr>write_seq := 1\<rparr>)" using rl_run_step [OF r0, of "Encrypt m"] by simp
  obtain em' where "encrypt_outgoing (r0\<lparr>write_seq := 1\<rparr>) m = Some (em', r0\<lparr>write_seq := 2\<rparr>)"
    using enc [of "r0\<lparr>write_seq := 1\<rparr>"] w by (auto simp: SEQ_HARD_LIMIT_def)
  then have r2: "rl_run ?enc [1] [(1, m, em), (1, m, em')] (r0\<lparr>write_seq := 2\<rparr>)" using rl_run_step [OF r1, of "Encrypt m"] by simp
  define log where "log = [(1 :: nat, m, em), (1, m, em')]"
  have "length (replicate 12 7 :: u8 list) = 12" by simp
  from conjunct2 [OF tls_nonce_unique [OF r2 [folded log_def] this]]
  have "distinct (map (\<lambda>i. (fst (log ! i), make_nonce (replicate 12 7) (word_of_nat (seq_at log i)))) [0 ..< length log])" .
  moreover have "[0 ..< length log] = [0, 1]" by (simp add: log_def upt_rec)
  ultimately show ?thesis using r2 [folded log_def] by (intro exI [of _ log] exI [of _ "r0\<lparr>write_seq := 2\<rparr>"]) (simp only: log_def, simp)
qed

text \<open>C21: Record protection round-trips in all three constructions: with any cipher that opens what it sealed, a record that
  fits a fragment comes out of the decrypter as it went into the encrypter under the same sequence number (TLS 1.3 hides
  the type and fixes the version), and the protected record has a legal header and a length the reader accepts; the
  factories of TLS 1.2 build matching pairs from the key block.\<close>

theorem tls_protection_roundtrip:
  assumes "aead_key seal opn (write_iv @ explicit)" and "length write_iv = 4" and "fits_fragment m"
  shows "(tls13_encrypt seal (write_iv @ explicit) m s = Inr c \<longrightarrow>
      opaque_ok c \<and> om_typ c = CT_ApplicationData \<and> tls13_decrypt opn (write_iv @ explicit) c s = Inr (m\<lparr>pm_version := PV_TLSv1_3\<rparr>))
    \<and> (\<exists>enc dec. aesgcm_encrypter seal write_iv explicit = Some enc \<and> aesgcm_decrypter opn write_iv = Some dec
        \<and> (enc m s = Inr c \<longrightarrow> opaque_ok c \<and> dec c s = Inr m))
    \<and> (\<exists>enc dec. chacha_encrypter seal (write_iv @ explicit) [] = Some enc \<and> chacha_decrypter opn (write_iv @ explicit) = Some dec
        \<and> (enc m s = Inr c \<longrightarrow> opaque_ok c \<and> dec c s = Inr m))"
proof -
  have "length (write_iv @ explicit) = 12" using aead_key.iv_length [OF assms(1)] .
  then show ?thesis
    using assms(2) aead_key.tls13_pair [OF assms(1,3)] aead_key.gcm_pair [OF assms(1,3)] aead_key.chacha_pair [OF assms(1,3)]
    by (simp add: aesgcm_encrypter_def aesgcm_decrypter_def chacha_encrypter_def chacha_decrypter_def)
qed

theorem tls_protection_roundtrip_witness:
  "tls13_decrypt sum_open (replicate 12 7) \<lparr>om_typ = CT_ApplicationData, om_version = PV_TLSv1_2,
      om_payload = [104, 105, 23] @ sum_tag (nonce_of (replicate 12 7) 5) (make_tls13_aad 19) [104, 105, 23]\<rparr> 5
   = Inr \<lparr>pm_typ = CT_ApplicationData, pm_version = PV_TLSv1_3, pm_payload = [104, 105]\<rparr>"
proof -
  let ?m = "\<lparr>pm_typ = CT_ApplicationData, pm_version = PV_TLSv1_2, pm_payload = [104, 105 :: u8]\<rparr>"
  have iv: "replicate 12 (7 :: u8) = replicate 4 7 @ replicate 8 7" by (simp flip: replicate_add)
  have fits: "fits_fragment ?m" by (simp add: fits_fragment_def typ_ok_def version_ok_12 MAX_FRAGMENT_LEN_def)
  have "tls13_encrypt sum_seal (replicate 12 7) ?m 5 = Inr \<lparr>om_typ = CT_ApplicationData, om_version = PV_TLSv1_2,
      om_payload = [104, 105, 23] @ sum_tag (nonce_of (replicate 12 7) 5) (make_tls13_aad 19) [104, 105, 23]\<rparr>"
    by (simp add: tls13_encrypt_def sum_seal_def enc_enum8_def enc_u8_def TAG_LEN_def Let_def)
  then show ?thesis
    using tls_protection_roundtrip [OF sum_key.aead_key_axioms [unfolded iv] _ fits] unfolding iv by simp
qed

end
