(* ===== verification/Tls_Vecbuf.thy ===== *)
theory Tls_Vecbuf
  imports Prelude
begin

text \<open>
  The chunked byte buffer of \<^verbatim>\<open>rustls-0.21.2/rustls/src/vecbuf.rs\<close>, through which all plaintext and all TLS records of a
  connection pass. It refines a first-in first-out queue of bytes: the locale \<open>byte_fifo\<close> states that interface and
  proves once that whatever goes in comes out in order; the buffer is an interpretation of it.
\<close>

section \<open>The buffer\<close>

record ChunkVecBuffer =
  cv_chunks :: "u8 list list"
  cv_limit :: "nat option"

definition cvb_new :: "nat option \<Rightarrow> ChunkVecBuffer" where
  "cvb_new limit = \<lparr>cv_chunks = [], cv_limit = limit\<rparr>"

definition cvb_set_limit :: "ChunkVecBuffer \<Rightarrow> nat option \<Rightarrow> ChunkVecBuffer" where
  "cvb_set_limit b new_limit = b\<lparr>cv_limit := new_limit\<rparr>"

definition cvb_is_empty :: "ChunkVecBuffer \<Rightarrow> bool" where
  "cvb_is_empty b \<longleftrightarrow> cv_chunks b = []"

definition cvb_len :: "ChunkVecBuffer \<Rightarrow> nat" where
  "cvb_len b = foldl (\<lambda>len ch. len + length ch) 0 (cv_chunks b)"

definition cvb_is_full :: "ChunkVecBuffer \<Rightarrow> bool" where
  "cvb_is_full b \<longleftrightarrow> (case cv_limit b of Some limit \<Rightarrow> limit < cvb_len b | None \<Rightarrow> False)"

definition apply_limit :: "ChunkVecBuffer \<Rightarrow> nat \<Rightarrow> nat" where
  "apply_limit b len =
     (case cv_limit b of
        Some limit \<Rightarrow> let space = limit - cvb_len b in min len space
      | None \<Rightarrow> len)"

definition cvb_append :: "ChunkVecBuffer \<Rightarrow> u8 list \<Rightarrow> nat \<times> ChunkVecBuffer" where
  "cvb_append b bytes = (length bytes, if bytes \<noteq> [] then b\<lparr>cv_chunks := cv_chunks b @ [bytes]\<rparr> else b)"

definition append_limited_copy :: "ChunkVecBuffer \<Rightarrow> u8 list \<Rightarrow> nat \<times> ChunkVecBuffer" where
  "append_limited_copy b bytes =
     (let tk = apply_limit b (length bytes) in (tk, snd (cvb_append b (take tk bytes))))"

definition cvb_pop :: "ChunkVecBuffer \<Rightarrow> u8 list option \<times> ChunkVecBuffer" where
  "cvb_pop b = (case cv_chunks b of [] \<Rightarrow> (None, b) | c # cs \<Rightarrow> (Some c, b\<lparr>cv_chunks := cs\<rparr>))"

fun consume_chunks :: "u8 list list \<Rightarrow> nat \<Rightarrow> u8 list list" where
  "consume_chunks [] used = []"
| "consume_chunks (buf # chunks) used =
     (if used < length buf then drop used buf # chunks else consume_chunks chunks (used - length buf))"

definition cvb_consume :: "ChunkVecBuffer \<Rightarrow> nat \<Rightarrow> ChunkVecBuffer" where
  "cvb_consume b used = b\<lparr>cv_chunks := consume_chunks (cv_chunks b) used\<rparr>"

lemma consume_chunks_length: "length (consume_chunks cs n) \<le> length cs"
  by (induction cs n rule: consume_chunks.induct) auto

lemma consume_chunks_bytes: "length (concat (consume_chunks cs n)) = length (concat cs) - n"
  by (induction cs n rule: consume_chunks.induct) auto

text \<open>The loop of \<^verbatim>\<open>read\<close>: \<open><[u8] as Read>::read\<close> copies as much of the first chunk as fits.\<close>

function read_chunks :: "u8 list list \<Rightarrow> u8 list \<Rightarrow> nat \<Rightarrow> u8 list list \<times> u8 list \<times> nat" where
  "read_chunks chunks buf offs =
     (if offs < length buf \<and> chunks \<noteq> []
      then let used = min (length (hd chunks)) (length buf - offs)
           in read_chunks (consume_chunks chunks used) (overwrite buf offs (take used (hd chunks))) (offs + used)
      else (chunks, buf, offs))"
  by pat_completeness auto
termination
proof (relation "measure (\<lambda>(chunks, buf, offs). length (concat chunks) + length chunks)", goal_cases)
  case (2 chunks buf offs used)
  then obtain c cs where chunks: "chunks = c # cs" by (cases chunks) auto
  have bytes: "length (concat (consume_chunks chunks used)) = length (concat chunks) - used" by (rule consume_chunks_bytes)
  show ?case
  proof (cases "used < length c")
    case True
    then have "0 < used" "used \<le> length (concat chunks)" using 2 chunks by auto
    then show ?thesis using bytes consume_chunks_length [of chunks used] by simp
  next
    case False
    then have "consume_chunks chunks used = consume_chunks cs (used - length c)" by (simp add: chunks)
    then show ?thesis using bytes consume_chunks_length [of cs "used - length c"] chunks by simp
  qed
qed simp

declare read_chunks.simps [simp del]

definition cvb_read :: "ChunkVecBuffer \<Rightarrow> u8 list \<Rightarrow> nat \<times> u8 list \<times> ChunkVecBuffer" where
  "cvb_read b buf = (let (chunks, buf, offs) = read_chunks (cv_chunks b) buf 0 in (offs, buf, b\<lparr>cv_chunks := chunks\<rparr>))"

text \<open>\<^verbatim>\<open>write_vectored\<close> is the caller's: it is offered at most 64 chunks and reports how many bytes it took.\<close>

definition cvb_write_to :: "ChunkVecBuffer \<Rightarrow> (u8 list list \<Rightarrow> 'e + nat) \<Rightarrow> ('e + nat) \<times> ChunkVecBuffer" where
  "cvb_write_to b write_vectored =
     (if cvb_is_empty b then (Inr 0, b)
      else (let bufs = take 64 (cv_chunks b)
            in case write_vectored bufs of
                 Inl e \<Rightarrow> (Inl e, b)
               | Inr used \<Rightarrow> (Inr used, cvb_consume b used)))"

section \<open>A queue of bytes\<close>

text \<open>What the users of the buffer rely on: putting bytes in appends them, and taking gives a prefix and leaves the rest.\<close>

locale byte_fifo =
  fixes contents :: "'q \<Rightarrow> u8 list"
    and wf :: "'q \<Rightarrow> bool"
    and put :: "'p \<Rightarrow> 'q \<Rightarrow> u8 list \<times> 'q"
    and get :: "'g \<Rightarrow> 'q \<Rightarrow> u8 list \<times> 'q"
    and fair :: "'g \<Rightarrow> bool"
  assumes put: "wf q \<Longrightarrow> put p q = (bs, q') \<Longrightarrow> wf q' \<and> contents q' = contents q @ bs"
    and get: "wf q \<Longrightarrow> fair g \<Longrightarrow> get g q = (bs, q') \<Longrightarrow> wf q' \<and> contents q = bs @ contents q'"
begin

fun fifo_run :: "('p + 'g) list \<Rightarrow> 'q \<Rightarrow> u8 list \<times> u8 list \<times> 'q" where
  "fifo_run [] q = ([], [], q)"
| "fifo_run (Inl p # ops) q = (let (bs, q) = put p q; (ins, outs, q) = fifo_run ops q in (bs @ ins, outs, q))"
| "fifo_run (Inr g # ops) q = (let (bs, q) = get g q; (ins, outs, q) = fifo_run ops q in (ins, bs @ outs, q))"

text \<open>Over any sequence of operations, what came out followed by what is still inside is what was inside followed
  by what went in.\<close>

lemma fifo_run_order:
  assumes "wf q" and "fifo_run ops q = (ins, outs, q')" and "\<forall>g. Inr g \<in> set ops \<longrightarrow> fair g"
  shows "wf q' \<and> contents q @ ins = outs @ contents q'"
  using assms
proof (induction ops q arbitrary: ins outs rule: fifo_run.induct)
  case (2 p ops q)
  obtain bs q1 where 1: "put p q = (bs, q1)" by force
  obtain is1 o1 q2 where r: "fifo_run ops q1 = (is1, o1, q2)" by (metis prod.exhaust)
  have c: "wf q1" "contents q1 = contents q @ bs" using put [OF 2(2) 1] by auto
  have "wf q2 \<and> contents q1 @ is1 = o1 @ contents q2" using 2(1) [OF 1 [symmetric] refl c(1)] r 2(3,4) 1 by simp
  then show ?case using 2(3) 1 r c by simp
next
  case (3 g ops q)
  obtain bs q1 where 1: "get g q = (bs, q1)" by force
  obtain is1 o1 q2 where r: "fifo_run ops q1 = (is1, o1, q2)" by (metis prod.exhaust)
  have c: "wf q1" "contents q = bs @ contents q1" using get [OF 3(2) _ 1] 3(4) by auto
  have "wf q2 \<and> contents q1 @ is1 = o1 @ contents q2" using 3(1) [OF 1 [symmetric] refl c(1)] r 3(3,4) 1 by simp
  then show ?case using 3(3) 1 r c by simp
qed simp

end

section \<open>The buffer is such a queue\<close>

definition cvb_contents :: "ChunkVecBuffer \<Rightarrow> u8 list" where
  "cvb_contents b = concat (cv_chunks b)"

definition cvb_ok :: "ChunkVecBuffer \<Rightarrow> bool" where
  "cvb_ok b \<longleftrightarrow> [] \<notin> set (cv_chunks b)"

lemma foldl_len: "foldl (\<lambda>len ch. len + length ch) n cs = n + length (concat cs)"
  by (induction cs arbitrary: n) auto

lemma cvb_len_contents: "cvb_len b = length (cvb_contents b)"
  by (simp add: cvb_len_def foldl_len cvb_contents_def)

lemma cvb_empty_contents: "cvb_ok b \<Longrightarrow> cvb_is_empty b \<longleftrightarrow> cvb_contents b = []"
  by (cases "cv_chunks b") (auto simp: cvb_is_empty_def cvb_contents_def cvb_ok_def)

lemma consume_chunks_concat: "concat (consume_chunks cs n) = drop n (concat cs)"
  by (induction cs n rule: consume_chunks.induct) auto

lemma consume_chunks_ok: "[] \<notin> set cs \<Longrightarrow> [] \<notin> set (consume_chunks cs n)"
  by (induction cs n rule: consume_chunks.induct) auto

lemma cvb_append_contents: "cvb_contents (snd (cvb_append b bs)) = cvb_contents b @ bs"
  "cvb_ok b \<Longrightarrow> cvb_ok (snd (cvb_append b bs))" "fst (cvb_append b bs) = length bs"
  by (simp_all add: cvb_append_def cvb_contents_def cvb_ok_def)

lemma cvb_consume_contents: "cvb_contents (cvb_consume b n) = drop n (cvb_contents b)" "cvb_ok b \<Longrightarrow> cvb_ok (cvb_consume b n)"
  by (simp_all add: cvb_consume_def cvb_contents_def cvb_ok_def consume_chunks_concat consume_chunks_ok)

lemma read_chunks_spec:
  assumes "read_chunks chunks buf offs = (chunks', buf', offs')" and "offs \<le> length buf"
  shows "offs' = offs + min (length (concat chunks)) (length buf - offs)
    \<and> buf' = overwrite buf offs (take (offs' - offs) (concat chunks))
    \<and> concat chunks' = drop (offs' - offs) (concat chunks)
    \<and> ([] \<notin> set chunks \<longrightarrow> [] \<notin> set chunks')"
  using assms
proof (induction chunks buf offs rule: read_chunks.induct)
  case (1 chunks buf offs)
  show ?case
  proof (cases "offs < length buf \<and> chunks \<noteq> []")
    case False
    then have "chunks' = chunks" "buf' = buf" "offs' = offs" using 1(2) by (subst (asm) read_chunks.simps; simp)+
    then show ?thesis using False 1(3) by auto
  next
    case True
    define used where "used = min (length (hd chunks)) (length buf - offs)"
    define bs where "bs = take used (hd chunks)"
    have len: "length bs = used" "offs + used \<le> length buf" by (simp_all add: used_def bs_def) (use True in linarith)
    have all: "bs = take used (concat chunks)" "used \<le> length (concat chunks)"
      using True by (cases chunks; simp add: bs_def used_def)+
    have rec: "read_chunks (consume_chunks chunks used) (overwrite buf offs bs) (offs + used) = (chunks', buf', offs')"
      using 1(2) True by (subst (asm) read_chunks.simps) (simp add: Let_def used_def bs_def)
    have blen: "length (overwrite buf offs bs) = length buf" using len by simp
    note IH = 1(1) [OF True used_def, folded bs_def, OF rec]
    have step: "offs' = offs + used + min (length (concat chunks) - used) (length buf - (offs + used))"
        "buf' = overwrite (overwrite buf offs bs) (offs + used) (take (offs' - (offs + used)) (drop used (concat chunks)))"
        "concat chunks' = drop (offs' - (offs + used)) (drop used (concat chunks))"
        "[] \<notin> set chunks \<longrightarrow> [] \<notin> set chunks'"
      using IH len(2) by (auto simp: blen consume_chunks_concat consume_chunks_ok)
    have sum: "offs' - offs = used + (offs' - (offs + used))" using step(1) by simp
    have "buf' = overwrite buf offs (bs @ take (offs' - (offs + used)) (drop used (concat chunks)))"
      using step(2) overwrite_overwrite [of offs bs buf] len by simp
    also have "bs @ take (offs' - (offs + used)) (drop used (concat chunks)) = take (offs' - offs) (concat chunks)"
      unfolding sum all(1) by (simp add: take_add)
    finally have "buf' = overwrite buf offs (take (offs' - offs) (concat chunks))" .
    moreover have "concat chunks' = drop (offs' - offs) (concat chunks)" unfolding sum using step(3) by (simp add: add.commute)
    moreover have "offs' = offs + min (length (concat chunks)) (length buf - offs)" using step(1) all(2) len(2) by simp
    ultimately show ?thesis using step(4) by simp
  qed
qed

lemma cvb_read_spec:
  assumes "cvb_read b buf = (n, buf', b')"
  shows "n = min (cvb_len b) (length buf)" and "buf' = overwrite buf 0 (take n (cvb_contents b))"
    and "cvb_contents b' = drop n (cvb_contents b)" and "cvb_ok b \<Longrightarrow> cvb_ok b'" and "cv_limit b' = cv_limit b"
proof -
  obtain cs where r: "read_chunks (cv_chunks b) buf 0 = (cs, buf', n)" and b': "b' = b\<lparr>cv_chunks := cs\<rparr>"
    using assms by (auto simp: cvb_read_def Let_def split: prod.splits)
  have "n = min (length (concat (cv_chunks b))) (length buf)" "buf' = overwrite buf 0 (take n (concat (cv_chunks b)))"
      "concat cs = drop n (concat (cv_chunks b))" "[] \<notin> set (cv_chunks b) \<longrightarrow> [] \<notin> set cs"
    using read_chunks_spec [OF r] by simp_all
  then show "n = min (cvb_len b) (length buf)" "buf' = overwrite buf 0 (take n (cvb_contents b))"
    "cvb_contents b' = drop n (cvb_contents b)" "cvb_ok b \<Longrightarrow> cvb_ok b'" "cv_limit b' = cv_limit b"
    by (simp_all add: b' cvb_len_contents cvb_contents_def cvb_ok_def)
qed

text \<open>The operations of the buffer, with the bytes that each accepts or hands out.\<close>

datatype CvbPut = PutAll "u8 list" | PutLimited "u8 list" | PutLimit "nat option"
datatype 'e CvbGet = GetRead "u8 list" | GetPop | GetWrite "u8 list list \<Rightarrow> 'e + nat"

fun cvb_put :: "CvbPut \<Rightarrow> ChunkVecBuffer \<Rightarrow> u8 list \<times> ChunkVecBuffer" where
  "cvb_put (PutAll bs) b = (let (n, b) = cvb_append b bs in (take n bs, b))"
| "cvb_put (PutLimited bs) b = (let (n, b) = append_limited_copy b bs in (take n bs, b))"
| "cvb_put (PutLimit l) b = ([], cvb_set_limit b l)"

fun cvb_get :: "'e CvbGet \<Rightarrow> ChunkVecBuffer \<Rightarrow> u8 list \<times> ChunkVecBuffer" where
  "cvb_get (GetRead buf) b = (let (n, buf, b) = cvb_read b buf in (take n buf, b))"
| "cvb_get GetPop b = (let (c, b) = cvb_pop b in (case c of Some c \<Rightarrow> c | None \<Rightarrow> [], b))"
| "cvb_get (GetWrite wr) b =
     (let (res, b') = cvb_write_to b wr in (case res of Inr n \<Rightarrow> take n (concat (take 64 (cv_chunks b))) | Inl _ \<Rightarrow> [], b'))"

text \<open>The contract of \<^verbatim>\<open>io::Write::write_vectored\<close>: it takes no more bytes than it was offered.\<close>

fun cvb_fair :: "'e CvbGet \<Rightarrow> bool" where
  "cvb_fair (GetWrite wr) \<longleftrightarrow> (\<forall>bufs n. wr bufs = Inr n \<longrightarrow> n \<le> length (concat bufs))"
| "cvb_fair _ \<longleftrightarrow> True"

lemma cvb_put_ok: "cvb_ok b \<Longrightarrow> cvb_put p b = (bs, b') \<Longrightarrow> cvb_ok b' \<and> cvb_contents b' = cvb_contents b @ bs"
  using cvb_append_contents [of b]
  by (cases p) (auto simp: append_limited_copy_def Let_def cvb_set_limit_def cvb_ok_def cvb_contents_def cvb_append_def split: prod.splits if_splits)

lemma take_drop_concat: "n \<le> length (concat (take k cs)) \<Longrightarrow> take n (concat (take k cs)) @ drop n (concat cs) = concat cs"
proof -
  assume "n \<le> length (concat (take k cs))"
  moreover have "concat cs = concat (take k cs) @ concat (drop k cs)" by (metis append_take_drop_id concat_append)
  ultimately have "take n (concat (take k cs)) = take n (concat cs)" by simp
  then show ?thesis by simp
qed

lemma cvb_get_ok: "cvb_ok b \<Longrightarrow> cvb_fair g \<Longrightarrow> cvb_get g b = (bs, b') \<Longrightarrow> cvb_ok b' \<and> cvb_contents b = bs @ cvb_contents b'"
proof (cases g)
  case (GetRead buf)
  assume ok: "cvb_ok b" and g: "cvb_get g b = (bs, b')"
  obtain n buf' b1 where r: "cvb_read b buf = (n, buf', b1)" by (metis prod.exhaust)
  note spec = cvb_read_spec [OF r]
  have "bs = take n (cvb_contents b)" "b' = b1" using g GetRead r spec(1,2) by (simp_all add: overwrite_def cvb_len_contents)
  then show ?thesis using spec ok by simp
next
  case GetPop
  assume "cvb_ok b" and "cvb_get g b = (bs, b')"
  then show ?thesis using GetPop by (cases "cv_chunks b") (auto simp: cvb_pop_def cvb_ok_def cvb_contents_def)
next
  case (GetWrite wr)
  assume "cvb_ok b" and fair: "cvb_fair g" and "cvb_get g b = (bs, b')"
  then show ?thesis using GetWrite take_drop_concat [of _ 64 "cv_chunks b"]
    by (cases "wr (take 64 (cv_chunks b))")
      (auto simp: cvb_write_to_def Let_def cvb_is_empty_def cvb_consume_def cvb_contents_def cvb_ok_def consume_chunks_concat
        consume_chunks_ok split: if_splits)
qed

interpretation cvb: byte_fifo cvb_contents cvb_ok cvb_put cvb_get cvb_fair
  by unfold_locales (fact cvb_put_ok, fact cvb_get_ok)

section \<open>Properties\<close>

text \<open>The chunked buffer is a first-in first-out queue of bytes: over any sequence of appends, limited appends, limit
  changes, reads, pops and vectored writes to a writer that takes no more than it is offered, the bytes handed out
  followed by those still buffered are the bytes buffered at first followed by those accepted; and the buffer never
  holds an empty chunk, so that it is empty exactly when it holds no byte.\<close>

theorem tls_vecbuf_fifo:
  assumes "cvb_ok b" and "cvb.fifo_run ops b = (ins, outs, b')" and "\<forall>g. Inr g \<in> set ops \<longrightarrow> cvb_fair g"
  shows "cvb_contents b @ ins = outs @ cvb_contents b' \<and> cvb_ok b' \<and> (cvb_is_empty b' \<longleftrightarrow> cvb_len b' = 0)"
  using cvb.fifo_run_order [OF assms] by (simp add: cvb_empty_contents cvb_len_contents)

theorem tls_vecbuf_fifo_witness:
  "cvb_contents (snd (snd (cvb.fifo_run [Inl (PutLimited [1, 2, 3]), Inr (GetRead [0, 0] :: nat CvbGet)] (cvb_new (Some 12))))) = [3]"
proof -
  have run: "cvb.fifo_run [Inl (PutLimited [1, 2, 3]), Inr (GetRead [0, 0] :: nat CvbGet)] (cvb_new (Some 12))
      = ([1, 2, 3], [1, 2], \<lparr>cv_chunks = [[3]], cv_limit = Some 12\<rparr>)"
    by (simp add: cvb_new_def append_limited_copy_def apply_limit_def cvb_len_def cvb_append_def cvb_read_def
      read_chunks.simps Let_def overwrite_def)
  have "cvb_ok (cvb_new (Some 12))" by (simp add: cvb_ok_def cvb_new_def)
  from tls_vecbuf_fifo [OF this run] have "[1, 2, 3] = [1, 2] @ cvb_contents \<lparr>cv_chunks = [[3]], cv_limit = Some 12\<rparr>"
    by (simp add: cvb_contents_def cvb_new_def)
  then show ?thesis unfolding run by simp
qed

text \<open>The limit: a limited append accepts a prefix of its input and reports its length, it accepts everything that
  still fits and nothing once the limit is reached, and it never makes the buffer longer than the limit, or longer than
  it was when the limit had been set below what is stored. A read fills the start of the caller's slice with the
  oldest bytes and leaves the rest of the slice alone.\<close>

theorem tls_vecbuf_limit:
  "\<exists>n b'. append_limited_copy b bs = (n, b') \<and> cvb_contents b' = cvb_contents b @ take n bs
     \<and> n = (case cv_limit b of None \<Rightarrow> length bs | Some l \<Rightarrow> min (length bs) (l - cvb_len b))
     \<and> (case cv_limit b of None \<Rightarrow> True | Some l \<Rightarrow> cvb_len b' \<le> max l (cvb_len b))
   \<and> (\<exists>k buf' c. cvb_read b buf = (k, buf', c) \<and> k = min (cvb_len b) (length buf)
       \<and> buf' = take k (cvb_contents b) @ drop k buf \<and> cvb_contents c = drop k (cvb_contents b))"
proof -
  obtain k buf' c where r: "cvb_read b buf = (k, buf', c)" by (metis prod.exhaust)
  note spec = cvb_read_spec [OF r]
  let ?n = "apply_limit b (length bs)"
  let ?b = "snd (cvb_append b (take ?n bs))"
  have read: "\<exists>k buf' c. cvb_read b buf = (k, buf', c) \<and> k = min (cvb_len b) (length buf)
       \<and> buf' = take k (cvb_contents b) @ drop k buf \<and> cvb_contents c = drop k (cvb_contents b)"
    using r spec by (simp add: overwrite_def cvb_len_contents)
  have "append_limited_copy b bs = (?n, ?b)" by (simp add: append_limited_copy_def Let_def)
  moreover have "cvb_contents ?b = cvb_contents b @ take ?n bs" by (simp add: cvb_append_contents)
  moreover have "?n = (case cv_limit b of None \<Rightarrow> length bs | Some l \<Rightarrow> min (length bs) (l - cvb_len b))"
    by (simp add: apply_limit_def Let_def split: option.split)
  moreover have "(case cv_limit b of None \<Rightarrow> True | Some l \<Rightarrow> cvb_len ?b \<le> max l (cvb_len b))"
    by (auto simp: cvb_len_contents cvb_append_contents apply_limit_def Let_def split: option.split)
  ultimately show ?thesis using read by blast
qed

end
