(* ===== verification/Tls_Enums.thy ===== *)
theory Tls_Enums
  imports Tls_Message_Correct
begin

text \<open>
  The enumerations of the handshake messages, from \<^verbatim>\<open>rustls-0.21.2/rustls/src/enums.rs\<close> and \<^verbatim>\<open>msgs/enums.rs\<close>: every named
  ordinal is a constructor, every other one is carried by \<^verbatim>\<open>Unknown\<close>, as the macro \<^verbatim>\<open>enum_builder!\<close> generates them.
  The 380 ordinals of \<^verbatim>\<open>CipherSuite\<close> are not named one by one: a suite is its 16-bit code.
\<close>

section \<open>Enumerations\<close>

datatype ExtensionType =
    ET_ServerName | ET_MaxFragmentLength | ET_ClientCertificateUrl | ET_TrustedCAKeys | ET_TruncatedHMAC | ET_StatusRequest
   | ET_UserMapping | ET_ClientAuthz | ET_ServerAuthz | ET_CertificateType | ET_EllipticCurves | ET_ECPointFormats | ET_SRP
   | ET_SignatureAlgorithms | ET_UseSRTP | ET_Heartbeat | ET_ALProtocolNegotiation | ET_SCT | ET_Padding
   | ET_ExtendedMasterSecret | ET_SessionTicket | ET_PreSharedKey | ET_EarlyData | ET_SupportedVersions | ET_Cookie
   | ET_PSKKeyExchangeModes | ET_TicketEarlyDataInfo | ET_CertificateAuthorities | ET_OIDFilters | ET_PostHandshakeAuth
   | ET_SignatureAlgorithmsCert | ET_KeyShare | ET_TransportParameters | ET_NextProtocolNegotiation | ET_ChannelId
   | ET_RenegotiationInfo | ET_TransportParametersDraft | ET_Unknown u16

primrec get_extension_type :: "ExtensionType \<Rightarrow> u16" where
  "get_extension_type ET_ServerName = 0"
| "get_extension_type ET_MaxFragmentLength = 1"
| "get_extension_type ET_ClientCertificateUrl = 2"
| "get_extension_type ET_TrustedCAKeys = 3"
| "get_extension_type ET_TruncatedHMAC = 4"
| "get_extension_type ET_StatusRequest = 5"
| "get_extension_type ET_UserMapping = 6"
| "get_extension_type ET_ClientAuthz = 7"
| "get_extension_type ET_ServerAuthz = 8"
| "get_extension_type ET_CertificateType = 9"
| "get_extension_type ET_EllipticCurves = 10"
| "get_extension_type ET_ECPointFormats = 11"
| "get_extension_type ET_SRP = 12"
| "get_extension_type ET_SignatureAlgorithms = 13"
| "get_extension_type ET_UseSRTP = 14"
| "get_extension_type ET_Heartbeat = 15"
| "get_extension_type ET_ALProtocolNegotiation = 16"
| "get_extension_type ET_SCT = 18"
| "get_extension_type ET_Padding = 21"
| "get_extension_type ET_ExtendedMasterSecret = 23"
| "get_extension_type ET_SessionTicket = 35"
| "get_extension_type ET_PreSharedKey = 41"
| "get_extension_type ET_EarlyData = 42"
| "get_extension_type ET_SupportedVersions = 43"
| "get_extension_type ET_Cookie = 44"
| "get_extension_type ET_PSKKeyExchangeModes = 45"
| "get_extension_type ET_TicketEarlyDataInfo = 46"
| "get_extension_type ET_CertificateAuthorities = 47"
| "get_extension_type ET_OIDFilters = 48"
| "get_extension_type ET_PostHandshakeAuth = 49"
| "get_extension_type ET_SignatureAlgorithmsCert = 50"
| "get_extension_type ET_KeyShare = 51"
| "get_extension_type ET_TransportParameters = 57"
| "get_extension_type ET_NextProtocolNegotiation = 13172"
| "get_extension_type ET_ChannelId = 30031"
| "get_extension_type ET_RenegotiationInfo = 65281"
| "get_extension_type ET_TransportParametersDraft = 65445"
| "get_extension_type (ET_Unknown x) = x"

definition from_extension_type :: "u16 \<Rightarrow> ExtensionType" where
  "from_extension_type x =
     (if x = 0 then ET_ServerName
      else if x = 1 then ET_MaxFragmentLength
      else if x = 2 then ET_ClientCertificateUrl
      else if x = 3 then ET_TrustedCAKeys
      else if x = 4 then ET_TruncatedHMAC
      else if x = 5 then ET_StatusRequest
      else if x = 6 then ET_UserMapping
      else if x = 7 then ET_ClientAuthz
      else if x = 8 then ET_ServerAuthz
      else if x = 9 then ET_CertificateType
      else if x = 10 then ET_EllipticCurves
      else if x = 11 then ET_ECPointFormats
      else if x = 12 then ET_SRP
      else if x = 13 then ET_SignatureAlgorithms
      else if x = 14 then ET_UseSRTP
      else if x = 15 then ET_Heartbeat
      else if x = 16 then ET_ALProtocolNegotiation
      else if x = 18 then ET_SCT
      else if x = 21 then ET_Padding
      else if x = 23 then ET_ExtendedMasterSecret
      else if x = 35 then ET_SessionTicket
      else if x = 41 then ET_PreSharedKey
      else if x = 42 then ET_EarlyData
      else if x = 43 then ET_SupportedVersions
      else if x = 44 then ET_Cookie
      else if x = 45 then ET_PSKKeyExchangeModes
      else if x = 46 then ET_TicketEarlyDataInfo
      else if x = 47 then ET_CertificateAuthorities
      else if x = 48 then ET_OIDFilters
      else if x = 49 then ET_PostHandshakeAuth
      else if x = 50 then ET_SignatureAlgorithmsCert
      else if x = 51 then ET_KeyShare
      else if x = 57 then ET_TransportParameters
      else if x = 13172 then ET_NextProtocolNegotiation
      else if x = 30031 then ET_ChannelId
      else if x = 65281 then ET_RenegotiationInfo
      else if x = 65445 then ET_TransportParametersDraft
      else ET_Unknown x)"

datatype NamedGroup =
    NG_secp256r1 | NG_secp384r1 | NG_secp521r1 | NG_X25519 | NG_X448 | NG_FFDHE2048 | NG_FFDHE3072 | NG_FFDHE4096
   | NG_FFDHE6144 | NG_FFDHE8192 | NG_Unknown u16

primrec get_named_group :: "NamedGroup \<Rightarrow> u16" where
  "get_named_group NG_secp256r1 = 23"
| "get_named_group NG_secp384r1 = 24"
| "get_named_group NG_secp521r1 = 25"
| "get_named_group NG_X25519 = 29"
| "get_named_group NG_X448 = 30"
| "get_named_group NG_FFDHE2048 = 256"
| "get_named_group NG_FFDHE3072 = 257"
| "get_named_group NG_FFDHE4096 = 258"
| "get_named_group NG_FFDHE6144 = 259"
| "get_named_group NG_FFDHE8192 = 260"
| "get_named_group (NG_Unknown x) = x"

definition from_named_group :: "u16 \<Rightarrow> NamedGroup" where
  "from_named_group x =
     (if x = 23 then NG_secp256r1
      else if x = 24 then NG_secp384r1
      else if x = 25 then NG_secp521r1
      else if x = 29 then NG_X25519
      else if x = 30 then NG_X448
      else if x = 256 then NG_FFDHE2048
      else if x = 257 then NG_FFDHE3072
      else if x = 258 then NG_FFDHE4096
      else if x = 259 then NG_FFDHE6144
      else if x = 260 then NG_FFDHE8192
      else NG_Unknown x)"

datatype SignatureScheme =
    SS_RSA_PKCS1_SHA1 | SS_ECDSA_SHA1_Legacy | SS_RSA_PKCS1_SHA256 | SS_ECDSA_NISTP256_SHA256 | SS_RSA_PKCS1_SHA384
   | SS_ECDSA_NISTP384_SHA384 | SS_RSA_PKCS1_SHA512 | SS_ECDSA_NISTP521_SHA512 | SS_RSA_PSS_SHA256 | SS_RSA_PSS_SHA384
   | SS_RSA_PSS_SHA512 | SS_ED25519 | SS_ED448 | SS_Unknown u16

primrec get_signature_scheme :: "SignatureScheme \<Rightarrow> u16" where
  "get_signature_scheme SS_RSA_PKCS1_SHA1 = 513"
| "get_signature_scheme SS_ECDSA_SHA1_Legacy = 515"
| "get_signature_scheme SS_RSA_PKCS1_SHA256 = 1025"
| "get_signature_scheme SS_ECDSA_NISTP256_SHA256 = 1027"
| "get_signature_scheme SS_RSA_PKCS1_SHA384 = 1281"
| "get_signature_scheme SS_ECDSA_NISTP384_SHA384 = 1283"
| "get_signature_scheme SS_RSA_PKCS1_SHA512 = 1537"
| "get_signature_scheme SS_ECDSA_NISTP521_SHA512 = 1539"
| "get_signature_scheme SS_RSA_PSS_SHA256 = 2052"
| "get_signature_scheme SS_RSA_PSS_SHA384 = 2053"
| "get_signature_scheme SS_RSA_PSS_SHA512 = 2054"
| "get_signature_scheme SS_ED25519 = 2055"
| "get_signature_scheme SS_ED448 = 2056"
| "get_signature_scheme (SS_Unknown x) = x"

definition from_signature_scheme :: "u16 \<Rightarrow> SignatureScheme" where
  "from_signature_scheme x =
     (if x = 513 then SS_RSA_PKCS1_SHA1
      else if x = 515 then SS_ECDSA_SHA1_Legacy
      else if x = 1025 then SS_RSA_PKCS1_SHA256
      else if x = 1027 then SS_ECDSA_NISTP256_SHA256
      else if x = 1281 then SS_RSA_PKCS1_SHA384
      else if x = 1283 then SS_ECDSA_NISTP384_SHA384
      else if x = 1537 then SS_RSA_PKCS1_SHA512
      else if x = 1539 then SS_ECDSA_NISTP521_SHA512
      else if x = 2052 then SS_RSA_PSS_SHA256
      else if x = 2053 then SS_RSA_PSS_SHA384
      else if x = 2054 then SS_RSA_PSS_SHA512
      else if x = 2055 then SS_ED25519
      else if x = 2056 then SS_ED448
      else SS_Unknown x)"

datatype ECPointFormat =
    EPF_Uncompressed | EPF_ANSIX962CompressedPrime | EPF_ANSIX962CompressedChar2 | EPF_Unknown u8

primrec get_ec_point_format :: "ECPointFormat \<Rightarrow> u8" where
  "get_ec_point_format EPF_Uncompressed = 0"
| "get_ec_point_format EPF_ANSIX962CompressedPrime = 1"
| "get_ec_point_format EPF_ANSIX962CompressedChar2 = 2"
| "get_ec_point_format (EPF_Unknown x) = x"

definition from_ec_point_format :: "u8 \<Rightarrow> ECPointFormat" where
  "from_ec_point_format x =
     (if x = 0 then EPF_Uncompressed
      else if x = 1 then EPF_ANSIX962CompressedPrime
      else if x = 2 then EPF_ANSIX962CompressedChar2
      else EPF_Unknown x)"

datatype ECCurveType =
    ECT_ExplicitPrime | ECT_ExplicitChar2 | ECT_NamedCurve | ECT_Unknown u8

primrec get_ec_curve_type :: "ECCurveType \<Rightarrow> u8" where
  "get_ec_curve_type ECT_ExplicitPrime = 1"
| "get_ec_curve_type ECT_ExplicitChar2 = 2"
| "get_ec_curve_type ECT_NamedCurve = 3"
| "get_ec_curve_type (ECT_Unknown x) = x"

definition from_ec_curve_type :: "u8 \<Rightarrow> ECCurveType" where
  "from_ec_curve_type x =
     (if x = 1 then ECT_ExplicitPrime
      else if x = 2 then ECT_ExplicitChar2
      else if x = 3 then ECT_NamedCurve
      else ECT_Unknown x)"

datatype Compression =
    COMP_Null | COMP_Deflate | COMP_LSZ | COMP_Unknown u8

primrec get_compression :: "Compression \<Rightarrow> u8" where
  "get_compression COMP_Null = 0"
| "get_compression COMP_Deflate = 1"
| "get_compression COMP_LSZ = 64"
| "get_compression (COMP_Unknown x) = x"

definition from_compression :: "u8 \<Rightarrow> Compression" where
  "from_compression x =
     (if x = 0 then COMP_Null
      else if x = 1 then COMP_Deflate
      else if x = 64 then COMP_LSZ
      else COMP_Unknown x)"

datatype ClientCertificateType =
    CCT_RSASign | CCT_DSSSign | CCT_RSAFixedDH | CCT_DSSFixedDH | CCT_RSAEphemeralDH | CCT_DSSEphemeralDH | CCT_FortezzaDMS
   | CCT_ECDSASign | CCT_RSAFixedECDH | CCT_ECDSAFixedECDH | CCT_Unknown u8

primrec get_client_certificate_type :: "ClientCertificateType \<Rightarrow> u8" where
  "get_client_certificate_type CCT_RSASign = 1"
| "get_client_certificate_type CCT_DSSSign = 2"
| "get_client_certificate_type CCT_RSAFixedDH = 3"
| "get_client_certificate_type CCT_DSSFixedDH = 4"
| "get_client_certificate_type CCT_RSAEphemeralDH = 5"
| "get_client_certificate_type CCT_DSSEphemeralDH = 6"
| "get_client_certificate_type CCT_FortezzaDMS = 20"
| "get_client_certificate_type CCT_ECDSASign = 64"
| "get_client_certificate_type CCT_RSAFixedECDH = 65"
| "get_client_certificate_type CCT_ECDSAFixedECDH = 66"
| "get_client_certificate_type (CCT_Unknown x) = x"

definition from_client_certificate_type :: "u8 \<Rightarrow> ClientCertificateType" where
  "from_client_certificate_type x =
     (if x = 1 then CCT_RSASign
      else if x = 2 then CCT_DSSSign
      else if x = 3 then CCT_RSAFixedDH
      else if x = 4 then CCT_DSSFixedDH
      else if x = 5 then CCT_RSAEphemeralDH
      else if x = 6 then CCT_DSSEphemeralDH
      else if x = 20 then CCT_FortezzaDMS
      else if x = 64 then CCT_ECDSASign
      else if x = 65 then CCT_RSAFixedECDH
      else if x = 66 then CCT_ECDSAFixedECDH
      else CCT_Unknown x)"

datatype ServerNameType =
    SNT_HostName | SNT_Unknown u8

primrec get_server_name_type :: "ServerNameType \<Rightarrow> u8" where
  "get_server_name_type SNT_HostName = 0"
| "get_server_name_type (SNT_Unknown x) = x"

definition from_server_name_type :: "u8 \<Rightarrow> ServerNameType" where
  "from_server_name_type x =
     (if x = 0 then SNT_HostName
      else SNT_Unknown x)"

datatype PSKKeyExchangeMode =
    PKM_PSK_KE | PKM_PSK_DHE_KE | PKM_Unknown u8

primrec get_psk_mode :: "PSKKeyExchangeMode \<Rightarrow> u8" where
  "get_psk_mode PKM_PSK_KE = 0"
| "get_psk_mode PKM_PSK_DHE_KE = 1"
| "get_psk_mode (PKM_Unknown x) = x"

definition from_psk_mode :: "u8 \<Rightarrow> PSKKeyExchangeMode" where
  "from_psk_mode x =
     (if x = 0 then PKM_PSK_KE
      else if x = 1 then PKM_PSK_DHE_KE
      else PKM_Unknown x)"

datatype CertificateStatusType =
    CST_OCSP | CST_Unknown u8

primrec get_certificate_status_type :: "CertificateStatusType \<Rightarrow> u8" where
  "get_certificate_status_type CST_OCSP = 1"
| "get_certificate_status_type (CST_Unknown x) = x"

definition from_certificate_status_type :: "u8 \<Rightarrow> CertificateStatusType" where
  "from_certificate_status_type x =
     (if x = 1 then CST_OCSP
      else CST_Unknown x)"

datatype KeyUpdateRequest =
    KU_UpdateNotRequested | KU_UpdateRequested | KU_Unknown u8

primrec get_key_update_request :: "KeyUpdateRequest \<Rightarrow> u8" where
  "get_key_update_request KU_UpdateNotRequested = 0"
| "get_key_update_request KU_UpdateRequested = 1"
| "get_key_update_request (KU_Unknown x) = x"

definition from_key_update_request :: "u8 \<Rightarrow> KeyUpdateRequest" where
  "from_key_update_request x =
     (if x = 0 then KU_UpdateNotRequested
      else if x = 1 then KU_UpdateRequested
      else KU_Unknown x)"

type_synonym CipherSuite = u16

section \<open>Codecs\<close>

abbreviation "enc_extension_type \<equiv> enc_enum16 get_extension_type"
abbreviation "read_extension_type \<equiv> read_enum16 ''ExtensionType'' from_extension_type"
abbreviation "enc_named_group \<equiv> enc_enum16 get_named_group"
abbreviation "read_named_group \<equiv> read_enum16 ''NamedGroup'' from_named_group"
abbreviation "enc_signature_scheme \<equiv> enc_enum16 get_signature_scheme"
abbreviation "read_signature_scheme \<equiv> read_enum16 ''SignatureScheme'' from_signature_scheme"
abbreviation "enc_ec_point_format \<equiv> enc_enum8 get_ec_point_format"
abbreviation "read_ec_point_format \<equiv> read_enum8 ''ECPointFormat'' from_ec_point_format"
abbreviation "enc_ec_curve_type \<equiv> enc_enum8 get_ec_curve_type"
abbreviation "read_ec_curve_type \<equiv> read_enum8 ''ECCurveType'' from_ec_curve_type"
abbreviation "enc_compression \<equiv> enc_enum8 get_compression"
abbreviation "read_compression \<equiv> read_enum8 ''Compression'' from_compression"
abbreviation "enc_client_certificate_type \<equiv> enc_enum8 get_client_certificate_type"
abbreviation "read_client_certificate_type \<equiv> read_enum8 ''ClientCertificateType'' from_client_certificate_type"
abbreviation "enc_server_name_type \<equiv> enc_enum8 get_server_name_type"
abbreviation "read_server_name_type \<equiv> read_enum8 ''ServerNameType'' from_server_name_type"
abbreviation "enc_psk_mode \<equiv> enc_enum8 get_psk_mode"
abbreviation "read_psk_mode \<equiv> read_enum8 ''PSKKeyExchangeMode'' from_psk_mode"
abbreviation "enc_certificate_status_type \<equiv> enc_enum8 get_certificate_status_type"
abbreviation "read_certificate_status_type \<equiv> read_enum8 ''CertificateStatusType'' from_certificate_status_type"
abbreviation "enc_key_update_request \<equiv> enc_enum8 get_key_update_request"
abbreviation "read_key_update_request \<equiv> read_enum8 ''KeyUpdateRequest'' from_key_update_request"

text \<open>\<^verbatim>\<open>CipherSuite::read\<close> reports its own name when data is missing.\<close>

abbreviation "enc_cipher_suite \<equiv> enc_enum16 (\<lambda>x :: CipherSuite. x)"
abbreviation "read_cipher_suite \<equiv> read_enum16 ''CipherSuite'' (\<lambda>x :: CipherSuite. x)"

lemma get_from_extension_type [simp]: "get_extension_type (from_extension_type x) = x"
  by (simp add: from_extension_type_def)

lemma get_from_named_group [simp]: "get_named_group (from_named_group x) = x"
  by (simp add: from_named_group_def)

lemma get_from_signature_scheme [simp]: "get_signature_scheme (from_signature_scheme x) = x"
  by (simp add: from_signature_scheme_def)

lemma get_from_ec_point_format [simp]: "get_ec_point_format (from_ec_point_format x) = x"
  by (simp add: from_ec_point_format_def)

lemma get_from_ec_curve_type [simp]: "get_ec_curve_type (from_ec_curve_type x) = x"
  by (simp add: from_ec_curve_type_def)

lemma get_from_compression [simp]: "get_compression (from_compression x) = x"
  by (simp add: from_compression_def)

lemma get_from_client_certificate_type [simp]: "get_client_certificate_type (from_client_certificate_type x) = x"
  by (simp add: from_client_certificate_type_def)

lemma get_from_server_name_type [simp]: "get_server_name_type (from_server_name_type x) = x"
  by (simp add: from_server_name_type_def)

lemma get_from_psk_mode [simp]: "get_psk_mode (from_psk_mode x) = x"
  by (simp add: from_psk_mode_def)

lemma get_from_certificate_status_type [simp]: "get_certificate_status_type (from_certificate_status_type x) = x"
  by (simp add: from_certificate_status_type_def)

lemma get_from_key_update_request [simp]: "get_key_update_request (from_key_update_request x) = x"
  by (simp add: from_key_update_request_def)

end
