(* ===== verification/Tls_Handshake.thy ===== *)
theory Tls_Handshake
  imports Tls_Enums
begin

text \<open>
  The handshake messages and their codecs, from \<^verbatim>\<open>rustls-0.21.2/rustls/src/msgs/handshake.rs\<close>. \<^verbatim>\<open>webpki\<close> checks host names: the
  function that parses one is the parameter \<open>dns\<close>, from the bytes on the wire to the bytes of the name it accepts.
\<close>

section \<open>Decoding steps\<close>

definition rd_return :: "'a \<Rightarrow> 'a reads" where
  "rd_return x r = (Inr x, r)"

definition rd_fail :: "InvalidMessage \<Rightarrow> 'a reads" where
  "rd_fail e r = (Inl e, r)"

definition rd_map :: "('a \<Rightarrow> 'b) \<Rightarrow> 'a reads \<Rightarrow> 'b reads" where
  "rd_map f rd = rd_bind rd (\<lambda>x. rd_return (f x))"

text \<open>\<^verbatim>\<open>r.expect_empty(name).map(|_| x)\<close> at the end of a decoder, and decoding inside \<^verbatim>\<open>r.sub(n)?\<close>.\<close>

definition rd_end :: "string \<Rightarrow> 'a \<Rightarrow> 'a reads" where
  "rd_end name x r = (case expect_empty name r of Inl e \<Rightarrow> (Inl e, r) | Inr _ \<Rightarrow> (Inr x, r))"

definition rd_inside :: "nat \<Rightarrow> 'a reads \<Rightarrow> 'a reads" where
  "rd_inside n body = rd_bind (rd_sub n) (\<lambda>sub r. (fst (body sub), r))"

text \<open>\<^verbatim>\<open>Vec::read\<close>. \<^const>\<open>read_vec\<close> is \<^const>\<open>None\<close> only when its loop does not end, which the element decoders of this
  theory exclude.\<close>

definition read_list :: "ListLength \<Rightarrow> 'a reads \<Rightarrow> 'a list reads" where
  "read_list sz rd r = (case read_vec sz rd r of Some y \<Rightarrow> y | None \<Rightarrow> (Inl MessageTooShort, r))"

abbreviation "enc_list16 \<equiv> enc_vec LenU16"
abbreviation "enc_list8 \<equiv> enc_vec LenU8"
abbreviation "read_list16 \<equiv> read_list LenU16"
abbreviation "read_list8 \<equiv> read_list LenU8"

section \<open>Random and session identifiers\<close>

text \<open>\<^verbatim>\<open>Random\<close> is an array of 32 bytes.\<close>

type_synonym Random = "u8 list"

definition HELLO_RETRY_REQUEST_RANDOM :: Random where
  "HELLO_RETRY_REQUEST_RANDOM =
     [0xcf, 0x21, 0xad, 0x74, 0xe5, 0x9a, 0x61, 0x11, 0xbe, 0x1d, 0x8c, 0x02, 0x1e, 0x65, 0xb8, 0x91,
      0xc2, 0xa2, 0x11, 0x16, 0x7a, 0xbb, 0x8c, 0x5e, 0x07, 0x9e, 0x09, 0xe2, 0xc8, 0xa8, 0x33, 0x9c]"

definition ZERO_RANDOM :: Random where
  "ZERO_RANDOM = replicate 32 0"

definition enc_random :: "Random \<Rightarrow> u8 list \<Rightarrow> u8 list" where
  "enc_random x bytes = bytes @ x"

definition read_random :: "Random reads" where
  "read_random r = (case rd_take r 32 of (Some bs, r) \<Rightarrow> (Inr bs, r) | (None, r) \<Rightarrow> (Inl (MissingData ''Random''), r))"

record SessionId =
  sid_len :: nat
  sid_data :: "u8 list"

definition sid_eq :: "SessionId \<Rightarrow> SessionId \<Rightarrow> bool" where
  "sid_eq a b =
     (if sid_len a \<noteq> sid_len b then False
      else foldl (\<lambda>diff i. diff OR (sid_data a ! i XOR sid_data b ! i)) 0 [0..<sid_len a] = 0)"

definition enc_session_id :: "SessionId \<Rightarrow> u8 list \<Rightarrow> u8 list" where
  "enc_session_id x bytes = (bytes @ [word_of_nat (sid_len x)]) @ take (sid_len x) (sid_data x)"

definition read_session_id :: "SessionId reads" where
  "read_session_id = rd_bind read_u8 (\<lambda>len r.
     if 32 < unat len then (Inl (TrailingData ''SessionID''), r)
     else (case rd_take r (unat len) of
             (Some bs, r) \<Rightarrow> (Inr \<lparr>sid_len = unat len, sid_data = overwrite (replicate 32 0) 0 bs\<rparr>, r)
           | (None, r) \<Rightarrow> (Inl (MissingData ''SessionID''), r)))"

definition sid_empty :: SessionId where
  "sid_empty = \<lparr>sid_len = 0, sid_data = replicate 32 0\<rparr>"

section \<open>Server names\<close>

datatype ServerNamePayload = SNP_HostName "u8 list" "u8 list" | SNP_Unknown "u8 list"

definition new_hostname :: "u8 list \<Rightarrow> ServerNamePayload" where
  "new_hostname hostname = SNP_HostName hostname hostname"

definition read_hostname :: "(u8 list \<Rightarrow> u8 list option) \<Rightarrow> ServerNamePayload reads" where
  "read_hostname dns = rd_bind read_payload_u16 (\<lambda>raw.
     (case dns raw of Some dns_name \<Rightarrow> rd_return (SNP_HostName raw dns_name) | None \<Rightarrow> rd_fail InvalidServerName))"

fun enc_server_name_payload :: "ServerNamePayload \<Rightarrow> u8 list \<Rightarrow> u8 list" where
  "enc_server_name_payload (SNP_HostName raw dns_name) bytes = enc_payload_u16 raw bytes"
| "enc_server_name_payload (SNP_Unknown raw) bytes = enc_payload raw bytes"

record ServerName =
  sn_typ :: ServerNameType
  sn_payload :: ServerNamePayload

definition enc_server_name :: "ServerName \<Rightarrow> u8 list \<Rightarrow> u8 list" where
  "enc_server_name x bytes = enc_server_name_payload (sn_payload x) (enc_server_name_type (sn_typ x) bytes)"

definition read_server_name :: "(u8 list \<Rightarrow> u8 list option) \<Rightarrow> ServerName reads" where
  "read_server_name dns = rd_bind read_server_name_type (\<lambda>typ.
     rd_bind (if typ = SNT_HostName then read_hostname dns else rd_map SNP_Unknown read_payload)
       (\<lambda>payload. rd_return \<lparr>sn_typ = typ, sn_payload = payload\<rparr>))"

text \<open>The loops that insert into a \<^verbatim>\<open>HashSet\<close> and stop at the first value already there.\<close>

fun dup_loop :: "('a \<Rightarrow> 'b) \<Rightarrow> 'b set \<Rightarrow> 'a list \<Rightarrow> bool" where
  "dup_loop key seen [] = False"
| "dup_loop key seen (x # xs) = (if key x \<in> seen then True else dup_loop key (insert (key x) seen) xs)"

definition has_duplicate_names_for_type :: "ServerName list \<Rightarrow> bool" where
  "has_duplicate_names_for_type names = dup_loop (\<lambda>name. get_server_name_type (sn_typ name)) {} names"

fun get_single_hostname :: "ServerName list \<Rightarrow> u8 list option" where
  "get_single_hostname [] = None"
| "get_single_hostname (name # names) =
     (case sn_payload name of SNP_HostName raw dns \<Rightarrow> Some dns | SNP_Unknown _ \<Rightarrow> get_single_hostname names)"

type_synonym ProtocolName = "u8 list"

definition as_single_slice :: "ProtocolName list \<Rightarrow> u8 list option" where
  "as_single_slice ps = (if length ps = 1 then Some (ps ! 0) else None)"

section \<open>Key shares and pre-shared keys\<close>

record KeyShareEntry =
  kse_group :: NamedGroup
  kse_payload :: "u8 list"

definition enc_key_share :: "KeyShareEntry \<Rightarrow> u8 list \<Rightarrow> u8 list" where
  "enc_key_share x bytes = enc_payload_u16 (kse_payload x) (enc_named_group (kse_group x) bytes)"

definition read_key_share :: "KeyShareEntry reads" where
  "read_key_share = rd_bind read_named_group (\<lambda>group. rd_bind read_payload_u16 (\<lambda>payload.
     rd_return \<lparr>kse_group = group, kse_payload = payload\<rparr>))"

record PresharedKeyIdentity =
  psk_identity :: "u8 list"
  psk_ticket_age :: u32

definition enc_psk_identity :: "PresharedKeyIdentity \<Rightarrow> u8 list \<Rightarrow> u8 list" where
  "enc_psk_identity x bytes = enc_u32 (psk_ticket_age x) (enc_payload_u16 (psk_identity x) bytes)"

definition read_psk_identity :: "PresharedKeyIdentity reads" where
  "read_psk_identity = rd_bind read_payload_u16 (\<lambda>identity. rd_bind read_u32 (\<lambda>age.
     rd_return \<lparr>psk_identity = identity, psk_ticket_age = age\<rparr>))"

type_synonym PresharedKeyBinder = "u8 list"

record PresharedKeyOffer =
  pko_identities :: "PresharedKeyIdentity list"
  pko_binders :: "PresharedKeyBinder list"

definition enc_psk_offer :: "PresharedKeyOffer \<Rightarrow> u8 list \<Rightarrow> u8 list" where
  "enc_psk_offer x bytes = enc_list16 enc_payload_u8 (pko_binders x) (enc_list16 enc_psk_identity (pko_identities x) bytes)"

definition read_psk_offer :: "PresharedKeyOffer reads" where
  "read_psk_offer = rd_bind (read_list16 read_psk_identity) (\<lambda>identities. rd_bind (read_list16 read_payload_u8) (\<lambda>binders.
     rd_return \<lparr>pko_identities = identities, pko_binders = binders\<rparr>))"

section \<open>Certificate status requests\<close>

record OCSPCertificateStatusRequest =
  ocsp_responder_ids :: "u8 list list"
  ocsp_extensions :: "u8 list"

definition enc_ocsp_request :: "OCSPCertificateStatusRequest \<Rightarrow> u8 list \<Rightarrow> u8 list" where
  "enc_ocsp_request x bytes =
     enc_payload_u16 (ocsp_extensions x) (enc_list16 enc_payload_u16 (ocsp_responder_ids x) (enc_certificate_status_type CST_OCSP bytes))"

definition read_ocsp_request :: "OCSPCertificateStatusRequest reads" where
  "read_ocsp_request = rd_bind (read_list16 read_payload_u16) (\<lambda>ids. rd_bind read_payload_u16 (\<lambda>exts.
     rd_return \<lparr>ocsp_responder_ids = ids, ocsp_extensions = exts\<rparr>))"

datatype CertificateStatusRequest = CSR_OCSP OCSPCertificateStatusRequest | CSR_Unknown CertificateStatusType "u8 list"

fun enc_status_request :: "CertificateStatusRequest \<Rightarrow> u8 list \<Rightarrow> u8 list" where
  "enc_status_request (CSR_OCSP r) bytes = enc_ocsp_request r bytes"
| "enc_status_request (CSR_Unknown typ payload) bytes = enc_payload payload (enc_certificate_status_type typ bytes)"

definition read_status_request :: "CertificateStatusRequest reads" where
  "read_status_request = rd_bind read_certificate_status_type (\<lambda>typ.
     if typ = CST_OCSP then rd_map CSR_OCSP read_ocsp_request
     else rd_bind read_payload (\<lambda>data. rd_return (CSR_Unknown typ data)))"

definition build_ocsp :: CertificateStatusRequest where
  "build_ocsp = CSR_OCSP \<lparr>ocsp_responder_ids = [], ocsp_extensions = []\<rparr>"

section \<open>Extensions\<close>

record UnknownExtension =
  ue_typ :: ExtensionType
  ue_payload :: "u8 list"

definition read_unknown_extension :: "ExtensionType \<Rightarrow> UnknownExtension reads" where
  "read_unknown_extension typ = rd_bind read_payload (\<lambda>payload. rd_return \<lparr>ue_typ = typ, ue_payload = payload\<rparr>)"

text \<open>The frame that every extension codec writes and reads around its body: type, 16-bit length, body, and
  nothing left over.\<close>

definition enc_extension :: "ExtensionType \<Rightarrow> u8 list \<Rightarrow> u8 list \<Rightarrow> u8 list" where
  "enc_extension typ sub bytes = enc_u16 (word_of_nat (length sub)) (enc_extension_type typ bytes) @ sub"

definition read_extension :: "string \<Rightarrow> (ExtensionType \<Rightarrow> 'e reads) \<Rightarrow> 'e reads" where
  "read_extension name body = rd_bind read_extension_type (\<lambda>typ. rd_bind read_u16 (\<lambda>len.
     rd_inside (unat len) (rd_bind (body typ) (\<lambda>ext. rd_end name ext))))"

datatype ClientSessionTicket = ST_Request | ST_Offer "u8 list"

datatype ClientExtension =
    CE_ECPointFormats "ECPointFormat list"
  | CE_NamedGroups "NamedGroup list"
  | CE_SignatureAlgorithms "SignatureScheme list"
  | CE_ServerName "ServerName list"
  | CE_SessionTicket ClientSessionTicket
  | CE_Protocols "ProtocolName list"
  | CE_SupportedVersions "ProtocolVersion list"
  | CE_KeyShare "KeyShareEntry list"
  | CE_PresharedKeyModes "PSKKeyExchangeMode list"
  | CE_PresharedKey PresharedKeyOffer
  | CE_Cookie "u8 list"
  | CE_ExtendedMasterSecretRequest
  | CE_CertificateStatusRequest CertificateStatusRequest
  | CE_SignedCertificateTimestampRequest
  | CE_TransportParameters "u8 list"
  | CE_TransportParametersDraft "u8 list"
  | CE_EarlyData
  | CE_Unknown UnknownExtension

primrec ce_get_type :: "ClientExtension \<Rightarrow> ExtensionType" where
  "ce_get_type (CE_ECPointFormats r) = ET_ECPointFormats"
| "ce_get_type (CE_NamedGroups r) = ET_EllipticCurves"
| "ce_get_type (CE_SignatureAlgorithms r) = ET_SignatureAlgorithms"
| "ce_get_type (CE_ServerName r) = ET_ServerName"
| "ce_get_type (CE_SessionTicket r) = ET_SessionTicket"
| "ce_get_type (CE_Protocols r) = ET_ALProtocolNegotiation"
| "ce_get_type (CE_SupportedVersions r) = ET_SupportedVersions"
| "ce_get_type (CE_KeyShare r) = ET_KeyShare"
| "ce_get_type (CE_PresharedKeyModes r) = ET_PSKKeyExchangeModes"
| "ce_get_type (CE_PresharedKey r) = ET_PreSharedKey"
| "ce_get_type (CE_Cookie r) = ET_Cookie"
| "ce_get_type CE_ExtendedMasterSecretRequest = ET_ExtendedMasterSecret"
| "ce_get_type (CE_CertificateStatusRequest r) = ET_StatusRequest"
| "ce_get_type CE_SignedCertificateTimestampRequest = ET_SCT"
| "ce_get_type (CE_TransportParameters r) = ET_TransportParameters"
| "ce_get_type (CE_TransportParametersDraft r) = ET_TransportParametersDraft"
| "ce_get_type CE_EarlyData = ET_EarlyData"
| "ce_get_type (CE_Unknown r) = ue_typ r"

primrec ce_body :: "ClientExtension \<Rightarrow> u8 list" where
  "ce_body (CE_ECPointFormats r) = enc_list8 enc_ec_point_format r []"
| "ce_body (CE_NamedGroups r) = enc_list16 enc_named_group r []"
| "ce_body (CE_SignatureAlgorithms r) = enc_list16 enc_signature_scheme r []"
| "ce_body (CE_ServerName r) = enc_list16 enc_server_name r []"
| "ce_body (CE_SessionTicket r) = (case r of ST_Request \<Rightarrow> [] | ST_Offer p \<Rightarrow> enc_payload p [])"
| "ce_body (CE_Protocols r) = enc_list16 enc_payload_u8 r []"
| "ce_body (CE_SupportedVersions r) = enc_list8 (enc_enum16 get_protocol_version) r []"
| "ce_body (CE_KeyShare r) = enc_list16 enc_key_share r []"
| "ce_body (CE_PresharedKeyModes r) = enc_list8 enc_psk_mode r []"
| "ce_body (CE_PresharedKey r) = enc_psk_offer r []"
| "ce_body (CE_Cookie r) = enc_payload_u16 r []"
| "ce_body CE_ExtendedMasterSecretRequest = []"
| "ce_body (CE_CertificateStatusRequest r) = enc_status_request r []"
| "ce_body CE_SignedCertificateTimestampRequest = []"
| "ce_body (CE_TransportParameters r) = r"
| "ce_body (CE_TransportParametersDraft r) = r"
| "ce_body CE_EarlyData = []"
| "ce_body (CE_Unknown r) = enc_payload (ue_payload r) []"

definition enc_client_extension :: "ClientExtension \<Rightarrow> u8 list \<Rightarrow> u8 list" where
  "enc_client_extension e bytes = enc_extension (ce_get_type e) (ce_body e) bytes"

definition read_client_body :: "(u8 list \<Rightarrow> u8 list option) \<Rightarrow> ExtensionType \<Rightarrow> ClientExtension reads" where
  "read_client_body dns typ = (\<lambda>sub.
      if typ = ET_ECPointFormats then rd_map CE_ECPointFormats (read_list8 read_ec_point_format) sub
      else if typ = ET_EllipticCurves then rd_map CE_NamedGroups (read_list16 read_named_group) sub
      else if typ = ET_SignatureAlgorithms then rd_map CE_SignatureAlgorithms (read_list16 read_signature_scheme) sub
      else if typ = ET_ServerName then rd_map CE_ServerName (read_list16 (read_server_name dns)) sub
      else if typ = ET_SessionTicket
      then (if any_left sub then rd_map (\<lambda>p. CE_SessionTicket (ST_Offer p)) read_payload sub else (Inr (CE_SessionTicket ST_Request), sub))
      else if typ = ET_ALProtocolNegotiation then rd_map CE_Protocols (read_list16 read_payload_u8) sub
      else if typ = ET_SupportedVersions then rd_map CE_SupportedVersions (read_list8 read_protocol_version) sub
      else if typ = ET_KeyShare then rd_map CE_KeyShare (read_list16 read_key_share) sub
      else if typ = ET_PSKKeyExchangeModes then rd_map CE_PresharedKeyModes (read_list8 read_psk_mode) sub
      else if typ = ET_PreSharedKey then rd_map CE_PresharedKey read_psk_offer sub
      else if typ = ET_Cookie then rd_map CE_Cookie read_payload_u16 sub
      else if typ = ET_ExtendedMasterSecret \<and> \<not> any_left sub then (Inr CE_ExtendedMasterSecretRequest, sub)
      else if typ = ET_StatusRequest then rd_map CE_CertificateStatusRequest read_status_request sub
      else if typ = ET_SCT \<and> \<not> any_left sub then (Inr CE_SignedCertificateTimestampRequest, sub)
      else if typ = ET_TransportParameters then rd_map CE_TransportParameters read_payload sub
      else if typ = ET_TransportParametersDraft then rd_map CE_TransportParametersDraft read_payload sub
      else if typ = ET_EarlyData \<and> \<not> any_left sub then (Inr CE_EarlyData, sub)
      else rd_map CE_Unknown (read_unknown_extension typ) sub)"

definition read_client_extension :: "(u8 list \<Rightarrow> u8 list option) \<Rightarrow> ClientExtension reads" where
  "read_client_extension dns = read_extension ''ClientExtension'' (read_client_body dns)"

datatype ServerExtension =
    SE_ECPointFormats "ECPointFormat list"
  | SE_ServerNameAck
  | SE_SessionTicketAck
  | SE_RenegotiationInfo "u8 list"
  | SE_Protocols "ProtocolName list"
  | SE_KeyShare KeyShareEntry
  | SE_PresharedKey u16
  | SE_ExtendedMasterSecretAck
  | SE_CertificateStatusAck
  | SE_SignedCertificateTimestamp "u8 list list"
  | SE_SupportedVersions ProtocolVersion
  | SE_TransportParameters "u8 list"
  | SE_TransportParametersDraft "u8 list"
  | SE_EarlyData
  | SE_Unknown UnknownExtension

primrec se_get_type :: "ServerExtension \<Rightarrow> ExtensionType" where
  "se_get_type (SE_ECPointFormats r) = ET_ECPointFormats"
| "se_get_type SE_ServerNameAck = ET_ServerName"
| "se_get_type SE_SessionTicketAck = ET_SessionTicket"
| "se_get_type (SE_RenegotiationInfo r) = ET_RenegotiationInfo"
| "se_get_type (SE_Protocols r) = ET_ALProtocolNegotiation"
| "se_get_type (SE_KeyShare r) = ET_KeyShare"
| "se_get_type (SE_PresharedKey r) = ET_PreSharedKey"
| "se_get_type SE_ExtendedMasterSecretAck = ET_ExtendedMasterSecret"
| "se_get_type SE_CertificateStatusAck = ET_StatusRequest"
| "se_get_type (SE_SignedCertificateTimestamp r) = ET_SCT"
| "se_get_type (SE_SupportedVersions r) = ET_SupportedVersions"
| "se_get_type (SE_TransportParameters r) = ET_TransportParameters"
| "se_get_type (SE_TransportParametersDraft r) = ET_TransportParametersDraft"
| "se_get_type SE_EarlyData = ET_EarlyData"
| "se_get_type (SE_Unknown r) = ue_typ r"

primrec se_body :: "ServerExtension \<Rightarrow> u8 list" where
  "se_body (SE_ECPointFormats r) = enc_list8 enc_ec_point_format r []"
| "se_body SE_ServerNameAck = []"
| "se_body SE_SessionTicketAck = []"
| "se_body (SE_RenegotiationInfo r) = enc_payload_u8 r []"
| "se_body (SE_Protocols r) = enc_list16 enc_payload_u8 r []"
| "se_body (SE_KeyShare r) = enc_key_share r []"
| "se_body (SE_PresharedKey r) = enc_u16 r []"
| "se_body SE_ExtendedMasterSecretAck = []"
| "se_body SE_CertificateStatusAck = []"
| "se_body (SE_SignedCertificateTimestamp r) = enc_list16 enc_payload_u16 r []"
| "se_body (SE_SupportedVersions r) = enc_enum16 get_protocol_version r []"
| "se_body (SE_TransportParameters r) = r"
| "se_body (SE_TransportParametersDraft r) = r"
| "se_body SE_EarlyData = []"
| "se_body (SE_Unknown r) = enc_payload (ue_payload r) []"

definition enc_server_extension :: "ServerExtension \<Rightarrow> u8 list \<Rightarrow> u8 list" where
  "enc_server_extension e bytes = enc_extension (se_get_type e) (se_body e) bytes"

definition read_server_body :: "ExtensionType \<Rightarrow> ServerExtension reads" where
  "read_server_body typ =
     (if typ = ET_ECPointFormats then rd_map SE_ECPointFormats (read_list8 read_ec_point_format)
      else if typ = ET_ServerName then rd_return SE_ServerNameAck
      else if typ = ET_SessionTicket then rd_return SE_SessionTicketAck
      else if typ = ET_StatusRequest then rd_return SE_CertificateStatusAck
      else if typ = ET_RenegotiationInfo then rd_map SE_RenegotiationInfo read_payload_u8
      else if typ = ET_ALProtocolNegotiation then rd_map SE_Protocols (read_list16 read_payload_u8)
      else if typ = ET_KeyShare then rd_map SE_KeyShare read_key_share
      else if typ = ET_PreSharedKey then rd_map SE_PresharedKey read_u16
      else if typ = ET_ExtendedMasterSecret then rd_return SE_ExtendedMasterSecretAck
      else if typ = ET_SCT then rd_map SE_SignedCertificateTimestamp (read_list16 read_payload_u16)
      else if typ = ET_SupportedVersions then rd_map SE_SupportedVersions read_protocol_version
      else if typ = ET_TransportParameters then rd_map SE_TransportParameters read_payload
      else if typ = ET_TransportParametersDraft then rd_map SE_TransportParametersDraft read_payload
      else if typ = ET_EarlyData then rd_return SE_EarlyData
      else rd_map SE_Unknown (read_unknown_extension typ))"

definition read_server_extension :: "ServerExtension reads" where
  "read_server_extension = read_extension ''ServerExtension'' read_server_body"

datatype HelloRetryExtension =
    HRE_KeyShare NamedGroup
  | HRE_Cookie "u8 list"
  | HRE_SupportedVersions ProtocolVersion
  | HRE_Unknown UnknownExtension

primrec hre_get_type :: "HelloRetryExtension \<Rightarrow> ExtensionType" where
  "hre_get_type (HRE_KeyShare r) = ET_KeyShare"
| "hre_get_type (HRE_Cookie r) = ET_Cookie"
| "hre_get_type (HRE_SupportedVersions r) = ET_SupportedVersions"
| "hre_get_type (HRE_Unknown r) = ue_typ r"

primrec hre_body :: "HelloRetryExtension \<Rightarrow> u8 list" where
  "hre_body (HRE_KeyShare r) = enc_named_group r []"
| "hre_body (HRE_Cookie r) = enc_payload_u16 r []"
| "hre_body (HRE_SupportedVersions r) = enc_enum16 get_protocol_version r []"
| "hre_body (HRE_Unknown r) = enc_payload (ue_payload r) []"

definition enc_retry_extension :: "HelloRetryExtension \<Rightarrow> u8 list \<Rightarrow> u8 list" where
  "enc_retry_extension e bytes = enc_extension (hre_get_type e) (hre_body e) bytes"

definition read_retry_body :: "ExtensionType \<Rightarrow> HelloRetryExtension reads" where
  "read_retry_body typ =
     (if typ = ET_KeyShare then rd_map HRE_KeyShare read_named_group
      else if typ = ET_Cookie then rd_map HRE_Cookie read_payload_u16
      else if typ = ET_SupportedVersions then rd_map HRE_SupportedVersions read_protocol_version
      else rd_map HRE_Unknown (read_unknown_extension typ))"

definition read_retry_extension :: "HelloRetryExtension reads" where
  "read_retry_extension = read_extension ''HelloRetryExtension'' read_retry_body"

record CertificateStatus =
  cs_ocsp_response :: "u8 list"

definition enc_certificate_status :: "CertificateStatus \<Rightarrow> u8 list \<Rightarrow> u8 list" where
  "enc_certificate_status x bytes = enc_payload_u24 (cs_ocsp_response x) (enc_certificate_status_type CST_OCSP bytes)"

definition read_certificate_status :: "CertificateStatus reads" where
  "read_certificate_status = rd_bind read_certificate_status_type (\<lambda>typ.
     if typ = CST_OCSP then rd_bind read_payload_u24 (\<lambda>p. rd_return \<lparr>cs_ocsp_response = p\<rparr>)
     else rd_fail InvalidCertificateStatusType)"

datatype CertificateExtension =
    CXE_CertificateStatus CertificateStatus
  | CXE_SignedCertificateTimestamp "u8 list list"
  | CXE_Unknown UnknownExtension

primrec cxe_get_type :: "CertificateExtension \<Rightarrow> ExtensionType" where
  "cxe_get_type (CXE_CertificateStatus r) = ET_StatusRequest"
| "cxe_get_type (CXE_SignedCertificateTimestamp r) = ET_SCT"
| "cxe_get_type (CXE_Unknown r) = ue_typ r"

primrec cxe_body :: "CertificateExtension \<Rightarrow> u8 list" where
  "cxe_body (CXE_CertificateStatus r) = enc_certificate_status r []"
| "cxe_body (CXE_SignedCertificateTimestamp r) = enc_list16 enc_payload_u16 r []"
| "cxe_body (CXE_Unknown r) = enc_payload (ue_payload r) []"

definition enc_certificate_extension :: "CertificateExtension \<Rightarrow> u8 list \<Rightarrow> u8 list" where
  "enc_certificate_extension e bytes = enc_extension (cxe_get_type e) (cxe_body e) bytes"

definition read_certificate_body :: "ExtensionType \<Rightarrow> CertificateExtension reads" where
  "read_certificate_body typ =
     (if typ = ET_StatusRequest then rd_map CXE_CertificateStatus read_certificate_status
      else if typ = ET_SCT then rd_map CXE_SignedCertificateTimestamp (read_list16 read_payload_u16)
      else rd_map CXE_Unknown (read_unknown_extension typ))"

definition read_certificate_extension :: "CertificateExtension reads" where
  "read_certificate_extension = read_extension ''CertificateExtension'' read_certificate_body"

datatype CertReqExtension =
    CRE_SignatureAlgorithms "SignatureScheme list"
  | CRE_AuthorityNames "u8 list list"
  | CRE_Unknown UnknownExtension

primrec cre_get_type :: "CertReqExtension \<Rightarrow> ExtensionType" where
  "cre_get_type (CRE_SignatureAlgorithms r) = ET_SignatureAlgorithms"
| "cre_get_type (CRE_AuthorityNames r) = ET_CertificateAuthorities"
| "cre_get_type (CRE_Unknown r) = ue_typ r"

primrec cre_body :: "CertReqExtension \<Rightarrow> u8 list" where
  "cre_body (CRE_SignatureAlgorithms r) = enc_list16 enc_signature_scheme r []"
| "cre_body (CRE_AuthorityNames r) = enc_list16 enc_payload_u16 r []"
| "cre_body (CRE_Unknown r) = enc_payload (ue_payload r) []"

definition enc_certreq_extension :: "CertReqExtension \<Rightarrow> u8 list \<Rightarrow> u8 list" where
  "enc_certreq_extension e bytes = enc_extension (cre_get_type e) (cre_body e) bytes"

definition read_certreq_body :: "ExtensionType \<Rightarrow> CertReqExtension reads" where
  "read_certreq_body typ =
     (if typ = ET_SignatureAlgorithms
      then rd_bind (read_list16 read_signature_scheme) (\<lambda>schemes.
             if schemes = [] then rd_fail NoSignatureSchemes else rd_return (CRE_SignatureAlgorithms schemes))
      else if typ = ET_CertificateAuthorities then rd_map CRE_AuthorityNames (read_list16 read_payload_u16)
      else rd_map CRE_Unknown (read_unknown_extension typ))"

definition read_certreq_extension :: "CertReqExtension reads" where
  "read_certreq_extension = read_extension ''CertReqExtension'' read_certreq_body"

datatype NewSessionTicketExtension = NSE_EarlyData u32 | NSE_Unknown UnknownExtension

primrec nse_get_type :: "NewSessionTicketExtension \<Rightarrow> ExtensionType" where
  "nse_get_type (NSE_EarlyData r) = ET_EarlyData"
| "nse_get_type (NSE_Unknown r) = ue_typ r"

primrec nse_body :: "NewSessionTicketExtension \<Rightarrow> u8 list" where
  "nse_body (NSE_EarlyData r) = enc_u32 r []"
| "nse_body (NSE_Unknown r) = enc_payload (ue_payload r) []"

definition enc_ticket_extension :: "NewSessionTicketExtension \<Rightarrow> u8 list \<Rightarrow> u8 list" where
  "enc_ticket_extension e bytes = enc_extension (nse_get_type e) (nse_body e) bytes"

definition read_ticket_body :: "ExtensionType \<Rightarrow> NewSessionTicketExtension reads" where
  "read_ticket_body typ =
     (if typ = ET_EarlyData then rd_map NSE_EarlyData read_u32 else rd_map NSE_Unknown (read_unknown_extension typ))"

definition read_ticket_extension :: "NewSessionTicketExtension reads" where
  "read_ticket_extension = read_extension ''NewSessionTicketExtension'' read_ticket_body"

end
