(* ===== verification/Tls_Handshake_Msg.thy ===== *)
theory Tls_Handshake_Msg
  imports Tls_Handshake
begin

text \<open>
  The bodies of the handshake messages, the lookups in their extensions, and the message itself, from
  \<^verbatim>\<open>rustls-0.21.2/rustls/src/msgs/handshake.rs\<close> and \<^verbatim>\<open>verify.rs\<close> (the signed structure).
\<close>

section \<open>Client hello\<close>

record ClientHelloPayload =
  ch_client_version :: ProtocolVersion
  ch_random :: Random
  ch_session_id :: SessionId
  ch_cipher_suites :: "CipherSuite list"
  ch_compression_methods :: "Compression list"
  ch_extensions :: "ClientExtension list"

definition enc_client_hello :: "ClientHelloPayload \<Rightarrow> u8 list \<Rightarrow> u8 list" where
  "enc_client_hello x bytes =
     (let bytes = enc_enum16 get_protocol_version (ch_client_version x) bytes;
          bytes = enc_random (ch_random x) bytes;
          bytes = enc_session_id (ch_session_id x) bytes;
          bytes = enc_list16 enc_cipher_suite (ch_cipher_suites x) bytes;
          bytes = enc_list8 enc_compression (ch_compression_methods x) bytes
      in if ch_extensions x \<noteq> [] then enc_list16 enc_client_extension (ch_extensions x) bytes else bytes)"

text \<open>The optional list of extensions, present when anything is left.\<close>

definition read_optional :: "'a list reads \<Rightarrow> 'a list reads" where
  "read_optional rd r = (if any_left r then rd r else (Inr [], r))"

definition read_client_hello :: "(u8 list \<Rightarrow> u8 list option) \<Rightarrow> ClientHelloPayload reads" where
  "read_client_hello dns =
     rd_bind read_protocol_version (\<lambda>version. rd_bind read_random (\<lambda>random. rd_bind read_session_id (\<lambda>session_id.
     rd_bind (read_list16 read_cipher_suite) (\<lambda>suites. rd_bind (read_list8 read_compression) (\<lambda>comps.
     rd_bind (read_optional (read_list16 (read_client_extension dns))) (\<lambda>exts r.
       if any_left r then (Inl (TrailingData ''ClientHelloPayload''), r)
       else if exts = [] then (Inl (MissingData ''ClientHelloPayload''), r)
       else (Inr \<lparr>ch_client_version = version, ch_random = random, ch_session_id = session_id, ch_cipher_suites = suites,
                  ch_compression_methods = comps, ch_extensions = exts\<rparr>, r)))))))"

definition has_duplicate_extension :: "ClientHelloPayload \<Rightarrow> bool" where
  "has_duplicate_extension ch = dup_loop (\<lambda>ext. get_extension_type (ce_get_type ext)) {} (ch_extensions ch)"

definition find_extension :: "ClientHelloPayload \<Rightarrow> ExtensionType \<Rightarrow> ClientExtension option" where
  "find_extension ch ext = find (\<lambda>x. ce_get_type x = ext) (ch_extensions ch)"

definition get_sni_extension :: "ClientHelloPayload \<Rightarrow> ServerName list option" where
  "get_sni_extension ch = (case find_extension ch ET_ServerName of Some (CE_ServerName req) \<Rightarrow> Some req | _ \<Rightarrow> None)"

definition get_sigalgs_extension :: "ClientHelloPayload \<Rightarrow> SignatureScheme list option" where
  "get_sigalgs_extension ch =
     (case find_extension ch ET_SignatureAlgorithms of Some (CE_SignatureAlgorithms req) \<Rightarrow> Some req | _ \<Rightarrow> None)"

definition get_namedgroups_extension :: "ClientHelloPayload \<Rightarrow> NamedGroup list option" where
  "get_namedgroups_extension ch = (case find_extension ch ET_EllipticCurves of Some (CE_NamedGroups req) \<Rightarrow> Some req | _ \<Rightarrow> None)"

definition get_ecpoints_extension :: "ClientHelloPayload \<Rightarrow> ECPointFormat list option" where
  "get_ecpoints_extension ch = (case find_extension ch ET_ECPointFormats of Some (CE_ECPointFormats req) \<Rightarrow> Some req | _ \<Rightarrow> None)"

definition get_alpn_extension :: "ClientHelloPayload \<Rightarrow> ProtocolName list option" where
  "get_alpn_extension ch = (case find_extension ch ET_ALProtocolNegotiation of Some (CE_Protocols req) \<Rightarrow> Some req | _ \<Rightarrow> None)"

definition get_quic_params_extension :: "ClientHelloPayload \<Rightarrow> u8 list option" where
  "get_quic_params_extension ch =
     (case (case find_extension ch ET_TransportParameters of Some e \<Rightarrow> Some e | None \<Rightarrow> find_extension ch ET_TransportParametersDraft) of
        Some (CE_TransportParameters bytes) \<Rightarrow> Some bytes
      | Some (CE_TransportParametersDraft bytes) \<Rightarrow> Some bytes
      | _ \<Rightarrow> None)"

definition get_ticket_extension :: "ClientHelloPayload \<Rightarrow> ClientExtension option" where
  "get_ticket_extension ch = find_extension ch ET_SessionTicket"

definition get_versions_extension :: "ClientHelloPayload \<Rightarrow> ProtocolVersion list option" where
  "get_versions_extension ch = (case find_extension ch ET_SupportedVersions of Some (CE_SupportedVersions vers) \<Rightarrow> Some vers | _ \<Rightarrow> None)"

definition get_keyshare_extension :: "ClientHelloPayload \<Rightarrow> KeyShareEntry list option" where
  "get_keyshare_extension ch = (case find_extension ch ET_KeyShare of Some (CE_KeyShare shares) \<Rightarrow> Some shares | _ \<Rightarrow> None)"

definition has_keyshare_extension_with_duplicates :: "ClientHelloPayload \<Rightarrow> bool" where
  "has_keyshare_extension_with_duplicates ch =
     (case get_keyshare_extension ch of Some entries \<Rightarrow> dup_loop (\<lambda>kse. get_named_group (kse_group kse)) {} entries | None \<Rightarrow> False)"

definition get_psk :: "ClientHelloPayload \<Rightarrow> PresharedKeyOffer option" where
  "get_psk ch = (case find_extension ch ET_PreSharedKey of Some (CE_PresharedKey psk) \<Rightarrow> Some psk | _ \<Rightarrow> None)"

definition check_psk_ext_is_last :: "ClientHelloPayload \<Rightarrow> bool" where
  "check_psk_ext_is_last ch = (if ch_extensions ch = [] then False else ce_get_type (last (ch_extensions ch)) = ET_PreSharedKey)"

definition get_psk_modes :: "ClientHelloPayload \<Rightarrow> PSKKeyExchangeMode list option" where
  "get_psk_modes ch = (case find_extension ch ET_PSKKeyExchangeModes of Some (CE_PresharedKeyModes modes) \<Rightarrow> Some modes | _ \<Rightarrow> None)"

definition psk_mode_offered :: "ClientHelloPayload \<Rightarrow> PSKKeyExchangeMode \<Rightarrow> bool" where
  "psk_mode_offered ch mode = (case get_psk_modes ch of Some modes \<Rightarrow> mode \<in> set modes | None \<Rightarrow> False)"

text \<open>\<^verbatim>\<open>offer.binders[0] = ..\<close> panics on an offer without binders.\<close>

definition set_psk_binder :: "ClientHelloPayload \<Rightarrow> u8 list \<Rightarrow> ClientHelloPayload may_panic" where
  "set_psk_binder ch binder =
     (if ch_extensions ch = [] then Some ch
      else (case last (ch_extensions ch) of
              CE_PresharedKey offer \<Rightarrow>
                do { binders \<leftarrow> store (pko_binders offer) 0 binder;
                     Some (ch\<lparr>ch_extensions := butlast (ch_extensions ch) @ [CE_PresharedKey (offer\<lparr>pko_binders := binders\<rparr>)]\<rparr>) }
            | _ \<Rightarrow> Some ch))"

definition ems_support_offered :: "ClientHelloPayload \<Rightarrow> bool" where
  "ems_support_offered ch \<longleftrightarrow> find_extension ch ET_ExtendedMasterSecret \<noteq> None"

definition early_data_extension_offered :: "ClientHelloPayload \<Rightarrow> bool" where
  "early_data_extension_offered ch \<longleftrightarrow> find_extension ch ET_EarlyData \<noteq> None"

section \<open>Server hello and hello retry request\<close>

record HelloRetryRequest =
  hrr_legacy_version :: ProtocolVersion
  hrr_session_id :: SessionId
  hrr_cipher_suite :: CipherSuite
  hrr_extensions :: "HelloRetryExtension list"

definition enc_hello_retry :: "HelloRetryRequest \<Rightarrow> u8 list \<Rightarrow> u8 list" where
  "enc_hello_retry x bytes =
     (let bytes = enc_enum16 get_protocol_version (hrr_legacy_version x) bytes;
          bytes = enc_random HELLO_RETRY_REQUEST_RANDOM bytes;
          bytes = enc_session_id (hrr_session_id x) bytes;
          bytes = enc_cipher_suite (hrr_cipher_suite x) bytes;
          bytes = enc_compression COMP_Null bytes
      in enc_list16 enc_retry_extension (hrr_extensions x) bytes)"

definition read_hello_retry :: "HelloRetryRequest reads" where
  "read_hello_retry = rd_bind read_session_id (\<lambda>session_id. rd_bind read_cipher_suite (\<lambda>suite. rd_bind read_compression (\<lambda>comp.
     if comp \<noteq> COMP_Null then rd_fail UnsupportedCompression
     else rd_bind (read_list16 read_retry_extension) (\<lambda>exts.
       rd_return \<lparr>hrr_legacy_version = PV_Unknown 0, hrr_session_id = session_id, hrr_cipher_suite = suite, hrr_extensions = exts\<rparr>))))"

definition hrr_has_duplicate_extension :: "HelloRetryRequest \<Rightarrow> bool" where
  "hrr_has_duplicate_extension hrr = dup_loop (\<lambda>ext. get_extension_type (hre_get_type ext)) {} (hrr_extensions hrr)"

definition hrr_has_unknown_extension :: "HelloRetryRequest \<Rightarrow> bool" where
  "hrr_has_unknown_extension hrr =
     list_ex (\<lambda>ext. hre_get_type ext \<noteq> ET_KeyShare \<and> hre_get_type ext \<noteq> ET_SupportedVersions \<and> hre_get_type ext \<noteq> ET_Cookie) (hrr_extensions hrr)"

definition hrr_find_extension :: "HelloRetryRequest \<Rightarrow> ExtensionType \<Rightarrow> HelloRetryExtension option" where
  "hrr_find_extension hrr ext = find (\<lambda>x. hre_get_type x = ext) (hrr_extensions hrr)"

definition get_requested_key_share_group :: "HelloRetryRequest \<Rightarrow> NamedGroup option" where
  "get_requested_key_share_group hrr = (case hrr_find_extension hrr ET_KeyShare of Some (HRE_KeyShare grp) \<Rightarrow> Some grp | _ \<Rightarrow> None)"

definition get_cookie :: "HelloRetryRequest \<Rightarrow> u8 list option" where
  "get_cookie hrr = (case hrr_find_extension hrr ET_Cookie of Some (HRE_Cookie ck) \<Rightarrow> Some ck | _ \<Rightarrow> None)"

definition hrr_get_supported_versions :: "HelloRetryRequest \<Rightarrow> ProtocolVersion option" where
  "hrr_get_supported_versions hrr =
     (case hrr_find_extension hrr ET_SupportedVersions of Some (HRE_SupportedVersions ver) \<Rightarrow> Some ver | _ \<Rightarrow> None)"

record ServerHelloPayload =
  sh_legacy_version :: ProtocolVersion
  sh_random :: Random
  sh_session_id :: SessionId
  sh_cipher_suite :: CipherSuite
  sh_compression_method :: Compression
  sh_extensions :: "ServerExtension list"

definition enc_server_hello :: "ServerHelloPayload \<Rightarrow> u8 list \<Rightarrow> u8 list" where
  "enc_server_hello x bytes =
     (let bytes = enc_enum16 get_protocol_version (sh_legacy_version x) bytes;
          bytes = enc_random (sh_random x) bytes;
          bytes = enc_session_id (sh_session_id x) bytes;
          bytes = enc_cipher_suite (sh_cipher_suite x) bytes;
          bytes = enc_compression (sh_compression_method x) bytes
      in if sh_extensions x \<noteq> [] then enc_list16 enc_server_extension (sh_extensions x) bytes else bytes)"

definition read_server_hello :: "ServerHelloPayload reads" where
  "read_server_hello = rd_bind read_session_id (\<lambda>session_id. rd_bind read_cipher_suite (\<lambda>suite. rd_bind read_compression (\<lambda>comp.
     rd_bind (read_optional (read_list16 read_server_extension)) (\<lambda>exts.
       rd_end ''ServerHelloPayload''
         \<lparr>sh_legacy_version = PV_Unknown 0, sh_random = ZERO_RANDOM, sh_session_id = session_id, sh_cipher_suite = suite,
          sh_compression_method = comp, sh_extensions = exts\<rparr>))))"

text \<open>The trait \<^verbatim>\<open>HasServerExtensions\<close>, on the list of extensions.\<close>

definition se_has_duplicate_extension :: "ServerExtension list \<Rightarrow> bool" where
  "se_has_duplicate_extension exts = dup_loop (\<lambda>ext. get_extension_type (se_get_type ext)) {} exts"

definition se_find_extension :: "ServerExtension list \<Rightarrow> ExtensionType \<Rightarrow> ServerExtension option" where
  "se_find_extension exts ext = find (\<lambda>x. se_get_type x = ext) exts"

definition se_get_alpn_protocol :: "ServerExtension list \<Rightarrow> u8 list option" where
  "se_get_alpn_protocol exts =
     (case se_find_extension exts ET_ALProtocolNegotiation of Some (SE_Protocols protos) \<Rightarrow> as_single_slice protos | _ \<Rightarrow> None)"

definition se_get_quic_params :: "ServerExtension list \<Rightarrow> u8 list option" where
  "se_get_quic_params exts =
     (case (case se_find_extension exts ET_TransportParameters of Some e \<Rightarrow> Some e | None \<Rightarrow> se_find_extension exts ET_TransportParametersDraft) of
        Some (SE_TransportParameters bytes) \<Rightarrow> Some bytes
      | Some (SE_TransportParametersDraft bytes) \<Rightarrow> Some bytes
      | _ \<Rightarrow> None)"

definition se_early_data_extension_offered :: "ServerExtension list \<Rightarrow> bool" where
  "se_early_data_extension_offered exts \<longleftrightarrow> se_find_extension exts ET_EarlyData \<noteq> None"

definition get_key_share :: "ServerHelloPayload \<Rightarrow> KeyShareEntry option" where
  "get_key_share sh = (case se_find_extension (sh_extensions sh) ET_KeyShare of Some (SE_KeyShare share) \<Rightarrow> Some share | _ \<Rightarrow> None)"

definition get_psk_index :: "ServerHelloPayload \<Rightarrow> u16 option" where
  "get_psk_index sh = (case se_find_extension (sh_extensions sh) ET_PreSharedKey of Some (SE_PresharedKey index) \<Rightarrow> Some index | _ \<Rightarrow> None)"

definition sh_get_ecpoints_extension :: "ServerHelloPayload \<Rightarrow> ECPointFormat list option" where
  "sh_get_ecpoints_extension sh =
     (case se_find_extension (sh_extensions sh) ET_ECPointFormats of Some (SE_ECPointFormats fmts) \<Rightarrow> Some fmts | _ \<Rightarrow> None)"

definition ems_support_acked :: "ServerHelloPayload \<Rightarrow> bool" where
  "ems_support_acked sh \<longleftrightarrow> se_find_extension (sh_extensions sh) ET_ExtendedMasterSecret \<noteq> None"

definition get_sct_list :: "ServerHelloPayload \<Rightarrow> u8 list list option" where
  "get_sct_list sh =
     (case se_find_extension (sh_extensions sh) ET_SCT of Some (SE_SignedCertificateTimestamp sctl) \<Rightarrow> Some sctl | _ \<Rightarrow> None)"

definition sh_get_supported_versions :: "ServerHelloPayload \<Rightarrow> ProtocolVersion option" where
  "sh_get_supported_versions sh =
     (case se_find_extension (sh_extensions sh) ET_SupportedVersions of Some (SE_SupportedVersions vers) \<Rightarrow> Some vers | _ \<Rightarrow> None)"

section \<open>Certificates\<close>

text \<open>\<^verbatim>\<open>key::Certificate\<close> is its DER bytes, with a 24-bit length on the wire.\<close>

type_synonym Certificate = "u8 list"

abbreviation "cert_list \<equiv> LenU24 0x10000"

record CertificateEntry =
  ce_cert :: Certificate
  ce_exts :: "CertificateExtension list"

definition enc_certificate_entry :: "CertificateEntry \<Rightarrow> u8 list \<Rightarrow> u8 list" where
  "enc_certificate_entry x bytes = enc_list16 enc_certificate_extension (ce_exts x) (enc_payload_u24 (ce_cert x) bytes)"

definition read_certificate_entry :: "CertificateEntry reads" where
  "read_certificate_entry = rd_bind read_payload_u24 (\<lambda>cert. rd_bind (read_list16 read_certificate_extension) (\<lambda>exts.
     rd_return \<lparr>ce_cert = cert, ce_exts = exts\<rparr>))"

definition entry_has_duplicate_extension :: "CertificateEntry \<Rightarrow> bool" where
  "entry_has_duplicate_extension e = dup_loop (\<lambda>ext. get_extension_type (cxe_get_type ext)) {} (ce_exts e)"

definition entry_has_unknown_extension :: "CertificateEntry \<Rightarrow> bool" where
  "entry_has_unknown_extension e = list_ex (\<lambda>ext. cxe_get_type ext \<noteq> ET_StatusRequest \<and> cxe_get_type ext \<noteq> ET_SCT) (ce_exts e)"

definition get_ocsp_response :: "CertificateEntry \<Rightarrow> u8 list option" where
  "get_ocsp_response e =
     (case find (\<lambda>ext. cxe_get_type ext = ET_StatusRequest) (ce_exts e) of
        Some (CXE_CertificateStatus cs) \<Rightarrow> Some (cs_ocsp_response cs) | _ \<Rightarrow> None)"

definition get_scts :: "CertificateEntry \<Rightarrow> u8 list list option" where
  "get_scts e =
     (case find (\<lambda>ext. cxe_get_type ext = ET_SCT) (ce_exts e) of
        Some (CXE_SignedCertificateTimestamp sctl) \<Rightarrow> Some sctl | _ \<Rightarrow> None)"

record CertificatePayloadTLS13 =
  cp_context :: "u8 list"
  cp_entries :: "CertificateEntry list"

definition enc_certificate_tls13 :: "CertificatePayloadTLS13 \<Rightarrow> u8 list \<Rightarrow> u8 list" where
  "enc_certificate_tls13 x bytes = enc_vec cert_list enc_certificate_entry (cp_entries x) (enc_payload_u8 (cp_context x) bytes)"

definition read_certificate_tls13 :: "CertificatePayloadTLS13 reads" where
  "read_certificate_tls13 = rd_bind read_payload_u8 (\<lambda>context. rd_bind (read_list cert_list read_certificate_entry) (\<lambda>entries.
     rd_return \<lparr>cp_context = context, cp_entries = entries\<rparr>))"

definition any_entry_has_duplicate_extension :: "CertificatePayloadTLS13 \<Rightarrow> bool" where
  "any_entry_has_duplicate_extension p = list_ex entry_has_duplicate_extension (cp_entries p)"

definition any_entry_has_unknown_extension :: "CertificatePayloadTLS13 \<Rightarrow> bool" where
  "any_entry_has_unknown_extension p = list_ex entry_has_unknown_extension (cp_entries p)"

definition any_entry_has_extension :: "CertificatePayloadTLS13 \<Rightarrow> bool" where
  "any_entry_has_extension p = list_ex (\<lambda>entry. ce_exts entry \<noteq> []) (cp_entries p)"

definition get_end_entity_ocsp :: "CertificatePayloadTLS13 \<Rightarrow> u8 list" where
  "get_end_entity_ocsp p =
     (case cp_entries p of [] \<Rightarrow> [] | e # es \<Rightarrow> (case get_ocsp_response e of Some ocsp \<Rightarrow> ocsp | None \<Rightarrow> []))"

definition get_end_entity_scts :: "CertificatePayloadTLS13 \<Rightarrow> u8 list list option" where
  "get_end_entity_scts p = (case cp_entries p of [] \<Rightarrow> None | e # es \<Rightarrow> get_scts e)"

definition cert_convert :: "CertificatePayloadTLS13 \<Rightarrow> Certificate list" where
  "cert_convert p = map ce_cert (cp_entries p)"

record CertificateRequestPayload =
  cr_certtypes :: "ClientCertificateType list"
  cr_sigschemes :: "SignatureScheme list"
  cr_canames :: "u8 list list"

definition enc_certificate_request :: "CertificateRequestPayload \<Rightarrow> u8 list \<Rightarrow> u8 list" where
  "enc_certificate_request x bytes =
     enc_list16 enc_payload_u16 (cr_canames x) (enc_list16 enc_signature_scheme (cr_sigschemes x)
       (enc_list8 enc_client_certificate_type (cr_certtypes x) bytes))"

definition read_certificate_request :: "CertificateRequestPayload reads" where
  "read_certificate_request = rd_bind (read_list8 read_client_certificate_type) (\<lambda>certtypes.
     rd_bind (read_list16 read_signature_scheme) (\<lambda>sigschemes. rd_bind (read_list16 read_payload_u16) (\<lambda>canames.
       if sigschemes = [] then rd_fail NoSignatureSchemes
       else rd_return \<lparr>cr_certtypes = certtypes, cr_sigschemes = sigschemes, cr_canames = canames\<rparr>)))"

record CertificateRequestPayloadTLS13 =
  crt_context :: "u8 list"
  crt_extensions :: "CertReqExtension list"

definition enc_certificate_request_tls13 :: "CertificateRequestPayloadTLS13 \<Rightarrow> u8 list \<Rightarrow> u8 list" where
  "enc_certificate_request_tls13 x bytes = enc_list16 enc_certreq_extension (crt_extensions x) (enc_payload_u8 (crt_context x) bytes)"

definition read_certificate_request_tls13 :: "CertificateRequestPayloadTLS13 reads" where
  "read_certificate_request_tls13 = rd_bind read_payload_u8 (\<lambda>context. rd_bind (read_list16 read_certreq_extension) (\<lambda>extensions.
     rd_return \<lparr>crt_context = context, crt_extensions = extensions\<rparr>))"

definition crt_find_extension :: "CertificateRequestPayloadTLS13 \<Rightarrow> ExtensionType \<Rightarrow> CertReqExtension option" where
  "crt_find_extension p ext = find (\<lambda>x. cre_get_type x = ext) (crt_extensions p)"

definition crt_get_sigalgs_extension :: "CertificateRequestPayloadTLS13 \<Rightarrow> SignatureScheme list option" where
  "crt_get_sigalgs_extension p =
     (case crt_find_extension p ET_SignatureAlgorithms of Some (CRE_SignatureAlgorithms sa) \<Rightarrow> Some sa | _ \<Rightarrow> None)"

definition get_authorities_extension :: "CertificateRequestPayloadTLS13 \<Rightarrow> u8 list list option" where
  "get_authorities_extension p =
     (case crt_find_extension p ET_CertificateAuthorities of Some (CRE_AuthorityNames an) \<Rightarrow> Some an | _ \<Rightarrow> None)"

section \<open>Key exchange and signatures\<close>

record DigitallySignedStruct =
  dss_scheme :: SignatureScheme
  dss_sig :: "u8 list"

definition enc_dss :: "DigitallySignedStruct \<Rightarrow> u8 list \<Rightarrow> u8 list" where
  "enc_dss x bytes = enc_payload_u16 (dss_sig x) (enc_signature_scheme (dss_scheme x) bytes)"

definition read_dss :: "DigitallySignedStruct reads" where
  "read_dss = rd_bind read_signature_scheme (\<lambda>scheme. rd_bind read_payload_u16 (\<lambda>sig. rd_return \<lparr>dss_scheme = scheme, dss_sig = sig\<rparr>))"

record ECParameters =
  ecp_curve_type :: ECCurveType
  ecp_named_group :: NamedGroup

definition enc_ec_parameters :: "ECParameters \<Rightarrow> u8 list \<Rightarrow> u8 list" where
  "enc_ec_parameters x bytes = enc_named_group (ecp_named_group x) (enc_ec_curve_type (ecp_curve_type x) bytes)"

definition read_ec_parameters :: "ECParameters reads" where
  "read_ec_parameters = rd_bind read_ec_curve_type (\<lambda>ct.
     if ct \<noteq> ECT_NamedCurve then rd_fail UnsupportedCurveType
     else rd_bind read_named_group (\<lambda>grp. rd_return \<lparr>ecp_curve_type = ct, ecp_named_group = grp\<rparr>))"

text \<open>\<^verbatim>\<open>ClientECDHParams\<close> has a single field, the public key.\<close>

definition enc_client_ecdh :: "u8 list \<Rightarrow> u8 list \<Rightarrow> u8 list" where
  "enc_client_ecdh pub bytes = enc_payload_u8 pub bytes"

definition read_client_ecdh :: "u8 list reads" where
  "read_client_ecdh = read_payload_u8"

record ServerECDHParams =
  secdh_curve_params :: ECParameters
  secdh_public :: "u8 list"

definition server_ecdh_new :: "NamedGroup \<Rightarrow> u8 list \<Rightarrow> ServerECDHParams" where
  "server_ecdh_new named_group pubkey =
     \<lparr>secdh_curve_params = \<lparr>ecp_curve_type = ECT_NamedCurve, ecp_named_group = named_group\<rparr>, secdh_public = pubkey\<rparr>"

definition enc_server_ecdh :: "ServerECDHParams \<Rightarrow> u8 list \<Rightarrow> u8 list" where
  "enc_server_ecdh x bytes = enc_payload_u8 (secdh_public x) (enc_ec_parameters (secdh_curve_params x) bytes)"

definition read_server_ecdh :: "ServerECDHParams reads" where
  "read_server_ecdh = rd_bind read_ec_parameters (\<lambda>cp. rd_bind read_payload_u8 (\<lambda>pb.
     rd_return \<lparr>secdh_curve_params = cp, secdh_public = pb\<rparr>))"

record ECDHEServerKeyExchange =
  ecdhe_params :: ServerECDHParams
  ecdhe_dss :: DigitallySignedStruct

definition enc_ecdhe_kx :: "ECDHEServerKeyExchange \<Rightarrow> u8 list \<Rightarrow> u8 list" where
  "enc_ecdhe_kx x bytes = enc_dss (ecdhe_dss x) (enc_server_ecdh (ecdhe_params x) bytes)"

definition read_ecdhe_kx :: "ECDHEServerKeyExchange reads" where
  "read_ecdhe_kx = rd_bind read_server_ecdh (\<lambda>params. rd_bind read_dss (\<lambda>dss. rd_return \<lparr>ecdhe_params = params, ecdhe_dss = dss\<rparr>))"

datatype ServerKeyExchangePayload = SKX_ECDHE ECDHEServerKeyExchange | SKX_Unknown "u8 list"

fun enc_server_kx :: "ServerKeyExchangePayload \<Rightarrow> u8 list \<Rightarrow> u8 list" where
  "enc_server_kx (SKX_ECDHE x) bytes = enc_ecdhe_kx x bytes"
| "enc_server_kx (SKX_Unknown x) bytes = enc_payload x bytes"

definition read_server_kx :: "ServerKeyExchangePayload reads" where
  "read_server_kx = rd_map SKX_Unknown read_payload"

definition unwrap_given_kxa :: "ServerKeyExchangePayload \<Rightarrow> KeyExchangeAlgorithm \<Rightarrow> ECDHEServerKeyExchange option" where
  "unwrap_given_kxa p kxa =
     (case p of
        SKX_Unknown unk \<Rightarrow>
          (if kxa = ECDHE
           then (case read_ecdhe_kx (rd_init unk) of
                   (res, rd) \<Rightarrow> if \<not> any_left rd then (case res of Inr x \<Rightarrow> Some x | Inl _ \<Rightarrow> None) else None)
           else None)
      | SKX_ECDHE _ \<Rightarrow> None)"

section \<open>Session tickets\<close>

record NewSessionTicketPayload =
  nst_lifetime_hint :: u32
  nst_ticket :: "u8 list"

definition enc_new_ticket :: "NewSessionTicketPayload \<Rightarrow> u8 list \<Rightarrow> u8 list" where
  "enc_new_ticket x bytes = enc_payload_u16 (nst_ticket x) (enc_u32 (nst_lifetime_hint x) bytes)"

definition read_new_ticket :: "NewSessionTicketPayload reads" where
  "read_new_ticket = rd_bind read_u32 (\<lambda>lifetime. rd_bind read_payload_u16 (\<lambda>ticket.
     rd_return \<lparr>nst_lifetime_hint = lifetime, nst_ticket = ticket\<rparr>))"

record NewSessionTicketPayloadTLS13 =
  nst13_lifetime :: u32
  nst13_age_add :: u32
  nst13_nonce :: "u8 list"
  nst13_ticket :: "u8 list"
  nst13_exts :: "NewSessionTicketExtension list"

definition enc_new_ticket_tls13 :: "NewSessionTicketPayloadTLS13 \<Rightarrow> u8 list \<Rightarrow> u8 list" where
  "enc_new_ticket_tls13 x bytes =
     (let bytes = enc_u32 (nst13_lifetime x) bytes;
          bytes = enc_u32 (nst13_age_add x) bytes;
          bytes = enc_payload_u8 (nst13_nonce x) bytes;
          bytes = enc_payload_u16 (nst13_ticket x) bytes
      in enc_list16 enc_ticket_extension (nst13_exts x) bytes)"

definition read_new_ticket_tls13 :: "NewSessionTicketPayloadTLS13 reads" where
  "read_new_ticket_tls13 = rd_bind read_u32 (\<lambda>lifetime. rd_bind read_u32 (\<lambda>age_add. rd_bind read_payload_u8 (\<lambda>nonce.
     rd_bind read_payload_u16 (\<lambda>ticket. rd_bind (read_list16 read_ticket_extension) (\<lambda>exts.
       rd_return \<lparr>nst13_lifetime = lifetime, nst13_age_add = age_add, nst13_nonce = nonce, nst13_ticket = ticket, nst13_exts = exts\<rparr>)))))"

definition nst_has_duplicate_extension :: "NewSessionTicketPayloadTLS13 \<Rightarrow> bool" where
  "nst_has_duplicate_extension p = dup_loop (\<lambda>ext. get_extension_type (nse_get_type ext)) {} (nst13_exts p)"

definition nst_find_extension :: "NewSessionTicketPayloadTLS13 \<Rightarrow> ExtensionType \<Rightarrow> NewSessionTicketExtension option" where
  "nst_find_extension p ext = find (\<lambda>x. nse_get_type x = ext) (nst13_exts p)"

definition get_max_early_data_size :: "NewSessionTicketPayloadTLS13 \<Rightarrow> u32 option" where
  "get_max_early_data_size p = (case nst_find_extension p ET_EarlyData of Some (NSE_EarlyData sz) \<Rightarrow> Some sz | _ \<Rightarrow> None)"

section \<open>The handshake message\<close>

datatype HandshakePayload =
    HP_HelloRequest
  | HP_ClientHello ClientHelloPayload
  | HP_ServerHello ServerHelloPayload
  | HP_HelloRetryRequest HelloRetryRequest
  | HP_Certificate "Certificate list"
  | HP_CertificateTLS13 CertificatePayloadTLS13
  | HP_ServerKeyExchange ServerKeyExchangePayload
  | HP_CertificateRequest CertificateRequestPayload
  | HP_CertificateRequestTLS13 CertificateRequestPayloadTLS13
  | HP_CertificateVerify DigitallySignedStruct
  | HP_ServerHelloDone
  | HP_EndOfEarlyData
  | HP_ClientKeyExchange "u8 list"
  | HP_NewSessionTicket NewSessionTicketPayload
  | HP_NewSessionTicketTLS13 NewSessionTicketPayloadTLS13
  | HP_EncryptedExtensions "ServerExtension list"
  | HP_KeyUpdate KeyUpdateRequest
  | HP_Finished "u8 list"
  | HP_CertificateStatus CertificateStatus
  | HP_MessageHash "u8 list"
  | HP_Unknown "u8 list"

primrec enc_handshake_payload :: "HandshakePayload \<Rightarrow> u8 list \<Rightarrow> u8 list" where
  "enc_handshake_payload HP_HelloRequest bytes = bytes"
| "enc_handshake_payload HP_ServerHelloDone bytes = bytes"
| "enc_handshake_payload HP_EndOfEarlyData bytes = bytes"
| "enc_handshake_payload (HP_ClientHello x) bytes = enc_client_hello x bytes"
| "enc_handshake_payload (HP_ServerHello x) bytes = enc_server_hello x bytes"
| "enc_handshake_payload (HP_HelloRetryRequest x) bytes = enc_hello_retry x bytes"
| "enc_handshake_payload (HP_Certificate x) bytes = enc_vec cert_list enc_payload_u24 x bytes"
| "enc_handshake_payload (HP_CertificateTLS13 x) bytes = enc_certificate_tls13 x bytes"
| "enc_handshake_payload (HP_ServerKeyExchange x) bytes = enc_server_kx x bytes"
| "enc_handshake_payload (HP_ClientKeyExchange x) bytes = enc_payload x bytes"
| "enc_handshake_payload (HP_CertificateRequest x) bytes = enc_certificate_request x bytes"
| "enc_handshake_payload (HP_CertificateRequestTLS13 x) bytes = enc_certificate_request_tls13 x bytes"
| "enc_handshake_payload (HP_CertificateVerify x) bytes = enc_dss x bytes"
| "enc_handshake_payload (HP_NewSessionTicket x) bytes = enc_new_ticket x bytes"
| "enc_handshake_payload (HP_NewSessionTicketTLS13 x) bytes = enc_new_ticket_tls13 x bytes"
| "enc_handshake_payload (HP_EncryptedExtensions x) bytes = enc_list16 enc_server_extension x bytes"
| "enc_handshake_payload (HP_KeyUpdate x) bytes = enc_key_update_request x bytes"
| "enc_handshake_payload (HP_Finished x) bytes = enc_payload x bytes"
| "enc_handshake_payload (HP_CertificateStatus x) bytes = enc_certificate_status x bytes"
| "enc_handshake_payload (HP_MessageHash x) bytes = enc_payload x bytes"
| "enc_handshake_payload (HP_Unknown x) bytes = enc_payload x bytes"

record HandshakeMessagePayload =
  hmp_typ :: HandshakeType
  hmp_payload :: HandshakePayload

definition enc_handshake_message :: "HandshakeMessagePayload \<Rightarrow> u8 list \<Rightarrow> u8 list" where
  "enc_handshake_message m bytes =
     (let sub = enc_handshake_payload (hmp_payload m) [];
          bytes = enc_enum8 get_handshake_type (if hmp_typ m = HT_HelloRetryRequest then HT_ServerHello else hmp_typ m) bytes
      in enc_u24 (U24 (word_of_nat (length sub))) bytes @ sub)"

abbreviation "read_handshake_type \<equiv> read_enum8 ''HandshakeType'' from_handshake_type"

text \<open>The match on the type; a server hello can turn out to be a hello retry request, which changes the type.\<close>

definition read_payload_of :: "(u8 list \<Rightarrow> u8 list option) \<Rightarrow> ProtocolVersion \<Rightarrow> HandshakeType \<Rightarrow> (HandshakeType \<times> HandshakePayload) reads" where
  "read_payload_of dns vers typ = (\<lambda>sub.
      if typ = HT_HelloRequest \<and> rd_left sub = 0 then (Inr (typ, HP_HelloRequest), sub)
      else if typ = HT_ClientHello then rd_map (\<lambda>x. (typ, HP_ClientHello x)) (read_client_hello dns) sub
      else if typ = HT_ServerHello
      then rd_bind read_protocol_version (\<lambda>version. rd_bind read_random (\<lambda>random.
             if random = HELLO_RETRY_REQUEST_RANDOM
             then rd_map (\<lambda>hrr. (HT_HelloRetryRequest, HP_HelloRetryRequest (hrr\<lparr>hrr_legacy_version := version\<rparr>))) read_hello_retry
             else rd_map (\<lambda>shp. (typ, HP_ServerHello (shp\<lparr>sh_legacy_version := version, sh_random := random\<rparr>))) read_server_hello)) sub
      else if typ = HT_Certificate \<and> vers = PV_TLSv1_3 then rd_map (\<lambda>x. (typ, HP_CertificateTLS13 x)) read_certificate_tls13 sub
      else if typ = HT_Certificate then rd_map (\<lambda>x. (typ, HP_Certificate x)) (read_list cert_list read_payload_u24) sub
      else if typ = HT_ServerKeyExchange then rd_map (\<lambda>x. (typ, HP_ServerKeyExchange x)) read_server_kx sub
      else if typ = HT_ServerHelloDone then rd_end ''ServerHelloDone'' (typ, HP_ServerHelloDone) sub
      else if typ = HT_ClientKeyExchange then rd_map (\<lambda>x. (typ, HP_ClientKeyExchange x)) read_payload sub
      else if typ = HT_CertificateRequest \<and> vers = PV_TLSv1_3
      then rd_map (\<lambda>x. (typ, HP_CertificateRequestTLS13 x)) read_certificate_request_tls13 sub
      else if typ = HT_CertificateRequest then rd_map (\<lambda>x. (typ, HP_CertificateRequest x)) read_certificate_request sub
      else if typ = HT_CertificateVerify then rd_map (\<lambda>x. (typ, HP_CertificateVerify x)) read_dss sub
      else if typ = HT_NewSessionTicket \<and> vers = PV_TLSv1_3
      then rd_map (\<lambda>x. (typ, HP_NewSessionTicketTLS13 x)) read_new_ticket_tls13 sub
      else if typ = HT_NewSessionTicket then rd_map (\<lambda>x. (typ, HP_NewSessionTicket x)) read_new_ticket sub
      else if typ = HT_EncryptedExtensions then rd_map (\<lambda>x. (typ, HP_EncryptedExtensions x)) (read_list16 read_server_extension) sub
      else if typ = HT_KeyUpdate then rd_map (\<lambda>x. (typ, HP_KeyUpdate x)) read_key_update_request sub
      else if typ = HT_EndOfEarlyData then rd_end ''EndOfEarlyData'' (typ, HP_EndOfEarlyData) sub
      else if typ = HT_Finished then rd_map (\<lambda>x. (typ, HP_Finished x)) read_payload sub
      else if typ = HT_CertificateStatus then rd_map (\<lambda>x. (typ, HP_CertificateStatus x)) read_certificate_status sub
      else if typ = HT_MessageHash then rd_fail (UnexpectedMessage ''MessageHash'') sub
      else if typ = HT_HelloRetryRequest then rd_fail (UnexpectedMessage ''HelloRetryRequest'') sub
      else rd_map (\<lambda>x. (typ, HP_Unknown x)) read_payload sub)"

definition read_version :: "(u8 list \<Rightarrow> u8 list option) \<Rightarrow> ProtocolVersion \<Rightarrow> HandshakeMessagePayload reads" where
  "read_version dns vers = rd_bind read_handshake_type (\<lambda>typ. rd_bind read_u24 (\<lambda>len.
     rd_inside (u24_usize len) (rd_bind (read_payload_of dns vers typ) (\<lambda>(typ, payload).
       rd_end ''HandshakeMessagePayload'' \<lparr>hmp_typ = typ, hmp_payload = payload\<rparr>))))"

definition hmp_build_key_update_notify :: HandshakeMessagePayload where
  "hmp_build_key_update_notify = \<lparr>hmp_typ = HT_KeyUpdate, hmp_payload = HP_KeyUpdate KU_UpdateNotRequested\<rparr>"

text \<open>The subtraction underflows, and panics in a debug build, only if the binders were longer than the message that
  contains them.\<close>

definition get_encoding_for_binder_signing :: "HandshakeMessagePayload \<Rightarrow> u8 list may_panic" where
  "get_encoding_for_binder_signing m =
     (let ret = enc_handshake_message m [];
          binder_len = (case hmp_payload m of
              HP_ClientHello ch \<Rightarrow>
                (if ch_extensions ch = [] then 0
                 else (case last (ch_extensions ch) of
                         CE_PresharedKey offer \<Rightarrow> length (enc_list16 enc_payload_u8 (pko_binders offer) [])
                       | _ \<Rightarrow> 0))
            | _ \<Rightarrow> 0)
      in if length ret < binder_len then None else Some (take (length ret - binder_len) ret))"

definition build_handshake_hash :: "u8 list \<Rightarrow> HandshakeMessagePayload" where
  "build_handshake_hash hash = \<lparr>hmp_typ = HT_MessageHash, hmp_payload = HP_MessageHash hash\<rparr>"

end
