(* ===== verification/Tls_Common.thy ===== *)
theory Tls_Common
  imports Tls_Cipher Tls_Vecbuf Tls_Handshake_Msg
begin

text \<open>
  The outgoing half of a connection, from \<^verbatim>\<open>rustls-0.21.2/rustls/src/common_state.rs\<close>: messages are fragmented, encrypted and
  queued; plaintext written before the handshake completes is buffered and flushed later; alerts are built and sent.
  The certificate, suite and ALPN fields, which these operations only store, are left out of the state.
\<close>

section \<open>Messages\<close>

text \<open>A decoded message, from \<^verbatim>\<open>msgs/message.rs\<close>; a handshake message keeps the bytes it was decoded from.\<close>

datatype MessagePayload =
    MP_Alert AlertMessagePayload
  | MP_Handshake HandshakeMessagePayload "u8 list"
  | MP_ChangeCipherSpec
  | MP_ApplicationData "u8 list"

record Message =
  msg_version :: ProtocolVersion
  msg_payload :: MessagePayload

fun payload_encode :: "MessagePayload \<Rightarrow> u8 list \<Rightarrow> u8 list" where
  "payload_encode (MP_Alert x) bytes = enc_alert x bytes"
| "payload_encode (MP_Handshake parsed encoded) bytes = bytes @ encoded"
| "payload_encode MP_ChangeCipherSpec bytes = enc_ccs () bytes"
| "payload_encode (MP_ApplicationData x) bytes = enc_payload x bytes"

fun payload_content_type :: "MessagePayload \<Rightarrow> ContentType" where
  "payload_content_type (MP_Alert x) = CT_Alert"
| "payload_content_type (MP_Handshake parsed encoded) = CT_Handshake"
| "payload_content_type MP_ChangeCipherSpec = CT_ChangeCipherSpec"
| "payload_content_type (MP_ApplicationData x) = CT_ApplicationData"

definition message_into_plain :: "Message \<Rightarrow> PlainMessage" where
  "message_into_plain m =
     \<lparr>pm_typ = payload_content_type (msg_payload m), pm_version = msg_version m,
      pm_payload = (case msg_payload m of MP_ApplicationData p \<Rightarrow> p | p \<Rightarrow> payload_encode p [])\<rparr>"

definition is_handshake_type :: "Message \<Rightarrow> HandshakeType \<Rightarrow> bool" where
  "is_handshake_type m hstyp = (case msg_payload m of MP_Handshake parsed _ \<Rightarrow> hmp_typ parsed = hstyp | _ \<Rightarrow> False)"

definition build_alert :: "AlertLevel \<Rightarrow> AlertDescription \<Rightarrow> Message" where
  "build_alert level desc =
     \<lparr>msg_version = PV_TLSv1_2, msg_payload = MP_Alert \<lparr>alert_level = level, alert_description = desc\<rparr>\<rparr>"

definition payload_handshake :: "HandshakeMessagePayload \<Rightarrow> MessagePayload" where
  "payload_handshake parsed = MP_Handshake parsed (enc_handshake_message parsed [])"

definition build_key_update_notify :: Message where
  "build_key_update_notify = \<lparr>msg_version = PV_TLSv1_3, msg_payload = payload_handshake hmp_build_key_update_notify\<rparr>"

definition payload_new :: "(u8 list \<Rightarrow> u8 list option) \<Rightarrow> ContentType \<Rightarrow> ProtocolVersion \<Rightarrow> u8 list \<Rightarrow> InvalidMessage + MessagePayload" where
  "payload_new dns ty vers payload =
     (let r = rd_init payload in
      case ty of
        CT_ApplicationData \<Rightarrow> Inr (MP_ApplicationData payload)
      | CT_Alert \<Rightarrow> map_sum id MP_Alert (fst (read_alert r))
      | CT_Handshake \<Rightarrow> map_sum id (\<lambda>parsed. MP_Handshake parsed payload) (fst (read_version dns vers r))
      | CT_ChangeCipherSpec \<Rightarrow> map_sum id (\<lambda>_. MP_ChangeCipherSpec) (fst (read_ccs r))
      | _ \<Rightarrow> Inl InvalidContentType)"

definition message_try_from :: "(u8 list \<Rightarrow> u8 list option) \<Rightarrow> PlainMessage \<Rightarrow> TlsError + Message" where
  "message_try_from dns plain =
     map_sum E_InvalidMessage (\<lambda>payload. \<lparr>msg_version = pm_version plain, msg_payload = payload\<rparr>)
       (payload_new dns (pm_typ plain) (pm_version plain) (pm_payload plain))"

section \<open>State\<close>

datatype Side = Client | Server
datatype Protocol = Tcp | Quic
datatype Limit = Limit_Yes | Limit_No

definition side_peer :: "Side \<Rightarrow> Side" where
  "side_peer s = (case s of Client \<Rightarrow> Server | Server \<Rightarrow> Client)"

record CommonState =
  cs_negotiated_version :: "ProtocolVersion option"
  cs_side :: Side
  cs_record_layer :: RecordLayer
  cs_aligned_handshake :: bool
  cs_may_send_application_data :: bool
  cs_may_receive_application_data :: bool
  cs_early_traffic :: bool
  cs_sent_fatal_alert :: bool
  cs_has_received_close_notify :: bool
  cs_has_seen_eof :: bool
  cs_received_middlebox_ccs :: u8
  cs_message_fragmenter :: MessageFragmenter
  cs_received_plaintext :: ChunkVecBuffer
  cs_sendable_plaintext :: ChunkVecBuffer
  cs_sendable_tls :: ChunkVecBuffer
  cs_queued_key_update :: "u8 list option"
  cs_protocol :: Protocol
  cs_quic_alert :: "AlertDescription option"
  cs_quic_hs_queue :: "(bool \<times> u8 list) list"

definition DEFAULT_RECEIVED_PLAINTEXT_LIMIT :: nat where "DEFAULT_RECEIVED_PLAINTEXT_LIMIT = 16 * 1024"
definition DEFAULT_BUFFER_LIMIT :: nat where "DEFAULT_BUFFER_LIMIT = 64 * 1024"

definition common_new :: "Side \<Rightarrow> CommonState" where
  "common_new side =
     \<lparr>cs_negotiated_version = None, cs_side = side, cs_record_layer = rl_new, cs_aligned_handshake = True,
      cs_may_send_application_data = False, cs_may_receive_application_data = False, cs_early_traffic = False,
      cs_sent_fatal_alert = False, cs_has_received_close_notify = False, cs_has_seen_eof = False, cs_received_middlebox_ccs = 0,
      cs_message_fragmenter = fragmenter_default,
      cs_received_plaintext = cvb_new (Some DEFAULT_RECEIVED_PLAINTEXT_LIMIT), cs_sendable_plaintext = cvb_new (Some DEFAULT_BUFFER_LIMIT),
      cs_sendable_tls = cvb_new (Some DEFAULT_BUFFER_LIMIT), cs_queued_key_update = None, cs_protocol = Tcp, cs_quic_alert = None,
      cs_quic_hs_queue = []\<rparr>"

definition wants_write :: "CommonState \<Rightarrow> bool" where
  "wants_write cs \<longleftrightarrow> \<not> cvb_is_empty (cs_sendable_tls cs)"

definition is_handshaking :: "CommonState \<Rightarrow> bool" where
  "is_handshaking cs \<longleftrightarrow> \<not> (cs_may_send_application_data cs \<and> cs_may_receive_application_data cs)"

definition is_tls13 :: "CommonState \<Rightarrow> bool" where
  "is_tls13 cs \<longleftrightarrow> cs_negotiated_version cs = Some PV_TLSv1_3"

definition is_quic :: "CommonState \<Rightarrow> bool" where
  "is_quic cs \<longleftrightarrow> cs_protocol cs = Quic"

definition wants_read :: "CommonState \<Rightarrow> bool" where
  "wants_read cs \<longleftrightarrow> cvb_is_empty (cs_received_plaintext cs) \<and> \<not> cs_has_received_close_notify cs
     \<and> (cs_may_send_application_data cs \<or> cvb_is_empty (cs_sendable_tls cs))"

record IoState =
  tls_bytes_to_write :: nat
  plaintext_bytes_to_read :: nat
  peer_has_closed :: bool

definition current_io_state :: "CommonState \<Rightarrow> IoState" where
  "current_io_state cs = \<lparr>tls_bytes_to_write = cvb_len (cs_sendable_tls cs), plaintext_bytes_to_read = cvb_len (cs_received_plaintext cs),
     peer_has_closed = cs_has_received_close_notify cs\<rparr>"

definition set_buffer_limit :: "CommonState \<Rightarrow> nat option \<Rightarrow> CommonState" where
  "set_buffer_limit cs limit =
     cs\<lparr>cs_sendable_plaintext := cvb_set_limit (cs_sendable_plaintext cs) limit, cs_sendable_tls := cvb_set_limit (cs_sendable_tls cs) limit\<rparr>"

definition common_set_max_fragment_size :: "CommonState \<Rightarrow> nat option \<Rightarrow> (TlsError + unit) \<times> CommonState" where
  "common_set_max_fragment_size cs new =
     (case set_max_fragment_size (cs_message_fragmenter cs) new of
        (f, True) \<Rightarrow> (Inr (), cs\<lparr>cs_message_fragmenter := f\<rparr>)
      | (f, False) \<Rightarrow> (Inl E_BadMaxFragmentSize, cs))"

definition take_received_plaintext :: "CommonState \<Rightarrow> u8 list \<Rightarrow> CommonState" where
  "take_received_plaintext cs bytes = cs\<lparr>cs_received_plaintext := snd (cvb_append (cs_received_plaintext cs) bytes)\<rparr>"

section \<open>Sending\<close>

definition queue_tls_message :: "CommonState \<Rightarrow> OpaqueMessage \<Rightarrow> CommonState" where
  "queue_tls_message cs m = cs\<lparr>cs_sendable_tls := snd (cvb_append (cs_sendable_tls cs) (opaque_encode m))\<rparr>"

text \<open>\<^verbatim>\<open>send_single_fragment\<close> can call itself, through \<^verbatim>\<open>send_close_notify\<close>, \<^verbatim>\<open>send_msg\<close> and \<^verbatim>\<open>send_msg_encrypt\<close>. The operations
  on this path take the function that sends a fragment as their first argument, and the recursion is bounded by the depth
  of the stack: running out of it is \<^const>\<open>None\<close>, like a panic.\<close>

type_synonym send_fragment = "CommonState \<Rightarrow> PlainMessage \<Rightarrow> CommonState may_panic"

fun send_fragments :: "send_fragment \<Rightarrow> CommonState \<Rightarrow> PlainMessage list \<Rightarrow> CommonState may_panic" where
  "send_fragments send cs [] = Some cs"
| "send_fragments send cs (m # ms) = do { cs \<leftarrow> send cs m; send_fragments send cs ms }"

definition send_msg_encrypt :: "send_fragment \<Rightarrow> CommonState \<Rightarrow> PlainMessage \<Rightarrow> CommonState may_panic" where
  "send_msg_encrypt send cs m =
     do { ms \<leftarrow> fragment_message (cs_message_fragmenter cs) m; send_fragments send cs ms }"

definition send_msg :: "send_fragment \<Rightarrow> CommonState \<Rightarrow> Message \<Rightarrow> bool \<Rightarrow> CommonState may_panic" where
  "send_msg send cs m must_encrypt =
     (if cs_protocol cs = Quic
      then Some (case msg_payload m of
             MP_Alert alert \<Rightarrow> cs\<lparr>cs_quic_alert := Some (alert_description alert)\<rparr>
           | p \<Rightarrow> cs\<lparr>cs_quic_hs_queue := cs_quic_hs_queue cs @ [(must_encrypt, payload_encode p [])]\<rparr>)
      else if \<not> must_encrypt
      then do { ms \<leftarrow> fragment_message (cs_message_fragmenter cs) (message_into_plain m);
                Some (foldl (\<lambda>cs m. queue_tls_message cs (into_unencrypted_opaque m)) cs ms) }
      else send_msg_encrypt send cs (message_into_plain m))"

definition send_warning_alert_no_log :: "send_fragment \<Rightarrow> CommonState \<Rightarrow> AlertDescription \<Rightarrow> CommonState may_panic" where
  "send_warning_alert_no_log send cs desc =
     send_msg send cs (build_alert AL_Warning desc) (is_encrypting (cs_record_layer cs))"

definition send_close_notify :: "send_fragment \<Rightarrow> CommonState \<Rightarrow> CommonState may_panic" where
  "send_close_notify send cs = send_warning_alert_no_log send cs AD_CloseNotify"

primrec send_single_fragment :: "nat \<Rightarrow> send_fragment" where
  "send_single_fragment 0 = (\<lambda>cs m. None)"
| "send_single_fragment (Suc depth) = (\<lambda>cs m.
     do { cs \<leftarrow> (if wants_close_before_encrypt (cs_record_layer cs) then send_close_notify (send_single_fragment depth) cs else Some cs);
          if encrypt_exhausted (cs_record_layer cs) then Some cs
          else do { (em, rl) \<leftarrow> encrypt_outgoing (cs_record_layer cs) m;
                    Some (queue_tls_message (cs\<lparr>cs_record_layer := rl\<rparr>) em) } })"

definition send_fatal_alert :: "send_fragment \<Rightarrow> CommonState \<Rightarrow> AlertDescription \<Rightarrow> TlsError \<Rightarrow> (TlsError \<times> CommonState) may_panic" where
  "send_fatal_alert send cs desc err =
     do { cs \<leftarrow> send_msg send cs (build_alert AL_Fatal desc) (is_encrypting (cs_record_layer cs));
          Some (err, cs\<lparr>cs_sent_fatal_alert := True\<rparr>) }"

definition send_appdata_encrypt :: "send_fragment \<Rightarrow> CommonState \<Rightarrow> u8 list \<Rightarrow> Limit \<Rightarrow> (nat \<times> CommonState) may_panic" where
  "send_appdata_encrypt send cs payload limit =
     (let len = (case limit of Limit_Yes \<Rightarrow> apply_limit (cs_sendable_tls cs) (length payload) | Limit_No \<Rightarrow> length payload) in
      do { ms \<leftarrow> fragment_slice (cs_message_fragmenter cs) CT_ApplicationData PV_TLSv1_2 (take len payload);
           cs \<leftarrow> send_fragments send cs ms;
           Some (len, cs) })"

definition send_plain :: "send_fragment \<Rightarrow> CommonState \<Rightarrow> u8 list \<Rightarrow> Limit \<Rightarrow> (nat \<times> CommonState) may_panic" where
  "send_plain send cs data limit =
     (if \<not> cs_may_send_application_data cs
      then (let (len, b) = (case limit of Limit_Yes \<Rightarrow> append_limited_copy (cs_sendable_plaintext cs) data
                                        | Limit_No \<Rightarrow> cvb_append (cs_sendable_plaintext cs) data)
            in Some (len, cs\<lparr>cs_sendable_plaintext := b\<rparr>))
      else if data = [] then Some (0, cs)
      else send_appdata_encrypt send cs data limit)"

definition send_early_plaintext :: "send_fragment \<Rightarrow> CommonState \<Rightarrow> u8 list \<Rightarrow> (nat \<times> CommonState) may_panic" where
  "send_early_plaintext send cs data = (if data = [] then Some (0, cs) else send_appdata_encrypt send cs data Limit_Yes)"

definition perhaps_write_key_update :: "CommonState \<Rightarrow> CommonState" where
  "perhaps_write_key_update cs =
     (case cs_queued_key_update cs of
        Some message \<Rightarrow> cs\<lparr>cs_queued_key_update := None, cs_sendable_tls := snd (cvb_append (cs_sendable_tls cs) message)\<rparr>
      | None \<Rightarrow> cs)"

definition send_some_plaintext :: "send_fragment \<Rightarrow> CommonState \<Rightarrow> u8 list \<Rightarrow> (nat \<times> CommonState) may_panic" where
  "send_some_plaintext send cs data = send_plain send (perhaps_write_key_update cs) data Limit_Yes"

definition enqueue_key_update_notification :: "CommonState \<Rightarrow> CommonState may_panic" where
  "enqueue_key_update_notification cs =
     do { (em, rl) \<leftarrow> encrypt_outgoing (cs_record_layer cs) (message_into_plain build_key_update_notify);
          Some (cs\<lparr>cs_record_layer := rl, cs_queued_key_update := Some (opaque_encode em)\<rparr>) }"

text \<open>The loop over the buffered plaintext; it would not end if sending put data back into the buffer.\<close>

partial_function (option) flush_plaintext_loop :: "send_fragment \<Rightarrow> CommonState \<Rightarrow> CommonState option" where
  "flush_plaintext_loop send cs =
     (case cvb_pop (cs_sendable_plaintext cs) of
        (None, b) \<Rightarrow> Some (cs\<lparr>cs_sendable_plaintext := b\<rparr>)
      | (Some buf, b) \<Rightarrow>
          Option.bind (send_plain send (cs\<lparr>cs_sendable_plaintext := b\<rparr>) buf Limit_No) (\<lambda>(n, cs). flush_plaintext_loop send cs))"

definition flush_plaintext :: "send_fragment \<Rightarrow> CommonState \<Rightarrow> CommonState may_panic" where
  "flush_plaintext send cs = (if \<not> cs_may_send_application_data cs then Some cs else flush_plaintext_loop send cs)"

definition start_outgoing_traffic :: "send_fragment \<Rightarrow> CommonState \<Rightarrow> CommonState may_panic" where
  "start_outgoing_traffic send cs = flush_plaintext send (cs\<lparr>cs_may_send_application_data := True\<rparr>)"

definition start_traffic :: "send_fragment \<Rightarrow> CommonState \<Rightarrow> CommonState may_panic" where
  "start_traffic send cs = start_outgoing_traffic send (cs\<lparr>cs_may_receive_application_data := True\<rparr>)"

definition check_aligned_handshake :: "send_fragment \<Rightarrow> CommonState \<Rightarrow> ((TlsError + unit) \<times> CommonState) may_panic" where
  "check_aligned_handshake send cs =
     (if \<not> cs_aligned_handshake cs
      then do { (e, cs) \<leftarrow> send_fatal_alert send cs AD_UnexpectedMessage (E_PeerMisbehaved PM_KeyEpochWithPendingFragment); Some (Inl e, cs) }
      else Some (Inr (), cs))"

section \<open>Alerts received\<close>

definition process_alert :: "send_fragment \<Rightarrow> CommonState \<Rightarrow> AlertMessagePayload \<Rightarrow> ((TlsError + unit) \<times> CommonState) may_panic" where
  "process_alert send cs alert =
     (if (case alert_level alert of AL_Unknown _ \<Rightarrow> True | _ \<Rightarrow> False)
      then do { (e, cs) \<leftarrow> send_fatal_alert send cs AD_IllegalParameter (E_AlertReceived (alert_description alert)); Some (Inl e, cs) }
      else if alert_description alert = AD_CloseNotify
      then Some (Inr (), cs\<lparr>cs_has_received_close_notify := True\<rparr>)
      else let err = E_AlertReceived (alert_description alert) in
        if alert_level alert = AL_Warning
        then (if is_tls13 cs \<and> alert_description alert \<noteq> AD_UserCanceled
              then do { (e, cs) \<leftarrow> send_fatal_alert send cs AD_DecodeError err; Some (Inl e, cs) }
              else Some (Inr (), cs))
        else Some (Inl err, cs))"

definition should_update_key :: "send_fragment \<Rightarrow> CommonState \<Rightarrow> KeyUpdateRequest \<Rightarrow> ((TlsError + bool) \<times> CommonState) may_panic" where
  "should_update_key send cs req =
     (case req of
        KU_UpdateNotRequested \<Rightarrow> Some (Inr False, cs)
      | KU_UpdateRequested \<Rightarrow> Some (Inr (cs_queued_key_update cs = None), cs)
      | KU_Unknown _ \<Rightarrow>
          do { (e, cs) \<leftarrow> send_fatal_alert send cs AD_IllegalParameter (E_InvalidMessage InvalidKeyUpdate); Some (Inl e, cs) })"

end
