(* ===== verification/Tls_Deframer.thy ===== *)
theory Tls_Deframer
  imports Tls_Record_Layer_Correct
begin

text \<open>
  The message deframer of \<^verbatim>\<open>rustls-0.21.2/rustls/src/msgs/deframer.rs\<close>: it gathers bytes from the socket, cuts them into
  records, has the record layer decrypt them, and joins handshake messages that span records. Joining happens in place:
  decrypted handshake payloads overwrite the front of the buffer of which the ciphertext records are the tail.
\<close>

section \<open>State\<close>

definition HEADER_SIZE :: nat where "HEADER_SIZE = 1 + 3"
definition MAX_HANDSHAKE_SIZE :: u32 where "MAX_HANDSHAKE_SIZE = 0xffff"
definition READ_SIZE :: nat where "READ_SIZE = 4096"

record HandshakePayloadMeta =
  hm_message_end :: nat
  hm_payload_start :: nat
  hm_payload_end :: nat
  hm_version :: ProtocolVersion
  hm_expected_len :: "nat option"
  hm_quic :: bool

record MessageDeframer =
  df_last_error :: "TlsError option"
  df_buf :: "u8 list"
  df_joining :: "HandshakePayloadMeta option"
  df_used :: nat

record Deframed =
  dm_want_close :: bool
  dm_aligned :: bool
  dm_trial_finished :: bool
  dm_message :: PlainMessage

datatype HandshakePayloadState = HS_Blocked | HS_Complete nat | HS_Continue

definition df_new :: MessageDeframer where
  "df_new = \<lparr>df_last_error = None, df_buf = [], df_joining = None, df_used = 0\<rparr>"

definition df_has_pending :: "MessageDeframer \<Rightarrow> bool" where
  "df_has_pending df \<longleftrightarrow> 0 < df_used df"

definition payload_len :: "HandshakePayloadMeta \<Rightarrow> nat" where
  "payload_len m = hm_payload_end m - hm_payload_start m"

section \<open>Operations\<close>

definition payload_size :: "u8 list \<Rightarrow> TlsError + nat option" where
  "payload_size buf =
     (if length buf < HEADER_SIZE then Inr None
      else (case fst (read_u24 (rd_init (drop 1 (take HEADER_SIZE buf)))) of
              Inr len \<Rightarrow>
                if MAX_HANDSHAKE_SIZE < u24_val len then Inl (E_InvalidMessage HandshakePayloadTooLarge)
                else Inr (Some (HEADER_SIZE + u24_usize len))
            | Inl _ \<Rightarrow> Inr None))"

definition df_discard :: "MessageDeframer \<Rightarrow> nat \<Rightarrow> MessageDeframer may_panic" where
  "df_discard df taken =
     (if taken < df_used df
      then do { moved \<leftarrow> slice (df_buf df) taken (df_used df);
                Some (df\<lparr>df_buf := overwrite (df_buf df) 0 moved, df_used := df_used df - taken\<rparr>) }
      else if taken = df_used df then Some (df\<lparr>df_used := 0\<rparr>)
      else Some df)"

definition set_err :: "MessageDeframer \<Rightarrow> TlsError \<Rightarrow> MessageDeframer" where
  "set_err df err = df\<lparr>df_last_error := Some err\<rparr>"

text \<open>The part of \<^verbatim>\<open>append_hs\<close> before the final match; \<open>copy_in\<close> is \<^verbatim>\<open>buf[at..at + n].copy_from_slice\<close>.\<close>

definition copy_in :: "u8 list \<Rightarrow> nat \<Rightarrow> u8 list \<Rightarrow> u8 list may_panic" where
  "copy_in buf at bs = do { _ \<leftarrow> slice buf at (at + length bs); Some (overwrite buf at bs) }"

definition join_payload ::
    "MessageDeframer \<Rightarrow> ProtocolVersion \<Rightarrow> u8 list \<Rightarrow> nat \<Rightarrow> bool \<Rightarrow> ((TlsError + HandshakePayloadMeta) \<times> MessageDeframer) may_panic" where
  "join_payload df version payload fin quic =
     (case df_joining df of
        Some meta \<Rightarrow>
          do { buf \<leftarrow> copy_in (df_buf df) (hm_payload_end meta) payload;
               let meta = meta\<lparr>hm_message_end := fin, hm_payload_end := hm_payload_end meta + length payload\<rparr>;
               let df = df\<lparr>df_buf := buf, df_joining := Some meta\<rparr>;
               if hm_expected_len meta = None
               then do { bs \<leftarrow> slice buf (hm_payload_start meta) (hm_payload_end meta);
                         (case payload_size bs of
                            Inl e \<Rightarrow> Some (Inl e, df)
                          | Inr len \<Rightarrow> (let meta = meta\<lparr>hm_expected_len := len\<rparr> in Some (Inr meta, df\<lparr>df_joining := Some meta\<rparr>))) }
               else Some (Inr meta, df) }
      | None \<Rightarrow>
          (case payload_size payload of
             Inl e \<Rightarrow> Some (Inl e, df)
           | Inr len \<Rightarrow>
               do { buf \<leftarrow> copy_in (df_buf df) 0 payload;
                    let meta = \<lparr>hm_message_end = fin, hm_payload_start = 0, hm_payload_end = length payload, hm_version = version,
                                hm_expected_len = len, hm_quic = quic\<rparr>;
                    Some (Inr meta, df\<lparr>df_buf := buf, df_joining := Some meta\<rparr>) }))"

definition append_hs ::
    "MessageDeframer \<Rightarrow> ProtocolVersion \<Rightarrow> u8 list \<Rightarrow> nat \<Rightarrow> bool \<Rightarrow> ((TlsError + HandshakePayloadState) \<times> MessageDeframer) may_panic" where
  "append_hs df version payload fin quic =
     do { (res, df) \<leftarrow> join_payload df version payload fin quic;
          (case res of
             Inl e \<Rightarrow> Some (Inl e, df)
           | Inr meta \<Rightarrow>
               Some (Inr (case hm_expected_len meta of
                            Some len \<Rightarrow> if len \<le> payload_len meta then HS_Complete len
                                        else if hm_message_end meta < df_used df then HS_Continue else HS_Blocked
                          | None \<Rightarrow> if hm_message_end meta < df_used df then HS_Continue else HS_Blocked), df)) }"

definition prepare_read :: "MessageDeframer \<Rightarrow> (string + unit) \<times> MessageDeframer" where
  "prepare_read df =
     (let allow_max = (case df_joining df of Some _ \<Rightarrow> unat MAX_HANDSHAKE_SIZE | None \<Rightarrow> MAX_WIRE_SIZE) in
      if allow_max \<le> df_used df then (Inl ''message buffer full'', df)
      else
        let need_capacity = min allow_max (df_used df + READ_SIZE); buf = df_buf df;
            resized = take need_capacity buf @ replicate (need_capacity - length buf) 0
        in if length buf < need_capacity then (Inr (), df\<lparr>df_buf := resized\<rparr>)
           else if df_used df = 0 \<or> allow_max < length buf then (Inr (), df\<lparr>df_buf := resized\<rparr>)
           else (Inr (), df))"

text \<open>\<open>rd n\<close> is the caller's \<^verbatim>\<open>io::Read::read\<close> on a slice of \<open>n\<close> bytes: an error, or the bytes it put there.\<close>

definition df_read :: "(string \<Rightarrow> 'e) \<Rightarrow> (nat \<Rightarrow> 'e + u8 list) \<Rightarrow> MessageDeframer \<Rightarrow> (('e + nat) \<times> MessageDeframer) may_panic" where
  "df_read invalid_data rd df =
     (case prepare_read df of
        (Inl err, df) \<Rightarrow> Some (Inl (invalid_data err), df)
      | (Inr _, df) \<Rightarrow>
          do { free \<leftarrow> slice (df_buf df) (df_used df) (length (df_buf df));
               (case rd (length free) of
                  Inl e \<Rightarrow> Some (Inl e, df)
                | Inr bs \<Rightarrow> Some (Inr (length bs), df\<lparr>df_buf := overwrite (df_buf df) (df_used df) bs, df_used := df_used df + length bs\<rparr>)) })"

definition df_push :: "MessageDeframer \<Rightarrow> ProtocolVersion \<Rightarrow> u8 list \<Rightarrow> ((TlsError + unit) \<times> MessageDeframer) may_panic" where
  "df_push df version payload =
     (if 0 < df_used df \<and> df_joining df = None
      then Some (Inl (E_General ''cannot push QUIC messages into unrelated connection''), df)
      else (case prepare_read df of
              (Inl err, df) \<Rightarrow> Some (Inl (E_General err), df)
            | (Inr _, df) \<Rightarrow>
                let fin = df_used df + length payload in
                do { (res, df) \<leftarrow> append_hs df version payload fin True;
                     (case res of
                        Inl e \<Rightarrow> Some (Inl e, df)
                      | Inr _ \<Rightarrow> Some (Inr (), df\<lparr>df_used := fin\<rparr>)) }))"

section \<open>Popping messages\<close>

text \<open>One turn of the loop of \<^verbatim>\<open>pop\<close>: it returns, breaks with the length of a complete handshake message, or continues.\<close>

datatype LoopCtl = LoopReturn "TlsError + Deframed option" | LoopBreak nat | LoopContinue

definition deframed :: "bool \<Rightarrow> bool \<Rightarrow> PlainMessage \<Rightarrow> Deframed" where
  "deframed aligned finished m = \<lparr>dm_want_close = False, dm_aligned = aligned, dm_trial_finished = finished, dm_message = m\<rparr>"

datatype StartCtl = StartAt nat | StartBreak nat | StartWait

definition loop_start :: "MessageDeframer \<Rightarrow> StartCtl" where
  "loop_start df =
     (case df_joining df of
        Some meta \<Rightarrow>
          (case hm_expected_len meta of
             Some len \<Rightarrow> if len \<le> payload_len meta then StartBreak len
                         else if hm_quic meta then StartWait else StartAt (hm_message_end meta)
           | None \<Rightarrow> if hm_quic meta then StartWait else StartAt (hm_message_end meta))
      | None \<Rightarrow> StartAt 0)"

fun message_error :: "MessageError \<Rightarrow> InvalidMessage option" where
  "message_error ME_TooShortForHeader = None"
| "message_error ME_TooShortForLength = None"
| "message_error ME_InvalidEmptyPayload = Some InvalidEmptyPayload"
| "message_error ME_MessageTooLarge = Some MessageTooLarge"
| "message_error ME_InvalidContentType = Some InvalidContentType"
| "message_error ME_UnknownProtocolVersion = Some UnknownProtocolVersion"

text \<open>What happens to a record once it is decrypted; \<open>fin\<close> is where it ends in the buffer.\<close>

definition pop_plain :: "MessageDeframer \<Rightarrow> PlainMessage \<Rightarrow> nat \<Rightarrow> (LoopCtl \<times> MessageDeframer) may_panic" where
  "pop_plain df msg fin =
     (if df_joining df \<noteq> None \<and> pm_typ msg \<noteq> CT_Handshake
      then (let e = E_PeerMisbehaved PM_MessageInterleavedWithHandshakeMessage in Some (LoopReturn (Inl e), set_err df e))
      else if pm_typ msg \<noteq> CT_Handshake
      then map_option (\<lambda>df. (LoopReturn (Inr (Some (deframed True False msg))), df)) (df_discard df fin)
      else do { (res, df) \<leftarrow> append_hs df (pm_version msg) (pm_payload msg) fin False;
                Some (case res of
                        Inl e \<Rightarrow> LoopReturn (Inl e)
                      | Inr HS_Blocked \<Rightarrow> LoopReturn (Inr None)
                      | Inr (HS_Complete len) \<Rightarrow> LoopBreak len
                      | Inr HS_Continue \<Rightarrow> LoopContinue, df) })"

definition pop_record :: "MessageDeframer \<Rightarrow> RecordLayer \<Rightarrow> OpaqueMessage \<Rightarrow> nat \<Rightarrow> (LoopCtl \<times> MessageDeframer \<times> RecordLayer) may_panic" where
  "pop_record df rl m fin =
     (if om_typ m = CT_ChangeCipherSpec \<and> df_joining df = None
      then map_option (\<lambda>df. (LoopReturn (Inr (Some (deframed True False (into_plain_message m)))), df, rl)) (df_discard df fin)
      else (case decrypt_incoming rl m of
              (Inr (Some dec), rl) \<Rightarrow> map_option (\<lambda>(ctl, df). (ctl, df, rl)) (pop_plain df (plaintext dec) fin)
            | (Inr None, rl) \<Rightarrow>
                if df_joining df \<noteq> None
                then (let e = E_PeerMisbehaved PM_RejectedEarlyDataInterleavedWithHandshakeMessage in Some (LoopReturn (Inl e), set_err df e, rl))
                else map_option (\<lambda>df. (LoopContinue, df, rl)) (df_discard df fin)
            | (Inl e, rl) \<Rightarrow> Some (LoopReturn (Inl e), df, rl)))"

definition pop_body :: "MessageDeframer \<Rightarrow> RecordLayer \<Rightarrow> (LoopCtl \<times> MessageDeframer \<times> RecordLayer) may_panic" where
  "pop_body df rl =
     (case loop_start df of
        StartBreak len \<Rightarrow> Some (LoopBreak len, df, rl)
      | StartWait \<Rightarrow> Some (LoopReturn (Inr None), df, rl)
      | StartAt start \<Rightarrow>
          do { bs \<leftarrow> slice (df_buf df) start (df_used df);
               (case opaque_read (rd_init bs) of
                  (Inl msg_err, rd) \<Rightarrow>
                    (case message_error msg_err of
                       None \<Rightarrow> Some (LoopReturn (Inr None), df, rl)
                     | Some kind \<Rightarrow> (let e = E_InvalidMessage kind in Some (LoopReturn (Inl e), set_err df e, rl)))
                | (Inr m, rd) \<Rightarrow> pop_record df rl m (start + rd_used rd)) })"

text \<open>After the loop: hand out the first \<open>expected_len\<close> bytes of the joined payload.\<close>

definition pop_finish :: "MessageDeframer \<Rightarrow> nat \<Rightarrow> ((TlsError + Deframed option) \<times> MessageDeframer) may_panic" where
  "pop_finish df expected_len =
     (case df_joining df of
        None \<Rightarrow> None
      | Some meta \<Rightarrow>
          do { payload \<leftarrow> slice (df_buf df) (hm_payload_start meta) (hm_payload_start meta + expected_len);
               let message = \<lparr>pm_typ = CT_Handshake, pm_version = hm_version meta, pm_payload = payload\<rparr>;
               if expected_len < payload_len meta
               then do { let meta = meta\<lparr>hm_payload_start := hm_payload_start meta + expected_len\<rparr>;
                         let df = df\<lparr>df_joining := Some meta\<rparr>;
                         rest \<leftarrow> slice (df_buf df) (hm_payload_start meta) (hm_payload_end meta);
                         (case payload_size rest of
                            Inl e \<Rightarrow> Some (Inl e, df)
                          | Inr len \<Rightarrow> Some (Inr (Some (deframed False True message)), df\<lparr>df_joining := Some (meta\<lparr>hm_expected_len := len\<rparr>)\<rparr>)) }
               else map_option (\<lambda>df. (Inr (Some (deframed True True message)), df))
                      (df_discard (df\<lparr>df_joining := None\<rparr>) (hm_message_end meta)) })"

lemma opaque_read_used:
  assumes "opaque_read (rd_init bs) = (Inr m, rd)"
  shows "read_record_spec bs = Inr (m, rd_used rd)" and "5 \<le> rd_used rd" and "rd_used rd \<le> length bs"
    and "rd_used rd = 5 + length (om_payload m)"
proof -
  have ok: "rd_ok (rd_init bs)" by simp
  obtain n where n: "read_record_spec bs = Inr (m, n)"
    using opaque_read_spec(1) [OF ok] assms by (auto split: sum.splits)
  have "rd = rd_advance (rd_init bs) n" using opaque_read_spec(2) [OF ok] n assms by simp
  then have "rd_used rd = n" by (simp add: rd_used_def rd_advance_def rd_init_def)
  moreover have "n \<le> length bs" "take n bs = opaque_encode m" using read_record_spec_sound [OF n] by simp_all
  moreover have "n = 5 + length (om_payload m)" using arg_cong [OF calculation(3), of length] calculation(2) by simp
  ultimately show "read_record_spec bs = Inr (m, rd_used rd)" "5 \<le> rd_used rd" "rd_used rd \<le> length bs"
    "rd_used rd = 5 + length (om_payload m)" using n by simp_all
qed

definition df_start :: "MessageDeframer \<Rightarrow> nat" where
  "df_start df = (case df_joining df of Some meta \<Rightarrow> hm_message_end meta | None \<Rightarrow> 0)"

lemma append_hs_Continue:
  assumes "append_hs df v p e q = Some (Inr HS_Continue, df')"
  shows "df_start df' = e" and "df_used df' = df_used df" and "e < df_used df"
  using assms
  by (auto simp: append_hs_def join_payload_def copy_in_def df_start_def Let_def
    split: option.splits sum.splits if_splits bind_splits)

lemma pop_body_Continue:
  assumes "pop_body df rl = Some (LoopContinue, df', rl')"
  shows "df_used df' - df_start df' < df_used df - df_start df"
proof -
  obtain start bs m rd where st: "loop_start df = StartAt start" "slice (df_buf df) start (df_used df) = Some bs"
      "opaque_read (rd_init bs) = (Inr m, rd)" and rec: "pop_record df rl m (start + rd_used rd) = Some (LoopContinue, df', rl')"
    using assms by (auto simp: pop_body_def Let_def split: StartCtl.splits sum.splits prod.splits option.splits bind_splits)
  have start: "start = df_start df" using st(1) by (auto simp: loop_start_def df_start_def split: option.splits if_splits)
  have bs: "start \<le> df_used df" "length bs = df_used df - start"
    using st(2) slice_Some_length [OF st(2)] by (auto simp: slice_def split: if_splits)
  note used = opaque_read_used [OF st(3)]
  consider (drop) "df_joining df = None" "df_discard df (start + rd_used rd) = Some df'"
    | (join) v p where "append_hs df v p (start + rd_used rd) False = Some (Inr HS_Continue, df')"
    using rec
    by (auto simp: pop_record_def pop_plain_def Let_def
      split: if_splits prod.splits sum.splits option.splits HandshakePayloadState.splits bind_splits)
  then show ?thesis
  proof cases
    case drop
    then have "start = 0" "df_start df' = 0" "df_used df' = df_used df - rd_used rd"
      using start used bs by (auto simp: df_start_def df_discard_def split: if_splits bind_splits)
    then show ?thesis using used bs start by simp
  next
    case join
    then show ?thesis using append_hs_Continue [OF join] used start by simp
  qed
qed

function pop_loop :: "MessageDeframer \<Rightarrow> RecordLayer \<Rightarrow> (LoopCtl \<times> MessageDeframer \<times> RecordLayer) may_panic" where
  "pop_loop df rl =
     (case pop_body df rl of
        Some (LoopContinue, df, rl) \<Rightarrow> pop_loop df rl
      | res \<Rightarrow> res)"
  by pat_completeness auto
termination
  by (relation "measure (\<lambda>(df, rl). df_used df - df_start df)") (auto dest: pop_body_Continue)

declare pop_loop.simps [simp del]

definition pop :: "MessageDeframer \<Rightarrow> RecordLayer \<Rightarrow> ((TlsError + Deframed option) \<times> MessageDeframer \<times> RecordLayer) may_panic" where
  "pop df rl =
     (case df_last_error df of
        Some last_err \<Rightarrow> Some (Inl last_err, df, rl)
      | None \<Rightarrow>
          if df_used df = 0 then Some (Inr None, df, rl)
          else (case pop_loop df rl of
                  None \<Rightarrow> None
                | Some (LoopReturn res, df, rl) \<Rightarrow> Some (res, df, rl)
                | Some (LoopBreak len, df, rl) \<Rightarrow> map_option (\<lambda>(res, df). (res, df, rl)) (pop_finish df len)
                | Some (LoopContinue, df, rl) \<Rightarrow> None))"

end
