(* ===== verification/Tls_Deframer_Correct.thy ===== *)
theory Tls_Deframer_Correct
  imports Tls_Deframer
begin

text \<open>
  The deframer refines a specification with two queues and no buffer: the handshake bytes joined so far, and the
  record bytes not yet parsed. The refinement covers the in-place joining, the compaction of the buffer and the
  bookkeeping of offsets, and shows that no slice is ever out of range.
\<close>

section \<open>The specification\<close>

type_synonym joined = "(ProtocolVersion \<times> u8 list) option"

definition hs_complete :: "joined \<Rightarrow> nat option" where
  "hs_complete j =
     (case j of
        None \<Rightarrow> None
      | Some (v, bs) \<Rightarrow> (case payload_size bs of Inr (Some len) \<Rightarrow> if len \<le> length bs then Some len else None | _ \<Rightarrow> None))"

definition spec_deliver :: "joined \<Rightarrow> nat \<Rightarrow> (TlsError + Deframed option) \<times> joined" where
  "spec_deliver j len =
     (case j of
        None \<Rightarrow> (Inr None, None)
      | Some (v, bs) \<Rightarrow>
          let m = \<lparr>pm_typ = CT_Handshake, pm_version = v, pm_payload = take len bs\<rparr> in
          if len < length bs
          then (case payload_size (drop len bs) of
                  Inl e \<Rightarrow> (Inl e, j)
                | Inr _ \<Rightarrow> (Inr (Some (deframed False True m)), Some (v, drop len bs)))
          else (Inr (Some (deframed True True m)), None))"

datatype SpecCtl = SpecFail TlsError | SpecGive Deframed | SpecJoin joined

definition spec_join :: "joined \<Rightarrow> PlainMessage \<Rightarrow> ProtocolVersion \<times> u8 list" where
  "spec_join j msg = (case j of Some (v, bs) \<Rightarrow> (v, bs @ pm_payload msg) | None \<Rightarrow> (pm_version msg, pm_payload msg))"

definition spec_plain :: "joined \<Rightarrow> PlainMessage \<Rightarrow> SpecCtl" where
  "spec_plain j msg =
     (if pm_typ msg \<noteq> CT_Handshake
      then (if j \<noteq> None then SpecFail (E_PeerMisbehaved PM_MessageInterleavedWithHandshakeMessage) else SpecGive (deframed True False msg))
      else (case payload_size (snd (spec_join j msg)) of Inl e \<Rightarrow> SpecFail e | Inr _ \<Rightarrow> SpecJoin (Some (spec_join j msg))))"

definition spec_record :: "joined \<Rightarrow> RecordLayer \<Rightarrow> OpaqueMessage \<Rightarrow> SpecCtl \<times> RecordLayer" where
  "spec_record j rl m =
     (if om_typ m = CT_ChangeCipherSpec \<and> j = None then (SpecGive (deframed True False (into_plain_message m)), rl)
      else (case decrypt_incoming rl m of
              (Inr (Some dec), rl) \<Rightarrow> (spec_plain j (plaintext dec), rl)
            | (Inr None, rl) \<Rightarrow>
                (if j \<noteq> None then SpecFail (E_PeerMisbehaved PM_RejectedEarlyDataInterleavedWithHandshakeMessage) else SpecJoin None, rl)
            | (Inl e, rl) \<Rightarrow> (SpecFail e, rl)))"

lemma read_record_spec_len: "read_record_spec bs = Inr (m, n) \<Longrightarrow> 5 \<le> n \<and> n \<le> length bs \<and> n = 5 + length (om_payload m)"
  using read_record_spec_sound [of bs m n] length_opaque_encode [of m] by (metis le_add1 length_take min.absorb2)

function spec_pop :: "joined \<Rightarrow> u8 list \<Rightarrow> RecordLayer \<Rightarrow> (TlsError + Deframed option) \<times> joined \<times> u8 list \<times> RecordLayer" where
  "spec_pop j rest rl =
     (case hs_complete j of
        Some len \<Rightarrow> (let (res, j) = spec_deliver j len in (res, j, rest, rl))
      | None \<Rightarrow>
          (case read_record_spec rest of
             Inl e \<Rightarrow> (case message_error e of None \<Rightarrow> Inr None | Some kind \<Rightarrow> Inl (E_InvalidMessage kind), j, rest, rl)
           | Inr (m, n) \<Rightarrow>
               (case spec_record j rl m of
                  (SpecFail e, rl) \<Rightarrow> (Inl e, j, rest, rl)
                | (SpecGive d, rl) \<Rightarrow> (Inr (Some d), j, drop n rest, rl)
                | (SpecJoin j, rl) \<Rightarrow> spec_pop j (drop n rest) rl)))"
  by pat_completeness auto
termination
  by (relation "measure (\<lambda>(j, rest, rl). length rest)") (auto dest!: read_record_spec_len)

declare spec_pop.simps [simp del]

section \<open>Abstraction and invariant\<close>

definition meta_bytes :: "u8 list \<Rightarrow> HandshakePayloadMeta \<Rightarrow> u8 list" where
  "meta_bytes buf m = take (hm_payload_end m - hm_payload_start m) (drop (hm_payload_start m) buf)"

definition abs_joined :: "MessageDeframer \<Rightarrow> joined" where
  "abs_joined df = map_option (\<lambda>m. (hm_version m, meta_bytes (df_buf df) m)) (df_joining df)"

definition abs_rest :: "MessageDeframer \<Rightarrow> u8 list" where
  "abs_rest df = take (df_used df - df_start df) (drop (df_start df) (df_buf df))"

definition meta_ok :: "u8 list \<Rightarrow> nat \<Rightarrow> HandshakePayloadMeta \<Rightarrow> bool" where
  "meta_ok buf used m \<longleftrightarrow> hm_payload_start m \<le> hm_payload_end m \<and> hm_payload_end m \<le> hm_message_end m \<and> hm_message_end m \<le> used
     \<and> payload_size (meta_bytes buf m) = Inr (hm_expected_len m) \<and> (hm_quic m \<longrightarrow> hm_message_end m = used)"

definition df_ok :: "MessageDeframer \<Rightarrow> bool" where
  "df_ok df \<longleftrightarrow> df_last_error df = None \<and> df_used df \<le> length (df_buf df)
     \<and> (case df_joining df of None \<Rightarrow> True | Some m \<Rightarrow> meta_ok (df_buf df) (df_used df) m)"

text \<open>The contract of a decrypter: the plaintext of a record is no longer than its ciphertext.\<close>

definition shrinks :: "RecordLayer \<Rightarrow> bool" where
  "shrinks rl \<longleftrightarrow> (\<forall>m seq p. message_decrypter rl m seq = Inr p \<longrightarrow> length (pm_payload p) \<le> length (om_payload m))"

lemma decrypt_incoming_shrinks:
  assumes "shrinks rl" and "decrypt_incoming rl m = (res, rl')"
  shows "shrinks rl'" and "res = Inr (Some dec) \<Longrightarrow> length (pm_payload (plaintext dec)) \<le> length (om_payload m)"
proof -
  have "message_decrypter rl' = message_decrypter rl"
    using assms(2) by (auto simp: decrypt_incoming_def Let_def doing_trial_decryption_def split: sum.splits if_splits option.splits)
  then show "shrinks rl'" using assms(1) by (simp add: shrinks_def)
  show "res = Inr (Some dec) \<Longrightarrow> length (pm_payload (plaintext dec)) \<le> length (om_payload m)"
    using assms by (auto simp: decrypt_incoming_def Let_def shrinks_def into_plain_message_def split: sum.splits if_splits prod.splits bool.splits)
qed

section \<open>Payload sizes\<close>

lemma payload_size_eq:
  "payload_size bs = (if length bs < 4 then Inr None
     else (let n = be_nat (take 3 (drop 1 bs)) in
       if 65535 < n then Inl (E_InvalidMessage HandshakePayloadTooLarge) else Inr (Some (4 + n))))"
proof (cases "length bs < 4")
  case False
  then obtain t a b c rest where bs: "bs = t # a # b # c # rest" by (cases bs rule: list.exhaust; auto simp: Suc_le_length_iff numeral_eq_Suc not_less)
  have "be_nat [a, b, c] < 256 ^ 3" using be_nat_less [of "[a, b, c]"] by simp
  moreover have zero: "be_nat [0, a, b, c] = be_nat [a, b, c]" by (simp add: be_nat_def)
  ultimately have "unat (from_be_bytes [0, a, b, c] :: u32) = be_nat [a, b, c]"
    by (simp add: from_be_bytes_def unat_of_nat)
  moreover have "fst (read_u24 (rd_init [a, b, c])) = Inr (U24 (from_be_bytes [0, a, b, c]))" by (simp add: read_u24_def rd_take_eq)
  moreover have "drop 1 (take HEADER_SIZE bs) = [a, b, c]" "take 3 (drop 1 bs) = [a, b, c]" by (simp_all add: bs HEADER_SIZE_def)
  moreover have "MAX_HANDSHAKE_SIZE < w \<longleftrightarrow> 65535 < unat w" for w by (simp add: MAX_HANDSHAKE_SIZE_def word_less_nat_alt)
  ultimately show ?thesis using False by (simp add: payload_size_def HEADER_SIZE_def u24_usize_def Let_def)
qed (simp add: payload_size_def HEADER_SIZE_def)

lemma payload_size_append: "payload_size bs = Inr (Some len) \<Longrightarrow> payload_size (bs @ later) = Inr (Some len)"
  by (auto simp: payload_size_eq Let_def split: if_splits)

lemma payload_size_Some: "payload_size bs = Inr (Some len) \<Longrightarrow> 4 \<le> length bs \<and> 4 \<le> len"
  by (auto simp: payload_size_eq Let_def split: if_splits)

section \<open>Buffer operations\<close>

lemma drop_overwrite: "i + length ys \<le> k \<Longrightarrow> i + length ys \<le> length xs \<Longrightarrow> drop k (overwrite xs i ys) = drop k xs"
  by (simp add: overwrite_def min_def)

lemma window_overwrite:
  assumes "a \<le> i" and "i + length ys \<le> length xs"
  shows "take (i + length ys - a) (drop a (overwrite xs i ys)) = take (i - a) (drop a xs) @ ys"
proof -
  have "take (i + length ys - a) (drop a (overwrite xs i ys)) = drop a (take (i + length ys) (overwrite xs i ys))"
    by (simp add: drop_take)
  also have "\<dots> = drop a (take i xs @ ys)" using assms(2) by (simp add: take_overwrite)
  also have "\<dots> = take (i - a) (drop a xs) @ ys" using assms by (simp add: drop_take)
  finally show ?thesis .
qed

lemma take_overwrite_0: "n = length ys \<Longrightarrow> take n (overwrite xs 0 ys) = ys"
  by (simp add: overwrite_def)

lemma copy_in_Some: "at + length bs \<le> length buf \<Longrightarrow> copy_in buf at bs = Some (overwrite buf at bs)"
  by (simp add: copy_in_def slice_def)

lemma copy_in_None: "length buf < at + length bs \<Longrightarrow> copy_in buf at bs = None"
  by (simp add: copy_in_def slice_def)

lemma df_discard_spec:
  assumes "df_used df \<le> length (df_buf df)" and "taken \<le> df_used df"
  shows "\<exists>buf. df_discard df taken = Some (df\<lparr>df_buf := buf, df_used := df_used df - taken\<rparr>) \<and> length buf = length (df_buf df)
    \<and> take (df_used df - taken) buf = take (df_used df - taken) (drop taken (df_buf df))"
proof (cases "taken < df_used df")
  case True
  let ?moved = "take (df_used df - taken) (drop taken (df_buf df))"
  have len: "length ?moved = df_used df - taken" using assms by simp
  have "take (df_used df - taken) (overwrite (df_buf df) 0 ?moved) = ?moved" by (rule take_overwrite_0) (simp only: len)
  moreover have "length (overwrite (df_buf df) 0 ?moved) = length (df_buf df)" using assms by simp
  ultimately show ?thesis using True assms
    by (intro exI [of _ "overwrite (df_buf df) 0 ?moved"]) (simp add: df_discard_def slice_def)
next
  case False
  then show ?thesis using assms(2) by (intro exI [of _ "df_buf df"]) (simp add: df_discard_def)
qed

lemma discard_refine:
  assumes "df_ok df" and "df_joining df = None" and "taken \<le> df_used df"
  shows "\<exists>df'. df_discard df taken = Some df' \<and> df_ok df' \<and> df_joining df' = None \<and> abs_rest df' = drop taken (abs_rest df)"
proof -
  obtain buf where d: "df_discard df taken = Some (df\<lparr>df_buf := buf, df_used := df_used df - taken\<rparr>)" "length buf = length (df_buf df)"
      "take (df_used df - taken) buf = take (df_used df - taken) (drop taken (df_buf df))"
    using df_discard_spec [of df taken] assms by (auto simp: df_ok_def)
  then show ?thesis using assms by (auto simp: df_ok_def abs_rest_def df_start_def drop_take)
qed

section \<open>Joining\<close>

text \<open>\<open>join_at\<close> is where a decrypted handshake payload goes: right behind the payload joined so far.\<close>

definition join_at :: "MessageDeframer \<Rightarrow> nat" where
  "join_at df = (case df_joining df of Some m \<Rightarrow> hm_payload_end m | None \<Rightarrow> 0)"

definition joined_meta :: "MessageDeframer \<Rightarrow> PlainMessage \<Rightarrow> nat \<Rightarrow> bool \<Rightarrow> nat option \<Rightarrow> HandshakePayloadMeta" where
  "joined_meta df msg fin q el =
     (case df_joining df of
        Some m \<Rightarrow> m\<lparr>hm_message_end := fin, hm_payload_end := hm_payload_end m + length (pm_payload msg), hm_expected_len := el\<rparr>
      | None \<Rightarrow> \<lparr>hm_message_end = fin, hm_payload_start = 0, hm_payload_end = length (pm_payload msg), hm_version = pm_version msg,
                 hm_expected_len = el, hm_quic = q\<rparr>)"

lemma joined_meta_bytes:
  assumes "df_ok df" and "join_at df + length (pm_payload msg) \<le> length (df_buf df)"
  shows "meta_bytes (overwrite (df_buf df) (join_at df) (pm_payload msg)) (joined_meta df msg fin q el) = snd (spec_join (abs_joined df) msg)"
    and "hm_version (joined_meta df msg fin q el) = fst (spec_join (abs_joined df) msg)"
proof -
  show "meta_bytes (overwrite (df_buf df) (join_at df) (pm_payload msg)) (joined_meta df msg fin q el) = snd (spec_join (abs_joined df) msg)"
  proof (cases "df_joining df")
    case None
    then show ?thesis using assms window_overwrite [of 0 0 "pm_payload msg" "df_buf df"]
      by (simp add: join_at_def joined_meta_def meta_bytes_def spec_join_def abs_joined_def)
  next
    case (Some m)
    then have "hm_payload_start m \<le> hm_payload_end m" using assms(1) by (simp add: df_ok_def meta_ok_def)
    then show ?thesis using Some assms(2) window_overwrite [of "hm_payload_start m" "hm_payload_end m" "pm_payload msg" "df_buf df"]
      by (simp add: join_at_def joined_meta_def meta_bytes_def spec_join_def abs_joined_def)
  qed
  show "hm_version (joined_meta df msg fin q el) = fst (spec_join (abs_joined df) msg)"
    by (simp add: joined_meta_def spec_join_def abs_joined_def split: option.split)
qed

lemma join_payload_spec:
  assumes "df_ok df" and fits: "join_at df + length (pm_payload msg) \<le> length (df_buf df)"
  shows "case payload_size (snd (spec_join (abs_joined df) msg)) of
      Inl e \<Rightarrow> \<exists>df'. join_payload df (pm_version msg) (pm_payload msg) fin q = Some (Inl e, df')
    | Inr el \<Rightarrow> join_payload df (pm_version msg) (pm_payload msg) fin q =
        Some (Inr (joined_meta df msg fin q el),
          df\<lparr>df_buf := overwrite (df_buf df) (join_at df) (pm_payload msg), df_joining := Some (joined_meta df msg fin q el)\<rparr>)"
proof (cases "df_joining df")
  case None
  then show ?thesis using fits
    by (auto simp: join_payload_def join_at_def spec_join_def abs_joined_def joined_meta_def copy_in_Some Let_def split: sum.split)
next
  case (Some m)
  let ?bs = "meta_bytes (df_buf df) m" and ?p = "pm_payload msg"
  have m: "hm_payload_start m \<le> hm_payload_end m" "payload_size ?bs = Inr (hm_expected_len m)"
    using Some assms(1) by (simp_all add: df_ok_def meta_ok_def)
  have join: "snd (spec_join (abs_joined df) msg) = ?bs @ ?p" using Some by (simp add: spec_join_def abs_joined_def)
  have sl: "slice (overwrite (df_buf df) (hm_payload_end m) ?p) (hm_payload_start m) (hm_payload_end m + length ?p) = Some (?bs @ ?p)"
    using m(1) fits Some window_overwrite [of "hm_payload_start m" "hm_payload_end m" ?p "df_buf df"]
    by (simp add: slice_def meta_bytes_def join_at_def)
  show ?thesis
  proof (cases "hm_expected_len m")
    case None
    then show ?thesis using Some fits sl
      by (auto simp: join join_payload_def join_at_def joined_meta_def copy_in_Some Let_def split: sum.split)
  next
    case (Some len)
    then have "payload_size (?bs @ ?p) = Inr (hm_expected_len m)" using m(2) payload_size_append by simp
    then show ?thesis using Some \<open>df_joining df = Some m\<close> fits
      by (simp add: join join_payload_def join_at_def joined_meta_def copy_in_Some Let_def)
  qed
qed

lemma abs_joined_None [simp]: "abs_joined df = None \<longleftrightarrow> df_joining df = None"
  by (simp add: abs_joined_def)

definition not_quic :: "MessageDeframer \<Rightarrow> bool" where
  "not_quic df \<longleftrightarrow> (case df_joining df of Some m \<Rightarrow> \<not> hm_quic m | None \<Rightarrow> True)"

lemma join_at_le: "df_ok df \<Longrightarrow> join_at df \<le> df_start df"
  by (auto simp: df_ok_def meta_ok_def join_at_def df_start_def split: option.splits)

lemma payload_len_bytes: "hm_payload_end m \<le> length buf \<Longrightarrow> payload_len m = length (meta_bytes buf m)"
  by (auto simp: payload_len_def meta_bytes_def min_def)

lemma append_hs_refine:
  assumes ok: "df_ok df" and nq: "not_quic df" and fits: "df_start df + length (pm_payload msg) \<le> fin" "fin \<le> df_used df"
    and size: "payload_size (snd (spec_join (abs_joined df) msg)) = Inr el"
  shows "\<exists>df'. append_hs df (pm_version msg) (pm_payload msg) fin False =
      Some (Inr (case hs_complete (Some (spec_join (abs_joined df) msg)) of
                   Some len \<Rightarrow> HS_Complete len | None \<Rightarrow> if fin < df_used df then HS_Continue else HS_Blocked), df')
    \<and> df_ok df' \<and> not_quic df' \<and> abs_joined df' = Some (spec_join (abs_joined df) msg)
    \<and> abs_rest df' = drop (fin - df_start df) (abs_rest df) \<and> df_used df' = df_used df \<and> df_start df' = fin"
proof -
  let ?p = "pm_payload msg" and ?m = "joined_meta df msg fin False el" and ?j = "spec_join (abs_joined df) msg"
  let ?buf = "overwrite (df_buf df) (join_at df) ?p"
  let ?df = "df\<lparr>df_buf := ?buf, df_joining := Some ?m\<rparr>"
  have used: "df_used df \<le> length (df_buf df)" using ok by (simp add: df_ok_def)
  have at: "join_at df + length ?p \<le> fin" "join_at df + length ?p \<le> length (df_buf df)" using join_at_le [OF ok] fits used by auto
  note bytes = joined_meta_bytes [OF ok at(2), of fin False el]
  have flds: "hm_message_end ?m = fin" "hm_expected_len ?m = el" "hm_payload_end ?m = join_at df + length ?p" "hm_payload_start ?m \<le> hm_payload_end ?m"
      "\<not> hm_quic ?m"
    using ok nq by (auto simp: joined_meta_def join_at_def df_ok_def meta_ok_def not_quic_def split: option.split)
  have buf: "length ?buf = length (df_buf df)" "drop fin ?buf = drop fin (df_buf df)" using at drop_overwrite [of "join_at df" ?p fin] by simp_all
  have df': "df_ok ?df" "abs_joined ?df = Some ?j"
    using ok flds bytes size at(1) fits(2) used by (auto simp: df_ok_def meta_ok_def abs_joined_def buf)
  have rest: "abs_rest ?df = drop (fin - df_start df) (abs_rest df)"
    using fits buf(2) flds(1) by (simp add: abs_rest_def df_start_def [of ?df] drop_take)
  have plen: "payload_len ?m = length (snd ?j)" using payload_len_bytes [of ?m ?buf] bytes(1) flds(3) at(2) buf(1) by simp
  have "append_hs df (pm_version msg) ?p fin False = Some (Inr (case el of
      Some len \<Rightarrow> if len \<le> length (snd ?j) then HS_Complete len else if fin < df_used df then HS_Continue else HS_Blocked
    | None \<Rightarrow> if fin < df_used df then HS_Continue else HS_Blocked), ?df)"
    using join_payload_spec [OF ok at(2), of fin False] size flds plen by (cases el) (simp_all add: append_hs_def)
  also have "(case el of
      Some len \<Rightarrow> if len \<le> length (snd ?j) then HS_Complete len else if fin < df_used df then HS_Continue else HS_Blocked
    | None \<Rightarrow> if fin < df_used df then HS_Continue else HS_Blocked) =
      (case hs_complete (Some ?j) of Some len \<Rightarrow> HS_Complete len | None \<Rightarrow> if fin < df_used df then HS_Continue else HS_Blocked)"
    using size by (cases ?j) (simp add: hs_complete_def split: option.split)
  finally show ?thesis using df' rest flds by (intro exI [of _ ?df]) (simp add: not_quic_def df_start_def [of ?df])
qed

section \<open>One turn of the loop\<close>

text \<open>What a turn of the loop of \<^verbatim>\<open>pop\<close> has to do with the specification.\<close>

definition turn_ok :: "(TlsError + Deframed option) \<times> joined \<times> u8 list \<times> RecordLayer \<Rightarrow> LoopCtl \<times> MessageDeframer \<times> RecordLayer \<Rightarrow> bool" where
  "turn_ok sp r =
     (case r of
        (LoopReturn (Inl e), df', rl') \<Rightarrow> fst sp = Inl e
      | (LoopReturn (Inr x), df', rl') \<Rightarrow> df_ok df' \<and> sp = (Inr x, abs_joined df', abs_rest df', rl')
      | (LoopBreak len, df', rl') \<Rightarrow> df_ok df' \<and> hs_complete (abs_joined df') = Some len \<and> sp = spec_pop (abs_joined df') (abs_rest df') rl'
      | (LoopContinue, df', rl') \<Rightarrow> df_ok df' \<and> not_quic df' \<and> shrinks rl' \<and> sp = spec_pop (abs_joined df') (abs_rest df') rl')"

lemma spec_pop_empty: "hs_complete j = None \<Longrightarrow> spec_pop j [] rl = (Inr None, j, [], rl)"
  by (simp add: spec_pop.simps read_record_spec_def)

lemma pop_plain_refine:
  assumes ok: "df_ok df" and nq: "not_quic df" and sh: "shrinks rl"
    and fits: "df_start df + length (pm_payload msg) \<le> fin" "fin \<le> df_used df" "df_start df \<le> fin"
  shows "\<exists>ctl df'. pop_plain df msg fin = Some (ctl, df')
    \<and> turn_ok (case spec_plain (abs_joined df) msg of
          SpecFail e \<Rightarrow> (Inl e, abs_joined df, abs_rest df, rl)
        | SpecGive d \<Rightarrow> (Inr (Some d), abs_joined df, drop (fin - df_start df) (abs_rest df), rl)
        | SpecJoin j \<Rightarrow> spec_pop j (drop (fin - df_start df) (abs_rest df)) rl) (ctl, df', rl)"
proof (cases "pm_typ msg = CT_Handshake")
  case False
  show ?thesis
  proof (cases "df_joining df")
    case None
    then have "df_start df = 0" "abs_joined df = None" by (simp_all add: df_start_def)
    then show ?thesis using discard_refine [OF ok None fits(2)] False None
      by (auto simp: pop_plain_def spec_plain_def turn_ok_def abs_joined_def)
  next
    case (Some m)
    then show ?thesis using False by (auto simp: pop_plain_def spec_plain_def turn_ok_def Let_def abs_joined_def)
  qed
next
  case True
  let ?j = "spec_join (abs_joined df) msg"
  have used: "df_used df \<le> length (df_buf df)" using ok by (simp add: df_ok_def)
  have at: "join_at df + length (pm_payload msg) \<le> length (df_buf df)" using join_at_le [OF ok] fits used by linarith
  show ?thesis
  proof (cases "payload_size (snd ?j)")
    case (Inl e)
    then obtain df' where "join_payload df (pm_version msg) (pm_payload msg) fin False = Some (Inl e, df')"
      using join_payload_spec [OF ok at, of fin False] by auto
    then have "append_hs df (pm_version msg) (pm_payload msg) fin False = Some (Inl e, df')" by (simp add: append_hs_def)
    then show ?thesis using True Inl by (simp add: pop_plain_def spec_plain_def turn_ok_def)
  next
    case (Inr el)
    then obtain df' where a: "append_hs df (pm_version msg) (pm_payload msg) fin False =
          Some (Inr (case hs_complete (Some ?j) of Some len \<Rightarrow> HS_Complete len | None \<Rightarrow> if fin < df_used df then HS_Continue else HS_Blocked), df')"
        and df': "df_ok df'" "not_quic df'" "abs_joined df' = Some ?j" "abs_rest df' = drop (fin - df_start df) (abs_rest df)"
          "df_used df' = df_used df" "df_start df' = fin"
      using append_hs_refine [OF ok nq fits(1,2) Inr] by blast
    have sp: "spec_plain (abs_joined df) msg = SpecJoin (Some ?j)" using True Inr by (simp add: spec_plain_def)
    have blocked: "drop (fin - df_start df) (abs_rest df) = []" if "\<not> fin < df_used df"
      using that fits(2) df'(4-6) by (simp add: abs_rest_def [of df'])
    show ?thesis
    proof (cases "hs_complete (Some ?j)")
      case None
      then show ?thesis using True a df' sp sh spec_pop_empty [OF None, of rl] blocked
        by (cases "fin < df_used df") (simp_all add: pop_plain_def turn_ok_def)
    next
      case (Some len)
      then show ?thesis using True a df' sp by (simp add: pop_plain_def turn_ok_def)
    qed
  qed
qed

lemma pop_record_refine:
  assumes ok: "df_ok df" and nq: "not_quic df" and sh: "shrinks rl"
    and fits: "fin = df_start df + 5 + length (om_payload m)" "fin \<le> df_used df"
  shows "\<exists>ctl df' rl'. pop_record df rl m fin = Some (ctl, df', rl')
    \<and> turn_ok (case spec_record (abs_joined df) rl m of
          (SpecFail e, rl) \<Rightarrow> (Inl e, abs_joined df, abs_rest df, rl)
        | (SpecGive d, rl) \<Rightarrow> (Inr (Some d), abs_joined df, drop (fin - df_start df) (abs_rest df), rl)
        | (SpecJoin j, rl) \<Rightarrow> spec_pop j (drop (fin - df_start df) (abs_rest df)) rl) (ctl, df', rl')"
proof -
  have free: "\<exists>df'. df_discard df fin = Some df' \<and> df_ok df' \<and> df_joining df' = None \<and> abs_rest df' = drop fin (abs_rest df) \<and> df_start df = 0"
    if "df_joining df = None"
    using discard_refine [OF ok that fits(2)] that by (auto simp: df_start_def)
  show ?thesis
  proof (cases "om_typ m = CT_ChangeCipherSpec \<and> df_joining df = None")
    case True
    then show ?thesis using free by (auto simp: pop_record_def spec_record_def turn_ok_def abs_joined_def)
  next
    case False
    obtain res rl1 where d: "decrypt_incoming rl m = (res, rl1)" by force
    note shr = decrypt_incoming_shrinks [OF sh d]
    consider e where "res = Inl e" | "res = Inr None" | dec where "res = Inr (Some dec)"
      by (metis sum.exhaust option.exhaust)
    then show ?thesis
    proof cases
      case 1
      then show ?thesis using False d by (auto simp: pop_record_def spec_record_def turn_ok_def)
    next
      case 2
      then show ?thesis using False d free shr(1)
        by (cases "df_joining df") (auto simp: pop_record_def spec_record_def turn_ok_def Let_def abs_joined_def not_quic_def)
    next
      case (3 dec)
      have len: "length (pm_payload (plaintext dec)) \<le> length (om_payload m)" using shr(2) 3 by simp
      obtain ctl df' where "pop_plain df (plaintext dec) fin = Some (ctl, df')"
          and "turn_ok (case spec_plain (abs_joined df) (plaintext dec) of
              SpecFail e \<Rightarrow> (Inl e, abs_joined df, abs_rest df, rl1)
            | SpecGive d \<Rightarrow> (Inr (Some d), abs_joined df, drop (fin - df_start df) (abs_rest df), rl1)
            | SpecJoin j \<Rightarrow> spec_pop j (drop (fin - df_start df) (abs_rest df)) rl1) (ctl, df', rl1)"
        using pop_plain_refine [OF ok nq shr(1), of "plaintext dec" fin] len fits by auto
      then show ?thesis using False d 3 by (auto simp: pop_record_def spec_record_def)
    qed
  qed
qed

lemma pop_body_refine:
  assumes ok: "df_ok df" and sh: "shrinks rl"
  shows "\<exists>ctl df' rl'. pop_body df rl = Some (ctl, df', rl') \<and> turn_ok (spec_pop (abs_joined df) (abs_rest df) rl) (ctl, df', rl')"
proof -
  have complete: "hs_complete (abs_joined df) = (case df_joining df of
      Some m \<Rightarrow> (case hm_expected_len m of Some len \<Rightarrow> if len \<le> payload_len m then Some len else None | None \<Rightarrow> None) | None \<Rightarrow> None)"
    using ok payload_len_bytes [of _ "df_buf df"] by (auto simp: hs_complete_def abs_joined_def df_ok_def meta_ok_def split: option.splits)
  show ?thesis
  proof (cases "hs_complete (abs_joined df)")
    case (Some len)
    then have "loop_start df = StartBreak len" by (auto simp: complete loop_start_def split: option.splits if_splits)
    then show ?thesis using Some ok by (simp add: pop_body_def turn_ok_def)
  next
    case None
    show ?thesis
    proof (cases "not_quic df")
      case False
      then have "abs_rest df = []" using ok by (auto simp: not_quic_def df_ok_def meta_ok_def abs_rest_def df_start_def split: option.splits)
      moreover have "loop_start df = StartWait" using False None by (auto simp: complete loop_start_def not_quic_def split: option.splits if_splits)
      ultimately show ?thesis using ok spec_pop_empty [OF None] by (simp add: pop_body_def turn_ok_def)
    next
      case True
      then have start: "loop_start df = StartAt (df_start df)"
        using None by (auto simp: complete loop_start_def not_quic_def df_start_def split: option.splits if_splits)
      have bounds: "df_start df \<le> df_used df" "df_used df \<le> length (df_buf df)"
        using ok by (auto simp: df_ok_def meta_ok_def df_start_def split: option.splits)
      then have sl: "slice (df_buf df) (df_start df) (df_used df) = Some (abs_rest df)" by (simp add: slice_def abs_rest_def)
      have len: "length (abs_rest df) = df_used df - df_start df" using bounds by (simp add: abs_rest_def)
      obtain res rd where r: "opaque_read (rd_init (abs_rest df)) = (res, rd)" by force
      show ?thesis
      proof (cases res)
        case (Inl e)
        then have sp: "read_record_spec (abs_rest df) = Inl e"
          using opaque_read_spec(1) [of "rd_init (abs_rest df)"] r by (auto split: sum.splits)
        have "spec_pop (abs_joined df) (abs_rest df) rl =
            (case message_error e of None \<Rightarrow> Inr None | Some kind \<Rightarrow> Inl (E_InvalidMessage kind), abs_joined df, abs_rest df, rl)"
          using None sp by (simp add: spec_pop.simps)
        then show ?thesis using start sl r Inl ok by (auto simp: pop_body_def turn_ok_def Let_def split: option.split)
      next
        case (Inr m)
        note used = opaque_read_used [OF r [unfolded Inr]]
        have sp: "spec_pop (abs_joined df) (abs_rest df) rl = (case spec_record (abs_joined df) rl m of
            (SpecFail e, rl) \<Rightarrow> (Inl e, abs_joined df, abs_rest df, rl)
          | (SpecGive d, rl) \<Rightarrow> (Inr (Some d), abs_joined df, drop (rd_used rd) (abs_rest df), rl)
          | (SpecJoin j, rl) \<Rightarrow> spec_pop j (drop (rd_used rd) (abs_rest df)) rl)"
          using None used(1) by (simp add: spec_pop.simps [of "abs_joined df"])
        have fin: "df_start df + rd_used rd = df_start df + 5 + length (om_payload m)" "df_start df + rd_used rd \<le> df_used df"
          using used(3,4) len bounds by simp_all
        have "pop_body df rl = pop_record df rl m (df_start df + rd_used rd)" using start sl r Inr by (simp add: pop_body_def)
        then show ?thesis using pop_record_refine [OF ok True sh fin] by (simp only: sp add_diff_cancel_left')
      qed
    qed
  qed
qed

section \<open>The whole of \<^verbatim>\<open>pop\<close>\<close>

lemma pop_loop_refine:
  assumes "df_ok df" and "shrinks rl"
  shows "\<exists>ctl df' rl'. pop_loop df rl = Some (ctl, df', rl') \<and> ctl \<noteq> LoopContinue
    \<and> turn_ok (spec_pop (abs_joined df) (abs_rest df) rl) (ctl, df', rl')"
  using assms
proof (induction df rl rule: pop_loop.induct)
  case (1 df rl)
  obtain ctl df' rl' where b: "pop_body df rl = Some (ctl, df', rl')" and t: "turn_ok (spec_pop (abs_joined df) (abs_rest df) rl) (ctl, df', rl')"
    using pop_body_refine [OF 1(2,3)] by blast
  show ?case
  proof (cases "ctl = LoopContinue")
    case False
    then show ?thesis using b t by (subst pop_loop.simps) (auto split: LoopCtl.split)
  next
    case True
    then have t': "df_ok df'" "shrinks rl'" "spec_pop (abs_joined df) (abs_rest df) rl = spec_pop (abs_joined df') (abs_rest df') rl'"
      using t by (simp_all add: turn_ok_def)
    have "pop_loop df rl = pop_loop df' rl'" using b True by (subst pop_loop.simps) simp
    moreover have "\<exists>ctl df'' rl''. pop_loop df' rl' = Some (ctl, df'', rl'') \<and> ctl \<noteq> LoopContinue
        \<and> turn_ok (spec_pop (abs_joined df') (abs_rest df') rl') (ctl, df'', rl'')"
      using 1(1) b True t' by blast
    ultimately show ?thesis using t'(3) by simp
  qed
qed

lemma pop_finish_refine:
  assumes ok: "df_ok df" and len: "hs_complete (abs_joined df) = Some len" and sp: "spec_deliver (abs_joined df) len = (res, j)"
  shows "\<exists>df'. pop_finish df len = Some (res, df') \<and> (\<forall>x. res = Inr x \<longrightarrow> df_ok df' \<and> abs_joined df' = j \<and> abs_rest df' = abs_rest df)"
proof -
  obtain m where m: "df_joining df = Some m" using len by (cases "df_joining df") (auto simp: hs_complete_def abs_joined_def)
  let ?bs = "meta_bytes (df_buf df) m"
  let ?msg = "\<lparr>pm_typ = CT_Handshake, pm_version = hm_version m, pm_payload = take len ?bs\<rparr>"
  have mok: "hm_payload_start m \<le> hm_payload_end m" "hm_payload_end m \<le> hm_message_end m" "hm_message_end m \<le> df_used df"
      "df_used df \<le> length (df_buf df)" "hm_quic m \<longrightarrow> hm_message_end m = df_used df" "df_last_error df = None"
    using ok m by (simp_all add: df_ok_def meta_ok_def)
  have blen: "length ?bs = payload_len m" using payload_len_bytes [of m "df_buf df"] mok by simp
  have le: "len \<le> length ?bs" using len m by (auto simp: hs_complete_def abs_joined_def split: sum.splits option.splits if_splits)
  have end_le: "hm_payload_start m + len \<le> hm_payload_end m" using le blen mok(1) by (simp add: payload_len_def)
  have sl: "slice (df_buf df) (hm_payload_start m) (hm_payload_start m + len) = Some (take len ?bs)"
    using end_le mok by (simp add: slice_def meta_bytes_def min_def)
  show ?thesis
  proof (cases "len < length ?bs")
    case True
    let ?m = "m\<lparr>hm_payload_start := hm_payload_start m + len\<rparr>"
    have rest: "meta_bytes (df_buf df) (?m\<lparr>hm_expected_len := el\<rparr>) = drop len ?bs" for el
      by (simp add: meta_bytes_def drop_take add.commute)
    have sl': "slice (df_buf df) (hm_payload_start m + len) (hm_payload_end m) = Some (drop len ?bs)"
      using end_le mok by (simp add: slice_def meta_bytes_def drop_take add.commute)
    show ?thesis
    proof (cases "payload_size (drop len ?bs)")
      case (Inl e)
      then show ?thesis using sp m sl sl' True blen by (auto simp: spec_deliver_def abs_joined_def pop_finish_def Let_def)
    next
      case (Inr el)
      let ?df = "df\<lparr>df_joining := Some (?m\<lparr>hm_expected_len := el\<rparr>)\<rparr>"
      have fin: "pop_finish df len = Some (Inr (Some (deframed False True ?msg)), ?df)"
        using Inr m sl sl' True blen by (simp add: pop_finish_def Let_def)
      have "df_ok ?df" using mok end_le Inr rest [of el] by (simp add: df_ok_def meta_ok_def)
      moreover have "abs_joined ?df = Some (hm_version m, drop len ?bs)" using rest [of el] by (simp add: abs_joined_def)
      moreover have "abs_rest ?df = abs_rest df" using m by (simp add: abs_rest_def df_start_def)
      moreover have "res = Inr (Some (deframed False True ?msg)) \<and> j = Some (hm_version m, drop len ?bs)"
        using sp m True Inr by (simp add: spec_deliver_def abs_joined_def)
      ultimately show ?thesis using fin by simp
    qed
  next
    case False
    let ?df = "df\<lparr>df_joining := None\<rparr>"
    have "df_ok ?df" using mok by (simp add: df_ok_def)
    then obtain df' where d: "df_discard ?df (hm_message_end m) = Some df'" "df_ok df'" "df_joining df' = None"
        "abs_rest df' = drop (hm_message_end m) (abs_rest ?df)"
      using discard_refine [of ?df "hm_message_end m"] mok(3) by auto
    have "abs_rest df' = abs_rest df" using d(4) m by (simp add: abs_rest_def df_start_def drop_take)
    moreover have "res = Inr (Some (deframed True True ?msg)) \<and> j = None" using sp m False by (simp add: spec_deliver_def abs_joined_def)
    moreover have "pop_finish df len = Some (Inr (Some (deframed True True ?msg)), df')"
      using m sl False blen d(1) by (simp add: pop_finish_def Let_def)
    ultimately show ?thesis using d by simp
  qed
qed

lemma pop_refine:
  assumes ok: "df_ok df" and sh: "shrinks rl"
  shows "\<exists>res df' rl'. pop df rl = Some (res, df', rl') \<and> res = fst (spec_pop (abs_joined df) (abs_rest df) rl)
    \<and> (\<forall>x. res = Inr x \<longrightarrow> df_ok df' \<and> spec_pop (abs_joined df) (abs_rest df) rl = (res, abs_joined df', abs_rest df', rl'))"
proof (cases "df_used df = 0")
  case True
  have bytes: "hs_complete (abs_joined df) = None"
    using ok True by (auto simp: hs_complete_def abs_joined_def df_ok_def meta_ok_def meta_bytes_def payload_size_eq split: option.splits)
  have "abs_rest df = []" using True by (simp add: abs_rest_def)
  then show ?thesis using spec_pop_empty [OF bytes] True ok by (simp add: pop_def df_ok_def)
next
  case False
  obtain ctl df1 rl1 where l: "pop_loop df rl = Some (ctl, df1, rl1)" "ctl \<noteq> LoopContinue"
      and t: "turn_ok (spec_pop (abs_joined df) (abs_rest df) rl) (ctl, df1, rl1)"
    using pop_loop_refine [OF assms] by blast
  have p: "pop df rl = (case ctl of LoopReturn res \<Rightarrow> Some (res, df1, rl1)
      | LoopBreak len \<Rightarrow> map_option (\<lambda>(res, df). (res, df, rl1)) (pop_finish df1 len) | LoopContinue \<Rightarrow> None)"
    using ok False l(1) by (simp add: pop_def df_ok_def split: LoopCtl.split)
  show ?thesis
  proof (cases ctl)
    case (LoopReturn res)
    then show ?thesis using p t by (cases res) (auto simp: turn_ok_def)
  next
    case (LoopBreak len)
    then have b: "df_ok df1" "hs_complete (abs_joined df1) = Some len"
        "spec_pop (abs_joined df) (abs_rest df) rl = spec_pop (abs_joined df1) (abs_rest df1) rl1"
      using t by (simp_all add: turn_ok_def)
    obtain res j where d: "spec_deliver (abs_joined df1) len = (res, j)" by force
    have "spec_pop (abs_joined df1) (abs_rest df1) rl1 = (res, j, abs_rest df1, rl1)" using b(2) d by (simp add: spec_pop.simps)
    then show ?thesis using pop_finish_refine [OF b(1,2) d] p LoopBreak b(3) by auto
  qed (use l in simp)
qed

end
