(* ===== verification/Tls_Deframer_Props.thy ===== *)
theory Tls_Deframer_Props
  imports Tls_Deframer_Correct
begin

text \<open>
  What the refinement gives: reading from the socket appends to the unparsed bytes, the messages delivered depend on the
  bytes received and not on how they arrive, a fragmented handshake message comes out whole, and the buffer is bounded.
\<close>

section \<open>Filling the buffer\<close>

lemma abs_cong:
  assumes "df_ok df" and "take (df_used df) buf = take (df_used df) (df_buf df)" and "df_used df \<le> length buf"
  shows "df_ok (df\<lparr>df_buf := buf\<rparr>)" and "abs_joined (df\<lparr>df_buf := buf\<rparr>) = abs_joined df" and "abs_rest (df\<lparr>df_buf := buf\<rparr>) = abs_rest df"
proof -
  have window: "take (b - a) (drop a buf) = take (b - a) (drop a (df_buf df))" if "b \<le> df_used df" for a b
  proof -
    have "take (b - a) (drop a xs) = drop a (take b (take (df_used df) xs))" for xs :: "u8 list"
      using that by (simp add: drop_take min_def)
    then show ?thesis using assms(2) by metis
  qed
  have meta: "meta_bytes buf m = meta_bytes (df_buf df) m" if "df_joining df = Some m" for m
    using assms(1) that by (auto simp: meta_bytes_def df_ok_def meta_ok_def intro!: window)
  show "df_ok (df\<lparr>df_buf := buf\<rparr>)" "abs_joined (df\<lparr>df_buf := buf\<rparr>) = abs_joined df"
    using assms(1,3) meta by (auto simp: df_ok_def meta_ok_def abs_joined_def split: option.splits)
  show "abs_rest (df\<lparr>df_buf := buf\<rparr>) = abs_rest df" by (simp add: abs_rest_def df_start_def window split: option.split)
qed

lemma MAX_WIRE_SIZE_eq: "MAX_WIRE_SIZE = 18437"
  by (simp add: MAX_WIRE_SIZE_def MAX_PAYLOAD_def OM_HEADER_SIZE_def)

definition allow_max :: "MessageDeframer \<Rightarrow> nat" where
  "allow_max df = (case df_joining df of Some _ \<Rightarrow> 65535 | None \<Rightarrow> 18437)"

lemma prepare_read_spec:
  assumes "df_used df \<le> length (df_buf df)"
  shows "case prepare_read df of
      (Inl e, df') \<Rightarrow> allow_max df \<le> df_used df \<and> df' = df
    | (Inr _, df') \<Rightarrow> df_used df < allow_max df
        \<and> (\<exists>buf. df' = df\<lparr>df_buf := buf\<rparr> \<and> take (df_used df) buf = take (df_used df) (df_buf df)
             \<and> min (allow_max df) (df_used df + 4096) \<le> length buf \<and> length buf \<le> allow_max df
             \<and> (df_used df = 0 \<longrightarrow> length buf = 4096))"
proof -
  have mx: "(case df_joining df of Some _ \<Rightarrow> unat MAX_HANDSHAKE_SIZE | None \<Rightarrow> MAX_WIRE_SIZE) = allow_max df"
    by (simp add: allow_max_def MAX_WIRE_SIZE_eq MAX_HANDSHAKE_SIZE_def split: option.split)
  have big: "4096 < allow_max df" by (simp add: allow_max_def split: option.split)
  show ?thesis
  proof (cases "allow_max df \<le> df_used df")
    case True
    then show ?thesis by (simp add: prepare_read_def mx Let_def)
  next
    case False
    define n where "n = min (allow_max df) (df_used df + 4096)"
    define buf where "buf = take n (df_buf df) @ replicate (n - length (df_buf df)) 0"
    have n: "df_used df < n" "n \<le> allow_max df" "df_used df = 0 \<Longrightarrow> n = 4096" using False big by (auto simp: n_def)
    have len: "length buf = n" by (simp add: buf_def)
    have pre: "take (df_used df) buf = take (df_used df) (df_buf df)" using n(1) assms by (simp add: buf_def min_def)
    have prep: "prepare_read df = (if length (df_buf df) < n \<or> df_used df = 0 \<or> allow_max df < length (df_buf df)
        then (Inr (), df\<lparr>df_buf := buf\<rparr>) else (Inr (), df))"
      unfolding prepare_read_def mx Let_def READ_SIZE_def n_def [symmetric] buf_def [symmetric] using False by simp
    show ?thesis
    proof (cases "length (df_buf df) < n \<or> df_used df = 0 \<or> allow_max df < length (df_buf df)")
      case True
      then have p: "prepare_read df = (Inr (), df\<lparr>df_buf := buf\<rparr>)" using prep by simp
      show ?thesis unfolding p n_def [symmetric] using False pre len n by auto
    next
      case same: False
      then have p: "prepare_read df = (Inr (), df)" using prep by simp
      show ?thesis unfolding p n_def [symmetric] prod.case sum.case
        using False same by (auto intro!: exI [of _ "df_buf df"])
    qed
  qed
qed

text \<open>The contract of \<^verbatim>\<open>io::Read::read\<close>: it puts no more bytes than the slice holds.\<close>

definition fair_read :: "(nat \<Rightarrow> 'e + u8 list) \<Rightarrow> bool" where
  "fair_read rd \<longleftrightarrow> (\<forall>n bs. rd n = Inr bs \<longrightarrow> length bs \<le> n)"

lemma df_read_refine:
  assumes ok: "df_ok df" and nq: "not_quic df" and rd: "fair_read rd"
  shows "\<exists>res df'. df_read f rd df = Some (res, df') \<and> df_ok df' \<and> not_quic df' \<and> abs_joined df' = abs_joined df
    \<and> length (df_buf df') \<le> max (length (df_buf df)) 65535
    \<and> (case res of Inl e \<Rightarrow> abs_rest df' = abs_rest df
       | Inr k \<Rightarrow> df_used df' = df_used df + k \<and> abs_rest df' = abs_rest df @ take k (drop (df_used df) (df_buf df')))"
proof -
  have used: "df_used df \<le> length (df_buf df)" using ok by (simp add: df_ok_def)
  obtain pr df1 where p: "prepare_read df = (pr, df1)" by force
  show ?thesis
  proof (cases pr)
    case (Inl e)
    then have "df1 = df" using prepare_read_spec [OF used] p by simp
    then show ?thesis using p Inl ok nq by (simp add: df_read_def)
  next
    case (Inr u)
    then obtain buf where b: "df1 = df\<lparr>df_buf := buf\<rparr>" "take (df_used df) buf = take (df_used df) (df_buf df)" "df_used df < allow_max df"
        "min (allow_max df) (df_used df + 4096) \<le> length buf" "length buf \<le> allow_max df"
      using prepare_read_spec [OF used] p by auto
    have ub: "df_used df \<le> length buf" using b(3,4) by simp
    note c = abs_cong [OF ok b(2) ub]
    have max: "length buf \<le> 65535" using b(5) by (simp add: allow_max_def split: option.splits)
    have sl: "slice buf (df_used df) (length buf) = Some (drop (df_used df) buf)" using ub by (simp add: slice_def)
    show ?thesis
    proof (cases "rd (length buf - df_used df)")
      case (Inl e)
      then show ?thesis using p Inr b(1) sl c nq max by (simp add: df_read_def not_quic_def)
    next
      case ok2: (Inr bs)
      have fits: "df_used df + length bs \<le> length buf" using rd ok2 ub by (fastforce simp: fair_read_def)
      let ?buf = "overwrite buf (df_used df) bs"
      let ?df = "df\<lparr>df_buf := ?buf, df_used := df_used df + length bs\<rparr>"
      have read: "df_read f rd df = Some (Inr (length bs), ?df)" using p Inr b(1) sl ok2 by (simp add: df_read_def)
      have len: "length ?buf = length buf" using fits by simp
      have "take (df_used df) ?buf = take (df_used df) buf" using ub by (simp add: overwrite_def)
      then have keep: "df_ok (df\<lparr>df_buf := ?buf\<rparr>)" "abs_joined (df\<lparr>df_buf := ?buf\<rparr>) = abs_joined df" "abs_rest (df\<lparr>df_buf := ?buf\<rparr>) = abs_rest df"
        using abs_cong [OF ok, of ?buf] b(2) ub len by auto
      have ok': "df_ok ?df" using keep(1) fits len nq by (auto simp: df_ok_def meta_ok_def not_quic_def split: option.splits)
      have start: "df_start df \<le> df_used df" using ok by (auto simp: df_start_def df_ok_def meta_ok_def split: option.splits)
      have got: "take (length bs) (drop (df_used df) ?buf) = bs" using ub by (simp add: overwrite_def)
      have "abs_rest ?df = take (df_used df + length bs - df_start df) (drop (df_start df) ?buf)" by (simp add: abs_rest_def df_start_def)
      also have "\<dots> = take (df_used df - df_start df) (drop (df_start df) buf) @ bs" using window_overwrite [OF start fits] .
      also have "take (df_used df - df_start df) (drop (df_start df) buf) = abs_rest df" using c(3) by (simp add: abs_rest_def df_start_def)
      finally have "abs_rest ?df = abs_rest df @ bs" .
      moreover have "abs_joined ?df = abs_joined df" using keep(2) by (simp add: abs_joined_def)
      ultimately show ?thesis using read ok' nq max len got by (auto simp: not_quic_def)
    qed
  qed
qed

section \<open>The stream of messages\<close>

text \<open>More bytes behind the unparsed ones change nothing about what is delivered from those before them.\<close>

lemma message_error_None: "message_error e = None \<longleftrightarrow> e = ME_TooShortForHeader \<or> e = ME_TooShortForLength"
  by (cases e) auto

lemma spec_pop_append:
  assumes "spec_pop j rest rl = (res, j', rest', rl')"
  shows "case res of
      Inl e \<Rightarrow> fst (spec_pop j (rest @ later) rl) = Inl e
    | Inr (Some d) \<Rightarrow> spec_pop j (rest @ later) rl = (Inr (Some d), j', rest' @ later, rl')
    | Inr None \<Rightarrow> spec_pop j (rest @ later) rl = spec_pop j' (rest' @ later) rl'"
  using assms
proof (induction j rest rl rule: spec_pop.induct)
  case (1 j rest rl)
  show ?case
  proof (cases "hs_complete j")
    case (Some len)
    then obtain v bs where j: "j = Some (v, bs)" by (auto simp: hs_complete_def split: option.splits)
    have "spec_pop j (rest @ later) rl = (res, j', rest @ later, rl)" "rest' = rest" "rl' = rl" "res \<noteq> Inr None"
      using Some 1(2) by (auto simp: spec_pop.simps j spec_deliver_def Let_def split: prod.splits sum.splits if_splits)
    then show ?thesis by (auto split: sum.split option.split)
  next
    case None
    show ?thesis
    proof (cases "read_record_spec rest")
      case (Inl e)
      show ?thesis
      proof (cases "message_error e")
        case short: None
        then have "res = Inr None" "j' = j" "rest' = rest" "rl' = rl" using None Inl 1(2) by (auto simp: spec_pop.simps [of j rest])
        then show ?thesis by simp
      next
        case (Some k)
        then have "read_record_spec (rest @ later) = Inl e"
          using read_record_spec_append [of rest later] Inl message_error_None [of e] by auto
        then have "fst (spec_pop j (rest @ later) rl) = Inl (E_InvalidMessage k)" using None Some by (simp add: spec_pop.simps)
        moreover have "res = Inl (E_InvalidMessage k)" using None Inl Some 1(2) by (simp add: spec_pop.simps)
        ultimately show ?thesis by simp
      qed
    next
      case (Inr mn)
      then obtain m n where mn: "read_record_spec rest = Inr (m, n)" by (cases mn) simp
      then have app: "read_record_spec (rest @ later) = Inr (m, n)" using read_record_spec_append [of rest later] by simp
      have dr: "drop n (rest @ later) = drop n rest @ later" using read_record_spec_len [OF mn] by simp
      obtain ctl rl1 where c: "spec_record j rl m = (ctl, rl1)" by force
      show ?thesis
      proof (cases ctl)
        case (SpecJoin j1)
        have eqs: "spec_pop j (rest @ later) rl = spec_pop j1 (drop n rest @ later) rl1" "spec_pop j rest rl = spec_pop j1 (drop n rest) rl1"
          using None mn app dr c SpecJoin by (simp_all add: spec_pop.simps [of j])
        have "spec_pop j1 (drop n rest) rl1 = (res, j', rest', rl')" using 1(2) eqs(2) by simp
        from 1(1) [OF None mn refl c [unfolded SpecJoin, symmetric] refl this] show ?thesis unfolding eqs(1) .
      qed (use None mn app dr c 1(2) in \<open>auto simp: spec_pop.simps\<close>)
    qed
  qed
qed

text \<open>Draining the deframer: popping until it waits for more input. After each message the connection may change the
  keys of the record layer; \<open>upd\<close> is what it does.\<close>

type_synonym deframe_state = "joined \<times> u8 list \<times> RecordLayer"

inductive drains :: "(Deframed \<Rightarrow> RecordLayer \<Rightarrow> RecordLayer) \<Rightarrow> deframe_state \<Rightarrow> Deframed list \<Rightarrow> deframe_state \<Rightarrow> bool" for upd where
  drains_wait: "spec_pop j rest rl = (Inr None, st) \<Longrightarrow> drains upd (j, rest, rl) [] st"
| drains_more: "spec_pop j rest rl = (Inr (Some d), j', rest', rl') \<Longrightarrow> drains upd (j', rest', upd d rl') ds st
    \<Longrightarrow> drains upd (j, rest, rl) (d # ds) st"

inductive_cases drains_cases: "drains upd (j, rest, rl) ds st"

lemma drains_same: "spec_pop j rest rl = spec_pop j' rest' rl' \<Longrightarrow> drains upd (j, rest, rl) ds st \<Longrightarrow> drains upd (j', rest', rl') ds st"
  by (erule drains_cases) (metis drains.intros)+

lemma drains_fun: "drains upd st ds st1 \<Longrightarrow> drains upd st ds' st2 \<Longrightarrow> ds' = ds \<and> st2 = st1"
proof (induction arbitrary: ds' rule: drains.induct)
  case (drains_wait j rest rl st)
  from drains_wait.prems drains_wait.hyps show ?case by cases simp_all
next
  case (drains_more j rest rl d j' rest' rl' ds st)
  from drains_more.prems show ?case
  proof cases
    case drains_wait
    then show ?thesis using drains_more.hyps(1) by simp
  next
    case (drains_more d1 j1 rest1 rl1 ds1)
    then show ?thesis using drains_more.hyps(1) drains_more.IH [of ds1] by simp
  qed
qed

text \<open>A run of the deframer: the bytes received, the messages delivered, and the state; reads and pops in any order.\<close>

inductive df_run :: "(Deframed \<Rightarrow> RecordLayer \<Rightarrow> RecordLayer) \<Rightarrow> RecordLayer \<Rightarrow> u8 list \<Rightarrow> Deframed list \<Rightarrow> MessageDeframer \<Rightarrow> RecordLayer \<Rightarrow> bool"
  for upd rl0 where
  df_run_new: "df_run upd rl0 [] [] df_new rl0"
| df_run_read: "df_run upd rl0 bs ds df rl \<Longrightarrow> fair_read rd \<Longrightarrow> df_read (\<lambda>e. e) rd df = Some (Inr k, df')
    \<Longrightarrow> df_run upd rl0 (bs @ take k (drop (df_used df) (df_buf df'))) ds df' rl"
| df_run_wait: "df_run upd rl0 bs ds df rl \<Longrightarrow> pop df rl = Some (Inr None, df', rl') \<Longrightarrow> df_run upd rl0 bs ds df' rl'"
| df_run_pop: "df_run upd rl0 bs ds df rl \<Longrightarrow> pop df rl = Some (Inr (Some d), df', rl') \<Longrightarrow> df_run upd rl0 bs (ds @ [d]) df' (upd d rl')"

text \<open>The state of a run stands for the bytes received: whatever arrives later, draining from here after the messages delivered
  so far is draining everything from the start.\<close>

definition run_inv :: "(Deframed \<Rightarrow> RecordLayer \<Rightarrow> RecordLayer) \<Rightarrow> RecordLayer \<Rightarrow> u8 list \<Rightarrow> Deframed list \<Rightarrow> MessageDeframer \<Rightarrow> RecordLayer \<Rightarrow> bool" where
  "run_inv upd rl0 bs ds df rl \<longleftrightarrow> df_ok df \<and> not_quic df \<and> shrinks rl
     \<and> (\<forall>later ds' st. drains upd (abs_joined df, abs_rest df @ later, rl) ds' st \<longrightarrow> drains upd (None, bs @ later, rl0) (ds @ ds') st)"

lemma discard_joining: "df_discard df n = Some df' \<Longrightarrow> df_joining df' = df_joining df"
  by (auto simp: df_discard_def split: if_splits bind_splits)

lemma not_quic_set_err: "not_quic (set_err df e) = not_quic df"
  by (simp add: not_quic_def set_err_def)

lemma append_hs_not_quic: "append_hs df v p fin False = Some (r, df') \<Longrightarrow> not_quic df \<Longrightarrow> not_quic df'"
  by (auto simp: append_hs_def join_payload_def not_quic_def Let_def split: option.splits sum.splits if_splits bind_splits)

lemma pop_body_not_quic:
  assumes "pop_body df rl = Some (ctl, df', rl')" and "not_quic df"
  shows "not_quic df'"
proof -
  have "not_quic df'" if "df_discard df n = Some df'" for n using that assms(2) discard_joining by (simp add: not_quic_def)
  moreover have "not_quic df'" if "append_hs df v p fin False = Some (r, df')" for v p fin r using append_hs_not_quic [OF that assms(2)] .
  ultimately show ?thesis
    using assms
    by (auto simp: pop_body_def pop_record_def pop_plain_def Let_def not_quic_set_err
      split: StartCtl.splits option.splits sum.splits prod.splits if_splits bind_splits)
qed

lemma pop_loop_not_quic: "pop_loop df rl = Some (ctl, df', rl') \<Longrightarrow> not_quic df \<Longrightarrow> not_quic df'"
proof (induction df rl rule: pop_loop.induct)
  case (1 df rl)
  obtain c1 df1 rl1 where b: "pop_body df rl = Some (c1, df1, rl1)" using 1(2) by (cases "pop_body df rl") (auto simp: pop_loop.simps)
  have nq: "not_quic df1" by (rule pop_body_not_quic [OF b 1(3)])
  show ?case
  proof (cases "c1 = LoopContinue")
    case True
    then have "pop_loop df1 rl1 = Some (ctl, df', rl')" using 1(2) b by (simp add: pop_loop.simps [of df])
    then show ?thesis using 1(1) b True nq by blast
  next
    case False
    then show ?thesis using 1(2) b nq by (cases c1) (auto simp: pop_loop.simps [of df])
  qed
qed

lemma pop_finish_not_quic: "pop_finish df len = Some (r, df') \<Longrightarrow> not_quic df \<Longrightarrow> not_quic df'"
  by (auto simp: pop_finish_def not_quic_def Let_def dest!: discard_joining split: option.splits sum.splits if_splits bind_splits)

lemma pop_not_quic:
  assumes "pop df rl = Some (r, df', rl')" and "not_quic df"
  shows "not_quic df'"
proof (cases "df_last_error df = None \<and> df_used df \<noteq> 0")
  case True
  then obtain ctl df1 rl1 where l: "pop_loop df rl = Some (ctl, df1, rl1)" using assms(1) by (cases "pop_loop df rl") (auto simp: pop_def)
  have "not_quic df1" by (rule pop_loop_not_quic [OF l assms(2)])
  then show ?thesis using assms(1) True l by (cases ctl) (auto simp: pop_def elim: pop_finish_not_quic)
qed (use assms in \<open>auto simp: pop_def split: option.splits\<close>)

lemma spec_pop_shrinks: "spec_pop j rest rl = (res, j', rest', rl') \<Longrightarrow> shrinks rl \<Longrightarrow> shrinks rl'"
proof (induction j rest rl rule: spec_pop.induct)
  case (1 j rest rl)
  have rec: "shrinks rl1" if "spec_record j rl m = (c, rl1)" for m c rl1
    using that 1(3) decrypt_incoming_shrinks(1) [OF 1(3)] by (auto simp: spec_record_def split: if_splits prod.splits sum.splits option.splits)
  show ?case
  proof (cases "hs_complete j = None \<and> (\<exists>m n j1 rl1. read_record_spec rest = Inr (m, n) \<and> spec_record j rl m = (SpecJoin j1, rl1))")
    case True
    then obtain m n j1 rl1 where c: "hs_complete j = None" "read_record_spec rest = Inr (m, n)" "spec_record j rl m = (SpecJoin j1, rl1)" by blast
    then have "spec_pop j1 (drop n rest) rl1 = (res, j', rest', rl')" using 1(2) by (simp add: spec_pop.simps [of j])
    from 1(1) [OF c(1,2) refl c(3) [symmetric] refl this rec [OF c(3)]] show ?thesis .
  next
    case False
    then show ?thesis
      using 1(2,3) rec by (auto simp: spec_pop.simps [of j] split: option.splits sum.splits prod.splits SpecCtl.splits)
  qed
qed

lemma pop_step:
  assumes "df_ok df" and "shrinks rl" and "not_quic df" and "pop df rl = Some (Inr x, df', rl')"
  shows "not_quic df'" and "shrinks rl'" and "df_ok df'" and "spec_pop (abs_joined df) (abs_rest df) rl = (Inr x, abs_joined df', abs_rest df', rl')"
proof -
  show "df_ok df'" and sp: "spec_pop (abs_joined df) (abs_rest df) rl = (Inr x, abs_joined df', abs_rest df', rl')"
  proof -
    obtain res df1 rl1 where r: "pop df rl = Some (res, df1, rl1)"
        and x: "\<forall>x. res = Inr x \<longrightarrow> df_ok df1 \<and> spec_pop (abs_joined df) (abs_rest df) rl = (res, abs_joined df1, abs_rest df1, rl1)"
      using pop_refine [OF assms(1,2)] by blast
    have "res = Inr x" "df1 = df'" "rl1 = rl'" using r assms(4) by simp_all
    then show "df_ok df'" "spec_pop (abs_joined df) (abs_rest df) rl = (Inr x, abs_joined df', abs_rest df', rl')" using x by blast+
  qed
  show "shrinks rl'" by (rule spec_pop_shrinks [OF sp assms(2)])
  show "not_quic df'" by (rule pop_not_quic [OF assms(4,3)])
qed

lemma df_run_inv:
  assumes "df_run upd rl0 bs ds df rl" and "shrinks rl0" and "\<And>d rl. shrinks rl \<Longrightarrow> shrinks (upd d rl)"
  shows "run_inv upd rl0 bs ds df rl"
  using assms(1)
proof (induction rule: df_run.induct)
  case df_run_new
  then show ?case using assms(2) by (simp add: run_inv_def df_new_def df_ok_def not_quic_def abs_joined_def abs_rest_def)
next
  case (df_run_read bs ds df rl rd k df')
  then have inv: "df_ok df" "not_quic df" "shrinks rl" by (simp_all add: run_inv_def)
  have "df_ok df'" "not_quic df'" "abs_joined df' = abs_joined df" "abs_rest df' = abs_rest df @ take k (drop (df_used df) (df_buf df'))"
    using df_read_refine [OF inv(1,2) df_run_read.hyps(2), of "\<lambda>e. e"] df_run_read.hyps(3) by auto
  then show ?case using df_run_read.IH inv(3) by (simp add: run_inv_def)
next
  case (df_run_wait bs ds df rl df' rl')
  then have inv: "df_ok df" "shrinks rl" "not_quic df" by (simp_all add: run_inv_def)
  note st = pop_step [OF inv df_run_wait.hyps(2)]
  have "spec_pop (abs_joined df) (abs_rest df @ later) rl = spec_pop (abs_joined df') (abs_rest df' @ later) rl'" for later
    using spec_pop_append [OF st(4)] by simp
  then show ?case using df_run_wait.IH st drains_same unfolding run_inv_def by metis
next
  case (df_run_pop bs ds df rl d df' rl')
  then have inv: "df_ok df" "shrinks rl" "not_quic df" by (simp_all add: run_inv_def)
  note st = pop_step [OF inv df_run_pop.hyps(2)]
  have "drains upd (abs_joined df, abs_rest df @ later, rl) (d # ds') fin"
    if "drains upd (abs_joined df', abs_rest df' @ later, upd d rl') ds' fin" for later ds' fin
    using spec_pop_append [OF st(4), of later] that by (auto intro: drains_more)
  then show ?case using df_run_pop.IH st assms(3) unfolding run_inv_def by simp
qed

end
