(* ===== verification/Tls_Deframer_Thms.thy ===== *)
theory Tls_Deframer_Thms
  imports Tls_Deframer_Props
begin

text \<open>
  The properties of the deframer: refinement without panic, independence of how the bytes arrive, the round trip with the
  fragmenter, the bound on the buffer, and the behaviour of pushing QUIC handshake data.
\<close>

section \<open>The buffer does not grow\<close>

lemma discard_length: "df_discard df n = Some df' \<Longrightarrow> length (df_buf df') = length (df_buf df)"
  by (auto simp: df_discard_def slice_def split: if_splits bind_splits)

lemma copy_in_length: "copy_in buf at bs = Some buf' \<Longrightarrow> length buf' = length buf"
  by (auto simp: copy_in_def slice_def split: bind_splits if_splits)

lemma append_hs_length: "append_hs df v p fin q = Some (r, df') \<Longrightarrow> length (df_buf df') = length (df_buf df)"
  by (auto simp: append_hs_def join_payload_def Let_def dest!: copy_in_length split: option.splits sum.splits if_splits bind_splits)

lemma pop_body_length: "pop_body df rl = Some (ctl, df', rl') \<Longrightarrow> length (df_buf df') = length (df_buf df)"
  by (auto simp: pop_body_def pop_record_def pop_plain_def Let_def set_err_def dest!: discard_length append_hs_length
    split: StartCtl.splits option.splits sum.splits prod.splits if_splits bind_splits)

lemma pop_loop_length: "pop_loop df rl = Some (ctl, df', rl') \<Longrightarrow> length (df_buf df') = length (df_buf df)"
proof (induction df rl rule: pop_loop.induct)
  case (1 df rl)
  obtain c1 df1 rl1 where b: "pop_body df rl = Some (c1, df1, rl1)" using 1(2) by (cases "pop_body df rl") (auto simp: pop_loop.simps)
  show ?case
  proof (cases "c1 = LoopContinue")
    case True
    then have "pop_loop df1 rl1 = Some (ctl, df', rl')" using 1(2) b by (simp add: pop_loop.simps [of df])
    then have "length (df_buf df') = length (df_buf df1)" using 1(1) b True by blast
    then show ?thesis using pop_body_length [OF b] by simp
  next
    case False
    then show ?thesis using 1(2) b pop_body_length [OF b] by (cases c1) (auto simp: pop_loop.simps [of df])
  qed
qed

lemma pop_finish_length: "pop_finish df len = Some (r, df') \<Longrightarrow> length (df_buf df') = length (df_buf df)"
  by (auto simp: pop_finish_def Let_def dest!: discard_length split: option.splits sum.splits if_splits bind_splits)

lemma pop_length:
  assumes "pop df rl = Some (r, df', rl')"
  shows "length (df_buf df') = length (df_buf df)"
proof (cases "df_last_error df = None \<and> df_used df \<noteq> 0")
  case True
  then obtain ctl df1 rl1 where l: "pop_loop df rl = Some (ctl, df1, rl1)" using assms by (cases "pop_loop df rl") (auto simp: pop_def)
  show ?thesis using pop_loop_length [OF l] assms True l by (cases ctl) (auto simp: pop_def dest: pop_finish_length)
qed (use assms in \<open>auto simp: pop_def split: option.splits\<close>)

lemma df_run_bound:
  assumes "df_run upd rl0 bs ds df rl" and "shrinks rl0" and "\<And>d rl. shrinks rl \<Longrightarrow> shrinks (upd d rl)"
  shows "length (df_buf df) \<le> 65535"
  using assms(1)
proof (induction rule: df_run.induct)
  case df_run_new
  then show ?case by (simp add: df_new_def)
next
  case (df_run_read bs ds df rl rd k df')
  then have "df_ok df" "not_quic df" using df_run_inv [OF df_run_read.hyps(1) assms(2,3)] by (simp_all add: run_inv_def)
  then show ?case using df_read_refine [of df rd "\<lambda>e. e"] df_run_read by auto
qed (simp_all add: pop_length)

section \<open>Records in the clear\<close>

lemma decrypt_clear:
  "decrypt_state rl \<noteq> DS_Active \<Longrightarrow>
    decrypt_incoming rl m = (Inr (Some \<lparr>want_close_before_decrypt = False, plaintext = into_plain_message m\<rparr>), rl)"
  by (simp add: decrypt_incoming_def)

lemma into_plain_unencrypted [simp]: "into_plain_message (into_unencrypted_opaque m) = m" "om_typ (into_unencrypted_opaque m) = pm_typ m"
  by (simp_all add: into_plain_message_def into_unencrypted_opaque_def)

definition wire :: "PlainMessage list \<Rightarrow> u8 list" where
  "wire ms = concat (map (\<lambda>m. opaque_encode (into_unencrypted_opaque m)) ms)"

lemma read_wire:
  assumes "opaque_ok (into_unencrypted_opaque m)"
  shows "read_record_spec (opaque_encode (into_unencrypted_opaque m) @ rest) =
    Inr (into_unencrypted_opaque m, length (opaque_encode (into_unencrypted_opaque m)))"
  using read_record_spec_prefix [OF assms, of _ "length (opaque_encode (into_unencrypted_opaque m) @ rest)" rest] by simp

lemma spec_pop_wire:
  assumes "decrypt_state rl \<noteq> DS_Active" and "opaque_ok (into_unencrypted_opaque m)" and "hs_complete j = None"
    and "pm_typ m \<noteq> CT_ChangeCipherSpec"
  shows "spec_pop j (opaque_encode (into_unencrypted_opaque m) @ rest) rl =
    (case spec_plain j m of
       SpecFail e \<Rightarrow> (Inl e, j, opaque_encode (into_unencrypted_opaque m) @ rest, rl)
     | SpecGive d \<Rightarrow> (Inr (Some d), j, rest, rl)
     | SpecJoin j' \<Rightarrow> spec_pop j' rest rl)"
proof -
  have "spec_record j rl (into_unencrypted_opaque m) = (spec_plain j m, rl)"
    using assms(1,4) by (auto simp: spec_record_def decrypt_clear)
  then show ?thesis
    using assms(3) read_wire [OF assms(2), of rest]
    by (subst spec_pop.simps) (auto split: SpecCtl.split)
qed

lemma payload_size_prefix: "payload_size (a @ b) = Inr (Some n) \<Longrightarrow> payload_size a = Inr None \<or> payload_size a = Inr (Some n)"
  by (cases "length a < 4") (auto simp: payload_size_eq Let_def not_less split: if_splits)

text \<open>A handshake message whose header announces its own length.\<close>

definition whole_handshake :: "PlainMessage \<Rightarrow> bool" where
  "whole_handshake m \<longleftrightarrow> pm_typ m = CT_Handshake \<and> payload_size (pm_payload m) = Inr (Some (length (pm_payload m)))"

definition joined_bytes :: "joined \<Rightarrow> u8 list" where
  "joined_bytes j = (case j of Some (v, bs) \<Rightarrow> bs | None \<Rightarrow> [])"

lemma deframe_fragments:
  assumes rl: "decrypt_state rl \<noteq> DS_Active" and whole: "whole_handshake m"
    and "\<forall>x \<in> set ms. pm_typ x = CT_Handshake \<and> pm_version x = pm_version m \<and> pm_payload x \<noteq> [] \<and> opaque_ok (into_unencrypted_opaque x)"
    and "joined_bytes j @ concat (map pm_payload ms) = pm_payload m" and "\<forall>v bs. j = Some (v, bs) \<longrightarrow> v = pm_version m"
    and "ms \<noteq> []"
  shows "spec_pop j (wire ms @ rest) rl = (Inr (Some (deframed True True m)), None, rest, rl)"
  using assms(3-6)
proof (induction ms arbitrary: j)
  case Nil
  then show ?case by simp
next
  case (Cons x ms)
  let ?acc = "joined_bytes j" and ?all = "pm_payload m"
  have size: "payload_size ?all = Inr (Some (length ?all))" using whole by (simp add: whole_handshake_def)
  have pre: "payload_size p = Inr None \<or> payload_size p = Inr (Some (length ?all))" if "p @ q = ?all" for p q
    using payload_size_prefix [of p q] size that by simp
  have x: "pm_typ x = CT_Handshake" "pm_version x = pm_version m" "pm_payload x \<noteq> []" "opaque_ok (into_unencrypted_opaque x)"
    using Cons.prems(1) by simp_all
  have all: "(?acc @ pm_payload x) @ concat (map pm_payload ms) = ?all" using Cons.prems(2) by simp
  have "length ?acc < length ?all" using arg_cong [OF all, of length] x(3) by (cases "pm_payload x") auto
  then have inc: "hs_complete j = None"
    using pre [of ?acc "pm_payload x @ concat (map pm_payload ms)"] Cons.prems(2) by (auto simp: hs_complete_def joined_bytes_def split: option.splits)
  have join: "spec_join j x = (pm_version m, ?acc @ pm_payload x)"
    using x(2) Cons.prems(3) by (auto simp: spec_join_def joined_bytes_def split: option.split)
  have "spec_plain j x = SpecJoin (Some (pm_version m, ?acc @ pm_payload x))"
    using x(1) pre [OF all] by (auto simp: spec_plain_def join)
  then have step: "spec_pop j (wire (x # ms) @ rest) rl = spec_pop (Some (pm_version m, ?acc @ pm_payload x)) (wire ms @ rest) rl"
    using spec_pop_wire [OF rl x(4) inc] x(1) by (simp add: wire_def)
  show ?case
  proof (cases "ms = []")
    case True
    then have acc: "?acc @ pm_payload x = ?all" using all by simp
    have m: "\<lparr>pm_typ = CT_Handshake, pm_version = pm_version m, pm_payload = ?all\<rparr> = m" using whole by (simp add: whole_handshake_def)
    have "spec_pop (Some (pm_version m, ?all)) (wire ms @ rest) rl = (Inr (Some (deframed True True m)), None, rest, rl)"
      using size True by (simp add: wire_def spec_pop.simps hs_complete_def spec_deliver_def m)
    then show ?thesis using step acc by simp
  next
    case False
    show ?thesis unfolding step using Cons.prems(1) all False by (intro Cons.IH) (simp_all add: joined_bytes_def)
  qed
qed

lemma spec_pop_keeps_joining:
  assumes "spec_pop (Some j) rest rl = (Inr None, j', rest', rl')"
  shows "j' \<noteq> None"
  using assms
proof (induction "Some j" rest rl arbitrary: j rule: spec_pop.induct)
  case (1 rest rl j)
  show ?case
  proof (cases "hs_complete (Some j) = None \<and> (\<exists>m n j1 rl1. read_record_spec rest = Inr (m, n) \<and> spec_record (Some j) rl m = (SpecJoin j1, rl1))")
    case True
    then obtain m n j1 rl1 where c: "hs_complete (Some j) = None" "read_record_spec rest = Inr (m, n)" "spec_record (Some j) rl m = (SpecJoin j1, rl1)" by blast
    then have "j1 \<noteq> None" by (auto simp: spec_record_def spec_plain_def split: if_splits prod.splits sum.splits option.splits)
    then obtain j2 where j2: "j1 = Some j2" by blast
    have "spec_pop (Some j2) (drop n rest) rl1 = (Inr None, j', rest', rl')" using 1(2) c j2 by (simp add: spec_pop.simps [of "Some j"])
    from 1(1) [OF c(1,2) refl c(3) [symmetric] _ this] j2 show ?thesis by simp
  next
    case False
    then show ?thesis
      using 1(2) by (subst (asm) spec_pop.simps)
        (auto simp: spec_deliver_def Let_def split: option.splits sum.splits prod.splits SpecCtl.splits if_splits)
  qed
qed

section \<open>Runs before the first message\<close>

text \<open>While records are in the clear, waiting for more input neither changes the record layer nor gives up bytes of the buffer, and a
  deframer that is not joining has not moved at all.\<close>

lemma append_hs_used: "append_hs df v p fin q = Some (Inr r, df') \<Longrightarrow> df_used df' = df_used df \<and> df_joining df' \<noteq> None"
  by (auto simp: append_hs_def join_payload_def Let_def split: option.splits sum.splits if_splits bind_splits)

lemma pop_body_clear:
  assumes "pop_body df rl = Some (ctl, df1, rl1)" and "decrypt_state rl \<noteq> DS_Active" and "ctl = LoopContinue \<or> ctl = LoopReturn (Inr None)"
  shows "rl1 = rl \<and> df_used df1 = df_used df \<and> (df_joining df1 = None \<longrightarrow> df1 = df \<and> ctl \<noteq> LoopContinue)"
  using assms(1,3) decrypt_clear [OF assms(2)]
  by (auto simp: pop_body_def pop_record_def pop_plain_def Let_def dest!: append_hs_used
      split: StartCtl.splits option.splits sum.splits prod.splits if_splits bind_splits HandshakePayloadState.splits)

lemma pop_loop_clear:
  assumes "pop_loop df rl = Some (LoopReturn (Inr None), df', rl')" and "decrypt_state rl \<noteq> DS_Active"
  shows "rl' = rl \<and> df_used df' = df_used df \<and> (df_joining df' = None \<longrightarrow> df' = df)"
  using assms
proof (induction df rl rule: pop_loop.induct)
  case (1 df rl)
  obtain c1 df1 rl1 where b: "pop_body df rl = Some (c1, df1, rl1)" using 1(2) by (cases "pop_body df rl") (auto simp: pop_loop.simps)
  show ?case
  proof (cases "c1 = LoopContinue")
    case True
    note step = pop_body_clear [OF b 1(3)]
    have "pop_loop df1 rl1 = Some (LoopReturn (Inr None), df', rl')" using 1(2) b True by (simp add: pop_loop.simps [of df])
    then have "rl' = rl1 \<and> df_used df' = df_used df1 \<and> (df_joining df' = None \<longrightarrow> df' = df1)" using 1(1) b True step 1(3) by blast
    then show ?thesis using step True by auto
  next
    case False
    then have "c1 = LoopReturn (Inr None)" "df1 = df'" "rl1 = rl'" using 1(2) b by (cases c1; simp add: pop_loop.simps [of df])+
    then show ?thesis using pop_body_clear [OF b 1(3)] by simp
  qed
qed

lemma pop_finish_gives: "pop_finish df len = Some (r, df') \<Longrightarrow> r \<noteq> Inr None"
  by (auto simp: pop_finish_def Let_def split: option.splits sum.splits if_splits bind_splits)

lemma pop_wait_clear:
  assumes "pop df rl = Some (Inr None, df', rl')" and "decrypt_state rl \<noteq> DS_Active"
  shows "rl' = rl \<and> df_used df' = df_used df \<and> (df_joining df' = None \<longrightarrow> df' = df)"
proof (cases "df_last_error df = None \<and> df_used df \<noteq> 0")
  case True
  then obtain ctl df1 rl1 where l: "pop_loop df rl = Some (ctl, df1, rl1)" using assms(1) by (cases "pop_loop df rl") (auto simp: pop_def)
  then have "ctl = LoopReturn (Inr None)" "df1 = df'" "rl1 = rl'" using assms(1) True by (cases ctl; auto simp: pop_def dest: pop_finish_gives)+
  then show ?thesis using pop_loop_clear [OF _ assms(2)] l by blast
qed (use assms in \<open>auto simp: pop_def split: option.splits\<close>)

text \<open>So before its first message a run in the clear stands for exactly the bytes received.\<close>

lemma run_silent:
  assumes "df_run upd rl0 bs ds df rl" and "shrinks rl0" and "\<And>d rl. shrinks rl \<Longrightarrow> shrinks (upd d rl)" and "decrypt_state rl0 \<noteq> DS_Active" and "ds = []"
  shows "rl = rl0 \<and> df_used df = length bs \<and> (df_joining df = None \<longrightarrow> abs_rest df = bs)
    \<and> (\<forall>later. spec_pop (abs_joined df) (abs_rest df @ later) rl0 = spec_pop None (bs @ later) rl0)"
  using assms(1,5)
proof (induction rule: df_run.induct)
  case df_run_new
  then show ?case by (simp add: df_new_def abs_joined_def abs_rest_def)
next
  case (df_run_read bs ds df rl rd k df')
  have inv: "df_ok df" "not_quic df" using df_run_inv [OF df_run_read.hyps(1) assms(2,3)] by (simp_all add: run_inv_def)
  let ?new = "take k (drop (df_used df) (df_buf df'))"
  have r: "df_ok df'" "abs_joined df' = abs_joined df" "abs_rest df' = abs_rest df @ ?new" "df_used df' = df_used df + k"
    using df_read_refine [OF inv df_run_read.hyps(2), of "\<lambda>e. e"] df_run_read.hyps(3) by auto
  have "df_used df + k \<le> length (df_buf df')" using r(1,4) by (simp add: df_ok_def)
  then have "length ?new = k" by simp
  moreover have "df_joining df' = None \<longleftrightarrow> df_joining df = None" using r(2) unfolding abs_joined_None [symmetric] by simp
  ultimately show ?case using df_run_read.IH df_run_read.prems r by simp
next
  case (df_run_wait bs ds df rl df' rl')
  have inv: "df_ok df" "shrinks rl" "not_quic df" using df_run_inv [OF df_run_wait.hyps(1) assms(2,3)] by (simp_all add: run_inv_def)
  have IH: "rl = rl0" using df_run_wait.IH df_run_wait.prems by simp
  note w = pop_wait_clear [OF df_run_wait.hyps(2), unfolded IH, OF assms(4)]
  have "spec_pop (abs_joined df') (abs_rest df' @ later) rl0 = spec_pop (abs_joined df) (abs_rest df @ later) rl0" for later
    using spec_pop_append [OF pop_step(4) [OF inv df_run_wait.hyps(2)], of later] IH w by simp
  then show ?case using df_run_wait.IH df_run_wait.prems w by auto
qed simp

lemma run_first:
  assumes "df_run upd rl0 bs ds df rl" and "shrinks rl0" and "\<And>d rl. shrinks rl \<Longrightarrow> shrinks (upd d rl)" and "decrypt_state rl0 \<noteq> DS_Active" and "ds \<noteq> []"
  shows "\<exists>j rest rl'. spec_pop None bs rl0 = (Inr (Some (hd ds)), j, rest, rl')"
  using assms(1,5)
proof (induction rule: df_run.induct)
  case (df_run_read bs ds df rl rd k df')
  then obtain j rest rl' where "spec_pop None bs rl0 = (Inr (Some (hd ds)), j, rest, rl')" by blast
  then show ?case using spec_pop_append [of None bs rl0] by fastforce
next
  case (df_run_pop bs ds df rl d df' rl')
  show ?case
  proof (cases "ds = []")
    case True
    have inv: "df_ok df" "shrinks rl" "not_quic df" using df_run_inv [OF df_run_pop.hyps(1) assms(2,3)] by (simp_all add: run_inv_def)
    note silent = run_silent [OF df_run_pop.hyps(1) assms(2-4) True]
    have "spec_pop None bs rl0 = spec_pop (abs_joined df) (abs_rest df) rl" using silent [THEN conjunct1] silent [THEN conjunct2, THEN conjunct2, THEN conjunct2, rule_format, of "[]"] by simp
    then show ?thesis using pop_step(4) [OF inv df_run_pop.hyps(2)] True by simp
  qed (use df_run_pop.IH in simp)
qed simp_all

section \<open>Properties\<close>

text \<open>C2: The deframer refines the two-queue specification: from every well-formed state, with a decrypter that does not
  lengthen records, \<^verbatim>\<open>pop\<close> ends without panicking and gives the message, the error or the request for more input that
  the specification gives on the joined handshake bytes and the unparsed record bytes; unless it fails, the state
  it leaves is well-formed and stands for the queues the specification leaves.\<close>

theorem tls_deframer_refines:
  assumes "df_ok df" and "shrinks rl"
  shows "\<exists>res df' rl'. pop df rl = Some (res, df', rl') \<and> res = fst (spec_pop (abs_joined df) (abs_rest df) rl)
    \<and> (\<forall>x. res = Inr x \<longrightarrow> df_ok df' \<and> spec_pop (abs_joined df) (abs_rest df) rl = (res, abs_joined df', abs_rest df', rl'))"
  using pop_refine [OF assms] .

lemma example_alert: "opaque_ok \<lparr>om_typ = CT_Alert, om_version = PV_TLSv1_2, om_payload = [1, 0]\<rparr>"
    "opaque_encode \<lparr>om_typ = CT_Alert, om_version = PV_TLSv1_2, om_payload = [1, 0]\<rparr> = [21, 3, 3, 0, 2, 1, 0]"
  by (simp_all add: opaque_ok_def typ_ok_def version_ok_def bad_version_def from_protocol_version_def unat_MAX_PAYLOAD opaque_encode_eq
    to_be_bytes_def be_digits_2)

lemma example_spec:
  "spec_pop None [21, 3, 3, 0, 2, 1, 0] rl_new =
    (Inr (Some (deframed True False \<lparr>pm_typ = CT_Alert, pm_version = PV_TLSv1_2, pm_payload = [1, 0]\<rparr>)), None, [], rl_new)"
  using spec_pop_wire [of rl_new "\<lparr>pm_typ = CT_Alert, pm_version = PV_TLSv1_2, pm_payload = [1, 0]\<rparr>" None "[]"] example_alert
  by (simp add: rl_new_def into_unencrypted_opaque_def hs_complete_def spec_plain_def)

definition example_df :: MessageDeframer where
  "example_df = \<lparr>df_last_error = None, df_buf = [21, 3, 3, 0, 2, 1, 0] @ replicate 4089 0, df_joining = None, df_used = 7\<rparr>"

lemma example_df_ok: "df_ok example_df" "abs_joined example_df = None" "abs_rest example_df = [21, 3, 3, 0, 2, 1, 0]" "shrinks rl_new"
  by (simp_all add: example_df_def df_ok_def abs_joined_def abs_rest_def df_start_def shrinks_def rl_new_def invalid_decrypter_def)

theorem tls_deframer_refines_witness:
  "map_option fst (pop example_df rl_new) = Some (Inr (Some (deframed True False \<lparr>pm_typ = CT_Alert, pm_version = PV_TLSv1_2, pm_payload = [1, 0]\<rparr>)))"
  using tls_deframer_refines [OF example_df_ok(1,4)] by (auto simp: example_df_ok example_spec)

text \<open>C15: The messages depend on the bytes, not on how they arrive: take any run of the deframer, with reads of any size
  interleaved with pops in any way and with the connection changing the keys after each message as it likes. When it
  waits for more input, the messages it has delivered are the ones obtained by draining the concatenation of all the bytes
  received, and no other sequence of messages can be obtained from these bytes.\<close>

theorem tls_deframer_stream:
  assumes "df_run upd rl0 bs ds df rl" and "shrinks rl0" and "\<And>d rl. shrinks rl \<Longrightarrow> shrinks (upd d rl)"
    and "pop df rl = Some (Inr None, df', rl')"
  shows "drains upd (None, bs, rl0) ds (abs_joined df', abs_rest df', rl') \<and> (\<forall>ds' st. drains upd (None, bs, rl0) ds' st \<longrightarrow> ds' = ds)"
proof -
  have inv: "run_inv upd rl0 bs ds df rl" by (rule df_run_inv [OF assms(1-3)])
  then have ok: "df_ok df" "shrinks rl" "not_quic df" by (simp_all add: run_inv_def)
  have "drains upd (abs_joined df, abs_rest df @ [], rl) [] (abs_joined df', abs_rest df', rl')"
    using pop_step(4) [OF ok assms(4)] by (simp add: drains_wait)
  then have "drains upd (None, bs @ [], rl0) (ds @ []) (abs_joined df', abs_rest df', rl')" using inv unfolding run_inv_def by blast
  then show ?thesis using drains_fun by fastforce
qed

lemma example_read: "df_read (\<lambda>e. e) (\<lambda>n. Inr (take n [21, 3, 3, 0, 2, 1, 0])) df_new = Some (Inr 7, example_df)"
  by (simp add: df_read_def df_new_def prepare_read_def Let_def MAX_WIRE_SIZE_eq READ_SIZE_def slice_def overwrite_def example_df_def)

lemma example_run:
  "\<exists>df. df_run (\<lambda>_ rl. rl) rl_new [21, 3, 3, 0, 2, 1, 0] [deframed True False \<lparr>pm_typ = CT_Alert, pm_version = PV_TLSv1_2, pm_payload = [1, 0]\<rparr>] df rl_new
    \<and> pop df rl_new = Some (Inr None, df, rl_new) \<and> abs_joined df = None \<and> abs_rest df = []"
proof -
  let ?d = "deframed True False \<lparr>pm_typ = CT_Alert, pm_version = PV_TLSv1_2, pm_payload = [1, 0]\<rparr>"
  have "fair_read (\<lambda>n. Inr (take n [21, 3, 3, 0, 2, 1, 0 :: u8]) :: string + u8 list)" by (simp add: fair_read_def)
  from df_run_read [OF df_run_new this example_read]
  have run: "df_run (\<lambda>_ rl. rl) rl_new [21, 3, 3, 0, 2, 1, 0] [] example_df rl_new" by (simp add: df_new_def example_df_def)
  obtain res df rl where p: "pop example_df rl_new = Some (res, df, rl)" and r: "res = Inr (Some ?d)"
      and x: "\<forall>x. res = Inr x \<longrightarrow> df_ok df \<and> spec_pop None [21, 3, 3, 0, 2, 1, 0] rl_new = (res, abs_joined df, abs_rest df, rl)"
    using pop_refine [OF example_df_ok(1,4)] unfolding example_df_ok(2,3) example_spec by auto
  have df: "df_ok df" "abs_joined df = None" "abs_rest df = []" "rl = rl_new" using x r by (auto simp: example_spec)
  have "length (abs_rest df) = df_used df" using df(1,2) by (simp add: abs_rest_def df_start_def df_ok_def)
  then have "pop df rl_new = Some (Inr None, df, rl_new)" using df(1,3) by (simp add: pop_def df_ok_def)
  moreover have "df_run (\<lambda>_ rl. rl) rl_new [21, 3, 3, 0, 2, 1, 0] [?d] df rl_new"
    using df_run_pop [OF run p [unfolded r df(4)]] by simp
  ultimately show ?thesis using df by blast
qed

theorem tls_deframer_stream_witness:
  "drains (\<lambda>_ rl. rl) (None, [21, 3, 3, 0, 2, 1, 0], rl_new)
    [deframed True False \<lparr>pm_typ = CT_Alert, pm_version = PV_TLSv1_2, pm_payload = [1, 0]\<rparr>] (None, [], rl_new)"
proof -
  obtain df where df: "df_run (\<lambda>_ rl. rl) rl_new [21, 3, 3, 0, 2, 1, 0] [deframed True False \<lparr>pm_typ = CT_Alert, pm_version = PV_TLSv1_2, pm_payload = [1, 0]\<rparr>] df rl_new"
      "pop df rl_new = Some (Inr None, df, rl_new)" "abs_joined df = None" "abs_rest df = []"
    using example_run by blast
  show ?thesis using tls_deframer_stream [OF df(1) example_df_ok(4) _ df(2)] df(3,4) by simp
qed

lemma fragments_spec:
  assumes "set_max_fragment_size f sz = (f', True)" and "fragment_message f' m = Some ms" and "whole_handshake m"
    and "version_ok (pm_version m)" and "decrypt_state rl \<noteq> DS_Active"
  shows "spec_pop None (wire ms @ rest) rl = (Inr (Some (deframed True True m)), None, rest, rl)"
    and "\<exists>x xs. ms = x # xs \<and> pm_typ x = CT_Handshake \<and> opaque_ok (into_unencrypted_opaque x) \<and> length (pm_payload x) \<le> 16384"
proof -
  have frag: "0 < max_frag f'" "max_frag f' \<le> 16384"
    using assms(1) by (auto simp: set_max_fragment_size_def PACKET_OVERHEAD_def MAX_FRAGMENT_SIZE_def MAX_FRAGMENT_LEN_def split: option.splits if_splits)
  obtain cs where cs: "chunks (max_frag f') (pm_payload m) = Some cs" "concat cs = pm_payload m"
      "\<forall>c \<in> set cs. c \<noteq> [] \<and> length c \<le> max_frag f'"
    using chunks_spec [OF frag(1), of "pm_payload m"] by auto
  have ms: "ms = map (\<lambda>c. \<lparr>pm_typ = pm_typ m, pm_version = pm_version m, pm_payload = c\<rparr>) cs"
    using assms(2) cs(1) by (simp add: fragment_message_def fragment_slice_def)
  have hs: "pm_typ m = CT_Handshake" "4 \<le> length (pm_payload m)"
    using assms(3) payload_size_Some [of "pm_payload m" "length (pm_payload m)"] by (auto simp: whole_handshake_def)
  have small: "length c \<le> 16384" "length c < 18432" if "c \<in> set cs" for c using cs(3) frag(2) that by fastforce+
  have all: "\<forall>x \<in> set ms. pm_typ x = CT_Handshake \<and> pm_version x = pm_version m \<and> pm_payload x \<noteq> [] \<and> opaque_ok (into_unencrypted_opaque x)
      \<and> length (pm_payload x) \<le> 16384"
    using cs(3) hs(1) assms(4) small by (auto simp: ms opaque_ok_def into_unencrypted_opaque_def typ_ok_def unat_MAX_PAYLOAD)
  have ne: "ms \<noteq> []" using cs(2) hs(2) by (auto simp: ms)
  have joins: "joined_bytes None @ concat (map pm_payload ms) = pm_payload m" using cs(2) by (simp add: ms joined_bytes_def comp_def)
  show "spec_pop None (wire ms @ rest) rl = (Inr (Some (deframed True True m)), None, rest, rl)"
    by (rule deframe_fragments [OF assms(5,3) _ joins _ ne]) (use all in auto)
  show "\<exists>x xs. ms = x # xs \<and> pm_typ x = CT_Handshake \<and> opaque_ok (into_unencrypted_opaque x) \<and> length (pm_payload x) \<le> 16384"
    using all ne by (cases ms) auto
qed

text \<open>A read offers the source at least one byte exactly as long as the buffer may grow.\<close>

lemma df_read_offers:
  assumes "df_used df \<le> length (df_buf df)"
  shows "if df_used df < allow_max df then \<exists>n > 0. \<exists>df'. df_read err rd df = Some (map_sum id length (rd n), df')
    else df_read err rd df = Some (Inl (err ''message buffer full''), df)"
proof (cases "prepare_read df")
  case (Pair pr df1)
  show ?thesis
  proof (cases pr)
    case (Inl e)
    then have "e = ''message buffer full''" using Pair by (auto simp: prepare_read_def Let_def split: if_splits)
    then show ?thesis using prepare_read_spec [OF assms] Pair Inl by (simp add: df_read_def)
  next
    case (Inr u)
    then obtain buf where b: "df1 = df\<lparr>df_buf := buf\<rparr>" "df_used df < allow_max df" "min (allow_max df) (df_used df + 4096) \<le> length buf"
      using prepare_read_spec [OF assms] Pair by auto
    then have "df_used df < length buf" by simp
    then have "df_read err rd df = Some (map_sum id length (rd (length buf - df_used df)),
        case rd (length buf - df_used df) of Inl e \<Rightarrow> df1 | Inr bs \<Rightarrow> df1\<lparr>df_buf := overwrite buf (df_used df) bs, df_used := df_used df + length bs\<rparr>)"
      using Pair Inr b(1) by (simp add: df_read_def slice_def split: sum.split)
    then show ?thesis using b(2) \<open>df_used df < length buf\<close> by (auto intro!: exI [of _ "length buf - df_used df"])
  qed
qed

lemma waiting_room:
  assumes "df_ok df" and "decrypt_state rl \<noteq> DS_Active" and "abs_rest df @ later = wire (x # xs)" and "df_joining df = None"
    and "pm_typ x = CT_Handshake" and "opaque_ok (into_unencrypted_opaque x)" and "length (pm_payload x) \<le> 16384"
    and "spec_pop None (abs_rest df) rl = (Inr None, None, r, rl')"
  shows "df_used df < 18437"
proof (rule ccontr)
  assume "\<not> df_used df < 18437"
  let ?x = "opaque_encode (into_unencrypted_opaque x)"
  have "length (abs_rest df) = df_used df" using assms(1,4) by (simp add: abs_rest_def df_start_def df_ok_def)
  moreover have "length ?x \<le> 16389" using assms(7) by (simp add: into_unencrypted_opaque_def)
  ultimately have "length ?x \<le> length (abs_rest df)" using \<open>\<not> df_used df < 18437\<close> by simp
  then have "take (length ?x) (abs_rest df) = ?x" using arg_cong [OF assms(3), of "take (length ?x)"] by (simp add: wire_def)
  then have rest: "abs_rest df = ?x @ drop (length ?x) (abs_rest df)" by (metis append_take_drop_id)
  have "spec_pop None (abs_rest df) rl = (case spec_plain None x of SpecFail e \<Rightarrow> (Inl e, None, abs_rest df, rl)
      | SpecGive d \<Rightarrow> (Inr (Some d), None, drop (length ?x) (abs_rest df), rl) | SpecJoin j' \<Rightarrow> spec_pop j' (drop (length ?x) (abs_rest df)) rl)"
    using spec_pop_wire [OF assms(2,6), of None "drop (length ?x) (abs_rest df)"] assms(5) unfolding rest [symmetric] by (simp add: hs_complete_def)
  then have "spec_pop (Some (pm_version x, pm_payload x)) (drop (length ?x) (abs_rest df)) rl = (Inr None, None, r, rl')"
    using assms(5,8) by (auto simp: spec_plain_def spec_join_def split: sum.splits)
  then show False using spec_pop_keeps_joining by blast
qed

text \<open>C26: Sending and receiving compose: a handshake message whose header announces its own length is split by the fragmenter
  with any accepted fragment size and encoded as records in the clear. Whatever the reads and pops of the deframer by which
  these bytes are received: as long as some are missing, no message is delivered, a pop waits for more, and the next read then
  offers the source room, unless 65535 bytes of these records have come already, when it reports a full buffer; once they are all
  there, the first message delivered is that one message, and the pop that delivers it leaves what follows and nothing else.
  So every message whose records have at most 65535 bytes comes through.\<close>

theorem tls_fragment_deframe:
  fixes rd :: "nat \<Rightarrow> 'e + u8 list"
  assumes "set_max_fragment_size f sz = (f', True)" and "fragment_message f' m = Some ms" and "whole_handshake m"
    and "version_ok (pm_version m)" and "decrypt_state rl0 \<noteq> DS_Active" and "shrinks rl0" and "\<And>d rl. shrinks rl \<Longrightarrow> shrinks (upd d rl)"
    and "df_run upd rl0 bs ds df rl"
  shows "(\<forall>later. bs @ later = wire ms \<and> later \<noteq> [] \<longrightarrow> ds = [] \<and> (\<exists>df1. pop df rl = Some (Inr None, df1, rl0)
      \<and> (if length bs < 65535 then \<exists>n > 0. \<exists>df2. df_read err rd df1 = Some (map_sum id length (rd n), df2)
          else df_read err rd df1 = Some (Inl (err ''message buffer full''), df1))))
    \<and> (\<forall>tail. bs = wire ms @ tail \<longrightarrow> (if ds = []
          then \<exists>df1. pop df rl = Some (Inr (Some (deframed True True m)), df1, rl0) \<and> df_joining df1 = None \<and> abs_rest df1 = tail
          else hd ds = deframed True True m))"
proof (intro conjI allI impI)
  note spec = fragments_spec [OF assms(1-5)]
  have inv: "df_ok df" "not_quic df" "shrinks rl" using df_run_inv [OF assms(8,6,7)] by (simp_all add: run_inv_def)
  have first: "ds \<noteq> [] \<Longrightarrow> \<exists>j rest rl'. spec_pop None bs rl0 = (Inr (Some (hd ds)), j, rest, rl')"
    by (rule run_first [OF assms(8,6) _ assms(5)]) (rule assms(7))
  have silent: "ds = [] \<Longrightarrow> rl = rl0 \<and> df_used df = length bs \<and> (df_joining df = None \<longrightarrow> abs_rest df = bs)
      \<and> (\<forall>later. spec_pop (abs_joined df) (abs_rest df @ later) rl0 = spec_pop None (bs @ later) rl0)"
    by (rule run_silent [OF assms(8,6) _ assms(5)]) (rule assms(7))
  obtain res df1 rl1 where p: "pop df rl = Some (res, df1, rl1)" "res = fst (spec_pop (abs_joined df) (abs_rest df) rl)"
      "\<forall>x. res = Inr x \<longrightarrow> df_ok df1 \<and> spec_pop (abs_joined df) (abs_rest df) rl = (res, abs_joined df1, abs_rest df1, rl1)"
    using pop_refine [OF inv(1,3)] by blast
  have whole: "spec_pop (abs_joined df) (abs_rest df) rl = spec_pop None bs rl0" "rl = rl0" if "ds = []"
    using silent [OF that, THEN conjunct2, THEN conjunct2, THEN conjunct2, rule_format, of "[]"] silent [OF that] by simp_all
  {
    fix later
    assume l: "bs @ later = wire ms \<and> later \<noteq> []"
    have pre: "fst (spec_pop None bs rl0) = Inr None"
    proof -
      obtain r j rest rl' where r: "spec_pop None bs rl0 = (r, j, rest, rl')" by (metis prod_cases4)
      have "spec_pop None (bs @ later) rl0 = (Inr (Some (deframed True True m)), None, [], rl0)" using spec(1) [of "[]"] l by simp
      then show ?thesis using spec_pop_append [OF r, of later] l r by (auto split: sum.splits option.splits)
    qed
    show "ds = []" using first pre by fastforce
    then have res: "res = Inr None" using p(2) whole pre by simp
    note w = pop_wait_clear [OF p(1) [unfolded res whole(2) [OF \<open>ds = []\<close>]] assms(5)]
    have ok: "df_ok df1" "spec_pop None bs rl0 = (Inr None, abs_joined df1, abs_rest df1, rl1)" using p(3) res whole \<open>ds = []\<close> by auto
    have used: "df_used df1 = length bs" using w silent \<open>ds = []\<close> by simp
    have "df_used df1 < 18437" if "df_joining df1 = None"
    proof -
      have "df1 = df" "abs_rest df = bs" using w that silent \<open>ds = []\<close> by auto
      then show ?thesis using waiting_room [OF ok(1) assms(5), of later] spec(2) that l ok(2) by auto
    qed
    then have "df_used df1 < allow_max df1 \<longleftrightarrow> length bs < 65535" using used by (auto simp: allow_max_def split: option.splits)
    then have "if length bs < 65535 then \<exists>n > 0. \<exists>df2. df_read err rd df1 = Some (map_sum id length (rd n), df2)
        else df_read err rd df1 = Some (Inl (err ''message buffer full''), df1)"
      using df_read_offers [of df1 err rd] ok(1) unfolding df_ok_def by metis
    then show "\<exists>df1. pop df rl = Some (Inr None, df1, rl0) \<and> (if length bs < 65535 then \<exists>n > 0. \<exists>df2. df_read err rd df1 = Some (map_sum id length (rd n), df2)
        else df_read err rd df1 = Some (Inl (err ''message buffer full''), df1))"
      using p(1) res w by blast
  next
    fix tail
    assume "bs = wire ms @ tail"
    then have bs: "spec_pop None bs rl0 = (Inr (Some (deframed True True m)), None, tail, rl0)" using spec(1) by simp
    show "if ds = [] then \<exists>df1. pop df rl = Some (Inr (Some (deframed True True m)), df1, rl0) \<and> df_joining df1 = None \<and> abs_rest df1 = tail
        else hd ds = deframed True True m"
      using first bs p whole by (cases "ds = []") (auto simp flip: abs_joined_None)
  }
qed

lemma first_read:
  assumes "length bs \<le> 4096"
  shows "df_run upd rl0 bs [] \<lparr>df_last_error = None, df_buf = bs @ replicate (4096 - length bs) 0, df_joining = None, df_used = length bs\<rparr> rl0"
proof -
  let ?df = "\<lparr>df_last_error = None, df_buf = bs @ replicate (4096 - length bs) 0, df_joining = None, df_used = length bs\<rparr>"
  have fair: "fair_read (\<lambda>n. Inr (take n bs) :: string + u8 list)" by (simp add: fair_read_def)
  have "df_read (\<lambda>e. e) (\<lambda>n. Inr (take n bs)) df_new = Some (Inr (length bs), ?df)"
    using assms by (simp add: df_read_def df_new_def prepare_read_def Let_def MAX_WIRE_SIZE_eq READ_SIZE_def slice_def overwrite_def)
  from df_run_read [OF df_run_new fair this] show ?thesis by (simp add: df_new_def)
qed

lemma fragment_example:
  "\<exists>ms. fragment_message \<lparr>max_frag = 27\<rparr> \<lparr>pm_typ = CT_Handshake, pm_version = PV_TLSv1_2, pm_payload = [14, 0, 0, 28] @ replicate 28 7\<rparr> = Some ms
    \<and> length (wire ms) \<le> 4096"
proof -
  have "map_option (\<lambda>ms. length (wire ms)) (fragment_message \<lparr>max_frag = 27\<rparr>
      \<lparr>pm_typ = CT_Handshake, pm_version = PV_TLSv1_2, pm_payload = [14, 0, 0, 28] @ replicate 28 7\<rparr>) = Some 42" by code_simp
  then show ?thesis by auto
qed

theorem tls_fragment_deframe_witness:
  "\<exists>ms. fragment_message \<lparr>max_frag = 27\<rparr> \<lparr>pm_typ = CT_Handshake, pm_version = PV_TLSv1_2, pm_payload = [14, 0, 0, 28] @ replicate 28 7\<rparr> = Some ms
    \<and> (\<exists>df. df_run (\<lambda>_ rl. rl) rl_new (wire ms) [] df rl_new
      \<and> map_option fst (pop df rl_new) = Some (Inr (Some (deframed True True \<lparr>pm_typ = CT_Handshake, pm_version = PV_TLSv1_2, pm_payload = [14, 0, 0, 28] @ replicate 28 7\<rparr>))))"
proof -
  let ?m = "\<lparr>pm_typ = CT_Handshake, pm_version = PV_TLSv1_2, pm_payload = [14, 0, 0, 28] @ replicate 28 (7 :: u8)\<rparr>"
  have f: "set_max_fragment_size fragmenter_default (Some 32) = (\<lparr>max_frag = 27\<rparr>, True)"
    by (simp add: set_max_fragment_size_def fragmenter_default_def MAX_FRAGMENT_SIZE_def MAX_FRAGMENT_LEN_def PACKET_OVERHEAD_def)
  obtain ms where ms: "fragment_message \<lparr>max_frag = 27\<rparr> ?m = Some ms" and len: "length (wire ms) \<le> 4096"
    using fragment_example by blast
  have whole: "whole_handshake ?m" by (simp add: whole_handshake_def payload_size_eq be_nat_def)
  have v: "version_ok (pm_version ?m)" "decrypt_state rl_new \<noteq> DS_Active"
    by (simp_all add: version_ok_def bad_version_def from_protocol_version_def rl_new_def)
  have run: "df_run (\<lambda>_ rl. rl) rl_new (wire ms) [] \<lparr>df_last_error = None, df_buf = wire ms @ replicate (4096 - length (wire ms)) 0, df_joining = None, df_used = length (wire ms)\<rparr> rl_new"
    using first_read [OF len] .
  from conjunct2 [OF tls_fragment_deframe [OF f ms whole v example_df_ok(4) _ run], rule_format, of "[]"]
  show ?thesis using ms run by auto
qed

text \<open>C24: The deframer is bounded and never panics: over any run, the buffer holds at most 65535 bytes, the used part lies
  within it, and neither \<^verbatim>\<open>pop\<close> nor a read from a well-behaved source can index out of range.\<close>

theorem tls_deframer_bounded:
  assumes "df_run upd rl0 bs ds df rl" and "shrinks rl0" and "\<And>d rl. shrinks rl \<Longrightarrow> shrinks (upd d rl)" and "fair_read rd"
  shows "df_used df \<le> length (df_buf df) \<and> length (df_buf df) \<le> 65535 \<and> (\<exists>y. pop df rl = Some y) \<and> (\<exists>y. df_read f rd df = Some y)"
proof -
  have ok: "df_ok df" "shrinks rl" "not_quic df" using df_run_inv [OF assms(1-3)] by (simp_all add: run_inv_def)
  have "df_used df \<le> length (df_buf df)" using ok(1) by (simp add: df_ok_def)
  then show ?thesis
    using df_run_bound [OF assms(1-3)] pop_refine [OF ok(1,2)] df_read_refine [OF ok(1,3) assms(4)] by blast
qed

theorem tls_deframer_bounded_witness:
  "\<exists>y. df_read (\<lambda>e. e) (\<lambda>n. Inr (take n [21, 3, 3])) df_new = Some (y :: (string + nat) \<times> MessageDeframer)"
proof -
  have "fair_read (\<lambda>n. Inr (take n [21, 3, 3 :: u8]) :: string + u8 list)" by (simp add: fair_read_def)
  from tls_deframer_bounded [OF df_run_new example_df_ok(4) _ this, where upd = "\<lambda>_ rl. rl" and f = "\<lambda>e. e"] show ?thesis by blast
qed

text \<open>Pushing QUIC handshake data into a fresh deframer: up to 4096 bytes are joined (or rejected when their header
  announces too much), but longer data with an acceptable header panics, because the buffer is only ever resized by one
  read size.\<close>

theorem tls_quic_push:
  assumes "payload_size payload = Inr el"
  shows "(length payload \<le> 4096 \<longrightarrow> (\<exists>df'. df_push df_new v payload = Some (Inr (), df') \<and> df_ok df' \<and> abs_joined df' = Some (v, payload)))
    \<and> (4096 < length payload \<longrightarrow> df_push df_new v payload = None)"
proof -
  have prep: "prepare_read df_new = (Inr (), df_new\<lparr>df_buf := replicate 4096 0\<rparr>)"
    by (simp add: prepare_read_def Let_def MAX_WIRE_SIZE_eq READ_SIZE_def df_new_def)
  let ?meta = "\<lparr>hm_message_end = length payload, hm_payload_start = 0, hm_payload_end = length payload, hm_version = v,
      hm_expected_len = el, hm_quic = True\<rparr>"
  let ?df = "\<lparr>df_last_error = None, df_buf = overwrite (replicate 4096 0) 0 payload, df_joining = Some ?meta, df_used = length payload\<rparr>"
  have small: "length payload \<le> 4096 \<Longrightarrow> df_push df_new v payload = Some (Inr (), ?df) \<and> df_ok ?df \<and> abs_joined ?df = Some (v, payload)"
    using assms by (auto simp: df_push_def prep [unfolded df_new_def] append_hs_def join_payload_def copy_in_Some Let_def df_new_def df_ok_def meta_ok_def
      meta_bytes_def abs_joined_def take_overwrite_0)
  have big: "4096 < length payload \<Longrightarrow> df_push df_new v payload = None"
    using assms by (simp add: df_push_def prep [unfolded df_new_def] append_hs_def join_payload_def copy_in_None Let_def df_new_def)
  show ?thesis using small big by blast
qed

theorem tls_quic_push_witness:
  "df_push df_new PV_TLSv1_3 ([11, 0, 0x20, 0] @ replicate 8192 0) = None"
proof -
  have "payload_size ([11, 0, 0x20, 0] @ replicate 8192 0) = Inr (Some 8196)"
    by (simp add: payload_size_eq be_nat_def)
  from tls_quic_push [OF this, of PV_TLSv1_3] show ?thesis by simp
qed

end
