(* ===== verification/Tls_Common_Correct.thy ===== *)
theory Tls_Common_Correct
  imports Tls_Common Tls_Deframer_Thms
begin

text \<open>
  From one connection to the other: what the sender queues, the receiver's deframer delivers. The locale \<open>cipher_pair\<close> carries
  the argument, so that it holds for each of the three record protections. At the soft limit of the sequence
  numbers, sending recurses without end.
\<close>

section \<open>What sending queues\<close>

fun seal_all :: "MessageEncrypter \<Rightarrow> u64 \<Rightarrow> PlainMessage list \<Rightarrow> OpaqueMessage list option" where
  "seal_all enc s [] = Some []"
| "seal_all enc s (m # ms) = (case enc m s of Inl _ \<Rightarrow> None | Inr c \<Rightarrow> map_option (Cons c) (seal_all enc (s + 1) ms))"

definition wire_of :: "OpaqueMessage list \<Rightarrow> u8 list" where
  "wire_of ems = concat (map opaque_encode ems)"

lemma wire_of_simps [simp]: "wire_of [] = []" "wire_of (c # cs) = opaque_encode c @ wire_of cs" "wire_of (as @ bs) = wire_of as @ wire_of bs"
  by (simp_all add: wire_of_def)

text \<open>The records \<open>ems\<close> went out: they are queued behind what was queued, and the sequence number moved past them.\<close>

definition sent :: "CommonState \<Rightarrow> OpaqueMessage list \<Rightarrow> CommonState \<Rightarrow> bool" where
  "sent cs ems cs' \<longleftrightarrow>
     (\<exists>b. cs' = cs\<lparr>cs_record_layer := (cs_record_layer cs)\<lparr>write_seq := write_seq (cs_record_layer cs) + word_of_nat (length ems)\<rparr>, cs_sendable_tls := b\<rparr>
        \<and> cvb_contents b = cvb_contents (cs_sendable_tls cs) @ wire_of ems)"

lemma sent_refl: "sent cs [] cs"
  unfolding sent_def by (rule exI [of _ "cs_sendable_tls cs"]) simp

lemma sent_trans: "sent cs as cs' \<Longrightarrow> sent cs' bs cs'' \<Longrightarrow> sent cs (as @ bs) cs''"
  by (auto simp: sent_def add.assoc)

lemma sent_seq: "sent cs ems cs' \<Longrightarrow> write_seq (cs_record_layer cs') = write_seq (cs_record_layer cs) + word_of_nat (length ems)"
  by (auto simp: sent_def)

lemma sent_frame:
  assumes "sent cs ems cs'"
  shows "message_encrypter (cs_record_layer cs') = message_encrypter (cs_record_layer cs)" and "cs_message_fragmenter cs' = cs_message_fragmenter cs"
    and "cs_sendable_plaintext cs' = cs_sendable_plaintext cs" and "cs_may_send_application_data cs' = cs_may_send_application_data cs"
    and "cvb_contents (cs_sendable_tls cs') = cvb_contents (cs_sendable_tls cs) @ wire_of ems"
  using assms by (auto simp: sent_def)

lemma sent_plaintext:
  "sent (cs\<lparr>cs_sendable_plaintext := p\<rparr>) ems cs' \<Longrightarrow> sent (cs\<lparr>cs_sendable_plaintext := q\<rparr>) ems (cs'\<lparr>cs_sendable_plaintext := q\<rparr>)"
  by (cases cs) (auto simp: sent_def)

lemma below_soft: "(s :: u64) < SEQ_SOFT_LIMIT \<Longrightarrow> s \<noteq> SEQ_SOFT_LIMIT \<and> \<not> SEQ_HARD_LIMIT \<le> s"
  by (auto simp: SEQ_SOFT_LIMIT_def SEQ_HARD_LIMIT_def word_less_nat_alt word_le_nat_alt)

lemma unat_SOFT: "unat SEQ_SOFT_LIMIT = 18446744073709486080"
  by (simp add: SEQ_SOFT_LIMIT_def)

lemma send_single_fragment_ok:
  assumes "write_seq (cs_record_layer cs) < SEQ_SOFT_LIMIT"
    and "message_encrypter (cs_record_layer cs) m (write_seq (cs_record_layer cs)) = Inr em"
  shows "\<exists>cs'. send_single_fragment (Suc k) cs m = Some cs' \<and> sent cs [em] cs'"
  using below_soft [OF assms(1)] assms(2)
  by (auto simp: wants_close_before_encrypt_def encrypt_exhausted_def encrypt_outgoing_def queue_tls_message_def sent_def cvb_append_contents)

lemma room_step:
  assumes "unat (s :: u64) + Suc n \<le> unat SEQ_SOFT_LIMIT"
  shows "s < SEQ_SOFT_LIMIT" and "unat (s + 1) + n \<le> unat SEQ_SOFT_LIMIT"
proof -
  show "s < SEQ_SOFT_LIMIT" using assms by (simp add: word_less_nat_alt)
  have "unat (s + 1) = unat s + 1" using unat_add_of_nat [of s 1] assms by (simp add: unat_SOFT)
  then show "unat (s + 1) + n \<le> unat SEQ_SOFT_LIMIT" using assms by simp
qed

lemma send_fragments_ok:
  assumes "seal_all (message_encrypter (cs_record_layer cs)) (write_seq (cs_record_layer cs)) ms = Some ems"
    and "unat (write_seq (cs_record_layer cs)) + length ms \<le> unat SEQ_SOFT_LIMIT"
  shows "\<exists>cs'. send_fragments (send_single_fragment (Suc k)) cs ms = Some cs' \<and> sent cs ems cs'"
  using assms
proof (induction ms arbitrary: cs ems)
  case Nil
  then show ?case by (simp add: sent_refl)
next
  case (Cons m ms)
  let ?rl = "cs_record_layer cs"
  obtain em ems' where e: "message_encrypter ?rl m (write_seq ?rl) = Inr em" "seal_all (message_encrypter ?rl) (write_seq ?rl + 1) ms = Some ems'" "ems = em # ems'"
    using Cons.prems(1) by (auto split: sum.splits)
  have room: "unat (write_seq ?rl) + Suc (length ms) \<le> unat SEQ_SOFT_LIMIT" using Cons.prems(2) by simp
  obtain cs1 where c1: "send_single_fragment (Suc k) cs m = Some cs1" "sent cs [em] cs1"
    using send_single_fragment_ok [OF room_step(1) [OF room] e(1)] by blast
  have "\<exists>cs'. send_fragments (send_single_fragment (Suc k)) cs1 ms = Some cs' \<and> sent cs1 ems' cs'"
    using e(2) room_step(2) [OF room] sent_seq [OF c1(2)] sent_frame(1) [OF c1(2)] by (intro Cons.IH) simp_all
  then show ?case using c1 e(3) sent_trans [of cs "[em]" cs1 ems'] by (auto simp del: send_single_fragment.simps)
qed

section \<open>What the receiver delivers\<close>

lemma seal_all_append:
  "seal_all enc s (as @ bs) = (case seal_all enc s as of None \<Rightarrow> None | Some x \<Rightarrow> map_option ((@) x) (seal_all enc (s + word_of_nat (length as)) bs))"
proof (induction as arbitrary: s)
  case Nil
  then show ?case by (cases "seal_all enc s bs") simp_all
next
  case (Cons a as)
  have "(\<lambda>x. c # cs @ x) = (@) (c # cs)" for c and cs :: "OpaqueMessage list" by auto
  then show ?case using Cons by (auto simp: add.assoc option.map_comp comp_def split: sum.split option.split)
qed

lemma seal_all_length: "seal_all enc s ms = Some ems \<Longrightarrow> length ems = length ms"
  by (induction enc s ms arbitrary: ems rule: seal_all.induct) (auto split: sum.splits)

lemma seal_all_total:
  assumes "\<And>m s. fits_fragment m \<Longrightarrow> \<exists>c. enc m s = Inr c" and "list_all fits_fragment ms"
  shows "\<exists>ems. seal_all enc s ms = Some ems"
  using assms(2)
proof (induction ms arbitrary: s)
  case (Cons m ms)
  obtain c ems where "enc m s = Inr c" "seal_all enc (s + 1) ms = Some ems" using Cons assms(1) by fastforce
  then show ?case by simp
qed simp

definition receiving :: "MessageDecrypter \<Rightarrow> RecordLayer \<Rightarrow> u64 \<Rightarrow> bool" where
  "receiving dec rl s \<longleftrightarrow> decrypt_state rl = DS_Active \<and> message_decrypter rl = dec \<and> read_seq rl = s"

context cipher_pair
begin

text \<open>One protected record of application data.\<close>

lemma deliver_one:
  assumes "receiving dec rl s" and "fits_fragment m" and "pm_typ m = CT_ApplicationData" and "enc m s = Inr c"
  shows "spec_pop None (opaque_encode c @ rest) rl =
    (Inr (Some (deframed True False (m\<lparr>pm_version := vers (pm_version m)\<rparr>))), None, rest, rl\<lparr>read_seq := s + 1\<rparr>)"
proof -
  note c = protected [OF assms(2,4)]
  have "om_typ c = CT_ApplicationData" using c assms(3) by auto
  then have "spec_record None rl c = (SpecGive (deframed True False (m\<lparr>pm_version := vers (pm_version m)\<rparr>)), rl\<lparr>read_seq := s + 1\<rparr>)"
    using assms(1,3) inverse [OF assms(2,4)] by (simp add: spec_record_def decrypt_incoming_def receiving_def Let_def spec_plain_def)
  moreover have "read_record_spec (opaque_encode c @ rest) = Inr (c, length (opaque_encode c))"
    using read_record_spec_prefix [of c _ "length (opaque_encode c @ rest)" rest] c by simp
  ultimately show ?thesis by (subst spec_pop.simps) (simp add: hs_complete_def)
qed

lemma deliver_all:
  assumes "receiving dec rl s" and "list_all (\<lambda>m. fits_fragment m \<and> pm_typ m = CT_ApplicationData) ms" and "seal_all enc s ms = Some ems"
  shows "drains (\<lambda>_ rl. rl) (None, wire_of ems, rl) (map (\<lambda>m. deframed True False (m\<lparr>pm_version := vers (pm_version m)\<rparr>)) ms)
    (None, [], rl\<lparr>read_seq := s + word_of_nat (length ms)\<rparr>)"
  using assms
proof (induction ms arbitrary: rl s ems)
  case Nil
  then have "rl\<lparr>read_seq := s\<rparr> = rl" by (simp add: receiving_def)
  then show ?case using Nil spec_pop_empty [of None rl] by (simp add: drains_wait hs_complete_def)
next
  case (Cons m ms)
  obtain c ems' where e: "enc m s = Inr c" "seal_all enc (s + 1) ms = Some ems'" "ems = c # ems'"
    using Cons.prems(3) by (auto split: sum.splits)
  let ?rl = "rl\<lparr>read_seq := s + 1\<rparr>"
  have "receiving dec ?rl (s + 1)" using Cons.prems(1) by (simp add: receiving_def)
  then have "drains (\<lambda>_ rl. rl) (None, wire_of ems', ?rl) (map (\<lambda>m. deframed True False (m\<lparr>pm_version := vers (pm_version m)\<rparr>)) ms)
      (None, [], ?rl\<lparr>read_seq := s + 1 + word_of_nat (length ms)\<rparr>)"
    using Cons.prems(2) e(2) by (intro Cons.IH) simp_all
  then show ?case
    using drains_more [OF deliver_one [OF Cons.prems(1) _ _ e(1), of "wire_of ems'"], of "\<lambda>_ rl. rl"] Cons.prems(2) e(3)
    by (simp add: add.assoc)
qed

end

section \<open>Application data\<close>

definition fragmenter_ok :: "MessageFragmenter \<Rightarrow> bool" where
  "fragmenter_ok f \<longleftrightarrow> 0 < max_frag f \<and> max_frag f \<le> MAX_FRAGMENT_LEN"

lemma concat_length_ge: "\<forall>c \<in> set cs. c \<noteq> [] \<Longrightarrow> length cs \<le> length (concat cs)"
proof (induction cs)
  case (Cons c cs)
  then show ?case by (cases c) auto
qed simp

lemma fragment_appdata:
  assumes "fragmenter_ok f"
  shows "\<exists>ms. fragment_slice f CT_ApplicationData PV_TLSv1_2 data = Some ms \<and> concat (map pm_payload ms) = data \<and> length ms \<le> length data
    \<and> list_all (\<lambda>m. fits_fragment m \<and> pm_typ m = CT_ApplicationData) ms"
proof -
  obtain cs where cs: "chunks (max_frag f) data = Some cs" "concat cs = data" "\<forall>c \<in> set cs. c \<noteq> [] \<and> length c \<le> max_frag f"
    using chunks_spec [of "max_frag f" data] assms by (auto simp: fragmenter_ok_def)
  have "length cs \<le> length (concat cs)" using concat_length_ge [of cs] cs(3) by blast
  then show ?thesis using cs assms
    by (auto simp: fragment_slice_def comp_def list_all_iff fits_fragment_def fragmenter_ok_def typ_ok_def version_ok_12)
qed

text \<open>A sender that can encrypt every fragment and has sequence numbers left for \<open>n\<close> of them.\<close>

definition sender_ok :: "MessageEncrypter \<Rightarrow> CommonState \<Rightarrow> nat \<Rightarrow> bool" where
  "sender_ok enc cs n \<longleftrightarrow> message_encrypter (cs_record_layer cs) = enc \<and> fragmenter_ok (cs_message_fragmenter cs)
     \<and> (\<forall>m s. fits_fragment m \<longrightarrow> (\<exists>c. enc m s = Inr c)) \<and> unat (write_seq (cs_record_layer cs)) + n \<le> unat SEQ_SOFT_LIMIT"

lemma send_appdata_ok:
  assumes "sender_ok enc cs (length data)"
  shows "\<exists>n cs' ms ems. send_appdata_encrypt (send_single_fragment (Suc k)) cs data lim = Some (n, cs') \<and> sent cs ems cs'
    \<and> seal_all enc (write_seq (cs_record_layer cs)) ms = Some ems \<and> list_all (\<lambda>m. fits_fragment m \<and> pm_typ m = CT_ApplicationData) ms
    \<and> concat (map pm_payload ms) = take n data \<and> length ms \<le> n \<and> n \<le> length data
    \<and> n = (case lim of Limit_Yes \<Rightarrow> apply_limit (cs_sendable_tls cs) (length data) | Limit_No \<Rightarrow> length data)"
proof -
  define n where "n = (case lim of Limit_Yes \<Rightarrow> apply_limit (cs_sendable_tls cs) (length data) | Limit_No \<Rightarrow> length data)"
  have n: "n \<le> length data" by (auto simp: n_def apply_limit_def Let_def split: Limit.split option.split)
  obtain ms where ms: "fragment_slice (cs_message_fragmenter cs) CT_ApplicationData PV_TLSv1_2 (take n data) = Some ms"
      "concat (map pm_payload ms) = take n data" "length ms \<le> length (take n data)" "list_all (\<lambda>m. fits_fragment m \<and> pm_typ m = CT_ApplicationData) ms"
    using fragment_appdata [of "cs_message_fragmenter cs" "take n data"] assms by (auto simp: sender_ok_def)
  have fit: "list_all fits_fragment ms" using ms(4) by (simp add: list_all_iff)
  obtain ems where ems: "seal_all enc (write_seq (cs_record_layer cs)) ms = Some ems"
    using seal_all_total [OF _ fit, of enc "write_seq (cs_record_layer cs)"] assms by (auto simp: sender_ok_def)
  obtain cs' where "send_fragments (send_single_fragment (Suc k)) cs ms = Some cs'" "sent cs ems cs'"
    using send_fragments_ok [of cs ms ems k] ems assms ms(3) n by (auto simp: sender_ok_def simp del: send_single_fragment.simps)
  then show ?thesis using ms ems n
    by (intro exI [of _ n] exI [of _ cs'] exI [of _ ms] exI [of _ ems])
      (simp add: send_appdata_encrypt_def Let_def n_def [symmetric] del: send_single_fragment.simps)
qed

section \<open>Buffered plaintext\<close>

lemma flush_ok:
  assumes "sender_ok enc cs (length (cvb_contents (cs_sendable_plaintext cs)))" and "cs_may_send_application_data cs"
  shows "\<exists>cs' ms ems. flush_plaintext_loop (send_single_fragment (Suc k)) cs = Some cs' \<and> cs_sendable_plaintext cs' = (cs_sendable_plaintext cs)\<lparr>cv_chunks := []\<rparr>
    \<and> sent (cs\<lparr>cs_sendable_plaintext := (cs_sendable_plaintext cs)\<lparr>cv_chunks := []\<rparr>\<rparr>) ems cs'
    \<and> seal_all enc (write_seq (cs_record_layer cs)) ms = Some ems \<and> list_all (\<lambda>m. fits_fragment m \<and> pm_typ m = CT_ApplicationData) ms
    \<and> concat (map pm_payload ms) = cvb_contents (cs_sendable_plaintext cs)"
  using assms
proof (induction "cv_chunks (cs_sendable_plaintext cs)" arbitrary: cs)
  case Nil
  have "cvb_pop (cs_sendable_plaintext cs) = (None, cs_sendable_plaintext cs)" using Nil(1) by (simp add: cvb_pop_def)
  then have "flush_plaintext_loop (send_single_fragment (Suc k)) cs = Some cs" by (subst flush_plaintext_loop.simps) simp
  moreover have nil: "(cs_sendable_plaintext cs)\<lparr>cv_chunks := []\<rparr> = cs_sendable_plaintext cs" using Nil(1) by simp
  moreover have "cvb_contents (cs_sendable_plaintext cs) = []" by (simp add: cvb_contents_def flip: Nil(1))
  ultimately show ?case unfolding nil using sent_refl [of cs]
    by (intro exI [of _ cs] exI [of _ "[]"]) (simp del: send_single_fragment.simps)
next
  case (Cons c chunks)
  let ?b = "(cs_sendable_plaintext cs)\<lparr>cv_chunks := chunks\<rparr>"
  let ?cs = "cs\<lparr>cs_sendable_plaintext := ?b\<rparr>"
  have pop: "cvb_pop (cs_sendable_plaintext cs) = (Some c, ?b)" by (simp add: cvb_pop_def flip: Cons(2))
  have all: "cvb_contents (cs_sendable_plaintext cs) = c @ concat chunks" by (simp add: cvb_contents_def flip: Cons(2))
  have sok: "sender_ok enc ?cs (length c)" using Cons.prems(1) all by (auto simp: sender_ok_def)
  obtain n cs1 ms1 ems1 where s1: "send_plain (send_single_fragment (Suc k)) ?cs c Limit_No = Some (n, cs1)" "sent ?cs ems1 cs1"
      "seal_all enc (write_seq (cs_record_layer cs)) ms1 = Some ems1" "list_all (\<lambda>m. fits_fragment m \<and> pm_typ m = CT_ApplicationData) ms1"
      "concat (map pm_payload ms1) = c" "length ms1 \<le> length c"
  proof (cases "c = []")
    case True
    then show ?thesis using that [of 0 ?cs "[]" "[]"] Cons.prems(2) sent_refl [of ?cs] by (simp add: send_plain_def)
  next
    case False
    then show ?thesis using that send_appdata_ok [OF sok, of k Limit_No] Cons.prems(2)
      by (auto simp: send_plain_def simp del: send_single_fragment.simps)
  qed
  have cs1: "cs_sendable_plaintext cs1 = ?b" "cs_may_send_application_data cs1" "message_encrypter (cs_record_layer cs1) = message_encrypter (cs_record_layer cs)"
      "cs_message_fragmenter cs1 = cs_message_fragmenter cs"
    using sent_frame [OF s1(2)] Cons.prems(2) by simp_all
  have len: "length ems1 = length ms1" using seal_all_length [OF s1(3)] .
  have seq: "write_seq (cs_record_layer cs1) = write_seq (cs_record_layer cs) + word_of_nat (length ms1)" using sent_seq [OF s1(2)] len by simp
  have room: "unat (write_seq (cs_record_layer cs)) + length c + length (concat chunks) \<le> unat SEQ_SOFT_LIMIT"
    using Cons.prems(1) all by (simp add: sender_ok_def)
  have "unat (write_seq (cs_record_layer cs1)) = unat (write_seq (cs_record_layer cs)) + length ms1"
    unfolding seq using room s1(6) by (intro unat_add_of_nat) (simp add: unat_SOFT)
  then have "sender_ok enc cs1 (length (cvb_contents (cs_sendable_plaintext cs1)))"
    using Cons.prems(1) room s1(6) cs1 by (simp add: sender_ok_def cvb_contents_def)
  then obtain cs' ms2 ems2 where s2: "flush_plaintext_loop (send_single_fragment (Suc k)) cs1 = Some cs'"
      "sent (cs1\<lparr>cs_sendable_plaintext := ?b\<lparr>cv_chunks := []\<rparr>\<rparr>) ems2 cs'" "cs_sendable_plaintext cs' = ?b\<lparr>cv_chunks := []\<rparr>"
      "seal_all enc (write_seq (cs_record_layer cs1)) ms2 = Some ems2" "list_all (\<lambda>m. fits_fragment m \<and> pm_typ m = CT_ApplicationData) ms2"
      "concat (map pm_payload ms2) = concat chunks"
    using Cons(1) [of cs1] cs1 by (auto simp: cvb_contents_def)
  have "flush_plaintext_loop (send_single_fragment (Suc k)) cs = Some cs'"
    using pop s1(1) s2(1) by (subst flush_plaintext_loop.simps) (simp del: send_single_fragment.simps)
  moreover have "sent (cs\<lparr>cs_sendable_plaintext := ?b\<lparr>cv_chunks := []\<rparr>\<rparr>) ems1 (cs1\<lparr>cs_sendable_plaintext := ?b\<lparr>cv_chunks := []\<rparr>\<rparr>)"
    using s1(2) by (rule sent_plaintext)
  then have "sent (cs\<lparr>cs_sendable_plaintext := ?b\<lparr>cv_chunks := []\<rparr>\<rparr>) (ems1 @ ems2) cs'" using s2(2) by (rule sent_trans)
  moreover have "seal_all enc (write_seq (cs_record_layer cs)) (ms1 @ ms2) = Some (ems1 @ ems2)"
    using s1(3) s2(4) seq by (simp add: seal_all_append)
  ultimately show ?case using s1(4,5) s2(3,5,6) all
    by (intro exI [of _ cs'] exI [of _ "ms1 @ ms2"] exI [of _ "ems1 @ ems2"]) simp
qed

section \<open>Properties\<close>

text \<open>Application data arrives: when a sender with any accepted fragment size encrypts data (all of it, or the prefix the
  buffer limit admits) and the receiver has the matching decrypter at the same sequence number, sending ends, and from the
  bytes it queues the receiver's deframer delivers application-data messages whose concatenation is exactly the data
  accepted, with nothing left over and both sequence numbers equal again.\<close>

theorem tls_end_to_end:
  assumes "cipher_pair enc dec vers" and "sender_ok enc cs (length data)" and "receiving dec rl (write_seq (cs_record_layer cs))"
  shows "\<exists>n cs' wire ds rl'. send_appdata_encrypt (send_single_fragment (Suc k)) cs data lim = Some (n, cs')
    \<and> n = (case lim of Limit_Yes \<Rightarrow> apply_limit (cs_sendable_tls cs) (length data) | Limit_No \<Rightarrow> length data)
    \<and> cvb_contents (cs_sendable_tls cs') = cvb_contents (cs_sendable_tls cs) @ wire
    \<and> drains (\<lambda>_ rl. rl) (None, wire, rl) ds (None, [], rl')
    \<and> concat (map (\<lambda>d. pm_payload (dm_message d)) ds) = take n data
    \<and> list_all (\<lambda>d. pm_typ (dm_message d) = CT_ApplicationData) ds
    \<and> receiving dec rl' (write_seq (cs_record_layer cs'))"
proof -
  obtain n cs' ms ems where s: "send_appdata_encrypt (send_single_fragment (Suc k)) cs data lim = Some (n, cs')" "sent cs ems cs'"
      "seal_all enc (write_seq (cs_record_layer cs)) ms = Some ems" "list_all (\<lambda>m. fits_fragment m \<and> pm_typ m = CT_ApplicationData) ms"
      "concat (map pm_payload ms) = take n data" "n = (case lim of Limit_Yes \<Rightarrow> apply_limit (cs_sendable_tls cs) (length data) | Limit_No \<Rightarrow> length data)"
    using send_appdata_ok [OF assms(2), of k lim] by blast
  let ?ds = "map (\<lambda>m. deframed True False (m\<lparr>pm_version := vers (pm_version m)\<rparr>)) ms"
  let ?rl = "rl\<lparr>read_seq := write_seq (cs_record_layer cs) + word_of_nat (length ms)\<rparr>"
  have "drains (\<lambda>_ rl. rl) (None, wire_of ems, rl) ?ds (None, [], ?rl)"
    using cipher_pair.deliver_all [OF assms(1,3) s(4,3)] .
  moreover have "concat (map (\<lambda>d. pm_payload (dm_message d)) ?ds) = take n data" "list_all (\<lambda>d. pm_typ (dm_message d) = CT_ApplicationData) ?ds"
    using s(4,5) by (simp_all add: deframed_def comp_def list_all_iff)
  moreover have "receiving dec ?rl (write_seq (cs_record_layer cs'))"
    using assms(3) sent_seq [OF s(2)] seal_all_length [OF s(3)] by (simp add: receiving_def)
  ultimately show ?thesis using s(1,6) sent_frame(5) [OF s(2)] by blast
qed

definition example_cs :: CommonState where
  "example_cs = (common_new Client)\<lparr>cs_record_layer := set_message_encrypter rl_new (tls13_encrypt sum_seal (replicate 12 7)), cs_may_send_application_data := True\<rparr>"

lemma example_sender: "n \<le> 1000 \<Longrightarrow> sender_ok (tls13_encrypt sum_seal (replicate 12 7)) example_cs n"
  by (auto simp: sender_ok_def example_cs_def common_new_def set_message_encrypter_def start_encrypting_def prepare_message_encrypter_def
    fragmenter_ok_def fragmenter_default_def MAX_FRAGMENT_LEN_def unat_SOFT tls13_encrypt_def sum_seal_def Let_def)

theorem tls_end_to_end_witness:
  "\<exists>n cs'. send_appdata_encrypt (send_single_fragment 1) example_cs [104, 105] Limit_Yes = Some (n, cs') \<and> n = 2"
proof -
  let ?rl = "set_message_decrypter rl_new (tls13_decrypt sum_open (replicate 12 7))"
  have r: "receiving (tls13_decrypt sum_open (replicate 12 7)) ?rl (write_seq (cs_record_layer example_cs))"
    by (simp add: receiving_def example_cs_def set_message_encrypter_def start_encrypting_def prepare_message_encrypter_def
      set_message_decrypter_def start_decrypting_def prepare_message_decrypter_def)
  have l: "apply_limit (cs_sendable_tls example_cs) (Suc (Suc 0)) = 2"
    by (simp add: apply_limit_def example_cs_def common_new_def cvb_new_def cvb_len_def DEFAULT_BUFFER_LIMIT_def)
  from tls_end_to_end [OF sum_key.t13.cipher_pair_axioms example_sender r, of "[104, 105]" 0 Limit_Yes] l
  show ?thesis by (auto simp del: send_single_fragment.simps)
qed

text \<open>C36: Plaintext written before the handshake completes is not lost: opening the outgoing direction ends, empties the plaintext
  buffer, and queues records from which the receiver's deframer delivers exactly the buffered bytes in order.\<close>

theorem tls_flush_delivers:
  assumes "cipher_pair enc dec vers" and "sender_ok enc cs (length (cvb_contents (cs_sendable_plaintext cs)))"
    and "receiving dec rl (write_seq (cs_record_layer cs))"
  shows "\<exists>cs' wire ds rl'. start_outgoing_traffic (send_single_fragment (Suc k)) cs = Some cs'
    \<and> cs_may_send_application_data cs' \<and> cvb_is_empty (cs_sendable_plaintext cs')
    \<and> cvb_contents (cs_sendable_tls cs') = cvb_contents (cs_sendable_tls cs) @ wire
    \<and> drains (\<lambda>_ rl. rl) (None, wire, rl) ds (None, [], rl')
    \<and> concat (map (\<lambda>d. pm_payload (dm_message d)) ds) = cvb_contents (cs_sendable_plaintext cs)
    \<and> receiving dec rl' (write_seq (cs_record_layer cs'))"
proof -
  let ?cs = "cs\<lparr>cs_may_send_application_data := True\<rparr>"
  have "sender_ok enc ?cs (length (cvb_contents (cs_sendable_plaintext ?cs)))" using assms(2) by (simp add: sender_ok_def)
  from flush_ok [OF this, of k] obtain cs' ms ems where f: "flush_plaintext_loop (send_single_fragment (Suc k)) ?cs = Some cs'"
      "cs_sendable_plaintext cs' = (cs_sendable_plaintext cs)\<lparr>cv_chunks := []\<rparr>"
      "sent (?cs\<lparr>cs_sendable_plaintext := (cs_sendable_plaintext cs)\<lparr>cv_chunks := []\<rparr>\<rparr>) ems cs'"
      "seal_all enc (write_seq (cs_record_layer cs)) ms = Some ems" "list_all (\<lambda>m. fits_fragment m \<and> pm_typ m = CT_ApplicationData) ms"
      "concat (map pm_payload ms) = cvb_contents (cs_sendable_plaintext cs)"
    by (auto simp del: send_single_fragment.simps)
  let ?ds = "map (\<lambda>m. deframed True False (m\<lparr>pm_version := vers (pm_version m)\<rparr>)) ms"
  let ?rl = "rl\<lparr>read_seq := write_seq (cs_record_layer cs) + word_of_nat (length ms)\<rparr>"
  have "drains (\<lambda>_ rl. rl) (None, wire_of ems, rl) ?ds (None, [], ?rl)" using cipher_pair.deliver_all [OF assms(1,3) f(5,4)] .
  moreover have "start_outgoing_traffic (send_single_fragment (Suc k)) cs = Some cs'"
    using f(1) by (simp add: start_outgoing_traffic_def flush_plaintext_def del: send_single_fragment.simps)
  moreover have "concat (map (\<lambda>d. pm_payload (dm_message d)) ?ds) = cvb_contents (cs_sendable_plaintext cs)"
    using f(6) by (simp add: deframed_def comp_def)
  moreover have "receiving dec ?rl (write_seq (cs_record_layer cs'))"
    using assms(3) sent_seq [OF f(3)] seal_all_length [OF f(4)] by (simp add: receiving_def)
  moreover have "cs_may_send_application_data cs'" "cvb_contents (cs_sendable_tls cs') = cvb_contents (cs_sendable_tls cs) @ wire_of ems"
    using sent_frame(4,5) [OF f(3)] by simp_all
  moreover have "cvb_is_empty (cs_sendable_plaintext cs')" using f(2) by (simp add: cvb_is_empty_def)
  ultimately show ?thesis by blast
qed

theorem tls_flush_delivers_witness:
  "\<exists>cs'. start_outgoing_traffic (send_single_fragment 1)
      (example_cs\<lparr>cs_may_send_application_data := False, cs_sendable_plaintext := \<lparr>cv_chunks = [[1, 2], [3]], cv_limit = None\<rparr>\<rparr>) = Some cs'
    \<and> cvb_is_empty (cs_sendable_plaintext cs')"
proof -
  let ?cs = "example_cs\<lparr>cs_may_send_application_data := False, cs_sendable_plaintext := \<lparr>cv_chunks = [[1, 2], [3]], cv_limit = None\<rparr>\<rparr>"
  let ?rl = "set_message_decrypter rl_new (tls13_decrypt sum_open (replicate 12 7))"
  have r: "receiving (tls13_decrypt sum_open (replicate 12 7)) ?rl (write_seq (cs_record_layer ?cs))"
    by (simp add: receiving_def example_cs_def set_message_encrypter_def start_encrypting_def prepare_message_encrypter_def
      set_message_decrypter_def start_decrypting_def prepare_message_decrypter_def)
  have s: "sender_ok (tls13_encrypt sum_seal (replicate 12 7)) ?cs (length (cvb_contents (cs_sendable_plaintext ?cs)))"
    using example_sender [of 3] by (simp add: sender_ok_def cvb_contents_def)
  show ?thesis using tls_flush_delivers [OF sum_key.t13.cipher_pair_axioms s r, of 0] by (auto simp del: send_single_fragment.simps)
qed

text \<open>C38: At the soft limit of the sequence numbers sending never returns: a connection that is encrypting and has used
  \<^verbatim>\<open>SEQ_SOFT_LIMIT\<close> sequence numbers sends a close-notify alert before the next fragment, but the alert is itself a fragment
  before which a close-notify alert is sent, and so on; whatever the depth of the stack, it is exhausted.\<close>

theorem tls_soft_limit_recursion:
  assumes "is_encrypting (cs_record_layer cs)" and "write_seq (cs_record_layer cs) = SEQ_SOFT_LIMIT" and "cs_protocol cs = Tcp"
    and "fragmenter_ok (cs_message_fragmenter cs)"
  shows "send_single_fragment depth cs m = None"
proof (induction depth arbitrary: m)
  case (Suc depth)
  let ?alert = "message_into_plain (build_alert AL_Warning AD_CloseNotify)"
  have two: "length (pm_payload ?alert) = 2"
    by (simp add: message_into_plain_def build_alert_def enc_alert_def enc_enum8_def enc_u8_def)
  obtain cs' where c: "chunks (max_frag (cs_message_fragmenter cs)) (pm_payload ?alert) = Some cs'" "concat cs' = pm_payload ?alert"
    using chunks_spec [of "max_frag (cs_message_fragmenter cs)" "pm_payload ?alert"] assms(4) by (auto simp: fragmenter_ok_def)
  then obtain x xs where "fragment_message (cs_message_fragmenter cs) ?alert = Some (x # xs)"
    using two by (cases cs') (auto simp: fragment_message_def fragment_slice_def)
  then have "send_close_notify (send_single_fragment depth) cs = None"
    using assms Suc by (simp add: send_close_notify_def send_warning_alert_no_log_def send_msg_def send_msg_encrypt_def)
  then show ?case using assms(2) by (simp add: wants_close_before_encrypt_def)
qed simp

theorem tls_soft_limit_recursion_witness:
  "send_single_fragment 1000 (example_cs\<lparr>cs_record_layer := (cs_record_layer example_cs)\<lparr>write_seq := 0xffffffffffff0000\<rparr>\<rparr>)
     \<lparr>pm_typ = CT_ApplicationData, pm_version = PV_TLSv1_2, pm_payload = [1]\<rparr> = None"
  by (rule tls_soft_limit_recursion)
    (simp_all add: example_cs_def is_encrypting_def set_message_encrypter_def start_encrypting_def prepare_message_encrypter_def
      SEQ_SOFT_LIMIT_def common_new_def fragmenter_ok_def fragmenter_default_def MAX_FRAGMENT_LEN_def)

end
