(* ===== verification/Tls_Cache.thy ===== *)
theory Tls_Cache
  imports Prelude
begin

text \<open>
  The session cache of \<^verbatim>\<open>rustls-0.21.2/rustls/src/limited_cache.rs\<close>: a hash map with a queue of its keys in insertion
  order. It refines a bounded association list in insertion order, from which inserting into a full cache drops the
  oldest entry.
\<close>

section \<open>The cache\<close>

text \<open>\<open>lc_capacity\<close> is \<^verbatim>\<open>self.oldest.capacity()\<close>; the library's growth policy for a full deque is the parameter \<open>grow\<close>.\<close>

record ('k, 'v) LimitedCache =
  lc_map :: "'k \<rightharpoonup> 'v"
  lc_oldest :: "'k list"
  lc_capacity :: nat

text \<open>\<^verbatim>\<open>VecDeque::with_capacity\<close> may round up: it yields some capacity of at least the requested one.\<close>

definition lc_new :: "(nat \<Rightarrow> nat) \<Rightarrow> nat \<Rightarrow> ('k, 'v) LimitedCache" where
  "lc_new round_up capacity_order_of_magnitude =
     \<lparr>lc_map = Map.empty, lc_oldest = [], lc_capacity = round_up capacity_order_of_magnitude\<rparr>"

definition push_back :: "(nat \<Rightarrow> nat) \<Rightarrow> ('k, 'v) LimitedCache \<Rightarrow> 'k \<Rightarrow> ('k, 'v) LimitedCache" where
  "push_back grow c k =
     c\<lparr>lc_oldest := lc_oldest c @ [k],
       lc_capacity := if length (lc_oldest c) = lc_capacity c then grow (lc_capacity c) else lc_capacity c\<rparr>"

definition evict :: "('k, 'v) LimitedCache \<Rightarrow> ('k, 'v) LimitedCache" where
  "evict c =
     (if lc_capacity c = length (lc_oldest c)
      then (case lc_oldest c of
              oldest_key # rest \<Rightarrow> c\<lparr>lc_oldest := rest, lc_map := (lc_map c)(oldest_key := None)\<rparr>
            | [] \<Rightarrow> c)
      else c)"

definition lc_insert :: "(nat \<Rightarrow> nat) \<Rightarrow> ('k, 'v) LimitedCache \<Rightarrow> 'k \<Rightarrow> 'v \<Rightarrow> ('k, 'v) LimitedCache" where
  "lc_insert grow c k v =
     (case lc_map c k of
        Some _ \<Rightarrow> c\<lparr>lc_map := (lc_map c)(k \<mapsto> v)\<rparr>
      | None \<Rightarrow> let c = push_back grow c k in evict (c\<lparr>lc_map := (lc_map c)(k \<mapsto> v)\<rparr>))"

definition get_or_insert_default_and_edit ::
    "(nat \<Rightarrow> nat) \<Rightarrow> 'v \<Rightarrow> ('k, 'v) LimitedCache \<Rightarrow> 'k \<Rightarrow> ('v \<Rightarrow> 'v) \<Rightarrow> ('k, 'v) LimitedCache" where
  "get_or_insert_default_and_edit grow v_default c k edit =
     (case lc_map c k of
        Some v \<Rightarrow> c\<lparr>lc_map := (lc_map c)(k \<mapsto> edit v)\<rparr>
      | None \<Rightarrow> let c = push_back grow c k in evict (c\<lparr>lc_map := (lc_map c)(k \<mapsto> edit v_default)\<rparr>))"

definition lc_get :: "('k, 'v) LimitedCache \<Rightarrow> 'k \<Rightarrow> 'v option" where
  "lc_get c k = lc_map c k"

text \<open>\<^verbatim>\<open>get_mut\<close> hands out a reference; what the caller does through it is the parameter \<open>f\<close>.\<close>

definition lc_get_mut :: "('k, 'v) LimitedCache \<Rightarrow> 'k \<Rightarrow> ('v \<Rightarrow> 'v) \<Rightarrow> 'v option \<times> ('k, 'v) LimitedCache" where
  "lc_get_mut c k f =
     (case lc_map c k of
        Some v \<Rightarrow> (Some v, c\<lparr>lc_map := (lc_map c)(k \<mapsto> f v)\<rparr>)
      | None \<Rightarrow> (None, c))"

definition lc_remove :: "('k, 'v) LimitedCache \<Rightarrow> 'k \<Rightarrow> 'v option \<times> ('k, 'v) LimitedCache" where
  "lc_remove c k =
     (case lc_map c k of
        Some v \<Rightarrow> (Some v, c\<lparr>lc_map := (lc_map c)(k := None), lc_oldest := remove1 k (lc_oldest c)\<rparr>)
      | None \<Rightarrow> (None, c))"

section \<open>The specification: a bounded association list\<close>

fun al_update :: "'k \<Rightarrow> 'v \<Rightarrow> ('k \<times> 'v) list \<Rightarrow> ('k \<times> 'v) list" where
  "al_update k v [] = []"
| "al_update k v ((k', v') # al) = (if k' = k then (k, v) # al else (k', v') # al_update k v al)"

definition spec_put :: "nat \<Rightarrow> 'k \<Rightarrow> 'v \<Rightarrow> ('k \<times> 'v) list \<Rightarrow> ('k \<times> 'v) list" where
  "spec_put bound k v al =
     (if k \<in> fst ` set al then al_update k v al
      else drop (length al + 1 - bound) (al @ [(k, v)]))"

definition lc_abs :: "('k, 'v) LimitedCache \<Rightarrow> ('k \<times> 'v) list" where
  "lc_abs c = map (\<lambda>k. (k, the (lc_map c k))) (lc_oldest c)"

text \<open>The deque always has room for one more key, except that a fresh cache of capacity zero is empty. A full cache
  therefore holds one entry less than the capacity of its deque.\<close>

definition lc_ok :: "('k, 'v) LimitedCache \<Rightarrow> bool" where
  "lc_ok c \<longleftrightarrow> distinct (lc_oldest c) \<and> set (lc_oldest c) = dom (lc_map c)
     \<and> (length (lc_oldest c) < lc_capacity c \<or> lc_oldest c = [] \<and> lc_capacity c = 0)"

definition lc_bound :: "(nat \<Rightarrow> nat) \<Rightarrow> ('k, 'v) LimitedCache \<Rightarrow> nat" where
  "lc_bound grow c = (if lc_capacity c = 0 then grow 0 else lc_capacity c) - 1"

lemma lc_keys: "map fst (lc_abs c) = lc_oldest c" "length (lc_abs c) = length (lc_oldest c)"
  by (simp_all add: lc_abs_def comp_def)

lemma lc_abs_keys: "lc_ok c \<Longrightarrow> k \<in> fst ` set (lc_abs c) \<longleftrightarrow> lc_map c k \<noteq> None"
  using lc_keys(1) [of c] by (auto simp: lc_ok_def simp flip: list.set_map)

lemma lc_get_abs:
  assumes "lc_ok c"
  shows "lc_get c k = map_of (lc_abs c) k"
proof -
  have "map_of (lc_abs c) k = (if k \<in> set (lc_oldest c) then Some (the (lc_map c k)) else None)"
    by (simp add: lc_abs_def map_of_map_restrict restrict_map_def)
  then show ?thesis using assms by (auto simp: lc_get_def lc_ok_def)
qed

lemma al_update_absent: "k \<notin> fst ` set al \<Longrightarrow> al_update k v al = al"
  by (induction k v al rule: al_update.induct) auto

lemma al_update_map:
  "distinct ks \<Longrightarrow> al_update k v (map (\<lambda>k. (k, f k)) ks) = map (\<lambda>k'. (k', if k' = k then v else f k')) ks"
proof (induction ks)
  case (Cons a ks)
  then show ?case by (cases "a = k") (auto simp: al_update_absent)
qed simp

lemma lc_abs_update:
  assumes "lc_ok c" and "lc_map c k = Some w"
  shows "lc_abs (c\<lparr>lc_map := (lc_map c)(k \<mapsto> v)\<rparr>) = al_update k v (lc_abs c)" and "lc_ok (c\<lparr>lc_map := (lc_map c)(k \<mapsto> v)\<rparr>)"
  using assms by (auto simp: lc_abs_def lc_ok_def al_update_map)

text \<open>Inserting a new key, common to both insertions.\<close>

lemma lc_put_new:
  assumes ok: "lc_ok c" and new: "lc_map c k = None" and grow: "0 < grow 0"
    and c1: "c1 = push_back grow c k"
  shows "lc_abs (evict (c1\<lparr>lc_map := (lc_map c1)(k \<mapsto> v)\<rparr>)) = spec_put (lc_bound grow c) k v (lc_abs c)"
    and "lc_ok (evict (c1\<lparr>lc_map := (lc_map c1)(k \<mapsto> v)\<rparr>))"
    and "lc_bound grow (evict (c1\<lparr>lc_map := (lc_map c1)(k \<mapsto> v)\<rparr>)) = lc_bound grow c"
proof -
  let ?cap = "lc_bound grow c + 1" and ?ks = "lc_oldest c @ [k]" and ?m = "(lc_map c)(k \<mapsto> v)"
  have k: "k \<notin> set (lc_oldest c)" using ok new by (auto simp: lc_ok_def)
  have cap: "lc_capacity c1 = ?cap" "length (lc_oldest c) < ?cap"
    using ok grow by (auto simp: c1 push_back_def lc_ok_def lc_bound_def)
  have flds: "lc_oldest c1 = ?ks" "lc_map c1 = lc_map c" by (simp_all add: c1 push_back_def)
  have absent: "k \<notin> fst ` set (lc_abs c)" using lc_abs_keys [OF ok] new by simp
  have abs_new: "map (\<lambda>x. (x, the (?m x))) (lc_oldest c) = lc_abs c" using k by (auto simp: lc_abs_def)
  have "lc_abs (evict (c1\<lparr>lc_map := ?m\<rparr>)) = spec_put (lc_bound grow c) k v (lc_abs c)
      \<and> lc_ok (evict (c1\<lparr>lc_map := ?m\<rparr>)) \<and> lc_capacity (evict (c1\<lparr>lc_map := ?m\<rparr>)) = ?cap"
  proof (cases "length (lc_oldest c) < lc_bound grow c")
    case True
    then have e: "evict (c1\<lparr>lc_map := ?m\<rparr>) = c1\<lparr>lc_map := ?m\<rparr>" using cap flds by (simp add: evict_def)
    show ?thesis unfolding e using True absent abs_new ok k cap flds
      by (auto simp: spec_put_def lc_abs_def lc_ok_def)
  next
    case False
    then have full: "length ?ks = ?cap" using cap(2) by simp
    then obtain o1 rest where o: "?ks = o1 # rest" by (cases ?ks) auto
    have e: "evict (c1\<lparr>lc_map := ?m\<rparr>) = c1\<lparr>lc_oldest := rest, lc_map := ?m(o1 := None)\<rparr>"
      using full cap flds o by (simp add: evict_def)
    have dist: "distinct (o1 # rest)" "set (o1 # rest) = dom ?m" using k ok o by (auto simp: lc_ok_def simp flip: o)
    have "map (\<lambda>x. (x, the ((?m(o1 := None)) x))) rest = map (\<lambda>x. (x, the (?m x))) rest" using dist(1) by auto
    also have "\<dots> = drop 1 (map (\<lambda>x. (x, the (?m x))) ?ks)" by (simp add: o)
    also have "\<dots> = drop 1 (lc_abs c @ [(k, v)])" using abs_new by simp
    finally have "map (\<lambda>x. (x, the ((?m(o1 := None)) x))) rest = drop 1 (lc_abs c @ [(k, v)])" .
    moreover have "length (lc_abs c) + 1 - lc_bound grow c = 1" using full by (simp add: lc_keys)
    ultimately have "lc_abs (evict (c1\<lparr>lc_map := ?m\<rparr>)) = spec_put (lc_bound grow c) k v (lc_abs c)"
      unfolding e using absent by (simp add: spec_put_def lc_abs_def)
    moreover have "lc_ok (evict (c1\<lparr>lc_map := ?m\<rparr>))"
      unfolding e using dist full cap o by (auto simp: lc_ok_def)
    ultimately show ?thesis unfolding e using cap by simp
  qed
  then show "lc_abs (evict (c1\<lparr>lc_map := (lc_map c1)(k \<mapsto> v)\<rparr>)) = spec_put (lc_bound grow c) k v (lc_abs c)"
    "lc_ok (evict (c1\<lparr>lc_map := (lc_map c1)(k \<mapsto> v)\<rparr>))"
    "lc_bound grow (evict (c1\<lparr>lc_map := (lc_map c1)(k \<mapsto> v)\<rparr>)) = lc_bound grow c"
    using flds(2) by (simp_all add: lc_bound_def)
qed

lemma map_filter_remove1: "distinct ks \<Longrightarrow> map f (remove1 k ks) = map f (filter (\<lambda>x. x \<noteq> k) ks)"
  by (simp add: distinct_remove1_removeAll removeAll_filter_not_eq neq_commute)

lemma lc_remove_abs:
  assumes "lc_ok c"
  shows "lc_abs (snd (lc_remove c k)) = filter (\<lambda>(k', _). k' \<noteq> k) (lc_abs c)" and "lc_ok (snd (lc_remove c k))"
proof -
  have dist: "distinct (lc_oldest c)" "set (lc_oldest c) = dom (lc_map c)" using assms by (simp_all add: lc_ok_def)
  show "lc_abs (snd (lc_remove c k)) = filter (\<lambda>(k', _). k' \<noteq> k) (lc_abs c)"
  proof (cases "lc_map c k")
    case None
    then have "k \<notin> set (lc_oldest c)" using dist by auto
    then have "filter (\<lambda>x. x \<noteq> k) (lc_oldest c) = lc_oldest c" by (auto simp: filter_id_conv)
    then show ?thesis using None by (simp add: lc_remove_def lc_abs_def filter_map comp_def)
  next
    case (Some v)
    then show ?thesis using dist(1) by (simp add: lc_remove_def lc_abs_def filter_map comp_def map_filter_remove1)
  qed
  show "lc_ok (snd (lc_remove c k))"
    using assms by (auto simp: lc_remove_def lc_ok_def length_remove1 split: option.split)
qed

section \<open>Properties\<close>

text \<open>C28: The session cache refines a bounded association list in insertion order, whatever the growth policy of the deque:
  lookups, insertions, edits and removals do what they do on the list, every operation keeps the cache well-formed,
  inserting a new key into a full cache drops exactly the oldest entry, overwriting does not refresh an entry, and the
  number of entries never reaches the capacity.\<close>

theorem tls_cache_refines:
  assumes "lc_ok c" and "0 < grow (0 :: nat)"
  shows "lc_get c k = map_of (lc_abs c) k
    \<and> lc_abs (lc_insert grow c k v) = spec_put (lc_bound grow c) k v (lc_abs c)
    \<and> lc_abs (get_or_insert_default_and_edit grow d c k f)
        = spec_put (lc_bound grow c) k (case map_of (lc_abs c) k of Some w \<Rightarrow> f w | None \<Rightarrow> f d) (lc_abs c)
    \<and> fst (lc_remove c k) = map_of (lc_abs c) k \<and> lc_abs (snd (lc_remove c k)) = filter (\<lambda>(k', _). k' \<noteq> k) (lc_abs c)
    \<and> lc_ok (lc_insert grow c k v) \<and> lc_ok (get_or_insert_default_and_edit grow d c k f) \<and> lc_ok (snd (lc_remove c k))
    \<and> lc_ok (snd (lc_get_mut c k f)) \<and> length (lc_abs c) \<le> lc_bound grow c"
proof -
  note get = lc_get_abs [OF assms(1), unfolded lc_get_def, symmetric]
  have keys: "k \<in> fst ` set (lc_abs c) \<longleftrightarrow> lc_map c k \<noteq> None" by (rule lc_abs_keys [OF assms(1)])
  have put: "lc_abs (lc_insert grow c k v) = spec_put (lc_bound grow c) k v (lc_abs c) \<and> lc_ok (lc_insert grow c k v)" for v
    using lc_put_new [where grow = grow and c = c and k = k and v = v, OF assms(1) _ assms(2) refl] lc_abs_update [OF assms(1), of k _ v] keys
    by (auto simp: lc_insert_def Let_def spec_put_def split: option.split)
  have edit: "get_or_insert_default_and_edit grow d c k f = lc_insert grow c k (case lc_map c k of Some w \<Rightarrow> f w | None \<Rightarrow> f d)"
    by (simp add: get_or_insert_default_and_edit_def lc_insert_def Let_def split: option.split)
  have "fst (lc_remove c k) = lc_map c k" by (simp add: lc_remove_def split: option.split)
  moreover have "lc_ok (snd (lc_get_mut c k f))"
    using assms(1) lc_abs_update(2) [OF assms(1)] by (simp add: lc_get_mut_def split: option.split)
  moreover have "length (lc_abs c) \<le> lc_bound grow c" using assms(1) by (auto simp: lc_keys lc_bound_def lc_ok_def)
  ultimately show ?thesis
    using put lc_remove_abs [OF assms(1)] lc_get_abs [OF assms(1)] by (simp add: edit get)
qed

theorem tls_cache_refines_witness:
  "lc_abs (lc_insert Suc \<lparr>lc_map = [''a'' \<mapsto> (1 :: nat), ''b'' \<mapsto> 2], lc_oldest = [''a'', ''b''], lc_capacity = 3\<rparr> ''c'' 3)
   = [(''b'', 2), (''c'', 3)]"
proof -
  let ?c = "\<lparr>lc_map = [''a'' \<mapsto> (1 :: nat), ''b'' \<mapsto> 2], lc_oldest = [''a'', ''b''], lc_capacity = 3\<rparr>"
  have "lc_ok ?c" by (auto simp: lc_ok_def)
  from tls_cache_refines [OF this, of Suc "''c''" 3] show ?thesis
    by (simp add: lc_abs_def spec_put_def lc_bound_def)
qed

end
