(* ===== verification/Tls_Decode.thy ===== *)
theory Tls_Decode
  imports Tls_Handshake_Msg
begin

text \<open>
  A calculus for decoders: what a decoder returns on the encoding of a value (\<open>decodes\<close>, and \<open>decodes_all\<close> when the decoder
  looks at the end of its input), and what is known of the bytes when it succeeds (\<open>yields\<close>). The rules follow the
  steps the decoders are built from.
\<close>

named_theorems decode_intros \<open>introduction rules for decodes and decodes_all\<close>
named_theorems wire_simps \<open>encodings as concatenations\<close>

section \<open>From bytes to values\<close>

definition wire :: "('a \<Rightarrow> u8 list \<Rightarrow> u8 list) \<Rightarrow> 'a \<Rightarrow> u8 list" where
  "wire enc x = enc x []"

definition decodes :: "'a reads \<Rightarrow> u8 list \<Rightarrow> 'a \<Rightarrow> bool" where
  "decodes rd bs x \<longleftrightarrow> (\<forall>r rest. rd_ok r \<longrightarrow> rd_todo r = bs @ rest \<longrightarrow> rd r = (Inr x, rd_advance r (length bs)))"

definition decodes_all :: "'a reads \<Rightarrow> u8 list \<Rightarrow> 'a \<Rightarrow> bool" where
  "decodes_all rd bs x \<longleftrightarrow> (\<forall>r. rd_ok r \<longrightarrow> rd_todo r = bs \<longrightarrow> rd r = (Inr x, rd_advance r (length bs)))"

lemma decodes_all_weaken: "decodes rd bs x \<Longrightarrow> decodes_all rd bs x"
  by (simp add: decodes_def decodes_all_def)

lemma decodes_return: "decodes (rd_return x) [] x"
  by (simp add: decodes_def rd_return_def)

lemma decodes_bind:
  assumes "decodes m bs y" and "decodes (k y) bs' x"
  shows "decodes (rd_bind m k) (bs @ bs') x"
  unfolding decodes_def
proof (intro allI impI)
  fix r rest
  assume r: "rd_ok r" "rd_todo r = (bs @ bs') @ rest"
  then have "rd_ok (rd_advance r (length bs))" by (intro rd_ok_advance) simp_all
  then show "rd_bind m k r = (Inr x, rd_advance r (length (bs @ bs')))"
    using assms r by (simp add: decodes_def rd_bind_def)
qed

lemma decodes_all_bind:
  assumes "decodes m bs y" and "decodes_all (k y) bs' x"
  shows "decodes_all (rd_bind m k) (bs @ bs') x"
  unfolding decodes_all_def
proof (intro allI impI)
  fix r
  assume r: "rd_ok r" "rd_todo r = bs @ bs'"
  then have "rd_ok (rd_advance r (length bs))" by (intro rd_ok_advance) simp_all
  then show "rd_bind m k r = (Inr x, rd_advance r (length (bs @ bs')))"
    using assms r by (simp add: decodes_def decodes_all_def rd_bind_def)
qed

lemma decodes_all_then:
  assumes "decodes_all m bs y" and "decodes_all (k y) [] x"
  shows "decodes_all (rd_bind m k) bs x"
  unfolding decodes_all_def
proof (intro allI impI)
  fix r
  assume r: "rd_ok r" "rd_todo r = bs"
  then have "rd_ok (rd_advance r (length bs))" by (intro rd_ok_advance) simp_all
  then show "rd_bind m k r = (Inr x, rd_advance r (length bs))"
    using assms r by (simp add: decodes_all_def rd_bind_def)
qed

lemma decodes_map: "decodes m bs y \<Longrightarrow> f y = x \<Longrightarrow> decodes (rd_map f m) bs x"
  using decodes_bind [of m bs y "\<lambda>y. rd_return (f y)" "[]"] by (simp add: rd_map_def decodes_return)

lemma decodes_all_map: "decodes_all m bs y \<Longrightarrow> f y = x \<Longrightarrow> decodes_all (rd_map f m) bs x"
  using decodes_all_then [of m bs y "\<lambda>y. rd_return (f y)" x] decodes_all_weaken [OF decodes_return, of x] by (simp add: rd_map_def)

lemma decodes_last: "decodes m bs y \<Longrightarrow> f y = x \<Longrightarrow> decodes (rd_bind m (\<lambda>y. rd_return (f y))) bs x"
  using decodes_map by (simp add: rd_map_def)

lemma decodes_all_last: "decodes_all m bs y \<Longrightarrow> f y = x \<Longrightarrow> decodes_all (rd_bind m (\<lambda>y. rd_return (f y))) bs x"
  using decodes_all_map by (simp add: rd_map_def)

lemma decodes_all_end: "x = y \<Longrightarrow> decodes_all (rd_end name x) [] y"
  by (auto simp: decodes_all_def rd_end_def expect_empty_def any_left_todo)

lemma read_payload_eq: "rd_ok r \<Longrightarrow> read_payload r = (Inr (rd_todo r), rd_advance r (length (rd_todo r)))"
  by (simp add: read_payload_def rd_rest_def rd_todo_def rd_advance_def rd_ok_def)

lemma decodes_all_payload: "decodes_all read_payload bs bs"
  by (simp add: decodes_all_def read_payload_eq)

lemma decodes_inside:
  assumes "decodes_all body bs x" and "n = length bs"
  shows "decodes (rd_inside n body) bs x"
  using assms by (simp add: decodes_def decodes_all_def rd_inside_def rd_bind_def rd_sub_eq)

lemma decodes_take: "length bs = n \<Longrightarrow> decodes (\<lambda>r. case rd_take r n of (Some bs, r) \<Rightarrow> (Inr (f bs), r) | (None, r) \<Rightarrow> (Inl e, r)) bs (f bs)"
  by (auto simp: decodes_def rd_take_eq)

section \<open>From values to bytes\<close>

text \<open>A successful decoder moved over some bytes that are related to the value by \<open>P\<close>; with the flag \<open>small\<close> this is claimed
  only of inputs below 64 KiB, the limit of a handshake message.\<close>

definition yields :: "bool \<Rightarrow> 'a reads \<Rightarrow> ('a \<Rightarrow> u8 list \<Rightarrow> bool) \<Rightarrow> bool" where
  "yields small rd P \<longleftrightarrow> (\<forall>r x r'. rd_ok r \<longrightarrow> (small \<longrightarrow> length (rd_todo r) < 2 ^ 16) \<longrightarrow> rd r = (Inr x, r') \<longrightarrow>
     (\<exists>n \<le> length (rd_todo r). r' = rd_advance r n \<and> P x (take n (rd_todo r))))"

lemma yields_mono: "yields s rd P \<Longrightarrow> (\<And>x bs. P x bs \<Longrightarrow> Q x bs) \<Longrightarrow> yields s rd Q"
  by (fastforce simp: yields_def)

lemma yields_conj:
  assumes "yields s rd P" and "yields s rd Q"
  shows "yields s rd (\<lambda>x bs. P x bs \<and> Q x bs)"
  unfolding yields_def
proof (intro allI impI)
  fix r x r'
  assume r: "rd_ok r" "s \<longrightarrow> length (rd_todo r) < 2 ^ 16" "rd r = (Inr x, r')"
  obtain n where n: "n \<le> length (rd_todo r)" "r' = rd_advance r n" "P x (take n (rd_todo r))"
    using assms(1) r unfolding yields_def by blast
  obtain m where m: "r' = rd_advance r m" "Q x (take m (rd_todo r))" using assms(2) r unfolding yields_def by blast
  have "m = n" using n(2) m(1) by (auto simp: rd_advance_def dest: arg_cong [of _ _ rd_cursor])
  then show "\<exists>n \<le> length (rd_todo r). r' = rd_advance r n \<and> P x (take n (rd_todo r)) \<and> Q x (take n (rd_todo r))" using n m by blast
qed

lemma yields_small: "yields False rd P \<Longrightarrow> yields s rd P"
  by (auto simp: yields_def)

lemma yields_return: "P x [] \<Longrightarrow> yields s (rd_return x) P"
  by (auto simp: yields_def rd_return_def)

lemma yields_fail: "yields s (rd_fail e) P"
  by (auto simp: yields_def rd_fail_def)

lemma yields_end: "P x [] \<Longrightarrow> yields s (rd_end name x) P"
  by (auto simp: yields_def rd_end_def split: sum.splits)

lemma yields_bind:
  assumes "yields s m P" and "\<And>y b1. P y b1 \<Longrightarrow> yields s (k y) (\<lambda>x b2. R x (b1 @ b2))"
  shows "yields s (rd_bind m k) R"
  unfolding yields_def
proof (intro allI impI)
  fix r x r'
  assume r: "rd_ok r" "s \<longrightarrow> length (rd_todo r) < 2 ^ 16" and res: "rd_bind m k r = (Inr x, r')"
  then obtain y r1 where m: "m r = (Inr y, r1)" and k: "k y r1 = (Inr x, r')"
    by (auto simp: rd_bind_def split: prod.splits sum.splits)
  obtain n where n: "n \<le> length (rd_todo r)" "r1 = rd_advance r n" "P y (take n (rd_todo r))"
    using assms(1) r m unfolding yields_def by blast
  have "rd_ok r1" "s \<longrightarrow> length (rd_todo r1) < 2 ^ 16" using n r rd_ok_advance [of r n] by auto
  then obtain l where l: "l \<le> length (rd_todo r1)" "r' = rd_advance r1 l" "R x (take n (rd_todo r) @ take l (rd_todo r1))"
    using assms(2) [OF n(3)] k unfolding yields_def by blast
  have "take (n + l) (rd_todo r) = take n (rd_todo r) @ take l (rd_todo r1)" using n(2) by (simp add: take_add)
  then show "\<exists>n \<le> length (rd_todo r). r' = rd_advance r n \<and> R x (take n (rd_todo r))"
    using n l by (intro exI [of _ "n + l"]) auto
qed

lemma yields_map: "yields s m (\<lambda>y bs. P (f y) bs) \<Longrightarrow> yields s (rd_map f m) P"
  unfolding rd_map_def by (erule yields_bind) (simp add: yields_return)

lemma yields_if:
  "(c \<Longrightarrow> yields s m P) \<Longrightarrow> (\<not> c \<Longrightarrow> yields s m' P) \<Longrightarrow> yields s (if c then m else m') P"
  by simp

lemma yields_payload: "yields s read_payload (\<lambda>x bs. x = bs)"
  by (auto simp: yields_def read_payload_eq)

text \<open>Inside a sub-reader, with nothing left over at its end.\<close>

lemma yields_inside:
  assumes "yields s body P"
  shows "yields s (rd_inside n (rd_bind body (\<lambda>x. rd_end name (f x)))) (\<lambda>x bs. length bs = n \<and> (\<exists>y. x = f y \<and> P y bs))"
  unfolding yields_def
proof (intro allI impI)
  fix r x r'
  assume r: "rd_ok r" "s \<longrightarrow> length (rd_todo r) < 2 ^ 16"
    and res: "rd_inside n (rd_bind body (\<lambda>x. rd_end name (f x))) r = (Inr x, r')"
  let ?sub = "rd_init (take n (rd_todo r))"
  have n: "n \<le> length (rd_todo r)" "r' = rd_advance r n" and sub: "fst (rd_bind body (\<lambda>x. rd_end name (f x)) ?sub) = Inr x"
    using res r by (auto simp: rd_inside_def rd_bind_def [of "rd_sub n"] rd_sub_eq split: if_splits)
  then obtain y r1 where y: "body ?sub = (Inr y, r1)" "x = f y" "\<not> any_left r1"
    by (auto simp: rd_bind_def rd_end_def expect_empty_def split: prod.splits sum.splits if_splits)
  moreover have "s \<longrightarrow> length (rd_todo ?sub) < 2 ^ 16" using r(2) by auto
  ultimately obtain l where l: "l \<le> length (rd_todo ?sub)" "r1 = rd_advance ?sub l" "P y (take l (rd_todo ?sub))"
    using assms rd_todo_init(2) unfolding yields_def by blast
  have "rd_ok r1" using l n(1) rd_ok_advance [of ?sub l] by simp
  then have "l = n" using y(3) l n(1) by (simp add: any_left_todo)
  then show "\<exists>m \<le> length (rd_todo r). r' = rd_advance r m \<and> (length (take m (rd_todo r)) = n \<and> (\<exists>y. x = f y \<and> P y (take m (rd_todo r))))"
    using n l y(2) by (intro exI [of _ n]) (auto simp: min_def)
qed

section \<open>Codecs\<close>

context codec
begin

lemma enc_wire: "enc x bytes = bytes @ wire enc x"
  unfolding wire_def by (rule enc_append)

lemma decodes_wire: "ok x \<Longrightarrow> decodes rd (wire enc x) x"
  using read_enc by (simp add: decodes_def wire_def)

end

lemma list_codecI:
  assumes "\<And>x bytes. enc x bytes = bytes @ wire enc x" and "\<And>x. ok x \<Longrightarrow> decodes rd (wire enc x) x" and "yields False rd (\<lambda>x bs. bs \<noteq> [])"
  shows "list_codec enc rd ok"
proof
  show "enc x bytes = bytes @ enc x []" for x bytes using assms(1) [of x bytes] by (simp add: wire_def)
  show "rd_ok r \<Longrightarrow> ok x \<Longrightarrow> rd_todo r = enc x [] @ rest \<Longrightarrow> rd r = (Inr x, rd_advance r (length (enc x [])))" for r x rest
    using assms(2) by (simp add: decodes_def wire_def)
  show "rd_ok r \<Longrightarrow> rd r = (Inr x, r') \<Longrightarrow> \<exists>n > 0. n \<le> length (rd_todo r) \<and> r' = rd_advance r n" for r x r'
    using assms(3) unfolding yields_def by (metis neq0_conv take_0)
qed

text \<open>A codec is exact when what it reads is the encoding of what it returns.\<close>

locale exact_codec = list_codec +
  assumes exact: "yields True rd (\<lambda>x bs. wire enc x = bs)"
begin

lemma read_elems_exact:
  assumes "rd_ok sub" and "length (rd_todo sub) < 2 ^ 16" and "read_elems rd sub acc = Some (Inr ys)"
  shows "\<exists>xs. ys = acc @ xs \<and> concat (map (wire enc) xs) = rd_todo sub"
  using assms
proof (induction "length (rd_todo sub)" arbitrary: sub acc rule: less_induct)
  case less
  show ?case
  proof (cases "any_left sub")
    case False
    then show ?thesis using less.prems by (simp add: read_elems.simps any_left_todo)
  next
    case True
    then obtain x sub' where step: "rd sub = (Inr x, sub')" "read_elems rd sub' (acc @ [x]) = Some (Inr ys)"
      using less.prems(3) by (subst (asm) read_elems.simps) (auto split: prod.splits sum.splits)
    obtain n where n: "n \<le> length (rd_todo sub)" "sub' = rd_advance sub n" "wire enc x = take n (rd_todo sub)"
      using exact less.prems(1,2) step(1) unfolding yields_def by blast
    have "0 < n" using progress [OF less.prems(1) step(1)] n by (auto simp: rd_advance_def dest: arg_cong [of _ _ rd_cursor])
    then have "length (rd_todo sub') < length (rd_todo sub)" "rd_ok sub'"
      using n rd_ok_advance [OF less.prems(1)] by simp_all
    from less.hyps [OF this(1,2) _ step(2)] less.prems(2) n this(1)
    obtain xs where "ys = (acc @ [x]) @ xs" "concat (map (wire enc) xs) = rd_todo sub'" by auto
    then show ?thesis using n by (intro exI [of _ "x # xs"]) simp
  qed
qed

end

section \<open>Integers, payloads and enumerations\<close>

lemma yields_take:
  assumes "\<And>bs. length bs = n \<Longrightarrow> P (f bs) bs"
  shows "yields s (\<lambda>r. case rd_take r n of (Some bs, r) \<Rightarrow> (Inr (f bs), r) | (None, r) \<Rightarrow> (Inl e, r)) P"
  using assms by (auto simp: yields_def rd_take_eq split: if_splits)

lemma read_take:
  "read_u8 = (\<lambda>r. case rd_take r 1 of (Some bs, r) \<Rightarrow> (Inr (hd bs), r) | (None, r) \<Rightarrow> (Inl (MissingData ''u8''), r))"
  "read_u16 = (\<lambda>r. case rd_take r 2 of (Some bs, r) \<Rightarrow> (Inr (from_be_bytes bs), r) | (None, r) \<Rightarrow> (Inl (MissingData ''u8''), r))"
  "read_u24 = (\<lambda>r. case rd_take r 3 of (Some bs, r) \<Rightarrow> (Inr (U24 (from_be_bytes (0 # bs))), r) | (None, r) \<Rightarrow> (Inl (MissingData ''u24''), r))"
  "read_u32 = (\<lambda>r. case rd_take r 4 of (Some bs, r) \<Rightarrow> (Inr (from_be_bytes bs), r) | (None, r) \<Rightarrow> (Inl (MissingData ''u32''), r))"
proof -
  have len: "rd_take r n = (Some bs, r') \<Longrightarrow> length bs = n" for r n bs r'
    by (auto simp: rd_take_def rd_left_def split: if_splits)
  show "read_u8 = (\<lambda>r. case rd_take r 1 of (Some bs, r) \<Rightarrow> (Inr (hd bs), r) | (None, r) \<Rightarrow> (Inl (MissingData ''u8''), r))"
    by (auto simp: read_u8_def fun_eq_iff split: prod.splits option.splits list.splits dest: len)
  show "read_u16 = (\<lambda>r. case rd_take r 2 of (Some bs, r) \<Rightarrow> (Inr (from_be_bytes bs), r) | (None, r) \<Rightarrow> (Inl (MissingData ''u8''), r))"
    by (auto simp: read_u16_def fun_eq_iff split: prod.splits option.splits list.splits dest: len)
  show "read_u24 = (\<lambda>r. case rd_take r 3 of (Some bs, r) \<Rightarrow> (Inr (U24 (from_be_bytes (0 # bs))), r) | (None, r) \<Rightarrow> (Inl (MissingData ''u24''), r))"
    by (auto simp: read_u24_def fun_eq_iff split: prod.splits option.splits list.splits dest: len)
  show "read_u32 = (\<lambda>r. case rd_take r 4 of (Some bs, r) \<Rightarrow> (Inr (from_be_bytes bs), r) | (None, r) \<Rightarrow> (Inl (MissingData ''u32''), r))"
    by (auto simp: read_u32_def fun_eq_iff split: prod.splits option.splits list.splits dest: len)
qed

lemma u24_bytes: "length bs = 3 \<Longrightarrow> drop 1 (to_be_bytes 4 (from_be_bytes (0 # bs) :: u32)) = bs"
  by (subst to_be_bytes_from) simp_all

lemma u24_bytes_ok:
  assumes "length bs = 3"
  shows "u24_ok (U24 (from_be_bytes (0 # bs)))"
proof -
  have "be_nat (0 # bs) = be_nat bs" by (simp add: be_nat_def)
  moreover have "be_nat bs < 256 ^ 3" using be_nat_less [of bs] assms by simp
  ultimately show ?thesis by (simp add: u24_ok_def u24_usize_def from_be_bytes_def unat_of_nat)
qed

lemma yields_int:
  "yields s read_u8 (\<lambda>x bs. wire enc_u8 x = bs)"
  "yields s read_u16 (\<lambda>x bs. wire enc_u16 x = bs)"
  "yields s read_u24 (\<lambda>x bs. wire enc_u24 x = bs \<and> u24_ok x)"
  "yields s read_u32 (\<lambda>x bs. wire enc_u32 x = bs)"
  unfolding read_take
  by (rule yields_take; auto simp: wire_def enc_u8_def enc_u16_eq enc_u24_def enc_u32_def to_be_bytes_from u24_bytes u24_bytes_ok
      length_Suc_conv numeral_eq_Suc)+

lemma yields_body: "yields s (read_body n) (\<lambda>x bs. x = bs \<and> length bs = n)"
  by (auto simp: yields_def read_body_eq split: if_splits)

lemma yields_prefixed:
  "yields s read_payload_u8 (\<lambda>x bs. wire enc_payload_u8 x = bs \<and> bs \<noteq> [])"
  "yields s read_payload_u16 (\<lambda>x bs. wire enc_payload_u16 x = bs \<and> bs \<noteq> [])"
  "yields s read_payload_u24 (\<lambda>x bs. wire enc_payload_u24 x = bs \<and> bs \<noteq> [])"
proof -
  show "yields s read_payload_u8 (\<lambda>x bs. wire enc_payload_u8 x = bs \<and> bs \<noteq> [])"
    unfolding read_payload_u8_def
    by (rule yields_bind [OF yields_int(1)], rule yields_mono [OF yields_body]) (auto simp: wire_def enc_payload_u8_def enc_u8_def)
  show "yields s read_payload_u16 (\<lambda>x bs. wire enc_payload_u16 x = bs \<and> bs \<noteq> [])"
    unfolding read_payload_u16_def
    by (rule yields_bind [OF yields_int(2)], rule yields_mono [OF yields_body])
      (auto simp: wire_def enc_payload_u16_def enc_u16_eq dest: arg_cong [of _ _ length])
  show "yields s read_payload_u24 (\<lambda>x bs. wire enc_payload_u24 x = bs \<and> bs \<noteq> [])"
    unfolding read_payload_u24_def
    by (rule yields_bind [OF yields_int(3)], rule yields_mono [OF yields_body])
      (auto simp: wire_def enc_payload_u24_def enc_u24_def u24_usize_def dest: arg_cong [of _ _ length])
qed

lemma yields_enum8:
  "(\<And>b. get (from b) = b) \<Longrightarrow> yields s (read_enum8 name from) (\<lambda>x bs. wire (enc_enum8 get) x = bs \<and> from (get x) = x)"
  by (auto simp: yields_def read_enum8_def read_u8_eq wire_def enc_enum8_def enc_u8_def neq_Nil_conv Suc_le_eq
      split: if_splits intro!: exI [of _ 1])

lemma yields_enum16:
  "(\<And>b. get (from b) = b) \<Longrightarrow> yields s (read_enum16 name from) (\<lambda>x bs. wire (enc_enum16 get) x = bs \<and> from (get x) = x)"
  by (auto simp: yields_def read_enum16_def read_u16_eq wire_def enc_enum16_def enc_u16_eq to_be_bytes_from
      split: if_splits intro!: exI [of _ 2])

lemma enum8_exact: "(\<And>b. get (from b) = b) \<Longrightarrow> exact_codec (enc_enum8 get) (read_enum8 name from) (\<lambda>x. from (get x) = x)"
  by (intro exact_codec.intro enum8_list_codec exact_codec_axioms.intro yields_mono [OF yields_enum8]) auto

lemma enum16_exact: "(\<And>b. get (from b) = b) \<Longrightarrow> exact_codec (enc_enum16 get) (read_enum16 name from) (\<lambda>x. from (get x) = x)"
  by (intro exact_codec.intro enum16_list_codec exact_codec_axioms.intro yields_mono [OF yields_enum16]) auto

interpretation x8: exact_codec enc_payload_u8 read_payload_u8 "\<lambda>p. length p < 2 ^ 8"
  by unfold_locales (rule yields_mono [OF yields_prefixed(1)], simp)

interpretation x16: exact_codec enc_payload_u16 read_payload_u16 "\<lambda>p. length p < 2 ^ 16"
  by unfold_locales (rule yields_mono [OF yields_prefixed(2)], simp)

interpretation x24: exact_codec enc_payload_u24 read_payload_u24 "\<lambda>p. length p < 2 ^ 24"
  by unfold_locales (rule yields_mono [OF yields_prefixed(3)], simp)

section \<open>Lists\<close>

definition list_small :: "ListLength \<Rightarrow> bool" where
  "list_small sz \<longleftrightarrow> (case sz of LenU24 mx \<Rightarrow> 2 ^ 16 \<le> mx | _ \<Rightarrow> True)"

text \<open>The lists that a length prefix can carry.\<close>

definition vec_ok :: "ListLength \<Rightarrow> ('a \<Rightarrow> u8 list \<Rightarrow> u8 list) \<Rightarrow> ('a \<Rightarrow> bool) \<Rightarrow> 'a list \<Rightarrow> bool" where
  "vec_ok sz enc ok xs \<longleftrightarrow> list_all ok xs \<and> len_fits sz (length (concat (map (wire enc) xs)))"

lemma unat_u16_less: "unat (x :: u16) < 65536"
  using unsigned_less [of x] by simp

lemma yields_len:
  "yields s (read_len sz) (\<lambda>n bs. bs \<noteq> [] \<and> (len_prefix sz n = bs \<and> len_fits sz n \<or> sz = LenU24 n))"
proof (cases sz)
  case LenU8
  show ?thesis unfolding LenU8 read_len_def ListLength.case
    by (rule yields_bind [OF yields_int(1)], rule yields_return [unfolded rd_return_def])
      (auto simp: wire_def len_prefix_def enc_u8_def len_fits_def prefix_bytes_def)
next
  case LenU16
  show ?thesis unfolding LenU16 read_len_def ListLength.case
    by (rule yields_bind [OF yields_int(2)], rule yields_return [unfolded rd_return_def])
      (auto simp: wire_def len_prefix_def enc_u16_eq len_fits_def prefix_bytes_def unat_u16_less dest: arg_cong [of _ _ length])
next
  case (LenU24 mx)
  show ?thesis unfolding LenU24 read_len_def ListLength.case
    by (rule yields_bind [OF yields_int(3)], rule yields_return [unfolded rd_return_def])
      (auto simp: wire_def len_prefix_def enc_u24_def len_fits_def prefix_bytes_def u24_usize_def u24_ok_def min_def
        dest: arg_cong [of _ _ length])
qed

lemma yields_sub: "yields s (rd_sub n) (\<lambda>sub bs. length bs = n \<and> sub = rd_init bs)"
  by (auto simp: yields_def rd_sub_eq split: if_splits)

lemma yields_len_sub:
  "yields s (rd_bind (read_len sz) rd_sub)
     (\<lambda>sub bs. \<exists>p d. bs = p @ d \<and> p \<noteq> [] \<and> sub = rd_init d \<and> (len_prefix sz (length d) = p \<and> len_fits sz (length d) \<or> sz = LenU24 (length d)))"
  by (rule yields_bind [OF yields_len], rule yields_mono [OF yields_sub]) blast

lemma read_list_split:
  "read_list sz rd r = (Inr xs, r') \<Longrightarrow> \<exists>sub. rd_bind (read_len sz) rd_sub r = (Inr sub, r') \<and> read_elems rd sub [] = Some (Inr xs)"
  by (auto simp: read_list_def read_vec_def split: option.splits prod.splits sum.splits)

lemma yields_list: "yields s (read_list sz rd) (\<lambda>xs bs. bs \<noteq> [])"
  unfolding yields_def
proof (intro allI impI)
  fix r xs r'
  assume r: "rd_ok r" and "s \<longrightarrow> length (rd_todo r) < 2 ^ 16" and "read_list sz rd r = (Inr xs, r')"
  then obtain sub where "rd_bind (read_len sz) rd_sub r = (Inr sub, r')" using read_list_split by blast
  then show "\<exists>n \<le> length (rd_todo r). r' = rd_advance r n \<and> take n (rd_todo r) \<noteq> []"
    using yields_len_sub [of False sz] r unfolding yields_def by (metis append_is_Nil_conv)
qed

context list_codec
begin

lemma read_list_vec: "rd_ok r \<Longrightarrow> read_vec sz rd r = Some (read_list sz rd r)"
  using read_vec_returns by (auto simp: read_list_def split: option.splits)

lemma enc_vec_wire: "enc_vec sz enc xs bytes = bytes @ wire (enc_vec sz enc) xs"
  by (simp add: wire_def enc_vec_eq)

lemma enc_vec_parts: "wire (enc_vec sz enc) xs = len_prefix sz (length (concat (map (wire enc) xs))) @ concat (map (wire enc) xs)"
  unfolding wire_def [abs_def] by (simp add: enc_vec_eq)

lemma decodes_list:
  assumes "vec_ok sz enc ok xs"
  shows "decodes (read_list sz rd) (wire (enc_vec sz enc) xs) xs"
  unfolding decodes_def
proof (intro allI impI)
  fix r rest
  assume "rd_ok r" and "rd_todo r = wire (enc_vec sz enc) xs @ rest"
  then show "read_list sz rd r = (Inr xs, rd_advance r (length (wire (enc_vec sz enc) xs)))"
    using read_vec_enc [of r xs sz rest] assms unfolding wire_def [abs_def] vec_ok_def by (simp add: read_list_def)
qed

end

context exact_codec
begin

lemma yields_list_exact:
  assumes "list_small sz"
  shows "yields True (read_list sz rd) (\<lambda>xs bs. wire (enc_vec sz enc) xs = bs)"
  unfolding yields_def
proof (intro allI impI)
  fix r xs r'
  assume r: "rd_ok r" "True \<longrightarrow> length (rd_todo r) < 2 ^ 16" and "read_list sz rd r = (Inr xs, r')"
  then obtain sub where sub: "rd_bind (read_len sz) rd_sub r = (Inr sub, r')" "read_elems rd sub [] = Some (Inr xs)"
    using read_list_split by blast
  then obtain n p d where n: "n \<le> length (rd_todo r)" "r' = rd_advance r n" "take n (rd_todo r) = p @ d" "sub = rd_init d"
      "len_prefix sz (length d) = p \<or> sz = LenU24 (length d)"
    using yields_len_sub [of True sz] r unfolding yields_def by blast
  have "length d < 2 ^ 16" using n(1) r(2) arg_cong [OF n(3), of length] by simp
  moreover from this have p: "len_prefix sz (length d) = p" using n(5) assms by (auto simp: list_small_def)
  ultimately have "concat (map (wire enc) xs) = d" using read_elems_exact [of sub "[]" xs] sub(2) n(4) by auto
  then have "wire (enc_vec sz enc) xs = take n (rd_todo r)" using p n(3) enc_vec_parts [of sz xs] by simp
  then show "\<exists>n \<le> length (rd_todo r). r' = rd_advance r n \<and> wire (enc_vec sz enc) xs = take n (rd_todo r)" using n by blast
qed

end

section \<open>Rules for structures\<close>

context exact_codec
begin

lemma yields_progress: "yields s rd (\<lambda>x bs. bs \<noteq> [])"
  unfolding yields_def using progress by fastforce

lemma yields_elem: "yields s rd (\<lambda>x bs. bs \<noteq> [] \<and> (s \<longrightarrow> wire enc x = bs))"
proof (cases s)
  case True
  then show ?thesis using yields_conj [OF yields_progress [of True] exact] by simp
next
  case False
  then show ?thesis using yields_progress [of False] by simp
qed

lemma yields_vec: "list_small sz \<Longrightarrow> yields s (read_list sz rd) (\<lambda>xs bs. bs \<noteq> [] \<and> (s \<longrightarrow> wire (enc_vec sz enc) xs = bs))"
  using yields_list [of s sz rd] yields_conj [OF yields_list [of True sz rd] yields_list_exact [of sz]] by (cases s) simp_all

end

text \<open>A structure is encoded as the concatenation \<open>w\<close> of its fields.\<close>

lemma exact_codecI:
  assumes "\<And>x bytes. enc x bytes = bytes @ w x" and "\<And>x. ok x \<Longrightarrow> decodes rd (w x) x" and "\<And>s. yields s rd (\<lambda>x bs. bs \<noteq> [] \<and> (s \<longrightarrow> w x = bs))"
  shows "exact_codec enc rd ok"
proof -
  have w: "wire enc x = w x" for x using assms(1) by (simp add: wire_def)
  have "list_codec enc rd ok"
    using assms(1,2) w yields_mono [OF assms(3) [of False], of "\<lambda>x bs. bs \<noteq> []"] by (intro list_codecI) auto
  moreover have "yields True rd (\<lambda>x bs. wire enc x = bs)"
    using yields_mono [OF assms(3) [of True], of "\<lambda>x bs. wire enc x = bs"] w by auto
  ultimately show ?thesis by (intro exact_codec.intro exact_codec_axioms.intro)
qed

lemma enc_enum_wire [wire_simps]:
  "enc_enum8 get x bytes = bytes @ wire (enc_enum8 get) x"
  "enc_enum16 get' y bytes = bytes @ wire (enc_enum16 get') y"
  "enc_payload p bytes = bytes @ p"
  by (simp_all add: wire_def enc_enum8_def enc_enum16_def enc_u8_def enc_u16_eq enc_payload_def)

lemmas enc_wires [wire_simps] = c16.enc_wire c24.enc_wire c32.enc_wire p8.enc_wire p16.enc_wire p24.enc_wire

lemma decodes_enum8: "from (get x) = x \<Longrightarrow> decodes (read_enum8 name from) (wire (enc_enum8 get) x) x"
  using codec.decodes_wire [OF list_codec.axioms(1) [OF enum8_list_codec]] .

lemma decodes_enum16: "from (get x) = x \<Longrightarrow> decodes (read_enum16 name from) (wire (enc_enum16 get) x) x"
  using codec.decodes_wire [OF list_codec.axioms(1) [OF enum16_list_codec]] .

lemmas decodes_elem =
  decodes_enum8 decodes_enum16 c16.decodes_wire [OF TrueI] c24.decodes_wire c32.decodes_wire [OF TrueI]
  p8.decodes_wire p16.decodes_wire p24.decodes_wire

lemma yields_words:
  "yields s read_u16 (\<lambda>x bs. bs \<noteq> [] \<and> (s \<longrightarrow> wire enc_u16 x = bs))"
  "yields s read_u24 (\<lambda>x bs. bs \<noteq> [] \<and> u24_ok x \<and> (s \<longrightarrow> wire enc_u24 x = bs))"
  "yields s read_u32 (\<lambda>x bs. bs \<noteq> [] \<and> (s \<longrightarrow> wire enc_u32 x = bs))"
  by (rule yields_mono [OF yields_int(2)] yields_mono [OF yields_int(3)] yields_mono [OF yields_int(4)];
      auto simp: wire_def enc_u16_eq enc_u24_def enc_u32_def dest: arg_cong [of _ _ length])+

lemmas yields_rules =
  yields_bind yields_map yields_return yields_fail yields_end yields_payload yields_words
  x8.yields_elem x16.yields_elem x24.yields_elem

end
