(* ===== verification/Tls_Handshake_Correct.thy ===== *)
theory Tls_Handshake_Correct
  imports Tls_Decode
begin

text \<open>
  The codecs of the structures inside handshake messages are interpretations of \<open>exact_codec\<close>: encoding appends, decoding gives
  back every well-formed value, and what is read is the encoding of what is returned.
\<close>

section \<open>Lists of enumerations and payloads\<close>

abbreviation canonical :: "('a \<Rightarrow> 'b) \<Rightarrow> ('b \<Rightarrow> 'a) \<Rightarrow> 'a \<Rightarrow> bool" where
  "canonical get from \<equiv> (\<lambda>x. from (get x) = x)"

abbreviation short :: "nat \<Rightarrow> u8 list \<Rightarrow> bool" where
  "short k \<equiv> (\<lambda>p. length p < 2 ^ k)"

lemmas enum_list_wire [wire_simps] = list_codec.enc_vec_wire [OF enum8_list_codec] list_codec.enc_vec_wire [OF enum16_list_codec]
lemmas payload_list_wire [wire_simps] = p8.enc_vec_wire p16.enc_vec_wire p24.enc_vec_wire

lemmas decodes_lists =
  list_codec.decodes_list [OF enum8_list_codec] list_codec.decodes_list [OF enum16_list_codec]
  p8.decodes_list p16.decodes_list p24.decodes_list

lemma list_small_simps [simp]: "list_small LenU8" "list_small LenU16" "list_small cert_list"
  by (simp_all add: list_small_def)

lemma yields_enum8':
  assumes "\<And>b. get (from b) = b"
  shows "yields s (read_enum8 name from) (\<lambda>x bs. bs \<noteq> [] \<and> canonical get from x \<and> (s \<longrightarrow> wire (enc_enum8 get) x = bs))"
  using yields_enum8 [of get "from", OF assms] by (rule yields_mono) (auto simp: wire_def enc_enum8_def enc_u8_def)

lemma yields_enum16':
  assumes "\<And>b. get (from b) = b"
  shows "yields s (read_enum16 name from) (\<lambda>x bs. bs \<noteq> [] \<and> canonical get from x \<and> (s \<longrightarrow> wire (enc_enum16 get) x = bs))"
proof -
  have "wire (enc_enum16 get) x \<noteq> []" for x
    by (auto simp: wire_def enc_enum16_def enc_u16_eq dest: arg_cong [of _ _ length])
  then show ?thesis by (intro yields_mono [OF yields_enum16 [of get "from", OF assms]]) auto
qed

lemmas yields_enums =
  yields_enum16' [of get_extension_type from_extension_type, OF get_from_extension_type] yields_enum16' [of get_named_group from_named_group, OF get_from_named_group] yields_enum16' [of get_signature_scheme from_signature_scheme, OF get_from_signature_scheme]
  yields_enum8' [of get_ec_point_format from_ec_point_format, OF get_from_ec_point_format] yields_enum8' [of get_ec_curve_type from_ec_curve_type, OF get_from_ec_curve_type] yields_enum8' [of get_compression from_compression, OF get_from_compression]
  yields_enum8' [of get_client_certificate_type from_client_certificate_type, OF get_from_client_certificate_type] yields_enum8' [of get_server_name_type from_server_name_type, OF get_from_server_name_type] yields_enum8' [of get_psk_mode from_psk_mode, OF get_from_psk_mode]
  yields_enum8' [of get_certificate_status_type from_certificate_status_type, OF get_from_certificate_status_type] yields_enum8' [of get_key_update_request from_key_update_request, OF get_from_key_update_request]
  yields_enum16' [of get_protocol_version from_protocol_version, OF get_from_protocol_version] yields_enum16' [of "\<lambda>x. x" "\<lambda>x. x", OF refl] yields_enum8' [of get_handshake_type from_handshake_type, OF get_from_handshake_type]

lemmas exact_enums =
  enum16_exact [of get_named_group from_named_group, OF get_from_named_group] enum16_exact [of get_signature_scheme from_signature_scheme, OF get_from_signature_scheme] enum8_exact [of get_ec_point_format from_ec_point_format, OF get_from_ec_point_format]
  enum8_exact [of get_compression from_compression, OF get_from_compression] enum8_exact [of get_client_certificate_type from_client_certificate_type, OF get_from_client_certificate_type] enum8_exact [of get_psk_mode from_psk_mode, OF get_from_psk_mode]
  enum16_exact [of get_protocol_version from_protocol_version, OF get_from_protocol_version] enum16_exact [of "\<lambda>x. x" "\<lambda>x. x", OF refl]

lemmas yields_lists =
  exact_enums [THEN exact_codec.yields_vec] x8.yields_vec x16.yields_vec x24.yields_vec

section \<open>Random and session identifiers\<close>

lemma random_wire [wire_simps]: "enc_random x bytes = bytes @ x"
  by (simp add: enc_random_def)

lemma decodes_random: "length x = 32 \<Longrightarrow> decodes read_random x x"
  unfolding read_random_def [abs_def] by (rule decodes_take)

lemma yields_random: "yields s read_random (\<lambda>x bs. bs \<noteq> [] \<and> length x = 32 \<and> (s \<longrightarrow> x = bs))"
  unfolding read_random_def [abs_def] by (rule yields_take) auto

definition sid_ok :: "SessionId \<Rightarrow> bool" where
  "sid_ok x \<longleftrightarrow> sid_len x \<le> 32 \<and> length (sid_data x) = 32 \<and> drop (sid_len x) (sid_data x) = replicate (32 - sid_len x) 0"

definition wire_sid :: "SessionId \<Rightarrow> u8 list" where
  "wire_sid x = word_of_nat (sid_len x) # take (sid_len x) (sid_data x)"

lemma sid_wire [wire_simps]: "enc_session_id x bytes = bytes @ wire_sid x"
  by (simp add: enc_session_id_def wire_sid_def)

lemma sid_pad: "sid_ok x \<Longrightarrow> overwrite (replicate 32 0) 0 (take (sid_len x) (sid_data x)) = sid_data x"
  using append_take_drop_id [of "sid_len x" "sid_data x"] by (simp add: sid_ok_def overwrite_def)

lemma decodes_sid:
  assumes "sid_ok x"
  shows "decodes read_session_id (wire_sid x) x"
proof -
  have len: "unat (word_of_nat (sid_len x) :: u8) = sid_len x" using assms by (simp add: sid_ok_def unat_of_nat)
  have fx: "\<lparr>sid_len = sid_len x, sid_data = overwrite (replicate 32 0) 0 (take (sid_len x) (sid_data x))\<rparr> = x"
    using sid_pad [OF assms] by simp
  have "decodes read_u8 [word_of_nat (sid_len x)] (word_of_nat (sid_len x))"
    using c8.decodes_wire [of "word_of_nat (sid_len x)"] by (simp add: wire_def enc_u8_def)
  moreover have "decodes (\<lambda>r. if 32 < unat (word_of_nat (sid_len x) :: u8) then (Inl (TrailingData ''SessionID''), r)
     else (case rd_take r (unat (word_of_nat (sid_len x) :: u8)) of
             (Some bs, r) \<Rightarrow> (Inr \<lparr>sid_len = unat (word_of_nat (sid_len x) :: u8), sid_data = overwrite (replicate 32 0) 0 bs\<rparr>, r)
           | (None, r) \<Rightarrow> (Inl (MissingData ''SessionID''), r))) (take (sid_len x) (sid_data x)) x"
    using decodes_take [of "take (sid_len x) (sid_data x)" "sid_len x" "MissingData ''SessionID''" "\<lambda>bs. \<lparr>sid_len = sid_len x, sid_data = overwrite (replicate 32 0) 0 bs\<rparr>"]
      assms unfolding len fx by (simp add: sid_ok_def)
  ultimately have "decodes read_session_id ([word_of_nat (sid_len x)] @ take (sid_len x) (sid_data x)) x"
    unfolding read_session_id_def by (rule decodes_bind)
  then show ?thesis by (simp add: wire_sid_def)
qed

lemma yields_sid: "yields s read_session_id (\<lambda>x bs. bs \<noteq> [] \<and> sid_ok x \<and> (s \<longrightarrow> wire_sid x = bs))"
  unfolding read_session_id_def
proof (rule yields_bind [OF yields_int(1)])
  fix len b1
  assume b1: "wire enc_u8 len = b1"
  let ?P = "\<lambda>x b2. b1 @ b2 \<noteq> [] \<and> sid_ok x \<and> (s \<longrightarrow> wire_sid x = b1 @ b2)"
  have pad: "?P \<lparr>sid_len = unat len, sid_data = overwrite (replicate 32 0) 0 bs\<rparr> bs" if "length bs = unat len" "unat len \<le> 32" for bs
    using that b1 by (auto simp: wire_def enc_u8_def sid_ok_def wire_sid_def overwrite_def)
  have "yields s (\<lambda>r. case rd_take r (unat len) of
             (Some bs, r) \<Rightarrow> (Inr \<lparr>sid_len = unat len, sid_data = overwrite (replicate 32 0) 0 bs\<rparr>, r)
           | (None, r) \<Rightarrow> (Inl (MissingData ''SessionID''), r)) ?P" if "unat len \<le> 32"
    by (rule yields_take) (use pad that in blast)
  then show "yields s (\<lambda>r. if 32 < unat len then (Inl (TrailingData ''SessionID''), r)
     else (case rd_take r (unat len) of
             (Some bs, r) \<Rightarrow> (Inr \<lparr>sid_len = unat len, sid_data = overwrite (replicate 32 0) 0 bs\<rparr>, r)
           | (None, r) \<Rightarrow> (Inl (MissingData ''SessionID''), r))) ?P"
    by (cases "32 < unat len") (simp_all add: yields_def)
qed

section \<open>Structures\<close>

definition kse_ok :: "KeyShareEntry \<Rightarrow> bool" where
  "kse_ok x \<longleftrightarrow> canonical get_named_group from_named_group (kse_group x) \<and> short 16 (kse_payload x)"

lemma key_share_exact: "exact_codec enc_key_share read_key_share kse_ok"
proof (rule exact_codecI [where w = "\<lambda>x. wire enc_named_group (kse_group x) @ wire enc_payload_u16 (kse_payload x)"])
  show "kse_ok x \<Longrightarrow> decodes read_key_share (wire enc_named_group (kse_group x) @ wire enc_payload_u16 (kse_payload x)) x" for x
    unfolding read_key_share_def kse_ok_def
    by (rule decodes_bind, rule decodes_elem, simp, rule decodes_last, rule decodes_elem, simp_all)
  show "yields s read_key_share (\<lambda>x bs. bs \<noteq> [] \<and> (s \<longrightarrow> wire enc_named_group (kse_group x) @ wire enc_payload_u16 (kse_payload x) = bs))" for s
    unfolding read_key_share_def by ((rule yields_rules yields_enums)+) auto
qed (simp add: enc_key_share_def wire_simps)

interpretation ks: exact_codec enc_key_share read_key_share kse_ok
  by (rule key_share_exact)

definition psk_identity_ok :: "PresharedKeyIdentity \<Rightarrow> bool" where
  "psk_identity_ok x \<longleftrightarrow> short 16 (psk_identity x)"

interpretation pski: exact_codec enc_psk_identity read_psk_identity psk_identity_ok
proof (rule exact_codecI [where w = "\<lambda>x. wire enc_payload_u16 (psk_identity x) @ wire enc_u32 (psk_ticket_age x)"])
  show "psk_identity_ok x \<Longrightarrow> decodes read_psk_identity (wire enc_payload_u16 (psk_identity x) @ wire enc_u32 (psk_ticket_age x)) x" for x
    unfolding read_psk_identity_def psk_identity_ok_def
    by (rule decodes_bind, rule decodes_elem, simp, rule decodes_last, rule decodes_elem, simp_all)
  show "yields s read_psk_identity (\<lambda>x bs. bs \<noteq> [] \<and> (s \<longrightarrow> wire enc_payload_u16 (psk_identity x) @ wire enc_u32 (psk_ticket_age x) = bs))" for s
    unfolding read_psk_identity_def by ((rule yields_rules)+) auto
qed (simp add: enc_psk_identity_def wire_simps)

definition psk_offer_ok :: "PresharedKeyOffer \<Rightarrow> bool" where
  "psk_offer_ok x \<longleftrightarrow> vec_ok LenU16 enc_psk_identity psk_identity_ok (pko_identities x) \<and> vec_ok LenU16 enc_payload_u8 (short 8) (pko_binders x)"

lemma psk_offer_wire:
  "enc_psk_offer x bytes = bytes @ wire (enc_list16 enc_psk_identity) (pko_identities x) @ wire (enc_list16 enc_payload_u8) (pko_binders x)"
  by (simp add: enc_psk_offer_def wire_simps pski.enc_vec_wire)

lemma decodes_psk_offer: "psk_offer_ok x \<Longrightarrow> decodes read_psk_offer (wire enc_psk_offer x) x"
  unfolding read_psk_offer_def psk_offer_ok_def wire_def [of enc_psk_offer] psk_offer_wire append_Nil
  by (rule decodes_bind, rule pski.decodes_list, simp, rule decodes_last, rule decodes_lists, simp_all)

lemma yields_psk_offer: "yields s read_psk_offer (\<lambda>x bs. s \<longrightarrow> wire enc_psk_offer x = bs)"
  unfolding read_psk_offer_def wire_def [of enc_psk_offer] psk_offer_wire
  by ((rule yields_rules yields_lists pski.yields_vec list_small_simps)+) auto

section \<open>Server names\<close>

text \<open>Only host names can stand anywhere in a list: an unknown kind of name takes the rest of the list with it.\<close>

definition server_name_ok :: "(u8 list \<Rightarrow> u8 list option) \<Rightarrow> ServerName \<Rightarrow> bool" where
  "server_name_ok dns x \<longleftrightarrow> sn_typ x = SNT_HostName
     \<and> (case sn_payload x of SNP_HostName raw name \<Rightarrow> short 16 raw \<and> dns raw = Some name | SNP_Unknown _ \<Rightarrow> False)"

definition wire_server_name_payload :: "ServerNamePayload \<Rightarrow> u8 list" where
  "wire_server_name_payload p = (case p of SNP_HostName raw name \<Rightarrow> wire enc_payload_u16 raw | SNP_Unknown raw \<Rightarrow> raw)"

lemma server_name_payload_wire [wire_simps]: "enc_server_name_payload p bytes = bytes @ wire_server_name_payload p"
  by (cases p) (simp_all add: wire_server_name_payload_def wire_simps)

lemma yields_hostname: "yields s (read_hostname dns) (\<lambda>p bs. s \<longrightarrow> wire_server_name_payload p = bs)"
proof -
  have "yields s (case dns raw of None \<Rightarrow> rd_fail InvalidServerName | Some name \<Rightarrow> rd_return (SNP_HostName raw name))
      (\<lambda>p b2. s \<longrightarrow> wire_server_name_payload p = b1 @ b2)" if "s \<longrightarrow> wire enc_payload_u16 raw = b1" for raw b1
    using that by (cases "dns raw") (auto simp: yields_fail wire_server_name_payload_def intro!: yields_return)
  then show ?thesis unfolding read_hostname_def by (intro yields_bind [OF x16.yields_elem]) blast
qed

lemma server_name_exact: "exact_codec enc_server_name (read_server_name dns) (server_name_ok dns)"
proof (rule exact_codecI [where w = "\<lambda>x. wire enc_server_name_type (sn_typ x) @ wire_server_name_payload (sn_payload x)"])
  show "server_name_ok dns x \<Longrightarrow> decodes (read_server_name dns) (wire enc_server_name_type (sn_typ x) @ wire_server_name_payload (sn_payload x)) x" for x
  proof -
    assume "server_name_ok dns x"
    then obtain raw name where x: "sn_typ x = SNT_HostName" "sn_payload x = SNP_HostName raw name" "short 16 raw" "dns raw = Some name"
      by (auto simp: server_name_ok_def split: ServerNamePayload.splits)
    have "decodes (read_hostname dns) (wire enc_payload_u16 raw @ []) (SNP_HostName raw name)"
      unfolding read_hostname_def by (rule decodes_bind [OF p16.decodes_wire [OF x(3)]]) (simp add: x(4) decodes_return)
    then have "decodes (read_server_name dns) (wire enc_server_name_type SNT_HostName @ wire enc_payload_u16 raw) \<lparr>sn_typ = SNT_HostName, sn_payload = SNP_HostName raw name\<rparr>"
      unfolding read_server_name_def
      by (intro decodes_bind [OF decodes_enum8]) (simp_all add: decodes_last from_server_name_type_def)
    then show ?thesis using x by (simp add: wire_server_name_payload_def) (metis (full_types) ServerName.surjective unit.exhaust)
  qed
  show "yields s (read_server_name dns) (\<lambda>x bs. bs \<noteq> [] \<and> (s \<longrightarrow> wire enc_server_name_type (sn_typ x) @ wire_server_name_payload (sn_payload x) = bs))" for s
    unfolding read_server_name_def
    by (rule yields_bind, rule yields_enums, rule yields_bind, rule yields_if, rule yields_hostname, rule yields_map, rule yields_mono, rule yields_payload)
      (auto simp: wire_server_name_payload_def intro!: yields_return)
qed (simp add: enc_server_name_def wire_simps)

section \<open>Certificate status requests\<close>

definition ocsp_ok :: "OCSPCertificateStatusRequest \<Rightarrow> bool" where
  "ocsp_ok x \<longleftrightarrow> vec_ok LenU16 enc_payload_u16 (short 16) (ocsp_responder_ids x) \<and> short 16 (ocsp_extensions x)"

definition wire_ocsp :: "OCSPCertificateStatusRequest \<Rightarrow> u8 list" where
  "wire_ocsp x = wire (enc_list16 enc_payload_u16) (ocsp_responder_ids x) @ wire enc_payload_u16 (ocsp_extensions x)"

lemma decodes_ocsp: "ocsp_ok x \<Longrightarrow> decodes read_ocsp_request (wire_ocsp x) x"
  unfolding read_ocsp_request_def ocsp_ok_def wire_ocsp_def
  by (rule decodes_bind, rule decodes_lists, simp, rule decodes_last, rule decodes_elem, simp_all)

lemma yields_ocsp: "yields s read_ocsp_request (\<lambda>x bs. s \<longrightarrow> wire_ocsp x = bs)"
  unfolding read_ocsp_request_def by ((rule yields_rules yields_lists list_small_simps)+) (auto simp: wire_ocsp_def)

definition status_request_ok :: "CertificateStatusRequest \<Rightarrow> bool" where
  "status_request_ok x = (case x of
     CSR_OCSP r \<Rightarrow> ocsp_ok r
   | CSR_Unknown typ payload \<Rightarrow> typ \<noteq> CST_OCSP \<and> canonical get_certificate_status_type from_certificate_status_type typ)"

definition wire_status_request :: "CertificateStatusRequest \<Rightarrow> u8 list" where
  "wire_status_request x = (case x of
     CSR_OCSP r \<Rightarrow> wire enc_certificate_status_type CST_OCSP @ wire_ocsp r
   | CSR_Unknown typ payload \<Rightarrow> wire enc_certificate_status_type typ @ payload)"

lemma status_request_wire [wire_simps]: "enc_status_request x bytes = bytes @ wire_status_request x"
  by (cases x) (simp_all add: wire_status_request_def enc_ocsp_request_def wire_ocsp_def wire_simps)

lemma decodes_status_request:
  assumes "status_request_ok x"
  shows "decodes_all read_status_request (wire_status_request x) x"
proof (cases x)
  case (CSR_OCSP r)
  have "decodes (rd_map CSR_OCSP read_ocsp_request) (wire_ocsp r) x"
    using assms CSR_OCSP by (intro decodes_map [OF decodes_ocsp]) (simp_all add: status_request_ok_def)
  then show ?thesis
    unfolding read_status_request_def wire_status_request_def CSR_OCSP CertificateStatusRequest.case
    by (intro decodes_all_bind [OF decodes_enum8] decodes_all_weaken) (simp_all add: CSR_OCSP from_certificate_status_type_def)
next
  case (CSR_Unknown ty payload)
  then have "ty \<noteq> CST_OCSP" "canonical get_certificate_status_type from_certificate_status_type ty"
    using assms by (simp_all add: status_request_ok_def)
  then show ?thesis
    unfolding read_status_request_def wire_status_request_def CSR_Unknown CertificateStatusRequest.case
    by (intro decodes_all_bind [OF decodes_enum8]) (simp_all add: decodes_all_last [OF decodes_all_payload])
qed

lemma yields_status_request: "yields s read_status_request (\<lambda>x bs. s \<longrightarrow> wire_status_request x = bs)"
  unfolding read_status_request_def
proof (rule yields_bind, rule yields_enums)
  fix ty b1
  assume b1: "b1 \<noteq> [] \<and> canonical get_certificate_status_type from_certificate_status_type ty \<and> (s \<longrightarrow> wire enc_certificate_status_type ty = b1)"
  show "yields s (if ty = CST_OCSP then rd_map CSR_OCSP read_ocsp_request else rd_bind read_payload (\<lambda>data. rd_return (CSR_Unknown ty data)))
      (\<lambda>x b2. s \<longrightarrow> wire_status_request x = b1 @ b2)"
    using b1
    by (cases "ty = CST_OCSP")
      (auto simp: wire_status_request_def intro!: yields_map yields_mono [OF yields_ocsp] yields_bind [OF yields_payload] yields_return)
qed

section \<open>Extensions\<close>

definition unknown_ok :: "UnknownExtension \<Rightarrow> bool" where
  "unknown_ok u \<longleftrightarrow> canonical get_extension_type from_extension_type (ue_typ u)"

lemma decodes_unknown: "ue_typ u = typ \<Longrightarrow> decodes_all (read_unknown_extension typ) (ue_payload u) u"
  unfolding read_unknown_extension_def by (rule decodes_all_last, rule decodes_all_payload) auto

lemma yields_unknown: "yields s (read_unknown_extension typ) (\<lambda>u bs. ue_typ u = typ \<and> ue_payload u = bs)"
  unfolding read_unknown_extension_def by ((rule yields_rules)+) auto

lemma extension_wire:
  "enc_extension typ sub bytes = bytes @ wire enc_extension_type typ @ wire enc_u16 (word_of_nat (length sub)) @ sub"
  by (simp add: enc_extension_def wire_simps)

lemma extension_exact:
  assumes enc: "\<And>e bytes. enc e bytes = enc_extension (get_type e) (body e) bytes"
    and ok: "\<And>e. ok e \<Longrightarrow> canonical get_extension_type from_extension_type (get_type e) \<and> short 16 (body e) \<and> decodes_all (rd (get_type e)) (body e) e"
    and yields: "\<And>s typ. canonical get_extension_type from_extension_type typ \<Longrightarrow> yields s (rd typ) (\<lambda>e bs. get_type e = typ \<and> (s \<longrightarrow> body e = bs))"
  shows "exact_codec enc (read_extension name rd) ok"
proof (rule exact_codecI [where w = "\<lambda>e. wire enc_extension_type (get_type e) @ wire enc_u16 (word_of_nat (length (body e))) @ body e"])
  show "enc e bytes = bytes @ wire enc_extension_type (get_type e) @ wire enc_u16 (word_of_nat (length (body e))) @ body e" for e bytes
    by (simp add: enc extension_wire)
  show "ok e \<Longrightarrow> decodes (read_extension name rd) (wire enc_extension_type (get_type e) @ wire enc_u16 (word_of_nat (length (body e))) @ body e) e" for e
    unfolding read_extension_def using ok [of e]
    by (intro decodes_bind [OF decodes_enum16] decodes_bind [OF c16.decodes_wire [OF TrueI]] decodes_inside decodes_all_then [where y = e])
      (simp_all add: unat_of_nat decodes_all_end)
  show "yields s (read_extension name rd)
      (\<lambda>e bs. bs \<noteq> [] \<and> (s \<longrightarrow> wire enc_extension_type (get_type e) @ wire enc_u16 (word_of_nat (length (body e))) @ body e = bs))" for s
    unfolding read_extension_def
    by (rule yields_bind, rule yields_enums, rule yields_bind, rule yields_words, rule yields_mono, rule yields_inside, rule yields) auto
qed

end
