(* ===== verification/Tls_Extension_Correct.thy ===== *)
theory Tls_Extension_Correct
  imports Tls_Handshake_Correct
begin

text \<open>
  The six extension codecs are exact, for the well-formed extensions: lists that fit their length prefix, canonical enumerations,
  and unknown extensions whose type the decoder does not treat otherwise.
\<close>

section \<open>Rules\<close>

lemma yields_mapE: "yields s m Q \<Longrightarrow> (\<And>y bs. Q y bs \<Longrightarrow> P (f y) bs) \<Longrightarrow> yields s (rd_map f m) P"
  by (rule yields_map) (rule yields_mono)

lemma yields_guard:
  assumes "yields s m P" and "P x []"
  shows "yields s (\<lambda>r. if any_left r then m r else (Inr x, r)) P"
  using assms by (auto simp: yields_def)

lemma decodes_guard:
  assumes "bs \<noteq> [] \<Longrightarrow> decodes_all m bs y" and "bs = [] \<Longrightarrow> x = y"
  shows "decodes_all (\<lambda>r. if any_left r then m r else (Inr x, r)) bs y"
  using assms by (auto simp: decodes_all_def any_left_todo)

lemma if_not_any_left: "(if \<not> any_left r then a else b) = (if any_left r then b else a)"
  by simp

lemmas yields_maps =
  yields_mapE [OF yields_unknown] yields_mapE [OF yields_payload] yields_mapE [OF x8.yields_elem] yields_mapE [OF x16.yields_elem]
  yields_mapE [OF ks.yields_elem] yields_mapE [OF yields_psk_offer] yields_mapE [OF yields_status_request]
  yields_lists [THEN yields_mapE] ks.yields_vec [THEN yields_mapE] exact_codec.yields_vec [OF server_name_exact, THEN yields_mapE]
  yields_words [THEN yields_mapE] yields_enums [THEN yields_mapE]

lemma decodes_all_mapW: "decodes m bs y \<Longrightarrow> f y = x \<Longrightarrow> decodes_all (rd_map f m) bs x"
  by (rule decodes_all_weaken) (rule decodes_map)

lemmas decodes_body =
  decodes_all_payload [THEN decodes_all_map] decodes_unknown [THEN decodes_all_map] decodes_status_request [THEN decodes_all_map]
  decodes_psk_offer [THEN decodes_all_mapW] decodes_elem [THEN decodes_all_mapW] decodes_lists [THEN decodes_all_mapW]
  ks.decodes_list [THEN decodes_all_mapW] ks.decodes_wire [THEN decodes_all_mapW]
  list_codec.decodes_list [OF exact_codec.axioms(1) [OF server_name_exact], THEN decodes_all_mapW]
  decodes_guard decodes_return [THEN decodes_all_weaken]

lemmas body_wire = wire_def [of "enc_vec sz enc" for sz enc, symmetric] wire_def [of enc_psk_offer, symmetric] wire_def [of enc_key_share, symmetric]

section \<open>Client extensions\<close>

definition ce_known :: "ExtensionType set" where
  "ce_known = {ET_ECPointFormats, ET_EllipticCurves, ET_SignatureAlgorithms, ET_ServerName, ET_SessionTicket, ET_ALProtocolNegotiation,
     ET_SupportedVersions, ET_KeyShare, ET_PSKKeyExchangeModes, ET_PreSharedKey, ET_Cookie, ET_StatusRequest, ET_TransportParameters,
     ET_TransportParametersDraft}"

definition ce_flags :: "ExtensionType set" where
  "ce_flags = {ET_ExtendedMasterSecret, ET_SCT, ET_EarlyData}"

definition ce_content_ok :: "(u8 list \<Rightarrow> u8 list option) \<Rightarrow> ClientExtension \<Rightarrow> bool" where
  "ce_content_ok dns e = (case e of
     CE_ECPointFormats r \<Rightarrow> vec_ok LenU8 enc_ec_point_format (canonical get_ec_point_format from_ec_point_format) r
   | CE_NamedGroups r \<Rightarrow> vec_ok LenU16 enc_named_group (canonical get_named_group from_named_group) r
   | CE_SignatureAlgorithms r \<Rightarrow> vec_ok LenU16 enc_signature_scheme (canonical get_signature_scheme from_signature_scheme) r
   | CE_ServerName r \<Rightarrow> vec_ok LenU16 enc_server_name (server_name_ok dns) r
   | CE_SessionTicket t \<Rightarrow> t \<noteq> ST_Offer []
   | CE_Protocols r \<Rightarrow> vec_ok LenU16 enc_payload_u8 (short 8) r
   | CE_SupportedVersions r \<Rightarrow> vec_ok LenU8 (enc_enum16 get_protocol_version) (canonical get_protocol_version from_protocol_version) r
   | CE_KeyShare r \<Rightarrow> vec_ok LenU16 enc_key_share kse_ok r
   | CE_PresharedKeyModes r \<Rightarrow> vec_ok LenU8 enc_psk_mode (canonical get_psk_mode from_psk_mode) r
   | CE_PresharedKey r \<Rightarrow> psk_offer_ok r
   | CE_Cookie r \<Rightarrow> short 16 r
   | CE_CertificateStatusRequest r \<Rightarrow> status_request_ok r
   | CE_Unknown u \<Rightarrow> unknown_ok u \<and> ue_typ u \<notin> ce_known \<and> (ue_typ u \<in> ce_flags \<longrightarrow> ue_payload u \<noteq> [])
   | _ \<Rightarrow> True)"

definition ce_ok :: "(u8 list \<Rightarrow> u8 list option) \<Rightarrow> ClientExtension \<Rightarrow> bool" where
  "ce_ok dns e \<longleftrightarrow> short 16 (ce_body e) \<and> ce_content_ok dns e"

lemma yields_client_body:
  "yields s (read_client_body dns ty) (\<lambda>e bs. ce_get_type e = ty \<and> (s \<longrightarrow> ce_body e = bs))"
  by (cases ty)
    (auto simp: read_client_body_def if_not_any_left wire_def [of "enc_vec sz enc" for sz enc] wire_def [of enc_psk_offer] wire_def [of enc_payload_u16]
        status_request_wire enc_payload_def intro!: yields_maps yields_guard)

lemma decodes_client_body:
  assumes "ce_content_ok dns e"
  shows "decodes_all (read_client_body dns (ce_get_type e)) (ce_body e) e"
proof (cases e)
  case (CE_SessionTicket t)
  then show ?thesis using assms
    by (cases t) (auto simp: read_client_body_def ce_content_ok_def wire_simps intro!: decodes_guard decodes_all_map [OF decodes_all_payload])
next
  case (CE_Unknown u)
  let ?t = "ue_typ u"
  have u: "?t \<notin> ce_known" "?t \<in> ce_flags \<Longrightarrow> ue_payload u \<noteq> []" using assms CE_Unknown by (simp_all add: ce_content_ok_def)
  have "decodes_all (rd_map CE_Unknown (read_unknown_extension ?t)) (ue_payload u) e"
    using CE_Unknown by (intro decodes_all_map [OF decodes_unknown]) simp_all
  then show ?thesis using u CE_Unknown
    by (auto simp: read_client_body_def ce_known_def ce_flags_def decodes_all_def any_left_todo wire_simps)
qed (use assms in \<open>auto simp: read_client_body_def ce_content_ok_def if_not_any_left body_wire wire_simps intro!: decodes_body\<close>)

interpretation ce: exact_codec enc_client_extension "read_client_extension dns" "ce_ok dns" for dns
  unfolding read_client_extension_def
proof (rule extension_exact)
  show "ce_ok dns e \<Longrightarrow> canonical get_extension_type from_extension_type (ce_get_type e) \<and> short 16 (ce_body e)
      \<and> decodes_all (read_client_body dns (ce_get_type e)) (ce_body e) e" for e
    using decodes_client_body [of dns e]
    by (cases e) (auto simp: ce_ok_def ce_content_ok_def unknown_ok_def from_extension_type_def)
qed (use yields_client_body in \<open>auto simp: enc_client_extension_def\<close>)

section \<open>Server extensions\<close>

definition se_known :: "ExtensionType set" where
  "se_known = {ET_ECPointFormats, ET_ServerName, ET_SessionTicket, ET_StatusRequest, ET_RenegotiationInfo, ET_ALProtocolNegotiation, ET_KeyShare,
     ET_PreSharedKey, ET_ExtendedMasterSecret, ET_SCT, ET_SupportedVersions, ET_TransportParameters, ET_TransportParametersDraft, ET_EarlyData}"

definition se_content_ok :: "ServerExtension \<Rightarrow> bool" where
  "se_content_ok e = (case e of
     SE_ECPointFormats r \<Rightarrow> vec_ok LenU8 enc_ec_point_format (canonical get_ec_point_format from_ec_point_format) r
   | SE_RenegotiationInfo r \<Rightarrow> short 8 r
   | SE_Protocols r \<Rightarrow> vec_ok LenU16 enc_payload_u8 (short 8) r
   | SE_KeyShare r \<Rightarrow> kse_ok r
   | SE_SignedCertificateTimestamp r \<Rightarrow> vec_ok LenU16 enc_payload_u16 (short 16) r
   | SE_SupportedVersions r \<Rightarrow> canonical get_protocol_version from_protocol_version r
   | SE_Unknown u \<Rightarrow> unknown_ok u \<and> ue_typ u \<notin> se_known
   | _ \<Rightarrow> True)"

definition se_ok :: "ServerExtension \<Rightarrow> bool" where
  "se_ok e \<longleftrightarrow> short 16 (se_body e) \<and> se_content_ok e"

lemmas body_defs = wire_def [of "enc_vec sz enc" for sz enc] wire_def [of enc_key_share] wire_def [of enc_payload_u8] wire_def [of enc_payload_u16]
  wire_def [of enc_u16] wire_def [of enc_u32] wire_def [of "enc_enum16 get" for get] enc_payload_def

lemma yields_server_body: "yields s (read_server_body ty) (\<lambda>e bs. se_get_type e = ty \<and> (s \<longrightarrow> se_body e = bs))"
  by (cases ty) (auto simp: read_server_body_def body_defs intro!: yields_maps yields_return)

lemma decodes_server_body: "se_content_ok e \<Longrightarrow> decodes_all (read_server_body (se_get_type e)) (se_body e) e"
  by (cases e) (auto simp: read_server_body_def se_content_ok_def se_known_def body_wire wire_simps intro!: decodes_body)

interpretation se: exact_codec enc_server_extension read_server_extension se_ok
  unfolding read_server_extension_def
proof (rule extension_exact)
  show "se_ok e \<Longrightarrow> canonical get_extension_type from_extension_type (se_get_type e) \<and> short 16 (se_body e)
      \<and> decodes_all (read_server_body (se_get_type e)) (se_body e) e" for e
    using decodes_server_body [of e] by (cases e) (auto simp: se_ok_def se_content_ok_def unknown_ok_def from_extension_type_def)
qed (use yields_server_body in \<open>auto simp: enc_server_extension_def\<close>)

section \<open>Hello retry extensions\<close>

definition hre_content_ok :: "HelloRetryExtension \<Rightarrow> bool" where
  "hre_content_ok e = (case e of
     HRE_KeyShare r \<Rightarrow> canonical get_named_group from_named_group r
   | HRE_Cookie r \<Rightarrow> short 16 r
   | HRE_SupportedVersions r \<Rightarrow> canonical get_protocol_version from_protocol_version r
   | HRE_Unknown u \<Rightarrow> unknown_ok u \<and> ue_typ u \<notin> {ET_KeyShare, ET_Cookie, ET_SupportedVersions})"

definition hre_ok :: "HelloRetryExtension \<Rightarrow> bool" where
  "hre_ok e \<longleftrightarrow> short 16 (hre_body e) \<and> hre_content_ok e"

lemma yields_retry_body: "yields s (read_retry_body ty) (\<lambda>e bs. hre_get_type e = ty \<and> (s \<longrightarrow> hre_body e = bs))"
  by (auto simp: read_retry_body_def body_defs intro!: yields_maps)

lemma decodes_retry_body: "hre_content_ok e \<Longrightarrow> decodes_all (read_retry_body (hre_get_type e)) (hre_body e) e"
  by (cases e) (auto simp: read_retry_body_def hre_content_ok_def wire_simps intro!: decodes_body)

interpretation hre: exact_codec enc_retry_extension read_retry_extension hre_ok
  unfolding read_retry_extension_def
proof (rule extension_exact)
  show "hre_ok e \<Longrightarrow> canonical get_extension_type from_extension_type (hre_get_type e) \<and> short 16 (hre_body e)
      \<and> decodes_all (read_retry_body (hre_get_type e)) (hre_body e) e" for e
    using decodes_retry_body [of e] by (cases e) (auto simp: hre_ok_def hre_content_ok_def unknown_ok_def from_extension_type_def)
qed (use yields_retry_body in \<open>auto simp: enc_retry_extension_def\<close>)

section \<open>Certificate extensions\<close>

definition wire_certificate_status :: "CertificateStatus \<Rightarrow> u8 list" where
  "wire_certificate_status x = wire enc_certificate_status_type CST_OCSP @ wire enc_payload_u24 (cs_ocsp_response x)"

lemma certificate_status_wire [wire_simps]: "enc_certificate_status x bytes = bytes @ wire_certificate_status x"
  by (simp add: enc_certificate_status_def wire_certificate_status_def wire_simps)

lemma decodes_certificate_status: "short 24 (cs_ocsp_response x) \<Longrightarrow> decodes read_certificate_status (wire_certificate_status x) x"
  unfolding read_certificate_status_def wire_certificate_status_def
  by (rule decodes_bind, rule decodes_enum8) (auto simp: from_certificate_status_type_def intro!: decodes_last p24.decodes_wire)

lemma yields_certificate_status: "yields s read_certificate_status (\<lambda>x bs. s \<longrightarrow> wire_certificate_status x = bs)"
  unfolding read_certificate_status_def
  by (rule yields_bind, rule yields_enums)
    (auto simp: wire_certificate_status_def yields_fail intro!: yields_bind [OF x24.yields_elem] yields_return)

definition cxe_content_ok :: "CertificateExtension \<Rightarrow> bool" where
  "cxe_content_ok e = (case e of
     CXE_CertificateStatus r \<Rightarrow> short 24 (cs_ocsp_response r)
   | CXE_SignedCertificateTimestamp r \<Rightarrow> vec_ok LenU16 enc_payload_u16 (short 16) r
   | CXE_Unknown u \<Rightarrow> unknown_ok u \<and> ue_typ u \<notin> {ET_StatusRequest, ET_SCT})"

definition cxe_ok :: "CertificateExtension \<Rightarrow> bool" where
  "cxe_ok e \<longleftrightarrow> short 16 (cxe_body e) \<and> cxe_content_ok e"

lemma yields_certificate_body: "yields s (read_certificate_body ty) (\<lambda>e bs. cxe_get_type e = ty \<and> (s \<longrightarrow> cxe_body e = bs))"
  by (auto simp: read_certificate_body_def body_defs certificate_status_wire intro!: yields_maps yields_mapE [OF yields_certificate_status])

lemma decodes_certificate_body: "cxe_content_ok e \<Longrightarrow> decodes_all (read_certificate_body (cxe_get_type e)) (cxe_body e) e"
  by (cases e) (auto simp: read_certificate_body_def cxe_content_ok_def body_wire wire_simps intro!: decodes_body decodes_certificate_status [THEN decodes_all_mapW])

interpretation cxe: exact_codec enc_certificate_extension read_certificate_extension cxe_ok
  unfolding read_certificate_extension_def
proof (rule extension_exact)
  show "cxe_ok e \<Longrightarrow> canonical get_extension_type from_extension_type (cxe_get_type e) \<and> short 16 (cxe_body e)
      \<and> decodes_all (read_certificate_body (cxe_get_type e)) (cxe_body e) e" for e
    using decodes_certificate_body [of e] by (cases e) (auto simp: cxe_ok_def cxe_content_ok_def unknown_ok_def from_extension_type_def)
qed (use yields_certificate_body in \<open>auto simp: enc_certificate_extension_def\<close>)

section \<open>Certificate request and ticket extensions\<close>

definition cre_content_ok :: "CertReqExtension \<Rightarrow> bool" where
  "cre_content_ok e = (case e of
     CRE_SignatureAlgorithms r \<Rightarrow> r \<noteq> [] \<and> vec_ok LenU16 enc_signature_scheme (canonical get_signature_scheme from_signature_scheme) r
   | CRE_AuthorityNames r \<Rightarrow> vec_ok LenU16 enc_payload_u16 (short 16) r
   | CRE_Unknown u \<Rightarrow> unknown_ok u \<and> ue_typ u \<notin> {ET_SignatureAlgorithms, ET_CertificateAuthorities})"

definition cre_ok :: "CertReqExtension \<Rightarrow> bool" where
  "cre_ok e \<longleftrightarrow> short 16 (cre_body e) \<and> cre_content_ok e"

lemma yields_certreq_body: "yields s (read_certreq_body ty) (\<lambda>e bs. cre_get_type e = ty \<and> (s \<longrightarrow> cre_body e = bs))"
proof -
  have sig: "yields s (rd_bind (read_list16 read_signature_scheme) (\<lambda>schemes.
       if schemes = [] then rd_fail NoSignatureSchemes else rd_return (CRE_SignatureAlgorithms schemes)))
      (\<lambda>e bs. cre_get_type e = ET_SignatureAlgorithms \<and> (s \<longrightarrow> cre_body e = bs))"
    by (rule yields_bind, rule yields_lists(2)) (auto simp: yields_fail wire_def intro!: yields_if yields_return)
  show ?thesis using sig by (auto simp: read_certreq_body_def body_defs intro!: yields_maps)
qed

lemma decodes_certreq_body:
  assumes "cre_content_ok e"
  shows "decodes_all (read_certreq_body (cre_get_type e)) (cre_body e) e"
proof (cases e)
  case (CRE_SignatureAlgorithms r)
  then have r: "r \<noteq> []" "vec_ok LenU16 enc_signature_scheme (canonical get_signature_scheme from_signature_scheme) r"
    using assms by (simp_all add: cre_content_ok_def)
  have "decodes_all (rd_bind (read_list16 read_signature_scheme) (\<lambda>schemes.
       if schemes = [] then rd_fail NoSignatureSchemes else rd_return (CRE_SignatureAlgorithms schemes)))
      (wire (enc_list16 enc_signature_scheme) r) e"
    using r CRE_SignatureAlgorithms by (intro decodes_all_then [OF decodes_all_weaken [OF decodes_lists(2)]]) (auto intro!: decodes_body)
  then show ?thesis using CRE_SignatureAlgorithms by (simp add: read_certreq_body_def wire_def)
qed (use assms in \<open>auto simp: read_certreq_body_def cre_content_ok_def body_wire wire_simps intro!: decodes_body\<close>)

interpretation cre: exact_codec enc_certreq_extension read_certreq_extension cre_ok
  unfolding read_certreq_extension_def
proof (rule extension_exact)
  show "cre_ok e \<Longrightarrow> canonical get_extension_type from_extension_type (cre_get_type e) \<and> short 16 (cre_body e)
      \<and> decodes_all (read_certreq_body (cre_get_type e)) (cre_body e) e" for e
    using decodes_certreq_body [of e] by (cases e) (auto simp: cre_ok_def cre_content_ok_def unknown_ok_def from_extension_type_def)
qed (use yields_certreq_body in \<open>auto simp: enc_certreq_extension_def\<close>)

definition nse_ok :: "NewSessionTicketExtension \<Rightarrow> bool" where
  "nse_ok e \<longleftrightarrow> short 16 (nse_body e) \<and> (case e of NSE_EarlyData r \<Rightarrow> True | NSE_Unknown u \<Rightarrow> unknown_ok u \<and> ue_typ u \<noteq> ET_EarlyData)"

lemma yields_ticket_body: "yields s (read_ticket_body ty) (\<lambda>e bs. nse_get_type e = ty \<and> (s \<longrightarrow> nse_body e = bs))"
  by (auto simp: read_ticket_body_def body_defs intro!: yields_maps)

lemma decodes_ticket_body: "nse_ok e \<Longrightarrow> decodes_all (read_ticket_body (nse_get_type e)) (nse_body e) e"
  by (cases e) (auto simp: read_ticket_body_def nse_ok_def wire_simps intro!: decodes_body)

interpretation nse: exact_codec enc_ticket_extension read_ticket_extension nse_ok
  unfolding read_ticket_extension_def
proof (rule extension_exact)
  show "nse_ok e \<Longrightarrow> canonical get_extension_type from_extension_type (nse_get_type e) \<and> short 16 (nse_body e)
      \<and> decodes_all (read_ticket_body (nse_get_type e)) (nse_body e) e" for e
    using decodes_ticket_body [of e] by (cases e) (auto simp: nse_ok_def unknown_ok_def from_extension_type_def)
qed (use yields_ticket_body in \<open>auto simp: enc_ticket_extension_def\<close>)

end
