(* ===== verification/Tls_Handshake_Thms.thy ===== *)
theory Tls_Handshake_Thms
  imports Tls_Extension_Correct
begin

text \<open>
  Handshake messages: every well-formed message is read back from its encoding, every message that is accepted was encoded
  canonically, and the lookups in the extensions find what they should.
\<close>

section \<open>Hellos\<close>

lemma decodes_returnI: "x = y \<Longrightarrow> decodes (rd_return x) [] y"
  by (simp add: decodes_return)

lemma read_optional_guard: "read_optional rd = (\<lambda>r. if any_left r then rd r else (Inr [], r))"
  by (simp add: read_optional_def fun_eq_iff)

lemma decodes_optional:
  assumes "xs \<noteq> [] \<Longrightarrow> decodes rd (w xs) xs \<and> w xs \<noteq> []"
  shows "decodes_all (read_optional rd) (if xs = [] then [] else w xs) xs"
  unfolding read_optional_guard using assms by (intro decodes_guard) (auto intro!: decodes_all_weaken split: if_splits)

context list_codec
begin

lemma wire_vec_nonempty: "wire (enc_vec sz enc) xs \<noteq> []"
proof -
  have "len_prefix sz n \<noteq> []" for n
    by (cases sz) (auto simp: len_prefix_def enc_u8_def enc_u16_eq enc_u24_def dest: arg_cong [of _ _ length])
  then show ?thesis by (simp add: enc_vec_parts)
qed

end

definition client_hello_ok :: "(u8 list \<Rightarrow> u8 list option) \<Rightarrow> ClientHelloPayload \<Rightarrow> bool" where
  "client_hello_ok dns ch \<longleftrightarrow> canonical get_protocol_version from_protocol_version (ch_client_version ch) \<and> length (ch_random ch) = 32
     \<and> sid_ok (ch_session_id ch) \<and> vec_ok LenU16 enc_cipher_suite (\<lambda>_. True) (ch_cipher_suites ch)
     \<and> vec_ok LenU8 enc_compression (canonical get_compression from_compression) (ch_compression_methods ch)
     \<and> ch_extensions ch \<noteq> [] \<and> vec_ok LenU16 enc_client_extension (ce_ok dns) (ch_extensions ch)"

definition wire_client_hello :: "ClientHelloPayload \<Rightarrow> u8 list" where
  "wire_client_hello ch = wire (enc_enum16 get_protocol_version) (ch_client_version ch) @ ch_random ch @ wire_sid (ch_session_id ch)
     @ wire (enc_list16 enc_cipher_suite) (ch_cipher_suites ch) @ wire (enc_list8 enc_compression) (ch_compression_methods ch)
     @ (if ch_extensions ch = [] then [] else wire (enc_list16 enc_client_extension) (ch_extensions ch))"

lemma client_hello_wire [wire_simps]: "enc_client_hello ch bytes = bytes @ wire_client_hello ch"
  by (simp add: enc_client_hello_def wire_client_hello_def wire_simps ce.enc_vec_wire)

lemma decodes_client_hello:
  assumes "client_hello_ok dns ch"
  shows "decodes_all (read_client_hello dns) (wire_client_hello ch) ch"
proof -
  have ext: "decodes_all (read_optional (read_list16 (read_client_extension dns)))
      (if ch_extensions ch = [] then [] else wire (enc_list16 enc_client_extension) (ch_extensions ch)) (ch_extensions ch)"
    using assms by (intro decodes_optional) (auto simp: client_hello_ok_def ce.wire_vec_nonempty intro!: ce.decodes_list)
  show ?thesis
    using assms unfolding read_client_hello_def wire_client_hello_def client_hello_ok_def
    by (intro decodes_all_bind [OF decodes_enum16] decodes_all_bind [OF decodes_random] decodes_all_bind [OF decodes_sid]
        decodes_all_bind [OF decodes_lists(2)] decodes_all_bind [OF decodes_lists(1)] decodes_all_then [OF ext])
      (auto simp: decodes_all_def any_left_todo)
qed

lemma yields_client_hello:
  "yields s (read_client_hello dns) (\<lambda>ch bs. ch_extensions ch \<noteq> [] \<and> (s \<longrightarrow> wire_client_hello ch = bs))"
proof -
  have ext: "yields s (read_optional (read_list16 (read_client_extension dns)))
      (\<lambda>exts bs. exts \<noteq> [] \<and> s \<longrightarrow> wire (enc_list16 enc_client_extension) exts = bs)"
    unfolding read_optional_guard by (intro yields_guard yields_mono [OF ce.yields_vec]) auto
  show ?thesis unfolding read_client_hello_def
    by (rule yields_bind, rule yields_enums, rule yields_bind, rule yields_random, rule yields_bind, rule yields_sid,
        rule yields_bind, rule yields_lists, simp, rule yields_bind, rule yields_lists, simp, rule yields_bind, rule ext)
      (auto simp: yields_def wire_client_hello_def)
qed

definition wire_server_tail :: "ServerHelloPayload \<Rightarrow> u8 list" where
  "wire_server_tail sh = wire_sid (sh_session_id sh) @ wire enc_cipher_suite (sh_cipher_suite sh)
     @ wire enc_compression (sh_compression_method sh)
     @ (if sh_extensions sh = [] then [] else wire (enc_list16 enc_server_extension) (sh_extensions sh))"

definition server_tail_ok :: "ServerHelloPayload \<Rightarrow> bool" where
  "server_tail_ok sh \<longleftrightarrow> sid_ok (sh_session_id sh) \<and> canonical get_compression from_compression (sh_compression_method sh)
     \<and> (sh_extensions sh = [] \<or> vec_ok LenU16 enc_server_extension se_ok (sh_extensions sh))"

lemma server_hello_wire [wire_simps]:
  "enc_server_hello sh bytes = bytes @ wire (enc_enum16 get_protocol_version) (sh_legacy_version sh) @ sh_random sh @ wire_server_tail sh"
  by (simp add: enc_server_hello_def wire_server_tail_def wire_simps se.enc_vec_wire)

lemma decodes_server_hello:
  assumes "server_tail_ok sh" and "sh_legacy_version sh = PV_Unknown 0" and "sh_random sh = ZERO_RANDOM"
  shows "decodes_all read_server_hello (wire_server_tail sh) sh"
proof -
  have ext: "decodes_all (read_optional (read_list16 read_server_extension))
      (if sh_extensions sh = [] then [] else wire (enc_list16 enc_server_extension) (sh_extensions sh)) (sh_extensions sh)"
    using assms by (intro decodes_optional) (auto simp: server_tail_ok_def se.wire_vec_nonempty intro!: se.decodes_list)
  show ?thesis
    using assms unfolding read_server_hello_def wire_server_tail_def server_tail_ok_def
    by (intro decodes_all_bind [OF decodes_enum16] decodes_all_bind [OF decodes_enum8] decodes_all_bind [OF decodes_sid]
        decodes_all_then [OF ext] decodes_all_end) auto
qed

lemma yields_server_hello:
  "yields s read_server_hello (\<lambda>sh bs. s \<and> sh_extensions sh \<noteq> [] \<longrightarrow> wire_server_tail sh = bs)"
proof -
  have ext: "yields s (read_optional (read_list16 read_server_extension))
      (\<lambda>exts bs. exts \<noteq> [] \<and> s \<longrightarrow> wire (enc_list16 enc_server_extension) exts = bs)"
    unfolding read_optional_guard by (intro yields_guard yields_mono [OF se.yields_vec]) auto
  show ?thesis unfolding read_server_hello_def
    by (rule yields_bind, rule yields_sid, rule yields_bind, rule yields_enums, rule yields_bind, rule yields_enums, rule yields_bind, rule ext)
      (auto simp: wire_server_tail_def intro!: yields_end)
qed

definition wire_retry_tail :: "HelloRetryRequest \<Rightarrow> u8 list" where
  "wire_retry_tail hrr = wire_sid (hrr_session_id hrr) @ wire enc_cipher_suite (hrr_cipher_suite hrr) @ wire enc_compression COMP_Null
     @ wire (enc_list16 enc_retry_extension) (hrr_extensions hrr)"

definition retry_tail_ok :: "HelloRetryRequest \<Rightarrow> bool" where
  "retry_tail_ok hrr \<longleftrightarrow> sid_ok (hrr_session_id hrr) \<and> vec_ok LenU16 enc_retry_extension hre_ok (hrr_extensions hrr)"

lemma hello_retry_wire [wire_simps]:
  "enc_hello_retry hrr bytes = bytes @ wire (enc_enum16 get_protocol_version) (hrr_legacy_version hrr) @ HELLO_RETRY_REQUEST_RANDOM @ wire_retry_tail hrr"
  by (simp add: enc_hello_retry_def wire_retry_tail_def wire_simps hre.enc_vec_wire)

lemma decodes_hello_retry:
  assumes "retry_tail_ok hrr" and "hrr_legacy_version hrr = PV_Unknown 0"
  shows "decodes read_hello_retry (wire_retry_tail hrr) hrr"
  using assms unfolding read_hello_retry_def wire_retry_tail_def retry_tail_ok_def
  by (intro decodes_bind [OF decodes_sid] decodes_bind [OF decodes_enum16] decodes_bind [OF decodes_enum8])
    (auto simp: from_compression_def intro!: decodes_last hre.decodes_list)

lemma yields_hello_retry: "yields s read_hello_retry (\<lambda>hrr bs. s \<longrightarrow> wire_retry_tail hrr = bs)"
  unfolding read_hello_retry_def
  by (rule yields_bind, rule yields_sid, rule yields_bind, rule yields_enums, rule yields_bind, rule yields_enums)
    (auto simp: wire_retry_tail_def yields_fail intro!: yields_bind [OF hre.yields_vec] yields_return)

section \<open>Certificates\<close>

definition entry_ok :: "CertificateEntry \<Rightarrow> bool" where
  "entry_ok x \<longleftrightarrow> short 24 (ce_cert x) \<and> vec_ok LenU16 enc_certificate_extension cxe_ok (ce_exts x)"

interpretation entry: exact_codec enc_certificate_entry read_certificate_entry entry_ok
proof (rule exact_codecI [where w = "\<lambda>x. wire enc_payload_u24 (ce_cert x) @ wire (enc_list16 enc_certificate_extension) (ce_exts x)"])
  show "entry_ok x \<Longrightarrow> decodes read_certificate_entry (wire enc_payload_u24 (ce_cert x) @ wire (enc_list16 enc_certificate_extension) (ce_exts x)) x" for x
    unfolding read_certificate_entry_def entry_ok_def
    by (intro decodes_bind [OF p24.decodes_wire] decodes_last [OF cxe.decodes_list]) auto
  show "yields s read_certificate_entry (\<lambda>x bs. bs \<noteq> [] \<and>
      (s \<longrightarrow> wire enc_payload_u24 (ce_cert x) @ wire (enc_list16 enc_certificate_extension) (ce_exts x) = bs))" for s
    unfolding read_certificate_entry_def by ((rule yields_rules cxe.yields_vec list_small_simps)+) auto
qed (simp add: enc_certificate_entry_def wire_simps cxe.enc_vec_wire)

definition wire_certificate_tls13 :: "CertificatePayloadTLS13 \<Rightarrow> u8 list" where
  "wire_certificate_tls13 x = wire enc_payload_u8 (cp_context x) @ wire (enc_vec cert_list enc_certificate_entry) (cp_entries x)"

definition certificate_tls13_ok :: "CertificatePayloadTLS13 \<Rightarrow> bool" where
  "certificate_tls13_ok x \<longleftrightarrow> short 8 (cp_context x) \<and> vec_ok cert_list enc_certificate_entry entry_ok (cp_entries x)"

lemma certificate_tls13_wire [wire_simps]: "enc_certificate_tls13 x bytes = bytes @ wire_certificate_tls13 x"
  by (simp add: enc_certificate_tls13_def wire_certificate_tls13_def wire_simps entry.enc_vec_wire)

lemma decodes_certificate_tls13: "certificate_tls13_ok x \<Longrightarrow> decodes read_certificate_tls13 (wire_certificate_tls13 x) x"
  unfolding read_certificate_tls13_def wire_certificate_tls13_def certificate_tls13_ok_def
  by (intro decodes_bind [OF p8.decodes_wire] decodes_last [OF entry.decodes_list]) auto

lemma yields_certificate_tls13: "yields s read_certificate_tls13 (\<lambda>x bs. s \<longrightarrow> wire_certificate_tls13 x = bs)"
  unfolding read_certificate_tls13_def
  by ((rule yields_rules entry.yields_vec list_small_simps)+) (auto simp: wire_certificate_tls13_def)

definition wire_certificate_request :: "CertificateRequestPayload \<Rightarrow> u8 list" where
  "wire_certificate_request x = wire (enc_list8 enc_client_certificate_type) (cr_certtypes x)
     @ wire (enc_list16 enc_signature_scheme) (cr_sigschemes x) @ wire (enc_list16 enc_payload_u16) (cr_canames x)"

definition certificate_request_ok :: "CertificateRequestPayload \<Rightarrow> bool" where
  "certificate_request_ok x \<longleftrightarrow> vec_ok LenU8 enc_client_certificate_type (canonical get_client_certificate_type from_client_certificate_type) (cr_certtypes x)
     \<and> vec_ok LenU16 enc_signature_scheme (canonical get_signature_scheme from_signature_scheme) (cr_sigschemes x) \<and> cr_sigschemes x \<noteq> []
     \<and> vec_ok LenU16 enc_payload_u16 (short 16) (cr_canames x)"

lemma certificate_request_wire [wire_simps]: "enc_certificate_request x bytes = bytes @ wire_certificate_request x"
  by (simp add: enc_certificate_request_def wire_certificate_request_def wire_simps)

lemma decodes_certificate_request:
  assumes "certificate_request_ok x"
  shows "decodes read_certificate_request (wire_certificate_request x) x"
proof -
  have "decodes read_certificate_request (wire_certificate_request x @ []) x"
    using assms unfolding read_certificate_request_def wire_certificate_request_def certificate_request_ok_def append_assoc
    by (intro decodes_bind [OF decodes_lists(1)] decodes_bind [OF decodes_lists(2)] decodes_bind [OF decodes_lists(4)])
      (auto intro!: decodes_returnI)
  then show ?thesis by simp
qed

lemma yields_certificate_request: "yields s read_certificate_request (\<lambda>x bs. s \<longrightarrow> wire_certificate_request x = bs)"
  unfolding read_certificate_request_def
  by ((rule yields_bind yields_lists list_small_simps)+) (auto simp: wire_certificate_request_def yields_fail intro!: yields_if yields_return)

definition wire_certificate_request_tls13 :: "CertificateRequestPayloadTLS13 \<Rightarrow> u8 list" where
  "wire_certificate_request_tls13 x = wire enc_payload_u8 (crt_context x) @ wire (enc_list16 enc_certreq_extension) (crt_extensions x)"

definition certificate_request_tls13_ok :: "CertificateRequestPayloadTLS13 \<Rightarrow> bool" where
  "certificate_request_tls13_ok x \<longleftrightarrow> short 8 (crt_context x) \<and> vec_ok LenU16 enc_certreq_extension cre_ok (crt_extensions x)"

lemma certificate_request_tls13_wire [wire_simps]: "enc_certificate_request_tls13 x bytes = bytes @ wire_certificate_request_tls13 x"
  by (simp add: enc_certificate_request_tls13_def wire_certificate_request_tls13_def wire_simps cre.enc_vec_wire)

lemma decodes_certificate_request_tls13: "certificate_request_tls13_ok x \<Longrightarrow> decodes read_certificate_request_tls13 (wire_certificate_request_tls13 x) x"
  unfolding read_certificate_request_tls13_def wire_certificate_request_tls13_def certificate_request_tls13_ok_def
  by (intro decodes_bind [OF p8.decodes_wire] decodes_last [OF cre.decodes_list]) auto

lemma yields_certificate_request_tls13: "yields s read_certificate_request_tls13 (\<lambda>x bs. s \<longrightarrow> wire_certificate_request_tls13 x = bs)"
  unfolding read_certificate_request_tls13_def
  by ((rule yields_rules cre.yields_vec list_small_simps)+) (auto simp: wire_certificate_request_tls13_def)

section \<open>Signatures, key exchange and tickets\<close>

definition dss_ok :: "DigitallySignedStruct \<Rightarrow> bool" where
  "dss_ok x \<longleftrightarrow> canonical get_signature_scheme from_signature_scheme (dss_scheme x) \<and> short 16 (dss_sig x)"

interpretation dss: exact_codec enc_dss read_dss dss_ok
proof (rule exact_codecI [where w = "\<lambda>x. wire enc_signature_scheme (dss_scheme x) @ wire enc_payload_u16 (dss_sig x)"])
  show "dss_ok x \<Longrightarrow> decodes read_dss (wire enc_signature_scheme (dss_scheme x) @ wire enc_payload_u16 (dss_sig x)) x" for x
    unfolding read_dss_def dss_ok_def by (intro decodes_bind [OF decodes_enum16] decodes_last [OF p16.decodes_wire]) auto
  show "yields s read_dss (\<lambda>x bs. bs \<noteq> [] \<and> (s \<longrightarrow> wire enc_signature_scheme (dss_scheme x) @ wire enc_payload_u16 (dss_sig x) = bs))" for s
    unfolding read_dss_def by ((rule yields_rules yields_enums)+) auto
qed (simp add: enc_dss_def wire_simps)

definition kx_ok :: "ECDHEServerKeyExchange \<Rightarrow> bool" where
  "kx_ok x \<longleftrightarrow> (let p = ecdhe_params x; c = secdh_curve_params p in
     ecp_curve_type c = ECT_NamedCurve \<and> canonical get_named_group from_named_group (ecp_named_group c) \<and> short 8 (secdh_public p) \<and> dss_ok (ecdhe_dss x))"

lemma ecdhe_wire:
  "enc_ecdhe_kx x bytes = bytes @ (wire enc_ec_curve_type (ecp_curve_type (secdh_curve_params (ecdhe_params x)))
     @ wire enc_named_group (ecp_named_group (secdh_curve_params (ecdhe_params x)))) @ wire enc_payload_u8 (secdh_public (ecdhe_params x)) @ wire enc_dss (ecdhe_dss x)"
  by (simp add: enc_ecdhe_kx_def enc_server_ecdh_def enc_ec_parameters_def wire_simps dss.enc_wire)

lemma decodes_ecdhe:
  assumes "kx_ok x"
  shows "decodes read_ecdhe_kx (wire enc_ecdhe_kx x) x"
proof -
  let ?p = "ecdhe_params x"
  let ?c = "secdh_curve_params ?p"
  have ok: "ecp_curve_type ?c = ECT_NamedCurve" "canonical get_named_group from_named_group (ecp_named_group ?c)" "short 8 (secdh_public ?p)" "dss_ok (ecdhe_dss x)"
    using assms by (simp_all add: kx_ok_def Let_def)
  have "decodes read_ec_parameters (wire enc_ec_curve_type (ecp_curve_type ?c) @ wire enc_named_group (ecp_named_group ?c)) ?c"
    unfolding read_ec_parameters_def using ok(1,2)
    by (intro decodes_bind [OF decodes_enum8]) (auto simp: from_ec_curve_type_def intro!: decodes_last [OF decodes_enum16])
  then have "decodes read_server_ecdh ((wire enc_ec_curve_type (ecp_curve_type ?c) @ wire enc_named_group (ecp_named_group ?c))
      @ wire enc_payload_u8 (secdh_public ?p)) ?p"
    unfolding read_server_ecdh_def using ok(3) by (intro decodes_bind decodes_last [OF p8.decodes_wire]) auto
  then have "decodes read_ecdhe_kx (((wire enc_ec_curve_type (ecp_curve_type ?c) @ wire enc_named_group (ecp_named_group ?c))
      @ wire enc_payload_u8 (secdh_public ?p)) @ wire enc_dss (ecdhe_dss x)) x"
    unfolding read_ecdhe_kx_def using ok(4) by (intro decodes_bind decodes_last [OF dss.decodes_wire]) auto
  then show ?thesis using ecdhe_wire [of x "[]"] by (simp add: wire_def [of enc_ecdhe_kx])
qed

definition wire_new_ticket :: "NewSessionTicketPayload \<Rightarrow> u8 list" where
  "wire_new_ticket x = wire enc_u32 (nst_lifetime_hint x) @ wire enc_payload_u16 (nst_ticket x)"

lemma new_ticket_wire [wire_simps]: "enc_new_ticket x bytes = bytes @ wire_new_ticket x"
  by (simp add: enc_new_ticket_def wire_new_ticket_def wire_simps)

lemma decodes_new_ticket: "short 16 (nst_ticket x) \<Longrightarrow> decodes read_new_ticket (wire_new_ticket x) x"
  unfolding read_new_ticket_def wire_new_ticket_def
  by (intro decodes_bind [OF c32.decodes_wire [OF TrueI]] decodes_last [OF p16.decodes_wire]) auto

lemma yields_new_ticket: "yields s read_new_ticket (\<lambda>x bs. s \<longrightarrow> wire_new_ticket x = bs)"
  unfolding read_new_ticket_def by ((rule yields_rules)+) (auto simp: wire_new_ticket_def)

definition wire_new_ticket_tls13 :: "NewSessionTicketPayloadTLS13 \<Rightarrow> u8 list" where
  "wire_new_ticket_tls13 x = wire enc_u32 (nst13_lifetime x) @ wire enc_u32 (nst13_age_add x) @ wire enc_payload_u8 (nst13_nonce x)
     @ wire enc_payload_u16 (nst13_ticket x) @ wire (enc_list16 enc_ticket_extension) (nst13_exts x)"

definition new_ticket_tls13_ok :: "NewSessionTicketPayloadTLS13 \<Rightarrow> bool" where
  "new_ticket_tls13_ok x \<longleftrightarrow> short 8 (nst13_nonce x) \<and> short 16 (nst13_ticket x) \<and> vec_ok LenU16 enc_ticket_extension nse_ok (nst13_exts x)"

lemma new_ticket_tls13_wire [wire_simps]: "enc_new_ticket_tls13 x bytes = bytes @ wire_new_ticket_tls13 x"
  by (simp add: enc_new_ticket_tls13_def wire_new_ticket_tls13_def wire_simps nse.enc_vec_wire)

lemma decodes_new_ticket_tls13: "new_ticket_tls13_ok x \<Longrightarrow> decodes read_new_ticket_tls13 (wire_new_ticket_tls13 x) x"
  unfolding read_new_ticket_tls13_def wire_new_ticket_tls13_def new_ticket_tls13_ok_def
  by (intro decodes_bind [OF c32.decodes_wire [OF TrueI]] decodes_bind [OF p8.decodes_wire] decodes_bind [OF p16.decodes_wire]
      decodes_last [OF nse.decodes_list]) auto

lemma yields_new_ticket_tls13: "yields s read_new_ticket_tls13 (\<lambda>x bs. s \<longrightarrow> wire_new_ticket_tls13 x = bs)"
  unfolding read_new_ticket_tls13_def by ((rule yields_rules nse.yields_vec list_small_simps)+) (auto simp: wire_new_ticket_tls13_def)

section \<open>The message\<close>

text \<open>The types whose payload is not read as unknown bytes.\<close>

definition hs_known :: "HandshakeType set" where
  "hs_known = {HT_ClientHello, HT_ServerHello, HT_Certificate, HT_ServerKeyExchange, HT_ServerHelloDone, HT_ClientKeyExchange, HT_CertificateRequest,
     HT_CertificateVerify, HT_NewSessionTicket, HT_EncryptedExtensions, HT_KeyUpdate, HT_EndOfEarlyData, HT_Finished, HT_CertificateStatus,
     HT_MessageHash, HT_HelloRetryRequest}"

definition hs_content_ok :: "(u8 list \<Rightarrow> u8 list option) \<Rightarrow> ProtocolVersion \<Rightarrow> HandshakeType \<Rightarrow> HandshakePayload \<Rightarrow> bool" where
  "hs_content_ok dns vers ty p = (case p of
     HP_HelloRequest \<Rightarrow> ty = HT_HelloRequest
   | HP_ClientHello x \<Rightarrow> ty = HT_ClientHello \<and> client_hello_ok dns x
   | HP_ServerHello x \<Rightarrow> ty = HT_ServerHello \<and> canonical get_protocol_version from_protocol_version (sh_legacy_version x)
       \<and> length (sh_random x) = 32 \<and> sh_random x \<noteq> HELLO_RETRY_REQUEST_RANDOM \<and> server_tail_ok x
   | HP_HelloRetryRequest x \<Rightarrow> ty = HT_HelloRetryRequest \<and> canonical get_protocol_version from_protocol_version (hrr_legacy_version x) \<and> retry_tail_ok x
   | HP_Certificate x \<Rightarrow> ty = HT_Certificate \<and> vers \<noteq> PV_TLSv1_3 \<and> vec_ok cert_list enc_payload_u24 (short 24) x
   | HP_CertificateTLS13 x \<Rightarrow> ty = HT_Certificate \<and> vers = PV_TLSv1_3 \<and> certificate_tls13_ok x
   | HP_ServerKeyExchange x \<Rightarrow> ty = HT_ServerKeyExchange \<and> (case x of SKX_Unknown _ \<Rightarrow> True | SKX_ECDHE _ \<Rightarrow> False)
   | HP_CertificateRequest x \<Rightarrow> ty = HT_CertificateRequest \<and> vers \<noteq> PV_TLSv1_3 \<and> certificate_request_ok x
   | HP_CertificateRequestTLS13 x \<Rightarrow> ty = HT_CertificateRequest \<and> vers = PV_TLSv1_3 \<and> certificate_request_tls13_ok x
   | HP_CertificateVerify x \<Rightarrow> ty = HT_CertificateVerify \<and> dss_ok x
   | HP_ServerHelloDone \<Rightarrow> ty = HT_ServerHelloDone
   | HP_EndOfEarlyData \<Rightarrow> ty = HT_EndOfEarlyData
   | HP_ClientKeyExchange x \<Rightarrow> ty = HT_ClientKeyExchange
   | HP_NewSessionTicket x \<Rightarrow> ty = HT_NewSessionTicket \<and> vers \<noteq> PV_TLSv1_3 \<and> short 16 (nst_ticket x)
   | HP_NewSessionTicketTLS13 x \<Rightarrow> ty = HT_NewSessionTicket \<and> vers = PV_TLSv1_3 \<and> new_ticket_tls13_ok x
   | HP_EncryptedExtensions x \<Rightarrow> ty = HT_EncryptedExtensions \<and> vec_ok LenU16 enc_server_extension se_ok x
   | HP_KeyUpdate x \<Rightarrow> ty = HT_KeyUpdate \<and> canonical get_key_update_request from_key_update_request x
   | HP_Finished x \<Rightarrow> ty = HT_Finished
   | HP_CertificateStatus x \<Rightarrow> ty = HT_CertificateStatus \<and> short 24 (cs_ocsp_response x)
   | HP_MessageHash x \<Rightarrow> False
   | HP_Unknown x \<Rightarrow> ty \<notin> hs_known \<and> (ty = HT_HelloRequest \<longrightarrow> x \<noteq> []) \<and> canonical get_handshake_type from_handshake_type ty)"

definition hs_ok :: "(u8 list \<Rightarrow> u8 list option) \<Rightarrow> ProtocolVersion \<Rightarrow> HandshakeMessagePayload \<Rightarrow> bool" where
  "hs_ok dns vers m \<longleftrightarrow> length (enc_handshake_payload (hmp_payload m) []) < 2 ^ 24 \<and> hs_content_ok dns vers (hmp_typ m) (hmp_payload m)"

definition wire_type :: "HandshakeType \<Rightarrow> HandshakeType" where
  "wire_type ty = (if ty = HT_HelloRetryRequest then HT_ServerHello else ty)"

lemmas payload_decodes =
  decodes_client_hello [THEN decodes_all_map] decodes_all_payload [THEN decodes_all_map]
  decodes_certificate_tls13 [THEN decodes_all_mapW] decodes_certificate_request [THEN decodes_all_mapW]
  decodes_certificate_request_tls13 [THEN decodes_all_mapW] dss.decodes_wire [THEN decodes_all_mapW]
  decodes_new_ticket [THEN decodes_all_mapW] decodes_new_ticket_tls13 [THEN decodes_all_mapW] se.decodes_list [THEN decodes_all_mapW]
  decodes_enum8 [THEN decodes_all_mapW] decodes_certificate_status [THEN decodes_all_mapW] p24.decodes_list [THEN decodes_all_mapW]

lemma left_todo: "rd_ok r \<Longrightarrow> rd_left r = 0 \<longleftrightarrow> rd_todo r = []"
  by (auto simp: rd_left_def rd_todo_def rd_ok_def)

lemma decodes_server_branch:
  assumes "canonical get_protocol_version from_protocol_version v" and "length rnd = 32" and "decodes_all (k v rnd) bs x"
  shows "decodes_all (rd_bind read_protocol_version (\<lambda>v. rd_bind read_random (\<lambda>rnd. k v rnd))) (wire (enc_enum16 get_protocol_version) v @ rnd @ bs) x"
  using assms by (intro decodes_all_bind [OF decodes_enum16] decodes_all_bind [OF decodes_random]) auto

lemma decodes_payload_of:
  assumes "hs_content_ok dns vers ty p"
  shows "decodes_all (read_payload_of dns vers (wire_type ty)) (enc_handshake_payload p []) (ty, p)"
proof (cases p)
  case HP_HelloRequest
  then show ?thesis using assms by (auto simp: hs_content_ok_def read_payload_of_def wire_type_def decodes_all_def left_todo)
next
  case (HP_ServerHello sh)
  let ?sh = "sh\<lparr>sh_legacy_version := PV_Unknown 0, sh_random := ZERO_RANDOM\<rparr>"
  have "decodes_all read_server_hello (wire_server_tail ?sh) ?sh"
    using assms HP_ServerHello by (intro decodes_server_hello) (simp_all add: hs_content_ok_def server_tail_ok_def)
  moreover have "wire_server_tail ?sh = wire_server_tail sh" by (simp add: wire_server_tail_def)
  ultimately have "decodes_all read_server_hello (wire_server_tail sh) ?sh" by simp
  then show ?thesis using assms HP_ServerHello
    by (auto simp: hs_content_ok_def read_payload_of_def wire_type_def wire_simps intro!: decodes_server_branch decodes_all_map)
next
  case (HP_HelloRetryRequest hrr)
  let ?hrr = "hrr\<lparr>hrr_legacy_version := PV_Unknown 0\<rparr>"
  have "decodes read_hello_retry (wire_retry_tail ?hrr) ?hrr"
    using assms HP_HelloRetryRequest by (intro decodes_hello_retry) (simp_all add: hs_content_ok_def retry_tail_ok_def)
  then have "decodes read_hello_retry (wire_retry_tail hrr) ?hrr" by (simp add: wire_retry_tail_def)
  then show ?thesis using assms HP_HelloRetryRequest
    by (auto simp: hs_content_ok_def read_payload_of_def wire_type_def wire_simps intro!: decodes_server_branch decodes_all_mapW)
      (simp add: HELLO_RETRY_REQUEST_RANDOM_def)
next
  case (HP_ServerKeyExchange x)
  then show ?thesis using assms
    by (auto simp: hs_content_ok_def read_payload_of_def wire_type_def read_server_kx_def wire_simps split: ServerKeyExchangePayload.splits
        intro!: decodes_all_map [OF decodes_all_map [OF decodes_all_payload]])
next
  case (HP_Unknown x)
  have "decodes_all (rd_map (\<lambda>x. (ty, HP_Unknown x)) read_payload) x (ty, p)"
    using HP_Unknown by (intro decodes_all_map [OF decodes_all_payload]) simp
  then show ?thesis using assms HP_Unknown
    by (auto simp: hs_content_ok_def read_payload_of_def wire_type_def hs_known_def decodes_all_def left_todo wire_simps)
qed (use assms in \<open>auto simp: hs_content_ok_def read_payload_of_def wire_type_def se.enc_vec_wire dss.enc_wire wire_simps intro!: payload_decodes decodes_all_end\<close>)

text \<open>The one case in which an accepted message is not encoded canonically: a server hello with an empty list of extensions,
  which is written without a list.\<close>

definition bare_server_hello :: "HandshakePayload \<Rightarrow> bool" where
  "bare_server_hello p = (case p of HP_ServerHello sh \<Rightarrow> sh_extensions sh = [] | _ \<Rightarrow> False)"

lemmas payload_yields =
  yields_mapE [OF yields_client_hello] yields_mapE [OF yields_payload] yields_mapE [OF yields_certificate_tls13] yields_mapE [OF yields_certificate_request]
  yields_mapE [OF yields_certificate_request_tls13] yields_mapE [OF dss.yields_elem] yields_mapE [OF yields_new_ticket]
  yields_mapE [OF yields_new_ticket_tls13] yields_mapE [OF se.yields_vec] yields_mapE [OF yields_certificate_status] yields_mapE [OF x24.yields_vec]
  yields_enums [THEN yields_mapE]

abbreviation exactly :: "bool \<Rightarrow> HandshakeType \<Rightarrow> HandshakeType \<times> HandshakePayload \<Rightarrow> u8 list \<Rightarrow> bool" where
  "exactly s ty \<equiv> (\<lambda>(ty', p) bs. wire_type ty' = ty \<and> (s \<and> \<not> bare_server_hello p \<longrightarrow> enc_handshake_payload p [] = bs))"

lemma yields_server_branch:
  "yields s (rd_bind read_protocol_version (\<lambda>version. rd_bind read_random (\<lambda>random.
       if random = HELLO_RETRY_REQUEST_RANDOM
       then rd_map (\<lambda>hrr. (HT_HelloRetryRequest, HP_HelloRetryRequest (hrr\<lparr>hrr_legacy_version := version\<rparr>))) read_hello_retry
       else rd_map (\<lambda>shp. (HT_ServerHello, HP_ServerHello (shp\<lparr>sh_legacy_version := version, sh_random := random\<rparr>))) read_server_hello)))
     (exactly s HT_ServerHello)"
  by (rule yields_bind, rule yields_enums, rule yields_bind, rule yields_random, rule yields_if)
    (auto simp: wire_simps wire_type_def bare_server_hello_def wire_retry_tail_def wire_server_tail_def
      intro!: yields_mapE [OF yields_hello_retry] yields_mapE [OF yields_server_hello] split: if_splits)

lemma yields_server_kx: "yields s read_server_kx (\<lambda>p bs. p = SKX_Unknown bs)"
  unfolding read_server_kx_def by (rule yields_mapE [OF yields_payload]) simp

lemma yields_payload_of: "yields s (read_payload_of dns vers ty) (exactly s ty)"
proof (cases "ty = HT_ServerHello")
  case True
  then show ?thesis using yields_server_branch by (simp add: read_payload_of_def)
next
  case False
  show ?thesis
  proof (cases "ty = HT_HelloRequest")
    case True
    have "yields s (rd_map (\<lambda>x. (ty, HP_Unknown x)) read_payload) (exactly s ty)"
      using True by (intro yields_mapE [OF yields_payload]) (auto simp: wire_type_def wire_simps)
    then show ?thesis using True by (auto simp: read_payload_of_def yields_def wire_type_def)
  next
    case False2: False
    show ?thesis using False False2
      by (cases ty; cases "vers = PV_TLSv1_3")
        (auto simp: read_payload_of_def wire_type_def yields_fail wire_simps se.enc_vec_wire dss.enc_wire
          intro!: payload_yields yields_end yields_mapE [OF yields_server_kx])
  qed
qed

section \<open>Properties\<close>

lemma handshake_wire:
  "enc_handshake_message m bytes = bytes @ wire (enc_enum8 get_handshake_type) (wire_type (hmp_typ m))
     @ wire enc_u24 (U24 (word_of_nat (length (enc_handshake_payload (hmp_payload m) [])))) @ enc_handshake_payload (hmp_payload m) []"
  by (simp add: enc_handshake_message_def wire_type_def wire_simps Let_def)

lemma hs_type_canonical: "hs_content_ok dns vers ty p \<Longrightarrow> canonical get_handshake_type from_handshake_type (wire_type ty)"
  by (cases p) (auto simp: hs_content_ok_def wire_type_def from_handshake_type_def)

lemma hs_decodes:
  assumes "hs_ok dns vers m"
  shows "decodes (read_version dns vers) (enc_handshake_message m []) m"
proof -
  let ?body = "enc_handshake_payload (hmp_payload m) []"
  have body: "decodes_all (read_payload_of dns vers (wire_type (hmp_typ m))) ?body (hmp_typ m, hmp_payload m)"
    using assms decodes_payload_of by (simp add: hs_ok_def)
  have len: "u24_ok (U24 (word_of_nat (length ?body))) \<and> u24_usize (U24 (word_of_nat (length ?body))) = length ?body"
    using assms u24_of_length by (simp add: hs_ok_def)
  show ?thesis
    unfolding read_version_def handshake_wire append_Nil
    using len hs_type_canonical [of dns vers "hmp_typ m" "hmp_payload m"] assms
    by (intro decodes_bind [OF decodes_enum8] decodes_bind [OF c24.decodes_wire] decodes_inside decodes_all_then [OF body])
      (simp_all add: hs_ok_def decodes_all_end)
qed

text \<open>C22: Handshake messages round-trip: reading the encoding of a well-formed handshake message, of any type and in any version of the
  protocol, gives back the message and stops right behind it.\<close>

theorem tls_handshake_roundtrip:
  assumes "hs_ok dns vers m" and "rd_ok r" and "rd_todo r = enc_handshake_message m [] @ rest"
  shows "read_version dns vers r = (Inr m, rd_advance r (length (enc_handshake_message m [])))"
  using hs_decodes [OF assms(1)] assms(2,3) by (simp add: decodes_def)

definition example_extensions :: HandshakeMessagePayload where
  "example_extensions = \<lparr>hmp_typ = HT_EncryptedExtensions, hmp_payload = HP_EncryptedExtensions
     [SE_EarlyData, SE_Protocols [[104, 50]], SE_Unknown \<lparr>ue_typ = ET_Padding, ue_payload = [0, 0]\<rparr>]\<rparr>"

lemma example_bytes: "enc_handshake_message example_extensions [] = [8, 0, 0, 21, 0, 19, 0, 42, 0, 0, 0, 16, 0, 5, 0, 3, 2, 104, 50, 0, 21, 0, 2, 0, 0]"
  and example_body: "enc_handshake_payload (hmp_payload example_extensions) [] = [0, 19, 0, 42, 0, 0, 0, 16, 0, 5, 0, 3, 2, 104, 50, 0, 21, 0, 2, 0, 0]"
  and example_exts: "map (wire enc_server_extension) [SE_EarlyData, SE_Protocols [[104, 50]], SE_Unknown \<lparr>ue_typ = ET_Padding, ue_payload = [0, 0]\<rparr>]
    = [[0, 42, 0, 0], [0, 16, 0, 5, 0, 3, 2, 104, 50], [0, 21, 0, 2, 0, 0]]"
  and example_alpn: "enc_list16 enc_payload_u8 [[104, 50]] [] = [0, 3, 2, 104, 50]"
  by code_simp+

lemma example_ok: "hs_ok (\<lambda>_. None) PV_TLSv1_3 example_extensions"
proof -
  have "list_all se_ok [SE_EarlyData, SE_Protocols [[104, 50]], SE_Unknown \<lparr>ue_typ = ET_Padding, ue_payload = [0, 0]\<rparr>]"
    by (simp add: se_ok_def se_content_ok_def vec_ok_def len_fits_def prefix_bytes_def wire_def example_alpn unknown_ok_def from_extension_type_def
        se_known_def enc_payload_def enc_payload_u8_def enc_u8_def)
  then have "vec_ok LenU16 enc_server_extension se_ok [SE_EarlyData, SE_Protocols [[104, 50]], SE_Unknown \<lparr>ue_typ = ET_Padding, ue_payload = [0, 0]\<rparr>]"
    unfolding vec_ok_def example_exts by (simp add: len_fits_def prefix_bytes_def)
  then show ?thesis unfolding hs_ok_def example_body by (simp add: hs_content_ok_def example_extensions_def)
qed

theorem tls_handshake_roundtrip_witness:
  "read_version (\<lambda>_. None) PV_TLSv1_3 (rd_init [8, 0, 0, 21, 0, 19, 0, 42, 0, 0, 0, 16, 0, 5, 0, 3, 2, 104, 50, 0, 21, 0, 2, 0, 0, 99])
     = (Inr example_extensions, rd_advance (rd_init [8, 0, 0, 21, 0, 19, 0, 42, 0, 0, 0, 16, 0, 5, 0, 3, 2, 104, 50, 0, 21, 0, 2, 0, 0, 99]) 25)"
  using tls_handshake_roundtrip [OF example_ok, of "rd_init [8, 0, 0, 21, 0, 19, 0, 42, 0, 0, 0, 16, 0, 5, 0, 3, 2, 104, 50, 0, 21, 0, 2, 0, 0, 99]" "[99]"]
  by (simp add: example_bytes eval_nat_numeral)

text \<open>C23: Handshake messages are not malleable: when a handshake message below 64 KiB (the limit of the deframer) is accepted, the bytes
  that were read are exactly the encoding of the message returned, so that two different byte strings never give the same
  message. The only exception is a server hello with an empty list of extensions.\<close>

theorem tls_handshake_canonical:
  assumes "length bs < 2 ^ 16" and "read_version dns vers (rd_init bs) = (Inr m, r')" and "\<not> bare_server_hello (hmp_payload m)"
  shows "\<exists>n \<le> length bs. r' = rd_advance (rd_init bs) n \<and> enc_handshake_message m [] = take n bs"
proof -
  let ?Q = "\<lambda>m bs. bare_server_hello (hmp_payload m) \<or> enc_handshake_message m [] = bs"
  have u24: "U24 (word_of_nat (u24_usize l)) = l" for l by (cases l) (simp add: u24_usize_def)
  have "yields True (read_version dns vers) ?Q"
    unfolding read_version_def case_prod_beta
    by (rule yields_bind, rule yields_enums, rule yields_bind, rule yields_words, rule yields_mono, rule yields_inside, rule yields_payload_of)
      (auto simp: handshake_wire u24)
  from this [unfolded yields_def, rule_format, of "rd_init bs" m r'] show ?thesis using assms by auto
qed

theorem tls_handshake_canonical_witness:
  "enc_handshake_message example_extensions [] = take 25 [8, 0, 0, 21, 0, 19, 0, 42, 0, 0, 0, 16, 0, 5, 0, 3, 2, 104, 50, 0, 21, 0, 2, 0, 0]"
proof -
  let ?bs = "[8, 0, 0, 21, 0, 19, 0, 42, 0, 0, 0, 16, 0, 5, 0, 3, 2, 104, 50, 0, 21, 0, 2, 0, 0] :: u8 list"
  have "decodes (read_version (\<lambda>_. None) PV_TLSv1_3) ?bs example_extensions"
    using hs_decodes [OF example_ok] by (simp add: example_bytes)
  then have read: "read_version (\<lambda>_. None) PV_TLSv1_3 (rd_init ?bs) = (Inr example_extensions, rd_advance (rd_init ?bs) 25)"
    by (simp add: decodes_def eval_nat_numeral)
  have "\<not> bare_server_hello (hmp_payload example_extensions)" by (simp add: bare_server_hello_def example_extensions_def)
  then obtain n where "rd_advance (rd_init ?bs) 25 = rd_advance (rd_init ?bs) n" "enc_handshake_message example_extensions [] = take n ?bs"
    using tls_handshake_canonical [OF _ read] by auto
  moreover from this(1) have "n = 25" by (simp add: rd_advance_def rd_init_def)
  ultimately show ?thesis by simp
qed

text \<open>Decoding ends: every loop over a list inside a handshake message comes to its end on every input, for each element
  type, so that the total decoder \<^const>\<open>read_list\<close> is the loop of the code.\<close>

theorem tls_handshake_lists_end:
  assumes "rd_ok r"
  shows "read_vec sz (read_client_extension dns) r = Some (read_list sz (read_client_extension dns) r)
    \<and> read_vec sz read_server_extension r = Some (read_list sz read_server_extension r)
    \<and> read_vec sz read_retry_extension r = Some (read_list sz read_retry_extension r)
    \<and> read_vec sz read_certificate_extension r = Some (read_list sz read_certificate_extension r)
    \<and> read_vec sz read_certificate_entry r = Some (read_list sz read_certificate_entry r)
    \<and> read_vec sz read_certreq_extension r = Some (read_list sz read_certreq_extension r)
    \<and> read_vec sz read_ticket_extension r = Some (read_list sz read_ticket_extension r)
    \<and> read_vec sz (read_server_name dns) r = Some (read_list sz (read_server_name dns) r)
    \<and> read_vec sz read_key_share r = Some (read_list sz read_key_share r)
    \<and> read_vec sz read_psk_identity r = Some (read_list sz read_psk_identity r)"
  using assms ce.read_list_vec se.read_list_vec hre.read_list_vec cxe.read_list_vec entry.read_list_vec cre.read_list_vec nse.read_list_vec
    list_codec.read_list_vec [OF exact_codec.axioms(1) [OF server_name_exact]] ks.read_list_vec pski.read_list_vec
  by simp

theorem tls_handshake_lists_end_witness:
  "read_vec LenU16 read_server_extension (rd_init [0, 4, 0, 42, 0, 0]) = Some (read_list LenU16 read_server_extension (rd_init [0, 4, 0, 42, 0, 0]))"
  using tls_handshake_lists_end [of "rd_init [0, 4, 0, 42, 0, 0]" LenU16 "\<lambda>_. None"] by simp

section \<open>Binders\<close>

abbreviation with_binders :: "ClientHelloPayload \<Rightarrow> ClientExtension list \<Rightarrow> PresharedKeyOffer \<Rightarrow> u8 list list \<Rightarrow> ClientHelloPayload" where
  "with_binders ch exts offer bs \<equiv> ch\<lparr>ch_extensions := exts @ [CE_PresharedKey (offer\<lparr>pko_binders := bs\<rparr>)]\<rparr>"

abbreviation "client_hello_message ch \<equiv> \<lparr>hmp_typ = HT_ClientHello, hmp_payload = HP_ClientHello ch\<rparr>"

lemma psk_extension_wire:
  "wire enc_client_extension (CE_PresharedKey (offer\<lparr>pko_binders := bs\<rparr>)) =
     (let ids = wire (enc_list16 enc_psk_identity) (pko_identities offer); W = wire (enc_list16 enc_payload_u8) bs in
      wire enc_extension_type ET_PreSharedKey @ wire enc_u16 (word_of_nat (length ids + length W)) @ ids @ W)"
  by (simp add: wire_def [of enc_client_extension] enc_client_extension_def extension_wire psk_offer_wire Let_def)

text \<open>The binders stand at the very end of the message, and what is before them depends on them only through their length.\<close>

lemma binders_last_in_hello:
  "\<exists>hello. \<forall>bs. length (wire (enc_list16 enc_payload_u8) bs) = L \<longrightarrow>
     wire_client_hello (with_binders ch exts offer bs) = hello @ wire (enc_list16 enc_payload_u8) bs"
proof -
  let ?ids = "wire (enc_list16 enc_psk_identity) (pko_identities offer)"
  let ?ext = "wire enc_extension_type ET_PreSharedKey @ wire enc_u16 (word_of_nat (length ?ids + L)) @ ?ids"
  let ?exts = "concat (map (wire enc_client_extension) exts) @ ?ext"
  let ?hello = "wire (enc_enum16 get_protocol_version) (ch_client_version ch) @ ch_random ch @ wire_sid (ch_session_id ch)
     @ wire (enc_list16 enc_cipher_suite) (ch_cipher_suites ch) @ wire (enc_list8 enc_compression) (ch_compression_methods ch)
     @ len_prefix LenU16 (length ?exts + L) @ ?exts"
  have "wire_client_hello (with_binders ch exts offer bs) = ?hello @ wire (enc_list16 enc_payload_u8) bs"
    if "length (wire (enc_list16 enc_payload_u8) bs) = L" for bs
  proof -
    have "concat (map (wire enc_client_extension) (exts @ [CE_PresharedKey (offer\<lparr>pko_binders := bs\<rparr>)])) = ?exts @ wire (enc_list16 enc_payload_u8) bs"
      using that by (simp add: psk_extension_wire Let_def)
    then show ?thesis using that by (simp add: wire_client_hello_def ce.enc_vec_parts add.assoc del: concat_append map_append)
  qed
  then show ?thesis by blast
qed

lemma binders_last:
  "\<exists>pre. \<forall>bs. length (wire (enc_list16 enc_payload_u8) bs) = L \<longrightarrow>
     enc_handshake_message (client_hello_message (with_binders ch exts offer bs)) [] = pre @ wire (enc_list16 enc_payload_u8) bs"
proof -
  obtain hello where hello: "\<And>bs. length (wire (enc_list16 enc_payload_u8) bs) = L \<Longrightarrow>
      wire_client_hello (with_binders ch exts offer bs) = hello @ wire (enc_list16 enc_payload_u8) bs"
    using binders_last_in_hello [where L = L and ch = ch and exts = exts and offer = offer] by blast
  show ?thesis
    by (rule exI [of _ "wire (enc_enum8 get_handshake_type) HT_ClientHello @ wire enc_u24 (U24 (word_of_nat (length hello + L))) @ hello"])
      (simp add: handshake_wire client_hello_wire wire_type_def hello)
qed

text \<open>The message a binder signs does not contain it: for a client hello that ends in a pre-shared key offer with binders, the
  truncated encoding exists, it is the encoding without the list of binders at its end, and writing the real first binder
  in place of another of the same length leaves the truncated encoding unchanged.\<close>

theorem tls_binder_signing:
  assumes "ch_extensions ch = exts @ [CE_PresharedKey offer]" and "pko_binders offer = old # rest" and "length new = length old"
  shows "\<exists>ch' pre. set_psk_binder ch new = Some ch' \<and> get_encoding_for_binder_signing (client_hello_message ch) = Some pre
    \<and> get_encoding_for_binder_signing (client_hello_message ch') = Some pre
    \<and> enc_handshake_message (client_hello_message ch') [] = pre @ enc_vec LenU16 enc_payload_u8 (new # rest) []"
proof -
  let ?W = "wire (enc_list16 enc_payload_u8)"
  let ?ch = "with_binders ch exts offer"
  have p8: "length (wire enc_payload_u8 p) = Suc (length p)" for p by (simp add: wire_def enc_payload_u8_def enc_u8_def)
  have W: "length (?W (new # rest)) = length (?W (old # rest))" using assms(3) by (simp add: p8.enc_vec_parts p8 len_prefix_def enc_u16_eq)
  obtain pre where pre: "\<And>bs. length (?W bs) = length (?W (old # rest)) \<Longrightarrow> enc_handshake_message (client_hello_message (?ch bs)) [] = pre @ ?W bs"
    using binders_last [where L = "length (?W (old # rest))" and ch = ch and exts = exts and offer = offer] by blast
  have sign: "get_encoding_for_binder_signing (client_hello_message (?ch bs)) = Some pre" if "length (?W bs) = length (?W (old # rest))" for bs
    using pre [OF that] by (simp add: get_encoding_for_binder_signing_def wire_def Let_def)
  have "?ch (old # rest) = ch" using assms(1,2) by simp
  moreover have "set_psk_binder ch new = Some (?ch (new # rest))" using assms(1,2) by (simp add: set_psk_binder_def store_def)
  ultimately show ?thesis using sign [of "old # rest"] sign [OF W] pre [OF W] by (auto simp: wire_def)
qed

definition example_hello :: ClientHelloPayload where
  "example_hello = \<lparr>ch_client_version = PV_TLSv1_2, ch_random = replicate 32 7, ch_session_id = sid_empty, ch_cipher_suites = [0x1301],
     ch_compression_methods = [COMP_Null],
     ch_extensions = [CE_SupportedVersions [PV_TLSv1_3], CE_PresharedKey \<lparr>pko_identities = [\<lparr>psk_identity = [1, 2], psk_ticket_age = 5\<rparr>], pko_binders = [[0, 0]]\<rparr>]\<rparr>"

theorem tls_binder_signing_witness:
  "\<exists>ch' pre. set_psk_binder example_hello [8, 9] = Some ch' \<and> get_encoding_for_binder_signing (client_hello_message example_hello) = Some pre
    \<and> get_encoding_for_binder_signing (client_hello_message ch') = Some pre
    \<and> enc_handshake_message (client_hello_message ch') [] = pre @ enc_vec LenU16 enc_payload_u8 [[8, 9]] []"
  using tls_binder_signing [of example_hello "[CE_SupportedVersions [PV_TLSv1_3]]" _ "[0, 0]" "[]" "[8, 9]"]
  by (simp add: example_hello_def)

section \<open>Lookups\<close>

lemma dup_loop_iff: "dup_loop key seen xs \<longleftrightarrow> \<not> distinct (map key xs) \<or> key ` set xs \<inter> seen \<noteq> {}"
  by (induction xs arbitrary: seen) auto

lemma find_unique:
  assumes "\<not> dup_loop (\<lambda>x. g (key x)) {} xs"
  shows "find (\<lambda>x. key x = k) xs = Some e \<longleftrightarrow> e \<in> set xs \<and> key e = k"
  using assms
proof (induction xs)
  case (Cons x xs)
  have "g (key x) \<notin> (\<lambda>x. g (key x)) ` set xs" using Cons.prems by (simp add: dup_loop_iff)
  then have "g (key e) \<noteq> g (key x)" if "e \<in> set xs" for e using that by (metis imageI)
  then show ?case using Cons by (auto simp: dup_loop_iff)
qed simp

text \<open>An extension of a type the decoder knows is decoded as such, never kept as unknown bytes.\<close>

definition ce_typed :: "ClientExtension \<Rightarrow> bool" where
  "ce_typed e = (case e of CE_Unknown u \<Rightarrow> ue_typ u \<notin> ce_known | _ \<Rightarrow> True)"

lemma yields_typed: "yields False (read_client_extension dns) (\<lambda>e bs. ce_typed e)"
proof -
  have "yields False (read_client_body dns ty) (\<lambda>e bs. ce_typed e)" for ty
    by (cases ty) (auto simp: read_client_body_def if_not_any_left ce_typed_def ce_known_def intro!: yields_maps yields_guard)
  then show ?thesis unfolding read_client_extension_def read_extension_def
    by (intro yields_bind [OF yields_enums(1)] yields_bind [OF yields_words(1)] yields_mono [OF yields_inside]) auto
qed

lemma read_elems_typed:
  assumes "rd_ok sub" and "list_all ce_typed acc" and "read_elems (read_client_extension dns) sub acc = Some (Inr ys)"
  shows "list_all ce_typed ys"
  using assms
proof (induction "length (rd_todo sub)" arbitrary: sub acc rule: less_induct)
  case less
  show ?case
  proof (cases "any_left sub")
    case False
    then show ?thesis using less.prems by (simp add: read_elems.simps)
  next
    case True
    then obtain x sub' where step: "read_client_extension dns sub = (Inr x, sub')" "read_elems (read_client_extension dns) sub' (acc @ [x]) = Some (Inr ys)"
      using less.prems(3) by (subst (asm) read_elems.simps) (auto split: prod.splits sum.splits)
    obtain n where n: "0 < n" "n \<le> length (rd_todo sub)" "sub' = rd_advance sub n" using ce.progress [OF less.prems(1) step(1)] by blast
    have "ce_typed x" using yields_typed [of dns] less.prems(1) step(1) unfolding yields_def by blast
    then show ?thesis
      using less.hyps [of sub', OF _ _ _ step(2)] less.prems(2) n rd_ok_advance [OF less.prems(1) n(2)] by simp
  qed
qed

lemma read_exts_typed: "rd_ok r \<Longrightarrow> read_list sz (read_client_extension dns) r = (Inr xs, r') \<Longrightarrow> list_all ce_typed xs"
proof -
  assume r: "rd_ok r" and read: "read_list sz (read_client_extension dns) r = (Inr xs, r')"
  obtain sub where sub: "rd_bind (read_len sz) rd_sub r = (Inr sub, r')" "read_elems (read_client_extension dns) sub [] = Some (Inr xs)"
    using read_list_split [OF read] by blast
  then have "rd_ok sub" using yields_len_sub [of False sz] r unfolding yields_def by fastforce
  then show ?thesis using read_elems_typed [OF _ _ sub(2)] by simp
qed

lemma yields_hello_typed: "yields False (read_client_hello dns) (\<lambda>ch bs. list_all ce_typed (ch_extensions ch))"
proof -
  have ext: "yields False (read_optional (read_list16 (read_client_extension dns))) (\<lambda>exts bs. list_all ce_typed exts)"
    unfolding read_optional_guard
    by (rule yields_guard) (auto simp: yields_def dest: read_exts_typed yields_list [of False, unfolded yields_def, rule_format])
  show ?thesis unfolding read_client_hello_def
    by (intro yields_bind [OF yields_enum16' [of get_protocol_version from_protocol_version]] yields_bind [OF yields_random] yields_bind [OF yields_sid]
        yields_bind [OF yields_list] yields_bind [OF ext]) (auto simp: yields_def split: if_splits)
qed

text \<open>Lookups in a received client hello: when the hello was decoded and has no duplicate extension, each lookup returns exactly the
  contents of the extension of that kind in the message, and it fails only when no extension of that type was sent: an
  extension of a known type is never hidden behind unknown bytes.\<close>

theorem tls_client_hello_lookup:
  assumes "rd_ok r" and "read_client_hello dns r = (Inr ch, r')" and "\<not> has_duplicate_extension ch"
  shows "(get_keyshare_extension ch = Some shares \<longleftrightarrow> CE_KeyShare shares \<in> set (ch_extensions ch))
    \<and> (get_versions_extension ch = Some vers \<longleftrightarrow> CE_SupportedVersions vers \<in> set (ch_extensions ch))
    \<and> (get_sni_extension ch = Some names \<longleftrightarrow> CE_ServerName names \<in> set (ch_extensions ch))
    \<and> (get_sigalgs_extension ch = Some algs \<longleftrightarrow> CE_SignatureAlgorithms algs \<in> set (ch_extensions ch))
    \<and> (get_psk ch = Some psk \<longleftrightarrow> CE_PresharedKey psk \<in> set (ch_extensions ch))
    \<and> (get_alpn_extension ch = Some protos \<longleftrightarrow> CE_Protocols protos \<in> set (ch_extensions ch))
    \<and> (get_keyshare_extension ch = None \<longleftrightarrow> ET_KeyShare \<notin> ce_get_type ` set (ch_extensions ch))
    \<and> (get_versions_extension ch = None \<longleftrightarrow> ET_SupportedVersions \<notin> ce_get_type ` set (ch_extensions ch))
    \<and> (get_sni_extension ch = None \<longleftrightarrow> ET_ServerName \<notin> ce_get_type ` set (ch_extensions ch))
    \<and> (get_psk ch = None \<longleftrightarrow> ET_PreSharedKey \<notin> ce_get_type ` set (ch_extensions ch))"
proof -
  have ty: "list_all ce_typed (ch_extensions ch)" using yields_hello_typed [of dns] assms(1,2) unfolding yields_def by blast
  have find: "find_extension ch k = Some e \<longleftrightarrow> e \<in> set (ch_extensions ch) \<and> ce_get_type e = k" for k e
    unfolding find_extension_def by (rule find_unique) (use assms(3) in \<open>simp add: has_duplicate_extension_def\<close>)
  have none: "find_extension ch k = None \<longleftrightarrow> k \<notin> ce_get_type ` set (ch_extensions ch)" for k
    by (auto simp: find_extension_def find_None_iff)
  have kind: "ce_typed e" if "find_extension ch k = Some e" for k e using that ty find by (simp add: list_all_iff)
  note getters = get_keyshare_extension_def get_versions_extension_def get_sni_extension_def get_sigalgs_extension_def get_psk_def get_alpn_extension_def
  have some: "(get_keyshare_extension ch = Some shares \<longleftrightarrow> find_extension ch ET_KeyShare = Some (CE_KeyShare shares))"
    "(get_versions_extension ch = Some vers \<longleftrightarrow> find_extension ch ET_SupportedVersions = Some (CE_SupportedVersions vers))"
    "(get_sni_extension ch = Some names \<longleftrightarrow> find_extension ch ET_ServerName = Some (CE_ServerName names))"
    "(get_sigalgs_extension ch = Some algs \<longleftrightarrow> find_extension ch ET_SignatureAlgorithms = Some (CE_SignatureAlgorithms algs))"
    "(get_psk ch = Some psk \<longleftrightarrow> find_extension ch ET_PreSharedKey = Some (CE_PresharedKey psk))"
    "(get_alpn_extension ch = Some protos \<longleftrightarrow> find_extension ch ET_ALProtocolNegotiation = Some (CE_Protocols protos))"
    by (simp_all add: getters split: option.splits ClientExtension.splits)
  have found: "find_extension ch ET_KeyShare = Some e \<Longrightarrow> \<exists>x. e = CE_KeyShare x"
    "find_extension ch ET_SupportedVersions = Some e \<Longrightarrow> \<exists>x. e = CE_SupportedVersions x"
    "find_extension ch ET_ServerName = Some e \<Longrightarrow> \<exists>x. e = CE_ServerName x"
    "find_extension ch ET_PreSharedKey = Some e \<Longrightarrow> \<exists>x. e = CE_PresharedKey x" for e
    using kind [of _ e] find [of _ e] by (cases e; auto simp: ce_typed_def ce_known_def)+
  have gone: "get_keyshare_extension ch = None \<longleftrightarrow> find_extension ch ET_KeyShare = None"
    "get_versions_extension ch = None \<longleftrightarrow> find_extension ch ET_SupportedVersions = None"
    "get_sni_extension ch = None \<longleftrightarrow> find_extension ch ET_ServerName = None"
    "get_psk ch = None \<longleftrightarrow> find_extension ch ET_PreSharedKey = None"
    using found by (auto simp: getters split: option.splits ClientExtension.splits)
  show ?thesis by (simp add: some gone find none)
qed

definition lookup_hello :: ClientHelloPayload where
  "lookup_hello = \<lparr>ch_client_version = PV_TLSv1_2, ch_random = replicate 32 7, ch_session_id = sid_empty, ch_cipher_suites = [0x1301],
     ch_compression_methods = [COMP_Null], ch_extensions = [CE_SupportedVersions [PV_TLSv1_3], CE_SessionTicket ST_Request]\<rparr>"

lemma lookup_parts:
  "map (wire enc_client_extension) (ch_extensions lookup_hello) = [[0, 43, 0, 3, 2, 3, 4], [0, 35, 0, 0]]"
  "map ce_body (ch_extensions lookup_hello) = [[2, 3, 4], []]"
  "map (wire (enc_enum16 get_protocol_version)) [PV_TLSv1_3] = [[3, 4]]"
  "map (wire enc_cipher_suite) [0x1301] = [[19, 1]]" "map (wire enc_compression) [COMP_Null] = [[0]]"
  by code_simp+

lemma lookup_ok: "client_hello_ok (\<lambda>_. None) lookup_hello"
proof -
  have "list_all (ce_ok (\<lambda>_. None)) (ch_extensions lookup_hello)"
    using lookup_parts(2,3)
    by (simp add: lookup_hello_def ce_ok_def ce_content_ok_def vec_ok_def len_fits_def prefix_bytes_def from_protocol_version_def)
  then have "vec_ok LenU16 enc_client_extension (ce_ok (\<lambda>_. None)) (ch_extensions lookup_hello)"
    unfolding vec_ok_def lookup_parts by (simp add: len_fits_def prefix_bytes_def)
  then show ?thesis using lookup_parts(4,5)
    by (simp add: client_hello_ok_def lookup_hello_def vec_ok_def len_fits_def prefix_bytes_def sid_ok_def sid_empty_def
        from_protocol_version_def from_compression_def)
qed

theorem tls_client_hello_lookup_witness:
  "fst (read_client_hello (\<lambda>_. None) (rd_init (wire_client_hello lookup_hello))) = Inr lookup_hello
    \<and> get_versions_extension lookup_hello = Some [PV_TLSv1_3] \<and> get_sni_extension lookup_hello = None"
proof -
  let ?r = "rd_init (wire_client_hello lookup_hello)"
  obtain r' where read: "read_client_hello (\<lambda>_. None) ?r = (Inr lookup_hello, r')"
    using decodes_client_hello [OF lookup_ok] by (auto simp: decodes_all_def)
  have "\<not> has_duplicate_extension lookup_hello" by code_simp
  from tls_client_hello_lookup [OF _ read this, where vers = "[PV_TLSv1_3]"]
  show ?thesis using read by (simp add: lookup_hello_def ce_get_type_def)
qed

end
