(* ===== verification/Tls_Conn.thy ===== *)
theory Tls_Conn
  imports Tls_Common_Correct
begin

text \<open>
  The connection of \<^verbatim>\<open>rustls-0.21.2/rustls/src/conn.rs\<close> around the deframer and the common state: bytes are read from the
  transport, deframed messages go through the middlebox and alert logic to the handshake state machine, and plaintext is
  read and written. The state machine is the trait object \<^verbatim>\<open>State<Data>\<close> of the code: its type and its \<^verbatim>\<open>handle\<close> are parameters.
\<close>

section \<open>State\<close>

type_synonym ('s, 'd) handler = "'s \<Rightarrow> CommonState \<Rightarrow> 'd \<Rightarrow> Message \<Rightarrow> ((TlsError + 's) \<times> CommonState \<times> 'd) may_panic"

text \<open>Errors of input and output: the kinds the code builds or tests, and the others a transport can report.\<close>

datatype IoError =
    Io_UnexpectedEof | Io_WouldBlock | Io_Interrupted | Io_Other string | Io_InvalidData TlsError | Io_InvalidDataText string | Io_Transport nat

record ('s, 'd) ConnectionCore =
  cc_state :: "TlsError + 's"
  cc_data :: 'd
  cc_common :: CommonState
  cc_deframer :: MessageDeframer

definition core_new :: "'s \<Rightarrow> 'd \<Rightarrow> CommonState \<Rightarrow> ('s, 'd) ConnectionCore" where
  "core_new state data common_state = \<lparr>cc_state = Inr state, cc_data = data, cc_common = common_state, cc_deframer = df_new\<rparr>"

definition replace_state :: "('s, 'd) ConnectionCore \<Rightarrow> 's \<Rightarrow> ('s, 'd) ConnectionCore" where
  "replace_state core new = core\<lparr>cc_state := Inr new\<rparr>"

section \<open>Messages\<close>

definition TLS13_MAX_DROPPED_CCS :: u8 where "TLS13_MAX_DROPPED_CCS = 2"

definition is_valid_ccs :: "PlainMessage \<Rightarrow> bool" where
  "is_valid_ccs msg \<longleftrightarrow> pm_typ msg = CT_ChangeCipherSpec \<and> pm_payload msg = [1]"

text \<open>\<^verbatim>\<open>CommonState::process_main_protocol\<close>.\<close>

definition process_main_protocol ::
    "('s, 'd) handler \<Rightarrow> send_fragment \<Rightarrow> CommonState \<Rightarrow> Message \<Rightarrow> 's \<Rightarrow> 'd \<Rightarrow> ((TlsError + 's) \<times> CommonState \<times> 'd) may_panic" where
  "process_main_protocol handle send cs msg state data =
     (let reject_ty = (case cs_side cs of Client \<Rightarrow> HT_HelloRequest | Server \<Rightarrow> HT_ClientHello) in
      if cs_may_receive_application_data cs \<and> \<not> is_tls13 cs \<and> is_handshake_type msg reject_ty
      then do { cs \<leftarrow> send_warning_alert_no_log send cs AD_NoRenegotiation; Some (Inr state, cs, data) }
      else do { (res, cs, data) \<leftarrow> handle state cs data msg;
                (case res of
                   Inr next_state \<Rightarrow> Some (Inr next_state, cs, data)
                 | Inl e \<Rightarrow>
                     (if (case e of E_InappropriateMessage _ _ \<Rightarrow> True | E_InappropriateHandshakeMessage _ _ \<Rightarrow> True | _ \<Rightarrow> False)
                      then do { (e, cs) \<leftarrow> send_fatal_alert send cs AD_UnexpectedMessage e; Some (Inl e, cs, data) }
                      else Some (Inl e, cs, data))) })"

definition process_msg ::
    "(u8 list \<Rightarrow> u8 list option) \<Rightarrow> ('s, 'd) handler \<Rightarrow> send_fragment \<Rightarrow> ('s, 'd) ConnectionCore \<Rightarrow> PlainMessage \<Rightarrow> 's
     \<Rightarrow> ((TlsError + 's) \<times> ('s, 'd) ConnectionCore) may_panic" where
  "process_msg dns handle send core msg state =
     (let cs = cc_common core in
      if pm_typ msg = CT_ChangeCipherSpec \<and> \<not> cs_may_receive_application_data cs \<and> is_tls13 cs
      then (if \<not> is_valid_ccs msg \<or> TLS13_MAX_DROPPED_CCS < cs_received_middlebox_ccs cs
            then do { (e, cs) \<leftarrow> send_fatal_alert send cs AD_UnexpectedMessage (E_PeerMisbehaved PM_IllegalMiddleboxChangeCipherSpec);
                      Some (Inl e, core\<lparr>cc_common := cs\<rparr>) }
            else Some (Inr state, core\<lparr>cc_common := cs\<lparr>cs_received_middlebox_ccs := cs_received_middlebox_ccs cs + 1\<rparr>\<rparr>))
      else (case message_try_from dns msg of
              Inl err \<Rightarrow> do { (e, cs) \<leftarrow> send_fatal_alert send cs AD_DecodeError err; Some (Inl e, core\<lparr>cc_common := cs\<rparr>) }
            | Inr msg \<Rightarrow>
                (case msg_payload msg of
                   MP_Alert alert \<Rightarrow>
                     do { (res, cs) \<leftarrow> process_alert send cs alert;
                          Some (map_sum id (\<lambda>_. state) res, core\<lparr>cc_common := cs\<rparr>) }
                 | _ \<Rightarrow>
                     do { (res, cs, data) \<leftarrow> process_main_protocol handle send cs msg state (cc_data core);
                          Some (res, core\<lparr>cc_common := cs, cc_data := data\<rparr>) })))"

text \<open>\<^verbatim>\<open>ConnectionCore::deframe\<close>. The alert of an invalid message stays with QUIC; the other alerts go through \<^verbatim>\<open>send_fatal_alert\<close>.\<close>

definition deframe :: "send_fragment \<Rightarrow> ('s, 'd) ConnectionCore \<Rightarrow> ((TlsError + PlainMessage option) \<times> ('s, 'd) ConnectionCore) may_panic" where
  "deframe send core =
     do { (res, df, rl) \<leftarrow> pop (cc_deframer core) (cs_record_layer (cc_common core));
          let cs = (cc_common core)\<lparr>cs_record_layer := rl\<rparr>;
          let core = core\<lparr>cc_deframer := df\<rparr>;
          (case res of
             Inr (Some d) \<Rightarrow>
               do { cs \<leftarrow> (if dm_want_close d then send_close_notify send cs else Some cs);
                    let cs = (if dm_trial_finished d then cs\<lparr>cs_record_layer := finish_trial_decryption (cs_record_layer cs)\<rparr> else cs);
                    Some (Inr (Some (dm_message d)), core\<lparr>cc_common := cs\<lparr>cs_aligned_handshake := dm_aligned d\<rparr>\<rparr>) }
           | Inr None \<Rightarrow> Some (Inr None, core\<lparr>cc_common := cs\<rparr>)
           | Inl err \<Rightarrow>
               (case err of
                  E_InvalidMessage _ \<Rightarrow>
                    (if is_quic cs then Some (Inl err, core\<lparr>cc_common := cs\<lparr>cs_quic_alert := Some AD_DecodeError\<rparr>\<rparr>)
                     else do { (e, cs) \<leftarrow> send_fatal_alert send cs AD_DecodeError err; Some (Inl e, core\<lparr>cc_common := cs\<rparr>) })
                | E_PeerSentOversizedRecord \<Rightarrow>
                    do { (e, cs) \<leftarrow> send_fatal_alert send cs AD_RecordOverflow err; Some (Inl e, core\<lparr>cc_common := cs\<rparr>) }
                | E_DecryptError \<Rightarrow>
                    do { (e, cs) \<leftarrow> send_fatal_alert send cs AD_BadRecordMac err; Some (Inl e, core\<lparr>cc_common := cs\<rparr>) }
                | _ \<Rightarrow> Some (Inl err, core\<lparr>cc_common := cs\<rparr>))) }"

text \<open>The loop of \<^verbatim>\<open>process_new_packets\<close>: running forever is \<^const>\<open>None\<close>, a panic is \<open>Some None\<close>.\<close>

partial_function (option) process_loop ::
    "(u8 list \<Rightarrow> u8 list option) \<Rightarrow> ('s, 'd) handler \<Rightarrow> send_fragment \<Rightarrow> 's \<Rightarrow> ('s, 'd) ConnectionCore
     \<Rightarrow> ((TlsError + IoState) \<times> ('s, 'd) ConnectionCore) may_panic option" where
  "process_loop dns handle send state core =
     (case deframe send core of
        None \<Rightarrow> Some None
      | Some (Inl e, core) \<Rightarrow> Some (Some (Inl e, core))
      | Some (Inr None, core) \<Rightarrow> Some (Some (Inr (current_io_state (cc_common core)), core\<lparr>cc_state := Inr state\<rparr>))
      | Some (Inr (Some msg), core) \<Rightarrow>
          (case process_msg dns handle send core msg state of
             None \<Rightarrow> Some None
           | Some (Inl e, core) \<Rightarrow> Some (Some (Inl e, core\<lparr>cc_state := Inl e\<rparr>))
           | Some (Inr state, core) \<Rightarrow> process_loop dns handle send state core))"

declare process_loop.simps [code]

definition process_new_packets ::
    "(u8 list \<Rightarrow> u8 list option) \<Rightarrow> ('s, 'd) handler \<Rightarrow> send_fragment \<Rightarrow> ('s, 'd) ConnectionCore
     \<Rightarrow> ((TlsError + IoState) \<times> ('s, 'd) ConnectionCore) may_panic option" where
  "process_new_packets dns handle send core =
     (case cc_state core of
        Inl e \<Rightarrow> Some (Some (Inl e, core))
      | Inr state \<Rightarrow> process_loop dns handle send state (core\<lparr>cc_state := Inl E_HandshakeNotComplete\<rparr>))"

definition first_handshake_message ::
    "(u8 list \<Rightarrow> u8 list option) \<Rightarrow> send_fragment \<Rightarrow> ('s, 'd) ConnectionCore \<Rightarrow> ((TlsError + Message option) \<times> ('s, 'd) ConnectionCore) may_panic" where
  "first_handshake_message dns send core =
     do { (res, core) \<leftarrow> deframe send core;
          (case res of
             Inl e \<Rightarrow> Some (Inl e, core)
           | Inr None \<Rightarrow> Some (Inr None, core)
           | Inr (Some plain) \<Rightarrow>
               (case message_try_from dns plain of
                  Inr msg \<Rightarrow> Some (Inr (Some msg), core)
                | Inl err \<Rightarrow> do { (e, cs) \<leftarrow> send_fatal_alert send (cc_common core) AD_DecodeError err; Some (Inl e, core\<lparr>cc_common := cs\<rparr>) })) }"

section \<open>Input and output\<close>

definition read_tls :: "(nat \<Rightarrow> IoError + u8 list) \<Rightarrow> ('s, 'd) ConnectionCore \<Rightarrow> ((IoError + nat) \<times> ('s, 'd) ConnectionCore) may_panic" where
  "read_tls rd core =
     (if cvb_is_full (cs_received_plaintext (cc_common core)) then Some (Inl (Io_Other ''received plaintext buffer full''), core)
      else do { (res, df) \<leftarrow> df_read Io_InvalidDataText rd (cc_deframer core);
                let core = core\<lparr>cc_deframer := df\<rparr>;
                Some (res, if res = Inr 0 then core\<lparr>cc_common := (cc_common core)\<lparr>cs_has_seen_eof := True\<rparr>\<rparr> else core) })"

definition write_tls :: "(u8 list list \<Rightarrow> IoError + nat) \<Rightarrow> ('s, 'd) ConnectionCore \<Rightarrow> (IoError + nat) \<times> ('s, 'd) ConnectionCore" where
  "write_tls wr core =
     (let (res, b) = cvb_write_to (cs_sendable_tls (cc_common core)) wr in (res, core\<lparr>cc_common := (cc_common core)\<lparr>cs_sendable_tls := b\<rparr>\<rparr>))"

text \<open>The plaintext reader borrows the buffer of received plaintext; \<open>conn_read\<close> creates one, reads, and gives the buffer back.\<close>

record PlaintextReader =
  pr_received_plaintext :: ChunkVecBuffer
  pr_peer_cleanly_closed :: bool
  pr_has_seen_eof :: bool

definition conn_reader :: "('s, 'd) ConnectionCore \<Rightarrow> PlaintextReader" where
  "conn_reader core = \<lparr>pr_received_plaintext = cs_received_plaintext (cc_common core),
     pr_peer_cleanly_closed = (cs_has_received_close_notify (cc_common core) \<and> \<not> df_has_pending (cc_deframer core)),
     pr_has_seen_eof = cs_has_seen_eof (cc_common core)\<rparr>"

definition reader_read :: "PlaintextReader \<Rightarrow> u8 list \<Rightarrow> (IoError + nat) \<times> u8 list \<times> PlaintextReader" where
  "reader_read r buf =
     (let (len, buf', b) = cvb_read (pr_received_plaintext r) buf; r' = r\<lparr>pr_received_plaintext := b\<rparr> in
      (if len = 0 \<and> buf \<noteq> []
       then (if pr_peer_cleanly_closed r then Inr len else if pr_has_seen_eof r then Inl Io_UnexpectedEof else Inl Io_WouldBlock)
       else Inr len, buf', r'))"

definition conn_read :: "('s, 'd) ConnectionCore \<Rightarrow> u8 list \<Rightarrow> (IoError + nat) \<times> u8 list \<times> ('s, 'd) ConnectionCore" where
  "conn_read core buf =
     (let (res, buf, r) = reader_read (conn_reader core) buf in
      (res, buf, core\<lparr>cc_common := (cc_common core)\<lparr>cs_received_plaintext := pr_received_plaintext r\<rparr>\<rparr>))"

definition conn_write :: "send_fragment \<Rightarrow> ('s, 'd) ConnectionCore \<Rightarrow> u8 list \<Rightarrow> ((IoError + nat) \<times> ('s, 'd) ConnectionCore) may_panic" where
  "conn_write send core buf = do { (n, cs) \<leftarrow> send_some_plaintext send (cc_common core) buf; Some (Inr n, core\<lparr>cc_common := cs\<rparr>) }"

fun conn_write_loop :: "send_fragment \<Rightarrow> CommonState \<Rightarrow> u8 list list \<Rightarrow> nat \<Rightarrow> (nat \<times> CommonState) may_panic" where
  "conn_write_loop send cs [] sz = Some (sz, cs)"
| "conn_write_loop send cs (buf # bufs) sz = do { (n, cs) \<leftarrow> send_some_plaintext send cs buf; conn_write_loop send cs bufs (sz + n) }"

definition conn_write_vectored :: "send_fragment \<Rightarrow> ('s, 'd) ConnectionCore \<Rightarrow> u8 list list \<Rightarrow> ((IoError + nat) \<times> ('s, 'd) ConnectionCore) may_panic" where
  "conn_write_vectored send core bufs = do { (sz, cs) \<leftarrow> conn_write_loop send (cc_common core) bufs 0; Some (Inr sz, core\<lparr>cc_common := cs\<rparr>) }"

section \<open>Traffic state of TLS 1.2\<close>

text \<open>\<^verbatim>\<open>ExpectTraffic::handle\<close> of \<^verbatim>\<open>server/tls12.rs\<close> (and, with the same body, of \<^verbatim>\<open>client/tls12.rs\<close>); the secrets it keeps are its state.\<close>

definition inappropriate_message :: "MessagePayload \<Rightarrow> ContentType list \<Rightarrow> TlsError" where
  "inappropriate_message payload content_types = E_InappropriateMessage content_types (payload_content_type payload)"

definition inappropriate_handshake_message :: "MessagePayload \<Rightarrow> ContentType list \<Rightarrow> HandshakeType list \<Rightarrow> TlsError" where
  "inappropriate_handshake_message payload content_types handshake_types =
     (case payload of
        MP_Handshake parsed _ \<Rightarrow> E_InappropriateHandshakeMessage handshake_types (hmp_typ parsed)
      | payload \<Rightarrow> inappropriate_message payload content_types)"

definition expect_traffic12 :: "('s, 'd) handler" where
  "expect_traffic12 self cs data m =
     (case msg_payload m of
        MP_ApplicationData payload \<Rightarrow> Some (Inr self, take_received_plaintext cs payload, data)
      | payload \<Rightarrow> Some (Inl (inappropriate_message payload [CT_ApplicationData]), cs, data))"

end
