(* ===== verification/Tls_Conn_Correct.thy ===== *)
theory Tls_Conn_Correct
  imports Tls_Conn
begin

text \<open>
  Proofs about the connection: what sending keeps, what one turn of the packet loop keeps, why the loop ends, and how a stream
  of application data passes through it.
\<close>

section \<open>What sending keeps\<close>

text \<open>Sending changes neither the decrypter nor what was received. The interface is what the connection needs of a function that
  sends one fragment.\<close>

definition keeps_receiving :: "CommonState \<Rightarrow> CommonState \<Rightarrow> bool" where
  "keeps_receiving cs cs' \<longleftrightarrow> message_decrypter (cs_record_layer cs') = message_decrypter (cs_record_layer cs)
     \<and> cs_received_plaintext cs' = cs_received_plaintext cs \<and> cs_received_middlebox_ccs cs' = cs_received_middlebox_ccs cs
     \<and> cs_may_receive_application_data cs' = cs_may_receive_application_data cs \<and> cs_negotiated_version cs' = cs_negotiated_version cs"

lemma keeps_receiving_refl [simp]: "keeps_receiving cs cs"
  by (simp add: keeps_receiving_def)

lemma keeps_receiving_trans: "keeps_receiving a b \<Longrightarrow> keeps_receiving b c \<Longrightarrow> keeps_receiving a c"
  by (simp add: keeps_receiving_def)

locale quiet_sender =
  fixes send :: send_fragment
  assumes send_keeps: "send cs m = Some cs' \<Longrightarrow> keeps_receiving cs cs'"
begin

lemma fragments_keep: "send_fragments send cs ms = Some cs' \<Longrightarrow> keeps_receiving cs cs'"
  by (induction ms arbitrary: cs) (auto dest: send_keeps intro: keeps_receiving_trans split: bind_splits)

lemma queue_keeps: "keeps_receiving cs (foldl (\<lambda>cs m. queue_tls_message cs (into_unencrypted_opaque m)) cs ms)"
proof (induction ms arbitrary: cs)
  case (Cons m ms)
  have "keeps_receiving cs (queue_tls_message cs (into_unencrypted_opaque m))" by (simp add: keeps_receiving_def queue_tls_message_def)
  then show ?case using Cons by (auto intro: keeps_receiving_trans)
qed simp

lemma msg_keeps: "send_msg send cs m e = Some cs' \<Longrightarrow> keeps_receiving cs cs'"
  using queue_keeps
  by (auto simp: send_msg_def send_msg_encrypt_def dest: fragments_keep split: if_splits MessagePayload.splits bind_splits)
    (simp_all add: keeps_receiving_def)

lemma alerts_keep:
  "send_warning_alert_no_log send cs d = Some cs' \<Longrightarrow> keeps_receiving cs cs'"
  "send_close_notify send cs = Some cs' \<Longrightarrow> keeps_receiving cs cs'"
  "send_fatal_alert send cs d err = Some (e, cs') \<Longrightarrow> keeps_receiving cs cs' \<and> e = err"
  by (auto simp: send_warning_alert_no_log_def send_close_notify_def send_fatal_alert_def dest!: msg_keeps split: bind_splits)
    (simp add: keeps_receiving_def)

lemma process_alert_keeps: "process_alert send cs a = Some (res, cs') \<Longrightarrow> keeps_receiving cs cs'"
  by (auto simp: process_alert_def Let_def dest!: alerts_keep split: if_splits bind_splits) (auto simp: keeps_receiving_def)

end

lemma encrypt_keeps_decrypter: "encrypt_outgoing rl m = Some (em, rl') \<Longrightarrow> message_decrypter rl' = message_decrypter rl"
  by (auto simp: encrypt_outgoing_def rust_assert_simps split: if_splits sum.splits bind_splits)

lemma single_fragment_quiet: "quiet_sender (send_single_fragment k)"
proof (induction k)
  case 0
  show ?case by unfold_locales simp
next
  case (Suc k)
  show ?case
  proof unfold_locales
    fix cs m cs'
    assume "send_single_fragment (Suc k) cs m = Some cs'"
    then obtain cs1 where close: "(if wants_close_before_encrypt (cs_record_layer cs) then send_close_notify (send_single_fragment k) cs else Some cs) = Some cs1"
        and rest: "cs' = cs1 \<or> (\<exists>em rl. encrypt_outgoing (cs_record_layer cs1) m = Some (em, rl) \<and> cs' = queue_tls_message (cs1\<lparr>cs_record_layer := rl\<rparr>) em)"
      by (auto split: if_splits bind_splits)
    have "keeps_receiving cs cs1" using close quiet_sender.alerts_keep(2) [OF Suc] by (auto split: if_splits)
    moreover have "keeps_receiving cs1 cs'" using rest by (auto simp: keeps_receiving_def queue_tls_message_def dest: encrypt_keeps_decrypter)
    ultimately show "keeps_receiving cs cs'" by (rule keeps_receiving_trans)
  qed
qed

interpretation sf: quiet_sender "send_single_fragment k" for k
  by (rule single_fragment_quiet)

section \<open>The packet loop\<close>

lemma spec_pop_decreases:
  "spec_pop j rest rl = (Inr (Some d), j', rest', rl') \<Longrightarrow>
     length rest' < length rest \<or> rest' = rest \<and> length (joined_bytes j') < length (joined_bytes j)"
proof (induction j rest rl rule: spec_pop.induct)
  case (1 j rest rl)
  show ?case
  proof (cases "hs_complete j")
    case (Some len)
    then obtain v bs where j: "j = Some (v, bs)" and len: "payload_size bs = Inr (Some len)" "len \<le> length bs"
      by (auto simp: hs_complete_def split: option.splits sum.splits if_splits)
    have "spec_deliver j len = (Inr (Some d), j')" "rest' = rest" using 1(2) Some by (simp_all add: spec_pop.simps [of j] split: prod.splits)
    then show ?thesis using payload_size_Some [OF len(1)] len(2) j
      by (auto simp: spec_deliver_def joined_bytes_def Let_def split: sum.splits if_splits)
  next
    case None
    then obtain m n where rd: "read_record_spec rest = Inr (m, n)" using 1(2) by (auto simp: spec_pop.simps [of j] split: sum.splits option.splits)
    then have n: "5 \<le> n" "n \<le> length rest" using read_record_spec_len by blast+
    obtain c rl1 where rec: "spec_record j rl m = (c, rl1)" by (metis surj_pair)
    show ?thesis
    proof (cases c)
      case (SpecJoin j1)
      then have "spec_pop j1 (drop n rest) rl1 = (Inr (Some d), j', rest', rl')" using 1(2) None rd rec by (simp add: spec_pop.simps [of j])
      from 1(1) [OF None rd refl rec [symmetric] SpecJoin this] n show ?thesis by auto
    qed (use 1(2) None rd rec n in \<open>auto simp: spec_pop.simps [of j]\<close>)
  qed
qed

text \<open>The invariant of a connection: the deframer is well-formed and the decrypter does not lengthen records. A state machine may
  install decrypters, and has to keep the second part.\<close>

definition conn_ok :: "('s, 'd) ConnectionCore \<Rightarrow> bool" where
  "conn_ok core \<longleftrightarrow> df_ok (cc_deframer core) \<and> shrinks (cs_record_layer (cc_common core))"

definition handler_shrinks :: "('s, 'd) handler \<Rightarrow> bool" where
  "handler_shrinks handle \<longleftrightarrow> (\<forall>s cs d m res cs' d'. handle s cs d m = Some (res, cs', d') \<longrightarrow> shrinks (cs_record_layer cs) \<longrightarrow> shrinks (cs_record_layer cs'))"

abbreviation conn_load :: "('s, 'd) ConnectionCore \<Rightarrow> nat \<times> nat" where
  "conn_load core \<equiv> (length (abs_rest (cc_deframer core)), length (joined_bytes (abs_joined (cc_deframer core))))"

lemma shrinks_keeps: "keeps_receiving cs cs' \<Longrightarrow> shrinks (cs_record_layer cs') = shrinks (cs_record_layer cs)"
  by (simp add: keeps_receiving_def shrinks_def)

lemma finish_trial_decrypter [simp]: "message_decrypter (finish_trial_decryption rl) = message_decrypter rl"
  by (simp add: finish_trial_decryption_def)

context quiet_sender
begin

lemma deframe_message:
  assumes "conn_ok core" and "deframe send core = Some (Inr (Some msg), core')"
  shows "conn_ok core'" and "(conn_load core', conn_load core) \<in> less_than <*lex*> less_than"
proof -
  obtain d df rl cs1 where pop: "pop (cc_deframer core) (cs_record_layer (cc_common core)) = Some (Inr (Some d), df, rl)"
      and cs1: "(if dm_want_close d then send_close_notify send ((cc_common core)\<lparr>cs_record_layer := rl\<rparr>) else Some ((cc_common core)\<lparr>cs_record_layer := rl\<rparr>)) = Some cs1"
      and core': "cc_deframer core' = df" "message_decrypter (cs_record_layer (cc_common core')) = message_decrypter (cs_record_layer cs1)"
    using assms(2) by (auto simp: deframe_def Let_def split: sum.splits option.splits TlsError.splits if_splits bind_splits)
  obtain res df1 rl1 where r: "pop (cc_deframer core) (cs_record_layer (cc_common core)) = Some (res, df1, rl1)"
      "\<forall>x. res = Inr x \<longrightarrow> df_ok df1 \<and> spec_pop (abs_joined (cc_deframer core)) (abs_rest (cc_deframer core)) (cs_record_layer (cc_common core))
        = (res, abs_joined df1, abs_rest df1, rl1)"
    using pop_refine [of "cc_deframer core" "cs_record_layer (cc_common core)"] assms(1) by (auto simp: conn_ok_def)
  then have ok: "df_ok df" and sp: "spec_pop (abs_joined (cc_deframer core)) (abs_rest (cc_deframer core)) (cs_record_layer (cc_common core))
      = (Inr (Some d), abs_joined df, abs_rest df, rl)"
    using pop by auto
  have "shrinks rl" using spec_pop_shrinks [OF sp] assms(1) by (simp add: conn_ok_def)
  moreover have "message_decrypter (cs_record_layer cs1) = message_decrypter rl"
    using cs1 alerts_keep(2) by (auto simp: keeps_receiving_def split: if_splits)
  ultimately show "conn_ok core'" using ok core' by (simp add: conn_ok_def shrinks_def)
  show "(conn_load core', conn_load core) \<in> less_than <*lex*> less_than"
    using spec_pop_decreases [OF sp] core'(1) by auto
qed

lemma main_protocol_shrinks:
  assumes "handler_shrinks handle" and "process_main_protocol handle send cs msg state d = Some (res, cs', d')" and "shrinks (cs_record_layer cs)"
  shows "shrinks (cs_record_layer cs')"
proof -
  consider (warn) "send_warning_alert_no_log send cs AD_NoRenegotiation = Some cs'"
    | (handled) res1 where "handle state cs d msg = Some (res1, cs', d')"
    | (alert) res1 cs1 d1 e where "handle state cs d msg = Some (res1, cs1, d1)" "send_fatal_alert send cs1 AD_UnexpectedMessage e = Some (e, cs')"
    using assms(2) alerts_keep(3)
    by (auto simp: process_main_protocol_def Let_def split: if_splits bind_splits sum.splits) blast+
  then show ?thesis
  proof cases
    case warn
    then show ?thesis using alerts_keep(1) assms(3) shrinks_keeps by blast
  next
    case handled
    then show ?thesis using assms(1,3) unfolding handler_shrinks_def by blast
  next
    case alert
    then have "shrinks (cs_record_layer cs1)" using assms(1,3) unfolding handler_shrinks_def by blast
    then show ?thesis using alerts_keep(3) [OF alert(2)] shrinks_keeps by blast
  qed
qed

lemma process_msg_ok:
  assumes "handler_shrinks handle" and "conn_ok core" and "process_msg dns handle send core msg state = Some (res, core')"
  shows "conn_ok core'" and "cc_deframer core' = cc_deframer core"
proof -
  have sh: "shrinks (cs_record_layer (cc_common core))" using assms(2) by (simp add: conn_ok_def)
  have "shrinks (cs_record_layer (cc_common core')) \<and> cc_deframer core' = cc_deframer core"
    using assms(3) sh main_protocol_shrinks [OF assms(1)] alerts_keep(3) process_alert_keeps shrinks_keeps
    by (auto simp: process_msg_def Let_def split: if_splits bind_splits sum.splits MessagePayload.splits) blast+
  then show "conn_ok core'" "cc_deframer core' = cc_deframer core" using assms(2) by (simp_all add: conn_ok_def)
qed

lemma process_loop_ends:
  assumes "handler_shrinks handle" and "conn_ok core"
  shows "\<exists>y. process_loop dns handle send state core = Some y"
proof -
  have "wf (less_than <*lex*> less_than)" by (intro wf_lex_prod wf_less_than)
  then show ?thesis using assms(2)
  proof (induction "conn_load core" arbitrary: core state rule: wf_induct_rule)
    case less
    show ?case
    proof (cases "\<exists>msg core1 st core2. deframe send core = Some (Inr (Some msg), core1) \<and> process_msg dns handle send core1 msg state = Some (Inr st, core2)")
      case True
      then obtain msg core1 st core2 where d: "deframe send core = Some (Inr (Some msg), core1)" and p: "process_msg dns handle send core1 msg state = Some (Inr st, core2)"
        by blast
      have "conn_ok core2" "(conn_load core2, conn_load core) \<in> less_than <*lex*> less_than"
        using deframe_message [OF less.prems d] process_msg_ok [OF assms(1) _ p] by auto
      then obtain y where "process_loop dns handle send st core2 = Some y" using less.hyps by blast
      then show ?thesis using d p by (subst process_loop.simps) simp
    next
      case False
      then show ?thesis by (subst process_loop.simps) (auto split: option.splits prod.splits sum.splits)
    qed
  qed
qed

end

end
