(* ===== verification/Tls_Conn_Thms.thy ===== *)
theory Tls_Conn_Thms
  imports Tls_Conn_Correct
begin

text \<open>
  What the connection guarantees: processing packets ends for every state machine, errors stay, application data passes from the
  writer of one side to the reader of the other, the end of the data is reported for what it is, and middlebox
  messages are bounded.
\<close>

section \<open>Application data through the loop\<close>

lemma deframe_waits:
  assumes "conn_ok core" and "spec_pop (abs_joined (cc_deframer core)) (abs_rest (cc_deframer core)) (cs_record_layer (cc_common core)) = (Inr None, j, rest, rl)"
  shows "\<exists>df. deframe send core = Some (Inr None, core\<lparr>cc_deframer := df, cc_common := (cc_common core)\<lparr>cs_record_layer := rl\<rparr>\<rparr>)
    \<and> df_ok df \<and> abs_joined df = j \<and> abs_rest df = rest"
proof -
  obtain df rl' where "pop (cc_deframer core) (cs_record_layer (cc_common core)) = Some (Inr None, df, rl')" "df_ok df" "abs_joined df = j" "abs_rest df = rest" "rl' = rl"
    using pop_refine [of "cc_deframer core" "cs_record_layer (cc_common core)"] assms by (auto simp: conn_ok_def)
  then show ?thesis by (auto simp: deframe_def Let_def)
qed

lemma deframe_gives:
  assumes "conn_ok core" and "spec_pop (abs_joined (cc_deframer core)) (abs_rest (cc_deframer core)) (cs_record_layer (cc_common core))
      = (Inr (Some (deframed al False m)), j, rest, rl)"
  shows "\<exists>df. deframe send core = Some (Inr (Some m), core\<lparr>cc_deframer := df, cc_common := (cc_common core)\<lparr>cs_record_layer := rl, cs_aligned_handshake := al\<rparr>\<rparr>)
    \<and> df_ok df \<and> abs_joined df = j \<and> abs_rest df = rest"
proof -
  obtain df rl' where "pop (cc_deframer core) (cs_record_layer (cc_common core)) = Some (Inr (Some (deframed al False m)), df, rl')"
      "df_ok df" "abs_joined df = j" "abs_rest df = rest" "rl' = rl"
    using pop_refine [of "cc_deframer core" "cs_record_layer (cc_common core)"] assms by (auto simp: conn_ok_def)
  then show ?thesis by (auto simp: deframe_def deframed_def Let_def)
qed

lemma traffic12_data:
  assumes "pm_typ m = CT_ApplicationData"
  shows "process_msg dns expect_traffic12 send core m state
    = Some (Inr state, core\<lparr>cc_common := take_received_plaintext (cc_common core) (pm_payload m), cc_data := cc_data core\<rparr>)"
  using assms by (simp add: process_msg_def message_try_from_def payload_new_def Let_def process_main_protocol_def is_handshake_type_def expect_traffic12_def)

lemma received_append [simp]:
  "cvb_contents (cs_received_plaintext (take_received_plaintext cs bs)) = cvb_contents (cs_received_plaintext cs) @ bs"
  "cs_record_layer (take_received_plaintext cs bs) = cs_record_layer cs"
  by (simp_all add: take_received_plaintext_def cvb_append_def cvb_contents_def)

text \<open>The loop over a stream of application data: it ends with success, everything received is appended in order, and the deframer
  is left as the specification leaves it.\<close>

lemma process_data:
  assumes "drains (\<lambda>_ rl. rl) st ds st'"
    and "st = (abs_joined (cc_deframer core), abs_rest (cc_deframer core), cs_record_layer (cc_common core))" and "conn_ok core"
    and "list_all (\<lambda>d. pm_typ (dm_message d) = CT_ApplicationData \<and> (\<exists>al m. d = deframed al False m)) ds"
  shows "\<exists>core'. process_loop dns expect_traffic12 send s core = Some (Some (Inr (current_io_state (cc_common core')), core'))
    \<and> cc_state core' = Inr s \<and> cc_data core' = cc_data core \<and> conn_ok core'
    \<and> cvb_contents (cs_received_plaintext (cc_common core')) = cvb_contents (cs_received_plaintext (cc_common core)) @ concat (map (\<lambda>d. pm_payload (dm_message d)) ds)
    \<and> st' = (abs_joined (cc_deframer core'), abs_rest (cc_deframer core'), cs_record_layer (cc_common core'))"
  using assms
proof (induction arbitrary: core rule: drains.induct)
  case (drains_wait j rest rl st')
  obtain j' rest' rl' where st': "st' = (j', rest', rl')" by (metis surj_pair)
  then have sp: "spec_pop j rest rl = (Inr None, j', rest', rl')" using drains_wait.hyps by simp
  then obtain df where df: "deframe send core = Some (Inr None, core\<lparr>cc_deframer := df, cc_common := (cc_common core)\<lparr>cs_record_layer := rl'\<rparr>\<rparr>)"
      "df_ok df" "abs_joined df = j'" "abs_rest df = rest'"
    using deframe_waits [OF drains_wait.prems(2)] drains_wait.prems(1) by fastforce
  have "shrinks rl'" using spec_pop_shrinks [OF sp] drains_wait.prems(1,2) by (simp add: conn_ok_def)
  then show ?case using df st' by (subst process_loop.simps) (simp add: conn_ok_def)
next
  case (drains_more j rest rl d j' rest' rl' ds st')
  obtain al m where d: "d = deframed al False m" "pm_typ m = CT_ApplicationData" using drains_more.prems(3) by (auto simp: deframed_def)
  then obtain df where df: "deframe send core = Some (Inr (Some m), core\<lparr>cc_deframer := df, cc_common := (cc_common core)\<lparr>cs_record_layer := rl', cs_aligned_handshake := al\<rparr>\<rparr>)"
      "df_ok df" "abs_joined df = j'" "abs_rest df = rest'"
    using deframe_gives [OF drains_more.prems(2)] drains_more.prems(1) drains_more.hyps(1) by fastforce
  let ?core = "core\<lparr>cc_deframer := df, cc_common := take_received_plaintext ((cc_common core)\<lparr>cs_record_layer := rl', cs_aligned_handshake := al\<rparr>) (pm_payload m)\<rparr>"
  have "shrinks rl'" using spec_pop_shrinks [OF drains_more.hyps(1)] drains_more.prems(1,2) by (simp add: conn_ok_def)
  then have "conn_ok ?core" "(j', rest', rl') = (abs_joined (cc_deframer ?core), abs_rest (cc_deframer ?core), cs_record_layer (cc_common ?core))"
    using df by (simp_all add: conn_ok_def)
  moreover have "process_loop dns expect_traffic12 send s core = process_loop dns expect_traffic12 send s ?core"
    using df(1) d(2) by (subst process_loop.simps) (simp add: traffic12_data)
  ultimately show ?case using drains_more.IH [of ?core] drains_more.prems(3) d(1)
    by (auto simp: deframed_def)
qed


section \<open>Runs of a connection\<close>

lemma deframe_state: "deframe send core = Some (res, core') \<Longrightarrow> cc_state core' = cc_state core"
  by (auto simp: deframe_def Let_def split: sum.splits option.splits TlsError.splits if_splits bind_splits)

lemma process_msg_state: "process_msg dns handle send core msg s = Some (res, core') \<Longrightarrow> cc_state core' = cc_state core"
  by (auto simp: process_msg_def Let_def split: if_splits sum.splits MessagePayload.splits bind_splits)

lemma deframe_not_quic:
  assumes "deframe send core = Some (res, core')" and "not_quic (cc_deframer core)"
  shows "not_quic (cc_deframer core')"
proof -
  obtain r df rl where "pop (cc_deframer core) (cs_record_layer (cc_common core)) = Some (r, df, rl)" "cc_deframer core' = df"
    using assms(1) by (auto simp: deframe_def Let_def split: sum.splits option.splits TlsError.splits if_splits bind_splits)
  then show ?thesis using pop_not_quic assms(2) by blast
qed

text \<open>A connection that can go on: its state machine is there and both the deframer and the record layer are well-formed.\<close>

definition live_conn :: "('s, 'd) ConnectionCore \<Rightarrow> bool" where
  "live_conn core \<longleftrightarrow> conn_ok core \<and> not_quic (cc_deframer core)"

lemma deframe_live:
  assumes "live_conn core" and "deframe (send_single_fragment k) core = Some (Inr x, core')"
  shows "live_conn core'"
proof (cases x)
  case (Some msg)
  then show ?thesis using assms sf.deframe_message(1) [of core k msg core'] deframe_not_quic by (auto simp: live_conn_def)
next
  case None
  then obtain df rl where p: "pop (cc_deframer core) (cs_record_layer (cc_common core)) = Some (Inr None, df, rl)"
      and core': "core' = core\<lparr>cc_deframer := df, cc_common := (cc_common core)\<lparr>cs_record_layer := rl\<rparr>\<rparr>"
    using assms(2) by (auto simp: deframe_def Let_def split: sum.splits option.splits TlsError.splits if_splits bind_splits)
  show ?thesis using assms(1) pop_step [OF _ _ _ p] core' by (simp add: live_conn_def conn_ok_def)
qed

text \<open>What a call of \<^const>\<open>process_new_packets\<close> leaves behind: on success a live connection and its current state, on failure the
  error itself or, when the deframer failed, the placeholder that was there during the call.\<close>

definition left_behind :: "TlsError + 's \<Rightarrow> TlsError + IoState \<Rightarrow> ('s, 'd) ConnectionCore \<Rightarrow> bool" where
  "left_behind before res core' \<longleftrightarrow> (case res of
       Inr io \<Rightarrow> live_conn core' \<and> (\<exists>s'. cc_state core' = Inr s') \<and> io = current_io_state (cc_common core')
     | Inl e \<Rightarrow> cc_state core' = Inl e \<or> cc_state core' = before)"

lemma process_loop_result:
  fixes core core' :: "('s, 'd) ConnectionCore"
  assumes "process_loop dns handle send s core = Some (Some (res, core'))" and "handler_shrinks handle" and "send = send_single_fragment k" and "live_conn core"
  shows "left_behind (cc_state core) res core'"
proof -
  define P where "P = (\<lambda>(handle :: ('s, 'd) handler) send (core :: ('s, 'd) ConnectionCore) y. handler_shrinks handle \<longrightarrow> send = send_single_fragment k \<longrightarrow> live_conn core
    \<longrightarrow> (\<forall>res (core' :: ('s, 'd) ConnectionCore). y = Some (res, core') \<longrightarrow> left_behind (cc_state core) res core'))"
  have "P handle send core (Some (res, core'))"
  proof (rule process_loop.raw_induct [where P = "\<lambda>dns handle send s core y. P handle send core y", OF _ assms(1)])
    fix loop dns and handle :: "('s, 'd) handler" and send s core y
    assume IH: "\<And>dns handle send s core y. loop dns handle send s core = Some y \<Longrightarrow> P handle send core y"
      and body: "(case deframe send core of None \<Rightarrow> Some None | Some (Inl e, core) \<Rightarrow> Some (Some (Inl e, core))
        | Some (Inr None, core) \<Rightarrow> Some (Some (Inr (current_io_state (cc_common core)), core\<lparr>cc_state := Inr s\<rparr>))
        | Some (Inr (Some msg), core) \<Rightarrow> (case process_msg dns handle send core msg s of None \<Rightarrow> Some None
            | Some (Inl e, core) \<Rightarrow> Some (Some (Inl e, core\<lparr>cc_state := Inl e\<rparr>)) | Some (Inr s, core) \<Rightarrow> loop dns handle send s core)) = Some y"
    show "P handle send core y"
      unfolding P_def
    proof (intro impI allI)
      fix res core'
      assume h: "handler_shrinks handle" and send: "send = send_single_fragment k" and live: "live_conn core" and y: "y = Some (res, core')"
      obtain x core1 where d: "deframe send core = Some (x, core1)" using body y by (auto split: option.splits)
      note st = deframe_state [OF d]
      show "left_behind (cc_state core) res core'"
      proof (cases x)
        case (Inr m)
        then have live1: "live_conn core1" using deframe_live [OF live] d send by blast
        show ?thesis
        proof (cases m)
          case None
          then show ?thesis using body d Inr y live1 by (auto simp: left_behind_def live_conn_def conn_ok_def)
        next
          case (Some msg)
          then obtain r2 core2 where p: "process_msg dns handle send core1 msg s = Some (r2, core2)" using body d Inr y by (auto split: option.splits)
          show ?thesis
          proof (cases r2)
            case (Inl e)
            then show ?thesis using body d Inr Some p y by (auto simp: left_behind_def)
          next
            case next_state: (Inr s2)
            have "live_conn core2" using sf.process_msg_ok [OF h _ p [unfolded send]] live1 by (simp add: live_conn_def)
            moreover have "P handle send core2 y" using IH body d Inr Some p next_state by simp
            ultimately show ?thesis using h send y st process_msg_state [OF p] by (simp add: P_def)
          qed
        qed
      qed (use body d y st in \<open>auto simp: left_behind_def\<close>)
    qed
  qed
  then show ?thesis using assms(2-4) by (simp add: P_def)
qed

text \<open>A run: a connection is created from the common state that its first flight left (a client has sent its hello), and the caller reads from the transport, processes packets, writes and reads plaintext, and writes to the transport, in any
  order. \<open>conn_run\<close> are the states it can reach.\<close>

inductive conn_run :: "(u8 list \<Rightarrow> u8 list option) \<Rightarrow> ('s, 'd) handler \<Rightarrow> nat \<Rightarrow> ('s, 'd) ConnectionCore \<Rightarrow> bool" for dns handle k where
  run_new: "cs_received_middlebox_ccs cs = 0 \<Longrightarrow> shrinks (cs_record_layer cs) \<Longrightarrow> conn_run dns handle k (core_new s d cs)"
| run_read_tls: "conn_run dns handle k core \<Longrightarrow> fair_read rd \<Longrightarrow> read_tls rd core = Some (res, core') \<Longrightarrow> conn_run dns handle k core'"
| run_process: "conn_run dns handle k core \<Longrightarrow> process_new_packets dns handle (send_single_fragment k) core = Some (Some (res, core'))
    \<Longrightarrow> conn_run dns handle k core'"
| run_read: "conn_run dns handle k core \<Longrightarrow> conn_read core buf = (res, buf', core') \<Longrightarrow> conn_run dns handle k core'"
| run_write: "conn_run dns handle k core \<Longrightarrow> conn_write (send_single_fragment k) core buf = Some (res, core') \<Longrightarrow> conn_run dns handle k core'"
| run_write_tls: "conn_run dns handle k core \<Longrightarrow> write_tls wr core = (res, core') \<Longrightarrow> conn_run dns handle k core'"
| run_close: "conn_run dns handle k core \<Longrightarrow> send_close_notify (send_single_fragment k) (cc_common core) = Some cs
    \<Longrightarrow> conn_run dns handle k (core\<lparr>cc_common := cs\<rparr>)"

lemma plain_keeps_decrypter:
  assumes "send_some_plaintext (send_single_fragment k) cs bs = Some (n, cs')"
  shows "message_decrypter (cs_record_layer cs') = message_decrypter (cs_record_layer cs)"
  using assms sf.fragments_keep
  by (fastforce simp: send_some_plaintext_def send_plain_def send_appdata_encrypt_def perhaps_write_key_update_def keeps_receiving_def Let_def
    split: if_splits option.splits Limit.splits prod.splits bind_splits)

lemma read_tls_live:
  assumes "live_conn core" and "fair_read rd"
  shows "\<exists>res core'. read_tls rd core = Some (res, core') \<and> live_conn core' \<and> cc_state core' = cc_state core"
proof -
  obtain res df where "df_read Io_InvalidDataText rd (cc_deframer core) = Some (res, df)" "df_ok df" "not_quic df"
    using df_read_refine [of "cc_deframer core" rd Io_InvalidDataText] assms by (auto simp: live_conn_def conn_ok_def)
  then show ?thesis using assms(1) by (auto simp: read_tls_def live_conn_def conn_ok_def Let_def)
qed

text \<open>In every run a connection that has not failed is live.\<close>

lemma conn_run_live:
  assumes "conn_run dns handle k core" and "handler_shrinks handle"
  shows "(\<exists>s. cc_state core = Inr s) \<longrightarrow> live_conn core"
  using assms
proof (induction rule: conn_run.induct)
  case (run_new cs s d)
  then show ?case by (simp add: live_conn_def conn_ok_def core_new_def df_ok_def df_new_def not_quic_def)
next
  case (run_read_tls core rd res core')
  then show ?case using read_tls_live [of core rd]
    by (cases "\<exists>s. cc_state core = Inr s") (auto simp: read_tls_def Let_def split: if_splits bind_splits)
next
  case (run_process core res core')
  show ?case
  proof (cases "cc_state core")
    case (Inr s)
    then have "live_conn (core\<lparr>cc_state := Inl E_HandshakeNotComplete\<rparr>)" using run_process by (simp add: live_conn_def conn_ok_def)
    from process_loop_result [OF _ assms(2) refl this] run_process.hyps(2) Inr show ?thesis
      by (fastforce simp: process_new_packets_def left_behind_def split: sum.splits)
  qed (use run_process in \<open>simp add: process_new_packets_def\<close>)
next
  case (run_write core buf res core')
  then show ?case using plain_keeps_decrypter
    by (auto simp: conn_write_def live_conn_def conn_ok_def shrinks_def split: bind_splits)
next
  case (run_close core cs)
  then show ?case using shrinks_keeps [OF sf.alerts_keep(2) [OF run_close.hyps(2)]] by (auto simp: live_conn_def conn_ok_def)
qed (auto simp: conn_read_def write_tls_def live_conn_def conn_ok_def Let_def split: prod.splits)

lemma deframe_other_state:
  "deframe send core = Some (res, core') \<Longrightarrow> deframe send (core\<lparr>cc_state := st\<rparr>) = Some (res, core'\<lparr>cc_state := st\<rparr>)"
  by (auto simp: deframe_def Let_def split: sum.splits option.splits TlsError.splits if_splits bind_splits)

lemma process_loop_inv:
  fixes core core' :: "('s, 'd) ConnectionCore"
  assumes "process_loop dns handle send s core = Some (Some (res, core'))" and "I core"
    and "\<And>core x core'. I core \<Longrightarrow> deframe send core = Some (x, core') \<Longrightarrow> I core'"
    and "\<And>core msg s r core'. I core \<Longrightarrow> process_msg dns handle send core msg s = Some (r, core') \<Longrightarrow> I core'"
    and "\<And>core st. I core \<Longrightarrow> I (core\<lparr>cc_state := st\<rparr>)"
  shows "I core'"
proof -
  let ?P = "\<lambda>dns' (handle' :: ('s, 'd) handler) send' core y. dns' = dns \<longrightarrow> handle' = handle \<longrightarrow> send' = send \<longrightarrow> I core \<longrightarrow> (\<forall>res core'. y = Some (res, core') \<longrightarrow> I core')"
  have "?P dns handle send core (Some (res, core'))"
  proof (rule process_loop.raw_induct [where P = "\<lambda>dns handle send s core y. ?P dns handle send core y", OF _ assms(1)], intro impI allI)
    fix loop dns' and handle' :: "('s, 'd) handler" and send' s core y res core'
    assume IH: "\<And>dns' handle' send' s core y. loop dns' handle' send' s core = Some y \<Longrightarrow> ?P dns' handle' send' core y"
      and body: "(case deframe send' core of None \<Rightarrow> Some None | Some (Inl e, core) \<Rightarrow> Some (Some (Inl e, core))
        | Some (Inr None, core) \<Rightarrow> Some (Some (Inr (current_io_state (cc_common core)), core\<lparr>cc_state := Inr s\<rparr>))
        | Some (Inr (Some msg), core) \<Rightarrow> (case process_msg dns' handle' send' core msg s of None \<Rightarrow> Some None
            | Some (Inl e, core) \<Rightarrow> Some (Some (Inl e, core\<lparr>cc_state := Inl e\<rparr>)) | Some (Inr s, core) \<Rightarrow> loop dns' handle' send' s core)) = Some y"
      and eqs: "dns' = dns" "handle' = handle" "send' = send" "I core" "y = Some (res, core')"
    obtain x core1 where d: "deframe send core = Some (x, core1)" using body eqs by (auto split: option.splits)
    have I1: "I core1" by (rule assms(3) [OF eqs(4) d])
    show "I core'"
    proof (cases "\<exists>msg. x = Inr (Some msg)")
      case True
      then obtain msg r core2 where p: "x = Inr (Some msg)" "process_msg dns handle send core1 msg s = Some (r, core2)" using body d eqs by (auto split: option.splits)
      have I2: "I core2" by (rule assms(4) [OF I1 p(2)])
      then show ?thesis using body d eqs p assms(5) [OF I2] IH [of dns handle send _ core2 y] by (cases r) auto
    next
      case False
      then show ?thesis using body d eqs I1 assms(5) [OF I1] by (cases x) (auto split: option.splits)
    qed
  qed
  then show ?thesis using assms(2) by blast
qed

section \<open>Properties\<close>

text \<open>C10: A connection never hangs: over every run (reads from the transport, packet processing, plaintext and close_notify in any
  order), with any state machine that does not install a decrypter that lengthens records, processing the received packets ends,
  and as long as the connection has not failed its deframer is well-formed and reading from the transport does not panic.\<close>

theorem tls_connection_runs:
  assumes "conn_run dns handle k core" and "handler_shrinks handle"
  shows "(\<exists>y. process_new_packets dns handle (send_single_fragment k) core = Some y)
    \<and> (\<forall>s. cc_state core = Inr s \<longrightarrow> df_ok (cc_deframer core) \<and> (\<forall>rd. fair_read rd \<longrightarrow> read_tls rd core \<noteq> None))"
proof -
  have live: "live_conn core" if "cc_state core = Inr s" for s using conn_run_live [OF assms] that by blast
  have "\<exists>y. process_new_packets dns handle (send_single_fragment k) core = Some y"
  proof (cases "cc_state core")
    case (Inr s)
    then have "conn_ok (core\<lparr>cc_state := Inl E_HandshakeNotComplete\<rparr>)" using live by (simp add: live_conn_def conn_ok_def)
    then show ?thesis using sf.process_loop_ends [OF assms(2)] Inr by (simp add: process_new_packets_def)
  qed (simp add: process_new_packets_def)
  moreover have "df_ok (cc_deframer core) \<and> (\<forall>rd. fair_read rd \<longrightarrow> read_tls rd core \<noteq> None)" if "cc_state core = Inr s" for s
    using live [OF that] read_tls_live [of core] by (fastforce simp: live_conn_def conn_ok_def)
  ultimately show ?thesis by blast
qed

lemma traffic12_shrinks: "handler_shrinks expect_traffic12"
  by (auto simp: handler_shrinks_def expect_traffic12_def split: MessagePayload.splits)

lemma fresh_common:
  "cs_received_middlebox_ccs ((common_new side)\<lparr>cs_negotiated_version := v\<rparr>) = 0" "shrinks (cs_record_layer ((common_new side)\<lparr>cs_negotiated_version := v\<rparr>))"
  by (simp_all add: common_new_def shrinks_def rl_new_def invalid_decrypter_def)

theorem tls_connection_runs_witness:
  "\<exists>y. process_new_packets (\<lambda>_. None) expect_traffic12 (send_single_fragment 1) (core_new () () ((common_new Server)\<lparr>cs_negotiated_version := None\<rparr>)) = Some y"
  using tls_connection_runs [OF run_new [OF fresh_common] traffic12_shrinks, of "\<lambda>_. None" 1 "()" "()" None Server] by (simp del: send_single_fragment.simps)

text \<open>The turns of the loop that go well: a message is deframed and processed.\<close>

inductive good_turns ::
    "(u8 list \<Rightarrow> u8 list option) \<Rightarrow> ('s, 'd) handler \<Rightarrow> send_fragment \<Rightarrow> 's \<Rightarrow> ('s, 'd) ConnectionCore \<Rightarrow> 's \<Rightarrow> ('s, 'd) ConnectionCore \<Rightarrow> bool"
  for dns handle send where
  turns_none: "good_turns dns handle send s core s core"
| turns_more: "deframe send core = Some (Inr (Some msg), core1) \<Longrightarrow> process_msg dns handle send core1 msg s = Some (Inr s1, core2) \<Longrightarrow>
    good_turns dns handle send s1 core2 s' core' \<Longrightarrow> good_turns dns handle send s core s' core'"

lemma good_turns_loop:
  "good_turns dns handle send s core s' core' \<Longrightarrow> process_loop dns handle send s core = process_loop dns handle send s' core' \<and> cc_state core' = cc_state core"
  by (induction rule: good_turns.induct) (simp_all add: process_loop.simps [where core = core for core] deframe_state process_msg_state)

text \<open>The two ways in which the loop fails after such turns.\<close>

definition deframer_fails :: "send_fragment \<Rightarrow> ('s, 'd) ConnectionCore \<Rightarrow> TlsError \<Rightarrow> ('s, 'd) ConnectionCore \<Rightarrow> bool" where
  "deframer_fails send core e core' \<longleftrightarrow> deframe send core = Some (Inl e, core')"

definition message_fails ::
    "(u8 list \<Rightarrow> u8 list option) \<Rightarrow> ('s, 'd) handler \<Rightarrow> send_fragment \<Rightarrow> 's \<Rightarrow> ('s, 'd) ConnectionCore \<Rightarrow> TlsError \<Rightarrow> ('s, 'd) ConnectionCore \<Rightarrow> bool" where
  "message_fails dns handle send s core e core' \<longleftrightarrow>
     (\<exists>msg core1. deframe send core = Some (Inr (Some msg), core1) \<and> process_msg dns handle send core1 msg s = Some (Inl e, core'))"

lemma process_loop_fails:
  fixes core core' :: "('s, 'd) ConnectionCore"
  assumes "process_loop dns handle send s core = Some (Some (Inl e, core'))"
  shows "\<exists>s1 core1. good_turns dns handle send s core s1 core1
    \<and> (deframer_fails send core1 e core' \<or> (\<exists>core2. message_fails dns handle send s1 core1 e core2 \<and> core' = core2\<lparr>cc_state := Inl e\<rparr>))"
proof -
  define P where "P = (\<lambda>dns (handle :: ('s, 'd) handler) send s (core :: ('s, 'd) ConnectionCore) y. \<forall>e (core' :: ('s, 'd) ConnectionCore). y = Some (Inl e :: TlsError + IoState, core') \<longrightarrow>
    (\<exists>s1 core1. good_turns dns handle send s core s1 core1
      \<and> (deframer_fails send core1 e core' \<or> (\<exists>core2. message_fails dns handle send s1 core1 e core2 \<and> core' = core2\<lparr>cc_state := Inl e\<rparr>))))"
  have "P dns handle send s core (Some (Inl e, core'))"
  proof (rule process_loop.raw_induct [where P = P, OF _ assms])
    fix loop dns and handle :: "('s, 'd) handler" and send s core y
    assume IH: "\<And>dns handle send s core y. loop dns handle send s core = Some y \<Longrightarrow> P dns handle send s core y"
      and body: "(case deframe send core of None \<Rightarrow> Some None | Some (Inl e, core) \<Rightarrow> Some (Some (Inl e, core))
        | Some (Inr None, core) \<Rightarrow> Some (Some (Inr (current_io_state (cc_common core)), core\<lparr>cc_state := Inr s\<rparr>))
        | Some (Inr (Some msg), core) \<Rightarrow> (case process_msg dns handle send core msg s of None \<Rightarrow> Some None
            | Some (Inl e, core) \<Rightarrow> Some (Some (Inl e, core\<lparr>cc_state := Inl e\<rparr>)) | Some (Inr s, core) \<Rightarrow> loop dns handle send s core)) = Some y"
    show "P dns handle send s core y"
    proof (cases "\<exists>msg core1 s1 core2. deframe send core = Some (Inr (Some msg), core1) \<and> process_msg dns handle send core1 msg s = Some (Inr s1, core2)")
      case True
      then obtain msg core1 s1 core2 where t: "deframe send core = Some (Inr (Some msg), core1)" "process_msg dns handle send core1 msg s = Some (Inr s1, core2)"
        by blast
      then have "loop dns handle send s1 core2 = Some y" using body by simp
      from IH [OF this] show ?thesis unfolding P_def by (elim all_forward imp_forward ex_forward conjE) (simp_all add: turns_more [OF t])
    next
      case False
      have ends: "deframer_fails send core e core' \<or> (\<exists>core2. message_fails dns handle send s core e core2 \<and> core' = core2\<lparr>cc_state := Inl e\<rparr>)"
        if "y = Some (Inl e, core')" for e core'
      proof -
        note failed = that
        obtain x core1 where d: "deframe send core = Some (x, core1)" using body failed by (cases "deframe send core") auto
        consider "x = Inl e" "core' = core1" | msg r core2 where "x = Inr (Some msg)" "process_msg dns handle send core1 msg s = Some (r, core2)"
          using body failed d by (cases x; cases "process_msg dns handle send core1 (the (projr x)) s") (auto split: option.splits)
        then show ?thesis using body failed d False by cases (auto simp: deframer_fails_def message_fails_def split: sum.splits)
      qed
      show ?thesis unfolding P_def by (intro allI impI exI [of _ s] exI [of _ core] conjI turns_none) (rule ends)
    qed
  qed
  then show ?thesis by (simp add: P_def)
qed

text \<open>C30: Errors stay, but not always the same one. When processing packets fails, for whatever state machine, some messages were
  processed well and then either the next one failed in processing, and the connection keeps that error, so that every later call,
  whatever happened to the buffers in between, does no work and reports exactly it; or the deframer failed, on this turn of the
  loop, and the connection is left with the placeholder of the call, so that the error is forgotten and every later call does no
  work and reports that the handshake is not complete. Whenever one of the two happens after such turns, the call does fail so.\<close>

theorem tls_errors_stay:
  fixes core :: "('s, 'd) ConnectionCore"
  assumes "cc_state core = Inr s"
  defines "working \<equiv> core\<lparr>cc_state := Inl E_HandshakeNotComplete\<rparr>"
  shows "(\<forall>e core'. process_new_packets dns handle send core = Some (Some (Inl e, core')) \<longrightarrow>
      (\<exists>s1 core1. good_turns dns handle send s working s1 core1
        \<and> (message_fails dns handle send s1 core1 e (core'\<lparr>cc_state := Inl E_HandshakeNotComplete\<rparr>) \<and> cc_state core' = Inl e
            \<and> (\<forall>later. cc_state later = cc_state core' \<longrightarrow> process_new_packets dns handle send later = Some (Some (Inl e, later)))
          \<or> deframer_fails send core1 e core' \<and> cc_state core' = Inl E_HandshakeNotComplete
            \<and> (\<forall>later. cc_state later = cc_state core' \<longrightarrow> process_new_packets dns handle send later = Some (Some (Inl E_HandshakeNotComplete, later))))))
    \<and> (\<forall>s1 core1 e core2. good_turns dns handle send s working s1 core1 \<longrightarrow>
        (message_fails dns handle send s1 core1 e core2 \<longrightarrow> process_new_packets dns handle send core = Some (Some (Inl e, core2\<lparr>cc_state := Inl e\<rparr>)))
        \<and> (deframer_fails send core1 e core2 \<longrightarrow> process_new_packets dns handle send core = Some (Some (Inl e, core2))))"
proof (intro conjI allI impI)
  have loop: "process_new_packets dns handle send core = process_loop dns handle send s working" using assms(1) by (simp add: process_new_packets_def working_def)
  fix e core'
  assume "process_new_packets dns handle send core = Some (Some (Inl e, core'))"
  from process_loop_fails [OF this [unfolded loop]] obtain s1 core1 where t: "good_turns dns handle send s working s1 core1"
      "deframer_fails send core1 e core' \<or> (\<exists>core2. message_fails dns handle send s1 core1 e core2 \<and> core' = core2\<lparr>cc_state := Inl e\<rparr>)"
    by blast
  have placeholder: "cc_state core1 = Inl E_HandshakeNotComplete" using good_turns_loop [OF t(1)] by (simp add: working_def)
  have kept: "cc_state core2 = Inl E_HandshakeNotComplete" if "message_fails dns handle send s1 core1 e core2" for core2
    using that placeholder by (auto simp: message_fails_def dest!: deframe_state process_msg_state)
  have same: "core2\<lparr>cc_state := Inl e, cc_state := Inl E_HandshakeNotComplete\<rparr> = core2" if "message_fails dns handle send s1 core1 e core2" for core2
    using kept [OF that] by simp
  have left: "cc_state core' = Inl E_HandshakeNotComplete" if "deframer_fails send core1 e core'"
    using that placeholder by (auto simp: deframer_fails_def dest!: deframe_state)
  show "\<exists>s1 core1. good_turns dns handle send s working s1 core1
      \<and> (message_fails dns handle send s1 core1 e (core'\<lparr>cc_state := Inl E_HandshakeNotComplete\<rparr>) \<and> cc_state core' = Inl e
          \<and> (\<forall>later. cc_state later = cc_state core' \<longrightarrow> process_new_packets dns handle send later = Some (Some (Inl e, later)))
        \<or> deframer_fails send core1 e core' \<and> cc_state core' = Inl E_HandshakeNotComplete
          \<and> (\<forall>later. cc_state later = cc_state core' \<longrightarrow> process_new_packets dns handle send later = Some (Some (Inl E_HandshakeNotComplete, later))))"
    by (rule exI [of _ s1], rule exI [of _ core1]) (use t left same in \<open>auto simp: process_new_packets_def\<close>)
next
  fix s1 core1 e core2
  assume "good_turns dns handle send s working s1 core1"
  then have "process_new_packets dns handle send core = process_loop dns handle send s1 core1"
    using assms(1) good_turns_loop by (fastforce simp: process_new_packets_def working_def)
  then show "message_fails dns handle send s1 core1 e core2 \<Longrightarrow> process_new_packets dns handle send core = Some (Some (Inl e, core2\<lparr>cc_state := Inl e\<rparr>))"
    "deframer_fails send core1 e core2 \<Longrightarrow> process_new_packets dns handle send core = Some (Some (Inl e, core2))"
    by (auto simp: message_fails_def deframer_fails_def process_loop.simps [of dns handle send s1 core1])
qed

lemma send_plain_msg_total:
  assumes "cs_protocol cs = Tcp" and "0 < max_frag (cs_message_fragmenter cs)"
  shows "\<exists>cs'. send_msg send cs m False = Some cs'"
proof -
  have "\<exists>xs. chunks (max_frag (cs_message_fragmenter cs)) (pm_payload (message_into_plain m)) = Some xs" using chunks_spec [OF assms(2)] by blast
  then show ?thesis using assms(1) by (auto simp: send_msg_def fragment_message_def fragment_slice_def)
qed

definition bad_core :: "(unit, unit) ConnectionCore" where
  "bad_core = (core_new () () (common_new Server))\<lparr>cc_deframer := \<lparr>df_last_error = None, df_buf = [99, 3, 3, 0, 1, 0], df_joining = None, df_used = 6\<rparr>\<rparr>"

lemma bad_core_fails: "map_option fst (deframe (send_single_fragment 1) bad_core) = Some (Inl (E_InvalidMessage InvalidContentType))"
proof -
  have "fst (opaque_read (rd_init [99, 3, 3, 0, 1, 0])) = Inl ME_InvalidContentType" by code_simp
  then obtain rd where rd: "opaque_read (rd_init [99, 3, 3, 0, 1, 0]) = (Inl ME_InvalidContentType, rd)" by (metis prod.collapse)
  have "pop (cc_deframer bad_core) rl_new = Some (Inl (E_InvalidMessage InvalidContentType), set_err (cc_deframer bad_core) (E_InvalidMessage InvalidContentType), rl_new)"
    by (subst pop_def, subst pop_loop.simps) (simp add: bad_core_def pop_body_def loop_start_def slice_def rd Let_def)
  moreover obtain cs where "send_msg (send_single_fragment 1) ((common_new Server)\<lparr>cs_record_layer := rl_new\<rparr>) (build_alert AL_Fatal AD_DecodeError) False = Some cs"
    using send_plain_msg_total [of "(common_new Server)\<lparr>cs_record_layer := rl_new\<rparr>"] by (auto simp: common_new_def fragmenter_default_def MAX_FRAGMENT_LEN_def simp del: send_single_fragment.simps)
  moreover have "cs_record_layer (common_new Server) = rl_new" "is_encrypting rl_new = False"
    "is_quic ((common_new Server)\<lparr>cs_record_layer := rl_new\<rparr>) = False" by (simp_all add: common_new_def is_encrypting_def rl_new_def is_quic_def)
  ultimately show ?thesis
    by (simp add: deframe_def bad_core_def core_new_def send_fatal_alert_def Let_def del: send_single_fragment.simps)
qed

theorem tls_errors_stay_witness:
  "\<exists>core'. process_new_packets (\<lambda>_. None) expect_traffic12 (send_single_fragment 1) bad_core = Some (Some (Inl (E_InvalidMessage InvalidContentType), core'))
    \<and> process_new_packets (\<lambda>_. None) expect_traffic12 (send_single_fragment 1) core' = Some (Some (Inl E_HandshakeNotComplete, core'))"
proof -
  let ?working = "bad_core\<lparr>cc_state := Inl E_HandshakeNotComplete\<rparr>"
  obtain core1 where "deframe (send_single_fragment 1) bad_core = Some (Inl (E_InvalidMessage InvalidContentType), core1)"
    using bad_core_fails by (auto simp del: send_single_fragment.simps)
  from deframe_other_state [OF this] obtain core2
    where d: "deframe (send_single_fragment 1) ?working = Some (Inl (E_InvalidMessage InvalidContentType), core2)" by blast
  have st: "cc_state bad_core = Inr ()" by (simp add: bad_core_def core_new_def)
  note stay = tls_errors_stay [OF st, of "\<lambda>_. None" expect_traffic12 "send_single_fragment 1"]
  have "process_new_packets (\<lambda>_. None) expect_traffic12 (send_single_fragment 1) bad_core = Some (Some (Inl (E_InvalidMessage InvalidContentType), core2))"
    using conjunct2 [OF stay, rule_format, OF turns_none, of "E_InvalidMessage InvalidContentType" core2] d by (simp add: deframer_fails_def del: send_single_fragment.simps)
  moreover have "process_new_packets (\<lambda>_. None) expect_traffic12 (send_single_fragment 1) core2 = Some (Some (Inl E_HandshakeNotComplete, core2))"
    using deframe_state [OF d] by (simp add: process_new_packets_def)
  ultimately show ?thesis by blast
qed

text \<open>C7: Application data passes through the connection: what the writer of one side accepts is, byte for byte and in order, what
  processing the resulting records adds to the received plaintext of the other side in its traffic state; the call succeeds,
  reports the number of bytes that can be read, and leaves nothing behind in the deframer.\<close>

theorem tls_connection_delivers:
  fixes s :: 's
  assumes "cipher_pair enc dec vers" and "sender_ok enc (cc_common tx) (length data)" and "cs_may_send_application_data (cc_common tx)"
    and "cs_queued_key_update (cc_common tx) = None" and "data \<noteq> []"
  shows "\<exists>n tx' wire. conn_write (send_single_fragment (Suc k)) tx data = Some (Inr n, tx')
    \<and> n = apply_limit (cs_sendable_tls (cc_common tx)) (length data)
    \<and> cvb_contents (cs_sendable_tls (cc_common tx')) = cvb_contents (cs_sendable_tls (cc_common tx)) @ wire
    \<and> (\<forall>rx :: ('s, 'd) ConnectionCore. conn_ok rx \<longrightarrow> cc_state rx = Inr s \<longrightarrow> receiving dec (cs_record_layer (cc_common rx)) (write_seq (cs_record_layer (cc_common tx)))
         \<longrightarrow> abs_joined (cc_deframer rx) = None \<longrightarrow> abs_rest (cc_deframer rx) = wire \<longrightarrow>
         (\<exists>rx'. process_new_packets dns expect_traffic12 send rx = Some (Some (Inr (current_io_state (cc_common rx')), rx'))
           \<and> cc_state rx' = Inr s \<and> abs_rest (cc_deframer rx') = [] \<and> abs_joined (cc_deframer rx') = None
           \<and> cvb_contents (cs_received_plaintext (cc_common rx')) = cvb_contents (cs_received_plaintext (cc_common rx)) @ take n data))"
proof -
  let ?cs = "cc_common tx"
  obtain n cs' ms ems where s: "send_appdata_encrypt (send_single_fragment (Suc k)) ?cs data Limit_Yes = Some (n, cs')" "sent ?cs ems cs'"
      "seal_all enc (write_seq (cs_record_layer ?cs)) ms = Some ems" "list_all (\<lambda>m. fits_fragment m \<and> pm_typ m = CT_ApplicationData) ms"
      "concat (map pm_payload ms) = take n data" "n = apply_limit (cs_sendable_tls ?cs) (length data)"
    using send_appdata_ok [OF assms(2), of k Limit_Yes] by auto
  have wr: "conn_write (send_single_fragment (Suc k)) tx data = Some (Inr n, tx\<lparr>cc_common := cs'\<rparr>)"
    using s(1) assms(3-5) by (simp add: conn_write_def send_some_plaintext_def perhaps_write_key_update_def send_plain_def del: send_single_fragment.simps)
  have rx: "\<exists>rx'. process_new_packets dns expect_traffic12 send rx = Some (Some (Inr (current_io_state (cc_common rx')), rx'))
      \<and> cc_state rx' = Inr s \<and> abs_rest (cc_deframer rx') = [] \<and> abs_joined (cc_deframer rx') = None
      \<and> cvb_contents (cs_received_plaintext (cc_common rx')) = cvb_contents (cs_received_plaintext (cc_common rx)) @ take n data"
    if r: "conn_ok rx" "cc_state rx = Inr s" "receiving dec (cs_record_layer (cc_common rx)) (write_seq (cs_record_layer ?cs))"
      "abs_joined (cc_deframer rx) = None" "abs_rest (cc_deframer rx) = wire_of ems" for rx :: "('s, 'd) ConnectionCore"
  proof -
    let ?rx = "rx\<lparr>cc_state := Inl E_HandshakeNotComplete\<rparr>"
    let ?ds = "map (\<lambda>m. deframed True False (m\<lparr>pm_version := vers (pm_version m)\<rparr>)) ms"
    have data: "list_all (\<lambda>d. pm_typ (dm_message d) = CT_ApplicationData \<and> (\<exists>al m. d = deframed al False m)) ?ds"
        "concat (map (\<lambda>d. pm_payload (dm_message d)) ?ds) = take n data"
      using s(4,5) by (auto simp: list_all_iff deframed_def comp_def)
    have "conn_ok ?rx" using r(1) by (simp add: conn_ok_def)
    from process_data [OF cipher_pair.deliver_all [OF assms(1) r(3) s(4,3)] _ this data(1), of dns send s] r data(2)
    show ?thesis by (auto simp: process_new_packets_def simp flip: abs_joined_None)
  qed
  show ?thesis
    by (rule exI [of _ n], rule exI [of _ "tx\<lparr>cc_common := cs'\<rparr>"], rule exI [of _ "wire_of ems"])
      (use wr s(6) sent_frame(5) [OF s(2)] rx in \<open>simp del: send_single_fragment.simps\<close>)
qed

theorem tls_connection_delivers_witness:
  "\<exists>tx' (rx :: (unit, unit) ConnectionCore) rx'. conn_write (send_single_fragment 1) (core_new () () example_cs) [104, 105] = Some (Inr 2, tx')
    \<and> process_new_packets (\<lambda>_. None) expect_traffic12 (send_single_fragment 1) rx = Some (Some (Inr (current_io_state (cc_common rx')), rx'))
    \<and> cc_state rx' = Inr () \<and> cvb_contents (cs_received_plaintext (cc_common rx')) = [104, 105]"
proof -
  let ?tx = "core_new () () example_cs" and ?enc = "tls13_encrypt sum_seal (replicate 12 7)" and ?dec = "tls13_decrypt sum_open (replicate 12 7)"
  let ?rl = "set_message_decrypter rl_new ?dec"
  let ?rx = "\<lambda>w. (core_new () () ((common_new Server)\<lparr>cs_record_layer := ?rl\<rparr>))
      \<lparr>cc_deframer := \<lparr>df_last_error = None, df_buf = w, df_joining = None, df_used = length w\<rparr>\<rparr> :: (unit, unit) ConnectionCore"
  have r: "receiving ?dec ?rl (write_seq (cs_record_layer example_cs))"
    by (simp add: receiving_def example_cs_def set_message_encrypter_def start_encrypting_def prepare_message_encrypter_def
      set_message_decrypter_def start_decrypting_def prepare_message_decrypter_def)
  have l: "apply_limit (cs_sendable_tls example_cs) 2 = 2"
    by (simp add: apply_limit_def example_cs_def common_new_def cvb_new_def cvb_len_def DEFAULT_BUFFER_LIMIT_def)
  have ok: "conn_ok (?rx w)" for w
    using sum_key.t13.shorter
    by (simp add: conn_ok_def df_ok_def core_new_def shrinks_def set_message_decrypter_def start_decrypting_def prepare_message_decrypter_def)
  have pre: "sender_ok ?enc (cc_common ?tx) (length [104, 105 :: u8])" "cs_may_send_application_data (cc_common ?tx)" "cs_queued_key_update (cc_common ?tx) = None"
    using example_sender [of 2] by (simp_all add: core_new_def eval_nat_numeral) (simp_all add: example_cs_def common_new_def)
  obtain n tx' wire where w: "conn_write (send_single_fragment (Suc 0)) ?tx [104, 105] = Some (Inr n, tx')" "n = apply_limit (cs_sendable_tls (cc_common ?tx)) (length [104, 105 :: u8])"
      and all: "\<And>rx :: (unit, unit) ConnectionCore. conn_ok rx \<Longrightarrow> cc_state rx = Inr () \<Longrightarrow> receiving ?dec (cs_record_layer (cc_common rx)) (write_seq (cs_record_layer (cc_common ?tx)))
        \<Longrightarrow> abs_joined (cc_deframer rx) = None \<Longrightarrow> abs_rest (cc_deframer rx) = wire \<Longrightarrow>
        (\<exists>rx'. process_new_packets (\<lambda>_. None) expect_traffic12 (send_single_fragment 1) rx = Some (Some (Inr (current_io_state (cc_common rx')), rx'))
           \<and> cc_state rx' = Inr () \<and> abs_rest (cc_deframer rx') = [] \<and> abs_joined (cc_deframer rx') = None
           \<and> cvb_contents (cs_received_plaintext (cc_common rx')) = cvb_contents (cs_received_plaintext (cc_common rx)) @ take n [104, 105])"
    using tls_connection_delivers [OF sum_key.t13.cipher_pair_axioms pre, of 0 "()" "\<lambda>_. None" "send_single_fragment 1"] by blast
  have n: "n = 2" using w(2) l by (simp add: core_new_def eval_nat_numeral)
  obtain rx' where "process_new_packets (\<lambda>_. None) expect_traffic12 (send_single_fragment 1) (?rx wire) = Some (Some (Inr (current_io_state (cc_common rx')), rx'))"
      "cc_state rx' = Inr ()" "cvb_contents (cs_received_plaintext (cc_common rx')) = cvb_contents (cs_received_plaintext (cc_common (?rx wire))) @ take n [104, 105]"
    using all [OF ok] r by (auto simp: core_new_def abs_joined_def abs_rest_def df_start_def simp del: send_single_fragment.simps)
  moreover have "cvb_contents (cs_received_plaintext (cc_common (?rx wire))) = []" by (simp add: core_new_def common_new_def cvb_new_def cvb_contents_def)
  ultimately show ?thesis using w(1) n by (simp del: send_single_fragment.simps) blast
qed


text \<open>C31: Truncation is told apart from a clean end: reading plaintext with room in the buffer returns zero exactly when no
  plaintext is left, the peer's close_notify has arrived and no byte is still to be processed; it reports an unexpected end exactly
  when the transport ended without that, and otherwise the oldest bytes are handed out in order and nothing else changes.\<close>

theorem tls_reader_truncation:
  assumes "conn_read core buf = (res, buf', core')" and "buf \<noteq> []"
  shows "(res = Inr 0 \<longleftrightarrow> cvb_contents (cs_received_plaintext (cc_common core)) = [] \<and> cs_has_received_close_notify (cc_common core) \<and> df_used (cc_deframer core) = 0)
    \<and> (res = Inl Io_UnexpectedEof \<longleftrightarrow> cvb_contents (cs_received_plaintext (cc_common core)) = [] \<and> cs_has_seen_eof (cc_common core)
         \<and> \<not> (cs_has_received_close_notify (cc_common core) \<and> df_used (cc_deframer core) = 0))
    \<and> (\<forall>n. res = Inr n \<longrightarrow> n = min (length (cvb_contents (cs_received_plaintext (cc_common core)))) (length buf)
         \<and> take n buf' = take n (cvb_contents (cs_received_plaintext (cc_common core))) \<and> drop n buf' = drop n buf
         \<and> cvb_contents (cs_received_plaintext (cc_common core')) = drop n (cvb_contents (cs_received_plaintext (cc_common core))))
    \<and> core'\<lparr>cc_common := (cc_common core')\<lparr>cs_received_plaintext := cs_received_plaintext (cc_common core)\<rparr>\<rparr> = core"
proof -
  obtain n b' where r: "cvb_read (cs_received_plaintext (cc_common core)) buf = (n, buf', b')"
      and core': "core' = core\<lparr>cc_common := (cc_common core)\<lparr>cs_received_plaintext := b'\<rparr>\<rparr>"
      and res: "res = (if n = 0 \<and> buf \<noteq> []
        then (if cs_has_received_close_notify (cc_common core) \<and> \<not> df_has_pending (cc_deframer core) then Inr n
              else if cs_has_seen_eof (cc_common core) then Inl Io_UnexpectedEof else Inl Io_WouldBlock) else Inr n)"
    using assms(1) by (auto simp: conn_read_def reader_read_def conn_reader_def Let_def split: prod.splits)
  have n: "n = min (length (cvb_contents (cs_received_plaintext (cc_common core)))) (length buf)"
      "buf' = overwrite buf 0 (take n (cvb_contents (cs_received_plaintext (cc_common core))))"
      "cvb_contents b' = drop n (cvb_contents (cs_received_plaintext (cc_common core)))"
    using cvb_read_spec [OF r] by (simp_all add: cvb_len_contents)
  have buf': "take n buf' = take n (cvb_contents (cs_received_plaintext (cc_common core)))" "drop n buf' = drop n buf"
    using n(1) unfolding n(2) by (simp_all add: overwrite_def)
  have zero: "n = 0 \<longleftrightarrow> cvb_contents (cs_received_plaintext (cc_common core)) = []" using n(1) assms(2) by (auto simp: min_def split: if_splits)
  show ?thesis
    using res core' n(1,3) buf' zero assms(2) by (cases "n = 0") (auto simp: df_has_pending_def)
qed

theorem tls_reader_truncation_witness:
  "conn_read (core_new () () ((common_new Server)\<lparr>cs_has_seen_eof := True\<rparr>)) [0 :: u8]
     = (Inl Io_UnexpectedEof, [0], core_new () () ((common_new Server)\<lparr>cs_has_seen_eof := True\<rparr>))"
proof -
  let ?core = "core_new () () ((common_new Server)\<lparr>cs_has_seen_eof := True\<rparr>)"
  obtain res buf' core' where c: "conn_read ?core [0] = (res, buf', core')" by (metis surj_pair)
  have "res = Inl Io_UnexpectedEof"
    using tls_reader_truncation [OF c] by (simp add: core_new_def common_new_def cvb_new_def cvb_contents_def)
  moreover have "buf' = [0]" "core' = ?core"
    using c by (auto simp: conn_read_def reader_read_def conn_reader_def cvb_read_def read_chunks.simps core_new_def common_new_def cvb_new_def Let_def)
  ultimately show ?thesis using c by simp
qed

section \<open>Middlebox messages\<close>

definition handler_keeps_ccs :: "('s, 'd) handler \<Rightarrow> bool" where
  "handler_keeps_ccs handle \<longleftrightarrow> (\<forall>s cs d m res cs' d'. handle s cs d m = Some (res, cs', d') \<longrightarrow> cs_received_middlebox_ccs cs' = cs_received_middlebox_ccs cs)"

abbreviation ccs_count :: "('s, 'd) ConnectionCore \<Rightarrow> u8" where
  "ccs_count core \<equiv> cs_received_middlebox_ccs (cc_common core)"

lemma deframe_ccs: "deframe (send_single_fragment k) core = Some (x, core') \<Longrightarrow> ccs_count core' = ccs_count core"
  using sf.alerts_keep(2,3)
  by (fastforce simp: deframe_def Let_def keeps_receiving_def split: sum.splits option.splits TlsError.splits if_splits bind_splits)

lemma main_protocol_ccs:
  assumes "handler_keeps_ccs handle" and "process_main_protocol handle (send_single_fragment k) cs msg s d = Some (res, cs', d')"
  shows "cs_received_middlebox_ccs cs' = cs_received_middlebox_ccs cs"
  using assms(2) sf.alerts_keep(1,3) assms(1)
  by (fastforce simp: process_main_protocol_def handler_keeps_ccs_def keeps_receiving_def Let_def split: if_splits sum.splits bind_splits)

lemma process_msg_ccs:
  assumes "handler_keeps_ccs handle" and "ccs_count core \<le> 3" and "process_msg dns handle (send_single_fragment k) core msg s = Some (res, core')"
  shows "ccs_count core' \<le> 3"
proof -
  have step: "x + 1 \<le> 3" if "x \<le> 2" for x :: u8 using that by (simp add: word_le_nat_alt unat_word_ariths)
  show ?thesis
    using assms(2,3) sf.alerts_keep(3) sf.process_alert_keeps main_protocol_ccs [OF assms(1)] step
    by (fastforce simp: process_msg_def Let_def TLS13_MAX_DROPPED_CCS_def keeps_receiving_def not_less split: if_splits sum.splits MessagePayload.splits bind_splits)
qed

lemma plain_keeps_ccs:
  assumes "send_some_plaintext (send_single_fragment k) cs bs = Some (n, cs')"
  shows "cs_received_middlebox_ccs cs' = cs_received_middlebox_ccs cs"
  using assms sf.fragments_keep
  by (fastforce simp: send_some_plaintext_def send_plain_def send_appdata_encrypt_def perhaps_write_key_update_def keeps_receiving_def Let_def
    split: if_splits option.splits Limit.splits prod.splits bind_splits)

lemma conn_run_ccs:
  assumes "conn_run dns handle k core" and "handler_keeps_ccs handle"
  shows "ccs_count core \<le> 3"
  using assms
proof (induction rule: conn_run.induct)
  case (run_new cs s d)
  then show ?case by (simp add: core_new_def)
next
  case (run_process core res core')
  show ?case
  proof (cases "cc_state core")
    case (Inr s)
    then have loop: "process_loop dns handle (send_single_fragment k) s (core\<lparr>cc_state := Inl E_HandshakeNotComplete\<rparr>) = Some (Some (res, core'))"
      using run_process.hyps(2) by (simp add: process_new_packets_def)
    show ?thesis
      by (rule process_loop_inv [OF loop, where I = "\<lambda>core. ccs_count core \<le> 3"])
        (use run_process process_msg_ccs [OF assms(2)] in \<open>auto dest: deframe_ccs\<close>)
  qed (use run_process in \<open>simp add: process_new_packets_def\<close>)
next
  case (run_write core buf res core')
  then show ?case using plain_keeps_ccs by (auto simp: conn_write_def split: bind_splits)
next
  case (run_close core cs)
  then show ?case using sf.alerts_keep(2) by (auto simp: keeps_receiving_def)
qed (auto simp: read_tls_def conn_read_def write_tls_def Let_def split: prod.splits if_splits bind_splits)

text \<open>C37: Middlebox messages are bounded: in every run the counter of dropped change_cipher_spec messages never exceeds three, so that its
  eight bits never overflow; while a TLS 1.3 handshake is going on a well-formed one is dropped and counted up to the third, and
  from then on each of them fails the connection.\<close>

theorem tls_ccs_bounded:
  assumes "conn_run dns handle k core" and "handler_keeps_ccs handle"
    and "is_tls13 (cc_common core)" and "\<not> cs_may_receive_application_data (cc_common core)" and "is_valid_ccs msg"
  shows "ccs_count core \<le> 3
    \<and> (ccs_count core < 3 \<longrightarrow> (\<exists>core'. process_msg dns handle (send_single_fragment k) core msg s = Some (Inr s, core') \<and> unat (ccs_count core') = unat (ccs_count core) + 1))
    \<and> (ccs_count core = 3 \<longrightarrow> (\<forall>s' core'. process_msg dns handle (send_single_fragment k) core msg s \<noteq> Some (Inr s', core')))"
proof -
  have "\<not> 2 < x \<and> unat (x + 1) = unat x + 1" if "x < 3" for x :: u8 using that by (auto simp: word_less_nat_alt unat_word_ariths)
  then show ?thesis using conn_run_ccs [OF assms(1,2)] assms(3-5)
    by (auto simp: process_msg_def is_valid_ccs_def TLS13_MAX_DROPPED_CCS_def Let_def split: bind_splits)
qed

lemma traffic12_keeps_ccs: "handler_keeps_ccs expect_traffic12"
  by (auto simp: handler_keeps_ccs_def expect_traffic12_def take_received_plaintext_def split: MessagePayload.splits)


theorem tls_ccs_bounded_witness:
  "\<exists>core'. process_msg (\<lambda>_. None) expect_traffic12 (send_single_fragment 1) (core_new () () ((common_new Server)\<lparr>cs_negotiated_version := Some PV_TLSv1_3\<rparr>))
      \<lparr>pm_typ = CT_ChangeCipherSpec, pm_version = PV_TLSv1_2, pm_payload = [1]\<rparr> () = Some (Inr (), core') \<and> unat (ccs_count core') = 1"
proof -
  let ?core = "core_new () () ((common_new Server)\<lparr>cs_negotiated_version := Some PV_TLSv1_3\<rparr>)"
  have run: "conn_run (\<lambda>_. None) expect_traffic12 1 ?core" by (rule run_new [OF fresh_common])
  have "is_tls13 (cc_common ?core)" "\<not> cs_may_receive_application_data (cc_common ?core)" "ccs_count ?core = 0"
    by (simp_all add: core_new_def common_new_def is_tls13_def)
  moreover have "is_valid_ccs \<lparr>pm_typ = CT_ChangeCipherSpec, pm_version = PV_TLSv1_2, pm_payload = [1]\<rparr>" by (simp add: is_valid_ccs_def)
  ultimately show ?thesis
    using tls_ccs_bounded [OF run traffic12_keeps_ccs] by (simp del: send_single_fragment.simps)
qed

end
