(* ===== verification/Ring_Digest.thy ===== *)
theory Ring_Digest
  imports Tls_Codec
begin

text \<open>
  Digests, from \<^verbatim>\<open>ring/src/digest.rs\<close>, \<^verbatim>\<open>ring/src/digest/sha1.rs\<close> and \<^verbatim>\<open>ring/src/digest/sha2.rs\<close>: the compression functions of SHA-1 and of
  the SHA-2 family (the Rust versions; on some targets an assembly routine stands in for the latter), and the contexts that
  cut the input into blocks, keep what does not fill one, and pad the last.
\<close>

section \<open>SHA-2\<close>

text \<open>The constants of the trait \<^verbatim>\<open>Sha2\<close>; words wrap, as \<^verbatim>\<open>Wrapping\<close> says.\<close>

record 'w Sha2 =
  BIG_SIGMA_0 :: "nat \<times> nat \<times> nat"
  BIG_SIGMA_1 :: "nat \<times> nat \<times> nat"
  SMALL_SIGMA_0 :: "nat \<times> nat \<times> nat"
  SMALL_SIGMA_1 :: "nat \<times> nat \<times> nat"
  sha_K :: "'w list"

definition ch :: "'a::len word \<Rightarrow> 'a word \<Rightarrow> 'a word \<Rightarrow> 'a word" where
  "ch x y z = (x AND y) OR (NOT x AND z)"

definition maj :: "'a::len word \<Rightarrow> 'a word \<Rightarrow> 'a word \<Rightarrow> 'a word" where
  "maj x y z = (x AND y) OR (x AND z) OR (y AND z)"

definition rotr :: "'a::len word \<Rightarrow> nat \<Rightarrow> 'a word" where
  "rotr x count = word_rotr count x"

definition SIGMA_0 :: "'a word Sha2 \<Rightarrow> 'a::len word \<Rightarrow> 'a word" where
  "SIGMA_0 S x = (case BIG_SIGMA_0 S of (i, j, k) \<Rightarrow> rotr x i XOR rotr x j XOR rotr x k)"

definition SIGMA_1 :: "'a word Sha2 \<Rightarrow> 'a::len word \<Rightarrow> 'a word" where
  "SIGMA_1 S x = (case BIG_SIGMA_1 S of (i, j, k) \<Rightarrow> rotr x i XOR rotr x j XOR rotr x k)"

definition sigma_0 :: "'a word Sha2 \<Rightarrow> 'a::len word \<Rightarrow> 'a word" where
  "sigma_0 S x = (case SMALL_SIGMA_0 S of (i, j, k) \<Rightarrow> rotr x i XOR rotr x j XOR drop_bit k x)"

definition sigma_1 :: "'a word Sha2 \<Rightarrow> 'a::len word \<Rightarrow> 'a word" where
  "sigma_1 S x = (case SMALL_SIGMA_1 S of (i, j, k) \<Rightarrow> rotr x i XOR rotr x j XOR drop_bit k x)"

text \<open>\<open>blocks k n xs\<close>: the \<open>n\<close> arrays of \<open>k\<close> elements at the start of \<open>xs\<close> (\<^verbatim>\<open>slice::from_raw_parts\<close>).\<close>

fun blocks :: "nat \<Rightarrow> nat \<Rightarrow> 'a list \<Rightarrow> 'a list list" where
  "blocks k 0 xs = []"
| "blocks k (Suc n) xs = take k xs # blocks k n (drop k xs)"

text \<open>Step 1: the schedule. The first sixteen words of \<^verbatim>\<open>W\<close> come from the block, the others from earlier ones.\<close>

definition sha2_schedule :: "'a word Sha2 \<Rightarrow> nat \<Rightarrow> u8 list \<Rightarrow> 'a::len word list" where
  "sha2_schedule S word_len M =
     (let W = overwrite (replicate (length (sha_K S)) 0) 0 (map from_be_bytes (blocks word_len 16 M)) in
      foldl (\<lambda>W t. W[t := sigma_1 S (W ! (t - 2)) + W ! (t - 7) + sigma_0 S (W ! (t - 15)) + W ! (t - 16)]) W [16 ..< length (sha_K S)])"

type_synonym 'a working = "'a \<times> 'a \<times> 'a \<times> 'a \<times> 'a \<times> 'a \<times> 'a \<times> 'a"

text \<open>One turn of the loop of step 3.\<close>

fun sha2_round :: "'a word Sha2 \<Rightarrow> 'a::len word working \<Rightarrow> 'a word \<times> 'a word \<Rightarrow> 'a word working" where
  "sha2_round S (a, b, c, d, e, f, g, h) (Kt, Wt) =
     (let T1 = h + SIGMA_1 S e + ch e f g + Kt + Wt;
          T2 = SIGMA_0 S a + maj a b c
      in (T1 + T2, a, b, c, d + T1, e, f, g))"

definition sha2_block :: "'a word Sha2 \<Rightarrow> nat \<Rightarrow> 'a::len word list \<Rightarrow> u8 list \<Rightarrow> 'a word list" where
  "sha2_block S word_len H M =
     (case foldl (sha2_round S) (H ! 0, H ! 1, H ! 2, H ! 3, H ! 4, H ! 5, H ! 6, H ! 7) (zip (sha_K S) (sha2_schedule S word_len M)) of
        (a, b, c, d, e, f, g, h) \<Rightarrow> [H ! 0 + a, H ! 1 + b, H ! 2 + c, H ! 3 + d, H ! 4 + e, H ! 5 + f, H ! 6 + g, H ! 7 + h])"

definition block_data_order :: "'a word Sha2 \<Rightarrow> nat \<Rightarrow> 'a::len word list \<Rightarrow> u8 list \<Rightarrow> nat \<Rightarrow> 'a word list" where
  "block_data_order S word_len H M num = foldl (sha2_block S word_len) H (blocks (16 * word_len) num M)"

text \<open>The constructor \<^verbatim>\<open>Self\<close> of \<^verbatim>\<open>Wrapping\<close>, whose arithmetic is that of words.\<close>

abbreviation (input) Self :: "'a::len word \<Rightarrow> 'a word" where
  "Self x \<equiv> x"

definition SHA256_consts :: "u32 Sha2" where
  "SHA256_consts = \<lparr>BIG_SIGMA_0 = (2, 13, 22), BIG_SIGMA_1 = (6, 11, 25), SMALL_SIGMA_0 = (7, 18, 3), SMALL_SIGMA_1 = (17, 19, 10),
     sha_K = [
      Self 0x428a2f98, Self 0x71374491, Self 0xb5c0fbcf, Self 0xe9b5dba5, Self 0x3956c25b, Self 0x59f111f1, Self 0x923f82a4, Self 0xab1c5ed5,
      Self 0xd807aa98, Self 0x12835b01, Self 0x243185be, Self 0x550c7dc3, Self 0x72be5d74, Self 0x80deb1fe, Self 0x9bdc06a7, Self 0xc19bf174,
      Self 0xe49b69c1, Self 0xefbe4786, Self 0x0fc19dc6, Self 0x240ca1cc, Self 0x2de92c6f, Self 0x4a7484aa, Self 0x5cb0a9dc, Self 0x76f988da,
      Self 0x983e5152, Self 0xa831c66d, Self 0xb00327c8, Self 0xbf597fc7, Self 0xc6e00bf3, Self 0xd5a79147, Self 0x06ca6351, Self 0x14292967,
      Self 0x27b70a85, Self 0x2e1b2138, Self 0x4d2c6dfc, Self 0x53380d13, Self 0x650a7354, Self 0x766a0abb, Self 0x81c2c92e, Self 0x92722c85,
      Self 0xa2bfe8a1, Self 0xa81a664b, Self 0xc24b8b70, Self 0xc76c51a3, Self 0xd192e819, Self 0xd6990624, Self 0xf40e3585, Self 0x106aa070,
      Self 0x19a4c116, Self 0x1e376c08, Self 0x2748774c, Self 0x34b0bcb5, Self 0x391c0cb3, Self 0x4ed8aa4a, Self 0x5b9cca4f, Self 0x682e6ff3,
      Self 0x748f82ee, Self 0x78a5636f, Self 0x84c87814, Self 0x8cc70208, Self 0x90befffa, Self 0xa4506ceb, Self 0xbef9a3f7, Self 0xc67178f2]\<rparr>"

definition SHA512_consts :: "u64 Sha2" where
  "SHA512_consts = \<lparr>BIG_SIGMA_0 = (28, 34, 39), BIG_SIGMA_1 = (14, 18, 41), SMALL_SIGMA_0 = (1, 8, 7), SMALL_SIGMA_1 = (19, 61, 6),
     sha_K = [
      Self 0x428a2f98d728ae22, Self 0x7137449123ef65cd, Self 0xb5c0fbcfec4d3b2f, Self 0xe9b5dba58189dbbc, Self 0x3956c25bf348b538,
      Self 0x59f111f1b605d019, Self 0x923f82a4af194f9b, Self 0xab1c5ed5da6d8118, Self 0xd807aa98a3030242, Self 0x12835b0145706fbe,
      Self 0x243185be4ee4b28c, Self 0x550c7dc3d5ffb4e2, Self 0x72be5d74f27b896f, Self 0x80deb1fe3b1696b1, Self 0x9bdc06a725c71235,
      Self 0xc19bf174cf692694, Self 0xe49b69c19ef14ad2, Self 0xefbe4786384f25e3, Self 0x0fc19dc68b8cd5b5, Self 0x240ca1cc77ac9c65,
      Self 0x2de92c6f592b0275, Self 0x4a7484aa6ea6e483, Self 0x5cb0a9dcbd41fbd4, Self 0x76f988da831153b5, Self 0x983e5152ee66dfab,
      Self 0xa831c66d2db43210, Self 0xb00327c898fb213f, Self 0xbf597fc7beef0ee4, Self 0xc6e00bf33da88fc2, Self 0xd5a79147930aa725,
      Self 0x06ca6351e003826f, Self 0x142929670a0e6e70, Self 0x27b70a8546d22ffc, Self 0x2e1b21385c26c926, Self 0x4d2c6dfc5ac42aed,
      Self 0x53380d139d95b3df, Self 0x650a73548baf63de, Self 0x766a0abb3c77b2a8, Self 0x81c2c92e47edaee6, Self 0x92722c851482353b,
      Self 0xa2bfe8a14cf10364, Self 0xa81a664bbc423001, Self 0xc24b8b70d0f89791, Self 0xc76c51a30654be30, Self 0xd192e819d6ef5218,
      Self 0xd69906245565a910, Self 0xf40e35855771202a, Self 0x106aa07032bbd1b8, Self 0x19a4c116b8d2d0c8, Self 0x1e376c085141ab53,
      Self 0x2748774cdf8eeb99, Self 0x34b0bcb5e19b48a8, Self 0x391c0cb3c5c95a63, Self 0x4ed8aa4ae3418acb, Self 0x5b9cca4f7763e373,
      Self 0x682e6ff3d6b2b8a3, Self 0x748f82ee5defb2fc, Self 0x78a5636f43172f60, Self 0x84c87814a1f0ab72, Self 0x8cc702081a6439ec,
      Self 0x90befffa23631e28, Self 0xa4506cebde82bde9, Self 0xbef9a3f7b2c67915, Self 0xc67178f2e372532b, Self 0xca273eceea26619c,
      Self 0xd186b8c721c0c207, Self 0xeada7dd6cde0eb1e, Self 0xf57d4f7fee6ed178, Self 0x06f067aa72176fba, Self 0x0a637dc5a2c898a6,
      Self 0x113f9804bef90dae, Self 0x1b710b35131c471b, Self 0x28db77f523047d84, Self 0x32caab7b40c72493, Self 0x3c9ebe0a15c9bebc,
      Self 0x431d67c49c100d4c, Self 0x4cc5d4becb3e42b6, Self 0x597f299cfc657e2a, Self 0x5fcb6fab3ad6faec, Self 0x6c44198c4a475817]\<rparr>"

section \<open>SHA-1\<close>

definition parity :: "u32 \<Rightarrow> u32 \<Rightarrow> u32 \<Rightarrow> u32" where
  "parity x y z = x XOR y XOR z"

definition rotl :: "u32 \<Rightarrow> nat \<Rightarrow> u32" where
  "rotl x n = word_rotl n x"

type_synonym sha1_working = "u32 \<times> u32 \<times> u32 \<times> u32 \<times> u32"

fun step3 :: "sha1_working \<Rightarrow> u32 list \<Rightarrow> u32 \<Rightarrow> (u32 \<Rightarrow> u32 \<Rightarrow> u32 \<Rightarrow> u32) \<Rightarrow> sha1_working" where
  "step3 (a, b, c, d, e) [] k f = (a, b, c, d, e)"
| "step3 (a, b, c, d, e) (W_t # W) k f = step3 (rotl a 5 + f b c d + e + k + W_t, a, rotl b 30, c, d) W k f"

definition sha1_schedule :: "u8 list \<Rightarrow> u32 list" where
  "sha1_schedule M =
     (let W = overwrite (replicate 80 0) 0 (map from_be_bytes (blocks 4 16 M)) in
      foldl (\<lambda>W t. W[t := rotl (W ! (t - 3) XOR W ! (t - 8) XOR W ! (t - 14) XOR W ! (t - 16)) 1]) W [16 ..< 80])"

definition sha1_block :: "u32 list \<Rightarrow> u8 list \<Rightarrow> u32 list" where
  "sha1_block H M =
     (let W = sha1_schedule M;
          s = (H ! 0, H ! 1, H ! 2, H ! 3, H ! 4);
          s = step3 s (take 20 W) 0x5a827999 ch;
          s = step3 s (take 20 (drop 20 W)) 0x6ed9eba1 parity;
          s = step3 s (take 20 (drop 40 W)) 0x8f1bbcdc maj;
          s = step3 s (take 20 (drop 60 W)) 0xca62c1d6 parity
      in case s of (a, b, c, d, e) \<Rightarrow> [H ! 0 + a, H ! 1 + b, H ! 2 + c, H ! 3 + d, H ! 4 + e])"

definition block_data_order1 :: "u32 list \<Rightarrow> u8 list \<Rightarrow> nat \<Rightarrow> u32 list" where
  "block_data_order1 H M num = foldl sha1_block H (blocks 64 num M)"

section \<open>Algorithms\<close>

text \<open>The union \<^verbatim>\<open>State\<close> is only read through the field that was written: each algorithm starts with its own and keeps it.\<close>

datatype State = As64 "u64 list" | As32 "u32 list"

datatype AlgorithmID = ID_SHA1 | ID_SHA256 | ID_SHA384 | ID_SHA512 | ID_SHA512_256

record DigestAlgorithm =
  output_len :: nat
  chaining_len :: nat
  block_len :: nat
  len_len :: nat
  alg_block_data_order :: "State \<Rightarrow> u8 list \<Rightarrow> nat \<Rightarrow> State"
  format_output :: "State \<Rightarrow> u8 list"
  initial_state :: State
  alg_id :: AlgorithmID

fun sha256_block_data_order :: "State \<Rightarrow> u8 list \<Rightarrow> nat \<Rightarrow> State" where
  "sha256_block_data_order (As32 H) data num = As32 (block_data_order SHA256_consts 4 H data num)"
| "sha256_block_data_order st data num = st"

fun sha512_block_data_order :: "State \<Rightarrow> u8 list \<Rightarrow> nat \<Rightarrow> State" where
  "sha512_block_data_order (As64 H) data num = As64 (block_data_order SHA512_consts 8 H data num)"
| "sha512_block_data_order st data num = st"

text \<open>SHA-1 works on the first five words of the state.\<close>

fun sha1_block_data_order :: "State \<Rightarrow> u8 list \<Rightarrow> nat \<Rightarrow> State" where
  "sha1_block_data_order (As32 H) data num = As32 (overwrite H 0 (block_data_order1 (take 5 H) data num))"
| "sha1_block_data_order st data num = st"

fun sha256_format_output :: "State \<Rightarrow> u8 list" where
  "sha256_format_output (As32 H) = concat (map (to_be_bytes 4) H)"
| "sha256_format_output (As64 H) = []"

fun sha512_format_output :: "State \<Rightarrow> u8 list" where
  "sha512_format_output (As64 H) = concat (map (to_be_bytes 8) H)"
| "sha512_format_output (As32 H) = []"

definition SHA1_FOR_LEGACY_USE_ONLY :: DigestAlgorithm where
  "SHA1_FOR_LEGACY_USE_ONLY = \<lparr>output_len = 20, chaining_len = 20, block_len = 64, len_len = 8,
     alg_block_data_order = sha1_block_data_order, format_output = sha256_format_output,
     initial_state = As32 [0x67452301, 0xefcdab89, 0x98badcfe, 0x10325476, 0xc3d2e1f0, 0, 0, 0],
     alg_id = ID_SHA1\<rparr>"

definition SHA256 :: DigestAlgorithm where
  "SHA256 = \<lparr>output_len = 32, chaining_len = 32, block_len = 64, len_len = 8,
     alg_block_data_order = sha256_block_data_order, format_output = sha256_format_output,
     initial_state = As32 [0x6a09e667, 0xbb67ae85, 0x3c6ef372, 0xa54ff53a, 0x510e527f, 0x9b05688c, 0x1f83d9ab, 0x5be0cd19],
     alg_id = ID_SHA256\<rparr>"

definition SHA384 :: DigestAlgorithm where
  "SHA384 = \<lparr>output_len = 48, chaining_len = 64, block_len = 128, len_len = 16,
     alg_block_data_order = sha512_block_data_order, format_output = sha512_format_output,
     initial_state = As64 [0xcbbb9d5dc1059ed8, 0x629a292a367cd507, 0x9159015a3070dd17, 0x152fecd8f70e5939, 0x67332667ffc00b31, 0x8eb44a8768581511, 0xdb0c2e0d64f98fa7, 0x47b5481dbefa4fa4],
     alg_id = ID_SHA384\<rparr>"

definition SHA512 :: DigestAlgorithm where
  "SHA512 = \<lparr>output_len = 64, chaining_len = 64, block_len = 128, len_len = 16,
     alg_block_data_order = sha512_block_data_order, format_output = sha512_format_output,
     initial_state = As64 [0x6a09e667f3bcc908, 0xbb67ae8584caa73b, 0x3c6ef372fe94f82b, 0xa54ff53a5f1d36f1, 0x510e527fade682d1, 0x9b05688c2b3e6c1f, 0x1f83d9abfb41bd6b, 0x5be0cd19137e2179],
     alg_id = ID_SHA512\<rparr>"

definition SHA512_256 :: DigestAlgorithm where
  "SHA512_256 = \<lparr>output_len = 32, chaining_len = 64, block_len = 128, len_len = 16,
     alg_block_data_order = sha512_block_data_order, format_output = sha512_format_output,
     initial_state = As64 [0x22312194fc2bf72c, 0x9f555fa3c84c64c2, 0x2393b86b6f53b151, 0x963877195940eabd, 0x96283ee2a88effe3, 0xbe5e1e2553863992, 0x2b0199fc2c85b8aa, 0x0eb72ddc81c52ca2],
     alg_id = ID_SHA512_256\<rparr>"

definition MAX_BLOCK_LEN :: nat where "MAX_BLOCK_LEN = 128"

definition MAX_OUTPUT_LEN :: nat where "MAX_OUTPUT_LEN = 64"

section \<open>Block contexts\<close>

definition checked_add :: "'a::len word \<Rightarrow> 'a word \<Rightarrow> 'a word option" where
  "checked_add a b = (if unat a + unat b < 2 ^ LENGTH('a) then Some (a + b) else None)"

definition checked_mul :: "'a::len word \<Rightarrow> 'a word \<Rightarrow> 'a word option" where
  "checked_mul a b = (if unat a * unat b < 2 ^ LENGTH('a) then Some (a * b) else None)"

text \<open>\<^verbatim>\<open>polyfill::slice::fill(&mut xs[a..b], v)\<close>.\<close>

definition fill :: "'a list \<Rightarrow> nat \<Rightarrow> nat \<Rightarrow> 'a \<Rightarrow> 'a list may_panic" where
  "fill xs a b v = do { _ \<leftarrow> slice xs a b; Some (overwrite xs a (replicate (b - a) v)) }"

text \<open>\<^verbatim>\<open>xs[i..i + ys.len()].copy_from_slice(ys)\<close>.\<close>

definition copy_slice :: "'a list \<Rightarrow> nat \<Rightarrow> 'a list \<Rightarrow> 'a list may_panic" where
  "copy_slice xs i ys = do { _ \<leftarrow> slice xs i (i + length ys); Some (overwrite xs i ys) }"

record BlockContext =
  bc_state :: State
  completed_data_blocks :: u64
  bc_algorithm :: DigestAlgorithm

definition bc_new :: "DigestAlgorithm \<Rightarrow> BlockContext" where
  "bc_new algorithm = \<lparr>bc_state = initial_state algorithm, completed_data_blocks = 0, bc_algorithm = algorithm\<rparr>"

definition bc_update :: "BlockContext \<Rightarrow> u8 list \<Rightarrow> BlockContext may_panic" where
  "bc_update bc input =
     (let alg = bc_algorithm bc; num_blocks = length input div block_len alg in
      do { rust_assert (num_blocks * block_len alg = length input);
           if 0 < num_blocks
           then do { completed \<leftarrow> checked_add (completed_data_blocks bc) (word_of_nat num_blocks);
                     Some (bc\<lparr>bc_state := alg_block_data_order alg (bc_state bc) input num_blocks, completed_data_blocks := completed\<rparr>) }
           else Some bc })"

text \<open>The result is the bytes of the digest (\<^verbatim>\<open>Digest::as_ref\<close>).\<close>

definition bc_finish :: "BlockContext \<Rightarrow> u8 list \<Rightarrow> nat \<Rightarrow> u8 list may_panic" where
  "bc_finish bc pending num_pending =
     (let alg = bc_algorithm bc; block = block_len alg in
      do { rust_assert (length pending = block);
           rust_assert (num_pending \<le> length pending);
           pending \<leftarrow> store pending num_pending 0x80;
           let padding_pos = num_pending + 1;
           (pending, state, padding_pos) \<leftarrow>
             (if block - len_len alg < padding_pos
              then do { pending \<leftarrow> fill pending padding_pos block 0;
                        Some (pending, alg_block_data_order alg (bc_state bc) pending 1, 0) }
              else Some (pending, bc_state bc, padding_pos));
           pending \<leftarrow> fill pending padding_pos (block - 8) 0;
           bytes \<leftarrow> checked_mul (completed_data_blocks bc) (word_of_nat block);
           bytes \<leftarrow> checked_add bytes (word_of_nat num_pending);
           completed_data_bits \<leftarrow> checked_mul bytes 8;
           pending \<leftarrow> copy_slice pending (block - 8) (to_be_bytes 8 completed_data_bits);
           Some (take (output_len alg) (format_output alg (alg_block_data_order alg state pending 1))) })"

section \<open>Contexts\<close>

record Context =
  ctx_block :: BlockContext
  ctx_pending :: "u8 list"
  ctx_num_pending :: nat

definition ctx_clone_from :: "BlockContext \<Rightarrow> Context" where
  "ctx_clone_from block = \<lparr>ctx_block = block, ctx_pending = replicate MAX_BLOCK_LEN 0, ctx_num_pending = 0\<rparr>"

definition ctx_new :: "DigestAlgorithm \<Rightarrow> Context" where
  "ctx_new algorithm = \<lparr>ctx_block = bc_new algorithm, ctx_pending = replicate MAX_BLOCK_LEN 0, ctx_num_pending = 0\<rparr>"

definition ctx_update :: "Context \<Rightarrow> u8 list \<Rightarrow> Context may_panic" where
  "ctx_update ctx data =
     (let block = block_len (bc_algorithm (ctx_block ctx)); num = ctx_num_pending ctx in
      if length data < block - num
      then do { pending \<leftarrow> copy_slice (ctx_pending ctx) num data;
                Some (ctx\<lparr>ctx_pending := pending, ctx_num_pending := num + length data\<rparr>) }
      else do { (ctx, remaining) \<leftarrow>
                  (if 0 < num
                   then do { pending \<leftarrow> copy_slice (ctx_pending ctx) num (take (block - num) data);
                             filled \<leftarrow> slice pending 0 block;
                             bc \<leftarrow> bc_update (ctx_block ctx) filled;
                             Some (\<lparr>ctx_block = bc, ctx_pending = pending, ctx_num_pending = 0\<rparr>, drop (block - num) data) }
                   else Some (ctx, data));
                let num_blocks = length remaining div block;
                let later = length remaining mod block;
                bc \<leftarrow> bc_update (ctx_block ctx) (take (num_blocks * block) remaining);
                if 0 < later
                then do { pending \<leftarrow> copy_slice (ctx_pending ctx) 0 (drop (length remaining - later) remaining);
                          Some (\<lparr>ctx_block = bc, ctx_pending = pending, ctx_num_pending = later\<rparr>) }
                else Some (ctx\<lparr>ctx_block := bc\<rparr>) })"

definition ctx_finish :: "Context \<Rightarrow> u8 list may_panic" where
  "ctx_finish ctx =
     do { pending \<leftarrow> slice (ctx_pending ctx) 0 (block_len (bc_algorithm (ctx_block ctx)));
          bc_finish (ctx_block ctx) pending (ctx_num_pending ctx) }"

definition digest :: "DigestAlgorithm \<Rightarrow> u8 list \<Rightarrow> u8 list may_panic" where
  "digest algorithm data = do { ctx \<leftarrow> ctx_update (ctx_new algorithm) data; ctx_finish ctx }"

end
