(* ===== verification/Ring_Hmac.thy ===== *)
theory Ring_Hmac
  imports Ring_Digest
begin

text \<open>
  HMAC, HKDF and PBKDF2, from \<^verbatim>\<open>ring/src/hmac.rs\<close>, \<^verbatim>\<open>ring/src/hkdf.rs\<close>, \<^verbatim>\<open>ring/src/pbkdf2.rs\<close> and \<^verbatim>\<open>ring/src/constant_time.rs\<close>. The algorithm
  of each is the digest algorithm it wraps. A failure (\<^verbatim>\<open>error::Unspecified\<close>) is the \<^const>\<open>None\<close> of the inner option, a panic that of
  the outer one.
\<close>

section \<open>HMAC\<close>

text \<open>\<^verbatim>\<open>for (x, y) in xs.iter_mut().zip(ys.iter()) { *x ^= *y; }\<close>\<close>

fun xor_into :: "u8 list \<Rightarrow> u8 list \<Rightarrow> u8 list" where
  "xor_into (x # xs) (y # ys) = (x XOR y) # xor_into xs ys"
| "xor_into xs [] = xs"
| "xor_into [] ys = []"

record HmacKey =
  hk_inner :: BlockContext
  hk_outer :: BlockContext

definition IPAD :: u8 where "IPAD = 0x36"

definition OPAD :: u8 where "OPAD = 0x5C"

definition hmac_key_new :: "DigestAlgorithm \<Rightarrow> u8 list \<Rightarrow> HmacKey may_panic" where
  "hmac_key_new digest_alg key_value =
     do { key_value \<leftarrow> (if length key_value \<le> block_len digest_alg then Some key_value else digest digest_alg key_value);
          padded_key \<leftarrow> slice (replicate MAX_BLOCK_LEN IPAD) 0 (block_len digest_alg);
          let padded_key = xor_into padded_key key_value;
          inner \<leftarrow> bc_update (bc_new digest_alg) padded_key;
          let padded_key = map (\<lambda>b. b XOR (IPAD XOR OPAD)) padded_key;
          outer \<leftarrow> bc_update (bc_new digest_alg) padded_key;
          Some \<lparr>hk_inner = inner, hk_outer = outer\<rparr> }"

definition key_algorithm :: "HmacKey \<Rightarrow> DigestAlgorithm" where
  "key_algorithm key = bc_algorithm (hk_inner key)"

record HmacContext =
  hc_inner :: Context
  hc_outer :: BlockContext

definition with_key :: "HmacKey \<Rightarrow> HmacContext" where
  "with_key signing_key = \<lparr>hc_inner = ctx_clone_from (hk_inner signing_key), hc_outer = hk_outer signing_key\<rparr>"

definition hmac_update :: "HmacContext \<Rightarrow> u8 list \<Rightarrow> HmacContext may_panic" where
  "hmac_update ctx data = do { inner \<leftarrow> ctx_update (hc_inner ctx) data; Some (ctx\<lparr>hc_inner := inner\<rparr>) }"

definition hmac_finish :: "HmacContext \<Rightarrow> u8 list may_panic" where
  "hmac_finish ctx =
     (let algorithm = bc_algorithm (ctx_block (hc_inner ctx)) in
      do { pending \<leftarrow> slice (replicate MAX_BLOCK_LEN 0) 0 (block_len algorithm);
           let num_pending = output_len algorithm;
           d \<leftarrow> ctx_finish (hc_inner ctx);
           rust_assert (length d = num_pending);
           pending \<leftarrow> copy_slice pending 0 d;
           bc_finish (hc_outer ctx) pending num_pending })"

definition hmac_sign :: "HmacKey \<Rightarrow> u8 list \<Rightarrow> u8 list may_panic" where
  "hmac_sign key data = do { ctx \<leftarrow> hmac_update (with_key key) data; hmac_finish ctx }"

text \<open>\<^verbatim>\<open>GFp_memcmp\<close> (\<^verbatim>\<open>crypto/mem.c\<close>) collects the differences without a branch.\<close>

definition memcmp :: "u8 list \<Rightarrow> u8 list \<Rightarrow> u8" where
  "memcmp a b = foldl (\<lambda>x (p, q). x OR (p XOR q)) 0 (zip a b)"

definition verify_slices_are_equal :: "u8 list \<Rightarrow> u8 list \<Rightarrow> unit option" where
  "verify_slices_are_equal a b = (if length a \<noteq> length b then None else if memcmp a b = 0 then Some () else None)"

definition hmac_verify :: "HmacKey \<Rightarrow> u8 list \<Rightarrow> u8 list \<Rightarrow> unit option may_panic" where
  "hmac_verify key data tag = do { t \<leftarrow> hmac_sign key data; Some (verify_slices_are_equal t tag) }"

section \<open>HKDF\<close>

definition hkdf_extract :: "HmacKey \<Rightarrow> u8 list \<Rightarrow> HmacKey may_panic" where
  "hkdf_extract salt secret = do { prk \<leftarrow> hmac_sign salt secret; hmac_key_new (key_algorithm salt) prk }"

text \<open>Output keying material: the key and the pieces of information it is made from, and its length.\<close>

record Okm =
  okm_prk :: HmacKey
  okm_info :: "u8 list list"
  okm_len :: nat

definition prk_expand :: "HmacKey \<Rightarrow> u8 list list \<Rightarrow> nat \<Rightarrow> Okm option" where
  "prk_expand prk info len =
     (if 255 * output_len (key_algorithm prk) < len then None else Some \<lparr>okm_prk = prk, okm_info = info, okm_len = len\<rparr>)"

fun hmac_updates :: "HmacContext \<Rightarrow> u8 list list \<Rightarrow> HmacContext may_panic" where
  "hmac_updates ctx [] = Some ctx"
| "hmac_updates ctx (d # ds) = do { ctx \<leftarrow> hmac_update ctx d; hmac_updates ctx ds }"

text \<open>The loop of \<^verbatim>\<open>fill_okm\<close>; \<open>left\<close> bytes are still to be written. The counter, which panics when it overflows, bounds it.\<close>

function fill_loop :: "HmacKey \<Rightarrow> u8 list list \<Rightarrow> HmacContext \<Rightarrow> u8 \<Rightarrow> nat \<Rightarrow> u8 list may_panic" where
  "fill_loop prk info ctx n left =
     do { ctx \<leftarrow> hmac_updates ctx info;
          ctx \<leftarrow> hmac_update ctx [n];
          t \<leftarrow> hmac_finish ctx;
          if left < output_len (key_algorithm prk)
          then slice t 0 left
          else do { rust_assert (length t = output_len (key_algorithm prk));
                    if left - output_len (key_algorithm prk) = 0 then Some t
                    else do { ctx \<leftarrow> hmac_update (with_key prk) t;
                              n \<leftarrow> checked_add n 1;
                              rest \<leftarrow> fill_loop prk info ctx n (left - output_len (key_algorithm prk));
                              Some (t @ rest) } } }"
  by pat_completeness auto
termination
  by (relation "measure (\<lambda>(_, _, _, n, _). 256 - unat n)") (auto simp: checked_add_def unat_word_ariths(1) split: if_splits)

declare fill_loop.simps [simp del]

definition fill_okm :: "HmacKey \<Rightarrow> u8 list list \<Rightarrow> nat \<Rightarrow> nat \<Rightarrow> u8 list option may_panic" where
  "fill_okm prk info out_len len =
     (if out_len \<noteq> len then Some None
      else do { rust_assert (output_len (key_algorithm prk) \<le> block_len (key_algorithm prk));
                out \<leftarrow> fill_loop prk info (with_key prk) 1 out_len;
                Some (Some out) })"

definition okm_fill :: "Okm \<Rightarrow> nat \<Rightarrow> u8 list option may_panic" where
  "okm_fill okm out_len = fill_okm (okm_prk okm) (okm_info okm) out_len (okm_len okm)"

text \<open>\<^verbatim>\<open>Key::from(Okm)\<close>, and with it the conversions to \<^verbatim>\<open>Salt\<close> and \<^verbatim>\<open>Prk\<close>: the bytes are the key; a failure is unwrapped.\<close>

definition key_from_okm :: "DigestAlgorithm \<Rightarrow> Okm \<Rightarrow> HmacKey may_panic" where
  "key_from_okm algorithm okm =
     do { rust_assert (output_len algorithm \<le> MAX_OUTPUT_LEN);
          filled \<leftarrow> okm_fill okm (output_len algorithm);
          key_bytes \<leftarrow> filled;
          hmac_key_new algorithm key_bytes }"

section \<open>PBKDF2\<close>

lemma countdown: "remaining \<noteq> 1 \<Longrightarrow> unat (remaining - 2) < unat (remaining - 1 :: u32)"
  using measure_unat [of "remaining - 1"] by (simp add: diff_diff_eq)

function derive_loop :: "HmacKey \<Rightarrow> u32 \<Rightarrow> u8 list \<Rightarrow> u8 list \<Rightarrow> u8 list may_panic" where
  "derive_loop secret remaining u out =
     do { rust_assert (length out \<le> length u);
          let out = xor_into out u;
          if remaining = 1 then Some out
          else do { u \<leftarrow> hmac_sign secret u; derive_loop secret (remaining - 1) u out } }"
  by pat_completeness auto
termination
  by (relation "measure (\<lambda>(_, remaining, _, _). unat (remaining - 1))") (auto intro: countdown)

declare derive_loop.simps [simp del]

definition derive_block :: "HmacKey \<Rightarrow> u32 \<Rightarrow> u8 list \<Rightarrow> u32 \<Rightarrow> u8 list \<Rightarrow> u8 list may_panic" where
  "derive_block secret iterations salt i out =
     do { ctx \<leftarrow> hmac_update (with_key secret) salt;
          ctx \<leftarrow> hmac_update ctx (to_be_bytes 4 i);
          u \<leftarrow> hmac_finish ctx;
          derive_loop secret iterations u out }"

text \<open>The loop over the chunks of the output, which starts cleared.\<close>

function derive_chunks :: "HmacKey \<Rightarrow> u32 \<Rightarrow> u8 list \<Rightarrow> u32 \<Rightarrow> nat \<Rightarrow> nat \<Rightarrow> u8 list may_panic" where
  "derive_chunks secret iterations salt i chunk_len left =
     (if left = 0 then Some []
      else if chunk_len = 0 then None
      else do { i \<leftarrow> checked_add i 1;
                chunk \<leftarrow> derive_block secret iterations salt i (replicate (min chunk_len left) 0);
                rest \<leftarrow> derive_chunks secret iterations salt i chunk_len (left - chunk_len);
                Some (chunk @ rest) })"
  by pat_completeness auto
termination
  by (relation "measure (\<lambda>(_, _, _, _, _, left). left)") auto

declare derive_chunks.simps [simp del]

definition pbkdf2_derive :: "DigestAlgorithm \<Rightarrow> u32 \<Rightarrow> u8 list \<Rightarrow> u8 list \<Rightarrow> nat \<Rightarrow> u8 list may_panic" where
  "pbkdf2_derive algorithm iterations salt secret out_len =
     do { secret \<leftarrow> hmac_key_new algorithm secret;
          derive_chunks secret iterations salt 0 (output_len algorithm) out_len }"

function verify_chunks :: "HmacKey \<Rightarrow> u32 \<Rightarrow> u8 list \<Rightarrow> u32 \<Rightarrow> nat \<Rightarrow> u8 list \<Rightarrow> bool \<Rightarrow> bool may_panic" where
  "verify_chunks secret iterations salt i chunk_len previously_derived matches =
     (if previously_derived = [] then Some matches
      else if chunk_len = 0 then None
      else do { i \<leftarrow> checked_add i 1;
                let previous = take chunk_len previously_derived;
                derived_chunk \<leftarrow> slice (replicate MAX_OUTPUT_LEN 0) 0 (length previous);
                derived_chunk \<leftarrow> derive_block secret iterations salt i derived_chunk;
                let current_block_matches = (verify_slices_are_equal derived_chunk previous = Some ());
                verify_chunks secret iterations salt i chunk_len (drop chunk_len previously_derived) (matches \<and> current_block_matches) })"
  by pat_completeness auto
termination
  by (relation "measure (\<lambda>(_, _, _, _, _, pd, _). length pd)") auto

declare verify_chunks.simps [simp del]

definition pbkdf2_verify :: "DigestAlgorithm \<Rightarrow> u32 \<Rightarrow> u8 list \<Rightarrow> u8 list \<Rightarrow> u8 list \<Rightarrow> unit option may_panic" where
  "pbkdf2_verify algorithm iterations salt secret previously_derived =
     (if previously_derived = [] then Some None
      else do { secret \<leftarrow> hmac_key_new algorithm secret;
                matches \<leftarrow> verify_chunks secret iterations salt 0 (output_len algorithm) previously_derived True;
                Some (if matches then Some () else None) })"

end
