(* ===== verification/Tls_Keys.thy ===== *)
theory Tls_Keys
  imports Tls_Conn Ring_Hmac
begin

text \<open>
  The key schedule of TLS 1.3, from \<^verbatim>\<open>rustls-0.21.2/rustls/src/tls13/key_schedule.rs\<close>, and the traffic state that uses it, from
  \<^verbatim>\<open>server/tls13.rs\<close>. Pseudo-random keys and salts are the HMAC keys of ring; the AEAD is a parameter of the suite. Debug assertions, and
  the copies of secrets kept for QUIC, are left out.
\<close>

section \<open>Suites and labels\<close>

text \<open>\<^verbatim>\<open>aead::Algorithm\<close> of ring, with the operations of a key of it, and \<^verbatim>\<open>Tls13CipherSuite\<close>.\<close>

datatype AeadName = AES_128_GCM | AES_256_GCM | CHACHA20_POLY1305

record AeadAlgorithm =
  aead_name :: AeadName
  aead_key_len :: nat
  aead_seal :: "u8 list \<Rightarrow> aead_fun"
  aead_open :: "u8 list \<Rightarrow> aead_fun"

record Tls13CipherSuite =
  hkdf_algorithm :: DigestAlgorithm
  aead_algorithm :: AeadAlgorithm

text \<open>The suites; \<open>seal\<close> and \<open>opn\<close> are the operations of the cipher named, whose key length is the documented one.\<close>

definition TLS13_CHACHA20_POLY1305_SHA256_INTERNAL :: "(u8 list \<Rightarrow> aead_fun) \<Rightarrow> (u8 list \<Rightarrow> aead_fun) \<Rightarrow> Tls13CipherSuite" where
  "TLS13_CHACHA20_POLY1305_SHA256_INTERNAL seal opn =
     \<lparr>hkdf_algorithm = SHA256, aead_algorithm = \<lparr>aead_name = CHACHA20_POLY1305, aead_key_len = 32, aead_seal = seal, aead_open = opn\<rparr>\<rparr>"

definition TLS13_AES_256_GCM_SHA384 :: "(u8 list \<Rightarrow> aead_fun) \<Rightarrow> (u8 list \<Rightarrow> aead_fun) \<Rightarrow> Tls13CipherSuite" where
  "TLS13_AES_256_GCM_SHA384 seal opn =
     \<lparr>hkdf_algorithm = SHA384, aead_algorithm = \<lparr>aead_name = AES_256_GCM, aead_key_len = 32, aead_seal = seal, aead_open = opn\<rparr>\<rparr>"

definition TLS13_AES_128_GCM_SHA256_INTERNAL :: "(u8 list \<Rightarrow> aead_fun) \<Rightarrow> (u8 list \<Rightarrow> aead_fun) \<Rightarrow> Tls13CipherSuite" where
  "TLS13_AES_128_GCM_SHA256_INTERNAL seal opn =
     \<lparr>hkdf_algorithm = SHA256, aead_algorithm = \<lparr>aead_name = AES_128_GCM, aead_key_len = 16, aead_seal = seal, aead_open = opn\<rparr>\<rparr>"

datatype SecretKind =
    ResumptionPskBinderKey | ClientEarlyTrafficSecret | ClientHandshakeTrafficSecret | ServerHandshakeTrafficSecret
  | ClientApplicationTrafficSecret | ServerApplicationTrafficSecret | ExporterMasterSecret | ResumptionMasterSecret | DerivedSecret

text \<open>A byte string literal \<^verbatim>\<open>b"..."\<close>.\<close>

definition bytes_of :: "string \<Rightarrow> u8 list" where
  "bytes_of s = map (\<lambda>c. word_of_nat (of_char c)) s"

fun kind_label :: "SecretKind \<Rightarrow> string" where
  "kind_label ResumptionPskBinderKey = ''res binder''"
| "kind_label ClientEarlyTrafficSecret = ''c e traffic''"
| "kind_label ClientHandshakeTrafficSecret = ''c hs traffic''"
| "kind_label ServerHandshakeTrafficSecret = ''s hs traffic''"
| "kind_label ClientApplicationTrafficSecret = ''c ap traffic''"
| "kind_label ServerApplicationTrafficSecret = ''s ap traffic''"
| "kind_label ExporterMasterSecret = ''exp master''"
| "kind_label ResumptionMasterSecret = ''res master''"
| "kind_label DerivedSecret = ''derived''"

definition to_bytes :: "SecretKind \<Rightarrow> u8 list" where
  "to_bytes kind = bytes_of (kind_label kind)"

fun log_label :: "SecretKind \<Rightarrow> string option" where
  "log_label ClientEarlyTrafficSecret = Some ''CLIENT_EARLY_TRAFFIC_SECRET''"
| "log_label ClientHandshakeTrafficSecret = Some ''CLIENT_HANDSHAKE_TRAFFIC_SECRET''"
| "log_label ServerHandshakeTrafficSecret = Some ''SERVER_HANDSHAKE_TRAFFIC_SECRET''"
| "log_label ClientApplicationTrafficSecret = Some ''CLIENT_TRAFFIC_SECRET_0''"
| "log_label ServerApplicationTrafficSecret = Some ''SERVER_TRAFFIC_SECRET_0''"
| "log_label ExporterMasterSecret = Some ''EXPORTER_SECRET''"
| "log_label _ = None"

section \<open>Expansion\<close>

definition hkdf_info :: "nat \<Rightarrow> u8 list \<Rightarrow> u8 list \<Rightarrow> u8 list list" where
  "hkdf_info len label context =
     (let LABEL_PREFIX = bytes_of ''tls13 '' in
      [to_be_bytes 2 (word_of_nat len :: u16), [word_of_nat (length LABEL_PREFIX + length label)], LABEL_PREFIX, label, [word_of_nat (length context)], context])"

text \<open>\<^verbatim>\<open>hkdf_expand_info\<close> unwraps the result of \<^verbatim>\<open>expand\<close>.\<close>

definition hkdf_expand_info :: "HmacKey \<Rightarrow> nat \<Rightarrow> u8 list \<Rightarrow> u8 list \<Rightarrow> Okm may_panic" where
  "hkdf_expand_info secret len label context = prk_expand secret (hkdf_info len label context) len"

text \<open>\<^verbatim>\<open>hkdf_expand\<close> to bytes (a payload, a cipher key, an initialisation vector), and to a key of an algorithm.\<close>

definition hkdf_expand :: "HmacKey \<Rightarrow> nat \<Rightarrow> u8 list \<Rightarrow> u8 list \<Rightarrow> u8 list may_panic" where
  "hkdf_expand secret len label context = do { okm \<leftarrow> hkdf_expand_info secret len label context; filled \<leftarrow> okm_fill okm len; filled }"

definition hkdf_expand_prk :: "HmacKey \<Rightarrow> DigestAlgorithm \<Rightarrow> u8 list \<Rightarrow> u8 list \<Rightarrow> HmacKey may_panic" where
  "hkdf_expand_prk secret alg label context = do { okm \<leftarrow> hkdf_expand_info secret (output_len alg) label context; key_from_okm alg okm }"

definition derive_traffic_key :: "HmacKey \<Rightarrow> AeadAlgorithm \<Rightarrow> u8 list may_panic" where
  "derive_traffic_key secret aead = hkdf_expand secret (aead_key_len aead) (bytes_of ''key'') []"

definition derive_traffic_iv :: "HmacKey \<Rightarrow> u8 list may_panic" where
  "derive_traffic_iv secret = hkdf_expand secret 12 (bytes_of ''iv'') []"

section \<open>The key schedule\<close>

record KeySchedule =
  ks_current :: HmacKey
  ks_suite :: Tls13CipherSuite

abbreviation ks_alg :: "KeySchedule \<Rightarrow> DigestAlgorithm" where
  "ks_alg ks \<equiv> hkdf_algorithm (ks_suite ks)"

abbreviation ks_aead :: "KeySchedule \<Rightarrow> AeadAlgorithm" where
  "ks_aead ks \<equiv> aead_algorithm (ks_suite ks)"

definition ks_new :: "Tls13CipherSuite \<Rightarrow> u8 list \<Rightarrow> KeySchedule may_panic" where
  "ks_new suite secret =
     do { zeroes \<leftarrow> slice (replicate MAX_OUTPUT_LEN 0) 0 (output_len (hkdf_algorithm suite));
          salt \<leftarrow> hmac_key_new (hkdf_algorithm suite) zeroes;
          current \<leftarrow> hkdf_extract salt secret;
          Some \<lparr>ks_current = current, ks_suite = suite\<rparr> }"

definition ks_new_with_empty_secret :: "Tls13CipherSuite \<Rightarrow> KeySchedule may_panic" where
  "ks_new_with_empty_secret suite =
     do { zeroes \<leftarrow> slice (replicate MAX_OUTPUT_LEN 0) 0 (output_len (hkdf_algorithm suite)); ks_new suite zeroes }"

definition derive_decrypter :: "KeySchedule \<Rightarrow> HmacKey \<Rightarrow> MessageDecrypter may_panic" where
  "derive_decrypter ks secret =
     do { key \<leftarrow> derive_traffic_key secret (ks_aead ks); iv \<leftarrow> derive_traffic_iv secret;
          Some (tls13_decrypt (aead_open (ks_aead ks) key) iv) }"

definition set_encrypter :: "KeySchedule \<Rightarrow> HmacKey \<Rightarrow> CommonState \<Rightarrow> CommonState may_panic" where
  "set_encrypter ks secret cs =
     do { key \<leftarrow> derive_traffic_key secret (ks_aead ks); iv \<leftarrow> derive_traffic_iv secret;
          Some (cs\<lparr>cs_record_layer := set_message_encrypter (cs_record_layer cs) (tls13_encrypt (aead_seal (ks_aead ks) key) iv)\<rparr>) }"

definition set_decrypter :: "KeySchedule \<Rightarrow> HmacKey \<Rightarrow> CommonState \<Rightarrow> CommonState may_panic" where
  "set_decrypter ks secret cs =
     do { dec \<leftarrow> derive_decrypter ks secret; Some (cs\<lparr>cs_record_layer := set_message_decrypter (cs_record_layer cs) dec\<rparr>) }"

definition ks_derive :: "KeySchedule \<Rightarrow> DigestAlgorithm \<Rightarrow> SecretKind \<Rightarrow> u8 list \<Rightarrow> HmacKey may_panic" where
  "ks_derive ks alg kind hs_hash = hkdf_expand_prk (ks_current ks) alg (to_bytes kind) hs_hash"

definition derive_for_empty_hash :: "KeySchedule \<Rightarrow> SecretKind \<Rightarrow> HmacKey may_panic" where
  "derive_for_empty_hash ks kind = do { empty_hash \<leftarrow> digest (ks_alg ks) []; ks_derive ks (ks_alg ks) kind empty_hash }"

definition input_secret :: "KeySchedule \<Rightarrow> u8 list \<Rightarrow> KeySchedule may_panic" where
  "input_secret ks secret =
     do { salt \<leftarrow> derive_for_empty_hash ks DerivedSecret; current \<leftarrow> hkdf_extract salt secret; Some (ks\<lparr>ks_current := current\<rparr>) }"

definition input_empty :: "KeySchedule \<Rightarrow> KeySchedule may_panic" where
  "input_empty ks = do { zeroes \<leftarrow> slice (replicate MAX_OUTPUT_LEN 0) 0 (output_len (ks_alg ks)); input_secret ks zeroes }"

text \<open>The key log of the caller: which labels it wants, and what is written to it (label, client random, secret).\<close>

type_synonym log_line = "string \<times> u8 list \<times> u8 list"

record KeyLog =
  kl_will_log :: "string \<Rightarrow> bool"
  kl_lines :: "log_line list"

definition derive_logged_secret :: "KeySchedule \<Rightarrow> SecretKind \<Rightarrow> u8 list \<Rightarrow> KeyLog \<Rightarrow> u8 list \<Rightarrow> (HmacKey \<times> KeyLog) may_panic" where
  "derive_logged_secret ks kind hs_hash key_log client_random =
     do { label \<leftarrow> log_label kind;
          key_log \<leftarrow> (if kl_will_log key_log label
                      then do { secret \<leftarrow> hkdf_expand (ks_current ks) (output_len (ks_alg ks)) (to_bytes kind) hs_hash;
                                Some (key_log\<lparr>kl_lines := kl_lines key_log @ [(label, client_random, secret)]\<rparr>) }
                      else Some key_log);
          secret \<leftarrow> ks_derive ks (ks_alg ks) kind hs_hash;
          Some (secret, key_log) }"

definition sign_verify_data :: "KeySchedule \<Rightarrow> HmacKey \<Rightarrow> u8 list \<Rightarrow> u8 list may_panic" where
  "sign_verify_data ks base_key hs_hash =
     do { hmac_key \<leftarrow> hkdf_expand_prk base_key (ks_alg ks) (bytes_of ''finished'') []; hmac_sign hmac_key hs_hash }"

definition sign_finish :: "KeySchedule \<Rightarrow> HmacKey \<Rightarrow> u8 list \<Rightarrow> u8 list may_panic" where
  "sign_finish ks base_key hs_hash = sign_verify_data ks base_key hs_hash"

definition derive_next :: "KeySchedule \<Rightarrow> HmacKey \<Rightarrow> HmacKey may_panic" where
  "derive_next ks base_key = hkdf_expand_prk base_key (ks_alg ks) (bytes_of ''traffic upd'') []"

definition derive_ticket_psk :: "KeySchedule \<Rightarrow> HmacKey \<Rightarrow> u8 list \<Rightarrow> u8 list may_panic" where
  "derive_ticket_psk ks rms nonce = hkdf_expand rms (output_len (ks_alg ks)) (bytes_of ''resumption'') nonce"

definition ks_export_keying_material :: "KeySchedule \<Rightarrow> HmacKey \<Rightarrow> nat \<Rightarrow> u8 list \<Rightarrow> u8 list option \<Rightarrow> (TlsError + u8 list) may_panic" where
  "ks_export_keying_material ks current_exporter_secret out_len label context =
     do { h_empty \<leftarrow> digest (ks_alg ks) [];
          secret \<leftarrow> hkdf_expand_prk current_exporter_secret (ks_alg ks) label h_empty;
          h_context \<leftarrow> digest (ks_alg ks) (case context of Some c \<Rightarrow> c | None \<Rightarrow> []);
          okm \<leftarrow> hkdf_expand_info secret out_len (bytes_of ''exporter'') h_context;
          filled \<leftarrow> okm_fill okm out_len;
          Some (case filled of Some out \<Rightarrow> Inr out | None \<Rightarrow> Inl (E_General ''exporting too much'')) }"

section \<open>Stages\<close>

text \<open>The wrappers of the first stages (\<^verbatim>\<open>KeyScheduleEarly\<close>, \<^verbatim>\<open>KeySchedulePreHandshake\<close>, \<^verbatim>\<open>KeyScheduleHandshakeStart\<close>) hold a key schedule and
  nothing else; the conversions between them keep it.\<close>

record KeyScheduleHandshake =
  kh_ks :: KeySchedule
  kh_client_handshake_traffic_secret :: HmacKey
  kh_server_handshake_traffic_secret :: HmacKey

record KeyScheduleTraffic =
  kt_ks :: KeySchedule
  kt_current_client_traffic_secret :: HmacKey
  kt_current_server_traffic_secret :: HmacKey
  kt_current_exporter_secret :: HmacKey

record KeyScheduleTrafficWithClientFinishedPending =
  kp_handshake_client_traffic_secret :: HmacKey
  kp_traffic :: KeyScheduleTraffic

definition client_early_traffic_secret :: "KeySchedule \<Rightarrow> u8 list \<Rightarrow> KeyLog \<Rightarrow> u8 list \<Rightarrow> CommonState \<Rightarrow> (CommonState \<times> KeyLog) may_panic" where
  "client_early_traffic_secret ks hs_hash key_log client_random cs =
     do { (secret, key_log) \<leftarrow> derive_logged_secret ks ClientEarlyTrafficSecret hs_hash key_log client_random;
          cs \<leftarrow> (case cs_side cs of Client \<Rightarrow> set_encrypter ks secret cs | Server \<Rightarrow> set_decrypter ks secret cs);
          Some (cs, key_log) }"

definition resumption_psk_binder_key_and_sign_verify_data :: "KeySchedule \<Rightarrow> u8 list \<Rightarrow> u8 list may_panic" where
  "resumption_psk_binder_key_and_sign_verify_data ks hs_hash =
     do { key \<leftarrow> derive_for_empty_hash ks ResumptionPskBinderKey; sign_verify_data ks key hs_hash }"

definition into_handshake_start :: "KeySchedule \<Rightarrow> u8 list \<Rightarrow> KeySchedule may_panic" where
  "into_handshake_start ks secret = input_secret ks secret"

definition into_handshake :: "KeySchedule \<Rightarrow> u8 list \<Rightarrow> KeyLog \<Rightarrow> u8 list \<Rightarrow> (KeyScheduleHandshake \<times> KeyLog) may_panic" where
  "into_handshake ks hs_hash key_log client_random =
     do { (client_secret, key_log) \<leftarrow> derive_logged_secret ks ClientHandshakeTrafficSecret hs_hash key_log client_random;
          (server_secret, key_log) \<leftarrow> derive_logged_secret ks ServerHandshakeTrafficSecret hs_hash key_log client_random;
          Some (\<lparr>kh_ks = ks, kh_client_handshake_traffic_secret = client_secret, kh_server_handshake_traffic_secret = server_secret\<rparr>, key_log) }"

definition derive_client_handshake_secrets ::
    "KeySchedule \<Rightarrow> bool \<Rightarrow> u8 list \<Rightarrow> Tls13CipherSuite \<Rightarrow> KeyLog \<Rightarrow> u8 list \<Rightarrow> CommonState \<Rightarrow> (KeyScheduleHandshake \<times> KeyLog \<times> CommonState) may_panic" where
  "derive_client_handshake_secrets ks early_data_enabled hs_hash suite key_log client_random cs =
     do { (new, key_log) \<leftarrow> into_handshake (ks\<lparr>ks_suite := suite\<rparr>) hs_hash key_log client_random;
          cs \<leftarrow> set_decrypter (kh_ks new) (kh_server_handshake_traffic_secret new) cs;
          cs \<leftarrow> (if \<not> early_data_enabled then set_encrypter (kh_ks new) (kh_client_handshake_traffic_secret new) cs else Some cs);
          Some (new, key_log, cs) }"

definition derive_server_handshake_secrets ::
    "KeySchedule \<Rightarrow> u8 list \<Rightarrow> KeyLog \<Rightarrow> u8 list \<Rightarrow> CommonState \<Rightarrow> (KeyScheduleHandshake \<times> KeyLog \<times> CommonState) may_panic" where
  "derive_server_handshake_secrets ks hs_hash key_log client_random cs =
     do { (new, key_log) \<leftarrow> into_handshake ks hs_hash key_log client_random;
          cs \<leftarrow> set_encrypter (kh_ks new) (kh_server_handshake_traffic_secret new) cs;
          Some (new, key_log, cs) }"

definition sign_server_finish :: "KeyScheduleHandshake \<Rightarrow> u8 list \<Rightarrow> u8 list may_panic" where
  "sign_server_finish kh hs_hash = sign_finish (kh_ks kh) (kh_server_handshake_traffic_secret kh) hs_hash"

definition set_handshake_encrypter :: "KeyScheduleHandshake \<Rightarrow> CommonState \<Rightarrow> CommonState may_panic" where
  "set_handshake_encrypter kh cs = set_encrypter (kh_ks kh) (kh_client_handshake_traffic_secret kh) cs"

definition set_handshake_decrypter :: "KeyScheduleHandshake \<Rightarrow> nat option \<Rightarrow> CommonState \<Rightarrow> CommonState may_panic" where
  "set_handshake_decrypter kh skip_requested cs =
     (case skip_requested of
        None \<Rightarrow> set_decrypter (kh_ks kh) (kh_client_handshake_traffic_secret kh) cs
      | Some max_early_data_size \<Rightarrow>
          do { dec \<leftarrow> derive_decrypter (kh_ks kh) (kh_client_handshake_traffic_secret kh);
               Some (cs\<lparr>cs_record_layer := set_message_decrypter_with_trial_decryption (cs_record_layer cs) dec max_early_data_size\<rparr>) })"

definition kt_new :: "KeySchedule \<Rightarrow> u8 list \<Rightarrow> KeyLog \<Rightarrow> u8 list \<Rightarrow> (KeyScheduleTraffic \<times> KeyLog) may_panic" where
  "kt_new ks hs_hash key_log client_random =
     do { ks \<leftarrow> input_empty ks;
          (client_secret, key_log) \<leftarrow> derive_logged_secret ks ClientApplicationTrafficSecret hs_hash key_log client_random;
          (server_secret, key_log) \<leftarrow> derive_logged_secret ks ServerApplicationTrafficSecret hs_hash key_log client_random;
          (exporter_secret, key_log) \<leftarrow> derive_logged_secret ks ExporterMasterSecret hs_hash key_log client_random;
          Some (\<lparr>kt_ks = ks, kt_current_client_traffic_secret = client_secret, kt_current_server_traffic_secret = server_secret,
                 kt_current_exporter_secret = exporter_secret\<rparr>, key_log) }"

definition into_traffic_with_client_finished_pending ::
    "KeyScheduleHandshake \<Rightarrow> u8 list \<Rightarrow> KeyLog \<Rightarrow> u8 list \<Rightarrow> CommonState
     \<Rightarrow> (KeyScheduleTrafficWithClientFinishedPending \<times> KeyLog \<times> CommonState) may_panic" where
  "into_traffic_with_client_finished_pending kh hs_hash key_log client_random cs =
     do { (traffic, key_log) \<leftarrow> kt_new (kh_ks kh) hs_hash key_log client_random;
          cs \<leftarrow> set_encrypter (kt_ks traffic) (kt_current_server_traffic_secret traffic) cs;
          Some (\<lparr>kp_handshake_client_traffic_secret = kh_client_handshake_traffic_secret kh, kp_traffic = traffic\<rparr>, key_log, cs) }"

definition into_pre_finished_client_traffic ::
    "KeyScheduleHandshake \<Rightarrow> u8 list \<Rightarrow> u8 list \<Rightarrow> KeyLog \<Rightarrow> u8 list \<Rightarrow> (KeyScheduleTraffic \<times> u8 list \<times> KeyLog) may_panic" where
  "into_pre_finished_client_traffic kh pre_finished_hash handshake_hash key_log client_random =
     do { (traffic, key_log) \<leftarrow> kt_new (kh_ks kh) pre_finished_hash key_log client_random;
          tag \<leftarrow> sign_finish (kt_ks traffic) (kh_client_handshake_traffic_secret kh) handshake_hash;
          Some (traffic, tag, key_log) }"

definition into_traffic :: "KeyScheduleTraffic \<Rightarrow> CommonState \<Rightarrow> (KeyScheduleTraffic \<times> CommonState) may_panic" where
  "into_traffic traffic cs =
     do { cs \<leftarrow> set_decrypter (kt_ks traffic) (kt_current_server_traffic_secret traffic) cs;
          cs \<leftarrow> set_encrypter (kt_ks traffic) (kt_current_client_traffic_secret traffic) cs;
          Some (traffic, cs) }"

definition kp_update_decrypter :: "KeyScheduleTrafficWithClientFinishedPending \<Rightarrow> CommonState \<Rightarrow> CommonState may_panic" where
  "kp_update_decrypter kp cs = set_decrypter (kt_ks (kp_traffic kp)) (kp_handshake_client_traffic_secret kp) cs"

definition sign_client_finish ::
    "KeyScheduleTrafficWithClientFinishedPending \<Rightarrow> u8 list \<Rightarrow> CommonState \<Rightarrow> (KeyScheduleTraffic \<times> u8 list \<times> CommonState) may_panic" where
  "sign_client_finish kp hs_hash cs =
     do { tag \<leftarrow> sign_finish (kt_ks (kp_traffic kp)) (kp_handshake_client_traffic_secret kp) hs_hash;
          cs \<leftarrow> set_decrypter (kt_ks (kp_traffic kp)) (kt_current_client_traffic_secret (kp_traffic kp)) cs;
          Some (kp_traffic kp, tag, cs) }"

section \<open>Key updates\<close>

definition next_application_traffic_secret :: "KeyScheduleTraffic \<Rightarrow> Side \<Rightarrow> (HmacKey \<times> KeyScheduleTraffic) may_panic" where
  "next_application_traffic_secret kt side =
     (case side of
        Client \<Rightarrow> do { secret \<leftarrow> derive_next (kt_ks kt) (kt_current_client_traffic_secret kt);
                       Some (secret, kt\<lparr>kt_current_client_traffic_secret := secret\<rparr>) }
      | Server \<Rightarrow> do { secret \<leftarrow> derive_next (kt_ks kt) (kt_current_server_traffic_secret kt);
                       Some (secret, kt\<lparr>kt_current_server_traffic_secret := secret\<rparr>) })"

definition update_encrypter_and_notify :: "KeyScheduleTraffic \<Rightarrow> CommonState \<Rightarrow> (KeyScheduleTraffic \<times> CommonState) may_panic" where
  "update_encrypter_and_notify kt cs =
     do { (secret, kt) \<leftarrow> next_application_traffic_secret kt (cs_side cs);
          cs \<leftarrow> enqueue_key_update_notification cs;
          cs \<leftarrow> set_encrypter (kt_ks kt) secret cs;
          Some (kt, cs) }"

definition kt_update_decrypter :: "KeyScheduleTraffic \<Rightarrow> CommonState \<Rightarrow> (KeyScheduleTraffic \<times> CommonState) may_panic" where
  "kt_update_decrypter kt cs =
     do { (secret, kt) \<leftarrow> next_application_traffic_secret kt (side_peer (cs_side cs));
          cs \<leftarrow> set_decrypter (kt_ks kt) secret cs;
          Some (kt, cs) }"

definition resumption_master_secret_and_derive_ticket_psk :: "KeyScheduleTraffic \<Rightarrow> u8 list \<Rightarrow> u8 list \<Rightarrow> u8 list may_panic" where
  "resumption_master_secret_and_derive_ticket_psk kt hs_hash nonce =
     do { rms \<leftarrow> ks_derive (kt_ks kt) (ks_alg (kt_ks kt)) ResumptionMasterSecret hs_hash;
          derive_ticket_psk (kt_ks kt) rms nonce }"

definition kt_export_keying_material :: "KeyScheduleTraffic \<Rightarrow> nat \<Rightarrow> u8 list \<Rightarrow> u8 list option \<Rightarrow> (TlsError + u8 list) may_panic" where
  "kt_export_keying_material kt out_len label context =
     ks_export_keying_material (kt_ks kt) (kt_current_exporter_secret kt) out_len label context"

text \<open>Secrets for kernel TLS (\<^verbatim>\<open>suites.rs\<close>). The last branch of the code, for a cipher it does not know, is not reached: the suites have
  no other.\<close>

datatype ConnectionTrafficSecrets =
    CTS_Aes128Gcm "u8 list" "u8 list" "u8 list"
  | CTS_Aes256Gcm "u8 list" "u8 list" "u8 list"
  | CTS_Chacha20Poly1305 "u8 list" "u8 list"

definition extract_expand :: "nat \<Rightarrow> nat \<Rightarrow> HmacKey \<Rightarrow> (TlsError + u8 list \<times> u8 list) may_panic" where
  "extract_expand KEY_LEN IV_LEN secret =
     do { okm \<leftarrow> hkdf_expand_info secret KEY_LEN (bytes_of ''key'') [];
          key \<leftarrow> okm_fill okm KEY_LEN;
          (case key of
             None \<Rightarrow> Some (Inl (E_General ''hkdf_expand_info failed''))
           | Some key \<Rightarrow>
               do { okm \<leftarrow> hkdf_expand_info secret IV_LEN (bytes_of ''iv'') [];
                    iv \<leftarrow> okm_fill okm IV_LEN;
                    Some (case iv of None \<Rightarrow> Inl (E_General ''hkdf_expand_info failed'') | Some iv \<Rightarrow> Inr (key, iv)) }) }"

definition extract_one :: "AeadName \<Rightarrow> HmacKey \<Rightarrow> (TlsError + ConnectionTrafficSecrets) may_panic" where
  "extract_one algo secret =
     (case algo of
        AES_128_GCM \<Rightarrow> map_option (map_sum id (\<lambda>(key, iv_in). CTS_Aes128Gcm key (take 4 iv_in) (drop 4 iv_in))) (extract_expand 16 12 secret)
      | AES_256_GCM \<Rightarrow> map_option (map_sum id (\<lambda>(key, iv_in). CTS_Aes256Gcm key (take 4 iv_in) (drop 4 iv_in))) (extract_expand 32 12 secret)
      | CHACHA20_POLY1305 \<Rightarrow> map_option (map_sum id (\<lambda>(key, iv). CTS_Chacha20Poly1305 key iv)) (extract_expand 32 12 secret))"

text \<open>The pair is the secrets for sending and for receiving.\<close>

definition kt_extract_secrets :: "KeyScheduleTraffic \<Rightarrow> Side \<Rightarrow> (TlsError + ConnectionTrafficSecrets \<times> ConnectionTrafficSecrets) may_panic" where
  "kt_extract_secrets kt side =
     (let algo = aead_name (ks_aead (kt_ks kt)) in
      do { client \<leftarrow> extract_one algo (kt_current_client_traffic_secret kt);
           (case client of
              Inl e \<Rightarrow> Some (Inl e)
            | Inr client_secrets \<Rightarrow>
                do { server \<leftarrow> extract_one algo (kt_current_server_traffic_secret kt);
                     Some (case server of
                             Inl e \<Rightarrow> Inl e
                           | Inr server_secrets \<Rightarrow>
                               Inr (case side of Client \<Rightarrow> (client_secrets, server_secrets) | Server \<Rightarrow> (server_secrets, client_secrets))) }) })"

text \<open>\<^verbatim>\<open>ExpectTraffic\<close> of \<^verbatim>\<open>server/tls13.rs\<close>. The client's version of \<^verbatim>\<open>handle_key_update\<close> is the same.\<close>

definition handle_key_update ::
    "send_fragment \<Rightarrow> KeyScheduleTraffic \<Rightarrow> CommonState \<Rightarrow> KeyUpdateRequest \<Rightarrow> ((TlsError + KeyScheduleTraffic) \<times> CommonState) may_panic" where
  "handle_key_update send kt cs key_update_request =
     (if cs_protocol cs = Quic
      then do { (e, cs) \<leftarrow> send_fatal_alert send cs AD_UnexpectedMessage (E_PeerMisbehaved PM_KeyUpdateReceivedInQuicConnection); Some (Inl e, cs) }
      else do { (res, cs) \<leftarrow> check_aligned_handshake send cs;
                (case res of
                   Inl e \<Rightarrow> Some (Inl e, cs)
                 | Inr _ \<Rightarrow>
                     do { (res, cs) \<leftarrow> should_update_key send cs key_update_request;
                          (case res of
                             Inl e \<Rightarrow> Some (Inl e, cs)
                           | Inr update \<Rightarrow>
                               do { (kt, cs) \<leftarrow> (if update then update_encrypter_and_notify kt cs else Some (kt, cs));
                                    (kt, cs) \<leftarrow> kt_update_decrypter kt cs;
                                    Some (Inr kt, cs) }) }) })"

definition expect_traffic13 :: "send_fragment \<Rightarrow> (KeyScheduleTraffic, 'd) handler" where
  "expect_traffic13 send self cs data m =
     (let wrong = Some (Inl (inappropriate_handshake_message (msg_payload m) [CT_ApplicationData, CT_Handshake] [HT_KeyUpdate]), cs, data) in
      case msg_payload m of
        MP_ApplicationData payload \<Rightarrow> Some (Inr self, take_received_plaintext cs payload, data)
      | MP_Handshake parsed _ \<Rightarrow>
          (case hmp_payload parsed of
             HP_KeyUpdate key_update \<Rightarrow> do { (res, cs) \<leftarrow> handle_key_update send self cs key_update; Some (res, cs, data) }
           | _ \<Rightarrow> wrong)
      | _ \<Rightarrow> wrong)"

end
