(* ===== verification/Ring_Digest_Correct.thy ===== *)
theory Ring_Digest_Correct
  imports Ring_Digest Tls_Codec_Correct
begin

text \<open>
  Digests compute what the standard says. The reference pads the whole message and folds the compression function over its
  blocks; the locale \<open>merkle_damgard\<close> is what the contexts rely on of an algorithm, and the five algorithms of \<^verbatim>\<open>digest.rs\<close>
  are its interpretations. However the input is cut into pieces, a context gives the digest of their concatenation.
\<close>

section \<open>Reference\<close>

text \<open>FIPS 180-4, section 5.1: the message, a one bit, zeros, and the length in bits.\<close>

definition md_pad :: "DigestAlgorithm \<Rightarrow> u8 list \<Rightarrow> u8 list" where
  "md_pad alg m =
     (let b = block_len alg in
      m @ [0x80] @ replicate ((b - (length m + 1 + len_len alg) mod b) mod b) 0 @ be_digits (len_len alg) (8 * length m))"

definition digest_spec :: "DigestAlgorithm \<Rightarrow> u8 list \<Rightarrow> u8 list" where
  "digest_spec alg m =
     (let p = md_pad alg m in
      take (output_len alg) (format_output alg (alg_block_data_order alg (initial_state alg) p (length p div block_len alg))))"

text \<open>A sequence of calls of \<^const>\<open>ctx_update\<close>.\<close>

fun ctx_updates :: "Context \<Rightarrow> u8 list list \<Rightarrow> Context may_panic" where
  "ctx_updates ctx [] = Some ctx"
| "ctx_updates ctx (c # cs) = do { ctx \<leftarrow> ctx_update ctx c; ctx_updates ctx cs }"

section \<open>Auxiliary facts\<close>

lemma blocks_append: "length xs = m * k \<Longrightarrow> blocks k (m + n) (xs @ ys) = blocks k m xs @ blocks k n ys"
  by (induction m arbitrary: xs) auto

lemma be_digits_zeros: "n < 256 ^ k \<Longrightarrow> be_digits (j + k) n = replicate j 0 @ be_digits k n"
proof (induction j)
  case (Suc j)
  then have "n < 256 ^ (j + k)" by (meson le_add2 less_le_trans one_le_numeral power_increasing)
  then show ?case using Suc be_digits_lead [of n "j + k"] by simp
qed simp

lemma copy_slice_ok: "i + length ys \<le> length xs \<Longrightarrow> copy_slice xs i ys = Some (overwrite xs i ys)"
  by (simp add: copy_slice_def slice_def)

lemma fill_ok: "a \<le> b \<Longrightarrow> b \<le> length xs \<Longrightarrow> fill xs a b v = Some (overwrite xs a (replicate (b - a) v))"
  by (simp add: fill_def slice_def)

lemma overwrite_prefix: "xs = ys @ zs \<Longrightarrow> length ys = i \<Longrightarrow> overwrite xs i vs = ys @ vs @ drop (length vs) zs"
  by (simp add: overwrite_def)

lemma checked_add_64: "checked_add a (b :: u64) = (if unat a + unat b < 2 ^ 64 then Some (a + b) else None)"
  by (simp add: checked_add_def)

lemma checked_mul_64: "checked_mul a (b :: u64) = (if unat a * unat b < 2 ^ 64 then Some (a * b) else None)"
  by (simp add: checked_mul_def)

lemma word_plus_nat: "unat (a :: u64) + n < 2 ^ 64 \<Longrightarrow> unat (a + word_of_nat n) = unat a + n"
  by (simp add: unat_word_ariths(1) unat_of_nat)

lemma word_times_nat: "unat (a :: u64) * n < 2 ^ 64 \<Longrightarrow> n < 2 ^ 64 \<Longrightarrow> unat (a * word_of_nat n) = unat a * n"
  by (simp add: unat_word_ariths(2) unat_of_nat)

lemma pad_amount:
  assumes "x < 2 * b"
  shows "(b - x mod b) mod b = (if x = 0 then 0 else if b < x then 2 * b - x else b - (x :: nat))"
proof (cases "x < b")
  case False
  then have "x mod b = x - b" using assms by (metis le_mod_geq linorder_not_less mod_less less_diff_conv2 mult_2)
  then show ?thesis using False assms by (cases "x = b") simp_all
qed (cases "x = 0", simp_all)

section \<open>The contract of an algorithm\<close>

locale merkle_damgard =
  fixes alg :: DigestAlgorithm
    and st_ok :: "State \<Rightarrow> bool"
  assumes init_ok: "st_ok (initial_state alg)"
    and order_ok: "st_ok st \<Longrightarrow> st_ok (alg_block_data_order alg st data n)"
    and order_0: "st_ok st \<Longrightarrow> alg_block_data_order alg st data 0 = st"
    and order_add: "st_ok st \<Longrightarrow> length xs = m * block_len alg \<Longrightarrow>
      alg_block_data_order alg st (xs @ ys) (m + n) = alg_block_data_order alg (alg_block_data_order alg st xs m) ys n"
    and format_len: "st_ok st \<Longrightarrow> output_len alg \<le> length (format_output alg st)"
    and sizes: "8 \<le> len_len alg" "len_len alg < block_len alg" "0 < output_len alg" "output_len alg < block_len alg"
      "output_len alg \<le> MAX_OUTPUT_LEN" "block_len alg \<le> MAX_BLOCK_LEN"
begin

text \<open>A block context that has taken the whole blocks \<open>m\<close>.\<close>

definition bc_rep :: "BlockContext \<Rightarrow> u8 list \<Rightarrow> bool" where
  "bc_rep bc m \<longleftrightarrow> bc_algorithm bc = alg \<and> length m = unat (completed_data_blocks bc) * block_len alg
     \<and> bc_state bc = alg_block_data_order alg (initial_state alg) m (unat (completed_data_blocks bc))"

lemma bc_rep_new: "bc_rep (bc_new alg) []"
  by (simp add: bc_rep_def bc_new_def order_0 init_ok)

lemma bc_rep_state: "bc_rep bc m \<Longrightarrow> st_ok (bc_state bc)"
  by (simp add: bc_rep_def order_ok init_ok)

lemma block_pos: "0 < block_len alg"
  using sizes(2) by simp

lemma bc_update_cases:
  assumes "bc_rep bc m" and "length xs = k * block_len alg" and "length xs < 2 ^ 64"
  shows "(\<exists>bc'. bc_update bc xs = Some bc' \<and> bc_rep bc' (m @ xs)) \<or> (bc_update bc xs = None \<and> 2 ^ 64 \<le> length (m @ xs))"
proof -
  let ?c = "unat (completed_data_blocks bc)"
  have k: "length xs div block_len alg = k" "k \<le> length xs" using assms(2) block_pos by simp_all
  then have u: "unat (word_of_nat k :: u64) = k" using assms(3) by (simp add: unat_of_nat)
  have m: "bc_algorithm bc = alg" "length m = ?c * block_len alg" using assms(1) by (simp_all add: bc_rep_def)
  consider "k = 0" | "k \<noteq> 0" "?c + k < 2 ^ 64" | "k \<noteq> 0" "2 ^ 64 \<le> ?c + k" by linarith
  then show ?thesis
  proof cases
    case 1
    then show ?thesis using assms k m by (simp add: bc_update_def Let_def)
  next
    case 2
    let ?bc = "bc\<lparr>bc_state := alg_block_data_order alg (bc_state bc) xs k, completed_data_blocks := completed_data_blocks bc + word_of_nat k\<rparr>"
    have "bc_update bc xs = Some ?bc" using 2 assms(2) k m u by (simp add: bc_update_def Let_def checked_add_64)
    moreover have "bc_rep ?bc (m @ xs)"
      using assms word_plus_nat [OF 2(2)] order_add [OF init_ok, of m ?c xs k] by (simp add: bc_rep_def algebra_simps)
    ultimately show ?thesis by blast
  next
    case 3
    have "?c + k \<le> length (m @ xs)" using k(2) m(2) block_pos by (simp add: add_le_mono)
    then show ?thesis using 3 assms(2) k m u by (simp add: bc_update_def Let_def checked_add_64)
  qed
qed

text \<open>What is left to pad: the bytes after the whole blocks.\<close>

lemma finish_last:
  assumes "bc_rep bc m1" and "length m2 < block_len alg" and "8 * length (m1 @ m2) < 2 ^ 64"
  shows "\<exists>z. md_pad alg (m1 @ m2) = m1 @ m2 @ [0x80] @ replicate z 0 @ to_be_bytes 8 (word_of_nat (8 * length (m1 @ m2)) :: u64)
    \<and> length m2 + 1 + z + 8 = (if block_len alg - len_len alg < length m2 + 1 then 2 * block_len alg else block_len alg)"
proof -
  let ?b = "block_len alg" and ?l = "len_len alg" and ?n = "length (m1 @ m2)"
  define x where "x = length m2 + 1 + ?l"
  have x: "x < 2 * ?b" "x \<noteq> 0" using assms(2) sizes(2) by (simp_all add: x_def)
  have "?n mod ?b = length m2" using assms(1,2) by (simp add: bc_rep_def)
  then have "(?n + 1 + ?l) mod ?b = x mod ?b" unfolding x_def by (metis mod_add_left_eq add.assoc)
  then have z: "(?b - (?n + 1 + ?l) mod ?b) mod ?b = (if ?b < x then 2 * ?b - x else ?b - x)" using pad_amount [OF x(1)] x(2) by simp
  have "unat (word_of_nat (8 * ?n) :: u64) = 8 * ?n" using assms(3) by (simp add: unat_of_nat del: of_nat_add of_nat_mult)
  then have "be_digits ?l (8 * ?n) = replicate (?l - 8) 0 @ to_be_bytes 8 (word_of_nat (8 * ?n) :: u64)"
    using be_digits_zeros [of "8 * ?n" 8 "?l - 8"] sizes(1) assms(3) by (simp add: to_be_bytes_def del: of_nat_add of_nat_mult)
  then have "md_pad alg (m1 @ m2) = m1 @ m2 @ [0x80] @ replicate ((if ?b < x then 2 * ?b - x else ?b - x) + (?l - 8)) 0
      @ to_be_bytes 8 (word_of_nat (8 * ?n) :: u64)"
    unfolding md_pad_def Let_def z replicate_add by (simp del: of_nat_add of_nat_mult length_append)
  moreover have "length m2 + 1 + ((if ?b < x then 2 * ?b - x else ?b - x) + (?l - 8)) + 8 = (if ?b - ?l < length m2 + 1 then 2 * ?b else ?b)"
    using x(1) sizes(1,2) by (auto simp: x_def)
  ultimately show ?thesis by blast
qed

text \<open>The counter, checked at each step: it overflows exactly when the length in bits does not fit 64 bits.\<close>

lemma bit_count:
  assumes "bc_rep bc m1" and "length m2 < block_len alg"
  shows "do { bytes \<leftarrow> checked_mul (completed_data_blocks bc) (word_of_nat (block_len alg)); bytes \<leftarrow> checked_add bytes (word_of_nat (length m2));
      checked_mul bytes 8 } = (if 8 * length (m1 @ m2) < 2 ^ 64 then Some (word_of_nat (8 * length (m1 @ m2))) else None)"
proof -
  let ?c = "completed_data_blocks bc" and ?b = "block_len alg"
  have n: "length m1 = unat ?c * ?b" using assms(1) by (simp add: bc_rep_def)
  have b: "?b < 2 ^ 64" "length m2 < 2 ^ 64" using sizes(6) assms(2) by (simp_all add: MAX_BLOCK_LEN_def)
  have u: "unat (word_of_nat ?b :: u64) = ?b" "unat (word_of_nat (length m2) :: u64) = length m2" using b by (simp_all add: unat_of_nat)
  have w: "word_of_nat (8 * length (m1 @ m2)) = (?c * word_of_nat ?b + word_of_nat (length m2)) * 8" by (simp add: n algebra_simps)
  show ?thesis unfolding w using word_times_nat [OF _ b(1), of ?c] word_plus_nat [of "?c * word_of_nat ?b" "length m2"]
    by (auto simp: checked_mul_64 checked_add_64 u n)
qed

lemma digest_spec_blocks:
  "md_pad alg m = p \<Longrightarrow> length p = q * block_len alg \<Longrightarrow>
     digest_spec alg m = take (output_len alg) (format_output alg (alg_block_data_order alg (initial_state alg) p q))"
  using block_pos by (simp add: digest_spec_def Let_def)

text \<open>The last block, or the last two, as \<^const>\<open>bc_finish\<close> forms them; \<open>k\<close> bytes follow the one bit in the block of \<open>m2\<close>.\<close>

lemma digest_spec_last:
  assumes "bc_rep bc m1" and "length m2 + 1 + k = block_len alg" and "8 * length (m1 @ m2) < 2 ^ 64"
  defines "two \<equiv> block_len alg - len_len alg < length m2 + 1" and "bits \<equiv> word_of_nat (8 * length (m1 @ m2)) :: u64"
  shows "digest_spec alg (m1 @ m2) = take (output_len alg) (format_output alg (alg_block_data_order alg
      (if two then alg_block_data_order alg (bc_state bc) (m2 @ 0x80 # replicate k 0) 1 else bc_state bc)
      ((if two then replicate (block_len alg - 8) 0 else m2 @ 0x80 # replicate (k - 8) 0) @ to_be_bytes 8 bits) 1))"
proof -
  let ?b = "block_len alg" and ?c = "unat (completed_data_blocks bc)" and ?zeros = "\<lambda>k. replicate k (0 :: u8)"
  note rep = assms(1) [unfolded bc_rep_def]
  obtain z where z: "md_pad alg (m1 @ m2) = m1 @ m2 @ [0x80] @ ?zeros z @ to_be_bytes 8 bits" "length m2 + 1 + z + 8 = (if two then 2 * ?b else ?b)"
    using finish_last [OF assms(1) _ assms(3)] assms(2) unfolding two_def bits_def by auto
  have b8: "8 \<le> ?b" using sizes(1,2) by simp
  have len8: "length (to_be_bytes 8 bits) = 8" by (simp add: to_be_bytes_def)
  show ?thesis
  proof (cases two)
    case True
    let ?one = "m2 @ 0x80 # ?zeros k" and ?lst = "?zeros (?b - 8) @ to_be_bytes 8 bits"
    have "z = k + (?b - 8)" using z(2) True assms(2) b8 by simp
    then have p: "md_pad alg (m1 @ m2) = m1 @ ?one @ ?lst" using z(1) by (simp add: replicate_add)
    have l: "length (m1 @ ?one @ ?lst) = (?c + (1 + 1)) * ?b" "length ?one = 1 * ?b" using rep len8 b8 assms(2) by simp_all
    show ?thesis using True rep order_add [OF bc_rep_state [OF assms(1)] l(2), of ?lst 1] order_add [OF init_ok, of m1 ?c "?one @ ?lst" "1 + 1"]
      unfolding digest_spec_blocks [OF p l(1)] by simp
  next
    case False
    let ?lst = "(m2 @ 0x80 # ?zeros (k - 8)) @ to_be_bytes 8 bits"
    have k: "z = k - 8" "8 \<le> k" using z(2) False assms(2) sizes(1) by (simp_all add: two_def)
    then have p: "md_pad alg (m1 @ m2) = m1 @ ?lst" using z(1) by simp
    have l: "length (m1 @ ?lst) = (?c + 1) * ?b" using rep len8 b8 assms(2) k by simp
    show ?thesis using False rep order_add [OF init_ok, of m1 ?c ?lst 1] unfolding digest_spec_blocks [OF p l] by simp
  qed
qed

lemma bc_finish_eq:
  assumes "bc_rep bc m1" and "length pending = block_len alg" and "length m2 < block_len alg" and "take (length m2) pending = m2"
  shows "bc_finish bc pending (length m2) = (if 8 * length (m1 @ m2) < 2 ^ 64 then Some (digest_spec alg (m1 @ m2)) else None)"
proof -
  let ?b = "block_len alg"
  obtain v rest where p: "pending = m2 @ v # rest"
    using assms(2,3,4) by (metis append_take_drop_id drop_eq_Nil linorder_not_less list.exhaust)
  have st: "store pending (length m2) 0x80 = Some (m2 @ 0x80 # rest)" by (simp add: store_def p)
  have len: "length m2 + 1 + length rest = ?b" using assms(2) by (simp add: p)
  let ?two = "?b - len_len alg < length m2 + 1"
  let ?st = "if ?two then alg_block_data_order alg (bc_state bc) (m2 @ 0x80 # replicate (length rest) 0) 1 else bc_state bc"
  let ?head = "if ?two then replicate (?b - 8) 0 else m2 @ 0x80 # replicate (length rest - 8) 0"
  have b8: "8 \<le> ?b" "\<not> ?two \<Longrightarrow> 8 \<le> length rest" using sizes(1,2) len by auto
  have lens: "?b - Suc (length m2) = length rest" "?b - (9 + length m2) = length rest - 8" "\<not> ?two \<Longrightarrow> ?b - (8 + length m2) = Suc (length rest - 8)"
    using len b8 by simp_all
  have "bc_finish bc pending (length m2)
      = Option.bind (do { bytes \<leftarrow> checked_mul (completed_data_blocks bc) (word_of_nat ?b); bytes \<leftarrow> checked_add bytes (word_of_nat (length m2)); checked_mul bytes 8 })
          (\<lambda>bits. Some (take (output_len alg) (format_output alg (alg_block_data_order alg ?st (?head @ to_be_bytes 8 bits) 1))))"
    using assms(1) st len b8 by (cases ?two) (simp_all add: bc_rep_def bc_finish_def Let_def p fill_ok copy_slice_ok overwrite_def bind_assoc lens)
  then show ?thesis unfolding bit_count [OF assms(1,3)] using digest_spec_last [OF assms(1) len] by simp
qed

text \<open>A context that has taken the bytes \<open>m\<close>: whole blocks went into the block context, the rest is pending.\<close>

definition ctx_rep :: "Context \<Rightarrow> u8 list \<Rightarrow> bool" where
  "ctx_rep ctx m \<longleftrightarrow> (\<exists>m1 m2. m = m1 @ m2 \<and> bc_rep (ctx_block ctx) m1 \<and> length m2 < block_len alg \<and> ctx_num_pending ctx = length m2
     \<and> length (ctx_pending ctx) = MAX_BLOCK_LEN \<and> take (length m2) (ctx_pending ctx) = m2)"

lemma ctx_rep_clone: "bc_rep bc m \<Longrightarrow> ctx_rep (ctx_clone_from bc) m"
  using block_pos by (simp add: ctx_rep_def ctx_clone_from_def)

lemma ctx_rep_new: "ctx_rep (ctx_new alg) []"
  using ctx_rep_clone [OF bc_rep_new] by (simp add: ctx_new_def ctx_clone_from_def)

lemma ctx_finish_eq:
  assumes "ctx_rep ctx m"
  shows "ctx_finish ctx = (if 8 * length m < 2 ^ 64 then Some (digest_spec alg m) else None)"
proof -
  obtain m1 m2 where m: "m = m1 @ m2" "bc_rep (ctx_block ctx) m1" "length m2 < block_len alg" "ctx_num_pending ctx = length m2"
      "length (ctx_pending ctx) = MAX_BLOCK_LEN" "take (length m2) (ctx_pending ctx) = m2"
    using assms by (auto simp: ctx_rep_def)
  then have "bc_algorithm (ctx_block ctx) = alg" by (simp add: bc_rep_def)
  then show ?thesis using m bc_finish_eq [OF m(2) _ m(3), of "take (block_len alg) (ctx_pending ctx)"] sizes(6)
    by (simp add: ctx_finish_def slice_def min_absorb2)
qed

text \<open>A context with nothing pending takes the whole blocks of its input and keeps the rest.\<close>

lemma ctx_whole_cases:
  assumes "bc_rep bc m" and "length pending = MAX_BLOCK_LEN" and "length xs < 2 ^ 64"
  defines "k \<equiv> length xs div block_len alg" and "later \<equiv> length xs mod block_len alg"
  defines "res \<equiv> do { bc \<leftarrow> bc_update bc (take (k * block_len alg) xs);
    if 0 < later
    then do { pending \<leftarrow> copy_slice pending 0 (drop (length xs - later) xs); Some (\<lparr>ctx_block = bc, ctx_pending = pending, ctx_num_pending = later\<rparr>) }
    else Some (\<lparr>ctx_block = bc, ctx_pending = pending, ctx_num_pending = 0\<rparr>) }"
  shows "(\<exists>ctx. res = Some ctx \<and> ctx_rep ctx (m @ xs)) \<or> (res = None \<and> 2 ^ 64 \<le> length (m @ xs))"
proof -
  let ?b = "block_len alg" and ?rest = "drop (k * block_len alg) xs"
  have n: "length xs = k * ?b + later" "later < ?b" using block_pos by (simp_all add: k_def later_def)
  have big: "(\<exists>bc'. bc_update bc (take (k * ?b) xs) = Some bc' \<and> bc_rep bc' (m @ take (k * ?b) xs))
      \<or> (bc_update bc (take (k * ?b) xs) = None \<and> 2 ^ 64 \<le> length (m @ take (k * ?b) xs))"
    using bc_update_cases [OF assms(1), of "take (k * ?b) xs" k] n assms(3) by simp
  have "length (m @ take (k * ?b) xs) \<le> length (m @ xs)" by simp
  moreover have "ctx_rep \<lparr>ctx_block = bc', ctx_pending = overwrite pending 0 ?rest, ctx_num_pending = later\<rparr> (m @ xs)" if "bc_rep bc' (m @ take (k * ?b) xs)" for bc'
    using that n assms(2) sizes(6) unfolding ctx_rep_def
    by (intro exI [of _ "m @ take (k * ?b) xs"] exI [of _ ?rest]) (simp add: overwrite_def)
  moreover have "?rest = [] \<Longrightarrow> overwrite pending 0 ?rest = pending" by simp
  moreover have "copy_slice pending 0 ?rest = Some (overwrite pending 0 ?rest)" using n assms(2) sizes(6) by (intro copy_slice_ok) simp
  ultimately show ?thesis using big n unfolding res_def by (cases "later = 0") auto
qed

lemma ctx_update_cases:
  assumes "ctx_rep ctx m" and "length data < 2 ^ 64"
  shows "(\<exists>ctx'. ctx_update ctx data = Some ctx' \<and> ctx_rep ctx' (m @ data)) \<or> (ctx_update ctx data = None \<and> 2 ^ 64 \<le> length (m @ data))"
proof -
  let ?b = "block_len alg"
  obtain m1 m2 where m: "m = m1 @ m2" "bc_rep (ctx_block ctx) m1" "length m2 < ?b" "ctx_num_pending ctx = length m2"
      "length (ctx_pending ctx) = MAX_BLOCK_LEN" "take (length m2) (ctx_pending ctx) = m2"
    using assms by (auto simp: ctx_rep_def)
  have alg: "bc_algorithm (ctx_block ctx) = alg" using m(2) by (simp add: bc_rep_def)
  consider "length data < ?b - length m2" | "?b - length m2 \<le> length data" "m2 = []" | "?b - length m2 \<le> length data" "m2 \<noteq> []" by linarith
  then show ?thesis
  proof cases
    case 1
    let ?p = "overwrite (ctx_pending ctx) (length m2) data"
    have "copy_slice (ctx_pending ctx) (length m2) data = Some ?p" using 1 m(5) sizes(6) by (intro copy_slice_ok) simp
    moreover have "take (length (m2 @ data)) ?p = m2 @ data" "length ?p = MAX_BLOCK_LEN"
      using 1 m(5,6) sizes(6) take_overwrite [of "length m2" data "ctx_pending ctx"] by simp_all
    moreover from this have "ctx_rep (ctx\<lparr>ctx_pending := ?p, ctx_num_pending := length m2 + length data\<rparr>) (m @ data)"
      using 1 m unfolding ctx_rep_def by (intro exI [of _ m1] exI [of _ "m2 @ data"]) simp
    ultimately show ?thesis using 1 m(4) alg by (simp add: ctx_update_def Let_def)
  next
    case 2
    obtain blk pend where ctx: "ctx = \<lparr>ctx_block = blk, ctx_pending = pend, ctx_num_pending = 0\<rparr>" using 2 m(4) by (cases ctx) auto
    then show ?thesis using ctx_whole_cases [OF m(2,5) assms(2)] 2 m(1) alg by (simp add: ctx_update_def Let_def cong: if_cong)
  next
    case 3
    let ?t = "take (?b - length m2) data" and ?xs = "drop (?b - length m2) data"
    let ?p = "overwrite (ctx_pending ctx) (length m2) ?t"
    have p: "copy_slice (ctx_pending ctx) (length m2) ?t = Some ?p" "length ?p = MAX_BLOCK_LEN" "slice ?p 0 ?b = Some (m2 @ ?t)"
      using 3 m(3,5,6) sizes(6) take_overwrite [of "length m2" ?t "ctx_pending ctx"] by (simp_all add: copy_slice_ok slice_def)
    have all: "m @ data = (m1 @ m2 @ ?t) @ ?xs" "length ?xs < 2 ^ 64" using m(1) assms(2) by simp_all
    consider bc' where "bc_update (ctx_block ctx) (m2 @ ?t) = Some bc'" "bc_rep bc' (m1 @ m2 @ ?t)"
      | "bc_update (ctx_block ctx) (m2 @ ?t) = None" "2 ^ 64 \<le> length (m1 @ m2 @ ?t)"
      using bc_update_cases [OF m(2), of "m2 @ ?t" 1] 3 m(3) sizes(6) by (auto simp: MAX_BLOCK_LEN_def)
    then show ?thesis
    proof cases
      case (1 bc')
      then show ?thesis unfolding all(1) using ctx_whole_cases [OF 1(2) p(2) all(2)] 3 m(4) alg p
        by (simp add: ctx_update_def Let_def cong: if_cong)
    next
      case none: 2
      have "length (m1 @ m2 @ ?t) \<le> length (m @ data)" unfolding all(1) by simp
      then show ?thesis using none 3 m(4) alg p by (simp add: ctx_update_def Let_def)
    qed
  qed
qed

lemma ctx_updates_eq:
  assumes "ctx_rep ctx m" and "list_all (\<lambda>c. length c < 2 ^ 64) chunks"
  shows "do { ctx \<leftarrow> ctx_updates ctx chunks; ctx_finish ctx }
    = (if 8 * length (m @ concat chunks) < 2 ^ 64 then Some (digest_spec alg (m @ concat chunks)) else None)"
  using assms
proof (induction chunks arbitrary: ctx m)
  case Nil
  then show ?case using ctx_finish_eq by simp
next
  case (Cons c chunks)
  then show ?case using ctx_update_cases [OF Cons.prems(1), of c] Cons.IH [of _ "m @ c"] by auto
qed

lemma digest_eq:
  assumes "length data < 2 ^ 64"
  shows "digest alg data = (if 8 * length data < 2 ^ 64 then Some (digest_spec alg data) else None)"
  using ctx_updates_eq [OF ctx_rep_new, of "[data]"] assms by (simp add: digest_def)

lemma digest_spec_length: "length (digest_spec alg m) = output_len alg"
  using format_len [OF order_ok [OF init_ok]] by (simp add: digest_spec_def Let_def)

end

section \<open>The algorithms\<close>

lemma block_data_order_add:
  "length xs = m * (16 * w) \<Longrightarrow> block_data_order S w H (xs @ ys) (m + n) = block_data_order S w (block_data_order S w H xs m) ys n"
  by (simp add: block_data_order_def blocks_append)

lemma block_data_order_0: "block_data_order S w H M 0 = H"
  by (simp add: block_data_order_def)

lemma block_data_order1_add:
  "length xs = m * 64 \<Longrightarrow> block_data_order1 H (xs @ ys) (m + n) = block_data_order1 (block_data_order1 H xs m) ys n"
  by (simp add: block_data_order1_def blocks_append)

lemma block_data_order1_0: "block_data_order1 H M 0 = H"
  by (simp add: block_data_order1_def)

lemma block_data_order_length: "length H = 8 \<Longrightarrow> length (block_data_order S w H M n) = 8"
proof -
  have "length (foldl (sha2_block S w) H Ms) = 8" if "length H = 8" for Ms
    using that by (induction Ms arbitrary: H) (simp_all add: sha2_block_def split: prod.split)
  then show "length H = 8 \<Longrightarrow> length (block_data_order S w H M n) = 8" by (simp add: block_data_order_def)
qed

lemma block_data_order1_length: "length H = 5 \<Longrightarrow> length (block_data_order1 H M n) = 5"
proof -
  have "length (foldl sha1_block H Ms) = 5" if "length H = 5" for Ms
    using that by (induction Ms arbitrary: H) (simp_all add: sha1_block_def Let_def split: prod.split)
  then show "length H = 5 \<Longrightarrow> length (block_data_order1 H M n) = 5" by (simp add: block_data_order1_def)
qed

lemma concat_be_length: "length (concat (map (to_be_bytes k) H)) = k * length H"
  by (induction H) (simp_all add: to_be_bytes_def)

text \<open>The states of the two families: eight words of the right width.\<close>

fun is_32 :: "State \<Rightarrow> bool" where
  "is_32 (As32 H) = (length H = 8)"
| "is_32 (As64 H) = False"

fun is_64 :: "State \<Rightarrow> bool" where
  "is_64 (As64 H) = (length H = 8)"
| "is_64 (As32 H) = False"

lemma sha256_order:
  "is_32 st \<Longrightarrow> is_32 (sha256_block_data_order st data n)"
  "is_32 st \<Longrightarrow> sha256_block_data_order st data 0 = st"
  "is_32 st \<Longrightarrow> length xs = m * 64 \<Longrightarrow> sha256_block_data_order st (xs @ ys) (m + n) = sha256_block_data_order (sha256_block_data_order st xs m) ys n"
  "is_32 st \<Longrightarrow> length (sha256_format_output st) = 32"
  by (cases st; simp add: block_data_order_length concat_be_length block_data_order_0 block_data_order_add)+

lemma sha512_order:
  "is_64 st \<Longrightarrow> is_64 (sha512_block_data_order st data n)"
  "is_64 st \<Longrightarrow> sha512_block_data_order st data 0 = st"
  "is_64 st \<Longrightarrow> length xs = m * 128 \<Longrightarrow> sha512_block_data_order st (xs @ ys) (m + n) = sha512_block_data_order (sha512_block_data_order st xs m) ys n"
  "is_64 st \<Longrightarrow> length (sha512_format_output st) = 64"
  by (cases st; simp add: block_data_order_length concat_be_length block_data_order_0 block_data_order_add)+

lemma sha1_order:
  "is_32 st \<Longrightarrow> is_32 (sha1_block_data_order st data n)"
  "is_32 st \<Longrightarrow> sha1_block_data_order st data 0 = st"
  "is_32 st \<Longrightarrow> length xs = m * 64 \<Longrightarrow> sha1_block_data_order st (xs @ ys) (m + n) = sha1_block_data_order (sha1_block_data_order st xs m) ys n"
  by (cases st; simp add: block_data_order1_length overwrite_def block_data_order1_0 block_data_order1_add)+

interpretation sha1: merkle_damgard SHA1_FOR_LEGACY_USE_ONLY is_32
  by unfold_locales (simp_all add: SHA1_FOR_LEGACY_USE_ONLY_def MAX_OUTPUT_LEN_def MAX_BLOCK_LEN_def sha1_order sha256_order)

interpretation sha256: merkle_damgard SHA256 is_32
  by unfold_locales (simp_all add: SHA256_def MAX_OUTPUT_LEN_def MAX_BLOCK_LEN_def sha256_order)

interpretation sha384: merkle_damgard SHA384 is_64
  by unfold_locales (simp_all add: SHA384_def MAX_OUTPUT_LEN_def MAX_BLOCK_LEN_def sha512_order)

interpretation sha512: merkle_damgard SHA512 is_64
  by unfold_locales (simp_all add: SHA512_def MAX_OUTPUT_LEN_def MAX_BLOCK_LEN_def sha512_order)

interpretation sha512_256: merkle_damgard SHA512_256 is_64
  by unfold_locales (simp_all add: SHA512_256_def MAX_OUTPUT_LEN_def MAX_BLOCK_LEN_def sha512_order)

end
