(* ===== verification/Ring_Hmac_Correct.thy ===== *)
theory Ring_Hmac_Correct
  imports Ring_Hmac Ring_Digest_Correct
begin

text \<open>
  HMAC, HKDF and PBKDF2 compute what RFC 2104, RFC 5869 and RFC 2898 say, for every digest algorithm that keeps the contract
  \<open>merkle_damgard\<close>; the bounds on the lengths are those of the counters the code checks.
\<close>

section \<open>References\<close>

definition hmac_pad :: "DigestAlgorithm \<Rightarrow> u8 list \<Rightarrow> u8 \<Rightarrow> u8 list" where
  "hmac_pad alg key v =
     (let k = (if length key \<le> block_len alg then key else digest_spec alg key) in
      map (\<lambda>b. b XOR v) (k @ replicate (block_len alg - length k) 0))"

definition hmac_spec :: "DigestAlgorithm \<Rightarrow> u8 list \<Rightarrow> u8 list \<Rightarrow> u8 list" where
  "hmac_spec alg key data = digest_spec alg (hmac_pad alg key OPAD @ digest_spec alg (hmac_pad alg key IPAD @ data))"

text \<open>\<open>T(i)\<close> of RFC 5869, section 2.3.\<close>

primrec hkdf_T :: "DigestAlgorithm \<Rightarrow> u8 list \<Rightarrow> u8 list \<Rightarrow> nat \<Rightarrow> u8 list" where
  "hkdf_T alg prk info 0 = []"
| "hkdf_T alg prk info (Suc i) = hmac_spec alg prk (hkdf_T alg prk info i @ info @ [word_of_nat (Suc i)])"

definition hkdf_spec :: "DigestAlgorithm \<Rightarrow> u8 list \<Rightarrow> u8 list \<Rightarrow> nat \<Rightarrow> u8 list" where
  "hkdf_spec alg prk info len =
     (let n = (len + output_len alg - 1) div output_len alg in take len (concat (map (hkdf_T alg prk info) [1 ..< Suc n])))"

text \<open>\<open>U\<close> and \<open>F\<close> of RFC 2898, section 5.2.\<close>

primrec pbkdf2_U :: "DigestAlgorithm \<Rightarrow> u8 list \<Rightarrow> u8 list \<Rightarrow> nat \<Rightarrow> nat \<Rightarrow> u8 list" where
  "pbkdf2_U alg P S i 0 = hmac_spec alg P (S @ be_digits 4 i)"
| "pbkdf2_U alg P S i (Suc j) = hmac_spec alg P (pbkdf2_U alg P S i j)"

definition pbkdf2_F :: "DigestAlgorithm \<Rightarrow> u8 list \<Rightarrow> u8 list \<Rightarrow> nat \<Rightarrow> nat \<Rightarrow> u8 list" where
  "pbkdf2_F alg P S c i = foldl (map2 (XOR)) (replicate (output_len alg) 0) (map (pbkdf2_U alg P S i) [0 ..< c])"

definition pbkdf2_spec :: "DigestAlgorithm \<Rightarrow> u8 list \<Rightarrow> u8 list \<Rightarrow> nat \<Rightarrow> nat \<Rightarrow> u8 list" where
  "pbkdf2_spec alg P S c len =
     (let n = (len + output_len alg - 1) div output_len alg in take len (concat (map (pbkdf2_F alg P S c) [1 ..< Suc n])))"

section \<open>Auxiliary facts\<close>

lemma xor_into_pad: "length ys \<le> n \<Longrightarrow> xor_into (replicate n v) ys = map (\<lambda>b. b XOR v) (ys @ replicate (n - length ys) 0)"
proof (induction ys arbitrary: n)
  case (Cons y ys)
  then show ?case by (cases n) (simp_all add: xor.commute)
qed (cases n, simp_all)

lemma length_xor_into [simp]: "length (xor_into xs ys) = length xs"
  by (induction xs ys rule: xor_into.induct) simp_all

lemma xor_into_take: "length a = length u \<Longrightarrow> xor_into (take n a) u = take n (map2 (XOR) a u)"
proof (induction a arbitrary: u n)
  case (Cons x a)
  then obtain y u' where "u = y # u'" by (cases u) auto
  then show ?case using Cons by (cases n; cases u) simp_all
qed (cases n, simp_all)

lemma word_xor_0: "p XOR q = 0 \<longleftrightarrow> p = (q :: u8)"
proof
  assume "p XOR q = 0"
  then have "p XOR (p XOR q) = p" by simp
  then show "p = q" by (simp flip: xor.assoc)
qed simp

lemma memcmp_0: "length a = length b \<Longrightarrow> memcmp a b = 0 \<longleftrightarrow> a = b"
proof -
  have "foldl (\<lambda>x (p, q). x OR (p XOR q)) x (zip a b) = 0 \<longleftrightarrow> x = 0 \<and> a = b" if "length a = length b" for x :: u8
    using that by (induction a b arbitrary: x rule: list_induct2) (auto simp: or_eq_0_iff word_xor_0)
  then show "length a = length b \<Longrightarrow> memcmp a b = 0 \<longleftrightarrow> a = b" by (simp add: memcmp_def)
qed

lemma verify_slices_iff: "verify_slices_are_equal a b = Some () \<longleftrightarrow> a = b"
  by (auto simp: verify_slices_are_equal_def memcmp_0)

text \<open>A key is the blocks it needs and no more.\<close>

lemma concat_blocks_length: "(\<And>i. a \<le> i \<Longrightarrow> length (f i) = h) \<Longrightarrow> length (concat (map f [a ..< b])) = (b - a) * h"
proof -
  assume f: "\<And>i. a \<le> i \<Longrightarrow> length (f i) = h"
  have "length (concat (map f [a ..< b])) = sum_list (map (\<lambda>i. length (f i)) [a ..< b])" by (simp add: length_concat comp_def)
  also have "map (\<lambda>i. length (f i)) [a ..< b] = map (\<lambda>_. h) [a ..< b]" by (simp add: f)
  finally show ?thesis by (simp add: sum_list_triv)
qed

lemma take_blocks:
  assumes "\<And>i. 1 \<le> i \<Longrightarrow> length (f i) = h" and "0 < h" and "len \<le> m * h"
  shows "take len (concat (map f [1 ..< Suc m])) = take len (concat (map f [1 ..< Suc ((len + h - 1) div h)]))"
proof -
  define n where "n = (len + h - 1) div h"
  have "len + h - 1 < Suc m * h" using assms(2,3) by simp
  then have n: "n \<le> m" using less_mult_imp_div_less [of "len + h - 1" "Suc m" h] by (simp add: n_def)
  have "len + h - 1 < Suc n * h" using dividend_less_div_times [OF assms(2), of "len + h - 1"] by (simp add: n_def algebra_simps)
  then have "len \<le> length (concat (map f [1 ..< Suc n]))" using concat_blocks_length [of 1 f h "Suc n"] assms(1) by simp
  moreover have "[1 ..< Suc m] = [1 ..< Suc n] @ [Suc n ..< Suc m]" using n upt_add_eq_append [of 1 "Suc n" "m - n"] by simp
  ultimately show ?thesis unfolding n_def [symmetric] by (simp del: upt_Suc)
qed

context merkle_damgard
begin

section \<open>HMAC\<close>

lemma hmac_pad_length: "length (hmac_pad alg key v) = block_len alg"
  using sizes(4) by (simp add: hmac_pad_def Let_def digest_spec_length)

lemma hmac_spec_length: "length (hmac_spec alg key data) = output_len alg"
  by (simp add: hmac_spec_def digest_spec_length)

definition key_rep :: "HmacKey \<Rightarrow> u8 list \<Rightarrow> bool" where
  "key_rep key k \<longleftrightarrow> bc_rep (hk_inner key) (hmac_pad alg k IPAD) \<and> bc_rep (hk_outer key) (hmac_pad alg k OPAD)"

lemma key_rep_algorithm: "key_rep key k \<Longrightarrow> key_algorithm key = alg"
  by (simp add: key_rep_def bc_rep_def key_algorithm_def)

lemma bc_update_one:
  assumes "length xs = block_len alg"
  shows "\<exists>bc. bc_update (bc_new alg) xs = Some bc \<and> bc_rep bc xs"
  using bc_update_cases [OF bc_rep_new, of xs 1] assms sizes(6) by (auto simp: MAX_BLOCK_LEN_def)

lemma hmac_key_new_ok:
  assumes "8 * length k < 2 ^ 64"
  shows "\<exists>key. hmac_key_new alg k = Some key \<and> key_rep key k"
proof -
  let ?k = "if length k \<le> block_len alg then k else digest_spec alg k"
  have k: "(if length k \<le> block_len alg then Some k else digest alg k) = Some ?k" using assms digest_eq [of k] by simp
  have len: "length ?k \<le> block_len alg" using sizes(4) digest_spec_length by simp
  have i: "xor_into (replicate (block_len alg) IPAD) ?k = hmac_pad alg k IPAD"
    using xor_into_pad [OF len, of IPAD] by (simp add: hmac_pad_def Let_def)
  have o: "map (\<lambda>b. b XOR (IPAD XOR OPAD)) (hmac_pad alg k IPAD) = hmac_pad alg k OPAD"
    by (simp add: hmac_pad_def Let_def comp_def xor.assoc)
  obtain inner outer where "bc_update (bc_new alg) (hmac_pad alg k IPAD) = Some inner" "bc_rep inner (hmac_pad alg k IPAD)"
      "bc_update (bc_new alg) (hmac_pad alg k OPAD) = Some outer" "bc_rep outer (hmac_pad alg k OPAD)"
    using bc_update_one hmac_pad_length by meson
  then show ?thesis using sizes(6)
    by (simp add: hmac_key_new_def k slice_def Let_def i o key_rep_def)
qed

text \<open>A context that has taken \<open>m\<close> under the key \<open>k\<close>.\<close>

definition hc_rep :: "HmacContext \<Rightarrow> u8 list \<Rightarrow> u8 list \<Rightarrow> bool" where
  "hc_rep ctx k m \<longleftrightarrow> ctx_rep (hc_inner ctx) (hmac_pad alg k IPAD @ m) \<and> bc_rep (hc_outer ctx) (hmac_pad alg k OPAD)"

lemma hc_rep_with_key: "key_rep key k \<Longrightarrow> hc_rep (with_key key) k []"
  by (simp add: key_rep_def hc_rep_def with_key_def ctx_rep_clone)

lemma hmac_update_ok:
  assumes "hc_rep ctx k m" and "length (m @ d) < 2 ^ 60"
  shows "\<exists>ctx'. hmac_update ctx d = Some ctx' \<and> hc_rep ctx' k (m @ d)"
  using ctx_update_cases [of "hc_inner ctx" "hmac_pad alg k IPAD @ m" d] assms hmac_pad_length [of k IPAD] sizes(6)
  by (auto simp: hc_rep_def hmac_update_def MAX_BLOCK_LEN_def)

lemma hmac_updates_ok:
  assumes "hc_rep ctx k m" and "length (m @ concat ds) < 2 ^ 60"
  shows "\<exists>ctx'. hmac_updates ctx ds = Some ctx' \<and> hc_rep ctx' k (m @ concat ds)"
  using assms
proof (induction ds arbitrary: ctx m)
  case (Cons d ds)
  obtain ctx' where "hmac_update ctx d = Some ctx'" "hc_rep ctx' k (m @ d)" using hmac_update_ok [OF Cons.prems(1), of d] Cons.prems(2) by auto
  then show ?case using Cons.IH [of ctx' "m @ d"] Cons.prems(2) by simp
qed simp

lemma hmac_finish_ok:
  assumes "hc_rep ctx k m" and "length m < 2 ^ 60"
  shows "hmac_finish ctx = Some (hmac_spec alg k m)"
proof -
  let ?d = "digest_spec alg (hmac_pad alg k IPAD @ m)" and ?b = "block_len alg"
  note rep = assms(1) [unfolded hc_rep_def]
  have alg: "bc_algorithm (ctx_block (hc_inner ctx)) = alg" using rep by (auto simp: ctx_rep_def bc_rep_def)
  have d: "ctx_finish (hc_inner ctx) = Some ?d" "length ?d = output_len alg"
    using ctx_finish_eq [OF conjunct1 [OF rep]] assms(2) hmac_pad_length [of k IPAD] sizes(6) by (simp_all add: digest_spec_length MAX_BLOCK_LEN_def)
  let ?p = "overwrite (replicate ?b 0) 0 ?d"
  have p: "copy_slice (replicate ?b 0) 0 ?d = Some ?p" "length ?p = ?b" "take (length ?d) ?p = ?d"
    using d(2) sizes(4) by (simp_all add: copy_slice_ok overwrite_def)
  have "bc_finish (hc_outer ctx) ?p (length ?d) = Some (hmac_spec alg k m)"
    using bc_finish_eq [OF conjunct2 [OF rep] p(2) _ p(3)] d(2) sizes(4,6) hmac_pad_length [of k OPAD] by (simp add: hmac_spec_def MAX_BLOCK_LEN_def)
  then show ?thesis using d p sizes(6) by (simp add: hmac_finish_def Let_def alg slice_def)
qed

lemma hmac_sign_ok:
  assumes "key_rep key k" and "length data < 2 ^ 60"
  shows "hmac_sign key data = Some (hmac_spec alg k data)"
  using hmac_update_ok [OF hc_rep_with_key [OF assms(1)], of data] hmac_finish_ok [of _ k data] assms(2) by (auto simp: hmac_sign_def)

section \<open>HKDF\<close>

lemma hkdf_extract_ok:
  assumes "key_rep salt s" and "length secret < 2 ^ 60"
  shows "\<exists>prk. hkdf_extract salt secret = Some prk \<and> key_rep prk (hmac_spec alg s secret)"
  using hmac_key_new_ok [of "hmac_spec alg s secret"] hmac_sign_ok [OF assms] hmac_spec_length [of s secret] sizes(5) key_rep_algorithm [OF assms(1)]
  by (auto simp: hkdf_extract_def MAX_OUTPUT_LEN_def)

lemma T_length: "length (hkdf_T alg prk info i) = (if i = 0 then 0 else output_len alg)"
  by (cases i) (simp_all add: hmac_spec_length)

lemma fill_loop_ok:
  assumes "key_rep key k" and "hc_rep ctx k (hkdf_T alg k (concat info) i)" and "n = word_of_nat (Suc i)"
    and "i < 255" and "left \<le> (255 - i) * output_len alg" and "length (concat info) < 2 ^ 59"
  shows "fill_loop key info ctx n left = Some (take left (concat (map (hkdf_T alg k (concat info)) [Suc i ..< 256])))"
  using assms(2-5)
proof (induction "255 - i" arbitrary: ctx n i left)
  case (Suc d)
  let ?T = "hkdf_T alg k (concat info)" and ?h = "output_len alg"
  have small: "length (?T i @ concat info @ [n]) < 2 ^ 60" using assms(6) sizes(5) by (simp add: T_length MAX_OUTPUT_LEN_def)
  obtain c1 where c1: "hmac_updates ctx info = Some c1" "hc_rep c1 k (?T i @ concat info)"
    using hmac_updates_ok [OF Suc.prems(1), of info] small by auto
  obtain c2 where c2: "hmac_update c1 [n] = Some c2" "hc_rep c2 k (?T i @ concat info @ [n])" using hmac_update_ok [OF c1(2), of "[n]"] small by auto
  have t: "hmac_finish c2 = Some (?T (Suc i))" using hmac_finish_ok [OF c2(2) small] Suc.prems(2) by simp
  have split: "[Suc i ..< 256] = Suc i # [Suc (Suc i) ..< 256]" using Suc.prems(3) by (simp add: upt_rec)
  have len: "length (?T (Suc i)) = ?h" using T_length [of k "concat info" "Suc i"] by simp
  note alg = key_rep_algorithm [OF assms(1)]
  have run: "fill_loop key info ctx n left = (if left < ?h then Some (take left (?T (Suc i)))
      else if left - ?h = 0 then Some (?T (Suc i))
      else do { ctx \<leftarrow> hmac_update (with_key key) (?T (Suc i)); n \<leftarrow> checked_add n 1; rest \<leftarrow> fill_loop key info ctx n (left - ?h); Some (?T (Suc i) @ rest) })"
    using c1(1) c2(1) t len by (subst fill_loop.simps) (simp add: alg slice_def del: hkdf_T.simps)
  show ?case
  proof (cases "left \<le> ?h")
    case True
    then show ?thesis unfolding run split using len by (simp del: hkdf_T.simps)
  next
    case False
    then have i: "Suc i < 255" using Suc.prems(3,4) by (cases "Suc i = 255") auto
    obtain c3 where c3: "hmac_update (with_key key) (?T (Suc i)) = Some c3" "hc_rep c3 k (?T (Suc i))"
      using hmac_update_ok [OF hc_rep_with_key [OF assms(1)], of "?T (Suc i)"] len sizes(5) by (auto simp: MAX_OUTPUT_LEN_def)
    have "unat n = Suc i" using i Suc.prems(2) by (simp add: unat_of_nat del: of_nat_Suc)
    then have n: "checked_add n 1 = Some (word_of_nat (Suc (Suc i)))" using i Suc.prems(2) by (simp add: checked_add_def)
    have "left - ?h \<le> (255 - Suc i) * ?h" using Suc.prems(4) False by (simp add: diff_mult_distrib)
    then have "fill_loop key info c3 (word_of_nat (Suc (Suc i))) (left - ?h) = Some (take (left - ?h) (concat (map ?T [Suc (Suc i) ..< 256])))"
      using Suc.hyps(2) i by (intro Suc.hyps(1) [OF _ c3(2)]) simp_all
    then show ?thesis unfolding run split using False c3(1) n len by (simp del: hkdf_T.simps)
  qed
qed simp

lemma hkdf_prefix:
  assumes "len \<le> 255 * output_len alg"
  shows "take len (concat (map (hkdf_T alg prk info) [1 ..< 256])) = hkdf_spec alg prk info len"
  using take_blocks [OF _ sizes(3) assms, of "hkdf_T alg prk info"] by (simp add: hkdf_spec_def Let_def T_length numeral_eq_Suc del: upt_Suc)

lemma fill_okm_ok:
  assumes "key_rep key k" and "len \<le> 255 * output_len alg" and "length (concat info) < 2 ^ 59"
  shows "fill_okm key info len len = Some (Some (hkdf_spec alg k (concat info) len))"
  using fill_loop_ok [OF assms(1), of "with_key key" info 0 1 len] hc_rep_with_key [OF assms(1)] assms(2,3) hkdf_prefix [OF assms(2)] sizes(4)
  by (simp add: fill_okm_def key_rep_algorithm [OF assms(1)])

lemma key_from_okm_ok:
  assumes "key_rep key k" and "length (concat info) < 2 ^ 59" and "prk_expand key info (output_len alg) = Some okm"
  shows "\<exists>key'. key_from_okm alg okm = Some key' \<and> key_rep key' (hkdf_spec alg k (concat info) (output_len alg))"
proof -
  let ?s = "hkdf_spec alg k (concat info) (output_len alg)"
  have "fill_okm key info (output_len alg) (output_len alg) = Some (Some ?s)" using assms(2) by (intro fill_okm_ok [OF assms(1)]) simp_all
  moreover have "length ?s \<le> output_len alg" by (simp add: hkdf_spec_def Let_def)
  then have "8 * length ?s < 2 ^ 64" using sizes(5) by (simp add: MAX_OUTPUT_LEN_def)
  ultimately show ?thesis using hmac_key_new_ok [of ?s] assms(3) sizes(5)
    by (auto simp: prk_expand_def key_from_okm_def okm_fill_def split: if_splits)
qed

section \<open>PBKDF2\<close>

lemma U_length: "length (pbkdf2_U alg P S i j) = output_len alg"
  by (cases j) (simp_all add: hmac_spec_length)

lemma F_length: "length (pbkdf2_F alg P S c i) = output_len alg"
  unfolding pbkdf2_F_def by (induction c) (simp_all add: U_length)

lemma derive_loop_ok:
  assumes "key_rep key P" and "length out \<le> output_len alg" and "unat remaining = Suc m"
  shows "derive_loop key remaining (pbkdf2_U alg P S i j) out = Some (foldl xor_into out (map (pbkdf2_U alg P S i) [j ..< j + Suc m]))"
  using assms(2,3)
proof (induction m arbitrary: remaining j out)
  case 0
  then have "remaining = 1" by (simp add: word_unat_eq_iff)
  then show ?case using 0 by (subst derive_loop.simps) (simp add: U_length del: pbkdf2_U.simps)
next
  case (Suc m)
  have "remaining \<noteq> 1" using Suc.prems(2) by auto
  moreover have "unat (remaining - 1) = Suc m" using Suc.prems(2) by (subst unat_sub) (auto simp: word_le_nat_alt)
  moreover have "hmac_sign key (pbkdf2_U alg P S i j) = Some (pbkdf2_U alg P S i (Suc j))"
    using hmac_sign_ok [OF assms(1)] sizes(5) by (simp add: U_length MAX_OUTPUT_LEN_def)
  moreover have "[j ..< j + Suc (Suc m)] = j # [Suc j ..< Suc j + Suc m]" by (simp add: upt_rec)
  ultimately show ?case using Suc.IH [of "xor_into out (pbkdf2_U alg P S i j)" "remaining - 1" "Suc j"] Suc.prems(1)
    by (subst derive_loop.simps) (simp add: U_length del: pbkdf2_U.simps upt_Suc)
qed

lemma xor_fold_take:
  assumes "length a = output_len alg"
  shows "foldl xor_into (take n a) (map (pbkdf2_U alg P S i) js) = take n (foldl (map2 (XOR)) a (map (pbkdf2_U alg P S i) js))"
  using assms by (induction js arbitrary: a) (simp_all add: xor_into_take U_length)

lemma derive_block_ok:
  assumes "key_rep key P" and "n \<le> output_len alg" and "0 < unat c" and "length S < 2 ^ 59"
  shows "derive_block key c S i (replicate n 0) = Some (take n (pbkdf2_F alg P S (unat c) (unat i)))"
proof -
  obtain c1 where c1: "hmac_update (with_key key) S = Some c1" "hc_rep c1 P S" using hmac_update_ok [OF hc_rep_with_key [OF assms(1)], of S] assms(4) by auto
  obtain c2 where c2: "hmac_update c1 (to_be_bytes 4 i) = Some c2" "hc_rep c2 P (S @ to_be_bytes 4 i)"
    using hmac_update_ok [OF c1(2), of "to_be_bytes 4 i"] assms(4) by (auto simp: to_be_bytes_def)
  have u: "hmac_finish c2 = Some (pbkdf2_U alg P S (unat i) 0)" using hmac_finish_ok [OF c2(2)] assms(4) by (simp add: to_be_bytes_def)
  obtain m where m: "unat c = Suc m" using assms(3) by (cases "unat c") auto
  have "take n (replicate (output_len alg) 0) = replicate n (0 :: u8)" using assms(2) by simp
  then show ?thesis
    using c1(1) c2(1) u derive_loop_ok [OF assms(1) _ m, of "replicate n 0" S "unat i" 0] assms(2) m xor_fold_take [of "replicate (output_len alg) 0" n P S "unat i"]
    by (simp add: derive_block_def pbkdf2_F_def del: pbkdf2_U.simps upt_Suc)
qed

text \<open>The chunk after the one numbered \<open>j\<close>; \<open>N\<close> is the largest number a chunk can have.\<close>

lemma next_chunk:
  assumes "key_rep key P" and "0 < unat c" and "length S < 2 ^ 59" and "Suc N = 2 ^ 32" and "j < N"
  shows "checked_add (word_of_nat j :: u32) 1 = Some (word_of_nat (Suc j))"
    and "n \<le> output_len alg \<Longrightarrow> derive_block key c S (word_of_nat (Suc j)) (replicate n 0) = Some (take n (pbkdf2_F alg P S (unat c) (Suc j)))"
    and "[Suc j ..< Suc N] = Suc j # [Suc (Suc j) ..< Suc N]"
    and "n \<le> (N - j) * output_len alg \<longleftrightarrow> n - output_len alg \<le> (N - Suc j) * output_len alg"
proof -
  have "unat (word_of_nat j :: u32) = j" using assms(4,5) by (simp add: unat_of_nat)
  then show "checked_add (word_of_nat j :: u32) 1 = Some (word_of_nat (Suc j))" using assms(4,5) by (simp add: checked_add_def)
  have "unat (word_of_nat (Suc j) :: u32) = Suc j" using assms(4,5) by (simp add: unat_of_nat del: of_nat_Suc)
  then show "n \<le> output_len alg \<Longrightarrow> derive_block key c S (word_of_nat (Suc j)) (replicate n 0) = Some (take n (pbkdf2_F alg P S (unat c) (Suc j)))"
    using derive_block_ok [OF assms(1) _ assms(2,3), of n "word_of_nat (Suc j)"] by simp
  show "[Suc j ..< Suc N] = Suc j # [Suc (Suc j) ..< Suc N]" using assms(5) by (simp add: upt_rec)
  have "N - j = Suc (N - Suc j)" using assms(5) by simp
  then show "n \<le> (N - j) * output_len alg \<longleftrightarrow> n - output_len alg \<le> (N - Suc j) * output_len alg" by auto
qed

lemma last_chunk: "Suc N = 2 ^ 32 \<Longrightarrow> checked_add (word_of_nat N :: u32) 1 = None"
  by (simp add: checked_add_def unat_of_nat)

lemma derive_chunks_eq:
  assumes "key_rep key P" and "0 < unat c" and "length S < 2 ^ 59" and "Suc N = 2 ^ 32" and "j \<le> N"
  shows "derive_chunks key c S (word_of_nat j) (output_len alg) left
    = (if left \<le> (N - j) * output_len alg then Some (take left (concat (map (pbkdf2_F alg P S (unat c)) [Suc j ..< Suc N]))) else None)"
  using assms(5)
proof (induction left arbitrary: j rule: less_induct)
  case (less left)
  consider "left = 0" | "left \<noteq> 0" "j = N" | "left \<noteq> 0" "j < N" using less.prems by linarith
  then show ?case
  proof cases
    case 1
    then show ?thesis by (subst derive_chunks.simps) simp
  next
    case 2
    then show ?thesis using sizes(3) last_chunk [OF assms(4)] by (subst derive_chunks.simps) simp
  next
    case 3
    note step = next_chunk [OF assms(1-4) 3(2)]
    show ?thesis unfolding step(3,4)
      using 3 sizes(3) step(1) step(2) [of "min (output_len alg) left"] less.IH [of "left - output_len alg" "Suc j"] F_length [of P S "unat c" "Suc j"]
      by (subst derive_chunks.simps) (simp add: min_def del: of_nat_Suc upt_Suc)
  qed
qed

lemma pbkdf2_eq:
  assumes "8 * length P < 2 ^ 64" and "0 < unat c" and "length S < 2 ^ 59"
  shows "pbkdf2_derive alg c S P len = (if len \<le> (2 ^ 32 - 1) * output_len alg then Some (pbkdf2_spec alg P S (unat c) len) else None)"
proof -
  obtain key where key: "hmac_key_new alg P = Some key" "key_rep key P" using hmac_key_new_ok [OF assms(1)] by blast
  obtain N :: nat where N: "Suc N = 2 ^ 32" by (metis Suc_pred zero_less_numeral zero_less_power)
  then have "2 ^ 32 - 1 = N" by simp
  then show ?thesis
    using derive_chunks_eq [OF key(2) assms(2,3) N, of 0 len] key(1) take_blocks [of "pbkdf2_F alg P S (unat c)" "output_len alg" len N, OF F_length sizes(3)]
    by (simp add: pbkdf2_derive_def pbkdf2_spec_def Let_def del: upt_Suc)
qed

text \<open>Checking walks the same chunks as deriving.\<close>

lemma eq_take_append: "length f = h \<Longrightarrow> pd = take (length pd) (f @ r) \<longleftrightarrow> take (length (take h pd)) f = take h pd \<and> drop h pd = take (length pd - h) r"
  by (metis append_eq_conv_conj append_take_drop_id length_drop length_take min.commute take_append take_take)

lemma verify_chunks_eq:
  assumes "key_rep key P" and "0 < unat c" and "length S < 2 ^ 59" and "Suc N = 2 ^ 32" and "j \<le> N"
  shows "verify_chunks key c S (word_of_nat j) (output_len alg) pd matches
    = (if length pd \<le> (N - j) * output_len alg
       then Some (matches \<and> pd = take (length pd) (concat (map (pbkdf2_F alg P S (unat c)) [Suc j ..< Suc N]))) else None)"
  using assms(5)
proof (induction "length pd" arbitrary: j pd matches rule: less_induct)
  case less
  let ?h = "output_len alg" and ?F = "pbkdf2_F alg P S (unat c)"
  consider "pd = []" | "pd \<noteq> []" "j = N" | "pd \<noteq> []" "j < N" using less.prems by linarith
  then show ?case
  proof cases
    case 1
    then show ?thesis by (subst verify_chunks.simps) simp
  next
    case 2
    then show ?thesis using sizes(3) last_chunk [OF assms(4)] by (subst verify_chunks.simps) simp
  next
    case 3
    note step = next_chunk [OF assms(1-4) 3(2)]
    have z: "slice (replicate MAX_OUTPUT_LEN 0) 0 (length (take ?h pd)) = Some (replicate (length (take ?h pd)) (0 :: u8))"
      using sizes(5) by (simp add: slice_def)
    show ?thesis unfolding step(3,4)
      using 3 sizes(3) step(1) step(2) [of "length (take ?h pd)"] less.hyps [of "drop ?h pd" "Suc j"] z eq_take_append [OF F_length [of P S "unat c" "Suc j"], of pd]
      by (subst verify_chunks.simps) (simp add: verify_slices_iff conj_assoc del: of_nat_Suc upt_Suc)
  qed
qed

lemma pbkdf2_verify_eq:
  assumes "8 * length P < 2 ^ 64" and "0 < unat c" and "length S < 2 ^ 59" and "length pd \<le> (2 ^ 32 - 1) * output_len alg"
  shows "pbkdf2_verify alg c S P pd = Some (if pd \<noteq> [] \<and> pd = pbkdf2_spec alg P S (unat c) (length pd) then Some () else None)"
proof -
  obtain key where key: "hmac_key_new alg P = Some key" "key_rep key P" using hmac_key_new_ok [OF assms(1)] by blast
  obtain N :: nat where N: "Suc N = 2 ^ 32" by (metis Suc_pred zero_less_numeral zero_less_power)
  then have "2 ^ 32 - 1 = N" by simp
  then show ?thesis using assms(4) verify_chunks_eq [OF key(2) assms(2,3) N, of 0 pd True] key(1)
      take_blocks [of "pbkdf2_F alg P S (unat c)" "output_len alg" "length pd" N, OF F_length sizes(3)]
    by (simp add: pbkdf2_verify_def pbkdf2_spec_def Let_def del: upt_Suc)
qed

end

end
