(* ===== verification/Tls_Keys_Correct.thy ===== *)
theory Tls_Keys_Correct
  imports Tls_Keys Ring_Hmac_Correct
begin

text \<open>
  The key schedule against RFC 8446, section 7.1: the reference works on bytes, the code on the HMAC keys made from them. The
  structure \<^verbatim>\<open>HkdfLabel\<close> and the labels are written from the standard, without the definitions that model the code. The locale \<open>tls13_suite\<close> is what the schedule relies on of a cipher suite; its interpretations are the suites of \<^verbatim>\<open>tls13/mod.rs\<close>.
\<close>

section \<open>Reference\<close>

text \<open>The structure \<^verbatim>\<open>HkdfLabel\<close>: a length in two bytes, a label of one length byte that starts with the six bytes \<^verbatim>\<open>tls13\<close> and a
  space, and a context of one length byte.\<close>

definition HkdfLabel :: "nat \<Rightarrow> u8 list \<Rightarrow> u8 list \<Rightarrow> u8 list" where
  "HkdfLabel len label context =
     [word_of_nat (len div 256), word_of_nat (len mod 256), word_of_nat (6 + length label), 0x74, 0x6c, 0x73, 0x31, 0x33, 0x20] @ label
     @ [word_of_nat (length context)] @ context"

definition expand_label :: "DigestAlgorithm \<Rightarrow> u8 list \<Rightarrow> u8 list \<Rightarrow> u8 list \<Rightarrow> nat \<Rightarrow> u8 list" where
  "expand_label alg secret label context len = hkdf_spec alg secret (HkdfLabel len label context) len"

text \<open>The labels of the secrets, from the diagram of the standard; the space is \<^verbatim>\<open>0x20\<close>.\<close>

definition ascii :: "string \<Rightarrow> u8 list" where
  "ascii s = map of_char s"

fun rfc_label :: "SecretKind \<Rightarrow> u8 list" where
  "rfc_label ResumptionPskBinderKey = ascii ''res'' @ 0x20 # ascii ''binder''"
| "rfc_label ClientEarlyTrafficSecret = ascii ''c'' @ 0x20 # ascii ''e'' @ 0x20 # ascii ''traffic''"
| "rfc_label ClientHandshakeTrafficSecret = ascii ''c'' @ 0x20 # ascii ''hs'' @ 0x20 # ascii ''traffic''"
| "rfc_label ServerHandshakeTrafficSecret = ascii ''s'' @ 0x20 # ascii ''hs'' @ 0x20 # ascii ''traffic''"
| "rfc_label ClientApplicationTrafficSecret = ascii ''c'' @ 0x20 # ascii ''ap'' @ 0x20 # ascii ''traffic''"
| "rfc_label ServerApplicationTrafficSecret = ascii ''s'' @ 0x20 # ascii ''ap'' @ 0x20 # ascii ''traffic''"
| "rfc_label ExporterMasterSecret = ascii ''exp'' @ 0x20 # ascii ''master''"
| "rfc_label ResumptionMasterSecret = ascii ''res'' @ 0x20 # ascii ''master''"
| "rfc_label DerivedSecret = ascii ''derived''"

lemma to_bytes_rfc: "to_bytes kind = rfc_label kind"
  by (cases kind) (simp_all add: to_bytes_def bytes_of_def ascii_def)

lemma hkdf_info_rfc: "concat (hkdf_info len label context) = HkdfLabel len label context"
proof -
  have "unat (word_of_nat len :: u16) = len mod (256 * 256)" by (simp add: unat_of_nat)
  then have "to_be_bytes 2 (word_of_nat len :: u16) = [word_of_nat (len mod (256 * 256) div 256 mod 256), word_of_nat (len mod (256 * 256) mod 256)]"
    by (simp only: to_be_bytes_def numeral_2_eq_2 be_digits.simps append.simps)
  moreover have "len mod (256 * 256) div 256 mod 256 = len div 256 mod 256" "len mod (256 * 256) mod 256 = len mod 256"
    unfolding mod_mult2_eq [of len 256 256] by simp_all
  moreover have "(word_of_nat (len div 256 mod 256) :: u8) = word_of_nat (len div 256)" by (simp add: word_of_nat_eq_iff take_bit_eq_mod)
  ultimately have "to_be_bytes 2 (word_of_nat len :: u16) = [word_of_nat (len div 256), word_of_nat (len mod 256)]" by presburger
  then show ?thesis by (simp add: hkdf_info_def HkdfLabel_def Let_def bytes_of_def)
qed

definition derive_secret :: "DigestAlgorithm \<Rightarrow> u8 list \<Rightarrow> SecretKind \<Rightarrow> u8 list \<Rightarrow> u8 list" where
  "derive_secret alg secret kind hash = expand_label alg secret (rfc_label kind) hash (output_len alg)"

text \<open>The early secret, and the secret of the next stage from that of the stage before and new input.\<close>

definition early_secret :: "DigestAlgorithm \<Rightarrow> u8 list \<Rightarrow> u8 list" where
  "early_secret alg psk = hmac_spec alg (replicate (output_len alg) 0) psk"

definition next_secret :: "DigestAlgorithm \<Rightarrow> u8 list \<Rightarrow> u8 list \<Rightarrow> u8 list" where
  "next_secret alg secret input = hmac_spec alg (derive_secret alg secret DerivedSecret (digest_spec alg [])) input"

definition updated_secret :: "DigestAlgorithm \<Rightarrow> u8 list \<Rightarrow> u8 list" where
  "updated_secret alg secret = expand_label alg secret (ascii ''traffic'' @ 0x20 # ascii ''upd'') [] (output_len alg)"

definition finished_mac :: "DigestAlgorithm \<Rightarrow> u8 list \<Rightarrow> u8 list \<Rightarrow> u8 list" where
  "finished_mac alg base hash = hmac_spec alg (expand_label alg base (ascii ''finished'') [] (output_len alg)) hash"

text \<open>The ciphers of a traffic secret.\<close>

definition traffic_key :: "Tls13CipherSuite \<Rightarrow> u8 list \<Rightarrow> u8 list" where
  "traffic_key suite s = expand_label (hkdf_algorithm suite) s (ascii ''key'') [] (aead_key_len (aead_algorithm suite))"

definition traffic_iv :: "Tls13CipherSuite \<Rightarrow> u8 list \<Rightarrow> u8 list" where
  "traffic_iv suite s = expand_label (hkdf_algorithm suite) s (ascii ''iv'') [] 12"

definition enc_of :: "Tls13CipherSuite \<Rightarrow> u8 list \<Rightarrow> MessageEncrypter" where
  "enc_of suite s = tls13_encrypt (aead_seal (aead_algorithm suite) (traffic_key suite s)) (traffic_iv suite s)"

definition dec_of :: "Tls13CipherSuite \<Rightarrow> u8 list \<Rightarrow> MessageDecrypter" where
  "dec_of suite s = tls13_decrypt (aead_open (aead_algorithm suite) (traffic_key suite s)) (traffic_iv suite s)"

text \<open>What a derivation adds to the key log.\<close>

definition logged :: "SecretKind \<Rightarrow> u8 list \<Rightarrow> u8 list \<Rightarrow> KeyLog \<Rightarrow> KeyLog" where
  "logged kind client_random secret log =
     (case log_label kind of
        Some label \<Rightarrow> if kl_will_log log label then log\<lparr>kl_lines := kl_lines log @ [(label, client_random, secret)]\<rparr> else log
      | None \<Rightarrow> log)"

definition with_encrypter :: "MessageEncrypter \<Rightarrow> CommonState \<Rightarrow> CommonState" where
  "with_encrypter enc cs = cs\<lparr>cs_record_layer := set_message_encrypter (cs_record_layer cs) enc\<rparr>"

definition with_decrypter :: "MessageDecrypter \<Rightarrow> CommonState \<Rightarrow> CommonState" where
  "with_decrypter dec cs = cs\<lparr>cs_record_layer := set_message_decrypter (cs_record_layer cs) dec\<rparr>"

lemma aead_key_t13:
  assumes "aead_key seal opn iv"
  shows "cipher_pair (tls13_encrypt seal iv) (tls13_decrypt opn iv) (\<lambda>_. PV_TLSv1_3)"
  using aead_key.tls13_pair [OF assms] aead_key.tls13_shorter [OF assms] by unfold_locales simp_all

section \<open>The contract of a suite\<close>

locale tls13_suite = merkle_damgard "hkdf_algorithm suite" st_ok
  for suite :: Tls13CipherSuite and st_ok :: "State \<Rightarrow> bool" +
  assumes key_len: "aead_key_len (aead_algorithm suite) \<le> 32"
    and cipher: "length key = aead_key_len (aead_algorithm suite) \<Longrightarrow> length iv = 12 \<Longrightarrow>
      aead_key (aead_seal (aead_algorithm suite) key) (aead_open (aead_algorithm suite) key) iv"
begin

abbreviation "H \<equiv> hkdf_algorithm suite"

text \<open>The key of the bytes \<open>s\<close>, and a schedule that stands at the secret \<open>s\<close>.\<close>

definition key_is :: "HmacKey \<Rightarrow> u8 list \<Rightarrow> bool" where
  "key_is key s \<longleftrightarrow> hmac_key_new H s = Some key \<and> 8 * length s < 2 ^ 64"

lemma key_is_rep: "key_is key s \<Longrightarrow> key_rep key s"
  using hmac_key_new_ok [of s] by (auto simp: key_is_def)

lemma key_exists: "length s \<le> MAX_OUTPUT_LEN \<Longrightarrow> \<exists>key. hmac_key_new H s = Some key \<and> key_is key s"
  using hmac_key_new_ok [of s] by (auto simp: key_is_def MAX_OUTPUT_LEN_def)

lemma hkdf_spec_length: "len \<le> 255 * output_len H \<Longrightarrow> length (hkdf_spec H prk info len) = len"
proof -
  assume len: "len \<le> 255 * output_len H"
  have "length (concat (map (hkdf_T H prk info) [1 ..< 256])) = 255 * output_len H"
    using concat_blocks_length [of 1 "hkdf_T H prk info" "output_len H" 256] by (simp add: T_length)
  then show ?thesis unfolding hkdf_prefix [OF len, symmetric] using len by simp
qed

lemma expand_label_length: "len \<le> 255 * output_len H \<Longrightarrow> length (expand_label H s label ctx len) = len"
  by (simp add: expand_label_def hkdf_spec_length)

lemma bytes_of_length [simp]: "length (bytes_of s) = length s"
  by (simp add: bytes_of_def)

lemma bytes_of_ascii: "bytes_of s = ascii s"
  by (simp add: bytes_of_def ascii_def of_nat_of_char)

lemma ascii_length [simp]: "length (ascii s) = length s"
  by (simp add: ascii_def)

lemma info_length: "length label + length ctx < 2 ^ 58 \<Longrightarrow> length (concat (hkdf_info len label ctx)) < 2 ^ 59"
  by (simp add: hkdf_info_def Let_def to_be_bytes_def)

text \<open>Expansion gives the bytes of the reference, or the key made from them.\<close>

lemma expand_ok:
  assumes "key_is key s" and "len \<le> 255 * output_len H" and "length label + length ctx < 2 ^ 58"
  shows "hkdf_expand key len label ctx = Some (expand_label H s label ctx len)"
  using fill_okm_ok [OF key_is_rep [OF assms(1)] assms(2) info_length [OF assms(3)]] assms(2)
  by (simp add: hkdf_expand_def hkdf_expand_info_def prk_expand_def okm_fill_def expand_label_def hkdf_info_rfc [symmetric] key_rep_algorithm [OF key_is_rep [OF assms(1)]])

lemma expand_prk_ok:
  assumes "key_is key s" and "length label + length ctx < 2 ^ 58"
  shows "\<exists>key'. hkdf_expand_prk key H label ctx = Some key' \<and> key_is key' (expand_label H s label ctx (output_len H))"
proof -
  let ?s = "expand_label H s label ctx (output_len H)"
  have "fill_okm key (hkdf_info (output_len H) label ctx) (output_len H) (output_len H) = Some (Some ?s)"
    using fill_okm_ok [OF key_is_rep [OF assms(1)] _ info_length [OF assms(2)]] by (simp add: expand_label_def hkdf_info_rfc [symmetric])
  moreover have "\<exists>key'. hmac_key_new H ?s = Some key' \<and> key_is key' ?s" using sizes(5) by (intro key_exists) (simp add: expand_label_length)
  ultimately show ?thesis using sizes(5)
    by (auto simp: hkdf_expand_prk_def hkdf_expand_info_def prk_expand_def key_rep_algorithm [OF key_is_rep [OF assms(1)]] key_from_okm_def okm_fill_def)
qed

lemma extract_ok:
  assumes "key_is salt s" and "length secret < 2 ^ 60"
  shows "\<exists>key. hkdf_extract salt secret = Some key \<and> key_is key (hmac_spec H s secret)"
  using hmac_sign_ok [OF key_is_rep [OF assms(1)] assms(2)] key_exists [of "hmac_spec H s secret"] sizes(5)
  by (auto simp: hkdf_extract_def key_rep_algorithm [OF key_is_rep [OF assms(1)]] hmac_spec_length)

section \<open>The schedule\<close>

definition ks_is :: "KeySchedule \<Rightarrow> u8 list \<Rightarrow> bool" where
  "ks_is ks s \<longleftrightarrow> key_is (ks_current ks) s \<and> ks_alg ks = H"

lemma kind_label_short: "length (to_bytes kind) \<le> 12"
  by (cases kind) (simp_all add: to_bytes_def)

lemma zeroes_ok: "slice (replicate MAX_OUTPUT_LEN 0) 0 (output_len H) = Some (replicate (output_len H) (0 :: u8))"
  using sizes(5) by (simp add: slice_def)

lemma ks_new_ok:
  assumes "hkdf_algorithm suite' = H" and "length psk < 2 ^ 60"
  shows "\<exists>ks. ks_new suite' psk = Some ks \<and> ks_is ks (early_secret H psk) \<and> ks_suite ks = suite'"
proof -
  obtain salt where salt: "hmac_key_new H (replicate (output_len H) 0) = Some salt" "key_is salt (replicate (output_len H) 0)"
    using key_exists [of "replicate (output_len H) 0"] sizes(5) by auto
  then show ?thesis using extract_ok [OF salt(2) assms(2)] assms(1) zeroes_ok by (auto simp: ks_new_def ks_is_def early_secret_def)
qed

lemma ks_new_empty_ok:
  assumes "hkdf_algorithm suite' = H"
  shows "\<exists>ks. ks_new_with_empty_secret suite' = Some ks \<and> ks_is ks (early_secret H (replicate (output_len H) 0)) \<and> ks_suite ks = suite'"
  using ks_new_ok [OF assms, of "replicate (output_len H) 0"] sizes(5) zeroes_ok assms
  by (simp add: ks_new_with_empty_secret_def MAX_OUTPUT_LEN_def)

lemma ks_derive_ok:
  assumes "ks_is ks s" and "length hash < 2 ^ 50"
  shows "\<exists>key. ks_derive ks H kind hash = Some key \<and> key_is key (derive_secret H s kind hash)"
  using expand_prk_ok [of "ks_current ks" s "to_bytes kind" hash] assms kind_label_short [of kind]
  by (auto simp: ks_derive_def ks_is_def derive_secret_def to_bytes_rfc)

lemma input_secret_ok:
  assumes "ks_is ks s" and "length secret < 2 ^ 60"
  shows "\<exists>ks'. input_secret ks secret = Some ks' \<and> ks_is ks' (next_secret H s secret) \<and> ks_suite ks' = ks_suite ks"
proof -
  have d: "digest H [] = Some (digest_spec H [])" "length (digest_spec H []) < 2 ^ 50"
    using digest_eq [of "[]"] digest_spec_length [of "[]"] sizes(5) by (simp_all add: MAX_OUTPUT_LEN_def)
  obtain salt where salt: "derive_for_empty_hash ks DerivedSecret = Some salt" "key_is salt (derive_secret H s DerivedSecret (digest_spec H []))"
    using ks_derive_ok [OF assms(1) d(2)] d(1) assms(1) by (auto simp: derive_for_empty_hash_def ks_is_def)
  then show ?thesis using extract_ok [OF salt(2) assms(2)] assms(1) by (auto simp: input_secret_def ks_is_def next_secret_def)
qed

lemma input_empty_ok:
  assumes "ks_is ks s"
  shows "\<exists>ks'. input_empty ks = Some ks' \<and> ks_is ks' (next_secret H s (replicate (output_len H) 0)) \<and> ks_suite ks' = ks_suite ks"
  using input_secret_ok [OF assms, of "replicate (output_len H) 0"] assms sizes(5) zeroes_ok
  by (simp add: input_empty_def ks_is_def MAX_OUTPUT_LEN_def)

lemma derive_logged_ok:
  assumes "ks_is ks s" and "length hash < 2 ^ 50" and "log_label kind = Some label"
  shows "\<exists>key. derive_logged_secret ks kind hash log rnd = Some (key, logged kind rnd (derive_secret H s kind hash) log)
    \<and> key_is key (derive_secret H s kind hash)"
proof -
  have "hkdf_expand (ks_current ks) (output_len H) (to_bytes kind) hash = Some (derive_secret H s kind hash)"
    using expand_ok [of "ks_current ks" s "output_len H" "to_bytes kind" hash] assms(1,2) kind_label_short [of kind]
    by (simp add: ks_is_def derive_secret_def to_bytes_rfc)
  then show ?thesis using ks_derive_ok [OF assms(1,2), of kind] assms(1,3) by (auto simp: derive_logged_secret_def logged_def ks_is_def)
qed

section \<open>Ciphers and tags\<close>

lemma traffic_key_ok:
  assumes "key_is key s"
  shows "derive_traffic_key key (aead_algorithm suite) = Some (traffic_key suite s)" "derive_traffic_iv key = Some (traffic_iv suite s)"
    "length (traffic_key suite s) = aead_key_len (aead_algorithm suite)" "length (traffic_iv suite s) = 12"
proof -
  have "aead_key_len (aead_algorithm suite) \<le> 255 * output_len H" "12 \<le> 255 * output_len H" using key_len sizes(3) by simp_all
  then show "derive_traffic_key key (aead_algorithm suite) = Some (traffic_key suite s)" "derive_traffic_iv key = Some (traffic_iv suite s)"
      "length (traffic_key suite s) = aead_key_len (aead_algorithm suite)" "length (traffic_iv suite s) = 12"
    using expand_ok [OF assms] by (simp_all add: derive_traffic_key_def derive_traffic_iv_def traffic_key_def traffic_iv_def expand_label_length bytes_of_ascii)
qed

lemma pair_of: "key_is key s \<Longrightarrow> cipher_pair (enc_of suite s) (dec_of suite s) (\<lambda>_. PV_TLSv1_3)"
  unfolding enc_of_def dec_of_def
  by (rule aead_key_t13 [OF cipher [OF traffic_key_ok(3,4)]])

lemma set_encrypter_ok:
  "key_is key s \<Longrightarrow> ks_suite ks = suite \<Longrightarrow> set_encrypter ks key cs = Some (with_encrypter (enc_of suite s) cs)"
  using traffic_key_ok [of key s] by (simp add: set_encrypter_def with_encrypter_def enc_of_def)

lemma set_decrypter_ok:
  "key_is key s \<Longrightarrow> ks_suite ks = suite \<Longrightarrow> set_decrypter ks key cs = Some (with_decrypter (dec_of suite s) cs)"
  using traffic_key_ok [of key s] by (simp add: set_decrypter_def derive_decrypter_def with_decrypter_def dec_of_def)

lemma sign_ok:
  assumes "key_is key s" and "ks_alg ks = H" and "length hash < 2 ^ 60"
  shows "sign_finish ks key hash = Some (finished_mac H s hash)"
proof -
  obtain k where k: "hkdf_expand_prk key H (bytes_of ''finished'') [] = Some k" "key_is k (expand_label H s (bytes_of ''finished'') [] (output_len H))"
    using expand_prk_ok [OF assms(1), of "bytes_of ''finished''" "[]"] by auto
  then show ?thesis using hmac_sign_ok [OF key_is_rep [OF k(2)] assms(3)] assms(2)
    by (simp add: sign_finish_def sign_verify_data_def finished_mac_def bytes_of_ascii)
qed

lemma derive_next_ok:
  assumes "key_is key s" and "ks_alg ks = H"
  shows "\<exists>key'. derive_next ks key = Some key' \<and> key_is key' (updated_secret H s)"
  using expand_prk_ok [OF assms(1), of "bytes_of ''traffic upd''" "[]"] assms(2) by (simp add: derive_next_def updated_secret_def bytes_of_ascii ascii_def)

section \<open>Stages\<close>

text \<open>A traffic schedule with the master secret \<open>m\<close>, the client's secret \<open>c\<close>, the server's \<open>s\<close> and the exporter's \<open>e\<close>.\<close>

definition kt_is :: "KeyScheduleTraffic \<Rightarrow> u8 list \<Rightarrow> u8 list \<Rightarrow> u8 list \<Rightarrow> u8 list \<Rightarrow> bool" where
  "kt_is kt m c s e \<longleftrightarrow> key_is (ks_current (kt_ks kt)) m \<and> ks_suite (kt_ks kt) = suite \<and> key_is (kt_current_client_traffic_secret kt) c
     \<and> key_is (kt_current_server_traffic_secret kt) s \<and> key_is (kt_current_exporter_secret kt) e"

lemma kt_unique: "kt_is kt m c s e \<Longrightarrow> kt_is kt' m c s e \<Longrightarrow> kt = kt'"
  by (intro KeyScheduleTraffic.equality KeySchedule.equality) (simp_all add: kt_is_def key_is_def)

lemma kt_new_ok:
  assumes "ks_is ks hs" and "ks_suite ks = suite" and "length hash < 2 ^ 50"
  defines "m \<equiv> next_secret H hs (replicate (output_len H) 0)"
  defines "c \<equiv> derive_secret H m ClientApplicationTrafficSecret hash" and "s \<equiv> derive_secret H m ServerApplicationTrafficSecret hash"
    and "e \<equiv> derive_secret H m ExporterMasterSecret hash"
  shows "\<exists>kt. kt_new ks hash log rnd = Some (kt, logged ExporterMasterSecret rnd e
      (logged ServerApplicationTrafficSecret rnd s (logged ClientApplicationTrafficSecret rnd c log))) \<and> kt_is kt m c s e"
proof -
  obtain ks' where ks': "input_empty ks = Some ks'" "ks_is ks' m" "ks_suite ks' = suite"
    using input_empty_ok [OF assms(1)] assms(2) by (auto simp: m_def)
  note d = derive_logged_ok [OF ks'(2) assms(3)]
  have l: "log_label ClientApplicationTrafficSecret = Some ''CLIENT_TRAFFIC_SECRET_0''" "log_label ServerApplicationTrafficSecret = Some ''SERVER_TRAFFIC_SECRET_0''"
      "log_label ExporterMasterSecret = Some ''EXPORTER_SECRET''" by simp_all
  show ?thesis
    using d [OF l(1), of log rnd] d [OF l(2), of "logged ClientApplicationTrafficSecret rnd c log" rnd]
      d [OF l(3), of "logged ServerApplicationTrafficSecret rnd s (logged ClientApplicationTrafficSecret rnd c log)" rnd] ks'
    unfolding c_def s_def e_def by (auto simp: kt_new_def kt_is_def ks_is_def)
qed

text \<open>A handshake schedule with the handshake secret \<open>h\<close> and the two handshake traffic secrets.\<close>

definition kh_is :: "KeyScheduleHandshake \<Rightarrow> u8 list \<Rightarrow> u8 list \<Rightarrow> u8 list \<Rightarrow> bool" where
  "kh_is kh h c s \<longleftrightarrow> ks_is (kh_ks kh) h \<and> ks_suite (kh_ks kh) = suite \<and> key_is (kh_client_handshake_traffic_secret kh) c
     \<and> key_is (kh_server_handshake_traffic_secret kh) s"

lemma into_handshake_ok:
  assumes "ks_is ks h" and "ks_suite ks = suite" and "length hash < 2 ^ 50"
  defines "c \<equiv> derive_secret H h ClientHandshakeTrafficSecret hash" and "s \<equiv> derive_secret H h ServerHandshakeTrafficSecret hash"
  shows "\<exists>kh. into_handshake ks hash log rnd = Some (kh, logged ServerHandshakeTrafficSecret rnd s (logged ClientHandshakeTrafficSecret rnd c log)) \<and> kh_is kh h c s"
proof -
  note d = derive_logged_ok [OF assms(1,3)]
  have l: "log_label ClientHandshakeTrafficSecret = Some ''CLIENT_HANDSHAKE_TRAFFIC_SECRET''"
      "log_label ServerHandshakeTrafficSecret = Some ''SERVER_HANDSHAKE_TRAFFIC_SECRET''" by simp_all
  show ?thesis
    using d [OF l(1), of log rnd] d [OF l(2), of "logged ClientHandshakeTrafficSecret rnd c log" rnd] assms(1,2)
    unfolding c_def s_def by (auto simp: into_handshake_def kh_is_def)
qed

end

end
