(* ===== verification/Ring_Fips.thy ===== *)
theory Ring_Fips
  imports Prelude
begin

text \<open>
  SHA-256, SHA-384 and SHA-512 as FIPS 180-4 states them, written from the standard and without the definitions that model
  the code: rotations by shifts, the functions of section 4.1 with their literal counts, the constants of sections 4.2 and
  5.3 as the fractional parts of roots of primes, the padding of section 5.1 and the computation of section 6.
\<close>

section \<open>Words and functions\<close>

definition ROTR :: "nat \<Rightarrow> 'a::len word \<Rightarrow> 'a word" where
  "ROTR n x = drop_bit n x OR push_bit (LENGTH('a) - n) x"

definition SHR :: "nat \<Rightarrow> 'a::len word \<Rightarrow> 'a word" where
  "SHR n x = drop_bit n x"

definition fips_Ch :: "'a::len word \<Rightarrow> 'a word \<Rightarrow> 'a word \<Rightarrow> 'a word" where
  "fips_Ch x y z = (x AND y) XOR (NOT x AND z)"

definition fips_Maj :: "'a::len word \<Rightarrow> 'a word \<Rightarrow> 'a word \<Rightarrow> 'a word" where
  "fips_Maj x y z = (x AND y) XOR (x AND z) XOR (y AND z)"

text \<open>The most significant byte comes first.\<close>

definition fips_word :: "u8 list \<Rightarrow> 'a::len word" where
  "fips_word bs = foldl (\<lambda>x b. 256 * x + ucast b) 0 bs"

definition fips_bytes :: "nat \<Rightarrow> nat \<Rightarrow> u8 list" where
  "fips_bytes k n = map (\<lambda>i. word_of_nat (n div 256 ^ i)) (rev [0 ..< k])"

section \<open>Constants\<close>

text \<open>The first eighty primes, and the greatest number below \<open>k + 2 ^ i\<close> whose \<open>r\<close>-th power is at most \<open>n\<close>, found bit by bit.\<close>

definition first_primes :: "nat list" where
  "first_primes = [2, 3, 5, 7, 11, 13, 17, 19, 23, 29, 31, 37, 41, 43, 47, 53, 59, 61, 67, 71, 73, 79, 83, 89, 97, 101, 103, 107, 109, 113,
     127, 131, 137, 139, 149, 151, 157, 163, 167, 173, 179, 181, 191, 193, 197, 199, 211, 223, 227, 229, 233, 239, 241, 251, 257, 263, 269,
     271, 277, 281, 283, 293, 307, 311, 313, 317, 331, 337, 347, 349, 353, 359, 367, 373, 379, 383, 389, 397, 401, 409]"

fun floor_root :: "nat \<Rightarrow> nat \<Rightarrow> nat \<Rightarrow> nat \<Rightarrow> nat" where
  "floor_root r 0 k n = k"
| "floor_root r (Suc i) k n = floor_root r i (if (k + 2 ^ i) ^ r \<le> n then k + 2 ^ i else k) n"

lemma floor_root_greatest:
  assumes "k ^ r \<le> n" and "n < (k + 2 ^ i) ^ r"
  shows "floor_root r i k n ^ r \<le> n \<and> n < Suc (floor_root r i k n) ^ r"
  using assms by (induction i arbitrary: k) (auto simp: not_le algebra_simps mult_2)

lemma floor_root_unique:
  assumes "x ^ r \<le> n" and "n < Suc x ^ r" and "y ^ r \<le> n" and "n < Suc y ^ r"
  shows "x = (y :: nat)"
  using power_less_imp_less_base [of x r "Suc y"] power_less_imp_less_base [of y r "Suc x"] assms by force

text \<open>The first \<open>LENGTH('a)\<close> bits of the fractional part of the \<open>r\<close>-th root of \<open>p\<close>: the floor of the root, scaled, without its whole part.\<close>

definition root_fraction :: "nat \<Rightarrow> nat \<Rightarrow> 'a::len word" where
  "root_fraction r p = word_of_nat (floor_root r (LENGTH('a) + 3) 0 (p * 2 ^ (r * LENGTH('a))))"

text \<open>A given word is that fraction if, behind the whole part \<open>q\<close>, it bounds the root from below and its successor from above.\<close>

definition is_fraction :: "nat \<Rightarrow> nat \<times> nat \<Rightarrow> 'a::len word \<Rightarrow> bool" where
  "is_fraction r = (\<lambda>(p, q) x. let k = q * 2 ^ LENGTH('a) + unat x; n = p * 2 ^ (r * LENGTH('a)) in q < 8 \<and> k ^ r \<le> n \<and> n < Suc k ^ r)"

lemma root_fractionI:
  assumes "is_fraction r (p, q) (x :: 'a::len word)"
  shows "root_fraction r p = x"
proof -
  let ?n = "p * 2 ^ (r * LENGTH('a))" and ?x = "floor_root r (LENGTH('a) + 3) 0 (p * 2 ^ (r * LENGTH('a)))"
  have q: "q < 8" "(q * 2 ^ LENGTH('a) + unat x) ^ r \<le> ?n" "?n < Suc (q * 2 ^ LENGTH('a) + unat x) ^ r"
    using assms by (simp_all add: is_fraction_def Let_def)
  have "Suc (q * 2 ^ LENGTH('a) + unat x) \<le> Suc q * 2 ^ LENGTH('a)" by (simp add: Suc_le_eq)
  also have "\<dots> \<le> 8 * 2 ^ LENGTH('a)" using q(1) by (intro mult_right_mono) simp_all
  finally have "Suc (q * 2 ^ LENGTH('a) + unat x) ^ r \<le> (0 + 2 ^ (LENGTH('a) + 3)) ^ r" by (intro power_mono) (simp_all add: power_add)
  then have n: "?n < (0 + 2 ^ (LENGTH('a) + 3)) ^ r" using q(3) by linarith
  have "r \<noteq> 0" using q(2,3) by (cases r) simp_all
  then have "0 ^ r \<le> ?n" by (simp add: zero_power)
  from floor_root_greatest [OF this n] have "?x = q * 2 ^ LENGTH('a) + unat x" using floor_root_unique q(2,3) by blast
  then show ?thesis by (simp add: root_fraction_def)
qed

lemma root_fractions:
  assumes "list_all2 (is_fraction r) pqs (xs :: 'a::len word list)" and "map fst pqs = ps"
  shows "map (root_fraction r) ps = xs"
  using assms(1) unfolding assms(2) [symmetric] by (induction rule: list_all2_induct) (auto simp: root_fractionI)

section \<open>Algorithms\<close>

record 'w fips_family =
  f_Sigma0 :: "'w \<Rightarrow> 'w"
  f_Sigma1 :: "'w \<Rightarrow> 'w"
  f_sigma0 :: "'w \<Rightarrow> 'w"
  f_sigma1 :: "'w \<Rightarrow> 'w"
  f_K :: "'w list"

definition FIPS_256 :: "u32 fips_family" where
  "FIPS_256 = \<lparr>f_Sigma0 = \<lambda>x. ROTR 2 x XOR ROTR 13 x XOR ROTR 22 x, f_Sigma1 = \<lambda>x. ROTR 6 x XOR ROTR 11 x XOR ROTR 25 x,
     f_sigma0 = \<lambda>x. ROTR 7 x XOR ROTR 18 x XOR SHR 3 x, f_sigma1 = \<lambda>x. ROTR 17 x XOR ROTR 19 x XOR SHR 10 x,
     f_K = map (root_fraction 3) (take 64 first_primes)\<rparr>"

definition FIPS_512 :: "u64 fips_family" where
  "FIPS_512 = \<lparr>f_Sigma0 = \<lambda>x. ROTR 28 x XOR ROTR 34 x XOR ROTR 39 x, f_Sigma1 = \<lambda>x. ROTR 14 x XOR ROTR 18 x XOR ROTR 41 x,
     f_sigma0 = \<lambda>x. ROTR 1 x XOR ROTR 8 x XOR SHR 7 x, f_sigma1 = \<lambda>x. ROTR 19 x XOR ROTR 61 x XOR SHR 6 x,
     f_K = map (root_fraction 3) (take 80 first_primes)\<rparr>"

fun fips_W :: "'a word fips_family \<Rightarrow> u8 list \<Rightarrow> nat \<Rightarrow> 'a::len word" where
  "fips_W F M t =
     (if t < 16 then fips_word (take (LENGTH('a) div 8) (drop (t * (LENGTH('a) div 8)) M))
      else f_sigma1 F (fips_W F M (t - 2)) + fips_W F M (t - 7) + f_sigma0 F (fips_W F M (t - 15)) + fips_W F M (t - 16))"

declare fips_W.simps [simp del]

text \<open>The working variables after \<open>t\<close> turns.\<close>

primrec fips_vars ::
    "'a word fips_family \<Rightarrow> 'a::len word list \<Rightarrow> u8 list \<Rightarrow> nat \<Rightarrow> 'a word \<times> 'a word \<times> 'a word \<times> 'a word \<times> 'a word \<times> 'a word \<times> 'a word \<times> 'a word" where
  "fips_vars F H M 0 = (H ! 0, H ! 1, H ! 2, H ! 3, H ! 4, H ! 5, H ! 6, H ! 7)"
| "fips_vars F H M (Suc t) =
     (case fips_vars F H M t of
        (a, b, c, d, e, f, g, h) \<Rightarrow>
          (let T1 = h + f_Sigma1 F e + fips_Ch e f g + f_K F ! t + fips_W F M t; T2 = f_Sigma0 F a + fips_Maj a b c
           in (T1 + T2, a, b, c, d + T1, e, f, g)))"

definition fips_compress :: "'a word fips_family \<Rightarrow> 'a::len word list \<Rightarrow> u8 list \<Rightarrow> 'a word list" where
  "fips_compress F H M =
     (case fips_vars F H M (length (f_K F)) of
        (a, b, c, d, e, f, g, h) \<Rightarrow> map2 (+) H [a, b, c, d, e, f, g, h])"

text \<open>The message, a one bit, the fewest zeros that fill the last block, and the length in bits in \<open>n\<close> bytes.\<close>

definition fips_pad :: "nat \<Rightarrow> nat \<Rightarrow> u8 list \<Rightarrow> u8 list" where
  "fips_pad b n m = m @ [0x80] @ replicate (nat (- int (length m + 1 + n) mod int b)) 0 @ fips_bytes n (8 * length m)"

definition fips_hash :: "'a word fips_family \<Rightarrow> 'a::len word list \<Rightarrow> nat \<Rightarrow> u8 list \<Rightarrow> u8 list" where
  "fips_hash F H0 out m =
     (let w = LENGTH('a) div 8; b = 16 * w; p = fips_pad b (2 * w) m;
          H = foldl (fips_compress F) H0 (map (\<lambda>i. take b (drop (i * b) p)) [0 ..< length p div b])
      in take out (concat (map (\<lambda>x. fips_bytes w (unat x)) H)))"

definition fips_SHA256 :: "u8 list \<Rightarrow> u8 list" where
  "fips_SHA256 = fips_hash FIPS_256 (map (root_fraction 2) (take 8 first_primes)) 32"

definition fips_SHA384 :: "u8 list \<Rightarrow> u8 list" where
  "fips_SHA384 = fips_hash FIPS_512 (map (root_fraction 2) (take 8 (drop 8 first_primes))) 48"

definition fips_SHA512 :: "u8 list \<Rightarrow> u8 list" where
  "fips_SHA512 = fips_hash FIPS_512 (map (root_fraction 2) (take 8 first_primes)) 64"

end
