(* ===== verification/Ring_Digest_Thms.thy ===== *)
theory Ring_Digest_Thms
  imports Ring_Digest_Correct Ring_Fips
begin

text \<open>
  The code of the SHA-2 family against the reference of \<open>Ring_Fips\<close>: its constants, its functions, the compression of a block
  and the digest of a message. The locale \<open>sha2_family\<close> is what the compression relies on of the constants of the trait \<^verbatim>\<open>Sha2\<close>.
\<close>

section \<open>Functions and constants\<close>

lemma ch_eq: "ch x y z = fips_Ch x y z"
  unfolding ch_def fips_Ch_def by (rule bit_word_eqI) (auto simp: bit_simps)

lemma maj_eq: "maj x y z = fips_Maj x y z"
  unfolding maj_def fips_Maj_def by (rule bit_word_eqI) (auto simp: bit_simps)

lemma rotr_eq: "0 < n \<Longrightarrow> n < LENGTH('a) \<Longrightarrow> rotr (x :: 'a::len word) n = ROTR n x"
  unfolding rotr_def ROTR_def by (rule bit_word_eqI) (auto simp: bit_simps bit_word_rotr_iff mod_if add.commute dest: bit_imp_le_length)

lemma from_be_bytes_eq: "from_be_bytes bs = (fips_word bs :: 'a::len word)"
proof -
  have "word_of_nat (foldl (\<lambda>acc b. 256 * acc + unat b) n bs) = foldl (\<lambda>x b. 256 * x + ucast b) (word_of_nat n :: 'a word) bs" for n
    by (induction bs arbitrary: n) simp_all
  from this [of 0] show ?thesis by (simp add: from_be_bytes_def be_nat_def fips_word_def)
qed

lemma be_digits_eq: "be_digits k n = fips_bytes k n"
proof (induction k arbitrary: n)
  case (Suc k)
  have "rev [0 ..< Suc k] = map Suc (rev [0 ..< k]) @ [0]" by (simp add: rev_map [symmetric] map_Suc_upt upt_conv_Cons del: upt_Suc)
  moreover have "(word_of_nat (n mod 256) :: u8) = word_of_nat n" by (simp add: word_of_nat_eq_iff take_bit_eq_mod)
  ultimately show ?case using Suc by (simp add: fips_bytes_def comp_def div_mult2_eq del: upt_Suc)
qed (simp add: fips_bytes_def)

lemma blocks_nth: "i < n \<Longrightarrow> blocks k n xs ! i = take k (drop (i * k) xs)"
  by (induction n arbitrary: i xs) (auto simp: less_Suc_eq_0_disj nth_Cons' add.commute)

lemma length_blocks [simp]: "length (blocks k n xs) = n"
  by (induction n arbitrary: xs) auto

lemma blocks_eq: "blocks k n xs = map (\<lambda>i. take k (drop (i * k) xs)) [0 ..< n]"
  by (intro nth_equalityI) (simp_all add: blocks_nth)

section \<open>Compression\<close>

locale sha2_family =
  fixes S :: "'a::len word Sha2" and F :: "'a word fips_family" and w :: nat
  assumes width: "w = LENGTH('a) div 8"
    and enough: "16 \<le> length (sha_K S)"
    and K: "f_K F = sha_K S"
    and sigmas: "SIGMA_0 S x = f_Sigma0 F x" "SIGMA_1 S x = f_Sigma1 F x" "sigma_0 S x = f_sigma0 F x" "sigma_1 S x = f_sigma1 F x"
begin

lemma schedule_prefix:
  fixes M :: "u8 list"
  assumes "16 \<le> k" and "k \<le> length (sha_K S)"
  defines "step \<equiv> \<lambda>W t. W[t := sigma_1 S (W ! (t - 2)) + W ! (t - 7) + sigma_0 S (W ! (t - 15)) + W ! (t - 16)]"
  defines "W0 \<equiv> overwrite (replicate (length (sha_K S)) 0) 0 (map from_be_bytes (blocks w 16 M))"
  shows "length (foldl step W0 [16 ..< k]) = length (sha_K S) \<and> (\<forall>i < k. foldl step W0 [16 ..< k] ! i = fips_W F M i)"
  using assms(1,2)
proof (induction k rule: nat_induct_at_least)
  case base
  have "W0 ! i = fips_W F M i" if "i < 16" for i
    using that base by (simp add: W0_def overwrite_def nth_append blocks_nth fips_W.simps width from_be_bytes_eq)
  then show ?case using base by (simp add: W0_def)
next
  case (Suc k)
  let ?W = "foldl step W0 [16 ..< k]"
  have IH: "length ?W = length (sha_K S)" "\<And>i. i < k \<Longrightarrow> ?W ! i = fips_W F M i" using Suc by simp_all
  have "foldl step W0 [16 ..< Suc k] = step ?W k" using Suc.hyps by simp
  moreover have "step ?W k ! i = fips_W F M i" if "i < Suc k" for i
  proof (cases "i = k")
    case True
    then show ?thesis using IH Suc by (subst fips_W.simps) (simp add: step_def sigmas)
  next
    case False
    then show ?thesis using IH that by (simp add: step_def)
  qed
  ultimately show ?case using IH(1) by (simp add: step_def)
qed

lemma schedule_eq: "sha2_schedule S w M = map (fips_W F M) [0 ..< length (sha_K S)]"
  using schedule_prefix [OF enough order_refl, of M] unfolding sha2_schedule_def Let_def by (intro nth_equalityI) simp_all

lemma rounds_eq:
  assumes "k \<le> length (sha_K S)"
  shows "foldl (sha2_round S) (H ! 0, H ! 1, H ! 2, H ! 3, H ! 4, H ! 5, H ! 6, H ! 7) (take k (zip (sha_K S) (sha2_schedule S w M))) = fips_vars F H M k"
  using assms
proof (induction k)
  case (Suc k)
  have "take (Suc k) (zip (sha_K S) (sha2_schedule S w M)) = take k (zip (sha_K S) (sha2_schedule S w M)) @ [(f_K F ! k, fips_W F M k)]"
    using Suc.prems by (simp add: take_Suc_conv_app_nth schedule_eq K)
  then show ?case using Suc by (simp add: ch_eq maj_eq sigmas split: prod.splits)
qed simp

lemma sha2_block_eq:
  assumes "length H = 8"
  shows "sha2_block S w H M = fips_compress F H M"
proof -
  obtain h where H: "H = [h 0, h 1, h 2, h 3, h 4, h 5, h 6, h (7 :: nat)]"
    using assms by (intro that [of "\<lambda>i. H ! i"] nth_equalityI) (auto simp: less_Suc_eq numeral_eq_Suc)
  have "length (zip (sha_K S) (sha2_schedule S w M)) = length (sha_K S)" by (simp add: schedule_eq)
  then have "foldl (sha2_round S) (H ! 0, H ! 1, H ! 2, H ! 3, H ! 4, H ! 5, H ! 6, H ! 7) (zip (sha_K S) (sha2_schedule S w M)) = fips_vars F H M (length (sha_K S))"
    using rounds_eq [of "length (sha_K S)" H M] by simp
  then show ?thesis by (auto simp: sha2_block_def fips_compress_def H K split: prod.splits)
qed

lemma block_data_order_eq:
  assumes "length H = 8"
  shows "block_data_order S w H M n = foldl (fips_compress F) H (map (\<lambda>i. take (16 * w) (drop (i * (16 * w)) M)) [0 ..< n])"
proof -
  have "foldl (sha2_block S w) H Ms = foldl (fips_compress F) H Ms" for Ms
    using assms
  proof (induction Ms arbitrary: H)
    case (Cons M Ms)
    have "length (sha2_block S w H M) = 8" by (simp add: sha2_block_def split: prod.split)
    then show ?case using Cons.IH sha2_block_eq [OF Cons.prems] by simp
  qed simp
  then show ?thesis by (simp add: block_data_order_def blocks_eq)
qed

lemma hash_eq:
  assumes "length H = 8" and "0 < w" and "block_len alg = 16 * w" and "len_len alg = 2 * w" and "output_len alg = out"
  shows "(let p = md_pad alg m in take (output_len alg) (concat (map (to_be_bytes w) (block_data_order S w H p (length p div block_len alg)))))
    = fips_hash F H out m"
proof -
  have "(b - x mod b) mod b = nat (- int x mod int b)" if "0 < b" for b x :: nat
  proof -
    have "int ((b - x mod b) mod b) = (int b - int x mod int b) mod int b" using that by (simp add: of_nat_diff zmod_int)
    also have "\<dots> = - int x mod int b" by (metis add.commute diff_conv_add_uminus mod_add_self1 mod_diff_right_eq minus_diff_eq mod_minus_eq uminus_add_conv_diff)
    finally show ?thesis by simp
  qed
  then have "md_pad alg m = fips_pad (16 * w) (2 * w) m" using assms(2) unfolding md_pad_def fips_pad_def assms(3,4) Let_def be_digits_eq by simp
  then show ?thesis using assms(3,5) block_data_order_eq [OF assms(1)] by (simp add: fips_hash_def Let_def width to_be_bytes_def [abs_def] be_digits_eq)
qed

end

text \<open>The whole parts of the cube roots of the first eighty primes.\<close>

definition cube_parts :: "nat list" where
  "cube_parts = [1, 1, 1, 1, 2, 2, 2, 2, 2, 3, 3, 3, 3, 3, 3, 3, 3, 3, 4, 4, 4, 4, 4, 4, 4, 4, 4, 4, 4, 4, 5, 5, 5, 5, 5, 5, 5, 5, 5, 5, 5, 5, 5, 5, 5, 5, 5, 6, 6, 6, 6, 6, 6, 6, 6, 6, 6, 6, 6, 6, 6, 6, 6, 6, 6, 6, 6, 6, 7, 7, 7, 7, 7, 7, 7, 7, 7, 7, 7, 7]"

lemma K256: "list_all2 (is_fraction 3) (zip (take 64 first_primes) (take 64 cube_parts)) (sha_K SHA256_consts)"
  by (simp add: first_primes_def SHA256_consts_def is_fraction_def cube_parts_def)

lemma K512: "list_all2 (is_fraction 3) (zip (take 80 first_primes) cube_parts) (sha_K SHA512_consts)"
  by (simp add: first_primes_def SHA512_consts_def is_fraction_def cube_parts_def)

interpretation sha2_256: sha2_family SHA256_consts FIPS_256 4
proof unfold_locales
  show "f_K FIPS_256 = sha_K SHA256_consts" unfolding FIPS_256_def fips_family.select_convs by (rule root_fractions [OF K256]) (simp add: first_primes_def cube_parts_def)
qed (simp_all add: SHA256_consts_def FIPS_256_def SIGMA_0_def SIGMA_1_def sigma_0_def sigma_1_def rotr_eq SHR_def)

interpretation sha2_512: sha2_family SHA512_consts FIPS_512 8
proof unfold_locales
  show "f_K FIPS_512 = sha_K SHA512_consts" unfolding FIPS_512_def fips_family.select_convs by (rule root_fractions [OF K512]) (simp add: first_primes_def cube_parts_def)
qed (simp_all add: SHA512_consts_def FIPS_512_def SIGMA_0_def SIGMA_1_def sigma_0_def sigma_1_def rotr_eq SHR_def)

section \<open>Digests\<close>

lemma sha256_fips: "digest_spec SHA256 m = fips_SHA256 m"
proof -
  have "map (root_fraction 2) (take 8 first_primes) = ([0x6a09e667, 0xbb67ae85, 0x3c6ef372, 0xa54ff53a, 0x510e527f, 0x9b05688c, 0x1f83d9ab, 0x5be0cd19] :: u32 list)"
    by (rule root_fractions [where pqs = "zip (take 8 first_primes) [1, 1, 2, 2, 3, 3, 4, 4]"]) (simp_all add: first_primes_def is_fraction_def)
  then show ?thesis using sha2_256.hash_eq [of "map (root_fraction 2) (take 8 first_primes)" SHA256 32 m]
    by (simp add: digest_spec_def SHA256_def fips_SHA256_def Let_def)
qed

lemma sha384_fips: "digest_spec SHA384 m = fips_SHA384 m"
proof -
  have "map (root_fraction 2) (take 8 (drop 8 first_primes)) = ([0xcbbb9d5dc1059ed8, 0x629a292a367cd507, 0x9159015a3070dd17, 0x152fecd8f70e5939,
      0x67332667ffc00b31, 0x8eb44a8768581511, 0xdb0c2e0d64f98fa7, 0x47b5481dbefa4fa4] :: u64 list)"
    by (rule root_fractions [where pqs = "zip (take 8 (drop 8 first_primes)) [4, 5, 5, 6, 6, 6, 6, 7]"]) (simp_all add: first_primes_def is_fraction_def)
  then show ?thesis using sha2_512.hash_eq [of "map (root_fraction 2) (take 8 (drop 8 first_primes))" SHA384 48 m]
    by (simp add: digest_spec_def SHA384_def fips_SHA384_def Let_def)
qed

lemma sha512_fips: "digest_spec SHA512 m = fips_SHA512 m"
proof -
  have "map (root_fraction 2) (take 8 first_primes) = ([0x6a09e667f3bcc908, 0xbb67ae8584caa73b, 0x3c6ef372fe94f82b, 0xa54ff53a5f1d36f1,
      0x510e527fade682d1, 0x9b05688c2b3e6c1f, 0x1f83d9abfb41bd6b, 0x5be0cd19137e2179] :: u64 list)"
    by (rule root_fractions [where pqs = "zip (take 8 first_primes) [1, 1, 2, 2, 3, 3, 4, 4]"]) (simp_all add: first_primes_def is_fraction_def)
  then show ?thesis using sha2_512.hash_eq [of "map (root_fraction 2) (take 8 first_primes)" SHA512 64 m]
    by (simp add: digest_spec_def SHA512_def fips_SHA512_def Let_def)
qed

end
