(* ===== verification/Ring_Thms.thy ===== *)
theory Ring_Thms
  imports Ring_Digest_Thms Ring_Hmac_Correct
begin

text \<open>
  What the digests, message authentication codes and key derivation functions of ring compute, for each of its algorithms.
\<close>

definition digest_algorithms :: "DigestAlgorithm list" where
  "digest_algorithms = [SHA1_FOR_LEGACY_USE_ONLY, SHA256, SHA384, SHA512, SHA512_256]"

lemma algorithm_contract:
  assumes "alg \<in> set digest_algorithms"
  obtains st_ok where "merkle_damgard alg st_ok"
  using assms sha1.merkle_damgard_axioms sha256.merkle_damgard_axioms sha384.merkle_damgard_axioms sha512.merkle_damgard_axioms
    sha512_256.merkle_damgard_axioms that by (auto simp: digest_algorithms_def)

lemma sha256_listed: "SHA256 \<in> set digest_algorithms"
  by (simp add: digest_algorithms_def)

section \<open>Properties\<close>

text \<open>C9: However the data is cut into pieces, updating a context with them and finishing it gives the digest of their
  concatenation as FIPS 180-4 defines it: the message padded with a one bit, zeros and its length, and compressed block by
  block. It panics exactly when the length in bits does not fit 64 bits. Hashing in one call is the same.\<close>

theorem ring_digest_streaming:
  assumes "alg \<in> set digest_algorithms" and "list_all (\<lambda>c. length c < 2 ^ 64) pieces"
  shows "do { ctx \<leftarrow> ctx_updates (ctx_new alg) pieces; ctx_finish ctx }
      = (if 8 * length (concat pieces) < 2 ^ 64 then Some (digest_spec alg (concat pieces)) else None)
    \<and> (length (concat pieces) < 2 ^ 64 \<longrightarrow> digest alg (concat pieces) = do { ctx \<leftarrow> ctx_updates (ctx_new alg) pieces; ctx_finish ctx })"
proof -
  obtain st_ok where md: "merkle_damgard alg st_ok" using assms(1) by (rule algorithm_contract)
  have run: "do { ctx \<leftarrow> ctx_updates (ctx_new alg) pieces; ctx_finish ctx }
      = (if 8 * length (concat pieces) < 2 ^ 64 then Some (digest_spec alg (concat pieces)) else None)"
    using merkle_damgard.ctx_updates_eq [OF md merkle_damgard.ctx_rep_new [OF md] assms(2)] by simp
  then show ?thesis using merkle_damgard.digest_eq [OF md, of "concat pieces"] by simp
qed

theorem ring_digest_streaming_witness:
  "do { ctx \<leftarrow> ctx_updates (ctx_new SHA256) [[1, 2], [], replicate 100 3]; ctx_finish ctx } = digest SHA256 ([1, 2] @ replicate 100 3)"
  using ring_digest_streaming [OF sha256_listed, of "[[1, 2], [], replicate 100 3]"] by simp

text \<open>C20: SHA-2 is the one of FIPS 180-4, for a reference written from the standard alone: its functions as shifts and rotations
  with literal counts, and its constants as the fractional parts of roots of the first primes. The compression functions of the
  code, with their schedule kept in an array, are the ones of the standard for every chaining value and block, and the digests
  SHA-256, SHA-384 and SHA-512 of every message of less than 2 to the 64 bits are computed, without a panic, as it says.\<close>

theorem ring_sha2_fips:
  assumes "length H = 8" and "length H' = 8" and "8 * length m < 2 ^ 64"
  shows "sha2_block SHA256_consts 4 H M = fips_compress FIPS_256 H M \<and> sha2_block SHA512_consts 8 H' M = fips_compress FIPS_512 H' M
    \<and> digest SHA256 m = Some (fips_SHA256 m) \<and> digest SHA384 m = Some (fips_SHA384 m) \<and> digest SHA512 m = Some (fips_SHA512 m)"
  using assms sha2_256.sha2_block_eq sha2_512.sha2_block_eq sha256.digest_eq [of m] sha384.digest_eq [of m] sha512.digest_eq [of m]
  by (simp add: sha256_fips sha384_fips sha512_fips)

theorem ring_sha2_fips_witness:
  "sha2_block SHA256_consts 4 (replicate 8 0x6a09e667) ([0x61, 0x62, 0x63, 0x80] @ replicate 60 0)
      = fips_compress FIPS_256 (replicate 8 0x6a09e667) ([0x61, 0x62, 0x63, 0x80] @ replicate 60 0)
    \<and> digest SHA256 [0x61, 0x62, 0x63] = Some (fips_SHA256 [0x61, 0x62, 0x63])
    \<and> digest SHA384 [0x61, 0x62, 0x63] = Some (fips_SHA384 [0x61, 0x62, 0x63])"
  using ring_sha2_fips [of "replicate 8 0x6a09e667" "replicate 8 0" "[0x61, 0x62, 0x63]" "[0x61, 0x62, 0x63, 0x80] @ replicate 60 0"] by simp



text \<open>C29: Key derivation is that of RFC 5869: extraction gives a key; expansion fails exactly when more than 255 times the
  digest length is asked for; otherwise filling a buffer of that length never panics (the one-byte counter does not
  overflow) and gives the specified output, and a buffer of another length is refused.\<close>

theorem ring_hkdf_rfc:
  assumes "alg \<in> set digest_algorithms" and "8 * length salt < 2 ^ 64" and "length secret < 2 ^ 60" and "length (concat info) < 2 ^ 59"
  shows "\<exists>s prk. hmac_key_new alg salt = Some s \<and> hkdf_extract s secret = Some prk
    \<and> prk_expand prk info len = (if 255 * output_len alg < len then None else Some \<lparr>okm_prk = prk, okm_info = info, okm_len = len\<rparr>)
    \<and> (len \<le> 255 * output_len alg \<longrightarrow> okm_fill \<lparr>okm_prk = prk, okm_info = info, okm_len = len\<rparr> n
        = Some (if n = len then Some (hkdf_spec alg (hmac_spec alg salt secret) (concat info) len) else None))"
proof -
  obtain st_ok where md: "merkle_damgard alg st_ok" using assms(1) by (rule algorithm_contract)
  obtain s where s: "hmac_key_new alg salt = Some s" "merkle_damgard.key_rep alg s salt" using merkle_damgard.hmac_key_new_ok [OF md assms(2)] by blast
  obtain prk where prk: "hkdf_extract s secret = Some prk" "merkle_damgard.key_rep alg prk (hmac_spec alg salt secret)"
    using merkle_damgard.hkdf_extract_ok [OF md s(2) assms(3)] by blast
  have "prk_expand prk info len = (if 255 * output_len alg < len then None else Some \<lparr>okm_prk = prk, okm_info = info, okm_len = len\<rparr>)"
    by (simp add: prk_expand_def merkle_damgard.key_rep_algorithm [OF md prk(2)])
  moreover have "okm_fill \<lparr>okm_prk = prk, okm_info = info, okm_len = len\<rparr> n
      = Some (if n = len then Some (hkdf_spec alg (hmac_spec alg salt secret) (concat info) len) else None)" if "len \<le> 255 * output_len alg"
    using merkle_damgard.fill_okm_ok [OF md prk(2) that assms(4)] by (simp add: okm_fill_def fill_okm_def)
  ultimately show ?thesis using s(1) prk(1) by blast
qed

theorem ring_hkdf_rfc_witness:
  "\<exists>s prk. hmac_key_new SHA256 [] = Some s \<and> hkdf_extract s [1, 2] = Some prk
    \<and> okm_fill \<lparr>okm_prk = prk, okm_info = [[3], [4]], okm_len = 8160\<rparr> 8160 = Some (Some (hkdf_spec SHA256 (hmac_spec SHA256 [] [1, 2]) [3, 4] 8160))"
proof -
  have "(8160 :: nat) \<le> 255 * output_len SHA256" by (simp add: SHA256_def)
  then show ?thesis using ring_hkdf_rfc [OF sha256_listed, of "[]" "[1, 2]" "[[3], [4]]" 8160 8160] by auto
qed

text \<open>Password-based derivation is that of RFC 2898: for every non-zero iteration count the derived key is the specified
  one, and a key longer than the standard allows panics, as documented; verification accepts exactly a non-empty key equal to
  the derived one.\<close>

theorem ring_pbkdf2_rfc:
  assumes "alg \<in> set digest_algorithms" and "8 * length secret < 2 ^ 64" and "0 < iterations" and "length salt < 2 ^ 59"
  shows "pbkdf2_derive alg iterations salt secret len
      = (if len \<le> (2 ^ 32 - 1) * output_len alg then Some (pbkdf2_spec alg secret salt (unat iterations) len) else None)
    \<and> (length previous \<le> (2 ^ 32 - 1) * output_len alg \<longrightarrow> pbkdf2_verify alg iterations salt secret previous
      = Some (if previous \<noteq> [] \<and> pbkdf2_derive alg iterations salt secret (length previous) = Some previous then Some () else None))"
proof -
  obtain st_ok where md: "merkle_damgard alg st_ok" using assms(1) by (rule algorithm_contract)
  have c: "0 < unat iterations" using assms(3) by (simp add: word_less_nat_alt)
  have derive: "pbkdf2_derive alg iterations salt secret len
      = (if len \<le> (2 ^ 32 - 1) * output_len alg then Some (pbkdf2_spec alg secret salt (unat iterations) len) else None)" for len
    by (rule merkle_damgard.pbkdf2_eq [OF md assms(2) c assms(4)])
  moreover have "pbkdf2_verify alg iterations salt secret previous
      = Some (if previous \<noteq> [] \<and> pbkdf2_derive alg iterations salt secret (length previous) = Some previous then Some () else None)"
    if "length previous \<le> (2 ^ 32 - 1) * output_len alg"
    unfolding merkle_damgard.pbkdf2_verify_eq [OF md assms(2) c assms(4) that] derive using that by auto
  ultimately show ?thesis by blast
qed

theorem ring_pbkdf2_rfc_witness:
  "pbkdf2_derive SHA256 2 [1] [2] 40 = Some (pbkdf2_spec SHA256 [2] [1] 2 40)"
proof -
  have "(40 :: nat) \<le> (2 ^ 32 - 1) * output_len SHA256" by (simp add: SHA256_def)
  then show ?thesis using ring_pbkdf2_rfc [OF sha256_listed, of "[2]" 2 "[1]" 40 "[]"] by simp
qed

end
