(* ===== verification/Tls_Keys_Thms.thy ===== *)
theory Tls_Keys_Thms
  imports Tls_Keys_Correct Ring_Thms
begin

text \<open>
  Both ends of a handshake derive the same keys; key updates; exported and extracted secrets. \<open>client_keys\<close> and \<open>server_keys\<close> are the
  calls on the key schedule that the handshakes of \<^verbatim>\<open>client/tls13.rs\<close> and \<^verbatim>\<open>server/tls13.rs\<close> make, in their order.
\<close>

section \<open>The two handshakes\<close>

text \<open>The hashes are those of the transcript up to the client hello, the server hello, the server's finished message (before and
  after it) and before the client's; \<open>psk\<close> is the resumption secret with the suite of the session, \<open>early\<close> tells whether early data
  is sent, and the server's decision is that of the code, with the size of the early data it skips.\<close>

record transcript_hashes =
  h_client_hello :: "u8 list"
  h_server_hello :: "u8 list"
  h_before_server_finished :: "u8 list"
  h_server_finished :: "u8 list"
  h_before_client_finished :: "u8 list"

datatype EarlyDataDecision = EDD_Disabled | EDD_RequestedButRejected nat | EDD_Accepted

text \<open>What a side holds in each phase: while early data flows, from the server hello on, while the client's last flight is under way, and
  with the keys for application data; the two finished tags and the schedule at the end.\<close>

record key_phases =
  ph_early :: CommonState
  ph_hello :: CommonState
  ph_finished :: CommonState
  ph_traffic :: CommonState
  ph_server_tag :: "u8 list"
  ph_client_tag :: "u8 list"
  ph_schedule :: KeyScheduleTraffic

definition client_keys ::
    "Tls13CipherSuite \<Rightarrow> (Tls13CipherSuite \<times> u8 list) option \<Rightarrow> bool \<Rightarrow> u8 list \<Rightarrow> transcript_hashes \<Rightarrow> KeyLog \<Rightarrow> u8 list \<Rightarrow> CommonState
     \<Rightarrow> key_phases may_panic" where
  "client_keys suite psk early shared h log rnd cs =
     do { (ks, log, cs0) \<leftarrow>
            (case psk of
               None \<Rightarrow> do { ks \<leftarrow> ks_new_with_empty_secret suite; Some (ks, log, cs) }
             | Some (resuming_suite, secret) \<Rightarrow>
                 do { ks \<leftarrow> ks_new resuming_suite secret;
                      (cs, log) \<leftarrow> (if early then client_early_traffic_secret ks (h_client_hello h) log rnd cs else Some (cs, log));
                      Some (ks, log, cs) });
          ks \<leftarrow> into_handshake_start ks shared;
          (kh, log, cs1) \<leftarrow> derive_client_handshake_secrets ks early (h_server_hello h) suite log rnd cs0;
          server_tag \<leftarrow> sign_server_finish kh (h_before_server_finished h);
          cs2 \<leftarrow> (if early then set_handshake_encrypter kh cs1 else Some cs1);
          (kt, tag, log) \<leftarrow> into_pre_finished_client_traffic kh (h_server_finished h) (h_before_client_finished h) log rnd;
          (kt, cs3) \<leftarrow> into_traffic kt cs2;
          Some \<lparr>ph_early = cs0, ph_hello = cs1, ph_finished = cs2, ph_traffic = cs3, ph_server_tag = server_tag, ph_client_tag = tag, ph_schedule = kt\<rparr> }"

definition server_keys ::
    "Tls13CipherSuite \<Rightarrow> u8 list option \<Rightarrow> EarlyDataDecision \<Rightarrow> u8 list \<Rightarrow> transcript_hashes \<Rightarrow> KeyLog \<Rightarrow> u8 list \<Rightarrow> CommonState
     \<Rightarrow> key_phases may_panic" where
  "server_keys suite psk doing_early_data shared h log rnd cs =
     do { (ks, log, cs0) \<leftarrow>
            (case psk of
               None \<Rightarrow> do { ks \<leftarrow> ks_new_with_empty_secret suite; Some (ks, log, cs) }
             | Some secret \<Rightarrow>
                 do { ks \<leftarrow> ks_new suite secret;
                      (cs, log) \<leftarrow> client_early_traffic_secret ks (h_client_hello h) log rnd cs;
                      Some (ks, log, cs) });
          ks \<leftarrow> into_handshake_start ks shared;
          (kh, log, cs1) \<leftarrow> derive_server_handshake_secrets ks (h_server_hello h) log rnd cs0;
          cs \<leftarrow> (case doing_early_data of
                   EDD_Disabled \<Rightarrow> set_handshake_decrypter kh None cs1
                 | EDD_RequestedButRejected max_size \<Rightarrow> set_handshake_decrypter kh (Some max_size) cs1
                 | EDD_Accepted \<Rightarrow> Some cs1);
          server_tag \<leftarrow> sign_server_finish kh (h_before_server_finished h);
          (kp, log, cs) \<leftarrow> into_traffic_with_client_finished_pending kh (h_server_finished h) log rnd cs;
          cs2 \<leftarrow> (if doing_early_data = EDD_Accepted then kp_update_decrypter kp cs else Some cs);
          (kt, tag, cs3) \<leftarrow> sign_client_finish kp (h_before_client_finished h) cs2;
          Some \<lparr>ph_early = cs0, ph_hello = cs1, ph_finished = cs2, ph_traffic = cs3, ph_server_tag = server_tag, ph_client_tag = tag, ph_schedule = kt\<rparr> }"

text \<open>The secrets of RFC 8446, section 7.1: of the stages, and the traffic secrets derived from them.\<close>

definition handshake_secret :: "DigestAlgorithm \<Rightarrow> u8 list option \<Rightarrow> u8 list \<Rightarrow> u8 list" where
  "handshake_secret alg psk shared =
     next_secret alg (early_secret alg (case psk of Some secret \<Rightarrow> secret | None \<Rightarrow> replicate (output_len alg) 0)) shared"

definition master_secret :: "DigestAlgorithm \<Rightarrow> u8 list option \<Rightarrow> u8 list \<Rightarrow> u8 list" where
  "master_secret alg psk shared = next_secret alg (handshake_secret alg psk shared) (replicate (output_len alg) 0)"

definition early_traffic :: "DigestAlgorithm \<Rightarrow> u8 list \<Rightarrow> transcript_hashes \<Rightarrow> u8 list" where
  "early_traffic alg psk h = derive_secret alg (early_secret alg psk) ClientEarlyTrafficSecret (h_client_hello h)"

definition hs_traffic :: "DigestAlgorithm \<Rightarrow> u8 list option \<Rightarrow> u8 list \<Rightarrow> transcript_hashes \<Rightarrow> SecretKind \<Rightarrow> u8 list" where
  "hs_traffic alg psk shared h kind = derive_secret alg (handshake_secret alg psk shared) kind (h_server_hello h)"

definition ap_traffic :: "DigestAlgorithm \<Rightarrow> u8 list option \<Rightarrow> u8 list \<Rightarrow> transcript_hashes \<Rightarrow> SecretKind \<Rightarrow> u8 list" where
  "ap_traffic alg psk shared h kind = derive_secret alg (master_secret alg psk shared) kind (h_server_finished h)"

definition hashes_ok :: "transcript_hashes \<Rightarrow> bool" where
  "hashes_ok h \<longleftrightarrow> list_all (\<lambda>x. length x < 2 ^ 50)
     [h_client_hello h, h_server_hello h, h_before_server_finished h, h_server_finished h, h_before_client_finished h]"

text \<open>A side protects what it sends with the cipher of a secret, or opens with it what it receives, from sequence number zero.\<close>

definition seals_with :: "Tls13CipherSuite \<Rightarrow> u8 list \<Rightarrow> CommonState \<Rightarrow> bool" where
  "seals_with suite s cs \<longleftrightarrow> message_encrypter (cs_record_layer cs) = enc_of suite s \<and> write_seq (cs_record_layer cs) = 0 \<and> encrypt_state (cs_record_layer cs) = DS_Active"

definition opens_with :: "Tls13CipherSuite \<Rightarrow> u8 list \<Rightarrow> CommonState \<Rightarrow> bool" where
  "opens_with suite s cs \<longleftrightarrow> message_decrypter (cs_record_layer cs) = dec_of suite s \<and> read_seq (cs_record_layer cs) = 0 \<and> decrypt_state (cs_record_layer cs) = DS_Active"

lemma with_ciphers:
  "seals_with suite s (with_encrypter (enc_of suite s) cs)" "opens_with suite s (with_decrypter (dec_of suite s) cs)"
  "seals_with suite s (with_decrypter dec cs) = seals_with suite s cs" "opens_with suite s (with_encrypter enc cs) = opens_with suite s cs"
  by (simp_all add: seals_with_def opens_with_def with_encrypter_def with_decrypter_def set_message_encrypter_def set_message_decrypter_def start_encrypting_def
      start_decrypting_def prepare_message_encrypter_def prepare_message_decrypter_def)

context tls13_suite
begin

lemma early_ok:
  assumes "ks_is ks s" and "ks_suite ks = suite" and "length hash < 2 ^ 50"
  defines "e \<equiv> derive_secret H s ClientEarlyTrafficSecret hash"
  shows "\<exists>log'. client_early_traffic_secret ks hash log rnd cs
    = Some (case cs_side cs of Client \<Rightarrow> with_encrypter (enc_of suite e) cs | Server \<Rightarrow> with_decrypter (dec_of suite e) cs, log')"
proof -
  have "log_label ClientEarlyTrafficSecret = Some ''CLIENT_EARLY_TRAFFIC_SECRET''" by simp
  from derive_logged_ok [OF assms(1,3) this, of log rnd] show ?thesis unfolding e_def
    using set_encrypter_ok [OF _ assms(2)] set_decrypter_ok [OF _ assms(2)] by (cases "cs_side cs") (auto simp: client_early_traffic_secret_def)
qed

end

lemma early_ok_resuming:
  assumes "tls13_suite suite st_ok" and "tls13_suite suite' st_ok'" and "hkdf_algorithm suite' = hkdf_algorithm suite"
    and "tls13_suite.ks_is suite ks s" and "ks_suite ks = suite'" and "length hash < 2 ^ 50"
  defines "e \<equiv> derive_secret (hkdf_algorithm suite) s ClientEarlyTrafficSecret hash"
  shows "\<exists>log'. client_early_traffic_secret ks hash log rnd cs
    = Some (case cs_side cs of Client \<Rightarrow> with_encrypter (enc_of suite' e) cs | Server \<Rightarrow> with_decrypter (dec_of suite' e) cs, log')"
proof -
  have "tls13_suite.ks_is suite' ks s"
    using assms(3,4) by (simp add: tls13_suite.ks_is_def [OF assms(1)] tls13_suite.ks_is_def [OF assms(2)]
        tls13_suite.key_is_def [OF assms(1)] tls13_suite.key_is_def [OF assms(2)])
  then show ?thesis using tls13_suite.early_ok [OF assms(2) _ assms(5,6)] unfolding e_def assms(3) [symmetric] by blast
qed

context tls13_suite
begin

lemma client_handshake_ok:
  assumes "ks_is ks hs" and "length hash < 2 ^ 50"
  defines "c \<equiv> derive_secret H hs ClientHandshakeTrafficSecret hash" and "s \<equiv> derive_secret H hs ServerHandshakeTrafficSecret hash"
  shows "\<exists>kh log'. derive_client_handshake_secrets ks early hash suite log rnd cs
      = Some (kh, log', if early then with_decrypter (dec_of suite s) cs else with_encrypter (enc_of suite c) (with_decrypter (dec_of suite s) cs))
    \<and> kh_is kh hs c s"
proof -
  have ks: "ks_is (ks\<lparr>ks_suite := suite\<rparr>) hs" "ks_suite (ks\<lparr>ks_suite := suite\<rparr>) = suite" using assms(1) by (simp_all add: ks_is_def)
  show ?thesis using into_handshake_ok [OF ks assms(2), of log rnd] unfolding c_def s_def
    by (auto simp: derive_client_handshake_secrets_def kh_is_def set_encrypter_ok set_decrypter_ok)
qed

lemma server_handshake_ok:
  assumes "ks_is ks hs" and "ks_suite ks = suite" and "length hash < 2 ^ 50"
  defines "c \<equiv> derive_secret H hs ClientHandshakeTrafficSecret hash" and "s \<equiv> derive_secret H hs ServerHandshakeTrafficSecret hash"
  shows "\<exists>kh log'. derive_server_handshake_secrets ks hash log rnd cs = Some (kh, log', with_encrypter (enc_of suite s) cs) \<and> kh_is kh hs c s"
  using into_handshake_ok [OF assms(1-3), of log rnd] unfolding c_def s_def by (auto simp: derive_server_handshake_secrets_def kh_is_def set_encrypter_ok)

lemma handshake_stage_ok:
  assumes "kh_is kh hs c s"
  shows "length hash < 2 ^ 60 \<Longrightarrow> sign_server_finish kh hash = Some (finished_mac H s hash)"
    and "set_handshake_encrypter kh cs = Some (with_encrypter (enc_of suite c) cs)"
    and "\<exists>cs'. set_handshake_decrypter kh skip cs = Some cs' \<and> opens_with suite c cs' \<and> (\<forall>s. seals_with suite s cs' = seals_with suite s cs)"
  using assms traffic_key_ok [of "kh_client_handshake_traffic_secret kh" c]
  by (auto simp: kh_is_def ks_is_def sign_server_finish_def sign_ok set_handshake_encrypter_def set_handshake_decrypter_def set_encrypter_ok set_decrypter_ok
      derive_decrypter_def with_ciphers opens_with_def seals_with_def dec_of_def with_decrypter_def set_message_decrypter_def
      set_message_decrypter_with_trial_decryption_def start_decrypting_def prepare_message_decrypter_def split: option.split)

lemma pre_finished_ok:
  assumes "kh_is kh hs c' s'" and "length hash < 2 ^ 50" and "length hash' < 2 ^ 60"
  defines "m \<equiv> next_secret H hs (replicate (output_len H) 0)"
  shows "\<exists>kt log'. into_pre_finished_client_traffic kh hash hash' log rnd = Some (kt, finished_mac H c' hash', log')
    \<and> kt_is kt m (derive_secret H m ClientApplicationTrafficSecret hash) (derive_secret H m ServerApplicationTrafficSecret hash)
        (derive_secret H m ExporterMasterSecret hash)"
  using kt_new_ok [of "kh_ks kh" hs hash log rnd] assms(1,2) sign_ok [OF _ _ assms(3)]
  unfolding m_def by (fastforce simp: into_pre_finished_client_traffic_def kh_is_def kt_is_def)

lemma into_traffic_ok:
  assumes "kt_is kt m c s e"
  shows "into_traffic kt cs = Some (kt, with_encrypter (enc_of suite c) (with_decrypter (dec_of suite s) cs))"
  using assms set_encrypter_ok [of "kt_current_client_traffic_secret kt" c "kt_ks kt"] set_decrypter_ok [of "kt_current_server_traffic_secret kt" s "kt_ks kt"]
  by (simp add: into_traffic_def kt_is_def)

lemma server_traffic_ok:
  assumes "kh_is kh hs c' s'" and "length hash < 2 ^ 50"
  defines "m \<equiv> next_secret H hs (replicate (output_len H) 0)"
  defines "c \<equiv> derive_secret H m ClientApplicationTrafficSecret hash" and "s \<equiv> derive_secret H m ServerApplicationTrafficSecret hash"
  shows "\<exists>kt log'. into_traffic_with_client_finished_pending kh hash log rnd cs
      = Some (\<lparr>kp_handshake_client_traffic_secret = kh_client_handshake_traffic_secret kh, kp_traffic = kt\<rparr>, log', with_encrypter (enc_of suite s) cs)
    \<and> kt_is kt m c s (derive_secret H m ExporterMasterSecret hash)"
  using kt_new_ok [of "kh_ks kh" hs hash log rnd] assms(1,2) unfolding m_def c_def s_def
  by (fastforce simp: into_traffic_with_client_finished_pending_def kh_is_def kt_is_def set_encrypter_ok)

lemma pending_ok:
  assumes "kh_is kh hs c' s'" and "kt_is kt m c s e"
  defines "kp \<equiv> \<lparr>kp_handshake_client_traffic_secret = kh_client_handshake_traffic_secret kh, kp_traffic = kt\<rparr>"
  shows "kp_update_decrypter kp cs = Some (with_decrypter (dec_of suite c') cs)"
    and "length hash < 2 ^ 60 \<Longrightarrow> sign_client_finish kp hash cs = Some (kt, finished_mac H c' hash, with_decrypter (dec_of suite c) cs)"
  using assms(1,2) sign_ok [of "kh_client_handshake_traffic_secret kh" c' "kt_ks kt" hash] set_decrypter_ok [of "kt_current_client_traffic_secret kt" c "kt_ks kt"]
    set_decrypter_ok [of "kh_client_handshake_traffic_secret kh" c' "kt_ks kt"]
  unfolding kp_def by (simp_all add: sign_client_finish_def kp_update_decrypter_def kh_is_def kt_is_def)

text \<open>Both sides, from the same inputs.\<close>

definition agreed :: "u8 list option \<Rightarrow> u8 list \<Rightarrow> transcript_hashes \<Rightarrow> key_phases \<Rightarrow> bool" where
  "agreed psk shared h P \<longleftrightarrow>
     (let hs = hs_traffic H psk shared h; ap = ap_traffic H psk shared h in
      kt_is (ph_schedule P) (master_secret H psk shared) (ap ClientApplicationTrafficSecret) (ap ServerApplicationTrafficSecret) (ap ExporterMasterSecret)
      \<and> ph_server_tag P = finished_mac H (hs ServerHandshakeTrafficSecret) (h_before_server_finished h)
      \<and> ph_client_tag P = finished_mac H (hs ClientHandshakeTrafficSecret) (h_before_client_finished h))"

lemma start_ok:
  assumes "hkdf_algorithm suite' = H" and "length shared < 2 ^ 60" and "case psk of Some secret \<Rightarrow> length secret < 2 ^ 60 | None \<Rightarrow> True"
  shows "\<exists>ks ks'. (case psk of Some secret \<Rightarrow> ks_new suite' secret | None \<Rightarrow> ks_new_with_empty_secret suite') = Some ks \<and> ks_suite ks = suite'
    \<and> ks_is ks (early_secret H (case psk of Some secret \<Rightarrow> secret | None \<Rightarrow> replicate (output_len H) 0))
    \<and> into_handshake_start ks shared = Some ks' \<and> ks_is ks' (handshake_secret H psk shared) \<and> ks_suite ks' = suite'"
proof (cases psk)
  case None
  then show ?thesis using ks_new_empty_ok [OF assms(1)] input_secret_ok [OF _ assms(2)] by (fastforce simp: into_handshake_start_def handshake_secret_def)
next
  case (Some secret)
  then have "length secret < 2 ^ 60" using assms(3) by simp
  then show ?thesis using ks_new_ok [OF assms(1), of secret] input_secret_ok [OF _ assms(2)] Some by (fastforce simp: into_handshake_start_def handshake_secret_def)
qed

text \<open>What the client holds, phase by phase.\<close>

definition client_holds :: "(Tls13CipherSuite \<times> u8 list) option \<Rightarrow> bool \<Rightarrow> u8 list \<Rightarrow> transcript_hashes \<Rightarrow> key_phases \<Rightarrow> bool" where
  "client_holds psk early shared h P \<longleftrightarrow>
     (let hs = hs_traffic H (map_option snd psk) shared h; ap = ap_traffic H (map_option snd psk) shared h in
      (\<forall>suite' secret. early \<and> psk = Some (suite', secret) \<longrightarrow> seals_with suite' (early_traffic H secret h) (ph_early P))
      \<and> opens_with suite (hs ServerHandshakeTrafficSecret) (ph_hello P)
      \<and> (\<not> early \<longrightarrow> seals_with suite (hs ClientHandshakeTrafficSecret) (ph_hello P))
      \<and> opens_with suite (hs ServerHandshakeTrafficSecret) (ph_finished P) \<and> seals_with suite (hs ClientHandshakeTrafficSecret) (ph_finished P)
      \<and> opens_with suite (ap ServerApplicationTrafficSecret) (ph_traffic P) \<and> seals_with suite (ap ClientApplicationTrafficSecret) (ph_traffic P))"

lemma client_keys_ok:
  assumes "hashes_ok h" and "length shared < 2 ^ 60" and "case psk of Some (suite', secret) \<Rightarrow> hkdf_algorithm suite' = H \<and> length secret < 2 ^ 60 | None \<Rightarrow> True"
    and early: "\<And>ks suite' secret. early \<Longrightarrow> psk = Some (suite', secret) \<Longrightarrow> ks_is ks (early_secret H secret) \<Longrightarrow> ks_suite ks = suite' \<Longrightarrow>
      \<exists>log'. client_early_traffic_secret ks (h_client_hello h) log rnd cs = Some (with_encrypter (enc_of suite' (early_traffic H secret h)) cs, log')"
  shows "\<exists>P. client_keys suite psk early shared h log rnd cs = Some P \<and> agreed (map_option snd psk) shared h P \<and> client_holds psk early shared h P"
proof -
  note h = assms(1) [unfolded hashes_ok_def list.pred_inject]
  let ?psk = "map_option snd psk"
  let ?hs = "handshake_secret H ?psk shared"
  let ?suite = "case psk of Some (suite', _) \<Rightarrow> suite' | None \<Rightarrow> suite"
  obtain ks0 ks1 where st: "(case ?psk of Some secret \<Rightarrow> ks_new ?suite secret | None \<Rightarrow> ks_new_with_empty_secret ?suite) = Some ks0"
      "ks_suite ks0 = ?suite" "ks_is ks0 (early_secret H (case ?psk of Some secret \<Rightarrow> secret | None \<Rightarrow> replicate (output_len H) 0))"
      "into_handshake_start ks0 shared = Some ks1" "ks_is ks1 ?hs"
    using start_ok [of ?suite shared ?psk] assms(2,3) by (auto split: option.splits)
  obtain log0 cs0 where e: "(case psk of None \<Rightarrow> do { ks \<leftarrow> ks_new_with_empty_secret suite; Some (ks, log, cs) }
        | Some (resuming_suite, secret) \<Rightarrow> do { ks \<leftarrow> ks_new resuming_suite secret;
            (cs, log) \<leftarrow> (if early then client_early_traffic_secret ks (h_client_hello h) log rnd cs else Some (cs, log)); Some (ks, log, cs) }) = Some (ks0, log0, cs0)"
      "\<And>suite' secret. early \<and> psk = Some (suite', secret) \<Longrightarrow> seals_with suite' (early_traffic H secret h) cs0"
    using st(1-3) early [of _ _ ks0] by (cases psk; cases early) (fastforce simp: with_ciphers)+
  obtain kh log1 cs1 where 1: "derive_client_handshake_secrets ks1 early (h_server_hello h) suite log0 rnd cs0 = Some (kh, log1, cs1)"
      "cs1 = (if early then with_decrypter (dec_of suite (hs_traffic H ?psk shared h ServerHandshakeTrafficSecret)) cs0
        else with_encrypter (enc_of suite (hs_traffic H ?psk shared h ClientHandshakeTrafficSecret))
          (with_decrypter (dec_of suite (hs_traffic H ?psk shared h ServerHandshakeTrafficSecret)) cs0))"
      "kh_is kh ?hs (hs_traffic H ?psk shared h ClientHandshakeTrafficSecret) (hs_traffic H ?psk shared h ServerHandshakeTrafficSecret)"
    using client_handshake_ok [OF st(5), of "h_server_hello h" early log0 rnd cs0] h unfolding hs_traffic_def by auto
  obtain kt log2 where 4: "into_pre_finished_client_traffic kh (h_server_finished h) (h_before_client_finished h) log1 rnd
        = Some (kt, finished_mac H (hs_traffic H ?psk shared h ClientHandshakeTrafficSecret) (h_before_client_finished h), log2)"
      "kt_is kt (master_secret H ?psk shared) (ap_traffic H ?psk shared h ClientApplicationTrafficSecret)
         (ap_traffic H ?psk shared h ServerApplicationTrafficSecret) (ap_traffic H ?psk shared h ExporterMasterSecret)"
    using pre_finished_ok [OF 1(3), of "h_server_finished h" "h_before_client_finished h" log1 rnd] h unfolding master_secret_def ap_traffic_def by auto
  note rest = handshake_stage_ok(1) [OF 1(3), of "h_before_server_finished h"] handshake_stage_ok(2) [OF 1(3)] into_traffic_ok [OF 4(2)]
  show ?thesis unfolding client_keys_def e(1) using st(4) 1(1) 4 rest h e(2)
    by (cases early) (simp_all add: 1(2) agreed_def client_holds_def Let_def with_ciphers)
qed

text \<open>What the server holds: its half of the same phases.\<close>

definition server_holds :: "u8 list option \<Rightarrow> u8 list \<Rightarrow> transcript_hashes \<Rightarrow> key_phases \<Rightarrow> bool" where
  "server_holds psk shared h P \<longleftrightarrow>
     (let hs = hs_traffic H psk shared h; ap = ap_traffic H psk shared h in
      (\<forall>secret. psk = Some secret \<longrightarrow> opens_with suite (early_traffic H secret h) (ph_early P))
      \<and> seals_with suite (hs ServerHandshakeTrafficSecret) (ph_hello P)
      \<and> opens_with suite (hs ClientHandshakeTrafficSecret) (ph_finished P) \<and> seals_with suite (ap ServerApplicationTrafficSecret) (ph_finished P)
      \<and> opens_with suite (ap ClientApplicationTrafficSecret) (ph_traffic P) \<and> seals_with suite (ap ServerApplicationTrafficSecret) (ph_traffic P))"

lemma server_keys_ok:
  assumes "hashes_ok h" and "length shared < 2 ^ 60" and "case psk of Some secret \<Rightarrow> length secret < 2 ^ 60 | None \<Rightarrow> True" and "cs_side cs = Server"
  shows "\<exists>P. server_keys suite psk doing_early_data shared h log rnd cs = Some P \<and> agreed psk shared h P \<and> server_holds psk shared h P"
proof -
  note h = assms(1) [unfolded hashes_ok_def list.pred_inject]
  let ?hs = "handshake_secret H psk shared" and ?c = "hs_traffic H psk shared h ClientHandshakeTrafficSecret"
  let ?s = "hs_traffic H psk shared h ServerHandshakeTrafficSecret" and ?a = "ap_traffic H psk shared h"
  obtain ks0 ks1 where st: "(case psk of Some secret \<Rightarrow> ks_new suite secret | None \<Rightarrow> ks_new_with_empty_secret suite) = Some ks0"
      "ks_suite ks0 = suite" "ks_is ks0 (early_secret H (case psk of Some secret \<Rightarrow> secret | None \<Rightarrow> replicate (output_len H) 0))"
      "into_handshake_start ks0 shared = Some ks1" "ks_is ks1 ?hs" "ks_suite ks1 = suite"
    using start_ok [of suite shared psk] assms(2,3) by auto
  have early: "\<exists>log'. client_early_traffic_secret ks0 (h_client_hello h) log rnd cs = Some (with_decrypter (dec_of suite (early_traffic H secret h)) cs, log')"
    if "psk = Some secret" for secret using early_ok [OF st(3,2), of "h_client_hello h" log rnd cs] h that assms(4) by (simp add: early_traffic_def)
  obtain log0 cs0 where e: "(case psk of None \<Rightarrow> do { ks \<leftarrow> ks_new_with_empty_secret suite; Some (ks, log, cs) }
        | Some secret \<Rightarrow> do { ks \<leftarrow> ks_new suite secret; (cs, log) \<leftarrow> client_early_traffic_secret ks (h_client_hello h) log rnd cs; Some (ks, log, cs) })
      = Some (ks0, log0, cs0)" "\<And>secret. psk = Some secret \<Longrightarrow> opens_with suite (early_traffic H secret h) cs0"
    using st(1) early by (cases psk) (fastforce simp: with_ciphers)+
  obtain kh log1 where 1: "derive_server_handshake_secrets ks1 (h_server_hello h) log0 rnd cs0 = Some (kh, log1, with_encrypter (enc_of suite ?s) cs0)"
      "kh_is kh ?hs ?c ?s"
    using server_handshake_ok [OF st(5,6), of "h_server_hello h" log0 rnd cs0] h unfolding hs_traffic_def by auto
  obtain cs2 where 2: "(case doing_early_data of EDD_Disabled \<Rightarrow> set_handshake_decrypter kh None (with_encrypter (enc_of suite ?s) cs0)
      | EDD_RequestedButRejected max_size \<Rightarrow> set_handshake_decrypter kh (Some max_size) (with_encrypter (enc_of suite ?s) cs0)
      | EDD_Accepted \<Rightarrow> Some (with_encrypter (enc_of suite ?s) cs0)) = Some cs2" "doing_early_data \<noteq> EDD_Accepted \<Longrightarrow> opens_with suite ?c cs2"
    using handshake_stage_ok(3) [OF 1(2), of _ "with_encrypter (enc_of suite ?s) cs0"] by (cases doing_early_data) auto
  obtain kt log2 where 4: "into_traffic_with_client_finished_pending kh (h_server_finished h) log1 rnd cs2
        = Some (\<lparr>kp_handshake_client_traffic_secret = kh_client_handshake_traffic_secret kh, kp_traffic = kt\<rparr>, log2,
            with_encrypter (enc_of suite (?a ServerApplicationTrafficSecret)) cs2)"
      "kt_is kt (master_secret H psk shared) (?a ClientApplicationTrafficSecret) (?a ServerApplicationTrafficSecret) (?a ExporterMasterSecret)"
    using server_traffic_ok [OF 1(2), of "h_server_finished h" log1 rnd cs2] h unfolding master_secret_def ap_traffic_def by auto
  note rest = handshake_stage_ok(1) [OF 1(2), of "h_before_server_finished h"] pending_ok [OF 1(2) 4(2)]
  show ?thesis unfolding server_keys_def e(1)
    using st(4) 1(1) 2 4 rest h e(2) by (cases "doing_early_data = EDD_Accepted") (auto simp: agreed_def server_holds_def Let_def with_ciphers)
qed

lemma agreed_unique:
  assumes "agreed psk shared h P" and "agreed psk shared h Q"
  shows "ph_schedule P = ph_schedule Q \<and> ph_server_tag P = ph_server_tag Q \<and> ph_client_tag P = ph_client_tag Q"
  using assms unfolding agreed_def Let_def by (auto intro: kt_unique)

lemma pair_of_short: "length s \<le> MAX_OUTPUT_LEN \<Longrightarrow> cipher_pair (enc_of suite s) (dec_of suite s) (\<lambda>_. PV_TLSv1_3)"
  using key_exists pair_of by blast

lemma derive_secret_short: "length (derive_secret H s kind hash) \<le> MAX_OUTPUT_LEN"
  using sizes(5) by (simp add: derive_secret_def expand_label_length)

lemma traffic_pairs:
  "cipher_pair (enc_of suite (early_traffic H secret h)) (dec_of suite (early_traffic H secret h)) (\<lambda>_. PV_TLSv1_3)"
  "cipher_pair (enc_of suite (hs_traffic H psk shared h kind)) (dec_of suite (hs_traffic H psk shared h kind)) (\<lambda>_. PV_TLSv1_3)"
  "cipher_pair (enc_of suite (ap_traffic H psk shared h kind)) (dec_of suite (ap_traffic H psk shared h kind)) (\<lambda>_. PV_TLSv1_3)"
  using derive_secret_short pair_of_short by (simp_all add: early_traffic_def hs_traffic_def ap_traffic_def)

end

section \<open>Exported and extracted secrets\<close>

definition exported :: "DigestAlgorithm \<Rightarrow> u8 list \<Rightarrow> u8 list \<Rightarrow> u8 list option \<Rightarrow> nat \<Rightarrow> u8 list" where
  "exported alg e label context len =
     expand_label alg (expand_label alg e label (digest_spec alg []) (output_len alg)) (ascii ''exporter'')
       (digest_spec alg (case context of Some c \<Rightarrow> c | None \<Rightarrow> [])) len"

context tls13_suite
begin

lemma digest_ok: "8 * length x < 2 ^ 64 \<Longrightarrow> digest H x = Some (digest_spec H x) \<and> length (digest_spec H x) < 2 ^ 50"
  using digest_eq [of x] digest_spec_length [of x] sizes(5) by (simp add: MAX_OUTPUT_LEN_def)

lemma expand_info_eq:
  "key_is key s \<Longrightarrow> hkdf_expand_info key len label ctx
     = (if 255 * output_len H < len then None else Some \<lparr>okm_prk = key, okm_info = hkdf_info len label ctx, okm_len = len\<rparr>)"
  by (simp add: hkdf_expand_info_def prk_expand_def key_rep_algorithm [OF key_is_rep])

lemma okm_fill_ok:
  "key_is key s \<Longrightarrow> len \<le> 255 * output_len H \<Longrightarrow> length label + length ctx < 2 ^ 58 \<Longrightarrow>
     okm_fill \<lparr>okm_prk = key, okm_info = hkdf_info len label ctx, okm_len = len\<rparr> len = Some (Some (expand_label H s label ctx len))"
  using fill_okm_ok [OF key_is_rep _ info_length] by (simp add: okm_fill_def expand_label_def hkdf_info_rfc [symmetric])

lemma export_ok:
  assumes "key_is (kt_current_exporter_secret kt) e" and "ks_suite (kt_ks kt) = suite" and "length label < 2 ^ 50"
    and "8 * length (case context of Some c \<Rightarrow> c | None \<Rightarrow> []) < 2 ^ 64"
  shows "kt_export_keying_material kt len label context = (if 255 * output_len H < len then None else Some (Inr (exported H e label context len)))"
proof -
  let ?c = "case context of Some c \<Rightarrow> c | None \<Rightarrow> []"
  have d: "digest H [] = Some (digest_spec H [])" "length (digest_spec H []) < 2 ^ 50" "digest H ?c = Some (digest_spec H ?c)" "length (digest_spec H ?c) < 2 ^ 50"
    using digest_ok [of "[]"] digest_ok [OF assms(4)] by simp_all
  obtain k where k: "hkdf_expand_prk (kt_current_exporter_secret kt) H label (digest_spec H []) = Some k"
      "key_is k (expand_label H e label (digest_spec H []) (output_len H))"
    using expand_prk_ok [OF assms(1), of label "digest_spec H []"] assms(3) d(2) by auto
  show ?thesis using k(1) d okm_fill_ok [OF k(2), of len "ascii ''exporter''" "digest_spec H ?c"] assms(2)
    by (simp add: kt_export_keying_material_def ks_export_keying_material_def expand_info_eq [OF k(2)] exported_def bytes_of_ascii)
qed

text \<open>The cipher key and vector inside extracted secrets.\<close>

lemma extract_one_ok:
  assumes "key_is key s" and "aead_key_len (aead_algorithm suite) = (if aead_name (aead_algorithm suite) = AES_128_GCM then 16 else 32)"
  shows "extract_one (aead_name (aead_algorithm suite)) key = Some (Inr (case aead_name (aead_algorithm suite) of
      AES_128_GCM \<Rightarrow> CTS_Aes128Gcm (traffic_key suite s) (take 4 (traffic_iv suite s)) (drop 4 (traffic_iv suite s))
    | AES_256_GCM \<Rightarrow> CTS_Aes256Gcm (traffic_key suite s) (take 4 (traffic_iv suite s)) (drop 4 (traffic_iv suite s))
    | CHACHA20_POLY1305 \<Rightarrow> CTS_Chacha20Poly1305 (traffic_key suite s) (traffic_iv suite s)))"
proof -
  let ?n = "aead_key_len (aead_algorithm suite)"
  have n: "?n \<le> 255 * output_len H" "12 \<le> 255 * output_len H" using key_len sizes(3) by simp_all
  have "extract_expand ?n 12 key = Some (Inr (traffic_key suite s, traffic_iv suite s))"
    using okm_fill_ok [OF assms(1) n(1), of "ascii ''key''" "[]"] okm_fill_ok [OF assms(1) n(2), of "ascii ''iv''" "[]"] n
    by (simp add: extract_expand_def expand_info_eq [OF assms(1)] traffic_key_def traffic_iv_def bytes_of_ascii)
  then show ?thesis using assms(2) by (cases "aead_name (aead_algorithm suite)") (simp_all add: extract_one_def)
qed

end

lemma suite_contract:
  assumes "\<And>key iv. length iv = 12 \<Longrightarrow> aead_key (seal key) (opn key) iv"
  shows "tls13_suite (TLS13_AES_128_GCM_SHA256_INTERNAL seal opn) is_32" and "tls13_suite (TLS13_CHACHA20_POLY1305_SHA256_INTERNAL seal opn) is_32"
    and "tls13_suite (TLS13_AES_256_GCM_SHA384 seal opn) is_64"
  using assms sha256.merkle_damgard_axioms sha384.merkle_damgard_axioms
  by (auto simp: tls13_suite_def tls13_suite_axioms_def TLS13_AES_128_GCM_SHA256_INTERNAL_def TLS13_CHACHA20_POLY1305_SHA256_INTERNAL_def
      TLS13_AES_256_GCM_SHA384_def)

text \<open>The suites, with the checksum cipher in place of the ciphers of ring.\<close>

lemma sum_aead: "length iv = 12 \<Longrightarrow> aead_key sum_seal sum_open iv"
  by unfold_locales (auto simp: sum_seal_def sum_open_def sum_tag_def Let_def split: if_splits)

interpretation aes128: tls13_suite "TLS13_AES_128_GCM_SHA256_INTERNAL (\<lambda>_. sum_seal) (\<lambda>_. sum_open)" is_32
  by (rule suite_contract) (rule sum_aead)

interpretation aes256: tls13_suite "TLS13_AES_256_GCM_SHA384 (\<lambda>_. sum_seal) (\<lambda>_. sum_open)" is_64
  by (rule suite_contract) (rule sum_aead)

interpretation chacha20: tls13_suite "TLS13_CHACHA20_POLY1305_SHA256_INTERNAL (\<lambda>_. sum_seal) (\<lambda>_. sum_open)" is_32
  by (rule suite_contract) (rule sum_aead)

section \<open>Properties\<close>

text \<open>C8: A client and a server that share the key-exchange result, the transcript and, if the session is resumed, its secret,
  hold matching ciphers in every phase, those of the secrets that RFC 8446 derives with its labels and its \<^verbatim>\<open>HkdfLabel\<close>: neither
  panics; early data is sent with the early traffic secret, and opened with it by a server of the same suite; from the server hello
  on the server seals and the client opens with the server's handshake secret; the client seals its last flight, and the server
  opens it, with the client's, whatever was decided about early data; then each direction has its application secret. Each cipher
  starts at sequence number zero and is in use, the decrypters open what the encrypters of the same secret seal, both sides compute
  the finished tags of the standard and end with the same schedule, which holds the keys of its three secrets.\<close>

theorem tls13_keys_agree:
  assumes "tls13_suite suite st_ok" and "hashes_ok h" and "length shared < 2 ^ 60" and "cs_side cs1 = Client" and "cs_side cs2 = Server"
    and "case psk of Some (suite', secret) \<Rightarrow> tls13_suite suite' st_ok' \<and> hkdf_algorithm suite' = hkdf_algorithm suite \<and> length secret < 2 ^ 60 | None \<Rightarrow> True"
  defines "alg \<equiv> hkdf_algorithm suite" and "hs \<equiv> hs_traffic (hkdf_algorithm suite) (map_option snd psk) shared h"
    and "ap \<equiv> ap_traffic (hkdf_algorithm suite) (map_option snd psk) shared h"
  shows "\<exists>C S. client_keys suite psk early shared h log rnd cs1 = Some C
    \<and> server_keys suite (map_option snd psk) doing_early_data shared h log' rnd cs2 = Some S
    \<and> (\<forall>suite' secret. psk = Some (suite', secret) \<longrightarrow>
         opens_with suite (early_traffic alg secret h) (ph_early S) \<and> (early \<longrightarrow> seals_with suite' (early_traffic alg secret h) (ph_early C))
         \<and> cipher_pair (enc_of suite (early_traffic alg secret h)) (dec_of suite (early_traffic alg secret h)) (\<lambda>_. PV_TLSv1_3))
    \<and> seals_with suite (hs ServerHandshakeTrafficSecret) (ph_hello S) \<and> opens_with suite (hs ServerHandshakeTrafficSecret) (ph_hello C)
    \<and> seals_with suite (hs ClientHandshakeTrafficSecret) (ph_finished C) \<and> opens_with suite (hs ClientHandshakeTrafficSecret) (ph_finished S)
    \<and> seals_with suite (ap ClientApplicationTrafficSecret) (ph_traffic C) \<and> opens_with suite (ap ClientApplicationTrafficSecret) (ph_traffic S)
    \<and> seals_with suite (ap ServerApplicationTrafficSecret) (ph_traffic S) \<and> opens_with suite (ap ServerApplicationTrafficSecret) (ph_traffic C)
    \<and> (\<forall>kind. cipher_pair (enc_of suite (hs kind)) (dec_of suite (hs kind)) (\<lambda>_. PV_TLSv1_3)
         \<and> cipher_pair (enc_of suite (ap kind)) (dec_of suite (ap kind)) (\<lambda>_. PV_TLSv1_3))
    \<and> ph_server_tag C = finished_mac alg (hs ServerHandshakeTrafficSecret) (h_before_server_finished h) \<and> ph_server_tag S = ph_server_tag C
    \<and> ph_client_tag C = finished_mac alg (hs ClientHandshakeTrafficSecret) (h_before_client_finished h) \<and> ph_client_tag S = ph_client_tag C
    \<and> ph_schedule S = ph_schedule C
    \<and> hmac_key_new alg (ap ClientApplicationTrafficSecret) = Some (kt_current_client_traffic_secret (ph_schedule C))
    \<and> hmac_key_new alg (ap ServerApplicationTrafficSecret) = Some (kt_current_server_traffic_secret (ph_schedule C))
    \<and> hmac_key_new alg (ap ExporterMasterSecret) = Some (kt_current_exporter_secret (ph_schedule C))"
proof -
  let ?psk = "map_option snd psk"
  have "\<exists>log'. client_early_traffic_secret ks (h_client_hello h) log rnd cs1 = Some (with_encrypter (enc_of suite' (early_traffic alg secret h)) cs1, log')"
    if "tls13_suite.ks_is suite ks (early_secret (hkdf_algorithm suite) secret)" "psk = Some (suite', secret)" "ks_suite ks = suite'" for ks suite' secret
    using early_ok_resuming [OF assms(1) _ _ that(1,3), of st_ok' "h_client_hello h" log rnd cs1] that(2) assms(2,4,6)
    by (auto simp: hashes_ok_def early_traffic_def alg_def)
  then obtain C where cl: "client_keys suite psk early shared h log rnd cs1 = Some C" "tls13_suite.agreed suite ?psk shared h C"
      "tls13_suite.client_holds suite psk early shared h C"
    using tls13_suite.client_keys_ok [OF assms(1-3), of psk early log rnd cs1] assms(6) by (cases psk) (auto simp: alg_def)
  obtain S where sv: "server_keys suite ?psk doing_early_data shared h log' rnd cs2 = Some S" "tls13_suite.agreed suite ?psk shared h S"
      "tls13_suite.server_holds suite ?psk shared h S"
    using tls13_suite.server_keys_ok [OF assms(1-3) _ assms(5), of ?psk doing_early_data log' rnd] assms(6) by (cases psk) auto
  note same = tls13_suite.agreed_unique [OF assms(1) cl(2) sv(2)]
  note ag = cl(2) [unfolded tls13_suite.agreed_def [OF assms(1)] Let_def tls13_suite.kt_is_def [OF assms(1)] tls13_suite.key_is_def [OF assms(1)]]
  note hold = cl(3) [unfolded tls13_suite.client_holds_def [OF assms(1)] Let_def] sv(3) [unfolded tls13_suite.server_holds_def [OF assms(1)] Let_def]
  show ?thesis unfolding alg_def hs_def ap_def
    by (rule exI [of _ C], rule exI [of _ S]) (use cl(1) sv(1) same ag hold tls13_suite.traffic_pairs [OF assms(1)] in simp)
qed

abbreviation example_suite :: Tls13CipherSuite where
  "example_suite \<equiv> TLS13_AES_128_GCM_SHA256_INTERNAL (\<lambda>_. sum_seal) (\<lambda>_. sum_open)"

definition example_hashes :: transcript_hashes where
  "example_hashes = \<lparr>h_client_hello = [1], h_server_hello = [2], h_before_server_finished = [3], h_server_finished = [4], h_before_client_finished = [5]\<rparr>"

theorem tls13_keys_agree_witness:
  "\<exists>C S. client_keys example_suite (Some (example_suite, [9])) True [7, 8] example_hashes \<lparr>kl_will_log = \<lambda>_. True, kl_lines = []\<rparr> [] (common_new Client) = Some C
    \<and> server_keys example_suite (Some [9]) EDD_Accepted [7, 8] example_hashes \<lparr>kl_will_log = \<lambda>_. True, kl_lines = []\<rparr> [] (common_new Server) = Some S
    \<and> opens_with example_suite (hs_traffic SHA256 (Some [9]) [7, 8] example_hashes ClientHandshakeTrafficSecret) (ph_finished S)"
proof -
  have "cs_side (common_new Client) = Client" "cs_side (common_new Server) = Server" "hashes_ok example_hashes" "length [7, 8 :: u8] < 2 ^ 60"
    by (simp_all add: common_new_def hashes_ok_def example_hashes_def)
  from tls13_keys_agree [OF aes128.tls13_suite_axioms this(3,4,1,2), where psk = "Some (example_suite, [9])" and st_ok' = is_32 and early = True
      and doing_early_data = EDD_Accepted and log = "\<lparr>kl_will_log = \<lambda>_. True, kl_lines = []\<rparr>" and log' = "\<lparr>kl_will_log = \<lambda>_. True, kl_lines = []\<rparr>" and rnd = "[]"]
  show ?thesis using aes128.tls13_suite_axioms by (simp add: TLS13_AES_128_GCM_SHA256_INTERNAL_def) blast
qed

text \<open>A connection in its traffic state: the schedule holds the keys made from the secrets \<open>c\<close> and \<open>s\<close>, and the record layer seals with the
  cipher of its own side's secret and opens with that of the peer's.\<close>

definition traffic_state :: "Tls13CipherSuite \<Rightarrow> KeyScheduleTraffic \<Rightarrow> CommonState \<Rightarrow> u8 list \<Rightarrow> u8 list \<Rightarrow> bool" where
  "traffic_state suite kt cs c s \<longleftrightarrow> ks_suite (kt_ks kt) = suite \<and> length c < 2 ^ 60 \<and> length s < 2 ^ 60
     \<and> hmac_key_new (hkdf_algorithm suite) c = Some (kt_current_client_traffic_secret kt)
     \<and> hmac_key_new (hkdf_algorithm suite) s = Some (kt_current_server_traffic_secret kt)
     \<and> (case cs_side cs of
          Client \<Rightarrow> message_encrypter (cs_record_layer cs) = enc_of suite c \<and> message_decrypter (cs_record_layer cs) = dec_of suite s
        | Server \<Rightarrow> message_encrypter (cs_record_layer cs) = enc_of suite s \<and> message_decrypter (cs_record_layer cs) = dec_of suite c)"

fun key_and_iv :: "ConnectionTrafficSecrets \<Rightarrow> u8 list \<times> u8 list" where
  "key_and_iv (CTS_Aes128Gcm key salt iv) = (key, salt @ iv)"
| "key_and_iv (CTS_Aes256Gcm key salt iv) = (key, salt @ iv)"
| "key_and_iv (CTS_Chacha20Poly1305 key iv) = (key, iv)"

text \<open>Secrets extracted for the kernel continue the connection: the key and vector for sending are exactly those of the
  encrypter in use and those for receiving of the decrypter in use, for each suite and side.\<close>

theorem tls13_extracted_secrets:
  assumes "tls13_suite suite st_ok" and "traffic_state suite kt cs c s"
    and "aead_key_len (aead_algorithm suite) = (if aead_name (aead_algorithm suite) = AES_128_GCM then 16 else 32)"
  shows "\<exists>tx rx. kt_extract_secrets kt (cs_side cs) = Some (Inr (tx, rx))
    \<and> message_encrypter (cs_record_layer cs) = tls13_encrypt (aead_seal (aead_algorithm suite) (fst (key_and_iv tx))) (snd (key_and_iv tx))
    \<and> message_decrypter (cs_record_layer cs) = tls13_decrypt (aead_open (aead_algorithm suite) (fst (key_and_iv rx))) (snd (key_and_iv rx))"
proof -
  have "tls13_suite.key_is suite (kt_current_client_traffic_secret kt) c" "tls13_suite.key_is suite (kt_current_server_traffic_secret kt) s"
    using assms(2) by (simp_all add: traffic_state_def tls13_suite.key_is_def [OF assms(1)])
  note one = this [THEN tls13_suite.extract_one_ok [OF assms(1) _ assms(3)]]
  show ?thesis using one assms(2)
    by (cases "cs_side cs"; cases "aead_name (aead_algorithm suite)") (auto simp: kt_extract_secrets_def Let_def traffic_state_def enc_of_def dec_of_def)
qed

definition example_traffic :: "HmacKey \<Rightarrow> KeyScheduleTraffic" where
  "example_traffic key = \<lparr>kt_ks = \<lparr>ks_current = key, ks_suite = example_suite\<rparr>, kt_current_client_traffic_secret = key, kt_current_server_traffic_secret = key,
     kt_current_exporter_secret = key\<rparr>"

definition example_common :: "CommonState" where
  "example_common = with_encrypter (enc_of example_suite [1]) (with_decrypter (dec_of example_suite [1]) (common_new Server))"

lemma example_traffic_state:
  "\<exists>key. hmac_key_new SHA256 [1] = Some key \<and> traffic_state example_suite (example_traffic key) example_common [1] [1]"
proof -
  obtain key where "hmac_key_new SHA256 [1] = Some key" using sha256.hmac_key_new_ok [of "[1]"] by auto
  then show ?thesis
    by (auto simp: traffic_state_def example_traffic_def example_common_def common_new_def with_encrypter_def with_decrypter_def set_message_encrypter_def
        set_message_decrypter_def start_encrypting_def start_decrypting_def prepare_message_encrypter_def prepare_message_decrypter_def
        TLS13_AES_128_GCM_SHA256_INTERNAL_def)
qed

theorem tls13_extracted_secrets_witness:
  "\<exists>key tx rx. hmac_key_new SHA256 [1] = Some key \<and> kt_extract_secrets (example_traffic key) (cs_side example_common) = Some (Inr (tx, rx))"
proof -
  obtain key where key: "hmac_key_new SHA256 [1] = Some key" "traffic_state example_suite (example_traffic key) example_common [1] [1]"
    using example_traffic_state by blast
  show ?thesis using tls13_extracted_secrets [OF aes128.tls13_suite_axioms key(2)] key(1) by (fastforce simp: TLS13_AES_128_GCM_SHA256_INTERNAL_def)
qed

text \<open>C32: The exporter gives the keying material of RFC 8446, section 7.5, whenever at most 255 times the hash length is asked
  for; for more it panics, although the code has an error for that case.\<close>

theorem tls13_exporter:
  assumes "tls13_suite suite st_ok" and "ks_suite (kt_ks kt) = suite" and "hmac_key_new (hkdf_algorithm suite) e = Some (kt_current_exporter_secret kt)"
    and "length e < 2 ^ 60" and "length label < 2 ^ 50" and "length (case context of Some x \<Rightarrow> x | None \<Rightarrow> []) < 2 ^ 60"
  shows "kt_export_keying_material kt len label context
    = (if 255 * output_len (hkdf_algorithm suite) < len then None else Some (Inr (exported (hkdf_algorithm suite) e label context len)))"
  using tls13_suite.export_ok [OF assms(1) _ assms(2,5)] assms(3,4,6) by (simp add: tls13_suite.key_is_def [OF assms(1)])

theorem tls13_exporter_witness:
  "\<exists>key. hmac_key_new SHA256 [1] = Some key \<and> kt_export_keying_material (example_traffic key) 8161 [2] None = None
     \<and> kt_export_keying_material (example_traffic key) 8160 [2] None \<noteq> None"
proof -
  obtain key where key: "hmac_key_new SHA256 [1] = Some key" using example_traffic_state by blast
  have "kt_export_keying_material (example_traffic key) len [2] None
      = (if 255 * output_len SHA256 < len then None else Some (Inr (exported SHA256 [1] [2] None len)))" for len
    using tls13_exporter [OF aes128.tls13_suite_axioms, of "example_traffic key" "[1]" "[2]" None len] key
    by (simp add: example_traffic_def TLS13_AES_128_GCM_SHA256_INTERNAL_def)
  then show ?thesis using key by (simp add: SHA256_def)
qed

definition schedule_labels :: "u8 list list" where
  "schedule_labels = map to_bytes [ResumptionPskBinderKey, ClientEarlyTrafficSecret, ClientHandshakeTrafficSecret, ServerHandshakeTrafficSecret,
       ClientApplicationTrafficSecret, ServerApplicationTrafficSecret, ExporterMasterSecret, ResumptionMasterSecret, DerivedSecret]
     @ map bytes_of [''key'', ''iv'', ''finished'', ''traffic upd'', ''resumption'', ''exporter'']"

lemma labels_distinct: "distinct schedule_labels" "list_all (\<lambda>l. length l \<le> 249) schedule_labels"
  by code_simp+

text \<open>C33: The information of an expansion determines its length, label and context, as long as they fit the bytes that count them,
  and the labels the schedule uses are different from each other: no two of its secrets are derived from the same input.\<close>

theorem tls13_domain_separation:
  assumes "len < 2 ^ 16" and "len' < 2 ^ 16" and "length label \<le> 249" and "length label' \<le> 249" and "length ctx \<le> 255" and "length ctx' \<le> 255"
  shows "(concat (hkdf_info len label ctx) = concat (hkdf_info len' label' ctx') \<longrightarrow> len = len' \<and> label = label' \<and> ctx = ctx')
    \<and> distinct schedule_labels"
proof -
  have u: "unat (word_of_nat n :: u8) = n" if "n \<le> 255" for n using that by (simp add: unat_of_nat)
  have "len = len' \<and> label = label' \<and> ctx = ctx'" if eq: "concat (hkdf_info len label ctx) = concat (hkdf_info len' label' ctx')"
  proof -
    let ?p = "bytes_of ''tls13 ''"
    have n: "to_be_bytes 2 (word_of_nat len :: u16) = to_be_bytes 2 (word_of_nat len' :: u16)"
        and l: "(word_of_nat (6 + length label) :: u8) = word_of_nat (6 + length label')"
        and r: "label @ word_of_nat (length ctx) # ctx = label' @ word_of_nat (length ctx') # ctx'"
      using eq by (auto simp: hkdf_info_def Let_def to_be_bytes_def bytes_of_def)
    have "unat (word_of_nat (6 + length label) :: u8) = unat (word_of_nat (6 + length label') :: u8)" unfolding l ..
    then have "length label = length label'" using u [of "6 + length label"] u [of "6 + length label'"] assms(3,4) by simp
    moreover have "be_nat (be_digits 2 len) = be_nat (be_digits 2 len')" using n assms(1,2) by (simp add: to_be_bytes_def unat_of_nat)
    ultimately show ?thesis using r assms(1,2) by (simp add: be_nat_digits)
  qed
  then show ?thesis using labels_distinct(1) by blast
qed

theorem tls13_domain_separation_witness:
  "concat (hkdf_info 32 (bytes_of ''key'') []) \<noteq> concat (hkdf_info 32 (bytes_of ''iv'') [])"
  using tls13_domain_separation [of 32 32 "bytes_of ''key''" "bytes_of ''iv''" "[]" "[]"] by (auto simp: bytes_of_def)

end
