(* ===== verification/Tls_Key_Update.thy ===== *)
theory Tls_Key_Update
  imports Tls_Keys_Thms
begin

text \<open>
  Key updates of a TLS 1.3 connection (\<^verbatim>\<open>ExpectTraffic::handle_key_update\<close>, \<^verbatim>\<open>CommonState\<close>): which secrets the two directions use after
  any sequence of updates and writes, and the order in which an answer to a requested update reaches the wire.
\<close>

section \<open>Senders keep the keys\<close>

text \<open>What sending must not touch.\<close>

definition keys_of :: "CommonState \<Rightarrow> MessageEncrypter \<times> MessageDecrypter \<times> Side \<times> Protocol \<times> bool" where
  "keys_of cs = (message_encrypter (cs_record_layer cs), message_decrypter (cs_record_layer cs), cs_side cs, cs_protocol cs, cs_aligned_handshake cs)"

locale key_keeper =
  fixes send :: send_fragment
  assumes send_keys: "send cs m = Some cs' \<Longrightarrow> keys_of cs' = keys_of cs \<and> cs_queued_key_update cs' = cs_queued_key_update cs"
begin

lemma fragments_keys: "send_fragments send cs ms = Some cs' \<Longrightarrow> keys_of cs' = keys_of cs \<and> cs_queued_key_update cs' = cs_queued_key_update cs"
  by (induction ms arbitrary: cs) (auto dest: send_keys split: bind_splits)

lemma queue_keys:
  "keys_of (foldl (\<lambda>cs m. queue_tls_message cs (into_unencrypted_opaque m)) cs ms) = keys_of cs
   \<and> cs_queued_key_update (foldl (\<lambda>cs m. queue_tls_message cs (into_unencrypted_opaque m)) cs ms) = cs_queued_key_update cs"
  by (induction ms arbitrary: cs) (simp_all add: keys_of_def queue_tls_message_def)

lemma msg_keys: "send_msg send cs m e = Some cs' \<Longrightarrow> keys_of cs' = keys_of cs \<and> cs_queued_key_update cs' = cs_queued_key_update cs"
  using queue_keys
  by (auto simp: send_msg_def send_msg_encrypt_def dest: fragments_keys split: if_splits MessagePayload.splits bind_splits) (simp_all add: keys_of_def)

lemma close_keys: "send_close_notify send cs = Some cs' \<Longrightarrow> keys_of cs' = keys_of cs \<and> cs_queued_key_update cs' = cs_queued_key_update cs"
  by (auto simp: send_close_notify_def send_warning_alert_no_log_def dest: msg_keys)

lemma plain_keys: "send_plain send cs data lim = Some (n, cs') \<Longrightarrow> keys_of cs' = keys_of cs \<and> cs_queued_key_update cs' = cs_queued_key_update cs"
  by (auto simp: send_plain_def send_appdata_encrypt_def Let_def dest!: fragments_keys split: if_splits bind_splits prod.splits) (auto simp: keys_of_def)

lemma write_keys: "send_some_plaintext send cs data = Some (n, cs') \<Longrightarrow> keys_of cs' = keys_of cs \<and> cs_queued_key_update cs' = None"
  by (auto simp: send_some_plaintext_def perhaps_write_key_update_def dest!: plain_keys split: option.splits) (auto simp: keys_of_def)

end

lemma encrypt_keys: "encrypt_outgoing rl m = Some (em, rl') \<Longrightarrow> rl' = rl\<lparr>write_seq := write_seq rl + 1\<rparr> \<and> message_encrypter rl m (write_seq rl) = Inr em"
  by (auto simp: encrypt_outgoing_def split: if_splits sum.splits bind_splits)

lemma single_fragment_keys: "key_keeper (send_single_fragment k)"
proof (induction k)
  case 0
  show ?case by unfold_locales simp
next
  case (Suc k)
  show ?case
    by unfold_locales
      (auto simp: queue_tls_message_def keys_of_def dest!: encrypt_keys key_keeper.close_keys [OF Suc] split: if_splits bind_splits)
qed

interpretation sfk: key_keeper "send_single_fragment k" for k
  by (rule single_fragment_keys)

section \<open>One update\<close>

text \<open>The secret of one side after \<open>n\<close> updates.\<close>

definition generation :: "DigestAlgorithm \<Rightarrow> u8 list \<Rightarrow> nat \<Rightarrow> u8 list" where
  "generation alg s n = (updated_secret alg ^^ n) s"

definition own_secret :: "Side \<Rightarrow> u8 list \<times> u8 list \<Rightarrow> u8 list" where
  "own_secret side cs = (case side of Client \<Rightarrow> fst cs | Server \<Rightarrow> snd cs)"

text \<open>The secrets after an update of one side's.\<close>

definition update_side :: "DigestAlgorithm \<Rightarrow> Side \<Rightarrow> u8 list \<times> u8 list \<Rightarrow> u8 list \<times> u8 list" where
  "update_side alg side cs = (case side of Client \<Rightarrow> (updated_secret alg (fst cs), snd cs) | Server \<Rightarrow> (fst cs, updated_secret alg (snd cs)))"

lemma side_peer_neq [simp]: "side_peer a \<noteq> a" "a \<noteq> side_peer a"
  by (cases a; simp add: side_peer_def)+

lemma own_secret_update [simp]:
  "own_secret side (update_side alg side cs) = updated_secret alg (own_secret side cs)"
  "side \<noteq> side' \<Longrightarrow> own_secret side (update_side alg side' cs) = own_secret side cs"
  by (cases side; cases side'; simp add: own_secret_def update_side_def)+

text \<open>The traffic state in terms of the two sides.\<close>

lemma traffic_state_alt:
  "traffic_state suite kt cs c s \<longleftrightarrow> ks_suite (kt_ks kt) = suite
     \<and> (length c < 2 ^ 60 \<and> hmac_key_new (hkdf_algorithm suite) c = Some (kt_current_client_traffic_secret kt))
     \<and> (length s < 2 ^ 60 \<and> hmac_key_new (hkdf_algorithm suite) s = Some (kt_current_server_traffic_secret kt))
     \<and> message_encrypter (cs_record_layer cs) = enc_of suite (own_secret (cs_side cs) (c, s))
     \<and> message_decrypter (cs_record_layer cs) = dec_of suite (own_secret (side_peer (cs_side cs)) (c, s))"
  by (cases "cs_side cs") (auto simp: traffic_state_def own_secret_def side_peer_def)

text \<open>Whether an update is answered with one of our own: an answer that waits to be written serves for several requests.\<close>

definition answers :: "CommonState \<Rightarrow> KeyUpdateRequest \<Rightarrow> bool" where
  "answers com req \<longleftrightarrow> req = KU_UpdateRequested \<and> cs_queued_key_update com = None"

lemma traffic_state_keys: "keys_of cs' = keys_of cs \<Longrightarrow> traffic_state suite kt cs' c s = traffic_state suite kt cs c s"
  by (simp add: traffic_state_alt keys_of_def)

lemmas record_layer_sets = with_encrypter_def with_decrypter_def set_message_encrypter_def set_message_decrypter_def start_encrypting_def start_decrypting_def
  prepare_message_encrypter_def prepare_message_decrypter_def

context tls13_suite
begin

lemma updated_length: "length (updated_secret H s) < 2 ^ 60"
  using sizes(5) by (simp add: updated_secret_def expand_label_length MAX_OUTPUT_LEN_def)

definition kt_holds :: "KeyScheduleTraffic \<Rightarrow> u8 list \<times> u8 list \<Rightarrow> bool" where
  "kt_holds kt cs \<longleftrightarrow> ks_suite (kt_ks kt) = suite \<and> (length (fst cs) < 2 ^ 60 \<and> hmac_key_new H (fst cs) = Some (kt_current_client_traffic_secret kt))
     \<and> (length (snd cs) < 2 ^ 60 \<and> hmac_key_new H (snd cs) = Some (kt_current_server_traffic_secret kt))"

lemma traffic_state_holds:
  "traffic_state suite kt cs c s \<longleftrightarrow> kt_holds kt (c, s) \<and> message_encrypter (cs_record_layer cs) = enc_of suite (own_secret (cs_side cs) (c, s))
     \<and> message_decrypter (cs_record_layer cs) = dec_of suite (own_secret (side_peer (cs_side cs)) (c, s))"
  by (simp add: traffic_state_alt kt_holds_def)

lemma next_application_ok:
  assumes "kt_holds kt cs"
  shows "\<exists>key kt'. next_application_traffic_secret kt side = Some (key, kt') \<and> key_is key (updated_secret H (own_secret side cs))
    \<and> kt_holds kt' (update_side H side cs)"
proof -
  have k: "key_is (kt_current_client_traffic_secret kt) (fst cs)" "key_is (kt_current_server_traffic_secret kt) (snd cs)" "ks_alg (kt_ks kt) = H"
    using assms by (simp_all add: kt_holds_def key_is_def)
  show ?thesis using assms derive_next_ok [OF k(1,3)] derive_next_ok [OF k(2,3)] updated_length
    by (cases side) (auto simp: next_application_traffic_secret_def own_secret_def update_side_def kt_holds_def key_is_def)
qed

lemma update_decrypter_ok:
  assumes "kt_holds kt cs"
  shows "\<exists>kt'. kt_update_decrypter kt com = Some (kt', with_decrypter (dec_of suite (updated_secret H (own_secret (side_peer (cs_side com)) cs))) com)
    \<and> kt_holds kt' (update_side H (side_peer (cs_side com)) cs)"
  using next_application_ok [OF assms, of "side_peer (cs_side com)"] set_decrypter_ok by (fastforce simp: kt_update_decrypter_def kt_holds_def)

lemma update_encrypter_ok:
  assumes "kt_holds kt cs" and "enqueue_key_update_notification com = Some com'" and "cs_side com' = cs_side com"
  shows "\<exists>kt'. update_encrypter_and_notify kt com = Some (kt', with_encrypter (enc_of suite (updated_secret H (own_secret (cs_side com) cs))) com')
    \<and> kt_holds kt' (update_side H (cs_side com) cs)"
  using next_application_ok [OF assms(1), of "cs_side com"] set_encrypter_ok assms(2) by (fastforce simp: update_encrypter_and_notify_def kt_holds_def)

lemma handle_ok:
  assumes "kt_holds kt cs" and "cs_protocol com \<noteq> Quic" and "cs_aligned_handshake com" and "req \<in> {KU_UpdateNotRequested, KU_UpdateRequested}"
    and "if answers com req then enqueue_key_update_notification com = Some com' else com' = com" and "cs_side com' = cs_side com"
  shows "\<exists>kt'. handle_key_update send kt com req = Some (Inr kt',
      with_decrypter (dec_of suite (updated_secret H (own_secret (side_peer (cs_side com)) cs)))
        (if answers com req then with_encrypter (enc_of suite (updated_secret H (own_secret (cs_side com) cs))) com' else com))
    \<and> kt_holds kt' (update_side H (side_peer (cs_side com)) (if answers com req then update_side H (cs_side com) cs else cs))"
proof (cases "answers com req")
  case True
  obtain kt1 where 1: "update_encrypter_and_notify kt com = Some (kt1, with_encrypter (enc_of suite (updated_secret H (own_secret (cs_side com) cs))) com')"
      "kt_holds kt1 (update_side H (cs_side com) cs)"
    using update_encrypter_ok [OF assms(1) _ assms(6)] assms(5) True by auto
  have "cs_side (with_encrypter e com') = cs_side com" for e using assms(6) by (simp add: with_encrypter_def)
  then show ?thesis
    using update_decrypter_ok [OF 1(2), of "with_encrypter (enc_of suite (updated_secret H (own_secret (cs_side com) cs))) com'"] 1(1) assms(2-4) True
    by (auto simp: handle_key_update_def check_aligned_handshake_def should_update_key_def answers_def)
next
  case False
  then show ?thesis using update_decrypter_ok [OF assms(1), of com] assms(2-5)
    by (auto simp: handle_key_update_def check_aligned_handshake_def should_update_key_def answers_def)
qed

end

lemma enqueue_keys:
  "enqueue_key_update_notification cs = Some cs' \<Longrightarrow> keys_of cs' = keys_of cs \<and> cs_queued_key_update cs' \<noteq> None"
  by (auto simp: enqueue_key_update_notification_def keys_of_def dest!: encrypt_keys split: bind_splits)

lemma handle_inv:
  assumes "handle_key_update send kt cs req = Some (Inr kt', cs')"
  shows "cs_protocol cs \<noteq> Quic \<and> cs_aligned_handshake cs \<and> req \<in> {KU_UpdateNotRequested, KU_UpdateRequested}
    \<and> (answers cs req \<longrightarrow> (\<exists>cs1. enqueue_key_update_notification cs = Some cs1))"
  using assms unfolding answers_def handle_key_update_def check_aligned_handshake_def should_update_key_def update_encrypter_and_notify_def
  by (cases req) (auto split: if_splits bind_splits)

section \<open>Runs\<close>

text \<open>The traffic state of a connection: it receives key updates, writes data and sends a closing alert. \<open>i\<close> counts the updates received, \<open>j\<close>
  those of its own side.\<close>

inductive key_run :: "send_fragment \<Rightarrow> KeyScheduleTraffic \<Rightarrow> CommonState \<Rightarrow> nat \<Rightarrow> nat \<Rightarrow> KeyScheduleTraffic \<Rightarrow> CommonState \<Rightarrow> bool"
  for send kt0 cs0 where
  start: "key_run send kt0 cs0 0 0 kt0 cs0"
| update: "key_run send kt0 cs0 i j kt cs \<Longrightarrow> handle_key_update send kt cs req = Some (Inr kt', cs') \<Longrightarrow>
    key_run send kt0 cs0 (Suc i) (if answers cs req then Suc j else j) kt' cs'"
| write_data: "key_run send kt0 cs0 i j kt cs \<Longrightarrow> send_some_plaintext send cs data = Some (n, cs') \<Longrightarrow> key_run send kt0 cs0 i j kt cs'"
| close: "key_run send kt0 cs0 i j kt cs \<Longrightarrow> send_close_notify send cs = Some cs' \<Longrightarrow> key_run send kt0 cs0 i j kt cs'"

lemma generation_simps [simp]: "generation alg s 0 = s" "updated_secret alg (generation alg s n) = generation alg s (Suc n)"
  by (simp_all add: generation_def)

lemma key_run_inv:
  assumes "tls13_suite suite st_ok" and "traffic_state suite kt0 cs0 c s" and "key_run (send_single_fragment k) kt0 cs0 i j kt cs"
  shows "cs_side cs = cs_side cs0 \<and> j \<le> i \<and> (\<exists>c' s'. traffic_state suite kt cs c' s'
    \<and> own_secret (cs_side cs0) (c', s') = generation (hkdf_algorithm suite) (own_secret (cs_side cs0) (c, s)) j
    \<and> own_secret (side_peer (cs_side cs0)) (c', s') = generation (hkdf_algorithm suite) (own_secret (side_peer (cs_side cs0)) (c, s)) i)"
  using assms(3)
proof induction
  case start
  then show ?case using assms(2) by auto
next
  case (update i j kt cs req kt' cs')
  let ?H = "hkdf_algorithm suite" and ?side = "cs_side cs0"
  obtain c1 s1 where IH: "cs_side cs = ?side" "j \<le> i" "traffic_state suite kt cs c1 s1"
      "own_secret ?side (c1, s1) = generation ?H (own_secret ?side (c, s)) j"
      "own_secret (side_peer ?side) (c1, s1) = generation ?H (own_secret (side_peer ?side) (c, s)) i"
    using update.IH by blast
  note ts = tls13_suite.traffic_state_holds [OF assms(1)]
  note inv = handle_inv [OF update.hyps(2)]
  obtain com where com: "if answers cs req then enqueue_key_update_notification cs = Some com else com = cs" "keys_of com = keys_of cs"
    using inv enqueue_keys by (cases "answers cs req") auto
  let ?p = "update_side ?H (side_peer ?side) (if answers cs req then update_side ?H ?side (c1, s1) else (c1, s1))"
  have "tls13_suite.kt_holds suite kt' ?p"
      and cs': "cs' = with_decrypter (dec_of suite (updated_secret ?H (own_secret (side_peer ?side) (c1, s1))))
        (if answers cs req then with_encrypter (enc_of suite (updated_secret ?H (own_secret ?side (c1, s1)))) com else cs)"
    using tls13_suite.handle_ok [OF assms(1), of kt "(c1, s1)" cs req com "send_single_fragment k"] IH(1,3) ts inv com update.hyps(2)
    by (auto simp: keys_of_def)
  then have "traffic_state suite kt' cs' (fst ?p) (snd ?p)"
    using IH(1,3) com(2) by (auto simp: ts record_layer_sets keys_of_def)
  then show ?case using IH(1,2,4,5) com(2) cs' by (intro conjI exI [of _ "fst ?p"] exI [of _ "snd ?p"]) (auto simp: keys_of_def record_layer_sets)
next
  case (write_data i j kt cs data n cs')
  then show ?case using sfk.write_keys [of k cs data n cs'] traffic_state_keys [of cs' cs] by (auto simp: keys_of_def)
next
  case (close i j kt cs cs')
  then show ?case using sfk.close_keys [of k cs cs'] traffic_state_keys [of cs' cs] by (auto simp: keys_of_def)
qed

section \<open>Properties\<close>

text \<open>C11: After any sequence of key updates received, data written and alerts sent in the TLS 1.3 traffic state, the record layer opens
  with the cipher of the peer's secret after exactly as many updates as were received, and seals with that of its own secret after as
  many as it answered, at most one for each received; a peer that follows the key schedule is always understood.\<close>

theorem tls13_key_updates:
  assumes "tls13_suite suite st_ok" and "traffic_state suite kt0 cs0 c s" and "key_run (send_single_fragment k) kt0 cs0 i j kt cs"
  shows "message_encrypter (cs_record_layer cs) = enc_of suite (generation (hkdf_algorithm suite) (own_secret (cs_side cs0) (c, s)) j)
    \<and> message_decrypter (cs_record_layer cs) = dec_of suite (generation (hkdf_algorithm suite) (own_secret (side_peer (cs_side cs0)) (c, s)) i)
    \<and> j \<le> i
    \<and> cipher_pair (enc_of suite (generation (hkdf_algorithm suite) (own_secret (side_peer (cs_side cs0)) (c, s)) i)) (message_decrypter (cs_record_layer cs)) (\<lambda>_. PV_TLSv1_3)"
proof -
  let ?H = "hkdf_algorithm suite" and ?side = "cs_side cs0"
  obtain c' s' where run: "cs_side cs = ?side" "j \<le> i" "traffic_state suite kt cs c' s'"
      "own_secret ?side (c', s') = generation ?H (own_secret ?side (c, s)) j"
      "own_secret (side_peer ?side) (c', s') = generation ?H (own_secret (side_peer ?side) (c, s)) i"
    using key_run_inv [OF assms] by blast
  have "\<exists>key. tls13_suite.key_is suite key (own_secret (side_peer ?side) (c', s'))"
    using run(3) by (cases "side_peer ?side") (auto simp: traffic_state_alt own_secret_def tls13_suite.key_is_def [OF assms(1)])
  then show ?thesis using run tls13_suite.pair_of [OF assms(1)] by (auto simp: traffic_state_alt)
qed

theorem tls13_key_updates_witness:
  "\<exists>key kt cs. hmac_key_new SHA256 [1] = Some key
     \<and> handle_key_update (send_single_fragment 1) (example_traffic key) example_common KU_UpdateNotRequested = Some (Inr kt, cs)
     \<and> message_decrypter (cs_record_layer cs) = dec_of example_suite (generation SHA256 [1] 1)"
proof -
  have H: "hkdf_algorithm example_suite = SHA256" by (simp add: TLS13_AES_128_GCM_SHA256_INTERNAL_def)
  obtain key where key: "hmac_key_new SHA256 [1] = Some key" "traffic_state example_suite (example_traffic key) example_common [1] [1]"
    using example_traffic_state by blast
  have com: "cs_side example_common = Server" "cs_protocol example_common \<noteq> Quic" "cs_aligned_handshake example_common" "\<not> answers example_common KU_UpdateNotRequested"
    by (simp_all add: example_common_def common_new_def answers_def record_layer_sets)
  obtain kt cs where h: "handle_key_update (send_single_fragment 1) (example_traffic key) example_common KU_UpdateNotRequested = Some (Inr kt, cs)"
    using aes128.handle_ok [of "example_traffic key" "([1], [1])" example_common KU_UpdateNotRequested example_common "send_single_fragment 1"]
      key(2) aes128.traffic_state_holds com by (auto simp del: send_single_fragment.simps One_nat_def)
  have "key_run (send_single_fragment 1) (example_traffic key) example_common (Suc 0) (if answers example_common KU_UpdateNotRequested then Suc 0 else 0) kt cs"
    by (rule key_run.update [OF key_run.start h])
  from tls13_key_updates [OF aes128.tls13_suite_axioms key(2) this] show ?thesis using key(1) h com(1) unfolding H
    by (auto simp: own_secret_def side_peer_def simp del: send_single_fragment.simps)
qed

lemma short_fragment: "0 < length (pm_payload m) \<Longrightarrow> length (pm_payload m) \<le> max_frag f \<Longrightarrow> fragment_message f m = Some [m]"
  by (cases m; cases "max_frag f") (auto simp: fragment_message_def fragment_slice_def chunks.simps)

definition closing_alert :: PlainMessage where
  "closing_alert = message_into_plain (build_alert AL_Warning AD_CloseNotify)"

lemma closing_alert_length: "length (pm_payload closing_alert) = 2"
  by (simp add: closing_alert_def message_into_plain_def build_alert_def enc_alert_def enc_enum8_def enc_u8_def)

text \<open>C34: An answer to a requested update can be overtaken. The answer is sealed with the old key and kept aside, the new key is
  installed, and only writing data puts the answer on the wire: a closing alert sent first goes out sealed with the new key, before the
  message that announces it.\<close>

theorem tls13_update_overtaken:
  assumes "tls13_suite suite st_ok" and "traffic_state suite kt cs c s" and "cs_protocol cs \<noteq> Quic" and "cs_aligned_handshake cs"
    and "cs_queued_key_update cs = None" and "write_seq (cs_record_layer cs) < SEQ_HARD_LIMIT" and "2 \<le> max_frag (cs_message_fragmenter cs)"
    and "message_encrypter (cs_record_layer cs) (message_into_plain build_key_update_notify) (write_seq (cs_record_layer cs)) = Inr answer"
    and "enc_of suite (updated_secret (hkdf_algorithm suite) (own_secret (cs_side cs) (c, s))) closing_alert 0 = Inr alert"
  shows "\<exists>kt' cs1 cs2. handle_key_update (send_single_fragment (Suc k)) kt cs KU_UpdateRequested = Some (Inr kt', cs1)
    \<and> send_close_notify (send_single_fragment (Suc k)) cs1 = Some cs2
    \<and> cvb_contents (cs_sendable_tls cs2) = cvb_contents (cs_sendable_tls cs) @ opaque_encode alert
    \<and> cs_queued_key_update cs2 = Some (opaque_encode answer)
    \<and> cvb_contents (cs_sendable_tls (perhaps_write_key_update cs2)) = cvb_contents (cs_sendable_tls cs) @ opaque_encode alert @ opaque_encode answer"
proof -
  let ?H = "hkdf_algorithm suite" and ?send = "send_single_fragment (Suc k)"
  let ?new = "enc_of suite (updated_secret ?H (own_secret (cs_side cs) (c, s)))"
  define com where "com = cs\<lparr>cs_record_layer := (cs_record_layer cs)\<lparr>write_seq := write_seq (cs_record_layer cs) + 1\<rparr>, cs_queued_key_update := Some (opaque_encode answer)\<rparr>"
  have enq: "enqueue_key_update_notification cs = Some com"
    using assms(6,8) by (simp add: enqueue_key_update_notification_def encrypt_outgoing_def encrypt_exhausted_def linorder_not_le com_def)
  define cs1 where "cs1 = with_decrypter (dec_of suite (updated_secret ?H (own_secret (side_peer (cs_side cs)) (c, s)))) (with_encrypter ?new com)"
  have ans: "answers cs KU_UpdateRequested" using assms(5) by (simp add: answers_def)
  obtain kt' where h: "handle_key_update ?send kt cs KU_UpdateRequested = Some (Inr kt', cs1)"
    using tls13_suite.handle_ok [OF assms(1), of kt "(c, s)" cs KU_UpdateRequested com ?send] assms(2-4) tls13_suite.traffic_state_holds [OF assms(1)] enq ans
    by (auto simp: cs1_def com_def simp del: send_single_fragment.simps)
  have f: "cs_protocol cs1 \<noteq> Quic" "is_encrypting (cs_record_layer cs1)" "message_encrypter (cs_record_layer cs1) = ?new" "write_seq (cs_record_layer cs1) = 0"
      "cs_message_fragmenter cs1 = cs_message_fragmenter cs" "cs_sendable_tls cs1 = cs_sendable_tls cs" "cs_queued_key_update cs1 = Some (opaque_encode answer)"
    using assms(3) by (simp_all add: cs1_def com_def record_layer_sets is_encrypting_def)
  have "write_seq (cs_record_layer cs1) < SEQ_SOFT_LIMIT" using f(4) by (simp add: SEQ_SOFT_LIMIT_def)
  then obtain cs2 where cs2: "?send cs1 closing_alert = Some cs2" "sent cs1 [alert] cs2"
    using send_single_fragment_ok [of cs1 closing_alert alert k] f(3,4) assms(9) by auto
  have "send_close_notify ?send cs1 = Some cs2"
    using cs2(1) f short_fragment [of closing_alert "cs_message_fragmenter cs"] closing_alert_length assms(7)
    by (simp add: send_close_notify_def send_warning_alert_no_log_def send_msg_def send_msg_encrypt_def closing_alert_def [symmetric] del: send_single_fragment.simps)
  moreover have "cvb_contents (cs_sendable_tls cs2) = cvb_contents (cs_sendable_tls cs) @ opaque_encode alert" "cs_queued_key_update cs2 = Some (opaque_encode answer)"
    using cs2(2) f(6,7) by (auto simp: sent_def)
  ultimately show ?thesis using h by (auto simp: perhaps_write_key_update_def cvb_append_contents simp del: send_single_fragment.simps)
qed

theorem tls13_update_overtaken_witness:
  "\<exists>key kt cs1 cs2. hmac_key_new SHA256 [1] = Some key
     \<and> handle_key_update (send_single_fragment 1) (example_traffic key) example_common KU_UpdateRequested = Some (Inr kt, cs1)
     \<and> send_close_notify (send_single_fragment 1) cs1 = Some cs2 \<and> cs_queued_key_update cs2 \<noteq> None"
proof -
  obtain key where key: "hmac_key_new SHA256 [1] = Some key" "traffic_state example_suite (example_traffic key) example_common [1] [1]"
    using example_traffic_state by blast
  have total: "\<exists>c. enc_of example_suite s m n = Inr c" for s m n
    by (auto simp: enc_of_def TLS13_AES_128_GCM_SHA256_INTERNAL_def tls13_encrypt_def sum_seal_def Let_def)
  have com: "cs_protocol example_common \<noteq> Quic" "cs_aligned_handshake example_common" "cs_queued_key_update example_common = None"
      "write_seq (cs_record_layer example_common) < SEQ_HARD_LIMIT" "2 \<le> max_frag (cs_message_fragmenter example_common)"
      "message_encrypter (cs_record_layer example_common) = enc_of example_suite [1]"
    by (simp_all add: example_common_def common_new_def record_layer_sets SEQ_HARD_LIMIT_def fragmenter_default_def MAX_FRAGMENT_LEN_def)
  obtain answer where a: "message_encrypter (cs_record_layer example_common) (message_into_plain build_key_update_notify) (write_seq (cs_record_layer example_common)) = Inr answer"
    using total com(6) by metis
  obtain alert where "enc_of example_suite (updated_secret (hkdf_algorithm example_suite) (own_secret (cs_side example_common) ([1], [1]))) closing_alert 0 = Inr alert"
    using total by metis
  from tls13_update_overtaken [OF aes128.tls13_suite_axioms key(2) com(1-5) a this, of 0] show ?thesis using key(1) unfolding One_nat_def by blast
qed

end
