(* ===== verification/Spec2Isabelle.thy ===== *)
theory Spec2Isabelle
  imports Csv_Safety Csv_In_Thms Tls_Common_Correct Tls_Cache Tls_Handshake_Thms Tls_Conn_Thms Tls_Key_Update
begin

text \<open>
  Verification of three of the crates that the Teaclave project keeps for its trusted execution
  environments: the CSV parser and writer (\<^verbatim>\<open>src/rust-csv\<close>, crates csv-core and csv), the record side, messages,
  connection and key schedule of the TLS library (\<^verbatim>\<open>src/rustls-0.21.2/rustls/src\<close>), and the digests and key
  derivation it takes from the cryptographic library (\<^verbatim>\<open>src/ring/src\<close>).

  \<^bold>\<open>Conventions.\<close> Rust integers keep their width: \<^verbatim>\<open>u8\<close> to \<^verbatim>\<open>u64\<close> are words; \<^verbatim>\<open>usize\<close> is \<^typ>\<open>nat\<close>, which is
  faithful because every \<^verbatim>\<open>usize\<close> in the modelled code is bounded by the length of a slice or vector in memory.
  A panic (an index out of range, a failed \<^verbatim>\<open>assert!\<close> or \<^verbatim>\<open>unwrap\<close>, a slice with crossed bounds) is
  \<^verbatim>\<open>None\<close> of the type \<^verbatim>\<open>may_panic\<close> of the theory Prelude; \<^verbatim>\<open>debug_assert!\<close> is not checked, as in a release
  build, but for the ones on quoting in the fast path of the csv writer, which are shown to hold. A loop that might not end is a \<^verbatim>\<open>partial_function (option)\<close>, so that running forever is
  another \<^verbatim>\<open>None\<close> around the result, and the claim that it returns is proved wherever it is made. Errors are values of
  datatypes with the constructors of the source. Mutable state is passed in and returned.

  \<^bold>\<open>Csv reading\<close> (\<^verbatim>\<open>csv-core/src/reader.rs\<close>). Csv_Machine holds the NFA (\<^verbatim>\<open>transition_nfa\<close>, \<^verbatim>\<open>transition_final_nfa\<close>), the DFA
  tables and their builder; Csv_Table proves that the table \<^verbatim>\<open>build_dfa\<close> computes is the epsilon closure of the NFA;
  Csv_Reader has \<^verbatim>\<open>read_field\<close>, \<^verbatim>\<open>read_record\<close>, their NFA and DFA versions and \<^verbatim>\<open>scan_and_copy\<close>; Csv_Correct proves both
  versions against one reference run of the automaton; Csv_Props and Csv_Safety state the results: building
  never panics except for the hidden terminator, the versions agree, reading in pieces agrees with reading at
  once, no call panics or leaves its buffers, lines are counted; and where the code differs from its documentation:
  without a class of its own for the line feed the table keeps a comment open on every byte.

  \<^bold>\<open>Csv writing\<close> (\<^verbatim>\<open>csv-core/src/writer.rs\<close>, \<^verbatim>\<open>src/writer.rs\<close>, \<^verbatim>\<open>src/byte_record.rs\<close>). Csv_Writer has the core writer, Csv_Record the byte
  record with its double-ended iterator and UTF-8 validation (theory Utf8), Csv_Out the buffered writer with its
  fast path. \<^verbatim>\<open>memchr\<close> and the \<^verbatim>\<open>io::Write\<close> behind the buffered writer are parameters with contracts (\<^verbatim>\<open>memchr\<close> finds
  the first occurrence; a successful \<^verbatim>\<open>write_all\<close> appends its bytes). Csv_Writer_Correct, Csv_Out_Correct, Csv_Out_Props and Csv_Fast
  carry the proofs; Csv_Writer_Props states that a record is written as its reference encoding for every
  buffer size of at least two, that the fast path equals the slow one, and that a buffer of size zero never returns.
  Csv_Roundtrip composes the two halves: a written record is read back field by field.

  \<^bold>\<open>Csv files\<close> (\<^verbatim>\<open>src/reader.rs\<close>, \<^verbatim>\<open>src/string_record.rs\<close>). Csv_In is the buffered reader: the builder, the loop that feeds the core reader
  from an \<^verbatim>\<open>io::BufReader\<close> and grows the record (\<^verbatim>\<open>read_loop\<close>, one turn is \<^verbatim>\<open>read_turn\<close>), headers, trimming, field counts, positions, seeking
  and the iterators; the inner \<^verbatim>\<open>io::Read\<close> and \<^verbatim>\<open>io::Seek\<close> are parameters. Csv_In_Correct states what a source promises as the
  locale \<^verbatim>\<open>byte_source\<close> and proves that the loop ends and finds the record that the automaton finds in the whole data, with no
  buffer in sight (\<^verbatim>\<open>record_at\<close>); Csv_String does the trimming of strings in UTF-8; Csv_In_Props cuts the data into records (\<^verbatim>\<open>all_records\<close>) and describes one call.
  Csv_In_Rows extends the locale to \<^verbatim>\<open>dependable_source\<close>, which never fails, and states the contract of the two ways to read as \<^verbatim>\<open>row_reader\<close>, with a
  sublocale for byte records and one for string records; Csv_In_Calls proves within it what sequences of calls deliver, Csv_In_Headers what they deliver after the headers were asked for, and
  Csv_In_Safe what holds for sources that fail, and Csv_In_Seek (locale \<^verbatim>\<open>seekable_source\<close>) what is delivered after seeking.
  Csv_In_Thms interprets the locales for byte slices, cursors and sources in pieces and states the results: the iterators
  deliver the records of the data, from any offset that is sought, written files are read back, strings are valid UTF-8 and no call panics, and an error ends the reading.
  The data is bounded by \<^verbatim>\<open>2^61\<close> bytes, so that the doubled buffers and the 64-bit positions do not overflow, and does not start with a byte order mark:
  one that fills the first buffer is taken for the end of the data, which the theory proves too.

  \<^bold>\<open>Tls wire formats\<close> (\<^verbatim>\<open>msgs/codec.rs\<close>, \<^verbatim>\<open>msgs/base.rs\<close>, \<^verbatim>\<open>enums.rs\<close>, \<^verbatim>\<open>msgs/message.rs\<close>, \<^verbatim>\<open>msgs/fragmenter.rs\<close>). Tls_Codec and Tls_Message are
  the codecs; Tls_Codec_Correct states the interface of a codec as a locale, interprets it for every integer, payload and
  enumeration, and derives the round trip of length-prefixed vectors once; Tls_Message_Correct does records and fragments.

  \<^bold>\<open>Tls handshake messages\<close> (\<^verbatim>\<open>msgs/handshake.rs\<close>, \<^verbatim>\<open>msgs/enums.rs\<close>, \<^verbatim>\<open>verify.rs\<close>). Tls_Enums, Tls_Handshake and Tls_Handshake_Msg hold the
  enumerations, the extensions and the messages with their decoders, encoders and lookups; the parser of DNS names
  (webpki) is the parameter \<^verbatim>\<open>dns\<close>. Tls_Decode is a small calculus of decoders (\<^verbatim>\<open>decodes\<close>: what the decoder makes of an encoding;
  \<^verbatim>\<open>yields\<close>: what can be said of the bytes of an accepted value) with the locale \<^verbatim>\<open>exact_codec\<close>, which
  Tls_Handshake_Correct and Tls_Extension_Correct interpret for the structures and the six families of extensions.
  Tls_Handshake_Thms states the results: messages round-trip, accepted messages are the ones their bytes encode,
  decoding ends, binders sign a prefix that does not depend on them, and lookups find what was sent. The loop over a list is a
  \<^verbatim>\<open>partial_function\<close>; its total version \<^verbatim>\<open>read_list\<close> is shown equal to it for every element type.

  \<^bold>\<open>Tls record layer\<close> (\<^verbatim>\<open>record_layer.rs\<close>, \<^verbatim>\<open>cipher.rs\<close>, \<^verbatim>\<open>tls13/mod.rs\<close>, \<^verbatim>\<open>tls12/cipher.rs\<close>). Tls_Record_Layer is the state with its 64-bit
  sequence numbers. Tls_Record_Layer_Correct has its runs (\<^verbatim>\<open>rl_run\<close>: any operations, with named keys that are installed once each, and a log of the
  records that \<^verbatim>\<open>encrypt_outgoing\<close> emitted and the key it used) and shows that each record is what the encrypter of its key makes of the message with
  the number of records sealed with that key before, and that trial decryption is bounded. Tls_Cipher has the three record protections over an AEAD that
  is a parameter (that of ring is assembly and C): its contract is that it opens what it sealed and adds a tag of sixteen bytes, and a concrete
  instance shows that it can hold. There the runs give that no record is sealed with a nonce that its key has used before.

  \<^bold>\<open>Tls buffers\<close>. Tls_Vecbuf (\<^verbatim>\<open>vecbuf.rs\<close>) refines a queue of bytes through the locale \<^verbatim>\<open>byte_fifo\<close>; Tls_Cache (\<^verbatim>\<open>limited_cache.rs\<close>) refines a
  bounded association list, for every growth policy of the deque that keeps at least the requested capacity.
  Tls_Deframer (\<^verbatim>\<open>msgs/deframer.rs\<close>) is the in-place reassembly of handshake messages; Tls_Deframer_Correct proves it
  a refinement of two queues, for every decrypter that does not lengthen a record; Tls_Deframer_Props and
  Tls_Deframer_Thms derive, for runs of reads and pops of the code (\<^verbatim>\<open>df_run\<close>), that the messages depend on the bytes and not on the
  reads, that the buffer is bounded, and that fragmented messages come out whole as long as their records fit the 65535 bytes
  that the buffer may hold, the headers included.

  \<^bold>\<open>Tls connection\<close> (\<^verbatim>\<open>common_state.rs\<close>). Tls_Common has the sending half, alerts, key updates and I/O state.
  \<^verbatim>\<open>send_single_fragment\<close> is recursive through \<^verbatim>\<open>send_close_notify\<close>; its model takes the depth of the stack, and
  a panic at every depth is the unbounded recursion that Tls_Common_Correct proves at the soft limit of the sequence
  numbers. Below that limit depth one is enough, and the theory proves that data sent by one side is
  delivered by the deframer of the other.

  \<^bold>\<open>Tls connection driver\<close> (\<^verbatim>\<open>conn.rs\<close>, \<^verbatim>\<open>check.rs\<close>, the traffic state of \<^verbatim>\<open>server/tls12.rs\<close>). Tls_Conn composes deframer, record layer and
  common state: \<^verbatim>\<open>read_tls\<close>, \<^verbatim>\<open>process_new_packets\<close>, \<^verbatim>\<open>process_msg\<close>, the plaintext reader and writer. The handler of the
  current handshake state is an argument (\<^verbatim>\<open>handler\<close>), as it is a trait object in the code. The loop \<^verbatim>\<open>process_loop\<close> is a
  \<^verbatim>\<open>partial_function\<close>: \<^verbatim>\<open>None\<close> is a loop that never ends, \<^verbatim>\<open>Some None\<close> a panic. Tls_Conn_Correct has the invariant and the locale
  \<^verbatim>\<open>quiet_sender\<close> (what sending keeps of the receiving half); Tls_Conn_Thms states that over every run (\<^verbatim>\<open>conn_run\<close>)
  processing ends, what one side writes the other delivers, the error of a message stays and that of the deframer is
  forgotten (\<^verbatim>\<open>good_turns\<close>, \<^verbatim>\<open>message_fails\<close>, \<^verbatim>\<open>deframer_fails\<close> say on which turn of the loop), a truncated stream is told from a closed
  one, and dropped \<^verbatim>\<open>change_cipher_spec\<close> messages are bounded.

  \<^bold>\<open>Ring\<close> (\<^verbatim>\<open>digest.rs\<close>, \<^verbatim>\<open>digest/sha1.rs\<close>, \<^verbatim>\<open>digest/sha2.rs\<close>, \<^verbatim>\<open>hmac.rs\<close>, \<^verbatim>\<open>hkdf.rs\<close>, \<^verbatim>\<open>pbkdf2.rs\<close>, \<^verbatim>\<open>constant_time.rs\<close>). Ring_Digest and Ring_Hmac
  are the code. Ring_Digest_Correct states what a digest algorithm promises as the locale \<^verbatim>\<open>merkle_damgard\<close>, interprets it for the five algorithms
  and proves that the streaming context computes the padded, iterated hash; Ring_Fips is FIPS 180-4 as a reference that takes nothing from the code
  (rotations and shifts, the constants as fractional parts of roots of the first primes, padding, the three hashes); Ring_Digest_Thms proves the block functions and the
  digests equal to it, through the locale \<^verbatim>\<open>sha2_family\<close> interpreted for the two word sizes;
  Ring_Hmac_Correct extends the context of the locale by HMAC (RFC 2104), HKDF (RFC 5869) and PBKDF2 (RFC 2898), whose
  reference definitions it holds; Ring_Thms states the results. The length bounds in the statements (a message of fewer than
  \<^verbatim>\<open>2^61\<close> bytes, and a little less where a key block or a label precedes it) are those of the 64-bit counter of bits.

  \<^bold>\<open>Tls keys\<close> (\<^verbatim>\<open>tls13/key_schedule.rs\<close>, \<^verbatim>\<open>suites.rs\<close>, the traffic state of \<^verbatim>\<open>server/tls13.rs\<close>). Tls_Keys is the key schedule over the HKDF of
  Ring_Hmac; Tls_Keys_Correct holds the schedule of RFC 8446 as reference, with its own labels and \<^verbatim>\<open>HkdfLabel\<close>, and the locale \<^verbatim>\<open>tls13_suite\<close>, an extension of
  \<^verbatim>\<open>merkle_damgard\<close> by an AEAD that opens what it sealed. Tls_Keys_Thms interprets it for the three suites and composes
  the calls of a client and of a server (\<^verbatim>\<open>client_keys\<close>, \<^verbatim>\<open>server_keys\<close>), keeping the state of each phase (\<^verbatim>\<open>key_phases\<close>): they agree in every one. Tls_Key_Update runs key updates,
  writes and alerts in any order (\<^verbatim>\<open>key_run\<close>) over the locale \<^verbatim>\<open>key_keeper\<close>, which \<^verbatim>\<open>send_single_fragment\<close> interprets.

  \<^bold>\<open>Not modelled.\<close> The serde glue of csv and its opening of files; the handshake state machines, certificates,
  tickets, QUIC and \<^verbatim>\<open>complete_io\<close> of rustls; its older releases; the AEAD, curves and RSA of ring, which are assembly and C
  behind thin wrappers; and the other crates: rhai, tantivy, rayon, tonic, image and
  rand are large programs of their own, mio, getrandom and num_cpus are bindings to the operating
  system, gbdt-rs, rustface and rusty-machine compute in floating point, and casbin-rs rests on rhai.
\<close>

end
